(* ===== verification/Prelude.thy ===== *)
theory Prelude
  imports Complex_Main "HOL-Library.Word"
begin

unbundle bit_operations_syntax

text \<open>
  What every component of the development shares: machine types, C results,
  byte blocks with little-endian fields, and the lemma collections that the
  component proofs draw on.

  \<^item> \<open>ub\<close> and \<open>outcome\<close>: a C function either returns a value, runs into
    undefined behaviour (an access outside an allocated block, an unlock of a
    mutex that is not held) or blocks on a mutex.
  \<^item> \<open>ld\<close> and \<open>st\<close>: loads and stores of byte ranges in an allocated block; a
    block is a list of bytes, and its length is the size that was allocated.
  \<^item> \<open>enc32\<close>, \<open>dec32\<close>, \<open>enc64\<close>, \<open>dec64\<close>: little-endian representation of the
    unsigned fields of a C struct (the ABI is armeabi-v7a).
  \<^item> \<open>c_div\<close> and \<open>c_mod\<close>: C's division, which truncates towards zero.
\<close>

named_theorems mem_simps
named_theorems codec_simps
named_theorems al_simps

type_synonym byte = "8 word"
type_synonym u16 = "16 word"
type_synonym u32 = "32 word"
type_synonym u64 = "64 word"

section \<open>Results of C functions\<close>

datatype ub =
    HeapOverflow
  | OobRead
  | UnlockNotHeld
  | NullDeref
  | DivByZero
  | BadShift
  | BadConversion
  | SignedOverflow
  | UseAfterFree
  | UncaughtException

datatype 'a outcome = Ret 'a | UB ub | Blocked

definition bnd :: "'a outcome \<Rightarrow> ('a \<Rightarrow> 'b outcome) \<Rightarrow> 'b outcome" where
  "bnd r f = (case r of Ret x \<Rightarrow> f x | UB e \<Rightarrow> UB e | Blocked \<Rightarrow> Blocked)"

lemma bnd_simps [simp]:
  "bnd (Ret x) f = f x"
  "bnd (UB e) f = UB e"
  "bnd Blocked f = Blocked"
  by (simp_all add: bnd_def)

lemma bnd_Ret_iff: "bnd r f = Ret y \<longleftrightarrow> (\<exists>x. r = Ret x \<and> f x = Ret y)"
  by (cases r) auto

section \<open>C integer division\<close>

definition c_div :: "int \<Rightarrow> int \<Rightarrow> int" where
  "c_div a b = sgn a * sgn b * (\<bar>a\<bar> div \<bar>b\<bar>)"

definition c_mod :: "int \<Rightarrow> int \<Rightarrow> int" where
  "c_mod a b = a - b * c_div a b"

lemma c_div_nonneg: "0 \<le> a \<Longrightarrow> 0 < b \<Longrightarrow> c_div a b = a div b"
  by (cases "a = 0") (simp_all add: c_div_def)

lemma c_mod_nonneg: "0 \<le> a \<Longrightarrow> 0 < b \<Longrightarrow> c_mod a b = a mod b"
  by (simp add: c_mod_def c_div_nonneg minus_mult_div_eq_mod)

lemma c_div_mod_eq: "b * c_div a b + c_mod a b = a"
  by (simp add: c_mod_def)

section \<open>Words and natural numbers\<close>

lemma unat_of_nat32 [simp]: "n < 4294967296 \<Longrightarrow> unat (of_nat n :: u32) = n"
  by (simp add: unat_of_nat)

lemma unat_of_int32 [simp]:
  assumes "0 \<le> n" "n < 4294967296"
  shows "unat (word_of_int n :: u32) = nat n"
proof -
  have "unat (of_nat (nat n) :: u32) = nat n" by (rule unat_of_nat32) (use assms in simp)
  then show ?thesis using assms by simp
qed

lemma unat_plus32: "unat p + unat q < 4294967296 \<Longrightarrow> unat (p + q :: u32) = unat p + unat q"
  by (simp add: unat_add_lem [THEN iffD1])

lemma unat_inc32: "p < q \<Longrightarrow> unat (p + 1 :: u32) = Suc (unat p)"
  using unat_plus32 [of p 1] unsigned_less [of q, where ?'a = nat] by (simp add: word_less_nat_alt)

lemma unat_of_nat8 [simp]: "n < 256 \<Longrightarrow> unat (of_nat n :: byte) = n"
  by (simp add: unat_of_nat)

lemma sint_of_nat32: "n < 2147483648 \<Longrightarrow> sint (of_nat n :: u32) = int n"
  by (simp add: signed_of_nat signed_take_bit_int_eq_self)

lemma sint_of_nat32_neg:
  assumes "2147483648 \<le> n" "n < 4294967296"
  shows "sint (of_nat n :: u32) = int n - 2 ^ 32"
proof -
  have "(of_nat n :: u32) = word_of_int (int n - 2 ^ 32)" by simp
  then have "sint (of_nat n :: u32) = signed_take_bit 31 (int n - 2 ^ 32)"
    by (simp only: signed_of_int) simp
  also have "\<dots> = int n - 2 ^ 32" by (rule signed_take_bit_int_eq_self) (use assms in simp_all)
  finally show ?thesis .
qed

lemma of_nat_eq_iff32: "m < 4294967296 \<Longrightarrow> n < 4294967296 \<Longrightarrow> (of_nat m :: u32) = of_nat n \<longleftrightarrow> m = n"
  by (metis unat_of_nat32)

lemma drop_bit_of_nat32: "k < 4294967296 \<Longrightarrow> drop_bit n (of_nat k :: u32) = of_nat (k div 2 ^ n)"
proof -
  assume k: "k < 4294967296"
  have "k div 2 ^ n < 4294967296" using k div_le_dividend [of k "2 ^ n"] by linarith
  then have "unat (drop_bit n (of_nat k :: u32)) = unat (of_nat (k div 2 ^ n) :: u32)"
    using k by (simp add: unsigned_drop_bit_eq del: drop_bit_eq_div) (simp add: drop_bit_eq_div take_bit_nat_eq_self)
  then show ?thesis by (simp only: word_unat_eq_iff)
qed

lemma take_bit_of_nat32: "take_bit n (of_nat k :: u32) = of_nat (k mod 2 ^ n)"
proof -
  have "take_bit n (of_nat k :: u32) = of_nat (take_bit n k)" by (rule bit_word_eqI) (auto simp: bit_simps)
  then show ?thesis by (simp add: take_bit_eq_mod [of n k])
qed

section \<open>Byte blocks\<close>

definition ld :: "byte list \<Rightarrow> nat \<Rightarrow> nat \<Rightarrow> byte list" where
  "ld m off n = take n (drop off m)"

definition st :: "byte list \<Rightarrow> nat \<Rightarrow> byte list \<Rightarrow> byte list" where
  "st m off bs = take off m @ bs @ drop (off + length bs) m"

lemma length_st [simp]: "off + length bs \<le> length m \<Longrightarrow> length (st m off bs) = length m"
  by (simp add: st_def)

lemma length_ld [simp]: "off + n \<le> length m \<Longrightarrow> length (ld m off n) = n"
  by (simp add: ld_def)

lemma ld_st_same [mem_simps]:
  "off + length bs \<le> length m \<Longrightarrow> n = length bs \<Longrightarrow> ld (st m off bs) off n = bs"
  by (simp add: ld_def st_def)

lemma ld_st_before [mem_simps]:
  "off + length bs \<le> length m \<Longrightarrow> a + n \<le> off \<Longrightarrow> ld (st m off bs) a n = ld m a n"
  by (simp add: ld_def st_def take_drop min_def)

lemma drop_st_after:
  "off + length bs \<le> a \<Longrightarrow> off + length bs \<le> length m \<Longrightarrow> drop a (st m off bs) = drop a m"
  by (simp add: st_def)

lemma ld_st_after [mem_simps]:
  "off + length bs \<le> length m \<Longrightarrow> off + length bs \<le> a \<Longrightarrow> ld (st m off bs) a n = ld m a n"
  by (simp add: ld_def drop_st_after)

lemma ld_st_within [mem_simps]:
  assumes "off + length bs \<le> length m" "off \<le> a" "a + n \<le> off + length bs"
  shows "ld (st m off bs) a n = take n (drop (a - off) bs)"
  using assms by (simp add: ld_def st_def)

text \<open>\<open>memcpy(dst + doff, src + soff, n)\<close> with the bounds of both blocks.\<close>

definition mcpy :: "byte list \<Rightarrow> int \<Rightarrow> byte list \<Rightarrow> int \<Rightarrow> int \<Rightarrow> byte list outcome" where
  "mcpy dst doff src soff n =
     (if n < 0 \<or> soff < 0 \<or> int (length src) < soff + n then UB OobRead
      else if doff < 0 \<or> int (length dst) < doff + n then UB HeapOverflow
      else Ret (st dst (nat doff) (ld src (nat soff) (nat n))))"

lemma mcpy_ok [mem_simps]:
  "a + n \<le> length dst \<Longrightarrow> b + n \<le> length src \<Longrightarrow>
   mcpy dst (int a) src (int b) (int n) = Ret (st dst a (ld src b n))"
  by (simp add: mcpy_def)

section \<open>Signed 32-bit arithmetic\<close>

definition in32 :: "int \<Rightarrow> bool" where
  "in32 x \<longleftrightarrow> - 2147483648 \<le> x \<and> x \<le> 2147483647"

definition s32 :: "int \<Rightarrow> int outcome" where
  "s32 x = (if in32 x then Ret x else UB SignedOverflow)"

lemma s32_ok [simp]: "- 2147483648 \<le> x \<Longrightarrow> x \<le> 2147483647 \<Longrightarrow> s32 x = Ret x"
  by (simp add: s32_def in32_def)

definition s64 :: "int \<Rightarrow> int outcome" where
  "s64 x = (if - (2 ^ 63) \<le> x \<and> x < 2 ^ 63 then Ret x else UB SignedOverflow)"

section \<open>Little-endian fields\<close>

definition enc32 :: "u32 \<Rightarrow> byte list" where
  "enc32 w = [ucast w, ucast (drop_bit 8 w), ucast (drop_bit 16 w), ucast (drop_bit 24 w)]"

definition dec32 :: "byte list \<Rightarrow> u32" where
  "dec32 bs = ucast (bs ! 0) OR push_bit 8 (ucast (bs ! 1))
     OR push_bit 16 (ucast (bs ! 2)) OR push_bit 24 (ucast (bs ! 3))"

definition enc64 :: "u64 \<Rightarrow> byte list" where
  "enc64 w = enc32 (ucast w) @ enc32 (ucast (drop_bit 32 w))"

definition dec64 :: "byte list \<Rightarrow> u64" where
  "dec64 bs = ucast (dec32 (take 4 bs)) OR push_bit 32 (ucast (dec32 (drop 4 bs)))"

lemma length_enc [simp]: "length (enc32 w) = 4" "length (enc64 v) = 8"
  by (simp_all add: enc32_def enc64_def)

lemma dec32_enc32 [simp, codec_simps]: "dec32 (enc32 w) = w"
proof (rule bit_word_eqI)
  fix n assume "n < LENGTH(32)"
  then have n: "n < 32" by simp
  have "n < 8 \<or> 8 \<le> n \<and> n < 16 \<or> 16 \<le> n \<and> n < 24 \<or> 24 \<le> n" by arith
  then show "bit (dec32 (enc32 w)) n \<longleftrightarrow> bit w n"
    using n by (auto simp: dec32_def enc32_def bit_simps)
qed

lemma dec64_enc64 [simp, codec_simps]: "dec64 (enc64 w) = w"
proof (rule bit_word_eqI)
  fix n assume "n < LENGTH(64)"
  then have n: "n < 64" by simp
  have "n < 32 \<or> 32 \<le> n" by arith
  then show "bit (dec64 (enc64 w)) n \<longleftrightarrow> bit w n"
    using n by (auto simp: dec64_def enc64_def bit_simps)
qed

section \<open>Feeding and draining a channel\<close>

fun feed :: "('s \<Rightarrow> 'f \<Rightarrow> 's option) \<Rightarrow> 's \<Rightarrow> 'f list \<Rightarrow> 's option" where
  "feed put s [] = Some s"
| "feed put s (f # fs) = (case put s f of None \<Rightarrow> None | Some s' \<Rightarrow> feed put s' fs)"

fun drain :: "('s \<Rightarrow> ('g \<times> 's) option) \<Rightarrow> nat \<Rightarrow> 's \<Rightarrow> 'g list" where
  "drain get 0 s = []"
| "drain get (Suc n) s = (case get s of None \<Rightarrow> [] | Some (g, s') \<Rightarrow> g # drain get n s')"

text \<open>
  The contract between a writer and a reader of frames: a write appends, a read
  returns the view of the frame at the reader's cursor and advances it, and a
  reader at the end gets nothing.
\<close>

locale frame_channel =
  fixes put :: "'s \<Rightarrow> 'f \<Rightarrow> 's option"
    and get :: "'s \<Rightarrow> ('g \<times> 's) option"
    and view :: "'f \<Rightarrow> 'g"
    and rep :: "'s \<Rightarrow> 'f list \<Rightarrow> nat \<Rightarrow> bool"
    and room :: "'s \<Rightarrow> 'f list \<Rightarrow> bool"
  assumes put_appends: "rep s fs k \<Longrightarrow> room s (f # gs) \<Longrightarrow>
      \<exists>s'. put s f = Some s' \<and> rep s' (fs @ [f]) k \<and> room s' gs"
    and get_next: "rep s fs k \<Longrightarrow> k < length fs \<Longrightarrow>
      \<exists>s'. get s = Some (view (fs ! k), s') \<and> rep s' fs (Suc k)"
    and get_at_end: "rep s fs (length fs) \<Longrightarrow> get s = None"
    and cursor_le: "rep s fs k \<Longrightarrow> k \<le> length fs"
begin

lemma feed_appends:
  "rep s fs k \<Longrightarrow> room s gs \<Longrightarrow> \<exists>s'. feed put s gs = Some s' \<and> rep s' (fs @ gs) k"
proof (induction gs arbitrary: s fs)
  case Nil
  then show ?case by simp
next
  case (Cons g gs)
  obtain s' where "put s g = Some s'" and "rep s' (fs @ [g]) k" and "room s' gs"
    using put_appends [OF Cons.prems] by blast
  then show ?case using Cons.IH [of s' "fs @ [g]"] by simp
qed

lemma drain_all: "rep s fs k \<Longrightarrow> length fs - k \<le> n \<Longrightarrow> drain get n s = map view (drop k fs)"
proof (induction n arbitrary: s k)
  case 0
  then show ?case by simp
next
  case (Suc n)
  show ?case
  proof (cases "k < length fs")
    case True
    then obtain s' where "get s = Some (view (fs ! k), s')" "rep s' fs (Suc k)"
      using get_next [OF Suc.prems(1)] by blast
    then show ?thesis using Suc.IH [of s' "Suc k"] Suc.prems(2) True
      by (simp add: Cons_nth_drop_Suc [symmetric])
  next
    case False
    then have "k = length fs" using cursor_le [OF Suc.prems(1)] by simp
    then show ?thesis using get_at_end Suc.prems(1) by simp
  qed
qed

lemma fifo:
  assumes "rep s fs k" "room s gs"
  shows "\<exists>s'. feed put s gs = Some s' \<and>
     drain get (length fs + length gs) s' = map view (drop k fs @ gs)"
proof -
  obtain s' where "feed put s gs = Some s'" and r: "rep s' (fs @ gs) k"
    using feed_appends [OF assms] by blast
  moreover have "drain get (length fs + length gs) s' = map view (drop k (fs @ gs))"
    by (rule drain_all [OF r]) simp
  ultimately show ?thesis using cursor_le [OF assms(1)] by simp
qed

end

end
