(* ===== verification/AL_UIntMap.thy ===== *)
theory AL_UIntMap
  imports Prelude
begin

text \<open>
  The handle maps of OpenAL-soft (\<^verbatim>\<open>Alc/ALc.c\<close>, \<open>InitUIntMap\<close> to \<open>LookupUIntMapKey\<close>): an
  array of key/value pairs kept sorted by key, searched by bisection and grown
  by doubling. Cells past \<open>size\<close> are written before they are read, so the model
  keeps the first \<open>size\<close> cells; \<open>maxsize\<close> is the capacity of the allocation.
  The result of \<open>realloc\<close> is an argument: whether an array of that many entries
  can be had. A NULL value of the lookup is \<open>None\<close>.
\<close>

section \<open>Error codes of the library\<close>

type_synonym ALenum = int
type_synonym ALuint = u32

definition AL_NO_ERROR :: ALenum where "AL_NO_ERROR = 0"
definition AL_INVALID_NAME :: ALenum where "AL_INVALID_NAME = 0xA001"
definition AL_INVALID_ENUM :: ALenum where "AL_INVALID_ENUM = 0xA002"
definition AL_INVALID_VALUE :: ALenum where "AL_INVALID_VALUE = 0xA003"
definition AL_INVALID_OPERATION :: ALenum where "AL_INVALID_OPERATION = 0xA004"
definition AL_OUT_OF_MEMORY :: ALenum where "AL_OUT_OF_MEMORY = 0xA005"

lemmas al_errors [al_simps] = AL_NO_ERROR_def AL_INVALID_NAME_def AL_INVALID_ENUM_def
  AL_INVALID_VALUE_def AL_INVALID_OPERATION_def AL_OUT_OF_MEMORY_def

section \<open>The map\<close>

record 'v uintmap =
  um_array :: "(ALuint \<times> 'v) list"
  um_size :: nat
  um_maxsize :: nat

definition InitUIntMap :: "'v uintmap" where
  "InitUIntMap = \<lparr>um_array = [], um_size = 0, um_maxsize = 0\<rparr>"

definition ResetUIntMap :: "'v uintmap \<Rightarrow> 'v uintmap" where
  "ResetUIntMap m = m\<lparr>um_array := [], um_size := 0, um_maxsize := 0\<rparr>"

text \<open>The bisection loop that the three operations share.\<close>

function bisect :: "(ALuint \<times> 'v) list \<Rightarrow> ALuint \<Rightarrow> nat \<Rightarrow> nat \<Rightarrow> nat" where
  "bisect a key low high =
     (if low < high then
        let mid = low + (high - low) div 2 in
        if fst (a ! mid) < key then bisect a key (mid + 1) high else bisect a key low mid
      else low)"
  by pat_completeness auto
termination by (relation "measure (\<lambda>(a, key, low, high). high - low)") (auto simp: Let_def)

declare bisect.simps [simp del]

text \<open>The search over the whole (non-empty) array.\<close>

definition search_pos :: "'v uintmap \<Rightarrow> ALuint \<Rightarrow> nat" where
  "search_pos m key = bisect (um_array m) key 0 (um_size m - 1)"

definition insert_pos :: "'v uintmap \<Rightarrow> ALuint \<Rightarrow> nat" where
  "insert_pos m key =
     (if 0 < um_size m then
        let low = search_pos m key in
        if fst (um_array m ! low) < key then low + 1 else low
      else 0)"

text \<open>\<open>maxsize<<1\<close> on a 32-bit \<open>int\<close>.\<close>

definition grown_size :: "nat \<Rightarrow> int" where
  "grown_size maxsize = (if maxsize \<noteq> 0 then sint (push_bit 1 (of_nat maxsize) :: u32) else 4)"

definition InsertUIntMapEntry ::
    "(nat \<Rightarrow> bool) \<Rightarrow> 'v uintmap \<Rightarrow> ALuint \<Rightarrow> 'v \<Rightarrow> ALenum \<times> 'v uintmap" where
  "InsertUIntMapEntry realloc_ok m key val =
     (let pos = insert_pos m key in
      if pos = um_size m \<or> fst (um_array m ! pos) \<noteq> key then
        if um_size m = um_maxsize m \<and>
           (grown_size (um_maxsize m) < int (um_maxsize m) \<or> \<not> realloc_ok (nat (grown_size (um_maxsize m))))
        then (AL_OUT_OF_MEMORY, m)
        else
          (AL_NO_ERROR,
           m\<lparr>um_maxsize := (if um_size m = um_maxsize m then nat (grown_size (um_maxsize m)) else um_maxsize m),
             um_size := um_size m + 1,
             um_array := take pos (um_array m) @ (key, val) # drop pos (um_array m)\<rparr>)
      else (AL_NO_ERROR, m\<lparr>um_array := (um_array m)[pos := (key, val)]\<rparr>))"

definition RemoveUIntMapKey :: "'v uintmap \<Rightarrow> ALuint \<Rightarrow> 'v uintmap" where
  "RemoveUIntMapKey m key =
     (if 0 < um_size m then
        let low = search_pos m key in
        if fst (um_array m ! low) = key
        then m\<lparr>um_array := take low (um_array m) @ drop (low + 1) (um_array m), um_size := um_size m - 1\<rparr>
        else m
      else m)"

definition LookupUIntMapKey :: "'v uintmap \<Rightarrow> ALuint \<Rightarrow> 'v option" where
  "LookupUIntMapKey m key =
     (if 0 < um_size m then
        let low = search_pos m key in
        if fst (um_array m ! low) = key then Some (snd (um_array m ! low)) else None
      else None)"

section \<open>Interface\<close>

text \<open>What the users of a handle map rely on.\<close>

locale handle_map =
  fixes look :: "'m \<Rightarrow> ALuint \<Rightarrow> 'v option"
    and ins :: "'m \<Rightarrow> ALuint \<Rightarrow> 'v \<Rightarrow> ALenum \<times> 'm"
    and del :: "'m \<Rightarrow> ALuint \<Rightarrow> 'm"
    and ok :: "'m \<Rightarrow> bool"
  assumes ins_cases: "ok m \<Longrightarrow>
      (\<exists>m'. ins m k v = (AL_NO_ERROR, m') \<and> ok m' \<and> look m' = (look m)(k \<mapsto> v)) \<or>
      ins m k v = (AL_OUT_OF_MEMORY, m)"
    and look_del: "ok m \<Longrightarrow> look (del m k) = (look m)(k := None)"
    and ok_del: "ok m \<Longrightarrow> ok (del m k)"
    and finite_dom: "ok m \<Longrightarrow> finite (dom (look m))"
begin

lemma ok_ins: "ok m \<Longrightarrow> ok (snd (ins m k v))"
  using ins_cases [of m k v] by auto

lemma ins_result: "ok m \<Longrightarrow> fst (ins m k v) = AL_NO_ERROR \<or> fst (ins m k v) = AL_OUT_OF_MEMORY"
  using ins_cases [of m k v] by auto

lemma look_ins: "ok m \<Longrightarrow> ins m k v = (AL_NO_ERROR, m') \<Longrightarrow> look m' = (look m)(k \<mapsto> v)"
  using ins_cases [of m k v] by (auto simp: al_simps)

lemma ins_failed: "ok m \<Longrightarrow> fst (ins m k v) \<noteq> AL_NO_ERROR \<Longrightarrow> snd (ins m k v) = m"
  using ins_cases [of m k v] by auto

lemma del_ins:
  "ok m \<Longrightarrow> ins m k v = (AL_NO_ERROR, m') \<Longrightarrow> look m k = None \<Longrightarrow> look (del m' k) = look m"
  using ins_cases [of m k v] by (auto simp: al_simps look_del)

lemma foldl_del:
  "ok m \<Longrightarrow> ok (foldl del m ks) \<and> look (foldl del m ks) = (look m) |` (- set ks)"
proof (induction ks arbitrary: m)
  case Nil
  then show ?case by simp
next
  case (Cons k ks)
  then show ?case using Cons.IH [of "del m k"]
    by (auto simp: ok_del look_del restrict_map_def fun_eq_iff)
qed

end

section \<open>The array implements the interface\<close>

definition um_inv :: "'v uintmap \<Rightarrow> bool" where
  "um_inv m \<longleftrightarrow> um_size m = length (um_array m) \<and> um_size m \<le> um_maxsize m \<and> um_maxsize m < 2 ^ 31 \<and>
     sorted_wrt (<) (map fst (um_array m))"

lemma keys_mono:
  fixes a :: "(ALuint \<times> 'v) list"
  shows "sorted_wrt (<) (map fst a) \<Longrightarrow> i < j \<Longrightarrow> j < length a \<Longrightarrow> fst (a ! i) < fst (a ! j)"
  by (simp add: sorted_wrt_iff_nth_less)

lemma keys_le:
  fixes a :: "(ALuint \<times> 'v) list"
  shows "sorted_wrt (<) (map fst a) \<Longrightarrow> i \<le> j \<Longrightarrow> j < length a \<Longrightarrow> fst (a ! i) \<le> fst (a ! j)"
  by (cases "i = j") (auto dest: keys_mono [of a i j])

text \<open>Bisection narrows to the first position whose key is not below the one sought.\<close>

lemma bisect_bounds: "low \<le> high \<Longrightarrow> low \<le> bisect a key low high \<and> bisect a key low high \<le> high"
proof (induction a key low high rule: bisect.induct)
  case (1 a key low high)
  show ?case
  proof (cases "low < high")
    case True
    define mid where "mid = low + (high - low) div 2"
    have "low \<le> mid" "mid < high" using True by (auto simp: mid_def)
    then show ?thesis using 1 True by (subst (1 2) bisect.simps) (auto simp: mid_def [symmetric] Let_def)
  qed (use 1 in \<open>simp add: bisect.simps\<close>)
qed

lemma bisect_split:
  assumes "sorted_wrt (<) (map fst a)" "low \<le> high" "high < length a"
    "\<forall>i<low. fst (a ! i) < key" "Suc high = length a \<or> key \<le> fst (a ! high)"
  shows "(\<forall>i<bisect a key low high. fst (a ! i) < key) \<and>
     (Suc (bisect a key low high) = length a \<or> key \<le> fst (a ! bisect a key low high))"
  using assms
proof (induction a key low high rule: bisect.induct)
  case (1 a key low high)
  show ?case
  proof (cases "low < high")
    case True
    define mid where "mid = low + (high - low) div 2"
    have m: "low \<le> mid" "mid < high" using True by (auto simp: mid_def)
    show ?thesis
    proof (cases "fst (a ! mid) < key")
      case less: True
      have "\<forall>i<mid + 1. fst (a ! i) < key"
      proof (intro allI impI)
        fix i assume "i < mid + 1"
        then have "fst (a ! i) \<le> fst (a ! mid)" using keys_le [OF 1(3), of i mid] m 1(5) by simp
        then show "fst (a ! i) < key" using less by simp
      qed
      moreover have "bisect a key low high = bisect a key (mid + 1) high"
        using True less by (subst bisect.simps) (simp add: mid_def [symmetric] Let_def)
      ultimately show ?thesis using 1(1) [OF True mid_def] less 1(3-7) m by simp
    next
      case ge: False
      moreover have "bisect a key low high = bisect a key low mid"
        using True ge by (subst bisect.simps) (simp add: mid_def [symmetric] Let_def)
      ultimately show ?thesis using 1(2) [OF True mid_def] 1(3-7) m by simp
    qed
  next
    case False
    then have "low = high" using 1(4) by simp
    then show ?thesis using 1(6,7) by (simp add: bisect.simps)
  qed
qed

text \<open>The search as the operations use it.\<close>

lemma bisect_found:
  assumes inv: "um_inv m" and "0 < um_size m" and "low = search_pos m key"
  shows "low < length (um_array m) \<and> (\<forall>i<low. fst (um_array m ! i) < key) \<and>
    (Suc low = length (um_array m) \<or> key \<le> fst (um_array m ! low))"
proof -
  have s: "sorted_wrt (<) (map fst (um_array m))" "um_size m = length (um_array m)"
    using inv by (simp_all add: um_inv_def)
  have "low < length (um_array m)"
    using bisect_bounds [of 0 "um_size m - 1" "um_array m" key] assms(2) s(2)
    unfolding assms(3) search_pos_def by linarith
  moreover have "(\<forall>i<low. fst (um_array m ! i) < key) \<and>
      (Suc low = length (um_array m) \<or> key \<le> fst (um_array m ! low))"
    unfolding assms(3) search_pos_def by (rule bisect_split) (use s assms(2) in auto)
  ultimately show ?thesis by simp
qed

lemma keys_after: "um_inv m \<Longrightarrow> i < j \<Longrightarrow> j < length (um_array m) \<Longrightarrow> fst (um_array m ! i) < fst (um_array m ! j)"
  by (rule keys_mono) (simp_all add: um_inv_def)

text \<open>The position the insertion computes cuts the array into smaller and not smaller keys.\<close>

lemma insert_pos_spec:
  assumes inv: "um_inv m" and pos: "pos = insert_pos m key"
  shows "pos \<le> length (um_array m) \<and> (\<forall>i<pos. fst (um_array m ! i) < key) \<and>
     (\<forall>i. pos \<le> i \<and> i < length (um_array m) \<longrightarrow> key \<le> fst (um_array m ! i))"
proof (cases "0 < um_size m")
  case True
  define low where "low = search_pos m key"
  note f = bisect_found [OF inv True low_def]
  have up: "fst (um_array m ! low) \<le> fst (um_array m ! i)" if "low \<le> i" "i < length (um_array m)" for i
    using that keys_after [OF inv, of low i] by (cases "low = i") auto
  show ?thesis
  proof (cases "fst (um_array m ! low) < key")
    case less: True
    then have "pos = Suc low" using True pos by (simp add: insert_pos_def low_def [symmetric] Let_def)
    moreover have "Suc low = length (um_array m)" using f less by auto
    moreover have "fst (um_array m ! i) < key" if "i < Suc low" for i
      using that f less by (cases "i = low") auto
    ultimately show ?thesis by auto
  next
    case ge: False
    then have "pos = low" using True pos by (simp add: insert_pos_def low_def [symmetric] Let_def)
    then show ?thesis using f ge up by (meson less_imp_le not_less order_trans)
  qed
next
  case False
  then show ?thesis using inv pos by (simp add: insert_pos_def um_inv_def)
qed

section \<open>Abstraction\<close>

definition um_abs :: "'v uintmap \<Rightarrow> ALuint \<rightharpoonup> 'v" where
  "um_abs m = map_of (um_array m)"

lemma um_inv_distinct: "um_inv m \<Longrightarrow> distinct (map fst (um_array m))"
  unfolding um_inv_def using strict_sorted_iff [of "map fst (um_array m)"] by (simp add: strict_sorted_iff)

lemma um_abs_nth: "um_inv m \<Longrightarrow> i < length (um_array m) \<Longrightarrow> um_abs m (fst (um_array m ! i)) = Some (snd (um_array m ! i))"
  unfolding um_abs_def by (rule map_of_is_SomeI) (simp_all add: um_inv_distinct)

lemma um_abs_None: "(\<And>i. i < length (um_array m) \<Longrightarrow> fst (um_array m ! i) \<noteq> key) \<Longrightarrow> um_abs m key = None"
  by (force simp: um_abs_def map_of_eq_None_iff in_set_conv_nth)

lemma LookupUIntMapKey_abs: "um_inv m \<Longrightarrow> LookupUIntMapKey m = um_abs m"
proof (rule ext)
  fix key assume inv: "um_inv m"
  show "LookupUIntMapKey m key = um_abs m key"
  proof (cases "0 < um_size m")
    case True
    define low where "low = search_pos m key"
    note f = bisect_found [OF inv True low_def]
    show ?thesis
    proof (cases "fst (um_array m ! low) = key")
      case hit: True
      then show ?thesis using f True um_abs_nth [OF inv, of low]
        by (auto simp: LookupUIntMapKey_def low_def [symmetric] Let_def)
    next
      case miss: False
      have "um_abs m key = None"
      proof (rule um_abs_None)
        fix i assume i: "i < length (um_array m)"
        consider "i < low" | "i = low" | "low < i" by arith
        then show "fst (um_array m ! i) \<noteq> key"
        proof cases
          case 3
          then have "fst (um_array m ! low) < fst (um_array m ! i)" using keys_after [OF inv] i by simp
          then show ?thesis using f 3 i by auto
        qed (use f miss in auto)
      qed
      then show ?thesis using True miss by (simp add: LookupUIntMapKey_def low_def [symmetric] Let_def)
    qed
  next
    case False
    then show ?thesis using inv by (simp add: LookupUIntMapKey_def um_abs_def um_inv_def)
  qed
qed


lemma map_of_drop_insert:
  assumes "k \<notin> fst ` set xs"
  shows "map_of (xs @ (k, v) # ys) = (map_of (xs @ ys))(k \<mapsto> v)"
  using assms by (auto simp: map_add_def fun_eq_iff dom_map_of_conv_image_fst split: option.splits
      dest: map_of_SomeD) (metis (no_types) image_eqI fst_conv map_of_SomeD)

lemma set_take_all: "\<forall>i<n. P (xs ! i) \<Longrightarrow> \<forall>x\<in>set (take n xs). P x"
  by (auto simp: in_set_conv_nth)

lemma set_drop_all: "\<forall>i. n \<le> i \<and> i < length xs \<longrightarrow> P (xs ! i) \<Longrightarrow> \<forall>x\<in>set (drop n xs). P x"
  by (auto simp: in_set_conv_nth)

lemma sorted_insert_mid:
  assumes "sorted_wrt (<) (map fst xs)" "\<forall>i<pos. fst (xs ! i) < (k :: ALuint)"
    "\<forall>i. pos \<le> i \<and> i < length xs \<longrightarrow> k < fst (xs ! i)" "pos \<le> length xs"
  shows "sorted_wrt (<) (map fst (take pos xs @ (k, v) # drop pos xs))"
proof -
  have "\<forall>x\<in>set (take pos xs). fst x < k" by (rule set_take_all [OF assms(2)])
  moreover have "\<forall>x\<in>set (drop pos xs). k < fst x" by (rule set_drop_all [OF assms(3)])
  moreover have "sorted_wrt (<) (map fst (take pos xs @ drop pos xs))" using assms(1) by simp
  ultimately show ?thesis by (auto simp: sorted_wrt_append simp del: append_take_drop_id)
qed

text \<open>A new key goes in at its place; an existing one gets the new value.\<close>

lemma insert_at:
  assumes inv: "um_inv m" and pos: "pos = insert_pos m key"
    and new: "pos = um_size m \<or> fst (um_array m ! pos) \<noteq> key" and cap: "Suc (um_size m) \<le> c" "c < 2 ^ 31"
    and m': "m' = m\<lparr>um_maxsize := c, um_size := um_size m + 1,
      um_array := take pos (um_array m) @ (key, v) # drop pos (um_array m)\<rparr>"
  shows "um_inv m' \<and> um_abs m' = (um_abs m)(key \<mapsto> v)"
proof -
  note p = insert_pos_spec [OF inv pos]
  have s: "sorted_wrt (<) (map fst (um_array m))" "um_size m = length (um_array m)"
    using inv by (simp_all add: um_inv_def)
  have above: "\<forall>i. pos \<le> i \<and> i < length (um_array m) \<longrightarrow> key < fst (um_array m ! i)"
  proof (intro allI impI)
    fix i assume i: "pos \<le> i \<and> i < length (um_array m)"
    then have "key \<le> fst (um_array m ! pos)" "fst (um_array m ! pos) \<noteq> key" using p new s(2) by auto
    moreover have "fst (um_array m ! pos) \<le> fst (um_array m ! i)"
      using i keys_le [OF s(1), of pos i] by simp
    ultimately show "key < fst (um_array m ! i)" by simp
  qed
  have "um_inv m'"
    using sorted_insert_mid [OF s(1) conjunct1 [OF conjunct2 [OF p]] above conjunct1 [OF p]] s(2) cap p
    by (auto simp: um_inv_def m')
  moreover have "key \<notin> fst ` set (take pos (um_array m))"
    using set_take_all [OF conjunct1 [OF conjunct2 [OF p]]] by auto
  ultimately show ?thesis by (simp add: um_abs_def m' map_of_drop_insert del: map_of_append)
qed

lemma replace_at:
  assumes inv: "um_inv m" and i: "i < length (um_array m)" and k: "fst (um_array m ! i) = key"
    and m': "m' = m\<lparr>um_array := (um_array m)[i := (key, v)]\<rparr>"
  shows "um_inv m' \<and> um_abs m' = (um_abs m)(key \<mapsto> v)"
proof -
  have keys: "map fst ((um_array m)[i := (key, v)]) = map fst (um_array m)"
    using i k by (simp add: map_update list_update_same_conv)
  then have inv': "um_inv m'" using inv by (simp add: um_inv_def m')
  have "um_abs m' x = ((um_abs m)(key \<mapsto> v)) x" for x
  proof (cases "\<exists>j<length (um_array m). fst (um_array m ! j) = x")
    case True
    then obtain j where j: "j < length (um_array m)" "fst (um_array m ! j) = x" by blast
    have "fst (um_array m' ! j) = x" using j k by (cases "j = i") (simp_all add: m')
    then have "um_abs m' x = Some (snd (um_array m' ! j))" using um_abs_nth [OF inv', of j] j by (simp add: m')
    moreover have "i = j" if "x = key"
      using that keys_after [OF inv, of i j] keys_after [OF inv, of j i] i j k
      by (metis less_irrefl linorder_neqE_nat)
    ultimately show ?thesis using um_abs_nth [OF inv j(1)] j i k by (cases "j = i") (auto simp: m')
  next
    case False
    then have "x \<noteq> key" using i k by auto
    moreover have "um_abs m' x = None" by (rule um_abs_None) (use False keys i k in \<open>auto simp: m' nth_list_update split: if_splits\<close>)
    ultimately show ?thesis using False um_abs_None [of m x] by auto
  qed
  with inv' show ?thesis by (simp add: fun_eq_iff)
qed

lemma grown_size_eq:
  assumes "n < 2 ^ 31"
  shows "grown_size n = (if n = 0 then 4 else if n < 2 ^ 30 then int (2 * n) else int (2 * n) - 2 ^ 32)"
proof (cases "n = 0")
  case False
  then have g: "grown_size n = sint (of_nat (2 * n) :: u32)"
    by (simp add: grown_size_def push_bit_eq_mult mult.commute)
  show ?thesis
  proof (cases "n < 2 ^ 30")
    case True
    then have "sint (of_nat (2 * n) :: u32) = int (2 * n)" by (intro sint_of_nat32) simp
    then show ?thesis using False True g by simp
  next
    case big: False
    then have "sint (of_nat (2 * n) :: u32) = int (2 * n) - 2 ^ 32"
      using assms by (intro sint_of_nat32_neg) simp_all
    then show ?thesis using False big g by simp
  qed
qed (simp add: grown_size_def)

lemma grown_size_ok:
  "n < 2 ^ 31 \<Longrightarrow> \<not> grown_size n < int n \<Longrightarrow> Suc n \<le> nat (grown_size n) \<and> nat (grown_size n) < 2 ^ 31"
  by (auto simp: grown_size_eq split: if_splits)

text \<open>The place of a key holds it exactly when the map has it.\<close>

lemma insert_pos_present:
  assumes inv: "um_inv m"
  shows "insert_pos m k = um_size m \<or> fst (um_array m ! insert_pos m k) \<noteq> k \<longleftrightarrow> LookupUIntMapKey m k = None"
proof -
  note p = insert_pos_spec [OF inv refl, of k]
  have s: "um_size m = length (um_array m)" using inv by (simp add: um_inv_def)
  show ?thesis
  proof
    assume new: "insert_pos m k = um_size m \<or> fst (um_array m ! insert_pos m k) \<noteq> k"
    have "fst (um_array m ! i) \<noteq> k" if i: "i < length (um_array m)" for i
    proof (cases "i < insert_pos m k")
      case False
      then have pos: "insert_pos m k < length (um_array m)" using i by simp
      then have "k < fst (um_array m ! insert_pos m k)" using new p s by auto
      moreover have "fst (um_array m ! insert_pos m k) \<le> fst (um_array m ! i)"
        using False i keys_le [of "um_array m" "insert_pos m k" i] inv by (simp add: um_inv_def)
      ultimately show ?thesis by auto
    qed (use p in auto)
    then show "LookupUIntMapKey m k = None" using um_abs_None LookupUIntMapKey_abs [OF inv] by metis
  next
    assume none: "LookupUIntMapKey m k = None"
    show "insert_pos m k = um_size m \<or> fst (um_array m ! insert_pos m k) \<noteq> k"
      using none p s um_abs_nth [OF inv, of "insert_pos m k"] LookupUIntMapKey_abs [OF inv] by auto
  qed
qed

lemma InsertUIntMapEntry_cases:
  assumes inv: "um_inv m"
  shows "(\<exists>m'. InsertUIntMapEntry R m k v = (AL_NO_ERROR, m') \<and> um_inv m' \<and> um_abs m' = (um_abs m)(k \<mapsto> v)) \<or>
     InsertUIntMapEntry R m k v = (AL_OUT_OF_MEMORY, m)"
proof -
  define pos where "pos = insert_pos m k"
  note p = insert_pos_spec [OF inv pos_def]
  have s: "um_size m = length (um_array m)" "um_size m \<le> um_maxsize m" "um_maxsize m < 2 ^ 31"
    using inv by (simp_all add: um_inv_def)
  define c where "c = (if um_size m = um_maxsize m then nat (grown_size (um_maxsize m)) else um_maxsize m)"
  show ?thesis
  proof (cases "pos = um_size m \<or> fst (um_array m ! pos) \<noteq> k")
    case new: True
    show ?thesis
    proof (cases "um_size m = um_maxsize m \<and>
           (grown_size (um_maxsize m) < int (um_maxsize m) \<or> \<not> R (nat (grown_size (um_maxsize m))))")
      case True
      then show ?thesis using new by (simp add: InsertUIntMapEntry_def pos_def [symmetric] Let_def)
    next
      case False
      then have "Suc (um_size m) \<le> c \<and> c < 2 ^ 31"
        using grown_size_ok [OF s(3)] s(2,3) by (auto simp: c_def)
      then have "um_inv (m\<lparr>um_maxsize := c, um_size := um_size m + 1,
            um_array := take pos (um_array m) @ (k, v) # drop pos (um_array m)\<rparr>) \<and>
          um_abs (m\<lparr>um_maxsize := c, um_size := um_size m + 1,
            um_array := take pos (um_array m) @ (k, v) # drop pos (um_array m)\<rparr>) = (um_abs m)(k \<mapsto> v)"
        using insert_at [OF inv pos_def new _ _ refl] by blast
      then show ?thesis using new False unfolding InsertUIntMapEntry_def pos_def [symmetric] Let_def c_def
        by (simp del: fun_upd_apply)
    qed
  next
    case False
    then have "pos < length (um_array m)" using p s by auto
    then show ?thesis using replace_at [OF inv _ _ refl] False
      by (simp add: InsertUIntMapEntry_def pos_def [symmetric] Let_def)
  qed
qed

lemma map_of_drop_at:
  assumes "distinct (map fst xs)" "i < length xs"
  shows "map_of (take i xs @ drop (i + 1) xs) = (map_of xs)(fst (xs ! i) := None)"
proof -
  obtain k v where kv: "xs ! i = (k, v)" by force
  have xs: "xs = take i xs @ (k, v) # drop (i + 1) xs" using id_take_nth_drop [OF assms(2)] kv by simp
  then have "distinct (map fst (take i xs @ (k, v) # drop (i + 1) xs))" using assms(1) by simp
  then have k: "k \<notin> fst ` set (take i xs)" "k \<notin> fst ` set (drop (i + 1) xs)" by auto
  have "map_of xs = (map_of (take i xs @ drop (i + 1) xs))(k \<mapsto> v)"
    by (subst xs, rule map_of_drop_insert [OF k(1)])
  moreover have "map_of (take i xs @ drop (i + 1) xs) k = None"
    using k by (simp add: map_of_eq_None_iff)
  ultimately show ?thesis using kv by (auto simp: fun_eq_iff)
qed

lemma RemoveUIntMapKey_abs:
  assumes inv: "um_inv m"
  shows "um_inv (RemoveUIntMapKey m k) \<and> um_abs (RemoveUIntMapKey m k) = (um_abs m)(k := None)"
proof (cases "0 < um_size m \<and> fst (um_array m ! search_pos m k) = k")
  case True
  define low where "low = search_pos m k"
  have low: "low < length (um_array m)" using bisect_found [OF inv _ low_def] True by simp
  have "sorted_wrt (<) (map fst (take low (um_array m) @ um_array m ! low # drop (low + 1) (um_array m)))"
    using inv by (subst Suc_eq_plus1 [symmetric], subst id_take_nth_drop [OF low, symmetric]) (simp add: um_inv_def)
  then have "sorted_wrt (<) (map fst (take low (um_array m) @ drop (low + 1) (um_array m)))"
    by (simp add: sorted_wrt_append)
  then show ?thesis
    using True inv low map_of_drop_at [OF um_inv_distinct [OF inv] low]
    by (auto simp: RemoveUIntMapKey_def low_def [symmetric] um_inv_def um_abs_def Let_def)
next
  case False
  then have r: "RemoveUIntMapKey m k = m" by (auto simp: RemoveUIntMapKey_def Let_def)
  have "LookupUIntMapKey m k = None" using False by (auto simp: LookupUIntMapKey_def Let_def)
  then have "um_abs m k = None" using LookupUIntMapKey_abs [OF inv] by simp
  then show ?thesis using r inv by (simp add: fun_upd_idem)
qed

interpretation um: handle_map LookupUIntMapKey "InsertUIntMapEntry realloc_ok" RemoveUIntMapKey um_inv for realloc_ok
proof unfold_locales
  fix m :: "'v uintmap" and k v assume inv: "um_inv m"
  have look: "um_inv x \<Longrightarrow> LookupUIntMapKey x = um_abs x" for x :: "'v uintmap" by (rule LookupUIntMapKey_abs)
  show "(\<exists>m'. InsertUIntMapEntry realloc_ok m k v = (AL_NO_ERROR, m') \<and> um_inv m' \<and>
      LookupUIntMapKey m' = (LookupUIntMapKey m)(k \<mapsto> v)) \<or> InsertUIntMapEntry realloc_ok m k v = (AL_OUT_OF_MEMORY, m)"
    using InsertUIntMapEntry_cases [OF inv, of realloc_ok k v] inv look by metis
  show "LookupUIntMapKey (RemoveUIntMapKey m k) = (LookupUIntMapKey m)(k := None)" "um_inv (RemoveUIntMapKey m k)"
    using RemoveUIntMapKey_abs [OF inv, of k] inv look by simp_all
  show "finite (dom (LookupUIntMapKey m))"
    using inv by (simp add: look um_abs_def finite_dom_map_of)
qed

lemma um_inv_Init [simp]: "um_inv InitUIntMap"
  by (simp add: um_inv_def InitUIntMap_def)

lemma LookupUIntMapKey_Init [simp]: "LookupUIntMapKey InitUIntMap = Map.empty"
  by (rule ext) (simp add: LookupUIntMapKey_def InitUIntMap_def)


section \<open>Properties\<close>

text \<open>Programs over a map, and the finite map they denote: an insertion that fails has no effect.\<close>

datatype 'v umop = UInsert ALuint 'v | URemove ALuint | UReset

primrec um_step :: "(nat \<Rightarrow> bool) \<Rightarrow> 'v umop \<Rightarrow> 'v uintmap \<Rightarrow> ALenum \<times> 'v uintmap" where
  "um_step R (UInsert k v) m = InsertUIntMapEntry R m k v"
| "um_step R (URemove k) m = (AL_NO_ERROR, RemoveUIntMapKey m k)"
| "um_step R UReset m = (AL_NO_ERROR, ResetUIntMap m)"

fun um_run :: "(nat \<Rightarrow> bool) \<Rightarrow> 'v uintmap \<Rightarrow> 'v umop list \<Rightarrow> ALenum list \<times> 'v uintmap" where
  "um_run R m [] = ([], m)"
| "um_run R m (q # qs) = (let (e, m') = um_step R q m; (es, t) = um_run R m' qs in (e # es, t))"

primrec map_step :: "'v umop \<Rightarrow> (ALuint \<rightharpoonup> 'v) \<Rightarrow> ALuint \<rightharpoonup> 'v" where
  "map_step (UInsert k v) f = f(k \<mapsto> v)"
| "map_step (URemove k) f = f(k := None)"
| "map_step UReset f = Map.empty"

fun map_run :: "('v umop \<times> ALenum) list \<Rightarrow> (ALuint \<rightharpoonup> 'v) \<Rightarrow> ALuint \<rightharpoonup> 'v" where
  "map_run [] f = f"
| "map_run ((q, e) # qs) f = map_run qs (if e = AL_NO_ERROR then map_step q f else f)"

lemma um_step_refines:
  assumes "um_inv m" "um_step R q m = (e, m')"
  shows "um_inv m' \<and> LookupUIntMapKey m' = (if e = AL_NO_ERROR then map_step q (LookupUIntMapKey m) else LookupUIntMapKey m)"
proof (cases q)
  case (UInsert k v)
  then show ?thesis using um.ins_cases [OF assms(1), of R k v] assms by (auto simp: al_simps)
next
  case (URemove k)
  then show ?thesis using assms um.look_del [OF assms(1)] um.ok_del [OF assms(1)] by auto
next
  case UReset
  then have "m' = InitUIntMap \<and> e = AL_NO_ERROR" using assms(2) by (auto simp: ResetUIntMap_def InitUIntMap_def)
  then show ?thesis using UReset by simp
qed

definition demo_map :: "nat uintmap" where
  "demo_map = \<lparr>um_array = [(3, 30), (5, 50), (9, 90)], um_size = 3, um_maxsize = 4\<rparr>"

lemma demo_map_inv: "um_inv demo_map"
  by (simp add: um_inv_def demo_map_def)

text \<open>C8: The sorted array with bisection implements a finite map: after any program of insertions, removals
  and resets the lookup returns what the corresponding updates of a map give, where an insertion
  whose result is not \<open>AL_NO_ERROR\<close> counts as not done; the sortedness and capacity invariant holds
  after every program.\<close>

theorem UIntMap_refines_map:
  assumes "um_inv m" "um_run R m qs = (es, t)"
  shows "um_inv t \<and> length es = length qs \<and> LookupUIntMapKey t = map_run (zip qs es) (LookupUIntMapKey m)"
  using assms
proof (induction qs arbitrary: m es)
  case Nil
  then show ?case by simp
next
  case (Cons q qs)
  obtain e m' es' where s: "um_step R q m = (e, m')" "um_run R m' qs = (es', t)" "es = e # es'"
    using Cons.prems(2) by (auto simp: Let_def split: prod.splits)
  then show ?case using um_step_refines [OF Cons.prems(1) s(1)] Cons.IH [of m' es'] by simp
qed

theorem UIntMap_refines_map_witness:
  "LookupUIntMapKey (snd (um_run (\<lambda>n. True) demo_map [UInsert 4 40, URemove 3, UInsert 7 70])) =
     map_run (zip [UInsert 4 40, URemove 3, UInsert 7 70]
       (fst (um_run (\<lambda>n. True) demo_map [UInsert 4 40, URemove 3, UInsert 7 70]))) (LookupUIntMapKey demo_map)"
  using UIntMap_refines_map [OF demo_map_inv, of "\<lambda>n. True" "[UInsert 4 40, URemove 3, UInsert 7 70]"]
  by (metis prod.collapse)

text \<open>An insertion fails exactly when the key is new, the array is full, and doubling the capacity either
  leaves the range of \<open>int\<close> or is refused by \<open>realloc\<close>; replacing the value of a present key never fails.\<close>

theorem InsertUIntMapEntry_fails_iff:
  assumes "um_inv m"
  shows "fst (InsertUIntMapEntry R m k v) = AL_OUT_OF_MEMORY \<longleftrightarrow>
     LookupUIntMapKey m k = None \<and> um_size m = um_maxsize m \<and>
     (2 ^ 30 \<le> um_maxsize m \<or> \<not> R (if um_maxsize m = 0 then 4 else 2 * um_maxsize m))"
proof -
  have n: "um_maxsize m < 2 ^ 31" using assms by (simp add: um_inv_def)
  have present: "(insert_pos m k = um_size m \<or> fst (um_array m ! insert_pos m k) \<noteq> k) \<longleftrightarrow> LookupUIntMapKey m k = None"
    using insert_pos_present [OF assms] by simp
  have grow: "grown_size (um_maxsize m) < int (um_maxsize m) \<or> \<not> R (nat (grown_size (um_maxsize m))) \<longleftrightarrow>
      2 ^ 30 \<le> um_maxsize m \<or> \<not> R (if um_maxsize m = 0 then 4 else 2 * um_maxsize m)"
    using grown_size_eq [OF n] n by (auto simp: nat_mult_distrib)
  show ?thesis using present grow by (auto simp: InsertUIntMapEntry_def Let_def al_simps)
qed

theorem InsertUIntMapEntry_fails_iff_witness:
  "fst (InsertUIntMapEntry (\<lambda>n. False) (demo_map\<lparr>um_maxsize := 3\<rparr>) 4 40) = AL_OUT_OF_MEMORY"
proof -
  have inv: "um_inv (demo_map\<lparr>um_maxsize := 3\<rparr>)" by (simp add: um_inv_def demo_map_def)
  then have "LookupUIntMapKey (demo_map\<lparr>um_maxsize := 3\<rparr>) 4 = None"
    by (simp add: LookupUIntMapKey_abs um_abs_def demo_map_def)
  then show ?thesis using InsertUIntMapEntry_fails_iff [OF inv, of "\<lambda>n. False" 4 40] by (simp add: demo_map_def)
qed

end
