(* ===== verification/CFloat.thy ===== *)
theory CFloat
  imports Prelude
begin

text \<open>
  IEEE-754 binary floating point, as the C code of the repository uses it on
  armeabi-v7a: \<open>float\<close> is binary32 and \<open>double\<close> is binary64, every operation is
  the exact operation on rationals followed by one rounding to nearest, ties to
  even. Signed zeros, infinities and NaN are values of their own.
\<close>

section \<open>Values and formats\<close>

datatype flt = NaN | Inf bool | Num bool rat

text \<open>\<open>Num s m\<close> is the value \<open>m\<close> (which is never negative) with sign bit \<open>s\<close>.\<close>

record fmt =
  f_prec :: nat
  f_emin :: int
  f_emax :: int

definition b32 :: fmt where
  "b32 = \<lparr>f_prec = 24, f_emin = -149, f_emax = 127\<rparr>"

definition b64 :: fmt where
  "b64 = \<lparr>f_prec = 53, f_emin = -1074, f_emax = 1023\<rparr>"

section \<open>Rounding\<close>

fun nlog2 :: "nat \<Rightarrow> nat" where
  "nlog2 n = (if n < 2 then 0 else Suc (nlog2 (n div 2)))"

declare nlog2.simps [simp del]

definition flog2 :: "rat \<Rightarrow> int" where
  "flog2 x = (if 1 \<le> x then int (nlog2 (nat \<lfloor>x\<rfloor>))
              else - int (nlog2 (nat (\<lceil>1 / x\<rceil> - 1)) + 1))"

definition round_even :: "rat \<Rightarrow> int" where
  "round_even q = (let f = \<lfloor>q\<rfloor>; d = q - of_int f in
     if d < 1 / 2 then f else if 1 / 2 < d then f + 1 else if even f then f else f + 1)"

definition ulp_exp :: "fmt \<Rightarrow> rat \<Rightarrow> int" where
  "ulp_exp F x = max (flog2 x - (int (f_prec F) - 1)) (f_emin F)"

definition round_mag :: "fmt \<Rightarrow> rat \<Rightarrow> rat" where
  "round_mag F x = (if x = 0 then 0
     else of_int (round_even (x / 2 powi ulp_exp F x)) * 2 powi ulp_exp F x)"

definition mk_flt :: "fmt \<Rightarrow> bool \<Rightarrow> rat \<Rightarrow> flt" where
  "mk_flt F s x = (let r = round_mag F x in
     if r < 2 powi (f_emax F + 1) then Num s r else Inf s)"

section \<open>Operations\<close>

definition f_of_rat :: "fmt \<Rightarrow> rat \<Rightarrow> flt" where
  "f_of_rat F x = mk_flt F (x < 0) \<bar>x\<bar>"

definition f_of_int :: "fmt \<Rightarrow> int \<Rightarrow> flt" where
  "f_of_int F i = f_of_rat F (of_int i)"

definition signed_val :: "bool \<Rightarrow> rat \<Rightarrow> rat" where
  "signed_val s m = (if s then - m else m)"

fun f_neg :: "flt \<Rightarrow> flt" where
  "f_neg NaN = NaN"
| "f_neg (Inf s) = Inf (\<not> s)"
| "f_neg (Num s m) = Num (\<not> s) m"

fun f_add :: "fmt \<Rightarrow> flt \<Rightarrow> flt \<Rightarrow> flt" where
  "f_add F NaN y = NaN"
| "f_add F x NaN = NaN"
| "f_add F (Inf s) (Inf t) = (if s = t then Inf s else NaN)"
| "f_add F (Inf s) (Num t n) = Inf s"
| "f_add F (Num s m) (Inf t) = Inf t"
| "f_add F (Num s m) (Num t n) =
     (let v = signed_val s m + signed_val t n in
      if v = 0 then Num (s \<and> t) 0 else mk_flt F (v < 0) \<bar>v\<bar>)"

definition f_sub :: "fmt \<Rightarrow> flt \<Rightarrow> flt \<Rightarrow> flt" where
  "f_sub F x y = f_add F x (f_neg y)"

fun f_mul :: "fmt \<Rightarrow> flt \<Rightarrow> flt \<Rightarrow> flt" where
  "f_mul F NaN y = NaN"
| "f_mul F x NaN = NaN"
| "f_mul F (Inf s) (Inf t) = Inf (s \<noteq> t)"
| "f_mul F (Inf s) (Num t n) = (if n = 0 then NaN else Inf (s \<noteq> t))"
| "f_mul F (Num s m) (Inf t) = (if m = 0 then NaN else Inf (s \<noteq> t))"
| "f_mul F (Num s m) (Num t n) = mk_flt F (s \<noteq> t) (m * n)"

fun f_div :: "fmt \<Rightarrow> flt \<Rightarrow> flt \<Rightarrow> flt" where
  "f_div F NaN y = NaN"
| "f_div F x NaN = NaN"
| "f_div F (Inf s) (Inf t) = NaN"
| "f_div F (Inf s) (Num t n) = Inf (s \<noteq> t)"
| "f_div F (Num s m) (Inf t) = Num (s \<noteq> t) 0"
| "f_div F (Num s m) (Num t n) =
     (if n = 0 then (if m = 0 then NaN else Inf (s \<noteq> t)) else mk_flt F (s \<noteq> t) (m / n))"

text \<open>A conversion between the two formats is one more rounding.\<close>

fun f_conv :: "fmt \<Rightarrow> flt \<Rightarrow> flt" where
  "f_conv F NaN = NaN"
| "f_conv F (Inf s) = Inf s"
| "f_conv F (Num s m) = mk_flt F s m"

fun f_lt :: "flt \<Rightarrow> flt \<Rightarrow> bool" where
  "f_lt NaN y = False"
| "f_lt x NaN = False"
| "f_lt (Inf s) (Inf t) = (s \<and> \<not> t)"
| "f_lt (Inf s) (Num t n) = s"
| "f_lt (Num s m) (Inf t) = (\<not> t)"
| "f_lt (Num s m) (Num t n) = (signed_val s m < signed_val t n)"

fun f_eq :: "flt \<Rightarrow> flt \<Rightarrow> bool" where
  "f_eq (Inf s) (Inf t) = (s = t)"
| "f_eq (Num s m) (Num t n) = (signed_val s m = signed_val t n)"
| "f_eq x y = False"

definition f_le :: "flt \<Rightarrow> flt \<Rightarrow> bool" where
  "f_le x y = (f_lt x y \<or> f_eq x y)"

text \<open>
  \<open>(int)\<close> of a floating value truncates towards zero; C leaves a value whose
  integral part does not fit undefined.
\<close>

fun f_to_int32 :: "flt \<Rightarrow> int outcome" where
  "f_to_int32 (Num s m) = (let t = \<lfloor>m\<rfloor>; v = (if s then - t else t) in
     if - (2 ^ 31) \<le> v \<and> v < 2 ^ 31 then Ret v else UB BadConversion)"
| "f_to_int32 x = UB BadConversion"

section \<open>Rounding is exact on representable values\<close>

lemma nlog2_bounds: "0 < n \<Longrightarrow> 2 ^ nlog2 n \<le> n \<and> n < 2 ^ Suc (nlog2 n)"
proof (induction n rule: nlog2.induct)
  case (1 n)
  show ?case
  proof (cases "n < 2")
    case True
    with 1 show ?thesis by (simp add: nlog2.simps [of n])
  next
    case False
    then have h: "2 ^ nlog2 (n div 2) \<le> n div 2 \<and> n div 2 < 2 ^ Suc (nlog2 (n div 2))"
      using 1 by simp
    have "n = 2 * (n div 2) + n mod 2" by simp
    then have "2 * (n div 2) \<le> n \<and> n < 2 * (n div 2) + 2" by linarith
    with h False show ?thesis by (simp add: nlog2.simps [of n]) linarith
  qed
qed

lemma flog2_upper:
  assumes "0 < x"
  shows "2 powi flog2 x \<le> x"
proof (cases "1 \<le> x")
  case True
  then have "0 < nat \<lfloor>x\<rfloor>" by (simp add: le_floor_iff)
  then have "2 ^ nlog2 (nat \<lfloor>x\<rfloor>) \<le> nat \<lfloor>x\<rfloor>" using nlog2_bounds by blast
  then have "(of_nat (2 ^ nlog2 (nat \<lfloor>x\<rfloor>)) :: rat) \<le> of_nat (nat \<lfloor>x\<rfloor>)" by (rule of_nat_mono)
  also have "\<dots> \<le> x" using True by simp
  finally show ?thesis using True by (simp add: flog2_def power_int_of_nat)
next
  case False
  let ?c = "nat (\<lceil>1 / x\<rceil> - 1)"
  have "1 < 1 / x" using False assms by simp
  then have "2 \<le> \<lceil>1 / x\<rceil>" by (simp add: le_ceiling_iff)
  then have c: "0 < ?c" by simp
  have "?c < 2 ^ Suc (nlog2 ?c)" using nlog2_bounds [OF c] by blast
  then have "int ?c < int (2 ^ Suc (nlog2 ?c))" by (rule of_nat_less_iff [THEN iffD2])
  then have "\<lceil>1 / x\<rceil> \<le> 2 ^ Suc (nlog2 ?c)" using assms \<open>2 \<le> \<lceil>1 / x\<rceil>\<close> by simp
  then have "1 / x \<le> 2 ^ Suc (nlog2 ?c)" by (simp add: ceiling_le_iff)
  then have "1 / 2 ^ Suc (nlog2 ?c) \<le> x" using assms by (simp add: field_simps)
  then show ?thesis using False by (simp add: flog2_def power_int_minus power_int_def nat_add_distrib field_simps)
qed

text \<open>A representable magnitude: an integral multiple of a power of two that fits.\<close>

definition repr_mag :: "fmt \<Rightarrow> rat \<Rightarrow> bool" where
  "repr_mag F x = (\<exists>n e. x = of_nat n * 2 powi e \<and> n < 2 ^ f_prec F \<and> f_emin F \<le> e \<and>
     x < 2 powi (f_emax F + 1))"

lemma round_even_of_int [simp]: "round_even (of_int k) = k"
  by (simp add: round_even_def Let_def)

lemma round_even_upper: "q \<le> of_int R \<Longrightarrow> round_even q \<le> R"
proof -
  assume q: "q \<le> of_int R"
  have f: "\<lfloor>q\<rfloor> \<le> R" using q by (simp add: floor_le_iff)
  show ?thesis
  proof (cases "\<lfloor>q\<rfloor> = R")
    case True
    then have "q = of_int R" using q of_int_floor_le [of q] by simp
    then show ?thesis by simp
  next
    case False
    then show ?thesis using f by (auto simp: round_even_def Let_def)
  qed
qed

lemma round_even_lower: "of_int R \<le> q \<Longrightarrow> R \<le> round_even q"
  by (auto simp: round_even_def Let_def le_floor_iff [symmetric])

lemma ulp_exp_le:
  assumes x: "0 < x" "x \<le> of_nat n * 2 powi e" and n: "n < 2 ^ f_prec F" and e: "f_emin F \<le> e"
  shows "ulp_exp F x \<le> e"
proof -
  have "(of_nat n :: rat) < of_nat (2 ^ f_prec F)" using n by (rule of_nat_less_iff [THEN iffD2])
  then have "of_nat n * 2 powi e < 2 ^ f_prec F * (2::rat) powi e" by simp
  also have "\<dots> = 2 powi (int (f_prec F) + e)" by (simp add: power_int_add power_int_of_nat)
  finally have "2 powi flog2 x < (2::rat) powi (int (f_prec F) + e)"
    using flog2_upper [OF x(1)] x(2) by linarith
  then have "\<not> int (f_prec F) + e \<le> flog2 x"
    using power_int_increasing [of "int (f_prec F) + e" "flog2 x" "2::rat"] by linarith
  then show ?thesis using e by (simp add: ulp_exp_def)
qed

lemma multiple_of_ulp:
  assumes "ulp_exp F x \<le> e"
  shows "of_nat n * 2 powi e / 2 powi ulp_exp F x = (of_int (int n * 2 ^ nat (e - ulp_exp F x)) :: rat)"
proof -
  have "of_nat n * 2 powi e / 2 powi ulp_exp F x = (of_nat n * 2 powi (e - ulp_exp F x) :: rat)"
    by (simp add: power_int_diff)
  also have "\<dots> = of_int (int n * 2 ^ nat (e - ulp_exp F x))"
    using assms by (simp add: power_int_def)
  finally show ?thesis .
qed

lemma round_mag_repr:
  assumes "repr_mag F x"
  shows "round_mag F x = x"
proof (cases "x = 0")
  case True
  then show ?thesis by (simp add: round_mag_def)
next
  case False
  from assms obtain n e where x: "x = of_nat n * 2 powi e" and n: "n < 2 ^ f_prec F"
    and e: "f_emin F \<le> e" unfolding repr_mag_def by blast
  have x0: "0 < x" using x False by (cases n) auto
  let ?u = "ulp_exp F x"
  have "?u \<le> e" using x x0 n e by (intro ulp_exp_le) auto
  then have q: "x / 2 powi ?u = of_int (int n * 2 ^ nat (e - ?u))"
    using multiple_of_ulp [of F x e n] x by simp
  have "round_mag F x = of_int (round_even (x / 2 powi ?u)) * 2 powi ?u"
    using False by (simp add: round_mag_def)
  also have "\<dots> = x / 2 powi ?u * 2 powi ?u" unfolding q by (simp only: round_even_of_int)
  finally show ?thesis by simp
qed

text \<open>Rounding never passes a representable value.\<close>

lemma round_mag_le:
  assumes x: "0 \<le> x" "x \<le> of_nat n * 2 powi e" and n: "n < 2 ^ f_prec F" and e: "f_emin F \<le> e"
  shows "round_mag F x \<le> of_nat n * 2 powi e"
proof (cases "x = 0")
  case True
  then show ?thesis by (simp add: round_mag_def)
next
  case False
  let ?u = "ulp_exp F x" and ?r = "of_nat n * 2 powi e :: rat"
  have "?u \<le> e" using False x n e by (intro ulp_exp_le) auto
  note q = multiple_of_ulp [OF this, of n]
  have "x / 2 powi ?u \<le> ?r / 2 powi ?u" using x by (intro divide_right_mono) auto
  then have "round_even (x / 2 powi ?u) \<le> int n * 2 ^ nat (e - ?u)"
    unfolding q by (rule round_even_upper)
  then have "(of_int (round_even (x / 2 powi ?u)) :: rat) \<le> of_int (int n * 2 ^ nat (e - ?u))"
    by (rule of_int_le_iff [THEN iffD2])
  then have "of_int (round_even (x / 2 powi ?u)) * 2 powi ?u \<le> ?r / 2 powi ?u * 2 powi ?u"
    unfolding q by (rule mult_right_mono) simp
  then show ?thesis using False by (simp add: round_mag_def)
qed

lemma round_mag_nonneg: "0 \<le> x \<Longrightarrow> 0 \<le> round_mag F x"
  using round_even_lower [of 0 "x / 2 powi ulp_exp F x"] by (simp add: round_mag_def)

lemma round_mag_ge:
  assumes x: "0 < x" "of_nat n * 2 powi e \<le> x" and n: "n < 2 ^ f_prec F" and e: "f_emin F \<le> e"
    and p: "1 \<le> f_prec F"
  shows "of_nat n * 2 powi e \<le> round_mag F x"
proof -
  let ?u = "ulp_exp F x" and ?r = "of_nat n * 2 powi e :: rat"
  have up: "of_int R * 2 powi ?u \<le> round_mag F x" if "of_int R \<le> x / 2 powi ?u" for R
  proof -
    have "(of_int R :: rat) \<le> of_int (round_even (x / 2 powi ?u))"
      using round_even_lower [OF that] by simp
    then have "of_int R * 2 powi ?u \<le> of_int (round_even (x / 2 powi ?u)) * (2 powi ?u :: rat)"
      by (rule mult_right_mono) simp
    then show ?thesis using x by (simp add: round_mag_def)
  qed
  show ?thesis
  proof (cases "?u \<le> e")
    case True
    note q = multiple_of_ulp [OF True, of n]
    have "?r / 2 powi ?u \<le> x / 2 powi ?u" using x by (intro divide_right_mono) auto
    then have "of_int (int n * 2 ^ nat (e - ?u)) * 2 powi ?u \<le> round_mag F x"
      unfolding q by (rule up)
    moreover have "of_int (int n * 2 ^ nat (e - ?u)) * 2 powi ?u = ?r"
      unfolding q [symmetric] by simp
    ultimately show ?thesis by (simp only:)
  next
    case False
    then have u: "flog2 x = int (f_prec F - 1) + ?u" using e p
      by (simp add: ulp_exp_def max_def split: if_splits)
    have fl: "2 powi flog2 x = of_int (2 ^ (f_prec F - 1)) * (2 powi ?u :: rat)"
      unfolding u by (simp add: power_int_add power_int_of_nat)
    have "of_int (2 ^ (f_prec F - 1)) * 2 powi ?u \<le> x" using flog2_upper [OF x(1)] fl by simp
    then have "of_int (2 ^ (f_prec F - 1)) * 2 powi ?u \<le> round_mag F x"
      by (intro up) (simp add: field_simps)
    moreover have "?r \<le> 2 powi flog2 x"
    proof -
      have "(of_nat n :: rat) \<le> of_nat (2 ^ f_prec F)" using n by (intro of_nat_mono) simp
      then have "?r \<le> 2 ^ f_prec F * 2 powi e" by simp
      also have "\<dots> = 2 powi (int (f_prec F) + e)" by (simp add: power_int_add power_int_of_nat)
      also have "\<dots> \<le> 2 powi flog2 x" using False p u by (intro power_int_increasing) auto
      finally show ?thesis .
    qed
    ultimately show ?thesis using fl by simp
  qed
qed

lemma mk_flt_repr: "repr_mag F x \<Longrightarrow> mk_flt F s x = Num s x"
  by (auto simp: mk_flt_def round_mag_repr) (auto simp: repr_mag_def)

text \<open>A magnitude below \<open>2^30\<close> stays below \<open>2^30\<close> in binary32, one of at least 1 stays so.\<close>

lemma mk_flt_b32:
  assumes "0 \<le> x" "x \<le> 2 ^ k" "k \<le> 32"
  shows "mk_flt b32 s x = Num s (round_mag b32 x) \<and> round_mag b32 x \<le> 2 ^ k"
proof -
  have "round_mag b32 x \<le> of_nat 1 * 2 powi int k"
    using assms by (intro round_mag_le) (auto simp: b32_def power_int_of_nat)
  then have le: "round_mag b32 x \<le> 2 ^ k" by (simp add: power_int_of_nat)
  have "(2::rat) ^ k \<le> 2 ^ 32" using assms(3) by (intro power_increasing) auto
  also have "\<dots> < 2 powi (127 + 1)" by (simp add: power_int_def)
  finally show ?thesis using le by (simp add: mk_flt_def b32_def Let_def)
qed


text \<open>Integers below \<open>2^24\<close> are binary32 values.\<close>

lemma f_of_int_small:
  assumes "0 \<le> i" "i < 2 ^ 24"
  shows "f_of_int b32 i = Num False (of_int i)"
proof -
  have lt: "(of_int i :: rat) < 2 ^ 24" using assms(2) by (metis of_int_less_iff of_int_numeral of_int_power)
  also have "(2::rat) ^ 24 \<le> 2 powi (f_emax b32 + 1)" by (simp add: b32_def power_int_def)
  finally have "repr_mag b32 (of_int i)"
    unfolding repr_mag_def by (intro exI [of _ "nat i"] exI [of _ 0]) (use assms in \<open>auto simp: b32_def nat_less_iff\<close>)
  then show ?thesis using assms(1) by (simp add: f_of_int_def f_of_rat_def mk_flt_repr)
qed

end
