(* ===== verification/AL_Context.thy ===== *)
theory AL_Context
  imports AL_UIntMap CFloat
begin

text \<open>
  The objects of an OpenAL context and the context itself. On armeabi-v7a
  a pointer is as wide as a name and \<open>ALTHUNK_ADDENTRY\<close> is a cast, so the name of
  an object is its address: the map from names to objects is also the memory the
  objects live in, and a pointer to an object is its name, 0 being NULL. A
  pointer that is not in the map points to freed memory; following it is
  \<open>UB UseAfterFree\<close>. Locks, the mixer's working data and the effect's sample
  processing are not part of the state.
\<close>

section \<open>Objects\<close>

definition AL_FALSE :: int where "AL_FALSE = 0"
definition AL_TRUE :: int where "AL_TRUE = 1"
definition AL_NONE :: ALenum where "AL_NONE = 0"

type_synonym vec3 = "flt \<times> flt \<times> flt"

record alfilter =
  flt_type :: ALenum
  flt_Gain :: flt
  flt_GainHF :: flt
  flt_filter :: ALuint

datatype UserFmtType = UserFmtByte | UserFmtUByte | UserFmtShort | UserFmtUShort | UserFmtInt | UserFmtUInt
  | UserFmtFloat | UserFmtDouble | UserFmtMulaw | UserFmtIMA4

datatype UserFmtChannels = UserFmtMono | UserFmtStereo | UserFmtRear | UserFmtQuad | UserFmtX51 | UserFmtX61 | UserFmtX71

text \<open>\<open>FmtUnset\<close> is the zero that \<open>calloc\<close> leaves, which is none of the enumerators.\<close>

datatype FmtType = FmtUnset | FmtUByte | FmtShort | FmtFloat

datatype FmtChannels = FmtMono | FmtStereo | FmtRear | FmtQuad | FmtX51 | FmtX61 | FmtX71

record albuffer =
  buf_data :: "byte list option"
  buf_size :: int
  buf_Frequency :: int
  buf_FmtChannels :: FmtChannels
  buf_FmtType :: FmtType
  buf_OriginalChannels :: UserFmtChannels
  buf_OriginalType :: UserFmtType
  buf_OriginalSize :: int
  buf_OriginalAlign :: int
  buf_LoopStart :: int
  buf_LoopEnd :: int
  buf_refcount :: u32
  buf_buffer :: ALuint

text \<open>Of an effect only its type and name matter to the slots.\<close>

record aleffect =
  eff_type :: ALenum
  eff_effect :: ALuint

record aleffectslot =
  slot_effect :: aleffect
  slot_Gain :: flt
  slot_AuxSendAuto :: bool
  slot_refcount :: u32
  slot_effectslot :: ALuint

datatype source_update = NoUpdate | CalcSourceParams | CalcNonAttnSourceParams

record alsource =
  src_flPitch :: flt
  src_flGain :: flt
  src_flOuterGain :: flt
  src_flMinGain :: flt
  src_flMaxGain :: flt
  src_flInnerAngle :: flt
  src_flOuterAngle :: flt
  src_flRefDistance :: flt
  src_flMaxDistance :: flt
  src_flRollOffFactor :: flt
  src_vPosition :: vec3
  src_vVelocity :: vec3
  src_vOrientation :: vec3
  src_bHeadRelative :: bool
  src_bLooping :: bool
  src_DistanceModel :: ALenum
  src_priority :: u32
  src_Resampler :: int
  src_state :: ALenum
  src_position :: u32
  src_position_fraction :: u32
  src_Buffer :: ALuint
  src_queue :: "ALuint list"
  src_BuffersInQueue :: u32
  src_BuffersPlayed :: u32
  src_DirectFilter :: alfilter
  src_Send :: "(ALuint \<times> alfilter) list"
  src_DryGainHFAuto :: bool
  src_WetGainAuto :: bool
  src_WetGainHFAuto :: bool
  src_OuterGainHF :: flt
  src_AirAbsorptionFactor :: flt
  src_RoomRolloffFactor :: flt
  src_DopplerFactor :: flt
  src_lOffset :: int
  src_lOffsetType :: ALenum
  src_lSourceType :: ALenum
  src_NeedsUpdate :: bool
  src_Update :: source_update
  src_source :: ALuint

text \<open>
  The context with its device. \<open>al_current\<close> tells whether \<open>GetContextSuspended\<close>
  finds a context. \<open>ActiveSources\<close> is the used part of the array of that name, whose
  capacity is \<open>MaxActiveSources\<close>.
\<close>

record al_state =
  al_current :: bool
  LastError :: ALenum
  Connected :: bool
  Frequency :: u32
  UpdateSize :: u32
  NumAuxSends :: u32
  MaxNoOfSources :: u32
  AuxiliaryEffectSlotMax :: u32
  SourceDistanceModel :: bool
  PrioritySlots :: int
  alc_max_sources :: int
  alc_active_sources :: int
  DefaultResampler :: int
  FilterMap :: "alfilter uintmap"
  BufferMap :: "albuffer uintmap"
  EffectMap :: "aleffect uintmap"
  EffectSlotMap :: "aleffectslot uintmap"
  SourceMap :: "alsource uintmap"
  ActiveSources :: "ALuint list"
  MaxActiveSources :: nat

section \<open>Errors\<close>

text \<open>The first error is kept until it is fetched.\<close>

definition alSetError :: "ALenum \<Rightarrow> al_state \<Rightarrow> al_state" where
  "alSetError e s = (if LastError s = AL_NO_ERROR then s\<lparr>LastError := e\<rparr> else s)"

definition alGetError :: "al_state \<Rightarrow> ALenum \<times> al_state" where
  "alGetError s = (if \<not> al_current s then (AL_NO_ERROR, s) else (LastError s, s\<lparr>LastError := AL_NO_ERROR\<rparr>))"

lemma alSetError_sel [simp]:
  "al_current (alSetError e s) = al_current s" "FilterMap (alSetError e s) = FilterMap s"
  "BufferMap (alSetError e s) = BufferMap s" "EffectMap (alSetError e s) = EffectMap s"
  "EffectSlotMap (alSetError e s) = EffectSlotMap s" "SourceMap (alSetError e s) = SourceMap s"
  "ActiveSources (alSetError e s) = ActiveSources s" "MaxActiveSources (alSetError e s) = MaxActiveSources s"
  "NumAuxSends (alSetError e s) = NumAuxSends s" "Connected (alSetError e s) = Connected s"
  by (simp_all add: alSetError_def)

lemma LastError_alSetError: "LastError (alSetError e s) = (if LastError s = AL_NO_ERROR then e else LastError s)"
  by (simp add: alSetError_def)

section \<open>Writing through a pointer\<close>

definition um_upd :: "'v uintmap \<Rightarrow> ALuint \<Rightarrow> ('v \<Rightarrow> 'v) \<Rightarrow> 'v uintmap" where
  "um_upd m k f = m\<lparr>um_array := map (\<lambda>e. if fst e = k then (k, f (snd e)) else e) (um_array m)\<rparr>"

lemma um_upd_keys: "map fst (um_array (um_upd m k f)) = map fst (um_array m)"
  by (simp add: um_upd_def comp_def)

lemma um_inv_upd [simp]: "um_inv (um_upd m k f) = um_inv m"
proof -
  have "length (um_array (um_upd m k f)) = length (um_array m)"
    "um_size (um_upd m k f) = um_size m" "um_maxsize (um_upd m k f) = um_maxsize m"
    by (simp_all add: um_upd_def)
  then show ?thesis using um_upd_keys [of m k f] by (simp add: um_inv_def)
qed

lemma map_of_upd:
  "map_of (map (\<lambda>e. if fst e = k then (k, f (snd e)) else e) xs) j = (if j = k then map_option f (map_of xs k) else map_of xs j)"
  by (induction xs) auto

lemma Lookup_um_upd [simp]:
  "um_inv m \<Longrightarrow> LookupUIntMapKey (um_upd m k f) j =
     (if j = k then map_option f (LookupUIntMapKey m k) else LookupUIntMapKey m j)"
  by (simp add: LookupUIntMapKey_abs um_abs_def) (simp add: um_upd_def map_of_upd)

lemma um_size_upd [simp]: "um_size (um_upd m k f) = um_size m"
  by (simp add: um_upd_def)

section \<open>Creating objects\<close>

text \<open>What \<open>calloc\<close> promises: the addresses are those of new objects.\<close>

definition fresh_addrs :: "ALuint list \<Rightarrow> (ALuint \<rightharpoonup> 'v) \<Rightarrow> bool" where
  "fresh_addrs cs f \<longleftrightarrow> distinct (filter (\<lambda>a. a \<noteq> 0) cs) \<and> (\<forall>a\<in>set cs. f a = None)"

lemma fresh_addrs_Cons:
  "fresh_addrs (a # cs) f \<Longrightarrow> a \<noteq> 0 \<Longrightarrow> fresh_addrs cs (f(a \<mapsto> v)) \<and> f a = None \<and> a \<notin> set cs"
  by (auto simp: fresh_addrs_def split: if_splits)

text \<open>
  The creation loops have one shape: each round either fails, and then everything
  that was created is deleted again and an error is left, or it adds one object
  under a new name.
\<close>

locale object_gen =
  fixes gen :: "nat \<Rightarrow> ALuint list \<Rightarrow> ALuint list \<Rightarrow> 's \<Rightarrow> ALuint list \<times> 's"
    and look :: "'s \<Rightarrow> ALuint \<rightharpoonup> 'o"
    and err :: "'s \<Rightarrow> ALenum"
    and ready :: "'s \<Rightarrow> bool"
    and mk :: "ALuint \<Rightarrow> 'o"
  assumes gen_0: "gen 0 cs out s = (out, s)"
    and gen_Suc: "ready s \<Longrightarrow> fresh_addrs cs (look s) \<Longrightarrow> \<forall>k\<in>set out. look s k = Some (mk k) \<Longrightarrow>
      (\<exists>s'. gen (Suc n) cs out s = (out, s') \<and> ready s' \<and> err s' \<noteq> AL_NO_ERROR \<and> look s' = (look s) |` (- set out)) \<or>
      (\<exists>a cs' s1. gen (Suc n) cs out s = gen n cs' (out @ [a]) s1 \<and> a \<noteq> 0 \<and> look s a = None \<and> ready s1 \<and>
         err s1 = err s \<and> fresh_addrs cs' (look s1) \<and> look s1 = (look s)(a \<mapsto> mk a))"
begin

definition added :: "nat \<Rightarrow> 's \<Rightarrow> ALuint list \<Rightarrow> 's \<Rightarrow> bool" where
  "added n s new s' \<longleftrightarrow> length new = n \<and> distinct new \<and> 0 \<notin> set new \<and> (\<forall>k\<in>set new. look s k = None) \<and> err s' = err s \<and>
     look s' = (\<lambda>k. if k \<in> set new then Some (mk k) else look s k)"

lemma added_Cons:
  assumes "added n s1 new s'" "a \<noteq> 0" "look s a = None" "err s1 = err s" "look s1 = (look s)(a \<mapsto> mk a)"
  shows "added (Suc n) s (a # new) s'"
proof -
  have "a \<notin> set new" using assms(1,5) by (auto simp: added_def)
  then show ?thesis using assms by (auto simp: added_def fun_eq_iff split: if_splits)
qed

lemma gen_cases:
  assumes "ready s" "fresh_addrs cs (look s)" "\<forall>k\<in>set out. look s k = Some (mk k)" "gen n cs out s = (out', s')"
  shows "ready s' \<and>
    ((\<exists>new. out' = out @ new \<and> length new = n \<and> distinct new \<and> 0 \<notin> set new \<and> (\<forall>k\<in>set new. look s k = None) \<and>
       err s' = err s \<and> look s' = (\<lambda>k. if k \<in> set new then Some (mk k) else look s k)) \<or>
     (length out' < length out + n \<and> err s' \<noteq> AL_NO_ERROR \<and> look s' = (look s) |` (- set out)))"
proof -
  have "ready s' \<and> ((\<exists>new. out' = out @ new \<and> added n s new s') \<or>
     (length out' < length out + n \<and> err s' \<noteq> AL_NO_ERROR \<and> look s' = (look s) |` (- set out)))"
    using assms
  proof (induction n arbitrary: cs out s)
    case 0
    then show ?case by (simp add: gen_0 added_def)
  next
    case (Suc n)
    from gen_Suc [OF Suc.prems(1-3), of n] Suc.prems(4) consider
        "out' = out" "ready s'" "err s' \<noteq> AL_NO_ERROR" "look s' = (look s) |` (- set out)"
      | a cs' s1 where "gen n cs' (out @ [a]) s1 = (out', s')" "a \<noteq> 0" "look s a = None" "ready s1" "err s1 = err s"
          "fresh_addrs cs' (look s1)" "look s1 = (look s)(a \<mapsto> mk a)"
      by fastforce
    then show ?case
    proof cases
      case 2
      have o: "\<forall>k\<in>set (out @ [a]). look s1 k = Some (mk k)" using Suc.prems(3) 2(3,7) by auto
      have r: "(look s1) |` (- set (out @ [a])) = (look s) |` (- set out)"
        using 2(3,7) Suc.prems(3) by (auto simp: restrict_map_def fun_eq_iff)
      from Suc.IH [OF 2(4,6) o 2(1)] show ?thesis
        using added_Cons [OF _ 2(2,3,5,7)] r by auto
    qed simp
  qed
  then show ?thesis by (simp add: added_def)
qed

end

section \<open>Small float constants\<close>

lemma f_of_int_0 [simp]: "f_of_int b32 0 = Num False 0"
  by (simp add: f_of_int_small)

lemma f_of_int_1 [simp]: "f_of_int b32 1 = Num False 1"
  by (simp add: f_of_int_small)

end
