(* ===== verification/AL_Buffer.thy ===== *)
theory AL_Buffer
  imports AL_Context
begin

text \<open>
  The buffer objects of \<^verbatim>\<open>OpenAL32/alBuffer.c\<close>: creation, deletion, the sizes of sample formats.
  A buffer counts the source queue entries that point to it, and only a buffer
  whose count is 0 can be deleted.
\<close>

section \<open>Sample formats\<close>

primrec BytesFromUserFmt :: "UserFmtType \<Rightarrow> u32" where
  "BytesFromUserFmt UserFmtByte = 1"
| "BytesFromUserFmt UserFmtUByte = 1"
| "BytesFromUserFmt UserFmtShort = 2"
| "BytesFromUserFmt UserFmtUShort = 2"
| "BytesFromUserFmt UserFmtInt = 4"
| "BytesFromUserFmt UserFmtUInt = 4"
| "BytesFromUserFmt UserFmtFloat = 4"
| "BytesFromUserFmt UserFmtDouble = 8"
| "BytesFromUserFmt UserFmtMulaw = 1"
| "BytesFromUserFmt UserFmtIMA4 = 0"

primrec ChannelsFromUserFmt :: "UserFmtChannels \<Rightarrow> u32" where
  "ChannelsFromUserFmt UserFmtMono = 1"
| "ChannelsFromUserFmt UserFmtStereo = 2"
| "ChannelsFromUserFmt UserFmtRear = 2"
| "ChannelsFromUserFmt UserFmtQuad = 4"
| "ChannelsFromUserFmt UserFmtX51 = 6"
| "ChannelsFromUserFmt UserFmtX61 = 7"
| "ChannelsFromUserFmt UserFmtX71 = 8"

definition FrameSizeFromUserFmt :: "UserFmtChannels \<Rightarrow> UserFmtType \<Rightarrow> u32" where
  "FrameSizeFromUserFmt chans type = ChannelsFromUserFmt chans * BytesFromUserFmt type"

primrec BytesFromFmt :: "FmtType \<Rightarrow> u32" where
  "BytesFromFmt FmtUnset = 0"
| "BytesFromFmt FmtUByte = 1"
| "BytesFromFmt FmtShort = 2"
| "BytesFromFmt FmtFloat = 4"

primrec ChannelsFromFmt :: "FmtChannels \<Rightarrow> u32" where
  "ChannelsFromFmt FmtMono = 1"
| "ChannelsFromFmt FmtStereo = 2"
| "ChannelsFromFmt FmtRear = 2"
| "ChannelsFromFmt FmtQuad = 4"
| "ChannelsFromFmt FmtX51 = 6"
| "ChannelsFromFmt FmtX61 = 7"
| "ChannelsFromFmt FmtX71 = 8"

definition FrameSizeFromFmt :: "FmtChannels \<Rightarrow> FmtType \<Rightarrow> u32" where
  "FrameSizeFromFmt chans type = ChannelsFromFmt chans * BytesFromFmt type"

section \<open>Creation and deletion\<close>

abbreviation LookupBuffer :: "al_state \<Rightarrow> ALuint \<Rightarrow> albuffer option" where
  "LookupBuffer s \<equiv> LookupUIntMapKey (BufferMap s)"

text \<open>What \<open>calloc\<close> leaves.\<close>

definition zero_buffer :: albuffer where
  "zero_buffer = \<lparr>buf_data = None, buf_size = 0, buf_Frequency = 0, buf_FmtChannels = FmtMono, buf_FmtType = FmtUnset,
     buf_OriginalChannels = UserFmtMono, buf_OriginalType = UserFmtByte, buf_OriginalSize = 0, buf_OriginalAlign = 0,
     buf_LoopStart = 0, buf_LoopEnd = 0, buf_refcount = 0, buf_buffer = 0\<rparr>"

text \<open>The check loop of \<open>alDeleteBuffers\<close>: the error it ends with, if any.\<close>

fun check_buffers :: "al_state \<Rightarrow> ALuint list \<Rightarrow> ALenum option" where
  "check_buffers s [] = None"
| "check_buffers s (k # ks) =
     (if k = 0 then check_buffers s ks
      else (case LookupBuffer s k of
              None \<Rightarrow> Some AL_INVALID_NAME
            | Some b \<Rightarrow> if buf_refcount b \<noteq> 0 then Some AL_INVALID_OPERATION else check_buffers s ks))"

fun delete_buffers :: "ALuint list \<Rightarrow> al_state \<Rightarrow> al_state" where
  "delete_buffers [] s = s"
| "delete_buffers (k # ks) s =
     (case LookupBuffer s k of
        None \<Rightarrow> delete_buffers ks s
      | Some b \<Rightarrow> delete_buffers ks (s\<lparr>BufferMap := RemoveUIntMapKey (BufferMap s) (buf_buffer b)\<rparr>))"

definition alDeleteBuffers :: "int \<Rightarrow> ALuint list \<Rightarrow> al_state \<Rightarrow> al_state" where
  "alDeleteBuffers n buffers s =
     (if \<not> al_current s then s
      else if n < 0 then alSetError AL_INVALID_VALUE s
      else (case check_buffers s (take (nat n) buffers) of
              Some e \<Rightarrow> alSetError e s
            | None \<Rightarrow> delete_buffers (take (nat n) buffers) s))"

fun gen_buffers :: "(nat \<Rightarrow> bool) \<Rightarrow> nat \<Rightarrow> ALuint list \<Rightarrow> ALuint list \<Rightarrow> al_state \<Rightarrow> ALuint list \<times> al_state" where
  "gen_buffers R 0 cs out s = (out, s)"
| "gen_buffers R (Suc n) cs out s =
     (case cs of
        [] \<Rightarrow> (out, alDeleteBuffers (int (length out)) out (alSetError AL_OUT_OF_MEMORY s))
      | a # cs' \<Rightarrow>
          if a = 0 then (out, alDeleteBuffers (int (length out)) out (alSetError AL_OUT_OF_MEMORY s))
          else
            let (err, m) = InsertUIntMapEntry R (BufferMap s) a (zero_buffer\<lparr>buf_buffer := a\<rparr>) in
            if err \<noteq> AL_NO_ERROR
            then (out, alDeleteBuffers (int (length out)) out (alSetError err s))
            else gen_buffers R n cs' (out @ [a]) (s\<lparr>BufferMap := m\<rparr>))"

definition alGenBuffers :: "(nat \<Rightarrow> bool) \<Rightarrow> ALuint list \<Rightarrow> int \<Rightarrow> bool \<Rightarrow> al_state \<Rightarrow> ALuint list \<times> al_state" where
  "alGenBuffers R cs n null s =
     (if \<not> al_current s then ([], s)
      else if n < 0 \<or> (null \<and> n \<noteq> 0) then ([], alSetError AL_INVALID_VALUE s)
      else gen_buffers R (nat n) cs [] s)"

definition alIsBuffer :: "ALuint \<Rightarrow> al_state \<Rightarrow> bool" where
  "alIsBuffer k s = (al_current s \<and> (k = 0 \<or> LookupBuffer s k \<noteq> None))"

section \<open>Well-formed buffer tables\<close>

text \<open>
  The data has the size the buffer says, a whole number of frames; the loop points
  lie in it, and only a buffer without data has no format.
\<close>

definition buf_wf :: "albuffer \<Rightarrow> bool" where
  "buf_wf b \<longleftrightarrow> 0 \<le> buf_size b \<and> buf_size b < 2 ^ 31 \<and> buf_size b \<le> int (length (case buf_data b of None \<Rightarrow> [] | Some d \<Rightarrow> d)) \<and>
     uint (FrameSizeFromFmt (buf_FmtChannels b) (buf_FmtType b)) dvd buf_size b \<and> 0 \<le> buf_LoopStart b \<and>
     (buf_LoopStart b < buf_LoopEnd b \<or> buf_LoopEnd b = 0 \<and> buf_LoopStart b = 0) \<and>
     (if buf_FmtType b = FmtUnset then buf_LoopEnd b = 0
      else buf_LoopEnd b * uint (FrameSizeFromFmt (buf_FmtChannels b) (buf_FmtType b)) \<le> buf_size b)"

lemma buf_wf_refcount [simp]: "buf_wf (b\<lparr>buf_refcount := r\<rparr>) = buf_wf b"
  by (simp add: buf_wf_def)

definition buffers_inv :: "al_state \<Rightarrow> bool" where
  "buffers_inv s \<longleftrightarrow> um_inv (BufferMap s) \<and> (\<forall>k b. LookupBuffer s k = Some b \<longrightarrow> k \<noteq> 0 \<and> buf_buffer b = k \<and> buf_wf b)"

lemma buffers_inv_alSetError [simp]: "buffers_inv (alSetError e s) = buffers_inv s"
  by (simp add: buffers_inv_def)

lemma check_buffers_None:
  "check_buffers s ks = None \<longleftrightarrow> (\<forall>k\<in>set ks. k \<noteq> 0 \<longrightarrow> (\<exists>b. LookupBuffer s k = Some b \<and> buf_refcount b = 0))"
  by (induction ks) (auto split: option.split)

lemma check_buffers_alSetError [simp]: "check_buffers (alSetError e s) ks = check_buffers s ks"
  by (induction ks) (auto split: option.split)

text \<open>Deletion removes the named buffers and touches nothing else.\<close>

lemma delete_buffers_lookup:
  "buffers_inv s \<Longrightarrow> buffers_inv (delete_buffers ks s) \<and>
   LookupUIntMapKey (BufferMap (delete_buffers ks s)) = (LookupUIntMapKey (BufferMap s)) |` (- set ks) \<and>
   delete_buffers ks s = s\<lparr>BufferMap := BufferMap (delete_buffers ks s)\<rparr>"
proof (induction ks arbitrary: s)
  case (Cons k ks)
  show ?case
  proof (cases "LookupBuffer s k")
    case None
    then show ?thesis using Cons by (auto simp: restrict_map_def fun_eq_iff)
  next
    case (Some b)
    have k: "buf_buffer b = k" using Cons.prems Some by (simp add: buffers_inv_def)
    define s1 where "s1 = s\<lparr>BufferMap := RemoveUIntMapKey (BufferMap s) k\<rparr>"
    have um: "um_inv (BufferMap s)" using Cons.prems by (simp add: buffers_inv_def)
    have l: "LookupUIntMapKey (BufferMap s1) = (LookupUIntMapKey (BufferMap s))(k := None)" "um_inv (BufferMap s1)"
      using um.look_del [OF um] um.ok_del [OF um] by (simp_all add: s1_def)
    then have "buffers_inv s1" using Cons.prems by (auto simp: buffers_inv_def split: if_splits)
    note IH = Cons.IH [OF this]
    have d: "delete_buffers (k # ks) s = delete_buffers ks s1" using Some k by (simp add: s1_def)
    have "s1\<lparr>BufferMap := X\<rparr> = s\<lparr>BufferMap := X\<rparr>" for X by (simp add: s1_def)
    then have "delete_buffers ks s1 = s\<lparr>BufferMap := BufferMap (delete_buffers ks s1)\<rparr>" using IH by metis
    moreover have "LookupUIntMapKey (BufferMap (delete_buffers ks s1)) = (LookupUIntMapKey (BufferMap s)) |` (- set (k # ks))"
      using IH l(1) by (auto simp: restrict_map_def fun_eq_iff)
    ultimately show ?thesis using IH d by simp
  qed
qed (simp add: restrict_map_def)

lemma delete_buffers_sel:
  "buffers_inv s \<Longrightarrow> al_current (delete_buffers ks s) = al_current s \<and> LastError (delete_buffers ks s) = LastError s \<and>
    SourceMap (delete_buffers ks s) = SourceMap s \<and> ActiveSources (delete_buffers ks s) = ActiveSources s \<and>
    MaxActiveSources (delete_buffers ks s) = MaxActiveSources s \<and> EffectSlotMap (delete_buffers ks s) = EffectSlotMap s \<and>
    FilterMap (delete_buffers ks s) = FilterMap s"
proof -
  assume "buffers_inv s"
  then have "delete_buffers ks s = s\<lparr>BufferMap := BufferMap (delete_buffers ks s)\<rparr>"
    using delete_buffers_lookup by blast
  then obtain X where "delete_buffers ks s = s\<lparr>BufferMap := X\<rparr>" by blast
  then show ?thesis by simp
qed

definition new_buffer :: "ALuint \<Rightarrow> albuffer" where
  "new_buffer a = zero_buffer\<lparr>buf_buffer := a\<rparr>"

lemma buf_wf_new: "buf_wf (new_buffer a)" "buf_buffer (new_buffer a) = a"
  by (simp_all add: buf_wf_def new_buffer_def zero_buffer_def)

definition buffers_ready :: "al_state \<Rightarrow> bool" where
  "buffers_ready s \<longleftrightarrow> buffers_inv s \<and> al_current s"

lemma delete_buffers_ready:
  assumes "buffers_ready s" "\<forall>k\<in>set out. LookupBuffer s k = Some (new_buffer k)" "e \<noteq> AL_NO_ERROR"
  shows "\<exists>s'. alDeleteBuffers (int (length out)) out (alSetError e s) = s' \<and> buffers_ready s' \<and> LastError s' \<noteq> AL_NO_ERROR \<and>
     LookupUIntMapKey (BufferMap s') = (LookupUIntMapKey (BufferMap s)) |` (- set out)"
proof -
  define t where "t = alSetError e s"
  have t: "buffers_inv t" "al_current t" "LastError t \<noteq> AL_NO_ERROR" "BufferMap t = BufferMap s"
    using assms(1,3) by (auto simp: t_def buffers_ready_def LastError_alSetError)
  have "check_buffers t out = None"
    using assms(2) t(4) by (simp add: check_buffers_None new_buffer_def zero_buffer_def)
  then have d: "alDeleteBuffers (int (length out)) out t = delete_buffers out t"
    using t by (simp add: alDeleteBuffers_def)
  show ?thesis using d delete_buffers_lookup [OF t(1), of out] delete_buffers_sel [OF t(1), of out] t
    by (simp add: t_def [symmetric] buffers_ready_def)
qed

interpretation bgen: object_gen "gen_buffers R" "\<lambda>s. LookupUIntMapKey (BufferMap s)" LastError buffers_ready new_buffer for R
proof unfold_locales
  fix n cs out and s :: al_state
  assume s: "buffers_ready s" and fr: "fresh_addrs cs (LookupUIntMapKey (BufferMap s))"
    and out: "\<forall>k\<in>set out. LookupBuffer s k = Some (new_buffer k)"
  have fail: "\<exists>s'. (out, alDeleteBuffers (int (length out)) out (alSetError e s)) = (out, s') \<and> buffers_ready s' \<and>
      LastError s' \<noteq> AL_NO_ERROR \<and> LookupUIntMapKey (BufferMap s') = (LookupUIntMapKey (BufferMap s)) |` (- set out)"
    if "e \<noteq> AL_NO_ERROR" for e
    using delete_buffers_ready [OF s out that] by simp
  have oom: "AL_OUT_OF_MEMORY \<noteq> AL_NO_ERROR" by (simp add: al_simps)
  show "(\<exists>s'. gen_buffers R (Suc n) cs out s = (out, s') \<and> buffers_ready s' \<and> LastError s' \<noteq> AL_NO_ERROR \<and>
      LookupUIntMapKey (BufferMap s') = (LookupUIntMapKey (BufferMap s)) |` (- set out)) \<or>
    (\<exists>a cs' s1. gen_buffers R (Suc n) cs out s = gen_buffers R n cs' (out @ [a]) s1 \<and> a \<noteq> 0 \<and> LookupBuffer s a = None \<and>
      buffers_ready s1 \<and> LastError s1 = LastError s \<and> fresh_addrs cs' (LookupUIntMapKey (BufferMap s1)) \<and>
      LookupUIntMapKey (BufferMap s1) = (LookupUIntMapKey (BufferMap s))(a \<mapsto> new_buffer a))"
  proof (cases "cs = [] \<or> hd cs = 0")
    case True
    then have "gen_buffers R (Suc n) cs out s = (out, alDeleteBuffers (int (length out)) out (alSetError AL_OUT_OF_MEMORY s))"
      by (cases cs) auto
    then show ?thesis using fail [OF oom] by simp
  next
    case False
    then obtain a cs' where cs: "cs = a # cs'" and a: "a \<noteq> 0" by (cases cs) auto
    have f: "LookupBuffer s a = None" "fresh_addrs cs' ((LookupUIntMapKey (BufferMap s))(a \<mapsto> new_buffer a))"
      using fresh_addrs_Cons [of a cs' "LookupUIntMapKey (BufferMap s)" "new_buffer a"] fr cs a by simp_all
    have um: "um_inv (BufferMap s)" using s by (simp add: buffers_ready_def buffers_inv_def)
    obtain err m where ins: "InsertUIntMapEntry R (BufferMap s) a (new_buffer a) = (err, m)" by force
    show ?thesis
    proof (cases "err = AL_NO_ERROR")
      case False
      then show ?thesis using fail [OF False] cs a ins by (simp add: new_buffer_def)
    next
      case True
      define s1 where "s1 = s\<lparr>BufferMap := m\<rparr>"
      have m: "um_inv m" "LookupUIntMapKey m = (LookupUIntMapKey (BufferMap s))(a \<mapsto> new_buffer a)"
        using um.ins_cases [OF um, of R a "new_buffer a"] ins True by (auto simp: al_simps)
      have "buffers_ready s1"
        using s m a buf_wf_new [of a] by (auto simp: s1_def buffers_ready_def buffers_inv_def split: if_splits)
      moreover have "gen_buffers R (Suc n) cs out s = gen_buffers R n cs' (out @ [a]) s1"
        using cs a ins True by (simp add: s1_def new_buffer_def)
      ultimately show ?thesis using a f m
        by (intro disjI2 exI [of _ a] exI [of _ cs'] exI [of _ s1]) (simp add: s1_def del: gen_buffers.simps)
    qed
  qed
qed simp

end
