(* ===== verification/AL_Filter.thy ===== *)
theory AL_Filter
  imports AL_Context
begin

text \<open>
  The filter objects of \<^verbatim>\<open>OpenAL32/alFilter.c\<close>: creation, deletion, parameters and queries. The
  argument \<open>cs\<close> of a creation lists the addresses that the successive \<open>calloc\<close>
  calls return (0, or a list that is used up, is failure), \<open>R\<close> tells which
  reallocations of the map succeed.
\<close>

section \<open>Constants\<close>

definition AL_FILTER_TYPE :: ALenum where "AL_FILTER_TYPE = 0x8001"
definition AL_FILTER_NULL :: ALenum where "AL_FILTER_NULL = 0"
definition AL_FILTER_LOWPASS :: ALenum where "AL_FILTER_LOWPASS = 1"
definition AL_LOWPASS_GAIN :: ALenum where "AL_LOWPASS_GAIN = 1"
definition AL_LOWPASS_GAINHF :: ALenum where "AL_LOWPASS_GAINHF = 2"

lemmas filter_consts = AL_FILTER_TYPE_def AL_FILTER_NULL_def AL_FILTER_LOWPASS_def AL_LOWPASS_GAIN_def AL_LOWPASS_GAINHF_def

definition zero_filter :: alfilter where
  "zero_filter = \<lparr>flt_type = 0, flt_Gain = Num False 0, flt_GainHF = Num False 0, flt_filter = 0\<rparr>"

definition InitFilterParams :: "ALenum \<Rightarrow> alfilter \<Rightarrow> alfilter" where
  "InitFilterParams type f = f\<lparr>flt_type := type, flt_Gain := f_of_int b32 1, flt_GainHF := f_of_int b32 1\<rparr>"

abbreviation LookupFilter :: "al_state \<Rightarrow> ALuint \<Rightarrow> alfilter option" where
  "LookupFilter s \<equiv> LookupUIntMapKey (FilterMap s)"

section \<open>Creation and deletion\<close>

text \<open>The second loop of \<open>alDeleteFilters\<close>.\<close>

fun delete_filters :: "ALuint list \<Rightarrow> al_state \<Rightarrow> al_state" where
  "delete_filters [] s = s"
| "delete_filters (k # ks) s =
     (case LookupFilter s k of
        None \<Rightarrow> delete_filters ks s
      | Some f \<Rightarrow> delete_filters ks (s\<lparr>FilterMap := RemoveUIntMapKey (FilterMap s) (flt_filter f)\<rparr>))"

definition alDeleteFilters :: "int \<Rightarrow> ALuint list \<Rightarrow> al_state \<Rightarrow> al_state" where
  "alDeleteFilters n filters s =
     (if \<not> al_current s then s
      else if n < 0 then alSetError AL_INVALID_VALUE s
      else
        let names = take (nat n) filters in
        if list_ex (\<lambda>k. k \<noteq> 0 \<and> LookupFilter s k = None) names then alSetError AL_INVALID_NAME s
        else delete_filters names s)"

text \<open>The loop of \<open>alGenFilters\<close>; \<open>out\<close> holds the names stored so far.\<close>

fun gen_filters :: "(nat \<Rightarrow> bool) \<Rightarrow> nat \<Rightarrow> ALuint list \<Rightarrow> ALuint list \<Rightarrow> al_state \<Rightarrow> ALuint list \<times> al_state" where
  "gen_filters R 0 cs out s = (out, s)"
| "gen_filters R (Suc n) cs out s =
     (case cs of
        [] \<Rightarrow> (out, alDeleteFilters (int (length out)) out (alSetError AL_OUT_OF_MEMORY s))
      | a # cs' \<Rightarrow>
          if a = 0 then (out, alDeleteFilters (int (length out)) out (alSetError AL_OUT_OF_MEMORY s))
          else
            let (err, m) = InsertUIntMapEntry R (FilterMap s) a (zero_filter\<lparr>flt_filter := a\<rparr>) in
            if err \<noteq> AL_NO_ERROR
            then (out, alDeleteFilters (int (length out)) out (alSetError err s))
            else gen_filters R n cs' (out @ [a])
                   (s\<lparr>FilterMap := um_upd m a (InitFilterParams AL_FILTER_NULL)\<rparr>))"

text \<open>\<open>null\<close> tells that the caller passed no array.\<close>

definition alGenFilters :: "(nat \<Rightarrow> bool) \<Rightarrow> ALuint list \<Rightarrow> int \<Rightarrow> bool \<Rightarrow> al_state \<Rightarrow> ALuint list \<times> al_state" where
  "alGenFilters R cs n null s =
     (if \<not> al_current s then ([], s)
      else if n < 0 \<or> (null \<and> n \<noteq> 0) then ([], alSetError AL_INVALID_VALUE s)
      else gen_filters R (nat n) cs [] s)"

definition alIsFilter :: "ALuint \<Rightarrow> al_state \<Rightarrow> bool" where
  "alIsFilter k s = (al_current s \<and> (k = 0 \<or> LookupFilter s k \<noteq> None))"

text \<open>\<open>ReleaseALFilters\<close> frees every filter and is followed by \<open>ResetUIntMap\<close> when the device is closed.\<close>

definition ReleaseALFilters :: "al_state \<Rightarrow> al_state" where
  "ReleaseALFilters s = s\<lparr>FilterMap := ResetUIntMap (FilterMap s)\<rparr>"

section \<open>Parameters\<close>

definition alFilteri :: "ALuint \<Rightarrow> ALenum \<Rightarrow> int \<Rightarrow> al_state \<Rightarrow> al_state" where
  "alFilteri fid param iValue s =
     (if \<not> al_current s then s
      else (case LookupFilter s fid of
              None \<Rightarrow> alSetError AL_INVALID_NAME s
            | Some f \<Rightarrow>
                if param = AL_FILTER_TYPE then
                  if iValue = AL_FILTER_NULL \<or> iValue = AL_FILTER_LOWPASS
                  then s\<lparr>FilterMap := um_upd (FilterMap s) fid (InitFilterParams iValue)\<rparr>
                  else alSetError AL_INVALID_VALUE s
                else alSetError AL_INVALID_ENUM s))"

definition alFilteriv :: "ALuint \<Rightarrow> ALenum \<Rightarrow> int list \<Rightarrow> al_state \<Rightarrow> al_state" where
  "alFilteriv fid param piValues s =
     (if \<not> al_current s then s
      else (case LookupFilter s fid of
              None \<Rightarrow> alSetError AL_INVALID_NAME s
            | Some f \<Rightarrow>
                if param = AL_FILTER_TYPE then alFilteri fid param (piValues ! 0) s
                else alSetError AL_INVALID_ENUM s))"

definition unit_range :: "flt \<Rightarrow> bool" where
  "unit_range v \<longleftrightarrow> f_le (f_of_int b32 0) v \<and> f_le v (f_of_int b32 1)"

definition alFilterf :: "ALuint \<Rightarrow> ALenum \<Rightarrow> flt \<Rightarrow> al_state \<Rightarrow> al_state" where
  "alFilterf fid param flValue s =
     (if \<not> al_current s then s
      else (case LookupFilter s fid of
              None \<Rightarrow> alSetError AL_INVALID_NAME s
            | Some f \<Rightarrow>
                if flt_type f = AL_FILTER_LOWPASS then
                  if param = AL_LOWPASS_GAIN then
                    if unit_range flValue then s\<lparr>FilterMap := um_upd (FilterMap s) fid (\<lambda>f. f\<lparr>flt_Gain := flValue\<rparr>)\<rparr>
                    else alSetError AL_INVALID_VALUE s
                  else if param = AL_LOWPASS_GAINHF then
                    if unit_range flValue then s\<lparr>FilterMap := um_upd (FilterMap s) fid (\<lambda>f. f\<lparr>flt_GainHF := flValue\<rparr>)\<rparr>
                    else alSetError AL_INVALID_VALUE s
                  else alSetError AL_INVALID_ENUM s
                else alSetError AL_INVALID_ENUM s))"

definition alFilterfv :: "ALuint \<Rightarrow> ALenum \<Rightarrow> flt list \<Rightarrow> al_state \<Rightarrow> al_state" where
  "alFilterfv fid param pflValues s =
     (if \<not> al_current s then s
      else (case LookupFilter s fid of
              None \<Rightarrow> alSetError AL_INVALID_NAME s
            | Some f \<Rightarrow> alFilterf fid param (pflValues ! 0) s))"

section \<open>Queries\<close>

text \<open>The value stored through the pointer, if any, and the state.\<close>

definition alGetFilteri :: "ALuint \<Rightarrow> ALenum \<Rightarrow> al_state \<Rightarrow> int option \<times> al_state" where
  "alGetFilteri fid param s =
     (if \<not> al_current s then (None, s)
      else (case LookupFilter s fid of
              None \<Rightarrow> (None, alSetError AL_INVALID_NAME s)
            | Some f \<Rightarrow> if param = AL_FILTER_TYPE then (Some (flt_type f), s)
                        else (None, alSetError AL_INVALID_ENUM s)))"

definition alGetFilteriv :: "ALuint \<Rightarrow> ALenum \<Rightarrow> al_state \<Rightarrow> int option \<times> al_state" where
  "alGetFilteriv fid param s =
     (if \<not> al_current s then (None, s)
      else (case LookupFilter s fid of
              None \<Rightarrow> (None, alSetError AL_INVALID_NAME s)
            | Some f \<Rightarrow> if param = AL_FILTER_TYPE then alGetFilteri fid param s
                        else (None, alSetError AL_INVALID_ENUM s)))"

definition alGetFilterf :: "ALuint \<Rightarrow> ALenum \<Rightarrow> al_state \<Rightarrow> flt option \<times> al_state" where
  "alGetFilterf fid param s =
     (if \<not> al_current s then (None, s)
      else (case LookupFilter s fid of
              None \<Rightarrow> (None, alSetError AL_INVALID_NAME s)
            | Some f \<Rightarrow>
                if flt_type f = AL_FILTER_LOWPASS then
                  if param = AL_LOWPASS_GAIN then (Some (flt_Gain f), s)
                  else if param = AL_LOWPASS_GAINHF then (Some (flt_GainHF f), s)
                  else (None, alSetError AL_INVALID_ENUM s)
                else (None, alSetError AL_INVALID_ENUM s)))"

definition alGetFilterfv :: "ALuint \<Rightarrow> ALenum \<Rightarrow> al_state \<Rightarrow> flt option \<times> al_state" where
  "alGetFilterfv fid param s =
     (if \<not> al_current s then (None, s)
      else (case LookupFilter s fid of
              None \<Rightarrow> (None, alSetError AL_INVALID_NAME s)
            | Some f \<Rightarrow> alGetFilterf fid param s))"

section \<open>Well-formed filter tables\<close>

definition filter_ok :: "ALuint \<Rightarrow> alfilter \<Rightarrow> bool" where
  "filter_ok k f \<longleftrightarrow> k \<noteq> 0 \<and> flt_filter f = k \<and> (flt_type f = AL_FILTER_NULL \<or> flt_type f = AL_FILTER_LOWPASS) \<and>
     unit_range (flt_Gain f) \<and> unit_range (flt_GainHF f)"

definition filters_inv :: "al_state \<Rightarrow> bool" where
  "filters_inv s \<longleftrightarrow> um_inv (FilterMap s) \<and> (\<forall>k f. LookupFilter s k = Some f \<longrightarrow> filter_ok k f)"

lemma unit_range_1 [simp]: "unit_range (f_of_int b32 1)"
  by (simp add: unit_range_def f_le_def signed_val_def)

lemma unit_range_NaN [simp]: "\<not> unit_range NaN"
  by (simp add: unit_range_def f_le_def)

lemma filter_ok_Init: "filter_ok k f \<Longrightarrow> t = AL_FILTER_NULL \<or> t = AL_FILTER_LOWPASS \<Longrightarrow> filter_ok k (InitFilterParams t f)"
  using unit_range_1 by (auto simp: filter_ok_def InitFilterParams_def)

lemma filters_inv_alSetError [simp]: "filters_inv (alSetError e s) = filters_inv s"
  by (simp add: filters_inv_def)

lemma filters_inv_upd:
  "filters_inv s \<Longrightarrow> (\<And>f. LookupFilter s k = Some f \<Longrightarrow> filter_ok k (g f)) \<Longrightarrow>
   filters_inv (s\<lparr>FilterMap := um_upd (FilterMap s) k g\<rparr>)"
  by (auto simp: filters_inv_def split: if_splits)

lemma delete_filters_lookup:
  "filters_inv s \<Longrightarrow> filters_inv (delete_filters ks s) \<and>
   LookupUIntMapKey (FilterMap (delete_filters ks s)) = (LookupUIntMapKey (FilterMap s)) |` (- set ks) \<and>
   delete_filters ks s = s\<lparr>FilterMap := FilterMap (delete_filters ks s)\<rparr>"
proof (induction ks arbitrary: s)
  case (Cons k ks)
  show ?case
  proof (cases "LookupFilter s k")
    case None
    then show ?thesis using Cons by (auto simp: restrict_map_def fun_eq_iff)
  next
    case (Some f)
    have k: "flt_filter f = k" using Cons.prems Some by (simp add: filters_inv_def filter_ok_def)
    define s1 where "s1 = s\<lparr>FilterMap := RemoveUIntMapKey (FilterMap s) k\<rparr>"
    have um: "um_inv (FilterMap s)" using Cons.prems by (simp add: filters_inv_def)
    have l: "LookupUIntMapKey (FilterMap s1) = (LookupUIntMapKey (FilterMap s))(k := None)" "um_inv (FilterMap s1)"
      using um.look_del [OF um] um.ok_del [OF um] by (simp_all add: s1_def)
    then have "filters_inv s1" using Cons.prems by (auto simp: filters_inv_def split: if_splits)
    note IH = Cons.IH [OF this]
    have d: "delete_filters (k # ks) s = delete_filters ks s1" using Some k by (simp add: s1_def)
    have "s1\<lparr>FilterMap := X\<rparr> = s\<lparr>FilterMap := X\<rparr>" for X by (simp add: s1_def)
    then have "delete_filters ks s1 = s\<lparr>FilterMap := FilterMap (delete_filters ks s1)\<rparr>" using IH by metis
    moreover have "LookupUIntMapKey (FilterMap (delete_filters ks s1)) = (LookupUIntMapKey (FilterMap s)) |` (- set (k # ks))"
      using IH l(1) by (auto simp: restrict_map_def fun_eq_iff)
    ultimately show ?thesis using IH d by simp
  qed
qed (simp add: restrict_map_def)


text \<open>Deleting valid names.\<close>

lemma alDeleteFilters_valid:
  assumes "filters_inv s" "al_current s" "\<forall>k\<in>set ks. k = 0 \<or> LookupFilter s k \<noteq> None"
  shows "alDeleteFilters (int (length ks)) ks s = delete_filters ks s"
  using assms by (auto simp: alDeleteFilters_def Let_def list_ex_iff)

definition new_filter :: "ALuint \<Rightarrow> alfilter" where
  "new_filter a = InitFilterParams AL_FILTER_NULL (zero_filter\<lparr>flt_filter := a\<rparr>)"

lemma filter_ok_new: "a \<noteq> 0 \<Longrightarrow> filter_ok a (new_filter a)"
  using unit_range_1 by (simp add: filter_ok_def new_filter_def InitFilterParams_def)

lemma insert_filter:
  assumes inv: "filters_inv s" and a: "a \<noteq> 0" "LookupFilter s a = None"
    and ins: "InsertUIntMapEntry R (FilterMap s) a (zero_filter\<lparr>flt_filter := a\<rparr>) = (AL_NO_ERROR, m)"
  defines "s1 \<equiv> s\<lparr>FilterMap := um_upd m a (InitFilterParams AL_FILTER_NULL)\<rparr>"
  shows "filters_inv s1 \<and> LookupUIntMapKey (FilterMap s1) = (LookupUIntMapKey (FilterMap s))(a \<mapsto> new_filter a)"
proof -
  have um: "um_inv (FilterMap s)" using inv by (simp add: filters_inv_def)
  have m: "um_inv m" "LookupUIntMapKey m = (LookupUIntMapKey (FilterMap s))(a \<mapsto> zero_filter\<lparr>flt_filter := a\<rparr>)"
    using um.ins_cases [OF um, of R a "zero_filter\<lparr>flt_filter := a\<rparr>"] ins by (auto simp: al_simps)
  have l: "LookupUIntMapKey (FilterMap s1) = (LookupUIntMapKey (FilterMap s))(a \<mapsto> new_filter a)"
    using m by (auto simp: s1_def new_filter_def)
  have "um_inv (FilterMap s1)" using m by (simp add: s1_def)
  then have "filters_inv s1" using inv l filter_ok_new [OF a(1)] by (auto simp: filters_inv_def split: if_splits)
  then show ?thesis using l by simp
qed

definition filters_ready :: "al_state \<Rightarrow> bool" where
  "filters_ready s \<longleftrightarrow> filters_inv s \<and> al_current s"

lemma delete_filters_ready:
  assumes "filters_ready s" "\<forall>k\<in>set out. LookupFilter s k = Some (new_filter k)" "e \<noteq> AL_NO_ERROR"
  shows "\<exists>s'. alDeleteFilters (int (length out)) out (alSetError e s) = s' \<and> filters_ready s' \<and> LastError s' \<noteq> AL_NO_ERROR \<and>
     LookupUIntMapKey (FilterMap s') = (LookupUIntMapKey (FilterMap s)) |` (- set out)"
proof -
  define t where "t = alSetError e s"
  have t: "filters_inv t" "al_current t" "LastError t \<noteq> AL_NO_ERROR" "FilterMap t = FilterMap s"
    using assms(1,3) by (auto simp: t_def filters_ready_def LastError_alSetError)
  have d: "alDeleteFilters (int (length out)) out t = delete_filters out t"
    using assms(2) t by (intro alDeleteFilters_valid) auto
  note l = delete_filters_lookup [OF t(1), of out]
  have "al_current (delete_filters out t) = al_current t" "LastError (delete_filters out t) = LastError t"
    using l by (metis al_state.select_convs(1,2) al_state.surjective al_state.update_convs(14))+
  then show ?thesis using d l t by (simp add: t_def [symmetric] filters_ready_def)
qed

interpretation fgen: object_gen "gen_filters R" "\<lambda>s. LookupUIntMapKey (FilterMap s)" LastError filters_ready new_filter for R
proof unfold_locales
  fix n cs out and s :: al_state
  assume s: "filters_ready s" and fr: "fresh_addrs cs (LookupUIntMapKey (FilterMap s))"
    and out: "\<forall>k\<in>set out. LookupFilter s k = Some (new_filter k)"
  have fail: "\<exists>s'. (out, alDeleteFilters (int (length out)) out (alSetError e s)) = (out, s') \<and> filters_ready s' \<and>
      LastError s' \<noteq> AL_NO_ERROR \<and> LookupUIntMapKey (FilterMap s') = (LookupUIntMapKey (FilterMap s)) |` (- set out)"
    if "e \<noteq> AL_NO_ERROR" for e
    using delete_filters_ready [OF s out that] by simp
  have oom: "AL_OUT_OF_MEMORY \<noteq> AL_NO_ERROR" by (simp add: al_simps)
  show "(\<exists>s'. gen_filters R (Suc n) cs out s = (out, s') \<and> filters_ready s' \<and> LastError s' \<noteq> AL_NO_ERROR \<and>
      LookupUIntMapKey (FilterMap s') = (LookupUIntMapKey (FilterMap s)) |` (- set out)) \<or>
    (\<exists>a cs' s1. gen_filters R (Suc n) cs out s = gen_filters R n cs' (out @ [a]) s1 \<and> a \<noteq> 0 \<and> LookupFilter s a = None \<and>
      filters_ready s1 \<and> LastError s1 = LastError s \<and> fresh_addrs cs' (LookupUIntMapKey (FilterMap s1)) \<and>
      LookupUIntMapKey (FilterMap s1) = (LookupUIntMapKey (FilterMap s))(a \<mapsto> new_filter a))"
  proof (cases "cs = [] \<or> hd cs = 0")
    case True
    then have "gen_filters R (Suc n) cs out s = (out, alDeleteFilters (int (length out)) out (alSetError AL_OUT_OF_MEMORY s))"
      by (cases cs) auto
    then show ?thesis using fail [OF oom] by simp
  next
    case False
    then obtain a cs' where cs: "cs = a # cs'" and a: "a \<noteq> 0" by (cases cs) auto
    have f: "LookupFilter s a = None" "fresh_addrs cs' ((LookupUIntMapKey (FilterMap s))(a \<mapsto> new_filter a))"
      using fresh_addrs_Cons [of a cs' "LookupUIntMapKey (FilterMap s)" "new_filter a"] fr cs a by simp_all
    obtain err m where ins: "InsertUIntMapEntry R (FilterMap s) a (zero_filter\<lparr>flt_filter := a\<rparr>) = (err, m)" by force
    show ?thesis
    proof (cases "err = AL_NO_ERROR")
      case False
      then show ?thesis using fail [OF False] cs a ins by simp
    next
      case True
      define s1 where "s1 = s\<lparr>FilterMap := um_upd m a (InitFilterParams AL_FILTER_NULL)\<rparr>"
      have "filters_inv s1 \<and> LookupUIntMapKey (FilterMap s1) = (LookupUIntMapKey (FilterMap s))(a \<mapsto> new_filter a)"
        using insert_filter [of s a R m] s a f(1) ins True by (simp add: s1_def filters_ready_def)
      moreover have "gen_filters R (Suc n) cs out s = gen_filters R n cs' (out @ [a]) s1"
        using cs a ins True by (simp add: s1_def)
      moreover have "al_current s1" "LastError s1 = LastError s" using s by (simp_all add: s1_def filters_ready_def)
      ultimately show ?thesis using a f
        by (intro disjI2 exI [of _ a] exI [of _ cs'] exI [of _ s1]) (simp add: filters_ready_def del: gen_filters.simps)
    qed
  qed
qed simp

section \<open>Every call keeps the table well formed\<close>

lemma alDeleteFilters_inv: "filters_inv s \<Longrightarrow> filters_inv (alDeleteFilters n ks s)"
  using delete_filters_lookup by (auto simp: alDeleteFilters_def Let_def)

lemma alGenFilters_inv:
  "filters_inv s \<Longrightarrow> fresh_addrs cs (LookupUIntMapKey (FilterMap s)) \<Longrightarrow> filters_inv (snd (alGenFilters R cs n null s))"
  using fgen.gen_cases [of s cs "[]" R "nat n"]
  by (cases "gen_filters R (nat n) cs [] s") (auto simp: alGenFilters_def filters_ready_def)

lemma alFilteri_inv: "filters_inv s \<Longrightarrow> filters_inv (alFilteri k p v s)"
  by (auto simp: alFilteri_def split: option.split intro!: filters_inv_upd filter_ok_Init) (auto simp: filters_inv_def)

lemma alFilterf_inv: "filters_inv s \<Longrightarrow> filters_inv (alFilterf k p v s)"
  by (auto simp: alFilterf_def split: option.split intro!: filters_inv_upd) (auto simp: filters_inv_def filter_ok_def)

lemmas filter_call_inv = alDeleteFilters_inv alGenFilters_inv alFilteri_inv alFilterf_inv

text \<open>The calls of an application, and the states they lead to.\<close>

datatype filter_call = FGen "ALuint list" int bool | FDelete int "ALuint list" | FSeti ALuint ALenum int
  | FSetiv ALuint ALenum "int list" | FSetf ALuint ALenum flt | FSetfv ALuint ALenum "flt list"
  | FGeti ALuint ALenum | FGetf ALuint ALenum | FError

inductive filter_step :: "(nat \<Rightarrow> bool) \<Rightarrow> al_state \<Rightarrow> filter_call \<Rightarrow> al_state \<Rightarrow> bool" for R where
  gen: "fresh_addrs cs (LookupUIntMapKey (FilterMap s)) \<Longrightarrow> filter_step R s (FGen cs n null) (snd (alGenFilters R cs n null s))"
| delete: "filter_step R s (FDelete n ks) (alDeleteFilters n ks s)"
| seti: "filter_step R s (FSeti k p v) (alFilteri k p v s)"
| setiv: "filter_step R s (FSetiv k p vs) (alFilteriv k p vs s)"
| setf: "filter_step R s (FSetf k p x) (alFilterf k p x s)"
| setfv: "filter_step R s (FSetfv k p xs) (alFilterfv k p xs s)"
| geti: "filter_step R s (FGeti k p) (snd (alGetFilteri k p s))"
| getf: "filter_step R s (FGetf k p) (snd (alGetFilterf k p s))"
| err: "filter_step R s FError (snd (alGetError s))"

inductive_cases filter_step_setf: "filter_step R s (FSetf k p x) s'"

inductive filter_reach :: "(nat \<Rightarrow> bool) \<Rightarrow> al_state \<Rightarrow> al_state \<Rightarrow> bool" for R where
  refl: "filter_reach R s s"
| step: "filter_reach R s t \<Longrightarrow> filter_step R t c u \<Longrightarrow> filter_reach R s u"

lemma filter_step_inv: "filter_step R s c s' \<Longrightarrow> filters_inv s \<Longrightarrow> filters_inv s'"
proof (induction rule: filter_step.induct)
  case (setiv s k p vs)
  then show ?case by (auto simp: alFilteriv_def filter_call_inv split: option.split)
next
  case (setfv s k p xs)
  then show ?case by (auto simp: alFilterfv_def filter_call_inv split: option.split)
next
  case (geti s k p)
  then show ?case by (auto simp: alGetFilteri_def split: option.split)
next
  case (getf s k p)
  then show ?case by (auto simp: alGetFilterf_def split: option.split)
next
  case (err s)
  then show ?case by (auto simp: alGetError_def filters_inv_def)
qed (simp_all add: filter_call_inv)

section \<open>Properties\<close>

definition demo_al :: al_state where
  "demo_al = \<lparr>al_current = True, LastError = AL_NO_ERROR, Connected = True, Frequency = 44100, UpdateSize = 1024,
     NumAuxSends = 1, MaxNoOfSources = 256, AuxiliaryEffectSlotMax = 4, SourceDistanceModel = False, PrioritySlots = 0,
     alc_max_sources = 8, alc_active_sources = 0, DefaultResampler = 1, FilterMap = InitUIntMap, BufferMap = InitUIntMap,
     EffectMap = InitUIntMap, EffectSlotMap = InitUIntMap, SourceMap = InitUIntMap, ActiveSources = [],
     MaxActiveSources = 256\<rparr>"

definition demo_lowpass :: alfilter where
  "demo_lowpass = \<lparr>flt_type = AL_FILTER_LOWPASS, flt_Gain = Num False 1, flt_GainHF = Num False 1, flt_filter = 64\<rparr>"

definition demo_filters :: al_state where
  "demo_filters = demo_al\<lparr>FilterMap := \<lparr>um_array = [(64, demo_lowpass)], um_size = 1, um_maxsize = 4\<rparr>\<rparr>"

lemma demo_filters_inv: "filters_inv demo_filters" "LookupFilter demo_filters 64 = Some demo_lowpass"
    "LookupFilter demo_filters 80 = None" "LookupFilter demo_filters 0 = None"
proof -
  have um: "um_inv (FilterMap demo_filters)" by (simp add: um_inv_def demo_filters_def)
  have l: "LookupUIntMapKey (FilterMap demo_filters) = [64 \<mapsto> demo_lowpass]"
    using um by (simp add: LookupUIntMapKey_abs um_abs_def) (simp add: demo_filters_def)
  show "LookupFilter demo_filters 64 = Some demo_lowpass" "LookupFilter demo_filters 80 = None"
    "LookupFilter demo_filters 0 = None" by (simp_all add: l)
  have "filter_ok 64 demo_lowpass" using unit_range_1 by (simp add: filter_ok_def demo_lowpass_def)
  then show "filters_inv demo_filters" using um l by (simp add: filters_inv_def)
qed

text \<open>\<open>alGenFilters\<close> is all or nothing. Either it stores \<open>n\<close> distinct new names, each bound to a default
  filter, and changes nothing else, or it reports an error and takes back every filter it had made.\<close>

theorem alGenFilters_all_or_nothing:
  assumes "filters_inv s" "al_current s" "0 \<le> n" "fresh_addrs cs (LookupUIntMapKey (FilterMap s))"
    "alGenFilters R cs n False s = (names, s')"
  shows "(length names = nat n \<and> distinct names \<and> 0 \<notin> set names \<and> (\<forall>k\<in>set names. LookupFilter s k = None) \<and>
       LastError s' = LastError s \<and>
       LookupUIntMapKey (FilterMap s') = (\<lambda>k. if k \<in> set names then Some (new_filter k) else LookupFilter s k)) \<or>
     (length names < nat n \<and> LastError s' \<noteq> AL_NO_ERROR \<and> LookupUIntMapKey (FilterMap s') = LookupUIntMapKey (FilterMap s))"
proof -
  have "gen_filters R (nat n) cs [] s = (names, s')" using assms by (simp add: alGenFilters_def)
  from fgen.gen_cases [OF _ assms(4) _ this] assms(1,2) show ?thesis by (auto simp: restrict_map_def filters_ready_def)
qed

theorem alGenFilters_all_or_nothing_witness:
  "LookupUIntMapKey (FilterMap (snd (alGenFilters (\<lambda>n. True) [80, 0] 2 False demo_filters))) 64 = Some demo_lowpass"
proof -
  obtain names s' where g: "alGenFilters (\<lambda>n. True) [80, 0] 2 False demo_filters = (names, s')" by force
  have "fresh_addrs [80, 0] (LookupUIntMapKey (FilterMap demo_filters))"
    using demo_filters_inv(3,4) by (simp add: fresh_addrs_def)
  moreover have "al_current demo_filters" by (simp add: demo_filters_def demo_al_def)
  ultimately show ?thesis
    using alGenFilters_all_or_nothing [OF demo_filters_inv(1), of 2 "[80, 0]" "\<lambda>n. True" names s'] g demo_filters_inv(2)
    by (auto split: if_splits)
qed

text \<open>\<open>alDeleteFilters\<close> checks every name before it deletes any: with an unknown name (other than 0) nothing
  is deleted and the error is \<open>AL_INVALID_NAME\<close>; otherwise exactly the named filters go.\<close>

theorem alDeleteFilters_atomic:
  assumes "filters_inv s" "al_current s" "0 \<le> n"
  shows "LookupUIntMapKey (FilterMap (alDeleteFilters n ks s)) =
       (if \<exists>k\<in>set (take (nat n) ks). k \<noteq> 0 \<and> LookupFilter s k = None then LookupUIntMapKey (FilterMap s)
        else (LookupUIntMapKey (FilterMap s)) |` (- set (take (nat n) ks))) \<and>
     LastError (alDeleteFilters n ks s) =
       (if LastError s = AL_NO_ERROR \<and> (\<exists>k\<in>set (take (nat n) ks). k \<noteq> 0 \<and> LookupFilter s k = None)
        then AL_INVALID_NAME else LastError s)"
proof -
  note d = delete_filters_lookup [OF assms(1), of "take (nat n) ks"]
  have "LastError (delete_filters (take (nat n) ks) s) = LastError s"
    using d by (metis al_state.select_convs(2) al_state.surjective al_state.update_convs(14))
  then show ?thesis using d assms(2,3) by (auto simp: alDeleteFilters_def Let_def list_ex_iff LastError_alSetError)
qed

theorem alDeleteFilters_atomic_witness:
  "LastError (alDeleteFilters 2 [64, 80] demo_filters) = AL_INVALID_NAME \<and>
   LookupUIntMapKey (FilterMap (alDeleteFilters 2 [64, 80] demo_filters)) 64 = Some demo_lowpass"
  using alDeleteFilters_atomic [OF demo_filters_inv(1), of 2 "[64, 80]"] demo_filters_inv(2,3)
  by (simp add: demo_filters_def demo_al_def)

text \<open>C38: In every state that calls of the filter interface can lead to, each filter is a null or low-pass
  filter whose gains are numbers between 0 and 1, and each is stored under its own name; no value
  that a caller passes, NaN and infinities included, gets past the checks.\<close>

theorem filters_always_valid:
  assumes "filter_reach R s t" "filters_inv s"
  shows "um_inv (FilterMap t) \<and> (\<forall>k f. LookupFilter t k = Some f \<longrightarrow> filter_ok k f)"
proof -
  have "filters_inv t" using assms by (induction rule: filter_reach.induct) (auto intro: filter_step_inv)
  then show ?thesis by (simp add: filters_inv_def)
qed

theorem filters_always_valid_witness:
  "um_inv (FilterMap (alFilterf 64 AL_LOWPASS_GAIN NaN demo_filters)) \<and>
   pred_option (filter_ok 64) (LookupFilter (alFilterf 64 AL_LOWPASS_GAIN NaN demo_filters) 64)"
  using filters_always_valid [OF filter_reach.step [OF filter_reach.refl filter_step.setf] demo_filters_inv(1)]
  by (cases "LookupFilter (alFilterf 64 AL_LOWPASS_GAIN NaN demo_filters) 64") auto

text \<open>A gain that \<open>alFilterf\<close> accepts is the gain that \<open>alGetFilterf\<close> returns; a value outside 0 to 1 is
  refused with \<open>AL_INVALID_VALUE\<close> and leaves the filter as it was.\<close>

theorem alFilterf_roundtrip:
  assumes "filters_inv s" "al_current s" "LookupFilter s k = Some f" "flt_type f = AL_FILTER_LOWPASS"
  shows "alGetFilterf k AL_LOWPASS_GAIN (alFilterf k AL_LOWPASS_GAIN x s) =
     (Some (if unit_range x then x else flt_Gain f), alFilterf k AL_LOWPASS_GAIN x s) \<and>
     (\<not> unit_range x \<longrightarrow> alFilterf k AL_LOWPASS_GAIN x s = alSetError AL_INVALID_VALUE s)"
  using assms by (simp add: alGetFilterf_def alFilterf_def filters_inv_def)

theorem alFilterf_roundtrip_witness:
  "fst (alGetFilterf 64 AL_LOWPASS_GAIN (alFilterf 64 AL_LOWPASS_GAIN (Num False (1 / 2)) demo_filters)) = Some (Num False (1 / 2))"
  using alFilterf_roundtrip [OF demo_filters_inv(1), of 64 demo_lowpass "Num False (1 / 2)"] demo_filters_inv(2)
  by (simp add: demo_filters_def demo_al_def demo_lowpass_def unit_range_def f_le_def signed_val_def)

end
