(* ===== verification/AL_Source.thy ===== *)
theory AL_Source
  imports AL_Buffer AL_Filter
begin

text \<open>
  The sources of \<^verbatim>\<open>OpenAL32/alSource.c\<close>: creation and deletion, the queue of buffers, playback
  control and playback offsets; and the bookkeeping of the mixer
  (\<^verbatim>\<open>Alc/mixer.c\<close>, \<^verbatim>\<open>Alc/ALu.c\<close>) that moves a playing source through its queue. The doubly linked
  list of queue items is the list of its buffer pointers.
\<close>

section \<open>Constants\<close>

definition AL_INITIAL :: ALenum where "AL_INITIAL = 0x1011"
definition AL_PLAYING :: ALenum where "AL_PLAYING = 0x1012"
definition AL_PAUSED :: ALenum where "AL_PAUSED = 0x1013"
definition AL_STOPPED :: ALenum where "AL_STOPPED = 0x1014"
definition AL_STATIC :: ALenum where "AL_STATIC = 0x1028"
definition AL_STREAMING :: ALenum where "AL_STREAMING = 0x1029"
definition AL_UNDETERMINED :: ALenum where "AL_UNDETERMINED = 0x1030"
definition AL_SEC_OFFSET :: ALenum where "AL_SEC_OFFSET = 0x1024"
definition AL_SAMPLE_OFFSET :: ALenum where "AL_SAMPLE_OFFSET = 0x1025"
definition AL_BYTE_OFFSET :: ALenum where "AL_BYTE_OFFSET = 0x1026"
definition AL_SAMPLE_RW_OFFSETS_SOFT :: ALenum where "AL_SAMPLE_RW_OFFSETS_SOFT = 0x1032"
definition AL_BYTE_RW_OFFSETS_SOFT :: ALenum where "AL_BYTE_RW_OFFSETS_SOFT = 0x1031"
definition AL_INVERSE_DISTANCE_CLAMPED :: ALenum where "AL_INVERSE_DISTANCE_CLAMPED = 0xD002"
definition MAX_SENDS :: nat where "MAX_SENDS = 4"

lemmas source_states = AL_INITIAL_def AL_PLAYING_def AL_PAUSED_def AL_STOPPED_def
lemmas source_types = AL_STATIC_def AL_STREAMING_def AL_UNDETERMINED_def
lemmas offset_names = AL_SEC_OFFSET_def AL_SAMPLE_OFFSET_def AL_BYTE_OFFSET_def
  AL_SAMPLE_RW_OFFSETS_SOFT_def AL_BYTE_RW_OFFSETS_SOFT_def

abbreviation LookupSource :: "al_state \<Rightarrow> ALuint \<Rightarrow> alsource option" where
  "LookupSource s \<equiv> LookupUIntMapKey (SourceMap s)"

abbreviation LookupEffectSlot :: "al_state \<Rightarrow> ALuint \<Rightarrow> aleffectslot option" where
  "LookupEffectSlot s \<equiv> LookupUIntMapKey (EffectSlotMap s)"

abbreviation upd_source :: "al_state \<Rightarrow> ALuint \<Rightarrow> (alsource \<Rightarrow> alsource) \<Rightarrow> al_state" where
  "upd_source s k f \<equiv> s\<lparr>SourceMap := um_upd (SourceMap s) k f\<rparr>"

section \<open>Reference counts\<close>

definition inc_buffer :: "ALuint \<Rightarrow> al_state \<Rightarrow> al_state outcome" where
  "inc_buffer p s =
     (if p = 0 then Ret s
      else (case LookupBuffer s p of
              None \<Rightarrow> UB UseAfterFree
            | Some b \<Rightarrow> Ret (s\<lparr>BufferMap := um_upd (BufferMap s) p (\<lambda>b. b\<lparr>buf_refcount := buf_refcount b + 1\<rparr>)\<rparr>)))"

definition dec_buffer :: "ALuint \<Rightarrow> al_state \<Rightarrow> al_state outcome" where
  "dec_buffer p s =
     (if p = 0 then Ret s
      else (case LookupBuffer s p of
              None \<Rightarrow> UB UseAfterFree
            | Some b \<Rightarrow> Ret (s\<lparr>BufferMap := um_upd (BufferMap s) p (\<lambda>b. b\<lparr>buf_refcount := buf_refcount b - 1\<rparr>)\<rparr>)))"

definition inc_slot :: "ALuint \<Rightarrow> al_state \<Rightarrow> al_state outcome" where
  "inc_slot p s =
     (if p = 0 then Ret s
      else (case LookupEffectSlot s p of
              None \<Rightarrow> UB UseAfterFree
            | Some b \<Rightarrow> Ret (s\<lparr>EffectSlotMap := um_upd (EffectSlotMap s) p (\<lambda>b. b\<lparr>slot_refcount := slot_refcount b + 1\<rparr>)\<rparr>)))"

definition dec_slot :: "ALuint \<Rightarrow> al_state \<Rightarrow> al_state outcome" where
  "dec_slot p s =
     (if p = 0 then Ret s
      else (case LookupEffectSlot s p of
              None \<Rightarrow> UB UseAfterFree
            | Some b \<Rightarrow> Ret (s\<lparr>EffectSlotMap := um_upd (EffectSlotMap s) p (\<lambda>b. b\<lparr>slot_refcount := slot_refcount b - 1\<rparr>)\<rparr>)))"

text \<open>The loops that give up, or take, one reference per list item.\<close>

fun each :: "('a \<Rightarrow> 's \<Rightarrow> 's outcome) \<Rightarrow> 'a list \<Rightarrow> 's \<Rightarrow> 's outcome" where
  "each f [] s = Ret s"
| "each f (x # xs) s = bnd (f x s) (each f xs)"

section \<open>Creation and deletion\<close>

definition zero_source :: alsource where
  "zero_source = \<lparr>src_flPitch = Num False 0, src_flGain = Num False 0, src_flOuterGain = Num False 0, src_flMinGain = Num False 0,
     src_flMaxGain = Num False 0, src_flInnerAngle = Num False 0, src_flOuterAngle = Num False 0, src_flRefDistance = Num False 0,
     src_flMaxDistance = Num False 0, src_flRollOffFactor = Num False 0,
     src_vPosition = (Num False 0, Num False 0, Num False 0), src_vVelocity = (Num False 0, Num False 0, Num False 0),
     src_vOrientation = (Num False 0, Num False 0, Num False 0), src_bHeadRelative = False, src_bLooping = False,
     src_DistanceModel = 0, src_priority = 0, src_Resampler = 0, src_state = 0, src_position = 0, src_position_fraction = 0,
     src_Buffer = 0, src_queue = [], src_BuffersInQueue = 0, src_BuffersPlayed = 0, src_DirectFilter = zero_filter,
     src_Send = replicate MAX_SENDS (0, zero_filter), src_DryGainHFAuto = False, src_WetGainAuto = False, src_WetGainHFAuto = False,
     src_OuterGainHF = Num False 0, src_AirAbsorptionFactor = Num False 0, src_RoomRolloffFactor = Num False 0,
     src_DopplerFactor = Num False 0, src_lOffset = 0, src_lOffsetType = 0, src_lSourceType = 0, src_NeedsUpdate = False,
     src_Update = NoUpdate, src_source = 0\<rparr>"

definition flt_max :: flt where
  "flt_max = Num False (of_int (2 ^ 24 - 1) * 2 ^ 104)"

definition InitSourceParams :: "int \<Rightarrow> alsource \<Rightarrow> alsource" where
  "InitSourceParams resampler c = c\<lparr>
     src_flInnerAngle := f_of_int b32 360, src_flOuterAngle := f_of_int b32 360, src_flPitch := f_of_int b32 1,
     src_vPosition := (f_of_int b32 0, f_of_int b32 0, f_of_int b32 0),
     src_vOrientation := (f_of_int b32 0, f_of_int b32 0, f_of_int b32 0),
     src_vVelocity := (f_of_int b32 0, f_of_int b32 0, f_of_int b32 0),
     src_flRefDistance := f_of_int b32 1, src_flMaxDistance := flt_max, src_flRollOffFactor := f_of_int b32 1,
     src_bLooping := False, src_flGain := f_of_int b32 1, src_flMinGain := f_of_int b32 0, src_flMaxGain := f_of_int b32 1,
     src_flOuterGain := f_of_int b32 0, src_OuterGainHF := f_of_int b32 1,
     src_DryGainHFAuto := True, src_WetGainAuto := True, src_WetGainHFAuto := True,
     src_AirAbsorptionFactor := f_of_int b32 0, src_RoomRolloffFactor := f_of_int b32 0, src_DopplerFactor := f_of_int b32 1,
     src_DistanceModel := AL_INVERSE_DISTANCE_CLAMPED, src_Resampler := resampler,
     src_state := AL_INITIAL, src_lSourceType := AL_UNDETERMINED, src_NeedsUpdate := True, src_Buffer := 0, src_priority := 0\<rparr>"

text \<open>Taking a source off the active list: the last entry moves into its place.\<close>

fun index_of :: "'a \<Rightarrow> 'a list \<Rightarrow> nat option" where
  "index_of x [] = None"
| "index_of x (y # ys) = (if x = y then Some 0 else map_option Suc (index_of x ys))"

definition remove_active :: "ALuint \<Rightarrow> ALuint list \<Rightarrow> ALuint list" where
  "remove_active k xs = (case index_of k xs of None \<Rightarrow> xs | Some j \<Rightarrow> butlast (xs[j := last xs]))"

fun delete_sources :: "ALuint list \<Rightarrow> al_state \<Rightarrow> al_state outcome" where
  "delete_sources [] s = Ret s"
| "delete_sources (k # ks) s =
     (case LookupSource s k of
        None \<Rightarrow> delete_sources ks s
      | Some c \<Rightarrow>
          bnd (each dec_buffer (src_queue c) (s\<lparr>ActiveSources := remove_active k (ActiveSources s)\<rparr>)) (\<lambda>s.
          bnd (each dec_slot (map fst (src_Send c)) s) (\<lambda>s.
          delete_sources ks (s\<lparr>SourceMap := RemoveUIntMapKey (SourceMap s) (src_source c)\<rparr>))))"

definition alDeleteSources :: "int \<Rightarrow> ALuint list \<Rightarrow> al_state \<Rightarrow> al_state outcome" where
  "alDeleteSources n sources s =
     (if \<not> al_current s then Ret s
      else if n < 0 then Ret (alSetError AL_INVALID_VALUE s)
      else if list_ex (\<lambda>k. LookupSource s k = None) (take (nat n) sources) then Ret (alSetError AL_INVALID_NAME s)
      else delete_sources (take (nat n) sources) s)"

fun gen_sources :: "(nat \<Rightarrow> bool) \<Rightarrow> nat \<Rightarrow> ALuint list \<Rightarrow> ALuint list \<Rightarrow> al_state \<Rightarrow> (ALuint list \<times> al_state) outcome" where
  "gen_sources R 0 cs out s = Ret (out, s)"
| "gen_sources R (Suc n) cs out s =
     (case cs of
        [] \<Rightarrow> bnd (alDeleteSources (int (length out)) out (alSetError AL_OUT_OF_MEMORY s)) (\<lambda>s. Ret (out, s))
      | a # cs' \<Rightarrow>
          if a = 0 then bnd (alDeleteSources (int (length out)) out (alSetError AL_OUT_OF_MEMORY s)) (\<lambda>s. Ret (out, s))
          else
            let (err, m) = InsertUIntMapEntry R (SourceMap s) a (zero_source\<lparr>src_source := a\<rparr>) in
            if err \<noteq> AL_NO_ERROR
            then bnd (alDeleteSources (int (length out)) out (alSetError err s)) (\<lambda>s. Ret (out, s))
            else gen_sources R n cs' (out @ [a]) (s\<lparr>SourceMap := um_upd m a (InitSourceParams (DefaultResampler s))\<rparr>))"

definition alGenSources :: "(nat \<Rightarrow> bool) \<Rightarrow> ALuint list \<Rightarrow> int \<Rightarrow> bool \<Rightarrow> al_state \<Rightarrow> (ALuint list \<times> al_state) outcome" where
  "alGenSources R cs n null s =
     (if \<not> al_current s then Ret ([], s)
      else if n < 0 \<or> (null \<and> n \<noteq> 0) then Ret ([], alSetError AL_INVALID_VALUE s)
      else if (word_of_int n :: u32) > MaxNoOfSources s - of_nat (um_size (SourceMap s)) then Ret ([], alSetError AL_INVALID_VALUE s)
      else gen_sources R (nat n) cs [] s)"

definition alIsSource :: "ALuint \<Rightarrow> al_state \<Rightarrow> bool" where
  "alIsSource k s = (al_current s \<and> LookupSource s k \<noteq> None)"

section \<open>The queue\<close>

fun first_buffer :: "ALuint list \<Rightarrow> ALuint" where
  "first_buffer [] = 0"
| "first_buffer (p # ps) = (if p \<noteq> 0 then p else first_buffer ps)"

definition update_for :: "albuffer \<Rightarrow> source_update" where
  "update_for b = (if buf_FmtChannels b = FmtMono then CalcSourceParams else CalcNonAttnSourceParams)"

text \<open>
  The loop over the new buffers: it may set the update function of the source
  (the state it returns) before it finds a buffer it refuses (the error).
\<close>

fun check_queue :: "ALuint \<Rightarrow> ALuint \<Rightarrow> ALuint list \<Rightarrow> al_state \<Rightarrow> (ALenum option \<times> al_state) outcome" where
  "check_queue source fmt [] s = Ret (None, s)"
| "check_queue source fmt (p # ps) s =
     (if p = 0 then check_queue source fmt ps s
      else (case LookupBuffer s p of
              None \<Rightarrow> Ret (Some AL_INVALID_NAME, s)
            | Some b \<Rightarrow>
                if fmt = 0 then
                  check_queue source p ps (upd_source s source (\<lambda>c. c\<lparr>src_Update := update_for b, src_NeedsUpdate := True\<rparr>))
                else (case LookupBuffer s fmt of
                        None \<Rightarrow> UB UseAfterFree
                      | Some f \<Rightarrow>
                          if buf_Frequency f \<noteq> buf_Frequency b \<or> buf_OriginalChannels f \<noteq> buf_OriginalChannels b \<or>
                             buf_OriginalType f \<noteq> buf_OriginalType b
                          then Ret (Some AL_INVALID_OPERATION, s)
                          else check_queue source fmt ps s)))"

text \<open>\<open>malloc\<close> of the list items is taken to succeed; the code does not test it.\<close>

definition alSourceQueueBuffers :: "ALuint \<Rightarrow> int \<Rightarrow> ALuint list \<Rightarrow> al_state \<Rightarrow> al_state outcome" where
  "alSourceQueueBuffers source n buffers s =
     (if n = 0 \<or> \<not> al_current s then Ret s
      else if n < 0 then Ret (alSetError AL_INVALID_VALUE s)
      else (case LookupSource s source of
              None \<Rightarrow> Ret (alSetError AL_INVALID_NAME s)
            | Some c \<Rightarrow>
                if src_lSourceType c = AL_STATIC then Ret (alSetError AL_INVALID_OPERATION s)
                else
                  let new = take (nat n) buffers in
                  bnd (check_queue source (first_buffer (src_queue c)) new s) (\<lambda>(e, s).
                  case e of
                    Some e \<Rightarrow> Ret (alSetError e s)
                  | None \<Rightarrow>
                      bnd (each inc_buffer new s) (\<lambda>s.
                      Ret (upd_source s source (\<lambda>c. c\<lparr>
                        src_lSourceType := AL_STREAMING,
                        src_Buffer := (if src_queue c = [] then hd new else src_Buffer c),
                        src_queue := src_queue c @ new,
                        src_BuffersInQueue := src_BuffersInQueue c + word_of_int n\<rparr>))))))"

text \<open>The names stored in the caller's array, and the state. Popping an empty queue follows NULL.\<close>

definition alSourceUnqueueBuffers :: "ALuint \<Rightarrow> int \<Rightarrow> al_state \<Rightarrow> (ALuint list \<times> al_state) outcome" where
  "alSourceUnqueueBuffers source n s =
     (if n = 0 \<or> \<not> al_current s then Ret ([], s)
      else if n < 0 then Ret ([], alSetError AL_INVALID_VALUE s)
      else (case LookupSource s source of
              None \<Rightarrow> Ret ([], alSetError AL_INVALID_NAME s)
            | Some c \<Rightarrow>
                if src_bLooping c \<or> src_lSourceType c \<noteq> AL_STREAMING \<or> word_of_int n > src_BuffersPlayed c
                then Ret ([], alSetError AL_INVALID_VALUE s)
                else if length (src_queue c) < nat n then UB NullDeref
                else
                  let gone = take (nat n) (src_queue c) in
                  bnd (each dec_buffer gone s) (\<lambda>s.
                  Ret (gone, upd_source s source (\<lambda>c. c\<lparr>
                    src_queue := drop (nat n) (src_queue c),
                    src_BuffersInQueue := src_BuffersInQueue c - word_of_int n,
                    src_Buffer := (if src_state c \<noteq> AL_PLAYING
                                   then (case drop (nat n) (src_queue c) of [] \<Rightarrow> 0 | p # _ \<Rightarrow> p) else src_Buffer c),
                    src_BuffersPlayed := src_BuffersPlayed c - word_of_int n\<rparr>)))))"

text \<open>The case \<open>AL_BUFFER\<close> of \<open>alSourcei\<close>.\<close>

definition set_source_buffer :: "ALuint \<Rightarrow> ALuint \<Rightarrow> al_state \<Rightarrow> al_state outcome" where
  "set_source_buffer source p s =
     (case LookupSource s source of
        None \<Rightarrow> Ret (alSetError AL_INVALID_NAME s)
      | Some c \<Rightarrow>
          if src_state c = AL_STOPPED \<or> src_state c = AL_INITIAL then
            if p = 0 \<or> LookupBuffer s p \<noteq> None then
              bnd (each dec_buffer (src_queue c) s) (\<lambda>s.
              bnd (inc_buffer p s) (\<lambda>s.
              Ret (upd_source s source (\<lambda>c.
                (if p \<noteq> 0 then
                   c\<lparr>src_lSourceType := AL_STATIC, src_queue := [p], src_BuffersInQueue := 1,
                     src_Update := (case LookupBuffer s p of None \<Rightarrow> src_Update c | Some b \<Rightarrow> update_for b)\<rparr>
                 else c\<lparr>src_queue := [], src_BuffersInQueue := 0, src_lSourceType := AL_UNDETERMINED\<rparr>)
                \<lparr>src_BuffersPlayed := 0, src_Buffer := p, src_NeedsUpdate := True\<rparr>))))
            else Ret (alSetError AL_INVALID_VALUE s)
          else Ret (alSetError AL_INVALID_OPERATION s))"

end
