(* ===== verification/AL_Playback.thy ===== *)
theory AL_Playback
  imports AL_Source
begin

text \<open>
  Playback control of \<^verbatim>\<open>OpenAL32/alSource.c\<close> (play, pause, stop, rewind) and the playback offsets
  (\<open>GetByteOffset\<close>, \<open>ApplyOffset\<close>, \<open>GetSourceOffset\<close>).
\<close>

section \<open>Following buffer pointers\<close>

definition deref :: "(ALuint \<Rightarrow> albuffer option) \<Rightarrow> ALuint \<Rightarrow> albuffer outcome" where
  "deref look p = (if p = 0 then UB NullDeref else case look p of None \<Rightarrow> UB UseAfterFree | Some b \<Rightarrow> Ret b)"

definition size_of :: "(ALuint \<Rightarrow> albuffer option) \<Rightarrow> ALuint \<Rightarrow> int outcome" where
  "size_of look p = (if p = 0 then Ret 0 else bnd (deref look p) (\<lambda>b. Ret (buf_size b)))"

definition div_u32 :: "u32 \<Rightarrow> u32 \<Rightarrow> u32 outcome" where
  "div_u32 a b = (if b = 0 then UB DivByZero else Ret (a div b))"

definition mod_u32 :: "u32 \<Rightarrow> u32 \<Rightarrow> u32 outcome" where
  "mod_u32 a b = (if b = 0 then UB DivByZero else Ret (a mod b))"

section \<open>Offsets set by the application\<close>

text \<open>
  \<open>GetByteOffset\<close>. The frame sizes are unsigned, so the arithmetic is modulo
  \<open>2^32\<close> and the result is read as an \<open>int\<close> again. The offset is cleared in any case.
\<close>

definition byte_offset :: "albuffer \<Rightarrow> alsource \<Rightarrow> int outcome" where
  "byte_offset b c =
     (let frame = FrameSizeFromFmt (buf_FmtChannels b) (buf_FmtType b); off = word_of_int (src_lOffset c) :: u32 in
      if src_lOffsetType c = AL_BYTE_OFFSET then
        bnd (if buf_OriginalType b = UserFmtIMA4
             then bnd (div_u32 off (36 * ChannelsFromUserFmt (buf_OriginalChannels b))) (\<lambda>n. Ret (n * 65))
             else div_u32 off (FrameSizeFromUserFmt (buf_OriginalChannels b) (buf_OriginalType b)))
          (\<lambda>n. Ret (sint (n * frame)))
      else if src_lOffsetType c = AL_SAMPLE_OFFSET then Ret (sint (off * frame))
      else if src_lOffsetType c = AL_SEC_OFFSET then
        bnd (f_to_int32 (f_mul b64 (f_div b64 (f_of_int b64 (src_lOffset c)) (f_of_int b64 1000)) (f_of_int b64 (buf_Frequency b))))
          (\<lambda>n. Ret (sint (word_of_int n * frame)))
      else Ret (-1))"

definition GetByteOffset :: "(ALuint \<Rightarrow> albuffer option) \<Rightarrow> alsource \<Rightarrow> (int \<times> alsource) outcome" where
  "GetByteOffset look c =
     (let p = first_buffer (src_queue c) in
      if p = 0 then Ret (-1, c\<lparr>src_lOffset := 0\<rparr>)
      else bnd (deref look p) (\<lambda>b. bnd (byte_offset b c) (\<lambda>n. Ret (n, c\<lparr>src_lOffset := 0\<rparr>))))"

text \<open>The walk over the queue: the buffer the offset falls into, the number of buffers before it, the position.\<close>

fun find_offset :: "(ALuint \<Rightarrow> albuffer option) \<Rightarrow> ALuint list \<Rightarrow> int \<Rightarrow> int \<Rightarrow> u32 \<Rightarrow> (ALuint \<times> u32 \<times> u32) option outcome" where
  "find_offset look [] off tot played = Ret None"
| "find_offset look (p # ps) off tot played =
     bnd (size_of look p) (\<lambda>size.
     bnd (s32 (off - tot)) (\<lambda>d.
     if size \<le> d then bnd (s32 (tot + size)) (\<lambda>tot. find_offset look ps off tot (played + 1))
     else if tot \<le> off then
       bnd (deref look p) (\<lambda>b.
       bnd (div_u32 (word_of_int d) (FrameSizeFromFmt (buf_FmtChannels b) (buf_FmtType b))) (\<lambda>pos. Ret (Some (p, played, pos))))
     else bnd (s32 (tot + size)) (\<lambda>tot. find_offset look ps off tot played)))"

definition ApplyOffset :: "(ALuint \<Rightarrow> albuffer option) \<Rightarrow> alsource \<Rightarrow> (bool \<times> alsource) outcome" where
  "ApplyOffset look c =
     bnd (GetByteOffset look c) (\<lambda>(off, c).
     if off = -1 then Ret (False, c)
     else bnd (find_offset look (src_queue c) off 0 0) (\<lambda>r.
       case r of
         None \<Rightarrow> Ret (False, c)
       | Some (p, played, pos) \<Rightarrow> Ret (True, c\<lparr>src_Buffer := p, src_BuffersPlayed := played, src_position := pos\<rparr>)))"

section \<open>Offsets reported to the application\<close>

text \<open>The bytes of the buffers already played and of the whole queue.\<close>

fun queue_bytes :: "(ALuint \<Rightarrow> albuffer option) \<Rightarrow> ALuint list \<Rightarrow> u32 \<Rightarrow> u32 \<Rightarrow> (u32 \<times> u32) outcome" where
  "queue_bytes look [] i played = Ret (0, 0)"
| "queue_bytes look (p # ps) i played =
     bnd (size_of look p) (\<lambda>size.
     bnd (queue_bytes look ps (i + 1) played) (\<lambda>(r, t).
     Ret (if p \<noteq> 0 \<and> i < played then word_of_int size + r else r, if p \<noteq> 0 then word_of_int size + t else t)))"

definition report_offset :: "albuffer \<Rightarrow> bool \<Rightarrow> ALenum \<Rightarrow> u32 \<Rightarrow> u32 \<Rightarrow> (flt \<times> flt) outcome" where
  "report_offset b playing name rd wr =
     (let ch = ChannelsFromFmt (buf_FmtChannels b); by = BytesFromFmt (buf_FmtType b);
          num = (\<lambda>w. f_of_int b64 (uint (w :: u32))) in
      if name = AL_SEC_OFFSET then
        (let d = f_of_int b64 (uint (ch * by * word_of_int (buf_Frequency b))) in
         Ret (f_div b64 (num rd) d, f_div b64 (num wr) d))
      else if name = AL_SAMPLE_OFFSET \<or> name = AL_SAMPLE_RW_OFFSETS_SOFT then
        bnd (div_u32 rd (ch * by)) (\<lambda>r. bnd (div_u32 wr (ch * by)) (\<lambda>w. Ret (num r, num w)))
      else if name = AL_BYTE_OFFSET \<or> name = AL_BYTE_RW_OFFSETS_SOFT then
        if buf_OriginalType b = UserFmtIMA4 then
          let FrameBlockSize = 65 * by * ch; BlockSize = 36 * ch in
          bnd (div_u32 rd FrameBlockSize) (\<lambda>r.
          if \<not> playing then Ret (num (r * BlockSize), num (r * BlockSize))
          else bnd (div_u32 (wr + FrameBlockSize - 1) (FrameBlockSize * BlockSize)) (\<lambda>w. Ret (num (r * BlockSize), num w)))
        else
          bnd (div_u32 rd by) (\<lambda>r. bnd (div_u32 wr by) (\<lambda>w.
          Ret (num (r * BytesFromUserFmt (buf_OriginalType b)), num (w * BytesFromUserFmt (buf_OriginalType b)))))
      else Ret (NaN, NaN))"

text \<open>
  \<open>GetSourceOffset\<close>. A name other than the five leaves the two results
  unset; the callers pass no such name.
\<close>

definition GetSourceOffset :: "(ALuint \<Rightarrow> albuffer option) \<Rightarrow> alsource \<Rightarrow> ALenum \<Rightarrow> flt \<Rightarrow> (flt \<times> flt) outcome" where
  "GetSourceOffset look c name updateLen =
     (let p = first_buffer (src_queue c) in
      if (src_state c \<noteq> AL_PLAYING \<and> src_state c \<noteq> AL_PAUSED) \<or> p = 0 then Ret (f_of_int b64 0, f_of_int b64 0)
      else bnd (deref look p) (\<lambda>b.
        let frame = ChannelsFromFmt (buf_FmtChannels b) * BytesFromFmt (buf_FmtType b) in
        bnd (queue_bytes look (src_queue c) 0 (src_BuffersPlayed c)) (\<lambda>(before, tot).
        let rd = src_position c * frame + before in
        bnd (if src_state c = AL_PLAYING
             then bnd (f_to_int32 (f_mul b64 updateLen (f_of_int b64 (buf_Frequency b)))) (\<lambda>n. Ret (rd + word_of_int n * frame))
             else Ret rd) (\<lambda>wr.
        bnd (if src_bLooping c then bnd (mod_u32 rd tot) (\<lambda>r. bnd (mod_u32 wr tot) (\<lambda>w. Ret (r, w)))
             else Ret (if tot \<le> rd then 0 else rd, if tot \<le> wr then 0 else wr)) (\<lambda>(rd, wr).
        report_offset b (src_state c = AL_PLAYING) name rd wr)))))"

section \<open>Playback control\<close>

text \<open>Room for \<open>n\<close> more active sources: whether it could be had, and the capacity reached.\<close>

function grow_active :: "(nat \<Rightarrow> bool) \<Rightarrow> nat \<Rightarrow> nat \<Rightarrow> nat \<Rightarrow> bool \<times> nat" where
  "grow_active R mx cnt n =
     (if int mx - int cnt < int n then
        let newcount = (if mx < 2 ^ 30 then 2 * mx else 0) in
        if 0 < newcount \<and> R newcount then grow_active R newcount cnt n else (False, mx)
      else (True, mx))"
  by pat_completeness auto
termination by (relation "measure (\<lambda>(R, mx, cnt, n). 2 ^ 31 - mx)") (auto split: if_splits)

declare grow_active.simps [simp del]

text \<open>Is there a queued buffer with data?\<close>

fun queue_playable :: "(ALuint \<Rightarrow> albuffer option) \<Rightarrow> ALuint list \<Rightarrow> bool outcome" where
  "queue_playable look [] = Ret False"
| "queue_playable look (p # ps) =
     (if p = 0 then queue_playable look ps
      else bnd (deref look p) (\<lambda>b. if buf_size b \<noteq> 0 then Ret True else queue_playable look ps))"

definition stop_source :: "alsource \<Rightarrow> alsource" where
  "stop_source c = c\<lparr>src_state := AL_STOPPED, src_BuffersPlayed := src_BuffersInQueue c, src_position := 0, src_position_fraction := 0\<rparr>"

definition start_source :: "alsource \<Rightarrow> alsource" where
  "start_source c =
     (if src_state c \<noteq> AL_PAUSED
      then c\<lparr>src_state := AL_PLAYING, src_position := 0, src_position_fraction := 0, src_BuffersPlayed := 0, src_Buffer := hd (src_queue c)\<rparr>
      else c\<lparr>src_state := AL_PLAYING\<rparr>)"

definition play_one :: "ALuint \<Rightarrow> al_state \<Rightarrow> al_state outcome" where
  "play_one k s =
     (case LookupSource s k of
        None \<Rightarrow> UB UseAfterFree
      | Some c \<Rightarrow>
          if alc_max_sources s - PrioritySlots s \<le> int (length (ActiveSources s)) \<and> src_priority c < 127 then Ret s
          else
            bnd (queue_playable (LookupBuffer s) (src_queue c)) (\<lambda>playable.
            if \<not> playable then Ret (upd_source s k (\<lambda>c. (stop_source c)\<lparr>src_lOffset := 0\<rparr>))
            else
              let c = start_source c in
              bnd (if src_lOffset c \<noteq> 0 then bnd (ApplyOffset (LookupBuffer s) c) (\<lambda>(ok, c). Ret c) else Ret c) (\<lambda>c.
              if \<not> Connected s then Ret (upd_source s k (\<lambda>_. stop_source c))
              else Ret ((upd_source s k (\<lambda>_. c))\<lparr>ActiveSources :=
                     (if k \<in> set (ActiveSources s) then ActiveSources s else ActiveSources s @ [k])\<rparr>))))"

text \<open>\<open>null\<close> tells that no array was passed.\<close>

definition alSourcePlayv :: "(nat \<Rightarrow> bool) \<Rightarrow> int \<Rightarrow> bool \<Rightarrow> ALuint list \<Rightarrow> al_state \<Rightarrow> al_state outcome" where
  "alSourcePlayv R n null sources s =
     (if \<not> al_current s then Ret s
      else if n < 0 \<or> (0 < n \<and> null) then Ret (alSetError AL_INVALID_VALUE s)
      else
        let names = take (nat n) sources in
        if list_ex (\<lambda>k. LookupSource s k = None) names then Ret (alSetError AL_INVALID_NAME s)
        else
          let (ok, mx) = grow_active R (MaxActiveSources s) (length (ActiveSources s)) (nat n); s = s\<lparr>MaxActiveSources := mx\<rparr> in
          if \<not> ok then Ret (alSetError AL_OUT_OF_MEMORY s)
          else bnd (each play_one names s) (\<lambda>s. Ret (s\<lparr>alc_active_sources := int (length (ActiveSources s))\<rparr>)))"

definition pause_source :: "alsource \<Rightarrow> alsource" where
  "pause_source c = (if src_state c = AL_PLAYING then c\<lparr>src_state := AL_PAUSED\<rparr> else c)"

definition halt_source :: "alsource \<Rightarrow> alsource" where
  "halt_source c =
     (if src_state c \<noteq> AL_INITIAL then c\<lparr>src_state := AL_STOPPED, src_BuffersPlayed := src_BuffersInQueue c\<rparr> else c)\<lparr>src_lOffset := 0\<rparr>"

definition rewind_source :: "alsource \<Rightarrow> alsource" where
  "rewind_source c =
     (if src_state c \<noteq> AL_INITIAL
      then c\<lparr>src_state := AL_INITIAL, src_position := 0, src_position_fraction := 0, src_BuffersPlayed := 0,
             src_Buffer := (case src_queue c of [] \<Rightarrow> src_Buffer c | p # _ \<Rightarrow> p)\<rparr>
      else c)\<lparr>src_lOffset := 0\<rparr>"

definition for_sources :: "(alsource \<Rightarrow> alsource) \<Rightarrow> int \<Rightarrow> bool \<Rightarrow> ALuint list \<Rightarrow> al_state \<Rightarrow> al_state" where
  "for_sources f n null sources s =
     (if \<not> al_current s then s
      else if n < 0 \<or> (0 < n \<and> null) then alSetError AL_INVALID_VALUE s
      else if list_ex (\<lambda>k. LookupSource s k = None) (take (nat n) sources) then alSetError AL_INVALID_NAME s
      else foldl (\<lambda>s k. upd_source s k f) s (take (nat n) sources))"

definition alSourcePausev :: "int \<Rightarrow> bool \<Rightarrow> ALuint list \<Rightarrow> al_state \<Rightarrow> al_state" where
  "alSourcePausev = for_sources pause_source"

definition alSourceStopv :: "int \<Rightarrow> bool \<Rightarrow> ALuint list \<Rightarrow> al_state \<Rightarrow> al_state" where
  "alSourceStopv = for_sources halt_source"

definition alSourceRewindv :: "int \<Rightarrow> bool \<Rightarrow> ALuint list \<Rightarrow> al_state \<Rightarrow> al_state" where
  "alSourceRewindv = for_sources rewind_source"

definition alSourcePlay :: "(nat \<Rightarrow> bool) \<Rightarrow> ALuint \<Rightarrow> al_state \<Rightarrow> al_state outcome" where
  "alSourcePlay R k = alSourcePlayv R 1 False [k]"

definition alSourcePause :: "ALuint \<Rightarrow> al_state \<Rightarrow> al_state" where
  "alSourcePause k = alSourcePausev 1 False [k]"

definition alSourceStop :: "ALuint \<Rightarrow> al_state \<Rightarrow> al_state" where
  "alSourceStop k = alSourceStopv 1 False [k]"

definition alSourceRewind :: "ALuint \<Rightarrow> al_state \<Rightarrow> al_state" where
  "alSourceRewind k = alSourceRewindv 1 False [k]"

end
