(* ===== verification/AL_SourceInv.thy ===== *)
theory AL_SourceInv
  imports AL_Playback
begin

text \<open>
  The invariant that ties sources, buffers and effect slots together: the
  reference count of a buffer is the number of queue entries that point to it,
  and no queue entry points to a deleted buffer. Every operation on sources keeps
  it and has no undefined behaviour.
\<close>

section \<open>Counting references\<close>

definition tally :: "('o \<Rightarrow> ALuint list) \<Rightarrow> (ALuint \<rightharpoonup> 'o) \<Rightarrow> ALuint \<Rightarrow> nat" where
  "tally g L p = (\<Sum>k\<in>dom L. count_list (g (the (L k))) p)"

definition entries :: "('o \<Rightarrow> ALuint list) \<Rightarrow> (ALuint \<rightharpoonup> 'o) \<Rightarrow> nat" where
  "entries g L = (\<Sum>k\<in>dom L. length (g (the (L k))))"

lemma sum_map_upd:
  fixes h :: "'o \<Rightarrow> nat"
  assumes "finite (dom L)" "L k = Some c"
  shows "(\<Sum>j\<in>dom (L(k \<mapsto> c')). h (the ((L(k \<mapsto> c')) j))) + h c = (\<Sum>j\<in>dom L. h (the (L j))) + h c'"
proof -
  have k: "k \<in> dom L" using assms(2) by auto
  have d: "dom (L(k \<mapsto> c')) = dom L" using k by auto
  have "(\<Sum>j\<in>dom L. h (the ((L(k \<mapsto> c')) j))) = h c' + (\<Sum>j\<in>dom L - {k}. h (the (L j)))"
    using sum.remove [OF assms(1) k, of "\<lambda>j. h (the ((L(k \<mapsto> c')) j))"] by simp
  moreover have "(\<Sum>j\<in>dom L. h (the (L j))) = h c + (\<Sum>j\<in>dom L - {k}. h (the (L j)))"
    using sum.remove [OF assms(1) k, of "\<lambda>j. h (the (L j))"] assms(2) by simp
  ultimately show ?thesis by (simp only: d)
qed

lemma sum_map_new:
  fixes h :: "'o \<Rightarrow> nat"
  assumes "finite (dom L)" "L k = None"
  shows "(\<Sum>j\<in>dom (L(k \<mapsto> c)). h (the ((L(k \<mapsto> c)) j))) = (\<Sum>j\<in>dom L. h (the (L j))) + h c"
proof -
  have k: "k \<notin> dom L" using assms(2) by auto
  have "(\<Sum>j\<in>dom L. h (the ((L(k \<mapsto> c)) j))) = (\<Sum>j\<in>dom L. h (the (L j)))"
    by (rule sum.cong) (use k in auto)
  then show ?thesis using assms(1) k by simp
qed

lemma sum_map_del:
  fixes h :: "'o \<Rightarrow> nat"
  assumes "finite (dom L)" "L k = Some c"
  shows "(\<Sum>j\<in>dom (L(k := None)). h (the ((L(k := None)) j))) + h c = (\<Sum>j\<in>dom L. h (the (L j)))"
proof -
  have k: "k \<in> dom L" using assms(2) by auto
  have "(\<Sum>j\<in>dom L - {k}. h (the ((L(k := None)) j))) = (\<Sum>j\<in>dom L - {k}. h (the (L j)))"
    by (rule sum.cong) auto
  moreover have "(\<Sum>j\<in>dom L. h (the (L j))) = h c + (\<Sum>j\<in>dom L - {k}. h (the (L j)))"
    using sum.remove [OF assms(1) k, of "\<lambda>j. h (the (L j))"] assms(2) by simp
  ultimately show ?thesis by simp
qed

lemma tally_upd:
  "finite (dom L) \<Longrightarrow> L k = Some c \<Longrightarrow> tally g (L(k \<mapsto> c')) p + count_list (g c) p = tally g L p + count_list (g c') p"
  unfolding tally_def by (rule sum_map_upd [where h = "\<lambda>c. count_list (g c) p"])

lemma tally_new: "finite (dom L) \<Longrightarrow> L k = None \<Longrightarrow> tally g (L(k \<mapsto> c)) p = tally g L p + count_list (g c) p"
  unfolding tally_def by (rule sum_map_new [where h = "\<lambda>c. count_list (g c) p"])

lemma tally_del: "finite (dom L) \<Longrightarrow> L k = Some c \<Longrightarrow> tally g (L(k := None)) p + count_list (g c) p = tally g L p"
  unfolding tally_def by (rule sum_map_del [where h = "\<lambda>c. count_list (g c) p"])

lemma entries_upd:
  "finite (dom L) \<Longrightarrow> L k = Some c \<Longrightarrow> entries g (L(k \<mapsto> c')) + length (g c) = entries g L + length (g c')"
  unfolding entries_def by (rule sum_map_upd [where h = "\<lambda>c. length (g c)"])

lemma entries_new: "finite (dom L) \<Longrightarrow> L k = None \<Longrightarrow> entries g (L(k \<mapsto> c)) = entries g L + length (g c)"
  unfolding entries_def by (rule sum_map_new [where h = "\<lambda>c. length (g c)"])

lemma entries_del: "finite (dom L) \<Longrightarrow> L k = Some c \<Longrightarrow> entries g (L(k := None)) + length (g c) = entries g L"
  unfolding entries_def by (rule sum_map_del [where h = "\<lambda>c. length (g c)"])

lemma tally_le_entries: "tally g L p \<le> entries g L"
  unfolding tally_def entries_def by (rule sum_mono) (rule count_le_length)

lemma tally_ge: "finite (dom L) \<Longrightarrow> L k = Some c \<Longrightarrow> count_list (g c) p \<le> tally g L p"
  using tally_del [of L k c g p] by linarith

lemma entries_ge: "finite (dom L) \<Longrightarrow> L k = Some c \<Longrightarrow> length (g c) \<le> entries g L"
  using entries_del [of L k c g] by linarith

section \<open>The invariant\<close>

definition sends :: "alsource \<Rightarrow> ALuint list" where
  "sends c = map fst (src_Send c)"

text \<open>The position of a static source lies in its buffer.\<close>

definition in_buffer :: "(ALuint \<Rightarrow> albuffer option) \<Rightarrow> alsource \<Rightarrow> bool" where
  "in_buffer look c \<longleftrightarrow> src_position c = 0 \<or>
     (\<forall>b. look (src_Buffer c) = Some b \<longrightarrow> uint (src_position c) * uint (FrameSizeFromFmt (buf_FmtChannels b) (buf_FmtType b)) < buf_size b)"

definition source_ok :: "(ALuint \<Rightarrow> albuffer option) \<Rightarrow> ALuint set \<Rightarrow> ALuint \<Rightarrow> alsource \<Rightarrow> bool" where
  "source_ok look S k c \<longleftrightarrow> k \<noteq> 0 \<and> src_source c = k \<and> length (src_Send c) = MAX_SENDS \<and>
     set (src_queue c) \<subseteq> insert 0 (dom look) \<and> set (sends c) \<subseteq> insert 0 S \<and>
     src_BuffersInQueue c = of_nat (length (src_queue c)) \<and> unat (src_BuffersPlayed c) \<le> length (src_queue c) \<and>
     src_state c \<in> {AL_INITIAL, AL_PLAYING, AL_PAUSED, AL_STOPPED} \<and>
     (src_state c = AL_PLAYING \<or> src_state c = AL_PAUSED \<longrightarrow> unat (src_BuffersPlayed c) < length (src_queue c)) \<and>
     (src_lSourceType c = AL_STATIC \<longrightarrow> src_queue c = [src_Buffer c] \<and> src_Buffer c \<noteq> 0 \<and>
        (src_state c = AL_PLAYING \<or> src_state c = AL_PAUSED \<longrightarrow> in_buffer look c))"

lemma in_buffer_other [simp]:
  "in_buffer look (c\<lparr>src_Update := u\<rparr>) = in_buffer look c" "in_buffer look (c\<lparr>src_NeedsUpdate := b\<rparr>) = in_buffer look c"
  "in_buffer look (c\<lparr>src_state := x\<rparr>) = in_buffer look c" "src_position c = 0 \<Longrightarrow> in_buffer look c"
  by (simp_all add: in_buffer_def)

lemma source_ok_refs:
  assumes "\<And>p. look' p = map_option (\<lambda>b. b\<lparr>buf_refcount := f p b\<rparr>) (look p)"
  shows "source_ok look' S k c = source_ok look S k c"
proof -
  have "dom look' = dom look" by (auto simp: assms dom_def)
  moreover have "in_buffer look' c = in_buffer look c" by (auto simp: in_buffer_def assms)
  ultimately show ?thesis by (simp add: source_ok_def)
qed

definition src_inv :: "al_state \<Rightarrow> bool" where
  "src_inv s \<longleftrightarrow> buffers_inv s \<and> um_inv (EffectSlotMap s) \<and> LookupEffectSlot s 0 = None \<and> um_inv (SourceMap s) \<and>
     (\<forall>k c. LookupSource s k = Some c \<longrightarrow> source_ok (LookupBuffer s) (dom (LookupEffectSlot s)) k c) \<and>
     (\<forall>p b. LookupBuffer s p = Some b \<longrightarrow> buf_refcount b = of_nat (tally src_queue (LookupSource s) p)) \<and>
     (\<forall>p b. LookupEffectSlot s p = Some b \<longrightarrow> slot_refcount b = of_nat (tally sends (LookupSource s) p)) \<and>
     entries src_queue (LookupSource s) < 2 ^ 32 \<and>
     distinct (ActiveSources s) \<and> set (ActiveSources s) \<subseteq> dom (LookupSource s)"

lemma src_invD:
  assumes "src_inv s"
  shows "buffers_inv s" "um_inv (SourceMap s)" "um_inv (BufferMap s)" "um_inv (EffectSlotMap s)" "finite (dom (LookupSource s))"
    "LookupSource s k = Some c \<Longrightarrow> source_ok (LookupBuffer s) (dom (LookupEffectSlot s)) k c"
    "LookupBuffer s p = Some b \<Longrightarrow> buf_refcount b = of_nat (tally src_queue (LookupSource s) p)"
    "LookupEffectSlot s p = Some e \<Longrightarrow> slot_refcount e = of_nat (tally sends (LookupSource s) p)"
    "entries src_queue (LookupSource s) < 2 ^ 32" "LookupBuffer s 0 = None"
proof -
  show "finite (dom (LookupSource s))" using assms um.finite_dom by (auto simp: src_inv_def)
  have "\<And>b. LookupBuffer s 0 \<noteq> Some b" using assms by (auto simp: src_inv_def buffers_inv_def)
  then show "LookupBuffer s 0 = None" by (cases "LookupBuffer s 0") auto
qed (use assms in \<open>auto simp: src_inv_def buffers_inv_def\<close>)

lemma src_inv_alSetError [simp]: "src_inv (alSetError e s) = src_inv s"
  by (simp add: src_inv_def)

text \<open>The fields that the invariant looks at.\<close>

lemma src_inv_cong:
  "BufferMap t = BufferMap s \<Longrightarrow> EffectSlotMap t = EffectSlotMap s \<Longrightarrow> SourceMap t = SourceMap s \<Longrightarrow>
   ActiveSources t = ActiveSources s \<Longrightarrow> src_inv t = src_inv s"
  by (simp add: src_inv_def buffers_inv_def)

text \<open>A change of one source that leaves queue and sends alone.\<close>

lemma src_inv_upd:
  assumes inv: "src_inv s" and c: "LookupSource s k = Some c"
    and same: "src_queue (f c) = src_queue c" "src_Send (f c) = src_Send c"
    and ok: "source_ok (LookupBuffer s) (dom (LookupEffectSlot s)) k (f c)"
  shows "src_inv (upd_source s k f)"
proof -
  note D = src_invD [OF inv]
  have L: "LookupUIntMapKey (um_upd (SourceMap s) k f) = (LookupSource s)(k \<mapsto> f c)"
    using c D(2) by auto
  have t: "tally src_queue ((LookupSource s)(k \<mapsto> f c)) p = tally src_queue (LookupSource s) p"
      "tally sends ((LookupSource s)(k \<mapsto> f c)) p = tally sends (LookupSource s) p"
      "entries src_queue ((LookupSource s)(k \<mapsto> f c)) = entries src_queue (LookupSource s)" for p
    using tally_upd [OF D(5) c, of src_queue "f c" p] tally_upd [OF D(5) c, of sends "f c" p]
      entries_upd [OF D(5) c, of src_queue "f c"] same by (simp_all add: sends_def)
  show ?thesis using inv ok c unfolding src_inv_def by (auto simp: L t buffers_inv_def split: if_splits)
qed

section \<open>Taking and giving up references\<close>

definition adj_buffer :: "u32 \<Rightarrow> ALuint \<Rightarrow> al_state \<Rightarrow> al_state outcome" where
  "adj_buffer d p s =
     (if p = 0 then Ret s
      else (case LookupBuffer s p of
              None \<Rightarrow> UB UseAfterFree
            | Some b \<Rightarrow> Ret (s\<lparr>BufferMap := um_upd (BufferMap s) p (\<lambda>b. b\<lparr>buf_refcount := buf_refcount b + d\<rparr>)\<rparr>)))"

lemma buffer_refs_adj: "inc_buffer = adj_buffer 1" "dec_buffer = adj_buffer (- 1)"
  by (auto simp: fun_eq_iff inc_buffer_def dec_buffer_def adj_buffer_def split: option.split)

lemma refs_NULL [simp]: "adj_buffer d 0 s = Ret s" "dec_slot 0 s = Ret s"
  by (simp_all add: adj_buffer_def dec_slot_def)

lemma each_adj_buffer:
  assumes "um_inv (BufferMap s)" "LookupBuffer s 0 = None" "\<forall>p\<in>set q. p = 0 \<or> LookupBuffer s p \<noteq> None"
  shows "\<exists>m. each (adj_buffer d) q s = Ret (s\<lparr>BufferMap := m\<rparr>) \<and> um_inv m \<and>
     (\<forall>p. LookupUIntMapKey m p =
        map_option (\<lambda>b. b\<lparr>buf_refcount := buf_refcount b + d * of_nat (count_list q p)\<rparr>) (LookupBuffer s p))"
  using assms
proof (induction q arbitrary: s)
  case Nil
  show ?case using Nil by (intro exI [of _ "BufferMap s"]) (auto simp: option.map_ident_strong)
next
  case (Cons x q)
  show ?case
  proof (cases "x = 0")
    case True
    have "\<forall>p\<in>set q. p = 0 \<or> LookupBuffer s p \<noteq> None" using Cons.prems(3) by simp
    from Cons.IH [OF Cons.prems(1,2) this] obtain m where m: "each (adj_buffer d) q s = Ret (s\<lparr>BufferMap := m\<rparr>)" "um_inv m"
      "\<forall>p. LookupUIntMapKey m p = map_option (\<lambda>b. b\<lparr>buf_refcount := buf_refcount b + d * of_nat (count_list q p)\<rparr>) (LookupBuffer s p)"
      by blast
    have "LookupUIntMapKey m p = map_option (\<lambda>b. b\<lparr>buf_refcount := buf_refcount b + d * of_nat (count_list (x # q) p)\<rparr>) (LookupBuffer s p)" for p
      using m(3) Cons.prems(2) True by (cases "p = 0") simp_all
    then show ?thesis using m(1,2) True by (intro exI [of _ m]) simp
  next
    case False
    define s1 where "s1 = s\<lparr>BufferMap := um_upd (BufferMap s) x (\<lambda>b. b\<lparr>buf_refcount := buf_refcount b + d\<rparr>)\<rparr>"
    have step: "adj_buffer d x s = Ret s1" using False Cons.prems(3) by (auto simp: adj_buffer_def s1_def)
    have l: "LookupBuffer s1 p = (if p = x then map_option (\<lambda>b. b\<lparr>buf_refcount := buf_refcount b + d\<rparr>) (LookupBuffer s x) else LookupBuffer s p)" for p
      using Cons.prems(1) by (simp add: s1_def)
    have "um_inv (BufferMap s1)" "LookupBuffer s1 0 = None" "\<forall>p\<in>set q. p = 0 \<or> LookupBuffer s1 p \<noteq> None"
      using Cons.prems False l by (auto simp: s1_def)
    from Cons.IH [OF this] obtain m where m: "each (adj_buffer d) q s1 = Ret (s1\<lparr>BufferMap := m\<rparr>)" "um_inv m"
      "\<forall>p. LookupUIntMapKey m p = map_option (\<lambda>b. b\<lparr>buf_refcount := buf_refcount b + d * of_nat (count_list q p)\<rparr>) (LookupBuffer s1 p)"
      by blast
    have "LookupUIntMapKey m p = map_option (\<lambda>b. b\<lparr>buf_refcount := buf_refcount b + d * of_nat (count_list (x # q) p)\<rparr>) (LookupBuffer s p)" for p
      using m(3) l by (cases "LookupBuffer s p") (auto simp: algebra_simps)
    moreover have "s1\<lparr>BufferMap := m\<rparr> = s\<lparr>BufferMap := m\<rparr>" by (simp add: s1_def)
    ultimately show ?thesis using m(1,2) step by (intro exI [of _ m]) simp
  qed
qed

lemma each_dec_slot:
  assumes "um_inv (EffectSlotMap s)" "LookupEffectSlot s 0 = None" "\<forall>p\<in>set q. p = 0 \<or> LookupEffectSlot s p \<noteq> None"
  shows "\<exists>m. each dec_slot q s = Ret (s\<lparr>EffectSlotMap := m\<rparr>) \<and> um_inv m \<and>
     (\<forall>p. LookupUIntMapKey m p =
        map_option (\<lambda>b. b\<lparr>slot_refcount := slot_refcount b - of_nat (count_list q p)\<rparr>) (LookupEffectSlot s p))"
  using assms
proof (induction q arbitrary: s)
  case Nil
  show ?case using Nil by (intro exI [of _ "EffectSlotMap s"]) (auto simp: option.map_ident_strong)
next
  case (Cons x q)
  show ?case
  proof (cases "x = 0")
    case True
    have "\<forall>p\<in>set q. p = 0 \<or> LookupEffectSlot s p \<noteq> None" using Cons.prems(3) by simp
    from Cons.IH [OF Cons.prems(1,2) this] obtain m where m: "each dec_slot q s = Ret (s\<lparr>EffectSlotMap := m\<rparr>)" "um_inv m"
      "\<forall>p. LookupUIntMapKey m p = map_option (\<lambda>b. b\<lparr>slot_refcount := slot_refcount b - of_nat (count_list q p)\<rparr>) (LookupEffectSlot s p)"
      by blast
    have "LookupUIntMapKey m p = map_option (\<lambda>b. b\<lparr>slot_refcount := slot_refcount b - of_nat (count_list (x # q) p)\<rparr>) (LookupEffectSlot s p)" for p
      using m(3) Cons.prems(2) True by (cases "p = 0") simp_all
    then show ?thesis using m(1,2) True by (intro exI [of _ m]) simp
  next
    case False
    define s1 where "s1 = s\<lparr>EffectSlotMap := um_upd (EffectSlotMap s) x (\<lambda>b. b\<lparr>slot_refcount := slot_refcount b - 1\<rparr>)\<rparr>"
    have step: "dec_slot x s = Ret s1" using False Cons.prems(3) by (auto simp: dec_slot_def s1_def)
    have l: "LookupEffectSlot s1 p = (if p = x then map_option (\<lambda>b. b\<lparr>slot_refcount := slot_refcount b - 1\<rparr>) (LookupEffectSlot s x) else LookupEffectSlot s p)" for p
      using Cons.prems(1) by (simp add: s1_def)
    have "um_inv (EffectSlotMap s1)" "LookupEffectSlot s1 0 = None" "\<forall>p\<in>set q. p = 0 \<or> LookupEffectSlot s1 p \<noteq> None"
      using Cons.prems False l by (auto simp: s1_def)
    from Cons.IH [OF this] obtain m where m: "each dec_slot q s1 = Ret (s1\<lparr>EffectSlotMap := m\<rparr>)" "um_inv m"
      "\<forall>p. LookupUIntMapKey m p = map_option (\<lambda>b. b\<lparr>slot_refcount := slot_refcount b - of_nat (count_list q p)\<rparr>) (LookupEffectSlot s1 p)"
      by blast
    have "LookupUIntMapKey m p = map_option (\<lambda>b. b\<lparr>slot_refcount := slot_refcount b - of_nat (count_list (x # q) p)\<rparr>) (LookupEffectSlot s p)" for p
      using m(3) l by (cases "LookupEffectSlot s p") (auto simp: algebra_simps)
    moreover have "s1\<lparr>EffectSlotMap := m\<rparr> = s\<lparr>EffectSlotMap := m\<rparr>" by (simp add: s1_def)
    ultimately show ?thesis using m(1,2) step by (intro exI [of _ m]) simp
  qed
qed


section \<open>Memory safety\<close>

text \<open>A result that is not a use of freed or null memory and that satisfies \<open>P\<close> when it is a value.\<close>

definition safe :: "('a \<Rightarrow> bool) \<Rightarrow> 'a outcome \<Rightarrow> bool" where
  "safe P r = (case r of Ret x \<Rightarrow> P x | UB e \<Rightarrow> e \<noteq> UseAfterFree \<and> e \<noteq> NullDeref | Blocked \<Rightarrow> False)"

lemma safe_Ret [simp]: "safe P (Ret x) = P x"
  by (simp add: safe_def)

lemma safe_bnd: "safe P r \<Longrightarrow> (\<And>x. P x \<Longrightarrow> safe Q (f x)) \<Longrightarrow> safe Q (bnd r f)"
  by (cases r) (auto simp: safe_def)

lemma safe_mono: "safe P r \<Longrightarrow> (\<And>x. P x \<Longrightarrow> Q x) \<Longrightarrow> safe Q r"
  by (cases r) (auto simp: safe_def)

lemma safe_each: "I s \<Longrightarrow> (\<And>x s. x \<in> set xs \<Longrightarrow> I s \<Longrightarrow> safe I (f x s)) \<Longrightarrow> safe I (each f xs s)"
proof (induction xs arbitrary: s)
  case (Cons x xs)
  have "safe I (f x s)" using Cons.prems by simp
  then show ?case using Cons by (auto intro: safe_bnd)
qed simp

section \<open>Changing a queue\<close>

text \<open>A source gets a new queue and the reference counts move with it.\<close>

lemma src_inv_requeue:
  assumes inv: "src_inv s" and c: "LookupSource s k = Some c" and m: "um_inv m"
    and refs: "\<And>p. LookupUIntMapKey m p = map_option (\<lambda>b. b\<lparr>buf_refcount := buf_refcount b +
       of_nat (count_list (src_queue (f c)) p) - of_nat (count_list (src_queue c) p)\<rparr>) (LookupBuffer s p)"
    and same: "src_Send (f c) = src_Send c"
    and ok: "source_ok (LookupBuffer s) (dom (LookupEffectSlot s)) k (f c)"
    and room: "entries src_queue (LookupSource s) + length (src_queue (f c)) < 2 ^ 32 + length (src_queue c)"
  shows "src_inv (upd_source (s\<lparr>BufferMap := m\<rparr>) k f)"
proof -
  note D = src_invD [OF inv]
  define L where "L = (LookupSource s)(k \<mapsto> f c)"
  have L: "LookupUIntMapKey (um_upd (SourceMap s) k f) = L" using c D(2) by (auto simp: L_def)
  have tal: "(of_nat (tally src_queue L p) :: u32) = of_nat (tally src_queue (LookupSource s) p) +
      of_nat (count_list (src_queue (f c)) p) - of_nat (count_list (src_queue c) p)" for p
    using arg_cong [OF tally_upd [OF D(5) c, of src_queue "f c" p], of "of_nat :: nat \<Rightarrow> u32"]
    by (simp add: L_def algebra_simps)
  have snd': "tally sends L p = tally sends (LookupSource s) p" for p
    using tally_upd [OF D(5) c, of sends "f c" p] same by (simp add: L_def sends_def)
  have "entries src_queue L < 2 ^ 32"
    using entries_upd [OF D(5) c, of src_queue "f c"] room by (simp add: L_def)
  moreover have "buf_refcount b = of_nat (tally src_queue L p)" if "LookupUIntMapKey m p = Some b" for p b
    using that refs [of p] D(7) [of p] by (auto simp: tal)
  moreover have "p \<noteq> 0 \<and> buf_buffer b = p \<and> buf_wf b" if "LookupUIntMapKey m p = Some b" for p b
    using that refs [of p] D(1) by (auto simp: buffers_inv_def)
  moreover have "set (ActiveSources s) \<subseteq> dom L" using inv by (auto simp: L_def src_inv_def)
  moreover have "source_ok (LookupUIntMapKey m) (dom (LookupEffectSlot s)) j d" if "L j = Some d" for j d
    using that ok D(6) by (auto simp: L_def source_ok_refs [OF refs] split: if_splits)
  ultimately show ?thesis using inv m unfolding src_inv_def by (simp add: L snd' buffers_inv_def)
qed

lemma alSourceUnqueueBuffers_safe:
  assumes inv: "src_inv s" and n: "n < 2 ^ 31"
  shows "safe (\<lambda>(names, s'). src_inv s') (alSourceUnqueueBuffers k n s)"
proof (cases "LookupSource s k")
  case (Some c)
  note D = src_invD [OF inv] and ok = src_invD(6) [OF inv Some]
  define d :: "alsource \<Rightarrow> alsource" where "d = (\<lambda>c. c\<lparr>src_queue := drop (nat n) (src_queue c),
      src_BuffersInQueue := src_BuffersInQueue c - word_of_int n,
      src_Buffer := (if src_state c \<noteq> AL_PLAYING
                     then (case drop (nat n) (src_queue c) of [] \<Rightarrow> 0 | p # _ \<Rightarrow> p) else src_Buffer c),
      src_BuffersPlayed := src_BuffersPlayed c - word_of_int n\<rparr>)"
  show ?thesis
  proof (cases "0 < n \<and> al_current s \<and> \<not> (src_bLooping c \<or> src_lSourceType c \<noteq> AL_STREAMING \<or> word_of_int n > src_BuffersPlayed c)")
    case True
    define w where "w = (word_of_int n :: u32)"
    have w: "unat w = nat n" using True n by (simp add: w_def)
    have np: "nat n \<le> unat (src_BuffersPlayed c)" using True w by (simp add: w_def [symmetric] word_le_nat_alt not_less)
    then have len: "nat n \<le> length (src_queue c)" using ok by (simp add: source_ok_def)
    define gone where "gone = take (nat n) (src_queue c)"
    have "\<forall>p\<in>set gone. p = 0 \<or> LookupBuffer s p \<noteq> None"
      using ok by (auto simp: source_ok_def gone_def dest: in_set_takeD)
    from each_adj_buffer [OF D(3,10) this, of "- 1"] obtain m where m: "each dec_buffer gone s = Ret (s\<lparr>BufferMap := m\<rparr>)" "um_inv m"
      "\<And>p. LookupUIntMapKey m p = map_option (\<lambda>b. b\<lparr>buf_refcount := buf_refcount b - of_nat (count_list gone p)\<rparr>) (LookupBuffer s p)"
      by (auto simp: buffer_refs_adj)
    have cnt: "count_list (src_queue c) p = count_list gone p + count_list (drop (nat n) (src_queue c)) p" for p
      by (simp add: gone_def flip: count_list_append)
    have "src_inv (upd_source (s\<lparr>BufferMap := m\<rparr>) k d)"
    proof (rule src_inv_requeue [OF inv Some m(2)])
      show "LookupUIntMapKey m p = map_option (\<lambda>b. b\<lparr>buf_refcount := buf_refcount b + of_nat (count_list (src_queue (d c)) p) -
          of_nat (count_list (src_queue c) p)\<rparr>) (LookupBuffer s p)" for p
        by (simp add: m(3) cnt d_def)
      have "w \<le> src_BuffersPlayed c" using True by (simp add: w_def not_less)
      then have "unat (src_BuffersPlayed c - w) = unat (src_BuffersPlayed c) - nat n"
        using w by (simp add: unat_sub_if' word_le_nat_alt)
      moreover have "(of_nat (length (src_queue c)) - w :: u32) = of_nat (length (src_queue c) - nat n)"
        using len True by (simp add: w_def of_nat_diff flip: of_nat_nat)
      moreover have "set (drop (nat n) (src_queue c)) \<subseteq> insert 0 (dom (LookupBuffer s))"
        using ok set_drop_subset [of "nat n" "src_queue c"] by (auto simp: source_ok_def)
      moreover have "unat (src_BuffersPlayed c) - nat n < length (src_queue c) - nat n"
        if "src_state c = AL_PLAYING \<or> src_state c = AL_PAUSED"
        using ok that np by (intro diff_less_mono) (auto simp: source_ok_def)
      ultimately show "source_ok (LookupBuffer s) (dom (LookupEffectSlot s)) k (d c)"
        using ok len True unfolding source_ok_def by (simp add: d_def sends_def diff_le_mono source_types flip: w_def)
    qed (use D(9) in \<open>simp_all add: d_def\<close>)
    then show ?thesis using True Some len m(1)
      by (simp add: alSourceUnqueueBuffers_def gone_def [symmetric] d_def [symmetric] Let_def)
  qed (use inv Some in \<open>auto simp: alSourceUnqueueBuffers_def\<close>)
qed (use inv in \<open>auto simp: alSourceUnqueueBuffers_def\<close>)


section \<open>Queueing\<close>

lemma check_queue_fmt:
  assumes "fmt \<noteq> 0" "LookupBuffer s fmt \<noteq> None"
  shows "\<exists>e. check_queue k fmt ps s = Ret (e, s) \<and> (e = None \<longrightarrow> (\<forall>p\<in>set ps. p = 0 \<or> LookupBuffer s p \<noteq> None))"
  by (induction ps) (use assms in \<open>auto split: option.split\<close>)

definition set_update :: "source_update \<Rightarrow> alsource \<Rightarrow> alsource" where
  "set_update u c = c\<lparr>src_Update := u, src_NeedsUpdate := True\<rparr>"

lemma set_update_fold: "(\<lambda>c. c\<lparr>src_Update := u, src_NeedsUpdate := True\<rparr>) = set_update u"
  by (simp add: set_update_def fun_eq_iff)

text \<open>The check never follows a bad pointer, and it may leave a new update function.\<close>

lemma check_queue_cases:
  assumes "fmt = 0 \<or> LookupBuffer s fmt \<noteq> None"
  shows "\<exists>e s'. check_queue k fmt ps s = Ret (e, s') \<and> (s' = s \<or> (\<exists>u. s' = upd_source s k (set_update u))) \<and>
     (e = None \<longrightarrow> (\<forall>p\<in>set ps. p = 0 \<or> LookupBuffer s p \<noteq> None))"
  using assms
proof (induction ps arbitrary: fmt)
  case (Cons p ps)
  show ?case
  proof (cases "p \<noteq> 0 \<and> fmt = 0")
    case True
    show ?thesis
    proof (cases "LookupBuffer s p")
      case (Some b)
      obtain e where "check_queue k p ps (upd_source s k (set_update (update_for b))) = Ret (e, upd_source s k (set_update (update_for b)))"
        "e = None \<longrightarrow> (\<forall>p\<in>set ps. p = 0 \<or> LookupBuffer s p \<noteq> None)"
        using check_queue_fmt [of p "upd_source s k (set_update (update_for b))" k ps] True Some by auto
      then show ?thesis using True Some by (auto simp: set_update_fold)
    qed (use True in auto)
  next
    case False
    show ?thesis
    proof (cases "fmt = 0")
      case True
      then show ?thesis using Cons.IH [OF Cons.prems] False by auto
    next
      case False
      then show ?thesis using check_queue_fmt [of fmt s k "p # ps"] Cons.prems by fastforce
    qed
  qed
qed auto

lemma src_inv_set_update:
  assumes "src_inv s" "LookupSource s k = Some c"
  shows "src_inv (upd_source s k (set_update u))"
  using src_invD(6) [OF assms] by (intro src_inv_upd [OF assms]) (auto simp: set_update_def source_ok_def sends_def)

lemma first_buffer_in: "first_buffer q = 0 \<or> first_buffer q \<in> set q"
  by (induction q) auto

lemma first_buffer_live: "source_ok look S k c \<Longrightarrow> first_buffer (src_queue c) \<noteq> 0 \<Longrightarrow> first_buffer (src_queue c) \<in> dom look"
  using first_buffer_in [of "src_queue c"] by (auto simp: source_ok_def)

text \<open>Appending buffers to the queue of a source.\<close>

lemma queue_append_safe:
  fixes d :: "alsource \<Rightarrow> alsource"
  assumes inv: "src_inv s" and c: "LookupSource s k = Some c" and new: "\<forall>p\<in>set new. p = 0 \<or> LookupBuffer s p \<noteq> None"
    and room: "entries src_queue (LookupSource s) + length new < 2 ^ 32"
    and d: "src_queue (d c) = src_queue c @ new" "src_Send (d c) = src_Send c" "src_source (d c) = src_source c"
      "src_BuffersInQueue (d c) = src_BuffersInQueue c + of_nat (length new)" "src_BuffersPlayed (d c) = src_BuffersPlayed c"
      "src_state (d c) = src_state c" "src_lSourceType (d c) = AL_STREAMING"
  shows "safe (\<lambda>s'. src_inv s') (bnd (each inc_buffer new s) (\<lambda>s. Ret (upd_source s k d)))"
proof -
  note D = src_invD [OF inv] and ok = src_invD(6) [OF inv c]
  from each_adj_buffer [OF D(3,10) new, of 1] obtain m where m: "each inc_buffer new s = Ret (s\<lparr>BufferMap := m\<rparr>)" "um_inv m"
    "\<And>p. LookupUIntMapKey m p = map_option (\<lambda>b. b\<lparr>buf_refcount := buf_refcount b + of_nat (count_list new p)\<rparr>) (LookupBuffer s p)"
    by (auto simp: buffer_refs_adj)
  have "source_ok (LookupBuffer s) (dom (LookupEffectSlot s)) k (d c)"
    using ok new unfolding source_ok_def by (auto simp: d sends_def source_types)
  then have "src_inv (upd_source (s\<lparr>BufferMap := m\<rparr>) k d)"
    using room by (intro src_inv_requeue [OF inv c m(2)]) (simp_all add: m(3) d add_ac)
  then show ?thesis by (simp add: m(1))
qed

lemma alSourceQueueBuffers_safe:
  assumes inv: "src_inv s" and n: "n < 2 ^ 31" "nat n \<le> length buffers" "entries src_queue (LookupSource s) + nat n < 2 ^ 32"
  shows "safe src_inv (alSourceQueueBuffers k n buffers s)"
proof (cases "LookupSource s k")
  case (Some c)
  show ?thesis
  proof (cases "0 < n \<and> al_current s \<and> src_lSourceType c \<noteq> AL_STATIC")
    case True
    have "first_buffer (src_queue c) = 0 \<or> LookupBuffer s (first_buffer (src_queue c)) \<noteq> None"
      using first_buffer_live [OF src_invD(6) [OF inv Some]] by auto
    from check_queue_cases [OF this, of k "take (nat n) buffers"] obtain e s1 where
      chk: "check_queue k (first_buffer (src_queue c)) (take (nat n) buffers) s = Ret (e, s1)"
        "e = None \<longrightarrow> (\<forall>p\<in>set (take (nat n) buffers). p = 0 \<or> LookupBuffer s p \<noteq> None)"
        "s1 = s \<or> (\<exists>u. s1 = upd_source s k (set_update u))" by blast
    from chk(3) src_inv_set_update [OF inv Some] have inv1: "src_inv s1" using inv by auto
    from chk(3) src_invD(2) [OF inv] Some obtain c1 where c1: "LookupSource s1 k = Some c1" "BufferMap s1 = BufferMap s"
      "src_queue c1 = src_queue c" and e1: "entries src_queue (LookupSource s1) = entries src_queue (LookupSource s)"
    proof (elim disjE exE)
      fix u assume u: "s1 = upd_source s k (set_update u)"
      have L: "LookupUIntMapKey (SourceMap s1) = (LookupSource s)(k \<mapsto> set_update u c)"
        using Some src_invD(2) [OF inv] by (auto simp: u)
      have "entries src_queue (LookupSource s1) = entries src_queue (LookupSource s)"
        using entries_upd [OF src_invD(5) [OF inv] Some, of src_queue "set_update u c"] by (simp add: L set_update_def)
      then show ?thesis using L u by (intro that [of "set_update u c"]) (simp_all add: set_update_def)
    qed auto
    show ?thesis
    proof (cases e)
      case None
      define d :: "alsource \<Rightarrow> alsource" where "d = (\<lambda>c. c\<lparr>src_lSourceType := AL_STREAMING,
        src_Buffer := (if src_queue c = [] then hd (take (nat n) buffers) else src_Buffer c),
        src_queue := src_queue c @ take (nat n) buffers, src_BuffersInQueue := src_BuffersInQueue c + word_of_int n\<rparr>)"
      have "safe src_inv (bnd (each inc_buffer (take (nat n) buffers) s1) (\<lambda>s. Ret (upd_source s k d)))"
        by (rule queue_append_safe [OF inv1 c1(1)]) (use chk(2) None True n in \<open>auto simp: d_def c1(2) e1\<close>)
      then show ?thesis using True Some chk(1) None
        by (simp add: alSourceQueueBuffers_def d_def Let_def)
    next
      case (Some e')
      then show ?thesis using True \<open>LookupSource s k = Some c\<close> chk(1) inv1 by (simp add: alSourceQueueBuffers_def)
    qed
  qed (use inv Some in \<open>auto simp: alSourceQueueBuffers_def\<close>)
qed (use inv in \<open>auto simp: alSourceQueueBuffers_def\<close>)


section \<open>Setting the buffer of a source\<close>

lemma swap_queue:
  assumes inv: "src_inv s" and q: "\<forall>p\<in>set q. p = 0 \<or> LookupBuffer s p \<noteq> None" and p: "p = 0 \<or> LookupBuffer s p \<noteq> None"
  shows "\<exists>m1 m. each dec_buffer q s = Ret (s\<lparr>BufferMap := m1\<rparr>) \<and> inc_buffer p (s\<lparr>BufferMap := m1\<rparr>) = Ret (s\<lparr>BufferMap := m\<rparr>) \<and> um_inv m \<and>
     (\<forall>j. LookupUIntMapKey m j = map_option (\<lambda>b. b\<lparr>buf_refcount := buf_refcount b +
        of_nat (count_list [p] j) - of_nat (count_list q j)\<rparr>) (LookupBuffer s j))"
proof -
  note D = src_invD [OF inv]
  from each_adj_buffer [OF D(3,10) q, of "- 1"] obtain m1 where m1: "each dec_buffer q s = Ret (s\<lparr>BufferMap := m1\<rparr>)" "um_inv m1"
    "\<And>j. LookupUIntMapKey m1 j = map_option (\<lambda>b. b\<lparr>buf_refcount := buf_refcount b - of_nat (count_list q j)\<rparr>) (LookupBuffer s j)"
    by (auto simp: buffer_refs_adj)
  have "um_inv (BufferMap (s\<lparr>BufferMap := m1\<rparr>))" "LookupBuffer (s\<lparr>BufferMap := m1\<rparr>) 0 = None"
    "\<forall>j\<in>set [p]. j = 0 \<or> LookupBuffer (s\<lparr>BufferMap := m1\<rparr>) j \<noteq> None" using m1 D(10) p by auto
  from each_adj_buffer [OF this, of 1] obtain m where m: "inc_buffer p (s\<lparr>BufferMap := m1\<rparr>) = Ret (s\<lparr>BufferMap := m\<rparr>)" "um_inv m"
    "\<And>j. LookupUIntMapKey m j = map_option (\<lambda>b. b\<lparr>buf_refcount := buf_refcount b + of_nat (count_list [p] j)\<rparr>) (LookupUIntMapKey m1 j)"
    by (auto simp: buffer_refs_adj bnd_Ret_iff)
  have "LookupUIntMapKey m j = map_option (\<lambda>b. b\<lparr>buf_refcount := buf_refcount b +
        of_nat (count_list [p] j) - of_nat (count_list q j)\<rparr>) (LookupBuffer s j)" for j
    by (cases "LookupBuffer s j") (simp_all add: m(3) m1(3))
  then show ?thesis using m1(1) m(1,2) by blast
qed

lemma set_source_buffer_safe:
  assumes inv: "src_inv s" and room: "entries src_queue (LookupSource s) + 1 < 2 ^ 32"
  shows "safe src_inv (set_source_buffer k p s)"
proof (cases "LookupSource s k")
  case (Some c)
  note D = src_invD [OF inv] and ok = src_invD(6) [OF inv Some]
  show ?thesis
  proof (cases "(src_state c = AL_STOPPED \<or> src_state c = AL_INITIAL) \<and> (p = 0 \<or> LookupBuffer s p \<noteq> None)")
    case True
    have q: "\<forall>p\<in>set (src_queue c). p = 0 \<or> LookupBuffer s p \<noteq> None" using ok by (auto simp: source_ok_def)
    from swap_queue [OF inv q conjunct2 [OF True]] obtain m1 m where m: "each dec_buffer (src_queue c) s = Ret (s\<lparr>BufferMap := m1\<rparr>)"
      "inc_buffer p (s\<lparr>BufferMap := m1\<rparr>) = Ret (s\<lparr>BufferMap := m\<rparr>)" "um_inv m"
      "\<And>j. LookupUIntMapKey m j = map_option (\<lambda>b. b\<lparr>buf_refcount := buf_refcount b +
        of_nat (count_list [p] j) - of_nat (count_list (src_queue c) j)\<rparr>) (LookupBuffer s j)" by blast
    define d :: "alsource \<Rightarrow> alsource" where "d = (\<lambda>c.
      (if p \<noteq> 0 then
         c\<lparr>src_lSourceType := AL_STATIC, src_queue := [p], src_BuffersInQueue := 1,
           src_Update := (case LookupBuffer (s\<lparr>BufferMap := m\<rparr>) p of None \<Rightarrow> src_Update c | Some b \<Rightarrow> update_for b)\<rparr>
       else c\<lparr>src_queue := [], src_BuffersInQueue := 0, src_lSourceType := AL_UNDETERMINED\<rparr>)
      \<lparr>src_BuffersPlayed := 0, src_Buffer := p, src_NeedsUpdate := True\<rparr>)"
    have "src_inv (upd_source (s\<lparr>BufferMap := m\<rparr>) k d)"
    proof (rule src_inv_requeue [OF inv Some m(3)])
      show "LookupUIntMapKey m j = map_option (\<lambda>b. b\<lparr>buf_refcount := buf_refcount b + of_nat (count_list (src_queue (d c)) j) -
          of_nat (count_list (src_queue c) j)\<rparr>) (LookupBuffer s j)" for j
        using D(10) by (cases "j = 0") (simp_all add: m(4) d_def)
      show "source_ok (LookupBuffer s) (dom (LookupEffectSlot s)) k (d c)"
        using ok True by (auto simp: source_ok_def d_def sends_def source_states source_types)
    qed (use room in \<open>auto simp: d_def\<close>)
    then show ?thesis using True Some m(1,2) by (simp add: set_source_buffer_def d_def)
  qed (use inv Some in \<open>auto simp: set_source_buffer_def\<close>)
qed (use inv in \<open>simp add: set_source_buffer_def\<close>)

section \<open>Pause, stop and rewind\<close>

lemma um_upd_absent: "um_inv m \<Longrightarrow> LookupUIntMapKey m k = None \<Longrightarrow> um_upd m k f = m"
proof -
  assume "um_inv m" "LookupUIntMapKey m k = None"
  then have "k \<notin> fst ` set (um_array m)" by (simp add: LookupUIntMapKey_abs um_abs_def map_of_eq_None_iff)
  then have "map (\<lambda>e. if fst e = k then (k, f (snd e)) else e) (um_array m) = um_array m"
    by (intro map_idI) (auto simp: image_iff)
  then show ?thesis by (simp add: um_upd_def)
qed

definition keeps_ok :: "(alsource \<Rightarrow> alsource) \<Rightarrow> bool" where
  "keeps_ok f \<longleftrightarrow> (\<forall>look S k c. source_ok look S k c \<longrightarrow> length (src_queue c) < 2 ^ 32 \<longrightarrow>
     src_queue (f c) = src_queue c \<and> src_Send (f c) = src_Send c \<and> source_ok look S k (f c))"

lemma src_queue_short: "src_inv s \<Longrightarrow> LookupSource s k = Some c \<Longrightarrow> length (src_queue c) < 2 ^ 32"
  using entries_ge [of "LookupSource s" k c src_queue] src_invD(5,9) [of s] by simp

lemma src_inv_keeps:
  assumes "src_inv s" "keeps_ok f"
  shows "src_inv (upd_source s k f)"
proof (cases "LookupSource s k")
  case None
  then show ?thesis using assms(1) by (simp add: um_upd_absent src_invD(2))
next
  case (Some c)
  then show ?thesis using assms(2) src_invD(6) [OF assms(1) Some] src_queue_short [OF assms(1) Some]
    by (intro src_inv_upd [OF assms(1) Some]) (auto simp: keeps_ok_def)
qed

lemma for_sources_inv:
  assumes "src_inv s" "keeps_ok f"
  shows "src_inv (for_sources f n null ks s)"
proof -
  have "src_inv (foldl (\<lambda>s k. upd_source s k f) t xs)" if "src_inv t" for t xs
    using that by (induction xs arbitrary: t) (auto intro: src_inv_keeps [OF _ assms(2)])
  then show ?thesis using assms(1) by (auto simp: for_sources_def)
qed

lemma keeps_ok_control: "keeps_ok pause_source" "keeps_ok halt_source" "keeps_ok rewind_source" "keeps_ok stop_source"
  by (auto simp: keeps_ok_def pause_source_def halt_source_def rewind_source_def stop_source_def source_ok_def sends_def source_states
      split: list.split)

lemma control_inv:
  assumes "src_inv s"
  shows "src_inv (alSourcePausev n null ks s)" "src_inv (alSourceStopv n null ks s)" "src_inv (alSourceRewindv n null ks s)"
  unfolding alSourcePausev_def alSourceStopv_def alSourceRewindv_def
  by (rule for_sources_inv [OF assms], rule keeps_ok_control)+

end
