(* ===== verification/AL_Mixer.thy ===== *)
theory AL_Mixer
  imports AL_Playback "HOL-Library.While_Combinator"
begin

text \<open>
  The mixer's side of a source: \<open>MixSource\<close> of \<^verbatim>\<open>Alc/mixer.c\<close> and the loop over the active sources,
  the stepping value and the admission control of \<^verbatim>\<open>Alc/ALu.c\<close>. \<open>MixSource\<close> is modelled to the point
  where the resampler takes over: the bytes collected for it, the number of
  samples it produces, and the positions it leaves. The arithmetic on samples is
  left out. \<open>None\<close> is a loop that never ends.
\<close>

section \<open>Constants\<close>

definition FRACTIONBITS :: nat where "FRACTIONBITS = 14"
definition FRACTIONONE :: u32 where "FRACTIONONE = 16384"
definition FRACTIONMASK :: u32 where "FRACTIONMASK = 16383"
definition STACK_DATA_SIZE :: u32 where "STACK_DATA_SIZE = 16384"
definition BUFFERSIZE :: int where "BUFFERSIZE = 4096"
definition ResamplerPadding :: "int list" where "ResamplerPadding = [0, 1, 2]"
definition ResamplerPrePadding :: "int list" where "ResamplerPrePadding = [0, 0, 1]"

lemmas mixer_consts = FRACTIONBITS_def FRACTIONONE_def FRACTIONMASK_def STACK_DATA_SIZE_def

definition padding_of :: "int list \<Rightarrow> int \<Rightarrow> int outcome" where
  "padding_of tab r = (if 0 \<le> r \<and> r < int (length tab) then Ret (tab ! nat r) else UB OobRead)"

section \<open>The stepping value\<close>

text \<open>\<open>Pitch\<close> is the pitch after it was scaled by the ratio of the two sampling rates.\<close>

definition max_step :: "albuffer \<Rightarrow> int \<Rightarrow> int outcome" where
  "max_step b resampler =
     bnd (div_u32 STACK_DATA_SIZE (FrameSizeFromFmt (buf_FmtChannels b) (buf_FmtType b))) (\<lambda>q.
     bnd (padding_of ResamplerPadding resampler) (\<lambda>pad.
     bnd (padding_of ResamplerPrePadding resampler) (\<lambda>pre.
     Ret (min (sint q - (pad + pre + 1)) (drop_bit FRACTIONBITS 2147483647)))))"

definition calc_step :: "albuffer \<Rightarrow> int \<Rightarrow> flt \<Rightarrow> int outcome" where
  "calc_step b resampler Pitch =
     bnd (max_step b resampler) (\<lambda>maxstep.
     if f_lt (f_of_int b32 maxstep) Pitch then Ret (push_bit FRACTIONBITS maxstep)
     else bnd (f_to_int32 (f_mul b32 Pitch (f_of_int b32 (uint FRACTIONONE)))) (\<lambda>step.
       Ret (if step = 0 then 1 else step)))"

section \<open>Collecting the source data\<close>

definition silence :: "FmtType \<Rightarrow> byte" where
  "silence type = (if type = FmtUByte then 0x80 else 0)"

text \<open>\<open>memcpy\<close> of \<open>n\<close> bytes of a buffer's data from offset \<open>pos\<close>.\<close>

definition rd_data :: "albuffer \<Rightarrow> u32 \<Rightarrow> u32 \<Rightarrow> byte list outcome" where
  "rd_data b pos n =
     (if n = 0 then Ret []
      else (case buf_data b of
              None \<Rightarrow> UB NullDeref
            | Some d \<Rightarrow> if length d < unat pos + unat n then UB OobRead else Ret (ld d (unat pos) (unat n))))"

text \<open>Silence in front of the first sample: the silence, the bytes still wanted, the offset to go on from.\<close>

definition lead_in :: "byte \<Rightarrow> u32 \<Rightarrow> u32 \<Rightarrow> u32 \<Rightarrow> u32 \<Rightarrow> byte list \<times> u32 \<times> u32" where
  "lead_in sil fs pre dpos want =
     (if pre \<le> dpos then ([], want, (dpos - pre) * fs)
      else let z = min want ((pre - dpos) * fs) in (replicate (unat z) sil, want - z, 0))"

text \<open>The repeats of the loop section. With no bytes in it the code never leaves the loop.\<close>

function loop_fill :: "albuffer \<Rightarrow> u32 \<Rightarrow> u32 \<Rightarrow> u32 \<Rightarrow> byte list \<Rightarrow> byte list outcome option" where
  "loop_fill b start sect want acc =
     (if want = 0 then Some (Ret acc)
      else let sect = min want sect in
        if sect = 0 then None
        else (case rd_data b start sect of
                Ret d \<Rightarrow> loop_fill b start sect (want - sect) (acc @ d)
              | UB e \<Rightarrow> Some (UB e)
              | Blocked \<Rightarrow> Some Blocked))"
  by pat_completeness auto
termination
proof (relation "measure (\<lambda>(b, start, sect, want, acc). unat want)")
  fix want sect x :: u32
  assume a: "want \<noteq> 0" "x = min want sect" "x \<noteq> 0"
  have "x \<le> want" using a(2) by simp
  then have "unat (want - x) = unat want - unat x" by (simp add: unat_sub)
  moreover have "0 < unat x" using a(3) by (simp add: unat_gt_0)
  moreover have "0 < unat want" using a(1) by (simp add: unat_gt_0)
  ultimately show "((b, start, x, want - x, acc @ d), b, start, sect, want, acc) \<in> measure (\<lambda>(b, start, sect, want, acc). unat want)"
    for b start acc d by simp
qed simp

declare loop_fill.simps [simp del]

text \<open>A static source: the local flag \<open>Looping\<close> as it is left, and the data.\<close>

definition static_window :: "albuffer \<Rightarrow> bool \<Rightarrow> u32 \<Rightarrow> byte \<Rightarrow> u32 \<Rightarrow> u32 \<Rightarrow> u32 \<Rightarrow> (bool \<times> byte list) outcome option" where
  "static_window b looping fs sil pre dpos want =
     (let ls = word_of_int (buf_LoopStart b); le = word_of_int (buf_LoopEnd b) in
      if \<not> looping \<or> le \<le> dpos then
        (let (z, want, pos) = lead_in sil fs pre dpos want;
             n = min want (word_of_int (buf_size b) - pos) in
         Some (bnd (rd_data b pos n) (\<lambda>d. Ret (False, z @ d @ replicate (unat (want - n)) sil))))
      else
        (case (if ls \<le> dpos
               then map_option (\<lambda>p. ([], want, (p - pre + ls) * fs)) (while_option (\<lambda>p. p < pre) (\<lambda>p. p + (le - ls)) (dpos - ls))
               else Some (lead_in sil fs pre dpos want)) of
           None \<Rightarrow> None
         | Some (z, want, pos) \<Rightarrow>
             let n = min want (le * fs - pos) in
             (case rd_data b pos n of
                Ret d \<Rightarrow> map_option (\<lambda>r. bnd r (\<lambda>d. Ret (True, d))) (loop_fill b (ls * fs) ((le - ls) * fs) (want - n) (z @ d))
              | UB e \<Rightarrow> Some (UB e)
              | Blocked \<Rightarrow> Some Blocked)))"

text \<open>
  A queue: first the walk back for the samples in front of the position (the
  item, the offset, the bytes of silence), then the walk forward that collects data.
\<close>

partial_function (option) walk_prev ::
    "(ALuint \<Rightarrow> albuffer option) \<Rightarrow> ALuint list \<Rightarrow> bool \<Rightarrow> u32 \<Rightarrow> nat \<Rightarrow> u32 \<Rightarrow> (nat \<times> u32 \<times> u32) outcome option" where
  "walk_prev look q looping want i pos =
     (if pos = 0 then Some (Ret (i, 0, 0))
      else if i = 0 \<and> \<not> looping then Some (Ret (i, 0, min want pos))
      else
        let j = (if i = 0 then length q - 1 else i - 1) in
        if length q \<le> j then Some (UB NullDeref)
        else if q ! j = 0 then walk_prev look q looping want j pos
        else (case look (q ! j) of
                None \<Rightarrow> Some (UB UseAfterFree)
              | Some b \<Rightarrow>
                  if pos < word_of_int (buf_size b) then Some (Ret (j, word_of_int (buf_size b) - pos, 0))
                  else walk_prev look q looping want j (pos - word_of_int (buf_size b))))"

partial_function (option) walk_next ::
    "(ALuint \<Rightarrow> albuffer option) \<Rightarrow> ALuint list \<Rightarrow> bool \<Rightarrow> byte \<Rightarrow> nat \<Rightarrow> u32 \<Rightarrow> u32 \<Rightarrow> byte list \<Rightarrow> byte list outcome option" where
  "walk_next look q looping sil i pos want acc =
     (if want = 0 then Some (Ret acc)
      else if length q \<le> i then Some (UB NullDeref)
      else
        (case (if q ! i = 0 then Ret (acc, pos, want)
               else bnd (deref look (q ! i)) (\<lambda>b.
                 if word_of_int (buf_size b) \<le> pos then Ret (acc, pos - word_of_int (buf_size b), want)
                 else let n = min want (word_of_int (buf_size b) - pos) in
                   bnd (rd_data b pos n) (\<lambda>d. Ret (acc @ d, 0, want - n)))) of
           UB e \<Rightarrow> Some (UB e)
         | Blocked \<Rightarrow> Some Blocked
         | Ret (acc, pos, want) \<Rightarrow>
             if i + 1 < length q then walk_next look q looping sil (i + 1) pos want acc
             else if looping then walk_next look q looping sil 0 pos want acc
             else Some (Ret (acc @ replicate (unat want) sil))))"

definition queue_window ::
    "(ALuint \<Rightarrow> albuffer option) \<Rightarrow> ALuint list \<Rightarrow> bool \<Rightarrow> u32 \<Rightarrow> byte \<Rightarrow> u32 \<Rightarrow> nat \<Rightarrow> u32 \<Rightarrow> u32 \<Rightarrow> byte list outcome option" where
  "queue_window look q looping fs sil pre i dpos want =
     (case (if pre \<le> dpos then Some (Ret (i, (dpos - pre) * fs, 0)) else walk_prev look q looping want i ((pre - dpos) * fs)) of
        None \<Rightarrow> None
      | Some (UB e) \<Rightarrow> Some (UB e)
      | Some Blocked \<Rightarrow> Some Blocked
      | Some (Ret (j, pos, z)) \<Rightarrow> walk_next look q looping sil j pos (want - z) (replicate (unat z) sil))"

section \<open>Moving on through the queue\<close>

text \<open>
  After some samples have been mixed the position moves on through the queue until
  it lies in the current buffer. \<open>i\<close> is the index of the current queue item. The result has
  the new state, item, number of played buffers, position and fraction.
\<close>

partial_function (option) mix_advance ::
    "(ALuint \<Rightarrow> albuffer option) \<Rightarrow> alsource \<Rightarrow> bool \<Rightarrow> u32 \<Rightarrow> nat \<Rightarrow> u32 \<Rightarrow> u32 \<Rightarrow> u32 \<Rightarrow>
      (ALenum \<times> nat \<times> u32 \<times> u32 \<times> u32) outcome option" where
  "mix_advance look c looping fs i played pos fr =
     (if length (src_queue c) \<le> i then Some (UB NullDeref)
      else
        let p = src_queue c ! i in
        if p \<noteq> 0 \<and> look p = None then Some (UB UseAfterFree)
        else if p \<noteq> 0 \<and> fs = 0 then Some (UB DivByZero)
        else
          let size = (if p = 0 then 0 else word_of_int (buf_size (the (look p))) div fs);
              ls = (if p = 0 then 0 else word_of_int (buf_LoopStart (the (look p))));
              le = (if p = 0 then 0 else word_of_int (buf_LoopEnd (the (look p)))) in
          if p \<noteq> 0 \<and> pos < le then Some (Ret (src_state c, i, played, pos, fr))
          else if looping \<and> src_lSourceType c = AL_STATIC then
            (if le - ls = 0 then Some (UB DivByZero) else Some (Ret (src_state c, 0, played, (pos - ls) mod (le - ls) + ls, fr)))
          else if pos < size then Some (Ret (src_state c, i, played, pos, fr))
          else if i + 1 < length (src_queue c) then mix_advance look c looping fs (i + 1) (played + 1) (pos - size) fr
          else if looping then mix_advance look c looping fs 0 0 (pos - size) fr
          else Some (Ret (AL_STOPPED, 0, src_BuffersInQueue c, 0, 0)))"


section \<open>The mixing loop\<close>

text \<open>The resampler's stepping: position and fraction after \<open>n\<close> output samples.\<close>

fun step_pos :: "u32 \<Rightarrow> nat \<Rightarrow> u32 \<Rightarrow> u32 \<Rightarrow> u32 \<times> u32" where
  "step_pos inc 0 pos fr = (pos, fr)"
| "step_pos inc (Suc n) pos fr = step_pos inc n (pos + drop_bit FRACTIONBITS (fr + inc)) ((fr + inc) AND FRACTIONMASK)"

text \<open>The bytes wanted for the samples that are left, a whole number of frames.\<close>

definition bytes_wanted :: "u32 \<Rightarrow> u32 \<Rightarrow> int \<Rightarrow> u32 \<Rightarrow> u32 \<Rightarrow> u32 outcome" where
  "bytes_wanted left inc pads fr fs =
     bnd (s64 (uint (left + 1) * uint inc)) (\<lambda>d.
     bnd (s64 (d + uint (fr + FRACTIONMASK))) (\<lambda>d.
     bnd (s64 ((drop_bit FRACTIONBITS d + pads) * uint fs)) (\<lambda>d.
     let want = (if d < uint STACK_DATA_SIZE then word_of_int d else STACK_DATA_SIZE) in
     bnd (mod_u32 want fs) (\<lambda>r. Ret (want - r)))))"

text \<open>How many samples the collected bytes give.\<close>

definition samples_given :: "nat \<Rightarrow> u32 \<Rightarrow> u32 \<Rightarrow> int \<Rightarrow> u32 \<Rightarrow> u32 \<Rightarrow> u32 outcome" where
  "samples_given bytes left inc pads fr fs =
     bnd (div_u32 (of_nat bytes) fs) (\<lambda>q.
     let d = uint q - pads in
     if d < 0 then UB BadShift
     else if inc = 0 then UB DivByZero
     else Ret (min (word_of_int (c_div (push_bit FRACTIONBITS d - uint inc - uint fr + uint (inc - 1)) (uint inc))) left))"

record mix_pos =
  mp_looping :: bool
  mp_state :: ALenum
  mp_item :: nat
  mp_played :: u32
  mp_pos :: u32
  mp_frac :: u32
  mp_out :: u32
  mp_trace :: "(byte list \<times> nat) list"

text \<open>
  One round: collect data, hand it to the resampler, move on. The trace
  records what the resampler gets: the bytes from the current sample on and the number of
  samples to make of them.
\<close>

definition collect :: "(ALuint \<Rightarrow> albuffer option) \<Rightarrow> alsource \<Rightarrow> u32 \<Rightarrow> byte \<Rightarrow> u32 \<Rightarrow> u32 \<Rightarrow> mix_pos \<Rightarrow> (bool \<times> byte list) outcome option" where
  "collect look c fs sil pre want m =
     (if src_lSourceType c = AL_STATIC
      then (case deref look (src_Buffer c) of
              Ret b \<Rightarrow> static_window b (mp_looping m) fs sil pre (mp_pos m) want
            | UB e \<Rightarrow> Some (UB e)
            | Blocked \<Rightarrow> Some Blocked)
      else map_option (\<lambda>r. bnd r (\<lambda>d. Ret (mp_looping m, d)))
             (queue_window look (src_queue c) (mp_looping m) fs sil pre (mp_item m) (mp_pos m) want))"

definition mix_round ::
    "(ALuint \<Rightarrow> albuffer option) \<Rightarrow> alsource \<Rightarrow> u32 \<Rightarrow> u32 \<Rightarrow> byte \<Rightarrow> int \<Rightarrow> int \<Rightarrow> u32 \<Rightarrow> mix_pos \<Rightarrow> mix_pos outcome option" where
  "mix_round look c inc fs sil pad pre todo m =
     (case bytes_wanted (todo - mp_out m) inc (pad + pre) (mp_frac m) fs of
        UB e \<Rightarrow> Some (UB e)
      | Blocked \<Rightarrow> Some Blocked
      | Ret want \<Rightarrow>
          (case collect look c fs sil (word_of_int pre) want m of
             None \<Rightarrow> None
           | Some (UB e) \<Rightarrow> Some (UB e)
           | Some Blocked \<Rightarrow> Some Blocked
           | Some (Ret (looping, d)) \<Rightarrow>
               (case samples_given (length d) (todo - mp_out m) inc (pad + pre) (mp_frac m) fs of
                  UB e \<Rightarrow> Some (UB e)
                | Blocked \<Rightarrow> Some Blocked
                | Ret n \<Rightarrow>
                    let (pos, fr) = step_pos inc (unat n) (mp_pos m) (mp_frac m) in
                    map_option (\<lambda>r. bnd r (\<lambda>(st, i, played, pos, fr).
                        Ret \<lparr>mp_looping = looping, mp_state = st, mp_item = i, mp_played = played, mp_pos = pos, mp_frac = fr,
                             mp_out = mp_out m + n, mp_trace = mp_trace m @ [(drop (nat pre * unat fs) d, unat n)]\<rparr>))
                      (mix_advance look c looping fs (mp_item m) (mp_played m) pos fr))))"

partial_function (option) mix_rounds ::
    "(ALuint \<Rightarrow> albuffer option) \<Rightarrow> alsource \<Rightarrow> u32 \<Rightarrow> u32 \<Rightarrow> byte \<Rightarrow> int \<Rightarrow> int \<Rightarrow> u32 \<Rightarrow> mix_pos \<Rightarrow> mix_pos outcome option" where
  "mix_rounds look c inc fs sil pad pre todo m =
     (case mix_round look c inc fs sil pad pre todo m of
        None \<Rightarrow> None
      | Some (UB e) \<Rightarrow> Some (UB e)
      | Some Blocked \<Rightarrow> Some Blocked
      | Some (Ret m) \<Rightarrow>
          if mp_state m = AL_PLAYING \<and> mp_out m < todo then mix_rounds look c inc fs sil pad pre todo m else Some (Ret m))"

definition mix_start :: "alsource \<Rightarrow> mix_pos" where
  "mix_start c = \<lparr>mp_looping = src_bLooping c, mp_state = src_state c, mp_item = unat (src_BuffersPlayed c),
     mp_played = src_BuffersPlayed c, mp_pos = src_position c, mp_frac = src_position_fraction c, mp_out = 0, mp_trace = []\<rparr>"

definition MixSource :: "(ALuint \<Rightarrow> albuffer option) \<Rightarrow> alsource \<Rightarrow> u32 \<Rightarrow> u32 \<Rightarrow> (alsource \<times> (byte list \<times> nat) list) outcome option" where
  "MixSource look c inc todo =
     (let p = first_buffer (src_queue c); resampler = (if inc = FRACTIONONE then 0 else src_Resampler c) in
      case bnd (if p = 0 then Ret (0, FmtUByte) else bnd (deref look p) (\<lambda>b.
             Ret (FrameSizeFromFmt (buf_FmtChannels b) (buf_FmtType b), buf_FmtType b))) (\<lambda>(fs, ty).
           bnd (padding_of ResamplerPrePadding resampler) (\<lambda>pre.
           bnd (padding_of ResamplerPadding resampler) (\<lambda>pad. Ret (fs, ty, pre, pad)))) of
        UB e \<Rightarrow> Some (UB e)
      | Blocked \<Rightarrow> Some Blocked
      | Ret (fs, ty, pre, pad) \<Rightarrow>
          map_option (\<lambda>r. bnd r (\<lambda>m.
            Ret (c\<lparr>src_state := mp_state m, src_BuffersPlayed := mp_played m, src_position := mp_pos m,
                   src_position_fraction := mp_frac m, src_Buffer := src_queue c ! mp_item m\<rparr>, mp_trace m)))
            (mix_rounds look c inc fs (silence ty) pad pre todo (mix_start c)))"

section \<open>All active sources\<close>

text \<open>
  The pass over the active sources, of which \<open>j\<close> are done: a source that no longer
  plays is replaced by the last one; the others are mixed. \<open>step\<close> gives the stepping
  value that the update function of the source leaves.
\<close>

function mix_active :: "(alsource \<Rightarrow> u32) \<Rightarrow> u32 \<Rightarrow> nat \<Rightarrow> al_state \<Rightarrow> al_state outcome option" where
  "mix_active step todo j s =
     (if length (ActiveSources s) \<le> j then Some (Ret s)
      else
        let k = ActiveSources s ! j in
        (case LookupSource s k of
           None \<Rightarrow> Some (UB UseAfterFree)
         | Some c \<Rightarrow>
             if src_state c \<noteq> AL_PLAYING
             then mix_active step todo j (s\<lparr>ActiveSources := butlast ((ActiveSources s)[j := last (ActiveSources s)])\<rparr>)
             else
               (case MixSource (LookupBuffer s) (c\<lparr>src_NeedsUpdate := False\<rparr>) (step c) todo of
                  None \<Rightarrow> None
                | Some (UB e) \<Rightarrow> Some (UB e)
                | Some Blocked \<Rightarrow> Some Blocked
                | Some (Ret (c', tr)) \<Rightarrow> mix_active step todo (j + 1) (upd_source s k (\<lambda>_. c')))))"
  by pat_completeness auto
termination by (relation "measure (\<lambda>(step, todo, j, s). length (ActiveSources s) - j)") auto

declare mix_active.simps [simp del]

text \<open>The device is lost: what plays is stopped.\<close>

definition aluHandleDisconnect :: "al_state \<Rightarrow> al_state" where
  "aluHandleDisconnect s =
     (foldl (\<lambda>s k. upd_source s k (\<lambda>c. if src_state c = AL_PLAYING then stop_source c else c)) s
        (map fst (um_array (SourceMap s))))\<lparr>Connected := False\<rparr>"

section \<open>Admission control\<close>

definition MAX_SOURCES_LOW :: int where "MAX_SOURCES_LOW = 4"
definition MAX_SOURCES_START :: int where "MAX_SOURCES_START = 8"
definition MAX_SOURCES_HIGH :: int where "MAX_SOURCES_HIGH = 64"

lemmas source_limits = MAX_SOURCES_LOW_def MAX_SOURCES_START_def MAX_SOURCES_HIGH_def

definition mix_deadline_usec :: "int \<Rightarrow> int \<Rightarrow> u32 \<Rightarrow> int outcome" where
  "mix_deadline_usec cores frames freq =
     bnd (s32 (frames * 1000000)) (\<lambda>us.
     bnd (div_u32 (word_of_int us) freq) (\<lambda>q. Ret (sint (q div (if 1 < cores then 2 else 5)))))"

text \<open>\<open>usec\<close> is the time that the mixing took. The limit on playing sources moves towards what fits the deadline.\<close>

definition adapt_max_sources :: "int \<Rightarrow> int \<Rightarrow> int \<Rightarrow> int \<Rightarrow> int" where
  "adapt_max_sources deadline usec active limit =
     (if 0 < active then
        let time_per_source = max 1 (c_div usec active);
            most = min (max (c_div deadline time_per_source) MAX_SOURCES_LOW) MAX_SOURCES_HIGH in
        if limit < most then limit + 1 else if most < limit then most else limit
      else MAX_SOURCES_START)"

end
