(* ===== verification/AL_SourceSafe.thy ===== *)
theory AL_SourceSafe
  imports AL_SourceInv AL_Mixer
begin

text \<open>
  Starting, mixing, creating and deleting sources and buffers keep the invariant
  of sources and follow no pointer to freed memory.
\<close>

section \<open>Playing\<close>

definition live_queue :: "(ALuint \<Rightarrow> albuffer option) \<Rightarrow> ALuint list \<Rightarrow> bool" where
  "live_queue look q \<longleftrightarrow> (\<forall>p\<in>set q. p = 0 \<or> look p \<noteq> None)"

lemma live_queue_ok: "source_ok look S k c \<Longrightarrow> live_queue look (src_queue c)"
  by (auto simp: source_ok_def live_queue_def)

lemma live_queue_Cons [simp]: "live_queue look (p # q) \<longleftrightarrow> (p = 0 \<or> look p \<noteq> None) \<and> live_queue look q"
  by (simp add: live_queue_def)

lemma queue_playable_cases: "live_queue look q \<Longrightarrow> \<exists>b. queue_playable look q = Ret b \<and> (b \<longrightarrow> q \<noteq> [])"
  by (induction q) (auto simp: deref_def)

lemma safe_UB [simp]: "safe P (UB e) \<longleftrightarrow> e \<noteq> UseAfterFree \<and> e \<noteq> NullDeref"
  by (simp add: safe_def)

lemma safe_s32: "safe (\<lambda>y. y = x) (s32 x)"
  by (simp add: s32_def)

lemma safe_f_to_int32: "safe (\<lambda>_. True) (f_to_int32 x)"
  by (cases x) (simp_all add: Let_def)

lemma safe_div_u32: "safe (\<lambda>_. True) (div_u32 a b)"
  by (simp add: div_u32_def)

lemma byte_offset_safe: "safe (\<lambda>_. True) (byte_offset b c)"
  unfolding byte_offset_def Let_def
  by (auto intro!: safe_bnd [OF safe_f_to_int32] safe_bnd [OF safe_div_u32] safe_bnd [where P = "\<lambda>_. True"])

definition offset_in :: "(ALuint \<Rightarrow> albuffer option) \<Rightarrow> ALuint list \<Rightarrow> nat \<Rightarrow> (ALuint \<times> u32 \<times> u32) option \<Rightarrow> bool" where
  "offset_in look q n r \<longleftrightarrow> (\<forall>p played pos. r = Some (p, played, pos) \<longrightarrow> unat played < n + length q \<and> p \<in> set q \<and>
     (\<forall>b. look p = Some b \<longrightarrow> uint pos * uint (FrameSizeFromFmt (buf_FmtChannels b) (buf_FmtType b)) < buf_size b))"

lemma offset_in_Cons: "offset_in look q n r \<Longrightarrow> offset_in look (p # q) n r" "offset_in look q (Suc n) r \<Longrightarrow> offset_in look (p # q) n r"
  by (auto simp: offset_in_def)

lemma frame_pos:
  assumes "0 \<le> d" "d < 2 ^ 31" "div_u32 (word_of_int d) f = Ret pos"
  shows "uint pos * uint f \<le> d"
proof -
  have "pos = word_of_int d div f" using assms(3) by (simp add: div_u32_def split: if_splits)
  then have "uint pos = d div uint f" using assms(1,2) by (simp add: uint_div unsigned_of_int take_bit_int_eq_self)
  then have "uint pos * uint f + d mod uint f = d" by simp
  moreover have "0 \<le> d mod uint f"
    using assms(1) by (cases "uint f = 0") (simp, metis mod_int_pos_iff uint_ge_0 order_le_less)
  ultimately show ?thesis by linarith
qed

lemma find_offset_safe:
  assumes "live_queue look q" "n + length q < 2 ^ 32"
  shows "safe (offset_in look q n) (find_offset look q off tot (of_nat n))"
  using assms
proof (induction q arbitrary: n tot)
  case (Cons p q)
  have "\<exists>sz. size_of look p = Ret sz \<and> (p = 0 \<longrightarrow> sz = 0) \<and> (p \<noteq> 0 \<longrightarrow> (\<exists>b. look p = Some b \<and> sz = buf_size b))"
    using Cons.prems(1) by (auto simp: size_of_def deref_def)
  then obtain sz where sz: "size_of look p = Ret sz" "p = 0 \<longrightarrow> sz = 0" "p \<noteq> 0 \<longrightarrow> (\<exists>b. look p = Some b \<and> sz = buf_size b)" by blast
  have IH1: "safe (offset_in look (p # q) n) (find_offset look q off t (of_nat n + 1))" for t
    using Cons.IH [of "Suc n" t] Cons.prems by (auto elim!: safe_mono intro: offset_in_Cons simp: add_ac)
  have IH2: "safe (offset_in look (p # q) n) (find_offset look q off t (of_nat n))" for t
    using Cons.IH [of n t] Cons.prems by (auto elim!: safe_mono intro: offset_in_Cons)
  show ?case
  proof (simp only: find_offset.simps sz bnd_simps, cases "s32 (off - tot)")
    case (Ret d)
    then have d: "d = off - tot" "d < 2 ^ 31" by (auto simp: s32_def in32_def split: if_splits)
    consider "sz \<le> d" | "\<not> sz \<le> d" "tot \<le> off" | "\<not> sz \<le> d" "\<not> tot \<le> off" by blast
    then show "safe (offset_in look (p # q) n) (bnd (s32 (off - tot)) (\<lambda>d.
       if sz \<le> d then bnd (s32 (tot + sz)) (\<lambda>tot. find_offset look q off tot (of_nat n + 1))
       else if tot \<le> off then bnd (deref look p) (\<lambda>b.
         bnd (div_u32 (word_of_int d) (FrameSizeFromFmt (buf_FmtChannels b) (buf_FmtType b))) (\<lambda>pos. Ret (Some (p, of_nat n, pos))))
       else bnd (s32 (tot + sz)) (\<lambda>tot. find_offset look q off tot (of_nat n))))"
    proof cases
      case 1
      then show ?thesis using Ret IH1 by (auto intro!: safe_bnd [OF safe_s32])
    next
      case 2
      then have "p \<noteq> 0" using sz(2) d by auto
      then obtain b where b: "look p = Some b" "sz = buf_size b" using sz(3) by blast
      have "safe (\<lambda>r. offset_in look (p # q) n r) (bnd (div_u32 (word_of_int d) (FrameSizeFromFmt (buf_FmtChannels b) (buf_FmtType b)))
        (\<lambda>pos. Ret (Some (p, of_nat n, pos))))"
      proof (cases "div_u32 (word_of_int d) (FrameSizeFromFmt (buf_FmtChannels b) (buf_FmtType b))")
        case r: (Ret pos)
        have "uint pos * uint (FrameSizeFromFmt (buf_FmtChannels b) (buf_FmtType b)) \<le> d"
          by (rule frame_pos [OF _ d(2) r]) (use 2 d in simp)
        then show ?thesis using 2 b d Cons.prems(2) r by (simp add: offset_in_def)
      qed (auto simp: div_u32_def split: if_splits)
      then show ?thesis using Ret 2 b \<open>p \<noteq> 0\<close> by (simp add: deref_def)
    next
      case 3
      then show ?thesis using Ret IH2 by (auto intro!: safe_bnd [OF safe_s32])
    qed
  qed (auto simp: s32_def split: if_splits)
qed (simp add: offset_in_def)

definition same_queue :: "alsource \<Rightarrow> alsource \<Rightarrow> bool" where
  "same_queue c d \<longleftrightarrow> src_queue d = src_queue c \<and> src_Send d = src_Send c \<and> src_source d = src_source c \<and>
     src_BuffersInQueue d = src_BuffersInQueue c \<and> src_state d = src_state c \<and> src_lSourceType d = src_lSourceType c"

lemma ApplyOffset_safe:
  assumes q: "live_queue look (src_queue c)" "length (src_queue c) < 2 ^ 32" and played: "unat (src_BuffersPlayed c) < length (src_queue c)"
    and cur: "src_lSourceType c = AL_STATIC \<longrightarrow> src_Buffer c \<in> set (src_queue c) \<and> in_buffer look c"
  shows "safe (\<lambda>(ok, d). same_queue c d \<and> unat (src_BuffersPlayed d) < length (src_queue c) \<and>
     (src_lSourceType c = AL_STATIC \<longrightarrow> src_Buffer d \<in> set (src_queue c) \<and> in_buffer look d)) (ApplyOffset look c)"
proof -
  have "safe (\<lambda>(n, d). d = c\<lparr>src_lOffset := 0\<rparr>) (GetByteOffset look c)"
  proof (cases "first_buffer (src_queue c) = 0")
    case False
    then have "look (first_buffer (src_queue c)) \<noteq> None"
      using first_buffer_in [of "src_queue c"] q(1) by (auto simp: live_queue_def)
    then show ?thesis using False by (auto simp: GetByteOffset_def deref_def intro!: safe_bnd [OF byte_offset_safe])
  qed (simp add: GetByteOffset_def)
  then show ?thesis unfolding ApplyOffset_def
  proof (rule safe_bnd, goal_cases)
    case (1 r)
    obtain n where r: "r = (n, c\<lparr>src_lOffset := 0\<rparr>)" using 1 by (cases r) auto
    show ?case
      using find_offset_safe [OF q(1), of 0 n 0] q(2) played cur
      by (auto simp: r same_queue_def in_buffer_def offset_in_def intro!: safe_bnd split: option.split)
  qed
qed

lemma src_inv_active:
  assumes "src_inv s" "distinct xs" "set xs \<subseteq> dom (LookupSource s)"
  shows "src_inv (s\<lparr>ActiveSources := xs\<rparr>)"
  using assms by (simp add: src_inv_def buffers_inv_def)


text \<open>What starting a source does to it.\<close>

definition start_ok :: "(ALuint \<Rightarrow> albuffer option) \<Rightarrow> alsource \<Rightarrow> alsource \<Rightarrow> bool" where
  "start_ok look c d \<longleftrightarrow> src_queue d = src_queue c \<and> src_Send d = src_Send c \<and> src_source d = src_source c \<and>
     src_BuffersInQueue d = src_BuffersInQueue c \<and> src_state d = AL_PLAYING \<and> unat (src_BuffersPlayed d) < length (src_queue c) \<and>
     src_lSourceType d = src_lSourceType c \<and> (src_lSourceType c = AL_STATIC \<longrightarrow> src_Buffer d \<in> set (src_queue c) \<and> in_buffer look d)"

lemma start_source_safe:
  assumes ok: "source_ok look S k c" and len: "length (src_queue c) < 2 ^ 32" and ne: "src_queue c \<noteq> []"
  shows "safe (start_ok look c) (let c = start_source c in
     if src_lOffset c \<noteq> 0 then bnd (ApplyOffset look c) (\<lambda>(ok, c). Ret c) else Ret c)"
proof -
  define d where "d = start_source c"
  have d: "start_ok look c d"
    using ok ne by (auto simp: d_def start_ok_def start_source_def source_ok_def)
  have "safe (start_ok look c) (bnd (ApplyOffset look d) (\<lambda>(ok, c). Ret c))"
  proof (rule safe_bnd [OF ApplyOffset_safe])
    show "live_queue look (src_queue d)" using live_queue_ok [OF ok] d by (simp add: start_ok_def)
  qed (use d len in \<open>auto simp: start_ok_def same_queue_def\<close>)
  then show ?thesis using d by (simp add: d_def [symmetric] Let_def)
qed

lemma play_one_safe:
  assumes inv: "src_inv s" and c: "LookupSource s k = Some c"
  shows "safe (\<lambda>s'. src_inv s' \<and> dom (LookupSource s') = dom (LookupSource s)) (play_one k s)"
proof -
  note D = src_invD [OF inv] and ok = src_invD(6) [OF inv c] and len = src_queue_short [OF inv c]
  have dm: "dom (LookupSource (upd_source s k f)) = dom (LookupSource s)" for f
    using D(2) by (auto simp: dom_def split: if_splits)
  have up: "src_inv (upd_source s k (\<lambda>_. d))" if "start_ok (LookupBuffer s) c d" for d
    using that ok by (intro src_inv_upd [OF inv c]) (auto simp: start_ok_def source_ok_def sends_def)
  have st: "src_inv (upd_source s k (\<lambda>_. stop_source d))" if d: "start_ok (LookupBuffer s) c d" for d
  proof -
    have "source_ok (LookupBuffer s) (dom (LookupEffectSlot s)) k d"
      using d ok by (auto simp: start_ok_def source_ok_def sends_def)
    then show ?thesis using d keeps_ok_control(4) len
      by (intro src_inv_upd [OF inv c]) (auto simp: start_ok_def keeps_ok_def)
  qed
  have stop: "keeps_ok (\<lambda>c. stop_source c\<lparr>src_lOffset := 0\<rparr>)"
    using keeps_ok_control(4) by (auto simp: keeps_ok_def stop_source_def source_ok_def sends_def)
  obtain b where b: "queue_playable (LookupBuffer s) (src_queue c) = Ret b" "b \<longrightarrow> src_queue c \<noteq> []"
    using queue_playable_cases [OF live_queue_ok [OF ok]] by blast
  show ?thesis
  proof (cases "(alc_max_sources s - PrioritySlots s \<le> int (length (ActiveSources s)) \<and> src_priority c < 127) \<or> \<not> b")
    case True
    then show ?thesis using inv c b(1) src_inv_keeps [OF inv stop, of k] dm by (auto simp: play_one_def)
  next
    case False
    then have ne: "src_queue c \<noteq> []" using b(2) by simp
    have act: "distinct (ActiveSources s)" "set (ActiveSources s) \<subseteq> dom (LookupSource s)" using inv by (simp_all add: src_inv_def)
    have fin: "src_inv ((upd_source s k (\<lambda>_. d))\<lparr>ActiveSources :=
        (if k \<in> set (ActiveSources s) then ActiveSources s else ActiveSources s @ [k])\<rparr>)" if "start_ok (LookupBuffer s) c d" for d
    proof (rule src_inv_active [OF up [OF that]])
      show "set (if k \<in> set (ActiveSources s) then ActiveSources s else ActiveSources s @ [k]) \<subseteq> dom (LookupSource (upd_source s k (\<lambda>_. d)))"
        unfolding dm using act(2) c by auto
    qed (use act in auto)
    have "safe (\<lambda>s'. src_inv s' \<and> dom (LookupSource s') = dom (LookupSource s))
      (bnd (let c = start_source c in if src_lOffset c \<noteq> 0 then bnd (ApplyOffset (LookupBuffer s) c) (\<lambda>(ok, c). Ret c) else Ret c)
        (\<lambda>c. if \<not> Connected s then Ret (upd_source s k (\<lambda>_. stop_source c))
              else Ret ((upd_source s k (\<lambda>_. c))\<lparr>ActiveSources :=
                     (if k \<in> set (ActiveSources s) then ActiveSources s else ActiveSources s @ [k])\<rparr>)))"
      by (rule safe_bnd [OF start_source_safe [OF ok len ne]]) (use st fin dm in \<open>auto\<close>)
    then show ?thesis using False c b(1) inv by (auto simp: play_one_def Let_def)
  qed
qed

lemma alSourcePlayv_safe:
  assumes "src_inv s"
  shows "safe src_inv (alSourcePlayv R n null ks s)"
proof (cases "al_current s \<and> \<not> (n < 0 \<or> 0 < n \<and> null) \<and> \<not> list_ex (\<lambda>k. LookupSource s k = None) (take (nat n) ks)")
  case True
  obtain b mx where g: "grow_active R (MaxActiveSources s) (length (ActiveSources s)) (nat n) = (b, mx)" by force
  define s1 where "s1 = s\<lparr>MaxActiveSources := mx\<rparr>"
  have s1: "src_inv s1" "LookupSource s1 = LookupSource s" using assms src_inv_cong [of s1 s] by (simp_all add: s1_def)
  have all: "set (take (nat n) ks) \<subseteq> dom (LookupSource s1)" using True s1(2) by (auto simp: list_ex_iff)
  have "safe (\<lambda>t. src_inv t \<and> dom (LookupSource t) = dom (LookupSource s1)) (each play_one (take (nat n) ks) s1)"
  proof (rule safe_each)
    fix k t assume "k \<in> set (take (nat n) ks)" "src_inv t \<and> dom (LookupSource t) = dom (LookupSource s1)"
    then show "safe (\<lambda>t. src_inv t \<and> dom (LookupSource t) = dom (LookupSource s1)) (play_one k t)"
      using play_one_safe [of t k] all by (fastforce elim!: safe_mono)
  qed (use s1 in auto)
  then have "safe src_inv (bnd (each play_one (take (nat n) ks) s1) (\<lambda>s. Ret (s\<lparr>alc_active_sources := int (length (ActiveSources s))\<rparr>)))"
  proof (rule safe_bnd)
    fix t assume "src_inv t \<and> dom (LookupSource t) = dom (LookupSource s1)"
    then show "safe src_inv (Ret (t\<lparr>alc_active_sources := int (length (ActiveSources t))\<rparr>))"
      using src_inv_cong [of "t\<lparr>alc_active_sources := int (length (ActiveSources t))\<rparr>" t] by simp
  qed
  moreover have "src_inv (alSetError e s1)" for e using s1 by simp
  ultimately show ?thesis using True g assms by (simp add: alSourcePlayv_def s1_def Let_def)
qed (use assms in \<open>auto simp: alSourcePlayv_def\<close>)

end
