(* ===== verification/AudioOutput.thy ===== *)
theory AudioOutput
  imports AL_SourceSafe
begin

text \<open>
  \<^verbatim>\<open>gles/Media/OpenALManager.cpp\<close>: the queue of audio packets on one OpenAL source. The calls of OpenAL are those of the theories of that library; the few
  that only this class makes are modelled here, for the sample formats and the attributes that it uses. Opening and closing the device are not modelled, nor is the
  extension that takes sample data from a server. \<open>junk\<close> is what an uninitialised variable holds; it is read when a call of OpenAL fails. A locked section is one step;
  \<open>Blocked\<close> means that the lock is never released.
\<close>

section \<open>Calls of OpenAL\<close>

datatype kAudioType = MONO8 | MONO16 | STEREO8 | STEREO16

primrec user_format :: "kAudioType \<Rightarrow> UserFmtChannels \<times> UserFmtType" where
  "user_format MONO8 = (UserFmtMono, UserFmtUByte)"
| "user_format MONO16 = (UserFmtMono, UserFmtShort)"
| "user_format STEREO8 = (UserFmtStereo, UserFmtUByte)"
| "user_format STEREO16 = (UserFmtStereo, UserFmtShort)"

primrec stored_format :: "kAudioType \<Rightarrow> FmtChannels \<times> FmtType" where
  "stored_format MONO8 = (FmtMono, FmtUByte)"
| "stored_format MONO16 = (FmtMono, FmtShort)"
| "stored_format STEREO8 = (FmtStereo, FmtUByte)"
| "stored_format STEREO16 = (FmtStereo, FmtShort)"

definition frame_align :: "kAudioType \<Rightarrow> int" where
  "frame_align t = uint (BytesFromUserFmt (snd (user_format t)) * ChannelsFromUserFmt (fst (user_format t)))"

text \<open>
  In these four formats the samples are stored as they come. \<open>ok\<close> tells whether \<open>realloc\<close> gives the memory.
\<close>

definition LoadData :: "bool \<Rightarrow> int \<Rightarrow> kAudioType \<Rightarrow> int \<Rightarrow> byte list \<Rightarrow> albuffer \<Rightarrow> (ALenum \<times> albuffer) outcome" where
  "LoadData ok freq t sz data b =
     (if c_mod sz (frame_align t) \<noteq> 0 then Ret (AL_INVALID_VALUE, b)
      else if sz \<noteq> 0 \<and> \<not> ok then Ret (AL_OUT_OF_MEMORY, b)
      else if int (length data) < sz then UB OobRead
      else Ret (AL_NO_ERROR, b\<lparr>buf_data := Some (take (nat sz) data), buf_size := sz,
        buf_OriginalChannels := fst (user_format t), buf_OriginalType := snd (user_format t), buf_OriginalSize := sz, buf_OriginalAlign := frame_align t,
        buf_Frequency := freq, buf_FmtChannels := fst (stored_format t), buf_FmtType := snd (stored_format t),
        buf_LoopStart := 0, buf_LoopEnd := c_div sz (frame_align t)\<rparr>))"

definition alBufferData :: "bool \<Rightarrow> ALuint \<Rightarrow> kAudioType \<Rightarrow> byte list \<Rightarrow> int \<Rightarrow> int \<Rightarrow> al_state \<Rightarrow> al_state outcome" where
  "alBufferData ok buffer t data sz freq s =
     (if \<not> al_current s then Ret s
      else (case LookupBuffer s buffer of
        None \<Rightarrow> Ret (alSetError AL_INVALID_NAME s)
      | Some b \<Rightarrow>
          if buf_refcount b \<noteq> 0 then Ret (alSetError AL_INVALID_VALUE s)
          else if sz < 0 \<or> freq < 0 then Ret (alSetError AL_INVALID_VALUE s)
          else bnd (LoadData ok freq t sz data b) (\<lambda>(err, b).
            let s = s\<lparr>BufferMap := um_upd (BufferMap s) buffer (\<lambda>_. b)\<rparr> in
            Ret (if err \<noteq> AL_NO_ERROR then alSetError err s else s))))"

text \<open>The attributes that are asked for, and what is asked for of an unknown source.\<close>

datatype source_query = SOURCE_STATE | BUFFERS_QUEUED | BUFFERS_PROCESSED

definition source_value :: "source_query \<Rightarrow> alsource \<Rightarrow> int" where
  "source_value q c =
     (case q of
        SOURCE_STATE \<Rightarrow> src_state c
      | BUFFERS_QUEUED \<Rightarrow> sint (src_BuffersInQueue c)
      | BUFFERS_PROCESSED \<Rightarrow> if src_bLooping c \<or> src_lSourceType c \<noteq> AL_STREAMING then 0 else sint (src_BuffersPlayed c))"

definition alGetSourcei :: "ALuint \<Rightarrow> source_query \<Rightarrow> int \<Rightarrow> al_state \<Rightarrow> int \<times> al_state" where
  "alGetSourcei source q old s =
     (if \<not> al_current s then (old, s)
      else (case LookupSource s source of None \<Rightarrow> (old, alSetError AL_INVALID_NAME s) | Some c \<Rightarrow> (source_value q c, s)))"

definition alSourcei_LOOPING :: "ALuint \<Rightarrow> int \<Rightarrow> al_state \<Rightarrow> al_state" where
  "alSourcei_LOOPING source v s =
     (if \<not> al_current s then s
      else (case LookupSource s source of
        None \<Rightarrow> alSetError AL_INVALID_NAME s
      | Some c \<Rightarrow> if v = AL_FALSE \<or> v = AL_TRUE then upd_source s source (\<lambda>c. c\<lparr>src_bLooping := (v = AL_TRUE)\<rparr>) else alSetError AL_INVALID_VALUE s))"

text \<open>The gain is set to 1. The type of a source cannot be set.\<close>

definition alSourcef_GAIN_1 :: "ALuint \<Rightarrow> al_state \<Rightarrow> al_state" where
  "alSourcef_GAIN_1 source s =
     (if \<not> al_current s then s
      else (case LookupSource s source of
        None \<Rightarrow> alSetError AL_INVALID_NAME s
      | Some c \<Rightarrow> upd_source s source (\<lambda>c. c\<lparr>src_flGain := f_of_int b32 1, src_NeedsUpdate := True\<rparr>)))"

definition alSourcef_SOURCE_TYPE :: "ALuint \<Rightarrow> al_state \<Rightarrow> al_state" where
  "alSourcef_SOURCE_TYPE source s =
     (if \<not> al_current s then s
      else (case LookupSource s source of None \<Rightarrow> alSetError AL_INVALID_NAME s | Some c \<Rightarrow> alSetError AL_INVALID_ENUM s))"

section \<open>The class\<close>

text \<open>\<open>infos\<close> are the reports to the application, which may have asked for them.\<close>

record ja_openal =
  m_sourceID :: ALuint
  mAudioType :: kAudioType
  mQueued :: int
  mProcessed :: int
  OnOpenALinfoCallback :: bool
  infos :: "(int \<times> int) list"
  locked :: bool
  al :: al_state

definition inform :: "int \<Rightarrow> int \<Rightarrow> ja_openal \<Rightarrow> ja_openal" where
  "inform queued processed j = (if OnOpenALinfoCallback j then j\<lparr>infos := infos j @ [(queued, processed)]\<rparr> else j)"

text \<open>The name is not written when no source can be had.\<close>

definition rebuildQueue :: "(nat \<Rightarrow> bool) \<Rightarrow> ALuint list \<Rightarrow> ja_openal \<Rightarrow> ja_openal outcome" where
  "rebuildQueue R cs j =
     bnd (alGenSources R cs 1 False (al j)) (\<lambda>(names, s).
     let k = (case names of [] \<Rightarrow> m_sourceID j | p # _ \<Rightarrow> p);
         s = alSourcef_GAIN_1 k (alSourcef_SOURCE_TYPE k (alSourcei_LOOPING k AL_FALSE s)) in
     Ret (inform 0 0 (j\<lparr>m_sourceID := k, al := s\<rparr>)))"

definition playSound :: "(nat \<Rightarrow> bool) \<Rightarrow> ALuint list \<Rightarrow> int \<Rightarrow> ja_openal \<Rightarrow> ja_openal outcome" where
  "playSound R cs junk j =
     bnd (if m_sourceID j = 0 then rebuildQueue R cs j else Ret j) (\<lambda>j.
     let (state, s) = alGetSourcei (m_sourceID j) SOURCE_STATE junk (al j) in
     if state \<noteq> AL_PLAYING then bnd (alSourcePlay R (m_sourceID j) s) (\<lambda>s. Ret (j\<lparr>al := s\<rparr>))
     else Ret (j\<lparr>al := s\<rparr>))"

text \<open>Packets that were played are taken out of the queue and deleted, \<open>n\<close> of them. \<open>b\<close> is the variable for the name.\<close>

fun drain_queue :: "nat \<Rightarrow> ALuint \<Rightarrow> ja_openal \<Rightarrow> ja_openal outcome" where
  "drain_queue 0 b j = Ret j"
| "drain_queue (Suc n) b j =
     bnd (alSourceUnqueueBuffers (m_sourceID j) 1 (al j)) (\<lambda>(names, s).
     let b = (case names of [] \<Rightarrow> b | p # _ \<Rightarrow> p) in
     drain_queue n b (j\<lparr>al := alDeleteBuffers 1 [b] s\<rparr>))"

definition updataQueueBuffer :: "(nat \<Rightarrow> bool) \<Rightarrow> ALuint list \<Rightarrow> int \<Rightarrow> ja_openal \<Rightarrow> (bool \<times> ja_openal) outcome" where
  "updataQueueBuffer R cs junk j =
     (let (state, s) = alGetSourcei (m_sourceID j) SOURCE_STATE junk (al j); j = j\<lparr>al := s\<rparr> in
      if state \<noteq> AL_PLAYING then bnd (playSound R cs junk j) (\<lambda>j. Ret (False, j))
      else
        let (processed, s) = alGetSourcei (m_sourceID j) BUFFERS_PROCESSED junk (al j);
            (queued, s) = alGetSourcei (m_sourceID j) BUFFERS_QUEUED junk s;
            j = inform queued processed (j\<lparr>al := s, mQueued := queued, mProcessed := processed\<rparr>) in
        if processed < 0 then UB SignedOverflow
        else bnd (drain_queue (nat processed) (word_of_int junk) j) (\<lambda>j. Ret (True, j)))"

text \<open>Each call of OpenAL is followed by a test for errors, which clears the error.\<close>

definition checked :: "(ja_openal \<Rightarrow> ja_openal outcome) \<Rightarrow> ja_openal \<Rightarrow> ja_openal outcome" where
  "checked f j = (let (e, s) = alGetError (al j); j = j\<lparr>al := s\<rparr> in if e \<noteq> AL_NO_ERROR then Ret (j\<lparr>locked := False\<rparr>) else f j)"

text \<open>The end of \<open>openAudio\<close>: a new buffer with the packet is put at the end of the queue.\<close>

definition queue_packet :: "(nat \<Rightarrow> bool) \<Rightarrow> ALuint list \<Rightarrow> bool \<Rightarrow> byte list \<Rightarrow> u32 \<Rightarrow> int \<Rightarrow> ja_openal \<Rightarrow> ja_openal outcome" where
  "queue_packet R cs ok pBuffer pLength sample_rate j =
     (let (names, s) = alGenBuffers R cs 1 False (al j); bufferID = (case names of [] \<Rightarrow> 0 | p # _ \<Rightarrow> p) in
      checked (\<lambda>j.
        let sample_rate = (if sample_rate = 0 then 44100 else sample_rate) in
        bnd (alBufferData ok bufferID (mAudioType j) pBuffer (sint pLength) sample_rate (al j)) (\<lambda>s.
        checked (\<lambda>j.
          bnd (alSourceQueueBuffers (m_sourceID j) 1 [bufferID] (al j)) (\<lambda>s.
          checked (\<lambda>j.
            let (e, s) = alGetError (al j); j = j\<lparr>al := s\<rparr> in
            Ret (if e \<noteq> AL_NO_ERROR then j\<lparr>al := alDeleteBuffers 1 [bufferID] (al j), locked := False\<rparr> else j\<lparr>locked := False\<rparr>))
          (j\<lparr>al := s\<rparr>))) (j\<lparr>al := s\<rparr>))) (j\<lparr>al := s\<rparr>))"

definition openAudio :: "(nat \<Rightarrow> bool) \<Rightarrow> ALuint list \<Rightarrow> bool \<Rightarrow> int \<Rightarrow> byte list option \<Rightarrow> u32 \<Rightarrow> int \<Rightarrow> ja_openal \<Rightarrow> ja_openal outcome" where
  "openAudio R cs ok junk pBuffer pLength sample_rate j =
     (if m_sourceID j = 0 then Ret j
      else if locked j then Blocked
      else
        checked (\<lambda>j. case pBuffer of
            None \<Rightarrow> Ret j
          | Some data \<Rightarrow>
              bnd (updataQueueBuffer R cs junk j) (\<lambda>(_, j).
              checked (queue_packet R cs ok data pLength sample_rate) j))
          (j\<lparr>locked := True\<rparr>))"

definition clearQueue :: "int \<Rightarrow> ja_openal \<Rightarrow> ja_openal outcome" where
  "clearQueue junk j =
     (if locked j then Blocked
      else
        let (queued, s) = alGetSourcei (m_sourceID j) BUFFERS_QUEUED 0 (al j) in
        bnd (drain_queue (nat queued) (word_of_int junk) (j\<lparr>al := s\<rparr>)) (\<lambda>j.
        bnd (alDeleteSources 1 [m_sourceID j] (al j)) (\<lambda>s. Ret (j\<lparr>al := s, m_sourceID := 0\<rparr>))))"

definition stopSound :: "int \<Rightarrow> ja_openal \<Rightarrow> ja_openal outcome" where
  "stopSound junk j =
     (let (state, s) = alGetSourcei (m_sourceID j) SOURCE_STATE junk (al j);
          s = (if state \<noteq> AL_STOPPED then alSourceStop (m_sourceID j) s else s) in
      clearQueue junk (j\<lparr>al := s\<rparr>))"

section \<open>The queue of packets\<close>

text \<open>
  One source, whose queue holds every buffer there is, each once: nothing is leaked. No effect is attached to the source.
\<close>

definition queue_ok :: "al_state \<Rightarrow> ALuint \<Rightarrow> alsource \<Rightarrow> bool" where
  "queue_ok s k c \<longleftrightarrow> al_current s \<and> LastError s = AL_NO_ERROR \<and> buffers_inv s \<and> um_inv (SourceMap s) \<and>
     LookupSource s k = Some c \<and> src_source c = k \<and> (\<forall>p\<in>set (src_Send c). fst p = 0) \<and>
     \<not> src_bLooping c \<and> (src_queue c \<noteq> [] \<longrightarrow> src_lSourceType c = AL_STREAMING) \<and> src_lSourceType c \<noteq> AL_STATIC \<and>
     distinct (src_queue c) \<and> dom (LookupBuffer s) = set (src_queue c) \<and> (\<forall>b\<in>ran (LookupBuffer s). buf_refcount b = 1) \<and>
     src_BuffersInQueue c = of_nat (length (src_queue c)) \<and> length (src_queue c) < 2 ^ 31 \<and> unat (src_BuffersPlayed c) \<le> length (src_queue c)"

text \<open>What the application gave: the samples, their rate and their format.\<close>

definition packet :: "albuffer \<Rightarrow> byte list \<times> int \<times> UserFmtChannels \<times> UserFmtType" where
  "packet b = (case buf_data b of None \<Rightarrow> [] | Some d \<Rightarrow> d, buf_Frequency b, buf_OriginalChannels b, buf_OriginalType b)"

definition packets :: "al_state \<Rightarrow> alsource \<Rightarrow> (byte list \<times> int \<times> UserFmtChannels \<times> UserFmtType) list" where
  "packets s c = map (\<lambda>p. packet (the (LookupBuffer s p))) (src_queue c)"

lemma packets_cong: "(\<And>p. p \<in> set (src_queue c) \<Longrightarrow> packet (the (LookupBuffer t p)) = packet (the (LookupBuffer s p))) \<Longrightarrow> packets t c = packets s c"
  by (simp add: packets_def)

lemma queue_okD:
  assumes "queue_ok s k c"
  shows "al_current s" "LastError s = AL_NO_ERROR" "buffers_inv s" "um_inv (BufferMap s)" "um_inv (SourceMap s)" "LookupSource s k = Some c" "0 \<notin> set (src_queue c)"
    "p \<in> set (src_queue c) \<Longrightarrow> \<exists>b. LookupBuffer s p = Some b \<and> buf_refcount b = 1 \<and> buf_buffer b = p"
proof -
  show "p \<in> set (src_queue c) \<Longrightarrow> \<exists>b. LookupBuffer s p = Some b \<and> buf_refcount b = 1 \<and> buf_buffer b = p"
    using assms by (auto simp: queue_ok_def buffers_inv_def ran_def dest!: equalityD2 [THEN subsetD])
  show "0 \<notin> set (src_queue c)" using assms by (auto simp: queue_ok_def buffers_inv_def dest!: equalityD2 [THEN subsetD])
qed (use assms in \<open>auto simp: queue_ok_def buffers_inv_def\<close>)

text \<open>One packet that was played is taken out and deleted.\<close>

definition popped :: "alsource \<Rightarrow> alsource" where
  "popped c = c\<lparr>src_queue := drop 1 (src_queue c), src_BuffersInQueue := src_BuffersInQueue c - 1,
     src_Buffer := (if src_state c \<noteq> AL_PLAYING then (case drop 1 (src_queue c) of [] \<Rightarrow> 0 | p # _ \<Rightarrow> p) else src_Buffer c),
     src_BuffersPlayed := src_BuffersPlayed c - 1\<rparr>"

lemma unqueue_one:
  assumes ok: "queue_ok s k c" and q: "src_queue c = p # q" and n: "src_BuffersPlayed c \<noteq> 0"
  shows "\<exists>s1. alSourceUnqueueBuffers k 1 s = Ret ([p], s1) \<and> queue_ok (alDeleteBuffers 1 [p] s1) k (popped c) \<and>
      LookupUIntMapKey (BufferMap (alDeleteBuffers 1 [p] s1)) = (LookupBuffer s)(p := None) \<and>
      um_maxsize (BufferMap (alDeleteBuffers 1 [p] s1)) = um_maxsize (BufferMap s)"
proof -
  note D = queue_okD [OF ok]
  obtain b where b: "LookupBuffer s p = Some b" "buf_refcount b = 1" "buf_buffer b = p" using D(8) [of p] q by auto
  define m where "m = um_upd (BufferMap s) p (\<lambda>b. b\<lparr>buf_refcount := buf_refcount b - 1\<rparr>)"
  define s1 where "s1 = upd_source (s\<lparr>BufferMap := m\<rparr>) k popped"
  have one: "(word_of_int 1 :: u32) \<le> src_BuffersPlayed c" using n by (simp add: word_le_nat_alt unat_gt_0 Suc_le_eq)
  have p0: "p \<noteq> 0" using D(7) q by auto
  have u: "alSourceUnqueueBuffers k 1 s = Ret ([p], s1)"
    using ok one n b q p0 unfolding alSourceUnqueueBuffers_def
    by (simp add: D(1,6) queue_ok_def dec_buffer_def s1_def m_def popped_def [abs_def] not_less cong: if_cong)
  have look: "LookupUIntMapKey m x = (if x = p then Some (b\<lparr>buf_refcount := 0\<rparr>) else LookupBuffer s x)" for x
    using b D(4) by (simp add: m_def)
  have um: "um_inv m" using D(4) by (simp add: m_def)
  have d: "alDeleteBuffers 1 [p] s1 = s1\<lparr>BufferMap := RemoveUIntMapKey m p\<rparr>"
    using look b(3) p0 by (simp add: alDeleteBuffers_def s1_def D(1))
  define s2 where "s2 = s1\<lparr>BufferMap := RemoveUIntMapKey m p\<rparr>"
  have l2: "LookupUIntMapKey (BufferMap s2) = (LookupBuffer s)(p := None)" "um_inv (BufferMap s2)"
    using um.look_del [OF um, of p] um.ok_del [OF um, of p] look by (auto simp: s2_def)
  have sz: "um_maxsize (BufferMap s2) = um_maxsize (BufferMap s)" by (simp add: s2_def RemoveUIntMapKey_def m_def um_upd_def Let_def)
  have c2: "LookupSource s2 k = Some (popped c)" "um_inv (SourceMap s2)" using D(5,6) by (simp_all add: s2_def s1_def)
  have b2: "buffers_inv s2" using D(3) l2 by (auto simp: buffers_inv_def split: if_splits)
  have len: "src_BuffersInQueue c - 1 = of_nat (length q)" "length q < 2 ^ 31" using ok q by (simp_all add: queue_ok_def)
  have pl: "unat (src_BuffersPlayed c - 1) \<le> length q" using ok q n by (simp add: queue_ok_def unat_minus_one le_diff_conv)
  have "queue_ok s2 k (popped c)"
    using ok q l2 sz c2 b2 len pl unfolding queue_ok_def
    by (auto simp: popped_def s2_def s1_def ran_def dom_def split: if_splits)
  then show ?thesis using u d l2(1) sz by (simp add: s2_def)
qed

lemma drain_queue_ok:
  assumes "queue_ok (al j) (m_sourceID j) c" "n \<le> unat (src_BuffersPlayed c)"
  shows "\<exists>s' c'. drain_queue n b j = Ret (j\<lparr>al := s'\<rparr>) \<and> queue_ok s' (m_sourceID j) c' \<and> src_queue c' = drop n (src_queue c) \<and>
      unat (src_BuffersPlayed c') = unat (src_BuffersPlayed c) - n \<and> src_state c' = src_state c \<and>
      LookupUIntMapKey (BufferMap s') = (LookupBuffer (al j)) |` (- set (take n (src_queue c))) \<and> um_maxsize (BufferMap s') = um_maxsize (BufferMap (al j))"
  using assms
proof (induction n arbitrary: b j c)
  case 0
  then show ?case by (intro exI [of _ "al j"] exI [of _ c]) simp
next
  case (Suc n)
  have nz: "src_BuffersPlayed c \<noteq> 0" using Suc.prems(2) by auto
  have "src_queue c \<noteq> []" using Suc.prems by (auto simp: queue_ok_def)
  then obtain p q where q: "src_queue c = p # q" by (cases "src_queue c") auto
  from unqueue_one [OF Suc.prems(1) q nz] obtain s1 where s1: "alSourceUnqueueBuffers (m_sourceID j) 1 (al j) = Ret ([p], s1)"
      "queue_ok (alDeleteBuffers 1 [p] s1) (m_sourceID j) (popped c)" "LookupUIntMapKey (BufferMap (alDeleteBuffers 1 [p] s1)) = (LookupBuffer (al j))(p := None)"
      "um_maxsize (BufferMap (alDeleteBuffers 1 [p] s1)) = um_maxsize (BufferMap (al j))" by blast
  define j1 where "j1 = j\<lparr>al := alDeleteBuffers 1 [p] s1\<rparr>"
  have played: "unat (src_BuffersPlayed (popped c)) = unat (src_BuffersPlayed c) - 1" using nz by (simp add: popped_def unat_minus_one)
  have "queue_ok (al j1) (m_sourceID j1) (popped c)" "n \<le> unat (src_BuffersPlayed (popped c))" using s1(2) Suc.prems(2) played by (simp_all add: j1_def)
  from Suc.IH [OF this, of p] obtain s' c' where s': "drain_queue n p j1 = Ret (j1\<lparr>al := s'\<rparr>)" "queue_ok s' (m_sourceID j) c'" "src_queue c' = drop n (src_queue (popped c))"
      "unat (src_BuffersPlayed c') = unat (src_BuffersPlayed (popped c)) - n" "src_state c' = src_state (popped c)"
      "LookupUIntMapKey (BufferMap s') = (LookupBuffer (al j1)) |` (- set (take n (src_queue (popped c))))" "um_maxsize (BufferMap s') = um_maxsize (BufferMap (al j1))"
    by (auto simp: j1_def)
  have "LookupUIntMapKey (BufferMap s') = (LookupBuffer (al j)) |` (- set (take (Suc n) (src_queue c)))"
    using s'(6) s1(3) q by (auto simp: j1_def popped_def restrict_map_def fun_eq_iff)
  then show ?case using s1(1,4) s' q played by (intro exI [of _ s'] exI [of _ c']) (simp add: j1_def popped_def)
qed

text \<open>A packet is put at the end.\<close>

lemma sint_small: "unat w < 2 ^ 31 \<Longrightarrow> sint (w :: u32) = int (unat w)"
proof -
  assume "unat w < 2 ^ 31"
  then have "int (unat w) < int (2 ^ 31)" unfolding of_nat_less_iff .
  then have "uint w < 2 ^ 31" by simp
  then have "signed_take_bit 31 (uint w) = uint w" by (intro signed_take_bit_int_eq_self) (use uint_ge_0 [of w] in linarith)+
  then show ?thesis by (simp add: sint_uint)
qed

lemma alGetError_none: "al_current s \<Longrightarrow> LastError s = AL_NO_ERROR \<Longrightarrow> alGetError s = (AL_NO_ERROR, s)"
  by (cases s) (simp add: alGetError_def)

lemma al_same: "j\<lparr>al := al j\<rparr> = j"
  by (cases j) simp

lemma checked_ok: "al_current (al j) \<Longrightarrow> LastError (al j) = AL_NO_ERROR \<Longrightarrow> checked f j = f j"
  by (simp add: checked_def alGetError_none al_same)

definition filled_buffer :: "kAudioType \<Rightarrow> int \<Rightarrow> byte list \<Rightarrow> ALuint \<Rightarrow> albuffer" where
  "filled_buffer t freq data a = (new_buffer a)\<lparr>buf_data := Some data, buf_size := int (length data),
     buf_OriginalChannels := fst (user_format t), buf_OriginalType := snd (user_format t), buf_OriginalSize := int (length data), buf_OriginalAlign := frame_align t,
     buf_Frequency := freq, buf_FmtChannels := fst (stored_format t), buf_FmtType := snd (stored_format t),
     buf_LoopStart := 0, buf_LoopEnd := int (length data) div frame_align t\<rparr>"

lemma frame_align_simps: "frame_align MONO8 = 1" "frame_align MONO16 = 2" "frame_align STEREO8 = 2" "frame_align STEREO16 = 4"
  by (simp_all add: frame_align_def)

lemma frame_align_pos: "0 < frame_align t"
  by (cases t) (simp_all add: frame_align_simps)

lemma filled_wf:
  assumes "frame_align t dvd int (length data)" "length data < 2 ^ 31"
  shows "buf_wf (filled_buffer t freq data a)" "buf_buffer (filled_buffer t freq data a) = a" "buf_refcount (filled_buffer t freq data a) = 0"
    "packet (filled_buffer t freq data a) = (data, freq, user_format t)"
proof -
  have "uint (FrameSizeFromFmt (fst (stored_format t)) (snd (stored_format t))) = frame_align t" "snd (stored_format t) \<noteq> FmtUnset"
    by (cases t; simp add: FrameSizeFromFmt_def frame_align_simps)+
  moreover have "0 \<le> int (length data) div frame_align t" using frame_align_pos [of t] by (simp add: pos_imp_zdiv_nonneg_iff)
  ultimately show "buf_wf (filled_buffer t freq data a)" using assms by (auto simp: buf_wf_def filled_buffer_def)
qed (simp_all add: filled_buffer_def new_buffer_def zero_buffer_def packet_def)

lemma make_buffer:
  assumes "al_current s" "LastError s = AL_NO_ERROR" "buffers_inv s" "\<forall>n. R n" "um_maxsize (BufferMap s) < 2 ^ 30" "a \<noteq> 0" "LookupBuffer s a = None"
  shows "\<exists>m. alGenBuffers R [a] 1 False s = ([a], s\<lparr>BufferMap := m\<rparr>) \<and> um_inv m \<and> LookupUIntMapKey m = (LookupBuffer s)(a \<mapsto> new_buffer a)"
proof -
  have um: "um_inv (BufferMap s)" using assms(3) by (simp add: buffers_inv_def)
  have "fst (InsertUIntMapEntry R (BufferMap s) a (new_buffer a)) \<noteq> AL_OUT_OF_MEMORY"
    using InsertUIntMapEntry_fails_iff [OF um, of R a "new_buffer a"] assms(4,5) by simp
  with um.ins_cases [OF um, of R a "new_buffer a"] obtain m where
    "InsertUIntMapEntry R (BufferMap s) a (new_buffer a) = (AL_NO_ERROR, m)" "um_inv m" "LookupUIntMapKey m = (LookupBuffer s)(a \<mapsto> new_buffer a)" by auto
  then show ?thesis using assms(1,6) by (intro exI [of _ m]) (simp add: alGenBuffers_def new_buffer_def)
qed

lemma fill_buffer:
  assumes "al_current s" "um_inv (BufferMap s)" "LookupBuffer s a = Some (new_buffer a)" "0 \<le> freq" "frame_align t dvd int n" "n \<le> length data"
  shows "alBufferData True a t data (int n) freq s = Ret (s\<lparr>BufferMap := um_upd (BufferMap s) a (\<lambda>_. filled_buffer t freq (take n data) a)\<rparr>)"
proof -
  have "c_mod (int n) (frame_align t) = 0" using assms(5) frame_align_pos [of t] by (simp add: c_mod_def c_div_def dvd_eq_mod_eq_0)
  then have "LoadData True freq t (int n) data (new_buffer a) = Ret (AL_NO_ERROR, filled_buffer t freq (take n data) a)"
    using assms(6) frame_align_pos [of t] by (simp add: LoadData_def filled_buffer_def new_buffer_def zero_buffer_def c_div_nonneg)
  then show ?thesis using assms by (simp add: alBufferData_def new_buffer_def zero_buffer_def)
qed

definition appended :: "ALuint \<Rightarrow> alsource \<Rightarrow> alsource" where
  "appended a c = c\<lparr>src_lSourceType := AL_STREAMING, src_Buffer := (if src_queue c = [] then a else src_Buffer c), src_queue := src_queue c @ [a],
     src_BuffersInQueue := src_BuffersInQueue c + 1\<rparr>"

lemma append_buffer:
  assumes s: "al_current s" "um_inv (BufferMap s)" "um_inv (SourceMap s)" "LookupSource s k = Some c" "src_lSourceType c \<noteq> AL_STATIC"
    and a: "a \<noteq> 0" "LookupBuffer s a = Some b" and q: "0 \<notin> set (src_queue c)"
    and fmt: "\<And>p. p \<in> set (src_queue c) \<Longrightarrow> \<exists>f. LookupBuffer s p = Some f \<and> snd (packet f) = snd (packet b)"
  shows "\<exists>c' s'. alSourceQueueBuffers k 1 [a] s = Ret s' \<and> (c' = appended a c \<or> (\<exists>u. c' = appended a (set_update u c))) \<and>
      s' = s\<lparr>BufferMap := BufferMap s', SourceMap := SourceMap s'\<rparr> \<and> um_inv (BufferMap s') \<and> um_inv (SourceMap s') \<and> LookupSource s' k = Some c' \<and>
      LookupUIntMapKey (BufferMap s') = (LookupBuffer s)(a \<mapsto> b\<lparr>buf_refcount := buf_refcount b + 1\<rparr>)"
proof -
  have inc: "each inc_buffer [a] t = Ret (t\<lparr>BufferMap := um_upd (BufferMap t) a (\<lambda>b. b\<lparr>buf_refcount := buf_refcount b + 1\<rparr>)\<rparr>)" if "BufferMap t = BufferMap s" for t
    using a that by (simp add: inc_buffer_def)
  define fin where "fin t = upd_source (t\<lparr>BufferMap := um_upd (BufferMap t) a (\<lambda>b. b\<lparr>buf_refcount := buf_refcount b + 1\<rparr>)\<rparr>) k (appended a)" for t
  have run: "alSourceQueueBuffers k 1 [a] s = Ret (fin t)" if "check_queue k (first_buffer (src_queue c)) [a] s = Ret (None, t)" "BufferMap t = BufferMap s" for t
    unfolding alSourceQueueBuffers_def Let_def using s(1,4,5) that(1) inc [OF that(2)]
    by (simp add: appended_def [abs_def] fin_def del: each.simps check_queue.simps cong: if_cong)
  show ?thesis
  proof (cases "src_queue c")
    case Nil
    define t where "t = upd_source s k (set_update (update_for b))"
    have "check_queue k (first_buffer (src_queue c)) [a] s = Ret (None, t)" using Nil a by (simp add: t_def set_update_def [abs_def])
    then show ?thesis using run [of t] s a
      by (intro exI [of _ "appended a (set_update (update_for b) c)"] exI [of _ "fin t"]) (auto simp: t_def fin_def fun_eq_iff)
  next
    case (Cons p ps)
    then obtain f where "p \<noteq> 0" "LookupBuffer s p = Some f" "snd (packet f) = snd (packet b)" using fmt [of p] q by auto
    then have "check_queue k (first_buffer (src_queue c)) [a] s = Ret (None, s)" using Cons a by (simp add: packet_def)
    then show ?thesis using run [of s] s a
      by (intro exI [of _ "appended a c"] exI [of _ "fin s"]) (auto simp: fin_def fun_eq_iff)
  qed
qed

lemma queue_packet_ok:
  fixes j pLength rate data
  defines "new \<equiv> (take (unat pLength) data, if rate = 0 then 44100 else rate, user_format (mAudioType j))"
  assumes ok: "queue_ok (al j) (m_sourceID j) c" and R: "\<forall>n. R n" "um_maxsize (BufferMap (al j)) < 2 ^ 30" and a: "a \<noteq> 0" "a \<notin> set (src_queue c)"
    and len: "unat pLength < 2 ^ 31" "unat pLength \<le> length data" "frame_align (mAudioType j) dvd int (unat pLength)" "0 \<le> rate"
    and room: "length (src_queue c) < 2 ^ 31 - 1" and fmt: "\<forall>p\<in>set (packets (al j) c). snd p = snd new"
  shows "\<exists>s' c'. queue_packet R [a] True data pLength rate j = Ret (j\<lparr>al := s', locked := False\<rparr>) \<and> queue_ok s' (m_sourceID j) c' \<and>
      packets s' c' = packets (al j) c @ [new] \<and> src_queue c' = src_queue c @ [a] \<and> src_state c' = src_state c \<and> src_BuffersPlayed c' = src_BuffersPlayed c \<and>
      src_position c' = src_position c \<and> src_Buffer c' = (if src_queue c = [] then a else src_Buffer c)"
proof -
  define s k t freq where "s = al j" and "k = m_sourceID j" and "t = mAudioType j" and "freq = (if rate = 0 then 44100 else rate)"
  define b where "b = filled_buffer t freq (take (unat pLength) data) a"
  have tk: "length (take (unat pLength) data) = unat pLength" using len(2) by simp
  note D = queue_okD [OF ok [folded s_def k_def]]
  have fr: "LookupBuffer s a = None" using ok a(2) by (auto simp: queue_ok_def s_def domIff)
  have b: "buf_wf b" "buf_buffer b = a" "buf_refcount b = 0" "packet b = new"
    using filled_wf [of t "take (unat pLength) data" freq a] len by (simp_all add: b_def tk t_def new_def freq_def)
  from make_buffer [OF D(1-3) R [folded s_def] a(1) fr] obtain m where
    m: "alGenBuffers R [a] 1 False s = ([a], s\<lparr>BufferMap := m\<rparr>)" "um_inv m" "LookupUIntMapKey m = (LookupBuffer s)(a \<mapsto> new_buffer a)" by blast
  define s2 where "s2 = s\<lparr>BufferMap := um_upd m a (\<lambda>_. b)\<rparr>"
  have data: "alBufferData True a t data (sint pLength) freq (s\<lparr>BufferMap := m\<rparr>) = Ret s2"
  proof -
    have "sint pLength = int (unat pLength)" using len(1) by (rule sint_small)
    then show ?thesis using fill_buffer [of "s\<lparr>BufferMap := m\<rparr>" a freq t "unat pLength" data] m(2,3) D(1) len
      by (simp add: s2_def b_def t_def freq_def)
  qed
  have l2: "LookupUIntMapKey (BufferMap s2) = (LookupBuffer s)(a \<mapsto> b)" "um_inv (BufferMap s2)" using m(2,3) by (auto simp: s2_def)
  have f2: "\<exists>f. LookupBuffer s2 p = Some f \<and> snd (packet f) = snd (packet b)" if "p \<in> set (src_queue c)" for p
    using D(8) [OF that] fmt that a(2) by (auto simp: l2 b(4) packets_def s_def)
  have "src_lSourceType c \<noteq> AL_STATIC" using ok by (simp add: queue_ok_def)
  from append_buffer [of s2 k c a b, OF _ l2(2) _ _ this a(1) _ D(7) f2] D(1,5,6) l2 obtain c' s' where
    s': "alSourceQueueBuffers k 1 [a] s2 = Ret s'" "c' = appended a c \<or> (\<exists>u. c' = appended a (set_update u c))" "s' = s2\<lparr>BufferMap := BufferMap s', SourceMap := SourceMap s'\<rparr>"
      "um_inv (BufferMap s')" "um_inv (SourceMap s')" "LookupSource s' k = Some c'" "LookupUIntMapKey (BufferMap s') = (LookupBuffer s)(a \<mapsto> b\<lparr>buf_refcount := 1\<rparr>)"
    by (auto simp: s2_def b(3))
  have c': "src_queue c' = src_queue c @ [a]" "src_state c' = src_state c" "src_BuffersPlayed c' = src_BuffersPlayed c" "src_position c' = src_position c"
      "src_Buffer c' = (if src_queue c = [] then a else src_Buffer c)" "src_BuffersInQueue c' = src_BuffersInQueue c + 1" "src_source c' = src_source c"
      "src_Send c' = src_Send c" "src_bLooping c' = src_bLooping c" "src_lSourceType c' = AL_STREAMING"
    using s'(2) by (auto simp: appended_def set_update_def)
  have g: "al_current s' = al_current s" "LastError s' = LastError s" using arg_cong [OF s'(3), of al_current] arg_cong [OF s'(3), of LastError] by (simp_all add: s2_def)
  have "buffers_inv s'" using D(3) s'(4,7) b a(1) by (auto simp: buffers_inv_def split: if_splits)
  then have ok': "queue_ok s' k c'"
    using ok [folded s_def k_def] s'(4-7) g a room fr unfolding queue_ok_def by (auto simp: c' ran_def source_types split: if_splits)
  have "packets s' c' = packets s c @ [new]"
    using a(2) b(4) by (auto simp: packets_def c' s'(7) packet_def)
  moreover have "queue_packet R [a] True data pLength rate j = Ret (j\<lparr>al := s', locked := False\<rparr>)"
    using m(1) data s'(1) g D(1,2) ok' unfolding queue_packet_def
    by (simp add: s_def [symmetric] k_def [symmetric] t_def [symmetric] freq_def [symmetric] checked_ok alGetError_none s2_def)
  ultimately show ?thesis using ok' c' by (intro exI [of _ s'] exI [of _ c']) (simp add: s_def k_def)
qed

section \<open>Playing on and starting again\<close>

lemma alGetSourcei_ok: "queue_ok s k c \<Longrightarrow> alGetSourcei k q old s = (source_value q c, s)"
  by (simp add: alGetSourcei_def queue_okD(1,6))

lemma source_value_ok:
  assumes "queue_ok s k c"
  shows "source_value BUFFERS_QUEUED c = int (length (src_queue c))" "source_value BUFFERS_PROCESSED c = int (unat (src_BuffersPlayed c))"
proof -
  have l: "length (src_queue c) < 2 ^ 31" "unat (src_BuffersPlayed c) \<le> length (src_queue c)" using assms by (simp_all add: queue_ok_def)
  then have "unat (of_nat (length (src_queue c)) :: u32) = length (src_queue c)" by (simp add: unat_of_nat)
  then show "source_value BUFFERS_QUEUED c = int (length (src_queue c))" using assms sint_small [of "src_BuffersInQueue c"] l by (simp add: source_value_def queue_ok_def)
  show "source_value BUFFERS_PROCESSED c = int (unat (src_BuffersPlayed c))"
    using assms sint_small [of "src_BuffersPlayed c"] l by (cases "src_queue c = []") (auto simp: source_value_def queue_ok_def)
qed

lemma updata_playing:
  assumes ok: "queue_ok (al j) (m_sourceID j) c" and st: "src_state c = AL_PLAYING"
  defines "n \<equiv> unat (src_BuffersPlayed c)"
  shows "\<exists>j' c'. updataQueueBuffer R cs junk j = Ret (True, j') \<and> queue_ok (al j') (m_sourceID j') c' \<and> m_sourceID j' = m_sourceID j \<and> mAudioType j' = mAudioType j \<and>
      mQueued j' = int (length (src_queue c)) \<and> mProcessed j' = int n \<and> src_state c' = AL_PLAYING \<and> src_BuffersPlayed c' = 0 \<and>
      packets (al j') c' = drop n (packets (al j) c) \<and> src_queue c' = drop n (src_queue c) \<and> um_maxsize (BufferMap (al j')) = um_maxsize (BufferMap (al j))"
proof -
  define j1 where "j1 = inform (int (length (src_queue c))) (int n) (j\<lparr>mQueued := int (length (src_queue c)), mProcessed := int n\<rparr>)"
  have j1: "al j1 = al j" "m_sourceID j1 = m_sourceID j" "mAudioType j1 = mAudioType j" "mQueued j1 = int (length (src_queue c))" "mProcessed j1 = int n"
    by (simp_all add: j1_def inform_def)
  have "source_value SOURCE_STATE c = AL_PLAYING" using st by (simp add: source_value_def)
  then have r: "updataQueueBuffer R cs junk j = bnd (drain_queue n (word_of_int junk) j1) (\<lambda>j. Ret (True, j))"
    using alGetSourcei_ok [OF ok] source_value_ok [OF ok] by (simp add: updataQueueBuffer_def al_same j1_def n_def)
  from drain_queue_ok [of j1 c n "word_of_int junk"] ok j1(1,2) obtain s' c' where s': "drain_queue n (word_of_int junk) j1 = Ret (j1\<lparr>al := s'\<rparr>)" "queue_ok s' (m_sourceID j) c'"
      "src_queue c' = drop n (src_queue c)" "unat (src_BuffersPlayed c') = 0" "src_state c' = src_state c"
      "LookupUIntMapKey (BufferMap s') = (LookupBuffer (al j)) |` (- set (take n (src_queue c)))" "um_maxsize (BufferMap s') = um_maxsize (BufferMap (al j))"
    by (auto simp: n_def)
  have "distinct (src_queue c)" using ok by (simp add: queue_ok_def)
  then have "set (take n (src_queue c)) \<inter> set (drop n (src_queue c)) = {}" by (intro set_take_disj_set_drop_if_distinct) simp_all
  then have "packets s' c' = drop n (packets (al j) c)" by (auto simp: packets_def s'(3,6) drop_map restrict_map_def)
  moreover have "src_BuffersPlayed c' = 0" using s'(4) by (simp add: unat_eq_0)
  ultimately show ?thesis using r s' j1 st by (intro exI [of _ "j1\<lparr>al := s'\<rparr>"] exI [of _ c']) simp
qed

text \<open>When a stopped source can be started.\<close>

definition can_start :: "al_state \<Rightarrow> alsource \<Rightarrow> bool" where
  "can_start s c \<longleftrightarrow> Connected s \<and> (int (length (ActiveSources s)) < alc_max_sources s - PrioritySlots s \<or> 127 \<le> src_priority c) \<and>
     length (ActiveSources s) < MaxActiveSources s \<and> src_lOffset c = 0 \<and> (\<exists>p\<in>set (src_queue c). \<exists>b. LookupBuffer s p = Some b \<and> buf_size b \<noteq> 0)"

lemma queue_playable_ok: "0 \<notin> set q \<Longrightarrow> \<forall>p\<in>set q. look p \<noteq> None \<Longrightarrow> \<exists>p\<in>set q. \<exists>b. look p = Some b \<and> buf_size b \<noteq> 0 \<Longrightarrow> queue_playable look q = Ret True"
proof (induction q)
  case (Cons p q)
  then obtain b where b: "look p = Some b" by auto
  then have "buf_size b = 0 \<Longrightarrow> queue_playable look q = Ret True" using Cons by auto
  then show ?case using Cons.prems(1) b by (simp add: deref_def)
qed simp

lemma start_ok:
  assumes ok: "queue_ok s k c" and st: "src_state c = AL_STOPPED" "can_start s c"
  shows "\<exists>s'. alSourcePlay R k s = Ret s' \<and> queue_ok s' k (start_source c) \<and> BufferMap s' = BufferMap s"
proof -
  note D = queue_okD [OF ok]
  have grow: "grow_active R (MaxActiveSources s) (length (ActiveSources s)) 1 = (True, MaxActiveSources s)"
    using st(2) by (subst grow_active.simps) (simp add: can_start_def)
  have "\<forall>p\<in>set (src_queue c). LookupBuffer s p \<noteq> None" using D(8) by fastforce
  then have pl: "queue_playable (LookupBuffer s) (src_queue c) = Ret True" using st(2) D(7) by (intro queue_playable_ok) (simp_all add: can_start_def)
  define s' where "s' = (upd_source s k (\<lambda>_. start_source c))\<lparr>ActiveSources := (if k \<in> set (ActiveSources s) then ActiveSources s else ActiveSources s @ [k])\<rparr>"
  have lo: "src_lOffset (start_source c) = 0" using st by (simp add: start_source_def can_start_def)
  have mx: "s\<lparr>MaxActiveSources := MaxActiveSources s\<rparr> = s" by (cases s) simp
  have nb: "\<not> (alc_max_sources s - PrioritySlots s \<le> int (length (ActiveSources s)) \<and> src_priority c < 127)" using st(2) by (auto simp: can_start_def)
  have "play_one k s = Ret s'" using D(6) pl lo nb st(2)
    by (cases "alc_max_sources s - PrioritySlots s \<le> int (length (ActiveSources s))") (simp_all add: play_one_def Let_def s'_def can_start_def)
  then have "alSourcePlay R k s = Ret (s'\<lparr>alc_active_sources := int (length (ActiveSources s'))\<rparr>)"
    using D(1,6) grow mx by (simp add: alSourcePlay_def alSourcePlayv_def)
  moreover have "queue_ok (s'\<lparr>alc_active_sources := x\<rparr>) k (start_source c)" for x
    using ok st(1) unfolding queue_ok_def by (simp add: s'_def start_source_def source_states buffers_inv_def)
  ultimately show ?thesis by (simp add: s'_def)
qed

lemma updata_stopped:
  assumes ok: "queue_ok (al j) (m_sourceID j) c" and nz: "m_sourceID j \<noteq> 0" and st: "src_state c = AL_STOPPED" "can_start (al j) c"
  shows "\<exists>s'. updataQueueBuffer R cs junk j = Ret (False, j\<lparr>al := s'\<rparr>) \<and> queue_ok s' (m_sourceID j) (start_source c) \<and> BufferMap s' = BufferMap (al j)"
proof -
  have "source_value SOURCE_STATE c \<noteq> AL_PLAYING" using st(1) by (simp add: source_value_def source_states)
  then show ?thesis using start_ok [OF ok st, of R] alGetSourcei_ok [OF ok] nz
    by (fastforce simp: updataQueueBuffer_def playSound_def al_same)
qed

section \<open>Stopping\<close>

lemma alSourceStop_ok:
  assumes ok: "queue_ok s k c" and st: "src_state c \<noteq> AL_INITIAL"
  shows "queue_ok (alSourceStop k s) k (halt_source c)" "BufferMap (alSourceStop k s) = BufferMap s"
    "src_queue (halt_source c) = src_queue c" "unat (src_BuffersPlayed (halt_source c)) = length (src_queue c)"
proof -
  note D = queue_okD [OF ok]
  have s: "alSourceStop k s = upd_source s k halt_source" using D(1,6) by (simp add: alSourceStop_def alSourceStopv_def for_sources_def)
  show "BufferMap (alSourceStop k s) = BufferMap s" by (simp add: s)
  show q: "src_queue (halt_source c) = src_queue c" by (simp add: halt_source_def)
  show n: "unat (src_BuffersPlayed (halt_source c)) = length (src_queue c)" using ok st by (simp add: halt_source_def queue_ok_def unat_of_nat)
  have f: "src_source (halt_source c) = src_source c" "src_Send (halt_source c) = src_Send c" "src_bLooping (halt_source c) = src_bLooping c"
      "src_lSourceType (halt_source c) = src_lSourceType c" "src_BuffersInQueue (halt_source c) = src_BuffersInQueue c" by (simp_all add: halt_source_def)
  show "queue_ok (alSourceStop k s) k (halt_source c)" using ok unfolding queue_ok_def s by (simp add: f q n buffers_inv_def)
qed

lemma each_dec_slot_0: "\<forall>p\<in>set xs. p = 0 \<Longrightarrow> each dec_slot xs s = Ret s"
  by (induction xs) (simp_all add: dec_slot_def)

lemma clearQueue_ok:
  assumes ok: "queue_ok (al j) (m_sourceID j) c" and l: "\<not> locked j" and n: "unat (src_BuffersPlayed c) = length (src_queue c)"
  shows "\<exists>s'. clearQueue junk j = Ret (j\<lparr>al := s', m_sourceID := 0\<rparr>) \<and> LookupUIntMapKey (BufferMap s') = Map.empty \<and>
      LookupUIntMapKey (SourceMap s') (m_sourceID j) = None \<and> LastError s' = AL_NO_ERROR"
proof -
  from drain_queue_ok [OF ok, of "length (src_queue c)" "word_of_int junk"] n obtain s1 c1 where
    s1: "drain_queue (length (src_queue c)) (word_of_int junk) j = Ret (j\<lparr>al := s1\<rparr>)" "queue_ok s1 (m_sourceID j) c1" "src_queue c1 = []" by auto
  note D = queue_okD [OF s1(2)]
  define s' where "s' = s1\<lparr>ActiveSources := remove_active (m_sourceID j) (ActiveSources s1), SourceMap := RemoveUIntMapKey (SourceMap s1) (m_sourceID j)\<rparr>"
  have "src_source c1 = m_sourceID j" "\<forall>p\<in>set (map fst (src_Send c1)). p = 0" using s1(2) by (auto simp: queue_ok_def)
  then have "alDeleteSources 1 [m_sourceID j] s1 = Ret s'"
    using D(1,6) s1(3) each_dec_slot_0 [of "map fst (src_Send c1)"] by (simp add: alDeleteSources_def s'_def)
  then have "clearQueue junk j = Ret (j\<lparr>al := s', m_sourceID := 0\<rparr>)"
    using l s1(1) alGetSourcei_ok [OF ok] source_value_ok [OF ok] by (simp add: clearQueue_def al_same)
  moreover have "LookupUIntMapKey (SourceMap s') (m_sourceID j) = None" using um.look_del [OF D(5)] by (simp add: s'_def)
  moreover have "LookupUIntMapKey (BufferMap s') = Map.empty" using s1(2,3) by (simp add: s'_def queue_ok_def)
  ultimately show ?thesis using D(2) by (intro exI [of _ s']) (simp add: s'_def)
qed

section \<open>Properties\<close>

text \<open>
  C6: while the source plays and memory is available, a packet of whole frames in the rate and format of those that are queued is taken as it should be: \<open>openAudio\<close> takes the
  packets that were played out of the queue, deletes their buffers and puts the new packet at the end; every buffer is in the queue, no error is left and the lock is free
  again. The counts that are kept for the application are those of before.
\<close>

theorem openAudio_playing:
  assumes "queue_ok (al j) (m_sourceID j) c" "m_sourceID j \<noteq> 0" "\<not> locked j" "src_state c = AL_PLAYING"
    and "\<forall>n. R n" "um_maxsize (BufferMap (al j)) < 2 ^ 30" "a \<noteq> 0" "a \<notin> set (src_queue c)"
    and "unat pLength < 2 ^ 31" "unat pLength \<le> length data" "frame_align (mAudioType j) dvd int (unat pLength)" "0 \<le> rate"
    and "length (src_queue c) < 2 ^ 31 - 1" "\<forall>p\<in>set (packets (al j) c). snd p = (if rate = 0 then 44100 else rate, user_format (mAudioType j))"
  shows "\<exists>j' c'. openAudio R [a] True junk (Some data) pLength rate j = Ret j' \<and> queue_ok (al j') (m_sourceID j') c' \<and>
      m_sourceID j' = m_sourceID j \<and> \<not> locked j' \<and> src_state c' = AL_PLAYING \<and> src_BuffersPlayed c' = 0 \<and>
      mQueued j' = int (length (src_queue c)) \<and> mProcessed j' = int (unat (src_BuffersPlayed c)) \<and>
      packets (al j') c' = drop (unat (src_BuffersPlayed c)) (packets (al j) c) @
        [(take (unat pLength) data, if rate = 0 then 44100 else rate, user_format (mAudioType j))]"
proof -
  define n j0 where "n = unat (src_BuffersPlayed c)" and "j0 = j\<lparr>locked := True\<rparr>"
  have ok0: "queue_ok (al j0) (m_sourceID j0) c" using assms(1) by (simp add: j0_def)
  from updata_playing [OF ok0 assms(4), of R "[a]" junk] obtain j1 c1 where j1: "updataQueueBuffer R [a] junk j0 = Ret (True, j1)"
      "queue_ok (al j1) (m_sourceID j1) c1" "m_sourceID j1 = m_sourceID j" "mAudioType j1 = mAudioType j" "mQueued j1 = int (length (src_queue c))" "mProcessed j1 = int n"
      "src_state c1 = AL_PLAYING" "src_BuffersPlayed c1 = 0" "packets (al j1) c1 = drop n (packets (al j) c)" "src_queue c1 = drop n (src_queue c)"
      "um_maxsize (BufferMap (al j1)) = um_maxsize (BufferMap (al j))" by (auto simp: n_def j0_def)
  have q: "a \<notin> set (src_queue c1)" "length (src_queue c1) < 2 ^ 31 - 1" using assms(8,13) by (auto simp: j1(10) dest: in_set_dropD)
  have f: "\<forall>p\<in>set (packets (al j1) c1). snd p = snd (take (unat pLength) data, if rate = 0 then 44100 else rate, user_format (mAudioType j1))"
    using assms(14) in_set_dropD [of _ n "packets (al j) c"] by (metis j1(4,9) snd_conv)
  from queue_packet_ok [OF j1(2) assms(5) _ assms(7) q(1) assms(9,10) _ assms(12) q(2) f] assms(6,11) obtain s' c' where
    s': "queue_packet R [a] True data pLength rate j1 = Ret (j1\<lparr>al := s', locked := False\<rparr>)" "queue_ok s' (m_sourceID j1) c'" "src_state c' = src_state c1"
      "src_BuffersPlayed c' = src_BuffersPlayed c1"
      "packets s' c' = packets (al j1) c1 @ [(take (unat pLength) data, if rate = 0 then 44100 else rate, user_format (mAudioType j1))]"
    by (auto simp: j1(4,11))
  have "openAudio R [a] True junk (Some data) pLength rate j = Ret (j1\<lparr>al := s', locked := False\<rparr>)"
    using assms(2,3) j1(1) s'(1) queue_okD(1,2) [OF ok0] queue_okD(1,2) [OF j1(2)] by (simp add: openAudio_def checked_ok j0_def)
  then show ?thesis using s' j1 by (intro exI [of _ "j1\<lparr>al := s', locked := False\<rparr>"] exI [of _ c']) (simp add: n_def)
qed

text \<open>
  C7: when all packets were played and the source has stopped, the next packet starts the source again without taking the played packets out: every packet
  that is still in the queue is played once more before the new one.
\<close>

theorem openAudio_replays:
  assumes "queue_ok (al j) (m_sourceID j) c" "m_sourceID j \<noteq> 0" "\<not> locked j" "src_state c = AL_STOPPED" "can_start (al j) c"
    and "\<forall>n. R n" "um_maxsize (BufferMap (al j)) < 2 ^ 30" "a \<noteq> 0" "a \<notin> set (src_queue c)"
    and "unat pLength < 2 ^ 31" "unat pLength \<le> length data" "frame_align (mAudioType j) dvd int (unat pLength)" "0 \<le> rate"
    and "length (src_queue c) < 2 ^ 31 - 1" "\<forall>p\<in>set (packets (al j) c). snd p = (if rate = 0 then 44100 else rate, user_format (mAudioType j))"
  shows "\<exists>j' c'. openAudio R [a] True junk (Some data) pLength rate j = Ret j' \<and> queue_ok (al j') (m_sourceID j') c' \<and> \<not> locked j' \<and>
      src_state c' = AL_PLAYING \<and> src_BuffersPlayed c' = 0 \<and> src_position c' = 0 \<and> src_Buffer c' = hd (src_queue c) \<and>
      packets (al j') c' = packets (al j) c @ [(take (unat pLength) data, if rate = 0 then 44100 else rate, user_format (mAudioType j))]"
proof -
  define j0 where "j0 = j\<lparr>locked := True\<rparr>"
  have ok0: "queue_ok (al j0) (m_sourceID j0) c" and cs: "can_start (al j0) c" "m_sourceID j0 \<noteq> 0" using assms(1,2,5) by (simp_all add: j0_def)
  from updata_stopped [OF ok0 cs(2) assms(4) cs(1), of R "[a]" junk] obtain s1 where
    s1: "updataQueueBuffer R [a] junk j0 = Ret (False, j0\<lparr>al := s1\<rparr>)" "queue_ok s1 (m_sourceID j) (start_source c)" "BufferMap s1 = BufferMap (al j)" by (auto simp: j0_def)
  define j1 where "j1 = j0\<lparr>al := s1\<rparr>"
  have j1: "queue_ok (al j1) (m_sourceID j1) (start_source c)" "mAudioType j1 = mAudioType j" "um_maxsize (BufferMap (al j1)) < 2 ^ 30"
    using s1(2,3) assms(7) by (simp_all add: j1_def j0_def)
  have c1: "src_queue (start_source c) = src_queue c" "src_state (start_source c) = AL_PLAYING" "src_BuffersPlayed (start_source c) = 0"
      "src_position (start_source c) = 0" "src_Buffer (start_source c) = hd (src_queue c)" using assms(4) by (simp_all add: start_source_def source_states)
  have p1: "packets (al j1) (start_source c) = packets (al j) c" using s1(3) by (simp add: packets_def c1(1) j1_def)
  have q: "a \<notin> set (src_queue (start_source c))" "length (src_queue (start_source c)) < 2 ^ 31 - 1" using assms(9,14) by (simp_all add: c1(1))
  have f: "\<forall>p\<in>set (packets (al j1) (start_source c)). snd p = snd (take (unat pLength) data, if rate = 0 then 44100 else rate, user_format (mAudioType j1))"
    using assms(15) by (simp add: p1 j1(2))
  have ne: "src_queue c \<noteq> []" using assms(5) by (auto simp: can_start_def)
  from queue_packet_ok [OF j1(1) assms(6) j1(3) assms(8) q(1) assms(10,11) _ assms(13) q(2) f] assms(12) obtain s' c' where
    s': "queue_packet R [a] True data pLength rate j1 = Ret (j1\<lparr>al := s', locked := False\<rparr>)" "queue_ok s' (m_sourceID j1) c'" "src_state c' = AL_PLAYING"
      "src_BuffersPlayed c' = 0" "src_position c' = 0" "src_Buffer c' = hd (src_queue c)"
      "packets s' c' = packets (al j) c @ [(take (unat pLength) data, if rate = 0 then 44100 else rate, user_format (mAudioType j))]"
    using ne by (auto simp: j1(2) c1 p1)
  have "openAudio R [a] True junk (Some data) pLength rate j = Ret (j1\<lparr>al := s', locked := False\<rparr>)"
    using assms(2,3) s1(1) s'(1) queue_okD(1,2) [OF ok0] queue_okD(1,2) [OF j1(1)] by (simp add: openAudio_def checked_ok j0_def [symmetric] j1_def [symmetric])
  then show ?thesis using s' by (intro exI [of _ "j1\<lparr>al := s', locked := False\<rparr>"] exI [of _ c']) simp
qed

text \<open>
  C20: stopping a source that plays or is paused deletes every packet, played or not, and the source; nothing is left behind and no error is set.
\<close>

theorem stopSound_releases:
  assumes "queue_ok (al j) (m_sourceID j) c" "\<not> locked j" "src_state c = AL_PLAYING \<or> src_state c = AL_PAUSED"
  shows "\<exists>j'. stopSound junk j = Ret j' \<and> m_sourceID j' = 0 \<and> \<not> locked j' \<and> LastError (al j') = AL_NO_ERROR \<and>
      LookupUIntMapKey (BufferMap (al j')) = Map.empty \<and> LookupUIntMapKey (SourceMap (al j')) (m_sourceID j) = None"
proof -
  have st: "src_state c \<noteq> AL_INITIAL" "src_state c \<noteq> AL_STOPPED" using assms(3) by (auto simp: source_states)
  define j1 where "j1 = j\<lparr>al := alSourceStop (m_sourceID j) (al j)\<rparr>"
  note ok = alSourceStop_ok [OF assms(1) st(1)]
  have r: "stopSound junk j = clearQueue junk j1" using alGetSourcei_ok [OF assms(1)] st(2) by (simp add: stopSound_def source_value_def j1_def)
  have "queue_ok (al j1) (m_sourceID j1) (halt_source c)" "\<not> locked j1" "unat (src_BuffersPlayed (halt_source c)) = length (src_queue (halt_source c))"
    using ok assms(2) by (simp_all add: j1_def)
  from clearQueue_ok [OF this, of junk] obtain s' where s': "clearQueue junk j1 = Ret (j1\<lparr>al := s', m_sourceID := 0\<rparr>)" "LookupUIntMapKey (BufferMap s') = Map.empty"
      "LookupUIntMapKey (SourceMap s') (m_sourceID j) = None" "LastError s' = AL_NO_ERROR" by (auto simp: j1_def)
  then show ?thesis using assms(2) by (intro exI [of _ "j1\<lparr>al := s', m_sourceID := 0\<rparr>"]) (simp add: r j1_def)
qed

text \<open>Without a packet the lock is kept: every later call that takes it waits for ever.\<close>

theorem openAudio_null_blocks:
  assumes "m_sourceID j \<noteq> 0" "\<not> locked j" "al_current (al j)" "LastError (al j) = AL_NO_ERROR"
  shows "\<exists>j'. openAudio R cs ok junk None pLength rate j = Ret j' \<and> openAudio R' cs' ok' junk' p n r j' = Blocked \<and> stopSound junk' j' = Blocked"
proof -
  have "openAudio R cs ok junk None pLength rate j = Ret (j\<lparr>locked := True\<rparr>)" using assms by (simp add: openAudio_def checked_ok)
  then show ?thesis using assms(1) by (auto simp: openAudio_def stopSound_def clearQueue_def split: prod.split)
qed

text \<open>A new source: the attempt to set its type leaves an error.\<close>

lemma make_source:
  assumes "al_current s" "um_inv (SourceMap s)" "\<forall>n. R n" "um_maxsize (SourceMap s) < 2 ^ 30" "a \<noteq> 0" "LookupSource s a = None"
    "of_nat (um_size (SourceMap s)) < MaxNoOfSources s"
  shows "\<exists>m. alGenSources R [a] 1 False s = Ret ([a], s\<lparr>SourceMap := m\<rparr>) \<and> um_inv m \<and>
      LookupUIntMapKey m a = Some (InitSourceParams (DefaultResampler s) (zero_source\<lparr>src_source := a\<rparr>))"
proof -
  have "fst (InsertUIntMapEntry R (SourceMap s) a (zero_source\<lparr>src_source := a\<rparr>)) \<noteq> AL_OUT_OF_MEMORY"
    using InsertUIntMapEntry_fails_iff [OF assms(2), of R a "zero_source\<lparr>src_source := a\<rparr>"] assms(3,4) by simp
  with um.ins_cases [OF assms(2), of R a "zero_source\<lparr>src_source := a\<rparr>"] obtain m where
    m: "InsertUIntMapEntry R (SourceMap s) a (zero_source\<lparr>src_source := a\<rparr>) = (AL_NO_ERROR, m)" "um_inv m"
      "LookupUIntMapKey m = (LookupSource s)(a \<mapsto> zero_source\<lparr>src_source := a\<rparr>)" by auto
  have "\<not> (word_of_int 1 :: u32) > MaxNoOfSources s - of_nat (um_size (SourceMap s))"
    using assms(7) by (simp add: not_less word_le_nat_alt word_less_nat_alt unat_sub_if')
  then have "alGenSources R [a] 1 False s = Ret ([a], s\<lparr>SourceMap := um_upd m a (InitSourceParams (DefaultResampler s))\<rparr>)"
    using assms(1,5) m(1) by (simp add: alGenSources_def)
  then show ?thesis using m(2,3) by (intro exI [of _ "um_upd m a (InitSourceParams (DefaultResampler s))"]) simp
qed

lemma play_empty:
  assumes "LookupSource s k = Some c" "src_queue c = []" "LastError s = e" "e \<noteq> AL_NO_ERROR"
  shows "\<exists>s'. alSourcePlay R k s = Ret s' \<and> LastError s' = e \<and> al_current s' = al_current s"
proof -
  obtain ok mx where g: "grow_active R (MaxActiveSources s) (length (ActiveSources s)) 1 = (ok, mx)" by force
  have "\<exists>t. play_one k (s\<lparr>MaxActiveSources := mx\<rparr>) = Ret t \<and> LastError t = e \<and> al_current t = al_current s" using assms(1-3) by (auto simp: play_one_def)
  then show ?thesis using assms g by (cases ok) (auto simp: alSourcePlay_def alSourcePlayv_def LastError_alSetError)
qed

text \<open>
  After a source was made for playing, the first packet is thrown away: the error that the attempt to set the type of the source leaves is found at the beginning of
  \<open>openAudio\<close>.
\<close>

theorem playSound_drops_packet:
  assumes "m_sourceID j = 0" "\<not> locked j" "al_current (al j)" "LastError (al j) = AL_NO_ERROR" "um_inv (SourceMap (al j))" "\<forall>n. R n"
    "um_maxsize (SourceMap (al j)) < 2 ^ 30" "a \<noteq> 0" "LookupSource (al j) a = None" "of_nat (um_size (SourceMap (al j))) < MaxNoOfSources (al j)"
  shows "\<exists>j'. playSound R [a] junk j = Ret j' \<and> m_sourceID j' = a \<and> LastError (al j') = AL_INVALID_ENUM \<and>
      openAudio R' cs ok junk p pLength rate j' = Ret (j'\<lparr>al := (al j')\<lparr>LastError := AL_NO_ERROR\<rparr>, locked := False\<rparr>)"
proof -
  from make_source [OF assms(3,5-10)] obtain m where m: "alGenSources R [a] 1 False (al j) = Ret ([a], (al j)\<lparr>SourceMap := m\<rparr>)" "um_inv m"
      "LookupUIntMapKey m a = Some (InitSourceParams (DefaultResampler (al j)) (zero_source\<lparr>src_source := a\<rparr>))" by blast
  define c where "c = InitSourceParams (DefaultResampler (al j)) (zero_source\<lparr>src_source := a\<rparr>)"
  define s1 where "s1 = alSourcef_GAIN_1 a (alSourcef_SOURCE_TYPE a (alSourcei_LOOPING a AL_FALSE ((al j)\<lparr>SourceMap := m\<rparr>)))"
  define j1 where "j1 = inform 0 0 (j\<lparr>m_sourceID := a, al := s1\<rparr>)"
  have rb: "rebuildQueue R [a] j = Ret j1" using m(1) by (simp add: rebuildQueue_def j1_def s1_def)
  have j1: "m_sourceID j1 = a" "al j1 = s1" "locked j1 = locked j" by (simp_all add: j1_def inform_def)
  have s1: "LookupSource s1 a = Some (c\<lparr>src_bLooping := False, src_flGain := f_of_int b32 1, src_NeedsUpdate := True\<rparr>)" "LastError s1 = AL_INVALID_ENUM" "al_current s1"
    using m(2,3) assms(3,4)
    by (simp_all add: s1_def alSourcef_GAIN_1_def alSourcef_SOURCE_TYPE_def alSourcei_LOOPING_def c_def alSetError_def AL_FALSE_def AL_TRUE_def)
  have q: "src_queue (c\<lparr>src_bLooping := False, src_flGain := f_of_int b32 1, src_NeedsUpdate := True\<rparr>) = []" by (simp add: c_def InitSourceParams_def zero_source_def)
  have ne: "AL_INVALID_ENUM \<noteq> AL_NO_ERROR" by (simp add: al_simps)
  from play_empty [OF s1(1) q s1(2) ne, of R] obtain s2 where s2: "alSourcePlay R a s1 = Ret s2" "LastError s2 = AL_INVALID_ENUM" "al_current s2" using s1(3) by blast
  have "alGetSourcei a SOURCE_STATE junk s1 = (AL_INITIAL, s1)" using s1 by (simp add: alGetSourcei_def source_value_def c_def InitSourceParams_def)
  then have pl: "playSound R [a] junk j = Ret (j1\<lparr>al := s2\<rparr>)" using assms(1) rb j1 s2(1) by (simp add: playSound_def source_states)
  have "openAudio R' cs ok junk p pLength rate (j1\<lparr>al := s2\<rparr>) = Ret (j1\<lparr>al := s2\<lparr>LastError := AL_NO_ERROR\<rparr>, locked := False\<rparr>)"
    using assms(2,8) j1 s2 ne by (simp add: openAudio_def checked_def alGetError_def)
  then show ?thesis using pl s2 j1 by (intro exI [of _ "j1\<lparr>al := s2\<rparr>"]) simp
qed

text \<open>
  A source that has stopped before its packets were played: none can be taken out, so \<open>stopSound\<close> deletes the source and leaves their buffers behind.
\<close>

lemma drain_fails:
  assumes "queue_ok ((al j)\<lparr>LastError := AL_NO_ERROR\<rparr>) (m_sourceID j) c" "src_BuffersPlayed c = 0"
  shows "\<exists>e. drain_queue n b j = Ret (j\<lparr>al := (al j)\<lparr>LastError := e\<rparr>\<rparr>)"
  using assms
proof (induction n arbitrary: b j)
  case 0
  have "(al j)\<lparr>LastError := LastError (al j)\<rparr> = al j" by (cases "al j") simp
  then show ?case by (intro exI [of _ "LastError (al j)"]) (simp add: al_same)
next
  case (Suc n)
  have q: "al_current (al j)" "LookupSource (al j) (m_sourceID j) = Some c" using queue_okD(1,6) [OF Suc.prems(1)] by simp_all
  have r: "buf_refcount x = 1" if "LookupBuffer (al j) b = Some x" for x using Suc.prems(1) that by (auto simp: queue_ok_def ran_def)
  have z: "LookupBuffer (al j) 0 = None" using Suc.prems(1) by (cases "LookupBuffer (al j) 0") (auto simp: queue_ok_def buffers_inv_def)
  have "alSourceUnqueueBuffers (m_sourceID j) 1 (al j) = Ret ([], alSetError AL_INVALID_VALUE (al j))"
    using q Suc.prems(2) by (simp add: alSourceUnqueueBuffers_def)
  moreover have "\<exists>e. alDeleteBuffers 1 [b] (alSetError AL_INVALID_VALUE (al j)) = (al j)\<lparr>LastError := e\<rparr>"
    using q(1) r z by (cases "LookupBuffer (al j) b"; cases "al j") (auto simp: alDeleteBuffers_def alSetError_def)
  ultimately obtain e where e: "drain_queue (Suc n) b j = drain_queue n b (j\<lparr>al := (al j)\<lparr>LastError := e\<rparr>\<rparr>)" by auto
  show ?case using Suc.IH [of "j\<lparr>al := (al j)\<lparr>LastError := e\<rparr>\<rparr>" b] Suc.prems e by simp
qed

theorem stopSound_leaks:
  assumes "queue_ok (al j) (m_sourceID j) c" "\<not> locked j" "src_state c = AL_STOPPED" "src_BuffersPlayed c = 0"
  shows "\<exists>j'. stopSound junk j = Ret j' \<and> m_sourceID j' = 0 \<and> dom (LookupUIntMapKey (BufferMap (al j'))) = set (src_queue c)"
proof -
  note D = queue_okD [OF assms(1)]
  have n: "(al j)\<lparr>LastError := AL_NO_ERROR\<rparr> = al j" using D(2) by (cases "al j") simp
  from drain_fails [of j c "length (src_queue c)" "word_of_int junk"] assms(1,4) n obtain e where
    e: "drain_queue (length (src_queue c)) (word_of_int junk) j = Ret (j\<lparr>al := (al j)\<lparr>LastError := e\<rparr>\<rparr>)" by auto
  define s where "s = (al j)\<lparr>LastError := e, ActiveSources := remove_active (m_sourceID j) (ActiveSources (al j))\<rparr>"
  have sel: "BufferMap s = BufferMap (al j)" "SourceMap s = SourceMap (al j)" by (simp_all add: s_def)
  have z: "LookupBuffer s 0 = None" using D(3) by (cases "LookupBuffer (al j) 0") (auto simp: buffers_inv_def sel)
  have lv: "\<forall>p\<in>set (src_queue c). p = 0 \<or> LookupBuffer s p \<noteq> None" using D(8) by (fastforce simp: sel)
  from each_adj_buffer [of s "src_queue c" "- 1"] D(4) z lv obtain m where
    m: "each dec_buffer (src_queue c) s = Ret (s\<lparr>BufferMap := m\<rparr>)" "dom (LookupUIntMapKey m) = dom (LookupBuffer (al j))"
    by (auto simp: buffer_refs_adj sel dom_def)
  define s' where "s' = s\<lparr>BufferMap := m, SourceMap := RemoveUIntMapKey (SourceMap s) (m_sourceID j)\<rparr>"
  have "src_source c = m_sourceID j" "\<forall>p\<in>set (map fst (src_Send c)). p = 0" using assms(1) by (auto simp: queue_ok_def)
  then have "alDeleteSources 1 [m_sourceID j] ((al j)\<lparr>LastError := e\<rparr>) = Ret s'"
    using D(1,6) m(1) each_dec_slot_0 [of "map fst (src_Send c)"] by (simp add: alDeleteSources_def s_def s'_def)
  moreover have "stopSound junk j = clearQueue junk j" using alGetSourcei_ok [OF assms(1)] assms(3) by (simp add: stopSound_def source_value_def al_same)
  ultimately have "stopSound junk j = Ret (j\<lparr>al := s', m_sourceID := 0\<rparr>)"
    using assms(2) e alGetSourcei_ok [OF assms(1)] source_value_ok [OF assms(1)] by (simp add: clearQueue_def al_same)
  then show ?thesis using m(2) assms(1) by (simp add: s'_def queue_ok_def)
qed

section \<open>A queue\<close>

definition demo_source :: "ALenum \<Rightarrow> u32 \<Rightarrow> alsource" where
  "demo_source x played = (InitSourceParams 0 (zero_source\<lparr>src_source := 4\<rparr>))\<lparr>src_state := x, src_queue := [8, 16], src_BuffersInQueue := 2,
     src_BuffersPlayed := played, src_Buffer := 8, src_lSourceType := AL_STREAMING\<rparr>"

definition demo_queue_al :: "ALenum \<Rightarrow> u32 \<Rightarrow> al_state" where
  "demo_queue_al x played = \<lparr>al_current = True, LastError = AL_NO_ERROR, Connected = True, Frequency = 44100, UpdateSize = 1024, NumAuxSends = 0, MaxNoOfSources = 256,
     AuxiliaryEffectSlotMax = 4, SourceDistanceModel = False, PrioritySlots = 0, alc_max_sources = 8, alc_active_sources = 0, DefaultResampler = 0, FilterMap = InitUIntMap,
     BufferMap = \<lparr>um_array = [(8, (filled_buffer MONO8 8000 [1, 2, 3] 8)\<lparr>buf_refcount := 1\<rparr>), (16, (filled_buffer MONO8 8000 [4, 5] 16)\<lparr>buf_refcount := 1\<rparr>)],
       um_size = 2, um_maxsize = 4\<rparr>,
     EffectMap = InitUIntMap, EffectSlotMap = InitUIntMap, SourceMap = \<lparr>um_array = [(4, demo_source x played)], um_size = 1, um_maxsize = 4\<rparr>,
     ActiveSources = [], MaxActiveSources = 256\<rparr>"

definition demo_audio :: "ALenum \<Rightarrow> u32 \<Rightarrow> ja_openal" where
  "demo_audio x played = \<lparr>m_sourceID = 4, mAudioType = MONO8, mQueued = 0, mProcessed = 0, OnOpenALinfoCallback = False, infos = [], locked = False, al = demo_queue_al x played\<rparr>"

lemma demo_lookup:
  "um_inv (BufferMap (demo_queue_al x n))" "um_inv (SourceMap (demo_queue_al x n))" "LookupSource (demo_queue_al x n) k = (if k = 4 then Some (demo_source x n) else None)"
  "LookupBuffer (demo_queue_al x n) p = (if p = 8 then Some ((filled_buffer MONO8 8000 [1, 2, 3] 8)\<lparr>buf_refcount := 1\<rparr>)
     else if p = 16 then Some ((filled_buffer MONO8 8000 [4, 5] 16)\<lparr>buf_refcount := 1\<rparr>) else None)"
proof -
  show um: "um_inv (BufferMap (demo_queue_al x n))" "um_inv (SourceMap (demo_queue_al x n))" by (simp_all add: um_inv_def demo_queue_al_def)
  show "LookupSource (demo_queue_al x n) k = (if k = 4 then Some (demo_source x n) else None)" using um(2) by (simp add: LookupUIntMapKey_abs um_abs_def) (simp add: demo_queue_al_def)
  show "LookupBuffer (demo_queue_al x n) p = (if p = 8 then Some ((filled_buffer MONO8 8000 [1, 2, 3] 8)\<lparr>buf_refcount := 1\<rparr>)
     else if p = 16 then Some ((filled_buffer MONO8 8000 [4, 5] 16)\<lparr>buf_refcount := 1\<rparr>) else None)" using um(1) by (simp add: LookupUIntMapKey_abs um_abs_def) (simp add: demo_queue_al_def)
qed

lemma demo_queue_ok: "unat n \<le> 2 \<Longrightarrow> queue_ok (al (demo_audio x n)) (m_sourceID (demo_audio x n)) (demo_source x n)"
proof -
  assume n: "unat n \<le> 2"
  have "buf_wf ((filled_buffer MONO8 8000 [1, 2, 3] 8)\<lparr>buf_refcount := 1\<rparr>)" "buf_wf ((filled_buffer MONO8 8000 [4, 5] 16)\<lparr>buf_refcount := 1\<rparr>)"
    by (simp_all add: filled_wf frame_align_simps)
  then have "buffers_inv (demo_queue_al x n)" using demo_lookup(1) by (auto simp: buffers_inv_def demo_lookup(4) filled_buffer_def new_buffer_def split: if_splits)
  moreover have "dom (LookupBuffer (demo_queue_al x n)) = {8, 16}" "\<forall>b\<in>ran (LookupBuffer (demo_queue_al x n)). buf_refcount b = 1"
    by (auto simp: demo_lookup(4) dom_def ran_def split: if_splits)
  ultimately show ?thesis using n unfolding queue_ok_def
    by (simp add: demo_audio_def demo_lookup(2,3) demo_source_def InitSourceParams_def zero_source_def source_types MAX_SENDS_def) (simp add: demo_queue_al_def)
qed

lemma demo_packets: "packets (al (demo_audio x n)) (demo_source x n) = [([1, 2, 3], 8000, user_format MONO8), ([4, 5], 8000, user_format MONO8)]"
  by (simp add: packets_def demo_audio_def demo_lookup demo_source_def packet_def filled_buffer_def)

lemma demo_sel: "um_maxsize (BufferMap (al (demo_audio x n))) = 4" "locked (demo_audio x n) = False" "mAudioType (demo_audio x n) = MONO8" "m_sourceID (demo_audio x n) = 4"
    "src_state (demo_source x n) = x" "src_queue (demo_source x n) = [8, 16]" "src_BuffersPlayed (demo_source x n) = n"
  by (simp_all add: demo_audio_def demo_queue_al_def demo_source_def)

theorem openAudio_playing_witness:
  "\<exists>j' c'. openAudio (\<lambda>_. True) [24] True 0 (Some [6, 7]) 2 8000 (demo_audio AL_PLAYING 1) = Ret j' \<and>
    packets (al j') c' = [([4, 5], 8000, UserFmtMono, UserFmtUByte), ([6, 7], 8000, UserFmtMono, UserFmtUByte)]"
  using openAudio_playing [OF demo_queue_ok [of 1 AL_PLAYING], of "\<lambda>_. True" 24 2 "[6, 7]" 8000 0]
  by (auto simp: demo_sel demo_packets frame_align_simps)

theorem openAudio_replays_witness:
  "\<exists>j' c'. openAudio (\<lambda>_. True) [24] True 0 (Some [6, 7]) 2 8000 (demo_audio AL_STOPPED 2) = Ret j' \<and> src_state c' = AL_PLAYING \<and> src_BuffersPlayed c' = 0 \<and>
    packets (al j') c' = [([1, 2, 3], 8000, UserFmtMono, UserFmtUByte), ([4, 5], 8000, UserFmtMono, UserFmtUByte), ([6, 7], 8000, UserFmtMono, UserFmtUByte)]"
proof -
  have "can_start (al (demo_audio AL_STOPPED 2)) (demo_source AL_STOPPED 2)"
    by (simp add: can_start_def demo_sel demo_audio_def demo_lookup filled_buffer_def) (simp add: demo_queue_al_def demo_source_def InitSourceParams_def zero_source_def)
  then show ?thesis using openAudio_replays [OF demo_queue_ok [of 2 AL_STOPPED], of "\<lambda>_. True" 24 2 "[6, 7]" 8000 0]
    by (auto simp: demo_sel demo_packets frame_align_simps)
qed

theorem stopSound_releases_witness:
  "\<exists>j'. stopSound 0 (demo_audio AL_PLAYING 1) = Ret j' \<and> m_sourceID j' = 0 \<and> LookupUIntMapKey (BufferMap (al j')) = Map.empty"
  using stopSound_releases [OF demo_queue_ok [of 1 AL_PLAYING], of 0] by (auto simp: demo_sel)

end
