(* ===== verification/MediaBuffer.thy ===== *)
theory MediaBuffer
  imports CFloat
begin

text \<open>
  The media buffer of \<^verbatim>\<open>gles/Utils/mediabuffer.c\<close>: one writer stores audio and
  video frames, each behind a 48-byte header, into one allocated block; up to
  sixteen readers follow with cursors of their own.

  The block is modelled byte by byte, so that a header that is read back from
  overwritten memory is the garbage the code would see. A function whose handle
  is NULL takes \<open>None\<close>. A mutex is a flag: locking a held mutex is \<open>Blocked\<close>,
  unlocking a free one is undefined behaviour.
\<close>

section \<open>Constants and structures\<close>

definition MB_SUCCESS :: int where "MB_SUCCESS = 0"
definition MB_INVALID_HANDLE :: int where "MB_INVALID_HANDLE = -1"
definition MB_NO_BUFFER :: int where "MB_NO_BUFFER = -2"
definition MB_TOO_SMALL :: int where "MB_TOO_SMALL = -3"
definition MB_INVALID_INDEX :: int where "MB_INVALID_INDEX = -4"

definition MB_FT_AUDIO :: u32 where "MB_FT_AUDIO = 0"
definition MB_FT_IFRAME :: u32 where "MB_FT_IFRAME = 1"
definition MB_FT_PFRAME :: u32 where "MB_FT_PFRAME = 2"

lemmas mb_consts = MB_SUCCESS_def MB_INVALID_HANDLE_def MB_NO_BUFFER_def MB_TOO_SMALL_def
  MB_INVALID_INDEX_def MB_FT_AUDIO_def MB_FT_IFRAME_def MB_FT_PFRAME_def

definition hdr_magic :: u32 where "hdr_magic = 0xffefface"

text \<open>\<open>sizeof(_BUFHDR)\<close> and \<open>sizeof(_MEDIA_BUFFER)\<close> on armeabi-v7a.\<close>

definition sizeof_bufhdr :: nat where "sizeof_bufhdr = 48"
definition sizeof_media_buffer :: nat where "sizeof_media_buffer = 384"

record media_buffer =
  mb_readpos :: "u32 list"
  mb_writepos :: u32
  mb_lastwritepos :: u32
  mb_readcount :: "u32 list"
  mb_writecount :: u32
  mb_readlock :: "u32 list"
  mb_writelock :: u32
  mb_buf :: "byte list option"
  mb_bufsize :: u32
  mb_overwriteread :: "u32 list"
  mb_isuse :: "u32 list"
  mb_fps :: u32
  mb_bitrate :: u32
  mb_lasttime :: u64
  mb_starttime :: u64
  mb_lastwritecount :: u32
  mb_bitwritecount :: u32
  mb_mutex :: bool

text \<open>The state \<open>memset\<close> leaves behind.\<close>

definition zero_media_buffer :: media_buffer where
  "zero_media_buffer = \<lparr>
     mb_readpos = replicate 16 0, mb_writepos = 0, mb_lastwritepos = 0,
     mb_readcount = replicate 16 0, mb_writecount = 0,
     mb_readlock = replicate 16 0, mb_writelock = 0,
     mb_buf = None, mb_bufsize = 0,
     mb_overwriteread = replicate 16 0, mb_isuse = replicate 16 0,
     mb_fps = 0, mb_bitrate = 0, mb_lasttime = 0, mb_starttime = 0,
     mb_lastwritecount = 0, mb_bitwritecount = 0, mb_mutex = False\<rparr>"

text \<open>
  The frame header. The offsets of its fields in the block are \<open>_flag\<close> 0,
  \<open>_buftype\<close> 4, \<open>_buflen\<close> 8, four bytes of padding, \<open>_timestamp\<close> 16,
  \<open>_reallen\<close> 24, \<open>_playtime\<close> 28, \<open>_enc\<close> 32, \<open>_prevpos\<close> 40, \<open>_nextpos\<close> 44.
\<close>

record bufhdr =
  h_flag :: u32
  h_buftype :: u32
  h_buflen :: u32
  h_timestamp :: u64
  h_reallen :: u32
  h_playtime :: u32
  h_enc :: "byte list"
  h_prevpos :: u32
  h_nextpos :: u32

definition ld_hdr :: "byte list \<Rightarrow> nat \<Rightarrow> bufhdr" where
  "ld_hdr m p = \<lparr>
     h_flag = dec32 (ld m p 4),
     h_buftype = dec32 (ld m (p + 4) 4),
     h_buflen = dec32 (ld m (p + 8) 4),
     h_timestamp = dec64 (ld m (p + 16) 8),
     h_reallen = dec32 (ld m (p + 24) 4),
     h_playtime = dec32 (ld m (p + 28) 4),
     h_enc = ld m (p + 32) 8,
     h_prevpos = dec32 (ld m (p + 40) 4),
     h_nextpos = dec32 (ld m (p + 44) 4)\<rparr>"

definition st_hdr :: "byte list \<Rightarrow> nat \<Rightarrow> bufhdr \<Rightarrow> byte list" where
  "st_hdr m p h =
     (let m = st m p (enc32 (h_flag h) @ enc32 (h_buftype h) @ enc32 (h_buflen h))
      in st m (p + 16) (enc64 (h_timestamp h) @ enc32 (h_reallen h) @ enc32 (h_playtime h)
           @ h_enc h @ enc32 (h_prevpos h) @ enc32 (h_nextpos h)))"

section \<open>Clock\<close>

text \<open>
  \<open>clock_gettime\<close> belongs to the C library; its readings are an argument. A
  reading is a pair of the 32-bit \<open>tv_sec\<close> and \<open>tv_nsec\<close>, both signed.
\<close>

type_synonym timespec = "u32 \<times> u32"

definition clock_ms :: "timespec \<Rightarrow> u64" where
  "clock_ms t = scast (fst t) * 1000 + word_of_int (c_div (sint (snd t)) 1000000)"

section \<open>Life cycle\<close>

text \<open>
  \<open>malloc\<close> is the argument \<open>alloc\<close>: the fresh (uninitialised) block of the size
  asked for, or \<open>None\<close>. The handle itself is allocated with \<open>pSize\<close> bytes, not with
  the size of the structure that \<open>memset\<close> then clears.
\<close>

definition InitMediaBuffer ::
    "(nat \<Rightarrow> byte list option) \<Rightarrow> (nat \<Rightarrow> byte list option) \<Rightarrow> u32 \<Rightarrow> media_buffer option outcome" where
  "InitMediaBuffer alloc1 alloc2 pSize =
     (case alloc1 (unat pSize) of
        None \<Rightarrow> Ret None
      | Some blk \<Rightarrow>
          if length blk < sizeof_media_buffer then UB HeapOverflow
          else (case alloc2 (unat pSize) of
                  None \<Rightarrow> Ret None
                | Some b \<Rightarrow> Ret (Some (zero_media_buffer\<lparr>mb_buf := Some b, mb_lastwritepos := 0,
                                        mb_bufsize := pSize\<rparr>))))"

definition ResetMediaBuffer :: "media_buffer option \<Rightarrow> media_buffer option outcome" where
  "ResetMediaBuffer h =
     (case h of
        None \<Rightarrow> Ret None
      | Some p \<Rightarrow>
          if mb_mutex p then Blocked
          else Ret (Some (zero_media_buffer\<lparr>mb_bufsize := mb_bufsize p, mb_buf := mb_buf p,
                            mb_isuse := mb_isuse p, mb_mutex := False\<rparr>)))"

text \<open>After \<open>ReleaseBuffer\<close> the handle is gone: the result is the memory it frees.\<close>

definition ReleaseBuffer :: "media_buffer option \<Rightarrow> (byte list option \<times> media_buffer) option outcome" where
  "ReleaseBuffer h =
     (case h of
        None \<Rightarrow> Ret None
      | Some p \<Rightarrow> if mb_mutex p then Blocked else Ret (Some (mb_buf p, p\<lparr>mb_buf := None\<rparr>)))"

definition GetWriteCount :: "media_buffer option \<Rightarrow> u32" where
  "GetWriteCount h = (case h of None \<Rightarrow> 0 | Some p \<Rightarrow> mb_writecount p)"

text \<open>The range check lets index 16 through, one past the array.\<close>

definition GetReadCount :: "media_buffer option \<Rightarrow> int \<Rightarrow> u32 outcome" where
  "GetReadCount h index =
     (if index < 0 \<or> index > 16 then Ret 0
      else (case h of
              None \<Rightarrow> Ret 0
            | Some p \<Rightarrow> if nat index < length (mb_readcount p)
                        then Ret (mb_readcount p ! nat index) else UB OobRead))"

text \<open>The loop of \<open>GetReadIndex\<close>: the first slot from \<open>i\<close> on that is not in use.\<close>

fun first_free :: "u32 list \<Rightarrow> nat \<Rightarrow> nat option" where
  "first_free [] i = None"
| "first_free (u # us) i = (if u = 0 then Some i else first_free us (Suc i))"

definition GetReadIndex :: "media_buffer option \<Rightarrow> int \<times> media_buffer option" where
  "GetReadIndex h =
     (case h of
        None \<Rightarrow> (MB_INVALID_HANDLE, None)
      | Some p \<Rightarrow>
          (case first_free (mb_isuse p) 0 of
             Some i \<Rightarrow> (int i, Some (p\<lparr>mb_overwriteread := (mb_overwriteread p)[i := 1],
                                       mb_isuse := (mb_isuse p)[i := 1]\<rparr>))
           | None \<Rightarrow> (MB_INVALID_HANDLE, Some p)))"

definition ReleaseReader :: "media_buffer option \<Rightarrow> int \<Rightarrow> media_buffer option" where
  "ReleaseReader h index =
     (if index < 0 \<or> index > 15 then h
      else (case h of
              None \<Rightarrow> None
            | Some p \<Rightarrow> Some (p\<lparr>mb_isuse := (mb_isuse p)[nat index := 0]\<rparr>)))"

definition unlockRead :: "media_buffer option \<Rightarrow> int \<Rightarrow> (int \<times> media_buffer option) outcome" where
  "unlockRead h index =
     (case h of
        None \<Rightarrow> Ret (MB_INVALID_HANDLE, None)
      | Some p \<Rightarrow>
          if index < 0 \<or> index > 15 then Ret (MB_INVALID_INDEX, Some p)
          else if \<not> mb_mutex p then UB UnlockNotHeld
          else Ret (MB_SUCCESS, Some (p\<lparr>mb_readlock := (mb_readlock p)[nat index := 0],
                                       mb_mutex := False\<rparr>)))"

definition GetCurrentFPS :: "media_buffer option \<Rightarrow> int" where
  "GetCurrentFPS h = (case h of None \<Rightarrow> MB_INVALID_HANDLE | Some p \<Rightarrow> sint (mb_fps p))"

definition GetCurrentBitrate :: "media_buffer option \<Rightarrow> int" where
  "GetCurrentBitrate h = (case h of None \<Rightarrow> MB_INVALID_HANDLE | Some p \<Rightarrow> sint (mb_bitrate p))"

section \<open>Reading\<close>

text \<open>
  The backward walk of \<open>ReadBuffer\<close> from the last written frame over the
  \<open>_prevpos\<close> links to the most recent key frame. \<open>Some (Ret (found, pos, count))\<close>
  is a walk that ends; \<open>None\<close> is one that never does. \<open>pos\<close> is an \<open>int\<close> in the
  code, so a link of \<open>2^31\<close> or more ends the loop.
\<close>

partial_function (option) walk_back ::
    "byte list \<Rightarrow> u32 \<Rightarrow> u32 \<Rightarrow> (bool \<times> u32 \<times> u32) outcome option" where
  "walk_back m pos cnt =
     (if sint pos < 0 then Some (Ret (False, pos, cnt))
      else if length m < unat pos + 44 then Some (UB OobRead)
      else (let h = ld_hdr m (unat pos) in
        if h_buftype h = MB_FT_IFRAME \<and> h_flag h = hdr_magic then Some (Ret (True, pos, cnt))
        else if pos = 0 \<and> h_prevpos h = 0 then Some (Ret (False, pos, cnt))
        else walk_back m (h_prevpos h) (cnt - 1)))"

text \<open>What a successful read hands to the caller: the out-parameters of the call.\<close>

record read_result =
  r_buf :: nat
  r_size :: u32
  r_type :: u32
  r_timestamp :: u64
  r_playtime :: u32
  r_enc :: "byte list"

text \<open>\<open>strcpy\<close> from the header's eight bytes: it runs on past them when none is zero.\<close>

definition strcpy_from :: "byte list \<Rightarrow> nat \<Rightarrow> byte list option" where
  "strcpy_from m off =
     (let s = takeWhile (\<lambda>b. b \<noteq> 0) (drop off m)
      in if length s < length (drop off m) then Some s else None)"

text \<open>
  The part of \<open>ReadBuffer\<close> after the position is known: a header without the
  magic number sends the reader to position 0.
\<close>

definition read_frame ::
    "byte list \<Rightarrow> media_buffer \<Rightarrow> nat \<Rightarrow> u32 \<Rightarrow> u32 \<Rightarrow> (int \<times> media_buffer \<times> read_result option) outcome" where
  "read_frame m p i pSize pos =
     (if sint pos < 0 \<or> length m < unat pos + 4 then UB OobRead
      else
        let q = (if h_flag (ld_hdr m (unat pos)) \<noteq> hdr_magic then 0 else unat pos) in
        if length m < q + sizeof_bufhdr then UB OobRead
        else
          let h = ld_hdr m q in
          if pSize < h_buflen h then Ret (MB_TOO_SMALL, p, None)
          else
            (case strcpy_from m (q + 32) of
               None \<Rightarrow> UB OobRead
             | Some e \<Rightarrow>
                 Ret (MB_SUCCESS,
                      p\<lparr>mb_readcount := (mb_readcount p)[i := mb_readcount p ! i + 1],
                        mb_readpos := (mb_readpos p)[i := h_nextpos h]\<rparr>,
                      Some \<lparr>r_buf = q + sizeof_bufhdr, r_size = h_reallen h, r_type = h_buftype h,
                            r_timestamp = h_timestamp h, r_playtime = h_playtime h, r_enc = e\<rparr>)))"

text \<open>
  \<open>ReadBuffer\<close>. The condition meant to keep the mutex on success is an empty
  statement (\<open>if(rt!=MB_SUCCESS);\<close>), so the mutex is released on every path.
\<close>

definition ReadBuffer ::
    "media_buffer option \<Rightarrow> int \<Rightarrow> u32 \<Rightarrow>
     (int \<times> media_buffer option \<times> read_result option) outcome option" where
  "ReadBuffer h index pSize =
     (case h of
        None \<Rightarrow> Some (Ret (MB_INVALID_HANDLE, None, None))
      | Some p \<Rightarrow>
        (case mb_buf p of
           None \<Rightarrow> Some (Ret (MB_INVALID_HANDLE, Some p, None))
         | Some m \<Rightarrow>
           if index < 0 \<or> index > 15 then Some (Ret (MB_INVALID_INDEX, Some p, None))
           else let i = nat index in
             if mb_readpos p ! i = mb_writepos p then Some (Ret (MB_NO_BUFFER, Some p, None))
             else if mb_mutex p then Some Blocked
             else
               let p = p\<lparr>mb_readlock := (mb_readlock p)[i := mb_readlock p ! i + 1]\<rparr> in
               if mb_overwriteread p ! i \<noteq> 0 then
                 (let start = (if sint (mb_lastwritepos p) < 0 then 0 else mb_lastwritepos p) in
                  case walk_back m start (mb_writecount p - 1) of
                    None \<Rightarrow> None
                  | Some (UB e) \<Rightarrow> Some (UB e)
                  | Some Blocked \<Rightarrow> Some Blocked
                  | Some (Ret (found, pos, cnt)) \<Rightarrow>
                      let p = p\<lparr>mb_readcount := (mb_readcount p)[i := cnt]\<rparr> in
                      if \<not> found then Some (Ret (MB_NO_BUFFER, Some p, None))
                      else Some (bnd (read_frame m
                             (p\<lparr>mb_overwriteread := (mb_overwriteread p)[i := 0]\<rparr>) i pSize pos)
                             (\<lambda>(rt, p', r). Ret (rt, Some p', r))))
               else Some (bnd (read_frame m p i pSize (mb_readpos p ! i))
                             (\<lambda>(rt, p', r). Ret (rt, Some p', r)))))"

section \<open>Writing\<close>

definition pad4 :: "u32 \<Rightarrow> u32" where
  "pad4 n = (if n mod 4 \<noteq> 0 then (n div 4 + 1) * 4 else n)"

text \<open>The loop over the sixteen readers at the start of \<open>WrtieBuffer\<close>.\<close>

definition mark_overwritten :: "u32 \<Rightarrow> u32 \<Rightarrow> u32 list \<Rightarrow> u32 list \<Rightarrow> u32 list" where
  "mark_overwritten wpos pSize readpos flags =
     map2 (\<lambda>r f. if wpos < r \<and> r < wpos + 48 + pSize then 1 else f) readpos flags"

text \<open>\<open>memset(_enc,0,8)\<close> and then \<open>strncpy(_enc,enc,5)\<close>, which pads with zeros.\<close>

definition enc_field :: "byte list option \<Rightarrow> byte list" where
  "enc_field enc = (case enc of
      None \<Rightarrow> replicate 8 0
    | Some s \<Rightarrow> (let t = take 5 (takeWhile (\<lambda>b. b \<noteq> 0) s) in t @ replicate (8 - length t) 0))"

definition wrap_pos :: "media_buffer \<Rightarrow> u32 \<Rightarrow> u32" where
  "wrap_pos p pSize =
     (let w = mb_writepos p in
      if mb_bufsize p < w + 48 \<or> mb_bufsize p < w + 48 + pSize then 0 else w)"

text \<open>
  The frame-rate bookkeeping that follows the unlock. \<open>clk\<close> gives the readings
  of the clock in the order of the calls.
\<close>

definition update_rates :: "(nat \<Rightarrow> timespec) \<Rightarrow> media_buffer \<Rightarrow> media_buffer outcome" where
  "update_rates clk p =
     (if mb_lasttime p = 0 then
        Ret (p\<lparr>mb_lasttime := clock_ms (clk 1), mb_lastwritecount := mb_writecount p\<rparr>)
      else
        let dur = (ucast (clock_ms (clk 1) - mb_starttime p) :: u32) in
        if dur > 1000 then
          (let secs = f_div b32 (f_of_int b32 (uint dur)) (f_of_int b32 1000);
               p = p\<lparr>mb_lasttime := clock_ms (clk 2)\<rparr> in
           bnd (f_to_int32 (f_div b32 (f_of_int b32 (uint (mb_writecount p))) secs)) (\<lambda>fps.
           bnd (f_to_int32 (f_div b32 (f_of_int b32 (sint (mb_bitwritecount p))) secs)) (\<lambda>rate.
           Ret (p\<lparr>mb_fps := word_of_int fps, mb_lastwritecount := mb_writecount p,
                  mb_bitrate := word_of_int rate\<rparr>))))
        else Ret p)"

text \<open>
  The copy of the frame, between lock and unlock. \<open>m\<close> is the block: a store past
  its end is undefined. The header is written at the (possibly wrapped) position.
\<close>

definition write_frame ::
    "byte list \<Rightarrow> media_buffer \<Rightarrow> byte list \<Rightarrow> u32 \<Rightarrow> u32 \<Rightarrow> u64 \<Rightarrow> u32 \<Rightarrow> byte list option \<Rightarrow>
     media_buffer outcome" where
  "write_frame m p data pSize ty ts play enc =
     (let p = p\<lparr>mb_overwriteread :=
                 mark_overwritten (mb_writepos p) pSize (mb_readpos p) (mb_overwriteread p)\<rparr>;
          w = wrap_pos p pSize in
      if length m < unat w + sizeof_bufhdr + unat pSize then UB HeapOverflow
      else if length data < unat pSize then UB OobRead
      else
        let nxt = w + 48 + pad4 pSize;
            hdr = \<lparr>h_flag = hdr_magic, h_buftype = ty, h_buflen = pad4 pSize, h_timestamp = ts,
                   h_reallen = pSize, h_playtime = play, h_enc = enc_field enc,
                   h_prevpos = mb_lastwritepos p, h_nextpos = nxt\<rparr>;
            m = st (st_hdr m (unat w) hdr) (unat w + sizeof_bufhdr) (take (unat pSize) data) in
        Ret (p\<lparr>mb_buf := Some m, mb_lastwritepos := w, mb_writecount := mb_writecount p + 1,
               mb_bitwritecount := mb_bitwritecount p + pad4 pSize,
               mb_writepos := nxt, mb_writelock := 0\<rparr>))"

definition WrtieBuffer ::
    "(nat \<Rightarrow> timespec) \<Rightarrow> media_buffer option \<Rightarrow> byte list \<Rightarrow> u32 \<Rightarrow> u32 \<Rightarrow> u64 \<Rightarrow> u32 \<Rightarrow>
     byte list option \<Rightarrow> (int \<times> media_buffer option) outcome" where
  "WrtieBuffer clk h data pSize ty ts play enc =
     (case h of
        None \<Rightarrow> Ret (MB_INVALID_HANDLE, None)
      | Some p \<Rightarrow>
        (case mb_buf p of
           None \<Rightarrow> Ret (MB_INVALID_HANDLE, Some p)
         | Some m \<Rightarrow>
           if mb_mutex p then Blocked
           else
             let p = p\<lparr>mb_writelock := mb_writelock p + 1\<rparr>;
                 p = (if mb_starttime p = 0 then p\<lparr>mb_starttime := clock_ms (clk 0)\<rparr> else p) in
             bnd (write_frame m p data pSize ty ts play enc) (\<lambda>p.
             bnd (update_rates clk p) (\<lambda>p. Ret (MB_SUCCESS, Some p)))))"

end
