(* ===== verification/MediaBufferProps.thy ===== *)
theory MediaBufferProps
  imports MediaBuffer
begin

text \<open>
  Correctness of the media buffer against a list of frames.

  \<open>laid m p prev fs\<close> says that the block \<open>m\<close> holds the frames \<open>fs\<close> one after the
  other from offset \<open>p\<close> on, linked backward and forward; \<open>mb_rep p fs\<close> adds what
  the handle keeps about them. A write appends to the list, a read returns the
  frame at the reader's cursor, and a reader that has to resynchronise starts at
  the most recent key frame.
\<close>

section \<open>Frames and their layout\<close>

record frame =
  fr_data :: "byte list"
  fr_type :: u32
  fr_ts :: u64
  fr_play :: u32
  fr_enc :: "byte list option"

definition pad :: "nat \<Rightarrow> nat" where
  "pad n = (n + 3) div 4 * 4"

definition fsz :: "frame \<Rightarrow> nat" where
  "fsz f = 48 + pad (length (fr_data f))"

definition tot :: "frame list \<Rightarrow> nat" where
  "tot fs = sum_list (map fsz fs)"

definition hdr_of :: "frame \<Rightarrow> nat \<Rightarrow> nat \<Rightarrow> bufhdr" where
  "hdr_of f prev p = \<lparr>h_flag = hdr_magic, h_buftype = fr_type f,
     h_buflen = of_nat (pad (length (fr_data f))), h_timestamp = fr_ts f,
     h_reallen = of_nat (length (fr_data f)), h_playtime = fr_play f,
     h_enc = enc_field (fr_enc f), h_prevpos = of_nat prev, h_nextpos = of_nat (p + fsz f)\<rparr>"

fun laid :: "byte list \<Rightarrow> nat \<Rightarrow> nat \<Rightarrow> frame list \<Rightarrow> bool" where
  "laid m p prev [] = True"
| "laid m p prev (f # fs) =
     (ld_hdr m p = hdr_of f prev p \<and> ld m (p + 48) (length (fr_data f)) = fr_data f \<and>
      p + 48 + length (fr_data f) \<le> length m \<and> laid m (p + fsz f) p fs)"

fun lastpos :: "nat \<Rightarrow> nat \<Rightarrow> frame list \<Rightarrow> nat" where
  "lastpos p prev [] = prev"
| "lastpos p prev (f # fs) = lastpos (p + fsz f) p fs"

lemma pad_bounds: "n \<le> pad n" "pad n \<le> n + 3"
  by (simp_all add: pad_def)

lemma fsz_ge: "48 \<le> fsz f" "48 + length (fr_data f) \<le> fsz f"
  using pad_bounds [of "length (fr_data f)"] by (simp_all add: fsz_def)

lemma tot_simps [simp]: "tot [] = 0" "tot (f # fs) = fsz f + tot fs" "tot (fs @ gs) = tot fs + tot gs"
  by (simp_all add: tot_def)

lemma tot_take_less: "k < length fs \<Longrightarrow> tot (take k fs) < tot fs"
proof -
  assume k: "k < length fs"
  have "tot fs = tot (take k fs @ drop k fs)" by simp
  also have "\<dots> = tot (take k fs) + tot (drop k fs)" by (simp only: tot_simps)
  also have "drop k fs = fs ! k # drop (Suc k) fs" using k by (rule Cons_nth_drop_Suc [symmetric])
  finally show ?thesis using fsz_ge [of "fs ! k"] by simp
qed

lemma tot_take_Suc: "k < length fs \<Longrightarrow> tot (take (Suc k) fs) = tot (take k fs) + fsz (fs ! k)"
  by (simp add: take_Suc_conv_app_nth)

lemma tot_pos: "tot fs = 0 \<longleftrightarrow> fs = []"
  by (cases fs) (use fsz_ge in \<open>auto simp: fsz_def\<close>)

lemma laid_append:
  "laid m p prev (fs @ gs) \<longleftrightarrow> laid m p prev fs \<and> laid m (p + tot fs) (lastpos p prev fs) gs"
  by (induction fs arbitrary: p prev) (auto simp: add.assoc)

lemma lastpos_append [simp]: "lastpos p prev (fs @ [f]) = p + tot fs"
  by (induction fs arbitrary: p prev) (auto simp: add.assoc)

lemma laid_nth:
  assumes "laid m p prev fs" "k < length fs"
  shows "laid m (p + tot (take k fs)) (lastpos p prev (take k fs)) (fs ! k # drop (Suc k) fs)"
  using assms laid_append [of m p prev "take k fs" "drop k fs"]
  by (simp add: Cons_nth_drop_Suc)

text \<open>The layout depends on nothing behind its end.\<close>

definition agree_upto :: "nat \<Rightarrow> byte list \<Rightarrow> byte list \<Rightarrow> bool" where
  "agree_upto q m m' \<longleftrightarrow> length m' = length m \<and> (\<forall>a n. a + n \<le> q \<longrightarrow> ld m' a n = ld m a n)"

lemma ld_hdr_agree: "agree_upto q m m' \<Longrightarrow> p + 48 \<le> q \<Longrightarrow> ld_hdr m' p = ld_hdr m p"
  by (simp add: agree_upto_def ld_hdr_def)

lemma laid_agree:
  "agree_upto q m m' \<Longrightarrow> p + tot fs \<le> q \<Longrightarrow> laid m p prev fs \<Longrightarrow> laid m' p prev fs"
proof (induction fs arbitrary: p prev)
  case Nil
  then show ?case by simp
next
  case (Cons f fs)
  have "p + 48 + length (fr_data f) \<le> q" using Cons.prems(2) fsz_ge [of f] by simp
  then show ?case using Cons ld_hdr_agree [OF Cons.prems(1), of p]
    by (simp add: agree_upto_def)
qed

section \<open>Header codec\<close>

lemma length_enc_field [simp]: "length (enc_field e) = 8"
  by (simp add: enc_field_def Let_def split: option.split)

lemma length_st_hdr [simp]:
  "p + 48 \<le> length m \<Longrightarrow> length (h_enc h) = 8 \<Longrightarrow> length (st_hdr m p h) = length m"
  by (simp add: st_hdr_def Let_def)

lemma ld_hdr_st_hdr:
  assumes "p + 48 \<le> length m" "length (h_enc h) = 8"
  shows "ld_hdr (st_hdr m p h) p = h"
  using assms by (simp add: ld_hdr_def st_hdr_def Let_def mem_simps)

lemma st_hdr_agree:
  assumes "p + 48 \<le> length m" "length (h_enc h) = 8"
  shows "agree_upto p m (st_hdr m p h)"
  using assms by (simp add: agree_upto_def st_hdr_def Let_def mem_simps)

lemma st_agree: "off + length bs \<le> length m \<Longrightarrow> q \<le> off \<Longrightarrow> agree_upto q m (st m off bs)"
  by (simp add: agree_upto_def mem_simps)

lemma agree_upto_trans: "agree_upto q m m' \<Longrightarrow> agree_upto q m' m'' \<Longrightarrow> agree_upto q m m''"
  by (simp add: agree_upto_def)

lemma agree_upto_mono: "agree_upto q m m' \<Longrightarrow> r \<le> q \<Longrightarrow> agree_upto r m m'"
  by (simp add: agree_upto_def)

text \<open>The encoding name that \<open>strcpy\<close> finds is what \<open>strncpy\<close> kept of the argument.\<close>

definition enc_name :: "byte list option \<Rightarrow> byte list" where
  "enc_name e = (case e of None \<Rightarrow> [] | Some s \<Rightarrow> take 5 (takeWhile (\<lambda>b. b \<noteq> 0) s))"

lemma enc_field_shape: "enc_field e = enc_name e @ replicate (8 - length (enc_name e)) 0"
  by (simp add: enc_field_def enc_name_def Let_def split: option.split)

lemma enc_name_props: "length (enc_name e) \<le> 5" "b \<in> set (enc_name e) \<Longrightarrow> b \<noteq> 0"
  by (auto simp: enc_name_def split: option.splits dest: in_set_takeD set_takeWhileD)

lemma takeWhile_stop: "(\<And>b. b \<in> set xs \<Longrightarrow> P b) \<Longrightarrow> \<not> P y \<Longrightarrow> takeWhile P (xs @ y # ys) = xs"
  by (induction xs) auto

lemma strcpy_from_enc:
  assumes "off + 8 \<le> length m" "ld m off 8 = enc_field e"
  shows "strcpy_from m off = Some (enc_name e)"
proof -
  have "drop off m = take 8 (drop off m) @ drop 8 (drop off m)"
    by (rule append_take_drop_id [symmetric])
  also have "take 8 (drop off m) = enc_field e" using assms(2) by (simp add: ld_def)
  finally have d: "drop off m = enc_name e @ replicate (8 - length (enc_name e)) 0 @ drop 8 (drop off m)"
    by (simp only: enc_field_shape append_assoc)
  obtain k where "8 - length (enc_name e) = Suc k"
    using enc_name_props(1) [of e] by (cases "8 - length (enc_name e)") auto
  then have d': "drop off m = enc_name e @ 0 # replicate k 0 @ drop 8 (drop off m)"
    by (subst d) simp
  have "takeWhile (\<lambda>b. b \<noteq> 0) (drop off m) = enc_name e"
    by (subst d', rule takeWhile_stop) (auto dest: enc_name_props(2))
  moreover have "length (enc_name e) < length (drop off m)"
    using assms(1) enc_name_props(1) [of e] by simp
  ultimately show ?thesis by (simp add: strcpy_from_def Let_def)
qed

section \<open>The representation invariant\<close>

definition mb_rep :: "media_buffer \<Rightarrow> frame list \<Rightarrow> bool" where
  "mb_rep p fs \<longleftrightarrow>
     (case mb_buf p of None \<Rightarrow> False
      | Some m \<Rightarrow> length m = unat (mb_bufsize p) \<and> length m + 3 < 2147483648 \<and> laid m 0 0 fs) \<and>
     mb_writepos p = of_nat (tot fs) \<and> mb_lastwritepos p = of_nat (lastpos 0 0 fs) \<and>
     length (mb_readpos p) = 16 \<and> length (mb_readcount p) = 16 \<and>
     length (mb_overwriteread p) = 16 \<and> \<not> mb_mutex p"

definition mb_block :: "media_buffer \<Rightarrow> byte list" where
  "mb_block p = (case mb_buf p of None \<Rightarrow> [] | Some m \<Rightarrow> m)"

lemma mb_repD:
  assumes "mb_rep p fs"
  shows "mb_buf p = Some (mb_block p)" "length (mb_block p) = unat (mb_bufsize p)"
    "unat (mb_bufsize p) + 3 < 2147483648" "laid (mb_block p) 0 0 fs"
    "mb_writepos p = of_nat (tot fs)" "mb_lastwritepos p = of_nat (lastpos 0 0 fs)"
    "length (mb_readpos p) = 16" "length (mb_readcount p) = 16" "length (mb_overwriteread p) = 16"
    "\<not> mb_mutex p"
  using assms by (auto simp: mb_rep_def mb_block_def split: option.splits)

lemma laid_tot: "laid m p prev fs \<Longrightarrow> fs \<noteq> [] \<Longrightarrow> p + tot fs \<le> length m + 3"
proof (induction fs arbitrary: p prev)
  case Nil
  then show ?case by simp
next
  case (Cons f fs)
  show ?case
  proof (cases "fs = []")
    case True
    then show ?thesis using Cons.prems(1) pad_bounds [of "length (fr_data f)"] by (simp add: fsz_def)
  next
    case False
    then show ?thesis using Cons by (fastforce simp: add.assoc)
  qed
qed

lemma rep_tot: "mb_rep p fs \<Longrightarrow> tot fs \<le> unat (mb_bufsize p) + 3"
  using laid_tot [of "mb_block p" 0 0 fs] mb_repD(2,4) [of p fs] by (cases "fs = []") auto

lemma pad4_of_nat:
  assumes "n < 2147483648"
  shows "pad4 (of_nat n) = of_nat (pad n)"
proof -
  have n: "unat (of_nat n :: u32) = n" using assms by simp
  have "unat ((of_nat n :: u32) mod 4) = n mod 4" using n by (simp add: unat_mod_distrib)
  then have m4: "(of_nat n :: u32) mod 4 = 0 \<longleftrightarrow> n mod 4 = 0"
    by (simp add: unat_eq_zero [symmetric])
  show ?thesis
  proof (cases "n mod 4 = 0")
    case True
    then have "pad n = n" unfolding pad_def by presburger
    with True m4 show ?thesis by (simp add: pad4_def)
  next
    case False
    then have "pad n = (n div 4 + 1) * 4" unfolding pad_def by presburger
    with False m4 n show ?thesis by (simp add: pad4_def word_arith_nat_div)
  qed
qed

section \<open>Writing appends a frame\<close>

lemma wrap_pos_fits:
  assumes rep: "mb_writepos p = of_nat t" and fits: "t + 48 + n \<le> unat (mb_bufsize p)"
    and small: "unat (mb_bufsize p) < 2147483648"
  shows "wrap_pos p (of_nat n) = of_nat t"
proof -
  have a: "(of_nat t :: u32) + 48 = of_nat (t + 48)"
    and b: "(of_nat t :: u32) + 48 + of_nat n = of_nat (t + 48 + n)" by simp_all
  have "\<not> mb_bufsize p < of_nat (t + 48)" "\<not> mb_bufsize p < of_nat (t + 48 + n)"
    using fits small by (simp_all add: word_less_nat_alt del: of_nat_add)
  then show ?thesis unfolding wrap_pos_def Let_def rep a b by simp
qed

text \<open>The block after the header and the payload have been stored at offset \<open>w\<close>.\<close>

definition store_frame :: "byte list \<Rightarrow> nat \<Rightarrow> bufhdr \<Rightarrow> byte list \<Rightarrow> byte list" where
  "store_frame m w h d = st (st_hdr m w h) (w + 48) d"

lemma store_frame_props:
  assumes b: "w + 48 + length d \<le> length m" and e: "length (h_enc h) = 8"
  shows "length (store_frame m w h d) = length m"
    and "ld_hdr (store_frame m w h d) w = h"
    and "ld (store_frame m w h d) (w + 48) (length d) = d"
    and "agree_upto w m (store_frame m w h d)"
proof -
  have l: "length (st_hdr m w h) = length m" using b e by simp
  show "length (store_frame m w h d) = length m" using b l by (simp add: store_frame_def)
  show "ld (store_frame m w h d) (w + 48) (length d) = d"
    using b l by (simp add: store_frame_def mem_simps)
  have ag: "agree_upto (w + 48) (st_hdr m w h) (store_frame m w h d)"
    unfolding store_frame_def using b l by (intro st_agree) auto
  have "ld_hdr (store_frame m w h d) w = ld_hdr (st_hdr m w h) w"
    using ag by (rule ld_hdr_agree) simp
  then show "ld_hdr (store_frame m w h d) w = h" using b e by (simp add: ld_hdr_st_hdr)
  have "agree_upto w m (st_hdr m w h)" using b e by (intro st_hdr_agree) auto
  then show "agree_upto w m (store_frame m w h d)"
    using agree_upto_mono [OF ag, of w] by (auto intro: agree_upto_trans)
qed

lemma laid_store_frame:
  assumes "laid m 0 0 fs" and "tot fs + 48 + length (fr_data f) \<le> length m"
  shows "laid (store_frame m (tot fs) (hdr_of f (lastpos 0 0 fs) (tot fs)) (fr_data f)) 0 0 (fs @ [f])"
proof -
  let ?h = "hdr_of f (lastpos 0 0 fs) (tot fs)"
  have e: "length (h_enc ?h) = 8" by (simp add: hdr_of_def)
  note sf = store_frame_props [OF assms(2) e]
  have "laid (store_frame m (tot fs) ?h (fr_data f)) 0 0 fs"
    using laid_agree [OF sf(4) _ assms(1)] by simp
  then show ?thesis using sf(1-3) assms(2) by (simp add: laid_append)
qed

lemma write_frame_appends:
  assumes rep: "mb_rep p fs" and fits: "tot fs + 48 + length (fr_data f) \<le> unat (mb_bufsize p)"
  shows "\<exists>p'. write_frame (mb_block p) p (fr_data f) (of_nat (length (fr_data f))) (fr_type f)
                (fr_ts f) (fr_play f) (fr_enc f) = Ret p' \<and> mb_rep p' (fs @ [f]) \<and>
              mb_bufsize p' = mb_bufsize p \<and> mb_readpos p' = mb_readpos p \<and>
              mb_readcount p' = mb_readcount p \<and>
              mb_overwriteread p' = mark_overwritten (of_nat (tot fs)) (of_nat (length (fr_data f)))
                 (mb_readpos p) (mb_overwriteread p) \<and>
              mb_writecount p' = mb_writecount p + 1 \<and>
              mb_bitwritecount p' = mb_bitwritecount p + of_nat (pad (length (fr_data f)))"
proof -
  note r = mb_repD [OF rep]
  let ?n = "length (fr_data f)" and ?m = "mb_block p"
  have n: "?n < 2147483648" using fits r(3) by simp
  have w: "wrap_pos (p\<lparr>mb_overwriteread := x\<rparr>) (of_nat ?n) = of_nat (tot fs)" for x
    using wrap_pos_fits [of "p\<lparr>mb_overwriteread := x\<rparr>" "tot fs" ?n] r(3,5) fits by simp
  have t: "unat (of_nat (tot fs) :: u32) = tot fs" using fits r(3) by simp
  have h: "\<lparr>h_flag = hdr_magic, h_buftype = fr_type f, h_buflen = of_nat (pad ?n),
             h_timestamp = fr_ts f, h_reallen = of_nat ?n, h_playtime = fr_play f,
             h_enc = enc_field (fr_enc f), h_prevpos = of_nat (lastpos 0 0 fs),
             h_nextpos = of_nat (tot fs) + 48 + of_nat (pad ?n)\<rparr>
           = hdr_of f (lastpos 0 0 fs) (tot fs)"
    by (simp add: hdr_of_def fsz_def)
  have laid': "laid (store_frame ?m (tot fs) (hdr_of f (lastpos 0 0 fs) (tot fs)) (fr_data f)) 0 0 (fs @ [f])"
    using laid_store_frame [OF r(4)] fits r(2) by simp
  have len: "length (store_frame ?m (tot fs) (hdr_of f (lastpos 0 0 fs) (tot fs)) (fr_data f)) = length ?m"
    by (rule store_frame_props(1)) (use fits r(2) in \<open>auto simp: hdr_of_def\<close>)
  show ?thesis
    using fits r n laid' len
    unfolding write_frame_def Let_def
    by (simp add: w t h pad4_of_nat sizeof_bufhdr_def store_frame_def [symmetric] mb_rep_def
        fsz_def mark_overwritten_def)
qed

section \<open>Reading returns the frame at the cursor\<close>

definition result_of :: "frame \<Rightarrow> nat \<Rightarrow> read_result" where
  "result_of f q = \<lparr>r_buf = q + 48, r_size = of_nat (length (fr_data f)), r_type = fr_type f,
     r_timestamp = fr_ts f, r_playtime = fr_play f, r_enc = enc_name (fr_enc f)\<rparr>"

lemma laid_frameD:
  assumes "laid m q prev (f # gs)" and "length m + 3 < 2147483648"
  shows "ld_hdr m q = hdr_of f prev q" "q + 48 \<le> length m" "q < 2147483648"
    "ld m (q + 48) (length (fr_data f)) = fr_data f"
    "strcpy_from m (q + 32) = Some (enc_name (fr_enc f))"
proof -
  show h: "ld_hdr m q = hdr_of f prev q" and b: "q + 48 \<le> length m"
    and "ld m (q + 48) (length (fr_data f)) = fr_data f" and "q < 2147483648"
    using assms by simp_all
  have "h_enc (ld_hdr m q) = enc_field (fr_enc f)" using h by (simp add: hdr_of_def)
  then have "ld m (q + 32) 8 = enc_field (fr_enc f)" by (simp add: ld_hdr_def)
  then show "strcpy_from m (q + 32) = Some (enc_name (fr_enc f))"
    using b by (intro strcpy_from_enc) auto
qed

lemma read_frame_laid:
  assumes lay: "laid m q prev (f # gs)" and len: "length m + 3 < 2147483648"
    and room: "pad (length (fr_data f)) \<le> unat pSize"
  shows "read_frame m p i pSize (of_nat q) =
     Ret (MB_SUCCESS,
          p\<lparr>mb_readcount := (mb_readcount p)[i := mb_readcount p ! i + 1],
            mb_readpos := (mb_readpos p)[i := of_nat (q + fsz f)]\<rparr>,
          Some (result_of f q))"
proof -
  note l = laid_frameD [OF lay len]
  have q: "unat (of_nat q :: u32) = q" "\<not> sint (of_nat q :: u32) < 0"
    using l(3) by (simp_all add: sint_of_nat32)
  have "pad (length (fr_data f)) < 4294967296"
    using lay len pad_bounds(2) [of "length (fr_data f)"] by simp
  then have "\<not> pSize < of_nat (pad (length (fr_data f)))"
    using room by (simp add: word_less_nat_alt)
  then show ?thesis
    using l q by (simp add: read_frame_def sizeof_bufhdr_def hdr_of_def result_of_def Let_def)
qed

lemma tot_less_word:
  assumes "mb_rep p fs" "k \<le> length fs"
  shows "tot (take k fs) < 4294967296"
proof -
  have "tot (take k fs) \<le> tot fs" using assms(2) tot_take_less [of k fs] by (cases "k = length fs") auto
  then show ?thesis using rep_tot [OF assms(1)] mb_repD(3) [OF assms(1)] by simp
qed

lemma cursor_ne_writepos:
  assumes "mb_rep p fs" "k < length fs"
  shows "(of_nat (tot (take k fs)) :: u32) \<noteq> mb_writepos p"
  using tot_take_less [OF assms(2)] tot_less_word [OF assms(1), of k] tot_less_word [OF assms(1), of "length fs"]
    assms(2) mb_repD(5) [OF assms(1)] by (simp add: of_nat_eq_iff32)

text \<open>The state of the handle after reader \<open>i\<close> has taken the frame at offset \<open>q\<close>.\<close>

definition after_read :: "media_buffer \<Rightarrow> nat \<Rightarrow> u32 \<Rightarrow> frame \<Rightarrow> nat \<Rightarrow> media_buffer" where
  "after_read p i cnt f q = p\<lparr>
     mb_readlock := (mb_readlock p)[i := mb_readlock p ! i + 1],
     mb_overwriteread := (mb_overwriteread p)[i := 0],
     mb_readcount := (mb_readcount p)[i := cnt + 1],
     mb_readpos := (mb_readpos p)[i := of_nat (q + fsz f)]\<rparr>"

lemma mb_rep_after_read: "mb_rep p fs \<Longrightarrow> mb_rep (after_read p i cnt f q) fs"
  by (simp add: after_read_def mb_rep_def split: option.splits)

lemma ReadBuffer_next:
  assumes rep: "mb_rep p fs" and i: "i < 16" and k: "k < length fs"
    and cur: "mb_readpos p ! i = of_nat (tot (take k fs))" and ow: "mb_overwriteread p ! i = 0"
    and room: "pad (length (fr_data (fs ! k))) \<le> unat pSize"
  shows "ReadBuffer (Some p) (int i) pSize =
     Some (Ret (MB_SUCCESS, Some (after_read p i (mb_readcount p ! i) (fs ! k) (tot (take k fs))),
                Some (result_of (fs ! k) (tot (take k fs)))))"
proof -
  note r = mb_repD [OF rep]
  have ne: "mb_readpos p ! i \<noteq> mb_writepos p" using cursor_ne_writepos [OF rep k] cur by simp
  have lay: "laid (mb_block p) (tot (take k fs)) (lastpos 0 0 (take k fs)) (fs ! k # drop (Suc k) fs)"
    using laid_nth [OF r(4) k] by simp
  have len: "length (mb_block p) + 3 < 2147483648" using r(2,3) by simp
  have "(mb_overwriteread p)[i := 0] = mb_overwriteread p" using ow by (metis list_update_id)
  then show ?thesis
    using r ne i ow cur by (simp add: ReadBuffer_def read_frame_laid [OF lay len room] after_read_def Let_def)
qed

section \<open>Resynchronisation on a key frame\<close>

definition is_key :: "frame \<Rightarrow> bool" where
  "is_key f \<longleftrightarrow> fr_type f = MB_FT_IFRAME"

text \<open>The index of the most recent key frame.\<close>

definition last_key :: "frame list \<Rightarrow> nat option" where
  "last_key fs = (if \<exists>f \<in> set fs. is_key f
     then Some (length fs - 1 - length (takeWhile (\<lambda>f. \<not> is_key f) (rev fs))) else None)"

lemma last_key_snoc: "last_key (fs @ [f]) = (if is_key f then Some (length fs) else last_key fs)"
  by (auto simp: last_key_def)

lemma last_key_bound: "last_key fs = Some k \<Longrightarrow> k < length fs \<and> is_key (fs ! k)"
proof (induction fs rule: rev_induct)
  case Nil
  then show ?case by (simp add: last_key_def)
next
  case (snoc f fs)
  then show ?case by (auto simp: last_key_snoc nth_append split: if_splits)
qed

lemma walk_back_laid:
  assumes "laid m 0 0 fs" "fs \<noteq> []" "length m + 3 < 2147483648"
  shows "walk_back m (of_nat (lastpos 0 0 fs)) cnt =
    Some (Ret (case last_key fs of
        Some k \<Rightarrow> (True, of_nat (tot (take k fs)), cnt - of_nat (length fs - 1 - k))
      | None \<Rightarrow> (False, 0, cnt - of_nat (length fs - 1))))"
  using assms
proof (induction fs arbitrary: cnt rule: rev_induct)
  case Nil
  then show ?case by simp
next
  case (snoc f fs)
  let ?q = "tot fs" and ?h = "hdr_of f (lastpos 0 0 fs) (tot fs)"
  have lay: "laid m ?q (lastpos 0 0 fs) [f]" and lf: "laid m 0 0 fs"
    using snoc.prems(1) by (simp_all add: laid_append)
  note l = laid_frameD [OF lay snoc.prems(3)]
  have q: "unat (of_nat ?q :: u32) = ?q" "\<not> sint (of_nat ?q :: u32) < 0"
    using l(3) by (simp_all add: sint_of_nat32)
  have step: "walk_back m (of_nat ?q) cnt =
     (if is_key f then Some (Ret (True, of_nat ?q, cnt))
      else if (of_nat ?q :: u32) = 0 \<and> (of_nat (lastpos 0 0 fs) :: u32) = 0
      then Some (Ret (False, of_nat ?q, cnt))
      else walk_back m (of_nat (lastpos 0 0 fs)) (cnt - 1))" for cnt
    using l q by (subst walk_back.simps) (simp add: Let_def hdr_of_def is_key_def)
  show ?case
  proof (cases "is_key f")
    case True
    then show ?thesis by (simp add: step last_key_snoc)
  next
    case nk: False
    show ?thesis
    proof (cases "fs = []")
      case True
      with nk step [of cnt] show ?thesis by (simp add: last_key_def)
    next
      case False
      then have "(of_nat ?q :: u32) \<noteq> 0"
        using l(3) tot_pos [of fs] of_nat_eq_iff32 [of ?q 0] by simp
      moreover have "length fs \<ge> 1" using False by (cases fs) auto
      ultimately show ?thesis
        using nk snoc.IH [OF lf False snoc.prems(3), of "cnt - 1"] last_key_bound [of fs]
        by (auto simp: step last_key_snoc of_nat_diff Suc_diff_Suc algebra_simps split: option.split)
    qed
  qed
qed

text \<open>A reader that has to resynchronise continues at the most recent key frame.\<close>

lemma ReadBuffer_resync:
  assumes rep: "mb_rep p fs" and i: "i < 16" and ow: "mb_overwriteread p ! i \<noteq> 0"
    and ne: "mb_readpos p ! i \<noteq> mb_writepos p" and key: "last_key fs = Some k"
    and room: "pad (length (fr_data (fs ! k))) \<le> unat pSize"
  shows "ReadBuffer (Some p) (int i) pSize =
     Some (Ret (MB_SUCCESS,
        Some (after_read p i (mb_writecount p - 1 - of_nat (length fs - 1 - k)) (fs ! k) (tot (take k fs))),
        Some (result_of (fs ! k) (tot (take k fs)))))"
proof -
  note r = mb_repD [OF rep]
  have k: "k < length fs" using last_key_bound [OF key] by simp
  then have fs: "fs \<noteq> []" by auto
  have len: "length (mb_block p) + 3 < 2147483648" using r(2,3) by simp
  have lay: "laid (mb_block p) (tot (take k fs)) (lastpos 0 0 (take k fs)) (fs ! k # drop (Suc k) fs)"
    using laid_nth [OF r(4) k] by simp
  obtain gs g where snoc: "fs = gs @ [g]" using fs by (cases fs rule: rev_cases) auto
  have "lastpos 0 0 fs < 2147483648"
    using r(4) len snoc by (simp add: laid_append)
  then have "\<not> sint (of_nat (lastpos 0 0 fs) :: u32) < 0" by (simp add: sint_of_nat32)
  then show ?thesis
    using r ne i ow walk_back_laid [OF r(4) fs len, of "mb_writecount p - 1"] key
    by (simp add: ReadBuffer_def read_frame_laid [OF lay len room] after_read_def Let_def)
qed

text \<open>Without a key frame in the buffer the reader is told that there is nothing to read.\<close>

lemma ReadBuffer_no_key:
  assumes rep: "mb_rep p fs" and i: "i < 16" and ow: "mb_overwriteread p ! i \<noteq> 0"
    and ne: "mb_readpos p ! i \<noteq> mb_writepos p" and fs: "fs \<noteq> []" and key: "last_key fs = None"
  shows "\<exists>p'. ReadBuffer (Some p) (int i) pSize = Some (Ret (MB_NO_BUFFER, Some p', None)) \<and>
     mb_rep p' fs \<and> mb_readpos p' = mb_readpos p \<and> mb_overwriteread p' = mb_overwriteread p \<and>
     mb_readcount p' = (mb_readcount p)[i := mb_writecount p - 1 - of_nat (length fs - 1)]"
proof -
  note r = mb_repD [OF rep]
  have len: "length (mb_block p) + 3 < 2147483648" using r(2,3) by simp
  obtain gs g where snoc: "fs = gs @ [g]" using fs by (cases fs rule: rev_cases) auto
  have "lastpos 0 0 fs < 2147483648"
    using r(4) len snoc by (simp add: laid_append)
  then have "\<not> sint (of_nat (lastpos 0 0 fs) :: u32) < 0" by (simp add: sint_of_nat32)
  then show ?thesis
    using r ne i ow walk_back_laid [OF r(4) fs len, of "mb_writecount p - 1"] key
    by (simp add: ReadBuffer_def Let_def mb_rep_def)
qed

section \<open>Frame-rate bookkeeping\<close>

lemma f_of_int_b32:
  assumes "0 \<le> i" "i \<le> 2 ^ k" "k \<le> 32"
  shows "f_of_int b32 i = Num False (round_mag b32 (of_int i))"
    and "round_mag b32 (of_int i) \<le> 2 ^ k" and "0 \<le> round_mag b32 (of_int i)"
proof -
  have "(of_int i :: rat) \<le> of_int (2 ^ k)" using assms(2) by (rule of_int_le_iff [THEN iffD2])
  then have "of_int i \<le> (2 :: rat) ^ k" by simp
  then show "f_of_int b32 i = Num False (round_mag b32 (of_int i))"
    and "round_mag b32 (of_int i) \<le> 2 ^ k" "0 \<le> round_mag b32 (of_int i)"
    using assms mk_flt_b32 [of "of_int i" k False] round_mag_nonneg [of "of_int i" b32]
    by (simp_all add: f_of_int_def f_of_rat_def)
qed

lemma round_mag_ge_nat:
  "n < 2 ^ 24 \<Longrightarrow> 0 < n \<Longrightarrow> of_nat n \<le> x \<Longrightarrow> of_nat n \<le> round_mag b32 x"
  using round_mag_ge [of x n 0 b32] by (simp add: b32_def)

text \<open>The quotient of a count below \<open>2^30\<close> by at least one second fits an \<open>int\<close>.\<close>

lemma rate_defined:
  assumes "0 \<le> c" "c \<le> 2 ^ 30" "1000 < d" "d < 2 ^ 32"
  shows "\<exists>v. f_to_int32 (f_div b32 (f_of_int b32 c)
               (f_div b32 (f_of_int b32 d) (f_of_int b32 1000))) = Ret v \<and> 0 \<le> v"
proof -
  have c: "f_of_int b32 c = Num False (round_mag b32 (of_int c))" "round_mag b32 (of_int c) \<le> 2 ^ 30"
    "0 \<le> round_mag b32 (of_int c)" using f_of_int_b32 [of c 30] assms by simp_all
  have d: "f_of_int b32 d = Num False (round_mag b32 (of_int d))" "round_mag b32 (of_int d) \<le> 2 ^ 32"
    "0 \<le> round_mag b32 (of_int d)" using f_of_int_b32 [of d 32] assms by simp_all
  have k: "round_mag b32 1000 = 1000"
    by (rule round_mag_repr, unfold repr_mag_def, rule exI [of _ 1000], rule exI [of _ 0])
      (simp add: b32_def power_int_def)
  have k': "f_of_int b32 1000 = Num False 1000" using f_of_int_b32(1) [of 1000 32] k by simp
  have "(1000 :: rat) \<le> of_int d" using assms(3) by linarith
  then have d1: "1000 \<le> round_mag b32 (of_int d)" using round_mag_ge_nat [of 1000 "of_int d"] by simp
  let ?s = "round_mag b32 (of_int d) / 1000"
  have "?s \<le> 2 ^ 32" using d(2) by simp
  then have s: "f_div b32 (f_of_int b32 d) (f_of_int b32 1000) = Num False (round_mag b32 ?s)"
    using d k' mk_flt_b32 [of ?s 32 False] by simp
  have s1: "1 \<le> round_mag b32 ?s" using d1 round_mag_ge_nat [of 1 ?s] by simp
  let ?q = "round_mag b32 (of_int c) / round_mag b32 ?s"
  have "?q \<le> round_mag b32 (of_int c) / 1" using s1 c(3) by (intro divide_left_mono) auto
  then have q: "0 \<le> ?q" "?q \<le> 2 ^ 30" using c s1 by auto
  have "\<lfloor>round_mag b32 ?q\<rfloor> < 2 ^ 31" "0 \<le> \<lfloor>round_mag b32 ?q\<rfloor>"
    using mk_flt_b32 [OF q, of False] round_mag_nonneg [OF q(1), of b32]
    by (simp_all add: floor_less_iff)
  then show ?thesis using mk_flt_b32 [OF q, of False] s s1 c(1) by (simp add: Let_def)
qed

lemma update_rates_defined:
  assumes w: "uint (mb_writecount p) \<le> 2 ^ 30"
    and b: "0 \<le> sint (mb_bitwritecount p)" "sint (mb_bitwritecount p) \<le> 2 ^ 30"
  shows "\<exists>p'. update_rates clk p = Ret p'"
proof (cases "mb_lasttime p = 0")
  case True
  then show ?thesis by (simp add: update_rates_def)
next
  case False
  let ?d = "ucast (clock_ms (clk 1) - mb_starttime p) :: u32"
  show ?thesis
  proof (cases "1000 < ?d")
    case True
    then have d: "1000 < uint ?d" "uint ?d < 2 ^ 32"
      using uint_lt2p [of ?d] by (simp_all add: word_less_def)
    obtain v w where "f_to_int32 (f_div b32 (f_of_int b32 (uint (mb_writecount p)))
        (f_div b32 (f_of_int b32 (uint ?d)) (f_of_int b32 1000))) = Ret v"
      and "f_to_int32 (f_div b32 (f_of_int b32 (sint (mb_bitwritecount p)))
        (f_div b32 (f_of_int b32 (uint ?d)) (f_of_int b32 1000))) = Ret w"
      using rate_defined [OF _ w d] rate_defined [OF b d] by auto
    then show ?thesis using False True by (simp add: update_rates_def Let_def)
  next
    case ge: False
    then show ?thesis using False by (simp add: update_rates_def Let_def)
  qed
qed

text \<open>The bookkeeping touches nothing that the frames or the readers depend on.\<close>

lemma update_rates_frame:
  assumes "update_rates clk p = Ret p'"
  shows "mb_rep p' fs = mb_rep p fs" "mb_readpos p' = mb_readpos p" "mb_bufsize p' = mb_bufsize p"
    "mb_overwriteread p' = mb_overwriteread p" "mb_readcount p' = mb_readcount p"
    "mb_writecount p' = mb_writecount p" "mb_bitwritecount p' = mb_bitwritecount p"
  using assms
  by (auto simp: update_rates_def Let_def bnd_Ret_iff mb_rep_def split: if_splits option.splits)

section \<open>The whole write\<close>

text \<open>The handle when the frame is about to be stored.\<close>

definition wstart :: "(nat \<Rightarrow> timespec) \<Rightarrow> media_buffer \<Rightarrow> media_buffer" where
  "wstart clk p = (let p = p\<lparr>mb_writelock := mb_writelock p + 1\<rparr> in
     if mb_starttime p = 0 then p\<lparr>mb_starttime := clock_ms (clk 0)\<rparr> else p)"

lemma wstart_frame:
  "mb_rep (wstart clk p) fs = mb_rep p fs" "mb_bufsize (wstart clk p) = mb_bufsize p"
  "mb_block (wstart clk p) = mb_block p" "mb_readpos (wstart clk p) = mb_readpos p"
  "mb_readcount (wstart clk p) = mb_readcount p"
  "mb_overwriteread (wstart clk p) = mb_overwriteread p"
  "mb_writecount (wstart clk p) = mb_writecount p"
  "mb_bitwritecount (wstart clk p) = mb_bitwritecount p"
  by (auto simp: wstart_def mb_rep_def mb_block_def Let_def split: option.splits)

lemma counters_advance:
  assumes w: "uint (mb_writecount p) < 2 ^ 30" and b: "0 \<le> sint (mb_bitwritecount p)"
      "sint (mb_bitwritecount p) + int (pad n) \<le> 2 ^ 30"
    and q: "mb_writecount q = mb_writecount p + 1"
      "mb_bitwritecount q = mb_bitwritecount p + of_nat (pad n)"
  shows "uint (mb_writecount q) = uint (mb_writecount p) + 1"
    and "sint (mb_bitwritecount q) = sint (mb_bitwritecount p) + int (pad n)"
proof -
  show "uint (mb_writecount q) = uint (mb_writecount p) + 1"
    unfolding q using w by (simp add: uint_plus_if')
  have "sint (of_nat (pad n) :: u32) = int (pad n)" using b by (intro sint_of_nat32) simp
  then show "sint (mb_bitwritecount q) = sint (mb_bitwritecount p) + int (pad n)"
    unfolding q using b by (simp add: sint_word_ariths signed_take_bit_int_eq_self)
qed

lemma WrtieBuffer_lift:
  assumes p: "mb_buf p = Some m" "\<not> mb_mutex p"
    and wf: "write_frame m (wstart clk p) data pSize ty ts play enc = Ret p1"
    and c: "uint (mb_writecount p1) \<le> 2 ^ 30" "0 \<le> sint (mb_bitwritecount p1)"
      "sint (mb_bitwritecount p1) \<le> 2 ^ 30"
  shows "\<exists>p2. WrtieBuffer clk (Some p) data pSize ty ts play enc = Ret (MB_SUCCESS, Some p2) \<and>
     update_rates clk p1 = Ret p2"
  using update_rates_defined [OF c, of clk] p wf by (auto simp: WrtieBuffer_def wstart_def Let_def)

lemma WrtieBuffer_append:
  assumes rep: "mb_rep p fs" and fits: "tot fs + 48 + length (fr_data f) \<le> unat (mb_bufsize p)"
    and w: "uint (mb_writecount p) < 2 ^ 30"
    and b: "0 \<le> sint (mb_bitwritecount p)"
      "sint (mb_bitwritecount p) + int (pad (length (fr_data f))) \<le> 2 ^ 30"
  shows "\<exists>p'. WrtieBuffer clk (Some p) (fr_data f) (of_nat (length (fr_data f))) (fr_type f)
                (fr_ts f) (fr_play f) (fr_enc f) = Ret (MB_SUCCESS, Some p') \<and>
              mb_rep p' (fs @ [f]) \<and> mb_bufsize p' = mb_bufsize p \<and>
              mb_readpos p' = mb_readpos p \<and> mb_readcount p' = mb_readcount p \<and>
              mb_overwriteread p' = mark_overwritten (of_nat (tot fs)) (of_nat (length (fr_data f)))
                 (mb_readpos p) (mb_overwriteread p) \<and>
              uint (mb_writecount p') = uint (mb_writecount p) + 1 \<and>
              sint (mb_bitwritecount p') = sint (mb_bitwritecount p) + int (pad (length (fr_data f)))"
proof -
  obtain p1 where p1: "write_frame (mb_block p) (wstart clk p) (fr_data f) (of_nat (length (fr_data f)))
       (fr_type f) (fr_ts f) (fr_play f) (fr_enc f) = Ret p1" "mb_rep p1 (fs @ [f])"
     "mb_bufsize p1 = mb_bufsize p" "mb_readpos p1 = mb_readpos p" "mb_readcount p1 = mb_readcount p"
     "mb_overwriteread p1 = mark_overwritten (of_nat (tot fs)) (of_nat (length (fr_data f)))
        (mb_readpos p) (mb_overwriteread p)"
     "mb_writecount p1 = mb_writecount p + 1"
     "mb_bitwritecount p1 = mb_bitwritecount p + of_nat (pad (length (fr_data f)))"
    using write_frame_appends [of "wstart clk p" fs f] rep fits unfolding wstart_frame by blast
  note c = counters_advance [OF w b p1(7,8)]
  obtain p2 where p2: "WrtieBuffer clk (Some p) (fr_data f) (of_nat (length (fr_data f))) (fr_type f)
       (fr_ts f) (fr_play f) (fr_enc f) = Ret (MB_SUCCESS, Some p2)" "update_rates clk p1 = Ret p2"
    using WrtieBuffer_lift [OF mb_repD(1,10) [OF rep] p1(1)] w b c by auto
  show ?thesis using p1(2-6) p2(1) update_rates_frame [OF p2(2)] c by auto
qed

section \<open>A write that wraps\<close>

lemma wrap_pos_wraps:
  assumes "mb_writepos p = of_nat t" "unat (mb_bufsize p) < t + 48 + n" "t + 48 + n < 4294967296"
  shows "wrap_pos p (of_nat n) = 0"
proof -
  have b: "(of_nat t :: u32) + 48 + of_nat n = of_nat (t + 48 + n)" by simp
  have "mb_bufsize p < of_nat (t + 48 + n)"
    using assms(2,3) by (simp add: word_less_nat_alt del: of_nat_add)
  then show ?thesis unfolding wrap_pos_def Let_def assms(1) b by simp
qed

lemma write_frame_wraps:
  assumes rep: "mb_rep p fs" and wraps: "unat (mb_bufsize p) < tot fs + 48 + length (fr_data f)"
    and fits: "48 + length (fr_data f) \<le> unat (mb_bufsize p)"
  shows "\<exists>p'. write_frame (mb_block p) p (fr_data f) (of_nat (length (fr_data f))) (fr_type f)
                (fr_ts f) (fr_play f) (fr_enc f) = Ret p' \<and>
     mb_buf p' = Some (store_frame (mb_block p) 0 (hdr_of f (lastpos 0 0 fs) 0) (fr_data f)) \<and>
     mb_readpos p' = mb_readpos p \<and> mb_readlock p' = mb_readlock p \<and> mb_readcount p' = mb_readcount p \<and>
     mb_lastwritepos p' = 0 \<and> mb_writepos p' = of_nat (fsz f) \<and> mb_mutex p' = mb_mutex p \<and>
     mb_bufsize p' = mb_bufsize p \<and>
     mb_overwriteread p' = mark_overwritten (mb_writepos p) (of_nat (length (fr_data f)))
        (mb_readpos p) (mb_overwriteread p) \<and>
     mb_writecount p' = mb_writecount p + 1 \<and>
     mb_bitwritecount p' = mb_bitwritecount p + of_nat (pad (length (fr_data f)))"
proof -
  note r = mb_repD [OF rep]
  let ?n = "length (fr_data f)"
  have n: "?n < 2147483648" using fits r(3) by simp
  have w: "wrap_pos (p\<lparr>mb_overwriteread := x\<rparr>) (of_nat ?n) = 0" for x
    using wrap_pos_wraps [of "p\<lparr>mb_overwriteread := x\<rparr>" "tot fs" ?n] r(3,5) fits wraps rep_tot [OF rep]
    by simp
  have h: "\<lparr>h_flag = hdr_magic, h_buftype = fr_type f, h_buflen = of_nat (pad ?n),
             h_timestamp = fr_ts f, h_reallen = of_nat ?n, h_playtime = fr_play f,
             h_enc = enc_field (fr_enc f), h_prevpos = of_nat (lastpos 0 0 fs),
             h_nextpos = 48 + of_nat (pad ?n)\<rparr>
           = hdr_of f (lastpos 0 0 fs) 0"
    by (simp add: hdr_of_def fsz_def)
  show ?thesis
    using fits r n unfolding write_frame_def Let_def
    by (simp add: w h pad4_of_nat sizeof_bufhdr_def store_frame_def fsz_def)
qed

lemma ld_hdr_store_after:
  assumes "48 + length d \<le> q" "48 + length d \<le> length m" "length (h_enc h) = 8"
  shows "ld_hdr (store_frame m 0 h d) q = ld_hdr m q"
proof -
  have l: "length (st_hdr m 0 h) = length m" using assms by simp
  have "ld (store_frame m 0 h d) a n = ld m a n" if "48 + length d \<le> a" for a n
  proof -
    have "ld (store_frame m 0 h d) a n = ld (st_hdr m 0 h) a n"
      unfolding store_frame_def using assms(2) that l by (simp add: mem_simps)
    also have "\<dots> = ld m a n" unfolding st_hdr_def Let_def using assms(2,3) that by (simp add: mem_simps)
    finally show ?thesis .
  qed
  then show ?thesis using assms(1) by (simp add: ld_hdr_def)
qed

section \<open>Walks that never end\<close>

lemma walk_back_diverges:
  assumes closed: "\<And>q. q \<in> S \<Longrightarrow> 0 \<le> sint q \<and> unat q + 44 \<le> length m \<and>
      \<not> (h_buftype (ld_hdr m (unat q)) = MB_FT_IFRAME \<and> h_flag (ld_hdr m (unat q)) = hdr_magic) \<and>
      \<not> (q = 0 \<and> h_prevpos (ld_hdr m (unat q)) = 0) \<and> h_prevpos (ld_hdr m (unat q)) \<in> S"
    and pos: "pos \<in> S"
  shows "walk_back m pos cnt = None"
proof (cases "walk_back m pos cnt")
  case (Some r)
  have "m = m \<longrightarrow> pos \<notin> S"
  proof (rule walk_back.raw_induct [where P = "\<lambda>m' pos cnt r. m' = m \<longrightarrow> pos \<notin> S", OF _ Some])
    fix f m' r and pos cnt :: u32
    assume IH: "\<And>m' pos cnt r. f m' pos cnt = Some r \<Longrightarrow> m' = m \<longrightarrow> pos \<notin> S"
      and eq: "(if sint pos < 0 then Some (Ret (False, pos, cnt))
        else if length m' < unat pos + 44 then Some (UB OobRead)
        else (let h = ld_hdr m' (unat pos) in
          if h_buftype h = MB_FT_IFRAME \<and> h_flag h = hdr_magic then Some (Ret (True, pos, cnt))
          else if pos = 0 \<and> h_prevpos h = 0 then Some (Ret (False, pos, cnt))
          else f m' (h_prevpos h) (cnt - 1))) = Some r"
    show "m' = m \<longrightarrow> pos \<notin> S"
    proof (intro impI notI)
      assume m': "m' = m" and "pos \<in> S"
      note c = closed [OF this(2)]
      then have "f m (h_prevpos (ld_hdr m (unat pos))) (cnt - 1) = Some r"
        using eq m' by (auto simp: Let_def split: if_splits)
      from IH [OF this] c show False by simp
    qed
  qed
  then show ?thesis using pos by simp
qed simp

end
