(* ===== verification/MediaBufferClaims.thy ===== *)
theory MediaBufferClaims
  imports MediaBufferProps
begin

text \<open>
  The properties of the media buffer: it is a first-in-first-out channel of frames
  until the write position wraps, readers resynchronise on key frames, and what
  goes wrong at the edges (a frame larger than the block, a wrapped write over
  unread frames, the backward walk after a wrap, the unlock after a read).
\<close>

section \<open>The buffer as a channel\<close>

type_synonym write_req = "(nat \<Rightarrow> timespec) \<times> frame"

definition mb_put :: "media_buffer \<Rightarrow> write_req \<Rightarrow> media_buffer option" where
  "mb_put p x = (case x of (clk, f) \<Rightarrow>
     (case WrtieBuffer clk (Some p) (fr_data f) (of_nat (length (fr_data f))) (fr_type f)
             (fr_ts f) (fr_play f) (fr_enc f) of
        Ret (rt, Some p') \<Rightarrow> if rt = MB_SUCCESS then Some p' else None
      | _ \<Rightarrow> None))"

text \<open>What a caller of \<open>ReadBuffer\<close> has in its hands: the bytes behind the returned pointer.\<close>

definition delivered :: "media_buffer \<Rightarrow> read_result \<Rightarrow> frame" where
  "delivered p r = \<lparr>fr_data = ld (mb_block p) (r_buf r) (unat (r_size r)), fr_type = r_type r,
     fr_ts = r_timestamp r, fr_play = r_playtime r, fr_enc = Some (r_enc r)\<rparr>"

definition mb_get :: "nat \<Rightarrow> u32 \<Rightarrow> media_buffer \<Rightarrow> (frame \<times> media_buffer) option" where
  "mb_get i pSize p = (case ReadBuffer (Some p) (int i) pSize of
      Some (Ret (rt, Some p', Some r)) \<Rightarrow>
        if rt = MB_SUCCESS then Some (delivered p' r, p') else None
    | _ \<Rightarrow> None)"

definition seen :: "write_req \<Rightarrow> frame" where
  "seen x = (snd x)\<lparr>fr_enc := Some (enc_name (fr_enc (snd x)))\<rparr>"

text \<open>Reader \<open>i\<close>, with a buffer of \<open>pSize\<close> bytes, has read the first \<open>k\<close> frames.\<close>

definition mb_at :: "nat \<Rightarrow> u32 \<Rightarrow> media_buffer \<Rightarrow> write_req list \<Rightarrow> nat \<Rightarrow> bool" where
  "mb_at i pSize p xs k \<longleftrightarrow> i < 16 \<and> k \<le> length xs \<and> mb_rep p (map snd xs) \<and>
     mb_readpos p ! i = of_nat (tot (take k (map snd xs))) \<and> mb_overwriteread p ! i = 0 \<and>
     (\<forall>x \<in> set xs. pad (length (fr_data (snd x))) \<le> unat pSize)"

text \<open>The frames \<open>ys\<close> fit behind the write position and the counters stay small.\<close>

definition mb_room :: "u32 \<Rightarrow> media_buffer \<Rightarrow> write_req list \<Rightarrow> bool" where
  "mb_room pSize p ys \<longleftrightarrow>
     unat (mb_writepos p) + tot (map snd ys) \<le> unat (mb_bufsize p) \<and>
     uint (mb_writecount p) + int (length ys) \<le> 2 ^ 30 \<and>
     0 \<le> sint (mb_bitwritecount p) \<and>
     sint (mb_bitwritecount p) + int (tot (map snd ys)) \<le> 2 ^ 30 \<and>
     (\<forall>x \<in> set ys. pad (length (fr_data (snd x))) \<le> unat pSize)"

lemma mark_overwritten_behind:
  assumes "i < length rs" "length rs = length fl" "unat (rs ! i) \<le> unat w"
  shows "mark_overwritten w n rs fl ! i = fl ! i"
  using assms by (simp add: mark_overwritten_def word_less_nat_alt)

lemma mb_put_appends:
  assumes at: "mb_at i pSize p xs k" and room: "mb_room pSize p (x # ys)"
  shows "\<exists>p'. mb_put p x = Some p' \<and> mb_at i pSize p' (xs @ [x]) k \<and> mb_room pSize p' ys"
proof -
  obtain clk f where x: "x = (clk, f)" by (cases x)
  let ?fs = "map snd xs"
  have rep: "mb_rep p ?fs" and i: "i < 16" and k: "k \<le> length xs"
    and cur: "mb_readpos p ! i = of_nat (tot (take k ?fs))" and ow: "mb_overwriteread p ! i = 0"
    using at by (simp_all add: mb_at_def)
  note r = mb_repD [OF rep]
  have tw: "tot ?fs < 4294967296" using tot_less_word [OF rep, of "length xs"] by simp
  then have wp: "unat (mb_writepos p) = tot ?fs" using r(5) by simp
  have fits: "tot ?fs + 48 + length (fr_data f) \<le> unat (mb_bufsize p)"
    using room wp x fsz_ge(2) [of f] by (simp add: mb_room_def)
  have b: "sint (mb_bitwritecount p) + int (pad (length (fr_data f))) \<le> 2 ^ 30"
    using room x by (simp add: mb_room_def fsz_def)
  obtain p' where p': "WrtieBuffer clk (Some p) (fr_data f) (of_nat (length (fr_data f))) (fr_type f)
        (fr_ts f) (fr_play f) (fr_enc f) = Ret (MB_SUCCESS, Some p')"
      "mb_rep p' (?fs @ [f])" "mb_bufsize p' = mb_bufsize p" "mb_readpos p' = mb_readpos p"
      "mb_overwriteread p' = mark_overwritten (of_nat (tot ?fs)) (of_nat (length (fr_data f)))
         (mb_readpos p) (mb_overwriteread p)"
      "uint (mb_writecount p') = uint (mb_writecount p) + 1"
      "sint (mb_bitwritecount p') = sint (mb_bitwritecount p) + int (pad (length (fr_data f)))"
    using WrtieBuffer_append [OF rep fits _ _ b, of clk] room by (auto simp: mb_room_def)
  have tk: "tot (take k ?fs) \<le> tot ?fs" using tot_take_less [of k ?fs] k by (cases "k = length xs") auto
  then have "mb_overwriteread p' ! i = 0"
    unfolding p'(5) using mark_overwritten_behind i r cur ow tw by simp
  then have at': "mb_at i pSize p' (xs @ [x]) k"
    using at room p' x k cur by (auto simp: mb_at_def mb_room_def)
  have "tot (?fs @ [f]) < 4294967296" using tot_less_word [OF p'(2), of "length ?fs + 1"] by simp
  then have "unat (mb_writepos p') = tot ?fs + fsz f" using mb_repD(5) [OF p'(2)]
    by (metis tot_simps add.right_neutral unat_of_nat32)
  then have "mb_room pSize p' ys" using room p' x wp by (simp add: mb_room_def fsz_def)
  then show ?thesis using at' p'(1) x by (simp add: mb_put_def)
qed

lemma mb_get_next:
  assumes at: "mb_at i pSize p xs k" and k: "k < length xs"
  shows "\<exists>p'. mb_get i pSize p = Some (seen (xs ! k), p') \<and> mb_at i pSize p' xs (Suc k)"
proof -
  let ?fs = "map snd xs" and ?f = "snd (xs ! k)"
  have rep: "mb_rep p ?fs" and i: "i < 16" and ow: "mb_overwriteread p ! i = 0"
    and cur: "mb_readpos p ! i = of_nat (tot (take k ?fs))"
    and room: "pad (length (fr_data ?f)) \<le> unat pSize"
    using at k by (auto simp: mb_at_def)
  note r = mb_repD [OF rep]
  let ?q = "tot (take k ?fs)"
  let ?p' = "after_read p i (mb_readcount p ! i) ?f ?q"
  have read: "ReadBuffer (Some p) (int i) pSize = Some (Ret (MB_SUCCESS, Some ?p', Some (result_of ?f ?q)))"
    using ReadBuffer_next [OF rep i _ cur ow] k room by simp
  have lay: "laid (mb_block p) ?q (lastpos 0 0 (take k ?fs)) (?f # drop (Suc k) ?fs)"
    using laid_nth [OF r(4), of k] k by (simp add: drop_map)
  have len: "length (fr_data ?f) < 4294967296" using lay r(2,3) by simp
  have blk: "mb_block ?p' = mb_block p" by (simp add: after_read_def mb_block_def)
  have "delivered ?p' (result_of ?f ?q) = seen (xs ! k)"
    using lay len by (simp add: delivered_def result_of_def seen_def blk)
  moreover have "mb_at i pSize ?p' xs (Suc k)"
    using at k r i mb_rep_after_read [OF rep, of i "mb_readcount p ! i" ?f ?q]
    by (simp add: mb_at_def after_read_def tot_take_Suc)
  ultimately show ?thesis using read by (simp add: mb_get_def)
qed

lemma mb_get_at_end: "mb_at i pSize p xs (length xs) \<Longrightarrow> mb_get i pSize p = None"
  using mb_repD(1,5) [of p "map snd xs"]
  by (simp add: mb_at_def mb_get_def ReadBuffer_def Let_def split: option.split)

lemma mb_at_cursor: "mb_at i pSize p xs k \<Longrightarrow> k \<le> length xs"
  by (simp add: mb_at_def)

interpretation mbch: frame_channel mb_put "mb_get i pSize" seen "mb_at i pSize" "mb_room pSize" for i pSize
  by unfold_locales (blast intro: mb_put_appends mb_get_next mb_get_at_end mb_at_cursor)+

text \<open>
  C1: first in, first out. For a reader whose cursor is at frame \<open>k\<close>, writing the
  frames \<open>ys\<close> while they fit behind the write position succeeds, and reading
  afterwards delivers exactly the unread old frames and then the new ones, in
  order, each with its bytes, type, timestamp, play time and encoding name.
\<close>

theorem mediabuffer_fifo:
  assumes "mb_at i pSize p xs k" and "mb_room pSize p ys"
  shows "\<exists>p'. feed mb_put p ys = Some p' \<and>
    drain (mb_get i pSize) (length xs + length ys) p' = map seen (drop k xs @ ys)"
  using assms by (rule mbch.fifo)

text \<open>A concrete handle and frames for the witnesses.\<close>

definition demo_mb :: media_buffer where
  "demo_mb = zero_media_buffer\<lparr>mb_buf := Some (replicate 384 0), mb_bufsize := 384\<rparr>"

definition demo_frame :: "u32 \<Rightarrow> nat \<Rightarrow> frame" where
  "demo_frame ty n = \<lparr>fr_data = replicate n 7, fr_type = ty, fr_ts = 5, fr_play = 6, fr_enc = None\<rparr>"

lemma demo_mb_at: "i < 16 \<Longrightarrow> mb_at i pSize demo_mb [] 0"
  by (simp add: mb_at_def mb_rep_def demo_mb_def zero_media_buffer_def)

theorem mediabuffer_fifo_witness:
  "\<exists>p'. feed mb_put demo_mb [(\<lambda>_. (0, 0), demo_frame 1 100), (\<lambda>_. (0, 0), demo_frame 2 60)] = Some p' \<and>
     drain (mb_get 3 200) (Suc (Suc 0)) p' =
       map seen [(\<lambda>_. (0, 0), demo_frame 1 100), (\<lambda>_. (0, 0), demo_frame 2 60)]"
proof -
  have room: "mb_room 200 demo_mb [(\<lambda>_. (0, 0), demo_frame 1 100), (\<lambda>_. (0, 0), demo_frame 2 60)]"
    by (simp add: mb_room_def demo_mb_def demo_frame_def zero_media_buffer_def fsz_def pad_def)
  show ?thesis using mediabuffer_fifo [OF demo_mb_at [of 3 200] room] by simp
qed

section \<open>Life cycle\<close>

lemma mb_rep_fresh:
  assumes "length b = unat n" "unat n + 3 < 2147483648" "length us = 16"
  shows "mb_rep (zero_media_buffer\<lparr>mb_buf := Some b, mb_lastwritepos := 0, mb_bufsize := n,
           mb_isuse := us, mb_mutex := False\<rparr>) []"
  using assms by (simp add: mb_rep_def zero_media_buffer_def)

text \<open>
  \<open>InitMediaBuffer\<close> yields an empty buffer of the requested size when that size
  holds the handle structure, and writes past its own allocation when it does not
  (the handle is allocated with \<open>size\<close> bytes instead of \<open>sizeof(_MEDIA_BUFFER)\<close>).
\<close>

theorem InitMediaBuffer_correct:
  assumes a1: "alloc1 (unat n) = Some blk" "length blk = unat n"
    and a2: "alloc2 (unat n) = Some b" "length b = unat n"
    and small: "unat n + 3 < 2147483648"
  shows "if sizeof_media_buffer \<le> unat n
         then \<exists>p. InitMediaBuffer alloc1 alloc2 n = Ret (Some p) \<and> mb_rep p [] \<and> mb_bufsize p = n \<and>
                (\<forall>i < 16. mb_at i pSize p [] 0) \<and> mb_writecount p = 0 \<and> mb_bitwritecount p = 0
         else InitMediaBuffer alloc1 alloc2 n = UB HeapOverflow"
  using assms
  by (auto simp: InitMediaBuffer_def mb_rep_def mb_at_def zero_media_buffer_def)

theorem InitMediaBuffer_correct_witness:
  "InitMediaBuffer (\<lambda>n. Some (replicate n 0)) (\<lambda>n. Some (replicate n 0)) 100 = UB HeapOverflow"
  using InitMediaBuffer_correct [of "\<lambda>n. Some (replicate n 0)" 100 "replicate 100 0"
      "\<lambda>n. Some (replicate n 0)" "replicate 100 0" 0]
  by (simp add: sizeof_media_buffer_def)

text \<open>
  \<open>ResetMediaBuffer\<close> empties the buffer and puts every reader at its start; it
  keeps the block, its size and which readers are in use.
\<close>

theorem ResetMediaBuffer_correct:
  assumes "mb_rep p fs" "length (mb_isuse p) = 16"
  shows "\<exists>p'. ResetMediaBuffer (Some p) = Ret (Some p') \<and> mb_rep p' [] \<and>
     mb_buf p' = mb_buf p \<and> mb_bufsize p' = mb_bufsize p \<and> mb_isuse p' = mb_isuse p \<and>
     (\<forall>i < 16. mb_at i pSize p' [] 0) \<and> mb_writecount p' = 0"
  using assms
  by (auto simp: ResetMediaBuffer_def mb_rep_def mb_at_def zero_media_buffer_def split: option.splits)

theorem ResetMediaBuffer_correct_witness:
  "\<exists>p'. ResetMediaBuffer (Some demo_mb) = Ret (Some p') \<and> mb_rep p' []"
  using ResetMediaBuffer_correct [of demo_mb "[]" 0] demo_mb_at [of 0 0]
  by (auto simp: mb_at_def demo_mb_def zero_media_buffer_def)

lemma first_free_spec:
  "case first_free us i of
     Some j \<Rightarrow> i \<le> j \<and> j < i + length us \<and> us ! (j - i) = 0 \<and> (\<forall>l < j - i. us ! l \<noteq> 0)
   | None \<Rightarrow> \<forall>u \<in> set us. u \<noteq> 0"
proof (induction us i rule: first_free.induct)
  case (2 u us i)
  then show ?case
    by (cases "u = 0") (auto split: option.splits simp: nth_Cons')
qed simp

text \<open>
  \<open>GetReadIndex\<close> hands out the smallest free reader index, marks it as in use and
  makes that reader start at a key frame; it fails only when all sixteen are in use.
\<close>

theorem GetReadIndex_spec:
  assumes "length (mb_isuse p) = 16" "length (mb_overwriteread p) = 16"
  shows "case GetReadIndex (Some p) of (rt, h) \<Rightarrow>
     if rt = MB_INVALID_HANDLE then h = Some p \<and> (\<forall>u \<in> set (mb_isuse p). u \<noteq> 0)
     else \<exists>i p'. rt = int i \<and> i < 16 \<and> h = Some p' \<and> mb_isuse p ! i = 0 \<and>
            (\<forall>j < i. mb_isuse p ! j \<noteq> 0) \<and> mb_isuse p' = (mb_isuse p)[i := 1] \<and>
            mb_overwriteread p' ! i \<noteq> 0"
  using first_free_spec [of "mb_isuse p" 0] assms
  by (auto simp: GetReadIndex_def MB_INVALID_HANDLE_def split: option.splits)

theorem GetReadIndex_spec_witness:
  "case GetReadIndex (Some demo_mb) of (rt, h) \<Rightarrow> \<exists>i. rt = int i \<and> i < 16 \<and> mb_isuse demo_mb ! i = 0"
  using GetReadIndex_spec [of demo_mb]
  by (auto simp: demo_mb_def zero_media_buffer_def split: prod.splits if_splits)

text \<open>
  The range check of \<open>GetReadCount\<close> admits index 16, which lies behind the array:
  that call reads out of bounds, every smaller index is answered.
\<close>

theorem GetReadCount_bounds:
  assumes "length (mb_readcount p) = 16"
  shows "GetReadCount (Some p) index =
     (if index < 0 \<or> 16 < index then Ret 0
      else if index = 16 then UB OobRead
      else Ret (mb_readcount p ! nat index))"
  using assms by (auto simp: GetReadCount_def)

theorem GetReadCount_bounds_witness: "GetReadCount (Some demo_mb) 16 = UB OobRead"
  using GetReadCount_bounds [of demo_mb 16] by (simp add: demo_mb_def zero_media_buffer_def)

section \<open>Resynchronisation and locking\<close>


lemma read_frame_mutex: "read_frame m p i pSize pos = Ret (rt, p', r) \<Longrightarrow> mb_mutex p' = mb_mutex p"
  by (auto simp: read_frame_def Let_def split: if_splits option.splits)

text \<open>
  A successful \<open>ReadBuffer\<close> has already released the mutex (the guard of the
  unlock is an empty statement), so the \<open>unlockRead\<close> that must follow every read
  unlocks a mutex that is not held.
\<close>

theorem unlockRead_after_ReadBuffer:
  assumes "ReadBuffer (Some p) index pSize = Some (Ret (rt, Some p', Some r))"
  shows "unlockRead (Some p') index = UB UnlockNotHeld"
proof -
  have "0 \<le> index \<and> index \<le> 15 \<and> \<not> mb_mutex p'"
    using assms
    by (auto simp: ReadBuffer_def Let_def bnd_Ret_iff dest!: read_frame_mutex
        split: option.splits if_splits outcome.splits prod.splits)
  then show ?thesis by (simp add: unlockRead_def)
qed

section \<open>Writing past the end and over unread frames\<close>

lemma update_rates_no_overflow: "update_rates clk p \<noteq> UB HeapOverflow"
proof -
  have "f_to_int32 x \<noteq> UB HeapOverflow" for x
    by (cases x) (simp_all add: Let_def)
  then show ?thesis by (auto simp: update_rates_def Let_def bnd_def split: outcome.splits)
qed

text \<open>
  C3: the only bound check of \<open>WrtieBuffer\<close> moves the write position to 0; a frame
  that does not fit the whole block is then written past its end. The write is
  free of heap overflow exactly when header and payload fit the block.
\<close>

theorem WrtieBuffer_overflow_iff:
  assumes m: "mb_buf p = Some m" "length m = unat (mb_bufsize p)" and lk: "\<not> mb_mutex p"
    and w: "unat (mb_writepos p) < 2147483648" and s: "unat pSize < 2147483600"
    and d: "length data = unat pSize"
  shows "WrtieBuffer clk (Some p) data pSize ty ts play enc = UB HeapOverflow \<longleftrightarrow>
         unat (mb_bufsize p) < 48 + unat pSize"
proof -
  have u: "unat (mb_writepos p + 48) = unat (mb_writepos p) + 48"
      "unat (mb_writepos p + 48 + pSize) = unat (mb_writepos p) + 48 + unat pSize"
    using w s by (simp_all add: unat_plus_if' word_less_nat_alt)
  have wp: "unat (mb_bufsize q) < unat (wrap_pos q pSize) + 48 + unat pSize \<longleftrightarrow>
        unat (mb_bufsize p) < 48 + unat pSize"
    if "mb_bufsize q = mb_bufsize p" "mb_writepos q = mb_writepos p" for q
    using u that by (auto simp: wrap_pos_def Let_def word_less_nat_alt)
  have wf: "write_frame m q data pSize ty ts play enc = UB HeapOverflow \<longleftrightarrow>
        unat (mb_bufsize p) < 48 + unat pSize"
    if "mb_bufsize q = mb_bufsize p" "mb_writepos q = mb_writepos p" for q
    unfolding write_frame_def Let_def sizeof_bufhdr_def using m(2) d that
      wp [of "q\<lparr>mb_overwriteread := mark_overwritten (mb_writepos q) pSize (mb_readpos q) (mb_overwriteread q)\<rparr>"]
    by simp
  have "bnd (write_frame m q data pSize ty ts play enc)
          (\<lambda>p. bnd (update_rates clk p) (\<lambda>p. Ret (MB_SUCCESS, Some p))) = UB HeapOverflow \<longleftrightarrow>
        unat (mb_bufsize p) < 48 + unat pSize"
    if "mb_bufsize q = mb_bufsize p" "mb_writepos q = mb_writepos p" for q
    using wf [OF that] update_rates_no_overflow
    by (cases "write_frame m q data pSize ty ts play enc") (auto simp: bnd_def split: outcome.splits)
  then show ?thesis using m lk by (auto simp: WrtieBuffer_def Let_def)
qed

theorem WrtieBuffer_overflow_iff_witness:
  "WrtieBuffer (\<lambda>_. (0, 0)) (Some demo_mb) (replicate 400 1) 400 0 0 0 None = UB HeapOverflow"
  using WrtieBuffer_overflow_iff [of demo_mb "replicate 384 0" 400 "replicate 400 1" "\<lambda>_. (0, 0)" 0 0 0 None]
  by (simp add: demo_mb_def zero_media_buffer_def)

lemma WrtieBuffer_wraps:
  assumes rep: "mb_rep p fs" and wraps: "unat (mb_bufsize p) < tot fs + 48 + length (fr_data f)"
    and fits: "48 + length (fr_data f) \<le> unat (mb_bufsize p)"
    and w: "uint (mb_writecount p) < 2 ^ 30" and b: "0 \<le> sint (mb_bitwritecount p)"
      "sint (mb_bitwritecount p) + int (pad (length (fr_data f))) \<le> 2 ^ 30"
  shows "\<exists>p'. WrtieBuffer clk (Some p) (fr_data f) (of_nat (length (fr_data f))) (fr_type f)
                (fr_ts f) (fr_play f) (fr_enc f) = Ret (MB_SUCCESS, Some p') \<and>
     mb_buf p' = Some (store_frame (mb_block p) 0 (hdr_of f (lastpos 0 0 fs) 0) (fr_data f)) \<and>
     mb_readpos p' = mb_readpos p \<and> mb_lastwritepos p' = 0 \<and> mb_writepos p' = of_nat (fsz f) \<and>
     \<not> mb_mutex p' \<and> mb_bufsize p' = mb_bufsize p \<and>
     mb_overwriteread p' = mark_overwritten (of_nat (tot fs)) (of_nat (length (fr_data f)))
        (mb_readpos p) (mb_overwriteread p)"
proof -
  obtain p1 where p1: "write_frame (mb_block p) (wstart clk p) (fr_data f) (of_nat (length (fr_data f)))
       (fr_type f) (fr_ts f) (fr_play f) (fr_enc f) = Ret p1"
     "mb_buf p1 = Some (store_frame (mb_block p) 0 (hdr_of f (lastpos 0 0 fs) 0) (fr_data f))"
     "mb_readpos p1 = mb_readpos p" "mb_lastwritepos p1 = 0" "mb_writepos p1 = of_nat (fsz f)"
     "\<not> mb_mutex p1" "mb_bufsize p1 = mb_bufsize p"
     "mb_overwriteread p1 = mark_overwritten (of_nat (tot fs)) (of_nat (length (fr_data f)))
        (mb_readpos p) (mb_overwriteread p)"
     "mb_writecount p1 = mb_writecount p + 1"
     "mb_bitwritecount p1 = mb_bitwritecount p + of_nat (pad (length (fr_data f)))"
    using write_frame_wraps [of "wstart clk p" fs f] rep wraps fits
      mb_repD(5,10) [of "wstart clk p" fs] unfolding wstart_frame by auto
  note c = counters_advance [OF w b p1(9,10)]
  obtain p2 where p2: "WrtieBuffer clk (Some p) (fr_data f) (of_nat (length (fr_data f))) (fr_type f)
       (fr_ts f) (fr_play f) (fr_enc f) = Ret (MB_SUCCESS, Some p2)" and u: "update_rates clk p1 = Ret p2"
    using WrtieBuffer_lift [OF mb_repD(1,10) [OF rep] p1(1)] w b c by auto
  have "mb_buf p2 = mb_buf p1 \<and> mb_lastwritepos p2 = mb_lastwritepos p1 \<and>
        mb_writepos p2 = mb_writepos p1 \<and> mb_mutex p2 = mb_mutex p1"
    using u by (auto simp: update_rates_def Let_def bnd_Ret_iff split: if_splits)
  then show ?thesis using p2 p1 update_rates_frame [OF u] by auto
qed

text \<open>
  The overwrite check of \<open>WrtieBuffer\<close> looks at the position before the wrap. A
  write that wraps lands on frames a reader has not read yet without raising that
  reader's overwrite flag: the reader's next read silently delivers the new frame
  in place of the oldest unread one, with no resynchronisation on a key frame.
\<close>

theorem wrapped_write_skips_unread:
  assumes rep: "mb_rep p fs" and i: "i < 16" and new: "mb_readpos p ! i = 0" "mb_overwriteread p ! i = 0"
    and wraps: "unat (mb_bufsize p) < tot fs + 48 + length (fr_data f)"
    and fits: "48 + length (fr_data f) \<le> unat (mb_bufsize p)"
    and w: "uint (mb_writecount p) < 2 ^ 30" and b: "0 \<le> sint (mb_bitwritecount p)"
      "sint (mb_bitwritecount p) + int (pad (length (fr_data f))) \<le> 2 ^ 30"
    and room: "pad (length (fr_data f)) \<le> unat pSize"
  shows "\<exists>p' p''. WrtieBuffer clk (Some p) (fr_data f) (of_nat (length (fr_data f))) (fr_type f)
                (fr_ts f) (fr_play f) (fr_enc f) = Ret (MB_SUCCESS, Some p') \<and>
     mb_overwriteread p' ! i = 0 \<and>
     ReadBuffer (Some p') (int i) pSize = Some (Ret (MB_SUCCESS, Some p'', Some (result_of f 0)))"
proof -
  note r = mb_repD [OF rep]
  obtain p' where p': "WrtieBuffer clk (Some p) (fr_data f) (of_nat (length (fr_data f))) (fr_type f)
       (fr_ts f) (fr_play f) (fr_enc f) = Ret (MB_SUCCESS, Some p')"
     "mb_buf p' = Some (store_frame (mb_block p) 0 (hdr_of f (lastpos 0 0 fs) 0) (fr_data f))"
     "mb_readpos p' = mb_readpos p" "mb_writepos p' = of_nat (fsz f)" "\<not> mb_mutex p'"
     "mb_overwriteread p' = mark_overwritten (of_nat (tot fs)) (of_nat (length (fr_data f)))
        (mb_readpos p) (mb_overwriteread p)"
    using WrtieBuffer_wraps [OF rep wraps fits w b, of clk] by blast
  let ?m = "store_frame (mb_block p) 0 (hdr_of f (lastpos 0 0 fs) 0) (fr_data f)"
  have e: "length (h_enc (hdr_of f (lastpos 0 0 fs) 0)) = 8" by (simp add: hdr_of_def)
  have bnd: "0 + 48 + length (fr_data f) \<le> length (mb_block p)" using fits r(2) by simp
  note sf = store_frame_props [OF bnd e]
  have lay: "laid ?m 0 (lastpos 0 0 fs) [f]" using sf bnd by simp
  have len: "length ?m + 3 < 2147483648" using sf(1) r(2,3) by simp
  have ow: "mb_overwriteread p' ! i = 0"
    unfolding p'(6) using i r new mark_overwritten_behind [of i "mb_readpos p"] by simp
  have "fsz f < 4294967296"
    using fits r(3) pad_bounds(2) [of "length (fr_data f)"] by (simp add: fsz_def)
  then have "(0 :: u32) \<noteq> of_nat (fsz f)" using of_nat_eq_iff32 [of 0 "fsz f"] fsz_ge(1) [of f] by simp
  moreover note read_frame_laid [OF lay len room]
  ultimately have "\<exists>p''. ReadBuffer (Some p') (int i) pSize = Some (Ret (MB_SUCCESS, Some p'', Some (result_of f 0)))"
    using i p' new ow by (simp add: ReadBuffer_def Let_def)
  then show ?thesis using p'(1) ow by blast
qed

lemma lastpos_take: "j < length fs \<Longrightarrow> lastpos 0 0 (take (Suc j) fs) = tot (take j fs)"
  by (simp add: take_Suc_conv_app_nth)

text \<open>Behind a frame that was stored at the start of the block the old frames and their links are as before.\<close>

lemma wrapped_headers:
  assumes "laid m 0 0 (f1 # fs)" "48 + length (fr_data f) \<le> fsz f1" "48 + length (fr_data f) \<le> length m" "length (h_enc h) = 8" "j < length fs"
  shows "ld_hdr (store_frame m 0 h (fr_data f)) (tot (take (Suc j) (f1 # fs))) = hdr_of (fs ! j) (tot (take j (f1 # fs))) (tot (take (Suc j) (f1 # fs)))"
    and "tot (take (Suc j) (f1 # fs)) + 48 \<le> length m" and "0 < tot (take (Suc j) (f1 # fs))"
proof -
  let ?q = "tot (take (Suc j) (f1 # fs))"
  have l: "laid m ?q (tot (take j (f1 # fs))) (fs ! j # drop (Suc (Suc j)) (f1 # fs))"
    using laid_nth [OF assms(1), of "Suc j"] lastpos_take [of j "f1 # fs"] assms(5) by simp
  have q: "48 + length (fr_data f) \<le> ?q" using assms(2) by simp
  then have "0 < ?q" by linarith
  with q show "ld_hdr (store_frame m 0 h (fr_data f)) ?q = hdr_of (fs ! j) (tot (take j (f1 # fs))) ?q" "0 < ?q"
    using ld_hdr_store_after [OF _ assms(3,4)] l by simp_all
  show "?q + 48 \<le> length m" using l by simp
qed

text \<open>
  C18: after a wrap the backward links can form a cycle. When a write wraps, the new frame fits the space of the oldest frame and neither it nor any frame behind the oldest is a key frame, every reader
  that has to resynchronise loops for ever (with the mutex held). The buffer may hold any number of frames, at least two.
\<close>

theorem ReadBuffer_loops_after_wrap:
  assumes rep: "mb_rep p (f1 # fs)" "fs \<noteq> []" and i: "i < 16" and flagged: "mb_overwriteread p ! i \<noteq> 0"
    and behind: "mb_readpos p ! i \<noteq> of_nat (fsz f)"
    and nokey: "\<forall>g\<in>set fs. \<not> is_key g" "\<not> is_key f"
    and wraps: "unat (mb_bufsize p) < tot (f1 # fs) + 48 + length (fr_data f)"
    and fits: "48 + length (fr_data f) \<le> fsz f1"
    and w: "uint (mb_writecount p) < 2 ^ 30" and b: "0 \<le> sint (mb_bitwritecount p)"
      "sint (mb_bitwritecount p) + int (pad (length (fr_data f))) \<le> 2 ^ 30"
  shows "\<exists>p'. WrtieBuffer clk (Some p) (fr_data f) (of_nat (length (fr_data f))) (fr_type f)
                (fr_ts f) (fr_play f) (fr_enc f) = Ret (MB_SUCCESS, Some p') \<and>
     ReadBuffer (Some p') (int i) pSize = None"
proof -
  note r = mb_repD [OF rep(1)]
  let ?pos = "\<lambda>j. tot (take j (f1 # fs))" and ?last = "length fs"
  define h where "h = hdr_of f (lastpos 0 0 (f1 # fs)) 0"
  let ?m = "store_frame (mb_block p) 0 h (fr_data f)"
  have e: "length (h_enc h) = 8" by (simp add: h_def hdr_of_def)
  obtain g gs where fs: "fs = g # gs" using rep(2) by (cases fs) auto
  then have "fsz f1 \<le> length (mb_block p)" using r(4) by simp
  then have bnd: "0 + 48 + length (fr_data f) \<le> length (mb_block p)" using fits by simp
  note sf = store_frame_props [OF bnd e] and hd = wrapped_headers [OF r(4) fits bnd [simplified] e]
  have last: "lastpos 0 0 (f1 # fs) = ?pos ?last" using lastpos_take [of ?last "f1 # fs"] by simp
  have small: "?pos (Suc j) < 2147483648" if "j < length fs" for j using hd(2) [OF that] r(2,3) by simp
  have "walk_back ?m 0 cnt = None" for cnt
  proof (rule walk_back_diverges [where S = "(\<lambda>j. of_nat (?pos j)) ` {0..length fs}"])
    fix q :: u32 assume "q \<in> (\<lambda>j. of_nat (?pos j)) ` {0..length fs}"
    then obtain j where j: "j \<le> length fs" "q = of_nat (?pos j)" by auto
    show "0 \<le> sint q \<and> unat q + 44 \<le> length ?m \<and>
      \<not> (h_buftype (ld_hdr ?m (unat q)) = MB_FT_IFRAME \<and> h_flag (ld_hdr ?m (unat q)) = hdr_magic) \<and>
      \<not> (q = 0 \<and> h_prevpos (ld_hdr ?m (unat q)) = 0) \<and> h_prevpos (ld_hdr ?m (unat q)) \<in> (\<lambda>j. of_nat (?pos j)) ` {0..length fs}"
    proof (cases j)
      case 0
      have "(of_nat (?pos ?last) :: u32) \<noteq> 0"
        using small [of "?last - 1"] hd(3) [of "?last - 1"] of_nat_eq_iff32 [of "?pos ?last" 0] fs by simp
      then show ?thesis using 0 j sf(1,2) bnd nokey(2) last by (simp add: h_def hdr_of_def is_key_def)
    next
      case (Suc l)
      then have l: "l < length fs" using j(1) by simp
      have "unat (of_nat n :: u32) = n \<and> 0 \<le> sint (of_nat n :: u32) \<and> (of_nat n :: u32) \<noteq> 0" if "0 < n" "n < 2147483648" for n
        using that of_nat_eq_iff32 [of n 0] by (simp add: sint_of_nat32)
      from this [OF hd(3) [OF l] small [OF l]] have "q \<noteq> 0" "unat q = ?pos (Suc l)" "0 \<le> sint q" unfolding j(2) Suc by blast+
      then show ?thesis using hd(1,2) [OF l] sf(1) nokey(1) l j by (auto simp: hdr_of_def is_key_def)
    qed
  qed (auto intro: image_eqI [of _ _ 0])
  moreover obtain p' where p': "WrtieBuffer clk (Some p) (fr_data f) (of_nat (length (fr_data f))) (fr_type f)
       (fr_ts f) (fr_play f) (fr_enc f) = Ret (MB_SUCCESS, Some p')"
     "mb_buf p' = Some ?m" "mb_readpos p' = mb_readpos p" "mb_lastwritepos p' = 0" "mb_writepos p' = of_nat (fsz f)" "\<not> mb_mutex p'"
     "mb_overwriteread p' = mark_overwritten (of_nat (tot (f1 # fs))) (of_nat (length (fr_data f))) (mb_readpos p) (mb_overwriteread p)"
    using WrtieBuffer_wraps [OF rep(1) wraps _ w b, of clk] bnd r(2) unfolding h_def by auto
  moreover have "mb_overwriteread p' ! i \<noteq> 0"
    unfolding p'(7) using i r flagged by (simp add: mark_overwritten_def)
  ultimately have "ReadBuffer (Some p') (int i) pSize = None"
    using i behind by (simp add: ReadBuffer_def Let_def)
  then show ?thesis using p'(1) by blast
qed

section \<open>Witnesses on a buffer with two frames\<close>

lemma mark_overwritten_start:
  "length fl = 16 \<Longrightarrow> mark_overwritten w n (replicate 16 0) fl = fl"
  by (rule nth_equalityI) (simp_all add: mark_overwritten_def)

lemma demo_frame_sizes [simp]:
  "length (fr_data (demo_frame t n)) = n" "fsz (demo_frame t n) = 48 + pad n"
  by (simp_all add: demo_frame_def fsz_def)

lemma demo_two:
  "\<exists>p. mb_rep p [demo_frame s 140, demo_frame t 140] \<and> mb_bufsize p = 384 \<and>
     mb_readpos p = replicate 16 0 \<and> mb_overwriteread p = replicate 16 v \<and>
     uint (mb_writecount p) = 2 \<and> sint (mb_bitwritecount p) = 280"
proof -
  let ?p0 = "demo_mb\<lparr>mb_overwriteread := replicate 16 v\<rparr>"
  have r0: "mb_rep ?p0 []" by (simp add: mb_rep_def demo_mb_def zero_media_buffer_def)
  have s0: "mb_bufsize ?p0 = 384" "mb_readpos ?p0 = replicate 16 0"
    "mb_overwriteread ?p0 = replicate 16 v" "mb_writecount ?p0 = 0" "mb_bitwritecount ?p0 = 0"
    by (simp_all add: demo_mb_def zero_media_buffer_def)
  obtain p1 where p1: "mb_rep p1 [demo_frame s 140]" "mb_bufsize p1 = 384" "mb_readpos p1 = replicate 16 0"
      "mb_overwriteread p1 = replicate 16 v" "uint (mb_writecount p1) = 1" "sint (mb_bitwritecount p1) = 140"
    using WrtieBuffer_append [OF r0, of "demo_frame s 140" "\<lambda>_. (0, 0)"]
    unfolding s0 by (auto simp: mark_overwritten_start pad_def)
  obtain p2 where "mb_rep p2 ([demo_frame s 140] @ [demo_frame t 140])" "mb_bufsize p2 = 384"
      "mb_readpos p2 = replicate 16 0" "mb_overwriteread p2 = replicate 16 v"
      "uint (mb_writecount p2) = 2" "sint (mb_bitwritecount p2) = 280"
    using WrtieBuffer_append [OF p1(1), of "demo_frame t 140" "\<lambda>_. (0, 0)"]
    unfolding p1 by (auto simp: mark_overwritten_start pad_def)
  then show ?thesis by auto
qed

lemma demo_keys [simp]: "is_key (demo_frame t n) \<longleftrightarrow> t = 1"
  by (simp add: is_key_def demo_frame_def MB_FT_IFRAME_def)


theorem unlockRead_after_ReadBuffer_witness:
  "\<exists>p p' r. ReadBuffer (Some p) 0 200 = Some (Ret (MB_SUCCESS, Some p', Some r)) \<and>
     unlockRead (Some p') 0 = UB UnlockNotHeld"
proof -
  obtain p where p: "mb_rep p [demo_frame 1 140, demo_frame 2 140]" "mb_readpos p = replicate 16 0"
      "mb_overwriteread p = replicate 16 0"
    using demo_two [of 1 2 0] by blast
  obtain p' r where "ReadBuffer (Some p) 0 200 = Some (Ret (MB_SUCCESS, Some p', Some r))"
    using ReadBuffer_next [OF p(1), of 0 0 200] p(2,3) by (auto simp: pad_def)
  then show ?thesis using unlockRead_after_ReadBuffer by blast
qed

theorem wrapped_write_skips_unread_witness:
  "\<exists>p p' p''. mb_rep p [demo_frame 1 140, demo_frame 2 140] \<and> mb_overwriteread p' ! 0 = 0 \<and>
     ReadBuffer (Some p') (int 0) 200 = Some (Ret (MB_SUCCESS, Some p'', Some (result_of (demo_frame 2 100) 0)))"
proof -
  obtain p where p: "mb_rep p [demo_frame 1 140, demo_frame 2 140]" "mb_bufsize p = 384"
      "mb_readpos p = replicate 16 0" "mb_overwriteread p = replicate 16 0"
      "uint (mb_writecount p) = 2" "sint (mb_bitwritecount p) = 280"
    using demo_two [of 1 2 0] by blast
  show ?thesis
    using wrapped_write_skips_unread [OF p(1), of 0 "demo_frame 2 100" 200 "\<lambda>_. (0, 0)"] p
    by (auto simp: pad_def)
qed

theorem ReadBuffer_loops_after_wrap_witness:
  "\<exists>p p'. mb_rep p [demo_frame 2 140, demo_frame 2 140] \<and> ReadBuffer (Some p') (int 0) 200 = None"
proof -
  obtain p where p: "mb_rep p [demo_frame 2 140, demo_frame 2 140]" "mb_bufsize p = 384"
      "mb_readpos p = replicate 16 0" "mb_overwriteread p = replicate 16 1"
      "uint (mb_writecount p) = 2" "sint (mb_bitwritecount p) = 280"
    using demo_two [of 2 2 1] by blast
  show ?thesis
    using ReadBuffer_loops_after_wrap [OF p(1), of 0 "demo_frame 2 100" "\<lambda>_. (0, 0)" 200] p
    by (auto simp: pad_def)
qed

end
