(* ===== verification/SmartLink.thy ===== *)
theory SmartLink
  imports Prelude
begin

text \<open>
  The smart-link sender of \<^verbatim>\<open>smartLink/com_app_jagles_smartlink_SmartLink.c\<close>: it
  broadcasts a Wi-Fi configuration string by the \<^emph>\<open>lengths\<close> of UDP datagrams. The
  state is the file's static variables plus the datagram lengths handed to the
  network so far; the network, the sockets and the interface are an environment
  that is passed in. \<open>char\<close> is unsigned on armeabi-v7a.
\<close>

section \<open>Environment and state\<close>

record sl_env =
  env_gba_socket :: int
  env_ioctl :: int
  env_socket :: int
  env_setsockopt :: int
  env_close :: int
  env_sendto :: "nat \<Rightarrow> int \<times> int"

text \<open>\<open>env_sendto n\<close> is the result of the \<open>n\<close>-th \<open>sendto\<close> of a run and the \<open>errno\<close> it leaves.\<close>

record smart_link =
  m_smart_link_socket_fd :: int
  sendto_ret :: int
  shibai :: int
  fabao :: bool
  sl_errno :: int
  sl_sent :: "int list"

definition sl_buffer_size :: int where "sl_buffer_size = 2000"

section \<open>Sending\<close>

definition smart_link_sendto :: "sl_env \<Rightarrow> smart_link \<Rightarrow> int \<Rightarrow> (int \<times> smart_link) outcome" where
  "smart_link_sendto E s sendbuf_length =
     (if fabao s \<and> (sendbuf_length < 0 \<or> sl_buffer_size < sendbuf_length) then UB OobRead
      else
        let s = (if fabao s
                 then s\<lparr>sendto_ret := fst (env_sendto E (length (sl_sent s))),
                        sl_errno := snd (env_sendto E (length (sl_sent s))),
                        sl_sent := sl_sent s @ [sendbuf_length], shibai := 0\<rparr>
                 else s) in
        if sendto_ret s < 0 then Ret (-1, s\<lparr>shibai := sl_errno s, fabao := False\<rparr>)
        else Ret (0, s))"

text \<open>A run of calls whose results the code ignores.\<close>

fun send_all :: "sl_env \<Rightarrow> smart_link \<Rightarrow> int list \<Rightarrow> smart_link outcome" where
  "send_all E s [] = Ret s"
| "send_all E s (l # ls) = bnd (smart_link_sendto E s l) (\<lambda>(r, s'). send_all E s' ls)"

definition baotou_lengths :: "int \<Rightarrow> int list" where
  "baotou_lengths packet_num = [276, 341, 276, 341, 276, 341,
     342 + packet_num, 1302 + packet_num, 342 + packet_num, 1302 + packet_num]"

definition smart_link_send_baotou :: "sl_env \<Rightarrow> smart_link \<Rightarrow> int \<Rightarrow> smart_link outcome" where
  "smart_link_send_baotou E s packet_num = send_all E s (baotou_lengths packet_num)"

section \<open>Encoding a message\<close>

text \<open>
  \<open>strncpy(message_cun, message, 45)\<close> and \<open>strlen(message_cun)\<close>: with no zero among
  the 45 bytes the length is read past the array.
\<close>

definition message_copy :: "byte list \<Rightarrow> byte list option" where
  "message_copy message =
     (let t = takeWhile (\<lambda>b. b \<noteq> 0) message in if length t < 45 then Some t else None)"

definition digit_hi :: "byte \<Rightarrow> int" where
  "digit_hi b = c_div (uint b - 32) 10"

definition digit_lo :: "byte \<Rightarrow> int" where
  "digit_lo b = c_mod (uint b - 32) 10"

text \<open>The four calls of the second loop for the character at index \<open>k\<close>.\<close>

definition char_lengths :: "nat \<Rightarrow> byte \<Rightarrow> int list" where
  "char_lengths k b =
     [402 + 20 * int k + digit_hi b, 402 + 20 * int k + digit_hi b,
      402 + 20 * int k + 10 + digit_lo b, 402 + 20 * int k + 10 + digit_lo b]"

fun body_lengths :: "nat \<Rightarrow> byte list \<Rightarrow> int list" where
  "body_lengths k [] = []"
| "body_lengths k (b # bs) = char_lengths k b @ body_lengths (Suc k) bs"

definition nk_smart_link_send :: "sl_env \<Rightarrow> smart_link \<Rightarrow> byte list \<Rightarrow> (int \<times> smart_link) outcome" where
  "nk_smart_link_send E s message =
     (case message_copy message of
        None \<Rightarrow> UB OobRead
      | Some cun \<Rightarrow>
          bnd (smart_link_send_baotou E s (int (length cun) - 1)) (\<lambda>s.
          bnd (send_all E s (body_lengths 0 cun)) (\<lambda>s. Ret (shibai s, s))))"

section \<open>Set-up and the whole operation\<close>

text \<open>
  \<open>get_brd_addr\<close> copies the interface name with a bound computed from the name
  itself, so a name of sixteen or more characters overruns \<open>ifr_name\<close>.
\<close>

definition get_brd_addr :: "sl_env \<Rightarrow> byte list \<Rightarrow> int outcome" where
  "get_brd_addr E if_name =
     (if env_gba_socket E < 0 then Ret (-1)
      else if 16 < length if_name + 1 then UB HeapOverflow
      else if env_ioctl E \<noteq> 0 then Ret (-1) else Ret 0)"

definition nk_smart_link_init :: "sl_env \<Rightarrow> smart_link \<Rightarrow> byte list \<Rightarrow> (int \<times> smart_link) outcome" where
  "nk_smart_link_init E s interface =
     (let s = s\<lparr>fabao := True\<rparr> in
      bnd (get_brd_addr E interface) (\<lambda>ret.
      if ret \<noteq> 0 then Ret (1, s)
      else
        let s = s\<lparr>m_smart_link_socket_fd := env_socket E\<rparr> in
        if env_socket E < 0 then Ret (2, s)
        else if env_setsockopt E \<noteq> 0 then Ret (3, s)
        else Ret (0, s)))"

definition nk_smart_link_quit :: "sl_env \<Rightarrow> smart_link \<Rightarrow> int" where
  "nk_smart_link_quit E s = env_close E"

definition JA_smartlink_sendpacket ::
    "sl_env \<Rightarrow> smart_link \<Rightarrow> byte list \<Rightarrow> byte list \<Rightarrow> (int \<times> smart_link) outcome" where
  "JA_smartlink_sendpacket E s netdev msg =
     bnd (nk_smart_link_init E s netdev) (\<lambda>(ret, s).
     if ret = 0 then bnd (nk_smart_link_send E s msg) (\<lambda>(ret, s).
        let _ = nk_smart_link_quit E s in Ret (ret, s))
     else if ret \<noteq> 1 then let _ = nk_smart_link_quit E s in Ret (ret, s)
     else Ret (ret, s))"

definition wlan0 :: "byte list" where
  "wlan0 = [0x77, 0x6c, 0x61, 0x6e, 0x30]"

definition smartLink :: "sl_env \<Rightarrow> smart_link \<Rightarrow> byte list \<Rightarrow> (int \<times> smart_link) outcome" where
  "smartLink E s msg = JA_smartlink_sendpacket E s wlan0 msg"

section \<open>What is put on the air\<close>

definition wire_lengths :: "byte list \<Rightarrow> int list" where
  "wire_lengths cun = baotou_lengths (int (length cun) - 1) @ body_lengths 0 cun"

lemma send_all_append: "send_all E s (xs @ ys) = bnd (send_all E s xs) (\<lambda>s. send_all E s ys)"
proof (induction xs arbitrary: s)
  case (Cons x xs)
  then show ?case by (cases "smart_link_sendto E s x") auto
qed simp

lemma nk_smart_link_send_eq:
  "nk_smart_link_send E s message =
     (case message_copy message of None \<Rightarrow> UB OobRead
      | Some cun \<Rightarrow> bnd (send_all E s (wire_lengths cun)) (\<lambda>s. Ret (shibai s, s)))"
proof -
  have "bnd (send_all E s (wire_lengths cun)) f =
      bnd (send_all E s (baotou_lengths (int (length cun) - 1))) (\<lambda>s. bnd (send_all E s (body_lengths 0 cun)) f)"
    for cun and f :: "smart_link \<Rightarrow> (int \<times> smart_link) outcome"
    by (cases "send_all E s (baotou_lengths (int (length cun) - 1))") (simp_all add: wire_lengths_def send_all_append)
  then show ?thesis by (simp add: nk_smart_link_send_def smart_link_send_baotou_def split: option.split)
qed

text \<open>A receiver's view: datagrams 10, 12, 14, 16, \<dots> carry the two digits of each character.\<close>

fun decode_body :: "nat \<Rightarrow> int list \<Rightarrow> byte list" where
  "decode_body k (a # b # c # d # ls) =
     word_of_int (10 * (a - 402 - 20 * int k) + (c - 412 - 20 * int k) + 32) # decode_body (Suc k) ls"
| "decode_body k _ = []"

definition sl_decode :: "int list \<Rightarrow> byte list" where
  "sl_decode ls = decode_body 0 (drop 10 ls)"

definition printable :: "byte \<Rightarrow> bool" where
  "printable b \<longleftrightarrow> 32 \<le> uint b \<and> uint b < 127"

lemma digit_recompose: "10 * digit_hi b + digit_lo b + 32 = uint b"
  using c_div_mod_eq [of 10 "uint b - 32"] by (simp add: digit_hi_def digit_lo_def)

lemma decode_body_lengths: "decode_body k (body_lengths k bs) = bs"
proof (induction bs arbitrary: k)
  case (Cons b bs)
  have "10 * (402 + 20 * int k + digit_hi b - 402 - 20 * int k) +
        (402 + 20 * int k + 10 + digit_lo b - 412 - 20 * int k) + 32 = uint b"
    using digit_recompose [of b] by simp
  then show ?case using Cons by (simp add: char_lengths_def)
qed simp

lemma c_div10_bounds:
  assumes "-32 \<le> x" "x < 224"
  shows "-3 \<le> c_div x 10 \<and> c_div x 10 \<le> 22 \<and> -9 \<le> c_mod x 10 \<and> c_mod x 10 \<le> 9"
proof (cases "0 \<le> x")
  case True
  then have "c_div x 10 = x div 10" "c_mod x 10 = x mod 10" by (simp_all add: c_div_nonneg c_mod_nonneg)
  with True assms show ?thesis by presburger
next
  case False
  then have d: "c_div x 10 = - ((- x) div 10)" by (simp add: c_div_def sgn_if)
  moreover have "c_mod x 10 = - ((- x) mod 10)"
    using c_div_mod_eq [of 10 x] d div_mult_mod_eq [of "- x" 10] by linarith
  ultimately show ?thesis using False assms by presburger
qed

lemma digit_bounds: "-3 \<le> digit_hi b" "digit_hi b \<le> 22" "-9 \<le> digit_lo b" "digit_lo b \<le> 9"
  using c_div10_bounds [of "uint b - 32"] uint_lt2p [of b]
  by (simp_all add: digit_hi_def digit_lo_def)


section \<open>Runs of datagrams\<close>

definition sl_ok :: "sl_env \<Rightarrow> nat \<Rightarrow> nat \<Rightarrow> bool" where
  "sl_ok E a b \<longleftrightarrow> (\<forall>n\<in>{a..<b}. 0 \<le> fst (env_sendto E n))"

definition fits :: "int \<Rightarrow> bool" where
  "fits l \<longleftrightarrow> 0 \<le> l \<and> l \<le> sl_buffer_size"

lemma smart_link_sendto_ok:
  assumes "fits l" "fabao s" "0 \<le> fst (env_sendto E (length (sl_sent s)))"
  shows "smart_link_sendto E s l = Ret (0, s\<lparr>sendto_ret := fst (env_sendto E (length (sl_sent s))),
     sl_errno := snd (env_sendto E (length (sl_sent s))), sl_sent := sl_sent s @ [l], shibai := 0\<rparr>)"
  using assms by (simp add: smart_link_sendto_def fits_def)

lemma send_all_ok:
  assumes "list_all fits ls" "fabao s" "sl_ok E (length (sl_sent s)) (length (sl_sent s) + length ls)" "ls \<noteq> []"
  shows "\<exists>s'. send_all E s ls = Ret s' \<and> sl_sent s' = sl_sent s @ ls \<and> shibai s' = 0 \<and> fabao s'"
  using assms
proof (induction ls arbitrary: s)
  case (Cons l ls)
  define s1 where "s1 = s\<lparr>sendto_ret := fst (env_sendto E (length (sl_sent s))),
     sl_errno := snd (env_sendto E (length (sl_sent s))), sl_sent := sl_sent s @ [l], shibai := 0\<rparr>"
  have step: "smart_link_sendto E s l = Ret (0, s1)"
    using Cons.prems smart_link_sendto_ok [of l s E] by (simp add: s1_def sl_ok_def)
  have s1: "fabao s1" "sl_sent s1 = sl_sent s @ [l]" "shibai s1 = 0" using Cons.prems by (simp_all add: s1_def)
  show ?case
  proof (cases "ls = []")
    case False
    moreover have "sl_ok E (length (sl_sent s1)) (length (sl_sent s1) + length ls)"
      using Cons.prems by (simp add: sl_ok_def s1)
    ultimately show ?thesis using Cons.IH [of s1] Cons.prems s1 step by auto
  qed (use step s1 in auto)
qed simp

lemma send_all_stopped:
  assumes "\<not> fabao s" "sendto_ret s < 0" "shibai s = sl_errno s"
  shows "send_all E s ls = Ret s"
proof (induction ls)
  case (Cons l ls)
  have "smart_link_sendto E s l = Ret (-1, s)" using assms by (simp add: smart_link_sendto_def)
  then show ?case using Cons by simp
qed simp

lemma send_all_fail:
  assumes "list_all fits ls" "fabao s" "k < length ls"
    "sl_ok E (length (sl_sent s)) (length (sl_sent s) + k)" "fst (env_sendto E (length (sl_sent s) + k)) < 0"
  shows "\<exists>s'. send_all E s ls = Ret s' \<and> sl_sent s' = sl_sent s @ take (Suc k) ls \<and>
     shibai s' = snd (env_sendto E (length (sl_sent s) + k)) \<and> \<not> fabao s'"
  using assms
proof (induction k arbitrary: ls s)
  case 0
  then obtain l ls' where ls: "ls = l # ls'" by (cases ls) auto
  then show ?case using 0 by (simp add: smart_link_sendto_def fits_def send_all_stopped)
next
  case (Suc k)
  then obtain l ls' where ls: "ls = l # ls'" by (cases ls) auto
  define s1 where "s1 = s\<lparr>sendto_ret := fst (env_sendto E (length (sl_sent s))),
     sl_errno := snd (env_sendto E (length (sl_sent s))), sl_sent := sl_sent s @ [l], shibai := 0\<rparr>"
  have step: "smart_link_sendto E s l = Ret (0, s1)"
    using Suc.prems ls smart_link_sendto_ok [of l s E] by (simp add: s1_def sl_ok_def)
  have "sl_ok E (length (sl_sent s1)) (length (sl_sent s1) + k)"
    using Suc.prems by (simp add: sl_ok_def s1_def)
  then show ?case using Suc.IH [of ls' s1] Suc.prems ls step by (simp add: s1_def)
qed

lemma body_lengths_length: "length (body_lengths k bs) = 4 * length bs"
  by (induction bs arbitrary: k) (simp_all add: char_lengths_def)

lemma body_lengths_fit: "k + length bs \<le> 44 \<Longrightarrow> list_all fits (body_lengths k bs)"
proof (induction bs arbitrary: k)
  case (Cons b bs)
  then show ?case using digit_bounds [of b] by (simp add: char_lengths_def fits_def sl_buffer_size_def)
qed simp

lemma wire_lengths_fit: "length cun \<le> 44 \<Longrightarrow> list_all fits (wire_lengths cun)"
  using body_lengths_fit [of 0 cun] by (simp add: wire_lengths_def baotou_lengths_def fits_def sl_buffer_size_def)

lemma wire_lengths_length: "length (wire_lengths cun) = 10 + 4 * length cun"
  by (simp add: wire_lengths_def baotou_lengths_def body_lengths_length)

lemma sl_decode_wire: "sl_decode (wire_lengths cun) = cun"
  by (simp add: sl_decode_def wire_lengths_def baotou_lengths_def decode_body_lengths)

lemma message_copy_SomeD: "message_copy m = Some cun \<Longrightarrow> cun = takeWhile (\<lambda>b. b \<noteq> 0) m \<and> length cun \<le> 44"
  by (auto simp: message_copy_def Let_def split: if_splits)

definition sl_net_up :: "sl_env \<Rightarrow> bool" where
  "sl_net_up E \<longleftrightarrow> 0 \<le> env_gba_socket E \<and> env_ioctl E = 0 \<and> 0 \<le> env_socket E \<and> env_setsockopt E = 0"

definition sl_opened :: "sl_env \<Rightarrow> smart_link \<Rightarrow> smart_link" where
  "sl_opened E s = s\<lparr>fabao := True, m_smart_link_socket_fd := env_socket E\<rparr>"

lemma nk_smart_link_init_up:
  "sl_net_up E \<Longrightarrow> length netdev < 16 \<Longrightarrow> nk_smart_link_init E s netdev = Ret (0, sl_opened E s)"
  by (simp add: nk_smart_link_init_def get_brd_addr_def sl_net_up_def sl_opened_def Let_def)

lemma smartLink_up:
  assumes "sl_net_up E" "message_copy msg = Some cun"
  shows "smartLink E s msg =
     bnd (send_all E (sl_opened E s) (wire_lengths cun)) (\<lambda>s. Ret (shibai s, s))"
proof -
  have "length wlan0 < 16" by (simp add: wlan0_def)
  then show ?thesis using assms
    by (cases "send_all E (sl_opened E s) (wire_lengths cun)")
      (simp_all add: smartLink_def JA_smartlink_sendpacket_def nk_smart_link_init_up nk_smart_link_send_eq)
qed

section \<open>Properties\<close>

definition sl_demo_env :: sl_env where
  "sl_demo_env = \<lparr>env_gba_socket = 5, env_ioctl = 0, env_socket = 6, env_setsockopt = 0, env_close = 0,
     env_sendto = (\<lambda>n. if n = 20 then (-1, 101) else (1, 0))\<rparr>"

definition sl_demo :: smart_link where
  "sl_demo = \<lparr>m_smart_link_socket_fd = 0, sendto_ret = 0, shibai = 0, fabao = False, sl_errno = 0, sl_sent = []\<rparr>"

lemmas sl_demo_simps = sl_demo_env_def sl_demo_def sl_net_up_def sl_ok_def message_copy_def

text \<open>C10: When the sockets can be set up and no send fails, \<open>smartLink\<close> returns 0 for every message
  of at most 44 bytes, the datagrams put on the air are exactly the ten header datagrams and four
  datagrams per character, and the lengths alone determine the message: the receiver's decoding
  of what was sent is the message up to its terminator.\<close>

theorem smartLink_roundtrip:
  assumes "sl_net_up E" "message_copy msg = Some cun"
    "sl_ok E (length (sl_sent s)) (length (sl_sent s) + 10 + 4 * length cun)"
  shows "\<exists>s'. smartLink E s msg = Ret (0, s') \<and>
     length (sl_sent s') = length (sl_sent s) + 10 + 4 * length cun \<and>
     sl_decode (drop (length (sl_sent s)) (sl_sent s')) = takeWhile (\<lambda>b. b \<noteq> 0) msg"
proof -
  have c: "cun = takeWhile (\<lambda>b. b \<noteq> 0) msg" "length cun \<le> 44" using message_copy_SomeD assms(2) by auto
  have "wire_lengths cun \<noteq> []" by (simp add: wire_lengths_def baotou_lengths_def)
  then obtain s' where "send_all E (sl_opened E s) (wire_lengths cun) = Ret s'"
      "sl_sent s' = sl_sent s @ wire_lengths cun" "shibai s' = 0"
    using send_all_ok [of "wire_lengths cun" "sl_opened E s" E] wire_lengths_fit [OF c(2)] assms(3)
    by (auto simp: sl_opened_def wire_lengths_length add.assoc)
  then show ?thesis using assms c by (simp add: smartLink_up wire_lengths_length sl_decode_wire)
qed

theorem smartLink_roundtrip_witness:
  "\<exists>s'. smartLink sl_demo_env sl_demo [0x68, 0x69, 0] = Ret (0, s') \<and>
     length (sl_sent s') = 18 \<and> sl_decode (drop 0 (sl_sent s')) = [0x68, 0x69]"
  using smartLink_roundtrip [of sl_demo_env "[0x68, 0x69, 0]" "[0x68, 0x69]" sl_demo]
  by (simp add: sl_demo_simps)

text \<open>The first datagram that the network refuses ends the transmission: nothing after it is sent,
  and \<open>smartLink\<close> returns the \<open>errno\<close> that this send left, whatever the later calls of the
  loop do.\<close>

theorem smartLink_stops_at_failure:
  assumes "sl_net_up E" "message_copy msg = Some cun" "k < 10 + 4 * length cun"
    "sl_ok E (length (sl_sent s)) (length (sl_sent s) + k)"
    "fst (env_sendto E (length (sl_sent s) + k)) < 0"
  shows "\<exists>s'. smartLink E s msg = Ret (snd (env_sendto E (length (sl_sent s) + k)), s') \<and>
     sl_sent s' = sl_sent s @ take (Suc k) (wire_lengths cun) \<and> \<not> fabao s'"
proof -
  have c: "length cun \<le> 44" using message_copy_SomeD assms(2) by auto
  show ?thesis
    using send_all_fail [of "wire_lengths cun" "sl_opened E s" k E] wire_lengths_fit [OF c] assms
    by (auto simp: smartLink_up wire_lengths_length sl_opened_def)
qed

theorem smartLink_stops_at_failure_witness:
  "\<exists>s'. smartLink sl_demo_env sl_demo [0x61, 0x62, 0x63, 0] = Ret (101, s') \<and>
     sl_sent s' = take 21 (wire_lengths [0x61, 0x62, 0x63]) \<and> \<not> fabao s'"
  using smartLink_stops_at_failure [of sl_demo_env "[0x61, 0x62, 0x63, 0]" "[0x61, 0x62, 0x63]" 20 sl_demo]
  by (simp add: sl_demo_simps)

text \<open>Once the sockets are set up, the only undefined behaviour of \<open>smartLink\<close> is the unbounded
  \<open>strlen\<close> over the 45-byte copy: it happens exactly when the message has 45 or more bytes before its
  terminator (the header promises a maximum of 45). No other message, whatever its bytes and whatever
  the network answers, makes \<open>sendto\<close> read outside its 2000-byte buffer.\<close>

theorem smartLink_overread_iff:
  assumes "sl_net_up E"
  shows "(\<exists>u. smartLink E s msg = UB u) \<longleftrightarrow> 45 \<le> length (takeWhile (\<lambda>b. b \<noteq> 0) msg)"
proof (cases "message_copy msg")
  case None
  have "length wlan0 < 16" by (simp add: wlan0_def)
  then have "smartLink E s msg = UB OobRead" using assms None
    by (simp add: smartLink_def JA_smartlink_sendpacket_def nk_smart_link_init_up nk_smart_link_send_eq)
  moreover have "45 \<le> length (takeWhile (\<lambda>b. b \<noteq> 0) msg)"
    using None by (auto simp: message_copy_def Let_def split: if_splits)
  ultimately show ?thesis by auto
next
  case (Some cun)
  then have c: "cun = takeWhile (\<lambda>b. b \<noteq> 0) msg" "length cun \<le> 44" using message_copy_SomeD by auto
  have "\<exists>t. send_all E s' ls = Ret t" if "list_all fits ls" for s' ls
    using that
  proof (induction ls arbitrary: s')
    case (Cons l ls)
    then show ?case by (auto simp: smart_link_sendto_def fits_def Let_def)
  qed simp
  from this [OF wire_lengths_fit [OF c(2)]] obtain t
    where "send_all E (sl_opened E s) (wire_lengths cun) = Ret t" by blast
  then have "smartLink E s msg = Ret (shibai t, t)" using smartLink_up [OF assms Some] by simp
  then show ?thesis using c by auto
qed

theorem smartLink_overread_iff_witness:
  "\<exists>u. smartLink sl_demo_env sl_demo (replicate 45 0x61 @ [0]) = UB u"
  using smartLink_overread_iff [of sl_demo_env sl_demo "replicate 45 0x61 @ [0]"]
  by (simp add: sl_demo_simps takeWhile_append)

end
