(* ===== verification/AL_Ring.thy ===== *)
theory AL_Ring
  imports Prelude
begin

text \<open>
  The ring buffer of OpenAL-soft (\<^verbatim>\<open>Alc/alcRing.c\<close>) between the capture device and the
  application. Its cells are bytes, its positions count frames. Each operation
  runs inside the ring's critical section and is one atomic step. The products
  of a position and the frame size are bounded by \<open>length * frame_size\<close>, which
  \<open>CreateRingBuffer\<close> has computed already.
\<close>

section \<open>The operations\<close>

record ring_buffer =
  rb_mem :: "byte list"
  rb_frame_size :: int
  rb_length :: int
  rb_read_pos :: int
  rb_write_pos :: int

text \<open>
  \<open>calloc_ok\<close> and \<open>malloc\<close> are the answers of the allocator. When the second one
  fails, the critical section of the freed ring is initialised through NULL.
\<close>

definition CreateRingBuffer ::
    "bool \<Rightarrow> (nat \<Rightarrow> byte list option) \<Rightarrow> int \<Rightarrow> int \<Rightarrow> ring_buffer option outcome" where
  "CreateRingBuffer calloc_ok malloc frame_size len =
     (if \<not> calloc_ok then Ret None
      else
        bnd (s32 (len + 1)) (\<lambda>l.
        bnd (s32 (l * frame_size)) (\<lambda>n.
        case malloc (nat (n mod 2 ^ 32)) of
          None \<Rightarrow> UB NullDeref
        | Some mem \<Rightarrow> Ret (Some \<lparr>rb_mem = mem, rb_frame_size = frame_size, rb_length = l,
                               rb_read_pos = 0, rb_write_pos = 1\<rparr>))))"

text \<open>The remainder of C: undefined for a zero divisor.\<close>

definition mod_or_ub :: "int \<Rightarrow> int \<Rightarrow> int outcome" where
  "mod_or_ub a b = (if b = 0 then UB DivByZero else Ret (c_mod a b))"

definition RingBufferSize :: "ring_buffer \<Rightarrow> int outcome" where
  "RingBufferSize r =
     bnd (s32 (rb_write_pos r - rb_read_pos r - 1 + rb_length r)) (\<lambda>d. mod_or_ub d (rb_length r))"

definition WriteRingBuffer :: "ring_buffer \<Rightarrow> byte list \<Rightarrow> int \<Rightarrow> ring_buffer outcome" where
  "WriteRingBuffer r data len =
     bnd (s32 (rb_read_pos r - rb_write_pos r + rb_length r)) (\<lambda>d.
     bnd (mod_or_ub d (rb_length r)) (\<lambda>remain.
     let len = (if remain < len then remain else len); fs = rb_frame_size r; w = rb_write_pos r in
     if 0 < len then
       let remain = rb_length r - w in
       bnd (if remain < len then
              bnd (mcpy (rb_mem r) (w * fs) data 0 (remain * fs)) (\<lambda>mem.
              mcpy mem 0 data (remain * fs) ((len - remain) * fs))
            else mcpy (rb_mem r) (w * fs) data 0 (len * fs)) (\<lambda>mem.
       bnd (mod_or_ub (w + len) (rb_length r)) (\<lambda>w'.
       Ret (r\<lparr>rb_mem := mem, rb_write_pos := w'\<rparr>)))
     else Ret r))"

text \<open>\<open>data\<close> is the caller's buffer; the result has it with the frames copied in.\<close>

definition ReadRingBuffer :: "ring_buffer \<Rightarrow> byte list \<Rightarrow> int \<Rightarrow> (byte list \<times> ring_buffer) outcome" where
  "ReadRingBuffer r data len =
     (let remain = rb_length r - rb_read_pos r; fs = rb_frame_size r; p = rb_read_pos r in
      bnd (if remain < len then
             bnd (mcpy data 0 (rb_mem r) (p * fs) (remain * fs)) (\<lambda>data.
             mcpy data (remain * fs) (rb_mem r) 0 ((len - remain) * fs))
           else mcpy data 0 (rb_mem r) (p * fs) (len * fs)) (\<lambda>data.
      bnd (mod_or_ub (p + len) (rb_length r)) (\<lambda>p'.
      Ret (data, r\<lparr>rb_read_pos := p'\<rparr>))))"

section \<open>Frames\<close>

definition frame_at :: "nat \<Rightarrow> byte list \<Rightarrow> nat \<Rightarrow> byte list" where
  "frame_at f m i = ld m (i * f) f"

definition frames_of :: "nat \<Rightarrow> byte list \<Rightarrow> nat \<Rightarrow> byte list list" where
  "frames_of f m n = map (frame_at f m) [0..<n]"

lemma frame_at_drop: "frame_at f (drop (k * f) m) i = frame_at f m (k + i)"
  by (simp add: frame_at_def ld_def add_mult_distrib add.commute)

lemma mult_le_bound: "(i::nat) < n \<Longrightarrow> i * f + f \<le> n * f"
  by (metis Suc_leI add.commute mult_Suc mult_le_mono1)

lemma frame_at_st:
  assumes "(w + n) * f \<le> length m" "length bs = n * f"
  shows "frame_at f (st m (w * f) bs) i =
     (if w \<le> i \<and> i < w + n then frame_at f bs (i - w) else frame_at f m i)"
proof -
  have b: "w * f + length bs \<le> length m" using assms by (simp add: add_mult_distrib)
  consider "i < w" | "w \<le> i" "i < w + n" | "w + n \<le> i" by linarith
  then show ?thesis
  proof cases
    case 1
    then show ?thesis using mult_le_bound [of i w f] b by (simp add: frame_at_def ld_st_before)
  next
    case 2
    have "i * f + f \<le> w * f + length bs" using mult_le_bound [OF 2(2), of f] assms(2) by (simp add: add_mult_distrib)
    then show ?thesis using 2 b by (simp add: frame_at_def ld_st_within) (simp add: ld_def diff_mult_distrib)
  next
    case 3
    then have "w * f + length bs \<le> i * f" using assms(2) mult_le_mono1 [OF 3, of f] by (simp add: add_mult_distrib)
    then show ?thesis using 3 b by (simp add: frame_at_def ld_st_after)
  qed
qed

lemma frame_at_ld: "i < n \<Longrightarrow> frame_at f (ld m (k * f) (n * f)) i = frame_at f m (k + i)"
  using mult_le_bound [of i n f]
  by (simp add: frame_at_def ld_def drop_take min_def add_mult_distrib add.commute)


section \<open>The queue a ring holds\<close>

text \<open>
  A ring is well formed when it has room for at least one frame, its positions
  are inside, and twice its length still is an \<open>int\<close>.
\<close>

definition rb_inv :: "ring_buffer \<Rightarrow> bool" where
  "rb_inv r \<longleftrightarrow> 0 < rb_frame_size r \<and> 2 \<le> rb_length r \<and> 2 * rb_length r \<le> 2147483647 \<and>
     0 \<le> rb_read_pos r \<and> rb_read_pos r < rb_length r \<and> 0 \<le> rb_write_pos r \<and> rb_write_pos r < rb_length r \<and>
     int (length (rb_mem r)) = rb_length r * rb_frame_size r"

definition rb_fs :: "ring_buffer \<Rightarrow> nat" where "rb_fs r = nat (rb_frame_size r)"
definition rb_len :: "ring_buffer \<Rightarrow> nat" where "rb_len r = nat (rb_length r)"
definition rb_rd :: "ring_buffer \<Rightarrow> nat" where "rb_rd r = nat (rb_read_pos r)"
definition rb_wr :: "ring_buffer \<Rightarrow> nat" where "rb_wr r = nat (rb_write_pos r)"

definition rb_count :: "ring_buffer \<Rightarrow> nat" where
  "rb_count r = (if rb_rd r < rb_wr r then rb_wr r - rb_rd r else rb_wr r + rb_len r - rb_rd r)"

definition rb_queue :: "ring_buffer \<Rightarrow> byte list list" where
  "rb_queue r = map (\<lambda>j. frame_at (rb_fs r) (rb_mem r) ((rb_rd r + j) mod rb_len r)) [0..<rb_count r]"

lemma length_rb_queue [simp]: "length (rb_queue r) = rb_count r"
  by (simp add: rb_queue_def)

lemma rb_invD:
  assumes "rb_inv r"
  shows "rb_frame_size r = int (rb_fs r)" "rb_length r = int (rb_len r)" "rb_read_pos r = int (rb_rd r)"
    "rb_write_pos r = int (rb_wr r)" "0 < rb_fs r" "2 \<le> rb_len r" "2 * rb_len r \<le> 2147483647"
    "rb_rd r < rb_len r" "rb_wr r < rb_len r" "length (rb_mem r) = rb_len r * rb_fs r"
    "0 < rb_count r" "rb_count r \<le> rb_len r"
proof -
  show f: "rb_frame_size r = int (rb_fs r)" "rb_length r = int (rb_len r)" "rb_read_pos r = int (rb_rd r)"
    "rb_write_pos r = int (rb_wr r)" "0 < rb_fs r" "2 \<le> rb_len r" "2 * rb_len r \<le> 2147483647"
    "rb_rd r < rb_len r" "rb_wr r < rb_len r"
    using assms unfolding rb_inv_def rb_fs_def rb_len_def rb_rd_def rb_wr_def by linarith+
  have "int (length (rb_mem r)) = int (rb_len r * rb_fs r)" using assms f(1,2) by (simp add: rb_inv_def)
  then show "length (rb_mem r) = rb_len r * rb_fs r" by linarith
  show "0 < rb_count r" "rb_count r \<le> rb_len r" using f by (auto simp: rb_count_def)
qed

lemma c_mod_int: "0 < b \<Longrightarrow> c_mod (int a) (int b) = int (a mod b)"
  by (simp add: c_mod_nonneg zmod_int)

lemma mod_or_ub_int [simp]: "0 < b \<Longrightarrow> mod_or_ub (int a) (int b) = Ret (int (a mod b))"
  by (simp add: mod_or_ub_def c_mod_int)

text \<open>The number of free cells and of readable frames as the code computes them.\<close>

lemma free_count:
  assumes "rb_inv r"
  shows "bnd (s32 (rb_read_pos r - rb_write_pos r + rb_length r)) (\<lambda>d. mod_or_ub d (rb_length r)) =
     Ret (int (rb_len r - rb_count r))"
proof -
  note D = rb_invD [OF assms]
  have "rb_read_pos r - rb_write_pos r + rb_length r = int (rb_rd r + rb_len r - rb_wr r)" using D by simp
  moreover have "(rb_rd r + rb_len r - rb_wr r) mod rb_len r = rb_len r - rb_count r"
    using D(6,8,9) by (cases "rb_rd r < rb_wr r") (auto simp: rb_count_def mod_if)
  ultimately show ?thesis using D(2,6,7,8,9) mod_or_ub_int [of "rb_len r" "rb_rd r + rb_len r - rb_wr r"]
    by (simp del: mod_or_ub_int of_nat_diff)
qed

lemma RingBufferSize_eq: "rb_inv r \<Longrightarrow> RingBufferSize r = Ret (int (rb_count r - 1))"
proof -
  assume a: "rb_inv r"
  note D = rb_invD [OF a]
  have "rb_write_pos r - rb_read_pos r - 1 + rb_length r = int (rb_wr r + rb_len r - rb_rd r - 1)" using D by simp
  moreover have "(rb_wr r + rb_len r - rb_rd r - 1) mod rb_len r = rb_count r - 1"
    using D(6,8,9) by (cases "rb_rd r < rb_wr r") (auto simp: rb_count_def mod_if)
  ultimately show ?thesis using D(2,6,7,8,9) mod_or_ub_int [of "rb_len r" "rb_wr r + rb_len r - rb_rd r - 1"]
    by (simp add: RingBufferSize_def del: mod_or_ub_int of_nat_diff)
qed

text \<open>A copy into the ring from position \<open>w\<close> on, in one or two pieces.\<close>

lemma copy_in:
  assumes m: "length m = l * f" and w: "w < l" and n: "n \<le> l" and d: "n * f \<le> length data"
  shows "\<exists>m'. (if int l - int w < int n then
              bnd (mcpy m (int w * int f) data 0 ((int l - int w) * int f)) (\<lambda>mem.
              mcpy mem 0 data ((int l - int w) * int f) ((int n - (int l - int w)) * int f))
            else mcpy m (int w * int f) data 0 (int n * int f)) = Ret m' \<and> length m' = l * f \<and>
     (\<forall>i<l. frame_at f m' i = (if w \<le> i \<and> i < w + n then frame_at f data (i - w)
        else if i + l < w + n then frame_at f data (i + l - w) else frame_at f m i))"
proof (cases "l < w + n")
  case True
  define a where "a = l - w"
  define b where "b = n - a"
  have ab: "w + a = l" "a + b = n" "b \<le> w" using True w n by (auto simp: a_def b_def)
  have d1: "int l - int w = int a" "int n - int a = int b" using ab by linarith+
  have e: "(int l - int w) * int f = int (a * f)" "(int n - (int l - int w)) * int f = int (b * f)"
    by (simp_all add: d1)
  have sz: "w * f + a * f = l * f" "a * f + b * f = n * f" "b * f \<le> l * f"
    using ab by (auto simp flip: add_mult_distrib intro!: mult_le_mono1)
  define m1 where "m1 = st m (w * f) (ld data 0 (a * f))"
  define m2 where "m2 = st m1 0 (ld data (a * f) (b * f))"
  have l1: "length m1 = l * f" using m sz d by (simp add: m1_def)
  have l2: "length m2 = l * f" using l1 sz d by (simp add: m2_def)
  have c: "mcpy m (int w * int f) data 0 (int (a * f)) = Ret m1"
      "mcpy m1 0 data (int (a * f)) (int (b * f)) = Ret m2"
    using mcpy_ok [of "w * f" "a * f" m 0 data] mcpy_ok [of 0 "b * f" m1 "a * f" data] m l1 sz d
    by (simp_all add: m1_def m2_def)
  have "frame_at f m2 i = (if w \<le> i \<and> i < w + n then frame_at f data (i - w)
        else if i + l < w + n then frame_at f data (i + l - w) else frame_at f m i)" if "i < l" for i
  proof -
    have "frame_at f m2 i = (if i < b then frame_at f data (a + i) else frame_at f m1 i)"
      using frame_at_st [of 0 b f m1 "ld data (a * f) (b * f)" i] frame_at_ld [of i b f data a] l1 sz d
      by (auto simp: m2_def)
    moreover have "frame_at f m1 i = (if w \<le> i then frame_at f data (i - w) else frame_at f m i)"
      using frame_at_st [of w a f m "ld data 0 (a * f)" i] frame_at_ld [of "i - w" a f data 0] m sz d ab that
      by (auto simp: m1_def)
    moreover have "i + l - w = a + i" "i + l < w + n \<longleftrightarrow> i < b" using ab by auto
    ultimately show ?thesis using ab that by auto
  qed
  then show ?thesis using True c e l2 w by auto
next
  case False
  define m1 where "m1 = st m (w * f) (ld data 0 (n * f))"
  have sz: "w * f + n * f \<le> l * f" using False by (auto simp flip: add_mult_distrib intro!: mult_le_mono1)
  have c: "mcpy m (int w * int f) data 0 (int n * int f) = Ret m1"
    using mcpy_ok [of "w * f" "n * f" m 0 data] m sz d by (simp add: m1_def)
  have "frame_at f m1 i = (if w \<le> i \<and> i < w + n then frame_at f data (i - w) else frame_at f m i)" for i
    using frame_at_st [of w n f m "ld data 0 (n * f)" i] frame_at_ld [of "i - w" n f data 0] m sz d
    by (auto simp: m1_def add_mult_distrib)
  then show ?thesis using False c m sz d by (auto simp: m1_def)
qed


lemma copy_out:
  assumes m: "length m = l * f" and p: "p < l" and n: "n \<le> l" and d: "n * f \<le> length data"
  shows "\<exists>d'. (if int l - int p < int n then
             bnd (mcpy data 0 m (int p * int f) ((int l - int p) * int f)) (\<lambda>data.
             mcpy data ((int l - int p) * int f) m 0 ((int n - (int l - int p)) * int f))
           else mcpy data 0 m (int p * int f) (int n * int f)) = Ret d' \<and> length d' = length data \<and>
     (\<forall>j<n. frame_at f d' j = frame_at f m ((p + j) mod l))"
proof (cases "l < p + n")
  case True
  define a where "a = l - p"
  define b where "b = n - a"
  have ab: "p + a = l" "a + b = n" "b \<le> p" using True p n by (auto simp: a_def b_def)
  have d1: "int l - int p = int a" "int n - int a = int b" using ab by linarith+
  have sz: "p * f + a * f = l * f" "a * f + b * f = n * f" "b * f \<le> l * f"
    using ab by (auto simp flip: add_mult_distrib intro!: mult_le_mono1)
  define e1 where "e1 = st data 0 (ld m (p * f) (a * f))"
  define e2 where "e2 = st e1 (a * f) (ld m 0 (b * f))"
  have l1: "length e1 = length data" using m sz d by (simp add: e1_def)
  have l2: "length e2 = length data" using m l1 sz d by (simp add: e2_def)
  have c: "mcpy data 0 m (int p * int f) (int a * int f) = Ret e1" "mcpy e1 (int a * int f) m 0 (int b * int f) = Ret e2"
    using mcpy_ok [of 0 "a * f" data "p * f" m] mcpy_ok [of "a * f" "b * f" e1 0 m] m l1 sz d
    by (simp_all add: e1_def e2_def)
  have "frame_at f e2 j = frame_at f m ((p + j) mod l)" if "j < n" for j
  proof -
    have "frame_at f e2 j = (if a \<le> j then frame_at f m (j - a) else frame_at f e1 j)"
      using frame_at_st [of a b f e1 "ld m 0 (b * f)" j] frame_at_ld [of "j - a" b f m 0] l1 sz d m ab that
      by (auto simp: e2_def add_mult_distrib)
    moreover have "j < a \<Longrightarrow> frame_at f e1 j = frame_at f m (p + j)"
      using frame_at_st [of 0 a f data "ld m (p * f) (a * f)" j] frame_at_ld [of j a f m p] m sz d
      by (auto simp: e1_def)
    moreover have "(p + j) mod l = (if j < a then p + j else j - a)"
      using ab p n that by (auto simp: mod_if)
    ultimately show ?thesis by simp
  qed
  then show ?thesis using True c d1 l2 p by auto
next
  case False
  define e1 where "e1 = st data 0 (ld m (p * f) (n * f))"
  have sz: "p * f + n * f \<le> l * f" using False by (auto simp flip: add_mult_distrib intro!: mult_le_mono1)
  have c: "mcpy data 0 m (int p * int f) (int n * int f) = Ret e1"
    using mcpy_ok [of 0 "n * f" data "p * f" m] m sz d by (simp add: e1_def)
  have "frame_at f e1 j = frame_at f m ((p + j) mod l)" if "j < n" for j
    using frame_at_st [of 0 n f data "ld m (p * f) (n * f)" j] frame_at_ld [of j n f m p] m sz d that False
    by (auto simp: e1_def)
  then show ?thesis using False c m sz d by (auto simp: e1_def)
qed

lemma WriteRingBuffer_body:
  assumes "rb_inv r"
  shows "WriteRingBuffer r data len =
     (let remain = int (rb_len r - rb_count r); len = (if remain < len then remain else len);
          fs = rb_frame_size r; w = rb_write_pos r in
      if 0 < len then
        let remain = rb_length r - w in
        bnd (if remain < len then
               bnd (mcpy (rb_mem r) (w * fs) data 0 (remain * fs)) (\<lambda>mem.
               mcpy mem 0 data (remain * fs) ((len - remain) * fs))
             else mcpy (rb_mem r) (w * fs) data 0 (len * fs)) (\<lambda>mem.
        bnd (mod_or_ub (w + len) (rb_length r)) (\<lambda>w'.
        Ret (r\<lparr>rb_mem := mem, rb_write_pos := w'\<rparr>)))
      else Ret r)"
proof -
  obtain d where "s32 (rb_read_pos r - rb_write_pos r + rb_length r) = Ret d"
      "mod_or_ub d (rb_length r) = Ret (int (rb_len r - rb_count r))"
    using free_count [OF assms] by (auto simp: bnd_Ret_iff)
  then show ?thesis by (simp only: WriteRingBuffer_def bnd_simps Let_def)
qed

text \<open>Writing appends what fits; the rest of the data is dropped.\<close>

lemma WriteRingBuffer_appends:
  assumes inv: "rb_inv r" and k: "k = min (nat len) (rb_len r - rb_count r)" and d: "k * rb_fs r \<le> length data"
  shows "\<exists>r'. WriteRingBuffer r data len = Ret r' \<and> rb_inv r' \<and> rb_fs r' = rb_fs r \<and> rb_len r' = rb_len r \<and>
     rb_queue r' = rb_queue r @ frames_of (rb_fs r) data k"
proof (cases "k = 0")
  case True
  then have "\<not> 0 < (if int (rb_len r - rb_count r) < len then int (rb_len r - rb_count r) else len)"
    using k by (auto split: if_splits)
  then have "WriteRingBuffer r data len = Ret r"
    by (simp only: WriteRingBuffer_body [OF inv] Let_def if_False)
  then show ?thesis using True inv by (simp add: frames_of_def)
next
  case False
  note D = rb_invD [OF inv]
  define w l f c where "w = rb_wr r" and "l = rb_len r" and "f = rb_fs r" and "c = rb_count r"
  have len: "(if int (l - c) < len then int (l - c) else len) = int k" using False k by (auto simp: l_def c_def)
  have kl: "k \<le> l" "c + k \<le> l" using k D by (auto simp: l_def c_def)
  obtain m' where m': "(if int l - int w < int k then
        bnd (mcpy (rb_mem r) (int w * int f) data 0 ((int l - int w) * int f)) (\<lambda>mem.
        mcpy mem 0 data ((int l - int w) * int f) ((int k - (int l - int w)) * int f))
      else mcpy (rb_mem r) (int w * int f) data 0 (int k * int f)) = Ret m'" "length m' = l * f"
    and fr: "\<forall>i<l. frame_at f m' i = (if w \<le> i \<and> i < w + k then frame_at f data (i - w)
        else if i + l < w + k then frame_at f data (i + l - w) else frame_at f (rb_mem r) i)"
    using copy_in [of "rb_mem r" l f w k data] D kl d by (auto simp: l_def f_def w_def)
  define r' where "r' = r\<lparr>rb_mem := m', rb_write_pos := int ((w + k) mod l)\<rparr>"
  have W: "WriteRingBuffer r data len = Ret r'"
    unfolding WriteRingBuffer_body [OF inv] Let_def c_def [symmetric] l_def [symmetric] len D(1,2,4)
      f_def [symmetric] w_def [symmetric] m'(1)
    using False mod_or_ub_int [of l "w + k"] D(6) by (simp add: r'_def l_def)
  have nats: "rb_fs r' = f" "rb_len r' = l" "rb_rd r' = rb_rd r" "rb_wr r' = (w + k) mod l"
    by (simp_all add: r'_def rb_fs_def rb_len_def rb_rd_def rb_wr_def f_def l_def)
  have inv': "rb_inv r'" using inv D m'(2) by (simp add: rb_inv_def r'_def l_def f_def)
  have cnt: "rb_count r' = c + k"
    using kl D(6,8,9) False by (auto simp: rb_count_def nats c_def w_def l_def mod_if split: if_splits)
  have "rb_queue r' ! j = (rb_queue r @ frames_of f data k) ! j" if "j < c + k" for j
  proof -
    define i where "i = (rb_rd r + j) mod l"
    have i: "i < l" using D by (simp add: i_def l_def)
    have "i = (if j < c then i else if w + (j - c) < l then w + (j - c) else w + (j - c) - l)"
      using that kl D(6,8,9) by (auto simp: i_def c_def rb_count_def w_def l_def mod_if split: if_splits)
    moreover have "\<not> (w \<le> i \<and> i < w + k) \<and> \<not> i + l < w + k" if "j < c"
      using that kl D(6,8,9) by (auto simp: i_def c_def rb_count_def w_def l_def mod_if split: if_splits)
    ultimately have "frame_at f m' i = (if j < c then frame_at f (rb_mem r) i else frame_at f data (j - c))"
      using fr i that kl by (auto split: if_splits)
    then show ?thesis using that cnt nats
      by (simp add: rb_queue_def nth_append frames_of_def r'_def i_def [symmetric] c_def [symmetric] f_def [symmetric] l_def [symmetric])
  qed
  then have "rb_queue r' = rb_queue r @ frames_of f data k"
    using cnt by (intro nth_equalityI) (simp_all add: c_def frames_of_def)
  then show ?thesis using W inv' nats by (auto simp: f_def l_def)
qed


text \<open>Reading takes from the front.\<close>

lemma ReadRingBuffer_takes:
  assumes inv: "rb_inv r" and k: "k < rb_count r" and d: "k * rb_fs r \<le> length data"
  shows "\<exists>d' r'. ReadRingBuffer r data (int k) = Ret (d', r') \<and> rb_inv r' \<and> rb_fs r' = rb_fs r \<and> rb_len r' = rb_len r \<and>
     length d' = length data \<and> frames_of (rb_fs r) d' k = take k (rb_queue r) \<and> rb_queue r' = drop k (rb_queue r)"
proof -
  note D = rb_invD [OF inv]
  define p l f c where "p = rb_rd r" and "l = rb_len r" and "f = rb_fs r" and "c = rb_count r"
  have kl: "k \<le> l" "k < c" "c \<le> l" using k D by (auto simp: l_def c_def)
  obtain d' where d': "(if int l - int p < int k then
             bnd (mcpy data 0 (rb_mem r) (int p * int f) ((int l - int p) * int f)) (\<lambda>data.
             mcpy data ((int l - int p) * int f) (rb_mem r) 0 ((int k - (int l - int p)) * int f))
           else mcpy data 0 (rb_mem r) (int p * int f) (int k * int f)) = Ret d'" "length d' = length data"
    and fr: "\<forall>j<k. frame_at f d' j = frame_at f (rb_mem r) ((p + j) mod l)"
    using copy_out [of "rb_mem r" l f p k data] D kl d by (auto simp: l_def f_def p_def)
  define r' where "r' = r\<lparr>rb_read_pos := int ((p + k) mod l)\<rparr>"
  have R: "ReadRingBuffer r data (int k) = Ret (d', r')"
    unfolding ReadRingBuffer_def Let_def D(1,2,3) f_def [symmetric] p_def [symmetric] l_def [symmetric] d'(1)
    using mod_or_ub_int [of l "p + k"] D(6) by (simp add: r'_def l_def)
  have nats: "rb_fs r' = f" "rb_len r' = l" "rb_wr r' = rb_wr r" "rb_rd r' = (p + k) mod l"
    by (simp_all add: r'_def rb_fs_def rb_len_def rb_rd_def rb_wr_def f_def l_def)
  have inv': "rb_inv r'" using inv D by (simp add: rb_inv_def r'_def l_def)
  have cnt: "rb_count r' = c - k"
    using kl D(6,8,9) by (auto simp: rb_count_def nats c_def p_def l_def mod_if split: if_splits)
  have "frames_of f d' k = take k (rb_queue r)"
    using fr kl by (intro nth_equalityI) (simp_all add: frames_of_def rb_queue_def c_def f_def p_def l_def)
  moreover have "rb_queue r' = drop k (rb_queue r)"
  proof (rule nth_equalityI)
    have mem: "rb_mem r' = rb_mem r" by (simp add: r'_def)
    fix i assume "i < length (rb_queue r')"
    then have i: "i < c - k" using cnt by simp
    then show "rb_queue r' ! i = drop k (rb_queue r) ! i"
      using cnt nats mem kl by (simp add: rb_queue_def c_def [symmetric] f_def [symmetric] l_def [symmetric] p_def [symmetric] mod_add_left_eq add.assoc)
  qed (use cnt in \<open>simp add: c_def\<close>)
  ultimately show ?thesis using R inv' nats d'(2) by (auto simp: f_def l_def)
qed

lemma take_drop_last:
  "xs \<noteq> [] \<Longrightarrow> take (length xs - 1) xs = butlast xs \<and> drop (length xs - 1) xs = [last xs]"
  by (cases xs rule: rev_cases) simp_all

section \<open>Streaming\<close>

text \<open>
  A bounded queue promises that an enqueue appends what fits and that a dequeue
  of fewer elements than are held takes them from the front. Any interleaving of
  the two then delivers the accepted elements in order.
\<close>

datatype 'a qop = Enq "'a list" | Deq nat

primrec elem_op :: "('a \<Rightarrow> bool) \<Rightarrow> 'a qop \<Rightarrow> bool" where
  "elem_op P (Enq xs) = list_all P xs"
| "elem_op P (Deq n) = True"

text \<open>The elements accepted and delivered by a run; a dequeue beyond what is held is skipped.\<close>

fun qrun :: "('s \<Rightarrow> 'a list \<Rightarrow> 's option) \<Rightarrow> ('s \<Rightarrow> nat \<Rightarrow> ('a list \<times> 's) option) \<Rightarrow> ('s \<Rightarrow> 'a list) \<Rightarrow> ('s \<Rightarrow> nat) \<Rightarrow>
    's \<Rightarrow> 'a qop list \<Rightarrow> ('a list \<times> 'a list \<times> 's) option" where
  "qrun enq deq held cap s [] = Some ([], [], s)"
| "qrun enq deq held cap s (Enq xs # ops) = (case enq s xs of None \<Rightarrow> None | Some s' \<Rightarrow>
     (case qrun enq deq held cap s' ops of None \<Rightarrow> None | Some (acc, out, t) \<Rightarrow>
        Some (take (cap s - length (held s)) xs @ acc, out, t)))"
| "qrun enq deq held cap s (Deq n # ops) = (if n < length (held s) then
     (case deq s n of None \<Rightarrow> None | Some (ys, s') \<Rightarrow>
        (case qrun enq deq held cap s' ops of None \<Rightarrow> None | Some (acc, out, t) \<Rightarrow> Some (acc, ys @ out, t)))
     else qrun enq deq held cap s ops)"

locale bounded_queue =
  fixes enq :: "'s \<Rightarrow> 'a list \<Rightarrow> 's option"
    and deq :: "'s \<Rightarrow> nat \<Rightarrow> ('a list \<times> 's) option"
    and held :: "'s \<Rightarrow> 'a list"
    and cap :: "'s \<Rightarrow> nat"
    and ok :: "'s \<Rightarrow> bool"
    and elem :: "'s \<Rightarrow> 'a \<Rightarrow> bool"
  assumes enq_appends: "ok s \<Longrightarrow> list_all (elem s) xs \<Longrightarrow> \<exists>s'. enq s xs = Some s' \<and> ok s' \<and> elem s' = elem s \<and>
      cap s' = cap s \<and> held s' = held s @ take (cap s - length (held s)) xs"
    and deq_takes: "ok s \<Longrightarrow> n < length (held s) \<Longrightarrow> \<exists>s'. deq s n = Some (take n (held s), s') \<and> ok s' \<and>
      elem s' = elem s \<and> cap s' = cap s \<and> held s' = drop n (held s)"
begin

definition elems_ok :: "'s \<Rightarrow> 'a qop list \<Rightarrow> bool" where
  "elems_ok s ops = list_all (elem_op (elem s)) ops"

lemma conservation:
  "ok s \<Longrightarrow> elems_ok s ops \<Longrightarrow>
   \<exists>acc out t. qrun enq deq held cap s ops = Some (acc, out, t) \<and> ok t \<and> out @ held t = held s @ acc"
proof (induction ops arbitrary: s)
  case Nil
  then show ?case by simp
next
  case (Cons q ops)
  show ?case
  proof (cases q)
    case (Enq xs)
    then have "list_all (elem s) xs" using Cons.prems by (simp add: elems_ok_def)
    from enq_appends [OF Cons.prems(1) this] obtain s' where s': "enq s xs = Some s'" "ok s'" "elem s' = elem s"
      "held s' = held s @ take (cap s - length (held s)) xs" by blast
    moreover have "elems_ok s' ops" using Cons.prems s' by (simp add: elems_ok_def)
    ultimately obtain acc out t where "qrun enq deq held cap s' ops = Some (acc, out, t)" "ok t" "out @ held t = held s' @ acc"
      using Cons.IH [of s'] by blast
    then show ?thesis using Enq s' by simp
  next
    case (Deq n)
    show ?thesis
    proof (cases "n < length (held s)")
      case True
      from deq_takes [OF Cons.prems(1) this] obtain s' where s': "deq s n = Some (take n (held s), s')" "ok s'"
        "elem s' = elem s" "held s' = drop n (held s)" by blast
      moreover have "elems_ok s' ops" using Cons.prems s' by (simp add: elems_ok_def)
      ultimately obtain acc out t where "qrun enq deq held cap s' ops = Some (acc, out, t)" "ok t" "out @ held t = held s' @ acc"
        using Cons.IH [of s'] by blast
      then show ?thesis using Deq s' True by (simp add: append.assoc [symmetric] del: append.assoc)
    next
      case False
      then show ?thesis using Deq Cons.IH [of s] Cons.prems by (simp add: elems_ok_def)
    qed
  qed
qed

end


section \<open>The ring is a bounded queue\<close>

definition ring_put :: "ring_buffer \<Rightarrow> byte list list \<Rightarrow> ring_buffer option" where
  "ring_put r xs = (case WriteRingBuffer r (concat xs) (int (length xs)) of Ret r' \<Rightarrow> Some r' | _ \<Rightarrow> None)"

definition ring_get :: "ring_buffer \<Rightarrow> nat \<Rightarrow> (byte list list \<times> ring_buffer) option" where
  "ring_get r n = (case ReadRingBuffer r (replicate (n * rb_fs r) 0) (int n) of
     Ret (d, r') \<Rightarrow> Some (frames_of (rb_fs r) d n, r') | _ \<Rightarrow> None)"

definition ring_frame :: "ring_buffer \<Rightarrow> byte list \<Rightarrow> bool" where
  "ring_frame r x \<longleftrightarrow> length x = rb_fs r"

lemma concat_frames:
  assumes "list_all (\<lambda>x. length x = f) xs"
  shows "length (concat xs) = length xs * f \<and> (\<forall>n\<le>length xs. frames_of f (concat xs) n = take n xs)"
  using assms
proof (induction xs)
  case (Cons x xs)
  have "frames_of f (x @ concat xs) n = take n (x # xs)" if n: "n \<le> Suc (length xs)" for n
  proof (cases n)
    case (Suc k)
    have x: "length x = f" using Cons.prems by simp
    have "frame_at f (x @ concat xs) (Suc i) = frame_at f (concat xs) i" for i
      using frame_at_drop [of f 1 "x @ concat xs" i] x by simp
    moreover have "frame_at f (x @ concat xs) 0 = x" using x by (simp add: frame_at_def ld_def)
    moreover have "frames_of f (concat xs) k = take k xs" using Cons Suc n by simp
    ultimately show ?thesis using Suc
      by (simp add: frames_of_def upt_conv_Cons map_Suc_upt [symmetric] del: upt_Suc map_Suc_upt)
        (simp add: comp_def map_Suc_upt [symmetric] del: map_Suc_upt)
  qed (simp add: frames_of_def)
  then show ?case using Cons by simp
qed (simp add: frames_of_def)

lemma ring_put_appends:
  assumes "rb_inv r" "list_all (ring_frame r) xs"
  shows "\<exists>r'. ring_put r xs = Some r' \<and> rb_inv r' \<and> ring_frame r' = ring_frame r \<and> rb_len r' = rb_len r \<and>
     rb_queue r' = rb_queue r @ take (rb_len r - length (rb_queue r)) xs"
proof -
  define k where "k = min (nat (int (length xs))) (rb_len r - rb_count r)"
  have c: "length (concat xs) = length xs * rb_fs r" "frames_of (rb_fs r) (concat xs) k = take k xs"
    using concat_frames [of "rb_fs r" xs] assms(2) by (simp_all add: ring_frame_def [abs_def] k_def)
  have "k * rb_fs r \<le> length (concat xs)" unfolding c(1) by (rule mult_le_mono1) (simp add: k_def)
  from WriteRingBuffer_appends [OF assms(1) k_def this] obtain r' where
    "WriteRingBuffer r (concat xs) (int (length xs)) = Ret r'" "rb_inv r'" "rb_fs r' = rb_fs r" "rb_len r' = rb_len r"
    "rb_queue r' = rb_queue r @ take k xs" using c(2) by auto
  moreover have "take k xs = take (rb_len r - rb_count r) xs" by (simp add: k_def min_def)
  ultimately show ?thesis by (simp add: ring_put_def ring_frame_def [abs_def])
qed

lemma ring_get_takes:
  assumes "rb_inv r" "n < length (rb_queue r)"
  shows "\<exists>r'. ring_get r n = Some (take n (rb_queue r), r') \<and> rb_inv r' \<and> ring_frame r' = ring_frame r \<and>
     rb_len r' = rb_len r \<and> rb_queue r' = drop n (rb_queue r)"
  using ReadRingBuffer_takes [of r n "replicate (n * rb_fs r) 0"] assms
  by (auto simp: ring_get_def ring_frame_def [abs_def])

interpretation rq: bounded_queue ring_put ring_get rb_queue rb_len rb_inv ring_frame
  by unfold_locales (use ring_put_appends ring_get_takes in blast)+

section \<open>Properties\<close>

definition demo_ring :: ring_buffer where
  "demo_ring = \<lparr>rb_mem = [7, 7, 1, 2, 7, 7, 7, 7], rb_frame_size = 2, rb_length = 4, rb_read_pos = 0, rb_write_pos = 2\<rparr>"

text \<open>C17: A ring that is created for \<open>len\<close> frames reports no readable frame, has room for exactly \<open>len\<close>
  frames, and holds in front of everything that will be written one frame of uninitialised memory.
  When the memory of the ring cannot be allocated the code uses the freed ring through NULL.\<close>

theorem CreateRingBuffer_correct:
  assumes "0 < fs" "1 \<le> len" "2 * (len + 1) \<le> 2147483647" "(len + 1) * fs \<le> 2147483647"
    and "\<And>n b. malloc n = Some b \<Longrightarrow> length b = n"
  shows "case malloc (nat ((len + 1) * fs)) of
      None \<Rightarrow> CreateRingBuffer True malloc fs len = UB NullDeref
    | Some mem \<Rightarrow> \<exists>r. CreateRingBuffer True malloc fs len = Ret (Some r) \<and> rb_inv r \<and>
        RingBufferSize r = Ret 0 \<and> rb_queue r = [take (nat fs) mem] \<and> int (rb_len r - rb_count r) = len"
proof -
  have pos: "0 \<le> (len + 1) * fs" using assms by simp
  have s: "s32 (len + 1) = Ret (len + 1)" "s32 ((len + 1) * fs) = Ret ((len + 1) * fs)"
      "((len + 1) * fs) mod 2 ^ 32 = (len + 1) * fs" using assms pos by (simp, intro s32_ok, linarith+, simp)
  show ?thesis
  proof (cases "malloc (nat ((len + 1) * fs))")
    case None
    then show ?thesis using s by (simp add: CreateRingBuffer_def)
  next
    case (Some mem)
    define r where "r = \<lparr>rb_mem = mem, rb_frame_size = fs, rb_length = len + 1, rb_read_pos = 0, rb_write_pos = 1\<rparr>"
    have "CreateRingBuffer True malloc fs len = Ret (Some r)" using Some s by (simp add: CreateRingBuffer_def r_def)
    moreover have inv: "rb_inv r" using assms(1-4) assms(5) [OF Some] pos by (simp add: rb_inv_def r_def)
    moreover have n: "rb_fs r = nat fs" "rb_len r = nat (len + 1)" "rb_count r = 1" "rb_rd r = 0" "rb_mem r = mem"
      by (simp_all add: rb_fs_def rb_len_def rb_count_def rb_rd_def rb_wr_def r_def)
    moreover have "rb_queue r = [take (nat fs) mem]"
      using n assms(2) by (simp add: rb_queue_def frame_at_def ld_def)
    ultimately show ?thesis using Some RingBufferSize_eq [OF inv] assms(2) by simp
  qed
qed

theorem CreateRingBuffer_correct_witness:
  "\<exists>r. CreateRingBuffer True (\<lambda>n. Some (replicate n 7)) 2 3 = Ret (Some r) \<and> rb_inv r \<and> RingBufferSize r = Ret 0 \<and>
     rb_queue r = [[7, 7]]"
  using CreateRingBuffer_correct [of 2 3 "\<lambda>n. Some (replicate n 7)"]
  by (auto simp: numeral_2_eq_2)

text \<open>C16: For every interleaving of writes and of reads of no more frames than are reported as readable,
  the frames delivered, followed by the frames still in the ring, are the frames that were in the
  ring before, followed by the frames the writes accepted: nothing is lost, duplicated or reordered,
  across the wrap of the positions too. No operation has undefined behaviour.\<close>

theorem ring_stream:
  assumes "rb_inv r" "list_all (elem_op (ring_frame r)) ops"
  shows "\<exists>acc out t. qrun ring_put ring_get rb_queue rb_len r ops = Some (acc, out, t) \<and> rb_inv t \<and>
     out @ rb_queue t = rb_queue r @ acc"
  using rq.conservation [OF assms(1)] assms(2) by (simp add: rq.elems_ok_def)

theorem ring_stream_witness:
  "\<exists>acc out t. qrun ring_put ring_get rb_queue rb_len demo_ring [Enq [[3, 4], [5, 6], [8, 9]], Deq 3, Enq [[1, 1]]] =
     Some (acc, out, t) \<and> rb_inv t \<and> out @ rb_queue t = rb_queue demo_ring @ acc"
  by (rule ring_stream) (simp_all add: rb_inv_def demo_ring_def ring_frame_def rb_fs_def)

text \<open>The number of readable frames is one less than the number of frames held: reading all of them leaves
  the newest frame behind, and the frames that come out are delayed by one.\<close>

theorem RingBufferSize_delay:
  assumes "rb_inv r" "k * rb_fs r \<le> length data" "RingBufferSize r = Ret (int k)"
  shows "\<exists>d r'. ReadRingBuffer r data (int k) = Ret (d, r') \<and> frames_of (rb_fs r) d k = butlast (rb_queue r) \<and>
     rb_queue r' = [last (rb_queue r)] \<and> RingBufferSize r' = Ret 0"
proof -
  have k: "k = rb_count r - 1" "k < rb_count r"
    using RingBufferSize_eq [OF assms(1)] assms(3) rb_invD(11) [OF assms(1)] by auto
  have q: "rb_queue r \<noteq> []" using k(2) by (auto simp del: length_rb_queue simp flip: length_rb_queue)
  from ReadRingBuffer_takes [OF assms(1) k(2) assms(2)] obtain d r' where
    r': "ReadRingBuffer r data (int k) = Ret (d, r')" "rb_inv r'" "frames_of (rb_fs r) d k = take k (rb_queue r)"
      "rb_queue r' = drop k (rb_queue r)" by blast
  have "take k (rb_queue r) = butlast (rb_queue r)" "drop k (rb_queue r) = [last (rb_queue r)]"
    using take_drop_last [OF q] k(1) by simp_all
  moreover have "rb_count r' = 1" using arg_cong [OF r'(4), of length] k by simp
  ultimately show ?thesis using r' RingBufferSize_eq [OF r'(2)] by auto
qed

theorem RingBufferSize_delay_witness:
  "\<exists>d r'. ReadRingBuffer demo_ring (replicate 2 0) (int 1) = Ret (d, r') \<and> frames_of 2 d 1 = [[7, 7]] \<and>
     rb_queue r' = [[1, 2]] \<and> RingBufferSize r' = Ret 0"
proof -
  have inv: "rb_inv demo_ring" by (simp add: rb_inv_def demo_ring_def)
  have n: "rb_fs demo_ring = 2" "rb_len demo_ring = 4" "rb_rd demo_ring = 0" "rb_wr demo_ring = 2"
    by (simp_all add: rb_fs_def rb_len_def rb_rd_def rb_wr_def demo_ring_def)
  have q: "rb_queue demo_ring = [[7, 7], [1, 2]]"
    using n by (simp add: rb_queue_def rb_count_def frame_at_def ld_def demo_ring_def numeral_2_eq_2)
  have "RingBufferSize demo_ring = Ret (int 1)"
    using RingBufferSize_eq [OF inv] n by (simp add: rb_count_def)
  then show ?thesis using RingBufferSize_delay [OF inv, of 1 "replicate 2 0"] n q by simp
qed

end
