(* ===== verification/AL_Thunk.thy ===== *)
theory AL_Thunk
  imports AL_UIntMap
begin

text \<open>
  The table of object names of OpenAL-soft (\<^verbatim>\<open>OpenAL32/alThunk.c\<close>). Every buffer, source,
  filter, effect and effect slot gets its name from it: the index, plus one, of a
  free cell (on platforms whose pointers are wider than a name; elsewhere the macros
  of \<open>alThunk.h\<close> use the address itself). A cell holds a pointer (0 is NULL) and the \<open>InUse\<close> flag. The table is
  NULL before \<open>alThunkInit\<close>, after \<open>alThunkExit\<close> and when \<open>calloc\<close> failed. The lock
  around each operation makes it one step.
\<close>

section \<open>The operations\<close>

type_synonym ptr = nat

record thunk_entry =
  te_ptr :: ptr
  te_InUse :: bool

record thunk =
  g_ThunkArray :: "thunk_entry list option"
  g_ThunkArraySize :: nat

definition te_zero :: thunk_entry where
  "te_zero = \<lparr>te_ptr = 0, te_InUse = False\<rparr>"

definition alThunkInit :: "bool \<Rightarrow> thunk" where
  "alThunkInit calloc_ok =
     \<lparr>g_ThunkArray = (if calloc_ok then Some (replicate 1 te_zero) else None), g_ThunkArraySize = 1\<rparr>"

definition alThunkExit :: "thunk \<Rightarrow> thunk" where
  "alThunkExit T = T\<lparr>g_ThunkArray := None, g_ThunkArraySize := 0\<rparr>"

text \<open>The search loop: the first index whose cell is not in use, or the size.\<close>

fun first_unused :: "thunk_entry list \<Rightarrow> nat" where
  "first_unused [] = 0"
| "first_unused (e # es) = (if te_InUse e then Suc (first_unused es) else 0)"

text \<open>
  \<open>realloc_ok n\<close> tells whether the table can be grown to \<open>n\<close> cells. A table of
  size 0 is grown to nothing, and its first cell lies outside.
\<close>

definition alThunkAddEntry :: "(nat \<Rightarrow> bool) \<Rightarrow> thunk \<Rightarrow> ptr \<Rightarrow> (ALuint \<times> thunk) outcome" where
  "alThunkAddEntry realloc_ok T p =
     (case g_ThunkArray T of
        None \<Rightarrow> if 0 < g_ThunkArraySize T then UB NullDeref
                else if realloc_ok 0 then UB HeapOverflow else Ret (0, T)
      | Some a \<Rightarrow>
          let index = first_unused a in
          if index = g_ThunkArraySize T then
            if \<not> realloc_ok (2 * g_ThunkArraySize T) then Ret (0, T)
            else
              let a = a @ replicate (g_ThunkArraySize T) te_zero in
              Ret (of_nat index + 1,
                   T\<lparr>g_ThunkArraySize := 2 * g_ThunkArraySize T,
                     g_ThunkArray := Some (a[index := \<lparr>te_ptr = p, te_InUse = True\<rparr>])\<rparr>)
          else Ret (of_nat index + 1, T\<lparr>g_ThunkArray := Some (a[index := \<lparr>te_ptr = p, te_InUse = True\<rparr>])\<rparr>))"

definition alThunkRemoveEntry :: "thunk \<Rightarrow> ALuint \<Rightarrow> thunk outcome" where
  "alThunkRemoveEntry T index =
     (if 0 < index \<and> unat index \<le> g_ThunkArraySize T then
        (case g_ThunkArray T of
           None \<Rightarrow> UB NullDeref
         | Some a \<Rightarrow> Ret (T\<lparr>g_ThunkArray :=
             Some (a[unat index - 1 := (a ! (unat index - 1))\<lparr>te_InUse := False\<rparr>])\<rparr>))
      else Ret T)"

definition alThunkLookupEntry :: "thunk \<Rightarrow> ALuint \<Rightarrow> ptr outcome" where
  "alThunkLookupEntry T index =
     (if 0 < index \<and> unat index \<le> g_ThunkArraySize T then
        (case g_ThunkArray T of None \<Rightarrow> UB NullDeref | Some a \<Rightarrow> Ret (te_ptr (a ! (unat index - 1))))
      else Ret 0)"

section \<open>Names in use\<close>

definition th_inv :: "thunk \<Rightarrow> bool" where
  "th_inv T \<longleftrightarrow> (\<exists>a. g_ThunkArray T = Some a \<and> length a = g_ThunkArraySize T \<and> 0 < length a \<and> length a < 2 ^ 29)"

definition th_live :: "thunk \<Rightarrow> ALuint \<rightharpoonup> ptr" where
  "th_live T k = (case g_ThunkArray T of None \<Rightarrow> None | Some a \<Rightarrow>
     if k \<noteq> 0 \<and> unat k \<le> length a \<and> te_InUse (a ! (unat k - 1)) then Some (te_ptr (a ! (unat k - 1))) else None)"

text \<open>Memory for more cells than the address space holds is never granted.\<close>

definition fits_address_space :: "(nat \<Rightarrow> bool) \<Rightarrow> bool" where
  "fits_address_space realloc_ok \<longleftrightarrow> (\<forall>n\<ge>2 ^ 29. \<not> realloc_ok n)"

lemma th_invE:
  assumes "th_inv T"
  obtains a where "g_ThunkArray T = Some a" "g_ThunkArraySize T = length a" "0 < length a" "length a < 2 ^ 29"
  using assms by (auto simp: th_inv_def)

lemma th_live_0 [simp]: "th_live T 0 = None"
  by (simp add: th_live_def split: option.split)

lemma first_unused_le: "first_unused a \<le> length a"
  by (induction a) simp_all

lemma first_unused_free: "first_unused a < length a \<Longrightarrow> \<not> te_InUse (a ! first_unused a)"
  by (induction a) auto

lemma first_unused_min: "i < first_unused a \<Longrightarrow> te_InUse (a ! i)"
proof (induction a arbitrary: i)
  case (Cons e a)
  then show ?case by (cases i) (auto split: if_splits)
qed simp

lemma unat_Suc32: "i < 2 ^ 30 \<Longrightarrow> unat (of_nat i + 1 :: u32) = Suc i"
  using unat_of_nat32 [of "Suc i"] by (simp add: add.commute)

lemma unat_inj32: "unat (j :: u32) = unat k \<Longrightarrow> j = k"
  by (rule unsigned_word_eqI)

lemma word_eq_Suc: "k \<noteq> 0 \<Longrightarrow> unat k - 1 = i \<Longrightarrow> i < 2 ^ 30 \<Longrightarrow> (k :: u32) = of_nat i + 1"
  by (rule unat_inj32) (use unat_gt_0 [of k] in \<open>simp add: unat_Suc32\<close>)

lemma th_live_update:
  assumes "i < length a" "length a < 2 ^ 30"
  shows "th_live \<lparr>g_ThunkArray = Some (a[i := \<lparr>te_ptr = p, te_InUse = True\<rparr>]), g_ThunkArraySize = n\<rparr> =
     (th_live \<lparr>g_ThunkArray = Some a, g_ThunkArraySize = m\<rparr>)(of_nat i + 1 \<mapsto> p)"
proof (rule ext)
  fix k :: ALuint
  have u: "unat (of_nat i + 1 :: u32) = Suc i" using assms by (intro unat_Suc32) simp
  have nz: "(of_nat i + 1 :: u32) \<noteq> 0" using u by (metis unat_0 nat.distinct(1))
  consider "k = of_nat i + 1" | "k \<noteq> of_nat i + 1" "k = 0" | "k \<noteq> of_nat i + 1" "k \<noteq> 0" "unat k - 1 \<noteq> i"
    using word_eq_Suc [of k i] assms by fastforce
  then show "th_live \<lparr>g_ThunkArray = Some (a[i := \<lparr>te_ptr = p, te_InUse = True\<rparr>]), g_ThunkArraySize = n\<rparr> k =
     ((th_live \<lparr>g_ThunkArray = Some a, g_ThunkArraySize = m\<rparr>)(of_nat i + 1 \<mapsto> p)) k"
    by cases (use assms u nz in \<open>auto simp: th_live_def\<close>)
qed

lemma th_live_grow: "th_live \<lparr>g_ThunkArray = Some (a @ replicate n te_zero), g_ThunkArraySize = x\<rparr> =
   th_live \<lparr>g_ThunkArray = Some a, g_ThunkArraySize = y\<rparr>"
proof (rule ext)
  fix k :: ALuint
  have "k \<noteq> 0 \<Longrightarrow> unat k - 1 < length a \<longleftrightarrow> unat k \<le> length a"
    by (metis Suc_le_eq Suc_pred' unat_gt_0)
  then show "th_live \<lparr>g_ThunkArray = Some (a @ replicate n te_zero), g_ThunkArraySize = x\<rparr> k =
    th_live \<lparr>g_ThunkArray = Some a, g_ThunkArraySize = y\<rparr> k"
    by (auto simp: th_live_def nth_append te_zero_def)
qed


lemma alThunkAddEntry_cases:
  assumes "th_inv T" "fits_address_space R"
  shows "alThunkAddEntry R T p = Ret (0, T) \<or>
     (\<exists>k T'. alThunkAddEntry R T p = Ret (k, T') \<and> th_inv T' \<and> k \<noteq> 0 \<and> th_live T k = None \<and>
        th_live T' = (th_live T)(k \<mapsto> p))"
proof -
  obtain a where a: "g_ThunkArray T = Some a" "g_ThunkArraySize T = length a" "0 < length a" "length a < 2 ^ 29"
    using assms(1) by (rule th_invE)
  then have T: "T = \<lparr>g_ThunkArray = Some a, g_ThunkArraySize = length a\<rparr>" by simp
  define i where "i = first_unused a"
  have u: "unat (of_nat i + 1 :: u32) = Suc i" using first_unused_le [of a] a(4) by (intro unat_Suc32) (simp add: i_def)
  then have nz: "(of_nat i + 1 :: u32) \<noteq> 0" by (metis unat_0 nat.distinct(1))
  have none: "th_live T (of_nat i + 1) = None"
    using first_unused_free [of a] u a(1) by (simp add: th_live_def i_def)
  show ?thesis
  proof (cases "i = length a")
    case False
    then have "i < length a" using first_unused_le [of a] by (simp add: i_def)
    then have "th_live (T\<lparr>g_ThunkArray := Some (a[i := \<lparr>te_ptr = p, te_InUse = True\<rparr>])\<rparr>) = (th_live T)(of_nat i + 1 \<mapsto> p)"
      using th_live_update [of i a p "length a" "length a"] a(4) by (simp add: T)
    then show ?thesis using False a nz none
      by (auto simp: alThunkAddEntry_def i_def [symmetric] Let_def th_inv_def)
  next
    case full: True
    show ?thesis
    proof (cases "R (2 * length a)")
      case True
      then have sz: "2 * length a < 2 ^ 29" using assms(2) unfolding fits_address_space_def by (meson not_less)
      define b where "b = a @ replicate (length a) te_zero"
      have "th_live \<lparr>g_ThunkArray = Some (b[i := \<lparr>te_ptr = p, te_InUse = True\<rparr>]), g_ThunkArraySize = 2 * length a\<rparr> =
          (th_live T)(of_nat i + 1 \<mapsto> p)"
        using th_live_update [of i b p "2 * length a" "2 * length a"] th_live_grow [of a "length a" "2 * length a" "length a"]
          sz full a(3) by (simp add: T b_def)
      moreover have "alThunkAddEntry R T p = Ret (of_nat i + 1,
          \<lparr>g_ThunkArray = Some (b[i := \<lparr>te_ptr = p, te_InUse = True\<rparr>]), g_ThunkArraySize = 2 * length a\<rparr>)"
        using True full by (simp add: alThunkAddEntry_def T i_def [symmetric] b_def Let_def)
      moreover have "th_inv \<lparr>g_ThunkArray = Some (b[i := \<lparr>te_ptr = p, te_InUse = True\<rparr>]), g_ThunkArraySize = 2 * length a\<rparr>"
        using sz a(3) by (simp add: th_inv_def b_def)
      ultimately show ?thesis using nz none by blast
    qed (use full in \<open>simp add: alThunkAddEntry_def T i_def [symmetric] Let_def\<close>)
  qed
qed

lemma alThunkRemoveEntry_live:
  assumes "th_inv T"
  shows "\<exists>T'. alThunkRemoveEntry T k = Ret T' \<and> th_inv T' \<and> th_live T' = (th_live T)(k := None)"
proof -
  obtain a where a: "g_ThunkArray T = Some a" "g_ThunkArraySize T = length a" "0 < length a" "length a < 2 ^ 29"
    using assms by (rule th_invE)
  show ?thesis
  proof (cases "0 < k \<and> unat k \<le> length a")
    case True
    define i where "i = unat k - 1"
    have k: "unat k = Suc i" using True by (simp add: i_def word_less_nat_alt)
    define T' where "T' = T\<lparr>g_ThunkArray := Some (a[i := (a ! i)\<lparr>te_InUse := False\<rparr>])\<rparr>"
    have "th_live T' j = ((th_live T)(k := None)) j" for j
    proof (cases "j = 0 \<or> j = k")
      case False
      then have "unat j - 1 \<noteq> i" using k unat_gt_0 [of j] unat_inj32 [of j k] by auto
      then show ?thesis using False a(1) by (simp add: th_live_def T'_def)
    qed (use True a(1) k in \<open>auto simp: th_live_def T'_def\<close>)
    moreover have "alThunkRemoveEntry T k = Ret T'" using True a by (simp add: alThunkRemoveEntry_def T'_def i_def)
    moreover have "th_inv T'" using a by (simp add: th_inv_def T'_def)
    ultimately show ?thesis by (auto simp: fun_eq_iff)
  next
    case False
    then have "th_live T k = None" using a(1) by (auto simp: th_live_def word_neq_0_conv)
    then show ?thesis using False assms a by (auto simp: alThunkRemoveEntry_def fun_upd_idem)
  qed
qed

lemma alThunkLookupEntry_live: "th_live T k = Some p \<Longrightarrow> th_inv T \<Longrightarrow> alThunkLookupEntry T k = Ret p"
  by (auto simp: th_live_def alThunkLookupEntry_def th_inv_def word_neq_0_conv split: option.splits if_splits)

lemma th_inv_Init [simp]: "th_inv (alThunkInit True)"
  by (simp add: th_inv_def alThunkInit_def)


section \<open>Name supplies\<close>

text \<open>What the object tables rely on: a name that is handed out is not in use, and stays bound until it is given back.\<close>

locale name_supply =
  fixes add :: "'t \<Rightarrow> ptr \<Rightarrow> (ALuint \<times> 't) outcome"
    and rem :: "'t \<Rightarrow> ALuint \<Rightarrow> 't outcome"
    and live :: "'t \<Rightarrow> ALuint \<rightharpoonup> ptr"
    and ok :: "'t \<Rightarrow> bool"
  assumes add_cases: "ok T \<Longrightarrow> add T p = Ret (0, T) \<or>
      (\<exists>k T'. add T p = Ret (k, T') \<and> ok T' \<and> k \<noteq> 0 \<and> live T k = None \<and> live T' = (live T)(k \<mapsto> p))"
    and rem_live: "ok T \<Longrightarrow> \<exists>T'. rem T k = Ret T' \<and> ok T' \<and> live T' = (live T)(k := None)"
    and live_nonzero: "ok T \<Longrightarrow> live T 0 = None"
begin

lemma add_ok: "ok T \<Longrightarrow> add T p = Ret (k, T') \<Longrightarrow> ok T'"
  using add_cases [of T p] by auto

lemma add_name: "ok T \<Longrightarrow> add T p = Ret (k, T') \<Longrightarrow> k \<noteq> 0 \<Longrightarrow> live T k = None \<and> live T' = (live T)(k \<mapsto> p)"
  using add_cases [of T p] by auto

lemma add_failed: "ok T \<Longrightarrow> add T p = Ret (0, T') \<Longrightarrow> T' = T"
  using add_cases [of T p] by auto

lemma add_defined: "ok T \<Longrightarrow> \<exists>k T'. add T p = Ret (k, T')"
  using add_cases [of T p] by auto

lemma rem_add:
  assumes "ok T" "add T p = Ret (k, T')"
  shows "\<exists>T''. rem T' k = Ret T'' \<and> ok T'' \<and> live T'' = live T"
proof -
  obtain T'' where "rem T' k = Ret T''" "ok T''" "live T'' = (live T')(k := None)"
    using rem_live [OF add_ok [OF assms]] by blast
  moreover have "(live T')(k := None) = live T"
  proof (cases "k = 0")
    case True
    then have "T' = T" using add_failed assms by blast
    then show ?thesis using True live_nonzero [OF assms(1)] by (simp add: fun_upd_idem)
  next
    case False
    then show ?thesis using add_name [OF assms] by (auto simp: fun_eq_iff)
  qed
  ultimately show ?thesis by auto
qed

end

interpretation th: name_supply "alThunkAddEntry R" alThunkRemoveEntry th_live "\<lambda>T. th_inv T \<and> fits_address_space R" for R
proof unfold_locales
  fix T p k
  assume ok: "th_inv T \<and> fits_address_space R"
  show "alThunkAddEntry R T p = Ret (0, T) \<or>
      (\<exists>k T'. alThunkAddEntry R T p = Ret (k, T') \<and> (th_inv T' \<and> fits_address_space R) \<and> k \<noteq> 0 \<and> th_live T k = None \<and>
         th_live T' = (th_live T)(k \<mapsto> p))"
    using alThunkAddEntry_cases [of T R p] ok by simp
  show "\<exists>T'. alThunkRemoveEntry T k = Ret T' \<and> (th_inv T' \<and> fits_address_space R) \<and> th_live T' = (th_live T)(k := None)"
    using alThunkRemoveEntry_live [of T k] ok by simp
qed simp

section \<open>Properties\<close>

fun add_all :: "(nat \<Rightarrow> bool) \<Rightarrow> thunk \<Rightarrow> ptr list \<Rightarrow> (ALuint list \<times> thunk) outcome" where
  "add_all R T [] = Ret ([], T)"
| "add_all R T (p # ps) = bnd (alThunkAddEntry R T p) (\<lambda>(k, T). bnd (add_all R T ps) (\<lambda>(ks, T). Ret (k # ks, T)))"

lemma add_all_live:
  assumes "th_inv T" "fits_address_space R" "add_all R T ps = Ret (ks, T')" "0 \<notin> set ks"
  shows "th_inv T' \<and> length ks = length ps \<and> distinct ks \<and> (\<forall>k\<in>set ks. th_live T k = None) \<and> th_live T' = (th_live T)(ks [\<mapsto>] ps)"
  using assms
proof (induction ps arbitrary: T ks)
  case (Cons p ps)
  obtain k T1 ks1 where s: "alThunkAddEntry R T p = Ret (k, T1)" "add_all R T1 ps = Ret (ks1, T')" "ks = k # ks1"
    using Cons.prems(3) by (auto simp: bnd_Ret_iff split: prod.splits)
  have k: "k \<noteq> 0" "0 \<notin> set ks1" using Cons.prems(4) s(3) by auto
  have l: "th_live T k = None" "th_live T1 = (th_live T)(k \<mapsto> p)" "th_inv T1"
    using th.add_name [of T R p k T1] th.add_ok [of T R p k T1] Cons.prems(1,2) s(1) k by auto
  have IH: "th_inv T'" "length ks1 = length ps" "distinct ks1" "\<forall>k\<in>set ks1. th_live T1 k = None"
      "th_live T' = (th_live T1)(ks1 [\<mapsto>] ps)"
    using Cons.IH [OF l(3) Cons.prems(2) s(2) k(2)] by auto
  have "k \<notin> set ks1" using IH(4) l(2) by auto
  moreover have "\<forall>j\<in>set ks1. th_live T j = None" using IH(4) l(2) by (auto split: if_splits)
  ultimately show ?case using s IH l by simp
qed simp

text \<open>Names are unique. Registering a list of pointers, as long as no registration reports failure by the
  name 0, yields pairwise distinct names none of which was in use, and afterwards each of them is
  bound to its pointer while every other name keeps its binding.\<close>

theorem alThunk_names_unique:
  assumes "th_inv T" "fits_address_space R" "add_all R T ps = Ret (ks, T')" "0 \<notin> set ks"
  shows "distinct ks \<and> (\<forall>k\<in>set ks. th_live T k = None) \<and> th_live T' = (th_live T)(ks [\<mapsto>] ps) \<and>
     (\<forall>k p. th_live T' k = Some p \<longrightarrow> alThunkLookupEntry T' k = Ret p)"
  using add_all_live [OF assms] alThunkLookupEntry_live by blast

theorem alThunk_names_unique_witness:
  "\<exists>ks T'. add_all (\<lambda>n. n < 100) (alThunkInit True) [11, 12, 13] = Ret (ks, T') \<and> distinct ks \<and>
     alThunkLookupEntry T' 3 = Ret 13"
proof -
  have "add_all (\<lambda>n. n < 100) (alThunkInit True) [11, 12, 13] = Ret ([1, 2, 3],
     \<lparr>g_ThunkArray = Some [\<lparr>te_ptr = 11, te_InUse = True\<rparr>, \<lparr>te_ptr = 12, te_InUse = True\<rparr>,
        \<lparr>te_ptr = 13, te_InUse = True\<rparr>, te_zero], g_ThunkArraySize = 4\<rparr>)"
    by (simp add: alThunkInit_def alThunkAddEntry_def te_zero_def numeral_2_eq_2 numeral_3_eq_3 numeral_eq_Suc)
  moreover have "fits_address_space (\<lambda>n. n < 100)" by (simp add: fits_address_space_def)
  ultimately show ?thesis
    using alThunk_names_unique [of "alThunkInit True" "\<lambda>n. n < 100" "[11, 12, 13]"]
    by (auto simp: alThunkLookupEntry_def word_less_nat_alt)
qed

text \<open>A removed name is unbound and the lowest free name is the next one handed out; but the lookup does
  not consult the \<open>InUse\<close> flag, so it still answers with the pointer of the removed object.\<close>

theorem alThunk_stale_lookup:
  assumes "th_inv T" "th_live T k = Some p"
  shows "\<exists>T'. alThunkRemoveEntry T k = Ret T' \<and> th_live T' k = None \<and> alThunkLookupEntry T' k = Ret p"
proof -
  obtain a where a: "g_ThunkArray T = Some a" "g_ThunkArraySize T = length a" using assms(1) by (rule th_invE)
  have k: "k \<noteq> 0" "unat k \<le> length a" "te_ptr (a ! (unat k - 1)) = p"
    using assms(2) a(1) by (auto simp: th_live_def split: if_splits)
  have i: "unat k - 1 < length a" using k unat_gt_0 [of k] by simp
  obtain T' where T': "alThunkRemoveEntry T k = Ret T'" "th_live T' = (th_live T)(k := None)"
    using alThunkRemoveEntry_live [OF assms(1)] by blast
  moreover have "alThunkLookupEntry T' k = Ret p"
    using T'(1) a k i by (auto simp: alThunkRemoveEntry_def alThunkLookupEntry_def word_neq_0_conv)
  ultimately show ?thesis by simp
qed

theorem alThunk_stale_lookup_witness:
  "\<exists>T'. alThunkRemoveEntry \<lparr>g_ThunkArray = Some [\<lparr>te_ptr = 11, te_InUse = True\<rparr>], g_ThunkArraySize = 1\<rparr> 1 = Ret T' \<and>
     th_live T' 1 = None \<and> alThunkLookupEntry T' 1 = Ret 11"
  by (rule alThunk_stale_lookup) (simp_all add: th_inv_def th_live_def)

end
