(* ===== verification/AL_MixerProps.thy ===== *)
theory AL_MixerProps
  imports AL_SourceSafe
begin

text \<open>
  The mixer against the sound a queue stands for. The stream of a queue is
  the concatenation of the data of its buffers; the lemmas say which part of the
  stream a round of \<open>MixSource\<close> collects and how its position moves along the
  stream, and they give the termination of every loop.
\<close>

section \<open>The stream of a queue\<close>

definition data_of :: "albuffer \<Rightarrow> byte list" where
  "data_of b = take (nat (buf_size b)) (case buf_data b of None \<Rightarrow> [] | Some d \<Rightarrow> d)"

definition seg :: "(ALuint \<Rightarrow> albuffer option) \<Rightarrow> ALuint \<Rightarrow> byte list" where
  "seg look p = (if p = 0 then [] else case look p of None \<Rightarrow> [] | Some b \<Rightarrow> data_of b)"

definition stream :: "(ALuint \<Rightarrow> albuffer option) \<Rightarrow> ALuint list \<Rightarrow> byte list" where
  "stream look q = concat (map (seg look) q)"

definition wf_queue :: "(ALuint \<Rightarrow> albuffer option) \<Rightarrow> ALuint list \<Rightarrow> bool" where
  "wf_queue look q \<longleftrightarrow> (\<forall>p\<in>set q. p = 0 \<or> (\<exists>b. look p = Some b \<and> buf_wf b))"

definition pad_to :: "byte \<Rightarrow> nat \<Rightarrow> byte list \<Rightarrow> byte list" where
  "pad_to sil n xs = take n xs @ replicate (n - length xs) sil"

lemma length_pad_to [simp]: "length (pad_to sil n xs) = n"
  by (simp add: pad_to_def)

lemma pad_to_silence: "pad_to sil n (replicate r sil @ xs) = replicate (min n r) sil @ pad_to sil (n - min n r) xs"
  by (cases "n \<le> r") (simp_all add: pad_to_def min_def replicate_add [symmetric])

lemma stream_simps [simp]: "stream look [] = []" "stream look (p # q) = seg look p @ stream look q"
  "stream look (q @ r) = stream look q @ stream look r"
  by (simp_all add: stream_def)

lemma stream_drop: "i < length q \<Longrightarrow> stream look (drop i q) = seg look (q ! i) @ stream look (drop (Suc i) q)"
  by (simp add: Cons_nth_drop_Suc [symmetric])

lemma length_data_of: "buf_wf b \<Longrightarrow> length (data_of b) = nat (buf_size b)"
proof -
  assume "buf_wf b"
  then have "nat (buf_size b) \<le> length (case buf_data b of None \<Rightarrow> [] | Some d \<Rightarrow> d)" by (simp add: buf_wf_def nat_le_iff)
  then show ?thesis by (simp add: data_of_def min_absorb2)
qed

lemma unat_size: "buf_wf b \<Longrightarrow> unat (word_of_int (buf_size b) :: u32) = nat (buf_size b)"
  by (simp add: buf_wf_def)

lemma rd_data_ok:
  assumes "buf_wf b" "unat pos + unat n \<le> nat (buf_size b)"
  shows "rd_data b pos n = Ret (take (unat n) (drop (unat pos) (data_of b)))"
proof (cases "n = 0")
  case False
  then have "0 < unat n" by (simp add: unat_gt_0)
  then have s: "0 < nat (buf_size b)" using assms(2) by simp
  then obtain d where d: "buf_data b = Some d" "nat (buf_size b) \<le> length d"
    using assms(1) by (cases "buf_data b") (auto simp: buf_wf_def)
  have "take (unat n) (drop (unat pos) (take (nat (buf_size b)) d)) = take (unat n) (drop (unat pos) d)"
    using assms(2) by (simp add: drop_take)
  then show ?thesis using False d assms(2) by (simp add: rd_data_def data_of_def ld_def)
qed (simp add: rd_data_def)

lemma wf_queue_nth: "wf_queue look q \<Longrightarrow> i < length q \<Longrightarrow> q ! i \<noteq> 0 \<Longrightarrow> \<exists>b. look (q ! i) = Some b \<and> buf_wf b"
  by (auto simp: wf_queue_def)

section \<open>Walking forward\<close>

text \<open>What one queue item contributes.\<close>

lemma walk_next_item:
  assumes "wf_queue look q" "i < length q" "want \<noteq> 0"
  obtains pos' want' d where
    "unat pos' = unat pos - length (seg look (q ! i))" "unat want' = unat want - (length (seg look (q ! i)) - unat pos)"
    "d = take (unat want) (drop (unat pos) (seg look (q ! i)))"
    "walk_next look q looping sil i pos want acc =
       (if i + 1 < length q then walk_next look q looping sil (i + 1) pos' want' (acc @ d)
        else if looping then walk_next look q looping sil 0 pos' want' (acc @ d)
        else Some (Ret (acc @ d @ replicate (unat want') sil)))"
proof (cases "q ! i = 0")
  case True
  show ?thesis
    by (rule that [of pos want "[]"]) (use assms True in \<open>simp_all add: seg_def walk_next.simps [of look q looping sil i pos want acc]\<close>)
next
  case False
  then obtain b where b: "look (q ! i) = Some b" "buf_wf b" using wf_queue_nth [OF assms(1,2)] by blast
  define sz where "sz = (word_of_int (buf_size b) :: u32)"
  have len: "length (seg look (q ! i)) = unat sz" using False b by (simp add: seg_def length_data_of unat_size sz_def)
  show ?thesis
  proof (cases "sz \<le> pos")
    case True
    have u: "unat (pos - sz) = unat pos - unat sz" using True by (simp add: unat_sub)
    have le: "unat sz \<le> unat pos" using True by (simp add: word_le_nat_alt)
    show ?thesis
      by (rule that [of "pos - sz" want "[]"])
        (use assms True False b u le len in \<open>simp_all add: deref_def walk_next.simps [of look q looping sil i pos want acc] flip: sz_def\<close>)
  next
    case F: False
    have lt: "unat pos < unat sz" using F by (simp add: word_less_nat_alt not_le)
    have u: "unat (sz - pos) = unat sz - unat pos" using F by (simp add: unat_sub not_le order_less_imp_le)
    define n where "n = min want (sz - pos)"
    have n: "unat n = min (unat want) (unat sz - unat pos)" using u by (auto simp: n_def min_def word_le_nat_alt)
    have un: "unat (want - n) = unat want - unat n" by (rule unat_sub) (simp add: n_def)
    have sg: "seg look (q ! i) = data_of b" using False b by (simp add: seg_def)
    have rd: "rd_data b pos n = Ret (take (unat n) (drop (unat pos) (data_of b)))"
      by (rule rd_data_ok [OF b(2)]) (use n lt b in \<open>simp add: unat_size [symmetric] sz_def [symmetric]\<close>)
    have d: "take (unat n) (drop (unat pos) (data_of b)) = take (unat want) (drop (unat pos) (seg look (q ! i)))"
      using n len by (simp add: sg min_def)
    show ?thesis
      by (rule that [of 0 "want - n" "take (unat n) (drop (unat pos) (data_of b))"])
        (use assms F False b un n lt len d rd in \<open>simp_all add: deref_def walk_next.simps [of look q looping sil i pos want acc] Let_def
          n_def [symmetric] sz_def [symmetric]\<close>)
  qed
qed

lemma walk_next_linear:
  assumes "wf_queue look q" "i < length q"
  shows "walk_next look q False sil i pos want acc =
    Some (Ret (acc @ pad_to sil (unat want) (drop (unat pos) (stream look (drop i q)))))"
  using assms(2)
proof (induction "length q - i" arbitrary: i pos want acc)
  case (Suc m)
  show ?case
  proof (cases "want = 0")
    case True
    then show ?thesis by (simp add: walk_next.simps pad_to_def)
  next
    case False
    define s where "s = seg look (q ! i)"
    define X where "X = stream look (drop (Suc i) q)"
    have st: "stream look (drop i q) = s @ X" using stream_drop [OF Suc.prems] by (simp add: s_def X_def)
    obtain pos' want' d where w: "unat pos' = unat pos - length s" "unat want' = unat want - (length s - unat pos)"
      "d = take (unat want) (drop (unat pos) s)"
      "walk_next look q False sil i pos want acc =
        (if i + 1 < length q then walk_next look q False sil (i + 1) pos' want' (acc @ d)
         else if False then walk_next look q False sil 0 pos' want' (acc @ d)
         else Some (Ret (acc @ d @ replicate (unat want') sil)))"
      using walk_next_item [OF assms(1) Suc.prems False, of pos False sil acc] unfolding s_def by metis
    have split: "pad_to sil (unat want) (drop (unat pos) (s @ X)) = d @ pad_to sil (unat want') (drop (unat pos') X)"
      using w(1,2) by (simp add: pad_to_def w(3))
    show ?thesis
    proof (cases "i + 1 < length q")
      case True
      then show ?thesis using Suc.hyps(1) [of "i + 1"] Suc.hyps(2) w(4) split st by (simp add: X_def)
    next
      case F: False
      then have "X = []" using Suc.prems by (simp add: X_def)
      then show ?thesis using F w(4) split st by (simp add: pad_to_def)
    qed
  qed
qed simp


text \<open>In a looping queue the stream repeats; the walk ends as soon as some buffer has data.\<close>

lemma walk_next_pass:
  assumes q: "wf_queue look q" and Y: "\<And>pos want acc. unat pos + unat want \<le> length Y \<Longrightarrow>
      walk_next look q True sil 0 pos want acc = Some (Ret (acc @ take (unat want) (drop (unat pos) Y)))"
  shows "i < length q \<Longrightarrow> unat pos + unat want \<le> length (stream look (drop i q)) + length Y \<Longrightarrow>
    walk_next look q True sil i pos want acc =
      Some (Ret (acc @ take (unat want) (drop (unat pos) (stream look (drop i q) @ Y))))"
proof (induction "length q - i" arbitrary: i pos want acc)
  case (Suc m)
  show ?case
  proof (cases "want = 0")
    case False
    define s where "s = seg look (q ! i)"
    define X where "X = stream look (drop (Suc i) q)"
    have st: "stream look (drop i q) = s @ X" using stream_drop [OF Suc.prems(1)] by (simp add: s_def X_def)
    obtain pos' want' d where w: "unat pos' = unat pos - length s" "unat want' = unat want - (length s - unat pos)"
      "d = take (unat want) (drop (unat pos) s)"
      "walk_next look q True sil i pos want acc =
        (if i + 1 < length q then walk_next look q True sil (i + 1) pos' want' (acc @ d)
         else if True then walk_next look q True sil 0 pos' want' (acc @ d)
         else Some (Ret (acc @ d @ replicate (unat want') sil)))"
      using walk_next_item [OF q Suc.prems(1) False, of pos True sil acc] unfolding s_def by metis
    have split: "take (unat want) (drop (unat pos) (s @ Z)) = d @ take (unat want') (drop (unat pos') Z)" for Z
      using w(1,2) by (simp add: w(3))
    have "0 < unat want" using False by (simp add: unat_gt_0)
    then have le: "unat want' = 0 \<or> unat pos' + unat want' \<le> length X + length Y" using Suc.prems(2) w(1,2) st by auto
    show ?thesis
    proof (cases "i + 1 < length q")
      case True
      have "walk_next look q True sil (i + 1) pos' want' (acc @ d) =
          Some (Ret ((acc @ d) @ take (unat want') (drop (unat pos') (X @ Y))))"
        using le Suc.hyps(1) [of "i + 1" pos' want' "acc @ d"] Suc.hyps(2) True
        by (auto simp: X_def unat_eq_0 walk_next.simps [of look q True sil _ _ 0])
      then show ?thesis using True w(4) split [of "X @ Y"] st by simp
    next
      case F: False
      then have X: "X = []" using Suc.prems(1) by (simp add: X_def)
      have "walk_next look q True sil 0 pos' want' (acc @ d) = Some (Ret ((acc @ d) @ take (unat want') (drop (unat pos') Y)))"
        using le Y [of pos' want' "acc @ d"] X by (auto simp: unat_eq_0 walk_next.simps [of look q True sil _ _ 0])
      then show ?thesis using F w(4) split [of Y] st X by simp
    qed
  qed (simp add: walk_next.simps)
qed simp

lemma walk_next_cyclic:
  assumes q: "wf_queue look q" and i: "i < length q"
    and K: "unat pos + unat want \<le> length (stream look (drop i q)) + K * length (stream look q)"
  shows "walk_next look q True sil i pos want acc =
      Some (Ret (acc @ take (unat want) (drop (unat pos) (stream look (drop i q) @ concat (replicate K (stream look q))))))"
proof (rule walk_next_pass [OF q _ i])
  show "walk_next look q True sil 0 pos want acc = Some (Ret (acc @ take (unat want) (drop (unat pos) (concat (replicate K (stream look q))))))"
    if "unat pos + unat want \<le> length (concat (replicate K (stream look q)))" for pos want acc K
    using that
  proof (induction K arbitrary: pos want acc)
    case 0
    then show ?case by (simp add: walk_next.simps unat_eq_0)
  next
    case (Suc K)
    then show ?case using walk_next_pass [OF q Suc.IH, of 0 pos want acc] i by (cases "q = []") simp_all
  qed
  show "unat pos + unat want \<le> length (stream look (drop i q)) + length (concat (replicate K (stream look q)))"
    using K by (simp add: length_concat sum_list_replicate)
qed

section \<open>Walking back\<close>

lemma walk_prev_linear:
  assumes "wf_queue look q" "i < length q"
  shows "\<exists>j p z. walk_prev look q False want i pos = Some (Ret (j, p, z)) \<and> j < length q \<and>
     unat z = min (unat want) (unat pos - length (stream look (take i q))) \<and>
     length (stream look (take j q)) + unat p = length (stream look (take i q)) - unat pos"
  using assms(2)
proof (induction i arbitrary: pos)
  case 0
  then show ?case by (auto simp: walk_prev.simps min_def word_le_nat_alt)
next
  case (Suc i)
  have tk: "stream look (take (Suc i) q) = stream look (take i q) @ seg look (q ! i)"
    using Suc.prems by (simp add: take_Suc_conv_app_nth)
  show ?case
  proof (cases "pos = 0")
    case True
    then show ?thesis using Suc.prems by (simp add: walk_prev.simps)
  next
    case False
    show ?thesis
    proof (cases "q ! i = 0")
      case True
      then show ?thesis using Suc.IH [of pos] Suc.prems False tk
        by (simp add: walk_prev.simps [of look q False want "Suc i" pos] seg_def)
    next
      case nz: False
      then obtain b where b: "look (q ! i) = Some b" "buf_wf b" using wf_queue_nth [OF assms(1)] Suc.prems by (meson Suc_lessD)
      define sz where "sz = (word_of_int (buf_size b) :: u32)"
      have len: "length (seg look (q ! i)) = unat sz" using nz b by (simp add: seg_def length_data_of unat_size sz_def)
      have step: "walk_prev look q False want (Suc i) pos =
        (if pos < sz then Some (Ret (i, sz - pos, 0)) else walk_prev look q False want i (pos - sz))"
        using False nz b Suc.prems by (simp add: walk_prev.simps [of look q False want "Suc i" pos] sz_def)
      show ?thesis
      proof (cases "pos < sz")
        case True
        have "unat (sz - pos) = unat sz - unat pos" "unat pos < unat sz"
          using True by (simp_all add: unat_sub order_less_imp_le word_less_nat_alt [symmetric])
        then show ?thesis using True step Suc.prems tk len by auto
      next
        case F: False
        have "unat (pos - sz) = unat pos - unat sz" "unat sz \<le> unat pos" using F by (auto simp: unat_sub word_le_nat_alt not_less)
        then show ?thesis using F step Suc.IH [of "pos - sz"] Suc.prems tk len by (auto simp: add.commute)
      qed
    qed
  qed
qed


section \<open>The window of a round\<close>

text \<open>
  The bytes a round collects from a queue: the stream, as if silence came before it
  and after it, from \<open>pre\<close> frames before the position on.
\<close>

lemma queue_window_linear:
  assumes q: "wf_queue look q" "i < length q" and small: "unat dpos * unat fs < 2 ^ 32" "unat pre * unat fs < 2 ^ 32"
  shows "queue_window look q False fs sil pre i dpos want = Some (Ret (pad_to sil (unat want)
    (drop (length (stream look (take i q)) + unat dpos * unat fs) (replicate (unat pre * unat fs) sil @ stream look q))))"
proof -
  define S where "S = stream look q"
  define A where "A = length (stream look (take i q))"
  have cut: "drop (length (stream look (take j q)) + n) S = drop n (stream look (drop j q))" for j n
  proof -
    have "S = stream look (take j q) @ stream look (drop j q)" by (simp add: S_def flip: stream_simps(3))
    then show ?thesis by simp
  qed
  show ?thesis
  proof (cases "pre \<le> dpos")
    case True
    have le: "unat pre \<le> unat dpos" "unat (dpos - pre) = unat dpos - unat pre" using True by (simp_all add: word_le_nat_alt unat_sub)
    then have "(unat dpos - unat pre) * unat fs < 2 ^ 32" using small(1) by (meson diff_le_self le_less_trans mult_le_mono1)
    then have m: "unat ((dpos - pre) * fs) = (unat dpos - unat pre) * unat fs" using le(2) by (simp add: unat_mult_lem [THEN iffD1])
    have "drop (A + unat dpos * unat fs) (replicate (unat pre * unat fs) sil @ S) = drop (A + unat dpos * unat fs - unat pre * unat fs) S"
      using trans_le_add2 [OF mult_le_mono1 [OF le(1), of "unat fs"], of A] by (simp del: mult_le_cancel2)
    also have "A + unat dpos * unat fs - unat pre * unat fs = A + (unat dpos - unat pre) * unat fs"
      using mult_le_mono1 [OF le(1), of "unat fs"] by (simp add: diff_mult_distrib)
    finally show ?thesis using True walk_next_linear [OF q] m cut [of i] by (simp add: queue_window_def S_def [symmetric] A_def [symmetric])
  next
    case False
    have le: "unat dpos \<le> unat pre" "unat (pre - dpos) = unat pre - unat dpos" using False by (simp_all add: word_le_nat_alt unat_sub)
    then have "(unat pre - unat dpos) * unat fs < 2 ^ 32" using small(2) by (meson diff_le_self le_less_trans mult_le_mono1)
    then have m: "unat ((pre - dpos) * fs) = unat pre * unat fs - unat dpos * unat fs"
      using le(2) by (simp add: unat_mult_lem [THEN iffD1] diff_mult_distrib)
    obtain j p z where w: "walk_prev look q False want i ((pre - dpos) * fs) = Some (Ret (j, p, z))" "j < length q"
      "unat z = min (unat want) (unat pre * unat fs - unat dpos * unat fs - A)"
      "length (stream look (take j q)) + unat p = A - (unat pre * unat fs - unat dpos * unat fs)"
      using walk_prev_linear [OF q, of want "(pre - dpos) * fs"] m by (auto simp: A_def)
    have z: "unat (want - z) = unat want - unat z" using w(3) by (intro unat_sub) (simp add: word_le_nat_alt)
    have "drop (A + unat dpos * unat fs) (replicate (unat pre * unat fs) sil @ S) =
        replicate (unat pre * unat fs - unat dpos * unat fs - A) sil @ drop (unat p) (stream look (drop j q))"
      using cut [of j "unat p"] w(4) mult_le_mono1 [OF le(1), of "unat fs"] by (simp add: add.commute)
    then show ?thesis using False walk_next_linear [OF q(1) w(2)] w(1,3) z
      by (simp add: queue_window_def S_def [symmetric] A_def [symmetric] pad_to_silence)
  qed
qed

section \<open>Moving on\<close>

text \<open>All buffers of the queue have the frame size \<open>fs\<close>.\<close>

definition frames_queue :: "(ALuint \<Rightarrow> albuffer option) \<Rightarrow> u32 \<Rightarrow> ALuint list \<Rightarrow> bool" where
  "frames_queue look fs q \<longleftrightarrow> (\<forall>p\<in>set q. p = 0 \<or> (\<exists>b. look p = Some b \<and> buf_wf b \<and> FrameSizeFromFmt (buf_FmtChannels b) (buf_FmtType b) = fs))"

definition nframes :: "(ALuint \<Rightarrow> albuffer option) \<Rightarrow> u32 \<Rightarrow> ALuint list \<Rightarrow> nat" where
  "nframes look fs q = length (stream look q) div unat fs"

lemma frames_queue_wf: "frames_queue look fs q \<Longrightarrow> wf_queue look q"
  by (auto simp: frames_queue_def wf_queue_def)

lemma seg_frames:
  assumes "frames_queue look fs q" "p \<in> set q" "fs \<noteq> 0"
  shows "unat fs dvd length (seg look p)"
proof (cases "p = 0")
  case False
  then obtain b where b: "look p = Some b" "buf_wf b" "FrameSizeFromFmt (buf_FmtChannels b) (buf_FmtType b) = fs"
    using assms by (auto simp: frames_queue_def)
  then have "int (unat fs) dvd int (nat (buf_size b))" by (simp add: buf_wf_def)
  then have "unat fs dvd nat (buf_size b)" by (simp only: int_dvd_int_iff)
  then show ?thesis using False b by (simp add: seg_def length_data_of)
qed (simp add: seg_def)

lemma stream_frames: "frames_queue look fs q \<Longrightarrow> fs \<noteq> 0 \<Longrightarrow> unat fs dvd length (stream look q)"
proof (induction q)
  case (Cons p q)
  then show ?case using seg_frames [OF Cons.prems(1), of p] by (auto simp: frames_queue_def intro!: dvd_add)
qed simp

lemma nframes_append: "frames_queue look fs q \<Longrightarrow> fs \<noteq> 0 \<Longrightarrow> nframes look fs (q @ r) = nframes look fs q + nframes look fs r"
  using stream_frames [of look fs q] by (auto simp: nframes_def div_add)

lemma nframes_take_Suc:
  assumes "frames_queue look fs q" "fs \<noteq> 0" "i < length q"
  shows "nframes look fs (take (Suc i) q) = nframes look fs (take i q) + length (seg look (q ! i)) div unat fs"
proof -
  have "frames_queue look fs (take i q)" using assms(1) by (auto simp: frames_queue_def dest: in_set_takeD)
  then show ?thesis using nframes_append [OF _ assms(2), of look "take i q" "[q ! i]"] assms(3)
    by (simp add: take_Suc_conv_app_nth) (simp add: nframes_def)
qed

lemma nframes_mono:
  assumes "frames_queue look fs q" "fs \<noteq> 0" "i \<le> j"
  shows "nframes look fs (take i q) \<le> nframes look fs (take j q)"
proof -
  have "take j q = take i q @ take (j - i) (drop i q)" using assms(3) by (metis le_add_diff_inverse take_add)
  moreover have "frames_queue look fs (take i q)" using assms(1) by (auto simp: frames_queue_def dest: in_set_takeD)
  ultimately show ?thesis using nframes_append [OF _ assms(2), of look "take i q"] by simp
qed

end
