(* ===== verification/AL_MixerSteps.thy ===== *)
theory AL_MixerSteps
  imports AL_MixerProps
begin

text \<open>
  The arithmetic of a mixing round: how the queue position moves on, that a round
  always produces samples, and that the resampler stays inside the bytes collected for it.
\<close>

section \<open>Moving on through a queue\<close>

lemma item_frames:
  assumes fq: "frames_queue look fs q" and i: "i < length q" and nz: "q ! i \<noteq> 0" and fs: "fs \<noteq> 0"
  obtains b where "look (q ! i) = Some b" "unat (word_of_int (buf_size b) div fs :: u32) = length (seg look (q ! i)) div unat fs"
    "unat (word_of_int (buf_LoopEnd b) :: u32) \<le> length (seg look (q ! i)) div unat fs"
proof -
  obtain b where b: "look (q ! i) = Some b" "buf_wf b" "FrameSizeFromFmt (buf_FmtChannels b) (buf_FmtType b) = fs"
    using fq i nz by (auto simp: frames_queue_def)
  have len: "length (seg look (q ! i)) = nat (buf_size b)" using b nz by (simp add: seg_def length_data_of)
  have ty: "buf_FmtType b \<noteq> FmtUnset" using b(3) fs by (auto simp: FrameSizeFromFmt_def)
  have f: "0 < uint fs" using fs by (simp add: word_neq_0_conv word_less_def)
  have le: "buf_LoopEnd b * uint fs \<le> buf_size b" "0 \<le> buf_LoopEnd b" "buf_size b < 2 ^ 31"
    using b(2,3) ty by (auto simp: buf_wf_def)
  have "buf_LoopEnd b \<le> buf_LoopEnd b * uint fs" using le(2) f by (simp add: mult_le_cancel_left1)
  then have lt: "buf_LoopEnd b < 2 ^ 31" using le by linarith
  have "int (nat (buf_LoopEnd b) * unat fs) \<le> int (nat (buf_size b))" using le by simp
  then have "nat (buf_LoopEnd b) * unat fs \<le> nat (buf_size b)" by (simp only: of_nat_le_iff)
  then have "nat (buf_LoopEnd b) \<le> nat (buf_size b) div unat fs"
    using fs by (simp add: less_eq_div_iff_mult_less_eq unat_gt_0)
  then show ?thesis using that [of b] b(1) len le lt unat_size [OF b(2)] by (simp add: unat_div)
qed

lemma mix_advance_linear:
  assumes fq: "frames_queue look fs (src_queue c)" and fs: "fs \<noteq> 0" and st: "src_lSourceType c \<noteq> AL_STATIC" and i: "i < length (src_queue c)"
  shows "if nframes look fs (take i (src_queue c)) + unat pos < nframes look fs (src_queue c)
    then \<exists>j pos'. mix_advance look c False fs i played pos fr = Some (Ret (src_state c, j, played + of_nat (j - i), pos', fr)) \<and>
      i \<le> j \<and> j < length (src_queue c) \<and> unat pos' \<le> unat pos \<and>
      nframes look fs (take j (src_queue c)) + unat pos' = nframes look fs (take i (src_queue c)) + unat pos
    else mix_advance look c False fs i played pos fr = Some (Ret (AL_STOPPED, 0, src_BuffersInQueue c, 0, 0))"
  using i
proof (induction "length (src_queue c) - i" arbitrary: i played pos)
  case (Suc m)
  define q where "q = src_queue c"
  define n where "n = length (seg look (q ! i)) div unat fs"
  note fq = fq [folded q_def] and i = Suc.prems [folded q_def]
  have tk: "nframes look fs (take (Suc i) q) = nframes look fs (take i q) + n"
    using nframes_take_Suc [OF fq fs i] by (simp add: n_def)
  have up: "nframes look fs (take (Suc i) q) \<le> nframes look fs q"
    using nframes_mono [OF fq fs, of "Suc i" "length q"] i by simp
  obtain sz :: u32 where step: "unat sz = n"
    "mix_advance look c False fs i played pos fr =
      (if unat pos < n then Some (Ret (src_state c, i, played, pos, fr))
       else if i + 1 < length q then mix_advance look c False fs (i + 1) (played + 1) (pos - sz) fr
       else Some (Ret (AL_STOPPED, 0, src_BuffersInQueue c, 0, 0)))"
  proof (cases "q ! i = 0")
    case True
    then have "n = 0" by (simp add: n_def seg_def)
    then show ?thesis using that [of 0] True i by (simp add: mix_advance.simps [of look c False fs i played pos fr] q_def)
  next
    case False
    from item_frames [OF fq i False fs] obtain b where b: "look (q ! i) = Some b" "unat (word_of_int (buf_size b) div fs :: u32) = n"
      "unat (word_of_int (buf_LoopEnd b) :: u32) \<le> n" unfolding n_def by metis
    show ?thesis
      by (rule that [of "word_of_int (buf_size b) div fs"])
        (use b False i fs in \<open>auto simp: mix_advance.simps [of look c False fs i played pos fr] q_def word_less_nat_alt Let_def\<close>)
  qed
  show ?case
  proof (cases "unat pos < n")
    case True
    then show ?thesis using step(2) tk up i by (auto simp: q_def [symmetric] intro!: exI [of _ i])
  next
    case False
    have p: "unat (pos - sz) = unat pos - n" using False step(1) by (simp add: unat_sub word_le_nat_alt)
    show ?thesis
    proof (cases "i + 1 < length q")
      case True
      have e: "nframes look fs (take (i + 1) q) + unat (pos - sz) = nframes look fs (take i q) + unat pos"
        using tk p False by simp
      have m: "m = length (src_queue c) - (i + 1)" "i + 1 < length (src_queue c)" using Suc.hyps(2) True by (simp_all add: q_def)
      note IH = Suc.hyps(1) [OF m, of "pos - sz" "played + 1", folded q_def, unfolded e]
      show ?thesis
      proof (cases "nframes look fs (take i q) + unat pos < nframes look fs q")
        case T: True
        then obtain j pos' where j: "mix_advance look c False fs (i + 1) (played + 1) (pos - sz) fr =
            Some (Ret (src_state c, j, played + 1 + of_nat (j - (i + 1)), pos', fr))" "i + 1 \<le> j" "j < length q" "unat pos' \<le> unat pos - n"
            "nframes look fs (take j q) + unat pos' = nframes look fs (take i q) + unat pos" using IH p by auto
        have "played + 1 + of_nat (j - (i + 1)) = (played + of_nat (j - i) :: u32)" using j(2) by (simp add: of_nat_diff)
        then show ?thesis using T j step(2) True False by (auto simp: q_def [symmetric] intro!: exI [of _ j] exI [of _ pos'])
      next
        case F: False
        then show ?thesis using IH step(2) True False by (simp add: q_def [symmetric])
      qed
    next
      case F: False
      then have "Suc i = length q" using i by simp
      then have "nframes look fs q = nframes look fs (take i q) + n" using tk by simp
      then show ?thesis using False F step(2) by (auto simp: q_def [symmetric])
    qed
  qed
qed simp

section \<open>Stepping\<close>

lemma step_pos_closed:
  assumes "unat fr < 16384" "unat inc < 2 ^ 31" "unat pos + (unat fr + n * unat inc) div 16384 < 2 ^ 32"
  shows "step_pos inc n pos fr = (of_nat (unat pos + (unat fr + n * unat inc) div 16384), of_nat ((unat fr + n * unat inc) mod 16384))"
  using assms
proof (induction n arbitrary: pos fr)
  case 0
  then show ?case by simp
next
  case (Suc n)
  have u: "unat (fr + inc) = unat fr + unat inc" using Suc.prems by (intro unat_add_lem [THEN iffD1]) simp
  define f' where "f' = (fr + inc) AND FRACTIONMASK"
  define p' where "p' = pos + drop_bit FRACTIONBITS (fr + inc)"
  have f': "unat f' = (unat fr + unat inc) mod 16384"
  proof -
    have "FRACTIONMASK = mask 14" by (simp add: FRACTIONMASK_def mask_eq_exp_minus_1)
    then have "f' = take_bit 14 (fr + inc)" by (simp add: f'_def take_bit_eq_mask)
    then have "unat f' = take_bit 14 (unat (fr + inc))" by (simp only: unsigned_take_bit_eq)
    then show ?thesis by (simp add: take_bit_eq_mod u)
  qed
  have d: "unat (drop_bit FRACTIONBITS (fr + inc)) = (unat fr + unat inc) div 16384"
    by (simp add: FRACTIONBITS_def drop_bit_eq_div unat_div u)
  have total: "(unat fr + Suc n * unat inc) div 16384 = (unat fr + unat inc) div 16384 + (unat f' + n * unat inc) div 16384"
    "(unat fr + Suc n * unat inc) mod 16384 = (unat f' + n * unat inc) mod 16384"
  proof -
    have "unat fr + Suc n * unat inc = (unat fr + unat inc) div 16384 * 16384 + (unat f' + n * unat inc)"
      using div_mult_mod_eq [of "unat fr + unat inc" 16384] by (simp add: f')
    then show "(unat fr + Suc n * unat inc) div 16384 = (unat fr + unat inc) div 16384 + (unat f' + n * unat inc) div 16384"
      "(unat fr + Suc n * unat inc) mod 16384 = (unat f' + n * unat inc) mod 16384" by (simp_all only: div_mult_self4 mod_mult_self4) simp_all
  qed
  have p': "unat p' = unat pos + (unat fr + unat inc) div 16384"
    unfolding p'_def using Suc.prems(3) total(1) d by (subst unat_add_lem [THEN iffD1]) simp_all
  have "step_pos inc (Suc n) pos fr = step_pos inc n p' f'" by (simp add: p'_def f'_def)
  also have "\<dots> = (of_nat (unat p' + (unat f' + n * unat inc) div 16384), of_nat ((unat f' + n * unat inc) mod 16384))"
    by (rule Suc.IH) (use Suc.prems total(1) p' f' in simp_all)
  finally show ?case using total p' by (simp only: add.assoc)
qed


section \<open>Progress\<close>

text \<open>
  The clamp of the stepping value and the size of the stack buffer fit together: every
  round produces at least one sample, and the frame that the last read of the resampler
  starts from, with the padding it looks ahead, lies among the collected frames.
\<close>

lemma round_frames:
  fixes left inc pads fr fs :: nat
  assumes "1 \<le> left" "1 \<le> inc" "inc \<le> (16384 div fs - pads - 1) * 16384" "fr < 16384" "0 < fs" "pads + 1 < 16384 div fs"
    and want: "want = min ((((left + 1) * inc + fr + 16383) div 16384 + pads) * fs) 16384"
    and D: "D = want div fs"
  shows "pads < D" "inc + fr < (D - pads) * 16384" "1 \<le> ((D - pads) * 16384 - fr - 1) div inc"
proof -
  define need where "need = ((left + 1) * inc + fr + 16383) div 16384"
  have need: "(left + 1) * inc + fr \<le> need * 16384"
    unfolding need_def using div_mult_mod_eq [of "(left + 1) * inc + fr + 16383" 16384] by (simp add: need_def)
  have inc2: "2 * inc \<le> (left + 1) * inc" by (rule mult_le_mono1) (use assms in simp)
  have "D = need + pads \<or> D = 16384 div fs" using want D assms(5) by (auto simp: need_def min_def)
  then show less: "inc + fr < (D - pads) * 16384"
  proof
    assume d: "D = 16384 div fs"
    have "(D - pads) * 16384 = (16384 div fs - pads - 1) * 16384 + 16384" using assms(6) d by (simp add: algebra_simps)
    then show ?thesis using assms(3,4) by linarith
  next
    assume "D = need + pads"
    then have "D - pads = need" by simp
    then show ?thesis using need inc2 assms(2) by linarith
  qed
  then show "pads < D" using assms(2) by (cases "pads < D") auto
  show "1 \<le> ((D - pads) * 16384 - fr - 1) div inc"
    using less assms(2) by (simp add: less_eq_div_iff_mult_less_eq)
qed


lemma bytes_wanted_eq:
  assumes "unat left \<le> 4096" "unat inc < 2 ^ 31" "unat fr < 16384" "fs \<noteq> 0" "pads \<le> 16384" "unat fs \<le> 16384"
    and W: "W = min ((((unat left + 1) * unat inc + unat fr + 16383) div 16384 + pads) * unat fs) 16384"
  shows "\<exists>want. bytes_wanted left inc (int pads) fr fs = Ret want \<and> unat want = W div unat fs * unat fs"
proof -
  define d where "d = (unat left + 1) * unat inc"
  define e where "e = ((d + unat fr + 16383) div 16384 + pads) * unat fs"
  have ul: "unat (left + 1) = unat left + 1" using assms(1) by (simp add: unat_add_lem [THEN iffD1])
  have uf: "unat (fr + FRACTIONMASK) = unat fr + 16383" using assms(3) by (simp add: FRACTIONMASK_def unat_add_lem [THEN iffD1])
  have d: "uint (left + 1) * uint inc = int d" by (simp only: uint_nat ul d_def of_nat_mult)
  have f: "uint (fr + FRACTIONMASK) = int (unat fr + 16383)" by (simp only: uint_nat uf)
  have dle: "d \<le> 4097 * 2147483647" unfolding d_def using assms(1,2) by (intro mult_le_mono) simp_all
  have e: "(drop_bit FRACTIONBITS (int d + uint (fr + FRACTIONMASK)) + int pads) * uint fs = int e"
  proof -
    have "drop_bit FRACTIONBITS (int (d + unat fr + 16383)) = int ((d + unat fr + 16383) div 16384)"
      by (simp add: drop_bit_eq_div FRACTIONBITS_def zdiv_int)
    then show ?thesis by (simp only: f e_def uint_nat [of fs] add.assoc of_nat_add of_nat_mult)
  qed
  have "(d + unat fr + 16383) div 16384 \<le> 537001990" using dle assms(3) by (simp add: div_le_mono less_eq_div_iff_mult_less_eq)
  then have ele: "e \<le> 537018374 * 16384" unfolding e_def using assms(5,6) by (intro mult_le_mono) simp_all
  define w :: u32 where "w = (if int e < uint STACK_DATA_SIZE then word_of_int (int e) else STACK_DATA_SIZE)"
  have w: "unat w = W" unfolding W e_def [symmetric] d_def [symmetric] by (simp add: w_def STACK_DATA_SIZE_def min_def)
  have "bytes_wanted left inc (int pads) fr fs = Ret (w - w mod fs)"
  proof -
    have "uint fr < 16384" using assms(3) by (simp add: uint_nat del: of_nat_unat)
    then have s: "s64 (int d) = Ret (int d)" "s64 (int d + uint (fr + FRACTIONMASK)) = Ret (int d + uint (fr + FRACTIONMASK))"
      "s64 (int e) = Ret (int e)" using dle ele by (simp_all add: s64_def f)
    show ?thesis using assms(4) by (simp only: bytes_wanted_def d s bnd_simps e Let_def w_def [symmetric]) (simp add: mod_u32_def)
  qed
  moreover have "w mod fs \<le> w" by (simp add: word_le_nat_alt unat_mod)
  then have "unat (w - w mod fs) = unat w - unat w mod unat fs" by (simp only: unat_sub unat_mod)
  then have "unat (w - w mod fs) = W div unat fs * unat fs" using w by (simp only: minus_mod_eq_div_mult)
  ultimately show ?thesis by blast
qed


lemma samples_given_eq:
  assumes "inc \<noteq> 0" "fs \<noteq> 0" "pads < D" "D \<le> 16384" "D * unat fs \<le> 16384" "unat inc + unat fr < (D - pads) * 16384"
  shows "samples_given (D * unat fs) left inc (int pads) fr fs =
    Ret (of_nat (min (((D - pads) * 16384 - unat fr - 1) div unat inc) (unat left)))"
proof -
  define X where "X = (D - pads) * 16384 - unat fr - 1"
  have i0: "0 < unat inc" "0 < unat fs" using assms(1,2) by (simp_all add: unat_gt_0)
  have q: "unat (of_nat (D * unat fs) div fs :: u32) = D" using assms(5) i0(2) by (simp add: unat_div del: of_nat_mult)
  then have uq: "uint (of_nat (D * unat fs) div fs :: u32) = int D" by (simp only: uint_nat)
  have i1: "uint (inc - 1) = int (unat inc - 1)" using unat_minus_one [OF assms(1)] by (simp only: uint_nat)
  have num: "push_bit FRACTIONBITS (int D - int pads) - uint inc - uint fr + uint (inc - 1) = int X"
  proof -
    have "int (unat inc - 1) = int (unat inc) - 1" using i0(1) by (simp add: of_nat_diff del: of_nat_unat)
    moreover have "int X = int ((D - pads) * 16384) - int (unat fr) - 1" using assms(6) by (simp add: X_def of_nat_diff)
    moreover have "push_bit FRACTIONBITS (int D - int pads) = int ((D - pads) * 16384)"
      using assms(3) by (simp add: FRACTIONBITS_def push_bit_eq_mult of_nat_diff)
    ultimately show ?thesis by (simp only: i1 uint_nat [of inc] uint_nat [of fr])
  qed
  have c: "c_div (int X) (uint inc) = int (X div unat inc)" using i0 by (simp only: uint_nat) (simp add: c_div_nonneg zdiv_int del: of_nat_unat)
  have "(D - pads) * 16384 \<le> 16384 * 16384" using assms(4) by (intro mult_le_mono1) simp
  then have "X \<le> 16384 * 16384" by (simp add: X_def)
  then have "X div unat inc \<le> 16384 * 16384" by (rule order_trans [OF div_le_dividend])
  then have "X div unat inc < 2 ^ 32" by simp
  then have m: "min (word_of_int (int (X div unat inc))) left = of_nat (min (X div unat inc) (unat left))"
    by (auto simp: min_def word_le_nat_alt)
  have "div_u32 (of_nat (D * unat fs)) fs = Ret (of_nat (D * unat fs) div fs)" using assms(2) by (simp add: div_u32_def)
  then show ?thesis using assms(1,3) by (simp only: samples_given_def bnd_simps uq Let_def num c m X_def [symmetric]) simp
qed

text \<open>A round, on the bytes it asked for.\<close>

lemma round_ok:
  assumes "1 \<le> unat left" "unat left \<le> 4096" "inc \<noteq> 0" "unat inc \<le> (16384 div unat fs - pads - 1) * 16384" "unat fr < 16384"
    "fs \<noteq> 0" "pads + 1 < 16384 div unat fs"
  obtains want n where "bytes_wanted left inc (int pads) fr fs = Ret want"
    "samples_given (unat want) left inc (int pads) fr fs = Ret n" "1 \<le> unat n" "unat n \<le> unat left" "unat want \<le> 16384"
    "(unat fr + unat n * unat inc) div 16384 + pads < unat want div unat fs"
proof -
  define W where "W = min ((((unat left + 1) * unat inc + unat fr + 16383) div 16384 + pads) * unat fs) 16384"
  define D where "D = W div unat fs"
  have i0: "1 \<le> unat inc" "0 < unat fs" using assms(3,6) by (simp_all add: unat_gt_0 Suc_le_eq)
  have fs: "unat fs \<le> 16384" using assms(7) by (rule_tac ccontr) simp
  have pads: "pads \<le> 16384" using assms(7) div_le_dividend [of 16384 "unat fs"] by linarith
  have "16384 div unat fs - pads - 1 \<le> 16384" using div_le_dividend [of 16384 "unat fs"] by linarith
  then have inc: "unat inc < 2 ^ 31" using assms(4) mult_le_mono1 [of "16384 div unat fs - pads - 1" 16384 16384] by simp
  note r = round_frames [OF assms(1) i0(1) assms(4,5) i0(2) assms(7) W_def D_def]
  have W: "W \<le> 16384" by (simp add: W_def)
  have D: "D * unat fs \<le> 16384" "D \<le> 16384" 
    unfolding D_def by (rule order_trans [OF div_times_less_eq_dividend W], rule order_trans [OF div_le_dividend W])
  obtain want where want: "bytes_wanted left inc (int pads) fr fs = Ret want" "unat want = D * unat fs"
    using bytes_wanted_eq [OF assms(2) inc assms(5,6) pads fs W_def] by (auto simp: D_def)
  define N where "N = min (((D - pads) * 16384 - unat fr - 1) div unat inc) (unat left)"
  have N: "unat (of_nat N :: u32) = N" using assms(2) by (intro unat_of_nat32) (simp add: N_def)
  have "N * unat inc \<le> (D - pads) * 16384 - unat fr - 1"
    unfolding N_def using div_times_less_eq_dividend [of "(D - pads) * 16384 - unat fr - 1" "unat inc"] by (meson le_trans min.cobounded1 mult_le_mono1)
  then have "unat fr + N * unat inc < (D - pads) * 16384" using r(2) by linarith
  then have "(unat fr + N * unat inc) div 16384 < D - pads" by (simp add: div_less_iff_less_mult)
  then have r4: "(unat fr + N * unat inc) div 16384 + pads < unat want div unat fs" using want(2) i0(2) r(1) by simp
  have "samples_given (unat want) left inc (int pads) fr fs = Ret (of_nat N)"
    unfolding want(2) N_def by (rule samples_given_eq [OF assms(3,6) r(1) D(2,1) r(2)])
  moreover have "1 \<le> N" "N \<le> unat left" using r(3) assms(1) by (simp_all add: N_def)
  ultimately show ?thesis using that [OF want(1), of "of_nat N"] r4 D(1) want(2) by (simp only: N)
qed

end
