(* ===== verification/G711.thy ===== *)
theory G711
  imports Prelude
begin

text \<open>
  The G.711 codec of \<^verbatim>\<open>gles/Media/ag711.cpp\<close>: A-law and mu-law coding of 16-bit samples, the two
  conversion tables and the four batch functions. A C \<open>int\<close> is an integer here; the
  callers pass 16-bit samples, for which no operation leaves the range of \<open>int\<close>.
  The lemmas give the quantisation error of both laws and the round trips.
\<close>

section \<open>Tables and search\<close>

definition SIGN_BIT :: byte where "SIGN_BIT = 0x80"
definition QUANT_MASK :: int where "QUANT_MASK = 0xF"
definition SEG_SHIFT :: nat where "SEG_SHIFT = 4"
definition SEG_MASK :: byte where "SEG_MASK = 0x70"
definition BIAS :: int where "BIAS = 0x84"

lemmas g711_consts = SIGN_BIT_def QUANT_MASK_def SEG_SHIFT_def SEG_MASK_def BIAS_def

definition seg_end :: "int list" where
  "seg_end = [0xFF, 0x1FF, 0x3FF, 0x7FF, 0xFFF, 0x1FFF, 0x3FFF, 0x7FFF]"

definition u2a :: "byte list" where
  "u2a =
    [1, 1, 2, 2, 3, 3, 4, 4, 5, 5, 6, 6, 7, 7, 8, 8,
     9, 10, 11, 12, 13, 14, 15, 16, 17, 18, 19, 20, 21, 22, 23, 24,
     25, 27, 29, 31, 33, 34, 35, 36, 37, 38, 39, 40, 41, 42, 43, 44,
     46, 48, 49, 50, 51, 52, 53, 54, 55, 56, 57, 58, 59, 60, 61, 62,
     64, 65, 66, 67, 68, 69, 70, 71, 72, 73, 74, 75, 76, 77, 78, 79,
     81, 82, 83, 84, 85, 86, 87, 88, 89, 90, 91, 92, 93, 94, 95, 96,
     97, 98, 99, 100, 101, 102, 103, 104, 105, 106, 107, 108, 109, 110, 111, 112,
     113, 114, 115, 116, 117, 118, 119, 120, 121, 122, 123, 124, 125, 126, 127, 128]"

definition a2u :: "byte list" where
  "a2u =
    [1, 3, 5, 7, 9, 11, 13, 15, 16, 17, 18, 19, 20, 21, 22, 23,
     24, 25, 26, 27, 28, 29, 30, 31, 32, 32, 33, 33, 34, 34, 35, 35,
     36, 37, 38, 39, 40, 41, 42, 43, 44, 45, 46, 47, 48, 48, 49, 49,
     50, 51, 52, 53, 54, 55, 56, 57, 58, 59, 60, 61, 62, 63, 64, 64,
     65, 66, 67, 68, 69, 70, 71, 72, 73, 74, 75, 76, 77, 78, 79, 79,
     80, 81, 82, 83, 84, 85, 86, 87, 88, 89, 90, 91, 92, 93, 94, 95,
     96, 97, 98, 99, 100, 101, 102, 103, 104, 105, 106, 107, 108, 109, 110, 111,
     112, 113, 114, 115, 116, 117, 118, 119, 120, 121, 122, 123, 124, 125, 126, 127]"

text \<open>The index of the first entry that is not below the value, or the size of the table.\<close>

fun search :: "int \<Rightarrow> int list \<Rightarrow> nat" where
  "search val [] = 0"
| "search val (x # table) = (if val \<le> x then 0 else Suc (search val table))"

section \<open>The codec\<close>

definition linear2alaw :: "int \<Rightarrow> byte" where
  "linear2alaw pcm_val =
     (let mask = (if 0 \<le> pcm_val then 0xD5 else 0x55);
          val = (if 0 \<le> pcm_val then pcm_val else - pcm_val - 8);
          seg = search val seg_end in
      if 8 \<le> seg then 0x7F XOR mask
      else
        (push_bit SEG_SHIFT (of_nat seg) OR
         word_of_int (drop_bit (if seg < 2 then 4 else seg + 3) val AND QUANT_MASK)) XOR mask)"

definition alaw2linear :: "byte \<Rightarrow> int" where
  "alaw2linear a =
     (let a = a XOR 0x55;
          t = push_bit 4 (uint a AND QUANT_MASK);
          seg = unat (drop_bit SEG_SHIFT (a AND SEG_MASK));
          t = (case seg of 0 \<Rightarrow> t + 8 | Suc 0 \<Rightarrow> t + 0x108 | _ \<Rightarrow> push_bit (seg - 1) (t + 0x108)) in
      if a AND SIGN_BIT \<noteq> 0 then t else - t)"

definition linear2ulaw :: "int \<Rightarrow> byte" where
  "linear2ulaw pcm_val =
     (let val = (if pcm_val < 0 then BIAS - pcm_val else pcm_val + BIAS);
          mask = (if pcm_val < 0 then 0x7F else 0xFF);
          seg = search val seg_end in
      if 8 \<le> seg then 0x7F XOR mask
      else (push_bit 4 (of_nat seg) OR word_of_int (drop_bit (seg + 3) val AND 0xF)) XOR mask)"

definition ulaw2linear :: "byte \<Rightarrow> int" where
  "ulaw2linear u =
     (let u = NOT u;
          t = push_bit (unat (drop_bit SEG_SHIFT (u AND SEG_MASK))) (push_bit 3 (uint u AND QUANT_MASK) + BIAS) in
      if u AND SIGN_BIT \<noteq> 0 then BIAS - t else t - BIAS)"

text \<open>The table conversions; an index outside a table would read past it.\<close>

definition alaw2ulaw :: "byte \<Rightarrow> byte outcome" where
  "alaw2ulaw a =
     (let (mask, i) = (if a AND 0x80 \<noteq> 0 then (0xFF, unat (a XOR 0xD5)) else (0x7F, unat (a XOR 0x55))) in
      if i < length a2u then Ret (mask XOR a2u ! i) else UB OobRead)"

definition ulaw2alaw :: "byte \<Rightarrow> byte outcome" where
  "ulaw2alaw u =
     (let (mask, i) = (if u AND 0x80 \<noteq> 0 then (0xD5, unat (0xFF XOR u)) else (0x55, unat (0x7F XOR u))) in
      if i < length u2a then Ret (mask XOR (u2a ! i - 1)) else UB OobRead)"

section \<open>Batches\<close>

fun batch :: "('a \<Rightarrow> 'b) \<Rightarrow> nat \<Rightarrow> nat \<Rightarrow> 'b list \<Rightarrow> 'a list \<Rightarrow> 'b list outcome" where
  "batch f i 0 dst src = Ret dst"
| "batch f i (Suc n) dst src =
     (if length src \<le> i then UB OobRead
      else if length dst \<le> i then UB HeapOverflow
      else batch f (Suc i) n (dst[i := f (src ! i)]) src)"

definition batch_linear2ulaw :: "byte list \<Rightarrow> int list \<Rightarrow> int \<Rightarrow> byte list outcome" where
  "batch_linear2ulaw dst src len = batch linear2ulaw 0 (nat len) dst src"

definition batch_ulaw2linear :: "int list \<Rightarrow> byte list \<Rightarrow> int \<Rightarrow> int list outcome" where
  "batch_ulaw2linear dst src len = batch ulaw2linear 0 (nat len) dst src"

definition batch_linear2alaw :: "byte list \<Rightarrow> int list \<Rightarrow> int \<Rightarrow> byte list outcome" where
  "batch_linear2alaw dst src len = batch linear2alaw 0 (nat len) dst src"

definition batch_alaw2linear :: "int list \<Rightarrow> byte list \<Rightarrow> int \<Rightarrow> int list outcome" where
  "batch_alaw2linear dst src len = batch alaw2linear 0 (nat len) dst src"

text \<open>
  The audio callback of \<open>JAConnect\<close>. \<open>block\<close> is what \<open>malloc(16000)\<close> returns, as 8000 samples; the
  result is what the application gets, the samples and their length in bytes.
\<close>

definition DoOnAudioData :: "int list \<Rightarrow> byte list \<Rightarrow> int \<Rightarrow> (int list \<times> int) outcome" where
  "DoOnAudioData block buf buflen =
     bnd (batch_alaw2linear block buf buflen) (\<lambda>audio. Ret (take (nat buflen) audio, buflen * 2))"

section \<open>Codes as segment and step\<close>

definition alaw_level :: "nat \<Rightarrow> nat \<Rightarrow> int" where
  "alaw_level seg q = (if seg = 0 then 16 * int q + 8 else (16 * int q + 264) * 2 ^ (seg - 1))"

definition ulaw_level :: "nat \<Rightarrow> nat \<Rightarrow> int" where
  "ulaw_level seg q = (8 * int q + 132) * 2 ^ seg - 132"

lemma all_codes: "list_all (\<lambda>seg. list_all (\<lambda>q.
    alaw2linear ((push_bit SEG_SHIFT (of_nat seg) OR of_nat q) XOR 0xD5) = alaw_level seg q \<and>
    alaw2linear ((push_bit SEG_SHIFT (of_nat seg) OR of_nat q) XOR 0x55) = - alaw_level seg q \<and>
    ulaw2linear ((push_bit 4 (of_nat seg) OR of_nat q) XOR 0xFF) = ulaw_level seg q \<and>
    ulaw2linear ((push_bit 4 (of_nat seg) OR of_nat q) XOR 0x7F) = - ulaw_level seg q) [0..<16]) [0..<8]"
  by code_simp

lemma code_levels:
  assumes "seg < 8" "q < 16"
  shows "alaw2linear ((push_bit SEG_SHIFT (of_nat seg) OR of_nat q) XOR 0xD5) = alaw_level seg q"
    "alaw2linear ((push_bit SEG_SHIFT (of_nat seg) OR of_nat q) XOR 0x55) = - alaw_level seg q"
    "ulaw2linear ((push_bit 4 (of_nat seg) OR of_nat q) XOR 0xFF) = ulaw_level seg q"
    "ulaw2linear ((push_bit 4 (of_nat seg) OR of_nat q) XOR 0x7F) = - ulaw_level seg q"
  using all_codes assms by (auto simp: list_all_iff)


lemma step_code: "(word_of_int (drop_bit k val AND 15) :: byte) = of_nat (nat (val div 2 ^ k mod 16))"
proof -
  have "take_bit 4 (drop_bit k val) = drop_bit k val AND 15" by (simp only: take_bit_eq_mask) (simp add: mask_eq_exp_minus_1)
  then have "drop_bit k val AND 15 = val div 2 ^ k mod 16" by (simp add: take_bit_eq_mod drop_bit_eq_div)
  then show ?thesis by simp
qed

lemma step_less: "nat (val div 2 ^ k mod 16) < (16 :: nat)"
  by (simp add: nat_less_iff)

text \<open>The segment of a value is the position of its leading bit.\<close>

lemma search_seg_end:
  assumes "0 \<le> val" "val \<le> 32767"
  shows "search val seg_end < 8 \<and> val < 2 ^ (search val seg_end + 8) \<and> (search val seg_end = 0 \<or> 2 ^ (search val seg_end + 7) \<le> val)"
  using assms by (simp add: seg_end_def)

lemma search_negative: "val \<le> 255 \<Longrightarrow> search val seg_end = 0"
  by (simp add: seg_end_def)

definition alaw_step :: "int \<Rightarrow> nat" where
  "alaw_step val = (let seg = search val seg_end in nat (val div 2 ^ (if seg < 2 then 4 else seg + 3) mod 16))"

definition ulaw_step :: "int \<Rightarrow> nat" where
  "ulaw_step val = nat (val div 2 ^ (search val seg_end + 3) mod 16)"

lemma steps_less: "alaw_step val < 16" "ulaw_step val < 16"
  unfolding alaw_step_def ulaw_step_def Let_def by (rule step_less)+

lemma linear2alaw_code:
  assumes "val = (if 0 \<le> x then x else - x - 8)" "search val seg_end < 8"
  shows "linear2alaw x = (push_bit SEG_SHIFT (of_nat (search val seg_end)) OR of_nat (alaw_step val)) XOR (if 0 \<le> x then 0xD5 else 0x55)"
  using assms(2) unfolding linear2alaw_def Let_def alaw_step_def QUANT_MASK_def step_code assms(1) [symmetric] by simp

lemma linear2ulaw_code:
  assumes "val = (if x < 0 then BIAS - x else x + BIAS)" "search val seg_end < 8"
  shows "linear2ulaw x = (push_bit 4 (of_nat (search val seg_end)) OR of_nat (ulaw_step val)) XOR (if x < 0 then 0x7F else 0xFF)"
  using assms(2) unfolding linear2ulaw_def Let_def ulaw_step_def step_code assms(1) [symmetric] by simp

section \<open>Quantisation error\<close>

lemma midpoint_error:
  fixes H val :: int
  assumes "0 < H" "32 * H \<le> val" "val < 64 * H"
  shows "\<bar>val div (2 * H) mod 16 * (2 * H) + 33 * H - val\<bar> \<le> H"
proof -
  define v where "v = val div (2 * H)"
  have d: "v * (2 * H) + val mod (2 * H) = val" "0 \<le> val mod (2 * H)" "val mod (2 * H) < 2 * H"
    using assms(1) by (simp_all only: v_def div_mult_mod_eq pos_mod_sign pos_mod_bound)
  have "16 \<le> v" using assms zdiv_mono1 [of "16 * (2 * H)" val "2 * H"] by (simp add: v_def)
  moreover have "v < 32"
  proof (rule ccontr)
    assume "\<not> v < 32"
    then have "32 * (2 * H) \<le> v * (2 * H)" using assms(1) by (intro mult_right_mono) simp_all
    then show False using d assms(3) by linarith
  qed
  ultimately have "v mod 16 = v - 16" by presburger
  then have "v mod 16 * (2 * H) = v * (2 * H) - 32 * H" by (simp only: left_diff_distrib)
  then show ?thesis using d unfolding v_def [symmetric] by linarith
qed

lemma seg_midpoint:
  fixes val :: int
  assumes "2 ^ (s + 7) \<le> val" "val < 2 ^ (s + 8)"
  shows "\<bar>val div 2 ^ (s + 3) mod 16 * 2 ^ (s + 3) + 33 * 2 ^ (s + 2) - val\<bar> \<le> val div 32"
proof -
  have p: "2 * 2 ^ (s + 2) = (2 :: int) ^ (s + 3)" "32 * 2 ^ (s + 2) = (2 :: int) ^ (s + 7)" "64 * 2 ^ (s + 2) = (2 :: int) ^ (s + 8)"
    by (simp_all add: power_add)
  have "\<bar>val div 2 ^ (s + 3) mod 16 * 2 ^ (s + 3) + 33 * 2 ^ (s + 2) - val\<bar> \<le> 2 ^ (s + 2)"
    using midpoint_error [of "2 ^ (s + 2)" val] assms by (simp only: p) simp
  moreover have "2 ^ (s + 2) \<le> val div 32" using assms(1) p(2) zdiv_mono1 [of "32 * 2 ^ (s + 2)" val 32] by simp
  ultimately show ?thesis by linarith
qed

lemma alaw_level_error:
  assumes "0 \<le> val" "val \<le> 32767"
  shows "\<bar>alaw_level (search val seg_end) (alaw_step val) - val\<bar> \<le> max 8 (val div 32)"
proof (cases "search val seg_end")
  case 0
  then have "val < 256" using search_seg_end [OF assms] by simp
  moreover have "val div 16 mod 16 = val div 16" using assms(1) \<open>val < 256\<close> by simp
  ultimately show ?thesis using 0 assms(1) div_mult_mod_eq [of val 16] pos_mod_bound [of 16 val] pos_mod_sign [of 16 val]
    by (simp add: alaw_level_def alaw_step_def) linarith
next
  case (Suc s)
  have "alaw_level (Suc s) (alaw_step val) = val div 2 ^ (Suc s + 3) mod 16 * 2 ^ (Suc s + 3) + 33 * 2 ^ (Suc s + 2)"
    using Suc by (cases s) (simp_all add: alaw_level_def alaw_step_def algebra_simps power_add)
  then show ?thesis using seg_midpoint [of "Suc s" val] search_seg_end [OF assms] Suc by simp
qed

lemma ulaw_level_error:
  assumes "132 \<le> val" "val \<le> 32767"
  shows "\<bar>ulaw_level (search val seg_end) (ulaw_step val) + 132 - val\<bar> \<le> val div 32"
proof -
  define s where "s = search val seg_end"
  have s: "2 ^ (s + 7) \<le> val" "val < 2 ^ (s + 8)" using search_seg_end [of val] assms by (auto simp: s_def)
  have "ulaw_level s (ulaw_step val) + 132 = val div 2 ^ (s + 3) mod 16 * 2 ^ (s + 3) + 33 * 2 ^ (s + 2)"
    by (simp add: ulaw_level_def ulaw_step_def s_def algebra_simps power_add)
  then show ?thesis using seg_midpoint [OF s] by (simp add: s_def)
qed


lemma alaw_decode:
  assumes "val = (if 0 \<le> x then x else - x - 8)" "search val seg_end < 8"
  shows "alaw2linear (linear2alaw x) = (if 0 \<le> x then 1 else - 1) * alaw_level (search val seg_end) (alaw_step val)"
  using code_levels(1,2) [OF assms(2) steps_less(1)] by (simp add: linear2alaw_code [OF assms])

lemma ulaw_decode:
  assumes "val = (if x < 0 then BIAS - x else x + BIAS)" "search val seg_end < 8"
  shows "ulaw2linear (linear2ulaw x) = (if x < 0 then - 1 else 1) * ulaw_level (search val seg_end) (ulaw_step val)"
  using code_levels(3,4) [OF assms(2) steps_less(2)] by (simp add: linear2ulaw_code [OF assms])

lemma search_beyond: "32767 < val \<Longrightarrow> search val seg_end = 8"
  by (simp add: seg_end_def)

lemma byte_cases: "list_all P (map word_of_int [0..255]) \<Longrightarrow> P (a :: byte)"
proof -
  assume "list_all P (map word_of_int [0..255])"
  moreover have "uint a \<in> {0..255}" using unsigned_less [of a, where ?'a = int] by simp
  then have "a \<in> set (map word_of_int [0..255])" by (auto simp: image_iff intro!: bexI [of _ "uint a"])
  ultimately show ?thesis by (simp only: list_all_iff)
qed

lemma batch_map:
  "batch f i n dst src =
     (if length src < i + n \<and> 0 < n \<and> length src - i \<le> length dst - i then UB OobRead
      else if length dst < i + n \<and> 0 < n then UB HeapOverflow
      else Ret (take i dst @ map f (take n (drop i src)) @ drop (i + n) dst))"
proof (induction n arbitrary: i dst)
  case (Suc n)
  show ?case
  proof (cases "i < length src \<and> i < length dst")
    case True
    have "take (Suc i) (dst[i := f (src ! i)]) = take i dst @ [f (src ! i)]" using True by (simp add: take_Suc_conv_app_nth)
    moreover have "take (Suc n) (drop i src) = src ! i # take n (drop (Suc i) src)" using True by (simp add: Cons_nth_drop_Suc [symmetric])
    ultimately show ?thesis using True by (auto simp: Suc.IH)
  qed auto
qed simp

section \<open>Properties\<close>

text \<open>Decoding an A-law byte and coding the sample again gives the byte back: all 256 codes survive.\<close>

theorem alaw_recode: "linear2alaw (alaw2linear a) = a"
  by (rule byte_cases [of "\<lambda>a. linear2alaw (alaw2linear a) = a"]) code_simp

text \<open>A sample that goes through A-law comes back within 8 or a thirty-second of its magnitude (and 8 more for
  negative samples, whose magnitude is coded 8 too small). The samples from -7 to -1 are the exception: they come
  back as -248, because the subtraction of 8 makes their magnitude negative before it is masked.\<close>

theorem alaw_quantisation:
  assumes "- 32768 \<le> x" "x \<le> 32767"
  shows "if 0 \<le> x then \<bar>alaw2linear (linear2alaw x) - x\<bar> \<le> max 8 (x div 32)
    else if x \<le> - 8 then \<bar>alaw2linear (linear2alaw x) - x\<bar> \<le> 8 + max 8 ((- x - 8) div 32)
    else alaw2linear (linear2alaw x) = - 248"
proof -
  define val where "val = (if 0 \<le> x then x else - x - 8)"
  consider "0 \<le> val" | "- 8 < x" "x < 0" unfolding val_def by (cases "0 \<le> x"; cases "x \<le> - 8") auto
  then show ?thesis
  proof cases
    case 1
    have "val \<le> 32767" using assms by (auto simp: val_def)
    note e = alaw_level_error [OF 1 this] and s = search_seg_end [OF 1 this, THEN conjunct1]
    show ?thesis using e alaw_decode [OF val_def s] 1 by (auto simp: val_def split: if_splits)
  next
    case 2
    then have v: "val \<le> 255" "val < 0" "- 8 < val" by (auto simp: val_def)
    have "val div 16 = - 1" using v by presburger
    then show ?thesis using 2 alaw_decode [OF val_def] search_negative [OF v(1)] by (simp add: alaw_step_def alaw_level_def)
  qed
qed

theorem alaw_quantisation_witness:
  "\<bar>alaw2linear (linear2alaw 1000) - 1000\<bar> \<le> 31 \<and> alaw2linear (linear2alaw (- 3)) = - 248 \<and>
   \<bar>alaw2linear (linear2alaw (- 1000)) + 1000\<bar> \<le> 39"
  using alaw_quantisation [of 1000] alaw_quantisation [of "- 3"] alaw_quantisation [of "- 1000"] by simp

text \<open>A sample that goes through mu-law comes back within a thirty-second of its biased magnitude; a sample
  whose biased magnitude does not fit 15 bits comes back as the largest level of its sign.\<close>

theorem ulaw_quantisation:
  assumes "- 32768 \<le> x" "x \<le> 32767"
  shows "if \<bar>x\<bar> \<le> 32635 then \<bar>ulaw2linear (linear2ulaw x) - x\<bar> \<le> (\<bar>x\<bar> + 132) div 32
    else ulaw2linear (linear2ulaw x) = sgn x * 32124"
proof (cases "\<bar>x\<bar> \<le> 32635")
  case True
  define val where "val = (if x < 0 then BIAS - x else x + BIAS)"
  have v: "val = \<bar>x\<bar> + 132" "132 \<le> val" "val \<le> 32767" using True by (auto simp: val_def BIAS_def)
  have s: "search val seg_end < 8" using search_seg_end [of val] v by simp
  show ?thesis using ulaw_level_error [OF v(2,3)] ulaw_decode [OF val_def s] True v(1) by (auto split: if_splits)
next
  case False
  have "linear2ulaw x = (if x < 0 then 0 else 0x80)"
    using False search_beyond [of "if x < 0 then BIAS - x else x + BIAS"] by (auto simp: linear2ulaw_def BIAS_def Let_def)
  moreover have "ulaw2linear 0 = - 32124" "ulaw2linear 0x80 = 32124" by code_simp+
  ultimately show ?thesis using False by (auto simp: sgn_if)
qed

theorem ulaw_quantisation_witness:
  "\<bar>ulaw2linear (linear2ulaw 1000) - 1000\<bar> \<le> 35 \<and> ulaw2linear (linear2ulaw (- 32768)) = - 32124"
  using ulaw_quantisation [of 1000] ulaw_quantisation [of "- 32768"] by simp

text \<open>A batch decodes sample by sample and leaves the rest of the destination alone; it reads or writes out
  of bounds exactly when the length given exceeds one of the two arrays.\<close>

theorem batch_alaw2linear_exact:
  assumes "0 \<le> len"
  shows "if len \<le> int (length src) \<and> len \<le> int (length dst)
    then batch_alaw2linear dst src len = Ret (map alaw2linear (take (nat len) src) @ drop (nat len) dst)
    else batch_alaw2linear dst src len \<in> {UB OobRead, UB HeapOverflow}"
  using assms by (auto simp: batch_alaw2linear_def batch_map)

theorem batch_alaw2linear_exact_witness:
  "batch_alaw2linear [0, 0, 7] [0xD5, 0x55] 2 = Ret [alaw2linear 0xD5, alaw2linear 0x55, 7]"
  using batch_alaw2linear_exact [of 2 "[0xD5, 0x55]" "[0, 0, 7]"] by simp


text \<open>C37: The audio callback of \<open>JAConnect\<close> decodes into a block of 16000 bytes, whatever the length of the packet: a
  packet of more than 8000 bytes runs past the block, a shorter one is decoded completely.\<close>

theorem DoOnAudioData_overflow_iff:
  assumes "length block = 8000" "buflen = int (length buf)"
  shows "(DoOnAudioData block buf buflen = UB HeapOverflow \<longleftrightarrow> 8000 < buflen) \<and>
    (buflen \<le> 8000 \<longrightarrow> DoOnAudioData block buf buflen = Ret (map alaw2linear buf, 2 * buflen))"
  using assms by (auto simp: DoOnAudioData_def batch_alaw2linear_def batch_map)

theorem DoOnAudioData_overflow_iff_witness:
  "\<exists>block buf. length block = 8000 \<and> length buf = 8001 \<and> DoOnAudioData block buf 8001 = UB HeapOverflow"
proof -
  define block :: "int list" where "block = replicate 8000 0"
  define buf :: "byte list" where "buf = replicate 8001 0xD5"
  have l: "length block = 8000" "length buf = 8001" by (simp_all only: block_def buf_def length_replicate)
  then show ?thesis using DoOnAudioData_overflow_iff [of block "int (length buf)" buf] by (intro exI [of _ block] exI [of _ buf]) simp
qed

end
