(* ===== verification/BitReader.thy ===== *)
theory BitReader
  imports Prelude
begin

text \<open>
  The bit readers that \<^verbatim>\<open>gles/Media/h264wh.cpp\<close> and \<^verbatim>\<open>gles/Media/h265wh.cpp\<close> share in two copies: fixed-width fields
  (\<open>u\<close>, \<open>u_265\<close>) and Exp-Golomb codes (\<open>Ue\<close>, \<open>Ue_265\<close>, \<open>Se\<close>). A reader sees a block of bytes, most
  significant bit first; reading past the block is \<open>UB OobRead\<close>. The lemmas say that the
  readers invert the codes of the standards.
\<close>

section \<open>Reading\<close>

definition rd_bit :: "byte list \<Rightarrow> u32 \<Rightarrow> bool outcome" where
  "rd_bit buf pos =
     (if length buf \<le> unat (pos div 8) then UB OobRead
      else Ret (buf ! unat (pos div 8) AND drop_bit (unat (pos mod 8)) 0x80 \<noteq> 0))"

fun rd_bits :: "nat \<Rightarrow> byte list \<Rightarrow> u32 \<Rightarrow> u32 \<Rightarrow> (u32 \<times> u32) outcome" where
  "rd_bits 0 buf acc pos = Ret (acc, pos)"
| "rd_bits (Suc n) buf acc pos =
     bnd (rd_bit buf pos) (\<lambda>b. rd_bits n buf (push_bit 1 acc + (if b then 1 else 0)) (pos + 1))"

definition u :: "u32 \<Rightarrow> byte list \<Rightarrow> u32 \<Rightarrow> (u32 \<times> u32) outcome" where
  "u BitCount buf pos = rd_bits (unat BitCount) buf 0 pos"

text \<open>The leading zeros: their number and the position of the first one bit, or of the end.\<close>

function zeros :: "byte list \<Rightarrow> u32 \<Rightarrow> u32 \<Rightarrow> u32 \<Rightarrow> (u32 \<times> u32) outcome" where
  "zeros buf nLen n pos =
     (if pos < nLen * 8 then
        (case rd_bit buf pos of
           Ret b \<Rightarrow> if b then Ret (n, pos) else zeros buf nLen (n + 1) (pos + 1)
         | UB e \<Rightarrow> UB e
         | Blocked \<Rightarrow> Blocked)
      else Ret (n, pos))"
  by pat_completeness auto
termination
proof (relation "measure (\<lambda>(buf, nLen, n, pos). unat (nLen * 8) - unat pos)")
  fix nLen pos :: u32
  assume "pos < nLen * 8"
  then have "unat pos < unat (nLen * 8)" "unat (pos + 1) = unat pos + 1"
    by (simp_all add: word_less_nat_alt [symmetric] unat_inc32)
  then show "((buf, nLen, n + 1, pos + 1), buf, nLen, n, pos) \<in> measure (\<lambda>(buf, nLen, n, pos). unat (nLen * 8) - unat pos)"
    for buf :: "byte list" and n :: u32 by simp
qed simp

declare zeros.simps [simp del]

definition Ue :: "byte list \<Rightarrow> u32 \<Rightarrow> u32 \<Rightarrow> (u32 \<times> u32) outcome" where
  "Ue buf nLen pos =
     bnd (zeros buf nLen 0 pos) (\<lambda>(nZeroNum, pos).
     bnd (rd_bits (unat nZeroNum) buf 0 (pos + 1)) (\<lambda>(ret, pos).
     if 32 \<le> nZeroNum then UB BadShift
     else if nZeroNum = 31 then UB SignedOverflow
     else Ret (push_bit (unat nZeroNum) 1 - 1 + ret, pos)))"

text \<open>\<open>ceil(k / 2)\<close> of a double that holds an \<open>int\<close> is exact.\<close>

definition Se :: "byte list \<Rightarrow> u32 \<Rightarrow> u32 \<Rightarrow> (int \<times> u32) outcome" where
  "Se buf nLen pos =
     bnd (Ue buf nLen pos) (\<lambda>(v, pos).
     let UeVal = sint v; nValue = - ((- UeVal) div 2) in
     Ret (if c_mod UeVal 2 = 0 then - nValue else nValue, pos))"


section \<open>The bits of a block\<close>

definition byte_bits :: "byte \<Rightarrow> bool list" where
  "byte_bits b = map (\<lambda>i. bit b (7 - i)) [0..<8]"

definition bits_of :: "byte list \<Rightarrow> bool list" where
  "bits_of buf = concat (map byte_bits buf)"

lemma length_byte_bits [simp]: "length (byte_bits b) = 8"
  by (simp add: byte_bits_def)

lemma length_bits_of [simp]: "length (bits_of buf) = 8 * length buf"
  by (induction buf) (simp_all add: bits_of_def)

lemma nth_bits_of: "n < 8 * length buf \<Longrightarrow> bits_of buf ! n = bit (buf ! (n div 8)) (7 - n mod 8)"
proof (induction buf arbitrary: n)
  case (Cons b buf)
  show ?case
  proof (cases "n < 8")
    case True
    then show ?thesis by (simp add: bits_of_def nth_append byte_bits_def)
  next
    case False
    then have "bits_of (b # buf) ! n = bits_of buf ! (n - 8)" by (simp add: bits_of_def nth_append)
    moreover have "n div 8 = Suc ((n - 8) div 8)" "n mod 8 = (n - 8) mod 8"
      using False by (simp_all add: div_if [of 8 n] mod_if [of n 8])
    ultimately show ?thesis using Cons False by simp
  qed
qed simp

text \<open>Blocks small enough that a bit position fits 32 bits.\<close>

abbreviation small :: "byte list \<Rightarrow> bool" where
  "small buf \<equiv> length buf < 536870912"

lemma rd_bit_eq:
  assumes "unat pos < 8 * length buf"
  shows "rd_bit buf pos = Ret (bits_of buf ! unat pos)"
proof -
  have d: "unat (pos div 8) = unat pos div 8" "unat (pos mod 8) = unat pos mod 8" by (simp_all add: unat_div unat_mod)
  have "drop_bit k (0x80 :: byte) = push_bit (7 - k) 1" if "k < 8" for k
  proof -
    have "k \<in> set [0..<8]" using that by simp
    moreover have "list_all (\<lambda>k. drop_bit k (0x80 :: byte) = push_bit (7 - k) 1) [0..<8]" by code_simp
    ultimately show ?thesis by (simp only: list_all_iff)
  qed
  then have "drop_bit (unat pos mod 8) (0x80 :: byte) = push_bit (7 - unat pos mod 8) 1" by simp
  moreover have "(b AND push_bit n 1 \<noteq> 0) = bit b n" for b :: byte and n by (simp only: bit_iff_and_push_bit_not_eq_0)
  ultimately show ?thesis using assms by (simp add: rd_bit_def d nth_bits_of)
qed

text \<open>\<open>bs\<close> comes next.\<close>

definition has_bits :: "byte list \<Rightarrow> u32 \<Rightarrow> bool list \<Rightarrow> bool" where
  "has_bits buf pos bs \<longleftrightarrow> unat pos + length bs \<le> 8 * length buf \<and> take (length bs) (drop (unat pos) (bits_of buf)) = bs"

definition bits_val :: "nat \<Rightarrow> bool list \<Rightarrow> nat" where
  "bits_val a bs = foldl (\<lambda>a b. 2 * a + (if b then 1 else 0)) a bs"

lemma bits_val_simps [simp]: "bits_val a [] = a" "bits_val a (b # bs) = bits_val (2 * a + (if b then 1 else 0)) bs"
  by (simp_all add: bits_val_def)

lemma has_bits_Cons:
  assumes "small buf" "has_bits buf pos (b # bs)"
  shows "rd_bit buf pos = Ret b" "has_bits buf (pos + 1) bs" "unat (pos + 1) = Suc (unat pos)"
proof -
  have l: "unat pos < 8 * length buf" using assms(2) by (simp add: has_bits_def)
  show p: "unat (pos + 1) = Suc (unat pos)" using l assms(1) unat_plus32 [of pos 1] by simp
  have "drop (unat pos) (bits_of buf) = bits_of buf ! unat pos # drop (Suc (unat pos)) (bits_of buf)"
    using l by (simp add: Cons_nth_drop_Suc)
  then show "rd_bit buf pos = Ret b" "has_bits buf (pos + 1) bs" using assms(2) rd_bit_eq [OF l] p by (simp_all add: has_bits_def)
qed

lemma has_bits_append:
  "small buf \<Longrightarrow> has_bits buf pos (bs @ cs) \<longleftrightarrow> has_bits buf pos bs \<and> has_bits buf (pos + of_nat (length bs)) cs"
proof -
  assume s: "small buf"
  define L where "L = drop (unat pos) (bits_of buf)"
  have len: "length L = 8 * length buf - unat pos" by (simp add: L_def)
  show ?thesis
  proof (cases "unat pos + length bs \<le> 8 * length buf")
    case True
    have p: "unat (pos + of_nat (length bs)) = unat pos + length bs" using s True unat_plus32 [of pos "of_nat (length bs)"] by simp
    have "drop (unat pos + length bs) (bits_of buf) = drop (length bs) L" by (simp add: L_def add.commute)
    moreover have "take (length (bs @ cs)) L = bs @ cs \<longleftrightarrow> take (length bs) L = bs \<and> take (length cs) (drop (length bs) L) = cs"
      if "unat pos + (length bs + length cs) \<le> 8 * length buf"
    proof -
      have "length (take (length bs) L) = length bs" using that len by simp
      then have "(take (length bs) L @ us = bs @ cs) = (take (length bs) L = bs \<and> us = cs)" for us
        by (intro append_eq_append_conv disjI1)
      then show ?thesis by (simp only: length_append take_add)
    qed
    ultimately show ?thesis using p by (auto simp: has_bits_def L_def [symmetric])
  qed (auto simp: has_bits_def)
qed

lemma rd_bits_val:
  assumes "small buf" "has_bits buf pos bs"
  shows "rd_bits (length bs) buf (of_nat a) pos = Ret (of_nat (bits_val a bs), pos + of_nat (length bs))"
  using assms(2)
proof (induction bs arbitrary: a pos)
  case (Cons b bs)
  note h = has_bits_Cons [OF assms(1) Cons.prems]
  have "push_bit 1 (of_nat a) + (if b then 1 else 0) = (of_nat (2 * a + (if b then 1 else 0)) :: u32)"
    by (simp add: push_bit_eq_mult mult.commute)
  then have "rd_bits (length (b # bs)) buf (of_nat a) pos = rd_bits (length bs) buf (of_nat (2 * a + (if b then 1 else 0))) (pos + 1)"
    using h(1) by (simp only: length_Cons rd_bits.simps bnd_simps)
  then show ?case using Cons.IH [OF h(2), of "2 * a + (if b then 1 else 0)"] by (simp only: bits_val_simps) (simp add: add_ac)
qed simp


section \<open>Exp-Golomb codes\<close>

text \<open>The code of the standards: as many zeros as the binary form of \<open>v + 1\<close> has digits after the first, then that form.\<close>

fun binary :: "nat \<Rightarrow> nat \<Rightarrow> bool list" where
  "binary 0 x = []"
| "binary (Suc n) x = odd (x div 2 ^ n) # binary n x"

definition ue_code :: "nat \<Rightarrow> nat \<Rightarrow> bool list" where
  "ue_code n v = replicate n False @ True # binary n (v + 1 - 2 ^ n)"

lemma length_binary [simp]: "length (binary n x) = n"
  by (induction n) simp_all

lemma bits_val_binary: "bits_val a (binary n x) = a * 2 ^ n + x mod 2 ^ n"
proof (induction n arbitrary: a)
  case (Suc n)
  have "x mod 2 ^ Suc n = (if odd (x div 2 ^ n) then 2 ^ n else 0) + x mod 2 ^ n"
    using mod_mult2_eq [of x "2 ^ n" 2] by (simp add: mult.commute odd_iff_mod_2_eq_one even_iff_mod_2_eq_zero)
  then show ?case by (simp add: Suc.IH algebra_simps)
qed simp

lemma zeros_run:
  assumes "small buf" "has_bits buf pos (replicate n False @ [True])" "unat pos + n < unat (nLen * 8)" "unat k + n < 4294967296"
  shows "zeros buf nLen k pos = Ret (k + of_nat n, pos + of_nat n)"
  using assms(2,3,4)
proof (induction n arbitrary: k pos)
  case 0
  have "rd_bit buf pos = Ret True" using has_bits_Cons [OF assms(1), of pos True "[]"] 0 by simp
  then show ?case using 0 by (simp add: zeros.simps word_less_nat_alt)
next
  case (Suc n)
  have h: "rd_bit buf pos = Ret False" "has_bits buf (pos + 1) (replicate n False @ [True])" "unat (pos + 1) = Suc (unat pos)"
    using has_bits_Cons [OF assms(1), of pos False "replicate n False @ [True]"] Suc.prems(1) by simp_all
  have "zeros buf nLen k pos = zeros buf nLen (k + 1) (pos + 1)"
    using h(1) Suc.prems(2) by (simp add: zeros.simps [of buf nLen k pos] word_less_nat_alt)
  also have "\<dots> = Ret (k + 1 + of_nat n, pos + 1 + of_nat n)"
    by (rule Suc.IH [OF h(2)]) (use Suc.prems h(3) unat_plus32 [of k 1] in simp_all)
  finally show ?case by (simp add: add_ac)
qed

text \<open>\<open>Ue\<close> reads the code of every value below \<open>2^31 - 1\<close>, of which \<open>n\<close> is the number of zeros.\<close>

lemma Ue_code:
  assumes "small buf" "has_bits buf pos (ue_code n v)" "8 * length buf \<le> unat (nLen * 8)" "2 ^ n \<le> v + 1" "v + 1 < 2 ^ Suc n" "n < 31"
  shows "Ue buf nLen pos = Ret (of_nat v, pos + of_nat (length (ue_code n v)))"
proof -
  have "has_bits buf pos ((replicate n False @ [True]) @ binary n (v + 1 - 2 ^ n))" using assms(2) by (simp add: ue_code_def)
  then have h: "has_bits buf pos (replicate n False @ [True])" "has_bits buf (pos + of_nat (Suc n)) (binary n (v + 1 - 2 ^ n))"
    using has_bits_append [OF assms(1), of pos "replicate n False @ [True]" "binary n (v + 1 - 2 ^ n)"] by (simp_all only: length_append length_replicate list.size) simp_all
  have "unat pos + n < unat (nLen * 8)" using h(1) assms(3) by (simp add: has_bits_def)
  then have z: "zeros buf nLen 0 pos = Ret (of_nat n, pos + of_nat n)" using zeros_run [OF assms(1) h(1)] assms(6) by simp
  have "bits_val 0 (binary n (v + 1 - 2 ^ n)) = v + 1 - 2 ^ n" using assms(4,5) by (simp add: bits_val_binary)
  then have r: "rd_bits n buf 0 (pos + of_nat (Suc n)) = Ret (of_nat (v + 1 - 2 ^ n), pos + of_nat (Suc n) + of_nat n)"
    using rd_bits_val [OF assms(1) h(2), of 0] by simp
  have "push_bit n 1 - 1 + of_nat (v + 1 - 2 ^ n) = (of_nat v :: u32)" using assms(4) by (simp add: push_bit_eq_mult of_nat_diff)
  moreover have "\<not> 32 \<le> (of_nat n :: u32)" "(of_nat n :: u32) \<noteq> 31"
  proof -
    have n: "unat (of_nat n :: u32) < unat (31 :: u32)" using assms(6) by simp
    then show "(of_nat n :: u32) \<noteq> 31" by auto
    have "unat (31 :: u32) < unat (32 :: u32)" by simp
    with n show "\<not> 32 \<le> (of_nat n :: u32)" by (simp only: not_le word_less_nat_alt)
  qed
  ultimately show ?thesis using z r assms(6) by (simp add: Ue_def ue_code_def add_ac)
qed

section \<open>Readers in sequence\<close>

text \<open>
  \<open>reads buf f bs v\<close>: wherever \<open>bs\<close> comes next, \<open>f\<close> returns \<open>v\<close> and moves past \<open>bs\<close>.
  \<open>yields buf f bs r\<close>: wherever \<open>bs\<close> comes next, \<open>f\<close> ends with \<open>r\<close>.
\<close>

definition reads :: "byte list \<Rightarrow> (u32 \<Rightarrow> ('a \<times> u32) outcome) \<Rightarrow> bool list \<Rightarrow> 'a \<Rightarrow> bool" where
  "reads buf f bs v \<longleftrightarrow> small buf \<and> (\<forall>pos. has_bits buf pos bs \<longrightarrow> f pos = Ret (v, pos + of_nat (length bs)))"

definition yields :: "byte list \<Rightarrow> (u32 \<Rightarrow> 'a outcome) \<Rightarrow> bool list \<Rightarrow> 'a outcome \<Rightarrow> bool" where
  "yields buf f bs r \<longleftrightarrow> (\<forall>pos. has_bits buf pos bs \<longrightarrow> f pos = r)"

lemma reads_bnd:
  assumes "reads buf f bs v" "reads buf (g v) cs w"
  shows "reads buf (\<lambda>pos. bnd (f pos) (\<lambda>(x, pos). g x pos)) (bs @ cs) w"
  using assms by (auto simp: reads_def has_bits_append add_ac)

lemma reads_bnd_last:
  assumes "reads buf f bs v" "reads buf (g v) [] w"
  shows "reads buf (\<lambda>pos. bnd (f pos) (\<lambda>(x, pos). g x pos)) bs w"
  using reads_bnd [of buf f bs v g "[]" w] assms by simp

lemma reads_Ret: "small buf \<Longrightarrow> reads buf (\<lambda>pos. Ret (v, pos)) [] v"
  by (simp add: reads_def)

lemma yields_bnd:
  assumes "reads buf f bs v" "yields buf (g v) cs r"
  shows "yields buf (\<lambda>pos. bnd (f pos) (\<lambda>(x, pos). g x pos)) (bs @ cs) r"
  using assms by (auto simp: reads_def yields_def has_bits_append)

lemma yields_bnd_last:
  assumes "reads buf f bs v" "yields buf (g v) [] r"
  shows "yields buf (\<lambda>pos. bnd (f pos) (\<lambda>(x, pos). g x pos)) bs r"
  using yields_bnd [of buf f bs v g "[]" r] assms by simp

text \<open>The same steps with the rest simplified for the value that was read.\<close>

lemma reads_step:
  "reads buf f bs v \<Longrightarrow> g v = h \<Longrightarrow> reads buf h cs w \<Longrightarrow> reads buf (\<lambda>pos. bnd (f pos) (\<lambda>(x, pos). g x pos)) (bs @ cs) w"
  using reads_bnd [of buf f bs v g cs w] by simp

lemma yields_step:
  "reads buf f bs v \<Longrightarrow> g v = h \<Longrightarrow> yields buf h cs r \<Longrightarrow> yields buf (\<lambda>pos. bnd (f pos) (\<lambda>(x, pos). g x pos)) (bs @ cs) r"
  using yields_bnd [of buf f bs v g cs r] by simp

lemma yields_UB:
  assumes "yields buf f bs (UB e)"
  shows "yields buf (\<lambda>pos. bnd (f pos) g) bs (UB e)"
  using assms by (simp add: yields_def)

lemma yields_const: "yields buf (\<lambda>pos. r) bs r"
  by (simp add: yields_def)

text \<open>The codes of fixed width and of any value below \<open>2^31 - 1\<close>.\<close>

fun ilog :: "nat \<Rightarrow> nat" where
  "ilog x = (if x < 2 then 0 else Suc (ilog (x div 2)))"

declare ilog.simps [simp del]

lemma ilog_bounds: "0 < x \<Longrightarrow> 2 ^ ilog x \<le> x \<and> x < 2 ^ Suc (ilog x)"
proof (induction x rule: ilog.induct)
  case (1 x)
  then show ?case by (cases "x < 2") (auto simp: ilog.simps [of x])
qed

definition ue :: "nat \<Rightarrow> bool list" where
  "ue v = ue_code (ilog (v + 1)) v"

definition se :: "int \<Rightarrow> bool list" where
  "se k = ue (nat (if 0 < k then 2 * k - 1 else - 2 * k))"

lemma reads_u:
  assumes "small buf" "unat n < 32"
  shows "reads buf (u n buf) (binary (unat n) x) (of_nat (x mod 2 ^ unat n))"
  using rd_bits_val [OF assms(1), of _ "binary (unat n) x" 0] assms by (auto simp: reads_def u_def bits_val_binary)

lemma reads_u1: "small buf \<Longrightarrow> reads buf (u 1 buf) [b] (if b then 1 else 0)"
  using rd_bits_val [of buf _ "[b]" 0] by (auto simp: reads_def u_def)

lemma reads_Ue:
  assumes "small buf" "8 * length buf \<le> unat (nLen * 8)" "v < 2147483647"
  shows "reads buf (Ue buf nLen) (ue v) (of_nat v)"
proof -
  have b: "2 ^ ilog (v + 1) \<le> v + 1" "v + 1 < 2 ^ Suc (ilog (v + 1))" using ilog_bounds [of "v + 1"] by simp_all
  have "(2 :: nat) ^ ilog (v + 1) < 2 ^ 31" using b(1) assms(3) by simp
  then have "ilog (v + 1) < 31" by (rule power_less_imp_less_exp [rotated]) simp
  then show ?thesis using Ue_code [OF assms(1) _ assms(2) b] assms(1) by (simp add: reads_def ue_def)
qed

lemma reads_Se:
  assumes "small buf" "8 * length buf \<le> unat (nLen * 8)" "\<bar>k\<bar> < 1073741824"
  shows "reads buf (Se buf nLen) (se k) k"
proof -
  define v where "v = nat (if 0 < k then 2 * k - 1 else - 2 * k)"
  have v: "v < 2147483647" using assms(3) by (auto simp: v_def)
  have "sint (of_nat v :: u32) = int v" by (rule sint_of_nat32) (use v in simp)
  moreover have "(if c_mod (int v) 2 = 0 then - (- ((- int v) div 2)) else - ((- int v) div 2)) = k"
    by (auto simp: c_mod_nonneg v_def; presburger)
  ultimately show ?thesis using reads_Ue [OF assms(1,2) v] by (auto simp: reads_def Se_def se_def v_def [symmetric] Let_def split: if_splits)
qed

end
