(* ===== verification/H264Sps.thy ===== *)
theory H264Sps
  imports BitReader CFloat
begin

text \<open>
  \<^verbatim>\<open>gles/Media/h264wh.cpp\<close>: the picture size of an H.264 stream from its sequence parameter set. A
  pointer into an array is the rest of the array from that element on. The
  contents of the scaling matrices do not reach the result, but the copies that fill
  them can leave their source. \<open>can_new n\<close> tells whether \<open>new int[n]\<close> succeeds.
\<close>

section \<open>Scaling lists\<close>

definition default_scaling4 :: "byte list" where
  "default_scaling4 =
    [6, 13, 20, 28, 13, 20, 28, 32, 20, 28, 32, 37, 28, 32, 37, 42,
     10, 14, 20, 24, 14, 20, 24, 27, 20, 24, 27, 30, 24, 27, 30, 34]"

definition default_scaling8 :: "byte list" where
  "default_scaling8 =
    [6, 10, 13, 16, 18, 23, 25, 27, 10, 11, 16, 18, 23, 25, 27, 29,
     13, 16, 18, 23, 25, 27, 29, 31, 16, 18, 23, 25, 27, 29, 31, 33,
     18, 23, 25, 27, 29, 31, 33, 36, 23, 25, 27, 29, 31, 33, 36, 38,
     25, 27, 29, 31, 33, 36, 38, 40, 27, 29, 31, 33, 36, 38, 40, 42,
     9, 13, 15, 17, 19, 21, 22, 24, 13, 13, 17, 19, 21, 22, 24, 25,
     15, 17, 19, 21, 22, 24, 25, 27, 17, 19, 21, 22, 24, 25, 27, 28,
     19, 21, 22, 24, 25, 27, 28, 30, 21, 22, 24, 25, 27, 28, 30, 32,
     22, 24, 25, 27, 28, 30, 32, 33, 24, 25, 27, 28, 30, 32, 33, 35]"

definition ff_zigzag_direct :: "nat list" where
  "ff_zigzag_direct =
    [0, 1, 8, 16, 9, 2, 3, 10, 17, 24, 32, 25, 18, 11, 4, 5,
     12, 19, 26, 33, 40, 48, 41, 34, 27, 20, 13, 6, 7, 14, 21, 28,
     35, 42, 49, 56, 57, 50, 43, 36, 29, 22, 15, 23, 30, 37, 44, 51,
     58, 59, 52, 45, 38, 31, 39, 46, 53, 60, 61, 54, 47, 55, 62, 63]"

definition zigzag_scan :: "nat list" where
  "zigzag_scan = [0, 1, 4, 8, 5, 2, 3, 6, 9, 12, 13, 10, 7, 11, 14, 15]"

fun scaling_loop :: "byte list \<Rightarrow> u32 \<Rightarrow> byte list \<Rightarrow> int \<Rightarrow> bool \<Rightarrow> nat list \<Rightarrow> int \<Rightarrow> int \<Rightarrow> byte list \<Rightarrow> u32 \<Rightarrow> (byte list \<times> u32) outcome" where
  "scaling_loop buf nLen jvt sz first [] last' next' factors pos = Ret (factors, pos)"
| "scaling_loop buf nLen jvt sz first (sc # scan) last' next' factors pos =
     bnd (if next' \<noteq> 0 then bnd (Se buf nLen pos) (\<lambda>(d, pos). Ret ((last' + d) mod 256, pos)) else Ret (next', pos)) (\<lambda>(next', pos).
     if first \<and> next' = 0 then bnd (mcpy factors 0 jvt 0 sz) (\<lambda>factors. Ret (factors, pos))
     else
       let last' = (if next' \<noteq> 0 then next' else last') in
       if length factors \<le> sc then UB HeapOverflow
       else scaling_loop buf nLen jvt sz False scan last' next' (factors[sc := word_of_int last']) pos)"

definition decode_scaling_list ::
    "byte list \<Rightarrow> u32 \<Rightarrow> u32 \<Rightarrow> byte list \<Rightarrow> int \<Rightarrow> byte list \<Rightarrow> byte list \<Rightarrow> (byte list \<times> u32) outcome" where
  "decode_scaling_list buf nLen pos factors sz jvt fallback =
     bnd (u 1 buf pos) (\<lambda>(present, pos).
     if present = 0 then bnd (mcpy factors 0 fallback 0 sz) (\<lambda>factors. Ret (factors, pos))
     else scaling_loop buf nLen jvt sz True (take (nat sz) (if sz = 16 then zigzag_scan else ff_zigzag_direct)) 8 8 factors pos)"

section \<open>The sequence parameter set\<close>

text \<open>The twelve scaling lists. \<open>raw4\<close> and \<open>raw8\<close> are the arrays before they are filled.\<close>

definition scaling_matrices :: "byte list \<Rightarrow> u32 \<Rightarrow> u32 \<Rightarrow> u32 \<Rightarrow> (bool \<times> u32) outcome" where
  "scaling_matrices buf nLen chroma_format_idc pos =
     (let raw4 = replicate 16 0; raw8 = replicate 64 0;
          s40 = default_scaling4; s41 = drop 16 default_scaling4; s80 = default_scaling8; s81 = drop 64 default_scaling8;
          dec4 = (\<lambda>jvt fb pos. decode_scaling_list buf nLen pos raw4 16 jvt fb);
          dec8 = (\<lambda>jvt fb pos. decode_scaling_list buf nLen pos raw8 64 jvt fb) in
      bnd (dec4 s40 s40 pos) (\<lambda>(m40, pos).
      bnd (dec4 s40 m40 pos) (\<lambda>(m41, pos).
      bnd (dec4 s40 m41 pos) (\<lambda>(m42, pos).
      bnd (dec4 s41 s81 pos) (\<lambda>(m43, pos).
      bnd (dec4 s41 m43 pos) (\<lambda>(m44, pos).
      bnd (dec4 s41 m44 pos) (\<lambda>(m45, pos).
      bnd (dec8 s80 s40 pos) (\<lambda>(m80, pos).
      bnd (dec8 s81 s81 pos) (\<lambda>(m83, pos).
      if chroma_format_idc = 3 then
        bnd (dec8 s80 m80 pos) (\<lambda>(m81, pos).
        bnd (dec8 s81 m83 pos) (\<lambda>(m84, pos).
        bnd (dec8 s80 m81 pos) (\<lambda>(m82, pos).
        bnd (dec8 s81 m84 pos) (\<lambda>(m85, pos). Ret (True, pos)))))
      else Ret (True, pos))))))))))"

text \<open>The fields of the high profiles; \<open>False\<close> when the function gives up.\<close>

definition sps_high :: "byte list \<Rightarrow> u32 \<Rightarrow> u32 \<Rightarrow> (bool \<times> u32) outcome" where
  "sps_high buf nLen pos =
     bnd (Ue buf nLen pos) (\<lambda>(chroma_format_idc, pos).
     if 3 < chroma_format_idc then Ret (False, pos)
     else
       bnd (if chroma_format_idc = 3 then u 1 buf pos else Ret (0, pos)) (\<lambda>(residual_colour_transform_flag, pos).
       if residual_colour_transform_flag \<noteq> 0 then Ret (False, pos)
       else
         bnd (Ue buf nLen pos) (\<lambda>(luma, pos).
         bnd (Ue buf nLen pos) (\<lambda>(chroma, pos).
         if 14 < luma + 8 \<or> 14 < chroma + 8 \<or> chroma + 8 \<noteq> luma + 8 then Ret (False, pos)
         else
           bnd (u 1 buf pos) (\<lambda>(qpprime_y_zero_transform_bypass_flag, pos).
           bnd (u 1 buf pos) (\<lambda>(seq_scaling_matrix_present_flag, pos).
           if seq_scaling_matrix_present_flag = 0 then Ret (True, pos)
           else scaling_matrices buf nLen chroma_format_idc pos))))))"

fun skip_se :: "byte list \<Rightarrow> u32 \<Rightarrow> nat \<Rightarrow> u32 \<Rightarrow> (unit \<times> u32) outcome" where
  "skip_se buf nLen 0 pos = Ret ((), pos)"
| "skip_se buf nLen (Suc n) pos = bnd (Se buf nLen pos) (\<lambda>(v, pos). skip_se buf nLen n pos)"

definition sps_poc :: "(int \<Rightarrow> bool) \<Rightarrow> byte list \<Rightarrow> u32 \<Rightarrow> u32 \<Rightarrow> (unit \<times> u32) outcome" where
  "sps_poc can_new buf nLen pos =
     bnd (Ue buf nLen pos) (\<lambda>(pic_order_cnt_type, pos).
     if pic_order_cnt_type = 0 then bnd (Ue buf nLen pos) (\<lambda>(v, pos). Ret ((), pos))
     else if pic_order_cnt_type = 1 then
       bnd (u 1 buf pos) (\<lambda>(delta_pic_order_always_zero_flag, pos).
       bnd (Se buf nLen pos) (\<lambda>(offset_for_non_ref_pic, pos).
       bnd (Se buf nLen pos) (\<lambda>(offset_for_top_to_bottom_field, pos).
       bnd (Ue buf nLen pos) (\<lambda>(num_ref_frames_in_pic_order_cnt_cycle, pos).
       let n = sint num_ref_frames_in_pic_order_cnt_cycle in
       if n < 0 \<or> \<not> can_new n then UB UncaughtException else skip_se buf nLen (nat n) pos))))
     else Ret ((), pos))"

text \<open>The result and what is stored through \<open>Width\<close> and \<open>Height\<close>: the fields after those of the high profiles, then the whole unit.\<close>

definition sps_size :: "(int \<Rightarrow> bool) \<Rightarrow> byte list \<Rightarrow> u32 \<Rightarrow> u32 \<Rightarrow> (int \<times> (int \<times> int) option) outcome" where
  "sps_size can_new buf nLen pos =
     bnd (Ue buf nLen pos) (\<lambda>(log2_max_frame_num_minus4, pos).
     bnd (sps_poc can_new buf nLen pos) (\<lambda>(done', pos).
     bnd (Ue buf nLen pos) (\<lambda>(num_ref_frames, pos).
     bnd (u 1 buf pos) (\<lambda>(gaps_in_frame_num_value_allowed_flag, pos).
     bnd (Ue buf nLen pos) (\<lambda>(pic_width_in_mbs_minus1, pos).
     bnd (Ue buf nLen pos) (\<lambda>(pic_height_in_map_units_minus1, pos).
     bnd (s32 (sint pic_width_in_mbs_minus1 + 1)) (\<lambda>w. bnd (s32 (w * 16)) (\<lambda>width.
     bnd (s32 (sint pic_height_in_map_units_minus1 + 1)) (\<lambda>h. bnd (s32 (h * 16)) (\<lambda>height.
     Ret (1, Some (width, height))))))))))))"

definition sps_unit :: "(int \<Rightarrow> bool) \<Rightarrow> byte list \<Rightarrow> u32 \<Rightarrow> u32 \<Rightarrow> (int \<times> (int \<times> int) option) outcome" where
  "sps_unit can_new buf nLen pos =
     bnd (u 1 buf pos) (\<lambda>(forbidden_zero_bit, pos).
     bnd (u 2 buf pos) (\<lambda>(nal_ref_idc, pos).
     bnd (u 5 buf pos) (\<lambda>(nal_unit_type, pos).
     if nal_unit_type \<noteq> 7 then Ret (0, None)
     else
       bnd (u 8 buf pos) (\<lambda>(profile_idc, pos).
       bnd (u 1 buf pos) (\<lambda>(constraint_set0_flag, pos).
       bnd (u 1 buf pos) (\<lambda>(constraint_set1_flag, pos).
       bnd (u 1 buf pos) (\<lambda>(constraint_set2_flag, pos).
       bnd (u 1 buf pos) (\<lambda>(constraint_set3_flag, pos).
       bnd (u 1 buf pos) (\<lambda>(constraint_set4_flag, pos).
       bnd (u 1 buf pos) (\<lambda>(constraint_set5_flag, pos).
       bnd (u 2 buf pos) (\<lambda>(reserved_zero_4bits, pos).
       bnd (u 8 buf pos) (\<lambda>(level_idc, pos).
       bnd (Ue buf nLen pos) (\<lambda>(seq_parameter_set_id, pos).
       bnd (if profile_idc = 100 \<or> profile_idc = 110 \<or> profile_idc = 122 \<or> profile_idc = 144
            then sps_high buf nLen pos else Ret (True, pos)) (\<lambda>(go, pos).
       if \<not> go then Ret (0, None) else sps_size can_new buf nLen pos))))))))))))))"

definition h264_decode_seq_parameter_set :: "(int \<Rightarrow> bool) \<Rightarrow> byte list \<Rightarrow> u32 \<Rightarrow> (int \<times> (int \<times> int) option) outcome" where
  "h264_decode_seq_parameter_set can_new buf nLen = sps_unit can_new buf nLen 0"

section \<open>Scanning a stream\<close>

definition starts_with :: "byte list \<Rightarrow> byte list \<Rightarrow> nat \<Rightarrow> bool outcome" where
  "starts_with code stream i =
     (if length stream < i + length code then UB OobRead else Ret (take (length code) (drop i stream) = code))"

text \<open>One start code: -1 when the function returns, otherwise the size seen so far.\<close>

definition at_code :: "(int \<Rightarrow> bool) \<Rightarrow> byte list \<Rightarrow> byte list \<Rightarrow> u32 \<Rightarrow> nat \<Rightarrow> (int \<times> int) option \<Rightarrow> (bool \<times> (int \<times> int) option) outcome" where
  "at_code can_new code stream nLen i wh =
     bnd (starts_with code stream i) (\<lambda>hit.
     if \<not> hit then Ret (False, wh)
     else bnd (h264_decode_seq_parameter_set can_new (drop (i + length code) stream) nLen) (\<lambda>(r, sz).
       Ret (r = 0, case sz of None \<Rightarrow> wh | Some x \<Rightarrow> Some x)))"

fun scan_codes :: "(int \<Rightarrow> bool) \<Rightarrow> byte list \<Rightarrow> u32 \<Rightarrow> nat \<Rightarrow> nat \<Rightarrow> (int \<times> int) option \<Rightarrow> (int \<times> (int \<times> int) option) outcome" where
  "scan_codes can_new stream nLen 0 i wh = Ret (0, wh)"
| "scan_codes can_new stream nLen (Suc n) i wh =
     bnd (at_code can_new [0, 0, 0, 1] stream nLen i wh) (\<lambda>(failed, wh).
     if failed then Ret (-1, wh)
     else bnd (at_code can_new [0, 0, 1] stream nLen i wh) (\<lambda>(failed, wh).
       if failed then Ret (-1, wh) else scan_codes can_new stream nLen n (i + 1) wh))"

definition GetWidthHeight :: "(int \<Rightarrow> bool) \<Rightarrow> byte list \<Rightarrow> int \<Rightarrow> (int \<times> (int \<times> int) option) outcome" where
  "GetWidthHeight can_new stream stream_len = scan_codes can_new stream (word_of_int stream_len) (nat (stream_len - 4)) 0 None"

section \<open>What the encoder wrote\<close>

text \<open>
  The syntax elements of a sequence parameter set, with their codes in the order of the
  standard. \<open>high\<close> holds the chroma format, the bit depth minus 8 and the bypass flag of
  the high profiles.
\<close>

datatype poc = Poc0 nat | Poc1 bool int int "int list" | Poc2

record sps =
  ref_idc :: nat
  profile :: nat
  flags :: "bool list"
  reserved :: nat
  level :: nat
  sps_id :: nat
  high :: "(nat \<times> nat \<times> bool) option"
  frame_num :: nat
  poc :: poc
  refs :: nat
  gaps :: bool
  wmbs :: nat
  hmbs :: nat

abbreviation high_profile :: "nat \<Rightarrow> bool" where
  "high_profile p \<equiv> p \<in> {100, 110, 122, 144}"

abbreviation code31 :: "nat \<Rightarrow> bool" where
  "code31 v \<equiv> v < 2147483647"

definition poc_ok :: "(int \<Rightarrow> bool) \<Rightarrow> poc \<Rightarrow> bool" where
  "poc_ok can_new p = (case p of
     Poc0 lsb \<Rightarrow> code31 lsb
   | Poc1 z a b os \<Rightarrow> \<bar>a\<bar> < 2 ^ 30 \<and> \<bar>b\<bar> < 2 ^ 30 \<and> list_all (\<lambda>k. \<bar>k\<bar> < 2 ^ 30) os \<and> code31 (length os) \<and> can_new (int (length os))
   | Poc2 \<Rightarrow> True)"

definition sps_ok :: "(int \<Rightarrow> bool) \<Rightarrow> sps \<Rightarrow> bool" where
  "sps_ok can_new s \<longleftrightarrow>
     profile s < 256 \<and> length (flags s) = 6 \<and> code31 (sps_id s) \<and> code31 (frame_num s) \<and> code31 (refs s) \<and>
     wmbs s < 134217727 \<and> hmbs s < 134217727 \<and> poc_ok can_new (poc s) \<and>
     (case high s of None \<Rightarrow> \<not> high_profile (profile s) | Some (c, d, y) \<Rightarrow> high_profile (profile s) \<and> c \<le> 3 \<and> d \<le> 6)"

definition poc_bits :: "poc \<Rightarrow> bool list" where
  "poc_bits p = (case p of
     Poc0 lsb \<Rightarrow> ue 0 @ ue lsb
   | Poc1 z a b os \<Rightarrow> ue 1 @ [z] @ se a @ se b @ ue (length os) @ concat (map se os)
   | Poc2 \<Rightarrow> ue 2)"

definition high_bits :: "(nat \<times> nat \<times> bool) option \<Rightarrow> bool list \<Rightarrow> bool list" where
  "high_bits h scaling = (case h of
     None \<Rightarrow> []
   | Some (c, d, y) \<Rightarrow> ue c @ (if c = 3 then [False] else []) @ ue d @ ue d @ [y] @ scaling)"

definition head_bits :: "sps \<Rightarrow> bool list \<Rightarrow> bool list" where
  "head_bits s rest =
     [False] @ binary 2 (ref_idc s) @ binary 5 7 @ binary 8 (profile s) @ [flags s ! 0] @ [flags s ! 1] @ [flags s ! 2] @
     [flags s ! 3] @ [flags s ! 4] @ [flags s ! 5] @ binary 2 (reserved s) @ binary 8 (level s) @ ue (sps_id s) @ rest"

definition sps_bits :: "sps \<Rightarrow> bool list" where
  "sps_bits s =
     head_bits s (high_bits (high s) [False] @ ue (frame_num s) @ poc_bits (poc s) @ ue (refs s) @ [gaps s] @ ue (wmbs s) @ ue (hmbs s))"

text \<open>The size the parser is to find; the parser is given a block that is long enough for its positions.\<close>

abbreviation fits :: "byte list \<Rightarrow> u32 \<Rightarrow> bool" where
  "fits buf nLen \<equiv> small buf \<and> 8 * length buf \<le> unat (nLen * 8)"

lemma reads_u':
  "small buf \<Longrightarrow> unat n = k \<Longrightarrow> k < 32 \<Longrightarrow> reads buf (u n buf) (binary k x) (of_nat (x mod 2 ^ k))"
  using reads_u [of buf n x] by simp

lemma reads_skip_se:
  assumes "fits buf nLen" "list_all (\<lambda>k. \<bar>k\<bar> < 2 ^ 30) os"
  shows "reads buf (skip_se buf nLen (length os)) (concat (map se os)) ()"
  using assms(2)
proof (induction os)
  case Nil
  then show ?case using assms(1) by (simp add: reads_def)
next
  case (Cons k os)
  then have "reads buf (skip_se buf nLen (length os)) (concat (map se os)) ()" by simp
  moreover have "reads buf (Se buf nLen) (se k) k" by (rule reads_Se) (use assms(1) Cons.prems in simp_all)
  ultimately show ?case using reads_bnd [of buf "Se buf nLen" "se k" k "\<lambda>v. skip_se buf nLen (length os)"] by simp
qed

lemma reads_sps_poc:
  assumes "fits buf nLen" "poc_ok can_new p"
  shows "reads buf (sps_poc can_new buf nLen) (poc_bits p) ()"
proof -
  have ue: "code31 v \<Longrightarrow> reads buf (Ue buf nLen) (ue v) (of_nat v)" for v by (rule reads_Ue) (use assms(1) in simp_all)
  have se: "\<bar>k\<bar> < 2 ^ 30 \<Longrightarrow> reads buf (Se buf nLen) (se k) k" for k by (rule reads_Se) (use assms(1) in simp_all)
  have ret: "reads buf (\<lambda>pos. Ret ((), pos)) [] ()" using assms(1) by (simp add: reads_Ret)
  show ?thesis
  proof (cases p)
    case (Poc0 lsb)
    show ?thesis unfolding Poc0 poc_bits_def poc.case sps_poc_def
      by (rule reads_step, rule ue, simp, simp, rule reads_bnd_last, rule ue) (use assms(2) Poc0 ret in \<open>simp_all add: poc_ok_def\<close>)
  next
    case (Poc1 z a b os)
    have ok: "\<bar>a\<bar> < 2 ^ 30" "\<bar>b\<bar> < 2 ^ 30" "list_all (\<lambda>k. \<bar>k\<bar> < 2 ^ 30) os" "code31 (length os)" "can_new (int (length os))"
      using assms(2) Poc1 by (simp_all add: poc_ok_def)
    have n: "sint (of_nat (length os) :: u32) = int (length os)" by (rule sint_of_nat32) (use ok(4) in simp)
    have u1: "reads buf (u 1 buf) [z] (if z then 1 else 0)" by (rule reads_u1) (use assms(1) in simp)
    show ?thesis unfolding Poc1 poc_bits_def poc.case sps_poc_def
      by (rule reads_step, rule ue, simp, simp, rule reads_bnd, rule u1, rule reads_bnd, rule se, rule ok, rule reads_bnd, rule se, rule ok,
          rule reads_bnd, rule ue, rule ok) (use reads_skip_se [OF assms(1) ok(3)] ok(5) in \<open>simp add: n Let_def\<close>)
  next
    case Poc2
    show ?thesis unfolding Poc2 poc_bits_def poc.case sps_poc_def by (rule reads_bnd_last, rule ue, simp) (simp add: ret)
  qed
qed

text \<open>The first fields of the high profiles; \<open>k\<close> and \<open>r\<close> are how the rest of the function goes on.\<close>

lemma reads_sps_high:
  assumes "fits buf nLen" "c \<le> 3" "d \<le> 6"
  shows "reads buf (sps_high buf nLen) (high_bits (Some (c, d, y)) [False]) True"
proof -
  have ue: "code31 v \<Longrightarrow> reads buf (Ue buf nLen) (ue v) (of_nat v)" for v by (rule reads_Ue) (use assms(1) in simp_all)
  have u1: "reads buf (u 1 buf) [b] (if b then 1 else 0)" for b by (rule reads_u1) (use assms(1) in simp)
  have ret: "reads buf (\<lambda>pos. Ret (x, pos)) [] x" for x using assms(1) by (simp add: reads_Ret)
  have c: "c \<in> {0, 1, 2, 3}" and d: "d \<in> {0, 1, 2, 3, 4, 5, 6}" using assms(2,3) by auto
  have c3: "\<not> (3 :: u32) < of_nat c" "((of_nat c :: u32) = 3) = (c = 3)" using c by auto
  have d6: "\<not> (14 :: u32) < of_nat d + 8" using d by auto
  have r: "reads buf (\<lambda>pos. if (of_nat c :: u32) = 3 then u 1 buf pos else Ret (0, pos)) (if c = 3 then [False] else []) 0"
    using u1 [of False] ret [of "0 :: u32"] by (simp add: c3)
  show ?thesis unfolding high_bits_def option.case prod.case sps_high_def
    by (rule reads_step, rule ue, use assms in simp, simp add: c3, rule reads_step, rule r [unfolded c3], simp, rule reads_bnd, rule ue, use assms in simp,
        rule reads_step, rule ue, use assms in simp, simp add: d6, rule reads_bnd, rule u1, rule reads_bnd_last, rule u1) (simp add: ret)
qed

lemma yields_sps_size:
  assumes "fits buf nLen" "sps_ok can_new s"
  shows "yields buf (sps_size can_new buf nLen) (ue (frame_num s) @ poc_bits (poc s) @ ue (refs s) @ [gaps s] @ ue (wmbs s) @ ue (hmbs s))
    (Ret (1, Some (16 * (int (wmbs s) + 1), 16 * (int (hmbs s) + 1))))"
proof -
  have ue: "code31 v \<Longrightarrow> reads buf (Ue buf nLen) (ue v) (of_nat v)" for v by (rule reads_Ue) (use assms(1) in simp_all)
  have u1: "reads buf (u 1 buf) [b] (if b then 1 else 0)" for b by (rule reads_u1) (use assms(1) in simp)
  have ok: "code31 (frame_num s)" "code31 (refs s)" "wmbs s < 134217727" "hmbs s < 134217727" "poc_ok can_new (poc s)"
    using assms(2) by (simp_all add: sps_ok_def)
  have sint: "sint (of_nat (wmbs s) :: u32) = int (wmbs s)" "sint (of_nat (hmbs s) :: u32) = int (hmbs s)"
    using ok by (simp_all add: sint_of_nat32)
  show ?thesis unfolding sps_size_def
    by (rule yields_bnd, rule ue, rule ok, rule yields_bnd, rule reads_sps_poc [OF assms(1) ok(5)], rule yields_bnd, rule ue, rule ok,
        rule yields_bnd, rule u1, rule yields_bnd, rule ue, use ok in simp, rule yields_bnd_last, rule ue, use ok in simp)
      (use ok in \<open>simp add: sint yields_def algebra_simps\<close>)
qed

text \<open>The fields that all profiles have; \<open>h\<close> is the rest of the function.\<close>

lemma yields_sps_unit:
  assumes "fits buf nLen" "sps_ok can_new s"
    and rest: "yields buf (\<lambda>pos. bnd (if high_profile (profile s) then sps_high buf nLen pos else Ret (True, pos)) (\<lambda>(go, pos).
        if \<not> go then Ret (0, None) else sps_size can_new buf nLen pos)) bs r"
  shows "yields buf (sps_unit can_new buf nLen) (head_bits s bs) r"
proof -
  have u1: "reads buf (u 1 buf) [b] (if b then 1 else 0)" for b by (rule reads_u1) (use assms(1) in simp)
  have un: "unat n = k \<Longrightarrow> k < 32 \<Longrightarrow> reads buf (u n buf) (binary k x) (of_nat (x mod 2 ^ k))" for n k x
    by (rule reads_u') (use assms(1) in simp_all)
  have ue: "reads buf (Ue buf nLen) (ue (sps_id s)) (of_nat (sps_id s))" by (rule reads_Ue) (use assms(1,2) in \<open>simp_all add: sps_ok_def\<close>)
  have p: "profile s mod 2 ^ 8 = profile s" "profile s < 256" using assms(2) by (simp_all add: sps_ok_def)
  have num: "((of_nat (profile s) :: u32) = numeral m) = (profile s = numeral m)" if "numeral m < (4294967296 :: nat)" for m
  proof -
    have "((of_nat (profile s) :: u32) = of_nat (numeral m)) = (profile s = numeral m)" by (rule of_nat_eq_iff32) (use p that in simp_all)
    then show ?thesis by simp
  qed
  have hp: "((of_nat (profile s) :: u32) = 100 \<or> (of_nat (profile s) :: u32) = 110 \<or> (of_nat (profile s) :: u32) = 122 \<or> (of_nat (profile s) :: u32) = 144)
     = high_profile (profile s)" by (simp add: num)
  show ?thesis unfolding sps_unit_def head_bits_def
    by (rule yields_bnd, rule u1, rule yields_bnd, rule un, simp, simp, rule yields_step, rule un, simp, simp, simp, rule yields_bnd, rule un, simp, simp,
        (rule yields_bnd, rule u1)+, rule yields_bnd, rule un, simp, simp, rule yields_bnd, rule un, simp, simp, rule yields_bnd, rule ue,
        simp only: p hp) (rule rest)
qed

lemma h264_sps_size:
  assumes "fits buf nLen" "sps_ok can_new s" "has_bits buf 0 (sps_bits s)"
  shows "h264_decode_seq_parameter_set can_new buf nLen = Ret (1, Some (16 * (int (wmbs s) + 1), 16 * (int (hmbs s) + 1)))"
proof -
  have r: "reads buf (\<lambda>pos. if high_profile (profile s) then sps_high buf nLen pos else Ret (True, pos)) (high_bits (high s) [False]) True"
  proof (cases "high s")
    case None
    then show ?thesis using assms(1,2) reads_Ret [of buf True] by (simp add: sps_ok_def high_bits_def del: insert_iff)
  next
    case (Some h)
    then obtain c d y where h: "high s = Some (c, d, y)" by (cases h) auto
    then show ?thesis using assms(2) reads_sps_high [OF assms(1), of c d y] by (simp add: sps_ok_def del: insert_iff)
  qed
  have "yields buf (sps_unit can_new buf nLen) (sps_bits s) (Ret (1, Some (16 * (int (wmbs s) + 1), 16 * (int (hmbs s) + 1))))"
    unfolding sps_bits_def by (rule yields_sps_unit [OF assms(1,2)], rule yields_step, rule r, simp, rule yields_sps_size [OF assms(1,2)])
  then show ?thesis using assms(3) by (simp add: yields_def h264_decode_seq_parameter_set_def)
qed

text \<open>A list that is not in the stream is copied from its fallback, and the fallback of the first 8x8 list has 32 bytes.\<close>

lemma reads_absent_list:
  assumes "small buf" "0 \<le> sz" "sz = int (length factors)" "sz \<le> int (length fallback)"
  shows "reads buf (\<lambda>pos. decode_scaling_list buf nLen pos factors sz jvt fallback) [False] (take (nat sz) fallback)"
  unfolding decode_scaling_list_def using reads_u1 [OF assms(1), of False] assms(2-)
  by (simp add: reads_def mcpy_def st_def ld_def)

lemma yields_short_fallback:
  assumes "small buf" "int (length fallback) < sz"
  shows "yields buf (\<lambda>pos. decode_scaling_list buf nLen pos factors sz jvt fallback) [False] (UB OobRead)"
  unfolding decode_scaling_list_def using reads_u1 [OF assms(1), of False] assms(2)
  by (simp add: reads_def yields_def mcpy_def)

lemma yields_scaling_matrices:
  assumes "small buf"
  shows "yields buf (scaling_matrices buf nLen c) ([False] @ [False] @ [False] @ [False] @ [False] @ [False] @ [False]) (UB OobRead)"
proof -
  note a = reads_absent_list [OF assms]
  have l: "length default_scaling4 = 32" "length default_scaling8 = 128" by (simp_all add: default_scaling4_def default_scaling8_def)
  show ?thesis unfolding scaling_matrices_def Let_def
    by (rule yields_bnd, rule a, simp, simp, simp add: l, rule yields_bnd, rule a, simp, simp, simp add: l, rule yields_bnd, rule a, simp, simp, simp add: l,
        rule yields_bnd, rule a, simp, simp, simp add: l, rule yields_bnd, rule a, simp, simp, simp add: l, rule yields_bnd, rule a, simp, simp, simp add: l,
        rule yields_UB, rule yields_short_fallback [OF assms]) (simp add: l)
qed

lemma yields_sps_high_scaling:
  assumes "fits buf nLen" "c \<le> 3" "d \<le> 6"
  shows "yields buf (sps_high buf nLen) (high_bits (Some (c, d, y)) ([True] @ replicate 7 False)) (UB OobRead)"
proof -
  have ue: "code31 v \<Longrightarrow> reads buf (Ue buf nLen) (ue v) (of_nat v)" for v by (rule reads_Ue) (use assms(1) in simp_all)
  have u1: "reads buf (u 1 buf) [b] (if b then 1 else 0)" for b by (rule reads_u1) (use assms(1) in simp)
  have ret: "reads buf (\<lambda>pos. Ret (x, pos)) [] x" for x using assms(1) by (simp add: reads_Ret)
  have c: "c \<in> {0, 1, 2, 3}" and d: "d \<in> {0, 1, 2, 3, 4, 5, 6}" using assms(2,3) by auto
  have c3: "\<not> (3 :: u32) < of_nat c" "((of_nat c :: u32) = 3) = (c = 3)" using c by auto
  have d6: "\<not> (14 :: u32) < of_nat d + 8" using d by auto
  have r: "reads buf (\<lambda>pos. if c = 3 then u 1 buf pos else Ret (0, pos)) (if c = 3 then [False] else []) 0"
    using u1 [of False] ret [of "0 :: u32"] by simp
  have m: "yields buf (scaling_matrices buf nLen (of_nat c)) (replicate 7 False) (UB OobRead)"
  proof -
    have "replicate 7 False = [False] @ [False] @ [False] @ [False] @ [False] @ [False] @ [False]" by code_simp
    then show ?thesis using yields_scaling_matrices [of buf nLen "of_nat c"] assms(1) by (simp only:)
  qed
  show ?thesis unfolding high_bits_def option.case prod.case sps_high_def
    by (rule yields_step, rule ue, use assms in simp, simp add: c3, rule yields_step, rule r, simp, rule yields_bnd, rule ue, use assms in simp,
        rule yields_step, rule ue, use assms in simp, simp add: d6, rule yields_bnd, rule u1, rule yields_step, rule u1, simp, rule m)
qed


section \<open>Start codes\<close>

definition code_at :: "byte list \<Rightarrow> nat \<Rightarrow> bool" where
  "code_at stream i \<longleftrightarrow> take 3 (drop i stream) = [0, 0, 1]"

definition no_code :: "byte list \<Rightarrow> nat \<Rightarrow> nat \<Rightarrow> bool" where
  "no_code stream i j \<longleftrightarrow> list_all (\<lambda>k. \<not> code_at stream k) [i..<j]"

lemma take_Sucs: "take (Suc (Suc (Suc 0))) xs = take 3 xs" "take (Suc (Suc (Suc (Suc 0)))) xs = take 4 xs"
  by (simp_all add: eval_nat_numeral)

lemma no_code_iff: "no_code stream i j \<longleftrightarrow> (\<forall>k. i \<le> k \<and> k < j \<longrightarrow> \<not> code_at stream k)"
  by (auto simp: no_code_def list_all_iff)

lemma no_long_code:
  assumes "\<not> code_at stream (Suc i)"
  shows "take 4 (drop i stream) \<noteq> [0, 0, 0, 1]"
proof
  assume "take 4 (drop i stream) = [0, 0, 0, 1]"
  then have "drop 1 (take 4 (drop i stream)) = [0, 0, 1]" by simp
  then show False using assms by (simp add: code_at_def drop_take)
qed

lemma scan_skip:
  assumes "no_code stream i (i + n + 1)" "i + n + 3 < length stream"
  shows "scan_codes can_new stream nLen (n + m) i wh = scan_codes can_new stream nLen m (i + n) wh"
  using assms
proof (induction n arbitrary: i)
  case (Suc n)
  have c: "\<not> code_at stream i" "\<not> code_at stream (Suc i)" "no_code stream (Suc i) (Suc i + n + 1)"
    using Suc.prems(1) by (auto simp: no_code_iff)
  then have "scan_codes can_new stream nLen (n + m) (Suc i) wh = scan_codes can_new stream nLen m (Suc i + n) wh"
    using Suc.IH [OF c(3)] Suc.prems(2) by simp
  moreover have "at_code can_new [0, 0, 0, 1] stream nLen i wh = Ret (False, wh)" "at_code can_new [0, 0, 1] stream nLen i wh = Ret (False, wh)"
    using no_long_code [OF c(2)] c(1) Suc.prems(2) by (simp_all add: at_code_def starts_with_def code_at_def take_Sucs)
  ultimately show ?case by simp
qed simp

text \<open>The first start code, at the front: its unit is decoded twice, as the 4-byte code ends with the 3-byte one.\<close>

lemma scan_first:
  assumes "stream = [0, 0, 0, 1] @ nal" "h264_decode_seq_parameter_set can_new nal nLen = Ret (1, Some wh)" "nal \<noteq> []"
  shows "scan_codes can_new stream nLen (Suc (Suc n)) 0 None = scan_codes can_new stream nLen n 2 (Some wh)"
  using assms by (cases nal) (simp_all add: at_code_def starts_with_def numeral_2_eq_2)

section \<open>Properties\<close>

text \<open>A baseline set of 1920 x 1088 for the witnesses.\<close>

definition demo_sps :: sps where
  "demo_sps = \<lparr>ref_idc = 3, profile = 66, flags = replicate 6 False, reserved = 0, level = 30, sps_id = 0, high = None, frame_num = 0,
     poc = Poc2, refs = 1, gaps = False, wmbs = 119, hmbs = 67\<rparr>"

definition demo_nal :: "byte list" where
  "demo_nal = [0x67, 0x42, 0, 30, 0xDA, 0x01, 0xE0, 0x08, 0x90]"

definition demo_high :: sps where
  "demo_high = demo_sps\<lparr>profile := 100, high := Some (1, 0, False)\<rparr>"

definition demo_high_nal :: "byte list" where
  "demo_high_nal = [0x67, 100, 0, 30, 0xAD, 0x00]"

lemma demo_facts:
  "sps_ok (\<lambda>n. True) demo_sps" "has_bits demo_nal 0 (sps_bits demo_sps)" "wmbs demo_sps = 119" "hmbs demo_sps = 67" "length demo_nal = 9"
  by (simp add: sps_ok_def poc_ok_def demo_sps_def, code_simp, simp_all add: demo_sps_def demo_nal_def)

text \<open>
  C31: a sequence parameter set without scaling lists is read back: for every choice of the other syntax
  elements up to the size (any of the three picture order count types, the same depth for luma and chroma, no separate planes; the fields of the high profiles for the profiles
  for which the code expects them; sizes below 2^27 macroblocks) the decoder returns 1 and stores 16 times the
  number of macroblocks in each direction. What follows the size in the set is not read.
\<close>

theorem h264_sps_roundtrip:
  assumes "fits buf nLen" "sps_ok can_new s" "has_bits buf 0 (sps_bits s)"
  shows "h264_decode_seq_parameter_set can_new buf nLen = Ret (1, Some (16 * (int (wmbs s) + 1), 16 * (int (hmbs s) + 1)))"
  by (rule h264_sps_size [OF assms])

theorem h264_sps_roundtrip_witness: "h264_decode_seq_parameter_set (\<lambda>n. True) demo_nal 9 = Ret (1, Some (1920, 1088))"
  using h264_sps_roundtrip [of demo_nal 9 "\<lambda>n. True" demo_sps] demo_facts by simp

text \<open>
  An SPS of a high profile whose scaling matrix is present but whose lists are all left to
  their fallback, as the standard allows, makes the decoder read past
  \<open>default_scaling4\<close>: the fallback of the first 8x8 list is a 32-byte array, of which 64 bytes are copied.
\<close>

theorem h264_absent_lists_overread:
  assumes "fits buf nLen" "sps_ok can_new s" "high s = Some h"
    and "has_bits buf 0 (head_bits s (high_bits (high s) ([True] @ replicate 7 False)))"
  shows "h264_decode_seq_parameter_set can_new buf nLen = UB OobRead"
proof -
  obtain c d y where h: "high s = Some (c, d, y)" "high_profile (profile s)" "c \<le> 3" "d \<le> 6"
    using assms(2,3) by (cases h) (auto simp: sps_ok_def)
  have "yields buf (\<lambda>pos. bnd (if high_profile (profile s) then sps_high buf nLen pos else Ret (True, pos)) (\<lambda>(go, pos).
      if \<not> go then Ret (0, None) else sps_size can_new buf nLen pos)) (high_bits (high s) ([True] @ replicate 7 False)) (UB OobRead)"
    unfolding h(1) by (simp only: h(2) if_True) (rule yields_UB [OF yields_sps_high_scaling [OF assms(1) h(3,4)]])
  then show ?thesis using yields_sps_unit [OF assms(1,2)] assms(4) by (simp add: yields_def h264_decode_seq_parameter_set_def)
qed

theorem h264_absent_lists_overread_witness: "h264_decode_seq_parameter_set (\<lambda>n. True) demo_high_nal 6 = UB OobRead"
proof (rule h264_absent_lists_overread [of demo_high_nal 6 "\<lambda>n. True" demo_high "(1, 0, False)"])
  show "fits demo_high_nal 6" by (simp add: demo_high_nal_def)
  show "sps_ok (\<lambda>n. True) demo_high" by (simp add: sps_ok_def poc_ok_def demo_high_def demo_sps_def)
  show "high demo_high = Some (1, 0, False)" by (simp add: demo_high_def)
  show "has_bits demo_high_nal 0 (head_bits demo_high (high_bits (high demo_high) ([True] @ replicate 7 False)))" by code_simp
qed

text \<open>
  A stream that holds one sequence parameter set and no further start code: the
  scan succeeds with the size of the set.
\<close>

theorem GetWidthHeight_sps_only:
  assumes "stream = [0, 0, 0, 1] @ nal" "length stream < 268435456" "sps_ok can_new s" "has_bits nal 0 (sps_bits s)"
    and "no_code stream 2 (length stream)" "2 \<le> length nal"
  shows "GetWidthHeight can_new stream (int (length stream)) = Ret (0, Some (16 * (int (wmbs s) + 1), 16 * (int (hmbs s) + 1)))"
proof -
  let ?n = "word_of_int (int (length stream)) :: u32"
  have "unat (?n * 8) = length stream * 8" using unat_mult_lem [of ?n 8] assms(2) by simp
  then have f: "fits nal ?n" using assms(1,2) by simp
  obtain n where n: "length nal = Suc (Suc n)" using assms(6) by (auto dest: le_Suc_ex)
  have m: "nat (int (length stream) - 4) = Suc (Suc n)" using assms(1) n by simp
  have "GetWidthHeight can_new stream (int (length stream)) = scan_codes can_new stream ?n (Suc (Suc n)) 0 None"
    by (simp only: GetWidthHeight_def m)
  also have "\<dots> = scan_codes can_new stream ?n (n + 0) 2 (Some (16 * (int (wmbs s) + 1), 16 * (int (hmbs s) + 1)))"
    by (simp only: add_0_right, rule scan_first [OF assms(1) h264_sps_size [OF f assms(3,4)]]) (use n in auto)
  also have "\<dots> = scan_codes can_new stream ?n 0 (2 + n) (Some (16 * (int (wmbs s) + 1), 16 * (int (hmbs s) + 1)))"
    by (rule scan_skip) (use assms(1,5) n in \<open>auto simp: no_code_iff\<close>)
  finally show ?thesis by simp
qed

theorem GetWidthHeight_sps_only_witness: "GetWidthHeight (\<lambda>n. True) ([0, 0, 0, 1] @ demo_nal) 13 = Ret (0, Some (1920, 1088))"
proof -
  have "no_code ([0, 0, 0, 1] @ demo_nal) 2 13" by code_simp
  then show ?thesis using GetWidthHeight_sps_only [of "[0, 0, 0, 1] @ demo_nal" demo_nal "\<lambda>n. True" demo_sps] demo_facts by simp
qed

text \<open>
  Any later unit that is not a sequence parameter set makes the scan fail, although the size
  is known: a stream with a picture parameter set after its sequence parameter
  set gives -1.
\<close>

theorem GetWidthHeight_other_unit_fails:
  assumes "stream = [0, 0, 0, 1] @ nal" "length stream < 268435456" "sps_ok can_new s" "has_bits nal 0 (sps_bits s)"
    and "2 \<le> j" "no_code stream 2 (j + 1)" "take 4 (drop j stream) = [0, 0, 0, 1]"
    and "has_bits (drop (j + 4) stream) 0 ([f] @ binary 2 r @ binary 5 t)" "t < 32" "t \<noteq> 7"
  shows "GetWidthHeight can_new stream (int (length stream)) = Ret (-1, Some (16 * (int (wmbs s) + 1), 16 * (int (hmbs s) + 1)))"
proof -
  let ?n = "word_of_int (int (length stream)) :: u32" and ?wh = "(16 * (int (wmbs s) + 1), 16 * (int (hmbs s) + 1))"
  have "unat (?n * 8) = length stream * 8" using unat_mult_lem [of ?n 8] assms(2) by simp
  then have f: "fits nal ?n" using assms(1,2) by simp
  have l: "j + 4 < length stream" using assms(8) by (cases "j + 4 < length stream") (auto simp: has_bits_def)
  have n: "length nal = Suc (Suc (length nal - 2))" using l assms(1,5) by simp
  obtain k where k: "length nal - 2 = (j - 2) + Suc k" using l assms(1,5) by (auto simp: le_iff_add dest!: less_imp_Suc_add)
  have sm: "small (drop (j + 4) stream)" using assms(2) by simp
  have t: "(of_nat t :: u32) \<noteq> 7" using of_nat_eq_iff32 [of t 7] assms(9,10) by simp
  have "yields (drop (j + 4) stream) (sps_unit can_new (drop (j + 4) stream) ?n) ([f] @ binary 2 r @ binary 5 t) (Ret (0, None))"
    unfolding sps_unit_def
    by (rule yields_bnd, rule reads_u1 [OF sm], rule yields_bnd, rule reads_u' [OF sm], simp, simp, rule yields_bnd_last, rule reads_u' [OF sm], simp, simp) (use assms(9) t in \<open>simp add: yields_def\<close>)
  then have d: "h264_decode_seq_parameter_set can_new (drop (j + 4) stream) ?n = Ret (0, None)"
    using assms(8) by (simp add: yields_def h264_decode_seq_parameter_set_def)
  have m: "nat (int (length stream) - 4) = Suc (Suc (length nal - 2))" using assms(1) n by simp
  have "GetWidthHeight can_new stream (int (length stream)) = scan_codes can_new stream ?n (Suc (Suc (length nal - 2))) 0 None"
    by (simp only: GetWidthHeight_def m)
  also have "\<dots> = scan_codes can_new stream ?n ((j - 2) + Suc k) 2 (Some ?wh)"
    unfolding k [symmetric] by (rule scan_first [OF assms(1) h264_sps_size [OF f assms(3,4)]]) (use n in auto)
  also have "\<dots> = scan_codes can_new stream ?n (Suc k) (2 + (j - 2)) (Some ?wh)"
    by (rule scan_skip) (use assms(5,6) l in \<open>auto simp: no_code_iff\<close>)
  also have "2 + (j - 2) = j" using assms(5) by simp
  also have "scan_codes can_new stream ?n (Suc k) j (Some ?wh) = Ret (-1, Some ?wh)"
  proof -
    have j4: "Suc (Suc (Suc (Suc j))) = j + 4" by simp
    have "at_code can_new [0, 0, 0, 1] stream ?n j (Some ?wh) = Ret (True, Some ?wh)"
      using assms(7) l d by (simp add: at_code_def starts_with_def take_Sucs j4)
    then show ?thesis by simp
  qed
  finally show ?thesis .
qed

theorem GetWidthHeight_other_unit_fails_witness:
  "GetWidthHeight (\<lambda>n. True) ([0, 0, 0, 1] @ demo_nal @ [0, 0, 0, 1, 0x68, 0xCE]) 19 = Ret (-1, Some (1920, 1088))"
proof -
  let ?nal = "demo_nal @ [0, 0, 0, 1, 0x68, 0xCE]"
  have h: "has_bits ?nal 0 (sps_bits demo_sps)" "no_code ([0, 0, 0, 1] @ ?nal) 2 (13 + 1)" "take 4 (drop 13 ([0, 0, 0, 1] @ ?nal)) = [0, 0, 0, 1]"
    "has_bits (drop (13 + 4) ([0, 0, 0, 1] @ ?nal)) 0 ([False] @ binary 2 3 @ binary 5 8)" by code_simp+
  have l: "length ([0, 0, 0, 1] @ ?nal) = 19" "length ([0, 0, 0, 1] @ ?nal) < 268435456" by (simp_all add: demo_facts)
  show ?thesis using GetWidthHeight_other_unit_fails [OF refl l(2) demo_facts(1) h(1) _ h(2,3,4)] by (simp only: l(1)) (simp add: demo_facts)
qed

end
