(* ===== verification/H265Sps.thy ===== *)
theory H265Sps
  imports BitReader
begin

text \<open>
  \<^verbatim>\<open>gles/Media/h265wh.cpp\<close>: the picture size of an H.265 stream. The
  start code search skips bytes as FFmpeg's does and is shown to
  be the naive search; the removal of emulation prevention bytes inverts the escaping of the
  standard; the whole function finds the size in a stream that was written that
  way. A pointer into the stream is an index; the stream's last byte is
  outside \<open>buf_end\<close>, as in the code.
\<close>

section \<open>The start code search\<close>

text \<open>\<open>Inl\<close>: the function returns; \<open>Inr\<close>: the search goes on from there.\<close>

fun find_head :: "nat \<Rightarrow> byte list \<Rightarrow> nat \<Rightarrow> nat \<Rightarrow> u32 \<Rightarrow> (nat + nat) outcome" where
  "find_head 0 stream p e state = Ret (Inr p)"
| "find_head (Suc n) stream p e state =
     (if length stream \<le> p then UB OobRead
      else
        let tmp = push_bit 8 state; state = tmp + ucast (stream ! p); p = p + 1 in
        if tmp = 0x100 \<or> p = e then Ret (Inl p) else find_head n stream p e state)"

function find_loop :: "byte list \<Rightarrow> nat \<Rightarrow> nat \<Rightarrow> nat outcome" where
  "find_loop stream p e =
     (if p < e then
        if length stream \<le> p - 1 then UB OobRead
        else if 1 < stream ! (p - 1) then find_loop stream (p + 3) e
        else if stream ! (p - 2) \<noteq> 0 then find_loop stream (p + 2) e
        else if stream ! (p - 3) \<noteq> 0 \<or> stream ! (p - 1) \<noteq> 1 then find_loop stream (p + 1) e
        else Ret (p + 1)
      else Ret p)"
  by pat_completeness auto
termination by (relation "measure (\<lambda>(stream, p, e). e - p)") auto

declare find_loop.simps [simp del]

definition avpriv_find_start_code :: "byte list \<Rightarrow> nat \<Rightarrow> nat \<Rightarrow> u32 \<Rightarrow> nat outcome" where
  "avpriv_find_start_code stream p e state =
     (if e \<le> p then Ret e
      else bnd (find_head 3 stream p e state) (\<lambda>r.
        case r of Inl p \<Rightarrow> Ret p | Inr p \<Rightarrow> bnd (find_loop stream p e) (\<lambda>p. Ret (min p e))))"

definition code_at3 :: "byte list \<Rightarrow> nat \<Rightarrow> bool" where
  "code_at3 stream k \<longleftrightarrow> stream ! k = 0 \<and> stream ! (k + 1) = 0 \<and> stream ! (k + 2) = 1"

text \<open>The naive search: the byte after the byte after the first start code in the range.\<close>

definition first_code :: "byte list \<Rightarrow> nat \<Rightarrow> nat \<Rightarrow> nat" where
  "first_code stream p e = (case find (code_at3 stream) [p..<e - 3] of Some k \<Rightarrow> k + 4 | None \<Rightarrow> e)"

lemma find_skip: "p \<le> q \<Longrightarrow> (\<And>k. p \<le> k \<Longrightarrow> k < q \<Longrightarrow> \<not> P k) \<Longrightarrow> find P [p..<n] = find P [q..<n]"
proof (induction q)
  case (Suc q)
  show ?case
  proof (cases "p = Suc q")
    case False
    then have "find P [p..<n] = find P [q..<n]" using Suc by simp
    also have "\<dots> = find P [Suc q..<n]" using Suc.prems False by (cases "q < n") (simp_all add: upt_conv_Cons)
    finally show ?thesis .
  qed simp
qed simp

lemma find_loop_eq:
  assumes "3 \<le> p" "e \<le> length stream"
  shows "bnd (find_loop stream p e) (\<lambda>p. Ret (min p e)) = Ret (first_code stream (p - 3) e)"
  using assms
proof (induction stream p e rule: find_loop.induct)
  case (1 stream p e)
  note IH = "1.IH" and prems = "1.prems"
  have skip: "first_code stream (p - 3) e = first_code stream (p - 3 + n) e" if "\<And>k. p - 3 \<le> k \<Longrightarrow> k < p - 3 + n \<Longrightarrow> \<not> code_at3 stream k" for n
    unfolding first_code_def using find_skip [of "p - 3" "p - 3 + n" "code_at3 stream" "e - 3"] that by simp
  have sums: "p - 3 + 1 = p - 2" "p - 3 + 2 = p - 1" "p - 2 + 1 = p - 1" "p - 3 + 3 = p" "Suc (p - 3) = p - 2" "Suc (p - 2) = p - Suc 0" using prems by simp_all
  consider "\<not> p < e" | "p < e" "1 < stream ! (p - 1)" | "p < e" "\<not> 1 < stream ! (p - 1)" "stream ! (p - 2) \<noteq> 0"
    | "p < e" "\<not> 1 < stream ! (p - 1)" "stream ! (p - 2) = 0" "stream ! (p - 3) \<noteq> 0 \<or> stream ! (p - 1) \<noteq> 1"
    | "p < e" "\<not> 1 < stream ! (p - 1)" "stream ! (p - 2) = 0" "stream ! (p - 3) = 0" "stream ! (p - 1) = 1" by blast
  then show ?case
  proof cases
    case 1
    then show ?thesis by (simp add: find_loop.simps first_code_def)
  next
    case 2
    have "first_code stream (p - 3) e = first_code stream (p - 3 + 3) e"
    proof (rule skip)
      fix k assume "p - 3 \<le> k" "k < p - 3 + 3"
      then have "k = p - 3 \<or> k = p - 2 \<or> k = p - 1" using prems by auto
      then show "\<not> code_at3 stream k" using 2(2) by (auto simp: code_at3_def sums)
    qed
    then have "first_code stream (p - 3) e = first_code stream p e" by (simp only: sums)
    then show ?thesis using 2 IH(1) prems by (simp add: find_loop.simps [of stream p])
  next
    case 3
    have "first_code stream (p - 3) e = first_code stream (p - 3 + 2) e"
    proof (rule skip)
      fix k assume "p - 3 \<le> k" "k < p - 3 + 2"
      then have "k = p - 3 \<or> k = p - 2" using prems by auto
      then show "\<not> code_at3 stream k" using 3(3) by (auto simp: code_at3_def sums)
    qed
    then show ?thesis using 3 IH(2) prems by (simp add: find_loop.simps [of stream p] sums)
  next
    case 4
    have "first_code stream (p - 3) e = first_code stream (p - 3 + 1) e"
    proof (rule skip)
      fix k assume "p - 3 \<le> k" "k < p - 3 + 1"
      then have "k = p - 3" using prems by auto
      then show "\<not> code_at3 stream k" using 4(4) by (auto simp: code_at3_def sums)
    qed
    then show ?thesis using 4 IH(3) prems by (simp add: find_loop.simps [of stream p] sums)
  next
    case 5
    then have "code_at3 stream (p - 3)" using prems by (simp add: code_at3_def sums)
    then have "first_code stream (p - 3) e = p + 1" using 5 prems by (simp add: first_code_def upt_conv_Cons)
    then show ?thesis using 5 prems by (simp add: find_loop.simps [of stream p])
  qed
qed

lemma find_head_fresh:
  assumes "p < e" "e \<le> length stream"
  shows "find_head 3 stream p e 0xFFFFFFFF = Ret (if e \<le> p + 3 then Inl e else Inr (p + 3))"
proof -
  have neg: "(word_of_int k :: u32) \<noteq> 0x100" if "- 16777216 \<le> k" "k < 0" for k
  proof
    assume "(word_of_int k :: u32) = 0x100"
    then have "uint (word_of_int k :: u32) = 0x100" by simp
    then have "k mod 4294967296 = 256" by (simp add: unsigned_of_int take_bit_int_def)
    moreover have "(k + 4294967296) mod 4294967296 = k + 4294967296" by (rule mod_pos_pos_trivial) (use that in simp_all)
    moreover have "(k + 4294967296) mod 4294967296 = k mod 4294967296" by simp
    ultimately show False using that by simp
  qed
  have no: "push_bit 8 (push_bit 8 0xFFFFFFFF + ucast a) \<noteq> (0x100 :: u32)"
    "push_bit 8 (push_bit 8 (push_bit 8 0xFFFFFFFF + ucast a) + ucast b) \<noteq> (0x100 :: u32)" for a b :: byte
  proof -
    have u: "(ucast c :: u32) = word_of_int (uint c)" "0 \<le> uint c" "uint c < 256" for c :: byte
      using unsigned_less [of c, where ?'a = int] by simp_all
    have sh: "push_bit 8 (word_of_int k) = (word_of_int (k * 256) :: u32)" for k by (simp add: push_bit_eq_mult)
    have ones: "(0xFFFFFFFF :: u32) = word_of_int (- 1)" by simp
    show "push_bit 8 (push_bit 8 0xFFFFFFFF + ucast a) \<noteq> (0x100 :: u32)"
      unfolding ones sh u(1) of_int_add [symmetric] by (rule neg) (use u(2,3) [of a] in simp_all)
    show "push_bit 8 (push_bit 8 (push_bit 8 0xFFFFFFFF + ucast a) + ucast b) \<noteq> (0x100 :: u32)"
      unfolding ones sh u(1) of_int_add [symmetric] by (rule neg) (use u(2,3) [of a] u(2,3) [of b] in simp_all)
  qed
  consider "e = p + 1" | "e = p + 2" | "e = p + 3" | "p + 3 < e" using assms(1) by linarith
  then show ?thesis using assms no by cases (simp_all add: numeral_3_eq_3 Let_def)
qed

lemma find_start_code_first:
  assumes "e \<le> length stream"
  shows "avpriv_find_start_code stream p e 0xFFFFFFFF = Ret (first_code stream p e)"
proof -
  consider "e \<le> p" | "p < e" "e \<le> p + 3" | "p < e" "p + 3 < e" by linarith
  then show ?thesis
  proof cases
    case 3
    then show ?thesis using find_loop_eq [of "p + 3" e stream] find_head_fresh [of p e stream] assms
      by (simp add: avpriv_find_start_code_def)
  qed (use find_head_fresh [of p e stream] assms in \<open>simp_all add: avpriv_find_start_code_def first_code_def\<close>)
qed

lemma first_code_progress: "first_code stream p e + 1 < e \<Longrightarrow> p + 4 \<le> first_code stream p e"
  by (auto simp: first_code_def find_Some_iff split: option.splits)


section \<open>The sequence parameter set\<close>

text \<open>The flags of the sub-layers, in order.\<close>

fun sub_layer_flags :: "nat \<Rightarrow> byte list \<Rightarrow> u32 \<Rightarrow> ((bool \<times> bool) list \<times> u32) outcome" where
  "sub_layer_flags 0 buf pos = Ret ([], pos)"
| "sub_layer_flags (Suc n) buf pos =
     bnd (u 1 buf pos) (\<lambda>(profile_present, pos).
     bnd (u 1 buf pos) (\<lambda>(level_present, pos).
     bnd (sub_layer_flags n buf pos) (\<lambda>(rest, pos). Ret ((profile_present \<noteq> 0, level_present \<noteq> 0) # rest, pos))))"

definition profile_tier_level :: "byte list \<Rightarrow> int \<Rightarrow> u32 \<Rightarrow> (unit \<times> u32) outcome" where
  "profile_tier_level buf sps_max_sub_layers_minus1 pos =
     bnd (sub_layer_flags (nat (sps_max_sub_layers_minus1 - 1)) buf (pos + 96)) (\<lambda>(present, pos).
     let pos = (if 0 < sps_max_sub_layers_minus1 - 1 then pos + 2 * word_of_int (max 0 (8 - (sps_max_sub_layers_minus1 - 1))) else pos) in
     Ret ((), foldl (\<lambda>pos (p, l). pos + (if p then 88 else 0) + (if l then 8 else 0)) pos present))"

definition sps_d :: "byte list \<Rightarrow> u32 \<Rightarrow> u32 \<Rightarrow> (int \<times> (int \<times> int) option) outcome" where
  "sps_d buf ulLen pos =
     bnd (u 4 buf pos) (\<lambda>(sps_video_parameter_set_id, pos).
     if 16 \<le> sps_video_parameter_set_id then Ret (0, None)
     else
       bnd (u 3 buf pos) (\<lambda>(v, pos).
       let sps_max_sub_layers_minus1 = v + 1 in
       if 7 < sps_max_sub_layers_minus1 then Ret (0, None)
       else
         bnd (u 1 buf pos) (\<lambda>(sps_temporal_id_nesting_flag, pos).
         bnd (profile_tier_level buf (sint sps_max_sub_layers_minus1) pos) (\<lambda>(done', pos).
         bnd (Ue buf ulLen pos) (\<lambda>(sps_seq_parameter_set_id, pos).
         if 32 \<le> sps_seq_parameter_set_id then Ret (0, None)
         else
           bnd (Ue buf ulLen pos) (\<lambda>(chroma_format_id, pos).
           if chroma_format_id \<noteq> 1 then Ret (0, None)
           else
             bnd (Ue buf ulLen pos) (\<lambda>(width, pos).
             bnd (Ue buf ulLen pos) (\<lambda>(height, pos).
             Ret (1, Some (sint width, sint height))))))))))"

section \<open>The whole function\<close>

text \<open>
  The position of the first sequence parameter set, if the loop finds one. A start code
  that is found moves the search on by at least three bytes.
\<close>

function find_sps :: "byte list \<Rightarrow> nat \<Rightarrow> nat \<Rightarrow> nat option outcome" where
  "find_sps stream p e =
     (if length stream < e then UB OobRead
      else
        case avpriv_find_start_code stream p e 0xFFFFFFFF of
          UB x \<Rightarrow> UB x
        | Blocked \<Rightarrow> Blocked
        | Ret q \<Rightarrow>
            if e \<le> q + 1 then Ret None
            else if drop_bit 1 (stream ! (q - 1)) AND 0x3f = 33 then Ret (Some (q - 1))
            else find_sps stream (q - 1) e)"
  by pat_completeness auto
termination
proof (relation "measure (\<lambda>(stream, p, e). e - p)", goal_cases)
  case (2 stream p e q)
  then have "q = first_code stream p e" using find_start_code_first [of e stream p] by simp
  then show ?case using first_code_progress [of stream p e] 2 by simp
qed simp

declare find_sps.simps [simp del]

text \<open>The loop that fills \<open>dBuffer\<close>, on the bytes from the third one on.\<close>

fun unescape :: "byte list \<Rightarrow> byte list" where
  "unescape (a # b # c # bs) = (if a = 0 \<and> b = 0 \<and> c = 3 then a # b # unescape bs else a # unescape (b # c # bs))"
| "unescape bs = bs"

definition H265GetWidthHeight :: "byte list \<Rightarrow> byte list \<Rightarrow> int \<Rightarrow> (int \<times> (int \<times> int) option) outcome" where
  "H265GetWidthHeight dBuffer stream stream_len =
     bnd (find_sps stream 0 (nat (stream_len - 1))) (\<lambda>r.
     case r of
       None \<Rightarrow> Ret (-1, None)
     | Some buf \<Rightarrow>
         let nDSize = min 256 (nat (stream_len - 1) - buf);
             out = unescape (drop 2 (take nDSize (drop buf stream))) in
         if length dBuffer < length out then UB HeapOverflow
         else bnd (sps_d (st dBuffer 0 out) (of_nat (length out)) 0) (\<lambda>(r, wh).
           Ret (if r \<noteq> 0 then 0 else -1, wh)))"

section \<open>What the encoder wrote\<close>

text \<open>The escaping of the standard: a byte below 4 after two zero bytes gets a 3 before it; \<open>z\<close> counts the zero bytes before.\<close>

fun escape :: "nat \<Rightarrow> byte list \<Rightarrow> byte list" where
  "escape z [] = []"
| "escape z (b # bs) =
     (if z = 2 \<and> b \<le> 3 then 3 # b # escape (if b = 0 then 1 else 0) bs
      else b # escape (if b = 0 then z + 1 else 0) bs)"

lemma unescape_nonzero [simp]: "b \<noteq> 0 \<Longrightarrow> unescape (b # bs) = b # unescape bs"
  by (cases bs; cases "tl bs") auto

lemma unescape_zero_nonzero [simp]: "b \<noteq> 0 \<Longrightarrow> unescape (0 # b # bs) = 0 # b # unescape bs"
  by (cases bs) auto

lemma unescape_two_zeros: "b \<noteq> 3 \<Longrightarrow> b \<noteq> 0 \<Longrightarrow> unescape (0 # 0 # b # bs) = 0 # 0 # b # unescape bs"
  by simp

lemma unescape_escape: "z \<le> 2 \<Longrightarrow> unescape (replicate z 0 @ escape z bs) = replicate z 0 @ bs"
proof (induction bs arbitrary: z)
  case Nil
  then have "z = 0 \<or> z = 1 \<or> z = 2" by auto
  then show ?case by (auto simp: numeral_2_eq_2)
next
  case (Cons b bs)
  have IH: "unescape (escape 0 bs) = bs" "unescape (0 # escape 1 bs) = 0 # bs" "unescape (0 # 0 # escape 2 bs) = 0 # 0 # bs"
    using Cons.IH [of 0] Cons.IH [of 1] Cons.IH [of 2] by (simp_all add: numeral_2_eq_2)
  have "b \<noteq> 0 \<Longrightarrow> b \<noteq> 3 \<Longrightarrow> \<not> b \<le> 3 \<Longrightarrow> unescape (0 # 0 # b # escape 0 bs) = 0 # 0 # b # bs" by (simp add: IH)
  moreover have "z = 0 \<or> z = 1 \<or> z = 2" using Cons.prems by auto
  moreover have "\<not> b \<le> 3 \<Longrightarrow> b \<noteq> 0 \<and> b \<noteq> 3" by auto
  ultimately show ?case using IH by (cases "b = 0"; cases "b \<le> 3") (auto simp: numeral_2_eq_2)
qed

lemma length_unescape: "length (unescape bs) \<le> length bs"
  by (induction bs rule: unescape.induct) auto

text \<open>A reader that ends in a block ends the same way in a longer one.\<close>

lemma bnd_longer:
  assumes "bnd f g = Ret r" "\<And>x. f = Ret x \<Longrightarrow> f' = Ret x" "\<And>x. g x = Ret r \<Longrightarrow> g' x = Ret r"
  shows "bnd f' g' = Ret r"
  using assms by (auto simp: bnd_Ret_iff)

lemma rd_bit_longer: "rd_bit buf pos = Ret b \<Longrightarrow> rd_bit (buf @ more) pos = Ret b"
  by (auto simp: rd_bit_def nth_append split: if_splits)

lemma rd_bits_longer: "rd_bits n buf acc pos = Ret r \<Longrightarrow> rd_bits n (buf @ more) acc pos = Ret r"
proof (induction n arbitrary: acc pos)
  case (Suc n)
  show ?case unfolding rd_bits.simps
    by (rule bnd_longer [OF Suc.prems [unfolded rd_bits.simps]]) (simp_all add: rd_bit_longer Suc.IH)
qed simp

lemma u_longer: "u n buf pos = Ret r \<Longrightarrow> u n (buf @ more) pos = Ret r"
  by (simp add: u_def rd_bits_longer)

lemma zeros_longer: "zeros buf nLen n pos = Ret r \<Longrightarrow> zeros (buf @ more) nLen n pos = Ret r"
proof (induction buf nLen n pos rule: zeros.induct)
  case (1 buf nLen n pos)
  show ?case
  proof (cases "pos < nLen * 8")
    case True
    then obtain b where b: "rd_bit buf pos = Ret b" using "1.prems" by (auto simp: zeros.simps [of buf] split: outcome.splits)
    then show ?thesis using 1 True rd_bit_longer [OF b] by (auto simp: zeros.simps [of buf nLen n pos] zeros.simps [of "buf @ more" nLen n pos] split: if_splits)
  qed (use "1.prems" in \<open>simp add: zeros.simps\<close>)
qed

lemma Ue_longer: "Ue buf nLen pos = Ret r \<Longrightarrow> Ue (buf @ more) nLen pos = Ret r"
  unfolding Ue_def by (erule bnd_longer, erule zeros_longer) (auto elim!: bnd_longer rd_bits_longer split: prod.splits)

lemma sub_layer_flags_longer: "sub_layer_flags n buf pos = Ret r \<Longrightarrow> sub_layer_flags n (buf @ more) pos = Ret r"
proof (induction n arbitrary: pos r)
  case (Suc n)
  show ?case using Suc.prems unfolding sub_layer_flags.simps
    by (auto elim!: bnd_longer u_longer Suc.IH split: prod.splits)
qed simp

lemma profile_tier_level_longer: "profile_tier_level buf n pos = Ret r \<Longrightarrow> profile_tier_level (buf @ more) n pos = Ret r"
  unfolding profile_tier_level_def by (erule bnd_longer, erule sub_layer_flags_longer) simp

lemma sps_d_longer: "sps_d buf ulLen pos = Ret r \<Longrightarrow> sps_d (buf @ more) ulLen pos = Ret r"
  unfolding sps_d_def Let_def
  by (auto elim!: bnd_longer u_longer Ue_longer profile_tier_level_longer split: prod.splits if_splits)

text \<open>
  The syntax elements of a sequence parameter set up to the size; the 96 bits of the general
  profile, the padding and the sub-layer data can be anything of their length.
\<close>

record hsps =
  vps :: nat
  nest :: bool
  general :: "bool list"
  layers :: "(bool \<times> bool) list"
  padding :: "bool list"
  sub_data :: "bool list"
  hsps_id :: nat
  width :: nat
  height :: nat

definition sub_len :: "(bool \<times> bool) list \<Rightarrow> nat" where
  "sub_len fs = (\<Sum>(p, l)\<leftarrow>fs. (if p then 88 else 0) + (if l then 8 else 0))"

definition hsps_ok :: "hsps \<Rightarrow> bool" where
  "hsps_ok s \<longleftrightarrow> vps s < 16 \<and> length (general s) = 96 \<and> length (layers s) \<le> 6 \<and>
     length (padding s) = (if layers s = [] then 0 else 2 * (8 - length (layers s))) \<and> length (sub_data s) = sub_len (layers s) \<and>
     hsps_id s < 32 \<and> width s < 2147483647 \<and> height s < 2147483647"

definition flag_bits :: "(bool \<times> bool) list \<Rightarrow> bool list" where
  "flag_bits fs = concat (map (\<lambda>(p, l). [p] @ [l]) fs)"

definition ptl_bits :: "hsps \<Rightarrow> bool list" where
  "ptl_bits s = general s @ flag_bits (layers s) @ padding s @ sub_data s"

definition hsps_bits :: "hsps \<Rightarrow> bool list" where
  "hsps_bits s = binary 4 (vps s) @ binary 3 (length (layers s)) @ [nest s] @ ptl_bits s @ ue (hsps_id s) @ ue 1 @ ue (width s) @ ue (height s)"

lemma reads_skip:
  assumes "reads buf f bs v" "length xs = n"
  shows "reads buf (\<lambda>pos. f (pos + of_nat n)) (xs @ bs) v"
  using assms by (auto simp: reads_def has_bits_append add_ac)

lemma reads_skip_Ret: "small buf \<Longrightarrow> reads buf (\<lambda>pos. Ret (v, pos + of_nat (length xs))) xs v"
  by (simp add: reads_def)

lemma reads_sub_layer_flags:
  assumes "small buf"
  shows "reads buf (sub_layer_flags (length fs) buf) (flag_bits fs) fs"
proof (induction fs)
  case Nil
  then show ?case using assms by (simp add: reads_def flag_bits_def)
next
  case (Cons f fs)
  obtain p l where f: "f = (p, l)" by (cases f)
  have b: "flag_bits ((p, l) # fs) = [p] @ [l] @ flag_bits fs" by (simp add: flag_bits_def)
  show ?case unfolding f list.size add_Suc_right add_0_right sub_layer_flags.simps b
    by (rule reads_bnd, rule reads_u1 [OF assms], rule reads_bnd, rule reads_u1 [OF assms], rule reads_bnd_last, rule Cons.IH) (simp add: reads_Ret assms)
qed

lemma sub_len_foldl: "foldl (\<lambda>pos (p, l). pos + (if p then 88 else 0) + (if l then 8 else 0)) pos fs = pos + (of_nat (sub_len fs) :: u32)"
  by (induction fs arbitrary: pos) (auto simp: sub_len_def add_ac)

lemma reads_profile_tier_level:
  assumes "small buf" "hsps_ok s"
  shows "reads buf (profile_tier_level buf (int (length (layers s)) + 1)) (ptl_bits s) ()"
proof -
  let ?n = "length (layers s)"
  have n: "nat (int ?n + 1 - 1) = ?n" by simp
  have pad: "(if 0 < int ?n + 1 - 1 then pos + 2 * word_of_int (max 0 (8 - (int ?n + 1 - 1))) else pos) = pos + (of_nat (length (padding s)) :: u32)" for pos
    using assms(2) by (auto simp: hsps_ok_def of_nat_diff)
  have rest: "reads buf (\<lambda>pos. Ret ((), pos + of_nat (length (padding s)) + of_nat (sub_len (layers s)))) (padding s @ sub_data s) ()"
    using reads_skip_Ret [OF assms(1), of "()" "padding s @ sub_data s"] assms(2) by (simp add: hsps_ok_def add_ac)
  have "reads buf (\<lambda>pos. bnd (sub_layer_flags ?n buf pos) (\<lambda>(present, pos).
      Ret ((), foldl (\<lambda>pos (p, l). pos + (if p then 88 else 0) + (if l then 8 else 0)) (pos + of_nat (length (padding s))) present)))
      (flag_bits (layers s) @ padding s @ sub_data s) ()"
    by (rule reads_bnd, rule reads_sub_layer_flags [OF assms(1)]) (simp only: sub_len_foldl rest)
  then have "reads buf (\<lambda>pos. bnd (sub_layer_flags ?n buf (pos + of_nat 96)) (\<lambda>(present, pos).
      Ret ((), foldl (\<lambda>pos (p, l). pos + (if p then 88 else 0) + (if l then 8 else 0)) (pos + of_nat (length (padding s))) present)))
      (ptl_bits s) ()"
    unfolding ptl_bits_def by (rule reads_skip) (use assms(2) in \<open>simp add: hsps_ok_def\<close>)
  moreover have "(of_nat 96 :: u32) = 96" by simp
  ultimately show ?thesis unfolding profile_tier_level_def n Let_def using pad by (simp only:)
qed

lemma sps_d_size:
  assumes "small buf" "8 * length buf \<le> unat (nLen * 8)" "hsps_ok s" "has_bits buf 0 (hsps_bits s)"
  shows "sps_d buf nLen 0 = Ret (1, Some (int (width s), int (height s)))"
proof -
  have ok: "vps s < 16" "length (layers s) \<le> 6" "hsps_id s < 32" "width s < 2147483647" "height s < 2147483647" using assms(3) by (simp_all add: hsps_ok_def)
  have un: "unat n = k \<Longrightarrow> k < 32 \<Longrightarrow> reads buf (u n buf) (binary k x) (of_nat (x mod 2 ^ k))" for n k x
    using reads_u [of buf n x] assms(1) by simp
  have ue: "v < 2147483647 \<Longrightarrow> reads buf (Ue buf nLen) (ue v) (of_nat v)" for v by (rule reads_Ue) (use assms(1,2) in simp_all)
  have l: "length (layers s) \<in> {0, 1, 2, 3, 4, 5, 6}"
  proof -
    have "k \<le> 6 \<Longrightarrow> k \<in> {0, 1, 2, 3, 4, 5, 6}" for k :: nat by auto
    then show ?thesis using ok(2) .
  qed
  have lay: "\<not> (7 :: u32) < of_nat (length (layers s)) + 1" "sint (of_nat (length (layers s)) + 1 :: u32) = int (length (layers s)) + 1" using l by auto
  have v: "\<not> (16 :: u32) \<le> of_nat (vps s)" "\<not> (32 :: u32) \<le> of_nat (hsps_id s)" using ok by (simp_all add: not_le word_less_nat_alt)
  have wh: "sint (of_nat (width s) :: u32) = int (width s)" "sint (of_nat (height s) :: u32) = int (height s)" using ok by (simp_all add: sint_of_nat32)
  have "yields buf (sps_d buf nLen) (hsps_bits s) (Ret (1, Some (int (width s), int (height s))))"
    unfolding hsps_bits_def sps_d_def
    by (rule yields_step, rule un, simp, simp, simp add: ok v, rule yields_step, rule un, simp, simp, use ok in \<open>simp add: Let_def lay\<close>,
        rule yields_bnd, rule reads_u1 [OF assms(1)], rule yields_bnd, rule reads_profile_tier_level [OF assms(1,3)],
        rule yields_step, rule ue, use ok in simp, simp add: v, rule yields_step, rule ue, simp, simp,
        rule yields_bnd, rule ue, use ok in simp, rule yields_bnd_last, rule ue, use ok in simp) (simp add: wh yields_def)
  then show ?thesis using assms(4) by (simp add: yields_def)
qed

lemma first_code_at:
  assumes "list_all (\<lambda>k. \<not> code_at3 stream k) [0..<k]" "code_at3 stream k" "k + 3 < e"
  shows "first_code stream 0 e = k + 4"
proof -
  have "find (code_at3 stream) [0..<e - 3] = find (code_at3 stream) [k..<e - 3]"
    by (rule find_skip) (use assms(1) in \<open>auto simp: list_all_iff\<close>)
  also have "\<dots> = Some k" using assms(2,3) by (simp add: upt_conv_Cons)
  finally show ?thesis by (simp add: first_code_def)
qed

lemma escape_nonempty: "bs \<noteq> [] \<Longrightarrow> escape z bs \<noteq> []"
  by (cases bs) auto


section \<open>Properties\<close>

text \<open>
  C32: the start code search, which looks at every third byte while it can, finds what
  the naive search finds: one past the byte after the first 00 00 01 of the
  range, or the end of the range.
\<close>

theorem find_start_code_naive:
  assumes "e \<le> length stream"
  shows "avpriv_find_start_code stream p e 0xFFFFFFFF = Ret (first_code stream p e)"
  by (rule find_start_code_first [OF assms])

theorem find_start_code_naive_witness:
  "avpriv_find_start_code [9, 0, 0, 0, 1, 0x42, 1, 0] 0 8 0xFFFFFFFF = Ret 6"
proof -
  have "first_code [9, 0, 0, 0, 1, 0x42, 1, 0] 0 8 = 6" by code_simp
  then show ?thesis using find_start_code_naive [of 8 "[9, 0, 0, 0, 1, 0x42, 1, 0]" 0] by simp
qed

text \<open>
  The loop that copies the payload removes exactly the bytes that the standard's escaping puts in.
\<close>

theorem h265_unescape_inverts: "unescape (escape 0 bs) = bs"
  using unescape_escape [of 0 bs] by simp

text \<open>
  C33: the size of an H.265 stream: when the first start code of the stream opens a
  sequence parameter set of at most 254 escaped bytes, written as the standard says for any choice of the syntax
  elements with 4:2:0 chroma, and the stream ends one byte behind it, the function returns 0 and stores the width and
  height that were written, whatever \<open>dBuffer\<close> held.
\<close>

theorem H265GetWidthHeight_roundtrip:
  assumes "stream = pre @ [0, 0, 1, b0, b1] @ escape 0 rbsp @ [x]" "list_all (\<lambda>k. \<not> code_at3 stream k) [0..<length pre]"
    and "drop_bit 1 b0 AND 0x3f = 33" "length (escape 0 rbsp) \<le> 254" "length dBuffer = 256"
    and "hsps_ok s" "has_bits rbsp 0 (hsps_bits s)"
  shows "H265GetWidthHeight dBuffer stream (int (length stream)) = Ret (0, Some (int (width s), int (height s)))"
proof -
  let ?e = "length stream - 1" and ?b = "length pre + 3"
  have "rbsp \<noteq> []" using assms(7) by (cases rbsp) (simp_all add: has_bits_def hsps_bits_def)
  then have l: "length stream = length pre + 6 + length (escape 0 rbsp)" "0 < length (escape 0 rbsp)"
    using assms(1) escape_nonempty by simp_all
  have c: "code_at3 stream (length pre)" "stream ! ?b = b0" using assms(1) by (simp_all add: code_at3_def nth_append)
  have q: "avpriv_find_start_code stream 0 ?e 0xFFFFFFFF = Ret (length pre + 4)"
    using find_start_code_first [of ?e stream 0] first_code_at [OF assms(2) c(1)] l by simp
  have f: "find_sps stream 0 ?e = Ret (Some ?b)"
    using q c(2) l assms(3) by (simp add: find_sps.simps [of stream 0] add.commute numeral_eq_Suc)
  have "take (min 256 (?e - ?b)) (drop ?b stream) = b0 # b1 # escape 0 rbsp" using assms(1,4) l by simp
  then have out: "unescape (drop 2 (take (min 256 (?e - ?b)) (drop ?b stream))) = rbsp" using unescape_escape [of 0 rbsp] by simp
  have r: "length rbsp \<le> 254" using length_unescape [of "escape 0 rbsp"] unescape_escape [of 0 rbsp] assms(4) by simp
  have "unat (of_nat (length rbsp) * 8 :: u32) = length rbsp * 8" using unat_mult_lem [of "of_nat (length rbsp) :: u32" 8] r by simp
  then have "sps_d rbsp (of_nat (length rbsp)) 0 = Ret (1, Some (int (width s), int (height s)))"
    by (intro sps_d_size assms) (use r in simp_all)
  then have "sps_d (st dBuffer 0 rbsp) (of_nat (length rbsp)) 0 = Ret (1, Some (int (width s), int (height s)))"
    using sps_d_longer [of rbsp] by (simp add: st_def)
  moreover have "nat (int (length stream) - 1) = ?e" by simp
  ultimately show ?thesis using f out r assms(5) by (simp add: H265GetWidthHeight_def Let_def)
qed

definition demo_hsps :: hsps where
  "demo_hsps = \<lparr>vps = 0, nest = True, general = replicate 96 False, layers = [], padding = [], sub_data = [], hsps_id = 0, width = 1920, height = 1080\<rparr>"

definition demo_rbsp :: "byte list" where
  "demo_rbsp = [1, 0, 0, 0, 0, 0, 0, 0, 0, 0, 0, 0, 0, 160, 3, 192, 128, 16, 228]"

theorem H265GetWidthHeight_roundtrip_witness:
  "H265GetWidthHeight (replicate 256 0xCC) ([0] @ [0, 0, 1, 0x42, 1] @ escape 0 demo_rbsp @ [0x80]) 31 = Ret (0, Some (1920, 1080))"
proof -
  let ?s = "[0] @ [0, 0, 1, 0x42, 1] @ escape 0 demo_rbsp @ [0x80] :: byte list"
  have l: "length (escape 0 demo_rbsp) = 24" by code_simp
  then have n: "int (length ?s) = 31" by simp
  have h: "list_all (\<lambda>k. \<not> code_at3 ?s k) [0..<length [0 :: byte]]" "drop_bit 1 (0x42 :: byte) AND 0x3f = 33" "has_bits demo_rbsp 0 (hsps_bits demo_hsps)"
    by code_simp+
  have ok: "hsps_ok demo_hsps" by (simp add: hsps_ok_def demo_hsps_def sub_len_def)
  have "H265GetWidthHeight (replicate 256 0xCC) ?s (int (length ?s)) = Ret (0, Some (int (width demo_hsps), int (height demo_hsps)))"
    by (rule H265GetWidthHeight_roundtrip [OF refl h(1,2) _ _ ok h(3)]) (simp_all add: l)
  then show ?thesis by (simp only: n) (simp add: demo_hsps_def)
qed

end
