(* ===== verification/PtrList.thy ===== *)
theory PtrList
  imports Prelude
begin

text \<open>
  \<^verbatim>\<open>gles/Utils/list.h\<close>: the singly linked list \<open>List<T>\<close>. An \<open>Item\<close> lives at an address of the heap,
  0 is the null pointer, \<open>new\<close> takes an address that was never used, \<open>delete\<close> removes
  the item. Following a null pointer is \<open>UB NullDeref\<close>, an address without an item is
  \<open>UB UseAfterFree\<close>. A loop that follows \<open>next\<close> until it is null need not end, so these
  loops are partial functions: \<open>None\<close> means that the loop runs forever.
\<close>

record 'a Item =
  data :: 'a
  next_item :: nat

record 'a heap =
  items :: "nat \<Rightarrow> 'a Item option"
  fresh :: nat

definition deref :: "'a heap \<Rightarrow> nat \<Rightarrow> 'a Item outcome" where
  "deref h p = (if p = 0 then UB NullDeref else case items h p of None \<Rightarrow> UB UseAfterFree | Some i \<Rightarrow> Ret i)"

definition new_Item :: "'a \<Rightarrow> nat \<Rightarrow> 'a heap \<Rightarrow> nat \<times> 'a heap" where
  "new_Item v nxt h = (fresh h, h\<lparr>items := (items h)(fresh h \<mapsto> \<lparr>data = v, next_item = nxt\<rparr>), fresh := fresh h + 1\<rparr>)"

definition set_next :: "nat \<Rightarrow> nat \<Rightarrow> 'a heap \<Rightarrow> 'a heap outcome" where
  "set_next p q h = bnd (deref h p) (\<lambda>i. Ret (h\<lparr>items := (items h)(p \<mapsto> i\<lparr>next_item := q\<rparr>)\<rparr>))"

definition delete_Item :: "nat \<Rightarrow> 'a heap \<Rightarrow> 'a heap" where
  "delete_Item p h = h\<lparr>items := (items h)(p := None)\<rparr>"

section \<open>Operations\<close>

text \<open>The header of an empty list; the other operations take and return the header where they change it.\<close>

definition List_new :: nat where
  "List_new = 0"

partial_function (option) List_delete :: "nat \<Rightarrow> 'a heap \<Rightarrow> 'a heap outcome option" where
  "List_delete i h =
     (if i = 0 then Some (Ret h)
      else case deref h i of Ret it \<Rightarrow> List_delete (next_item it) (delete_Item i h) | UB e \<Rightarrow> Some (UB e) | Blocked \<Rightarrow> Some Blocked)"

definition List_isEmpty :: "nat \<Rightarrow> bool" where
  "List_isEmpty header \<longleftrightarrow> header = 0"

partial_function (option) length_from :: "nat \<Rightarrow> int \<Rightarrow> 'a heap \<Rightarrow> int outcome option" where
  "length_from i len h =
     (if i = 0 then Some (Ret len)
      else case s32 (len + 1) of
        Ret len \<Rightarrow> (case deref h i of Ret it \<Rightarrow> length_from (next_item it) len h | UB e \<Rightarrow> Some (UB e) | Blocked \<Rightarrow> Some Blocked)
      | UB e \<Rightarrow> Some (UB e) | Blocked \<Rightarrow> Some Blocked)"

definition List_length :: "nat \<Rightarrow> 'a heap \<Rightarrow> int outcome option" where
  "List_length header h = length_from header 0 h"

text \<open>\<open>for (i = 0; it && i < k; i++)\<close>: where \<open>it\<close> ends and how many steps are left.\<close>

fun at_walk :: "nat \<Rightarrow> nat \<Rightarrow> 'a heap \<Rightarrow> (nat \<times> nat) outcome" where
  "at_walk 0 it h = Ret (it, 0)"
| "at_walk (Suc k) it h = (if it = 0 then Ret (it, Suc k) else bnd (deref h it) (\<lambda>i. at_walk k (next_item i) h))"

text \<open>\<open>None\<close> is the reference to a new \<open>T\<close> that nobody owns.\<close>

definition List_at :: "nat \<Rightarrow> int \<Rightarrow> 'a heap \<Rightarrow> 'a option outcome" where
  "List_at header k h =
     (if k < 0 \<or> header = 0 then Ret None
      else bnd (at_walk (nat k) header h) (\<lambda>(it, left).
        if left \<noteq> 0 then Ret None else bnd (deref h it) (\<lambda>i. Ret (Some (data i)))))"

partial_function (option) search_from :: "nat \<Rightarrow> int \<Rightarrow> 'a \<Rightarrow> 'a heap \<Rightarrow> int outcome option" where
  "search_from i k v h =
     (if i = 0 then Some (Ret (-1))
      else case deref h i of
        UB e \<Rightarrow> Some (UB e) | Blocked \<Rightarrow> Some Blocked
      | Ret it \<Rightarrow>
          if data it = v then Some (Ret k)
          else case s32 (k + 1) of Ret k \<Rightarrow> search_from (next_item it) k v h | UB e \<Rightarrow> Some (UB e) | Blocked \<Rightarrow> Some Blocked)"

definition List_search :: "nat \<Rightarrow> 'a \<Rightarrow> 'a heap \<Rightarrow> int outcome option" where
  "List_search header v h = search_from header 0 v h"

text \<open>\<open>None\<close> when the loop returns from the function.\<close>

fun remove_walk :: "nat \<Rightarrow> nat \<Rightarrow> nat \<Rightarrow> 'a heap \<Rightarrow> (nat \<times> nat) option outcome" where
  "remove_walk 0 prev it h = Ret (Some (prev, it))"
| "remove_walk (Suc k) prev it h = (if it = 0 then Ret None else bnd (deref h it) (\<lambda>i. remove_walk k it (next_item i) h))"

definition List_remove :: "nat \<Rightarrow> int \<Rightarrow> 'a heap \<Rightarrow> (nat \<times> 'a heap) outcome" where
  "List_remove header k h =
     (if k < 0 then Ret (header, h)
      else bnd (remove_walk (nat k) 0 header h) (\<lambda>r.
        case r of
          None \<Rightarrow> Ret (header, h)
        | Some (prev, it) \<Rightarrow>
            bnd (deref h it) (\<lambda>i.
            if prev \<noteq> 0 then bnd (set_next prev (next_item i) h) (\<lambda>h. Ret (header, delete_Item it h))
            else Ret (next_item i, delete_Item it h))))"

text \<open>The item after which the new one goes; \<open>k\<close> is \<open>None\<close> when \<open>flag\<close> is set.\<close>

partial_function (option) insert_walk :: "nat option \<Rightarrow> nat \<Rightarrow> 'a heap \<Rightarrow> nat outcome option" where
  "insert_walk k it h =
     (case deref h it of
        UB e \<Rightarrow> Some (UB e) | Blocked \<Rightarrow> Some Blocked
      | Ret i \<Rightarrow>
          if next_item i \<noteq> 0 \<and> k \<noteq> Some 0 then insert_walk (map_option (\<lambda>n. n - 1) k) (next_item i) h
          else Some (Ret it))"

definition List_insert :: "nat \<Rightarrow> int \<Rightarrow> 'a \<Rightarrow> 'a heap \<Rightarrow> (nat \<times> 'a heap) outcome option" where
  "List_insert header k v h =
     (let (t, h) = new_Item v 0 h in
      if header = 0 then Some (Ret (t, h))
      else map_option (\<lambda>r. bnd r (\<lambda>it.
        bnd (deref h it) (\<lambda>i. bnd (set_next t (next_item i) h) (\<lambda>h. bnd (set_next it t h) (\<lambda>h. Ret (header, h))))))
        (insert_walk (if k < 0 then None else Some (nat k)) header h))"

partial_function (option) List_output :: "nat \<Rightarrow> 'a heap \<Rightarrow> unit outcome option" where
  "List_output i h =
     (if i = 0 then Some (Ret ())
      else case deref h i of Ret it \<Rightarrow> List_output (next_item it) h | UB e \<Rightarrow> Some (UB e) | Blocked \<Rightarrow> Some Blocked)"

section \<open>Lists in the heap\<close>

text \<open>
  \<open>seg h p ps xs q\<close>: the items at the distinct addresses \<open>ps\<close> hold \<open>xs\<close> and lead from \<open>p\<close> to \<open>q\<close>.
\<close>

fun seg :: "'a heap \<Rightarrow> nat \<Rightarrow> nat list \<Rightarrow> 'a list \<Rightarrow> nat \<Rightarrow> bool" where
  "seg h p [] [] q \<longleftrightarrow> p = q"
| "seg h p (a # ps) (x # xs) q \<longleftrightarrow> p = a \<and> a \<noteq> 0 \<and> (\<exists>n. items h a = Some \<lparr>data = x, next_item = n\<rparr> \<and> seg h n ps xs q)"
| "seg h p _ _ q \<longleftrightarrow> False"

definition is_list :: "'a heap \<Rightarrow> nat \<Rightarrow> 'a list \<Rightarrow> bool" where
  "is_list h header xs \<longleftrightarrow> 0 < fresh h \<and> (\<forall>a \<ge> fresh h. items h a = None) \<and> (\<exists>ps. distinct ps \<and> seg h header ps xs 0)"

lemma seg_length: "seg h p ps xs q \<Longrightarrow> length ps = length xs"
  by (induction h p ps xs q rule: seg.induct) auto

lemma seg_append:
  "seg h p (ps @ qs) xs r \<longleftrightarrow> (\<exists>q. seg h p ps (take (length ps) xs) q \<and> seg h q qs (drop (length ps) xs) r \<and> length ps \<le> length xs)"
proof (induction ps arbitrary: p xs)
  case (Cons a ps)
  show ?case by (cases xs) (auto simp: Cons.IH)
qed auto

lemma seg_cong: "seg h p ps xs q \<Longrightarrow> (\<And>a. a \<in> set ps \<Longrightarrow> items h' a = items h a) \<Longrightarrow> seg h' p ps xs q"
  by (induction h p ps xs q rule: seg.induct) auto

lemma seg_items: "seg h p ps xs q \<Longrightarrow> a \<in> set ps \<Longrightarrow> a \<noteq> 0 \<and> items h a \<noteq> None"
  by (induction h p ps xs q rule: seg.induct) auto

lemma deref_seg [simp]: "items h a = Some i \<Longrightarrow> a \<noteq> 0 \<Longrightarrow> deref h a = Ret i"
  by (simp add: deref_def)

lemma seg_null: "seg h 0 ps xs q \<Longrightarrow> xs \<noteq> [] \<Longrightarrow> False"
  by (cases ps; cases xs) auto

lemma seg_nonnull: "seg h p ps xs 0 \<Longrightarrow> p \<noteq> 0 \<Longrightarrow> \<exists>x ys ps' i. xs = x # ys \<and> ps = p # ps' \<and> items h p = Some i \<and> data i = x \<and> seg h (next_item i) ps' ys 0"
  by (cases ps; cases xs) auto

lemma seg_Nil_iff: "seg h p ps [] q \<longleftrightarrow> ps = [] \<and> p = q"
  by (cases ps) auto

lemma seg_Cons_iff:
  "seg h p ps (x # xs) q \<longleftrightarrow> (\<exists>ps' n. ps = p # ps' \<and> p \<noteq> 0 \<and> items h p = Some \<lparr>data = x, next_item = n\<rparr> \<and> seg h n ps' xs q)"
  by (cases ps) auto

section \<open>What the operations do to a list\<close>

lemma length_from_seg: "seg h p ps xs 0 \<Longrightarrow> 0 \<le> n \<Longrightarrow> n + int (length xs) \<le> 2147483647 \<Longrightarrow> length_from p n h = Some (Ret (n + int (length xs)))"
proof (induction xs arbitrary: p ps n)
  case (Cons x xs)
  then show ?case by (auto simp: seg_Cons_iff length_from.simps [of p])
qed (simp add: seg_Nil_iff length_from.simps)

lemma search_from_seg:
  "seg h p ps xs 0 \<Longrightarrow> 0 \<le> n \<Longrightarrow> n + int (length xs) \<le> 2147483647 \<Longrightarrow>
   search_from p n v h = Some (Ret (if v \<in> set xs then n + int (length (takeWhile (\<lambda>x. x \<noteq> v) xs)) else -1))"
proof (induction xs arbitrary: p ps n)
  case (Cons x xs)
  then show ?case by (auto simp: seg_Cons_iff search_from.simps [of p])
qed (simp add: seg_Nil_iff search_from.simps)

lemma at_walk_seg: "seg h p ps xs 0 \<Longrightarrow> at_walk k p h = (if k \<le> length xs then Ret ((ps @ [0]) ! k, 0) else Ret (0, k - length xs))"
proof (induction k arbitrary: p ps xs)
  case 0
  then show ?case by (cases xs) (auto simp: seg_Nil_iff seg_Cons_iff)
next
  case (Suc k)
  then show ?case by (cases xs) (auto simp: seg_Nil_iff seg_Cons_iff)
qed

text \<open>The item at position \<open>k\<close> and the list before and after it.\<close>

lemma seg_split:
  assumes "seg h p ps xs 0" "k < length xs"
  obtains i where "seg h p (take k ps) (take k xs) (ps ! k)" "ps ! k \<noteq> 0" "items h (ps ! k) = Some i" "data i = xs ! k"
    "seg h (next_item i) (drop (Suc k) ps) (drop (Suc k) xs) 0" "k < length ps"
proof -
  have l: "length ps = length xs" using assms(1) by (rule seg_length)
  have "ps = take k ps @ ps ! k # drop (Suc k) ps" using l assms(2) by (simp add: id_take_nth_drop)
  then have "seg h p (take k ps @ ps ! k # drop (Suc k) ps) xs 0" using assms(1) by simp
  moreover have "drop k xs = xs ! k # drop (Suc k) xs" using assms(2) by (simp add: Cons_nth_drop_Suc)
  ultimately show thesis using that assms(2) l by (auto simp: seg_append min_def)
qed

lemma List_at_list:
  assumes "is_list h header xs" "0 \<le> k"
  shows "List_at header k h =
    (if nat k < length xs then Ret (Some (xs ! nat k)) else if nat k = length xs \<and> xs \<noteq> [] then UB NullDeref else Ret None)"
proof -
  obtain ps where s: "seg h header ps xs 0" using assms(1) by (auto simp: is_list_def)
  note l = seg_length [OF s]
  show ?thesis
  proof (cases "nat k < length xs")
    case True
    obtain i where i: "ps ! nat k \<noteq> 0" "items h (ps ! nat k) = Some i" "data i = xs ! nat k" using seg_split [OF s True] by blast
    moreover have "header \<noteq> 0" using s True by (cases "header = 0") (auto dest: seg_null)
    ultimately show ?thesis using assms(2) True l at_walk_seg [OF s, of "nat k"] by (simp add: List_at_def nth_append)
  next
    case False
    then show ?thesis using assms(2) s l at_walk_seg [OF s, of "nat k"]
      by (cases xs) (auto simp: List_at_def nth_append deref_def seg_Nil_iff seg_Cons_iff)
  qed
qed

lemma remove_walk_seg:
  "seg h p ps xs 0 \<Longrightarrow> remove_walk k prev p h = (if k \<le> length xs then Ret (Some ((prev # ps) ! k, (ps @ [0]) ! k)) else Ret None)"
proof (induction k arbitrary: prev p ps xs)
  case 0
  then show ?case by (cases xs) (auto simp: seg_Nil_iff seg_Cons_iff)
next
  case (Suc k)
  then show ?case by (cases xs) (auto simp: seg_Nil_iff seg_Cons_iff)
qed

text \<open>Two segments joined by the item at \<open>a\<close> in a heap that differs from the old one outside them.\<close>

lemma seg_join:
  assumes "seg h p as xs a" "seg h q bs ys 0" "a \<noteq> 0" "items h' a = Some i" "next_item i = q"
    and "\<And>b. b \<in> set as \<union> set bs \<Longrightarrow> items h' b = items h b"
  shows "seg h' p (as @ a # bs) (xs @ data i # ys) 0"
proof -
  have "seg h' p as xs a" "seg h' q bs ys 0" by (rule seg_cong [OF assms(1)] seg_cong [OF assms(2)]; use assms(6) in simp)+
  moreover have "length as = length xs" using assms(1) by (rule seg_length)
  moreover have "i = \<lparr>data = data i, next_item = q\<rparr>" using assms(5) by simp
  ultimately show ?thesis using assms(3,4) by (auto simp: seg_append)
qed

lemma is_listI:
  "seg h header ps xs 0 \<Longrightarrow> distinct ps \<Longrightarrow> (\<And>a. fresh h \<le> a \<Longrightarrow> items h a = None) \<Longrightarrow> 0 < fresh h \<Longrightarrow> is_list h header xs"
  by (auto simp: is_list_def)

lemma List_remove_list:
  assumes "is_list h header xs" "nat k < length xs" "0 \<le> k"
  shows "\<exists>header' h'. List_remove header k h = Ret (header', h') \<and> is_list h' header' (take (nat k) xs @ drop (Suc (nat k)) xs)"
proof -
  obtain ps where s: "seg h header ps xs 0" and d: "distinct ps" using assms(1) by (auto simp: is_list_def)
  have fr: "0 < fresh h" "\<And>a. fresh h \<le> a \<Longrightarrow> items h a = None" using assms(1) by (auto simp: is_list_def)
  note l = seg_length [OF s] and w = remove_walk_seg [OF s, of "nat k" 0]
  obtain i where i: "ps ! nat k \<noteq> 0" "items h (ps ! nat k) = Some i" "seg h (next_item i) (drop (Suc (nat k)) ps) (drop (Suc (nat k)) xs) 0"
    "seg h header (take (nat k) ps) (take (nat k) xs) (ps ! nat k)"
    using seg_split [OF s assms(2)] by blast
  have notin: "ps ! nat k \<notin> set (drop (Suc (nat k)) ps)" "ps ! nat k \<notin> set (take (nat k) ps)"
    using d l assms(2) by (auto simp: in_set_conv_nth nth_eq_iff_index_eq)
  show ?thesis
  proof (cases "nat k")
    case 0
    let ?h = "delete_Item (ps ! 0) h"
    have "seg ?h (next_item i) (drop 1 ps) (drop 1 xs) 0"
      by (rule seg_cong) (use i(3) notin 0 in \<open>auto simp: delete_Item_def\<close>)
    then have "is_list ?h (next_item i) (drop 1 xs)" by (rule is_listI) (use d fr in \<open>simp_all add: delete_Item_def\<close>)
    then show ?thesis using w i 0 assms l by (auto simp: List_remove_def nth_append)
  next
    case (Suc j)
    let ?a = "ps ! j" and ?b = "ps ! nat k"
    obtain pi where pi: "seg h header (take j ps) (take j xs) ?a" "?a \<noteq> 0" "items h ?a = Some pi" "data pi = xs ! j"
      using seg_split [OF s, of j] Suc assms(2) by (metis Suc_lessD)
    define h' where "h' = delete_Item ?b (h\<lparr>items := (items h)(?a \<mapsto> pi\<lparr>next_item := next_item i\<rparr>)\<rparr>)"
    have ab: "?a \<noteq> ?b" "?a \<notin> set (take j ps)" "?a \<notin> set (drop (Suc (nat k)) ps)" "?b \<notin> set (take j ps)"
      using d l assms(2) Suc by (auto simp: in_set_conv_nth nth_eq_iff_index_eq)
    have it: "items h' ?a = Some (pi\<lparr>next_item := next_item i\<rparr>)" "fresh h' = fresh h" using ab(1) by (simp_all add: h'_def delete_Item_def)
    have "seg h' header (take j ps @ ?a # drop (Suc (nat k)) ps) (take j xs @ data (pi\<lparr>next_item := next_item i\<rparr>) # drop (Suc (nat k)) xs) 0"
      by (rule seg_join [OF pi(1) i(3) pi(2) it(1)]) (use ab notin in \<open>auto simp: h'_def delete_Item_def\<close>)
    moreover have "take j xs @ [xs ! j] = take (nat k) xs" using Suc assms(2) by (simp add: take_Suc_conv_app_nth)
    ultimately have "seg h' header (take j ps @ ?a # drop (Suc (nat k)) ps) (take (nat k) xs @ drop (Suc (nat k)) xs) 0"
      using pi(4) by (metis append.assoc append_Cons append_Nil Item.select_convs(1) Item.surjective Item.update_convs(2))
    moreover have "distinct (take j ps @ ?a # drop (Suc (nat k)) ps)" using d ab Suc set_take_disj_set_drop_if_distinct [of ps j "Suc (nat k)"] by auto
    moreover have "items h' b = None" if "fresh h' \<le> b" for b using fr(2) [of b] that it(2) pi(3) by (auto simp: h'_def delete_Item_def)
    ultimately have "is_list h' header (take (nat k) xs @ drop (Suc (nat k)) xs)" by (rule is_listI) (simp_all add: fr it(2))
    moreover have "List_remove header k h = Ret (header, h')"
      using w i(1,2) pi(2,3) assms l Suc by (simp add: List_remove_def nth_append set_next_def h'_def)
    ultimately show ?thesis by blast
  qed
qed

text \<open>The walk of \<open>insert\<close> stops at item \<open>min k (length - 1)\<close>, or at the last one.\<close>

lemma insert_walk_seg:
  "seg h p ps xs 0 \<Longrightarrow> xs \<noteq> [] \<Longrightarrow>
   insert_walk k p h = Some (Ret (ps ! (case k of None \<Rightarrow> length xs - 1 | Some n \<Rightarrow> min n (length xs - 1))))"
proof (induction xs arbitrary: p ps k)
  case (Cons x xs)
  obtain ps' n where p: "ps = p # ps'" "p \<noteq> 0" "items h p = Some \<lparr>data = x, next_item = n\<rparr>" "seg h n ps' xs 0"
    using Cons.prems(1) by (auto simp: seg_Cons_iff)
  show ?case
  proof (cases "n \<noteq> 0 \<and> k \<noteq> Some 0")
    case True
    then have ne: "xs \<noteq> []" using p(4) by (auto simp: seg_Nil_iff)
    have "insert_walk k p h = insert_walk (map_option (\<lambda>n. n - 1) k) n h" using p True by (simp add: insert_walk.simps [of k p])
    also have "\<dots> = Some (Ret (ps' ! (case map_option (\<lambda>n. n - 1) k of None \<Rightarrow> length xs - 1 | Some n \<Rightarrow> min n (length xs - 1))))"
      by (rule Cons.IH [OF p(4) ne])
    also have "\<dots> = Some (Ret (ps ! (case k of None \<Rightarrow> length (x # xs) - 1 | Some n \<Rightarrow> min n (length (x # xs) - 1))))"
      using True ne p(1) by (cases k; cases xs) (auto simp: min_def nth_Cons split: nat.splits)
    finally show ?thesis .
  next
    case False
    then have "xs = [] \<or> k = Some 0" using p(4) by (auto dest: seg_null)
    then show ?thesis using p False by (auto simp: insert_walk.simps [of k p] split: option.splits)
  qed
qed simp

text \<open>What an operation leaves alone: the items outside of the list at \<open>ps\<close> but the new one, and the data of the items of the list.\<close>

definition rest_kept :: "nat list \<Rightarrow> 'a heap \<Rightarrow> 'a heap \<Rightarrow> bool" where
  "rest_kept ps h h' \<longleftrightarrow> (\<forall>a. a \<noteq> fresh h \<longrightarrow> a \<notin> set ps \<longrightarrow> items h' a = items h a) \<and> (\<forall>a\<in>set ps. map_option data (items h' a) = map_option data (items h a))"

lemma List_insert_list:
  assumes "is_list h header xs"
  shows "\<exists>header' h' ps. List_insert header k v h = Some (Ret (header', h')) \<and> is_list h' header'
    (let n = (if k < 0 \<or> length xs \<le> nat k then length xs else Suc (nat k)) in take n xs @ v # drop n xs) \<and> seg h header ps xs 0 \<and> rest_kept ps h h'"
proof -
  obtain ps where s: "seg h header ps xs 0" and d: "distinct ps" using assms by (auto simp: is_list_def)
  have fr: "0 < fresh h" "\<And>a. fresh h \<le> a \<Longrightarrow> items h a = None" using assms by (auto simp: is_list_def)
  let ?t = "fresh h"
  have new: "new_Item v n h = (?t, h\<lparr>items := (items h)(?t \<mapsto> \<lparr>data = v, next_item = n\<rparr>), fresh := ?t + 1\<rparr>)" for n by (simp add: new_Item_def)
  show ?thesis
  proof (cases "xs = []")
    case True
    then have "header = 0" using s by (simp add: seg_Nil_iff)
    moreover have "is_list (snd (new_Item v 0 h)) ?t [v]"
      by (rule is_listI [of _ _ "[?t]"]) (use fr in \<open>auto simp: new\<close>)
    ultimately show ?thesis using True by (simp add: List_insert_def new Let_def seg_Nil_iff rest_kept_def)
  next
    case False
    let ?h1 = "snd (new_Item v 0 h)"
    define j where "j = (if k < 0 then length xs - 1 else min (nat k) (length xs - 1))"
    have j: "j < length xs" using False by (cases xs) (auto simp: j_def)
    note l = seg_length [OF s]
    have tn: "?t \<notin> set ps" using seg_items [OF s] fr(2) by blast
    obtain i where i: "seg h header (take j ps) (take j xs) (ps ! j)" "ps ! j \<noteq> 0" "items h (ps ! j) = Some i" "data i = xs ! j"
      "seg h (next_item i) (drop (Suc j) ps) (drop (Suc j) xs) 0"
      using seg_split [OF s j] by blast
    have s1: "seg ?h1 header ps xs 0" by (rule seg_cong [OF s]) (use tn in \<open>auto simp: new\<close>)
    have tj: "ps ! j \<noteq> ?t" using tn j l by (auto simp: in_set_conv_nth)
    have w: "insert_walk (if k < 0 then None else Some (nat k)) header ?h1 = Some (Ret (ps ! j))"
      using insert_walk_seg [OF s1 False, of "if k < 0 then None else Some (nat k)"] by (simp add: j_def split: if_splits)
    define h2 where "h2 = h\<lparr>items := (items h)(?t \<mapsto> \<lparr>data = v, next_item = next_item i\<rparr>), fresh := ?t + 1\<rparr>"
    define h' where "h' = h2\<lparr>items := (items h2)(ps ! j \<mapsto> i\<lparr>next_item := ?t\<rparr>)\<rparr>"
    have "header \<noteq> 0" using s False by (cases "header = 0") (auto dest: seg_null)
    then have r: "List_insert header k v h = Some (Ret (header, h'))"
      using w i(2,3) tj fr(1) by (simp add: List_insert_def new Let_def set_next_def h'_def h2_def fun_upd_twist)
    have dj: "ps ! j \<notin> set (take j ps)" "ps ! j \<notin> set (drop (Suc j) ps)"
      using d l j by (auto simp: in_set_conv_nth nth_eq_iff_index_eq)
    have td: "?t \<notin> set (take j ps)" "?t \<notin> set (drop (Suc j) ps)" using tn by (auto dest: in_set_takeD in_set_dropD)
    have a: "seg h2 ?t (?t # drop (Suc j) ps) (v # drop (Suc j) xs) 0"
    proof -
      have "seg h2 (next_item i) (drop (Suc j) ps) (drop (Suc j) xs) 0" by (rule seg_cong [OF i(5)]) (use td in \<open>auto simp: h2_def\<close>)
      then show ?thesis using fr(1) by (simp add: h2_def)
    qed
    have b: "seg h2 header (take j ps) (take j xs) (ps ! j)" by (rule seg_cong [OF i(1)]) (use td in \<open>auto simp: h2_def\<close>)
    have "seg h' header (take j ps @ ps ! j # ?t # drop (Suc j) ps) (take j xs @ data (i\<lparr>next_item := ?t\<rparr>) # v # drop (Suc j) xs) 0"
      by (rule seg_join [OF b a i(2)]) (use dj tj in \<open>auto simp: h'_def\<close>)
    moreover have "take j xs @ data (i\<lparr>next_item := ?t\<rparr>) # v # drop (Suc j) xs = take (Suc j) xs @ v # drop (Suc j) xs"
      using i(4) j by (simp add: take_Suc_conv_app_nth)
    ultimately have sg: "seg h' header (take j ps @ ps ! j # ?t # drop (Suc j) ps) (take (Suc j) xs @ v # drop (Suc j) xs) 0" by (simp only:)
    have "distinct (take j ps @ ps ! j # ?t # drop (Suc j) ps)"
      using d dj td tj set_take_disj_set_drop_if_distinct [of ps j "Suc j"] by auto
    then have "is_list h' header (take (Suc j) xs @ v # drop (Suc j) xs)"
      by (rule is_listI [OF sg]) (use fr i(3) in \<open>auto simp: h'_def h2_def\<close>)
    moreover have "Suc j = (if k < 0 \<or> length xs \<le> nat k then length xs else Suc (nat k))" using False by (cases xs) (auto simp: j_def min_def)
    moreover have "rest_kept ps h h'" using i(3) tn j l by (auto simp: rest_kept_def h'_def h2_def)
    ultimately show ?thesis using r s by (auto simp: Let_def)
  qed
qed

lemma List_delete_seg:
  "seg h p ps xs 0 \<Longrightarrow> distinct ps \<Longrightarrow> \<exists>h'. List_delete p h = Some (Ret h') \<and> (\<forall>a. items h' a = (if a \<in> set ps then None else items h a))"
proof (induction xs arbitrary: p ps h)
  case Nil
  then show ?case by (auto simp: seg_Nil_iff List_delete.simps)
next
  case (Cons x xs)
  then obtain ps' n where p: "ps = p # ps'" "p \<noteq> 0" "items h p = Some \<lparr>data = x, next_item = n\<rparr>" "seg h n ps' xs 0"
    by (auto simp: seg_Cons_iff)
  have "seg (delete_Item p h) n ps' xs 0" by (rule seg_cong [OF p(4)]) (use p(1) Cons.prems(2) in \<open>auto simp: delete_Item_def\<close>)
  then obtain h' where "List_delete n (delete_Item p h) = Some (Ret h')"
    "\<forall>a. items h' a = (if a \<in> set ps' then None else items (delete_Item p h) a)"
    using Cons.IH Cons.prems(2) p(1) by (metis distinct.simps(2))
  then show ?case using p by (auto simp: List_delete.simps [of p] delete_Item_def)
qed


section \<open>Properties\<close>

text \<open>
  C34: \<open>insert(k, v)\<close> always ends and gives the list with \<open>v\<close> after position \<open>k\<close>, or at the end when \<open>k\<close> is
  negative or past the last position; only an empty list gets \<open>v\<close> at the front. All items outside of the list are as they were, but for the new one,
  and the items of the list keep their data.
\<close>

theorem List_insert_refines:
  assumes "is_list h header xs"
  shows "\<exists>header' h' ps. List_insert header k v h = Some (Ret (header', h')) \<and> is_list h' header'
    (let n = (if k < 0 \<or> length xs \<le> nat k then length xs else Suc (nat k)) in take n xs @ v # drop n xs) \<and> seg h header ps xs 0 \<and> rest_kept ps h h'"
  by (rule List_insert_list [OF assms])

text \<open>
  \<open>remove(k)\<close> on a list: a negative \<open>k\<close> and a \<open>k\<close> past the length change nothing, a position
  of the list is taken out, and \<open>k\<close> equal to the length follows a null pointer.
\<close>

theorem List_remove_refines:
  assumes "is_list h header xs"
  shows "if k < 0 \<or> length xs < nat k then List_remove header k h = Ret (header, h)
    else if nat k = length xs then List_remove header k h = UB NullDeref
    else \<exists>header' h'. List_remove header k h = Ret (header', h') \<and> is_list h' header' (take (nat k) xs @ drop (Suc (nat k)) xs)"
proof -
  obtain ps where s: "seg h header ps xs 0" using assms by (auto simp: is_list_def)
  show ?thesis using List_remove_list [OF assms, of k] remove_walk_seg [OF s, of "nat k" 0] seg_length [OF s]
    by (auto simp: List_remove_def deref_def nth_append not_less)
qed

definition demo_heap :: "int heap" where
  "demo_heap = \<lparr>items = (\<lambda>a. None)(1 \<mapsto> \<lparr>data = 5, next_item = 2\<rparr>, 2 \<mapsto> \<lparr>data = 6, next_item = 0\<rparr>), fresh = 3\<rparr>"

lemma demo_heap_list: "is_list demo_heap 1 [5, 6]"
  by (rule is_listI [of _ _ "[1, 2]"]) (auto simp: demo_heap_def)

definition two_lists :: "int heap" where
  "two_lists = demo_heap\<lparr>items := (items demo_heap)(3 \<mapsto> \<lparr>data = 9, next_item = 0\<rparr>), fresh := 4\<rparr>"

theorem List_insert_refines_witness:
  "\<exists>header' h'. List_insert 1 0 7 two_lists = Some (Ret (header', h')) \<and> is_list h' header' [5, 7, 6] \<and> items h' 3 = Some \<lparr>data = 9, next_item = 0\<rparr>"
proof -
  have s: "seg two_lists 1 [1, 2] [5, 6] 0" by (simp add: two_lists_def demo_heap_def)
  then have "is_list two_lists 1 [5, 6]" by (rule is_listI) (auto simp: two_lists_def demo_heap_def)
  from List_insert_refines [OF this, of 0 7] obtain header' h' ps where
    r: "List_insert 1 0 7 two_lists = Some (Ret (header', h'))" "is_list h' header' [5, 7, 6]" "seg two_lists 1 ps [5, 6] 0" "rest_kept ps two_lists h'"
    by auto
  have "ps = [1, 2]" using r(3) by (auto simp: seg_Cons_iff seg_Nil_iff two_lists_def demo_heap_def)
  then show ?thesis using r by (auto simp: rest_kept_def two_lists_def demo_heap_def)
qed

theorem List_remove_refines_witness:
  "(\<exists>header' h'. List_remove 1 0 demo_heap = Ret (header', h') \<and> is_list h' header' [6]) \<and> List_remove 1 2 demo_heap = UB NullDeref"
  using List_remove_refines [OF demo_heap_list, of 0] List_remove_refines [OF demo_heap_list, of 2] by simp

text \<open>
  \<open>at(k)\<close>: the element at a position of the list, a new \<open>T\<close> for a negative position or one past
  the length, and a null pointer followed at the length of a list that is not empty.
\<close>

theorem List_at_refines:
  assumes "is_list h header xs"
  shows "List_at header k h =
    (if k < 0 then Ret None else if nat k < length xs then Ret (Some (xs ! nat k))
     else if nat k = length xs \<and> xs \<noteq> [] then UB NullDeref else Ret None)"
proof (cases "k < 0")
  case True
  then show ?thesis by (simp add: List_at_def)
next
  case False
  then show ?thesis using List_at_list [OF assms, of k] by simp
qed

theorem List_at_refines_witness: "List_at 1 1 demo_heap = Ret (Some 6) \<and> List_at 1 2 demo_heap = UB NullDeref"
  using List_at_refines [OF demo_heap_list, of 1] List_at_refines [OF demo_heap_list, of 2] by simp

text \<open>
  On a list, \<open>length\<close>, \<open>search\<close> and the destructor end; they give the number of elements, the first position of
  the value or -1, and a heap without the items of the list and with all others.
\<close>

theorem List_traversals_end:
  assumes "is_list h header xs" "length xs \<le> 2147483647"
  shows "List_length header h = Some (Ret (int (length xs))) \<and>
    List_search header v h = Some (Ret (if v \<in> set xs then int (length (takeWhile (\<lambda>x. x \<noteq> v) xs)) else -1)) \<and>
    (\<exists>h' ps. seg h header ps xs 0 \<and> List_delete header h = Some (Ret h') \<and> (\<forall>a. items h' a = (if a \<in> set ps then None else items h a)))"
proof -
  obtain ps where s: "seg h header ps xs 0" "distinct ps" using assms(1) by (auto simp: is_list_def)
  show ?thesis using length_from_seg [OF s(1), of 0] search_from_seg [OF s(1), of 0 v] List_delete_seg [OF s] s(1) assms(2)
    by (auto simp: List_length_def List_search_def)
qed

theorem List_traversals_end_witness: "List_length 1 demo_heap = Some (Ret 2) \<and> List_search 1 6 demo_heap = Some (Ret 1)"
  using List_traversals_end [OF demo_heap_list, of 6] by simp

end
