(* ===== verification/Md5.thy ===== *)
theory Md5
  imports Prelude
begin

text \<open>
  \<^verbatim>\<open>breakpad/common/md5.cc\<close>: the digest that the crash reporter computes. \<open>in_block\<close> is the array \<open>in\<close>
  of 64 bytes, which \<open>MD5Init\<close> leaves as it was; \<open>size_t\<close> has 32 bits. On a little-endian machine \<open>byteReverse\<close> is empty and
  the cast of \<open>in\<close> to words is \<open>dec32\<close> of four bytes each.
\<close>

record MD5Context =
  hash :: "u32 \<times> u32 \<times> u32 \<times> u32"
  bits0 :: u32
  bits1 :: u32
  in_block :: "byte list"

section \<open>The transformation\<close>

definition F1 :: "u32 \<Rightarrow> u32 \<Rightarrow> u32 \<Rightarrow> u32" where
  "F1 x y z = z XOR (x AND (y XOR z))"

definition F2 :: "u32 \<Rightarrow> u32 \<Rightarrow> u32 \<Rightarrow> u32" where
  "F2 x y z = F1 z x y"

definition F3 :: "u32 \<Rightarrow> u32 \<Rightarrow> u32 \<Rightarrow> u32" where
  "F3 x y z = x XOR y XOR z"

definition F4 :: "u32 \<Rightarrow> u32 \<Rightarrow> u32 \<Rightarrow> u32" where
  "F4 x y z = y XOR (x OR NOT z)"

text \<open>
  The 64 steps: function, word of the block, constant and shift. The source names the registers
  \<open>a, d, c, b\<close> in turn; a step here works on the first and hands them on rotated.
\<close>

definition md5_steps :: "((u32 \<Rightarrow> u32 \<Rightarrow> u32 \<Rightarrow> u32) \<times> nat \<times> u32 \<times> nat) list" where
  "md5_steps =
    [(F1, 0, 0xd76aa478, 7), (F1, 1, 0xe8c7b756, 12), (F1, 2, 0x242070db, 17), (F1, 3, 0xc1bdceee, 22),
     (F1, 4, 0xf57c0faf, 7), (F1, 5, 0x4787c62a, 12), (F1, 6, 0xa8304613, 17), (F1, 7, 0xfd469501, 22),
     (F1, 8, 0x698098d8, 7), (F1, 9, 0x8b44f7af, 12), (F1, 10, 0xffff5bb1, 17), (F1, 11, 0x895cd7be, 22),
     (F1, 12, 0x6b901122, 7), (F1, 13, 0xfd987193, 12), (F1, 14, 0xa679438e, 17), (F1, 15, 0x49b40821, 22),
     (F2, 1, 0xf61e2562, 5), (F2, 6, 0xc040b340, 9), (F2, 11, 0x265e5a51, 14), (F2, 0, 0xe9b6c7aa, 20),
     (F2, 5, 0xd62f105d, 5), (F2, 10, 0x02441453, 9), (F2, 15, 0xd8a1e681, 14), (F2, 4, 0xe7d3fbc8, 20),
     (F2, 9, 0x21e1cde6, 5), (F2, 14, 0xc33707d6, 9), (F2, 3, 0xf4d50d87, 14), (F2, 8, 0x455a14ed, 20),
     (F2, 13, 0xa9e3e905, 5), (F2, 2, 0xfcefa3f8, 9), (F2, 7, 0x676f02d9, 14), (F2, 12, 0x8d2a4c8a, 20),
     (F3, 5, 0xfffa3942, 4), (F3, 8, 0x8771f681, 11), (F3, 11, 0x6d9d6122, 16), (F3, 14, 0xfde5380c, 23),
     (F3, 1, 0xa4beea44, 4), (F3, 4, 0x4bdecfa9, 11), (F3, 7, 0xf6bb4b60, 16), (F3, 10, 0xbebfbc70, 23),
     (F3, 13, 0x289b7ec6, 4), (F3, 0, 0xeaa127fa, 11), (F3, 3, 0xd4ef3085, 16), (F3, 6, 0x04881d05, 23),
     (F3, 9, 0xd9d4d039, 4), (F3, 12, 0xe6db99e5, 11), (F3, 15, 0x1fa27cf8, 16), (F3, 2, 0xc4ac5665, 23),
     (F4, 0, 0xf4292244, 6), (F4, 7, 0x432aff97, 10), (F4, 14, 0xab9423a7, 15), (F4, 5, 0xfc93a039, 21),
     (F4, 12, 0x655b59c3, 6), (F4, 3, 0x8f0ccc92, 10), (F4, 10, 0xffeff47d, 15), (F4, 1, 0x85845dd1, 21),
     (F4, 8, 0x6fa87e4f, 6), (F4, 15, 0xfe2ce6e0, 10), (F4, 6, 0xa3014314, 15), (F4, 13, 0x4e0811a1, 21),
     (F4, 4, 0xf7537e82, 6), (F4, 11, 0xbd3af235, 10), (F4, 2, 0x2ad7d2bb, 15), (F4, 9, 0xeb86d391, 21)]"

definition MD5STEP :: "(u32 \<Rightarrow> u32 \<Rightarrow> u32 \<Rightarrow> u32) \<Rightarrow> u32 \<Rightarrow> u32 \<Rightarrow> u32 \<Rightarrow> u32 \<Rightarrow> u32 \<Rightarrow> nat \<Rightarrow> u32" where
  "MD5STEP f w x y z data s = (let w = w + (f x y z + data); w = push_bit s w OR drop_bit (32 - s) w in w + x)"

definition MD5Transform :: "u32 \<times> u32 \<times> u32 \<times> u32 \<Rightarrow> u32 list \<Rightarrow> u32 \<times> u32 \<times> u32 \<times> u32" where
  "MD5Transform h ws =
     (let (a0, b0, c0, d0) = h;
          (a, b, c, d) = foldl (\<lambda>(a, b, c, d) (f, k, t, s). (d, MD5STEP f a b c d (ws ! k + t) s, b, c)) h md5_steps in
      (a0 + a, b0 + b, c0 + c, d0 + d))"

definition block_words :: "byte list \<Rightarrow> u32 list" where
  "block_words bs = map (\<lambda>i. dec32 (take 4 (drop (4 * i) bs))) [0..<16]"

section \<open>Operations\<close>

definition MD5Init :: "MD5Context \<Rightarrow> MD5Context" where
  "MD5Init ctx = ctx\<lparr>hash := (0x67452301, 0xefcdab89, 0x98badcfe, 0x10325476), bits0 := 0, bits1 := 0\<rparr>"

definition transform_block :: "MD5Context \<Rightarrow> MD5Context" where
  "transform_block ctx = ctx\<lparr>hash := MD5Transform (hash ctx) (block_words (in_block ctx))\<rparr>"

function update_blocks :: "MD5Context \<Rightarrow> byte list \<Rightarrow> MD5Context" where
  "update_blocks ctx buf =
     (if 64 \<le> length buf then update_blocks (transform_block (ctx\<lparr>in_block := st (in_block ctx) 0 (take 64 buf)\<rparr>)) (drop 64 buf)
      else ctx\<lparr>in_block := st (in_block ctx) 0 buf\<rparr>)"
  by pat_completeness auto
termination by (relation "measure (\<lambda>(ctx, buf). length buf)") auto

declare update_blocks.simps [simp del]

definition MD5Update :: "MD5Context \<Rightarrow> byte list \<Rightarrow> MD5Context" where
  "MD5Update ctx buf =
     (let len = of_nat (length buf) :: u32;
          t = bits0 ctx;
          b0 = t + push_bit 3 len;
          b1 = bits1 ctx + (if b0 < t then 1 else 0) + drop_bit 29 len;
          ctx = ctx\<lparr>bits0 := b0, bits1 := b1\<rparr>;
          t = drop_bit 3 t AND 0x3f in
      if t \<noteq> 0 then
        if len < 64 - t then ctx\<lparr>in_block := st (in_block ctx) (unat t) buf\<rparr>
        else
          let n = unat (64 - t) in
          update_blocks (transform_block (ctx\<lparr>in_block := st (in_block ctx) (unat t) (take n buf)\<rparr>)) (drop n buf)
      else update_blocks ctx buf)"

definition hash_bytes :: "u32 \<times> u32 \<times> u32 \<times> u32 \<Rightarrow> byte list" where
  "hash_bytes h = (let (a, b, c, d) = h in enc32 a @ enc32 b @ enc32 c @ enc32 d)"

text \<open>The digest; the context is cleared afterwards.\<close>

definition MD5Final :: "MD5Context \<Rightarrow> byte list \<times> MD5Context" where
  "MD5Final ctx =
     (let count = unat (drop_bit 3 (bits0 ctx) AND 0x3F);
          blk = st (in_block ctx) count [0x80];
          left = 64 - 1 - count;
          ctx = (if left < 8 then
                   let ctx = transform_block (ctx\<lparr>in_block := st blk (count + 1) (replicate left 0)\<rparr>) in
                   ctx\<lparr>in_block := st (in_block ctx) 0 (replicate 56 0)\<rparr>
                 else ctx\<lparr>in_block := st blk (count + 1) (replicate (left - 8) 0)\<rparr>);
          blk = st (st (in_block ctx) 14 (enc32 (bits0 ctx))) 15 (enc32 (bits1 ctx));
          ctx = transform_block (ctx\<lparr>in_block := blk\<rparr>) in
      (hash_bytes (hash ctx), \<lparr>hash = (0, 0, 0, 0), bits0 = 0, bits1 = 0, in_block = replicate 64 0\<rparr>))"

definition md5 :: "byte list \<Rightarrow> byte list \<Rightarrow> byte list" where
  "md5 garbage m = fst (MD5Final (MD5Update (MD5Init \<lparr>hash = (0, 0, 0, 0), bits0 = 0, bits1 = 0, in_block = garbage\<rparr>) m))"

section \<open>What the context holds\<close>

text \<open>The whole blocks of a message and the bytes after them.\<close>

function full :: "byte list \<Rightarrow> byte list list" where
  "full m = (if 64 \<le> length m then take 64 m # full (drop 64 m) else [])"
  by pat_completeness auto
termination by (relation "measure length") auto

declare full.simps [simp del]

function rest :: "byte list \<Rightarrow> byte list" where
  "rest m = (if 64 \<le> length m then rest (drop 64 m) else m)"
  by pat_completeness auto
termination by (relation "measure length") auto

declare rest.simps [simp del]

lemma rest_length: "length (rest m) = length m mod 64"
proof (induction m rule: rest.induct)
  case (1 m)
  then show ?case by (cases "64 \<le> length m") (simp_all add: rest.simps [of m] le_mod_geq [symmetric])
qed

lemma full_append: "full (m @ xs) = full m @ full (rest m @ xs)" "rest (m @ xs) = rest (rest m @ xs)"
proof (induction m rule: full.induct)
  case (1 m)
  { case 1 then show ?case using "1.IH"(1) by (cases "64 \<le> length m") (simp_all add: full.simps [of m] rest.simps [of m] full.simps [of "m @ xs"])
  next
    case 2 then show ?case using "1.IH"(2) by (cases "64 \<le> length m") (simp_all add: rest.simps [of m] rest.simps [of "m @ xs"]) }
qed

lemma full_small: "length m < 64 \<Longrightarrow> full m = [] \<and> rest m = m"
  by (simp add: full.simps rest.simps)

lemma full_lengths: "b \<in> set (full m) \<Longrightarrow> length b = 64"
proof (induction m rule: full.induct)
  case (1 m)
  then show ?case by (cases "64 \<le> length m") (auto simp: full.simps [of m])
qed

definition compress :: "u32 \<times> u32 \<times> u32 \<times> u32 \<Rightarrow> byte list list \<Rightarrow> u32 \<times> u32 \<times> u32 \<times> u32" where
  "compress h bs = foldl (\<lambda>h b. MD5Transform h (block_words b)) h bs"

definition holds :: "byte list \<Rightarrow> MD5Context \<Rightarrow> byte list \<Rightarrow> bool" where
  "holds garbage ctx m \<longleftrightarrow>
     length garbage = 64 \<and> hash ctx = compress (0x67452301, 0xefcdab89, 0x98badcfe, 0x10325476) (full m) \<and>
     in_block ctx = st (last (garbage # full m)) 0 (rest m) \<and>
     bits0 ctx = of_nat (8 * length m) \<and> bits1 ctx = of_nat (8 * length m div 4294967296)"

lemma last_block: "length garbage = 64 \<Longrightarrow> length (last (garbage # full m)) = 64"
  using full_lengths [of "last (full m)" m] by auto

lemma st_whole: "length bs = length m \<Longrightarrow> st m 0 bs = bs"
  by (simp add: st_def)

lemma st_st: "length as + length bs \<le> length m \<Longrightarrow> st (st m 0 as) (length as) bs = st m 0 (as @ bs)"
  by (simp add: st_def add.commute)

lemma update_blocks_holds:
  "length (in_block ctx) = 64 \<Longrightarrow>
   update_blocks ctx buf = ctx\<lparr>hash := compress (hash ctx) (full buf), in_block := st (last (in_block ctx # full buf)) 0 (rest buf)\<rparr>"
proof (induction ctx buf rule: update_blocks.induct)
  case (1 ctx buf)
  show ?case
  proof (cases "64 \<le> length buf")
    case True
    have w: "st (in_block ctx) 0 (take 64 buf) = take 64 buf" using True 1(2) by (intro st_whole) simp
    then show ?thesis using 1 True
      by (simp add: update_blocks.simps [of ctx buf] full.simps [of buf] rest.simps [of buf] transform_block_def compress_def)
  next
    case False
    then show ?thesis by (simp add: update_blocks.simps [of ctx buf] full_small compress_def)
  qed
qed

lemma wrap_sum:
  assumes "x < m" "y < (m :: nat)"
  shows "((x + y) mod m < x) = (m \<le> x + y)" "(x + y) div m = (if m \<le> x + y then 1 else 0)"
proof -
  have "(x + y) mod m = x + y - m" "(x + y) div m = 1" if "m \<le> x + y"
    using that assms by (simp_all add: le_mod_geq le_div_geq)
  then show "((x + y) mod m < x) = (m \<le> x + y)" "(x + y) div m = (if m \<le> x + y then 1 else 0)"
    using assms by (cases "m \<le> x + y"; simp)+
qed

lemma bits_add:
  fixes l n :: nat
  assumes "n < 4294967296"
  defines "t \<equiv> of_nat (8 * l) :: u32" and "len \<equiv> of_nat n :: u32"
  shows "t + push_bit 3 len = of_nat (8 * (l + n))"
    "of_nat (8 * l div 4294967296) + (if t + push_bit 3 len < t then 1 else 0) + drop_bit 29 len = (of_nat (8 * (l + n) div 4294967296) :: u32)"
    "drop_bit 3 t AND 0x3f = of_nat (l mod 64)"
proof -
  let ?M = "4294967296 :: nat"
  show b0: "t + push_bit 3 len = of_nat (8 * (l + n))" by (simp add: t_def len_def push_bit_eq_mult)
  have un: "unat (of_nat k :: u32) = k mod ?M" for k by (simp add: unsigned_of_nat take_bit_eq_mod)
  have carry: "(t + push_bit 3 len < t) = (?M \<le> 8 * l mod ?M + 8 * n mod ?M)"
  proof -
    have "(8 * (l + n)) mod ?M = (8 * l mod ?M + 8 * n mod ?M) mod ?M" by (simp add: mod_add_eq distrib_left)
    moreover have "8 * l mod ?M < ?M" "8 * n mod ?M < ?M" by simp_all
    ultimately show ?thesis unfolding b0 unfolding t_def word_less_nat_alt un using wrap_sum(1) by simp
  qed
  have hi: "drop_bit 29 len = of_nat (8 * n div ?M)"
  proof -
    have "8 * n div ?M = n div 536870912" using div_mult_mult1 [of 8 n 536870912] by simp
    then show ?thesis using drop_bit_of_nat32 [OF assms(1), of 29] by (simp add: len_def)
  qed
  have "8 * (l + n) div ?M = 8 * l div ?M + 8 * n div ?M + (if ?M \<le> 8 * l mod ?M + 8 * n mod ?M then 1 else 0)"
  proof -
    have "(8 * l mod ?M + 8 * n mod ?M) div ?M = (if ?M \<le> 8 * l mod ?M + 8 * n mod ?M then 1 else 0)"
      by (rule wrap_sum(2)) simp_all
    then show ?thesis using div_add1_eq [of "8 * l" "8 * n" ?M] by (simp add: distrib_left)
  qed
  then show "of_nat (8 * l div ?M) + (if t + push_bit 3 len < t then 1 else 0) + drop_bit 29 len = (of_nat (8 * (l + n) div ?M) :: u32)"
    unfolding carry hi by simp
  have "t = of_nat (8 * l mod ?M)" by (simp only: t_def word_unat_eq_iff un mod_mod_trivial)
  moreover have "8 * l mod ?M div 8 = l mod 536870912" using mod_mult_mult1 [of 8 l 536870912] by simp
  moreover have "8 * l mod ?M < ?M" by simp
  ultimately have "drop_bit 3 t = of_nat (l mod 536870912)" using drop_bit_of_nat32 [of "8 * l mod ?M" 3] by simp
  moreover have "x AND 0x3f = take_bit 6 x" for x :: u32 by (simp add: take_bit_eq_mask mask_eq_exp_minus_1)
  moreover have "l mod 536870912 mod 64 = l mod 64" by (simp add: mod_mod_cancel)
  ultimately show "drop_bit 3 t AND 0x3f = of_nat (l mod 64)" using take_bit_of_nat32 [of 6 "l mod 536870912"] by simp
qed

lemma MD5Update_holds:
  assumes "holds garbage ctx m" "length xs < 4294967296"
  shows "holds garbage (MD5Update ctx xs) (m @ xs)"
proof -
  let ?r = "length m mod 64" and ?l = "last (garbage # full m)"
  note b = bits_add [OF assms(2), of "length m"] and rl = rest_length [of m]
  have g: "length garbage = 64" and L: "length ?l = 64" and blk: "in_block ctx = st ?l 0 (rest m)" and ib: "length (in_block ctx) = 64"
    using assms(1) last_block rl mod_less_divisor [of 64 "length m"] by (auto simp: holds_def)
  define ctx' where "ctx' = ctx\<lparr>bits0 := of_nat (8 * (length m + length xs)), bits1 := of_nat (8 * (length m + length xs) div 4294967296)\<rparr>"
  have u: "unat (of_nat ?r :: u32) = ?r" by (rule unat_of_nat32) (use mod_less_divisor [of 64 "length m"] in linarith)
  have n: "unat (64 - of_nat ?r :: u32) = 64 - ?r"
  proof -
    have "(64 - of_nat ?r :: u32) = of_nat (64 - ?r)" by (subst of_nat_diff) simp_all
    then show ?thesis by (simp only:) (rule unat_of_nat32, simp)
  qed
  have upd: "MD5Update ctx xs = (if ?r \<noteq> 0 then
      if length xs < 64 - ?r then ctx'\<lparr>in_block := st (in_block ctx) ?r xs\<rparr>
      else update_blocks (transform_block (ctx'\<lparr>in_block := st (in_block ctx) ?r (take (64 - ?r) xs)\<rparr>)) (drop (64 - ?r) xs)
    else update_blocks ctx' xs)"
  proof -
    have "((of_nat ?r :: u32) \<noteq> 0) = (?r \<noteq> 0)" by (simp only: word_unat_eq_iff u unsigned_0)
    moreover have "((of_nat (length xs) :: u32) < 64 - of_nat ?r) = (length xs < 64 - ?r)"
      using n assms(2) by (simp only: word_less_nat_alt unat_of_nat32)
    moreover have bits: "bits0 ctx = of_nat (8 * length m)" "bits1 ctx = of_nat (8 * length m div 4294967296)" using assms(1) by (simp_all add: holds_def)
    moreover have "MD5Update ctx xs = (if (of_nat ?r :: u32) \<noteq> 0 then
        if (of_nat (length xs) :: u32) < 64 - of_nat ?r then ctx'\<lparr>in_block := st (in_block ctx') (unat (of_nat ?r :: u32)) xs\<rparr>
        else update_blocks (transform_block (ctx'\<lparr>in_block := st (in_block ctx') (unat (of_nat ?r :: u32)) (take (unat (64 - of_nat ?r :: u32)) xs)\<rparr>))
          (drop (unat (64 - of_nat ?r :: u32)) xs)
      else update_blocks ctx' xs)"
      unfolding MD5Update_def Let_def bits unfolding b(2) unfolding b(1,3) ctx'_def by (rule refl)
    moreover have "in_block ctx' = in_block ctx" by (simp add: ctx'_def)
    ultimately show ?thesis by (simp only: u n)
  qed
  have h: "hash ctx = compress (0x67452301, 0xefcdab89, 0x98badcfe, 0x10325476) (full m)" using assms(1) by (simp add: holds_def)
  have comp: "compress (compress i as) bs = compress i (as @ bs)" for i as bs by (simp add: compress_def)
  consider "?r = 0" | "?r \<noteq> 0" "length xs < 64 - ?r" | "?r \<noteq> 0" "64 - ?r \<le> length xs" by linarith
  then show ?thesis
  proof cases
    case 1
    then have "rest m = []" using rl by simp
    then have "in_block ctx = ?l" using blk by (simp add: st_def)
    moreover have "full (m @ xs) = full m @ full xs" "rest (m @ xs) = rest xs" using \<open>rest m = []\<close> full_append [of m xs] by simp_all
    moreover have "MD5Update ctx xs = update_blocks ctx' xs" using upd 1 by simp
    ultimately show ?thesis using g h ib update_blocks_holds [of ctx' xs] by (auto simp: holds_def ctx'_def comp)
  next
    case 2
    then have s: "length (rest m @ xs) < 64" using rl by simp
    have "st (in_block ctx) ?r xs = st ?l 0 (rest m @ xs)" using st_st [of "rest m" xs ?l] blk L rl s by simp
    then show ?thesis using upd 2 g h full_append [of m xs] full_small [OF s] by (simp add: holds_def ctx'_def)
  next
    case 3
    let ?b = "rest m @ take (64 - ?r) xs"
    have lb: "length ?b = 64" using 3 rl mod_less_divisor [of 64 "length m"] by simp
    have w: "st (in_block ctx) ?r (take (64 - ?r) xs) = ?b" using st_st [of "rest m" "take (64 - ?r) xs" ?l] blk L rl lb st_whole [of ?b ?l] by simp
    have "64 \<le> ?r + length xs" using 3 by linarith
    then have "full (rest m @ xs) = ?b # full (drop (64 - ?r) xs)" "rest (rest m @ xs) = rest (drop (64 - ?r) xs)"
      using 3 rl mod_less_divisor [of 64 "length m"] by (simp_all add: full.simps [of "rest m @ xs"] rest.simps [of "rest m @ xs"])
    then have f: "full (m @ xs) = full m @ ?b # full (drop (64 - ?r) xs)" "rest (m @ xs) = rest (drop (64 - ?r) xs)" using full_append [of m xs] by simp_all
    let ?c = "transform_block (ctx'\<lparr>in_block := ?b\<rparr>)"
    have "MD5Update ctx xs = update_blocks ?c (drop (64 - ?r) xs)" using upd 3 w by simp
    moreover have "hash ?c = compress (0x67452301, 0xefcdab89, 0x98badcfe, 0x10325476) (full m @ [?b])" "in_block ?c = ?b"
      "bits0 ?c = of_nat (8 * (length m + length xs))" "bits1 ?c = of_nat (8 * (length m + length xs) div 4294967296)"
      using h by (simp_all add: transform_block_def ctx'_def compress_def)
    ultimately show ?thesis using g f lb update_blocks_holds [of ?c "drop (64 - ?r) xs"] by (simp add: holds_def comp)
  qed
qed

lemma holds_unique: "holds garbage ctx m \<Longrightarrow> holds garbage ctx' m \<Longrightarrow> ctx = ctx'"
  by (simp add: holds_def)

lemma MD5Init_holds: "length (in_block ctx) = 64 \<Longrightarrow> holds (in_block ctx) (MD5Init ctx) []"
  by (simp add: holds_def MD5Init_def full_small compress_def st_def)

text \<open>The last block when the length fits into it: five bytes of the message are overwritten, the last eight bytes are what was there.\<close>

definition last_bytes :: "byte list \<Rightarrow> byte list \<Rightarrow> nat \<Rightarrow> byte list" where
  "last_bytes q old l =
     take 14 (q @ [0x80] @ replicate (55 - length q) 0) @ [hd (enc32 (of_nat (8 * l)))] @ enc32 (of_nat (8 * l div 4294967296)) @
     drop 19 (q @ [0x80] @ replicate (55 - length q) 0) @ drop 56 old"

lemma MD5Final_one_block:
  assumes "unat (drop_bit 3 (bits0 ctx) AND 0x3F) = r" "\<not> 64 - 1 - r < 8"
  shows "fst (MD5Final ctx) = hash_bytes (MD5Transform (hash ctx) (block_words
    (st (st (st (st (in_block ctx) r [0x80]) (r + 1) (replicate (64 - 1 - r - 8) 0)) 14 (enc32 (bits0 ctx))) 15 (enc32 (bits1 ctx)))))"
  using assms(2) unfolding MD5Final_def Let_def assms(1) by (simp add: transform_block_def)

lemma MD5Final_short:
  assumes "holds garbage ctx m" "length m mod 64 \<le> 55"
  shows "fst (MD5Final ctx) = hash_bytes (MD5Transform (hash ctx) (block_words (last_bytes (rest m) (last (garbage # full m)) (length m))))"
proof -
  let ?r = "length m mod 64" and ?l = "last (garbage # full m)"
  have rl: "length (rest m) = ?r" by (rule rest_length)
  have L: "length ?l = 64" and blk: "in_block ctx = st ?l 0 (rest m)" and b: "bits0 ctx = of_nat (8 * length m)" "bits1 ctx = of_nat (8 * length m div 4294967296)"
    using assms(1) last_block by (auto simp: holds_def)
  have c: "unat (drop_bit 3 (bits0 ctx) AND 0x3F) = ?r"
  proof -
    have "drop_bit 3 (bits0 ctx) AND 0x3F = of_nat ?r" unfolding b by (rule bits_add(3) [where n = 0]) simp
    then show ?thesis by (simp only:) (rule unat_of_nat32, use assms(2) in simp)
  qed
  have 1: "st (in_block ctx) ?r [0x80] = st ?l 0 (rest m @ [0x80])" using st_st [of "rest m" "[0x80]" ?l] blk L rl assms(2) by simp
  have 2: "st (st (in_block ctx) ?r [0x80]) (?r + 1) (replicate (64 - 1 - ?r - 8) 0) = st ?l 0 (rest m @ [0x80] @ replicate (55 - ?r) 0)"
    unfolding 1 using st_st [of "rest m @ [0x80]" "replicate (55 - ?r) 0" ?l] L rl assms(2) by (simp add: diff_diff_eq2 Suc_diff_le)
  have 3: "st ?l 0 (rest m @ [0x80] @ replicate (55 - ?r) 0) = (rest m @ [0x80] @ replicate (55 - ?r) 0) @ drop 56 ?l"
    using L rl assms(2) by (simp add: st_def)
  have 4: "st (st (w @ v) 14 (enc32 x)) 15 (enc32 y) = take 14 w @ [hd (enc32 x)] @ enc32 y @ drop 19 w @ v" if "length w = 56" for w v x y
    using that by (simp add: st_def enc32_def)
  have 5: "length (rest m @ [0x80] @ replicate (55 - ?r) 0) = 56" using rl assms(2) by simp
  have "\<not> 64 - 1 - ?r < 8" using assms(2) by simp
  then show ?thesis unfolding MD5Final_one_block [OF c \<open>\<not> 64 - 1 - ?r < 8\<close>] 2 3 4 [OF 5] by (simp only: b last_bytes_def rl)
qed

lemma last_bytes_eq:
  assumes "length p = length q" "take 14 p = take 14 q" "drop 19 p = drop 19 q"
  shows "last_bytes p old l = last_bytes q old l"
  using assms by (simp add: last_bytes_def)


section \<open>Properties\<close>

text \<open>
  C35: the context after an update holds the message extended by the new bytes: the hash of its whole blocks, the
  bytes after them and its length in bits as a 64-bit number, for any sizes and any split of the message.
\<close>

theorem MD5Update_refines:
  assumes "holds garbage ctx m" "length xs < 4294967296"
  shows "holds garbage (MD5Update ctx xs) (m @ xs)"
  by (rule MD5Update_holds [OF assms])

theorem MD5Update_refines_witness:
  "holds (replicate 64 7) (MD5Update (MD5Init \<lparr>hash = (0, 0, 0, 0), bits0 = 9, bits1 = 9, in_block = replicate 64 7\<rparr>) [1, 2, 3]) [1, 2, 3]"
  using MD5Update_refines [OF MD5Init_holds [of "\<lparr>hash = (0, 0, 0, 0), bits0 = 9, bits1 = 9, in_block = replicate 64 7\<rparr>"], of "[1, 2, 3]"] by simp

text \<open>
  Hashing a message in pieces or at once gives the same context.
\<close>

theorem MD5Update_incremental:
  assumes "length (in_block ctx) = 64" "length xs + length ys < 4294967296"
  shows "MD5Update (MD5Update (MD5Init ctx) xs) ys = MD5Update (MD5Init ctx) (xs @ ys)"
proof (rule holds_unique)
  have i: "holds (in_block ctx) (MD5Init ctx) []" by (rule MD5Init_holds [OF assms(1)])
  show "holds (in_block ctx) (MD5Update (MD5Update (MD5Init ctx) xs) ys) (xs @ ys)"
    using MD5Update_holds [OF MD5Update_holds [OF i, of xs], of ys] assms(2) by simp
  show "holds (in_block ctx) (MD5Update (MD5Init ctx) (xs @ ys)) (xs @ ys)" using MD5Update_holds [OF i, of "xs @ ys"] assms(2) by simp
qed

theorem MD5Update_incremental_witness:
  "MD5Update (MD5Update (MD5Init \<lparr>hash = (0, 0, 0, 0), bits0 = 0, bits1 = 0, in_block = replicate 64 0\<rparr>) [1, 2]) [3] =
   MD5Update (MD5Init \<lparr>hash = (0, 0, 0, 0), bits0 = 0, bits1 = 0, in_block = replicate 64 0\<rparr>) [1, 2, 3]"
  using MD5Update_incremental [of "\<lparr>hash = (0, 0, 0, 0), bits0 = 0, bits1 = 0, in_block = replicate 64 0\<rparr>" "[1, 2]" "[3]"] by simp

text \<open>
  The digest is not MD5: \<open>MD5Final\<close> writes the length over bytes 14 to 18 of the last block, so
  messages that differ only there have the same digest.
\<close>

theorem MD5Final_collision:
  assumes "length garbage = 64" "length p mod 64 = 0" "length q = length q'" "length q \<le> 55" "take 14 q = take 14 q'" "drop 19 q = drop 19 q'"
    and "length p + length q < 4294967296"
  shows "md5 garbage (p @ q) = md5 garbage (p @ q')"
proof -
  let ?i = "MD5Init \<lparr>hash = (0, 0, 0, 0), bits0 = 0, bits1 = 0, in_block = garbage\<rparr>"
  have r: "rest p = []" using rest_length [of p] assms(2) by simp
  have e: "full (p @ x) = full p" "rest (p @ x) = x" if "length x \<le> 55" for x using full_append [of p x] full_small [of x] r that by simp_all
  have h: "holds garbage (MD5Update ?i (p @ x)) (p @ x)" if "length x = length q" for x
    using MD5Update_holds [of garbage ?i "[]" "p @ x"] MD5Init_holds [of "\<lparr>hash = (0, 0, 0, 0), bits0 = 0, bits1 = 0, in_block = garbage\<rparr>"] assms that by simp
  have m: "length (p @ x) mod 64 \<le> 55" if "length x = length q" for x
    using assms(2,4) that mod_add_eq [of "length p" 64 "length x"] by simp
  have "md5 garbage (p @ x) = hash_bytes (MD5Transform (compress (0x67452301, 0xefcdab89, 0x98badcfe, 0x10325476) (full p))
      (block_words (last_bytes x (last (garbage # full p)) (length p + length q))))" if "length x = length q" for x
    using MD5Final_short [OF h [OF that] m [OF that]] h [OF that] e [of x] that assms(4) by (simp add: md5_def holds_def)
  then show ?thesis using last_bytes_eq [OF assms(3,5,6)] assms(3) by simp
qed

theorem MD5Final_collision_witness:
  "md5 (replicate 64 0) ([] @ replicate 14 1 @ [9] @ replicate 5 2) = md5 (replicate 64 0) ([] @ replicate 14 1 @ [8] @ replicate 5 2)"
  by (rule MD5Final_collision) simp_all

text \<open>
  The digest depends on memory that was never written: bytes 56 to 63 of the last block are
  what the context held before, here for the empty message.
\<close>

theorem MD5Final_reads_garbage: "md5 (replicate 64 0) [] \<noteq> md5 (replicate 63 0 @ [1]) []"
  by code_simp

end
