(* ===== verification/LibcSupport.thy ===== *)
theory LibcSupport
  imports Prelude
begin

text \<open>
  \<^verbatim>\<open>breakpad/common/linux/linux_libc_support.cc\<close>: the replacements of libc functions that run in a crashed
  process. A string is the memory from the pointer on, as a list of bytes; \<open>char\<close> is unsigned on
  armeabi-v7a. Reading behind the memory is \<open>UB OobRead\<close>, writing behind it \<open>UB HeapOverflow\<close>. A pointer that is returned is the distance from
  the argument. \<open>uintmax_t\<close> has 64 bits, \<open>uintptr_t\<close>, \<open>size_t\<close> and \<open>unsigned\<close> have 32.
\<close>

section \<open>Strings\<close>

fun my_strlen :: "byte list \<Rightarrow> u32 outcome" where
  "my_strlen [] = UB OobRead"
| "my_strlen (c # s) = (if c \<noteq> 0 then bnd (my_strlen s) (\<lambda>n. Ret (n + 1)) else Ret 0)"

fun my_strcmp :: "byte list \<Rightarrow> byte list \<Rightarrow> int outcome" where
  "my_strcmp (x # a) (y # b) = (if x < y then Ret (-1) else if y < x then Ret 1 else if x = 0 then Ret 0 else my_strcmp a b)"
| "my_strcmp a b = UB OobRead"

fun my_strncmp :: "byte list \<Rightarrow> byte list \<Rightarrow> nat \<Rightarrow> int outcome" where
  "my_strncmp a b 0 = Ret 0"
| "my_strncmp (x # a) (y # b) (Suc n) =
     (if x < y then Ret (-1) else if y < x then Ret 1 else if x = 0 then Ret 0 else my_strncmp a b n)"
| "my_strncmp a b (Suc n) = UB OobRead"

fun my_strchr :: "byte list \<Rightarrow> byte \<Rightarrow> nat option outcome" where
  "my_strchr [] needle = UB OobRead"
| "my_strchr (c # s) needle =
     (if c \<noteq> 0 \<and> c \<noteq> needle then bnd (my_strchr s needle) (\<lambda>r. Ret (map_option Suc r))
      else if c = needle then Ret (Some 0) else Ret None)"

fun strrchr_from :: "byte list \<Rightarrow> nat \<Rightarrow> nat option \<Rightarrow> byte \<Rightarrow> nat option outcome" where
  "strrchr_from [] i ret needle = UB OobRead"
| "strrchr_from (c # s) i ret needle =
     (if c \<noteq> 0 then strrchr_from s (Suc i) (if c = needle then Some i else ret) needle else Ret ret)"

definition my_strrchr :: "byte list \<Rightarrow> byte \<Rightarrow> nat option outcome" where
  "my_strrchr haystack needle = strrchr_from haystack 0 None needle"

fun my_memchr :: "byte list \<Rightarrow> int \<Rightarrow> nat \<Rightarrow> nat option outcome" where
  "my_memchr src needle 0 = Ret None"
| "my_memchr [] needle (Suc n) = UB OobRead"
| "my_memchr (c # src) needle (Suc n) =
     (if uint c = needle then Ret (Some 0) else bnd (my_memchr src needle n) (\<lambda>r. Ret (map_option Suc r)))"

section \<open>Numbers\<close>

text \<open>\<open>r *= 10\<close> and \<open>r += *s - '0'\<close> are signed.\<close>

fun strtoui_loop :: "int \<Rightarrow> byte list \<Rightarrow> (bool \<times> int) outcome" where
  "strtoui_loop r [] = UB OobRead"
| "strtoui_loop r (c # s) =
     (if c = 0 then Ret (True, r)
      else
        let old_r = r in
        bnd (s32 (r * 10)) (\<lambda>r.
        if c < 48 \<or> 57 < c then Ret (False, 0)
        else bnd (s32 (r + (uint c - 48))) (\<lambda>r.
          if r < old_r then Ret (False, 0) else strtoui_loop r s)))"

text \<open>The result and what is stored, 0 standing for no store when the result is false.\<close>

definition my_strtoui :: "byte list \<Rightarrow> (bool \<times> int) outcome" where
  "my_strtoui s = (case s of [] \<Rightarrow> UB OobRead | c # _ \<Rightarrow> if c = 0 then Ret (False, 0) else strtoui_loop 0 s)"

function uint_len_loop :: "u64 \<Rightarrow> int \<Rightarrow> int" where
  "uint_len_loop i len = (if i \<noteq> 0 then uint_len_loop (i div 10) (len + 1) else len)"
  by pat_completeness auto
termination
proof (relation "measure (\<lambda>(i, len). unat i)")
  fix i :: u64
  assume "i \<noteq> 0"
  then have "unat i div 10 < unat i" by (simp add: unat_gt_0)
  then show "((i div 10, len + 1), i, len) \<in> measure (\<lambda>(i, len). unat i)" for len :: int by (simp add: unat_div)
qed simp

declare uint_len_loop.simps [simp del]

definition my_uint_len :: "u64 \<Rightarrow> u32" where
  "my_uint_len i = (if i = 0 then 1 else word_of_int (uint_len_loop i 0))"

fun uitos_loop :: "byte list \<Rightarrow> u64 \<Rightarrow> nat \<Rightarrow> byte list outcome" where
  "uitos_loop out i 0 = Ret out"
| "uitos_loop out i (Suc k) =
     (if length out \<le> k then UB HeapOverflow else uitos_loop (out[k := 48 + ucast (i mod 10)]) (i div 10) k)"

definition my_uitos :: "byte list \<Rightarrow> u64 \<Rightarrow> u32 \<Rightarrow> byte list outcome" where
  "my_uitos out i i_len = uitos_loop out i (unat i_len)"

definition hex_digit :: "byte \<Rightarrow> u32 option" where
  "hex_digit c =
     (if 48 \<le> c \<and> c \<le> 57 then Some (ucast c - 48)
      else if 97 \<le> c \<and> c \<le> 102 then Some (ucast c - 97 + 10)
      else if 65 \<le> c \<and> c \<le> 70 then Some (ucast c - 65 + 10)
      else None)"

fun read_hex_loop :: "u32 \<Rightarrow> byte list \<Rightarrow> nat \<Rightarrow> (u32 \<times> nat) outcome" where
  "read_hex_loop r [] i = UB OobRead"
| "read_hex_loop r (c # s) i =
     (case hex_digit c of Some d \<Rightarrow> read_hex_loop (push_bit 4 r + d) s (Suc i) | None \<Rightarrow> Ret (r, i))"

definition my_read_hex_ptr :: "byte list \<Rightarrow> (u32 \<times> nat) outcome" where
  "my_read_hex_ptr s = read_hex_loop 0 s 0"

fun read_decimal_loop :: "u32 \<Rightarrow> byte list \<Rightarrow> nat \<Rightarrow> (u32 \<times> nat) outcome" where
  "read_decimal_loop r [] i = UB OobRead"
| "read_decimal_loop r (c # s) i =
     (if 48 \<le> c \<and> c \<le> 57 then read_decimal_loop (r * 10 + (ucast c - 48)) s (Suc i) else Ret (r, i))"

definition my_read_decimal_ptr :: "byte list \<Rightarrow> (u32 \<times> nat) outcome" where
  "my_read_decimal_ptr s = read_decimal_loop 0 s 0"

section \<open>Memory\<close>

definition my_memset :: "byte list \<Rightarrow> byte \<Rightarrow> nat \<Rightarrow> byte list outcome" where
  "my_memset ip c len = (if length ip < len then UB HeapOverflow else Ret (replicate len c @ drop len ip))"

fun strlcpy_loop :: "byte list \<Rightarrow> byte list \<Rightarrow> nat \<Rightarrow> nat \<Rightarrow> nat \<Rightarrow> (byte list \<times> nat \<times> nat) outcome" where
  "strlcpy_loop s1 [] len pos1 pos2 = UB OobRead"
| "strlcpy_loop s1 (c # s2) len pos1 pos2 =
     (if c = 0 then Ret (s1, pos1, pos2)
      else if pos1 + 1 < len then
        if length s1 \<le> pos1 then UB HeapOverflow else strlcpy_loop (s1[pos1 := c]) s2 len (pos1 + 1) (pos2 + 1)
      else strlcpy_loop s1 s2 len pos1 (pos2 + 1))"

definition my_strlcpy :: "byte list \<Rightarrow> byte list \<Rightarrow> nat \<Rightarrow> (byte list \<times> nat) outcome" where
  "my_strlcpy s1 s2 len =
     bnd (strlcpy_loop s1 s2 len 0 0) (\<lambda>(s1, pos1, pos2).
     if 0 < len then if length s1 \<le> pos1 then UB HeapOverflow else Ret (s1[pos1 := 0], pos2) else Ret (s1, pos2))"

fun strlcat_pos :: "byte list \<Rightarrow> nat \<Rightarrow> nat outcome" where
  "strlcat_pos s1 0 = Ret 0"
| "strlcat_pos [] (Suc n) = UB OobRead"
| "strlcat_pos (c # s1) (Suc n) = (if c \<noteq> 0 then bnd (strlcat_pos s1 n) (\<lambda>p. Ret (Suc p)) else Ret 0)"

definition my_strlcat :: "byte list \<Rightarrow> byte list \<Rightarrow> nat \<Rightarrow> (byte list \<times> nat) outcome" where
  "my_strlcat s1 s2 len =
     bnd (strlcat_pos s1 len) (\<lambda>pos1.
     if pos1 = len then Ret (s1, pos1)
     else bnd (my_strlcpy (drop pos1 s1) s2 (len - pos1)) (\<lambda>(t, n). Ret (take pos1 s1 @ t, pos1 + n)))"

text \<open>\<open>spaces\<close> is an array of eight characters: the seven of the literal and its terminator.\<close>

definition spaces :: "int list" where
  "spaces = [32, 9, 12, 10, 13, 9, 11, 0]"

definition my_isspace :: "int \<Rightarrow> int" where
  "my_isspace ch = (if ch \<in> set spaces then 1 else 0)"

section \<open>Decimal numbers\<close>

text \<open>The last \<open>k\<close> decimal digits of \<open>i\<close>, as characters.\<close>

fun digits :: "nat \<Rightarrow> nat \<Rightarrow> byte list" where
  "digits 0 i = []"
| "digits (Suc k) i = digits k (i div 10) @ [of_nat (48 + i mod 10)]"

lemma length_digits [simp]: "length (digits k i) = k"
  by (induction k arbitrary: i) simp_all

lemma uitos_digits:
  "k \<le> length out \<Longrightarrow> uitos_loop out i k = Ret (digits k (unat i) @ drop k out)"
proof (induction k arbitrary: out i)
  case (Suc k)
  have "(48 + ucast (i mod 10) :: byte) = of_nat (48 + unat i mod 10)"
  proof -
    have "(ucast (i mod 10) :: byte) = of_nat (unat (i mod 10))" by simp
    then show ?thesis by (simp add: unat_mod)
  qed
  then show ?case using Suc.IH [of "out[k := 48 + ucast (i mod 10)]" "i div 10"] Suc.prems
    by (simp add: unat_div Cons_nth_drop_Suc [symmetric] drop_update_cancel)
qed simp

lemma read_decimal_digits:
  "i < 10 ^ k \<Longrightarrow> read_decimal_loop r (digits k i @ rest) n = read_decimal_loop (r * 10 ^ k + of_nat i) rest (n + k)"
proof (induction k arbitrary: i rest r n)
  case (Suc k)
  have d: "i mod 10 < 10" "i div 10 < 10 ^ k" using Suc.prems by (simp_all add: less_mult_imp_div_less mult.commute)
  let ?c = "of_nat (48 + i mod 10) :: byte"
  have u: "unat ?c = 48 + i mod 10" by (rule unat_of_nat8) (use d(1) in linarith)
  have c: "48 \<le> ?c" "?c \<le> 57" unfolding word_le_nat_alt u using d(1) by simp_all
  have v: "(ucast ?c :: u32) - 48 = of_nat (i mod 10)"
  proof -
    have "(ucast ?c :: u32) = of_nat (unat ?c)" by simp
    then show ?thesis unfolding u by simp
  qed
  have e: "10 * of_nat (i div 10) + of_nat (i mod 10) = (of_nat i :: u32)"
    by (metis div_mult_mod_eq mult.commute of_nat_add of_nat_mult of_nat_numeral)
  have "read_decimal_loop r (digits (Suc k) i @ rest) n = read_decimal_loop (r * 10 ^ k + of_nat (i div 10)) (?c # rest) (n + k)"
    using Suc.IH [OF d(2), of r "?c # rest" n] by simp
  also have "\<dots> = read_decimal_loop ((r * 10 ^ k + of_nat (i div 10)) * 10 + of_nat (i mod 10)) rest (n + Suc k)"
    using c v by (simp only: read_decimal_loop.simps simp_thms if_True add_Suc_right)
  also have "(r * 10 ^ k + of_nat (i div 10)) * 10 + of_nat (i mod 10) = r * 10 ^ Suc k + (of_nat i :: u32)"
    by (simp add: e [symmetric] algebra_simps)
  finally show ?case .
qed simp

text \<open>The number of decimal digits.\<close>

lemma uint_len_loop_bounds:
  "\<exists>k. uint_len_loop i len = len + int k \<and> unat i < 10 ^ k \<and> (i \<noteq> 0 \<longrightarrow> 0 < k \<and> 10 ^ (k - 1) \<le> unat i) \<and> (i = 0 \<longrightarrow> k = 0)"
proof (induction i len rule: uint_len_loop.induct)
  case (1 i len)
  show ?case
  proof (cases "i = 0")
    case True
    then show ?thesis by (intro exI [of _ 0]) (simp add: uint_len_loop.simps)
  next
    case False
    then obtain k where k: "uint_len_loop (i div 10) (len + 1) = len + 1 + int k" "unat i div 10 < 10 ^ k"
      "i div 10 \<noteq> 0 \<longrightarrow> 0 < k \<and> 10 ^ (k - 1) \<le> unat i div 10" "i div 10 = 0 \<longrightarrow> k = 0"
      using "1.IH" by (auto simp: unat_div)
    have "unat i < 10 ^ Suc k" using k(2) by (simp add: div_less_iff_less_mult mult.commute)
    moreover have "10 ^ k \<le> unat i"
    proof (cases "i div 10 = 0")
      case True
      then show ?thesis using k(4) False by (simp add: unat_gt_0 Suc_leI)
    next
      case False
      then obtain j where j: "k = Suc j" "10 ^ j \<le> unat i div 10" using k(3) by (cases k) auto
      then show ?thesis by (simp add: less_eq_div_iff_mult_less_eq mult.commute)
    qed
    ultimately show ?thesis using k(1) False by (intro exI [of _ "Suc k"]) (simp add: uint_len_loop.simps [of i len])
  qed
qed

lemma my_uint_len_digits: "unat i < 10 ^ unat (my_uint_len i)" "i \<noteq> 0 \<Longrightarrow> 10 ^ (unat (my_uint_len i) - 1) \<le> unat i" "unat (my_uint_len i) \<le> 20"
proof -
  obtain k where k: "uint_len_loop i 0 = int k" "unat i < 10 ^ k" "i \<noteq> 0 \<longrightarrow> 0 < k \<and> 10 ^ (k - 1) \<le> unat i"
    using uint_len_loop_bounds [of i 0] by auto
  have le: "k \<le> 20" if "i \<noteq> 0"
  proof (rule ccontr)
    assume "\<not> k \<le> 20"
    then have "(10 :: nat) ^ 20 \<le> 10 ^ (k - 1)" by (intro power_increasing) simp_all
    then have "(10 :: nat) ^ 20 \<le> unat i" using k(3) that by linarith
    moreover have "unat i < 2 ^ 64" using unsigned_less [of i, where ?'a = nat] by simp
    ultimately show False by simp
  qed
  have u: "unat (my_uint_len i) = (if i = 0 then 1 else k)" 
  proof (cases "i = 0")
    case False
    then have "k < 4294967296" using le by linarith
    then show ?thesis using k(1) False by (simp add: my_uint_len_def)
  qed (simp add: my_uint_len_def)
  show "unat i < 10 ^ unat (my_uint_len i)" "i \<noteq> 0 \<Longrightarrow> 10 ^ (unat (my_uint_len i) - 1) \<le> unat i" "unat (my_uint_len i) \<le> 20"
    unfolding u using k(2,3) le by auto
qed

text \<open>Bounded copies.\<close>

lemma strlcpy_loop_spec:
  assumes "list_all (\<lambda>c. c \<noteq> 0) cs" "len \<le> length s1" "pos1 < len \<or> len = 0 \<and> pos1 = 0"
  shows "strlcpy_loop s1 (cs @ 0 # rest) len pos1 pos2 =
    Ret (let w = take (len - 1 - pos1) cs in (take pos1 s1 @ w @ drop (pos1 + length w) s1, pos1 + length w, pos2 + length cs))"
  using assms
proof (induction cs arbitrary: s1 pos1 pos2)
  case (Cons c cs)
  show ?case
  proof (cases "pos1 + 1 < len")
    case True
    then have "strlcpy_loop s1 ((c # cs) @ 0 # rest) len pos1 pos2 = strlcpy_loop (s1[pos1 := c]) (cs @ 0 # rest) len (pos1 + 1) (pos2 + 1)"
      using Cons.prems by simp
    also have "\<dots> = Ret (let w = take (len - 1 - (pos1 + 1)) cs in
        (take (pos1 + 1) (s1[pos1 := c]) @ w @ drop (pos1 + 1 + length w) (s1[pos1 := c]), pos1 + 1 + length w, pos2 + 1 + length cs))"
      by (rule Cons.IH) (use Cons.prems True in simp_all)
    also have "take (len - 1 - pos1) (c # cs) = c # take (len - 1 - (pos1 + 1)) cs" using True by (simp add: take_Cons' Suc_diff_Suc)
    moreover have "take (pos1 + 1) (s1[pos1 := c]) = take pos1 s1 @ [c]" using True Cons.prems(2) by (simp add: take_Suc_conv_app_nth)
    ultimately show ?thesis by (simp add: Let_def)
  next
    case False
    then have z: "len - 1 - pos1 = 0" by simp
    have "strlcpy_loop s1 ((c # cs) @ 0 # rest) len pos1 pos2 = strlcpy_loop s1 (cs @ 0 # rest) len pos1 (pos2 + 1)"
      using Cons.prems False by simp
    then show ?thesis using Cons.IH [of s1 pos1 "pos2 + 1"] Cons.prems z by (simp add: Let_def)
  qed
qed simp

lemma my_strlcpy_spec:
  assumes "list_all (\<lambda>c. c \<noteq> 0) cs" "0 < len" "len \<le> length s1"
  shows "my_strlcpy s1 (cs @ 0 # rest) len = Ret (take (len - 1) cs @ 0 # drop (Suc (min (len - 1) (length cs))) s1, length cs)"
proof -
  let ?w = "take (len - 1) cs"
  have l: "length ?w < length s1" using assms(2,3) by simp
  have "strlcpy_loop s1 (cs @ 0 # rest) len 0 0 = Ret (?w @ drop (length ?w) s1, length ?w, length cs)"
    using strlcpy_loop_spec [OF assms(1,3), of 0 rest 0] assms(2) by (simp add: Let_def)
  moreover have "(?w @ drop (length ?w) s1)[length ?w := 0] = ?w @ 0 # drop (Suc (length ?w)) s1"
    using l by (simp only: list_update_append) (simp add: Cons_nth_drop_Suc [symmetric])
  ultimately show ?thesis using assms(2,3) l by (auto simp: my_strlcpy_def min.commute)
qed

lemma strlcat_pos_spec: "list_all (\<lambda>c. c \<noteq> 0) as \<Longrightarrow> length as < len \<Longrightarrow> strlcat_pos (as @ 0 # tail) len = Ret (length as)"
proof (induction as arbitrary: len)
  case Nil
  then show ?case by (cases len) simp_all
next
  case (Cons a as)
  then show ?case by (cases len) simp_all
qed

text \<open>What \<open>my_strtoui\<close> does on digits: the value as long as it fits, undefined behaviour after that.\<close>

definition is_digit :: "byte \<Rightarrow> bool" where
  "is_digit c \<longleftrightarrow> 48 \<le> c \<and> c \<le> 57"

definition dec_val :: "int \<Rightarrow> byte list \<Rightarrow> int" where
  "dec_val r cs = foldl (\<lambda>r c. r * 10 + (uint c - 48)) r cs"

lemma digit_range: "is_digit c \<Longrightarrow> 48 \<le> uint c \<and> uint c \<le> 57 \<and> c \<noteq> 0 \<and> \<not> c < 48 \<and> \<not> 57 < c"
  by (auto simp: is_digit_def word_le_def word_less_def)

lemma dec_val_mono: "list_all is_digit cs \<Longrightarrow> 0 \<le> r \<Longrightarrow> r \<le> dec_val r cs"
proof (induction cs arbitrary: r)
  case (Cons c cs)
  then have "r * 10 + (uint c - 48) \<le> dec_val (r * 10 + (uint c - 48)) cs" using digit_range [of c] by simp
  then show ?case using Cons.prems digit_range [of c] by (simp add: dec_val_def)
qed (simp add: dec_val_def)

lemma strtoui_loop_value:
  assumes "list_all is_digit cs" "0 \<le> r" "r \<le> 2147483647"
  shows "strtoui_loop r (cs @ 0 # rest) = (if dec_val r cs \<le> 2147483647 then Ret (True, dec_val r cs) else UB SignedOverflow)"
  using assms
proof (induction cs arbitrary: r)
  case (Cons c cs)
  let ?r = "r * 10 + (uint c - 48)"
  have c: "48 \<le> uint c" "uint c \<le> 57" "c \<noteq> 0" "\<not> c < 48" "\<not> 57 < c" and cs: "list_all is_digit cs" using digit_range [of c] Cons.prems by simp_all
  have dv: "dec_val r (c # cs) = dec_val ?r cs" by (simp add: dec_val_def)
  have le: "?r \<le> dec_val ?r cs" by (rule dec_val_mono [OF cs]) (use c Cons.prems in simp)
  show ?case
  proof (cases "?r \<le> 2147483647")
    case True
    then have "strtoui_loop r ((c # cs) @ 0 # rest) = strtoui_loop ?r (cs @ 0 # rest)" using c Cons.prems by simp
    then show ?thesis using Cons.IH [OF cs _ True] dv c Cons.prems by simp
  next
    case False
    then have "strtoui_loop r ((c # cs) @ 0 # rest) = UB SignedOverflow"
      using c Cons.prems by (cases "r * 10 \<le> 2147483647") (simp_all add: s32_def in32_def)
    then show ?thesis using False dv le by simp
  qed
qed (simp add: dec_val_def)


section \<open>Properties\<close>

text \<open>
  A number is read back: \<open>my_uint_len\<close> gives the number of decimal digits, at most 20, without a leading zero;
  \<open>my_uitos\<close> with that length fills exactly these bytes; and \<open>my_read_decimal_ptr\<close> stops behind them with the
  number modulo 2^32.
\<close>

theorem uitos_roundtrip:
  assumes "unat (my_uint_len i) \<le> length out" "\<not> (48 \<le> c \<and> c \<le> 57)"
  shows "\<exists>ds. length ds = unat (my_uint_len i) \<and> length ds \<le> 20 \<and> (i \<noteq> 0 \<longrightarrow> 10 ^ (length ds - 1) \<le> unat i) \<and>
    my_uitos out i (my_uint_len i) = Ret (ds @ drop (length ds) out) \<and>
    my_read_decimal_ptr (ds @ c # rest) = Ret (of_nat (unat i), length ds)"
proof -
  let ?k = "unat (my_uint_len i)"
  have "my_read_decimal_ptr (digits ?k (unat i) @ c # rest) = Ret (of_nat (unat i), ?k)"
    using read_decimal_digits [OF my_uint_len_digits(1) [of i], of 0 "c # rest" 0] assms(2) by (auto simp: my_read_decimal_ptr_def)
  then show ?thesis using uitos_digits [OF assms(1), of i] my_uint_len_digits(2,3) [of i]
    by (intro exI [of _ "digits ?k (unat i)"]) (simp add: my_uitos_def)
qed

theorem uitos_roundtrip_witness:
  "\<exists>ds. length ds = unat (my_uint_len 0) \<and> my_uitos (replicate 20 0) 0 (my_uint_len 0) = Ret (ds @ drop (length ds) (replicate 20 0)) \<and>
    my_read_decimal_ptr (ds @ 0 # []) = Ret (0, length ds)"
  using uitos_roundtrip [of 0 "replicate 20 0" 0 "[]"] my_uint_len_digits(3) [of 0] by auto

text \<open>
  \<open>my_strlcpy\<close> and \<open>my_strlcat\<close> with the size of the target stay inside it, terminate the result, cut it to the
  size and return the length that the whole string would have.
\<close>

theorem strlcpy_strlcat_bounded:
  assumes "list_all (\<lambda>c. c \<noteq> 0) as" "list_all (\<lambda>c. c \<noteq> 0) cs" "length as < len" "len \<le> length s1" "take (length as + 1) s1 = as @ [0]"
  shows "my_strlcpy s1 (cs @ 0 # rest) len = Ret (take (len - 1) cs @ 0 # drop (Suc (min (len - 1) (length cs))) s1, length cs) \<and>
    my_strlcat s1 (cs @ 0 # rest) len =
      Ret (as @ take (len - length as - 1) cs @ 0 # drop (Suc (min (len - length as - 1) (length cs))) (drop (length as) s1), length as + length cs)"
proof
  show "my_strlcpy s1 (cs @ 0 # rest) len = Ret (take (len - 1) cs @ 0 # drop (Suc (min (len - 1) (length cs))) s1, length cs)"
    by (rule my_strlcpy_spec) (use assms in simp_all)
  obtain tail where t: "s1 = as @ 0 # tail" using assms(5) append_take_drop_id [of "length as + 1" s1] by (metis append_Cons append_assoc append_Nil)
  have "my_strlcpy (drop (length as) s1) (cs @ 0 # rest) (len - length as) =
      Ret (take (len - length as - 1) cs @ 0 # drop (Suc (min (len - length as - 1) (length cs))) (drop (length as) s1), length cs)"
    by (rule my_strlcpy_spec) (use assms in simp_all)
  then show "my_strlcat s1 (cs @ 0 # rest) len =
      Ret (as @ take (len - length as - 1) cs @ 0 # drop (Suc (min (len - length as - 1) (length cs))) (drop (length as) s1), length as + length cs)"
    using strlcat_pos_spec [OF assms(1,3), of tail] assms(3) t by (simp add: my_strlcat_def)
qed

theorem strlcpy_strlcat_bounded_witness:
  "my_strlcpy [65, 0, 9, 9] [66, 67, 68, 69, 0] 4 = Ret ([66, 67, 68, 0], 4) \<and> my_strlcat [65, 0, 9, 9] [66, 67, 68, 69, 0] 4 = Ret ([65, 66, 67, 0], 5)"
  using strlcpy_strlcat_bounded [of "[65]" "[66, 67, 68, 69]" 4 "[65, 0, 9, 9]" "[]"] by simp

text \<open>
  \<open>my_strtoui\<close> on a string of digits returns its value when it is at most 2147483647. Past that the
  multiplication overflows, so that the test for a smaller value afterwards comes too late.
\<close>

theorem my_strtoui_digits:
  assumes "cs \<noteq> []" "list_all is_digit cs"
  shows "my_strtoui (cs @ 0 # rest) = (if dec_val 0 cs \<le> 2147483647 then Ret (True, dec_val 0 cs) else UB SignedOverflow)"
  using strtoui_loop_value [OF assms(2), of 0 rest] assms digit_range [of "hd cs"] by (cases cs) (simp_all add: my_strtoui_def)

theorem my_strtoui_digits_witness: "my_strtoui [52, 50, 0] = Ret (True, 42)"
  using my_strtoui_digits [of "[52, 50]" "[]"] by (simp add: is_digit_def dec_val_def)

text \<open>
  \<open>my_isspace\<close> accepts the white space of the C locale and also 0, as the terminator of the literal
  is an element of the array.
\<close>

theorem my_isspace_set: "my_isspace ch = 1 \<longleftrightarrow> ch \<in> {9, 10, 11, 12, 13, 32} \<union> {0}"
  by (auto simp: my_isspace_def spaces_def)

end
