(* ===== verification/ConvertUTF.thy ===== *)
theory ConvertUTF
  imports Prelude
begin

text \<open>
  \<^verbatim>\<open>breakpad/common/convert_UTF.c\<close>: the conversions between UTF-8, UTF-16 and UTF-32 that the crash
  reporter uses. A source pointer is the rest of the source; a target pointer is what was written so
  far with the room that is left. \<open>strict\<close> is \<open>flags == strictConversion\<close>. \<open>UTF32\<close> is \<open>unsigned long\<close>, 32
  bits on armeabi-v7a. The lemmas relate the conversions to the encoding forms of the Unicode standard.
\<close>

datatype ConversionResult = conversionOK | sourceExhausted | targetExhausted | sourceIllegal

definition UNI_REPLACEMENT_CHAR :: u32 where
  "UNI_REPLACEMENT_CHAR = 0xFFFD"

definition surrogate :: "u32 \<Rightarrow> bool" where
  "surrogate ch \<longleftrightarrow> 0xD800 \<le> ch \<and> ch \<le> 0xDFFF"

section \<open>From UTF-32 to UTF-16 and back\<close>

text \<open>The two units of a character above the basic plane, as lines 118-120 and 414-416 write them.\<close>

definition surrogate_pair :: "u32 \<Rightarrow> u16 list" where
  "surrogate_pair ch = (let ch = ch - 0x10000 in [ucast (drop_bit 10 ch + 0xD800), ucast ((ch AND 0x3FF) + 0xDC00)])"

fun ConvertUTF32toUTF16 :: "bool \<Rightarrow> u32 list \<Rightarrow> nat \<Rightarrow> ConversionResult \<Rightarrow> u16 list \<Rightarrow> ConversionResult \<times> u32 list \<times> u16 list" where
  "ConvertUTF32toUTF16 strict [] room result target = (result, [], target)"
| "ConvertUTF32toUTF16 strict (ch # source) room result target =
     (if room = 0 then (targetExhausted, ch # source, target)
      else if ch \<le> 0xFFFF then
        if surrogate ch then
          if strict then (sourceIllegal, ch # source, target)
          else ConvertUTF32toUTF16 strict source (room - 1) result (target @ [ucast UNI_REPLACEMENT_CHAR])
        else ConvertUTF32toUTF16 strict source (room - 1) result (target @ [ucast ch])
      else if 0x10FFFF < ch then
        if strict then ConvertUTF32toUTF16 strict source room sourceIllegal target
        else ConvertUTF32toUTF16 strict source (room - 1) result (target @ [ucast UNI_REPLACEMENT_CHAR])
      else if room \<le> 1 then (targetExhausted, ch # source, target)
      else ConvertUTF32toUTF16 strict source (room - 2) result (target @ surrogate_pair ch))"

text \<open>One character from UTF-16, shared by lines 137-166 and 243-272: the error that ends the loop, or the character and the rest.\<close>

definition read16 :: "bool \<Rightarrow> u16 \<Rightarrow> u16 list \<Rightarrow> ConversionResult + (u32 \<times> u16 list)" where
  "read16 strict w source =
     (let ch = ucast w :: u32 in
      if 0xD800 \<le> ch \<and> ch \<le> 0xDBFF then
        (case source of
           [] \<Rightarrow> Inl sourceExhausted
         | w2 # source' \<Rightarrow>
             let ch2 = ucast w2 :: u32 in
             if 0xDC00 \<le> ch2 \<and> ch2 \<le> 0xDFFF then Inr (push_bit 10 (ch - 0xD800) + (ch2 - 0xDC00) + 0x10000, source')
             else if strict then Inl sourceIllegal
             else Inr (ch, source))
      else if strict \<and> 0xDC00 \<le> ch \<and> ch \<le> 0xDFFF then Inl sourceIllegal
      else Inr (ch, source))"

lemma read16_shorter: "read16 strict w source = Inr (ch, source') \<Longrightarrow> length source' \<le> length source"
  by (auto simp: read16_def Let_def split: if_splits list.splits)

function ConvertUTF16toUTF32 :: "bool \<Rightarrow> u16 list \<Rightarrow> nat \<Rightarrow> u32 list \<Rightarrow> ConversionResult \<times> u16 list \<times> u32 list" where
  "ConvertUTF16toUTF32 strict [] room target = (conversionOK, [], target)"
| "ConvertUTF16toUTF32 strict (w # source) room target =
     (case read16 strict w source of
        Inl e \<Rightarrow> (e, w # source, target)
      | Inr (ch, source') \<Rightarrow>
          if room = 0 then (targetExhausted, w # source, target)
          else ConvertUTF16toUTF32 strict source' (room - 1) (target @ [ch]))"
  by pat_completeness auto
termination by (relation "measure (\<lambda>(strict, source, room, target). length source)") (auto dest: read16_shorter)

section \<open>UTF-8\<close>

definition trailingBytesForUTF8 :: "nat list" where
  "trailingBytesForUTF8 = replicate 192 0 @ replicate 32 1 @ replicate 16 2 @ replicate 8 3 @ replicate 4 4 @ replicate 4 5"

definition offsetsFromUTF8 :: "u32 list" where
  "offsetsFromUTF8 = [0x00000000, 0x00003080, 0x000E2080, 0x03C82080, 0xFA082080, 0x82082080]"

definition firstByteMark :: "byte list" where
  "firstByteMark = [0x00, 0x00, 0xC0, 0xE0, 0xF0, 0xF8, 0xFC]"

text \<open>The switches that fall through: \<open>bytesToWrite\<close> bytes of \<open>ch\<close>, lines 287-292 and 463-468.\<close>

definition trail :: "u32 \<Rightarrow> byte" where
  "trail ch = ucast ((ch OR 0x80) AND 0xBF)"

definition write8 :: "nat \<Rightarrow> u32 \<Rightarrow> byte list" where
  "write8 n ch =
     (let lead = (\<lambda>ch. ucast (ch OR ucast (firstByteMark ! n))) in
      if n = 4 then [lead (drop_bit 6 (drop_bit 6 (drop_bit 6 ch))), trail (drop_bit 6 (drop_bit 6 ch)), trail (drop_bit 6 ch), trail ch]
      else if n = 3 then [lead (drop_bit 6 (drop_bit 6 ch)), trail (drop_bit 6 ch), trail ch]
      else if n = 2 then [lead (drop_bit 6 ch), trail ch]
      else [lead ch])"

definition bytes_needed :: "u32 \<Rightarrow> nat" where
  "bytes_needed ch = (if ch < 0x80 then 1 else if ch < 0x800 then 2 else if ch < 0x10000 then 3 else 4)"

function ConvertUTF16toUTF8 :: "bool \<Rightarrow> u16 list \<Rightarrow> nat \<Rightarrow> byte list \<Rightarrow> ConversionResult \<times> u16 list \<times> byte list" where
  "ConvertUTF16toUTF8 strict [] room target = (conversionOK, [], target)"
| "ConvertUTF16toUTF8 strict (w # source) room target =
     (case read16 strict w source of
        Inl e \<Rightarrow> (e, w # source, target)
      | Inr (ch, source') \<Rightarrow>
          let (n, ch) = (if ch < 0x110000 then (bytes_needed ch, ch) else (3, UNI_REPLACEMENT_CHAR)) in
          if room < n then (targetExhausted, w # source, target)
          else ConvertUTF16toUTF8 strict source' (room - n) (target @ write8 n ch))"
  by pat_completeness auto
termination by (relation "measure (\<lambda>(strict, source, room, target). length source)") (auto dest: read16_shorter)

definition isLegalUTF8 :: "byte list \<Rightarrow> nat \<Rightarrow> bool" where
  "isLegalUTF8 s n =
     (let first_ok = \<not> (0x80 \<le> s ! 0 \<and> s ! 0 < 0xC2) \<and> \<not> 0xF4 < s ! 0;
          second_ok =
            s ! 1 \<le> 0xBF \<and>
            (if s ! 0 = 0xE0 then \<not> s ! 1 < 0xA0
             else if s ! 0 = 0xED then \<not> 0x9F < s ! 1
             else if s ! 0 = 0xF0 then \<not> s ! 1 < 0x90
             else if s ! 0 = 0xF4 then \<not> 0x8F < s ! 1
             else \<not> s ! 1 < 0x80) in
      if n = 4 then \<not> (s ! 3 < 0x80 \<or> 0xBF < s ! 3) \<and> \<not> (s ! 2 < 0x80 \<or> 0xBF < s ! 2) \<and> second_ok \<and> first_ok
      else if n = 3 then \<not> (s ! 2 < 0x80 \<or> 0xBF < s ! 2) \<and> second_ok \<and> first_ok
      else if n = 2 then second_ok \<and> first_ok
      else if n = 1 then first_ok
      else False)"

definition isLegalUTF8Sequence :: "byte list \<Rightarrow> bool" where
  "isLegalUTF8Sequence source =
     (let length' = trailingBytesForUTF8 ! unat (source ! 0) + 1 in
      if length source < length' then False else isLegalUTF8 source length')"

text \<open>One character from UTF-8, lines 361-381 and 485-505: the error, or the number of bytes after the first and the character.\<close>

fun sum_bytes :: "nat \<Rightarrow> u32 \<Rightarrow> byte list \<Rightarrow> u32" where
  "sum_bytes 0 ch s = ch + ucast (s ! 0)"
| "sum_bytes (Suc n) ch s = sum_bytes n (push_bit 6 (ch + ucast (s ! 0))) (tl s)"

definition read8 :: "byte list \<Rightarrow> ConversionResult + (nat \<times> u32)" where
  "read8 source =
     (let extra = trailingBytesForUTF8 ! unat (source ! 0) in
      if length source \<le> extra then Inl sourceExhausted
      else if \<not> isLegalUTF8 source (extra + 1) then Inl sourceIllegal
      else Inr (extra, sum_bytes extra 0 source - offsetsFromUTF8 ! extra))"

function ConvertUTF8toUTF16 :: "bool \<Rightarrow> byte list \<Rightarrow> nat \<Rightarrow> u16 list \<Rightarrow> ConversionResult \<times> byte list \<times> u16 list" where
  "ConvertUTF8toUTF16 strict source room target =
     (if source = [] then (conversionOK, [], target)
      else case read8 source of
        Inl e \<Rightarrow> (e, source, target)
      | Inr (extra, ch) \<Rightarrow>
          let source' = drop (extra + 1) source in
          if room = 0 then (targetExhausted, source, target)
          else if ch \<le> 0xFFFF then
            if surrogate ch then
              if strict then (sourceIllegal, source, target)
              else ConvertUTF8toUTF16 strict source' (room - 1) (target @ [ucast UNI_REPLACEMENT_CHAR])
            else ConvertUTF8toUTF16 strict source' (room - 1) (target @ [ucast ch])
          else if 0x10FFFF < ch then
            if strict then (sourceIllegal, source, target)
            else ConvertUTF8toUTF16 strict source' (room - 1) (target @ [ucast UNI_REPLACEMENT_CHAR])
          else if room \<le> 1 then (targetExhausted, source, target)
          else ConvertUTF8toUTF16 strict source' (room - 2) (target @ surrogate_pair ch))"
  by pat_completeness auto
termination by (relation "measure (\<lambda>(strict, source, room, target). length source)") (auto simp: diff_less)

declare ConvertUTF8toUTF16.simps [simp del]

fun ConvertUTF32toUTF8 :: "bool \<Rightarrow> u32 list \<Rightarrow> nat \<Rightarrow> ConversionResult \<Rightarrow> byte list \<Rightarrow> ConversionResult \<times> u32 list \<times> byte list" where
  "ConvertUTF32toUTF8 strict [] room result target = (result, [], target)"
| "ConvertUTF32toUTF8 strict (ch # source) room result target =
     (if strict \<and> surrogate ch then (sourceIllegal, ch # source, target)
      else
        let (n, c, result) = (if ch \<le> 0x10FFFF then (bytes_needed ch, ch, result) else (3, UNI_REPLACEMENT_CHAR, sourceIllegal)) in
        if room < n then (targetExhausted, ch # source, target)
        else ConvertUTF32toUTF8 strict source (room - n) result (target @ write8 n c))"

function ConvertUTF8toUTF32 :: "bool \<Rightarrow> byte list \<Rightarrow> nat \<Rightarrow> ConversionResult \<Rightarrow> u32 list \<Rightarrow> ConversionResult \<times> byte list \<times> u32 list" where
  "ConvertUTF8toUTF32 strict source room result target =
     (if source = [] then (result, [], target)
      else case read8 source of
        Inl e \<Rightarrow> (e, source, target)
      | Inr (extra, ch) \<Rightarrow>
          let source' = drop (extra + 1) source in
          if room = 0 then (targetExhausted, source, target)
          else if ch \<le> 0x10FFFF then
            if surrogate ch then
              if strict then (sourceIllegal, source, target)
              else ConvertUTF8toUTF32 strict source' (room - 1) result (target @ [UNI_REPLACEMENT_CHAR])
            else ConvertUTF8toUTF32 strict source' (room - 1) result (target @ [ch])
          else ConvertUTF8toUTF32 strict source' (room - 1) sourceIllegal (target @ [UNI_REPLACEMENT_CHAR]))"
  by pat_completeness auto
termination by (relation "measure (\<lambda>(strict, source, room, result, target). length source)") (auto simp: diff_less)

declare ConvertUTF8toUTF32.simps [simp del]

section \<open>The encoding forms of the standard\<close>

definition scalar :: "nat \<Rightarrow> bool" where
  "scalar c \<longleftrightarrow> c < 0x110000 \<and> \<not> (0xD800 \<le> c \<and> c \<le> 0xDFFF)"

definition utf16 :: "nat \<Rightarrow> u16 list" where
  "utf16 c = (if c < 0x10000 then [of_nat c]
     else [of_nat (0xD800 + (c - 0x10000) div 1024), of_nat (0xDC00 + (c - 0x10000) mod 1024)])"

definition utf8 :: "nat \<Rightarrow> byte list" where
  "utf8 c =
     (if c < 0x80 then [of_nat c]
      else if c < 0x800 then [of_nat (0xC0 + c div 64), of_nat (0x80 + c mod 64)]
      else if c < 0x10000 then [of_nat (0xE0 + c div 4096), of_nat (0x80 + c div 64 mod 64), of_nat (0x80 + c mod 64)]
      else [of_nat (0xF0 + c div 262144), of_nat (0x80 + c div 4096 mod 64), of_nat (0x80 + c div 64 mod 64), of_nat (0x80 + c mod 64)])"

subsection \<open>Writing a character\<close>

lemma less_u32 [simp]:
  "k < 4294967296 \<Longrightarrow> (of_nat k < (numeral n :: u32)) = (k < unat (numeral n :: u32))"
  "k < 4294967296 \<Longrightarrow> ((numeral n :: u32) \<le> of_nat k) = (unat (numeral n :: u32) \<le> k)"
  "k < 4294967296 \<Longrightarrow> ((numeral n :: u32) < of_nat k) = (unat (numeral n :: u32) < k)"
  "k < 4294967296 \<Longrightarrow> (of_nat k \<le> (numeral n :: u32)) = (k \<le> unat (numeral n :: u32))"
  by (simp_all only: word_less_nat_alt word_le_nat_alt unat_of_nat32)

lemma ucast_of_nat [simp]: "(ucast (of_nat k :: u32) :: byte) = of_nat k" "(ucast (of_nat k :: u32) :: u16) = of_nat k"
  by (rule bit_word_eqI; auto simp: bit_simps)+

lemma trail_take: "trail ch = trail (take_bit 6 ch)"
proof (rule bit_word_eqI)
  fix n assume n: "n < LENGTH(8)"
  have "n < 6 \<or> n = 6 \<or> n = 7" using n by auto
  then show "bit (trail ch) n = bit (trail (take_bit 6 ch)) n"
    using n by (auto simp: trail_def bit_simps)
qed

lemma trail_of_nat: "trail (of_nat k) = of_nat (0x80 + k mod 64)"
proof -
  have "take_bit 6 (of_nat k :: u32) = of_nat (take_bit 6 k)" by (rule bit_word_eqI) (auto simp: bit_simps)
  then have "take_bit 6 (of_nat k :: u32) = of_nat (k mod 64)" by (simp add: take_bit_eq_mod [of 6 k])
  then have "trail (of_nat k) = trail (of_nat (k mod 64))" using trail_take [of "of_nat k"] by simp
  moreover have "list_all (\<lambda>j. trail (of_nat j) = of_nat (0x80 + j)) [0..<64]" by code_simp
  ultimately show ?thesis by (simp only: list_all_iff set_upt) simp
qed

lemma lead_of_nat:
  "k < 32 \<Longrightarrow> ucast (of_nat k OR (ucast (0xC0 :: byte) :: u32)) = (of_nat (0xC0 + k) :: byte)"
  "k < 16 \<Longrightarrow> ucast (of_nat k OR (ucast (0xE0 :: byte) :: u32)) = (of_nat (0xE0 + k) :: byte)"
  "k < 8 \<Longrightarrow> ucast (of_nat k OR (ucast (0xF0 :: byte) :: u32)) = (of_nat (0xF0 + k) :: byte)"
proof -
  have "list_all (\<lambda>k. ucast (of_nat k OR (ucast (0xC0 :: byte) :: u32)) = (of_nat (0xC0 + k) :: byte)) [0..<32]"
    "list_all (\<lambda>k. ucast (of_nat k OR (ucast (0xE0 :: byte) :: u32)) = (of_nat (0xE0 + k) :: byte)) [0..<16]"
    "list_all (\<lambda>k. ucast (of_nat k OR (ucast (0xF0 :: byte) :: u32)) = (of_nat (0xF0 + k) :: byte)) [0..<8]"
    by code_simp+
  then show "k < 32 \<Longrightarrow> ucast (of_nat k OR (ucast (0xC0 :: byte) :: u32)) = (of_nat (0xC0 + k) :: byte)"
    "k < 16 \<Longrightarrow> ucast (of_nat k OR (ucast (0xE0 :: byte) :: u32)) = (of_nat (0xE0 + k) :: byte)"
    "k < 8 \<Longrightarrow> ucast (of_nat k OR (ucast (0xF0 :: byte) :: u32)) = (of_nat (0xF0 + k) :: byte)"
    by (simp_all only: list_all_iff set_upt Ball_def atLeastLessThan_iff) simp_all
qed

lemma write8_utf8: "c < 0x110000 \<Longrightarrow> write8 (bytes_needed (of_nat c)) (of_nat c) = utf8 c"
proof -
  assume c: "c < 0x110000"
  have d: "drop_bit 6 (of_nat k :: u32) = of_nat (k div 64)" if "k < 0x110000" for k using drop_bit_of_nat32 [of k 6] that by simp
  have e: "c div 64 < 0x110000" "c div 64 div 64 < 0x110000" "c div 64 div 64 = c div 4096" "c div 4096 div 64 = c div 262144"
    using c by (simp_all add: div_mult2_eq [symmetric])
  consider "c < 0x80" | "0x80 \<le> c" "c < 0x800" | "0x800 \<le> c" "c < 0x10000" | "0x10000 \<le> c" by linarith
  then show ?thesis
  proof cases
    case 1
    then show ?thesis by (simp add: bytes_needed_def write8_def utf8_def firstByteMark_def)
  next
    case 2
    then have "c div 64 < 32" by simp
    then show ?thesis using 2 lead_of_nat(1) [of "c div 64"]
      by (simp add: bytes_needed_def write8_def utf8_def firstByteMark_def d trail_of_nat)
  next
    case 3
    then have "c div 4096 < 16" by simp
    then show ?thesis using 3 e lead_of_nat(2) [of "c div 4096"]
      by (simp add: bytes_needed_def write8_def utf8_def firstByteMark_def d trail_of_nat)
  next
    case 4
    then have "c div 262144 < 8" "c div 4096 < 0x110000" using c by simp_all
    then show ?thesis using 4 c e lead_of_nat(3) [of "c div 262144"]
      by (simp add: bytes_needed_def write8_def utf8_def firstByteMark_def d trail_of_nat)
  qed
qed

lemma length_utf8: "c < 0x110000 \<Longrightarrow> length (utf8 c) = bytes_needed (of_nat c)" "0 < length (utf8 c)"
  by (simp_all add: utf8_def bytes_needed_def)

lemma surrogate_pair_utf16: "0x10000 \<le> c \<Longrightarrow> c < 0x110000 \<Longrightarrow> surrogate_pair (of_nat c) = utf16 c"
proof -
  assume c: "0x10000 \<le> c" "c < 0x110000"
  have sub: "(of_nat c :: u32) - 0x10000 = of_nat (c - 0x10000)" using c by (simp add: of_nat_diff)
  have m: "(of_nat k :: u32) AND 0x3FF = of_nat (k mod 1024)" for k
  proof -
    have "(of_nat k :: u32) AND 0x3FF = take_bit 10 (of_nat k)" by (simp add: take_bit_eq_mask mask_eq_exp_minus_1)
    also have "\<dots> = of_nat (take_bit 10 k)" by (rule bit_word_eqI) (auto simp: bit_simps)
    finally show ?thesis by (simp add: take_bit_eq_mod [of 10 k])
  qed
  have "(ucast (of_nat k + numeral n :: u32) :: u16) = of_nat (numeral n + k)" for k n
  proof -
    have "(of_nat k + numeral n :: u32) = of_nat (numeral n + k)" by simp
    then show ?thesis by (simp only: ucast_of_nat)
  qed
  then show ?thesis using c sub m [of "c - 0x10000"] drop_bit_of_nat32 [of "c - 0x10000" 10] by (simp add: surrogate_pair_def utf16_def Let_def)
qed

subsection \<open>Reading a character\<close>

lemma ucast_up [simp]: "k < 256 \<Longrightarrow> (ucast (of_nat k :: byte) :: u32) = of_nat k" "k < 65536 \<Longrightarrow> (ucast (of_nat k :: u16) :: u32) = of_nat k"
  by (simp_all add: word_unat_eq_iff unsigned_ucast_eq unsigned_of_nat take_bit_nat_eq_self)

lemma less_u8 [simp]:
  "k < 256 \<Longrightarrow> (of_nat k < (numeral n :: byte)) = (k < unat (numeral n :: byte))"
  "k < 256 \<Longrightarrow> ((numeral n :: byte) \<le> of_nat k) = (unat (numeral n :: byte) \<le> k)"
  "k < 256 \<Longrightarrow> ((numeral n :: byte) < of_nat k) = (unat (numeral n :: byte) < k)"
  "k < 256 \<Longrightarrow> (of_nat k \<le> (numeral n :: byte)) = (k \<le> unat (numeral n :: byte))"
  "k < 256 \<Longrightarrow> (of_nat k = (numeral n :: byte)) = (k = unat (numeral n :: byte))"
  by (simp_all only: word_less_nat_alt word_le_nat_alt word_unat_eq_iff unat_of_nat8)

lemma read16_utf16:
  assumes "scalar c"
  shows "read16 strict (hd (utf16 c)) (tl (utf16 c) @ rest) = Inr (of_nat c, rest)"
proof (cases "c < 0x10000")
  case True
  then show ?thesis using assms by (auto simp: read16_def utf16_def scalar_def Let_def)
next
  case False
  define hi lo where "hi = (c - 0x10000) div 1024" and "lo = (c - 0x10000) mod 1024"
  have b: "hi < 1024" "lo < 1024" "c = hi * 1024 + lo + 0x10000" using assms False by (simp_all add: hi_def lo_def scalar_def)
  have "push_bit 10 (of_nat (0xD800 + hi) - 0xD800) + (of_nat (0xDC00 + lo) - 0xDC00) + 0x10000 = (of_nat c :: u32)"
    unfolding b(3) by (simp add: push_bit_eq_mult)
  moreover have "utf16 c = [of_nat (0xD800 + hi), of_nat (0xDC00 + lo)]" using False by (simp add: utf16_def hi_def lo_def)
  moreover have "0xD800 + hi < 65536" "0xDC00 + lo < 65536" using b by simp_all
  ultimately show ?thesis using b(1,2)
    by (simp only: read16_def Let_def list.sel append_Cons append_Nil list.case ucast_up less_u32) simp
qed

lemma trailing_nth:
  "k < 192 \<Longrightarrow> trailingBytesForUTF8 ! k = 0" "192 \<le> k \<Longrightarrow> k < 224 \<Longrightarrow> trailingBytesForUTF8 ! k = 1"
  "224 \<le> k \<Longrightarrow> k < 240 \<Longrightarrow> trailingBytesForUTF8 ! k = 2" "240 \<le> k \<Longrightarrow> k < 248 \<Longrightarrow> trailingBytesForUTF8 ! k = 3"
  "248 \<le> k \<Longrightarrow> k < 256 \<Longrightarrow> 4 \<le> trailingBytesForUTF8 ! k"
  by (simp_all add: trailingBytesForUTF8_def nth_append less_diff_conv2)

text \<open>
  What \<open>isLegalUTF8\<close> asks of the second byte \<open>y\<close> after the first byte \<open>x\<close>: there is no lower bound after ED and F4.
\<close>

definition second_ok :: "nat \<Rightarrow> nat \<Rightarrow> bool" where
  "second_ok x y \<longleftrightarrow> y < 0xC0 \<and> (if x = 0xE0 then 0xA0 \<le> y else if x = 0xED then y < 0xA0 else if x = 0xF0 then 0x90 \<le> y else if x = 0xF4 then y < 0x90 else 0x80 \<le> y)"

abbreviation trail_ok :: "nat \<Rightarrow> bool" where
  "trail_ok y \<equiv> 0x80 \<le> y \<and> y < 0xC0"

lemma read8_1: "x < 192 \<Longrightarrow> read8 (of_nat x # rest) = (if x < 128 then Inr (0, of_nat x) else Inl sourceIllegal)"
  by (auto simp: read8_def trailing_nth isLegalUTF8_def offsetsFromUTF8_def)

lemma read8_2:
  assumes "192 \<le> x" "x < 224" "y < 256"
  shows "read8 (of_nat x # of_nat y # rest) = (if 0xC2 \<le> x \<and> second_ok x y then Inr (1, of_nat x * 64 + of_nat y - 0x3080) else Inl sourceIllegal)"
  using assms by (auto simp: read8_def trailing_nth isLegalUTF8_def offsetsFromUTF8_def second_ok_def push_bit_eq_mult)

lemma read8_3:
  assumes "224 \<le> x" "x < 240" "y < 256" "z < 256"
  shows "read8 (of_nat x # of_nat y # of_nat z # rest) =
    (if trail_ok z \<and> second_ok x y then Inr (2, of_nat x * 4096 + of_nat y * 64 + of_nat z - 0xE2080) else Inl sourceIllegal)"
proof -
  have "sum_bytes 2 0 (of_nat x # of_nat y # of_nat z # rest) = of_nat x * 4096 + of_nat y * 64 + of_nat z"
    using assms by (simp add: numeral_2_eq_2 push_bit_eq_mult algebra_simps)
  then show ?thesis using assms by (auto simp: read8_def trailing_nth isLegalUTF8_def offsetsFromUTF8_def second_ok_def)
qed

lemma read8_4:
  assumes "240 \<le> x" "x < 248" "y < 256" "z < 256" "w < 256"
  shows "read8 (of_nat x # of_nat y # of_nat z # of_nat w # rest) =
    (if x \<le> 0xF4 \<and> trail_ok w \<and> trail_ok z \<and> second_ok x y then Inr (3, of_nat x * 262144 + of_nat y * 4096 + of_nat z * 64 + of_nat w - 0x3C82080) else Inl sourceIllegal)"
proof -
  have "sum_bytes 3 0 (of_nat x # of_nat y # of_nat z # of_nat w # rest) = of_nat x * 262144 + of_nat y * 4096 + of_nat z * 64 + of_nat w"
    using assms by (simp add: numeral_3_eq_3 push_bit_eq_mult algebra_simps)
  then show ?thesis using assms by (auto simp: read8_def trailing_nth isLegalUTF8_def offsetsFromUTF8_def second_ok_def)
qed

lemma base64_digits:
  "c = c div 64 * 64 + c mod (64 :: nat)"
  "c = c div 4096 * 4096 + c div 64 mod 64 * 64 + c mod (64 :: nat)"
  "c = c div 262144 * 262144 + c div 4096 mod 64 * 4096 + c div 64 mod 64 * 64 + c mod (64 :: nat)"
proof -
  show a: "c = c div 64 * 64 + c mod (64 :: nat)" by simp
  have "c div 64 = c div 64 div 64 * 64 + c div 64 mod 64" "c div 4096 = c div 4096 div 64 * 64 + c div 4096 mod 64" by simp_all
  moreover have "c div 64 div 64 = c div 4096" "c div 4096 div 64 = c div 262144" by (simp_all add: div_mult2_eq [symmetric])
  ultimately have d: "c div 64 = c div 4096 * 64 + c div 64 mod 64" "c div 4096 = c div 262144 * 64 + c div 4096 mod 64" by (simp_all only:)
  show "c = c div 4096 * 4096 + c div 64 mod 64 * 64 + c mod (64 :: nat)" using a d by linarith
  show "c = c div 262144 * 262144 + c div 4096 mod 64 * 4096 + c div 64 mod 64 * 64 + c mod (64 :: nat)" using a d by linarith
qed

lemma offset_sums:
  "(0xC0 + q) * 64 + (0x80 + r) - 0x3080 = q * 64 + (r :: nat)" "0x3080 \<le> (0xC0 + q) * 64 + (0x80 + r :: nat)"
  "(0xE0 + q) * 4096 + (0x80 + r) * 64 + (0x80 + t) - 0xE2080 = q * 4096 + r * 64 + (t :: nat)"
  "0xE2080 \<le> (0xE0 + q) * 4096 + (0x80 + r) * 64 + (0x80 + t :: nat)"
  "(0xF0 + q) * 262144 + (0x80 + r) * 4096 + (0x80 + t) * 64 + (0x80 + v) - 0x3C82080 = q * 262144 + r * 4096 + t * 64 + (v :: nat)"
  "0x3C82080 \<le> (0xF0 + q) * 262144 + (0x80 + r) * 4096 + (0x80 + t) * 64 + (0x80 + v :: nat)"
  by (simp_all add: algebra_simps)

lemma read8_utf8:
  assumes "scalar c"
  shows "read8 (utf8 c @ rest) = Inr (length (utf8 c) - 1, of_nat c)"
proof -
  have c: "c < 0x110000" using assms by (simp add: scalar_def)
  consider "c < 0x80" | "0x80 \<le> c" "c < 0x800" | "0x800 \<le> c" "c < 0x10000" | "0x10000 \<le> c" by linarith
  then show ?thesis
  proof cases
    case 1
    then show ?thesis by (simp add: utf8_def read8_1)
  next
    case 2
    let ?x = "0xC0 + c div 64" and ?y = "0x80 + c mod 64"
    have n: "?x * 64 + ?y - 0x3080 = c" "0x3080 \<le> ?x * 64 + ?y"
      by (simp_all only: offset_sums base64_digits [of c, symmetric])
    have "(of_nat (?x * 64 + ?y - 0x3080) :: u32) = of_nat ?x * 64 + of_nat ?y - 0x3080" by (subst of_nat_diff [OF n(2)]) (simp only: of_nat_add of_nat_mult of_nat_numeral)
    then have "of_nat ?x * 64 + of_nat ?y - 0x3080 = (of_nat c :: u32)" unfolding n(1) by (rule sym)
    moreover have "read8 (of_nat ?x # of_nat ?y # rest) = Inr (1, of_nat ?x * 64 + of_nat ?y - 0x3080)"
      using 2 by (subst read8_2) (auto simp: second_ok_def)
    ultimately have "read8 (of_nat ?x # of_nat ?y # rest) = Inr (1, of_nat c)" by (simp only:)
    moreover have "utf8 c = [of_nat ?x, of_nat ?y]" using 2 by (simp add: utf8_def)
    ultimately show ?thesis by (simp only: append_Cons append_Nil list.size) simp
  next
    case 3
    let ?x = "0xE0 + c div 4096" and ?y = "0x80 + c div 64 mod 64" and ?z = "0x80 + c mod 64"
    have n: "?x * 4096 + ?y * 64 + ?z - 0xE2080 = c" "0xE2080 \<le> ?x * 4096 + ?y * 64 + ?z"
      by (simp_all only: offset_sums base64_digits [of c, symmetric])
    have s: "second_ok ?x ?y"
    proof -
      have "c div 4096 = 0 \<Longrightarrow> 32 \<le> c div 64 mod 64" using 3 base64_digits(2) [of c] mod_less_divisor [of 64 c] by linarith
      moreover have "c div 64 mod 64 < 32" if "c div 4096 = 13"
      proof -
        have "c < 0xD800 \<or> 0xDFFF < c" using assms by (auto simp: scalar_def)
        then show ?thesis using that base64_digits(2) [of c] mod_less_divisor [of 64 c] mod_less_divisor [of 64 "c div 64"] by (elim disjE) linarith+
      qed
      moreover have "c div 4096 < 16" using 3 by simp
      ultimately show ?thesis by (auto simp: second_ok_def)
    qed
    have "(of_nat (?x * 4096 + ?y * 64 + ?z - 0xE2080) :: u32) = of_nat ?x * 4096 + of_nat ?y * 64 + of_nat ?z - 0xE2080"
      by (subst of_nat_diff [OF n(2)]) (simp only: of_nat_add of_nat_mult of_nat_numeral)
    moreover have "read8 (of_nat ?x # of_nat ?y # of_nat ?z # rest) = Inr (2, of_nat ?x * 4096 + of_nat ?y * 64 + of_nat ?z - 0xE2080)"
      using 3 s by (subst read8_3) auto
    ultimately have "read8 (of_nat ?x # of_nat ?y # of_nat ?z # rest) = Inr (2, of_nat c)" unfolding n(1) by (simp only:)
    moreover have "utf8 c = [of_nat ?x, of_nat ?y, of_nat ?z]" using 3 by (simp add: utf8_def)
    ultimately show ?thesis by (simp only: append_Cons append_Nil list.size) simp
  next
    case 4
    let ?x = "0xF0 + c div 262144" and ?y = "0x80 + c div 4096 mod 64" and ?z = "0x80 + c div 64 mod 64" and ?w = "0x80 + c mod 64"
    have n: "?x * 262144 + ?y * 4096 + ?z * 64 + ?w - 0x3C82080 = c" "0x3C82080 \<le> ?x * 262144 + ?y * 4096 + ?z * 64 + ?w"
      by (simp_all only: offset_sums base64_digits [of c, symmetric])
    have s: "second_ok ?x ?y"
    proof -
      have "c div 262144 = 0 \<Longrightarrow> 16 \<le> c div 4096 mod 64" using 4 base64_digits(3) [of c] mod_less_divisor [of 64 "c div 64"] mod_less_divisor [of 64 c] by linarith
      moreover have "c div 262144 = 4 \<Longrightarrow> c div 4096 mod 64 < 16" using c base64_digits(3) [of c] by linarith
      moreover have "c div 262144 < 5" using c by simp
      ultimately show ?thesis by (auto simp: second_ok_def)
    qed
    have "(of_nat (?x * 262144 + ?y * 4096 + ?z * 64 + ?w - 0x3C82080) :: u32) = of_nat ?x * 262144 + of_nat ?y * 4096 + of_nat ?z * 64 + of_nat ?w - 0x3C82080"
      by (subst of_nat_diff [OF n(2)]) (simp only: of_nat_add of_nat_mult of_nat_numeral)
    moreover have "read8 (of_nat ?x # of_nat ?y # of_nat ?z # of_nat ?w # rest) = Inr (3, of_nat ?x * 262144 + of_nat ?y * 4096 + of_nat ?z * 64 + of_nat ?w - 0x3C82080)"
      using c s by (subst read8_4) auto
    ultimately have "read8 (of_nat ?x # of_nat ?y # of_nat ?z # of_nat ?w # rest) = Inr (3, of_nat c)" unfolding n(1) by (simp only:)
    moreover have "utf8 c = [of_nat ?x, of_nat ?y, of_nat ?z, of_nat ?w]" using 4 by (simp add: utf8_def)
    ultimately show ?thesis by (simp only: append_Cons append_Nil list.size) simp
  qed
qed

end
