(* ===== verification/ConvertUTFClaims.thy ===== *)
theory ConvertUTFClaims
  imports ConvertUTF
begin

text \<open>
  What the conversions of \<^verbatim>\<open>breakpad/common/convert_UTF.c\<close> do on whole texts: they write and read the encoding forms of the
  standard, they stay inside the target, and what the UTF-8 readers accept is
  described exactly, with the malformed sequences that they let through.
\<close>

section \<open>What the UTF-8 reader accepts\<close>

text \<open>Sequences that are not UTF-8 and pass: the second byte after ED or F4 can be below 80.\<close>

definition stray :: "byte list \<Rightarrow> bool" where
  "stray bs \<longleftrightarrow> (case bs of
     [x, y, z] \<Rightarrow> x = 0xED \<and> y < 0x80 \<and> 0x80 \<le> z \<and> z \<le> 0xBF
   | [x, y, z, w] \<Rightarrow> x = 0xF4 \<and> y < 0x80 \<and> 0x80 \<le> z \<and> z \<le> 0xBF \<and> 0x80 \<le> w \<and> w \<le> 0xBF
   | _ \<Rightarrow> False)"

lemma digits64:
  assumes "b < 64" "d < (64 :: nat)"
  shows "(a * 4096 + b * 64 + d) div 4096 = a" "(a * 4096 + b * 64 + d) div 64 mod 64 = b" "(a * 4096 + b * 64 + d) mod 64 = d"
proof -
  have e: "a * 4096 + b * 64 + d = (a * 64 + b) * 64 + d" by simp
  have d64: "(a * 4096 + b * 64 + d) div 64 = a * 64 + b" unfolding e using assms by simp
  then have "(a * 4096 + b * 64 + d) div 64 div 64 = a" using assms by simp
  then show "(a * 4096 + b * 64 + d) div 4096 = a" by (simp add: div_mult2_eq [symmetric])
  show "(a * 4096 + b * 64 + d) div 64 mod 64 = b" unfolding d64 using assms by simp
  show "(a * 4096 + b * 64 + d) mod 64 = d" unfolding e using assms(2) by (simp only: mod_mult_self3 mod_less)
qed

lemma digits64_4:
  assumes "b < 64" "d < 64" "e < (64 :: nat)"
  shows "(a * 262144 + b * 4096 + d * 64 + e) div 262144 = a" "(a * 262144 + b * 4096 + d * 64 + e) div 4096 mod 64 = b"
    "(a * 262144 + b * 4096 + d * 64 + e) div 64 mod 64 = d" "(a * 262144 + b * 4096 + d * 64 + e) mod 64 = e"
proof -
  have f: "a * 262144 + b * 4096 + d * 64 + e = (a * 64 + b) * 4096 + d * 64 + e" by simp
  note g = digits64 [OF assms(2,3), of "a * 64 + b"]
  show "(a * 262144 + b * 4096 + d * 64 + e) div 4096 mod 64 = b" unfolding f g using assms by simp
  have "(a * 262144 + b * 4096 + d * 64 + e) div 4096 div 64 = a" unfolding f g using assms by simp
  then show "(a * 262144 + b * 4096 + d * 64 + e) div 262144 = a" by (simp add: div_mult2_eq [symmetric])
  show "(a * 262144 + b * 4096 + d * 64 + e) div 64 mod 64 = d" "(a * 262144 + b * 4096 + d * 64 + e) mod 64 = e" unfolding f g by simp_all
qed

lemma byte_of_nat: obtains x where "b = (of_nat x :: byte)" "x < 256"
  using that [of "unat b"] unsigned_less [of b, where ?'a = nat] by simp

text \<open>The reader on two, three and four bytes that are legal: the character, and whether it is UTF-8.\<close>

definition accepted :: "nat \<Rightarrow> byte list \<Rightarrow> u32 \<Rightarrow> bool" where
  "accepted c bs ch \<longleftrightarrow> scalar c \<and> ch = of_nat c \<and> (bs = utf8 c \<or> stray bs)"

lemma accepted_2:
  assumes "0xC2 \<le> x" "x < 224" "second_ok x y"
  shows "\<exists>c. accepted c [of_nat x, of_nat y] (of_nat x * 64 + of_nat y - 0x3080)"
proof -
  define a b where "a = x - 0xC0" and "b = y - 0x80"
  have a: "x = 0xC0 + a" and b: "y = 0x80 + b" using assms by (auto simp: second_ok_def a_def b_def)
  have ab: "2 \<le> a" "a < 32" "b < 64" using assms a b by (auto simp: second_ok_def)
  have "utf8 (a * 64 + b) = [of_nat x, of_nat y]" using ab a b by (simp add: utf8_def)
  moreover have "of_nat x * 64 + of_nat y - 0x3080 = (of_nat (a * 64 + b) :: u32)" unfolding a b by simp
  moreover have "scalar (a * 64 + b)" using ab by (simp add: scalar_def)
  ultimately show ?thesis by (auto simp: accepted_def)
qed

lemma accepted_3:
  assumes "224 \<le> x" "x < 240" "second_ok x y" "trail_ok z"
  shows "\<exists>c. accepted c [of_nat x, of_nat y, of_nat z] (of_nat x * 4096 + of_nat y * 64 + of_nat z - 0xE2080)"
proof (cases "0x80 \<le> y")
  case True
  define a b d where "a = x - 0xE0" and "b = y - 0x80" and "d = z - 0x80"
  have abd: "x = 0xE0 + a" "y = 0x80 + b" "z = 0x80 + d" using assms True by (simp_all add: a_def b_def d_def)
  have l: "a < 16" "b < 64" "d < 64" "a = 0 \<Longrightarrow> 32 \<le> b" "a = 13 \<Longrightarrow> b < 32" using assms abd by (auto simp: second_ok_def split: if_splits)
  let ?c = "a * 4096 + b * 64 + d"
  have c: "0x800 \<le> ?c" "?c < 0x10000" using l by (cases "a = 0"; simp)+
  have "utf8 ?c = [of_nat x, of_nat y, of_nat z]" unfolding abd using c by (simp only: utf8_def digits64 [OF l(2,3)]) simp
  moreover have "of_nat x * 4096 + of_nat y * 64 + of_nat z - 0xE2080 = (of_nat ?c :: u32)" unfolding abd by (simp add: algebra_simps)
  moreover have "scalar ?c" using c l by (cases "a = 13"; cases "a < 13") (auto simp: scalar_def)
  ultimately show ?thesis by (auto simp: accepted_def)
next
  case False
  let ?n = "44928 + y * 64 + z"
  have "x = 0xED \<or> x = 0xF4" using False assms(3) by (auto simp: second_ok_def split: if_splits)
  then have x: "x = 0xED" using assms(2) by simp
  have "of_nat x * 4096 + of_nat y * 64 + of_nat z - 0xE2080 = (of_nat ?n :: u32)" by (simp add: x)
  moreover have "stray [of_nat x, of_nat y, of_nat z]" using False assms(4) by (simp add: stray_def x)
  moreover have "scalar ?n" using False assms(4) by (simp add: scalar_def)
  ultimately show ?thesis by (auto simp: accepted_def)
qed

lemma accepted_4:
  assumes "240 \<le> x" "x \<le> 0xF4" "second_ok x y" "trail_ok z" "trail_ok w"
  shows "\<exists>c. accepted c [of_nat x, of_nat y, of_nat z, of_nat w] (of_nat x * 262144 + of_nat y * 4096 + of_nat z * 64 + of_nat w - 0x3C82080)"
proof (cases "0x80 \<le> y")
  case True
  define a b d e where "a = x - 0xF0" and "b = y - 0x80" and "d = z - 0x80" and "e = w - 0x80"
  have abd: "x = 0xF0 + a" "y = 0x80 + b" "z = 0x80 + d" "w = 0x80 + e" using assms True by (simp_all add: a_def b_def d_def e_def)
  have l: "a \<le> 4" "b < 64" "d < 64" "e < 64" "a = 0 \<Longrightarrow> 16 \<le> b" "a = 4 \<Longrightarrow> b < 16" using assms abd by (auto simp: second_ok_def split: if_splits)
  let ?c = "a * 262144 + b * 4096 + d * 64 + e"
  have c: "0x10000 \<le> ?c" "?c < 0x110000" using l by (cases "a = 0"; simp) (use l in \<open>cases "a = 4"; simp\<close>)
  have "utf8 ?c = [of_nat x, of_nat y, of_nat z, of_nat w]" unfolding abd using c by (simp only: utf8_def digits64_4 [OF l(2,3,4)]) simp
  moreover have "of_nat x * 262144 + of_nat y * 4096 + of_nat z * 64 + of_nat w - 0x3C82080 = (of_nat ?c :: u32)" unfolding abd by (simp add: algebra_simps)
  moreover have "scalar ?c" using c by (simp add: scalar_def)
  ultimately show ?thesis by (auto simp: accepted_def)
next
  case False
  let ?n = "515968 + y * 4096 + z * 64 + w"
  have "x = 0xED \<or> x = 0xF4" using False assms(3) by (auto simp: second_ok_def split: if_splits)
  then have x: "x = 0xF4" using assms(1) by simp
  have "of_nat x * 262144 + of_nat y * 4096 + of_nat z * 64 + of_nat w - 0x3C82080 = (of_nat ?n :: u32)" by (simp add: x)
  moreover have "stray [of_nat x, of_nat y, of_nat z, of_nat w]" using False assms(4,5) by (simp add: stray_def x)
  moreover have "scalar ?n" using False assms(4,5) by (simp add: scalar_def)
  ultimately show ?thesis by (auto simp: accepted_def)
qed

text \<open>A first byte of 248 and more asks for five or six bytes and is never legal.\<close>

lemma read8_5:
  assumes "248 \<le> x" "x < 256"
  shows "read8 (of_nat x # rest) \<noteq> Inr r"
  using trailing_nth(5) [OF assms] assms by (auto simp: read8_def isLegalUTF8_def Let_def)

lemma read8_accepted:
  assumes "bs \<noteq> []" "read8 bs = Inr (extra, ch)"
  shows "\<exists>c. accepted c (take (extra + 1) bs) ch \<and> extra < length bs"
proof -
  obtain x r where x: "bs = of_nat x # r" "x < 256" using assms(1) byte_of_nat by (cases bs) metis+
  have len: "trailingBytesForUTF8 ! x < length bs" using assms(2) x by (auto simp: read8_def Let_def split: if_splits)
  consider "x < 192" | "192 \<le> x" "x < 224" | "224 \<le> x" "x < 240" | "240 \<le> x" "x < 248" | "248 \<le> x" by linarith
  then show ?thesis
  proof cases
    case 1
    then have "x < 128" "extra = 0" "ch = of_nat x" using assms(2) x(1) by (auto simp: read8_1 split: if_splits)
    moreover have "utf8 x = [of_nat x]" "scalar x" if "x < 128" using that by (simp_all add: utf8_def scalar_def)
    ultimately show ?thesis using x(1) by (auto simp: accepted_def)
  next
    case 2
    then obtain y r' where y: "r = of_nat y # r'" "y < 256" using len x(1) trailing_nth(2) [OF 2] byte_of_nat by (cases r) (simp, metis)
    have "0xC2 \<le> x" "second_ok x y" "extra = 1" "ch = of_nat x * 64 + of_nat y - 0x3080"
      using assms(2) read8_2 [OF 2 y(2), of r'] x(1) y(1) by (auto split: if_splits)
    then show ?thesis using accepted_2 [of x y] 2 x(1) y(1) by auto
  next
    case 3
    then obtain y z r' where y: "r = of_nat y # of_nat z # r'" "y < 256" "z < 256"
      using len x(1) trailing_nth(3) [OF 3] byte_of_nat by (cases r; cases "tl r") (simp, simp, simp, metis list.sel(3))
    have "trail_ok z" "second_ok x y" "extra = 2" "ch = of_nat x * 4096 + of_nat y * 64 + of_nat z - 0xE2080"
      using assms(2) read8_3 [OF 3 y(2,3), of r'] x(1) y(1) by (auto split: if_splits)
    then show ?thesis using accepted_3 [OF 3, of y z] x(1) y(1) by (auto simp: numeral_2_eq_2)
  next
    case 4
    then obtain y z w r' where y: "r = of_nat y # of_nat z # of_nat w # r'" "y < 256" "z < 256" "w < 256"
      using len x(1) trailing_nth(4) [OF 4] byte_of_nat by (cases r; cases "tl r"; cases "tl (tl r)") (simp_all, metis)
    have "x \<le> 0xF4" "trail_ok w" "trail_ok z" "second_ok x y" "extra = 3" "ch = of_nat x * 262144 + of_nat y * 4096 + of_nat z * 64 + of_nat w - 0x3C82080"
      using assms(2) read8_4 [OF 4 y(2,3,4), of r'] x(1) y(1) by (auto split: if_splits)
    then show ?thesis using accepted_4 [OF 4(1), of y z w] x(1) y(1) by (auto simp: numeral_3_eq_3)
  next
    case 5
    then show ?thesis using read8_5 [of x r "(extra, ch)"] assms(2) x by simp
  qed
qed

section \<open>Whole texts\<close>

abbreviation utf8s :: "nat list \<Rightarrow> byte list" where
  "utf8s cs \<equiv> concat (map utf8 cs)"

abbreviation utf16s :: "nat list \<Rightarrow> u16 list" where
  "utf16s cs \<equiv> concat (map utf16 cs)"

abbreviation utf32s :: "nat list \<Rightarrow> u32 list" where
  "utf32s cs \<equiv> map of_nat cs"

lemma surrogate_of_nat: "scalar c \<Longrightarrow> \<not> surrogate (of_nat c)"
  by (auto simp: surrogate_def scalar_def)

lemma le_u32: "scalar c \<Longrightarrow> of_nat c \<le> (0x10FFFF :: u32)"
  by (simp add: scalar_def)

lemma ConvertUTF32toUTF8_text:
  "list_all scalar cs \<Longrightarrow> length (utf8s cs) \<le> room \<Longrightarrow>
   ConvertUTF32toUTF8 strict (utf32s cs) room res target = (res, [], target @ utf8s cs)"
proof (induction cs arbitrary: room target)
  case (Cons c cs)
  then have c: "scalar c" "c < 0x110000" by (simp_all add: scalar_def)
  then show ?case using Cons surrogate_of_nat [OF c(1)] le_u32 [OF c(1)] write8_utf8 [OF c(2)] length_utf8(1) [OF c(2)] by simp
qed simp

lemma ConvertUTF8toUTF32_text:
  "list_all scalar cs \<Longrightarrow> length cs \<le> room \<Longrightarrow>
   ConvertUTF8toUTF32 strict (utf8s cs) room res target = (res, [], target @ utf32s cs)"
proof (induction cs arbitrary: room target)
  case Nil
  then show ?case by (simp add: ConvertUTF8toUTF32.simps)
next
  case (Cons c cs)
  then have c: "scalar c" by simp
  have "ConvertUTF8toUTF32 strict (utf8 c @ utf8s cs) room res target = ConvertUTF8toUTF32 strict (utf8s cs) (room - 1) res (target @ [of_nat c])"
    using read8_utf8 [OF c, of "utf8s cs"] surrogate_of_nat [OF c] le_u32 [OF c] length_utf8(2) [of c] Cons.prems(2)
    by (subst ConvertUTF8toUTF32.simps) (auto simp: Let_def)
  also have "\<dots> = (res, [], target @ [of_nat c] @ utf32s cs)" using Cons by simp
  finally show ?case by simp
qed

lemma utf16_room: "length (utf16 c) = (if c < 0x10000 then 1 else 2)"
  by (simp add: utf16_def)

lemma ConvertUTF32toUTF16_text:
  "list_all scalar cs \<Longrightarrow> length (utf16s cs) \<le> room \<Longrightarrow>
   ConvertUTF32toUTF16 strict (utf32s cs @ more) room res target = ConvertUTF32toUTF16 strict more (room - length (utf16s cs)) res (target @ utf16s cs)"
proof (induction cs arbitrary: room target)
  case (Cons c cs)
  then have c: "scalar c" "c < 0x110000" by (simp_all add: scalar_def)
  show ?case
  proof (cases "c < 0x10000")
    case True
    then show ?thesis using Cons c surrogate_of_nat [OF c(1)] by (simp add: utf16_def)
  next
    case False
    then show ?thesis using Cons c surrogate_of_nat [OF c(1)] surrogate_pair_utf16 [of c] utf16_room [of c] by simp
  qed
qed simp

lemma utf16_split: "utf16 c @ rest = hd (utf16 c) # tl (utf16 c) @ rest"
  by (simp add: utf16_def)

lemma ConvertUTF16toUTF32_text:
  "list_all scalar cs \<Longrightarrow> length cs \<le> room \<Longrightarrow>
   ConvertUTF16toUTF32 strict (utf16s cs) room target = (conversionOK, [], target @ utf32s cs)"
proof (induction cs arbitrary: room target)
  case (Cons c cs)
  then show ?case using read16_utf16 [of c strict "utf16s cs"] by (simp add: utf16_split)
qed simp

lemma ConvertUTF16toUTF8_text:
  "list_all scalar cs \<Longrightarrow> length (utf8s cs) \<le> room \<Longrightarrow>
   ConvertUTF16toUTF8 strict (utf16s cs) room target = (conversionOK, [], target @ utf8s cs)"
proof (induction cs arbitrary: room target)
  case (Cons c cs)
  then have c: "scalar c" "c < 0x110000" by (simp_all add: scalar_def)
  then show ?case using Cons read16_utf16 [OF c(1), of strict "utf16s cs"] write8_utf8 [OF c(2)] length_utf8(1) [OF c(2)] by (simp add: utf16_split)
qed simp

lemma ConvertUTF8toUTF16_text:
  "list_all scalar cs \<Longrightarrow> length (utf16s cs) \<le> room \<Longrightarrow>
   ConvertUTF8toUTF16 strict (utf8s cs) room target = (conversionOK, [], target @ utf16s cs)"
proof (induction cs arbitrary: room target)
  case Nil
  then show ?case by (simp add: ConvertUTF8toUTF16.simps)
next
  case (Cons c cs)
  then have c: "scalar c" "c < 0x110000" by (simp_all add: scalar_def)
  have "ConvertUTF8toUTF16 strict (utf8 c @ utf8s cs) room target = ConvertUTF8toUTF16 strict (utf8s cs) (room - length (utf16 c)) (target @ utf16 c)"
    using read8_utf8 [OF c(1), of "utf8s cs"] surrogate_of_nat [OF c(1)] c(2) length_utf8(2) [of c] Cons.prems(2) surrogate_pair_utf16 [of c] utf16_room [of c]
    by (subst ConvertUTF8toUTF16.simps) (auto simp: Let_def utf16_def)
  also have "\<dots> = (conversionOK, [], (target @ utf16 c) @ utf16s cs)" using Cons by simp
  finally show ?case by simp
qed

lemma read8_stray:
  assumes "stray p"
  shows "\<exists>ch. read8 (p @ rest) = Inr (length p - 1, ch)"
proof -
  have nat: "(of_nat (unat b) :: byte) = b" "unat b < 256" for b :: byte using unsigned_less [of b, where ?'a = nat] by simp_all
  consider x y z where "p = [x, y, z]" | x y z w where "p = [x, y, z, w]"
    using assms by (auto simp: stray_def split: list.splits)
  then show ?thesis
  proof cases
    case 1
    then show ?thesis using assms read8_3 [of "0xED" "unat y" "unat z" rest] nat
      by (simp add: stray_def second_ok_def word_less_nat_alt word_le_nat_alt)
  next
    case 2
    then show ?thesis using assms read8_4 [of "0xF4" "unat y" "unat z" "unat w" rest] nat
      by (simp add: stray_def second_ok_def word_less_nat_alt word_le_nat_alt)
  qed
qed

definition unit_ok :: "byte list \<Rightarrow> bool" where
  "unit_ok p \<longleftrightarrow> p \<noteq> [] \<and> (\<exists>c. accepted c p (of_nat c))"

lemma unit_ok_iff: "unit_ok p \<longleftrightarrow> (\<exists>c. scalar c \<and> p = utf8 c) \<or> stray p"
proof -
  have "stray p \<Longrightarrow> p \<noteq> []" by (auto simp: stray_def)
  moreover have "utf8 c \<noteq> []" for c by (simp add: utf8_def)
  moreover have "scalar 0" by (simp add: scalar_def)
  ultimately show ?thesis by (auto simp: unit_ok_def accepted_def)
qed

lemma read8_unit:
  assumes "unit_ok p"
  shows "\<exists>c. read8 (p @ rest) = Inr (length p - 1, of_nat c) \<and> scalar c"
proof -
  have p: "p \<noteq> []" using assms by (simp add: unit_ok_def)
  obtain ch where r: "read8 (p @ rest) = Inr (length p - 1, ch)"
    using assms read8_utf8 [of _ rest] read8_stray [of p rest] by (auto simp: unit_ok_iff)
  then obtain c where "accepted c (take (length p - 1 + 1) (p @ rest)) ch" using read8_accepted [of "p @ rest"] p by blast
  then show ?thesis using r by (auto simp: accepted_def)
qed

lemma ConvertUTF8toUTF32_units:
  "list_all unit_ok ps \<Longrightarrow> length ps \<le> room \<Longrightarrow> fst (ConvertUTF8toUTF32 True (concat ps) room res target) = res"
proof (induction ps arbitrary: room target)
  case Nil
  then show ?case by (simp add: ConvertUTF8toUTF32.simps)
next
  case (Cons p ps)
  then obtain c where c: "read8 (p @ concat ps) = Inr (length p - 1, of_nat c)" "scalar c" "p \<noteq> []"
    using read8_unit [of p "concat ps"] by (auto simp: unit_ok_def)
  have "ConvertUTF8toUTF32 True (p @ concat ps) room res target = ConvertUTF8toUTF32 True (concat ps) (room - 1) res (target @ [of_nat c])"
    using c surrogate_of_nat [OF c(2)] le_u32 [OF c(2)] Cons.prems(2) by (subst ConvertUTF8toUTF32.simps) (auto simp: Let_def)
  then show ?case using Cons by simp
qed

lemma ConvertUTF8toUTF32_only_units:
  "ConvertUTF8toUTF32 strict bs room conversionOK target = (conversionOK, rest, out) \<Longrightarrow>
   \<exists>ps. bs = concat ps \<and> list_all unit_ok ps \<and> length ps \<le> room"
proof (induction strict bs room conversionOK target rule: ConvertUTF8toUTF32.induct)
  case (1 strict bs room target)
  show ?case
  proof (cases "bs = []")
    case True
    then show ?thesis by (intro exI [of _ "[]"]) simp
  next
    case False
    then obtain extra ch where r: "read8 bs = Inr (extra, ch)" "room \<noteq> 0"
      using "1.prems" by (cases "read8 bs") (auto simp: ConvertUTF8toUTF32.simps [of strict bs] Let_def read8_def split: if_splits)
    obtain c where c: "accepted c (take (extra + 1) bs) ch" "extra < length bs" using read8_accepted [OF False r(1)] by blast
    then have u: "unit_ok (take (extra + 1) bs)" "scalar c" "ch = of_nat c" using False by (auto simp: unit_ok_def accepted_def)
    have "ConvertUTF8toUTF32 strict (drop (extra + 1) bs) (room - 1) conversionOK (target @ [ch]) = (conversionOK, rest, out)"
      using "1.prems" False r u surrogate_of_nat [of c] le_u32 [of c] by (simp add: ConvertUTF8toUTF32.simps [of strict bs] Let_def)
    then obtain ps where "drop (extra + 1) bs = concat ps" "list_all unit_ok ps" "length ps \<le> room - 1"
      using "1.hyps"(2) [OF False r(1)] r(2) u surrogate_of_nat [of c] le_u32 [of c] by auto
    then show ?thesis using u(1) r(2) append_take_drop_id [of "extra + 1" bs] by (intro exI [of _ "take (extra + 1) bs # ps"]) auto
  qed
qed

section \<open>Properties\<close>

text \<open>
  C30: on well-formed text all six conversions are those of the standard, in strict and in lenient mode: with
  enough room they consume the whole source, return \<open>conversionOK\<close> and write the
  target encoding form of the same characters.
\<close>

theorem convert_well_formed:
  assumes "list_all scalar cs" "length (utf8s cs) \<le> r8" "length (utf16s cs) \<le> r16" "length cs \<le> r32"
  shows "ConvertUTF32toUTF8 strict (utf32s cs) r8 conversionOK [] = (conversionOK, [], utf8s cs) \<and>
    ConvertUTF8toUTF32 strict (utf8s cs) r32 conversionOK [] = (conversionOK, [], utf32s cs) \<and>
    ConvertUTF32toUTF16 strict (utf32s cs) r16 conversionOK [] = (conversionOK, [], utf16s cs) \<and>
    ConvertUTF16toUTF32 strict (utf16s cs) r32 [] = (conversionOK, [], utf32s cs) \<and>
    ConvertUTF16toUTF8 strict (utf16s cs) r8 [] = (conversionOK, [], utf8s cs) \<and>
    ConvertUTF8toUTF16 strict (utf8s cs) r16 [] = (conversionOK, [], utf16s cs)"
  using assms ConvertUTF32toUTF16_text [of cs r16 strict "[]" conversionOK "[]"]
  by (simp add: ConvertUTF32toUTF8_text ConvertUTF8toUTF32_text ConvertUTF16toUTF32_text ConvertUTF16toUTF8_text ConvertUTF8toUTF16_text)

theorem convert_well_formed_witness:
  "ConvertUTF8toUTF16 True [0x41, 0xC3, 0xA9, 0xE2, 0x82, 0xAC, 0xF0, 0x9F, 0x98, 0x80] 5 [] = (conversionOK, [], [0x41, 0xE9, 0x20AC, 0xD83D, 0xDE00])"
proof -
  have "utf8s [0x41, 0xE9, 0x20AC, 0x1F600] = [0x41, 0xC3, 0xA9, 0xE2, 0x82, 0xAC, 0xF0, 0x9F, 0x98, 0x80]"
    "utf16s [0x41, 0xE9, 0x20AC, 0x1F600] = [0x41, 0xE9, 0x20AC, 0xD83D, 0xDE00]" by (simp_all add: utf8_def utf16_def)
  then show ?thesis using convert_well_formed [of "[0x41, 0xE9, 0x20AC, 0x1F600]" 10 5 4 True] by (simp add: scalar_def)
qed

text \<open>
  What the strict UTF-8 reader accepts, exactly: the sequences of UTF-8 characters, of which there is room, and besides them
  the malformed three- and four-byte sequences whose second byte after ED or F4 is
  below 80.
\<close>

theorem ConvertUTF8toUTF32_accepts:
  "fst (ConvertUTF8toUTF32 True bs room conversionOK []) = conversionOK \<longleftrightarrow>
   (\<exists>ps. bs = concat ps \<and> length ps \<le> room \<and> list_all (\<lambda>p. (\<exists>c. scalar c \<and> p = utf8 c) \<or> stray p) ps)"
proof -
  have u: "unit_ok = (\<lambda>p. (\<exists>c. scalar c \<and> p = utf8 c) \<or> stray p)" by (rule ext) (rule unit_ok_iff)
  obtain r rest out where r: "ConvertUTF8toUTF32 True bs room conversionOK [] = (r, rest, out)" by (cases "ConvertUTF8toUTF32 True bs room conversionOK []")
  have "r = conversionOK" if "bs = concat ps" "length ps \<le> room" "list_all unit_ok ps" for ps
    using ConvertUTF8toUTF32_units [OF that(3,2), of conversionOK "[]"] r that(1) by simp
  then show ?thesis using ConvertUTF8toUTF32_only_units [of True bs room "[]" rest out] r by (auto simp: u [symmetric])
qed

text \<open>
  A malformed sequence is accepted and decoded: ED 41 80 gives the same character as EC 81 80.
\<close>

theorem utf8_not_unique:
  "ConvertUTF8toUTF32 True [0xED, 0x41, 0x80] 1 conversionOK [] = ConvertUTF8toUTF32 True [0xEC, 0x81, 0x80] 1 conversionOK [] \<and>
   isLegalUTF8Sequence [0xED, 0x41, 0x80] \<and> (\<forall>c. utf8 c \<noteq> [0xED, 0x41, 0x80])"
proof (intro conjI)
  have a: "read8 [0xED, 0x41, 0x80] = Inr (2, 0xC040)" using read8_3 [of "0xED" "0x41" "0x80" "[]"] by (simp add: second_ok_def)
  have b: "read8 [0xEC, 0x81, 0x80] = Inr (2, 0xC040)" using read8_3 [of "0xEC" "0x81" "0x80" "[]"] by (simp add: second_ok_def)
  show "ConvertUTF8toUTF32 True [0xED, 0x41, 0x80] 1 conversionOK [] = ConvertUTF8toUTF32 True [0xEC, 0x81, 0x80] 1 conversionOK []"
    by (simp add: ConvertUTF8toUTF32.simps a b surrogate_def)
  show "isLegalUTF8Sequence [0xED, 0x41, 0x80]" using a by (simp add: isLegalUTF8Sequence_def read8_def Let_def split: if_splits)
  show "\<forall>c. utf8 c \<noteq> [0xED, 0x41, 0x80]"
  proof (intro allI notI)
    fix c assume u: "utf8 c = [0xED, 0x41, 0x80]"
    then have "(of_nat (0x80 + c div 64 mod 64) :: byte) = of_nat 0x41" by (simp add: utf8_def split: if_splits)
    then have "unat (of_nat (0x80 + c div 64 mod 64) :: byte) = unat (of_nat 0x41 :: byte)" by (rule arg_cong)
    moreover have "0x80 + c div 64 mod 64 < 256" by simp
    ultimately show False by (simp only: unat_of_nat8)
  qed
qed

lemma write8_length: "length (write8 (bytes_needed ch) ch) = bytes_needed ch" "length (write8 3 ch) = 3"
  by (simp_all add: write8_def bytes_needed_def Let_def)

lemma UTF32toUTF16_bound: "length (snd (snd (ConvertUTF32toUTF16 strict source room res target))) \<le> length target + room"
proof (induction source arbitrary: strict room res target)
  case (Cons ch source)
  show ?case by (auto simp: surrogate_pair_def Let_def intro!: order_trans [OF Cons.IH])
qed simp

lemma UTF8toUTF16_bound: "length (snd (snd (ConvertUTF8toUTF16 strict bs room target))) \<le> length target + room"
proof (induction bs arbitrary: strict room target rule: length_induct)
  case (1 bs)
  then have IH: "length (snd (snd (ConvertUTF8toUTF16 x (drop (Suc n) bs) r t))) \<le> length t + r" if "bs \<noteq> []" for x n r t
    using that by simp
  show ?case
    by (subst ConvertUTF8toUTF16.simps) (auto simp: surrogate_pair_def Let_def split: sum.splits prod.splits intro!: order_trans [OF IH])
qed

lemma UTF32toUTF8_bound: "length (snd (snd (ConvertUTF32toUTF8 strict source room res target))) \<le> length target + room"
proof (induction source arbitrary: room res target)
  case (Cons ch source)
  show ?case
    using Cons.IH [of "room - bytes_needed ch" res "target @ write8 (bytes_needed ch) ch"]
      Cons.IH [of "room - 3" sourceIllegal "target @ write8 3 UNI_REPLACEMENT_CHAR"] by (auto simp: write8_length)
qed simp

lemma UTF8toUTF32_bound: "length (snd (snd (ConvertUTF8toUTF32 strict bs room res target))) \<le> length target + room"
proof (induction bs arbitrary: strict room res target rule: length_induct)
  case (1 bs)
  then have IH: "length (snd (snd (ConvertUTF8toUTF32 x (drop (Suc n) bs) r e t))) \<le> length t + r" if "bs \<noteq> []" for x n r e t
    using that by simp
  show ?case
    by (subst ConvertUTF8toUTF32.simps) (auto simp: Let_def split: sum.splits prod.splits intro!: order_trans [OF IH])
qed

lemma UTF16toUTF32_bound: "length (snd (snd (ConvertUTF16toUTF32 strict source room target))) \<le> length target + room"
proof (induction strict source room target rule: ConvertUTF16toUTF32.induct)
  case (2 strict w source room target)
  then show ?case by (auto split: sum.splits)
qed simp

lemma UTF16toUTF8_bound: "length (snd (snd (ConvertUTF16toUTF8 strict source room target))) \<le> length target + room"
proof (induction source arbitrary: room target rule: length_induct)
  case (1 source)
  show ?case
  proof (cases source)
    case (Cons w rest)
    have IH: "length (snd (snd (ConvertUTF16toUTF8 strict source' r t))) \<le> length t + r" if "read16 strict w rest = Inr (ch, source')" for source' ch r t
      using 1 Cons read16_shorter [OF that] by simp
    show ?thesis unfolding Cons by (auto simp: write8_length split: sum.splits intro!: order_trans [OF IH])
  qed simp
qed

text \<open>
  No conversion writes more units than the target has room for, whatever the source holds.
\<close>

theorem convert_stays_in_target:
  "length (snd (snd (ConvertUTF32toUTF16 strict t32 room conversionOK []))) \<le> room \<and>
   length (snd (snd (ConvertUTF16toUTF32 strict t16 room []))) \<le> room \<and>
   length (snd (snd (ConvertUTF16toUTF8 strict t16 room []))) \<le> room \<and>
   length (snd (snd (ConvertUTF8toUTF16 strict t8 room []))) \<le> room \<and>
   length (snd (snd (ConvertUTF32toUTF8 strict t32 room conversionOK []))) \<le> room \<and>
   length (snd (snd (ConvertUTF8toUTF32 strict t8 room conversionOK []))) \<le> room"
  using UTF32toUTF16_bound [of strict t32 room conversionOK "[]"] UTF16toUTF32_bound [of strict t16 room "[]"] UTF16toUTF8_bound [of strict t16 room "[]"]
    UTF8toUTF16_bound [of strict t8 room "[]"] UTF32toUTF8_bound [of strict t32 room conversionOK "[]"] UTF8toUTF32_bound [of strict t8 room conversionOK "[]"] by simp

text \<open>
  A value above 10FFFF in strict UTF-32 input does not stop the conversion to UTF-16: it is left out, the text
  after it is converted, and only the result says \<open>sourceIllegal\<close>. The header of the converter promises that the source then
  points to the illegal value.
\<close>

theorem UTF32toUTF16_skips_illegal:
  assumes "list_all scalar as" "list_all scalar bs" "0x10FFFF < ch" "length (utf16s (as @ bs)) < room"
  shows "ConvertUTF32toUTF16 True (utf32s as @ ch # utf32s bs) room conversionOK [] = (sourceIllegal, [], utf16s (as @ bs))"
proof -
  have n: "\<not> ch \<le> 0xFFFF" using assms(3) by (simp add: word_le_nat_alt word_less_nat_alt)
  have "ConvertUTF32toUTF16 True (utf32s as @ ch # utf32s bs) room conversionOK [] =
      ConvertUTF32toUTF16 True (ch # utf32s bs) (room - length (utf16s as)) conversionOK (utf16s as)"
    using ConvertUTF32toUTF16_text [of as room True "ch # utf32s bs" conversionOK "[]"] assms by simp
  also have "\<dots> = ConvertUTF32toUTF16 True (utf32s bs @ []) (room - length (utf16s as)) sourceIllegal (utf16s as)"
    using assms(3,4) n by simp
  also have "\<dots> = (sourceIllegal, [], utf16s (as @ bs))"
    using ConvertUTF32toUTF16_text [of bs "room - length (utf16s as)" True "[]" sourceIllegal "utf16s as"] assms by simp
  finally show ?thesis .
qed

theorem UTF32toUTF16_skips_illegal_witness:
  "ConvertUTF32toUTF16 True [0x41, 0x110000, 0x42] 3 conversionOK [] = (sourceIllegal, [], [0x41, 0x42])"
  using UTF32toUTF16_skips_illegal [of "[0x41]" "[0x42]" "0x110000" 3] by (simp add: scalar_def utf16_def)

end
