(* ===== verification/StringConversion.thy ===== *)
theory StringConversion
  imports ConvertUTFClaims
begin

text \<open>
  \<^verbatim>\<open>breakpad/common/string_conversion.cc\<close>: strings of the crash reporter between UTF-8, UTF-16 and UTF-32. A C string is
  given without its terminator. \<open>cap\<close> is the capacity of the vector after the zeros were inserted,
  at least its size; a write behind it is \<open>UB HeapOverflow\<close>. \<open>garbage\<close> is what a new array holds.
\<close>

section \<open>Functions\<close>

text \<open>\<open>resize\<close> keeps the first elements and pads with zeros.\<close>

definition resize :: "u16 list \<Rightarrow> nat \<Rightarrow> u16 list" where
  "resize v n = take n v @ replicate (n - length v) 0"

definition filled :: "nat \<Rightarrow> u16 list \<Rightarrow> u16 list" where
  "filled n units = units @ replicate (n - length units) 0"

definition UTF8ToUTF16 :: "nat \<Rightarrow> byte list \<Rightarrow> u16 list outcome" where
  "UTF8ToUTF16 cap input =
     (case ConvertUTF8toUTF16 True input (cap * 2) [] of
        (result, rest, units) \<Rightarrow>
          if cap < length units then UB HeapOverflow
          else Ret (resize (filled (length input) units) (if result = conversionOK then length units + 1 else 0)))"

fun UTF8ToUTF16Char_loop :: "byte list \<Rightarrow> nat \<Rightarrow> nat \<Rightarrow> nat \<Rightarrow> u16 list \<Rightarrow> (nat \<times> u16 list) outcome" where
  "UTF8ToUTF16Char_loop input in_length 0 k out = Ret (0, out)"
| "UTF8ToUTF16Char_loop input in_length (Suc left) k out =
     (if length input < k then UB OobRead
      else case ConvertUTF8toUTF16 True (take k input) (2 - length out) out of
        (result, rest, out) \<Rightarrow>
          if result = conversionOK then Ret (k - length rest, out)
          else UTF8ToUTF16Char_loop input in_length left (k + 1) out)"

text \<open>The first round is made whatever \<open>in_length\<close> is; there are at most \<open>in_length\<close> rounds after that.\<close>

definition UTF8ToUTF16Char :: "byte list \<Rightarrow> nat \<Rightarrow> (nat \<times> u16 \<times> u16) outcome" where
  "UTF8ToUTF16Char input in_length =
     bnd (UTF8ToUTF16Char_loop input in_length (max 1 in_length) 1 []) (\<lambda>(n, out).
     let out = filled 2 out in Ret (n, out ! 0, out ! 1))"

definition UTF32ToUTF16 :: "nat \<Rightarrow> u32 list \<Rightarrow> u16 list outcome" where
  "UTF32ToUTF16 cap input =
     (case ConvertUTF32toUTF16 True input (cap * 2) conversionOK [] of
        (result, rest, units) \<Rightarrow>
          if cap < length units then UB HeapOverflow
          else Ret (resize (filled (length input) units) (if result = conversionOK then length units + 1 else 0)))"

definition UTF32ToUTF16Char :: "u32 \<Rightarrow> u16 \<times> u16" where
  "UTF32ToUTF16Char input =
     (case ConvertUTF32toUTF16 True [input] 2 conversionOK [] of
        (result, rest, units) \<Rightarrow>
          let out = (if result \<noteq> conversionOK then [0, 0] else filled 2 units) in (out ! 0, out ! 1))"

definition Swap :: "u16 \<Rightarrow> u16" where
  "Swap value = drop_bit 8 value OR push_bit 8 value"

text \<open>The string that begins at the target: up to its first zero byte.\<close>

fun c_string :: "byte list \<Rightarrow> byte list outcome" where
  "c_string [] = UB OobRead"
| "c_string (b # bs) = (if b = 0 then Ret [] else bnd (c_string bs) (\<lambda>s. Ret (b # s)))"

definition UTF16ToUTF8 :: "byte list \<Rightarrow> u16 list \<Rightarrow> bool \<Rightarrow> byte list outcome" where
  "UTF16ToUTF8 garbage input swap =
     (let source = (if swap then map Swap input else input) in
      case ConvertUTF16toUTF8 True source (length input * 4) [] of
        (result, rest, units) \<Rightarrow>
          if result = conversionOK then c_string (st (take (length input * 4) garbage) 0 units) else Ret [])"

section \<open>Sizes\<close>

lemma utf16_le_utf8: "length (utf16 c) \<le> length (utf8 c)"
  by (simp add: utf16_def utf8_def)

lemma stray_cases: "stray p \<Longrightarrow> length p = 4 \<or> (\<exists>x y z. p = [x, y, z] \<and> x = 0xED \<and> y < 0x80 \<and> 0x80 \<le> z \<and> z \<le> 0xBF)"
  by (auto simp: stray_def split: list.splits)

lemma read8_extra: "bs \<noteq> [] \<Longrightarrow> read8 bs = Inr (extra, ch) \<Longrightarrow> \<not> ch \<le> 0xFFFF \<Longrightarrow> 3 \<le> extra \<and> extra < length bs"
proof -
  assume a: "bs \<noteq> []" "read8 bs = Inr (extra, ch)" "\<not> ch \<le> 0xFFFF"
  obtain c where c: "accepted c (take (extra + 1) bs) ch" "extra < length bs" using read8_accepted [OF a(1,2)] by blast
  then have "0x10000 \<le> c" using a(3) by (auto simp: accepted_def scalar_def)
  have "take (extra + 1) bs = utf8 c \<or> stray (take (extra + 1) bs)" using c(1) by (simp add: accepted_def)
  then have "3 \<le> extra"
  proof
    assume "take (extra + 1) bs = utf8 c"
    then have "length (take (extra + 1) bs) = 4" using \<open>0x10000 \<le> c\<close> by (simp add: utf8_def)
    then show ?thesis using c(2) by simp
  next
    assume s: "stray (take (extra + 1) bs)"
    have False if t: "take (extra + 1) bs = [x, y, z]" "x = 0xED" "y < 0x80" "0x80 \<le> z" "z \<le> 0xBF" for x y z
    proof -
      have "extra = 2" using arg_cong [OF t(1), of length] c(2) by simp
      have "bs = [x, y, z] @ drop 3 bs" using t(1) \<open>extra = 2\<close> append_take_drop_id [of 3 bs] by simp
      then have "read8 bs = Inr (2, of_nat (unat x) * 4096 + of_nat (unat y) * 64 + of_nat (unat z) - 0xE2080)"
        using read8_3 [of "unat x" "unat y" "unat z" "drop 3 bs"] t unsigned_less [of y, where ?'a = nat] unsigned_less [of z, where ?'a = nat]
        by (simp add: second_ok_def word_less_nat_alt word_le_nat_alt)
      then have "ch = of_nat (44928 + unat y * 64 + unat z)" using a(2) t(2) by simp
      moreover have "44928 + unat y * 64 + unat z \<le> 0xFFFF" using t(3,5) by (simp add: word_less_nat_alt word_le_nat_alt)
      ultimately show False using a(3) by (simp only: less_u32) simp
    qed
    then have "length (take (extra + 1) bs) = 4" using stray_cases [OF s] by blast
    then show ?thesis using c(2) by simp
  qed
  then show ?thesis using c(2) by simp
qed

lemma ConvertUTF8toUTF16_size: "length (snd (snd (ConvertUTF8toUTF16 strict bs room target))) \<le> length target + length bs"
proof (induction bs arbitrary: strict room target rule: length_induct)
  case (1 bs)
  have IH: "length (snd (snd (ConvertUTF8toUTF16 x (drop (Suc n) bs) r t))) \<le> length t + (length bs - Suc n)" if "bs \<noteq> []" for x n r t
    using 1 [rule_format, of "drop (Suc n) bs" x r t] that by simp
  show ?case
  proof (cases "read8 bs")
    case (Inl e)
    then show ?thesis by (subst ConvertUTF8toUTF16.simps) simp
  next
    case (Inr p)
    obtain extra ch where p: "p = (extra, ch)" by (cases p)
    show ?thesis
    proof (cases "bs = []")
      case True
      then show ?thesis by (subst ConvertUTF8toUTF16.simps) simp
    next
      case False
      then have e: "extra < length bs" using read8_accepted [of bs extra ch] Inr p by auto
      show ?thesis
      proof (cases "ch \<le> 0xFFFF")
        case True
        then show ?thesis using Inr p e False
          by (subst ConvertUTF8toUTF16.simps) (auto simp: Let_def intro!: order_trans [OF IH])
      next
        case big: False
        then have "3 \<le> extra" using read8_extra [OF False] Inr p by auto
        then show ?thesis using Inr p e False big
          by (subst ConvertUTF8toUTF16.simps) (auto simp: Let_def surrogate_pair_def intro!: order_trans [OF IH])
      qed
    qed
  qed
qed

lemma resize_filled: "length units \<le> n \<Longrightarrow> resize (filled n units) (length units + 1) = units @ [0]"
  by (cases "length units = n") (auto simp: resize_def filled_def)

lemma utf16s_le: "length (utf16s cs) \<le> length (utf8s cs)" "length (utf16s cs) \<le> 2 * length cs"
proof (induction cs)
  case (Cons c cs)
  { case 1 then show ?case using Cons.IH(1) utf16_le_utf8 [of c] by simp
  next
    case 2 then show ?case using Cons.IH(2) utf16_room [of c] by simp }
qed simp_all

lemma utf8_nonzero:
  assumes "scalar c" "c \<noteq> 0"
  shows "list_all (\<lambda>b. b \<noteq> 0) (utf8 c)"
proof -
  have nz: "(of_nat k :: byte) \<noteq> 0" if "0 < k" "k < 256" for k
  proof -
    have "unat (of_nat k :: byte) = k" by (rule unat_of_nat8 [OF that(2)])
    then show ?thesis using that(1) by auto
  qed
  show ?thesis using assms by (auto simp: utf8_def scalar_def nz simp del: of_nat_add)
qed

lemma c_string_append: "list_all (\<lambda>b. b \<noteq> 0) bs \<Longrightarrow> c_string (bs @ 0 # more) = Ret bs"
  by (induction bs) simp_all

lemma utf8s_nonzero: "list_all (\<lambda>c. scalar c \<and> c \<noteq> 0) cs \<Longrightarrow> list_all (\<lambda>b. b \<noteq> 0) (utf8s cs)"
  by (induction cs) (simp_all add: utf8_nonzero)

lemma utf8s_le: "list_all scalar cs \<Longrightarrow> length (utf8s cs) \<le> 4 * length (utf16s cs)"
proof (induction cs)
  case (Cons c cs)
  have "length (utf8 c) \<le> 4 * length (utf16 c)" by (simp add: utf8_def utf16_def)
  then show ?case using Cons by simp
qed simp

lemma UTF16ToUTF8_text:
  assumes "list_all (\<lambda>c. scalar c \<and> c \<noteq> 0) cs" "length garbage = length (utf16s cs @ [0]) * 4"
  shows "UTF16ToUTF8 garbage (utf16s cs @ [0]) False = Ret (utf8s cs)"
proof -
  have s: "list_all scalar (cs @ [0])" using assms(1) by (auto simp: list_all_iff scalar_def)
  have u: "utf16s (cs @ [0]) = utf16s cs @ [0]" "utf8s (cs @ [0]) = utf8s cs @ [0]" by (simp_all add: utf16_def utf8_def)
  have l: "length (utf8s cs @ [0]) \<le> length (utf16s cs @ [0]) * 4" using utf8s_le [of cs] s by simp
  have "ConvertUTF16toUTF8 True (utf16s cs @ [0]) (length (utf16s cs @ [0]) * 4) [] = (conversionOK, [], utf8s cs @ [0])"
    using ConvertUTF16toUTF8_text [OF s, of "length (utf16s cs @ [0]) * 4" True "[]"] l unfolding u by simp
  then show ?thesis using assms(2) c_string_append [OF utf8s_nonzero [OF assms(1)]]
    by (simp add: UTF16ToUTF8_def st_def)
qed

lemma UTF8ToUTF16_text:
  assumes "list_all scalar cs" "length (utf8s cs) \<le> cap"
  shows "UTF8ToUTF16 cap (utf8s cs) = Ret (utf16s cs @ [0])"
proof -
  have "ConvertUTF8toUTF16 True (utf8s cs) (cap * 2) [] = (conversionOK, [], utf16s cs)"
    using ConvertUTF8toUTF16_text [OF assms(1), of "cap * 2" True "[]"] utf16s_le(1) [of cs] assms(2) by simp
  then show ?thesis using utf16s_le(1) [of cs] assms(2) resize_filled [of "utf16s cs" "length (utf8s cs)"] by (simp add: UTF8ToUTF16_def)
qed

text \<open>One character: the shorter prefixes are incomplete, so nothing is written before the whole character is seen.\<close>

lemma utf8_first: "scalar c \<Longrightarrow> trailingBytesForUTF8 ! unat (utf8 c ! 0) = length (utf8 c) - 1"
  using read8_utf8 [of c "[]"] by (auto simp: read8_def Let_def split: if_splits)

lemma UTF8ToUTF16Char_rounds:
  assumes "scalar c" "1 \<le> k" "k \<le> length (utf8 c)" "length (utf8 c) - k < left"
  shows "UTF8ToUTF16Char_loop (utf8 c @ rest) n left k [] = Ret (length (utf8 c), utf16 c)"
  using assms(2-)
proof (induction left arbitrary: k)
  case (Suc left)
  show ?case
  proof (cases "k = length (utf8 c)")
    case True
    have "ConvertUTF8toUTF16 True (utf8 c) 2 [] = (conversionOK, [], utf16 c)"
      using ConvertUTF8toUTF16_text [of "[c]" 2 True "[]"] assms(1) utf16_room [of c] by simp
    then show ?thesis using True by simp
  next
    case False
    then have k: "k < length (utf8 c)" using Suc.prems by simp
    have "read8 (take k (utf8 c)) = Inl sourceExhausted" using k Suc.prems(1) utf8_first [OF assms(1)] by (auto simp: read8_def Let_def)
    moreover have "take k (utf8 c) \<noteq> []" using k Suc.prems(1) by auto
    ultimately have "ConvertUTF8toUTF16 True (take k (utf8 c)) 2 [] = (sourceExhausted, take k (utf8 c), [])"
      by (subst ConvertUTF8toUTF16.simps) simp
    moreover have "UTF8ToUTF16Char_loop (utf8 c @ rest) n left (k + 1) [] = Ret (length (utf8 c), utf16 c)"
      by (rule Suc.IH) (use k Suc.prems in auto)
    ultimately show ?thesis using k by simp
  qed
qed simp

lemma UTF8ToUTF16Char_char:
  assumes "scalar c" "length (utf8 c) \<le> n"
  shows "UTF8ToUTF16Char (utf8 c @ rest) n = Ret (length (utf8 c), filled 2 (utf16 c) ! 0, filled 2 (utf16 c) ! 1)"
proof -
  have l: "1 \<le> length (utf8 c)" using length_utf8(2) [of c] by linarith
  have "UTF8ToUTF16Char_loop (utf8 c @ rest) n (max 1 n) 1 [] = Ret (length (utf8 c), utf16 c)"
    by (rule UTF8ToUTF16Char_rounds [OF assms(1)]) (use l assms(2) in auto)
  then show ?thesis by (simp add: UTF8ToUTF16Char_def Let_def)
qed


section \<open>Properties\<close>

text \<open>
  \<open>UTF8ToUTF16\<close> never writes behind the vector, although it tells the converter twice its capacity, and on
  well-formed text its result is the terminated UTF-16 text.
\<close>

theorem UTF8ToUTF16_correct:
  assumes "length input \<le> cap"
  shows "\<exists>v. UTF8ToUTF16 cap input = Ret v \<and> (\<forall>cs. list_all scalar cs \<and> input = utf8s cs \<longrightarrow> v = utf16s cs @ [0])"
proof -
  obtain r rest units where c: "ConvertUTF8toUTF16 True input (cap * 2) [] = (r, rest, units)" by (cases "ConvertUTF8toUTF16 True input (cap * 2) []")
  then have "length units \<le> cap" using ConvertUTF8toUTF16_size [of True input "cap * 2" "[]"] assms by simp
  then have "\<exists>v. UTF8ToUTF16 cap input = Ret v" using c by (simp add: UTF8ToUTF16_def)
  then show ?thesis using UTF8ToUTF16_text [of _ cap] assms by auto
qed

theorem UTF8ToUTF16_correct_witness: "UTF8ToUTF16 4 [0xF0, 0x9F, 0x98, 0x80] = Ret [0xD83D, 0xDE00, 0]"
proof -
  have "utf8s [0x1F600] = [0xF0, 0x9F, 0x98, 0x80]" "utf16s [0x1F600] = [0xD83D, 0xDE00]" "list_all scalar [0x1F600]"
    by (simp_all add: utf8_def utf16_def scalar_def)
  moreover obtain v where "UTF8ToUTF16 4 [0xF0, 0x9F, 0x98, 0x80] = Ret v"
    "\<forall>cs. list_all scalar cs \<and> [0xF0, 0x9F, 0x98, 0x80] = utf8s cs \<longrightarrow> v = utf16s cs @ [0]"
    using UTF8ToUTF16_correct [of "[0xF0, 0x9F, 0x98, 0x80]" 4] by auto
  ultimately show ?thesis by fastforce
qed

text \<open>
  Text goes to UTF-16 and comes back, whatever the new array for the result held.
\<close>

theorem utf8_utf16_roundtrip:
  assumes "list_all (\<lambda>c. scalar c \<and> c \<noteq> 0) cs" "length (utf8s cs) \<le> cap" "length garbage = 4 * (length (utf16s cs) + 1)"
  shows "bnd (UTF8ToUTF16 cap (utf8s cs)) (\<lambda>v. UTF16ToUTF8 garbage v False) = Ret (utf8s cs)"
proof -
  have "list_all scalar cs" using assms(1) by (simp add: list_all_iff)
  then show ?thesis using UTF8ToUTF16_text [of cs cap] UTF16ToUTF8_text [OF assms(1), of garbage] assms(2,3) by simp
qed

theorem utf8_utf16_roundtrip_witness:
  "bnd (UTF8ToUTF16 3 [0xE2, 0x82, 0xAC]) (\<lambda>v. UTF16ToUTF8 (replicate 8 7) v False) = Ret [0xE2, 0x82, 0xAC]"
proof -
  have "utf8s [0x20AC] = [0xE2, 0x82, 0xAC]" "utf16s [0x20AC] = [0x20AC]" by (simp_all add: utf8_def utf16_def)
  then show ?thesis using utf8_utf16_roundtrip [of "[0x20AC]" 3 "replicate 8 7"] by (simp add: scalar_def)
qed

text \<open>
  \<open>UTF32ToUTF16\<close> writes behind its vector exactly when the text needs more units than the capacity: the vector
  is sized for one unit per character, while the end of the target is given as twice the capacity.
\<close>

theorem UTF32ToUTF16_overflow_iff:
  assumes "list_all scalar cs" "length cs \<le> cap"
  shows "UTF32ToUTF16 cap (utf32s cs) = (if cap < length (utf16s cs) then UB HeapOverflow else Ret (resize (filled (length cs) (utf16s cs)) (length (utf16s cs) + 1)))"
proof -
  have "length (utf16s cs) \<le> cap * 2" using utf16s_le(2) [of cs] assms(2) by simp
  then have "ConvertUTF32toUTF16 True (utf32s cs) (cap * 2) conversionOK [] = (conversionOK, [], utf16s cs)"
    using ConvertUTF32toUTF16_text [OF assms(1), of "cap * 2" True "[]" conversionOK "[]"] by simp
  then show ?thesis by (simp add: UTF32ToUTF16_def)
qed

theorem UTF32ToUTF16_overflow_iff_witness: "UTF32ToUTF16 1 [0x1F600] = UB HeapOverflow"
  using UTF32ToUTF16_overflow_iff [of "[0x1F600]" 1] by (simp add: scalar_def utf16_def)

text \<open>
  \<open>UTF8ToUTF16Char\<close> takes one character off the front: it returns the number of its bytes and its one or two units.
\<close>

theorem UTF8ToUTF16Char_first:
  assumes "scalar c" "length (utf8 c) \<le> n"
  shows "UTF8ToUTF16Char (utf8 c @ rest) n = Ret (length (utf8 c), filled 2 (utf16 c) ! 0, filled 2 (utf16 c) ! 1)"
  by (rule UTF8ToUTF16Char_char [OF assms])

theorem UTF8ToUTF16Char_first_witness: "UTF8ToUTF16Char [0xC3, 0xA9, 0x41] 3 = Ret (2, 0xE9, 0)"
  using UTF8ToUTF16Char_first [of "0xE9" 3 "[0x41]"] by (simp add: scalar_def utf8_def utf16_def filled_def)

end
