(* ===== verification/MinidumpFileWriter.thy ===== *)
theory MinidumpFileWriter
  imports StringConversion
begin

text \<open>
  \<^verbatim>\<open>breakpad/client/minidump_file_writer.cc\<close>: the writer of the crash dump. The operating system is a parameter \<open>os\<close>: which
  calls succeed, how much a write puts out and the page size. The file is its bytes and its offset; \<open>ftruncate\<close>
  and writes extend it with zeros. \<open>size_t\<close>, \<open>MDRVA\<close> and \<open>off_t\<close> have 32 bits. The asserts of the source are not
  modelled: the release build drops them.
\<close>

record os =
  open_ok :: bool
  ftruncate_ok :: "u32 \<Rightarrow> bool"
  ftruncate_eacces :: bool
  lseek_ok :: "u32 \<Rightarrow> bool"
  lseek_end_ok :: bool
  write_count :: "u32 \<Rightarrow> nat \<Rightarrow> nat"
  close_ok :: bool
  pagesize :: u32

record dump_file =
  bytes :: "byte list"
  offset :: nat

record MinidumpFileWriter =
  wfile :: int
  wclose :: bool
  wposition :: u32
  wsize :: u32
  out :: dump_file
  g_need_ftruncate_workaround :: bool
  g_checked_need_ftruncate_workaround :: bool

section \<open>The file\<close>

definition pad_to :: "byte list \<Rightarrow> nat \<Rightarrow> byte list" where
  "pad_to bs n = bs @ replicate (n - length bs) 0"

definition sys_truncate :: "u32 \<Rightarrow> MinidumpFileWriter \<Rightarrow> MinidumpFileWriter" where
  "sys_truncate n w = w\<lparr>out := (out w)\<lparr>bytes := take (unat n) (pad_to (bytes (out w)) (unat n))\<rparr>\<rparr>"

definition sys_write :: "byte list \<Rightarrow> MinidumpFileWriter \<Rightarrow> MinidumpFileWriter" where
  "sys_write src w = (let f = out w in
     w\<lparr>out := \<lparr>bytes = st (pad_to (bytes f) (offset f + length src)) (offset f) src, offset = offset f + length src\<rparr>\<rparr>)"

section \<open>The writer\<close>

definition kInvalidMDRVA :: u32 where
  "kInvalidMDRVA = 0xFFFFFFFF"

definition MinidumpFileWriter_new :: "bool \<Rightarrow> bool \<Rightarrow> MinidumpFileWriter" where
  "MinidumpFileWriter_new need checked =
     \<lparr>wfile = -1, wclose = True, wposition = 0, wsize = 0, out = \<lparr>bytes = [], offset = 0\<rparr>,
      g_need_ftruncate_workaround = need, g_checked_need_ftruncate_workaround = checked\<rparr>"

definition CheckNeedsFTruncateWorkAround :: "os \<Rightarrow> MinidumpFileWriter \<Rightarrow> MinidumpFileWriter" where
  "CheckNeedsFTruncateWorkAround os w =
     (if g_checked_need_ftruncate_workaround w then w
      else
        let w = w\<lparr>g_checked_need_ftruncate_workaround := True\<rparr> in
        if \<not> lseek_end_ok os then w
        else
          let n = length (bytes (out w)); w = w\<lparr>out := (out w)\<lparr>offset := n\<rparr>\<rparr> in
          if \<not> ftruncate_ok os (of_nat n) \<and> ftruncate_eacces os then w\<lparr>g_need_ftruncate_workaround := True\<rparr> else w)"

definition Open :: "os \<Rightarrow> int \<Rightarrow> MinidumpFileWriter \<Rightarrow> bool \<times> MinidumpFileWriter" where
  "Open os fd w = (let r = (if open_ok os then fd else -1) in (r \<noteq> -1, w\<lparr>wfile := r, out := \<lparr>bytes = [], offset = 0\<rparr>\<rparr>))"

definition SetFile :: "os \<Rightarrow> int \<Rightarrow> dump_file \<Rightarrow> MinidumpFileWriter \<Rightarrow> MinidumpFileWriter" where
  "SetFile os fd f w = CheckNeedsFTruncateWorkAround os (w\<lparr>wfile := fd, wclose := False, out := f\<rparr>)"

definition Close :: "os \<Rightarrow> MinidumpFileWriter \<Rightarrow> bool \<times> MinidumpFileWriter" where
  "Close os w =
     (if wfile w \<noteq> -1 then
        if \<not> g_need_ftruncate_workaround w \<and> \<not> ftruncate_ok os (wposition w) then (False, w)
        else
          let w = (if g_need_ftruncate_workaround w then w else sys_truncate (wposition w) w) in
          (close_ok os, w\<lparr>wfile := -1\<rparr>)
      else (True, w))"

definition MinidumpFileWriter_delete :: "os \<Rightarrow> MinidumpFileWriter \<Rightarrow> MinidumpFileWriter" where
  "MinidumpFileWriter_delete os w = (if wclose w then snd (Close os w) else w)"

definition Allocate :: "os \<Rightarrow> u32 \<Rightarrow> MinidumpFileWriter \<Rightarrow> u32 \<times> MinidumpFileWriter" where
  "Allocate os sz w =
     (if g_need_ftruncate_workaround w then (wposition w, w\<lparr>wsize := wsize w + sz, wposition := wposition w + sz\<rparr>)
      else
        let aligned_size = (sz + 7) AND NOT 7 in
        if wsize w < wposition w + aligned_size then
          let growth = max aligned_size (pagesize os); new_size = wsize w + growth in
          if \<not> ftruncate_ok os new_size then (kInvalidMDRVA, w)
          else
            let w = (sys_truncate new_size w)\<lparr>wsize := new_size\<rparr> in
            (wposition w, w\<lparr>wposition := wposition w + aligned_size\<rparr>)
        else (wposition w, w\<lparr>wposition := wposition w + aligned_size\<rparr>))"

text \<open>A failed \<open>lseek\<close> returns -1, which is also the position \<open>kInvalidMDRVA\<close> as an \<open>off_t\<close>.\<close>

definition Copy :: "os \<Rightarrow> u32 \<Rightarrow> byte list \<Rightarrow> MinidumpFileWriter \<Rightarrow> bool \<times> MinidumpFileWriter" where
  "Copy os position src w =
     (if wsize w < of_nat (length src) + position then (False, w)
      else
        let ok = lseek_ok os position;
            w = (if ok then w\<lparr>out := (out w)\<lparr>offset := unat position\<rparr>\<rparr> else w) in
        if ok \<or> position = kInvalidMDRVA then
          let n = min (length src) (write_count os position (length src)) in (n = length src, sys_write (take n src) w)
        else (False, w))"

section \<open>Chunks\<close>

record MDRVA =
  rva :: u32
  rva_size :: u32

definition UntypedMDRVA_Allocate :: "os \<Rightarrow> u32 \<Rightarrow> MinidumpFileWriter \<Rightarrow> bool \<times> MDRVA \<times> MinidumpFileWriter" where
  "UntypedMDRVA_Allocate os sz w = (let (p, w) = Allocate os sz w in (p \<noteq> kInvalidMDRVA, \<lparr>rva = p, rva_size = sz\<rparr>, w))"

definition UntypedMDRVA_Copy :: "os \<Rightarrow> u32 \<Rightarrow> byte list \<Rightarrow> MinidumpFileWriter \<Rightarrow> bool \<times> MinidumpFileWriter" where
  "UntypedMDRVA_Copy os pos src w = Copy os pos src w"

definition AllocateObjectAndArray :: "os \<Rightarrow> u32 \<Rightarrow> u32 \<Rightarrow> u32 \<Rightarrow> MinidumpFileWriter \<Rightarrow> bool \<times> MDRVA \<times> MinidumpFileWriter" where
  "AllocateObjectAndArray os obj count len w = UntypedMDRVA_Allocate os (obj + count * len) w"

definition AllocateArray :: "os \<Rightarrow> u32 \<Rightarrow> u32 \<Rightarrow> MinidumpFileWriter \<Rightarrow> bool \<times> MDRVA \<times> MinidumpFileWriter" where
  "AllocateArray os obj count w = UntypedMDRVA_Allocate os (obj * count) w"

definition CopyIndex :: "os \<Rightarrow> u32 \<Rightarrow> MDRVA \<Rightarrow> u32 \<Rightarrow> byte list \<Rightarrow> MinidumpFileWriter \<Rightarrow> bool \<times> MinidumpFileWriter" where
  "CopyIndex os obj m index item w = Copy os (rva m + index * obj) item w"

definition CopyIndexAfterObject :: "os \<Rightarrow> u32 \<Rightarrow> MDRVA \<Rightarrow> u32 \<Rightarrow> byte list \<Rightarrow> MinidumpFileWriter \<Rightarrow> bool \<times> MinidumpFileWriter" where
  "CopyIndexAfterObject os obj m index src w = Copy os (rva m + obj + index * of_nat (length src)) src w"

definition Flush :: "os \<Rightarrow> MDRVA \<Rightarrow> byte list \<Rightarrow> MinidumpFileWriter \<Rightarrow> bool \<times> MinidumpFileWriter" where
  "Flush os m data w = Copy os (rva m) data w"

section \<open>Strings and memory\<close>

definition MDString_size :: u32 where
  "MDString_size = 4"

definition enc16 :: "u16 \<Rightarrow> byte list" where
  "enc16 x = [ucast x, ucast (drop_bit 8 x)]"

definition out_units :: "u16 \<Rightarrow> u16 \<Rightarrow> byte list" where
  "out_units o0 o1 = (if o1 \<noteq> 0 then enc16 o0 @ enc16 o1 else enc16 o0)"

fun CopyStringToMDString32 :: "os \<Rightarrow> u32 list \<Rightarrow> MDRVA \<Rightarrow> u32 \<Rightarrow> MinidumpFileWriter \<Rightarrow> bool \<times> MinidumpFileWriter" where
  "CopyStringToMDString32 os [] m idx w = (True, w)"
| "CopyStringToMDString32 os (c # str) m idx w =
     (let (o0, o1) = UTF32ToUTF16Char c in
      if o0 = 0 then (False, w)
      else
        let (r, w) = CopyIndexAfterObject os MDString_size m idx (out_units o0 o1) w in
        if r then CopyStringToMDString32 os str m (idx + (if o1 \<noteq> 0 then 2 else 1)) w else (False, w))"

text \<open>\<open>fuel\<close> bounds the rounds by the length of the string, of which every round takes at least one byte.\<close>

fun CopyStringToMDString8 :: "os \<Rightarrow> nat \<Rightarrow> byte list \<Rightarrow> MDRVA \<Rightarrow> u32 \<Rightarrow> MinidumpFileWriter \<Rightarrow> (bool \<times> MinidumpFileWriter) outcome" where
  "CopyStringToMDString8 os 0 str m idx w = Ret (True, w)"
| "CopyStringToMDString8 os (Suc fuel) str m idx w =
     (if str = [] then Ret (True, w)
      else bnd (UTF8ToUTF16Char str (length str)) (\<lambda>(n, o0, o1).
        if n = 0 then Ret (False, w)
        else
          let (r, w) = CopyIndexAfterObject os MDString_size m idx (out_units o0 o1) w in
          if r then CopyStringToMDString8 os fuel (drop n str) m (idx + (if o1 \<noteq> 0 then 2 else 1)) w else Ret (False, w)))"

text \<open>
  \<open>str\<close> is the string up to its terminator or to the limit. The destructor of \<open>mdstring\<close> writes the length field on every way out.
\<close>

definition WriteString8 :: "os \<Rightarrow> byte list \<Rightarrow> MinidumpFileWriter \<Rightarrow> (MDRVA option \<times> MinidumpFileWriter) outcome" where
  "WriteString8 os str w =
     (let n = of_nat (length str) :: u32;
          (ok, m, w) = AllocateObjectAndArray os MDString_size (n + 1) 2 w in
      if \<not> ok then Ret (None, snd (Flush os m (enc32 0) w))
      else bnd (CopyStringToMDString8 os (length str) str m 0 w) (\<lambda>(r, w).
        let (r, w) = (if r then CopyIndexAfterObject os MDString_size m n (enc16 0) w else (False, w)) in
        Ret (if r then Some m else None, snd (Flush os m (enc32 (n * 2)) w))))"

definition WriteString32 :: "os \<Rightarrow> u32 list \<Rightarrow> MinidumpFileWriter \<Rightarrow> MDRVA option \<times> MinidumpFileWriter" where
  "WriteString32 os str w =
     (let n = of_nat (length str) :: u32;
          (ok, m, w) = AllocateObjectAndArray os MDString_size (n + 1) 2 w in
      if \<not> ok then (None, snd (Flush os m (enc32 0) w))
      else
        let (r, w) = CopyStringToMDString32 os str m 0 w;
            (r, w) = (if r then CopyIndexAfterObject os MDString_size m n (enc16 0) w else (False, w)) in
        (if r then Some m else None, snd (Flush os m (enc32 (n * 2)) w)))"

definition WriteMemory :: "os \<Rightarrow> u64 \<Rightarrow> byte list \<Rightarrow> MinidumpFileWriter \<Rightarrow> (u64 \<times> MDRVA) option \<times> MinidumpFileWriter" where
  "WriteMemory os addr src w =
     (let (ok, m, w) = UntypedMDRVA_Allocate os (of_nat (length src)) w in
      if \<not> ok then (None, w)
      else let (r, w) = UntypedMDRVA_Copy os (rva m) src w in (if r then Some (addr, m) else None, w))"

section \<open>The writer on a working system\<close>

definition os_ok :: "os \<Rightarrow> bool" where
  "os_ok os \<longleftrightarrow> (\<forall>n. ftruncate_ok os n) \<and> (\<forall>p. lseek_ok os p) \<and> (\<forall>p n. write_count os p n = n)"

text \<open>
  The space up to \<open>position_\<close> is given away in units of eight bytes, the file is as long as \<open>size_\<close>, and what is not given away yet is zero.
\<close>

definition winv :: "MinidumpFileWriter \<Rightarrow> bool" where
  "winv w \<longleftrightarrow> \<not> g_need_ftruncate_workaround w \<and> unat (wposition w) \<le> unat (wsize w) \<and> 8 dvd unat (wposition w) \<and>
     length (bytes (out w)) = unat (wsize w) \<and> list_all (\<lambda>b. b = 0) (drop (unat (wposition w)) (bytes (out w)))"

definition aligned :: "nat \<Rightarrow> nat" where
  "aligned n = (n + 7) div 8 * 8"

text \<open>The file has room to grow for \<open>n\<close> more bytes.\<close>

definition grows :: "os \<Rightarrow> nat \<Rightarrow> MinidumpFileWriter \<Rightarrow> bool" where
  "grows os n w \<longleftrightarrow> 0 < n \<and> n + 7 < 4294967296 \<and> unat (wsize w) + max (aligned n) (unat (pagesize os)) < 4294967296"

lemma aligned_word: "n + 7 < 4294967296 \<Longrightarrow> (of_nat n + 7) AND NOT 7 = (of_nat (aligned n) :: u32)"
proof -
  assume n: "n + 7 < 4294967296"
  have "(x :: u32) AND NOT 7 = x - take_bit 3 x" for x
  proof -
    have "(x AND NOT 7) + (x AND 7) = (x AND NOT 7) OR (x AND 7)" by (rule disjunctive_add) (auto simp: bit_simps)
    also have "\<dots> = x" by (rule bit_word_eqI) (auto simp: bit_simps)
    finally have "x AND NOT 7 = x - (x AND 7)" by (simp add: eq_diff_eq)
    moreover have "x AND 7 = take_bit 3 x" by (simp add: take_bit_eq_mask mask_eq_exp_minus_1)
    ultimately show ?thesis by simp
  qed
  then have "(of_nat (n + 7) :: u32) AND NOT 7 = of_nat (n + 7) - take_bit 3 (of_nat (n + 7))" by blast
  also have "take_bit 3 (of_nat (n + 7) :: u32) = of_nat ((n + 7) mod 8)" using take_bit_of_nat32 [of 3 "n + 7"] by simp
  also have "(of_nat (n + 7) :: u32) - of_nat ((n + 7) mod 8) = of_nat (n + 7 - (n + 7) mod 8)" by (rule of_nat_diff [symmetric]) simp
  also have "n + 7 - (n + 7) mod 8 = aligned n" unfolding aligned_def by (rule minus_mod_eq_div_mult)
  finally show ?thesis by simp
qed

lemma aligned_bounds: "n \<le> aligned n" "aligned n \<le> n + 7" "8 dvd aligned n"
  unfolding aligned_def by presburger+

lemma sys_truncate_grow:
  assumes "length (bytes (out w)) \<le> unat n"
  shows "sys_truncate n w = w\<lparr>out := (out w)\<lparr>bytes := bytes (out w) @ replicate (unat n - length (bytes (out w))) 0\<rparr>\<rparr>"
  using assms by (simp add: sys_truncate_def pad_to_def)

lemma Allocate_ok:
  assumes "os_ok os" "winv w" "grows os n w"
  shows "\<exists>w'. Allocate os (of_nat n) w = (wposition w, w') \<and> winv w' \<and> unat (wposition w') = unat (wposition w) + aligned n \<and>
    unat (wposition w') \<le> unat (wsize w') \<and> take (unat (wposition w)) (bytes (out w')) = take (unat (wposition w)) (bytes (out w)) \<and>
    wfile w' = wfile w"
proof -
  let ?a = "of_nat (aligned n) :: u32" and ?p = "wposition w" and ?b = "bytes (out w)"
  have g: "0 < n" "n + 7 < 4294967296" "unat (wsize w) + max (aligned n) (unat (pagesize os)) < 4294967296" using assms(3) by (simp_all add: grows_def)
  have i: "\<not> g_need_ftruncate_workaround w" "unat ?p \<le> unat (wsize w)" "8 dvd unat ?p" "length ?b = unat (wsize w)" "list_all (\<lambda>b. b = 0) (drop (unat ?p) ?b)"
    using assms(2) by (simp_all add: winv_def)
  have a: "unat ?a = aligned n" by (rule unat_of_nat32) (use g aligned_bounds(2) [of n] in linarith)
  have pa: "unat (?p + ?a) = unat ?p + aligned n" using unat_plus32 [of ?p ?a] a g(3) i(2) by simp
  have d: "8 dvd unat ?p + aligned n" using i(3) aligned_bounds(3) by (rule dvd_add)
  show ?thesis
  proof (cases "wsize w < ?p + ?a")
    case True
    let ?g = "max ?a (pagesize os)"
    have ug: "unat ?g = max (aligned n) (unat (pagesize os))" using a by (simp add: max_def word_le_nat_alt)
    have ns: "unat (wsize w + ?g) = unat (wsize w) + unat ?g" using unat_plus32 [of "wsize w" ?g] ug g(3) by simp
    let ?w = "(sys_truncate (wsize w + ?g) w)\<lparr>wsize := wsize w + ?g, wposition := ?p + ?a\<rparr>"
    have t: "sys_truncate (wsize w + ?g) w = w\<lparr>out := (out w)\<lparr>bytes := ?b @ replicate (unat ?g) 0\<rparr>\<rparr>"
      using sys_truncate_grow [of w "wsize w + ?g"] i(4) ns by simp
    have "Allocate os (of_nat n) w = (?p, ?w)"
      using i(1) True assms(1) aligned_word [OF g(2)] t by (simp add: Allocate_def Let_def os_ok_def)
    moreover have "list_all (\<lambda>b. b = 0) (drop (unat ?p + aligned n) (?b @ replicate (unat ?g) 0))"
      using i(5) by (auto simp: list_all_iff dest: in_set_dropD) (metis add.commute drop_drop in_set_dropD)
    ultimately show ?thesis using i pa ns ug d by (simp add: winv_def t)
  next
    case False
    let ?w = "w\<lparr>wposition := ?p + ?a\<rparr>"
    have "Allocate os (of_nat n) w = (?p, ?w)" using i(1) False aligned_word [OF g(2)] by (simp add: Allocate_def Let_def)
    moreover have "unat ?p + aligned n \<le> unat (wsize w)" using False pa by (simp add: word_less_nat_alt)
    moreover have "list_all (\<lambda>b. b = 0) (drop (unat ?p + aligned n) ?b)"
      using i(5) by (auto simp: list_all_iff) (metis add.commute drop_drop in_set_dropD)
    ultimately show ?thesis using i pa d by (simp add: winv_def)
  qed
qed

lemma Copy_ok:
  assumes "os_ok os" "length (bytes (out w)) = unat (wsize w)" "unat p + length src \<le> unat (wsize w)"
  shows "Copy os p src w = (True, w\<lparr>out := \<lparr>bytes = st (bytes (out w)) (unat p) src, offset = unat p + length src\<rparr>\<rparr>)"
proof -
  have s: "unat (wsize w) < 4294967296" using unsigned_less [of "wsize w", where ?'a = nat] by simp
  have "unat (of_nat (length src) + p) = length src + unat p" using unat_plus32 [of "of_nat (length src)" p] s assms(3) by simp
  then have "\<not> wsize w < of_nat (length src) + p" using assms(3) by (simp add: word_less_nat_alt)
  moreover have "pad_to (bytes (out w)) (unat p + length src) = bytes (out w)" using assms(2,3) by (simp add: pad_to_def)
  ultimately show ?thesis using assms(1) by (simp add: Copy_def os_ok_def sys_write_def Let_def)
qed

lemma st_append: "a + length xs + length ys \<le> length m \<Longrightarrow> st (st m a xs) (a + length xs) ys = st m a (xs @ ys)"
  by (simp add: st_def add_ac)

lemma st_Nil [simp]: "st m a [] = m"
  by (simp add: st_def)

lemma take_st: "a \<le> b \<Longrightarrow> b + length xs \<le> length m \<Longrightarrow> take a (st m b xs) = take a m"
  by (simp add: st_def)

lemma length_enc16 [simp]: "length (enc16 x) = 2"
  by (simp add: enc16_def)

abbreviation units :: "nat list \<Rightarrow> byte list" where
  "units cs \<equiv> concat (map (\<lambda>c. enc16 (of_nat c)) cs)"

lemma length_units [simp]: "length (units cs) = 2 * length cs"
  by (induction cs) simp_all

lemma utf8s_ge: "length cs \<le> length (utf8s cs)"
proof (induction cs)
  case (Cons c cs)
  have "1 \<le> length (utf8 c)" using length_utf8(2) [of c] by linarith
  then have "1 + length cs \<le> length (utf8 c) + length (utf8s cs)" using Cons by (rule add_mono)
  then show ?case by simp
qed simp

text \<open>A character of the basic plane is one unit, which is not zero.\<close>

abbreviation bmp :: "nat \<Rightarrow> bool" where
  "bmp c \<equiv> scalar c \<and> c \<noteq> 0 \<and> c < 0x10000"

lemma UTF8ToUTF16Char_bmp:
  assumes "bmp c"
  shows "UTF8ToUTF16Char (utf8 c @ rest) (length (utf8 c @ rest)) = Ret (length (utf8 c), of_nat c, 0)"
  using UTF8ToUTF16Char_char [of c "length (utf8 c @ rest)" rest] assms by (simp add: filled_def utf16_def)

lemma CopyString_bmp:
  assumes "os_ok os" "list_all bmp cs" "length (utf8s cs) \<le> fuel" "length (bytes (out w)) = unat (wsize w)"
    and "unat (rva m) + 4 + 2 * (k + length cs) \<le> unat (wsize w)"
  shows "\<exists>off. CopyStringToMDString8 os fuel (utf8s cs) m (of_nat k) w =
    Ret (True, w\<lparr>out := \<lparr>bytes = st (bytes (out w)) (unat (rva m) + 4 + 2 * k) (units cs), offset = off\<rparr>\<rparr>)"
  using assms(2-)
proof (induction cs arbitrary: fuel k w)
  case Nil
  then have "CopyStringToMDString8 os fuel [] m (of_nat k) w = Ret (True, w)" by (cases fuel) simp_all
  then show ?case by (intro exI [of _ "offset (out w)"]) simp
next
  case (Cons c cs)
  let ?p = "unat (rva m) + 4 + 2 * k" and ?b = "bytes (out w)"
  have c: "bmp c" and cs: "list_all bmp cs" using Cons.prems(1) by simp_all
  obtain f where f: "fuel = Suc f" using Cons.prems(2) length_utf8(2) [of c] by (cases fuel) auto
  have s: "unat (wsize w) < 4294967296" using unsigned_less [of "wsize w", where ?'a = nat] by simp
  have pos: "unat (rva m + MDString_size + of_nat k * of_nat (length (enc16 (of_nat c :: u16))) :: u32) = ?p"
  proof -
    have e: "rva m + MDString_size + of_nat k * of_nat (length (enc16 (of_nat c :: u16))) = rva m + of_nat (4 + 2 * k)" by (simp add: MDString_size_def)
    have "4 + 2 * k < 4294967296" using Cons.prems(4) s by simp
    then have u: "unat (of_nat (4 + 2 * k) :: u32) = 4 + 2 * k" by (rule unat_of_nat32)
    show ?thesis unfolding e using unat_plus32 [of "rva m" "of_nat (4 + 2 * k)", unfolded u] Cons.prems(4) s by simp
  qed
  let ?w = "w\<lparr>out := \<lparr>bytes = st ?b ?p (enc16 (of_nat c)), offset = ?p + 2\<rparr>\<rparr>"
  have cp: "CopyIndexAfterObject os MDString_size m (of_nat k) (enc16 (of_nat c)) w = (True, ?w)"
    using Copy_ok [OF assms(1) Cons.prems(3), of "rva m + MDString_size + of_nat k * of_nat (length (enc16 (of_nat c :: u16)))" "enc16 (of_nat c)"]
      Cons.prems(4) pos by (simp add: CopyIndexAfterObject_def)
  have ne: "utf8 c \<noteq> []" using length_utf8(2) [of c] by auto
  have "length (utf8 c) + length (utf8s cs) \<le> fuel" using Cons.prems(2) by simp
  then have fl: "length (utf8s cs) \<le> f" using length_utf8(2) [of c] f by linarith
  have e1: "CopyStringToMDString8 os fuel (utf8s (c # cs)) m (of_nat k) w = CopyStringToMDString8 os f (utf8s cs) m (of_nat (Suc k)) ?w"
    using UTF8ToUTF16Char_bmp [OF c, of "utf8s cs"] cp ne f by (simp add: out_units_def add.commute)
  obtain off where e2: "CopyStringToMDString8 os f (utf8s cs) m (of_nat (Suc k)) ?w =
      Ret (True, ?w\<lparr>out := \<lparr>bytes = st (bytes (out ?w)) (unat (rva m) + 4 + 2 * Suc k) (units cs), offset = off\<rparr>\<rparr>)"
    using Cons.IH [OF cs fl, of ?w "Suc k"] Cons.prems(3,4) by auto
  have "st (st ?b ?p (enc16 (of_nat c))) (unat (rva m) + 4 + 2 * Suc k) (units cs) = st ?b ?p (units (c # cs))"
    using st_append [of ?p "enc16 (of_nat c)" "units cs" ?b] Cons.prems(3,4) by (simp add: add_ac)
  then show ?case using e1 e2 by auto
qed

section \<open>Properties\<close>

text \<open>
  C27: allocations on a working system: the position before is returned, the space from it on is at least the size
  asked for and ends at the new position, a multiple of eight, so chunks do not overlap; the file reaches to the
  end of the chunk and what was written before stays.
\<close>

theorem Allocate_disjoint:
  assumes "os_ok os" "winv w" "grows os n w"
  shows "\<exists>w'. Allocate os (of_nat n) w = (wposition w, w') \<and> winv w' \<and> unat (wposition w) + n \<le> unat (wposition w') \<and>
    unat (wposition w') \<le> length (bytes (out w')) \<and> take (unat (wposition w)) (bytes (out w')) = take (unat (wposition w)) (bytes (out w))"
proof -
  obtain w' where "Allocate os (of_nat n) w = (wposition w, w')" "winv w'" "unat (wposition w') = unat (wposition w) + aligned n"
    "take (unat (wposition w)) (bytes (out w')) = take (unat (wposition w)) (bytes (out w))" using Allocate_ok [OF assms] by blast
  then show ?thesis using aligned_bounds(1) [of n] by (intro exI [of _ w']) (auto simp: winv_def)
qed

definition good_os :: os where
  "good_os = \<lparr>open_ok = True, ftruncate_ok = (\<lambda>n. True), ftruncate_eacces = False, lseek_ok = (\<lambda>p. True), lseek_end_ok = True,
     write_count = (\<lambda>p n. n), close_ok = True, pagesize = 16\<rparr>"

lemma good_os_ok: "os_ok good_os"
  by (simp add: os_ok_def good_os_def)

lemma new_winv: "winv (MinidumpFileWriter_new False True)"
  by (simp add: winv_def MinidumpFileWriter_new_def)

lemma new_grows: "n \<in> {1..1000} \<Longrightarrow> grows good_os n (MinidumpFileWriter_new False True)"
  using aligned_bounds(2) [of n] by (simp add: grows_def MinidumpFileWriter_new_def good_os_def)

theorem Allocate_disjoint_witness:
  "\<exists>w'. Allocate good_os 5 (MinidumpFileWriter_new False True) = (0, w') \<and> winv w' \<and> 5 \<le> unat (wposition w')"
  using Allocate_disjoint [OF good_os_ok new_winv new_grows, of 5] by (auto simp: MinidumpFileWriter_new_def)

lemma UntypedMDRVA_Allocate_ok:
  assumes "os_ok os" "winv w" "grows os n w"
  shows "\<exists>w'. UntypedMDRVA_Allocate os (of_nat n) w = (True, \<lparr>rva = wposition w, rva_size = of_nat n\<rparr>, w') \<and> winv w' \<and>
    unat (wposition w) + n \<le> unat (wsize w') \<and> length (bytes (out w')) = unat (wsize w') \<and>
    take (unat (wposition w)) (bytes (out w')) = take (unat (wposition w)) (bytes (out w))"
proof -
  obtain w' where w: "Allocate os (of_nat n) w = (wposition w, w')" "winv w'" "unat (wposition w') = unat (wposition w) + aligned n"
    "unat (wposition w') \<le> unat (wsize w')"
    "take (unat (wposition w)) (bytes (out w')) = take (unat (wposition w)) (bytes (out w))" using Allocate_ok [OF assms] by blast
  have "wposition w \<noteq> kInvalidMDRVA"
  proof
    assume "wposition w = kInvalidMDRVA"
    then have "8 dvd unat kInvalidMDRVA" using assms(2) by (simp add: winv_def)
    then show False by (simp add: kInvalidMDRVA_def)
  qed
  then show ?thesis using w aligned_bounds(1) [of n] by (intro exI [of _ w']) (auto simp: UntypedMDRVA_Allocate_def winv_def)
qed

text \<open>
  C28: \<open>WriteMemory\<close> on a working system: the descriptor gives the address, the old position and the size, the file holds
  the bytes there, and what was written before is unchanged.
\<close>

theorem WriteMemory_roundtrip:
  assumes "os_ok os" "winv w" "grows os (length src) w"
  shows "\<exists>w'. WriteMemory os addr src w = (Some (addr, \<lparr>rva = wposition w, rva_size = of_nat (length src)\<rparr>), w') \<and>
    ld (bytes (out w')) (unat (wposition w)) (length src) = src \<and>
    take (unat (wposition w)) (bytes (out w')) = take (unat (wposition w)) (bytes (out w))"
proof -
  obtain w1 where w: "UntypedMDRVA_Allocate os (of_nat (length src)) w = (True, \<lparr>rva = wposition w, rva_size = of_nat (length src)\<rparr>, w1)"
    "unat (wposition w) + length src \<le> unat (wsize w1)" "length (bytes (out w1)) = unat (wsize w1)"
    "take (unat (wposition w)) (bytes (out w1)) = take (unat (wposition w)) (bytes (out w))"
    using UntypedMDRVA_Allocate_ok [OF assms] by blast
  then show ?thesis using Copy_ok [OF assms(1) w(3), of "wposition w" src] take_st [of "unat (wposition w)" "unat (wposition w)" src "bytes (out w1)"]
    by (simp add: WriteMemory_def UntypedMDRVA_Copy_def ld_st_same)
qed

theorem WriteMemory_roundtrip_witness:
  "\<exists>w'. WriteMemory good_os 4096 [1, 2, 3] (MinidumpFileWriter_new False True) = (Some (4096, \<lparr>rva = 0, rva_size = 3\<rparr>), w') \<and> ld (bytes (out w')) 0 3 = [1, 2, 3]"
proof -
  have l: "length [1 :: byte, 2, 3] = 3" by simp
  have "grows good_os (length [1 :: byte, 2, 3]) (MinidumpFileWriter_new False True)" unfolding l by (rule new_grows) simp
  from WriteMemory_roundtrip [OF good_os_ok new_winv this, of 4096] show ?thesis unfolding l by (auto simp: MinidumpFileWriter_new_def)
qed

text \<open>
  A string of the basic plane is written as its UTF-16 units and a terminator, but the length field counts two bytes
  for every byte of the UTF-8 text, which is its real length only for ASCII; the terminator stands at that distance.
\<close>

theorem WriteString_bmp:
  assumes "os_ok os" "winv w" "list_all bmp cs" "n = length (utf8s cs)" "grows os (4 + (n + 1) * 2) w"
  shows "\<exists>w' m. WriteString8 os (utf8s cs) w = Ret (Some m, w') \<and> rva m = wposition w \<and>
    ld (bytes (out w')) (unat (rva m)) 4 = enc32 (of_nat (2 * n)) \<and>
    ld (bytes (out w')) (unat (rva m) + 4) (2 * length cs) = units cs \<and>
    ld (bytes (out w')) (unat (rva m) + 4 + 2 * n) 2 = [0, 0]"
proof -
  let ?b = "unat (wposition w)" and ?m = "\<lparr>rva = wposition w, rva_size = of_nat (4 + (n + 1) * 2)\<rparr>"
  obtain w1 where w1: "UntypedMDRVA_Allocate os (of_nat (4 + (n + 1) * 2)) w = (True, ?m, w1)" "?b + (4 + (n + 1) * 2) \<le> unat (wsize w1)"
    "length (bytes (out w1)) = unat (wsize w1)" using UntypedMDRVA_Allocate_ok [OF assms(1,2,5)] by blast
  have al: "AllocateObjectAndArray os MDString_size (of_nat n + 1) 2 w = (True, ?m, w1)"
    using w1(1) by (simp add: AllocateObjectAndArray_def MDString_size_def add_ac)
  have s: "unat (wsize w1) < 4294967296" using unsigned_less [of "wsize w1", where ?'a = nat] by simp
  have ln: "length cs \<le> n" unfolding assms(4) by (rule utf8s_ge)
  obtain off where cp: "CopyStringToMDString8 os n (utf8s cs) ?m 0 w1 = Ret (True, w1\<lparr>out := \<lparr>bytes = st (bytes (out w1)) (?b + 4) (units cs), offset = off\<rparr>\<rparr>)"
    using CopyString_bmp [OF assms(1,3), of n w1 ?m 0] assms(4) w1(2,3) ln by auto
  let ?w2 = "w1\<lparr>out := \<lparr>bytes = st (bytes (out w1)) (?b + 4) (units cs), offset = off\<rparr>\<rparr>"
  have l2: "length (bytes (out ?w2)) = unat (wsize ?w2)" using w1(2,3) ln by simp
  have p2: "unat (wposition w + MDString_size + of_nat n * of_nat (length (enc16 0))) = ?b + 4 + 2 * n"
  proof -
    have e: "wposition w + MDString_size + of_nat n * of_nat (length (enc16 0)) = wposition w + of_nat (4 + 2 * n)" by (simp add: MDString_size_def)
    have "4 + 2 * n < 4294967296" using w1(2) s by simp
    then have u: "unat (of_nat (4 + 2 * n) :: u32) = 4 + 2 * n" by (rule unat_of_nat32)
    show ?thesis unfolding e using unat_plus32 [of "wposition w" "of_nat (4 + 2 * n)", unfolded u] w1(2) s by simp
  qed
  obtain o3 where c3: "CopyIndexAfterObject os MDString_size ?m (of_nat n) (enc16 0) ?w2 =
      (True, w1\<lparr>out := \<lparr>bytes = st (st (bytes (out w1)) (?b + 4) (units cs)) (?b + 4 + 2 * n) (enc16 0), offset = o3\<rparr>\<rparr>)"
    using Copy_ok [OF assms(1) l2, of "wposition w + MDString_size + of_nat n * of_nat (length (enc16 0))" "enc16 0"] p2 w1(2)
    by (auto simp: CopyIndexAfterObject_def)
  let ?w3 = "w1\<lparr>out := \<lparr>bytes = st (st (bytes (out w1)) (?b + 4) (units cs)) (?b + 4 + 2 * n) (enc16 0), offset = o3\<rparr>\<rparr>"
  have l3: "length (bytes (out ?w3)) = unat (wsize ?w3)" using w1(2,3) ln by simp
  obtain o4 where c4: "Flush os ?m (enc32 (of_nat n * 2)) ?w3 =
      (True, w1\<lparr>out := \<lparr>bytes = st (bytes (out ?w3)) ?b (enc32 (of_nat n * 2)), offset = o4\<rparr>\<rparr>)"
    using Copy_ok [OF assms(1) l3, of "wposition w" "enc32 (of_nat n * 2)"] w1(2) by (auto simp: Flush_def)
  let ?w4 = "w1\<lparr>out := \<lparr>bytes = st (bytes (out ?w3)) ?b (enc32 (of_nat n * 2)), offset = o4\<rparr>\<rparr>"
  have "WriteString8 os (utf8s cs) w = Ret (Some ?m, ?w4)"
    unfolding WriteString8_def Let_def assms(4) [symmetric] al prod.case using cp c3 c4 by simp
  moreover have "ld (bytes (out ?w4)) ?b 4 = enc32 (of_nat (2 * n))" using w1(2,3) ln by (simp add: ld_st_same mult.commute)
  moreover have "ld (bytes (out ?w4)) (?b + 4) (2 * length cs) = units cs" using w1(2,3) ln by (simp add: ld_st_after ld_st_before ld_st_same)
  moreover have "ld (bytes (out ?w4)) (?b + 4 + 2 * n) 2 = [0, 0]" using w1(2,3) ln by (simp add: ld_st_after ld_st_same) (simp add: enc16_def)
  ultimately show ?thesis by (intro exI [of _ ?w4] exI [of _ ?m]) simp
qed

theorem WriteString_bmp_witness:
  "\<exists>w' m. WriteString8 good_os [0x41, 0xC3, 0xA9] (MinidumpFileWriter_new False True) = Ret (Some m, w') \<and> rva m = 0 \<and>
    ld (bytes (out w')) 0 4 = enc32 6 \<and> ld (bytes (out w')) 4 4 = [0x41, 0, 0xE9, 0]"
proof -
  have u: "utf8s [0x41, 0xE9] = [0x41, 0xC3, 0xA9]" by (simp add: utf8_def)
  have e: "units [0x41, 0xE9] = [0x41, 0, 0xE9, 0]" by (simp add: enc16_def)
  have g: "grows good_os (4 + (3 + 1) * 2) (MinidumpFileWriter_new False True)" by (rule new_grows) simp
  have "3 = length (utf8s [0x41, 0xE9])" "list_all bmp [0x41, 0xE9]" unfolding u by (simp_all add: scalar_def)
  from WriteString_bmp [OF good_os_ok new_winv this(2,1) g] show ?thesis unfolding u e by (auto simp: MinidumpFileWriter_new_def)
qed

text \<open>
  A character outside the basic plane is misplaced: the index is multiplied by the four bytes of its two
  units, so the string A U+1F600 comes out as 0041 0000 D83D DE00 and ends after its first character.
\<close>

theorem WriteString_misplaces_pair:
  "map_prod id (\<lambda>w. bytes (out w)) (case WriteString8 good_os [0x41, 0xF0, 0x9F, 0x98, 0x80] (MinidumpFileWriter_new False True) of Ret r \<Rightarrow> r) =
   (Some \<lparr>rva = 0, rva_size = 16\<rparr>, [10, 0, 0, 0, 0x41, 0, 0, 0, 0x3D, 0xD8, 0, 0xDE, 0, 0, 0, 0])"
  by code_simp

end
