(* ===== verification/FileDownload.thy ===== *)
theory FileDownload
  imports Prelude
begin

text \<open>
  \<^verbatim>\<open>gles/Network/ConnectManager.cpp\<close> and \<^verbatim>\<open>JAConnect.cpp\<close>: the download of files from a camera. The network thread appends
  what arrives to a pool of 2 MiB, the download thread takes messages off its front and appends their payload to a file. A
  locked section is one step. What the C library, the file system and the peer-to-peer library answer is the parameter \<open>dl_env\<close>. Calls
  of the application's callbacks are recorded in \<open>calls\<close>; logging is left out.
\<close>

section \<open>State\<close>

definition POOL_SIZE :: nat where
  "POOL_SIZE = 2097152"

record dl_env =
  malloc_ok :: bool
  fopen_ok :: bool
  fwrite_count :: "nat \<Rightarrow> nat \<Rightarrow> nat"
  vconCreate_ok :: bool

text \<open>The callbacks with their arguments, and the request that goes to the camera.\<close>

datatype dl_call =
    OnDownloadList "byte list" int "byte list" int int
  | OnDownloading int int int int
  | VconSend "byte list"

text \<open>The thread holds its local \<open>f\<close>: the bytes of the file, or \<open>None\<close> for the null pointer.\<close>

datatype dl_thread = NoThread | Running "byte list option" | Exited "byte list option"

record download =
  mIsDownloading :: bool
  mDownloadDataPool :: "byte list option"
  mDownloadDataPoolSize :: int
  mDownloadSavePath :: "byte list"
  mDLHandle :: bool
  thread :: dl_thread
  calls :: "dl_call list"

text \<open>The constructor.\<close>

definition ConnectManager_new :: download where
  "ConnectManager_new = \<lparr>mIsDownloading = False, mDownloadDataPool = None, mDownloadDataPoolSize = 0,
     mDownloadSavePath = replicate 128 0, mDLHandle = False, thread = NoThread, calls = []\<rparr>"

text \<open>\<open>ntohl\<close> of a packed field, on a little-endian machine.\<close>

definition ntohl_at :: "byte list \<Rightarrow> nat \<Rightarrow> u32" where
  "ntohl_at m off = dec32 (rev (ld m off 4))"

definition htonl :: "u32 \<Rightarrow> byte list" where
  "htonl w = rev (enc32 w)"

section \<open>The request\<close>

definition CreateDownLoadVcon :: "dl_env \<Rightarrow> download \<Rightarrow> int \<times> download" where
  "CreateDownLoadVcon env d =
     (if mDLHandle d then (0, d) else if vconCreate_ok env then (0, d\<lparr>mDLHandle := True\<rparr>) else (-1, d))"

text \<open>\<open>fp\<close> is the memory from the pointer on, as far as it may be read.\<close>

definition JAConnect_OperateDeviceFile :: "dl_env \<Rightarrow> int \<Rightarrow> int \<Rightarrow> byte list option \<Rightarrow> download \<Rightarrow> (int \<times> download) outcome" where
  "JAConnect_OperateDeviceFile env optype opflag fp d =
     (let (rt, d) = CreateDownLoadVcon env d in
      if rt < 0 then Ret (-1, d)
      else if \<not> malloc_ok env then UB NullDeref
      else bnd (case fp of None \<Rightarrow> Ret (replicate 256 0)
                         | Some m \<Rightarrow> if length m < 256 then UB OobRead else Ret (take 256 m)) (\<lambda>name.
        Ret (0, d\<lparr>calls := calls d @ [VconSend (htonl (word_of_int optype) @ htonl (word_of_int opflag) @ name)]\<rparr>)))"

definition DestroyDownloadVcon :: "download \<Rightarrow> int \<times> download" where
  "DestroyDownloadVcon d = (if \<not> mDLHandle d then (-1, d) else (0, d\<lparr>mDLHandle := False\<rparr>))"

text \<open>The head of the thread: the file is made anew.\<close>

definition doDownloadThread_start :: "dl_env \<Rightarrow> download \<Rightarrow> download outcome" where
  "doDownloadThread_start env d =
     (if 0 \<notin> set (mDownloadSavePath d) then UB OobRead
      else if mDownloadSavePath d ! 0 \<noteq> 0 then
        Ret (d\<lparr>thread := if fopen_ok env then Running (Some []) else Exited None\<rparr>)
      else Ret (d\<lparr>thread := Running None\<rparr>))"

definition OperateDeviceFile ::
  "dl_env \<Rightarrow> bool \<Rightarrow> int \<Rightarrow> int \<Rightarrow> byte list option \<Rightarrow> byte list option \<Rightarrow> int \<Rightarrow> download \<Rightarrow> (int \<times> download) outcome" where
  "OperateDeviceFile env conn opType opFlag fp savePath idx d =
     (if idx > 32 \<or> idx < 0 then Ret (-1, d)
      else if \<not> mIsDownloading d \<and> conn then
        if \<not> malloc_ok env then UB NullDeref
        else
          let d = d\<lparr>mIsDownloading := True, mDownloadDataPool := Some (replicate POOL_SIZE 0)\<rparr> in
          bnd (case savePath of None \<Rightarrow> Ret d
                 | Some s \<Rightarrow> if 128 < length s + 1 then UB HeapOverflow
                     else Ret (d\<lparr>mDownloadSavePath := st (mDownloadSavePath d) 0 (s @ [0])\<rparr>)) (\<lambda>d.
          bnd (doDownloadThread_start env d) (\<lambda>d.
          bnd (JAConnect_OperateDeviceFile env opType opFlag fp d) (\<lambda>(rt, d). Ret (0, d))))
      else Ret (0, d))"

definition GetFileDownloadList :: "dl_env \<Rightarrow> bool \<Rightarrow> download \<Rightarrow> download outcome" where
  "GetFileDownloadList env conn d = bnd (OperateDeviceFile env conn 0 0 None None 0 d) (\<lambda>(rt, d). Ret d)"

definition StopDownloadThread :: "bool \<Rightarrow> download \<Rightarrow> download" where
  "StopDownloadThread value d = d\<lparr>mIsDownloading := value\<rparr>"

section \<open>The network thread\<close>

definition doOnFileDownloadCallback :: "byte list \<Rightarrow> download \<Rightarrow> download outcome" where
  "doOnFileDownloadCallback data d =
     (if mIsDownloading d then
        case mDownloadDataPool d of None \<Rightarrow> UB NullDeref
        | Some pool \<Rightarrow>
            bnd (mcpy pool (mDownloadDataPoolSize d) data 0 (int (length data))) (\<lambda>pool.
            bnd (s32 (mDownloadDataPoolSize d + int (length data))) (\<lambda>size.
              Ret (d\<lparr>mDownloadDataPool := Some pool, mDownloadDataPoolSize := size\<rparr>)))
      else Ret d)"

section \<open>The download thread\<close>

text \<open>A directory: items of 284 bytes behind the 8 bytes of the header.\<close>

definition list_item :: "byte list \<Rightarrow> nat \<Rightarrow> nat \<Rightarrow> dl_call" where
  "list_item pool n i = (let base = 8 + 284 * i in
     OnDownloadList (ld pool (base + 28) 256) (sint (ntohl_at pool (base + 4))) (ld pool (base + 12) 16) (sint (ntohl_at pool base))
       (if i < n - 1 then 0 else 1))"

definition file_list :: "byte list \<Rightarrow> int \<Rightarrow> dl_call list outcome" where
  "file_list pool lDataSize =
     (let n = unat (word_of_int lDataSize :: u32) div 284 in
      if n \<noteq> 0 \<and> length pool < 8 + 284 * n then UB OobRead else Ret (map (list_item pool n) [0..<n]))"

text \<open>A piece of a file. \<open>fwrite\<close> with one item of size 0 answers 0, which the code takes for a failure. \<open>ftell\<close> answers -1 for a place that no \<open>long\<close> can hold. The first
  component of the result is whether \<open>mIsDownloading\<close> is left alone.\<close>

definition file_frame :: "dl_env \<Rightarrow> byte list \<Rightarrow> byte list option \<Rightarrow> (bool \<times> byte list \<times> dl_call list) outcome" where
  "file_frame env pool f =
     (let flag = sint (ntohl_at pool 20); ffFileSize = ntohl_at pool 12; ffEnd = ntohl_at pool 16; len = unat ffFileSize in
      case f of None \<Rightarrow> UB NullDeref
      | Some bs \<Rightarrow>
          if length pool < 24 + len then UB OobRead
          else
            let n = min len (fwrite_count env (length bs) len); bs = bs @ take n (ld pool 24 len);
                cuPos = (if length bs < 2147483648 then int (length bs) else - 1);
                ev = OnDownloading flag (sint ffFileSize) cuPos (sint ffEnd) in
            if len \<noteq> 0 \<and> n = len then
              if ffEnd = 1 then Ret (False, bs, [ev, ev]) else Ret (True, bs, [ev])
            else Ret (False, bs, []))"

text \<open>The test at the end of the loop, and what follows it.\<close>

definition loop_test :: "byte list option \<Rightarrow> download \<Rightarrow> download" where
  "loop_test f d =
     (if mIsDownloading d then d\<lparr>thread := Running f\<rparr> else d\<lparr>thread := Exited f, mDownloadDataPoolSize := 0\<rparr>)"

definition handle_message :: "dl_env \<Rightarrow> byte list \<Rightarrow> byte list option \<Rightarrow> int \<Rightarrow> int \<Rightarrow> (bool \<times> byte list option \<times> dl_call list) outcome" where
  "handle_message env pool f lfileType lDataSize =
     (if lfileType = 0 then bnd (file_list pool lDataSize) (\<lambda>cs. Ret (False, f, cs))
      else if 1 \<le> lfileType \<and> lfileType \<le> 4 then bnd (file_frame env pool f) (\<lambda>(go, bs, cs). Ret (go, Some bs, cs))
      else Ret (True, f, []))"

text \<open>One pass through the body of the loop.\<close>

definition doDownloadThread_round :: "dl_env \<Rightarrow> download \<Rightarrow> download outcome" where
  "doDownloadThread_round env d =
     (case thread d of
        Running f \<Rightarrow>
          if mDownloadDataPoolSize d < 8 then Ret (loop_test f d)
          else (case mDownloadDataPool d of None \<Rightarrow> UB NullDeref
            | Some pool \<Rightarrow>
                let lfileType = sint (ntohl_at pool 0); lDataSize = sint (ntohl_at pool 4) in
                bnd (s32 (8 + lDataSize)) (\<lambda>mixLen.
                if mDownloadDataPoolSize d < mixLen then Ret (loop_test f d)
                else
                  bnd (handle_message env pool f lfileType lDataSize) (\<lambda>(go, f, cs).
                  bnd (s32 (mDownloadDataPoolSize d - mixLen)) (\<lambda>moveSize.
                  bnd (mcpy pool 0 pool mixLen moveSize) (\<lambda>pool.
                    Ret (loop_test f (d\<lparr>mIsDownloading := mIsDownloading d \<and> go, mDownloadDataPool := Some pool,
                      mDownloadDataPoolSize := moveSize, calls := calls d @ cs\<rparr>)))))))
      | _ \<Rightarrow> Ret d)"

section \<open>The end of a transfer\<close>

text \<open>\<open>FinishDeviceFileTransfer\<close> waits for the thread in its middle: what it does before, and what it does once the thread has ended.\<close>

definition FinishDeviceFileTransfer_begin :: "bool \<Rightarrow> int \<Rightarrow> download \<Rightarrow> (int \<times> download) outcome" where
  "FinishDeviceFileTransfer_begin conn idx d =
     (if idx < 0 \<or> idx > 32 then Ret (-1, d)
      else if \<not> conn then UB NullDeref
      else Ret (0, (snd (DestroyDownloadVcon d))\<lparr>mIsDownloading := False\<rparr>))"

definition FinishDeviceFileTransfer_end :: "download \<Rightarrow> download outcome" where
  "FinishDeviceFileTransfer_end d =
     (case thread d of
        Exited f \<Rightarrow> Ret (d\<lparr>thread := NoThread, mDownloadDataPool := None, mDownloadDataPoolSize := 0, mDownloadSavePath := replicate 128 0\<rparr>)
      | _ \<Rightarrow> Blocked)"

section \<open>Interleavings\<close>

datatype dl_act = Recv "byte list" | Round

fun dl_step :: "dl_env \<Rightarrow> dl_act \<Rightarrow> download \<Rightarrow> download outcome" where
  "dl_step env (Recv bs) d = doOnFileDownloadCallback bs d"
| "dl_step env Round d = doDownloadThread_round env d"

fun dl_run :: "dl_env \<Rightarrow> dl_act list \<Rightarrow> download \<Rightarrow> download outcome" where
  "dl_run env [] d = Ret d"
| "dl_run env (a # as) d = bnd (dl_step env a d) (dl_run env as)"

fun received :: "dl_act list \<Rightarrow> byte list" where
  "received [] = []"
| "received (Recv bs # as) = bs @ received as"
| "received (Round # as) = received as"

section \<open>Messages\<close>

text \<open>A piece of a file as the camera sends it.\<close>

record file_msg =
  m_type :: u32
  m_frame :: u32
  m_end :: u32
  m_flag :: u32
  m_payload :: "byte list"

definition enc_msg :: "file_msg \<Rightarrow> byte list" where
  "enc_msg m = (let n = length (m_payload m) in
     htonl (m_type m) @ htonl (word_of_nat (16 + n)) @ htonl (m_frame m) @ htonl (word_of_nat n) @ htonl (m_end m) @ htonl (m_flag m)
     @ m_payload m)"

definition msg_ok :: "file_msg \<Rightarrow> bool" where
  "msg_ok m \<longleftrightarrow> 1 \<le> m_type m \<and> m_type m \<le> 4 \<and> m_payload m \<noteq> []"

fun progress :: "nat \<Rightarrow> file_msg list \<Rightarrow> dl_call list" where
  "progress pos [] = []"
| "progress pos (m # ms) =
     (let p = pos + length (m_payload m);
          ev = OnDownloading (sint (m_flag m)) (int (length (m_payload m))) (int p) (sint (m_end m)) in
      (if m_end m = 1 then [ev, ev] else [ev]) @ progress p ms)"

lemma length_htonl [simp]: "length (htonl w) = 4"
  by (simp add: htonl_def enc32_def)

lemma ntohl_htonl: "take 4 (drop k m) = htonl w \<Longrightarrow> ntohl_at m k = w"
  by (simp add: ntohl_at_def ld_def htonl_def dec32_enc32)

lemma length_enc_msg: "length (enc_msg m) = 24 + length (m_payload m)"
  by (simp add: enc_msg_def Let_def)

text \<open>The fields of a message at the front of the pool.\<close>

lemma message_fields:
  assumes "take (length (enc_msg m)) pool = enc_msg m"
  shows "ntohl_at pool 0 = m_type m" "ntohl_at pool 4 = word_of_nat (16 + length (m_payload m))"
    "ntohl_at pool 12 = word_of_nat (length (m_payload m))" "ntohl_at pool 16 = m_end m" "ntohl_at pool 20 = m_flag m"
    "ld pool 24 (length (m_payload m)) = m_payload m"
proof -
  have pool: "pool = enc_msg m @ drop (length (enc_msg m)) pool" using assms by (metis append_take_drop_id)
  show "ntohl_at pool 0 = m_type m" "ntohl_at pool 4 = word_of_nat (16 + length (m_payload m))"
    "ntohl_at pool 12 = word_of_nat (length (m_payload m))" "ntohl_at pool 16 = m_end m" "ntohl_at pool 20 = m_flag m"
    by (rule ntohl_htonl, subst pool, simp add: enc_msg_def Let_def)+
  show "ld pool 24 (length (m_payload m)) = m_payload m"
    by (subst pool) (simp add: ld_def enc_msg_def Let_def)
qed

section \<open>The invariant of a transfer\<close>

lemma progress_append: "progress p (ms @ ns) = progress p ms @ progress (p + length (concat (map m_payload ms))) ns"
  by (induction ms arbitrary: p) (simp_all add: Let_def add.assoc)

text \<open>The messages \<open>before\<close> are in the file, the \<open>k\<close> bytes in the pool and what is still to \<open>come\<close> are the messages \<open>after\<close>.\<close>

definition at_msg :: "dl_call list \<Rightarrow> file_msg list \<Rightarrow> file_msg list \<Rightarrow> byte list \<Rightarrow> nat \<Rightarrow> download \<Rightarrow> bool" where
  "at_msg c0 before after come k d \<longleftrightarrow> mIsDownloading d \<and> thread d = Running (Some (concat (map m_payload before)))
     \<and> calls d = c0 @ progress 0 before
     \<and> (\<exists>pool. mDownloadDataPool d = Some pool \<and> length pool = POOL_SIZE \<and> mDownloadDataPoolSize d = int k \<and> k \<le> POOL_SIZE
          \<and> take k pool @ come = concat (map enc_msg after))"

definition all_saved :: "dl_call list \<Rightarrow> file_msg list \<Rightarrow> download \<Rightarrow> bool" where
  "all_saved c0 ms d \<longleftrightarrow> \<not> mIsDownloading d \<and> thread d = Exited (Some (concat (map m_payload ms))) \<and> calls d = c0 @ progress 0 ms"

definition fwrite_works :: "dl_env \<Rightarrow> bool" where
  "fwrite_works env \<longleftrightarrow> (\<forall>pos n. n \<le> fwrite_count env pos n)"

fun last_closes :: "file_msg list \<Rightarrow> bool" where
  "last_closes [] = False"
| "last_closes [m] = (m_end m = 1)"
| "last_closes (m # ms) = (m_end m \<noteq> 1 \<and> last_closes ms)"

lemma at_msg_recv:
  assumes "at_msg c0 before after (bs @ come) k d"
  shows "if POOL_SIZE < k + length bs then doOnFileDownloadCallback bs d = UB HeapOverflow
    else \<exists>d'. doOnFileDownloadCallback bs d = Ret d' \<and> at_msg c0 before after come (k + length bs) d'"
proof -
  obtain pool where p: "mDownloadDataPool d = Some pool" "length pool = POOL_SIZE" "mDownloadDataPoolSize d = int k" "k \<le> POOL_SIZE"
      "take k pool @ bs @ come = concat (map enc_msg after)" "mIsDownloading d"
    using assms by (auto simp: at_msg_def)
  show ?thesis
  proof (cases "POOL_SIZE < k + length bs")
    case True
    then have "mcpy pool (int k) bs 0 (int (length bs)) = UB HeapOverflow" using p(2) by (simp add: mcpy_def)
    then show ?thesis using True p(1,3,6) by (simp add: doOnFileDownloadCallback_def)
  next
    case False
    then have m: "mcpy pool (int k) bs 0 (int (length bs)) = Ret (st pool k bs)"
      using mcpy_ok [of k "length bs" pool 0 bs] p(2) by (simp add: ld_def)
    have "take (k + length bs) (st pool k bs) = take k pool @ bs" using p(2,4) by (simp add: st_def)
    moreover have "length (st pool k bs) = POOL_SIZE" using False p(2) by simp
    ultimately have "at_msg c0 before after come (k + length bs) (d\<lparr>mDownloadDataPool := Some (st pool k bs), mDownloadDataPoolSize := int (k + length bs)\<rparr>)"
      using assms p(5) False by (auto simp: at_msg_def)
    moreover have "s32 (int k + int (length bs)) = Ret (int (k + length bs))" using False by (simp add: POOL_SIZE_def)
    ultimately show ?thesis using p(1,3,6) m False by (simp add: doOnFileDownloadCallback_def)
  qed
qed

lemma file_frame_saves:
  assumes "take (length (enc_msg m)) pool = enc_msg m" "length pool = POOL_SIZE" "length (enc_msg m) \<le> POOL_SIZE" "msg_ok m" "fwrite_works env"
    "length bs + length (m_payload m) < 2147483648"
  shows "file_frame env pool (Some bs) =
    Ret (m_end m \<noteq> 1, bs @ m_payload m, progress (length bs) [m])"
proof -
  let ?n = "length (m_payload m)"
  have n: "0 < ?n" "?n < 2147483648" using assms(3,4) by (auto simp: msg_ok_def length_enc_msg POOL_SIZE_def)
  have "min ?n (fwrite_count env (length bs) ?n) = ?n" using assms(5) by (simp add: fwrite_works_def min_def)
  moreover have "24 + ?n \<le> POOL_SIZE" using assms(3) by (simp add: length_enc_msg)
  moreover have "unat (word_of_nat ?n :: u32) = ?n" "sint (word_of_nat ?n :: u32) = int ?n"
    using n by (simp_all add: unat_of_nat32 sint_of_nat32)
  ultimately show ?thesis
    using n assms(2,6) message_fields [OF assms(1)] by (simp add: file_frame_def Let_def)
qed

lemma header_fields:
  assumes "take 8 pool = take 8 (enc_msg m)"
  shows "ntohl_at pool 0 = m_type m" "ntohl_at pool 4 = word_of_nat (16 + length (m_payload m))"
proof -
  have pool: "pool = take 8 (enc_msg m) @ drop 8 pool" using assms by (metis append_take_drop_id)
  show "ntohl_at pool 0 = m_type m" "ntohl_at pool 4 = word_of_nat (16 + length (m_payload m))"
    by (rule ntohl_htonl, subst pool, simp add: enc_msg_def Let_def)+
qed

lemma loop_test_same: "mIsDownloading d \<Longrightarrow> thread d = Running f \<Longrightarrow> loop_test f d = d"
  by (simp add: loop_test_def)

text \<open>Too little for a message: nothing happens.\<close>

lemma round_waits:
  assumes "mDownloadDataPool d = Some pool" "mDownloadDataPoolSize d = int k" "k \<le> length pool" "mIsDownloading d" "thread d = Running f"
    "take k pool @ come = enc_msg m @ rst" "k < length (enc_msg m)" "length (enc_msg m) \<le> POOL_SIZE"
  shows "doDownloadThread_round env d = Ret d"
proof (cases "k < 8")
  case False
  have "take 8 (take k pool @ come) = take 8 (enc_msg m @ rst)" using assms(6) by simp
  then have "take 8 pool = take 8 (enc_msg m)" using False assms(3) by (simp add: length_enc_msg min_def)
  note f = header_fields [OF this]
  have "sint (word_of_nat (16 + length (m_payload m)) :: u32) = 16 + int (length (m_payload m))"
    using assms(8) by (subst sint_of_nat32) (auto simp: length_enc_msg POOL_SIZE_def)
  moreover have "s32 (8 + (16 + int (length (m_payload m)))) = Ret (24 + int (length (m_payload m)))"
    using assms(8) by (simp add: length_enc_msg POOL_SIZE_def)
  ultimately show ?thesis
    using False assms(1,2,4,5,7) f by (simp add: doDownloadThread_round_def loop_test_same length_enc_msg Let_def)
qed (use assms in \<open>simp add: doDownloadThread_round_def loop_test_same\<close>)

text \<open>A whole message: it is saved and taken off the pool.\<close>

lemma round_saves:
  assumes "mDownloadDataPool d = Some pool" "length pool = POOL_SIZE" "mDownloadDataPoolSize d = int k" "k \<le> POOL_SIZE" "mIsDownloading d"
    "thread d = Running (Some bs)" "take (length (enc_msg m)) pool = enc_msg m" "length (enc_msg m) \<le> k" "msg_ok m" "fwrite_works env"
    "length bs + length (m_payload m) < 2147483648"
  shows "doDownloadThread_round env d = Ret (loop_test (Some (bs @ m_payload m)) (d\<lparr>mIsDownloading := m_end m \<noteq> 1,
    mDownloadDataPool := Some (st pool 0 (ld pool (length (enc_msg m)) (k - length (enc_msg m)))),
    mDownloadDataPoolSize := int (k - length (enc_msg m)), calls := calls d @ progress (length bs) [m]\<rparr>))"
proof -
  let ?L = "length (enc_msg m)" and ?n = "length (m_payload m)"
  have L: "?L \<le> POOL_SIZE" using assms(4,8) by simp
  note f = message_fields [OF assms(7)]
  have size: "sint (word_of_nat (16 + ?n) :: u32) = 16 + int ?n"
    using L by (subst sint_of_nat32) (auto simp: length_enc_msg POOL_SIZE_def)
  have mix: "s32 (8 + (16 + int ?n)) = Ret (int ?L)" using L by (simp add: length_enc_msg POOL_SIZE_def)
  have move: "s32 (int k - int ?L) = Ret (int (k - ?L))" using assms(4,8) by (simp add: POOL_SIZE_def of_nat_diff)
  define ty where "ty = unat (m_type m)"
  have "sint (m_type m) = int ty"
    using sint_of_nat32 [of ty] assms(9) by (simp add: msg_ok_def word_le_nat_alt ty_def)
  moreover have "1 \<le> ty" "ty \<le> 4"
    using assms(9) by (simp_all add: msg_ok_def word_le_nat_alt ty_def)
  ultimately have type: "1 \<le> sint (m_type m)" "sint (m_type m) \<le> 4" by simp_all
  have cpy: "mcpy pool 0 pool (int ?L) (int (k - ?L)) = Ret (st pool 0 (ld pool ?L (k - ?L)))"
    using mcpy_ok [of 0 "k - ?L" pool ?L pool] assms(2,4,8) by simp
  have "handle_message env pool (Some bs) (sint (m_type m)) (16 + int ?n) = Ret (m_end m \<noteq> 1, Some (bs @ m_payload m), progress (length bs) [m])"
    using type file_frame_saves [OF assms(7,2) L assms(9,10,11)] by (simp add: handle_message_def del: progress.simps)
  moreover have "\<not> int k < 8" "\<not> int k < int ?L" using assms(8) by (simp_all add: length_enc_msg)
  ultimately show ?thesis
    unfolding doDownloadThread_round_def
    using assms(1,3,5,6) f size mix move cpy by (simp add: Let_def del: progress.simps)
qed

lemma at_msg_round:
  assumes at: "at_msg c0 before (m # after) come k d" and ok: "msg_ok m" "fwrite_works env" "last_closes (m # after)"
    and L: "length (enc_msg m) \<le> POOL_SIZE" and small: "length (concat (map m_payload (before @ [m]))) < 2147483648"
  shows "if length (enc_msg m) \<le> k
    then \<exists>d'. doDownloadThread_round env d = Ret d' \<and>
      (if after = [] then all_saved c0 (before @ [m]) d' \<and> come = [] \<and> k = length (enc_msg m) else at_msg c0 (before @ [m]) after come (k - length (enc_msg m)) d')
    else doDownloadThread_round env d = Ret d"
proof -
  obtain pool where p: "mDownloadDataPool d = Some pool" "length pool = POOL_SIZE" "mDownloadDataPoolSize d = int k" "k \<le> POOL_SIZE"
      "mIsDownloading d" "thread d = Running (Some (concat (map m_payload before)))"
      "take k pool @ come = enc_msg m @ concat (map enc_msg after)" "calls d = c0 @ progress 0 before"
    using at by (auto simp: at_msg_def)
  let ?L = "length (enc_msg m)"
  show ?thesis
  proof (cases "?L \<le> k")
    case False
    then show ?thesis using round_waits [OF p(1,3) _ p(5,6,7) _ L] p(2,4) by simp
  next
    case True
    let ?pool = "st pool 0 (ld pool ?L (k - ?L))"
    have front: "take ?L pool = enc_msg m" using arg_cong [OF p(7), of "take ?L"] True p(2,4) by (simp add: min_def)
    have rear: "drop ?L (take k pool) @ come = concat (map enc_msg after)"
      using arg_cong [OF p(7), of "drop ?L"] True p(2,4) by simp
    have "take (k - ?L) ?pool = drop ?L (take k pool)" using True p(2,4) by (simp add: st_def ld_def drop_take)
    moreover have "length ?pool = POOL_SIZE" using True p(2,4) by (subst length_st) auto
    moreover have "after = [] \<Longrightarrow> k = ?L" using rear True p(2,4) by auto
    ultimately show ?thesis
      using round_saves [OF p(1,2,3,4,5,6) front True ok(1,2)] True p(4,8) rear ok(3) small
      by (cases after) (auto simp: loop_test_def at_msg_def all_saved_def progress_append simp del: progress.simps)
  qed
qed

section \<open>Whole transfers\<close>

text \<open>The messages of a file: each has a payload and fits the pool, the last one and no other is marked as the end, and a \<open>long\<close> can hold the size of the file.\<close>

definition good_msgs :: "file_msg list \<Rightarrow> bool" where
  "good_msgs ms \<longleftrightarrow> (\<forall>m\<in>set ms. msg_ok m \<and> length (enc_msg m) \<le> POOL_SIZE) \<and> last_closes ms \<and> length (concat (map m_payload ms)) < 2147483648"

text \<open>
  How full the pool gets: it holds \<open>k\<close> bytes, \<open>ms\<close> are the messages that were not taken off it. A round takes the first message off when all of it is there.
\<close>

fun overruns :: "file_msg list \<Rightarrow> nat \<Rightarrow> dl_act list \<Rightarrow> bool" where
  "overruns ms k [] \<longleftrightarrow> False"
| "overruns ms k (Recv bs # as) \<longleftrightarrow> POOL_SIZE < k + length bs \<or> overruns ms (k + length bs) as"
| "overruns [] k (Round # as) \<longleftrightarrow> overruns [] k as"
| "overruns (m # ms) k (Round # as) \<longleftrightarrow> (if length (enc_msg m) \<le> k then overruns ms (k - length (enc_msg m)) as else overruns (m # ms) k as)"

text \<open>A transfer with the messages \<open>after\<close> left, \<open>k\<close> bytes in the pool and the bytes \<open>come\<close> still to arrive, or one that is over.\<close>

definition transferring :: "dl_call list \<Rightarrow> file_msg list \<Rightarrow> file_msg list \<Rightarrow> nat \<Rightarrow> byte list \<Rightarrow> download \<Rightarrow> bool" where
  "transferring c0 ms after k come d \<longleftrightarrow> (if after = [] then all_saved c0 ms d \<and> come = [] \<and> k = 0 else \<exists>before. ms = before @ after \<and> at_msg c0 before after come k d)"

lemma last_closes_append: "last_closes (xs @ ys) \<Longrightarrow> ys \<noteq> [] \<Longrightarrow> last_closes ys"
  by (induction xs rule: last_closes.induct) (auto simp: neq_Nil_conv)

lemma transferring_recv:
  assumes "transferring c0 ms after k (bs @ come) d"
  shows "if POOL_SIZE < k + length bs then dl_step env (Recv bs) d = UB HeapOverflow
    else \<exists>d'. dl_step env (Recv bs) d = Ret d' \<and> transferring c0 ms after (k + length bs) come d'"
proof (cases "after = []")
  case True
  then show ?thesis using assms by (auto simp: transferring_def all_saved_def doOnFileDownloadCallback_def)
next
  case False
  then obtain before where a: "ms = before @ after" "at_msg c0 before after (bs @ come) k d" using assms by (auto simp: transferring_def)
  from at_msg_recv [OF a(2)] show ?thesis using False a(1) by (auto simp: transferring_def)
qed

lemma transferring_round:
  assumes "transferring c0 ms (m # after) k come d" "good_msgs ms" "fwrite_works env"
  shows "\<exists>d'. dl_step env Round d = Ret d' \<and>
    (if length (enc_msg m) \<le> k then transferring c0 ms after (k - length (enc_msg m)) come d' else transferring c0 ms (m # after) k come d')"
proof -
  obtain before where a: "ms = before @ m # after" "at_msg c0 before (m # after) come k d" using assms(1) by (auto simp: transferring_def)
  have g: "msg_ok m" "last_closes (m # after)" "length (enc_msg m) \<le> POOL_SIZE" "length (concat (map m_payload (before @ [m]))) < 2147483648"
    using assms(2) a(1) last_closes_append [of before "m # after"] by (auto simp: good_msgs_def)
  from at_msg_round [OF a(2) g(1) assms(3) g(2-4)] show ?thesis
    using a by (auto simp: transferring_def split: if_splits intro: exI [of _ "before @ [m]"])
qed

lemma transferring_run:
  "transferring c0 ms after k (received as @ come) d \<Longrightarrow> good_msgs ms \<Longrightarrow> fwrite_works env \<Longrightarrow>
   if overruns after k as then dl_run env as d = UB HeapOverflow
   else \<exists>d' after' k'. dl_run env as d = Ret d' \<and> transferring c0 ms after' k' come d' \<and> length after' \<le> length after"
proof (induction after k as arbitrary: d rule: overruns.induct)
  case (2 after k bs as)
  then show ?case using transferring_recv [of c0 ms after k bs "received as @ come" d env] by (auto split: if_splits)
next
  case (3 k as)
  then have "dl_step env Round d = Ret d" by (auto simp: transferring_def all_saved_def doDownloadThread_round_def)
  then show ?case using "3.IH" [of d] "3.prems" by (auto split: if_splits)
next
  case (4 m after k as)
  obtain d' where d': "dl_step env Round d = Ret d'"
    "if length (enc_msg m) \<le> k then transferring c0 ms after (k - length (enc_msg m)) (received as @ come) d' else transferring c0 ms (m # after) k (received as @ come) d'"
    using transferring_round [of c0 ms m after k "received as @ come" d env] "4.prems" by auto
  show ?case
  proof (cases "length (enc_msg m) \<le> k")
    case True
    then show ?thesis using d' "4.IH"(1) [OF True, of d'] "4.prems" by (auto split: if_splits intro: le_SucI)
  next
    case False
    then show ?thesis using d' "4.IH"(2) [OF False, of d'] "4.prems" by (auto split: if_splits)
  qed
qed auto

lemma transferring_rounds:
  "transferring c0 ms after k [] d \<Longrightarrow> length after \<le> n \<Longrightarrow> good_msgs ms \<Longrightarrow> fwrite_works env \<Longrightarrow>
   \<exists>d'. dl_run env (replicate n Round) d = Ret d' \<and> all_saved c0 ms d'"
proof (induction n arbitrary: after k d)
  case (Suc n)
  show ?case
  proof (cases after)
    case Nil
    then have "dl_step env Round d = Ret d" using Suc.prems(1) by (auto simp: transferring_def all_saved_def doDownloadThread_round_def)
    then show ?thesis using Suc.IH [of "[]" k d] Suc.prems Nil by simp
  next
    case (Cons m rest)
    then obtain pool where "take k pool = enc_msg m @ concat (map enc_msg rest)" using Suc.prems(1) by (auto simp: transferring_def at_msg_def)
    then have "length (enc_msg m @ concat (map enc_msg rest)) \<le> k" by (metis length_take min.cobounded2)
    then have "length (enc_msg m) \<le> k" by simp
    then obtain d' where "dl_step env Round d = Ret d'" "transferring c0 ms rest (k - length (enc_msg m)) [] d'"
      using transferring_round [OF Suc.prems(1) [unfolded Cons] Suc.prems(3,4)] by auto
    then show ?thesis using Suc.IH [of rest _ d'] Suc.prems Cons by simp
  qed
qed (auto simp: transferring_def)

lemma dl_run_append: "dl_run env (as @ bs) d = bnd (dl_run env as d) (dl_run env bs)"
proof (induction as arbitrary: d)
  case (Cons a as)
  then show ?case by (cases "dl_step env a d") auto
qed simp

lemma dl_run_delivers:
  assumes "good_msgs ms" "fwrite_works env" "received as = concat (map enc_msg ms)" "at_msg c0 [] ms (received as) 0 d" "\<not> overruns ms 0 as"
  shows "\<exists>d'. dl_run env (as @ replicate (length ms) Round) d = Ret d' \<and> all_saved c0 ms d'"
proof -
  have "ms \<noteq> []" using assms(1) by (auto simp: good_msgs_def)
  then have "transferring c0 ms ms 0 (received as @ []) d" using assms(4) by (simp add: transferring_def)
  from transferring_run [OF this assms(1,2)] obtain d' after k where
    "dl_run env as d = Ret d'" "transferring c0 ms after k [] d'" "length after \<le> length ms"
    using assms(5) by auto
  then show ?thesis using transferring_rounds [of c0 ms after k d' "length ms" env] assms(1,2) by (simp add: dl_run_append)
qed

section \<open>Properties\<close>

lemma OperateDeviceFile_starts:
  assumes "malloc_ok env" "fopen_ok env" "vconCreate_ok env" "0 \<le> idx" "idx \<le> 32" "path \<noteq> []" "hd path \<noteq> 0" "length path < 128" "256 \<le> length fp"
  shows "\<exists>d. OperateDeviceFile env True opType opFlag (Some fp) (Some path) idx ConnectManager_new = Ret (0, d)
    \<and> (\<forall>ms. at_msg (calls d) [] ms (concat (map enc_msg ms)) 0 d) \<and> mDownloadSavePath d = path @ replicate (128 - length path) 0"
proof -
  have "st (replicate 128 0) 0 (path @ [0 :: byte]) = path @ replicate (128 - length path) 0"
    using assms(8) by (simp add: st_def Suc_diff_Suc flip: replicate_Suc)
  moreover have "path ! 0 \<noteq> 0" "0 \<in> set (replicate (128 - length path) (0 :: byte))" using assms(6,7,8) by (simp_all add: hd_conv_nth)
  ultimately show ?thesis
    using assms by (simp add: OperateDeviceFile_def ConnectManager_new_def doDownloadThread_start_def JAConnect_OperateDeviceFile_def
        CreateDownLoadVcon_def at_msg_def nth_append Let_def)
qed

text \<open>
  C4: a file arrives as it was sent. After \<open>OperateDeviceFile\<close>, whatever the network cuts the messages into and however its deliveries interleave with
  the rounds of the download thread, as long as no delivery finds too little room in the pool nothing undefined happens, and once everything has arrived and the thread had one more round per
  message the file holds the payloads in order, the thread has closed it and ended, and the application was told the progress of every piece. The file may be larger than the pool; its messages have payloads
  and only the last one is marked as the end.
\<close>

theorem download_delivers:
  assumes "malloc_ok env" "fopen_ok env" "vconCreate_ok env" "fwrite_works env" "0 \<le> idx" "idx \<le> 32"
    "path \<noteq> []" "hd path \<noteq> 0" "length path < 128" "256 \<le> length fp" "good_msgs ms" "received as = concat (map enc_msg ms)" "\<not> overruns ms 0 as"
  shows "\<exists>d d'. OperateDeviceFile env True opType opFlag (Some fp) (Some path) idx ConnectManager_new = Ret (0, d)
    \<and> dl_run env (as @ replicate (length ms) Round) d = Ret d'
    \<and> thread d' = Exited (Some (concat (map m_payload ms))) \<and> \<not> mIsDownloading d' \<and> calls d' = calls d @ progress 0 ms"
proof -
  obtain d where d: "OperateDeviceFile env True opType opFlag (Some fp) (Some path) idx ConnectManager_new = Ret (0, d)"
      "at_msg (calls d) [] ms (concat (map enc_msg ms)) 0 d"
    using OperateDeviceFile_starts [OF assms(1-3,5-10)] by blast
  with dl_run_delivers [OF assms(11,4,12) _ assms(13), of "calls d" d] show ?thesis
    by (auto simp: all_saved_def assms(12))
qed

definition demo_env :: dl_env where
  "demo_env = \<lparr>malloc_ok = True, fopen_ok = True, fwrite_count = (\<lambda>pos n. n), vconCreate_ok = True\<rparr>"

definition demo_msgs :: "file_msg list" where
  "demo_msgs = [\<lparr>m_type = 1, m_frame = 0, m_end = 0, m_flag = 7, m_payload = [1, 2, 3]\<rparr>, \<lparr>m_type = 1, m_frame = 0, m_end = 1, m_flag = 7, m_payload = [4]\<rparr>]"

theorem download_delivers_witness:
  "\<exists>d d'. OperateDeviceFile demo_env True 4 7 (Some (replicate 256 0)) (Some [47, 97]) 3 ConnectManager_new = Ret (0, d)
    \<and> dl_run demo_env ([Recv (take 30 (concat (map enc_msg demo_msgs))), Round, Recv (drop 30 (concat (map enc_msg demo_msgs)))]
        @ replicate (length demo_msgs) Round) d = Ret d'
    \<and> thread d' = Exited (Some (concat (map m_payload demo_msgs))) \<and> \<not> mIsDownloading d' \<and> calls d' = calls d @ progress 0 demo_msgs"
  by (rule download_delivers)
    (simp_all add: demo_env_def fwrite_works_def good_msgs_def demo_msgs_def msg_ok_def length_enc_msg POOL_SIZE_def)




lemma stuck_round:
  assumes "thread d = Running f" "mIsDownloading d" "mDownloadDataPool d = Some pool" "length pool = POOL_SIZE"
    "mDownloadDataPoolSize d = int k" "8 \<le> k" "k \<le> POOL_SIZE" "take 8 pool = htonl ty @ htonl (- 8)" "sint ty < 0 \<or> 4 < sint ty"
  shows "doDownloadThread_round env d = Ret d"
proof -
  have pool: "pool = (htonl ty @ htonl (- 8)) @ drop 8 pool" using assms(8) by (metis append_take_drop_id)
  have f: "ntohl_at pool 0 = ty" "ntohl_at pool 4 = - 8"
    by (rule ntohl_htonl, subst pool, simp)+
  have "mcpy pool 0 pool 0 (int k) = Ret pool"
    using mcpy_ok [of 0 k pool 0 pool] assms(4,7) by (simp add: st_def ld_def)
  moreover have "s32 (int k) = Ret (int k)" using assms(7) by (simp add: POOL_SIZE_def)
  moreover have "handle_message env pool f (sint ty) (- 8) = Ret (True, f, [])" using assms(9) by (auto simp: handle_message_def)
  ultimately show ?thesis
    using assms f by (simp add: doDownloadThread_round_def Let_def loop_test_def)
qed

text \<open>
  C23: a length field of -8 stops the download for ever. The message then counts as empty, nothing is taken off the pool, and for
  a file type that the thread does not know it finds the same message again in every round, whatever arrives meanwhile.
\<close>

theorem download_stuck:
  assumes "thread d = Running f" "mIsDownloading d" "mDownloadDataPool d = Some pool" "length pool = POOL_SIZE"
    "mDownloadDataPoolSize d = int k" "8 \<le> k" "k + length (received as) \<le> POOL_SIZE"
    "take 8 pool = htonl ty @ htonl (- 8)" "sint ty < 0 \<or> 4 < sint ty"
  shows "\<exists>d'. dl_run env as d = Ret d' \<and> thread d' = Running f \<and> calls d' = calls d"
  using assms
proof (induction as arbitrary: d pool k)
  case (Cons a as)
  show ?case
  proof (cases a)
    case (Recv bs)
    let ?d = "d\<lparr>mDownloadDataPool := Some (st pool k bs), mDownloadDataPoolSize := int (k + length bs)\<rparr>"
    have "mcpy pool (int k) bs 0 (int (length bs)) = Ret (st pool k bs)"
      using mcpy_ok [of k "length bs" pool 0 bs] Cons.prems(4,7) Recv by (simp add: ld_def)
    then have "dl_step env a d = Ret ?d"
      using Cons.prems(2,3,5,7) Recv by (simp add: doOnFileDownloadCallback_def POOL_SIZE_def)
    moreover have "take 8 (st pool k bs) = take 8 pool" "length (st pool k bs) = POOL_SIZE"
      using Cons.prems(4,6,7) Recv by (auto simp: st_def min_def)
    ultimately show ?thesis using Cons.IH [of ?d "st pool k bs" "k + length bs"] Cons.prems Recv by simp
  next
    case Round
    then show ?thesis
      using stuck_round [OF Cons.prems(1-6) _ Cons.prems(8,9), of env] Cons.IH [OF Cons.prems(1-6) _ Cons.prems(8,9)] Cons.prems(7) by simp
  qed
qed simp

definition stuck_demo :: download where
  "stuck_demo = ConnectManager_new\<lparr>mIsDownloading := True, thread := Running None, mDownloadDataPoolSize := 8,
     mDownloadDataPool := Some (htonl 9 @ htonl (- 8) @ replicate (POOL_SIZE - 8) 0)\<rparr>"

theorem download_stuck_witness:
  "\<exists>d'. dl_run demo_env [Round, Recv [1, 2, 3], Round] stuck_demo = Ret d' \<and> thread d' = Running None \<and> calls d' = calls stuck_demo"
  by (rule download_stuck [of stuck_demo None "htonl 9 @ htonl (- 8) @ replicate (POOL_SIZE - 8) 0" 8 _ 9])
    (simp_all add: stuck_demo_def POOL_SIZE_def)

end
