(* ===== verification/RangeMap.thy ===== *)
theory RangeMap
  imports Prelude
begin

text \<open>
  \<^verbatim>\<open>breakpad/processor/range_map-inl.h\<close>: a map from disjoint ranges of addresses to entries, as the processor keeps it for modules, functions and lines.
  A \<open>std::map\<close> from the high address of a range to its low address and entry is a list in ascending order of the keys; an iterator is a position in it.
  Addresses are 64 bits wide, as in all instances. Log messages are not modelled.
\<close>

section \<open>Sorted maps\<close>

definition lower_bound :: "('k::linorder \<times> 'v) list \<Rightarrow> 'k \<Rightarrow> nat" where
  "lower_bound m k = length (takeWhile (\<lambda>p. fst p < k) m)"

definition upper_bound :: "('k::linorder \<times> 'v) list \<Rightarrow> 'k \<Rightarrow> nat" where
  "upper_bound m k = length (takeWhile (\<lambda>p. fst p \<le> k) m)"

text \<open>\<open>insert\<close> does not replace the value of a key that is there.\<close>

definition map_insert :: "'k::linorder \<Rightarrow> 'v \<Rightarrow> ('k \<times> 'v) list \<Rightarrow> ('k \<times> 'v) list" where
  "map_insert k v m = (let i = lower_bound m k in if i < length m \<and> fst (m ! i) = k then m else take i m @ (k, v) # drop i m)"

definition map_erase :: "nat \<Rightarrow> 'a list \<Rightarrow> 'a list" where
  "map_erase i m = take i m @ drop (Suc i) m"

section \<open>Ranges\<close>

record 'e range =
  r_base :: u64
  r_delta :: u64
  r_entry :: 'e

record 'e range_map =
  enable_shrink_down :: bool
  rmap :: "(u64 \<times> 'e range) list"

definition RangeMap_new :: "'e range_map" where
  "RangeMap_new = \<lparr>enable_shrink_down = False, rmap = []\<rparr>"

definition SetEnableShrinkDown :: "bool \<Rightarrow> 'e range_map \<Rightarrow> 'e range_map" where
  "SetEnableShrinkDown b rm = rm\<lparr>enable_shrink_down := b\<rparr>"

text \<open>Entry, base, delta and size of a range.\<close>

definition range_values :: "u64 \<times> 'e range \<Rightarrow> 'e \<times> u64 \<times> u64 \<times> u64" where
  "range_values p = (r_entry (snd p), r_base (snd p), r_delta (snd p), fst p - r_base (snd p) + 1)"

definition RetrieveRange :: "u64 \<Rightarrow> 'e range_map \<Rightarrow> ('e \<times> u64 \<times> u64 \<times> u64) option" where
  "RetrieveRange address rm =
     (let i = lower_bound (rmap rm) address in
      if i = length (rmap rm) then None
      else if address < r_base (snd (rmap rm ! i)) then None
      else Some (range_values (rmap rm ! i)))"

definition RetrieveNearestRange :: "u64 \<Rightarrow> 'e range_map \<Rightarrow> ('e \<times> u64 \<times> u64 \<times> u64) option" where
  "RetrieveNearestRange address rm =
     (case RetrieveRange address rm of
        Some r \<Rightarrow> Some r
      | None \<Rightarrow>
          let i = upper_bound (rmap rm) address in
          if i = 0 then None else Some (range_values (rmap rm ! (i - 1))))"

text \<open>A negative index is not caught: the loop does not run and the first range is looked at, whether there is one or not.\<close>

definition RetrieveRangeAtIndex :: "int \<Rightarrow> 'e range_map \<Rightarrow> ('e \<times> u64 \<times> u64 \<times> u64) option outcome" where
  "RetrieveRangeAtIndex index rm =
     (if int (length (rmap rm)) \<le> index then Ret None
      else if nat index < length (rmap rm) then Ret (Some (range_values (rmap rm ! nat index)))
      else UB OobRead)"

definition GetCount :: "'e range_map \<Rightarrow> nat" where
  "GetCount rm = length (rmap rm)"

definition RangeMap_Clear :: "'e range_map \<Rightarrow> 'e range_map" where
  "RangeMap_Clear rm = rm\<lparr>rmap := []\<rparr>"

text \<open>
  The calls of itself are those of the source. \<open>dflt\<close> is the entry that the variable for the other range has before it is looked up.
\<close>

partial_function (option) StoreRangeInternal ::
  "'e \<Rightarrow> u64 \<Rightarrow> u64 \<Rightarrow> u64 \<Rightarrow> 'e \<Rightarrow> 'e range_map \<Rightarrow> (bool \<times> 'e range_map) option" where
  "StoreRangeInternal dflt base delta sz entry rm =
     (let high = base + (sz - 1) in
      if sz = 0 \<or> high < base then Some (False, rm)
      else
        let i = lower_bound (rmap rm) base; j = lower_bound (rmap rm) high in
        if i \<noteq> j then
          if enable_shrink_down rm then
            let d = fst (rmap rm ! i) - base + 1 in StoreRangeInternal dflt (base + d) (delta + d) (sz - d) entry rm
          else Some (False, rm)
        else if j \<noteq> length (rmap rm) \<and> r_base (snd (rmap rm ! j)) \<le> high then
          if enable_shrink_down rm \<and> high < fst (rmap rm ! j) then
            let other_high = fst (rmap rm ! j); d = high - r_base (snd (rmap rm ! j)) + 1;
                (e, b, dl) = (case RetrieveRange other_high rm of Some (e, b, dl, _) \<Rightarrow> (e, b, dl) | None \<Rightarrow> (dflt, 0, 0)) in
            StoreRangeInternal dflt base delta sz entry
              (rm\<lparr>rmap := map_insert other_high \<lparr>r_base = b + d, r_delta = dl + d, r_entry = e\<rparr> (map_erase j (rmap rm))\<rparr>)
          else Some (False, rm)
        else Some (True, rm\<lparr>rmap := map_insert high \<lparr>r_base = base, r_delta = delta, r_entry = entry\<rparr> (rmap rm)\<rparr>))"

definition StoreRange :: "'e \<Rightarrow> u64 \<Rightarrow> u64 \<Rightarrow> 'e \<Rightarrow> 'e range_map \<Rightarrow> (bool \<times> 'e range_map) option" where
  "StoreRange dflt base sz entry rm = StoreRangeInternal dflt base 0 sz entry rm"

section \<open>Address maps\<close>

text \<open>\<^verbatim>\<open>breakpad/processor/address_map-inl.h\<close>: entries at single addresses; an address belongs to the entry at or below it.\<close>

definition AddressMap_Store :: "u64 \<Rightarrow> 'e \<Rightarrow> (u64 \<times> 'e) list \<Rightarrow> bool \<times> (u64 \<times> 'e) list" where
  "AddressMap_Store address entry m = (if map_of m address \<noteq> None then (False, m) else (True, map_insert address entry m))"

definition AddressMap_Retrieve :: "u64 \<Rightarrow> (u64 \<times> 'e) list \<Rightarrow> (u64 \<times> 'e) option" where
  "AddressMap_Retrieve address m = (let i = upper_bound m address in if i = 0 then None else Some (m ! (i - 1)))"

definition AddressMap_Clear :: "(u64 \<times> 'e) list \<Rightarrow> (u64 \<times> 'e) list" where
  "AddressMap_Clear m = []"

section \<open>Well-formed maps\<close>

text \<open>Ranges do not overlap and come in the order of their addresses.\<close>

definition wf_ranges :: "(u64 \<times> 'e range) list \<Rightarrow> bool" where
  "wf_ranges m \<longleftrightarrow> sorted_wrt (\<lambda>p q. fst p < r_base (snd q)) m \<and> (\<forall>p\<in>set m. r_base (snd p) \<le> fst p)"

definition covers :: "u64 \<times> 'e range \<Rightarrow> u64 \<Rightarrow> bool" where
  "covers p a \<longleftrightarrow> r_base (snd p) \<le> a \<and> a \<le> fst p"

lemma wf_append:
  "wf_ranges (xs @ ys) \<longleftrightarrow> wf_ranges xs \<and> wf_ranges ys \<and> (\<forall>p\<in>set xs. \<forall>q\<in>set ys. fst p < r_base (snd q))"
  by (auto simp: wf_ranges_def sorted_wrt_append)

lemma wf_Cons: "wf_ranges (p # ys) \<longleftrightarrow> r_base (snd p) \<le> fst p \<and> wf_ranges ys \<and> (\<forall>q\<in>set ys. fst p < r_base (snd q))"
  by (auto simp: wf_ranges_def)

lemma wf_Nil: "wf_ranges []"
  by (simp add: wf_ranges_def)

lemma wf_keys: "wf_ranges m \<Longrightarrow> sorted_wrt (<) (map fst m)"
  by (induction m) (auto simp: wf_Cons wf_ranges_def sorted_wrt_map dest: order_less_le_trans)

lemma wf_disjoint: "wf_ranges m \<Longrightarrow> p \<in> set m \<Longrightarrow> q \<in> set m \<Longrightarrow> covers p a \<Longrightarrow> covers q a \<Longrightarrow> p = q"
proof (induction m)
  case (Cons x m)
  have "\<not> covers q a" if "covers x a" "q \<in> set m" for q
    using Cons.prems(1) that by (auto simp: wf_Cons covers_def not_le dest: order_le_less_trans)
  then show ?case using Cons by (metis set_ConsD wf_Cons)
qed simp

lemma highest_below_unique:
  assumes "wf_ranges m" "p \<in> set m" "r_base (snd p) \<le> a" "\<forall>q\<in>set m. r_base (snd q) \<le> a \<longrightarrow> r_base (snd q) \<le> r_base (snd p)"
  shows "(\<exists>p\<in>set m. v = range_values p \<and> r_base (snd p) \<le> a \<and> (\<forall>q\<in>set m. r_base (snd q) \<le> a \<longrightarrow> r_base (snd q) \<le> r_base (snd p))) \<longleftrightarrow> v = range_values p"
proof -
  have "q = p" if "q \<in> set m" "r_base (snd q) = r_base (snd p)" for q
  proof -
    have "covers q (r_base (snd p))" "covers p (r_base (snd p))" using assms(1,2) that by (auto simp: covers_def wf_ranges_def)
    then show ?thesis using wf_disjoint [OF assms(1) that(1) assms(2)] by blast
  qed
  then show ?thesis using assms(2-4) by (metis order_antisym)
qed

text \<open>Where a key splits the list.\<close>

lemma lower_bound_split:
  assumes "\<forall>p\<in>set lo. fst p < k" "hi = [] \<or> k \<le> fst (hd hi)"
  shows "lower_bound (lo @ hi) k = length lo"
proof -
  have "takeWhile (\<lambda>p. fst p < k) (lo @ hi) = lo @ takeWhile (\<lambda>p. fst p < k) hi" using assms(1) by (intro takeWhile_append2) simp
  then have "lower_bound (lo @ hi) k = length lo + length (takeWhile (\<lambda>p. fst p < k) hi)" by (simp only: lower_bound_def length_append)
  then show ?thesis using assms(2) by (cases hi) auto
qed

lemma upper_bound_split:
  assumes "\<forall>p\<in>set lo. fst p \<le> k" "hi = [] \<or> k < fst (hd hi)"
  shows "upper_bound (lo @ hi) k = length lo"
proof -
  have "takeWhile (\<lambda>p. fst p \<le> k) (lo @ hi) = lo @ takeWhile (\<lambda>p. fst p \<le> k) hi" using assms(1) by (intro takeWhile_append2) simp
  then have "upper_bound (lo @ hi) k = length lo + length (takeWhile (\<lambda>p. fst p \<le> k) hi)" by (simp only: upper_bound_def length_append)
  then show ?thesis using assms(2) by (cases hi) auto
qed

lemma split_at:
  fixes m :: "('k::linorder \<times> 'v) list"
  assumes "sorted_wrt (<) (map fst m)"
  obtains lo hi where "m = lo @ hi" "\<forall>p\<in>set lo. fst p < k" "\<forall>p\<in>set hi. k \<le> fst p"
proof -
  define lo hi where "lo = takeWhile (\<lambda>p. fst p < k) m" and "hi = dropWhile (\<lambda>p. fst p < k) m"
  have m: "m = lo @ hi" by (simp add: lo_def hi_def)
  have lo: "\<forall>p\<in>set lo. fst p < k" unfolding lo_def by (auto dest: set_takeWhileD)
  have "k \<le> fst p" if "p \<in> set hi" for p
  proof (cases hi)
    case (Cons x xs)
    have x: "k \<le> fst x" using hd_dropWhile [of "\<lambda>p. fst p < k" m, folded hi_def] Cons by (simp add: not_less)
    have "sorted_wrt (<) (map fst hi)" using assms m by (simp add: sorted_wrt_append)
    with x Cons that show ?thesis by fastforce
  qed (use that in simp)
  then show thesis using that m lo by blast
qed

lemma map_insert_split:
  assumes "\<forall>p\<in>set lo. fst p < k" "hi = [] \<or> k < fst (hd hi)"
  shows "map_insert k v (lo @ hi) = lo @ (k, v) # hi"
proof -
  have "lower_bound (lo @ hi) k = length lo" using assms by (intro lower_bound_split) auto
  then show ?thesis using assms by (cases hi) (auto simp: map_insert_def Let_def)
qed

section \<open>Looking up\<close>

lemma RetrieveRange_iff:
  assumes "wf_ranges (rmap rm)"
  shows "RetrieveRange a rm = Some v \<longleftrightarrow> (\<exists>p\<in>set (rmap rm). covers p a \<and> v = range_values p)"
proof -
  obtain lo hi where m: "rmap rm = lo @ hi" "\<forall>p\<in>set lo. fst p < a" "\<forall>p\<in>set hi. a \<le> fst p" by (rule split_at [OF wf_keys [OF assms]])
  have i: "lower_bound (rmap rm) a = length lo" unfolding m(1) using m(2,3) by (intro lower_bound_split) (cases hi; simp)+
  have lo: "\<not> covers p a" if "p \<in> set lo" for p using m(2) that by (auto simp: covers_def)
  show ?thesis
  proof (cases hi)
    case Nil
    then show ?thesis using m(1) i lo by (auto simp: RetrieveRange_def)
  next
    case (Cons q hs)
    have hs: "\<not> covers p a" if "p \<in> set hs" for p
    proof -
      have "fst q < r_base (snd p)" using assms m(1) Cons that by (simp add: wf_append wf_Cons)
      moreover have "a \<le> fst q" using m(3) Cons by simp
      ultimately show ?thesis by (auto simp: covers_def)
    qed
    have "a \<le> fst q" using m(3) Cons by simp
    then have "covers q a \<longleftrightarrow> r_base (snd q) \<le> a" by (simp add: covers_def)
    then show ?thesis using m(1) i lo hs Cons by (auto simp: RetrieveRange_def Let_def nth_append not_less)
  qed
qed

lemma RetrieveNearestRange_iff:
  assumes "wf_ranges (rmap rm)"
  shows "RetrieveNearestRange a rm = Some v \<longleftrightarrow>
    (\<exists>p\<in>set (rmap rm). v = range_values p \<and> r_base (snd p) \<le> a \<and> (\<forall>q\<in>set (rmap rm). r_base (snd q) \<le> a \<longrightarrow> r_base (snd q) \<le> r_base (snd p)))"
proof (cases "RetrieveRange a rm")
  case (Some w)
  then obtain p where p: "p \<in> set (rmap rm)" "covers p a" "w = range_values p" using RetrieveRange_iff [OF assms] by blast
  have "\<forall>q\<in>set (rmap rm). r_base (snd q) \<le> a \<longrightarrow> r_base (snd q) \<le> r_base (snd p)"
  proof (intro ballI impI, rule ccontr)
    fix q assume q: "q \<in> set (rmap rm)" "r_base (snd q) \<le> a" "\<not> r_base (snd q) \<le> r_base (snd p)"
    then have "covers q (r_base (snd q))" "covers p (r_base (snd q))" using assms p(2) by (auto simp: covers_def wf_ranges_def)
    then show False using wf_disjoint [OF assms q(1) p(1)] q(3) by auto
  qed
  from highest_below_unique [OF assms p(1) _ this, of v] p(2,3) Some show ?thesis by (auto simp: RetrieveNearestRange_def covers_def)
next
  case None
  have nc: "\<not> covers p a" if "p \<in> set (rmap rm)" for p using None RetrieveRange_iff [OF assms, of a "range_values p"] that by auto
  obtain lo hi where m: "rmap rm = lo @ hi" "\<forall>p\<in>set lo. fst p < a" "\<forall>p\<in>set hi. a \<le> fst p" by (rule split_at [OF wf_keys [OF assms]])
  have hi: "a < r_base (snd p)" if "p \<in> set hi" for p using nc [of p] m that by (auto simp: covers_def not_le)
  have i: "upper_bound (rmap rm) a = length lo" unfolding m(1)
  proof (rule upper_bound_split)
    show "hi = [] \<or> a < fst (hd hi)" using hi assms m(1) by (cases hi) (auto simp: wf_append wf_Cons dest: order_less_le_trans)
  qed (use m(2) in auto)
  show ?thesis
  proof (cases lo rule: rev_cases)
    case Nil
    then show ?thesis using None i hi m(1) by (auto simp: RetrieveNearestRange_def not_le)
  next
    case (snoc ls p)
    have le: "r_base (snd q) \<le> r_base (snd p)" if "q \<in> set lo" for q
    proof (cases "q = p")
      case False
      then have "q \<in> set ls" using that snoc by simp
      then have "fst q < r_base (snd p)" using assms by (simp add: m(1) snoc wf_append wf_Cons)
      moreover have "r_base (snd q) \<le> fst q" using assms that by (simp add: wf_ranges_def m(1))
      ultimately show ?thesis by (meson order_le_less_trans order_less_imp_le)
    qed simp
    have p: "p \<in> set lo" "r_base (snd p) \<le> a" using snoc m(2) assms m(1) by (auto simp: wf_append wf_Cons dest: order_le_less_trans intro: order_less_imp_le)
    have r: "RetrieveNearestRange a rm = Some (range_values p)" using None i m(1) snoc by (simp add: RetrieveNearestRange_def nth_append)
    have "\<forall>q\<in>set (rmap rm). r_base (snd q) \<le> a \<longrightarrow> r_base (snd q) \<le> r_base (snd p)" using le hi m(1) by (metis Un_iff leD set_append)
    from highest_below_unique [OF assms _ p(2) this, of v] p(1) r m(1) show ?thesis by auto
  qed
qed

section \<open>Storing\<close>

text \<open>No stored range ends in the new one below its high address.\<close>

lemma store_bounds:
  assumes "wf_ranges m" "base \<le> high"
  shows "lower_bound m base = lower_bound m high \<longleftrightarrow> \<not> (\<exists>p\<in>set m. base \<le> fst p \<and> fst p < high)"
proof (cases "\<exists>p\<in>set m. base \<le> fst p \<and> fst p < high")
  case True
  obtain lo hi where m: "m = lo @ hi" "\<forall>p\<in>set lo. fst p < base" "\<forall>p\<in>set hi. base \<le> fst p" by (rule split_at [OF wf_keys [OF assms(1)]])
  obtain lo' hi' where m': "m = lo' @ hi'" "\<forall>p\<in>set lo'. fst p < high" "\<forall>p\<in>set hi'. high \<le> fst p" by (rule split_at [OF wf_keys [OF assms(1)]])
  have "lower_bound m base = length lo" unfolding m(1) using m(2,3) by (intro lower_bound_split) (cases hi; simp)+
  moreover have "lower_bound m high = length lo'" unfolding m'(1) using m'(2,3) by (intro lower_bound_split) (cases hi'; simp)+
  moreover have "length lo \<noteq> length lo'"
  proof
    assume "length lo = length lo'"
    then have "lo = lo'" "hi = hi'" using m(1) m'(1) by auto
    then show False using True m m' by (auto simp: not_le dest: order_less_le_trans)
  qed
  ultimately show ?thesis using True by simp
next
  case False
  have "takeWhile (\<lambda>p. fst p < base) m = takeWhile (\<lambda>p. fst p < high) m"
    by (rule takeWhile_cong) (use False assms(2) in \<open>auto simp: not_less dest: order_less_le_trans\<close>)
  then show ?thesis using False by (simp add: lower_bound_def)
qed

text \<open>What the map becomes: the new range begins behind the ones that end in it, and the one that reaches beyond its end begins behind it.\<close>

definition new_base :: "(u64 \<times> 'e range) set \<Rightarrow> u64 \<Rightarrow> u64 \<Rightarrow> u64" where
  "new_base S base high = (let K = {k \<in> fst ` S. base \<le> k \<and> k < high} in if K = {} then base else Max K + 1)"

definition moved_up :: "u64 \<Rightarrow> u64 \<times> 'e range \<Rightarrow> u64 \<times> 'e range" where
  "moved_up high p =
     (if covers p high \<and> high \<noteq> fst p
      then (fst p, \<lparr>r_base = high + 1, r_delta = r_delta (snd p) + (high - r_base (snd p) + 1), r_entry = r_entry (snd p)\<rparr>) else p)"

lemma store_fits:
  assumes wf: "wf_ranges (rmap rm)" and sz: "sz \<noteq> 0" "base \<le> base + (sz - 1)"
    and free: "\<forall>p\<in>set (rmap rm). fst p < base \<or> base + (sz - 1) < r_base (snd p)"
  shows "\<exists>m. StoreRangeInternal dflt base delta sz entry rm = Some (True, rm\<lparr>rmap := m\<rparr>) \<and> wf_ranges m \<and>
      set m = insert (base + (sz - 1), \<lparr>r_base = base, r_delta = delta, r_entry = entry\<rparr>) (set (rmap rm))"
proof -
  define high where "high = base + (sz - 1)"
  obtain lo hi where m: "rmap rm = lo @ hi" "\<forall>p\<in>set lo. fst p < base" "\<forall>p\<in>set hi. base \<le> fst p" by (rule split_at [OF wf_keys [OF wf]])
  have b: "\<forall>p\<in>set (rmap rm). r_base (snd p) \<le> fst p" using wf by (simp add: wf_ranges_def)
  have hi: "high < r_base (snd p)" "high < fst p" if "p \<in> set hi" for p
  proof -
    have "\<not> fst p < base" using m(3) that by (simp add: not_less)
    then show "high < r_base (snd p)" using free m(1) that by (auto simp: high_def)
    also have "r_base (snd p) \<le> fst p" using b m(1) that by simp
    finally show "high < fst p" .
  qed
  have lo: "fst p < high" if "p \<in> set lo" for p using m(2) sz(2) that by (auto simp: high_def dest: order_less_le_trans)
  have i: "lower_bound (rmap rm) base = length lo" "lower_bound (rmap rm) high = length lo" unfolding m(1)
    using m(2,3) lo hi(2) by (intro lower_bound_split; cases hi; fastforce)+
  have "map_insert high r (rmap rm) = lo @ (high, r) # hi" for r unfolding m(1) using lo hi(2) by (intro map_insert_split) (cases hi; auto)+
  moreover have "wf_ranges (lo @ (high, \<lparr>r_base = base, r_delta = delta, r_entry = entry\<rparr>) # hi)"
    using wf m lo hi sz(2) by (auto simp: wf_append wf_Cons high_def [symmetric])
  moreover have "\<not> (lower_bound (rmap rm) high \<noteq> length (rmap rm) \<and> r_base (snd (rmap rm ! lower_bound (rmap rm) high)) \<le> high)"
    using i(2) m(1) hi(1) by (cases hi) (auto simp: nth_append not_le)
  ultimately show ?thesis using sz i m(1)
    by (subst StoreRangeInternal.simps) (auto simp: high_def [symmetric] Let_def not_less intro!: exI)
qed

lemma word_succ_gt: "a < b \<Longrightarrow> a < a + 1" for a b :: u64
  by uint_arith

lemma store_overlap:
  assumes wf: "wf_ranges (rmap rm)" and sz: "sz \<noteq> 0" "base \<le> base + (sz - 1)"
    and none: "\<not> (\<exists>p\<in>set (rmap rm). base \<le> fst p \<and> fst p < base + (sz - 1))" and q: "q \<in> set (rmap rm)" "covers q (base + (sz - 1))"
  shows "\<not> (enable_shrink_down rm \<and> base + (sz - 1) < fst q) \<Longrightarrow> StoreRangeInternal dflt base delta sz entry rm = Some (False, rm)"
    and "enable_shrink_down rm \<Longrightarrow> base + (sz - 1) < fst q \<Longrightarrow>
      \<exists>m. StoreRangeInternal dflt base delta sz entry rm = Some (True, rm\<lparr>rmap := m\<rparr>) \<and> wf_ranges m \<and>
        set m = insert (base + (sz - 1), \<lparr>r_base = base, r_delta = delta, r_entry = entry\<rparr>) (moved_up (base + (sz - 1)) ` set (rmap rm))"
proof -
  define high where "high = base + (sz - 1)"
  obtain lo hi where m: "rmap rm = lo @ hi" "\<forall>p\<in>set lo. fst p < high" "\<forall>p\<in>set hi. high \<le> fst p" by (rule split_at [OF wf_keys [OF wf]])
  have "q \<notin> set lo" using m(2) q(2) by (auto simp: covers_def high_def [symmetric])
  then obtain x hs where hi: "hi = x # hs" using q(1) m(1) by (cases hi) auto
  have "q = x"
  proof (rule ccontr)
    assume "q \<noteq> x"
    then have "q \<in> set hs" using \<open>q \<notin> set lo\<close> q(1) m(1) hi by auto
    then have "fst x < r_base (snd q)" using wf by (simp add: m(1) hi wf_append wf_Cons)
    moreover have "high \<le> fst x" using m(3) hi by simp
    ultimately show False using q(2) by (auto simp: covers_def high_def [symmetric])
  qed
  then have m': "rmap rm = lo @ q # hs" using m(1) hi by simp
  have j: "lower_bound (rmap rm) high = length lo" unfolding m(1) using m(2,3) by (intro lower_bound_split) (cases hi; simp)+
  have i: "lower_bound (rmap rm) base = length lo" using store_bounds [OF wf sz(2)] none j by (simp add: high_def)
  have lo: "fst p < base" if "p \<in> set lo" for p using none m(1,2) that by (auto simp: high_def not_le)
  have b: "r_base (snd q) \<le> high" "high \<le> fst q" using q(2) by (simp_all add: covers_def high_def)
  show "StoreRangeInternal dflt base delta sz entry rm = Some (False, rm)" if "\<not> (enable_shrink_down rm \<and> base + (sz - 1) < fst q)"
    using that sz i j m' b by (subst StoreRangeInternal.simps) (auto simp: high_def [symmetric] Let_def not_less)
  assume sh: "enable_shrink_down rm" "base + (sz - 1) < fst q"
  then have sh': "high < fst q" by (simp add: high_def)
  define r where "r = \<lparr>r_base = high + 1, r_delta = r_delta (snd q) + (high - r_base (snd q) + 1), r_entry = r_entry (snd q)\<rparr>"
  define rm2 where "rm2 = rm\<lparr>rmap := lo @ (fst q, r) # hs\<rparr>"
  have hs: "fst q < r_base (snd p)" "fst q < fst p" if "p \<in> set hs" for p
  proof -
    show "fst q < r_base (snd p)" using wf that by (simp add: m' wf_append wf_Cons)
    also have "r_base (snd p) \<le> fst p" using wf that by (simp add: m' wf_ranges_def)
    finally show "fst q < fst p" .
  qed
  have lq: "fst p < fst q" if "p \<in> set lo" for p using m(2) sh' that by (auto dest: order_less_trans)
  have "covers q (fst q)" using wf q(1) by (auto simp: covers_def wf_ranges_def)
  then have ret: "RetrieveRange (fst q) rm = Some (range_values q)" using RetrieveRange_iff [OF wf] q(1) by blast
  have ins: "map_insert (fst q) r' (map_erase (length lo) (rmap rm)) = lo @ (fst q, r') # hs" for r'
    using lq hs(2) map_insert_split [of lo "fst q" hs r'] by (cases hs) (auto simp: m' map_erase_def)
  have d: "r_base (snd q) + (high - r_base (snd q) + 1) = high + 1" by simp
  have at: "rmap rm ! length lo = q" "length lo \<noteq> length (rmap rm)" "\<not> high < base" using sz(2) by (simp_all add: m' high_def not_less)
  have "StoreRangeInternal dflt base delta sz entry rm = StoreRangeInternal dflt base delta sz entry
      (rm\<lparr>rmap := map_insert (fst q) r (map_erase (length lo) (rmap rm))\<rparr>)"
    using sz b(1) sh(1) sh' unfolding high_def [symmetric]
    by (subst StoreRangeInternal.simps) (simp add: high_def [symmetric] Let_def not_less i j at ret range_values_def r_def [unfolded d [symmetric]])
  then have rec: "StoreRangeInternal dflt base delta sz entry rm = StoreRangeInternal dflt base delta sz entry rm2" by (simp only: ins rm2_def)
  have wf2: "wf_ranges (rmap rm2)"
    using wf lo hs sh' m(2) word_succ_gt [OF sh'] inc_le [OF sh'] unfolding rm2_def m'
    by (auto simp: wf_append wf_Cons r_def dest: order_less_trans)
  have hb: "high < r_base (snd p)" if "p \<in> set hs" for p using order_less_trans [OF sh' hs(1) [OF that]] .
  have free: "\<forall>p\<in>set (rmap rm2). fst p < base \<or> high < r_base (snd p)" using lo hb word_succ_gt [OF sh'] by (auto simp: rm2_def r_def)
  have mv: "moved_up high q = (fst q, r)" using b less_imp_neq [OF sh'] by (simp add: moved_up_def covers_def r_def)
  have "moved_up high p = p" if "p \<in> set lo \<union> set hs" for p
    using that m(2) hb [of p] by (auto simp: moved_up_def covers_def not_le [symmetric])
  then have "moved_up high ` set (rmap rm) = set (rmap rm2)" using mv by (force simp: m' rm2_def image_Un)
  then show "\<exists>m. StoreRangeInternal dflt base delta sz entry rm = Some (True, rm\<lparr>rmap := m\<rparr>) \<and> wf_ranges m \<and>
        set m = insert (base + (sz - 1), \<lparr>r_base = base, r_delta = delta, r_entry = entry\<rparr>) (moved_up (base + (sz - 1)) ` set (rmap rm))"
    using store_fits [OF wf2 sz free [unfolded high_def], of dflt delta entry] rec by (auto simp: rm2_def high_def)
qed

text \<open>The first stored range that ends in the new one is skipped.\<close>

lemma store_skip:
  assumes wf: "wf_ranges (rmap rm)" and sz: "sz \<noteq> 0" "base \<le> base + (sz - 1)"
    and some: "\<exists>p\<in>set (rmap rm). base \<le> fst p \<and> fst p < base + (sz - 1)"
  shows "\<not> enable_shrink_down rm \<Longrightarrow> StoreRangeInternal dflt base delta sz entry rm = Some (False, rm)"
    and "enable_shrink_down rm \<Longrightarrow> \<exists>p\<in>set (rmap rm). base \<le> fst p \<and> fst p < base + (sz - 1) \<and>
      StoreRangeInternal dflt base delta sz entry rm =
        StoreRangeInternal dflt (fst p + 1) (delta + (fst p - base + 1)) (base + (sz - 1) - fst p) entry rm"
proof -
  define high where "high = base + (sz - 1)"
  obtain lo hi where m: "rmap rm = lo @ hi" "\<forall>p\<in>set lo. fst p < base" "\<forall>p\<in>set hi. base \<le> fst p" by (rule split_at [OF wf_keys [OF wf]])
  have i: "lower_bound (rmap rm) base = length lo" unfolding m(1) using m(2,3) by (intro lower_bound_split) (cases hi; simp)+
  have ne: "lower_bound (rmap rm) base \<noteq> lower_bound (rmap rm) high" using store_bounds [OF wf sz(2)] some by (simp add: high_def)
  obtain p where p: "p \<in> set (rmap rm)" "base \<le> fst p" "fst p < high" using some by (auto simp: high_def)
  have nh: "\<not> high < base" using sz(2) by (simp add: high_def not_less)
  show "\<not> enable_shrink_down rm \<Longrightarrow> StoreRangeInternal dflt base delta sz entry rm = Some (False, rm)"
    using sz(1) ne nh by (subst StoreRangeInternal.simps) (simp add: high_def [symmetric] Let_def)
  assume sh: "enable_shrink_down rm"
  have "p \<notin> set lo" using p(2) m(2) by (auto simp: not_less [symmetric])
  then obtain q hs where hi: "hi = q # hs" using p(1) m(1) by (cases hi) auto
  have "fst q \<le> fst p"
    using wf_keys [OF wf] p(1) \<open>p \<notin> set lo\<close> by (auto simp: m(1) hi sorted_wrt_append)
  then have q: "fst q < high" "base \<le> fst q" using p(3) m(3) hi by auto
  have at: "rmap rm ! length lo = q" by (simp add: m(1) hi)
  have "StoreRangeInternal dflt base delta sz entry rm = StoreRangeInternal dflt (base + (fst q - base + 1)) (delta + (fst q - base + 1)) (sz - (fst q - base + 1)) entry rm"
    using sz(1) ne nh sh by (subst StoreRangeInternal.simps) (simp add: high_def [symmetric] Let_def i at)
  moreover have "sz - (fst q - base + 1) = high - fst q" by (simp add: high_def algebra_simps)
  moreover have "base + (fst q - base + 1) = fst q + 1" by simp
  ultimately show "\<exists>p\<in>set (rmap rm). base \<le> fst p \<and> fst p < base + (sz - 1) \<and>
      StoreRangeInternal dflt base delta sz entry rm =
        StoreRangeInternal dflt (fst p + 1) (delta + (fst p - base + 1)) (base + (sz - 1) - fst p) entry rm"
    using q by (intro bexI [of _ q]) (simp_all add: m(1) hi high_def)
qed

lemma new_base_skip:
  assumes "finite S" "p \<in> S" "base \<le> fst p" "fst p < high"
  shows "new_base S (fst p + 1) high = new_base S base high"
proof -
  define K where "K b = {k \<in> fst ` S. b \<le> k \<and> k < high}" for b
  have fin: "finite (K b)" for b using assms(1) by (simp add: K_def)
  have pK: "fst p \<in> K base" using assms(2-4) by (simp add: K_def)
  have up: "fst p < fst p + 1" by (rule word_succ_gt [OF assms(4)])
  have sub: "K (fst p + 1) \<subseteq> K base" using assms(3) up by (auto simp: K_def)
  show ?thesis
  proof (cases "K (fst p + 1) = {}")
    case True
    have "k \<le> fst p" if "k \<in> K base" for k
    proof (rule ccontr)
      assume "\<not> k \<le> fst p"
      then have "fst p + 1 \<le> k" by (intro inc_le) simp
      then show False using True that by (auto simp: K_def)
    qed
    then have "Max (K base) = fst p" using fin pK by (intro Max_eqI)
    then show ?thesis using True pK by (auto simp: new_base_def Let_def K_def)
  next
    case False
    have "Max (K (fst p + 1)) = Max (K base)"
    proof (rule antisym)
      show "Max (K (fst p + 1)) \<le> Max (K base)" using fin sub False by (intro Max_mono)
      have mx: "Max (K (fst p + 1)) \<in> K (fst p + 1)" using fin False by (intro Max_in)
      show "Max (K base) \<le> Max (K (fst p + 1))"
      proof (rule Max.boundedI)
        fix k assume k: "k \<in> K base"
        show "k \<le> Max (K (fst p + 1))"
        proof (cases "k \<le> fst p")
          case True
          then show ?thesis using mx up by (auto simp: K_def)
        next
          case False
          then have "fst p + 1 \<le> k" by (intro inc_le) simp
          then show ?thesis using k fin by (intro Max_ge) (auto simp: K_def)
        qed
      qed (use fin pK in auto)
    qed
    then show ?thesis using False pK by (auto simp: new_base_def Let_def K_def)
  qed
qed

text \<open>The abstract operation: a set of ranges and whether the new one is taken.\<close>

definition taken :: "bool \<Rightarrow> (u64 \<times> 'e range) set \<Rightarrow> u64 \<Rightarrow> u64 \<Rightarrow> bool" where
  "taken shrink S base high \<longleftrightarrow> (if shrink then high \<notin> fst ` S else \<forall>p\<in>S. fst p < base \<or> high < r_base (snd p))"

definition after_store :: "bool \<Rightarrow> (u64 \<times> 'e range) set \<Rightarrow> u64 \<Rightarrow> u64 \<Rightarrow> u64 \<Rightarrow> 'e \<Rightarrow> (u64 \<times> 'e range) set" where
  "after_store shrink S base delta high entry =
     (if \<not> taken shrink S base high then S
      else insert (high, \<lparr>r_base = new_base S base high, r_delta = delta + (new_base S base high - base), r_entry = entry\<rparr>) (moved_up high ` S))"

lemma new_base_none: "\<not> (\<exists>p\<in>S. base \<le> fst p \<and> fst p < high) \<Longrightarrow> new_base S base high = base"
proof -
  assume "\<not> (\<exists>p\<in>S. base \<le> fst p \<and> fst p < high)"
  then have "{k \<in> fst ` S. base \<le> k \<and> k < high} = {}" by auto
  then show ?thesis by (simp add: new_base_def)
qed

text \<open>No range ends inside the new one: it is taken or refused at once, or after the range that reaches beyond it was moved.\<close>

lemma store_here:
  assumes wf: "wf_ranges (rmap rm)" and sz: "sz \<noteq> 0" "base \<le> base + (sz - 1)" and h: "high = base + (sz - 1)"
    and none: "\<not> (\<exists>p\<in>set (rmap rm). base \<le> fst p \<and> fst p < high)"
  shows "\<exists>m. StoreRangeInternal dflt base delta sz entry rm = Some (taken (enable_shrink_down rm) (set (rmap rm)) base high, rm\<lparr>rmap := m\<rparr>) \<and> wf_ranges m \<and>
      set m = after_store (enable_shrink_down rm) (set (rmap rm)) base delta high entry"
proof -
  define S where "S = set (rmap rm)"
  note none = none [folded S_def]
  note nb = new_base_none [OF none]
  have ends: "covers r high" if "r \<in> S" "fst r = high" for r using wf that by (auto simp: covers_def wf_ranges_def S_def)
  show ?thesis
  proof (cases "\<exists>q\<in>S. covers q high")
    case True
    then obtain q where q: "q \<in> S" "covers q high" by blast
    note ov = store_overlap [OF wf sz, folded h S_def, OF none q]
    have only: "r = q" if "r \<in> S" "fst r = high" for r using wf_disjoint [OF wf that(1) [unfolded S_def] q(1) [unfolded S_def] ends [OF that] q(2)] .
    show ?thesis
    proof (cases "enable_shrink_down rm \<and> high < fst q")
      case True
      then have "taken True S base high" using only by (auto simp: taken_def)
      then show ?thesis using ov(2) [of dflt delta entry] True nb by (auto simp: after_store_def S_def)
    next
      case False
      have "fst q = high" if "enable_shrink_down rm" using False q(2) that by (auto simp: covers_def)
      moreover have "\<not> fst q < base" "\<not> high < r_base (snd q)" using q(2) sz(2) h by (auto simp: covers_def not_less intro: order_trans)
      ultimately have "\<not> taken (enable_shrink_down rm) S base high" using q(1) by (auto simp: taken_def)
      then show ?thesis using ov(1) [OF False, of dflt delta entry] wf by (intro exI [of _ "rmap rm"]) (simp add: after_store_def S_def)
    qed
  next
    case False
    have free: "\<forall>p\<in>S. fst p < base \<or> high < r_base (snd p)" using none False unfolding covers_def by (meson linorder_not_le)
    have "moved_up high ` S = S" using False by (force simp: moved_up_def)
    moreover have "taken (enable_shrink_down rm) S base high" using free ends False by (auto simp: taken_def)
    ultimately show ?thesis using store_fits [OF wf sz, folded h S_def, OF free, of dflt delta entry] nb by (auto simp: after_store_def S_def)
  qed
qed

lemma fewer_inside:
  fixes S :: "(u64 \<times> 'e range) set"
  assumes "finite S" "p \<in> S" "base \<le> fst p" "fst p < high"
  shows "card {q \<in> S. fst p + 1 \<le> fst q \<and> fst q < high} < card {q \<in> S. base \<le> fst q \<and> fst q < high}" (is "card ?A < card ?B")
proof (rule psubset_card_mono)
  have up: "fst p < fst p + 1" by (rule word_succ_gt [OF assms(4)])
  have "p \<in> ?B" "p \<notin> ?A" using assms up by (auto simp: not_le)
  then show "?A \<subset> ?B" using assms(3) up by (auto intro: order_trans order_less_imp_le)
qed (use assms(1) in simp)

lemma store_ok:
  assumes wf: "wf_ranges (rmap rm)" and "sz \<noteq> 0" "base \<le> base + (sz - 1)" "high = base + (sz - 1)"
  shows "\<exists>m. StoreRangeInternal dflt base delta sz entry rm = Some (taken (enable_shrink_down rm) (set (rmap rm)) base high, rm\<lparr>rmap := m\<rparr>) \<and> wf_ranges m \<and>
      set m = after_store (enable_shrink_down rm) (set (rmap rm)) base delta high entry"
  using assms(2-4)
proof (induction "card {p \<in> set (rmap rm). base \<le> fst p \<and> fst p < high}" arbitrary: base delta sz rule: less_induct)
  case less
  define S where "S = set (rmap rm)"
  note sz = less.prems(1) less.prems(2) and h = less.prems(3)
  show ?case
  proof (cases "\<exists>p\<in>S. base \<le> fst p \<and> fst p < high")
    case some: True
    show ?thesis
    proof (cases "enable_shrink_down rm")
      case False
      from some obtain p where p: "p \<in> S" "base \<le> fst p" "fst p < high" by blast
      have "r_base (snd p) \<le> fst p" using wf p(1) by (simp add: wf_ranges_def S_def)
      then have "\<not> taken False S base high" using p by (force simp: taken_def)
      then show ?thesis using store_skip(1) [OF wf sz, folded h S_def, OF some False] wf False
        by (intro exI [of _ "rmap rm"]) (simp add: after_store_def S_def)
    next
      case True
      from store_skip(2) [OF wf sz, folded h S_def, OF some True] obtain p where p: "p \<in> S" "base \<le> fst p" "fst p < high"
        "StoreRangeInternal dflt base delta sz entry rm = StoreRangeInternal dflt (fst p + 1) (delta + (fst p - base + 1)) (high - fst p) entry rm" by blast
      have h': "high = fst p + 1 + (high - fst p - 1)" "high - fst p \<noteq> 0" "fst p + 1 \<le> fst p + 1 + (high - fst p - 1)"
        using p(3) inc_le [OF p(3)] by auto
      note fewer = fewer_inside [OF _ p(1-3), unfolded S_def, OF finite_set]
      from less.hyps [OF fewer h'(2,3,1), of "delta + (fst p - base + 1)"] obtain m where
        m: "StoreRangeInternal dflt base delta sz entry rm = Some (taken True S (fst p + 1) high, rm\<lparr>rmap := m\<rparr>)" "wf_ranges m"
          "set m = after_store True S (fst p + 1) (delta + (fst p - base + 1)) high entry"
        unfolding p(4) using True by (auto simp: S_def)
      have nb: "new_base S (fst p + 1) high = new_base S base high" using p by (intro new_base_skip) (simp_all add: S_def)
      have "taken True S (fst p + 1) high = taken True S base high" by (simp add: taken_def)
      then show ?thesis using m True nb by (intro exI [of _ m]) (simp add: after_store_def S_def algebra_simps)
    qed
  next
    case False
    then show ?thesis using store_here [OF wf sz h] by (simp add: S_def)
  qed
qed

lemma StoreRange_total:
  assumes "wf_ranges (rmap rm)"
  shows "\<exists>ok m. StoreRange dflt base sz entry rm = Some (ok, rm\<lparr>rmap := m\<rparr>) \<and> wf_ranges m \<and>
      (if sz = 0 \<or> base + (sz - 1) < base then \<not> ok \<and> m = rmap rm
       else ok = taken (enable_shrink_down rm) (set (rmap rm)) base (base + (sz - 1)) \<and>
         set m = after_store (enable_shrink_down rm) (set (rmap rm)) base 0 (base + (sz - 1)) entry)"
proof (cases "sz = 0 \<or> base + (sz - 1) < base")
  case True
  then have "StoreRange dflt base sz entry rm = Some (False, rm)" unfolding StoreRange_def by (subst StoreRangeInternal.simps) (auto simp: Let_def)
  then show ?thesis using True assms by (intro exI [of _ False] exI [of _ "rmap rm"]) simp
next
  case False
  then have "sz \<noteq> 0" "base \<le> base + (sz - 1)" by (simp_all add: not_less)
  from store_ok [OF assms this refl, of dflt 0 entry] show ?thesis using False by (auto simp: StoreRange_def)
qed

section \<open>Properties\<close>

text \<open>
  C29: storing a range returns, for every map and every range. A range that is empty or leaves the address space is refused. Otherwise the map keeps its form and its
  ranges become those of the abstract operation: without shrinking the range is taken exactly when it overlaps no other; with shrinking exactly when no other ends at
  the same address, and then it begins behind the ranges that end in it, while the range that reaches beyond it begins behind it; the deltas tell by how much. A range
  that is refused changes nothing.
\<close>

theorem StoreRange_refines:
  assumes "wf_ranges (rmap rm)"
  shows "\<exists>ok m. StoreRange dflt base sz entry rm = Some (ok, rm\<lparr>rmap := m\<rparr>) \<and> wf_ranges m \<and>
      (if sz = 0 \<or> base + (sz - 1) < base then \<not> ok \<and> m = rmap rm
       else ok = taken (enable_shrink_down rm) (set (rmap rm)) base (base + (sz - 1)) \<and>
         set m = after_store (enable_shrink_down rm) (set (rmap rm)) base 0 (base + (sz - 1)) entry)"
  by (rule StoreRange_total [OF assms])

text \<open>
  After a range was stored without shrinking, every address in it gives its entry, base and size, and every other address gives what it gave before.
\<close>

theorem StoreRange_lookup:
  assumes "wf_ranges (rmap rm)" "\<not> enable_shrink_down rm" "StoreRange dflt base sz entry rm = Some (True, rm')"
  shows "RetrieveRange a rm' = (if base \<le> a \<and> a \<le> base + (sz - 1) then Some (entry, base, 0, sz) else RetrieveRange a rm)"
proof -
  define high where "high = base + (sz - 1)"
  from StoreRange_total [OF assms(1), of dflt base sz entry] assms(2,3) obtain m where
    m: "rm' = rm\<lparr>rmap := m\<rparr>" "wf_ranges m" "base \<le> high" "taken False (set (rmap rm)) base high" "set m = after_store False (set (rmap rm)) base 0 high entry"
    by (auto simp: high_def not_less split: if_splits)
  have free: "\<forall>p\<in>set (rmap rm). fst p < base \<or> high < r_base (snd p)" using m(4) by (simp add: taken_def)
  have b: "r_base (snd p) \<le> fst p" if "p \<in> set (rmap rm)" for p using assms(1) that by (simp add: wf_ranges_def)
  have "\<not> (\<exists>p\<in>set (rmap rm). base \<le> fst p \<and> fst p < high)" using free b by (meson linorder_not_le order_le_less_trans order_less_imp_not_less)
  note nb = new_base_none [OF this]
  have nc: "\<not> covers p high" if "p \<in> set (rmap rm)" for p using free that m(3) by (auto simp: covers_def not_le dest: order_less_le_trans)
  then have "moved_up high ` set (rmap rm) = set (rmap rm)" by (force simp: moved_up_def)
  then have set_m: "set m = insert (high, \<lparr>r_base = base, r_delta = 0, r_entry = entry\<rparr>) (set (rmap rm))" using m(4,5) nb by (simp add: after_store_def)
  have v: "range_values (high, \<lparr>r_base = base, r_delta = 0, r_entry = entry\<rparr>) = (entry, base, 0, sz)" by (simp add: range_values_def high_def)
  have iff': "RetrieveRange a rm' = Some w \<longleftrightarrow> (base \<le> a \<and> a \<le> high \<and> w = (entry, base, 0, sz)) \<or> RetrieveRange a rm = Some w" for w
    using RetrieveRange_iff [of rm' a w] RetrieveRange_iff [OF assms(1), of a w] m(1,2) by (auto simp: set_m v covers_def)
  show ?thesis
  proof (cases "base \<le> a \<and> a \<le> high")
    case True
    then show ?thesis using iff' [of "(entry, base, 0, sz)"] by (simp add: high_def)
  next
    case False
    then have "RetrieveRange a rm' = Some w \<longleftrightarrow> RetrieveRange a rm = Some w" for w using iff' by blast
    then have "RetrieveRange a rm' = RetrieveRange a rm" by (metis not_Some_eq option.exhaust)
    then show ?thesis using False by (auto simp: high_def)
  qed
qed

text \<open>An address that no range holds gets the range with the highest base below it, any other the range that holds it.\<close>

theorem RetrieveNearestRange_correct:
  assumes "wf_ranges (rmap rm)"
  shows "RetrieveNearestRange a rm = Some v \<longleftrightarrow>
    (\<exists>p\<in>set (rmap rm). v = range_values p \<and> r_base (snd p) \<le> a \<and> (\<forall>q\<in>set (rmap rm). r_base (snd q) \<le> a \<longrightarrow> r_base (snd q) \<le> r_base (snd p)))"
  by (rule RetrieveNearestRange_iff [OF assms])

text \<open>The same for an address map.\<close>

theorem AddressMap_Retrieve_correct:
  assumes "sorted_wrt (<) (map fst m)"
  shows "AddressMap_Retrieve a m = Some p \<longleftrightarrow> p \<in> set m \<and> fst p \<le> a \<and> (\<forall>q\<in>set m. fst q \<le> a \<longrightarrow> fst q \<le> fst p)"
proof -
  define lo hi where "lo = takeWhile (\<lambda>p. fst p \<le> a) m" and "hi = dropWhile (\<lambda>p. fst p \<le> a) m"
  have m: "m = lo @ hi" by (simp add: lo_def hi_def)
  have lo: "\<forall>p\<in>set lo. fst p \<le> a" unfolding lo_def by (auto dest: set_takeWhileD)
  have hi: "a < fst q" if "q \<in> set hi" for q
  proof (cases hi)
    case (Cons x xs)
    have "a < fst x" using hd_dropWhile [of "\<lambda>p. fst p \<le> a" m, folded hi_def] Cons by (simp add: not_le)
    moreover have "sorted_wrt (<) (map fst hi)" using assms m by (simp add: sorted_wrt_append)
    ultimately show ?thesis using Cons that by fastforce
  qed (use that in simp)
  show ?thesis
  proof (cases lo rule: rev_cases)
    case Nil
    then have "AddressMap_Retrieve a m = None" by (simp add: AddressMap_Retrieve_def upper_bound_def lo_def [symmetric])
    then show ?thesis using Nil m hi by (auto simp: not_le [symmetric])
  next
    case (snoc ls x)
    have "upper_bound m a = length lo" by (simp add: upper_bound_def lo_def)
    moreover have "m ! (length lo - 1) = x" using snoc m by simp
    ultimately have r: "AddressMap_Retrieve a m = Some x" using snoc by (simp add: AddressMap_Retrieve_def)
    have le: "fst q < fst x" if "q \<in> set ls" for q using assms that by (auto simp: m snoc sorted_wrt_append)
    have x: "x \<in> set m" "fst x \<le> a" using m snoc lo by auto
    have low: "q = x \<or> q \<in> set ls" if "q \<in> set m" "fst q \<le> a" for q using that m snoc hi [of q] by (auto simp: not_le [symmetric])
    have "fst q \<le> fst x" if "q \<in> set m" "fst q \<le> a" for q using low [OF that] le [of q] by auto
    moreover have "p = x" if "p \<in> set m" "fst p \<le> a" "fst x \<le> fst p" using low [OF that(1,2)] le [of p] that(3) by auto
    ultimately show ?thesis using r x by auto
  qed
qed

definition demo_ranges :: "nat range_map" where
  "demo_ranges = \<lparr>enable_shrink_down = False, rmap = [(9, \<lparr>r_base = 5, r_delta = 0, r_entry = 1\<rparr>), (30, \<lparr>r_base = 20, r_delta = 0, r_entry = 2\<rparr>)]\<rparr>"

lemma demo_ranges_wf: "wf_ranges (rmap demo_ranges)" "wf_ranges (rmap (SetEnableShrinkDown True demo_ranges))"
  by (simp_all add: demo_ranges_def SetEnableShrinkDown_def wf_ranges_def)

theorem StoreRange_refines_witness:
  "\<exists>m. StoreRange 0 8 17 3 (SetEnableShrinkDown True demo_ranges) = Some (True, (SetEnableShrinkDown True demo_ranges)\<lparr>rmap := m\<rparr>) \<and>
    set m = {(24, \<lparr>r_base = 10, r_delta = 2, r_entry = 3\<rparr>), (9, \<lparr>r_base = 5, r_delta = 0, r_entry = 1\<rparr>), (30, \<lparr>r_base = 25, r_delta = 5, r_entry = 2\<rparr>)}"
proof -
  have K: "{k. (k = 9 \<or> k = 30) \<and> 8 \<le> k \<and> k < 24} = {9 :: u64}" by auto
  show ?thesis using StoreRange_refines [OF demo_ranges_wf(2), of 0 8 17 3]
    by (auto simp: SetEnableShrinkDown_def demo_ranges_def taken_def after_store_def new_base_def moved_up_def covers_def K insert_commute)
qed

theorem StoreRange_lookup_witness: "\<exists>rm'. StoreRange 0 10 5 7 demo_ranges = Some (True, rm') \<and> RetrieveRange 12 rm' = Some (7, 10, 0, 5)"
proof -
  obtain ok m where "StoreRange 0 10 5 7 demo_ranges = Some (ok, demo_ranges\<lparr>rmap := m\<rparr>)" "ok"
    using StoreRange_total [OF demo_ranges_wf(1), of 0 10 5 7] by (auto simp: demo_ranges_def taken_def)
  then show ?thesis using StoreRange_lookup [OF demo_ranges_wf(1), of 0 10 5 7 _ 12] by (simp add: demo_ranges_def)
qed

end
