(* ===== verification/ConnectString.thy ===== *)
theory ConnectString
  imports Prelude
begin

text \<open>
  The strings a connection is asked for (\<open>ParseConnectString\<close> of \<^verbatim>\<open>gles/Network/JAConnect.cpp\<close>) and the string functions of C it uses.
  A C string is the list of its characters without the terminating zero; an array of \<open>n\<close> characters holds strings shorter than \<open>n\<close>.
\<close>

section \<open>C strings\<close>

definition strcpy :: "nat \<Rightarrow> string \<Rightarrow> string outcome" where
  "strcpy n s = (if length s < n then Ret s else UB HeapOverflow)"

text \<open>\<open>strncpy\<close> cuts the string. All strings that the connectors copy this way are shorter than the arrays.\<close>

definition strncpy :: "nat \<Rightarrow> string \<Rightarrow> string" where
  "strncpy n s = take n s"

definition tolower :: "char \<Rightarrow> char" where
  "tolower c = (let k = of_char c :: nat in if 65 \<le> k \<and> k \<le> 90 then char_of (k + 32) else c)"

definition strcasecmp_eq :: "string \<Rightarrow> string \<Rightarrow> bool" where
  "strcasecmp_eq s t \<longleftrightarrow> map tolower s = map tolower t"

text \<open>One call of \<open>strtok\<close> with a single delimiter: the token, or none, and where the next call goes on.\<close>

definition strtok :: "char \<Rightarrow> string \<Rightarrow> string option \<times> string" where
  "strtok d s =
     (let s = dropWhile (\<lambda>c. c = d) s in
      if s = [] then (None, []) else (Some (takeWhile (\<lambda>c. c \<noteq> d) s), drop 1 (dropWhile (\<lambda>c. c \<noteq> d) s)))"

definition digit :: "char \<Rightarrow> nat option" where
  "digit c = (let k = of_char c :: nat in if 48 \<le> k \<and> k \<le> 57 then Some (k - 48) else None)"

fun atoi_digits :: "int \<Rightarrow> string \<Rightarrow> int" where
  "atoi_digits v [] = v"
| "atoi_digits v (c # s) = (case digit c of None \<Rightarrow> v | Some k \<Rightarrow> atoi_digits (10 * v + int k) s)"

text \<open>\<open>atoi\<close> is \<open>strtol\<close>, which stops at the limits of its type.\<close>

definition atoi :: "string \<Rightarrow> int" where
  "atoi s =
     (let s = dropWhile (\<lambda>c. c = CHR '' '' \<or> of_char c \<in> {9 :: nat..13}) s;
          v = (case s of
                 [] \<Rightarrow> 0
               | c # t \<Rightarrow> if c = CHR ''-'' then - atoi_digits 0 t else if c = CHR ''+'' then atoi_digits 0 t else atoi_digits 0 s) in
      max (- (2 ^ 31)) (min (2 ^ 31 - 1) v))"

section \<open>The address and the login of a connection\<close>

record endpoint =
  mDeviceID :: string
  mIP :: string
  mPort :: "16 word"
  mUser :: string
  mPwd :: string
  mVerify :: string

text \<open>A null pointer goes to \<open>strcpy\<close> or \<open>atoi\<close> when there is no token.\<close>

definition parse_address :: "string \<Rightarrow> 'a endpoint_scheme \<Rightarrow> 'a endpoint_scheme outcome" where
  "parse_address connstr e =
     (if CHR '':'' \<notin> set connstr then bnd (strcpy 20 connstr) (\<lambda>s. Ret (e\<lparr>mDeviceID := s\<rparr>))
      else case strtok (CHR '':'') connstr of
             (None, _) \<Rightarrow> UB NullDeref
           | (Some lip, rest) \<Rightarrow>
               bnd (strcpy 80 lip) (\<lambda>s.
               case strtok (CHR '':'') rest of
                 (None, _) \<Rightarrow> UB NullDeref
               | (Some lip, _) \<Rightarrow> Ret (e\<lparr>mIP := s, mPort := word_of_int (atoi lip)\<rparr>)))"

definition parse_login :: "string \<Rightarrow> 'a endpoint_scheme \<Rightarrow> 'a endpoint_scheme outcome" where
  "parse_login verifystr e =
     (if CHR '':'' \<notin> set verifystr then bnd (strcpy 200 verifystr) (\<lambda>s. Ret (e\<lparr>mVerify := s\<rparr>))
      else case strtok (CHR '':'') verifystr of
             (None, _) \<Rightarrow> UB NullDeref
           | (Some luser, rest) \<Rightarrow>
               bnd (strcpy 20 luser) (\<lambda>u.
               case strtok (CHR '':'') rest of
                 (None, _) \<Rightarrow> Ret (e\<lparr>mUser := u\<rparr>)
               | (Some luser, _) \<Rightarrow> bnd (strcpy 40 luser) (\<lambda>p. Ret (e\<lparr>mUser := u, mPwd := p\<rparr>))))"

text \<open>The user of the previous connection is not cleared.\<close>

definition ParseConnectString :: "string \<Rightarrow> string \<Rightarrow> 'a endpoint_scheme \<Rightarrow> 'a endpoint_scheme outcome" where
  "ParseConnectString connstr verifystr e =
     bnd (parse_address connstr (e\<lparr>mDeviceID := [], mIP := [], mPwd := [], mVerify := [], mPort := 0\<rparr>)) (parse_login verifystr)"

section \<open>Tokens\<close>

text \<open>The non-empty parts of a string between the delimiters.\<close>

fun parts :: "char \<Rightarrow> string \<Rightarrow> string list" where
  "parts d [] = [[]]"
| "parts d (c # s) = (if c = d then [] # parts d s else (case parts d s of [] \<Rightarrow> [[c]] | p # ps \<Rightarrow> (c # p) # ps))"

definition tokens :: "char \<Rightarrow> string \<Rightarrow> string list" where
  "tokens d s = filter (\<lambda>p. p \<noteq> []) (parts d s)"

lemma parts_nonempty [simp]: "parts d s \<noteq> []"
  by (induction s) (auto split: list.split)

lemma parts_unfold:
  "parts d s = (if d \<in> set s then takeWhile (\<lambda>c. c \<noteq> d) s # parts d (drop 1 (dropWhile (\<lambda>c. c \<noteq> d) s)) else [s])"
  by (induction s) auto

lemma tokens_dropWhile: "tokens d (dropWhile (\<lambda>c. c = d) s) = tokens d s"
  by (induction s) (auto simp: tokens_def)

lemma strtok_tokens: "strtok d s = (case tokens d s of [] \<Rightarrow> (None, []) | t # _ \<Rightarrow> (Some t, snd (strtok d s)))"
  and tokens_rest: "tokens d (snd (strtok d s)) = tl (tokens d s)"
proof -
  define u where "u = dropWhile (\<lambda>c. c = d) s"
  have tk: "tokens d s = tokens d u" by (simp add: u_def tokens_dropWhile)
  have u: "u = [] \<or> hd u \<noteq> d" unfolding u_def by (metis (mono_tags, lifting) hd_dropWhile)
  have "tokens d u = (if u = [] then [] else takeWhile (\<lambda>c. c \<noteq> d) u # tokens d (drop 1 (dropWhile (\<lambda>c. c \<noteq> d) u)))"
  proof (cases u)
    case (Cons c v)
    then have "c \<noteq> d" using u by simp
    show ?thesis
    proof (cases "d \<in> set u")
      case True
      then show ?thesis using Cons \<open>c \<noteq> d\<close> by (subst tokens_def, subst parts_unfold) (simp add: tokens_def)
    next
      case False
      then have "takeWhile (\<lambda>c. c \<noteq> d) u = u" "dropWhile (\<lambda>c. c \<noteq> d) u = []" by auto
      then show ?thesis using False Cons by (subst tokens_def, subst parts_unfold) (simp add: tokens_def)
    qed
  qed (simp add: tokens_def)
  then show "strtok d s = (case tokens d s of [] \<Rightarrow> (None, []) | t # _ \<Rightarrow> (Some t, snd (strtok d s)))"
    "tokens d (snd (strtok d s)) = tl (tokens d s)"
    unfolding tk by (auto simp: strtok_def u_def [symmetric] tokens_def)
qed

lemma tokens_absent: "d \<notin> set s \<Longrightarrow> tokens d s = (if s = [] then [] else [s])"
  by (subst tokens_def, subst parts_unfold) auto

lemma tokens_append: "d \<notin> set s \<Longrightarrow> s \<noteq> [] \<Longrightarrow> tokens d (s @ d # t) = s # tokens d t"
proof -
  assume "d \<notin> set s" "s \<noteq> []"
  then have "takeWhile (\<lambda>c. c \<noteq> d) (s @ d # t) = s" "dropWhile (\<lambda>c. c \<noteq> d) (s @ d # t) = d # t"
    by (auto simp: takeWhile_append dropWhile_append)
  then show ?thesis using \<open>s \<noteq> []\<close> by (subst tokens_def, subst parts_unfold) (simp add: tokens_def)
qed

text \<open>Which strings can be parsed.\<close>

definition good_address :: "string \<Rightarrow> bool" where
  "good_address s \<longleftrightarrow>
     (if CHR '':'' \<notin> set s then length s < 20 else 2 \<le> length (tokens (CHR '':'') s) \<and> length (tokens (CHR '':'') s ! 0) < 80)"

definition good_login :: "string \<Rightarrow> bool" where
  "good_login s \<longleftrightarrow>
     (if CHR '':'' \<notin> set s then length s < 200
      else 1 \<le> length (tokens (CHR '':'') s) \<and> length (tokens (CHR '':'') s ! 0) < 20 \<and>
        (2 \<le> length (tokens (CHR '':'') s) \<longrightarrow> length (tokens (CHR '':'') s ! 1) < 40))"

text \<open>What they mean.\<close>

definition set_address :: "string \<Rightarrow> 'a endpoint_scheme \<Rightarrow> 'a endpoint_scheme" where
  "set_address a e =
     (if CHR '':'' \<notin> set a then e\<lparr>mDeviceID := a\<rparr>
      else e\<lparr>mIP := tokens (CHR '':'') a ! 0, mPort := word_of_int (atoi (tokens (CHR '':'') a ! 1))\<rparr>)"

definition set_login :: "string \<Rightarrow> 'a endpoint_scheme \<Rightarrow> 'a endpoint_scheme" where
  "set_login v e =
     (let tv = tokens (CHR '':'') v in
      if CHR '':'' \<notin> set v then e\<lparr>mVerify := v\<rparr>
      else if length tv = 1 then e\<lparr>mUser := tv ! 0\<rparr> else e\<lparr>mUser := tv ! 0, mPwd := tv ! 1\<rparr>)"

definition parsed :: "string \<Rightarrow> string \<Rightarrow> 'a endpoint_scheme \<Rightarrow> 'a endpoint_scheme" where
  "parsed a v e = set_login v (set_address a (e\<lparr>mDeviceID := [], mIP := [], mPwd := [], mVerify := [], mPort := 0\<rparr>))"

lemma strtok_cases:
  obtains "strtok d s = (None, [])" "tokens d s = []"
  | t rest u rest' where "strtok d s = (Some t, rest)" "strtok d rest = (Some u, rest')" "tokens d s = t # u # tokens d rest'"
  | t rest where "strtok d s = (Some t, rest)" "strtok d rest = (None, [])" "tokens d s = [t]"
proof -
  show thesis
  proof (cases "tokens d s")
    case Nil
    then show thesis using that(1) strtok_tokens [of d s] by simp
  next
    case (Cons t ts)
    define rest where "rest = snd (strtok d s)"
    have s: "strtok d s = (Some t, rest)" using strtok_tokens [of d s] Cons by (simp add: rest_def)
    have ts: "tokens d rest = ts" using tokens_rest [of d s] Cons by (simp add: rest_def)
    show thesis
    proof (cases ts)
      case Nil
      then show thesis using that(3) s ts strtok_tokens [of d rest] Cons by simp
    next
      case (Cons u us)
      then have "strtok d rest = (Some u, snd (strtok d rest))" using strtok_tokens [of d rest] ts by simp
      moreover have "tokens d (snd (strtok d rest)) = us" using tokens_rest [of d rest] ts Cons by simp
      ultimately show thesis using that(2) s \<open>tokens d s = t # ts\<close> Cons by metis
    qed
  qed
qed

lemma parse_address_spec:
  "case parse_address a e of Ret e' \<Rightarrow> good_address a \<and> e' = set_address a e | UB _ \<Rightarrow> \<not> good_address a | Blocked \<Rightarrow> False"
  by (cases rule: strtok_cases [of "CHR '':''" a]) (auto simp: parse_address_def good_address_def set_address_def strcpy_def)

lemma parse_login_spec:
  "case parse_login v e of Ret e' \<Rightarrow> good_login v \<and> e' = set_login v e | UB _ \<Rightarrow> \<not> good_login v | Blocked \<Rightarrow> False"
  by (cases rule: strtok_cases [of "CHR '':''" v]) (auto simp: parse_login_def good_login_def set_login_def strcpy_def)

lemma ParseConnectString_spec:
  "case ParseConnectString a v e of
     Ret e' \<Rightarrow> good_address a \<and> good_login v \<and> e' = parsed a v e
   | UB _ \<Rightarrow> \<not> (good_address a \<and> good_login v)
   | Blocked \<Rightarrow> False"
proof -
  define e0 where "e0 = e\<lparr>mDeviceID := [], mIP := [], mPwd := [], mVerify := [], mPort := 0\<rparr>"
  show ?thesis using parse_address_spec [of a e0] parse_login_spec [of v "set_address a e0"]
    unfolding ParseConnectString_def e0_def [symmetric] parsed_def
    by (cases "parse_address a e0"; cases "parse_login v (set_address a e0)") auto
qed

lemma ParseConnectString_good: "good_address a \<Longrightarrow> good_login v \<Longrightarrow> ParseConnectString a v e = Ret (parsed a v e)"
  using ParseConnectString_spec [of a v e] by (cases "ParseConnectString a v e") auto

lemma parsed_lengths:
  assumes "good_address a"
  shows "length (mDeviceID (parsed a v e)) < 20" "length (mIP (parsed a v e)) < 80"
  using assms by (auto simp: parsed_def set_login_def set_address_def good_address_def Let_def)

section \<open>Decimal numbers\<close>

fun dec :: "nat \<Rightarrow> string" where
  "dec n = (if n < 10 then [char_of (48 + n)] else dec (n div 10) @ [char_of (48 + n mod 10)])"

declare dec.simps [simp del]

lemma digit_dec: "k < 10 \<Longrightarrow> digit (char_of (48 + k)) = Some k"
  by (simp add: digit_def)

lemma dec_digits: "c \<in> set (dec n) \<Longrightarrow> 48 \<le> (of_char c :: nat) \<and> (of_char c :: nat) \<le> 57"
proof (induction n rule: dec.induct)
  case (1 n)
  have "(of_char (char_of (48 + k :: nat)) :: nat) = 48 + k" if "k < 10" for k using that by simp
  then show ?case using 1 by (subst (asm) (2) dec.simps) (auto split: if_splits)
qed

lemma atoi_digits_snoc: "\<forall>c\<in>set s. digit c \<noteq> None \<Longrightarrow> atoi_digits v (s @ t) = atoi_digits (atoi_digits v s) t"
  by (induction s arbitrary: v) auto

lemma atoi_digits_dec: "atoi_digits 0 (dec n) = int n"
proof (induction n rule: dec.induct)
  case (1 n)
  have d: "\<forall>c\<in>set (dec k). digit c \<noteq> None" for k using dec_digits by (auto simp: digit_def Let_def)
  show ?case
  proof (cases "n < 10")
    case False
    have "10 * int (n div 10) + int (n mod 10) = int n" by presburger
    then show ?thesis using 1 False by (subst dec.simps) (simp add: atoi_digits_snoc [OF d] digit_dec)
  qed (subst dec.simps, simp add: digit_dec)
qed

lemma dec_Cons: obtains c t where "dec n = c # t" "48 \<le> (of_char c :: nat)" "(of_char c :: nat) \<le> 57"
proof -
  have "dec n \<noteq> []" by (subst dec.simps) simp
  then obtain c t where "dec n = c # t" by (cases "dec n") auto
  then show thesis using that dec_digits [of c n] by simp
qed

lemma atoi_dec: "n < 2 ^ 31 \<Longrightarrow> atoi (dec n) = int n"
proof -
  assume n: "n < 2 ^ 31"
  obtain c t where c: "dec n = c # t" "48 \<le> (of_char c :: nat)" "(of_char c :: nat) \<le> 57" by (rule dec_Cons)
  have "c \<noteq> CHR '' ''" "c \<noteq> CHR ''-''" "c \<noteq> CHR ''+''" "of_char c \<notin> {9 :: nat..13}" using c(2) by auto
  then have "atoi (dec n) = max (- (2 ^ 31)) (min (2 ^ 31 - 1) (atoi_digits 0 (dec n)))" using c(1) by (auto simp: atoi_def)
  then show ?thesis using n by (simp add: atoi_digits_dec)
qed

section \<open>Properties\<close>

text \<open>
  C26: which strings can be parsed and what they mean. The address is a device number of at most 19 characters without a colon, or has at least two parts between colons,
  of which the first, the IP address, has at most 79 characters and the second is the port; the login is a ticket of at most 199 characters or a user of at most 19 and a
  password of at most 39 characters, which may be missing. Every other string makes the function read a null pointer or write behind an array. Empty parts are skipped:
  with an empty user name the password is taken for the user, and a password ends at its first colon.
\<close>

theorem ParseConnectString_correct:
  "case ParseConnectString a v e of
     Ret e' \<Rightarrow> good_address a \<and> good_login v \<and> e' = parsed a v e
   | UB _ \<Rightarrow> \<not> (good_address a \<and> good_login v)
   | Blocked \<Rightarrow> False"
  by (rule ParseConnectString_spec)

text \<open>
  An IP address, a port, a user and a password without colons that fit their arrays are read back from the strings the application writes them to.
\<close>

theorem ParseConnectString_roundtrip:
  assumes "CHR '':'' \<notin> set ip \<union> set user \<union> set pwd" "ip \<noteq> []" "user \<noteq> []" "pwd \<noteq> []"
    "length ip < 80" "length user < 20" "length pwd < 40" "port < 65536"
  shows "ParseConnectString (ip @ '':'' @ dec port) (user @ '':'' @ pwd) e =
    Ret (e\<lparr>mDeviceID := [], mIP := ip, mPort := of_nat port, mUser := user, mPwd := pwd, mVerify := []\<rparr>)"
proof -
  have "CHR '':'' \<notin> set (dec port)" using dec_digits [of "CHR '':''" port] by auto
  moreover have "dec port \<noteq> []" by (subst dec.simps) simp
  ultimately have t: "tokens (CHR '':'') (ip @ '':'' @ dec port) = [ip, dec port]" "tokens (CHR '':'') (user @ '':'' @ pwd) = [user, pwd]"
    using assms(1-4) by (simp_all add: tokens_append tokens_absent)
  have "good_address (ip @ '':'' @ dec port)" "good_login (user @ '':'' @ pwd)" using assms t by (auto simp: good_address_def good_login_def)
  note r = ParseConnectString_good [OF this]
  show ?thesis unfolding r using assms(8) by (simp add: parsed_def set_address_def set_login_def t [simplified] atoi_dec)
qed

theorem ParseConnectString_roundtrip_witness:
  "ParseConnectString (''10.0.0.9'' @ '':'' @ dec 8000) (''admin'' @ '':'' @ ''secret'') \<lparr>mDeviceID = ''1'', mIP = [], mPort = 0, mUser = [], mPwd = [], mVerify = ''x''\<rparr> =
   Ret \<lparr>mDeviceID = [], mIP = ''10.0.0.9'', mPort = 8000, mUser = ''admin'', mPwd = ''secret'', mVerify = []\<rparr>"
  by (subst ParseConnectString_roundtrip) simp_all

end
