(* ===== verification/Connector.thy ===== *)
theory Connector
  imports ConnectString
begin

text \<open>
  The connectors of \<^verbatim>\<open>gles/Network\<close>: \<open>JAP2PConnector\<close> (the protocol \<open>UDX\<close>) and \<open>JAP2PConnector2\<close> (\<open>KCP\<close>), their base class \<open>JAP2PManager\<close>, the list of all
  connectors, and the two functions of \<open>JAConnect\<close> that share a connector between connections.

  The two P2P libraries are not part of the sources. A call of one of their functions is recorded, and its result is a parameter: any function of the calls made so far.
  Objects are known by their addresses; an address that was given back is not used again. The functions of a connector lock and unlock its mutex once; calls of different
  threads are taken one after the other, so the mutexes are left out, but for the one of the list in \<open>GetP2PConnector\<close>, which unlocks without locking.
\<close>

section \<open>The libraries\<close>

datatype sdk_fun =
    kp2p_create | kp2p_close | kp2p_connect | kp2p_connect2 | kp2p_login | kp2p_open_stream | kp2p_close_stream | kp2p_ptz_ctrl | kp2p_remote_setup
  | kp2p_rec_find_file_start | kp2p_rec_find_file_next | kp2p_rec_find_file_stop
  | kp2p_rec_play_start | kp2p_rec_play_pause | kp2p_rec_play_continue | kp2p_rec_play_stop
  | kp2p_vop2p_call | kp2p_vop2p_send | kp2p_vop2p_hangup
  | ja_p2p_create_p2phandle | ja_p2p_close | ja_p2p_connect2 | ja_p2p_connect3 | ja_p2p_login | ja_p2p_open_channel | ja_p2p_ptz_ctrl
  | ja_p2p_vcon_create | ja_p2p_vcon_send | ja_p2p_vcon_destroy
  | ja_p2p_rec_FindFileTaskStart | ja_p2p_rec_FindFileNext | ja_p2p_rec_FindFileTaskClose
  | ja_p2p_rec_PlaybackStart | ja_p2p_rec_PlaybackPause | ja_p2p_rec_PlaybackContinue | ja_p2p_rec_PlaybackStop
  | ja_p2p_vop2p_call | ja_p2p_vop2p_talk_send | ja_p2p_vop2p_hangup | ja_p2p_pull_alarmmsg

datatype sdk_arg = I int | S string | B "byte list"

type_synonym sdk_call = "sdk_fun \<times> sdk_arg list"

text \<open>The latest call comes first.\<close>

type_synonym sdk_results = "sdk_call list \<Rightarrow> int"

section \<open>Connectors\<close>

definition UDX_P2P :: int where "UDX_P2P = 0"
definition KCP_P2P :: int where "KCP_P2P = 1"
definition NO_RESULT :: int where "NO_RESULT = 305419896"
definition CTX_TYPE_LIVE :: int where "CTX_TYPE_LIVE = 0"
definition CTX_TYPE_PLAYBACk :: int where "CTX_TYPE_PLAYBACk = 1"
definition CTX_TYPE_GLOBAL :: int where "CTX_TYPE_GLOBAL = 3"

text \<open>Who gets the frames: a connection, known by its address, a channel and a type.\<close>

type_synonym p2p_ctx = "nat \<times> int \<times> int"

record connector =
  c_version :: int
  c_handle :: int
  c_devid :: string
  c_ip :: string
  c_port :: "16 word"
  c_use :: int
  c_connectResult :: int
  c_loginResult :: int
  c_doneDisconnect :: bool
  c_ctx :: "p2p_ctx list"
  c_playChannel :: int

record net =
  conn_heap :: "nat \<Rightarrow> connector option"
  g_ListManager :: "nat list"
  next_addr :: nat
  sdk_calls :: "sdk_call list"

definition sdk :: "sdk_results \<Rightarrow> sdk_fun \<Rightarrow> sdk_arg list \<Rightarrow> net \<Rightarrow> int \<times> net" where
  "sdk R f args n = (let cs = (f, args) # sdk_calls n in (R cs, n\<lparr>sdk_calls := cs\<rparr>))"

definition deref :: "nat \<Rightarrow> net \<Rightarrow> connector outcome" where
  "deref p n = (if p = 0 then UB NullDeref else case conn_heap n p of None \<Rightarrow> UB UseAfterFree | Some c \<Rightarrow> Ret c)"

definition set_conn :: "nat \<Rightarrow> connector \<Rightarrow> net \<Rightarrow> net" where
  "set_conn p c n = n\<lparr>conn_heap := (conn_heap n)(p \<mapsto> c)\<rparr>"

text \<open>The constructor of \<open>JAP2PConnector\<close> does not set the handle; \<open>createP2PHandle\<close> is called before it is used. It sets no results of connecting, which only the other class has.\<close>

definition new_connector :: "int \<Rightarrow> net \<Rightarrow> nat \<times> net" where
  "new_connector version n =
     (let p = next_addr n;
          c = \<lparr>c_version = version, c_handle = 0, c_devid = [], c_ip = [], c_port = 0, c_use = 0, c_connectResult = NO_RESULT, c_loginResult = NO_RESULT,
               c_doneDisconnect = False, c_ctx = [], c_playChannel = 0\<rparr> in
      (p, (set_conn p c n)\<lparr>g_ListManager := g_ListManager n @ [p], next_addr := Suc p\<rparr>))"

definition new_JAP2PConnector :: "net \<Rightarrow> nat \<times> net" where
  "new_JAP2PConnector n = new_connector UDX_P2P n"

definition new_JAP2PConnector2 :: "net \<Rightarrow> nat \<times> net" where
  "new_JAP2PConnector2 n = new_connector KCP_P2P n"

definition UpdateUse :: "bool \<Rightarrow> connector \<Rightarrow> connector" where
  "UpdateUse add c = (let u = (if add then c_use c + 1 else c_use c - 1) in c\<lparr>c_use := if u < 0 then 0 else u\<rparr>)"

text \<open>The port of the connector is signed, the one it is compared with is not.\<close>

definition CompareConnectStr :: "string \<Rightarrow> string \<Rightarrow> 16 word \<Rightarrow> connector \<Rightarrow> bool" where
  "CompareConnectStr devid ipaddr port c =
     (if c_devid c = [] \<and> c_ip c = [] then False
      else if c_devid c = [] then strcasecmp_eq ipaddr (c_ip c) \<and> sint (c_port c) = uint port
      else strcasecmp_eq devid (c_devid c))"

definition UpdateProperty :: "string \<Rightarrow> string \<Rightarrow> 16 word \<Rightarrow> connector \<Rightarrow> connector" where
  "UpdateProperty devid ipaddr port c =
     (let c = c\<lparr>c_devid := strncpy 20 devid, c_ip := strncpy 80 ipaddr\<rparr> in if port \<noteq> 0 then c\<lparr>c_port := port\<rparr> else c)"

section \<open>Who gets the frames\<close>

fun GetCtx :: "int \<Rightarrow> int \<Rightarrow> p2p_ctx list \<Rightarrow> nat" where
  "GetCtx ch ty [] = 0"
| "GetCtx ch ty ((x, i, t) # cs) = (if i = ch \<and> t = ty then x else GetCtx ch ty cs)"

definition AddCtx :: "nat \<Rightarrow> int \<Rightarrow> int \<Rightarrow> p2p_ctx list \<Rightarrow> p2p_ctx list" where
  "AddCtx x ch ty cs = (if GetCtx ch ty cs = x then cs else cs @ [(x, ch, ty)])"

fun DelCtx :: "int \<Rightarrow> int \<Rightarrow> p2p_ctx list \<Rightarrow> p2p_ctx list" where
  "DelCtx ch ty [] = []"
| "DelCtx ch ty ((x, i, t) # cs) = (if i = ch \<and> t = ty then cs else (x, i, t) # DelCtx ch ty cs)"

text \<open>The first channel other than \<open>ch\<close> that the connection \<open>x\<close> watches, and the list without it.\<close>

fun other_channel :: "nat \<Rightarrow> int \<Rightarrow> p2p_ctx list \<Rightarrow> (int \<times> p2p_ctx list) option" where
  "other_channel x ch [] = None"
| "other_channel x ch ((y, i, t) # cs) =
     (if y = x \<and> t = CTX_TYPE_LIVE \<and> i \<noteq> ch then Some (i, cs) else map_option (\<lambda>(j, ds). (j, (y, i, t) # ds)) (other_channel x ch cs))"

section \<open>Operations of a connector\<close>

text \<open>The class of a connector is its version. A virtual call reads it.\<close>

definition virtual :: "(connector \<Rightarrow> net \<Rightarrow> 'a outcome) \<Rightarrow> (connector \<Rightarrow> net \<Rightarrow> 'a outcome) \<Rightarrow> nat \<Rightarrow> net \<Rightarrow> 'a outcome" where
  "virtual f g p n = bnd (deref p n) (\<lambda>c. if c_version c = UDX_P2P then f c n else g c n)"

definition JAP2PConnector_createP2PHandle :: "sdk_results \<Rightarrow> nat \<Rightarrow> nat \<Rightarrow> connector \<Rightarrow> net \<Rightarrow> (int \<times> net) outcome" where
  "JAP2PConnector_createP2PHandle R x p c n =
     (let (h, n) = sdk R ja_p2p_create_p2phandle [] n in Ret (h, set_conn p (c\<lparr>c_handle := h\<rparr>) n))"

definition JAP2PConnector2_createP2PHandle :: "sdk_results \<Rightarrow> nat \<Rightarrow> nat \<Rightarrow> connector \<Rightarrow> net \<Rightarrow> (int \<times> net) outcome" where
  "JAP2PConnector2_createP2PHandle R x p c n =
     (if c_handle c \<noteq> 0 \<and> \<not> c_doneDisconnect c then Ret (c_handle c, n)
      else
        let (c, n) = (if c_doneDisconnect c \<and> c_handle c \<noteq> 0 then (c\<lparr>c_doneDisconnect := False\<rparr>, snd (sdk R kp2p_close [I (c_handle c)] n)) else (c, n));
            (h, n) = sdk R kp2p_create [I (int p)] n in
        Ret (h, set_conn p (c\<lparr>c_ctx := AddCtx x 0 CTX_TYPE_GLOBAL (c_ctx c), c_handle := h\<rparr>) n))"

definition createP2PHandle :: "sdk_results \<Rightarrow> nat \<Rightarrow> nat \<Rightarrow> net \<Rightarrow> (int \<times> net) outcome" where
  "createP2PHandle R x p n = virtual (JAP2PConnector_createP2PHandle R x p) (JAP2PConnector2_createP2PHandle R x p) p n"

definition remember :: "string \<Rightarrow> string \<Rightarrow> 16 word \<Rightarrow> connector \<Rightarrow> connector" where
  "remember devid ipaddr port c =
     (let c = c\<lparr>c_devid := strncpy 20 devid, c_ip := strncpy 80 ipaddr\<rparr> in if port \<noteq> 0 then c\<lparr>c_port := port\<rparr> else c)"

text \<open>In the older class the test of the length before the copy lets a string of 80 characters pass, which needs 81.\<close>

definition JAP2PConnector_connect2 :: "sdk_results \<Rightarrow> string \<Rightarrow> string \<Rightarrow> 16 word \<Rightarrow> string \<Rightarrow> nat \<Rightarrow> connector \<Rightarrow> net \<Rightarrow> (int \<times> net) outcome" where
  "JAP2PConnector_connect2 R devid ipaddr port verify_str p c n =
     (if c_handle c = 0 then Ret (-1, n)
      else
        bnd (strcpy 20 devid) (\<lambda>d.
        bnd (if length ipaddr \<le> 80 then strcpy 80 ipaddr else Ret (c_ip c)) (\<lambda>a.
        let c = c\<lparr>c_devid := d, c_ip := a, c_port := if port \<noteq> 0 then port else c_port c\<rparr> in
        Ret (sdk R ja_p2p_connect2 [I (c_handle c), S devid, S ipaddr, I (uint port), S verify_str] (set_conn p c n)))))"

definition JAP2PConnector2_connect2 :: "sdk_results \<Rightarrow> string \<Rightarrow> string \<Rightarrow> 16 word \<Rightarrow> string \<Rightarrow> nat \<Rightarrow> connector \<Rightarrow> net \<Rightarrow> (int \<times> net) outcome" where
  "JAP2PConnector2_connect2 R devid ipaddr port verify_str p c n =
     (if c_handle c = 0 then Ret (-1, n)
      else if c_connectResult c \<noteq> NO_RESULT then Ret (c_connectResult c, n)
      else
        let (r, n) = sdk R kp2p_connect2 [I (c_handle c), S devid, S ipaddr, I (uint port), S verify_str] n in
        Ret (r, set_conn p ((remember devid ipaddr port c)\<lparr>c_connectResult := r\<rparr>) n))"

definition connect2 :: "sdk_results \<Rightarrow> string \<Rightarrow> string \<Rightarrow> 16 word \<Rightarrow> string \<Rightarrow> nat \<Rightarrow> net \<Rightarrow> (int \<times> net) outcome" where
  "connect2 R devid ipaddr port verify_str p n = virtual (JAP2PConnector_connect2 R devid ipaddr port verify_str p) (JAP2PConnector2_connect2 R devid ipaddr port verify_str p) p n"

definition JAP2PConnector_connect3 :: "sdk_results \<Rightarrow> string \<Rightarrow> string \<Rightarrow> 16 word \<Rightarrow> nat \<Rightarrow> connector \<Rightarrow> net \<Rightarrow> (int \<times> net) outcome" where
  "JAP2PConnector_connect3 R devid ipaddr port p c n =
     (if c_handle c = 0 then Ret (-1, n)
      else
        bnd (strcpy 20 devid) (\<lambda>d.
        bnd (strcpy 80 ipaddr) (\<lambda>a.
        let c = c\<lparr>c_devid := d, c_ip := a, c_port := if port \<noteq> 0 then port else c_port c\<rparr> in
        Ret (sdk R ja_p2p_connect3 [I (c_handle c), S devid, S ipaddr, I (uint port)] (set_conn p c n)))))"

definition JAP2PConnector2_connect3 :: "sdk_results \<Rightarrow> string \<Rightarrow> string \<Rightarrow> 16 word \<Rightarrow> nat \<Rightarrow> connector \<Rightarrow> net \<Rightarrow> (int \<times> net) outcome" where
  "JAP2PConnector2_connect3 R devid ipaddr port p c n =
     (if c_handle c = 0 then Ret (-1, n)
      else if c_connectResult c \<noteq> NO_RESULT then Ret (c_connectResult c, n)
      else
        let (r, n) = sdk R kp2p_connect [I (c_handle c), S devid, S ipaddr, I (uint port)] n in
        Ret (r, set_conn p ((remember devid ipaddr port c)\<lparr>c_connectResult := r\<rparr>) n))"

definition connect3 :: "sdk_results \<Rightarrow> string \<Rightarrow> string \<Rightarrow> 16 word \<Rightarrow> nat \<Rightarrow> net \<Rightarrow> (int \<times> net) outcome" where
  "connect3 R devid ipaddr port p n = virtual (JAP2PConnector_connect3 R devid ipaddr port p) (JAP2PConnector2_connect3 R devid ipaddr port p) p n"

text \<open>Called when the library reports that the connection has ended. The result are the connections whose \<open>OnDisconnect\<close> it calls.\<close>

definition ResetConnection :: "nat \<Rightarrow> net \<Rightarrow> (nat list \<times> net) outcome" where
  "ResetConnection p n =
     bnd (deref p n) (\<lambda>c.
     Ret (map fst (filter (\<lambda>(_, _, ty). ty \<noteq> CTX_TYPE_GLOBAL) (c_ctx c)),
          set_conn p (c\<lparr>c_connectResult := NO_RESULT, c_loginResult := NO_RESULT, c_doneDisconnect := True\<rparr>) n))"

definition JAP2PConnector_closeP2P :: "sdk_results \<Rightarrow> nat \<Rightarrow> connector \<Rightarrow> net \<Rightarrow> (net) outcome" where
  "JAP2PConnector_closeP2P R p c n =
     (if c_handle c = 0 then Ret n else Ret (snd (sdk R ja_p2p_close [I (c_handle c)] n)))"

definition JAP2PConnector2_closeP2P :: "sdk_results \<Rightarrow> nat \<Rightarrow> connector \<Rightarrow> net \<Rightarrow> (net) outcome" where
  "JAP2PConnector2_closeP2P R p c n =
     (if c_handle c = 0 then Ret n
      else
        let n = snd (sdk R kp2p_close [I (c_handle c)] n) in
        Ret (set_conn p (c\<lparr>c_handle := 0, c_connectResult := NO_RESULT, c_loginResult := NO_RESULT, c_ctx := []\<rparr>) n))"

definition closeP2P :: "sdk_results \<Rightarrow> nat \<Rightarrow> net \<Rightarrow> (net) outcome" where
  "closeP2P R p n = virtual (JAP2PConnector_closeP2P R p) (JAP2PConnector2_closeP2P R p) p n"

definition JAP2PConnector_loginP2P :: "sdk_results \<Rightarrow> string \<Rightarrow> string \<Rightarrow> nat \<Rightarrow> connector \<Rightarrow> net \<Rightarrow> (int \<times> net) outcome" where
  "JAP2PConnector_loginP2P R user pwd p c n =
     (if c_handle c = 0 then Ret (-1, n) else Ret (sdk R ja_p2p_login [I (c_handle c), S user, S pwd] n))"

definition JAP2PConnector2_loginP2P :: "sdk_results \<Rightarrow> string \<Rightarrow> string \<Rightarrow> nat \<Rightarrow> connector \<Rightarrow> net \<Rightarrow> (int \<times> net) outcome" where
  "JAP2PConnector2_loginP2P R user pwd p c n =
     (if c_handle c = 0 then Ret (100, n)
      else if c_loginResult c \<noteq> NO_RESULT then Ret (c_loginResult c, n)
      else let (r, n) = sdk R kp2p_login [I (c_handle c), S user, S pwd] n in Ret (r, set_conn p (c\<lparr>c_loginResult := r\<rparr>) n))"

definition loginP2P :: "sdk_results \<Rightarrow> string \<Rightarrow> string \<Rightarrow> nat \<Rightarrow> net \<Rightarrow> (int \<times> net) outcome" where
  "loginP2P R user pwd p n = virtual (JAP2PConnector_loginP2P R user pwd p) (JAP2PConnector2_loginP2P R user pwd p) p n"

definition JAP2PConnector_openChannel :: "sdk_results \<Rightarrow> int \<Rightarrow> int \<Rightarrow> bool \<Rightarrow> nat \<Rightarrow> nat \<Rightarrow> connector \<Rightarrow> net \<Rightarrow> (int \<times> net) outcome" where
  "JAP2PConnector_openChannel R ch strm bOpen x p c n =
     (if c_handle c = 0 then Ret (-1, n) else Ret (sdk R ja_p2p_open_channel [I (c_handle c), I ch, I strm, I (if bOpen then 1 else 0)] n))"

definition JAP2PConnector2_openChannel :: "sdk_results \<Rightarrow> int \<Rightarrow> int \<Rightarrow> bool \<Rightarrow> nat \<Rightarrow> nat \<Rightarrow> connector \<Rightarrow> net \<Rightarrow> (int \<times> net) outcome" where
  "JAP2PConnector2_openChannel R ch strm bOpen x p c n =
     (let h = c_handle c in
      if h = 0 then Ret (-1, n)
      else if bOpen then
        let (cs, n) = (case other_channel x ch (c_ctx c) of
                         None \<Rightarrow> (c_ctx c, n)
                       | Some (i, cs) \<Rightarrow> (cs, snd (sdk R kp2p_close_stream [I h, I i, I 0] (snd (sdk R kp2p_close_stream [I h, I i, I 1] n))))) in
        Ret (sdk R kp2p_open_stream [I h, I ch, I strm] (set_conn p (c\<lparr>c_ctx := AddCtx x ch CTX_TYPE_LIVE cs\<rparr>) n))
      else Ret (sdk R kp2p_close_stream [I h, I ch, I strm] (set_conn p (c\<lparr>c_ctx := DelCtx ch CTX_TYPE_LIVE (c_ctx c)\<rparr>) n)))"

definition openChannel :: "sdk_results \<Rightarrow> int \<Rightarrow> int \<Rightarrow> bool \<Rightarrow> nat \<Rightarrow> nat \<Rightarrow> net \<Rightarrow> (int \<times> net) outcome" where
  "openChannel R ch strm bOpen x p n = virtual (JAP2PConnector_openChannel R ch strm bOpen x p) (JAP2PConnector2_openChannel R ch strm bOpen x p) p n"

text \<open>The commands of the camera and their numbers in the newer library: up, down, left, right, automatic, iris, zoom, focus, stop, auxiliary and three for presets.\<close>

definition JA_PTZ_CMD_STOP :: int where "JA_PTZ_CMD_STOP = 15"

definition ptzexch :: "(int \<times> int) list" where
  "ptzexch = [(0, 2), (1, 3), (2, 4), (3, 5), (8, 1), (9, 6), (10, 7), (11, 8), (12, 9), (13, 10), (14, 11), (15, 0), (26, 12), (28, 13), (29, 15), (30, 14)]"

definition getnewptzcmd :: "int \<Rightarrow> int" where
  "getnewptzcmd cmd = (case map_of ptzexch cmd of Some a \<Rightarrow> a | None \<Rightarrow> 0)"

definition JAP2PConnector_ptzCtrl :: "sdk_results \<Rightarrow> int \<Rightarrow> int \<Rightarrow> int \<Rightarrow> int \<Rightarrow> int \<Rightarrow> nat \<Rightarrow> connector \<Rightarrow> net \<Rightarrow> (int \<times> net) outcome" where
  "JAP2PConnector_ptzCtrl R ch act bStart param1 param2 p c n =
     (if c_handle c = 0 then Ret (-1, n)
      else
        let act = (if bStart = 0 then JA_PTZ_CMD_STOP else act); bStart = (if act = JA_PTZ_CMD_STOP then 0 else bStart) in
        Ret (sdk R ja_p2p_ptz_ctrl [I (c_handle c), I ch, I act, I bStart, I param1, I param2] n))"

definition JAP2PConnector2_ptzCtrl :: "sdk_results \<Rightarrow> int \<Rightarrow> int \<Rightarrow> int \<Rightarrow> int \<Rightarrow> int \<Rightarrow> nat \<Rightarrow> connector \<Rightarrow> net \<Rightarrow> (int \<times> net) outcome" where
  "JAP2PConnector2_ptzCtrl R ch act bStart param1 param2 p c n =
     (if c_handle c = 0 then Ret (-1, n) else Ret (sdk R kp2p_ptz_ctrl [I (c_handle c), I ch, I (getnewptzcmd act), I param1, I param2] n))"

definition ptzCtrl :: "sdk_results \<Rightarrow> int \<Rightarrow> int \<Rightarrow> int \<Rightarrow> int \<Rightarrow> int \<Rightarrow> nat \<Rightarrow> net \<Rightarrow> (int \<times> net) outcome" where
  "ptzCtrl R ch act bStart param1 param2 p n = virtual (JAP2PConnector_ptzCtrl R ch act bStart param1 param2 p) (JAP2PConnector2_ptzCtrl R ch act bStart param1 param2 p) p n"

definition JAP2PConnector_vconCreate :: "sdk_results \<Rightarrow> string \<Rightarrow> nat \<Rightarrow> connector \<Rightarrow> net \<Rightarrow> (int \<times> net) outcome" where
  "JAP2PConnector_vconCreate R appName p c n =
     (if c_handle c = 0 then Ret (-1, n) else Ret (sdk R ja_p2p_vcon_create [I (c_handle c), S appName] n))"

definition JAP2PConnector2_vconCreate :: "sdk_results \<Rightarrow> string \<Rightarrow> nat \<Rightarrow> connector \<Rightarrow> net \<Rightarrow> (int \<times> net) outcome" where
  "JAP2PConnector2_vconCreate R appName p c n =
     Ret (0, n)"

definition vconCreate :: "sdk_results \<Rightarrow> string \<Rightarrow> nat \<Rightarrow> net \<Rightarrow> (int \<times> net) outcome" where
  "vconCreate R appName p n = virtual (JAP2PConnector_vconCreate R appName p) (JAP2PConnector2_vconCreate R appName p) p n"

definition JAP2PConnector_vconSend :: "sdk_results \<Rightarrow> int \<Rightarrow> byte list \<Rightarrow> nat \<Rightarrow> connector \<Rightarrow> net \<Rightarrow> (int \<times> net) outcome" where
  "JAP2PConnector_vconSend R vh buf p c n =
     (if vh = 0 then Ret (-2, n) else Ret (sdk R ja_p2p_vcon_send [I vh, I (int (length buf)), B buf] n))"

definition JAP2PConnector2_vconSend :: "sdk_results \<Rightarrow> int \<Rightarrow> byte list \<Rightarrow> nat \<Rightarrow> connector \<Rightarrow> net \<Rightarrow> (int \<times> net) outcome" where
  "JAP2PConnector2_vconSend R vh buf p c n =
     (if c_handle c = 0 then Ret (-1, n) else Ret (sdk R kp2p_remote_setup [I (c_handle c), B buf, I (int (length buf))] n))"

definition vconSend :: "sdk_results \<Rightarrow> int \<Rightarrow> byte list \<Rightarrow> nat \<Rightarrow> net \<Rightarrow> (int \<times> net) outcome" where
  "vconSend R vh buf p n = virtual (JAP2PConnector_vconSend R vh buf p) (JAP2PConnector2_vconSend R vh buf p) p n"

definition JAP2PConnector_vconDestroy :: "sdk_results \<Rightarrow> int \<Rightarrow> nat \<Rightarrow> connector \<Rightarrow> net \<Rightarrow> (int \<times> net) outcome" where
  "JAP2PConnector_vconDestroy R vh p c n =
     (if vh = 0 then Ret (-2, n) else Ret (sdk R ja_p2p_vcon_destroy [I vh] n))"

definition JAP2PConnector2_vconDestroy :: "sdk_results \<Rightarrow> int \<Rightarrow> nat \<Rightarrow> connector \<Rightarrow> net \<Rightarrow> (int \<times> net) outcome" where
  "JAP2PConnector2_vconDestroy R vh p c n =
     Ret (0, n)"

definition vconDestroy :: "sdk_results \<Rightarrow> int \<Rightarrow> nat \<Rightarrow> net \<Rightarrow> (int \<times> net) outcome" where
  "vconDestroy R vh p n = virtual (JAP2PConnector_vconDestroy R vh p) (JAP2PConnector2_vconDestroy R vh p) p n"

text \<open>Searching the recordings. What the search finds next is a parameter: \<open>None\<close> for a null pointer. The records are copied to an array of 200.\<close>

record rec_file =
  rf_channel :: int
  rf_type :: int
  rf_begin :: int
  rf_end :: int
  rf_quality :: int

definition JAP2PConnector_findFileTaskStart :: "sdk_results \<Rightarrow> int \<Rightarrow> int \<Rightarrow> int \<Rightarrow> int \<Rightarrow> nat \<Rightarrow> connector \<Rightarrow> net \<Rightarrow> (int \<times> net) outcome" where
  "JAP2PConnector_findFileTaskStart R chn starttime endtime ty p c n =
     (if c_handle c = 0 then Ret (-1, n) else Ret (sdk R ja_p2p_rec_FindFileTaskStart [I (c_handle c), I chn, I 1, I starttime, I endtime, I ty] n))"

definition JAP2PConnector2_findFileTaskStart :: "sdk_results \<Rightarrow> int \<Rightarrow> int \<Rightarrow> int \<Rightarrow> int \<Rightarrow> nat \<Rightarrow> connector \<Rightarrow> net \<Rightarrow> (int \<times> net) outcome" where
  "JAP2PConnector2_findFileTaskStart R chn starttime endtime ty p c n =
     (if c_handle c = 0 then Ret (-1, n) else Ret (sdk R kp2p_rec_find_file_start [I (c_handle c), I 1, I chn, I starttime, I endtime, I ty] n))"

definition findFileTaskStart :: "sdk_results \<Rightarrow> int \<Rightarrow> int \<Rightarrow> int \<Rightarrow> int \<Rightarrow> nat \<Rightarrow> net \<Rightarrow> (int \<times> net) outcome" where
  "findFileTaskStart R chn starttime endtime ty p n = virtual (JAP2PConnector_findFileTaskStart R chn starttime endtime ty p) (JAP2PConnector2_findFileTaskStart R chn starttime endtime ty p) p n"

definition JAP2PConnector_findFileNext :: "sdk_results \<Rightarrow> int \<Rightarrow> rec_file list option \<Rightarrow> nat \<Rightarrow> connector \<Rightarrow> net \<Rightarrow> (rec_file list option \<times> net) outcome" where
  "JAP2PConnector_findFileNext R sh found p c n =
     (if sh = 0 then Ret (None, n)
      else
        let n = snd (sdk R ja_p2p_rec_FindFileNext [I sh] n) in
        case found of
          None \<Rightarrow> UB NullDeref
        | Some rs \<Rightarrow> if 200 < length rs then UB HeapOverflow else Ret (Some (map (\<lambda>r. r\<lparr>rf_quality := 0\<rparr>) rs), n))"

definition JAP2PConnector2_findFileNext :: "sdk_results \<Rightarrow> int \<Rightarrow> rec_file list option \<Rightarrow> nat \<Rightarrow> connector \<Rightarrow> net \<Rightarrow> (rec_file list option \<times> net) outcome" where
  "JAP2PConnector2_findFileNext R sh found p c n =
     (if sh = 0 then Ret (None, n)
      else
        let n = snd (sdk R kp2p_rec_find_file_next [I sh] n) in
        case found of
          None \<Rightarrow> Ret (None, n)
        | Some rs \<Rightarrow> if 200 < length rs then UB HeapOverflow else Ret (Some rs, n))"

definition findFileNext :: "sdk_results \<Rightarrow> int \<Rightarrow> rec_file list option \<Rightarrow> nat \<Rightarrow> net \<Rightarrow> (rec_file list option \<times> net) outcome" where
  "findFileNext R sh found p n = virtual (JAP2PConnector_findFileNext R sh found p) (JAP2PConnector2_findFileNext R sh found p) p n"

definition JAP2PConnector_findFileTaskClose :: "sdk_results \<Rightarrow> int \<Rightarrow> nat \<Rightarrow> connector \<Rightarrow> net \<Rightarrow> (int \<times> net) outcome" where
  "JAP2PConnector_findFileTaskClose R sh p c n =
     (if sh = 0 then Ret (-2, n) else Ret (sdk R ja_p2p_rec_FindFileTaskClose [I sh] n))"

definition JAP2PConnector2_findFileTaskClose :: "sdk_results \<Rightarrow> int \<Rightarrow> nat \<Rightarrow> connector \<Rightarrow> net \<Rightarrow> (int \<times> net) outcome" where
  "JAP2PConnector2_findFileTaskClose R sh p c n =
     (if sh = 0 then Ret (-2, n) else Ret (sdk R kp2p_rec_find_file_stop [I sh] n))"

definition findFileTaskClose :: "sdk_results \<Rightarrow> int \<Rightarrow> nat \<Rightarrow> net \<Rightarrow> (int \<times> net) outcome" where
  "findFileTaskClose R sh p n = virtual (JAP2PConnector_findFileTaskClose R sh p) (JAP2PConnector2_findFileTaskClose R sh p) p n"

text \<open>Playing a recording.\<close>

definition JAP2PConnector_playBackStart :: "sdk_results \<Rightarrow> int \<Rightarrow> int \<Rightarrow> int \<Rightarrow> int \<Rightarrow> nat \<Rightarrow> nat \<Rightarrow> connector \<Rightarrow> net \<Rightarrow> (int \<times> net) outcome" where
  "JAP2PConnector_playBackStart R chn starttime endtime ty x p c n =
     (if c_handle c = 0 then Ret (-1, n) else Ret (sdk R ja_p2p_rec_PlaybackStart [I (c_handle c), I chn, I 1, I starttime, I endtime, I ty] n))"

definition JAP2PConnector2_playBackStart :: "sdk_results \<Rightarrow> int \<Rightarrow> int \<Rightarrow> int \<Rightarrow> int \<Rightarrow> nat \<Rightarrow> nat \<Rightarrow> connector \<Rightarrow> net \<Rightarrow> (int \<times> net) outcome" where
  "JAP2PConnector2_playBackStart R chn starttime endtime ty x p c n =
     (if c_handle c = 0 then Ret (-1, n)
      else Ret (sdk R kp2p_rec_play_start [I (c_handle c), I 1, I chn, I starttime, I endtime, I ty]
        (set_conn p (c\<lparr>c_playChannel := chn, c_ctx := AddCtx x chn CTX_TYPE_PLAYBACk (c_ctx c)\<rparr>) n)))"

definition playBackStart :: "sdk_results \<Rightarrow> int \<Rightarrow> int \<Rightarrow> int \<Rightarrow> int \<Rightarrow> nat \<Rightarrow> nat \<Rightarrow> net \<Rightarrow> (int \<times> net) outcome" where
  "playBackStart R chn starttime endtime ty x p n = virtual (JAP2PConnector_playBackStart R chn starttime endtime ty x p) (JAP2PConnector2_playBackStart R chn starttime endtime ty x p) p n"

definition JAP2PConnector_playBackPause :: "sdk_results \<Rightarrow> int \<Rightarrow> nat \<Rightarrow> connector \<Rightarrow> net \<Rightarrow> (int \<times> net) outcome" where
  "JAP2PConnector_playBackPause R ph p c n =
     (if ph = 0 then Ret (-2, n) else Ret (sdk R ja_p2p_rec_PlaybackPause [I ph] n))"

definition JAP2PConnector2_playBackPause :: "sdk_results \<Rightarrow> int \<Rightarrow> nat \<Rightarrow> connector \<Rightarrow> net \<Rightarrow> (int \<times> net) outcome" where
  "JAP2PConnector2_playBackPause R ph p c n =
     (if ph = 0 then Ret (-2, n) else Ret (sdk R kp2p_rec_play_pause [I ph] n))"

definition playBackPause :: "sdk_results \<Rightarrow> int \<Rightarrow> nat \<Rightarrow> net \<Rightarrow> (int \<times> net) outcome" where
  "playBackPause R ph p n = virtual (JAP2PConnector_playBackPause R ph p) (JAP2PConnector2_playBackPause R ph p) p n"

definition JAP2PConnector_playBackContinue :: "sdk_results \<Rightarrow> int \<Rightarrow> nat \<Rightarrow> connector \<Rightarrow> net \<Rightarrow> (int \<times> net) outcome" where
  "JAP2PConnector_playBackContinue R ph p c n =
     (if ph = 0 then Ret (-2, n) else Ret (sdk R ja_p2p_rec_PlaybackContinue [I ph] n))"

definition JAP2PConnector2_playBackContinue :: "sdk_results \<Rightarrow> int \<Rightarrow> nat \<Rightarrow> connector \<Rightarrow> net \<Rightarrow> (int \<times> net) outcome" where
  "JAP2PConnector2_playBackContinue R ph p c n =
     (if ph = 0 then Ret (-2, n) else Ret (sdk R kp2p_rec_play_continue [I ph] n))"

definition playBackContinue :: "sdk_results \<Rightarrow> int \<Rightarrow> nat \<Rightarrow> net \<Rightarrow> (int \<times> net) outcome" where
  "playBackContinue R ph p n = virtual (JAP2PConnector_playBackContinue R ph p) (JAP2PConnector2_playBackContinue R ph p) p n"

definition JAP2PConnector_playBackStop :: "sdk_results \<Rightarrow> int \<Rightarrow> nat \<Rightarrow> connector \<Rightarrow> net \<Rightarrow> (int \<times> net) outcome" where
  "JAP2PConnector_playBackStop R ph p c n =
     (if ph = 0 then Ret (-2, n) else Ret (sdk R ja_p2p_rec_PlaybackStop [I ph] n))"

definition JAP2PConnector2_playBackStop :: "sdk_results \<Rightarrow> int \<Rightarrow> nat \<Rightarrow> connector \<Rightarrow> net \<Rightarrow> (int \<times> net) outcome" where
  "JAP2PConnector2_playBackStop R ph p c n =
     (if ph = 0 then Ret (-2, n)
      else Ret (sdk R kp2p_rec_play_stop [I ph] (set_conn p (c\<lparr>c_ctx := DelCtx (c_playChannel c) CTX_TYPE_PLAYBACk (c_ctx c)\<rparr>) n)))"

definition playBackStop :: "sdk_results \<Rightarrow> int \<Rightarrow> nat \<Rightarrow> net \<Rightarrow> (int \<times> net) outcome" where
  "playBackStop R ph p n = virtual (JAP2PConnector_playBackStop R ph p) (JAP2PConnector2_playBackStop R ph p) p n"

text \<open>Speaking to the camera and fetching alarms.\<close>

definition JAP2PConnector_call :: "sdk_results \<Rightarrow> int \<Rightarrow> nat \<Rightarrow> connector \<Rightarrow> net \<Rightarrow> (int \<times> net) outcome" where
  "JAP2PConnector_call R chn p c n =
     (if c_handle c = 0 then Ret (-1, n) else Ret (sdk R ja_p2p_vop2p_call [I (c_handle c), I chn] n))"

definition JAP2PConnector2_call :: "sdk_results \<Rightarrow> int \<Rightarrow> nat \<Rightarrow> connector \<Rightarrow> net \<Rightarrow> (int \<times> net) outcome" where
  "JAP2PConnector2_call R chn p c n =
     (if c_handle c = 0 then Ret (-1, n) else Ret (sdk R kp2p_vop2p_call [I (c_handle c), I chn] n))"

definition p2p_call :: "sdk_results \<Rightarrow> int \<Rightarrow> nat \<Rightarrow> net \<Rightarrow> (int \<times> net) outcome" where
  "p2p_call R chn p n = virtual (JAP2PConnector_call R chn p) (JAP2PConnector2_call R chn p) p n"

definition JAP2PConnector_hangup :: "sdk_results \<Rightarrow> nat \<Rightarrow> connector \<Rightarrow> net \<Rightarrow> (int \<times> net) outcome" where
  "JAP2PConnector_hangup R p c n =
     (if c_handle c = 0 then Ret (-1, n) else Ret (sdk R ja_p2p_vop2p_hangup [I (c_handle c)] n))"

definition JAP2PConnector2_hangup :: "sdk_results \<Rightarrow> nat \<Rightarrow> connector \<Rightarrow> net \<Rightarrow> (int \<times> net) outcome" where
  "JAP2PConnector2_hangup R p c n =
     (if c_handle c = 0 then Ret (-1, n) else Ret (sdk R kp2p_vop2p_hangup [I (c_handle c)] n))"

definition p2p_hangup :: "sdk_results \<Rightarrow> nat \<Rightarrow> net \<Rightarrow> (int \<times> net) outcome" where
  "p2p_hangup R p n = virtual (JAP2PConnector_hangup R p) (JAP2PConnector2_hangup R p) p n"

record audio_packet =
  ap_data :: "byte list"
  ap_time :: int
  ap_enc :: string
  ap_rate :: int
  ap_width :: int
  ap_channels :: int
  ap_ratio :: u32

definition JAP2PConnector_talkSend :: "sdk_results \<Rightarrow> audio_packet \<Rightarrow> nat \<Rightarrow> connector \<Rightarrow> net \<Rightarrow> (int \<times> net) outcome" where
  "JAP2PConnector_talkSend R a p c n =
     (if c_handle c = 0 then Ret (-1, n)
      else Ret (sdk R ja_p2p_vop2p_talk_send [I (c_handle c), B (ap_data a), I (int (length (ap_data a))), I (ap_time a), S (ap_enc a), I (ap_rate a), I (ap_width a), I (ap_channels a), I (uint (ap_ratio a))] n))"

definition JAP2PConnector2_talkSend :: "sdk_results \<Rightarrow> audio_packet \<Rightarrow> nat \<Rightarrow> connector \<Rightarrow> net \<Rightarrow> (int \<times> net) outcome" where
  "JAP2PConnector2_talkSend R a p c n =
     (if c_handle c = 0 then Ret (-1, n)
      else Ret (sdk R kp2p_vop2p_send [I (c_handle c), B (ap_data a), I (int (length (ap_data a))), I (ap_time a), S (ap_enc a), I (ap_rate a), I (ap_width a), I (ap_channels a), I (uint (ap_ratio a))] n))"

definition talkSend :: "sdk_results \<Rightarrow> audio_packet \<Rightarrow> nat \<Rightarrow> net \<Rightarrow> (int \<times> net) outcome" where
  "talkSend R a p n = virtual (JAP2PConnector_talkSend R a p) (JAP2PConnector2_talkSend R a p) p n"

definition JAP2PConnector_pullAlarm :: "sdk_results \<Rightarrow> int \<Rightarrow> int \<Rightarrow> int \<Rightarrow> nat \<Rightarrow> connector \<Rightarrow> net \<Rightarrow> (int \<times> net) outcome" where
  "JAP2PConnector_pullAlarm R ty ch ticket p c n =
     (if c_handle c = 0 then Ret (-1, n) else Ret (sdk R ja_p2p_pull_alarmmsg [I (c_handle c), I ty, I ch, I ticket] n))"

definition JAP2PConnector2_pullAlarm :: "sdk_results \<Rightarrow> int \<Rightarrow> int \<Rightarrow> int \<Rightarrow> nat \<Rightarrow> connector \<Rightarrow> net \<Rightarrow> (int \<times> net) outcome" where
  "JAP2PConnector2_pullAlarm R ty ch ticket p c n =
     Ret (-1, n)"

definition pullAlarm :: "sdk_results \<Rightarrow> int \<Rightarrow> int \<Rightarrow> int \<Rightarrow> nat \<Rightarrow> net \<Rightarrow> (int \<times> net) outcome" where
  "pullAlarm R ty ch ticket p n = virtual (JAP2PConnector_pullAlarm R ty ch ticket p) (JAP2PConnector2_pullAlarm R ty ch ticket p) p n"

lemmas virtual_defs =
  virtual_def JAP2PConnector_createP2PHandle_def JAP2PConnector2_createP2PHandle_def JAP2PConnector_connect2_def JAP2PConnector2_connect2_def
  JAP2PConnector_connect3_def JAP2PConnector2_connect3_def JAP2PConnector_closeP2P_def JAP2PConnector2_closeP2P_def JAP2PConnector_loginP2P_def
  JAP2PConnector2_loginP2P_def JAP2PConnector_openChannel_def JAP2PConnector2_openChannel_def JAP2PConnector_ptzCtrl_def JAP2PConnector2_ptzCtrl_def
  JAP2PConnector_vconCreate_def JAP2PConnector2_vconCreate_def JAP2PConnector_vconSend_def JAP2PConnector2_vconSend_def JAP2PConnector_vconDestroy_def
  JAP2PConnector2_vconDestroy_def JAP2PConnector_findFileTaskStart_def JAP2PConnector2_findFileTaskStart_def JAP2PConnector_findFileNext_def
  JAP2PConnector2_findFileNext_def JAP2PConnector_findFileTaskClose_def JAP2PConnector2_findFileTaskClose_def JAP2PConnector_playBackStart_def
  JAP2PConnector2_playBackStart_def JAP2PConnector_playBackPause_def JAP2PConnector2_playBackPause_def JAP2PConnector_playBackContinue_def
  JAP2PConnector2_playBackContinue_def JAP2PConnector_playBackStop_def JAP2PConnector2_playBackStop_def JAP2PConnector_call_def
  JAP2PConnector2_call_def JAP2PConnector_hangup_def JAP2PConnector2_hangup_def JAP2PConnector_talkSend_def JAP2PConnector2_talkSend_def
  JAP2PConnector_pullAlarm_def JAP2PConnector2_pullAlarm_def

section \<open>Sharing connectors\<close>

text \<open>The destructors.\<close>

definition unlink :: "nat \<Rightarrow> net \<Rightarrow> net" where
  "unlink p n = n\<lparr>g_ListManager := remove1 p (g_ListManager n), conn_heap := (conn_heap n)(p := None)\<rparr>"

definition JAP2PConnector_delete :: "nat \<Rightarrow> connector \<Rightarrow> net \<Rightarrow> net outcome" where
  "JAP2PConnector_delete p c n = Ret (unlink p n)"

definition JAP2PConnector2_delete :: "sdk_results \<Rightarrow> nat \<Rightarrow> connector \<Rightarrow> net \<Rightarrow> net outcome" where
  "JAP2PConnector2_delete R p c n = bnd (if c_handle c \<noteq> 0 then closeP2P R p n else Ret n) (\<lambda>n. Ret (unlink p n))"

definition delete_connector :: "sdk_results \<Rightarrow> nat \<Rightarrow> net \<Rightarrow> net outcome" where
  "delete_connector R p n = virtual (JAP2PConnector_delete p) (JAP2PConnector2_delete R p) p n"

fun find_connector :: "string \<Rightarrow> string \<Rightarrow> 16 word \<Rightarrow> nat list \<Rightarrow> net \<Rightarrow> nat option outcome" where
  "find_connector devid ipaddr port [] n = Ret None"
| "find_connector devid ipaddr port (p # ps) n =
     bnd (deref p n) (\<lambda>c.
     if c_version c \<noteq> UDX_P2P \<and> CompareConnectStr devid ipaddr port c then Ret (Some p) else find_connector devid ipaddr port ps n)"

definition CreateConnector :: "string \<Rightarrow> string \<Rightarrow> 16 word \<Rightarrow> net \<Rightarrow> (nat \<times> net) outcome" where
  "CreateConnector devid ipaddr port n =
     bnd (find_connector devid ipaddr port (g_ListManager n) n) (\<lambda>found.
     case found of
       Some p \<Rightarrow> bnd (deref p n) (\<lambda>c. Ret (p, set_conn p (UpdateUse True c) n))
     | None \<Rightarrow>
         let (p, n) = new_JAP2PConnector2 n in
         bnd (deref p n) (\<lambda>c. Ret (p, set_conn p (UpdateProperty devid ipaddr port (UpdateUse True c)) n)))"

text \<open>The caller sets its pointer to null.\<close>

definition DestroyConnector :: "sdk_results \<Rightarrow> nat \<Rightarrow> net \<Rightarrow> net outcome" where
  "DestroyConnector R p n =
     (if p = 0 then Ret n
      else
        bnd (deref p n) (\<lambda>c.
        if c_version c = UDX_P2P then bnd (closeP2P R p n) (delete_connector R p)
        else if 1 < c_use c then Ret (set_conn p (UpdateUse False c) n)
        else
          bnd (closeP2P R p (n\<lparr>g_ListManager := remove1 p (g_ListManager n)\<rparr>)) (\<lambda>n.
          bnd (deref p n) (\<lambda>c.
          delete_connector R p (set_conn p (UpdateUse False c) n)))))"

text \<open>
  The callbacks of the newer library look their connector up in the list. \<open>locked\<close> tells whether this thread holds the mutex of the list, which none of the callers does.
\<close>

definition GetP2PConnector :: "bool \<Rightarrow> nat \<Rightarrow> net \<Rightarrow> bool outcome" where
  "GetP2PConnector locked p n = (if p \<in> set (g_ListManager n) then if locked then Ret True else UB UnlockNotHeld else Ret False)"

section \<open>No operation frees another connector\<close>

text \<open>A call that returns a result with a property.\<close>

definition ok_to :: "('a \<Rightarrow> bool) \<Rightarrow> 'a outcome \<Rightarrow> bool" where
  "ok_to Q r \<longleftrightarrow> (\<exists>x. r = Ret x \<and> Q x)"

lemma ok_to_simps [simp]: "ok_to Q (Ret x) = Q x" "\<not> ok_to Q (UB u)" "\<not> ok_to Q Blocked" "ok_to Q (bnd r f) = ok_to (\<lambda>x. ok_to Q (f x)) r"
  by (auto simp: ok_to_def bnd_Ret_iff)

lemma ok_to_mono: "ok_to P r \<Longrightarrow> (\<And>x. P x \<Longrightarrow> Q x) \<Longrightarrow> ok_to Q r"
  by (auto simp: ok_to_def)

text \<open>The same connectors, of the same kinds and with the same users.\<close>

definition conn_kind :: "connector \<Rightarrow> int \<times> int" where
  "conn_kind c = (c_version c, c_use c)"

definition same_conns :: "net \<Rightarrow> net \<Rightarrow> bool" where
  "same_conns n n' \<longleftrightarrow> g_ListManager n' = g_ListManager n \<and> next_addr n' = next_addr n \<and>
     (\<forall>q. map_option conn_kind (conn_heap n' q) = map_option conn_kind (conn_heap n q))"

lemma same_conns_refl [simp]: "same_conns n n"
  by (simp add: same_conns_def)

lemma same_conns_trans [trans]: "same_conns n n' \<Longrightarrow> same_conns n' n'' \<Longrightarrow> same_conns n n''"
  by (simp add: same_conns_def)

lemma same_conns_alive: "same_conns n n' \<Longrightarrow> conn_heap n p \<noteq> None \<Longrightarrow> conn_heap n' p \<noteq> None"
  by (metis (no_types, lifting) option.map_disc_iff same_conns_def)

lemma same_conns_sdk: "same_conns n n' \<Longrightarrow> same_conns n (n'\<lparr>sdk_calls := cs\<rparr>)"
  by (simp add: same_conns_def)

lemma same_conns_set: "conn_heap n p = Some c \<Longrightarrow> conn_kind c' = conn_kind c \<Longrightarrow> same_conns n n' \<Longrightarrow> same_conns n (set_conn p c' n')"
  by (auto simp: same_conns_def set_conn_def)

lemma deref_Some [simp]: "conn_heap n p = Some c \<Longrightarrow> 0 < p \<Longrightarrow> deref p n = Ret c"
  by (simp add: deref_def)

definition alive :: "nat \<Rightarrow> net \<Rightarrow> bool" where
  "alive p n \<longleftrightarrow> 0 < p \<and> conn_heap n p \<noteq> None"

lemma aliveE: "alive p n \<Longrightarrow> (\<And>c. conn_heap n p = Some c \<Longrightarrow> 0 < p \<Longrightarrow> thesis) \<Longrightarrow> thesis"
  by (auto simp: alive_def)

lemmas frame_simps = virtual_defs sdk_def conn_kind_def Let_def same_conns_sdk same_conns_set

lemma createP2PHandle_frame: "alive p n \<Longrightarrow> ok_to (\<lambda>(_, n'). same_conns n n') (createP2PHandle R x p n)"
  by (erule aliveE) (auto simp: createP2PHandle_def frame_simps)

lemma connect2_frame:
  "alive p n \<Longrightarrow> length d < 20 \<Longrightarrow> length a < 80 \<Longrightarrow> ok_to (\<lambda>(_, n'). same_conns n n') (connect2 R d a port v p n)"
  by (erule aliveE) (auto simp: connect2_def strcpy_def remember_def frame_simps)

lemma connect3_frame:
  "alive p n \<Longrightarrow> length d < 20 \<Longrightarrow> length a < 80 \<Longrightarrow> ok_to (\<lambda>(_, n'). same_conns n n') (connect3 R d a port p n)"
  by (erule aliveE) (auto simp: connect3_def strcpy_def remember_def frame_simps)

lemma closeP2P_frame: "alive p n \<Longrightarrow> ok_to (same_conns n) (closeP2P R p n)"
  by (erule aliveE) (auto simp: closeP2P_def frame_simps)

lemma loginP2P_frame: "alive p n \<Longrightarrow> ok_to (\<lambda>(_, n'). same_conns n n') (loginP2P R u w p n)"
  by (erule aliveE) (auto simp: loginP2P_def frame_simps)

lemma openChannel_frame: "alive p n \<Longrightarrow> ok_to (\<lambda>(_, n'). same_conns n n') (openChannel R ch st' b x p n)"
  by (erule aliveE) (auto simp: openChannel_def frame_simps split: option.split)

lemma findFileNext_frame:
  assumes "alive p n" "found \<noteq> None" "length (the found) \<le> 200"
  shows "ok_to (\<lambda>(_, n'). same_conns n n') (findFileNext R sh found p n)"
  using assms by (auto elim!: aliveE simp: findFileNext_def frame_simps)

lemma simple_frame:
  assumes "alive p n"
  shows "ok_to (\<lambda>(_, n'). same_conns n n') (ptzCtrl R ch act b q1 q2 p n)"
    "ok_to (\<lambda>(_, n'). same_conns n n') (vconCreate R app p n)"
    "ok_to (\<lambda>(_, n'). same_conns n n') (vconSend R vh buf p n)"
    "ok_to (\<lambda>(_, n'). same_conns n n') (vconDestroy R vh p n)"
    "ok_to (\<lambda>(_, n'). same_conns n n') (findFileTaskStart R ch t1 t2 ty p n)"
    "ok_to (\<lambda>(_, n'). same_conns n n') (findFileTaskClose R sh p n)"
    "ok_to (\<lambda>(_, n'). same_conns n n') (playBackStart R ch t1 t2 ty x p n)"
    "ok_to (\<lambda>(_, n'). same_conns n n') (playBackPause R ph p n)"
    "ok_to (\<lambda>(_, n'). same_conns n n') (playBackContinue R ph p n)"
    "ok_to (\<lambda>(_, n'). same_conns n n') (playBackStop R ph p n)"
    "ok_to (\<lambda>(_, n'). same_conns n n') (p2p_call R ch p n)"
    "ok_to (\<lambda>(_, n'). same_conns n n') (p2p_hangup R p n)"
    "ok_to (\<lambda>(_, n'). same_conns n n') (talkSend R au p n)"
    "ok_to (\<lambda>(_, n'). same_conns n n') (pullAlarm R ty ch tk p n)"
    "ok_to (\<lambda>(_, n'). same_conns n n') (ResetConnection p n)"
  using assms
  by (erule_tac [!] aliveE)
     (simp_all add: ptzCtrl_def vconCreate_def vconSend_def vconDestroy_def findFileTaskStart_def findFileTaskClose_def playBackStart_def playBackPause_def
       playBackContinue_def playBackStop_def p2p_call_def p2p_hangup_def talkSend_def pullAlarm_def ResetConnection_def frame_simps)

end
