(* ===== verification/Sharing.thy ===== *)
theory Sharing
  imports Connector
begin

text \<open>
  Connections share connectors. The lemmas of this theory say that a connector is not freed while a connection points to it, and what the routing of frames does when several
  connections use one connector.
\<close>

section \<open>Counting the holders\<close>

text \<open>
  \<open>h\<close> tells how many connections point to a connector. One of the newer kind has at least that many users, one of the older kind belongs to one connection.
\<close>

definition count_ok :: "nat \<Rightarrow> connector \<Rightarrow> bool" where
  "count_ok k c \<longleftrightarrow> (if c_version c = UDX_P2P then k \<le> 1 else int k \<le> c_use c)"

definition net_ok :: "(nat \<Rightarrow> nat) \<Rightarrow> net \<Rightarrow> bool" where
  "net_ok h n \<longleftrightarrow>
     (\<forall>p. 0 < p \<longrightarrow> 0 < h p \<longrightarrow> conn_heap n p \<noteq> None) \<and>
     (\<forall>p c. conn_heap n p = Some c \<longrightarrow> 0 < p \<and> p < next_addr n \<and> count_ok (h p) c) \<and>
     0 < next_addr n \<and> distinct (g_ListManager n) \<and> (\<forall>p\<in>set (g_ListManager n). conn_heap n p \<noteq> None)"

definition held :: "nat \<Rightarrow> (nat \<Rightarrow> nat) \<Rightarrow> nat \<Rightarrow> nat" where
  "held p h q = (if p = q \<and> 0 < p then h q + 1 else h q)"

lemma held_0 [simp]: "held 0 h = h"
  by (simp add: held_def fun_eq_iff)

lemma held_other: "p \<noteq> q \<Longrightarrow> held p h q = h q"
  by (simp add: held_def)

lemma held_same: "0 < p \<Longrightarrow> held p h p = h p + 1"
  by (simp add: held_def)

lemma count_ok_mono: "count_ok k c \<Longrightarrow> k' \<le> k \<Longrightarrow> count_ok k' c"
  by (auto simp: count_ok_def split: if_splits)

lemma count_ok_kind: "conn_kind c' = conn_kind c \<Longrightarrow> count_ok k c' = count_ok k c"
  by (simp add: count_ok_def conn_kind_def)

lemma net_okD:
  assumes "net_ok h n"
  shows "0 < p \<Longrightarrow> 0 < h p \<Longrightarrow> alive p n" "conn_heap n p = Some c \<Longrightarrow> 0 < p" "conn_heap n p = Some c \<Longrightarrow> p < next_addr n"
    "conn_heap n p = Some c \<Longrightarrow> count_ok (h p) c" "0 < next_addr n" "distinct (g_ListManager n)" "p \<in> set (g_ListManager n) \<Longrightarrow> alive p n"
  using assms by (auto simp: net_ok_def alive_def)

lemma net_ok_mono: "net_ok h n \<Longrightarrow> (\<And>q. h' q \<le> h q) \<Longrightarrow> net_ok h' n"
  unfolding net_ok_def by (meson count_ok_mono order_less_le_trans)

lemma net_ok_held: "net_ok (held p h) n \<Longrightarrow> net_ok h n"
  by (rule net_ok_mono) (auto simp: held_def)

lemma net_ok_alive: "net_ok (held p h) n \<Longrightarrow> 0 < p \<Longrightarrow> alive p n"
  using net_okD(1) [of "held p h" n p] by (simp add: held_same)

lemma net_ok_same:
  assumes s: "same_conns n n'" and ok: "net_ok h n"
  shows "net_ok h n'"
proof -
  have was: "\<exists>c. conn_heap n q = Some c \<and> conn_kind c = conn_kind c'" if "conn_heap n' q = Some c'" for q c'
  proof -
    have "map_option conn_kind (conn_heap n q) = Some (conn_kind c')" using s that unfolding same_conns_def by (metis option.simps(9))
    then show ?thesis by auto
  qed
  have dom: "conn_heap n' q = None \<longleftrightarrow> conn_heap n q = None" for q using s by (metis option.map_disc_iff same_conns_def)
  have eq: "next_addr n' = next_addr n" "g_ListManager n' = g_ListManager n" using s by (simp_all add: same_conns_def)
  have "0 < p \<and> p < next_addr n \<and> count_ok (h p) c" if "conn_heap n' p = Some c" for p c
    using was [OF that] net_okD(2-4) [OF ok] count_ok_kind by metis
  then show ?thesis using ok unfolding net_ok_def eq dom by blast
qed

section \<open>Taking and giving back\<close>

text \<open>
  The contract between connections and the pool of connectors: \<open>ok h n\<close> says that the pool \<open>n\<close> is in order when the objects are held as \<open>h\<close> counts. Taking an object
  returns one that is held once more, giving it back takes a holder away, and what is held is there.
\<close>

locale shared_pool =
  fixes ok :: "(nat \<Rightarrow> nat) \<Rightarrow> 'n \<Rightarrow> bool" and live :: "nat \<Rightarrow> 'n \<Rightarrow> bool" and acquire :: "'a \<Rightarrow> 'n \<Rightarrow> (nat \<times> 'n) outcome" and release :: "nat \<Rightarrow> 'n \<Rightarrow> 'n outcome"
  assumes acquire_ok: "ok h n \<Longrightarrow> ok_to (\<lambda>(p, n'). 0 < p \<and> ok (held p h) n') (acquire a n)"
    and release_ok: "ok (held p h) n \<Longrightarrow> ok_to (ok h) (release p n)"
    and live_ok: "ok (held p h) n \<Longrightarrow> 0 < p \<Longrightarrow> live p n"
begin

lemma acquireE:
  assumes "ok h n"
  obtains p n' where "acquire a n = Ret (p, n')" "0 < p" "ok (held p h) n'" "live p n'"
  using acquire_ok [OF assms, of a] live_ok that by (auto simp: ok_to_def)

lemma releaseE:
  assumes "ok (held p h) n"
  obtains n' where "release p n = Ret n'" "ok h n'"
  using release_ok [OF assms] that by (auto simp: ok_to_def)

text \<open>A holder that takes another object keeps its own, and giving one of them back does not take the other away.\<close>

lemma take_and_return:
  assumes "ok (held p h) n" "0 < p"
  shows "\<exists>q n' n''. acquire a n = Ret (q, n') \<and> release q n' = Ret n'' \<and> live p n' \<and> live p n''"
proof -
  obtain q n' where q: "acquire a n = Ret (q, n')" "ok (held q (held p h)) n'" by (rule acquireE [OF assms(1)])
  obtain n'' where n'': "release q n' = Ret n''" "ok (held p h) n''" by (rule releaseE [OF q(2)])
  have "held q (held p h) = held p (held q h)" by (auto simp: held_def fun_eq_iff)
  then have "live p n'" using live_ok [of p "held q h" n'] q(2) assms(2) by simp
  then show ?thesis using q(1) n'' live_ok [OF n''(2) assms(2)] by blast
qed

end

lemma net_ok_set:
  assumes "net_ok h n" "conn_heap n p = Some c" "count_ok (h' p) c'" "\<And>q. q \<noteq> p \<Longrightarrow> h' q = h q"
  shows "net_ok h' (set_conn p c' n)"
  using net_okD [OF assms(1)] assms(2-4) unfolding net_ok_def set_conn_def alive_def by (auto split: if_splits)

lemma new_connector_ok:
  assumes ok: "net_ok h n" and new: "new_connector v n = (p, n')"
  shows "net_ok h n'" "h p = 0" "0 < p" "\<exists>c. conn_heap n' p = Some c \<and> c_version c = v \<and> c_use c = 0"
proof -
  from new obtain c where p: "p = next_addr n" and n': "conn_heap n' = (conn_heap n)(p \<mapsto> c)" "g_ListManager n' = g_ListManager n @ [p]" "next_addr n' = Suc p"
    and c: "c_version c = v" "c_use c = 0" by (auto simp: new_connector_def Let_def set_conn_def)
  have fresh: "conn_heap n p = None" using net_okD(3) [OF ok, of p] p by (cases "conn_heap n p") auto
  show pos: "0 < p" using net_okD(5) [OF ok] p by simp
  show h: "h p = 0" using net_okD(1) [OF ok, of p] fresh pos by (auto simp: alive_def)
  show "\<exists>c. conn_heap n' p = Some c \<and> c_version c = v \<and> c_use c = 0" using n'(1) c by simp
  have "p \<notin> set (g_ListManager n)" using net_okD(7) [OF ok, of p] fresh by (auto simp: alive_def)
  moreover have "count_ok (h p) c" using c h by (simp add: count_ok_def)
  moreover have "q < Suc p" if "conn_heap n q = Some d" for q d using net_okD(3) [OF ok that] p by simp
  ultimately show "net_ok h n'" using net_okD [OF ok] pos unfolding net_ok_def n' alive_def by auto
qed

lemma find_connector_ok:
  assumes "\<forall>p\<in>set ps. alive p n"
  shows "ok_to (\<lambda>r. case r of None \<Rightarrow> True | Some p \<Rightarrow> p \<in> set ps \<and> (\<exists>c. conn_heap n p = Some c \<and> c_version c \<noteq> UDX_P2P)) (find_connector d a port ps n)"
  using assms
proof (induction ps)
  case (Cons p ps)
  then show ?case by (auto elim!: aliveE intro!: ok_to_mono [OF Cons.IH] split: option.splits)
qed simp

lemma CreateConnector_ok:
  assumes ok: "net_ok h n"
  shows "ok_to (\<lambda>(p, n'). 0 < p \<and> net_ok (held p h) n') (CreateConnector d a port n)"
proof -
  have "\<forall>p\<in>set (g_ListManager n). alive p n" using net_okD(7) [OF ok] by blast
  from find_connector_ok [OF this, of d a port] obtain r where
    r: "find_connector d a port (g_ListManager n) n = Ret r" "case r of None \<Rightarrow> True | Some p \<Rightarrow> \<exists>c. conn_heap n p = Some c \<and> c_version c \<noteq> UDX_P2P"
    by (auto simp: ok_to_def split: option.splits)
  show ?thesis
  proof (cases r)
    case (Some p)
    then obtain c where c: "conn_heap n p = Some c" "c_version c \<noteq> UDX_P2P" using r(2) by auto
    have p: "0 < p" "count_ok (h p) c" using net_okD(2,4) [OF ok c(1)] by auto
    then have "count_ok (held p h p) (UpdateUse True c)" using c(2) by (simp add: count_ok_def UpdateUse_def held_same)
    from net_ok_set [where h' = "held p h", OF ok c(1) this] show ?thesis using r(1) Some c(1) p(1) by (simp add: CreateConnector_def held_other)
  next
    case None
    obtain p n' where new: "new_connector KCP_P2P n = (p, n')" by force
    note nc = new_connector_ok [OF ok new]
    from nc(4) obtain c where c: "conn_heap n' p = Some c" "c_version c = KCP_P2P" "c_use c = 0" by blast
    have "count_ok (held p h p) (UpdateProperty d a port (UpdateUse True c))"
      using c nc(2,3) by (simp add: count_ok_def UpdateProperty_def UpdateUse_def held_same KCP_P2P_def UDX_P2P_def Let_def)
    from net_ok_set [where h' = "held p h", OF nc(1) c(1) this] show ?thesis using r(1) None new c(1) nc(3) by (simp add: CreateConnector_def new_JAP2PConnector2_def held_other)
  qed
qed

lemma delete_connector_ok:
  assumes "net_ok h n" "alive p n" "h p = 0"
  shows "ok_to (net_ok h) (delete_connector R p n)"
proof -
  from assms(2) obtain c where c: "conn_heap n p = Some c" "0 < p" by (rule aliveE)
  have free: "net_ok h (unlink p n')" if "net_ok h n'" for n'
    using net_okD [OF that] assms(3) unfolding net_ok_def alive_def unlink_def by (auto split: if_splits simp: distinct_remove1)
  show ?thesis using c free [OF assms(1)] closeP2P_frame [OF assms(2), of R]
    by (auto simp: delete_connector_def virtual_def JAP2PConnector_delete_def JAP2PConnector2_delete_def elim!: ok_to_mono intro: free net_ok_same [OF _ assms(1)])
qed

lemma DestroyConnector_ok:
  assumes ok: "net_ok (held p h) n"
  shows "ok_to (net_ok h) (DestroyConnector R p n)"
proof (cases "p = 0")
  case False
  then have al: "alive p n" using net_ok_alive [OF ok] by simp
  from al obtain c where c: "conn_heap n p = Some c" "0 < p" by (rule aliveE)
  have cnt: "count_ok (h p + 1) c" using net_okD(4) [OF ok c(1)] c(2) by (simp add: held_same)
  note ok' = net_ok_held [OF ok]
  show ?thesis
  proof (cases "c_version c \<noteq> UDX_P2P \<and> 1 < c_use c")
    case True
    then have "count_ok (h p) (UpdateUse False c)" using cnt by (simp add: count_ok_def UpdateUse_def Let_def)
    from net_ok_set [where h' = h, OF ok' c(1) this] show ?thesis using True c by (simp add: DestroyConnector_def)
  next
    case last: False
    then have h0: "h p = 0" using cnt by (auto simp: count_ok_def split: if_splits)
    have close: "ok_to (\<lambda>n'. net_ok h n' \<and> alive p n') (closeP2P R p m)" if "net_ok h m" "alive p m" for m
      using closeP2P_frame [OF that(2), of R] by (rule ok_to_mono) (use that same_conns_alive in \<open>auto simp: alive_def intro: net_ok_same\<close>)
    define m where "m = n\<lparr>g_ListManager := remove1 p (g_ListManager n)\<rparr>"
    have m: "net_ok h m" "alive p m" using net_okD [OF ok'] ok' al by (auto simp: m_def net_ok_def alive_def notin_set_remove1)
    have del: "ok_to (net_ok h) (bnd (deref p n') (\<lambda>c. delete_connector R p (set_conn p (UpdateUse False c) n')))" if "net_ok h n'" "alive p n'" for n'
    proof -
      from that(2) obtain d where d: "conn_heap n' p = Some d" "0 < p" by (rule aliveE)
      have "count_ok (h p) (UpdateUse False d)" using h0 by (simp add: count_ok_def UpdateUse_def Let_def)
      from net_ok_set [where h' = h, OF that(1) d(1) this] have "net_ok h (set_conn p (UpdateUse False d) n')" by simp
      moreover have "alive p (set_conn p (UpdateUse False d) n')" using d(2) by (simp add: alive_def set_conn_def)
      ultimately show ?thesis using d h0 by (simp add: delete_connector_ok)
    qed
    show ?thesis
    proof (cases "c_version c = UDX_P2P")
      case True
      then show ?thesis using c close [OF ok' al] h0 by (auto simp: DestroyConnector_def elim!: ok_to_mono intro: delete_connector_ok)
    next
      case False
      then show ?thesis using last c close [OF m] del unfolding DestroyConnector_def m_def [symmetric] by (auto elim!: ok_to_mono)
    qed
  qed
qed (use ok in \<open>simp add: DestroyConnector_def\<close>)

interpretation connectors: shared_pool net_ok alive "\<lambda>(d, a, port). CreateConnector d a port" "DestroyConnector R" for R
proof
  show "ok_to (\<lambda>(p, n'). 0 < p \<and> net_ok (held p h) n') ((case x of (d, a, port) \<Rightarrow> CreateConnector d a port) n)" if "net_ok h n" for h n and x :: "string \<times> string \<times> 16 word"
    using CreateConnector_ok [OF that] by (cases x) simp
qed (auto intro: DestroyConnector_ok net_ok_alive)

section \<open>Who gets the frames\<close>

lemma GetCtx_append: "\<forall>(x, _, _)\<in>set cs. x \<noteq> 0 \<Longrightarrow> GetCtx ch ty (cs @ ds) = (if GetCtx ch ty cs = 0 then GetCtx ch ty ds else GetCtx ch ty cs)"
  by (induction cs) auto

lemma DelCtx_append: "GetCtx ch ty cs = 0 \<Longrightarrow> \<forall>(x, _, _)\<in>set cs. x \<noteq> 0 \<Longrightarrow> DelCtx ch ty (cs @ ds) = cs @ DelCtx ch ty ds"
  by (induction cs) (auto split: if_splits)

lemma other_channel_append: "other_channel x ch cs = None \<Longrightarrow> other_channel x ch (cs @ [(y, ch, ty)]) = None"
  by (induction cs) (auto split: if_splits)

definition route :: "nat \<Rightarrow> int \<Rightarrow> net \<Rightarrow> nat" where
  "route p ch n = (case conn_heap n p of None \<Rightarrow> 0 | Some c \<Rightarrow> GetCtx ch CTX_TYPE_LIVE (c_ctx c))"

text \<open>A connector of the newer kind with a handle, whose contexts belong to connections.\<close>

definition open_connector :: "nat \<Rightarrow> p2p_ctx list \<Rightarrow> net \<Rightarrow> bool" where
  "open_connector p cs n \<longleftrightarrow>
     0 < p \<and> (\<exists>c. conn_heap n p = Some c \<and> c_version c = KCP_P2P \<and> c_handle c \<noteq> 0 \<and> c_ctx c = cs) \<and> (\<forall>(x, _, _)\<in>set cs. x \<noteq> 0)"

lemma route_open: "open_connector p cs n \<Longrightarrow> route p ch n = GetCtx ch CTX_TYPE_LIVE cs"
  by (auto simp: open_connector_def route_def)

lemma set_conn_heap [simp]: "conn_heap (set_conn p c n) = (conn_heap n)(p \<mapsto> c)"
  by (simp add: set_conn_def)

lemma openChannel_open:
  assumes "open_connector p cs n" "other_channel x ch cs = None" "x \<noteq> 0"
  shows "\<exists>r n'. openChannel R ch strm True x p n = Ret (r, n') \<and> open_connector p (AddCtx x ch CTX_TYPE_LIVE cs) n'"
proof -
  from assms(1) obtain c where "0 < p" "conn_heap n p = Some c" "c_version c = KCP_P2P" "c_handle c \<noteq> 0" "c_ctx c = cs" "\<forall>(x, _, _)\<in>set cs. x \<noteq> 0"
    by (auto simp: open_connector_def)
  then show ?thesis using assms(2,3)
    by (auto simp: openChannel_def virtual_defs open_connector_def sdk_def Let_def KCP_P2P_def UDX_P2P_def AddCtx_def split: if_splits)
qed

lemma openChannel_close:
  assumes "open_connector p cs n"
  shows "\<exists>r n'. openChannel R ch strm False x p n = Ret (r, n') \<and> open_connector p (DelCtx ch CTX_TYPE_LIVE cs) n'"
proof -
  from assms obtain c where c: "0 < p" "conn_heap n p = Some c" "c_version c = KCP_P2P" "c_handle c \<noteq> 0" "c_ctx c = cs" "\<forall>(x, _, _)\<in>set cs. x \<noteq> 0"
    by (auto simp: open_connector_def)
  have "set (DelCtx ch CTX_TYPE_LIVE cs) \<subseteq> set cs" by (induction cs) (auto split: if_splits)
  then show ?thesis using c by (auto simp: openChannel_def virtual_defs open_connector_def sdk_def Let_def KCP_P2P_def UDX_P2P_def)
qed

section \<open>Properties\<close>

text \<open>
  C25: two connections watch the same channel through one connector. The frames go to the first only; and when the second closes the channel it is the first that is taken
  out of the routing: from then on the frames go to the connection that closed.
\<close>

theorem second_watcher:
  assumes "open_connector p cs n" "x \<noteq> 0" "y \<noteq> 0" "x \<noteq> y" "GetCtx ch CTX_TYPE_LIVE cs = 0" "other_channel x ch cs = None" "other_channel y ch cs = None"
  shows "\<exists>r1 n1 r2 n2 r3 n3.
    openChannel R ch strm True x p n = Ret (r1, n1) \<and> route p ch n1 = x \<and>
    openChannel R ch strm True y p n1 = Ret (r2, n2) \<and> route p ch n2 = x \<and>
    openChannel R ch strm False y p n2 = Ret (r3, n3) \<and> route p ch n3 = y"
proof -
  let ?cx = "cs @ [(x, ch, CTX_TYPE_LIVE)]"
  have ne: "\<forall>(x, _, _)\<in>set cs. x \<noteq> 0" using assms(1) by (simp add: open_connector_def)
  have ax: "AddCtx x ch CTX_TYPE_LIVE cs = ?cx" using assms(2,5) by (simp add: AddCtx_def)
  from openChannel_open [OF assms(1,6,2), unfolded ax] obtain r1 n1 where
    1: "openChannel R ch strm True x p n = Ret (r1, n1)" "open_connector p ?cx n1" by blast
  have gx: "GetCtx ch CTX_TYPE_LIVE ?cx = x" using ne assms(5) by (simp add: GetCtx_append)
  have ay: "AddCtx y ch CTX_TYPE_LIVE ?cx = ?cx @ [(y, ch, CTX_TYPE_LIVE)]" using gx assms(4) by (simp add: AddCtx_def)
  from openChannel_open [OF 1(2) other_channel_append [OF assms(7)] assms(3), unfolded ay] obtain r2 n2 where
    2: "openChannel R ch strm True y p n1 = Ret (r2, n2)" "open_connector p (?cx @ [(y, ch, CTX_TYPE_LIVE)]) n2" by blast
  have d: "DelCtx ch CTX_TYPE_LIVE (?cx @ [(y, ch, CTX_TYPE_LIVE)]) = cs @ [(y, ch, CTX_TYPE_LIVE)]" using ne assms(5) by (simp add: DelCtx_append)
  from openChannel_close [OF 2(2), of R ch strm y, unfolded d] obtain r3 n3 where
    3: "openChannel R ch strm False y p n2 = Ret (r3, n3)" "open_connector p (cs @ [(y, ch, CTX_TYPE_LIVE)]) n3" by blast
  have "route p ch n1 = x" "route p ch n2 = x" "route p ch n3 = y"
    using route_open [OF 1(2)] route_open [OF 2(2)] route_open [OF 3(2)] ne assms(2,5) by (simp_all add: GetCtx_append)
  then show ?thesis using 1(1) 2(1) 3(1) by blast
qed

text \<open>
  Whether a second connection to the same address shares the connector: always with a device number, with an IP address only if the port is below 32768.
\<close>

theorem connector_shared_iff:
  assumes "length d < 20" "length a < 80" "c_port c = 0"
  shows "CompareConnectStr d a port (UpdateProperty d a port c) \<longleftrightarrow> d \<noteq> [] \<or> a \<noteq> [] \<and> uint port < 2 ^ 15"
proof -
  have "sint port = uint port \<longleftrightarrow> uint port < 2 ^ 15" by (simp add: sint_uint signed_take_bit_int_eq_self_iff) (use uint_ge_0 [of port] in linarith)
  then show ?thesis using assms by (auto simp: CompareConnectStr_def UpdateProperty_def strncpy_def strcasecmp_eq_def Let_def)
qed

definition demo_connector :: connector where
  "demo_connector = \<lparr>c_version = KCP_P2P, c_handle = 7, c_devid = ''1234567'', c_ip = [], c_port = 0, c_use = 1, c_connectResult = 0, c_loginResult = 0,
     c_doneDisconnect = False, c_ctx = [], c_playChannel = 0\<rparr>"

definition demo_net :: net where
  "demo_net = \<lparr>conn_heap = (\<lambda>_. None)(1 \<mapsto> demo_connector), g_ListManager = [1], next_addr = 2, sdk_calls = []\<rparr>"

theorem second_watcher_witness:
  "\<exists>r1 n1 r2 n2 r3 n3. openChannel (\<lambda>_. 0) 3 0 True 1 1 demo_net = Ret (r1, n1) \<and> route 1 3 n1 = 1 \<and>
    openChannel (\<lambda>_. 0) 3 0 True 2 1 n1 = Ret (r2, n2) \<and> route 1 3 n2 = 1 \<and> openChannel (\<lambda>_. 0) 3 0 False 2 1 n2 = Ret (r3, n3) \<and> route 1 3 n3 = 2"
proof -
  have "open_connector 1 [] demo_net" by (simp add: open_connector_def demo_net_def demo_connector_def)
  from second_watcher [OF this, of 1 2 3 "\<lambda>_. 0" 0] show ?thesis by simp
qed

end
