(* ===== verification/Connection.thy ===== *)
theory Connection
  imports Sharing MediaBuffer
begin

text \<open>
  \<^verbatim>\<open>gles/Network/JAConnect.cpp\<close>: a connection to a camera. The application calls functions that put commands into a queue; the task thread takes them out and carries
  them out with the connector. The state is that of the object without the fields of the decoder thread and the fish-eye parameters. What it tells the application and its
  decoder is collected in \<open>out\<close>; all callbacks are taken to be set. The functions of the task thread of one connection run one after the other; the task threads of several
  connections share the connectors, and their functions are taken one after the other too.
\<close>

section \<open>Commands\<close>

definition CMD_CONNECT :: int where "CMD_CONNECT = 1"
definition CMD_OPENCHANNEL :: int where "CMD_OPENCHANNEL = 2"
definition CMD_CLOSECHANNEL :: int where "CMD_CLOSECHANNEL = 3"
definition CMD_PTZSTART :: int where "CMD_PTZSTART = 4"
definition CMD_PTZSTOP :: int where "CMD_PTZSTOP = 5"
definition CMD_SEARCHREC :: int where "CMD_SEARCHREC = 6"
definition CMD_STARTPLAYBACK :: int where "CMD_STARTPLAYBACK = 7"
definition CMD_STOPPLAYBACK :: int where "CMD_STOPPLAYBACK = 8"
definition CMD_DISCONNECT :: int where "CMD_DISCONNECT = 9"
definition CMD_OPENDATACHANNEL :: int where "CMD_OPENDATACHANNEL = 10"
definition CMD_CLOSEDATACHANNEL :: int where "CMD_CLOSEDATACHANNEL = 11"
definition CMD_SENDDATA :: int where "CMD_SENDDATA = 12"
definition CMD_PLAYBACK_CONTINUE :: int where "CMD_PLAYBACK_CONTINUE = 13"
definition CMD_PLAYBACK_PAUSE :: int where "CMD_PLAYBACK_PAUSE = 14"
definition CMD_DESTROY_VCON :: int where "CMD_DESTROY_VCON = 15"
definition CMD_CALL :: int where "CMD_CALL = 16"
definition CMD_HANG_UP :: int where "CMD_HANG_UP = 17"
definition CMD_SEND_AUDIO :: int where "CMD_SEND_AUDIO = 18"
definition CMD_SEARCH_DEVICE :: int where "CMD_SEARCH_DEVICE = 19"
definition CMD_PULL_ALARMMSG :: int where "CMD_PULL_ALARMMSG = 20"

definition NET_STATUS_CONNECTING :: int where "NET_STATUS_CONNECTING = 0"
definition NET_STATUS_CONNECTED :: int where "NET_STATUS_CONNECTED = 1"
definition NET_STATUS_CONNECTFAIL :: int where "NET_STATUS_CONNECTFAIL = 2"
definition NET_STATUS_OPENING :: int where "NET_STATUS_OPENING = 6"
definition NET_STATUS_DISCONNECTED :: int where "NET_STATUS_DISCONNECTED = 8"
definition NET_STATUS_CLOSED :: int where "NET_STATUS_CLOSED = 9"
definition NET_STATUS_AUTHOFAIL :: int where "NET_STATUS_AUTHOFAIL = 10"
definition NET_STATUS_TIMEOUT :: int where "NET_STATUS_TIMEOUT = 11"
definition NET_STATUS_ACTIVECLOSED :: int where "NET_STATUS_ACTIVECLOSED = 12"
definition NET_STATUS_OPEN_VIDEO :: int where "NET_STATUS_OPEN_VIDEO = 13"
definition NET_STATUS_CLOSE_VIDEO :: int where "NET_STATUS_CLOSE_VIDEO = 14"

definition NET_PLAY_NONE :: int where "NET_PLAY_NONE = 0"
definition NET_PLAY_REAL :: int where "NET_PLAY_REAL = 1"
definition NET_PLAY_RECORD :: int where "NET_PLAY_RECORD = 2"

definition KP2P_ERR_TIMEOUT :: int where "KP2P_ERR_TIMEOUT = -2"
definition KP2P_ERR_CLOSE_BY_SELF :: int where "KP2P_ERR_CLOSE_BY_SELF = -10"
definition KP2P_ERR_CLOSE_BY_PEER :: int where "KP2P_ERR_CLOSE_BY_PEER = -11"
definition KP2P_ERR_RESOLVE_FAILED :: int where "KP2P_ERR_RESOLVE_FAILED = -12"
definition KP2P_ERR_AUTH_FAILED :: int where "KP2P_ERR_AUTH_FAILED = -20"
definition KP2P_ERR_AUTH2_FAILED :: int where "KP2P_ERR_AUTH2_FAILED = -22"

text \<open>The size of the data is the length of the list.\<close>

record command =
  commandNo :: int
  ConnectStr :: string
  verifystr :: string
  StartTime :: int
  EndTime :: int
  channelNo :: int
  streamNo :: int
  ptzCmd :: int
  cmd_data :: "byte list"
  alarmmsg_type :: int
  ticket :: int
  paudioPacket :: "audio_packet option"

definition no_command :: command where
  "no_command = \<lparr>commandNo = 0, ConnectStr = [], verifystr = [], StartTime = 0, EndTime = 0, channelNo = 0, streamNo = 0, ptzCmd = 0, cmd_data = [],
     alarmmsg_type = 0, ticket = 0, paudioPacket = None\<rparr>"

datatype net_event =
    OnStatus int int
  | OnSearchData "rec_file option"
  | DecoderSignal
  | DecoderResetData
  | SetIsP360Dev bool
  | DisconnectThread

datatype dist_ptr = NullPtr | Owned "byte list" | Freed

record connection = endpoint +
  mChannelNo :: int
  mStreamNo :: int
  mCommand :: "command list"
  mHandle :: int
  mP2p :: nat
  mBuffer :: "media_buffer option"
  mIsConnected :: bool
  mAreadyConnected :: bool
  mAddBuffer :: bool
  mRecvIFrame :: bool
  mRealStatus :: int
  mPlaybackHandle :: int
  mDataHandle :: int
  mDecodeStatus :: bool
  connectNowStates :: int
  isRecyceConnect :: bool
  mHasSetP720 :: int
  mDistTortion :: dist_ptr
  mDistLen :: int
  connectStr :: string
  verifyStr :: string
  mRunThread :: bool
  out :: "net_event list"

definition notify :: "net_event \<Rightarrow> connection \<Rightarrow> connection" where
  "notify e k = k\<lparr>out := out k @ [e]\<rparr>"

section \<open>The queue\<close>

definition AddCommand :: "command \<Rightarrow> connection \<Rightarrow> connection outcome" where
  "AddCommand cmd k =
     bnd (strcpy 80 (ConnectStr cmd)) (\<lambda>cs.
     bnd (strcpy 200 (verifystr cmd)) (\<lambda>vs.
     Ret (k\<lparr>mCommand := mCommand k @ [cmd\<lparr>ConnectStr := cs, verifystr := vs\<rparr>]\<rparr>)))"

definition Connect :: "string \<Rightarrow> string \<Rightarrow> int \<Rightarrow> connection \<Rightarrow> connection outcome" where
  "Connect cs vs channel k =
     bnd (strcpy 80 cs) (\<lambda>c.
     bnd (strcpy 100 vs) (\<lambda>v.
     AddCommand (no_command\<lparr>commandNo := CMD_CONNECT, ConnectStr := cs, verifystr := vs\<rparr>) (k\<lparr>mChannelNo := channel, connectStr := c, verifyStr := v\<rparr>)))"

definition StopPlayback :: "int \<Rightarrow> connection \<Rightarrow> connection outcome" where
  "StopPlayback ch k = AddCommand (no_command\<lparr>commandNo := CMD_STOPPLAYBACK, channelNo := ch\<rparr>) k"

definition OpenChannel :: "int \<Rightarrow> int \<Rightarrow> connection \<Rightarrow> connection outcome" where
  "OpenChannel ch strm k =
     bnd (if mRealStatus k = NET_PLAY_RECORD then StopPlayback (mChannelNo k) k else Ret k) (\<lambda>k.
     AddCommand (no_command\<lparr>commandNo := CMD_OPENCHANNEL, channelNo := ch, streamNo := strm\<rparr>) (k\<lparr>mChannelNo := ch, mStreamNo := strm\<rparr>))"

definition CloseChannel :: "int \<Rightarrow> int \<Rightarrow> connection \<Rightarrow> connection outcome" where
  "CloseChannel ch strm k = AddCommand (no_command\<lparr>commandNo := CMD_CLOSECHANNEL, channelNo := ch, streamNo := strm\<rparr>) (k\<lparr>mAddBuffer := False\<rparr>)"

definition StartPlayback :: "int \<Rightarrow> int \<Rightarrow> connection \<Rightarrow> connection outcome" where
  "StartPlayback t ch k =
     (if \<not> mIsConnected k then Ret k
      else
        bnd (if mRealStatus k = NET_PLAY_REAL then CloseChannel (mChannelNo k) 0 k else Ret k) (\<lambda>k.
        bnd (if mRealStatus k = NET_PLAY_RECORD then StopPlayback (mChannelNo k) k else Ret k) (\<lambda>k.
        AddCommand (no_command\<lparr>commandNo := CMD_STARTPLAYBACK, StartTime := t, channelNo := ch\<rparr>) k)))"

definition Disconnect :: "connection \<Rightarrow> connection outcome" where
  "Disconnect k = AddCommand (no_command\<lparr>commandNo := CMD_DISCONNECT\<rparr>) k"

definition SendData :: "byte list \<Rightarrow> connection \<Rightarrow> connection outcome" where
  "SendData bs k = AddCommand (no_command\<lparr>commandNo := CMD_SENDDATA, cmd_data := bs\<rparr>) k"

definition SearchRec :: "int \<Rightarrow> int \<Rightarrow> int \<Rightarrow> connection \<Rightarrow> connection outcome" where
  "SearchRec t1 t2 ch k = AddCommand (no_command\<lparr>commandNo := CMD_SEARCHREC, StartTime := t1, EndTime := t2, channelNo := ch\<rparr>) k"

definition PlaybackPauseGetData :: "int \<Rightarrow> connection \<Rightarrow> connection outcome" where
  "PlaybackPauseGetData ch k = AddCommand (no_command\<lparr>commandNo := CMD_PLAYBACK_PAUSE, channelNo := ch\<rparr>) k"

definition PlaybackContinueGetData :: "int \<Rightarrow> connection \<Rightarrow> connection outcome" where
  "PlaybackContinueGetData ch k = AddCommand (no_command\<lparr>commandNo := CMD_PLAYBACK_CONTINUE, channelNo := ch\<rparr>) k"

definition CtrlPTZ :: "int \<Rightarrow> int \<Rightarrow> connection \<Rightarrow> connection outcome" where
  "CtrlPTZ cmd ch k = AddCommand (no_command\<lparr>commandNo := CMD_PTZSTART, channelNo := ch, ptzCmd := cmd\<rparr>) k"

definition StopPTZ :: "int \<Rightarrow> connection \<Rightarrow> connection outcome" where
  "StopPTZ ch k = AddCommand (no_command\<lparr>commandNo := CMD_PTZSTOP, channelNo := ch, ptzCmd := JA_PTZ_CMD_STOP\<rparr>) k"

definition PullAlarmmsg :: "int \<Rightarrow> int \<Rightarrow> int \<Rightarrow> connection \<Rightarrow> connection outcome" where
  "PullAlarmmsg ty ch tk k = AddCommand (no_command\<lparr>commandNo := CMD_PULL_ALARMMSG, channelNo := ch, alarmmsg_type := ty, ticket := tk\<rparr>) k"

definition OpenDataChannel :: "connection \<Rightarrow> connection outcome" where
  "OpenDataChannel k = AddCommand (no_command\<lparr>commandNo := CMD_OPENDATACHANNEL\<rparr>) k"

definition CloseDataChannel :: "connection \<Rightarrow> connection outcome" where
  "CloseDataChannel k = AddCommand (no_command\<lparr>commandNo := CMD_CLOSEDATACHANNEL\<rparr>) k"

definition DestroyVcon :: "connection \<Rightarrow> connection outcome" where
  "DestroyVcon k = AddCommand (no_command\<lparr>commandNo := CMD_DESTROY_VCON\<rparr>) k"

definition SearchDevice :: "connection \<Rightarrow> connection outcome" where
  "SearchDevice k = AddCommand (no_command\<lparr>commandNo := CMD_SEARCH_DEVICE\<rparr>) k"

section \<open>The decoder and the status\<close>

definition DecoderPause :: "connection \<Rightarrow> connection" where
  "DecoderPause k = k\<lparr>mDecodeStatus := False\<rparr>"

definition DecoderResume :: "connection \<Rightarrow> connection" where
  "DecoderResume k = (if mDecodeStatus k then k else notify DecoderSignal (k\<lparr>mDecodeStatus := True\<rparr>))"

definition reset_buffer :: "connection \<Rightarrow> connection outcome" where
  "reset_buffer k = bnd (ResetMediaBuffer (mBuffer k)) (\<lambda>b. Ret (k\<lparr>mBuffer := b\<rparr>))"

definition DoStatus :: "int \<Rightarrow> int \<Rightarrow> connection \<Rightarrow> connection outcome" where
  "DoStatus status_code content_code k =
     bnd (if status_code = NET_STATUS_DISCONNECTED then
            bnd (reset_buffer (DecoderPause (k\<lparr>mIsConnected := False, mRealStatus := NET_PLAY_NONE\<rparr>))) (\<lambda>k.
            Ret ((notify DisconnectThread (notify DecoderResetData k))\<lparr>mAddBuffer := False, mIsConnected := False, mRealStatus := NET_PLAY_NONE\<rparr>))
          else Ret k) (\<lambda>k.
     Ret (notify (OnStatus status_code content_code) k))"

section \<open>Connecting and disconnecting\<close>

definition release_p2p :: "sdk_results \<Rightarrow> connection \<Rightarrow> net \<Rightarrow> (connection \<times> net) outcome" where
  "release_p2p R k n =
     (if mHandle k \<noteq> 0 \<and> mP2p k \<noteq> 0 then
        bnd (deref (mP2p k) n) (\<lambda>c.
        bnd (if c_version c \<noteq> UDX_P2P then DestroyConnector R (mP2p k) n else bnd (closeP2P R (mP2p k) n) (delete_connector R (mP2p k))) (\<lambda>n.
        Ret (k\<lparr>mP2p := 0\<rparr>, n)))
      else Ret (k, n))"

definition close_handles :: "sdk_results \<Rightarrow> connection \<Rightarrow> net \<Rightarrow> (connection \<times> net) outcome" where
  "close_handles R k n =
     bnd (if mDataHandle k \<noteq> 0 then bnd (vconDestroy R (mDataHandle k) (mP2p k) n) (\<lambda>(_, n). Ret (k\<lparr>mDataHandle := 0\<rparr>, n)) else Ret (k, n)) (\<lambda>(k, n).
     if mPlaybackHandle k \<noteq> 0 then bnd (playBackStop R (mPlaybackHandle k) (mP2p k) n) (\<lambda>(_, n). Ret (k\<lparr>mPlaybackHandle := 0\<rparr>, n)) else Ret (k, n))"

text \<open>The pointer is not set to null after the memory was freed.\<close>

definition free_distortion :: "connection \<Rightarrow> connection outcome" where
  "free_distortion k =
     (if mHasSetP720 k = 0 then Ret k
      else case mDistTortion k of
             Freed \<Rightarrow> UB UseAfterFree
           | Owned _ \<Rightarrow> Ret (k\<lparr>mHasSetP720 := 0, mDistTortion := Freed, mDistLen := 0\<rparr>)
           | NullPtr \<Rightarrow> Ret (k\<lparr>mHasSetP720 := 0, mDistLen := 0\<rparr>))"

definition DoDisconnect :: "sdk_results \<Rightarrow> bool \<Rightarrow> connection \<Rightarrow> net \<Rightarrow> (connection \<times> net) outcome" where
  "DoDisconnect R cmd k n =
     bnd (close_handles R (k\<lparr>isRecyceConnect := False, mCommand := filter (\<lambda>c. commandNo c = CMD_CONNECT) (mCommand k)\<rparr>) n) (\<lambda>(k, n).
     bnd (release_p2p R k n) (\<lambda>(k, n).
     let k = notify DecoderResetData (if mPlaybackHandle k \<noteq> 0 \<or> mHandle k \<noteq> 0 then DecoderPause k else k);
         k = k\<lparr>mAddBuffer := False, mIsConnected := False, mRealStatus := NET_PLAY_NONE\<rparr> in
     bnd (if cmd then DoStatus NET_STATUS_CLOSED 0 k else Ret k) (\<lambda>k.
     bnd (free_distortion (k\<lparr>mHandle := 0, mPlaybackHandle := 0\<rparr>)) (\<lambda>k. Ret (k, n)))))"

definition connect_once :: "sdk_results \<Rightarrow> connection \<Rightarrow> net \<Rightarrow> (int \<times> net) outcome" where
  "connect_once R k n =
     (if mVerify k = [] then connect3 R (mDeviceID k) (mIP k) (mPort k) (mP2p k) n
      else connect2 R (mDeviceID k) (mIP k) (mPort k) (mVerify k) (mP2p k) n)"

text \<open>When the newer protocol does not find the device, or an IP address cannot be reached, the older one is tried.\<close>

definition connect_or_fall_back :: "sdk_results \<Rightarrow> connection \<Rightarrow> net \<Rightarrow> (int \<times> connection \<times> net) outcome" where
  "connect_or_fall_back R k n =
     bnd (connect_once R k n) (\<lambda>(ret, n).
     bnd (deref (mP2p k) n) (\<lambda>c.
     if ret = KP2P_ERR_RESOLVE_FAILED \<and> c_version c = KCP_P2P \<or> ret < 0 \<and> mIP k \<noteq> [] then
       bnd (DestroyConnector R (mP2p k) n) (\<lambda>n.
       let (p, n) = new_JAP2PConnector n in
       bnd (createP2PHandle R 0 p n) (\<lambda>(h, n).
       let k = k\<lparr>mP2p := p, mHandle := h\<rparr> in
       bnd (connect_once R k n) (\<lambda>(ret, n). Ret (ret, k, n))))
     else Ret (ret, k, n)))"

definition connect_result :: "sdk_results \<Rightarrow> int \<Rightarrow> connection \<Rightarrow> net \<Rightarrow> (connection \<times> net) outcome" where
  "connect_result R ret k n =
     (if ret = 0 then
        bnd (vconCreate R ''RemoteSetup'' (mP2p k) n) (\<lambda>(h, n).
        bnd (DoStatus NET_STATUS_OPENING 0
               (k\<lparr>mAddBuffer := True, mIsConnected := True, mAreadyConnected := True, mDataHandle := h, connectNowStates := NET_STATUS_CONNECTED\<rparr>)) (\<lambda>k.
        Ret (k, n)))
      else if ret = 1 \<or> ret = KP2P_ERR_TIMEOUT then
        bnd (DoStatus NET_STATUS_TIMEOUT 0 k) (\<lambda>k. DoDisconnect R False (k\<lparr>connectNowStates := NET_STATUS_TIMEOUT\<rparr>) n)
      else if ret = 2 \<or> ret = KP2P_ERR_AUTH_FAILED \<or> ret = KP2P_ERR_AUTH2_FAILED then
        bnd (DoStatus NET_STATUS_AUTHOFAIL 0 (k\<lparr>connectNowStates := NET_STATUS_AUTHOFAIL\<rparr>)) (\<lambda>k. DoDisconnect R False k n)
      else
        bnd (DoStatus NET_STATUS_CONNECTFAIL 0 k) (\<lambda>k. DoDisconnect R False (k\<lparr>connectNowStates := NET_STATUS_CONNECTFAIL\<rparr>) n))"

definition ReConnect :: "sdk_results \<Rightarrow> nat \<Rightarrow> connection \<Rightarrow> net \<Rightarrow> (int \<times> connection \<times> net) outcome" where
  "ReConnect R me k n =
     bnd (DoStatus NET_STATUS_CONNECTING 0 k) (\<lambda>k.
     let k = notify (SetIsP360Dev False) (notify (SetIsP360Dev True) k) in
     bnd (if 15 < length (mDeviceID k) then Ret (new_JAP2PConnector n) else CreateConnector (mDeviceID k) (mIP k) (mPort k) n) (\<lambda>(p, n).
     bnd (createP2PHandle R me p n) (\<lambda>(h, n).
     bnd (connect_or_fall_back R (k\<lparr>mP2p := p, mHandle := h\<rparr>) n) (\<lambda>(ret, k, n).
     bnd (if mVerify k = [] \<and> ret = 0 then loginP2P R (mUser k) (mPwd k) (mP2p k) n else Ret (ret, n)) (\<lambda>(ret, n).
     bnd (connect_result R ret k n) (\<lambda>(k, n). Ret (ret, k, n)))))))"

definition DoConnect :: "sdk_results \<Rightarrow> nat \<Rightarrow> command \<Rightarrow> connection \<Rightarrow> net \<Rightarrow> (int \<times> connection \<times> net) outcome" where
  "DoConnect R me cmd k n =
     bnd (if connectNowStates k = NET_STATUS_CONNECTED
          then bnd (DoDisconnect R False (k\<lparr>isRecyceConnect := True\<rparr>) n) (\<lambda>(k, n). Ret (k\<lparr>connectNowStates := 0\<rparr>, n))
          else Ret (k\<lparr>isRecyceConnect := True\<rparr>, n)) (\<lambda>(k, n).
     bnd (ParseConnectString (ConnectStr cmd) (verifystr cmd) k) (\<lambda>k.
     bnd (reset_buffer k) (\<lambda>k. ReConnect R me k n)))"

section \<open>The other commands\<close>

definition DoOpenChannel :: "sdk_results \<Rightarrow> nat \<Rightarrow> command \<Rightarrow> bool \<Rightarrow> connection \<Rightarrow> net \<Rightarrow> (int \<times> connection \<times> net) outcome" where
  "DoOpenChannel R me cmd bOpen k n =
     (if mP2p k = 0 then Ret (-2, k, n)
      else
        bnd (reset_buffer k) (\<lambda>k.
        let k = (if bOpen then k\<lparr>mRecvIFrame := False, mAddBuffer := True\<rparr> else (DecoderPause k)\<lparr>mAddBuffer := False\<rparr>);
            k = k\<lparr>mChannelNo := channelNo cmd, mStreamNo := streamNo cmd, mHasSetP720 := 0\<rparr> in
        bnd (openChannel R (channelNo cmd) (streamNo cmd) bOpen me (mP2p k) n) (\<lambda>(ret, n).
        let k = (if ret \<noteq> 0 then k else if bOpen then DecoderResume (k\<lparr>mRealStatus := NET_PLAY_REAL\<rparr>) else k\<lparr>mRealStatus := NET_PLAY_NONE\<rparr>) in
        bnd (DoStatus (if bOpen then NET_STATUS_OPEN_VIDEO else NET_STATUS_CLOSE_VIDEO) 0 k) (\<lambda>k. Ret (ret, k, n)))))"

text \<open>The channel number is cut to a character. Playing goes on for eight hours; times are 32 bits wide.\<close>

definition DoStartPlayback :: "sdk_results \<Rightarrow> nat \<Rightarrow> command \<Rightarrow> connection \<Rightarrow> net \<Rightarrow> (int \<times> connection \<times> net) outcome" where
  "DoStartPlayback R me cmd k n =
     (let k = k\<lparr>mChannelNo := channelNo cmd\<rparr> in
      if \<not> mIsConnected k \<or> mP2p k = 0 then Ret (-1, k, n)
      else if 2 ^ 31 \<le> StartTime cmd + 28800 then UB SignedOverflow
      else
        bnd (playBackStart R (channelNo cmd mod 256) (StartTime cmd) (StartTime cmd + 28800) 15 me (mP2p k) n) (\<lambda>(h, n).
        let k = k\<lparr>mPlaybackHandle := h\<rparr> in
        if h \<noteq> 0 then Ret (0, DecoderResume (k\<lparr>mRealStatus := NET_PLAY_RECORD, mRecvIFrame := False, mAddBuffer := True\<rparr>), n) else Ret (-2, k, n)))"

definition DoStopPlayback :: "sdk_results \<Rightarrow> connection \<Rightarrow> net \<Rightarrow> (int \<times> connection \<times> net) outcome" where
  "DoStopPlayback R k n =
     bnd (if mPlaybackHandle k \<noteq> 0 \<and> mP2p k \<noteq> 0 then
            bnd (playBackStop R (mPlaybackHandle k) (mP2p k) n) (\<lambda>(_, n).
            bnd (reset_buffer (DecoderPause (k\<lparr>mPlaybackHandle := 0\<rparr>))) (\<lambda>k. Ret (k, n)))
          else Ret (k, n)) (\<lambda>(k, n).
     bnd (DoStatus NET_STATUS_CLOSE_VIDEO 0 k) (\<lambda>k. Ret (0, k, n)))"

definition DoPlaybackContinueGetdata :: "sdk_results \<Rightarrow> connection \<Rightarrow> net \<Rightarrow> (int \<times> net) outcome" where
  "DoPlaybackContinueGetdata R k n = (if mPlaybackHandle k \<noteq> 0 then playBackContinue R (mPlaybackHandle k) (mP2p k) n else Ret (-1, n))"

definition DoPlaybackPauseGetData :: "sdk_results \<Rightarrow> connection \<Rightarrow> net \<Rightarrow> (int \<times> net) outcome" where
  "DoPlaybackPauseGetData R k n = (if mPlaybackHandle k \<noteq> 0 then playBackPause R (mPlaybackHandle k) (mP2p k) n else Ret (-1, n))"

definition DoSendData :: "sdk_results \<Rightarrow> command \<Rightarrow> connection \<Rightarrow> net \<Rightarrow> (int \<times> net) outcome" where
  "DoSendData R cmd k n = (if \<not> mIsConnected k \<or> mP2p k = 0 then Ret (-1, n) else vconSend R (mDataHandle k) (cmd_data cmd) (mP2p k) n)"

definition DoStartPtzAction :: "sdk_results \<Rightarrow> command \<Rightarrow> connection \<Rightarrow> net \<Rightarrow> (int \<times> net) outcome" where
  "DoStartPtzAction R cmd k n = (if \<not> mIsConnected k then Ret (-1, n) else ptzCtrl R (channelNo cmd) (ptzCmd cmd) 1 1 0 (mP2p k) n)"

definition DoStopPtzAction :: "sdk_results \<Rightarrow> command \<Rightarrow> connection \<Rightarrow> net \<Rightarrow> (int \<times> net) outcome" where
  "DoStopPtzAction R cmd k n = (if \<not> mIsConnected k then Ret (-1, n) else ptzCtrl R (channelNo cmd) (ptzCmd cmd) 0 1 0 (mP2p k) n)"

definition DoCall :: "sdk_results \<Rightarrow> command \<Rightarrow> connection \<Rightarrow> net \<Rightarrow> (int \<times> net) outcome" where
  "DoCall R cmd k n = (if \<not> mIsConnected k then Ret (-1, n) else p2p_call R (channelNo cmd) (mP2p k) n)"

definition DoHangUp :: "sdk_results \<Rightarrow> connection \<Rightarrow> net \<Rightarrow> (int \<times> net) outcome" where
  "DoHangUp R k n = (if \<not> mIsConnected k then Ret (-1, n) else p2p_hangup R (mP2p k) n)"

definition DoSendAudioPacket :: "sdk_results \<Rightarrow> command \<Rightarrow> connection \<Rightarrow> net \<Rightarrow> (int \<times> net) outcome" where
  "DoSendAudioPacket R cmd k n =
     (if \<not> mIsConnected k then Ret (-1, n) else case paudioPacket cmd of None \<Rightarrow> UB NullDeref | Some a \<Rightarrow> talkSend R a (mP2p k) n)"

definition DoPullAlarmmsg :: "sdk_results \<Rightarrow> command \<Rightarrow> connection \<Rightarrow> net \<Rightarrow> (int \<times> net) outcome" where
  "DoPullAlarmmsg R cmd k n = (if \<not> mIsConnected k then Ret (-1, n) else pullAlarm R (alarmmsg_type cmd) (channelNo cmd) (ticket cmd) (mP2p k) n)"

text \<open>The list of what the search finds, up to its end, is a parameter.\<close>

fun search_loop :: "sdk_results \<Rightarrow> int \<Rightarrow> rec_file list option list \<Rightarrow> connection \<Rightarrow> net \<Rightarrow> (connection \<times> net) outcome" where
  "search_loop R sh [] k n = Ret (k, n)"
| "search_loop R sh (found # later) k n =
     bnd (findFileNext R sh found (mP2p k) n) (\<lambda>(rs, n).
     case rs of
       None \<Rightarrow> Ret (k, n)
     | Some [] \<Rightarrow> Ret (k, n)
     | Some rs \<Rightarrow> search_loop R sh later (k\<lparr>out := out k @ map (\<lambda>r. OnSearchData (Some r)) rs\<rparr>) n)"

definition DoSearchRec :: "sdk_results \<Rightarrow> (sdk_call list \<Rightarrow> rec_file list option list) \<Rightarrow> command \<Rightarrow> connection \<Rightarrow> net \<Rightarrow> (int \<times> connection \<times> net) outcome" where
  "DoSearchRec R F cmd k n =
     (if \<not> mIsConnected k then Ret (-1, k, n)
      else
        bnd (findFileTaskStart R (channelNo cmd mod 256) (StartTime cmd) (EndTime cmd) 15 (mP2p k) n) (\<lambda>(sh, n).
        if sh = 0 then Ret (-1, k, n)
        else
          bnd (search_loop R sh (F (sdk_calls n)) k n) (\<lambda>(k, n).
          bnd (findFileTaskClose R sh (mP2p k) n) (\<lambda>(_, n). Ret (0, notify (OnSearchData None) k, n)))))"

section \<open>The task thread\<close>

definition keep :: "connection \<Rightarrow> (int \<times> net) outcome \<Rightarrow> (int \<times> connection \<times> net) outcome" where
  "keep k r = bnd r (\<lambda>(ret, n). Ret (ret, k, n))"

definition run_command ::
    "sdk_results \<Rightarrow> (sdk_call list \<Rightarrow> rec_file list option list) \<Rightarrow> nat \<Rightarrow> command \<Rightarrow> connection \<Rightarrow> net \<Rightarrow> (int \<times> connection \<times> net) outcome" where
  "run_command R F me cmd k n =
     (let c = commandNo cmd in
      if c = CMD_CONNECT then DoConnect R me cmd k n
      else if c = CMD_OPENCHANNEL then bnd (DoOpenChannel R me cmd True k n) (\<lambda>(ret, k, n). if ret \<noteq> 0 then ReConnect R me k n else Ret (ret, k, n))
      else if c = CMD_CLOSECHANNEL then DoOpenChannel R me cmd False k n
      else if c = CMD_PTZSTART then keep k (DoStartPtzAction R cmd k n)
      else if c = CMD_PTZSTOP then keep k (DoStopPtzAction R cmd k n)
      else if c = CMD_SEARCHREC then DoSearchRec R F cmd k n
      else if c = CMD_STARTPLAYBACK then DoStartPlayback R me cmd k n
      else if c = CMD_STOPPLAYBACK then DoStopPlayback R k n
      else if c = CMD_DISCONNECT then bnd (DoDisconnect R True k n) (\<lambda>(k, n). Ret (0, k, n))
      else if c = CMD_PLAYBACK_PAUSE then keep k (DoPlaybackPauseGetData R k n)
      else if c = CMD_PLAYBACK_CONTINUE then keep k (DoPlaybackContinueGetdata R k n)
      else if c = CMD_SENDDATA then keep k (DoSendData R cmd k n)
      else if c = CMD_CALL then keep k (DoCall R cmd k n)
      else if c = CMD_HANG_UP then keep k (DoHangUp R k n)
      else if c = CMD_SEND_AUDIO then keep k (DoSendAudioPacket R cmd k n)
      else if c = CMD_PULL_ALARMMSG then keep k (DoPullAlarmmsg R cmd k n)
      else Ret (-1, k, n))"

text \<open>One round of the thread: whether it ends, and the new state.\<close>

definition task_round ::
    "sdk_results \<Rightarrow> (sdk_call list \<Rightarrow> rec_file list option list) \<Rightarrow> nat \<Rightarrow> connection \<Rightarrow> net \<Rightarrow> (bool \<times> connection \<times> net) outcome" where
  "task_round R F me k n =
     (case mCommand k of
        [] \<Rightarrow> Ret (\<not> mRunThread k, k, n)
      | cmd # rest \<Rightarrow>
          bnd (run_command R F me cmd (k\<lparr>mCommand := rest\<rparr>) n) (\<lambda>(_, k, n). Ret (\<not> mRunThread k \<and> rest = [], k, n)))"

text \<open>The whole thread, with at most \<open>m\<close> rounds.\<close>

fun HandleTaskThread ::
    "nat \<Rightarrow> sdk_results \<Rightarrow> (sdk_call list \<Rightarrow> rec_file list option list) \<Rightarrow> nat \<Rightarrow> connection \<Rightarrow> net \<Rightarrow> (connection \<times> net) outcome option" where
  "HandleTaskThread 0 R F me k n = None"
| "HandleTaskThread (Suc m) R F me k n =
     (case task_round R F me k n of
        Ret (finished, k, n) \<Rightarrow> if finished then Some (Ret (k, n)) else HandleTaskThread m R F me k n
      | UB u \<Rightarrow> Some (UB u)
      | Blocked \<Rightarrow> Some Blocked)"

section \<open>Callbacks and setters\<close>

text \<open>When the camera ends the connection it is set up again, with the strings of the last call.\<close>

definition OnDisconnect :: "int \<Rightarrow> connection \<Rightarrow> connection outcome" where
  "OnDisconnect ret k =
     (if (ret = 5 \<or> ret = KP2P_ERR_CLOSE_BY_PEER) \<and> connectNowStates k = NET_STATUS_AUTHOFAIL then Ret k
      else
        bnd (if ret = 4 \<or> ret = KP2P_ERR_CLOSE_BY_SELF \<or> ret = 3 then DoStatus NET_STATUS_ACTIVECLOSED ret k else Ret k) (\<lambda>k.
        if (ret = 5 \<or> ret = 2 \<or> ret = KP2P_ERR_CLOSE_BY_PEER \<or> ret = KP2P_ERR_TIMEOUT) \<and> mAreadyConnected k
        then Connect (connectStr k) (verifyStr k) (mChannelNo k) k else Ret k))"

definition setDistTortion :: "byte list \<Rightarrow> connection \<Rightarrow> connection outcome" where
  "setDistTortion bs k =
     (if length bs < 8 then Ret k
      else if mDistTortion k = Freed then UB UseAfterFree
      else Ret (k\<lparr>mDistTortion := Owned bs, mDistLen := int (length bs)\<rparr>))"

definition SetHasSetP720 :: "bool \<Rightarrow> connection \<Rightarrow> connection" where
  "SetHasSetP720 b k = k\<lparr>mHasSetP720 := if b then 2 else 0\<rparr>"

definition SetHasSetP360 :: "bool \<Rightarrow> connection \<Rightarrow> connection" where
  "SetHasSetP360 b k = k\<lparr>mHasSetP720 := if b then 1 else 0\<rparr>"

text \<open>The thread that the manager of the connections starts to disconnect.\<close>

definition DoDisconnectThread :: "sdk_results \<Rightarrow> connection \<Rightarrow> net \<Rightarrow> (connection \<times> net) outcome" where
  "DoDisconnectThread R k n = DoDisconnect R True k n"

text \<open>Sending sound does not go through the queue, and does not test whether there is a connector.\<close>

definition SendAudioPacket :: "sdk_results \<Rightarrow> audio_packet \<Rightarrow> connection \<Rightarrow> net \<Rightarrow> (int \<times> net) outcome" where
  "SendAudioPacket R a k n = talkSend R a (mP2p k) n"

definition Call :: "sdk_results \<Rightarrow> int \<Rightarrow> connection \<Rightarrow> net \<Rightarrow> (int \<times> net) outcome" where
  "Call R ch k n = (if \<not> mIsConnected k then Ret (-1, n) else p2p_call R ch (mP2p k) n)"

definition HangUp :: "sdk_results \<Rightarrow> connection \<Rightarrow> net \<Rightarrow> (int \<times> net) outcome" where
  "HangUp R k n = (if \<not> mIsConnected k then Ret (-1, n) else p2p_hangup R (mP2p k) n)"

end
