(* ===== verification/ConnectionSafe.thy ===== *)
theory ConnectionSafe
  imports Connection "HOL-Library.Sublist"
begin

text \<open>
  Connections that share their connectors: whatever commands they carry out, in whatever order, none uses a connector that was freed or a null pointer, and a task thread that
  is told to stop ends. Two things go wrong on the way and are named here: the distortion data of a camera can be freed twice, and the library can refuse a search.
\<close>

section \<open>The invariant of a connection\<close>

definition good_command :: "command \<Rightarrow> bool" where
  "good_command c \<longleftrightarrow>
     (commandNo c = CMD_CONNECT \<longrightarrow> good_address (ConnectStr c) \<and> good_login (verifystr c)) \<and>
     (commandNo c = CMD_STARTPLAYBACK \<longrightarrow> StartTime c + 28800 < 2 ^ 31) \<and>
     (commandNo c = CMD_SEND_AUDIO \<longrightarrow> paudioPacket c \<noteq> None)"

definition good_strings :: "string \<Rightarrow> string \<Rightarrow> bool" where
  "good_strings cs vs \<longleftrightarrow> good_address cs \<and> good_login vs \<and> length cs < 80 \<and> length vs < 100"

definition unlocked :: "media_buffer option \<Rightarrow> bool" where
  "unlocked b \<longleftrightarrow> (case b of None \<Rightarrow> True | Some b \<Rightarrow> \<not> mb_mutex b)"

definition conn_ok :: "connection \<Rightarrow> bool" where
  "conn_ok k \<longleftrightarrow>
     (mP2p k = 0 \<longrightarrow> mDataHandle k = 0 \<and> mPlaybackHandle k = 0 \<and> \<not> mIsConnected k) \<and>
     unlocked (mBuffer k) \<and>
     length (mDeviceID k) < 20 \<and> length (mIP k) < 80 \<and> (\<forall>c\<in>set (mCommand k). good_command c) \<and>
     good_strings (connectStr k) (verifyStr k)"

text \<open>\<open>h\<close> counts the other connections that hold a connector.\<close>

definition good :: "(nat \<Rightarrow> nat) \<Rightarrow> connection \<Rightarrow> net \<Rightarrow> bool" where
  "good h k n \<longleftrightarrow> conn_ok k \<and> net_ok (held (mP2p k) h) n"

text \<open>The distortion data were freed, and the next disconnection will free them again.\<close>

definition freed_twice :: "connection \<Rightarrow> bool" where
  "freed_twice k \<longleftrightarrow> mHasSetP720 k \<noteq> 0 \<and> mDistTortion k = Freed"

text \<open>What every command does with the queue and the thread: it keeps the queue, or it drops all commands but those that connect.\<close>

definition connects :: "command \<Rightarrow> bool" where
  "connects = (\<lambda>c. commandNo c = CMD_CONNECT)"

definition kept :: "connection \<Rightarrow> connection \<Rightarrow> bool" where
  "kept k k' \<longleftrightarrow> mRunThread k' = mRunThread k \<and> (freed_twice k' \<longrightarrow> freed_twice k) \<and> (mCommand k' = mCommand k \<or> mCommand k' = filter connects (mCommand k))"

lemma kept_refl [simp]: "kept k k"
  by (simp add: kept_def)

lemma kept_trans: "kept k k' \<Longrightarrow> kept k' k'' \<Longrightarrow> kept k k''"
  by (auto simp: kept_def)

text \<open>A computation that returns with \<open>P\<close>, or fails because \<open>bad\<close>.\<close>

definition returns :: "bool \<Rightarrow> ('a \<Rightarrow> bool) \<Rightarrow> 'a outcome \<Rightarrow> bool" where
  "returns bad P x \<longleftrightarrow> (case x of Ret y \<Rightarrow> P y | UB _ \<Rightarrow> bad | Blocked \<Rightarrow> False)"

lemma returns_simps [simp]: "returns bad P (Ret y) = P y" "returns bad P (UB u) = bad" "\<not> returns bad P Blocked"
  by (simp_all add: returns_def)

lemma returns_bnd:
  assumes "returns bad P x" "\<And>y. P y \<Longrightarrow> returns bad Q (f y)"
  shows "returns bad Q (bnd x f)"
  using assms by (cases x) auto

lemma returns_mono:
  assumes "returns bad P x" "bad \<Longrightarrow> bad'" "\<And>y. P y \<Longrightarrow> Q y"
  shows "returns bad' Q x"
  using assms by (cases x) auto

lemma returnsE:
  assumes "returns bad P x"
  obtains (ret) y where "x = Ret y" "P y" | (fail) u where "x = UB u" bad
  using assms by (cases x) auto

lemma notify_fields [simp]:
  "mP2p (notify e k) = mP2p k" "mDataHandle (notify e k) = mDataHandle k" "mPlaybackHandle (notify e k) = mPlaybackHandle k" "mIsConnected (notify e k) = mIsConnected k"
  "mBuffer (notify e k) = mBuffer k" "mHasSetP720 (notify e k) = mHasSetP720 k" "mDistTortion (notify e k) = mDistTortion k" "mDeviceID (notify e k) = mDeviceID k"
  "mIP (notify e k) = mIP k" "mCommand (notify e k) = mCommand k" "mRunThread (notify e k) = mRunThread k" "mHandle (notify e k) = mHandle k" "mVerify (notify e k) = mVerify k"
  "connectNowStates (notify e k) = connectNowStates k" "connectStr (notify e k) = connectStr k" "verifyStr (notify e k) = verifyStr k"
  by (simp_all add: notify_def)

lemma decoder_fields [simp]:
  "mP2p (DecoderPause k) = mP2p k" "mDataHandle (DecoderPause k) = mDataHandle k" "mPlaybackHandle (DecoderPause k) = mPlaybackHandle k"
  "mIsConnected (DecoderPause k) = mIsConnected k" "mBuffer (DecoderPause k) = mBuffer k" "mHasSetP720 (DecoderPause k) = mHasSetP720 k"
  "mDistTortion (DecoderPause k) = mDistTortion k" "mDeviceID (DecoderPause k) = mDeviceID k" "mIP (DecoderPause k) = mIP k" "mCommand (DecoderPause k) = mCommand k"
  "mRunThread (DecoderPause k) = mRunThread k" "mHandle (DecoderPause k) = mHandle k"
  "mP2p (DecoderResume k) = mP2p k" "mDataHandle (DecoderResume k) = mDataHandle k" "mPlaybackHandle (DecoderResume k) = mPlaybackHandle k"
  "mIsConnected (DecoderResume k) = mIsConnected k" "mBuffer (DecoderResume k) = mBuffer k" "mHasSetP720 (DecoderResume k) = mHasSetP720 k"
  "mDistTortion (DecoderResume k) = mDistTortion k" "mDeviceID (DecoderResume k) = mDeviceID k" "mIP (DecoderResume k) = mIP k" "mCommand (DecoderResume k) = mCommand k"
  "mRunThread (DecoderResume k) = mRunThread k"
  "connectStr (DecoderPause k) = connectStr k" "verifyStr (DecoderPause k) = verifyStr k" "connectStr (DecoderResume k) = connectStr k" "verifyStr (DecoderResume k) = verifyStr k"
  by (simp_all add: DecoderPause_def DecoderResume_def)

lemma DoStatus_simple: "s \<noteq> NET_STATUS_DISCONNECTED \<Longrightarrow> DoStatus s c k = Ret (notify (OnStatus s c) k)"
  by (simp add: DoStatus_def)

lemma status_codes [simp]:
  "NET_STATUS_CONNECTING \<noteq> NET_STATUS_DISCONNECTED" "NET_STATUS_CLOSED \<noteq> NET_STATUS_DISCONNECTED" "NET_STATUS_OPENING \<noteq> NET_STATUS_DISCONNECTED"
  "NET_STATUS_TIMEOUT \<noteq> NET_STATUS_DISCONNECTED" "NET_STATUS_AUTHOFAIL \<noteq> NET_STATUS_DISCONNECTED" "NET_STATUS_CONNECTFAIL \<noteq> NET_STATUS_DISCONNECTED"
  "NET_STATUS_OPEN_VIDEO \<noteq> NET_STATUS_DISCONNECTED" "NET_STATUS_CLOSE_VIDEO \<noteq> NET_STATUS_DISCONNECTED" "NET_STATUS_ACTIVECLOSED \<noteq> NET_STATUS_DISCONNECTED"
  by (simp_all add: NET_STATUS_CONNECTING_def NET_STATUS_CLOSED_def NET_STATUS_OPENING_def NET_STATUS_TIMEOUT_def NET_STATUS_AUTHOFAIL_def NET_STATUS_CONNECTFAIL_def
     NET_STATUS_OPEN_VIDEO_def NET_STATUS_CLOSE_VIDEO_def NET_STATUS_ACTIVECLOSED_def NET_STATUS_DISCONNECTED_def)

lemma reset_buffer_ok: "unlocked (mBuffer k) \<Longrightarrow> \<exists>b. reset_buffer k = Ret (k\<lparr>mBuffer := b\<rparr>) \<and> unlocked b"
  by (cases "mBuffer k") (auto simp: reset_buffer_def ResetMediaBuffer_def unlocked_def)

section \<open>Every handler keeps it\<close>

lemma ok_pairE: "ok_to (\<lambda>(a, b). P a b) r \<Longrightarrow> (\<And>a b. r = Ret (a, b) \<Longrightarrow> P a b \<Longrightarrow> thesis) \<Longrightarrow> thesis"
  by (auto simp: ok_to_def)

lemma ok_tripleE: "ok_to (\<lambda>(a, b, c). P a b c) r \<Longrightarrow> (\<And>a b c. r = Ret (a, b, c) \<Longrightarrow> P a b c \<Longrightarrow> thesis) \<Longrightarrow> thesis"
  by (auto simp: ok_to_def)

text \<open>An operation that frees nothing, called by the holder of a connector.\<close>

lemma frame_okE:
  assumes "net_ok (held p h) n" "0 < p" "\<And>n. alive p n \<Longrightarrow> ok_to (\<lambda>(_, n'). same_conns n n') (f n)"
  obtains r n' where "f n = Ret (r, n')" "net_ok (held p h) n'"
  using assms(3) [OF net_ok_alive [OF assms(1,2)]] by (rule ok_pairE) (use net_ok_same [OF _ assms(1)] that in blast)

lemma close_handles_ok:
  assumes ok: "conn_ok k" "net_ok (held (mP2p k) h) n"
  obtains n' where "close_handles R k n = Ret (k\<lparr>mDataHandle := 0, mPlaybackHandle := 0\<rparr>, n')" "net_ok (held (mP2p k) h) n'"
proof (cases "mP2p k = 0")
  case True
  then have "k\<lparr>mDataHandle := 0, mPlaybackHandle := 0\<rparr> = k" using ok by (simp add: conn_ok_def)
  then show thesis using True ok that [of n] by (simp add: close_handles_def conn_ok_def)
next
  case False
  then have p: "0 < mP2p k" by simp
  define k1 where "k1 = k\<lparr>mDataHandle := 0\<rparr>"
  obtain n1 where n1: "(if mDataHandle k \<noteq> 0 then bnd (vconDestroy R (mDataHandle k) (mP2p k) n) (\<lambda>(_, n). Ret (k\<lparr>mDataHandle := 0\<rparr>, n)) else Ret (k, n)) = Ret (k1, n1)"
    "net_ok (held (mP2p k) h) n1"
  proof (cases "mDataHandle k = 0")
    case False
    obtain a n1 where "vconDestroy R (mDataHandle k) (mP2p k) n = Ret (a, n1)" "net_ok (held (mP2p k) h) n1"
      by (rule frame_okE [OF ok(2) p simple_frame(4)])
    then show thesis using False that [of n1] by (simp add: k1_def)
  qed (use ok that [of n] in \<open>simp add: k1_def\<close>)
  obtain b n2 where n2: "playBackStop R (mPlaybackHandle k) (mP2p k) n1 = Ret (b, n2)" "net_ok (held (mP2p k) h) n2"
    by (rule frame_okE [OF n1(2) p simple_frame(10)])
  show thesis
  proof (cases "mPlaybackHandle k = 0")
    case True
    then have "k1 = k\<lparr>mDataHandle := 0, mPlaybackHandle := 0\<rparr>" by (simp add: k1_def)
    then show thesis using that [of n1] n1 True by (simp add: close_handles_def k1_def)
  next
    case False
    then show thesis using that [of n2] n1 n2 by (simp add: close_handles_def k1_def)
  qed
qed

lemma release_p2p_ok:
  assumes ok: "net_ok (held (mP2p k) h) n"
  obtains p n' where "release_p2p R k n = Ret (k\<lparr>mP2p := p\<rparr>, n')" "net_ok (held p h) n'"
proof (cases "mHandle k \<noteq> 0 \<and> mP2p k \<noteq> 0")
  case True
  then have "alive (mP2p k) n" using net_ok_alive [OF ok] by simp
  then obtain c where c: "conn_heap n (mP2p k) = Some c" "0 < mP2p k" by (rule aliveE)
  then have "release_p2p R k n = bnd (DestroyConnector R (mP2p k) n) (\<lambda>n. Ret (k\<lparr>mP2p := 0\<rparr>, n))"
    using True by (simp add: release_p2p_def DestroyConnector_def)
  moreover obtain n' where "DestroyConnector R (mP2p k) n = Ret n'" "net_ok h n'" by (rule connectors.releaseE [OF ok])
  ultimately show thesis using that [of 0 n'] by simp
next
  case False
  have "k\<lparr>mP2p := mP2p k\<rparr> = k" by simp
  then show thesis using False ok that [of "mP2p k" n] by (auto simp: release_p2p_def)
qed

lemma free_distortion_ok:
  "returns (freed_twice k) (\<lambda>k'. mHasSetP720 k' = 0 \<and> (\<exists>d l. k' = k\<lparr>mHasSetP720 := 0, mDistTortion := d, mDistLen := l\<rparr>)) (free_distortion k)"
proof (cases "mHasSetP720 k = 0")
  case True
  then have "free_distortion k = Ret (k\<lparr>mHasSetP720 := 0, mDistTortion := mDistTortion k, mDistLen := mDistLen k\<rparr>)" by (simp add: free_distortion_def)
  then show ?thesis by (simp only: returns_simps) (intro conjI exI, simp, rule refl)
next
  case False
  show ?thesis
  proof (cases "mDistTortion k")
    case NullPtr
    then have "free_distortion k = Ret (k\<lparr>mHasSetP720 := 0, mDistTortion := NullPtr, mDistLen := 0\<rparr>)" using False by (simp add: free_distortion_def)
    then show ?thesis by auto
  next
    case (Owned bs)
    then have "free_distortion k = Ret (k\<lparr>mHasSetP720 := 0, mDistTortion := Freed, mDistLen := 0\<rparr>)" using False by (simp add: free_distortion_def)
    then show ?thesis by auto
  qed (use False in \<open>simp add: free_distortion_def freed_twice_def\<close>)
qed

lemma DoDisconnect_ok:
  assumes ok: "good h k n"
  shows "returns (freed_twice k) (\<lambda>(k', n'). good h k' n' \<and> kept k k' \<and> mHasSetP720 k' = 0) (DoDisconnect R cmd k n)"
proof -
  define k1 where "k1 = k\<lparr>isRecyceConnect := False, mCommand := filter (\<lambda>c. commandNo c = CMD_CONNECT) (mCommand k)\<rparr>"
  have k1: "conn_ok k1" "net_ok (held (mP2p k1) h) n" using ok by (auto simp: k1_def good_def conn_ok_def)
  define k2 where "k2 = k1\<lparr>mDataHandle := 0, mPlaybackHandle := 0\<rparr>"
  obtain n2 where n2: "close_handles R k1 n = Ret (k2, n2)" "net_ok (held (mP2p k2) h) n2"
    using close_handles_ok [OF k1(1,2), of R] by (auto simp: k2_def)
  obtain p n3 where n3: "release_p2p R k2 n2 = Ret (k2\<lparr>mP2p := p\<rparr>, n3)" "net_ok (held p h) n3" by (rule release_p2p_ok [OF n2(2)])
  define k3 where "k3 = (notify DecoderResetData (if mHandle k2 \<noteq> 0 then DecoderPause (k2\<lparr>mP2p := p\<rparr>) else k2\<lparr>mP2p := p\<rparr>))
    \<lparr>mAddBuffer := False, mIsConnected := False, mRealStatus := NET_PLAY_NONE\<rparr>"
  define k4 where "k4 = (if cmd then notify (OnStatus NET_STATUS_CLOSED 0) k3 else k3)\<lparr>mHandle := 0, mPlaybackHandle := 0\<rparr>"
  have k4: "mP2p k4 = p" "mDataHandle k4 = 0" "mPlaybackHandle k4 = 0" "\<not> mIsConnected k4"
    "unlocked (mBuffer k4)" "length (mDeviceID k4) < 20" "length (mIP k4) < 80" "\<forall>c\<in>set (mCommand k4). good_command c"
    "good_strings (connectStr k4) (verifyStr k4)" "mRunThread k4 = mRunThread k" "mCommand k4 = filter connects (mCommand k)" "freed_twice k4 = freed_twice k"
    using k1 by (auto simp: k4_def k3_def k2_def conn_ok_def k1_def DecoderPause_def connects_def freed_twice_def)
  have post: "good h k' n3 \<and> kept k k' \<and> mHasSetP720 k' = 0" if "mHasSetP720 k' = 0 \<and> (\<exists>d l. k' = k4\<lparr>mHasSetP720 := 0, mDistTortion := d, mDistLen := l\<rparr>)" for k'
    using that k4 n3(2) by (auto simp: good_def conn_ok_def kept_def freed_twice_def)
  have k3': "(notify DecoderResetData (if mPlaybackHandle (k2\<lparr>mP2p := p\<rparr>) \<noteq> 0 \<or> mHandle (k2\<lparr>mP2p := p\<rparr>) \<noteq> 0 then DecoderPause (k2\<lparr>mP2p := p\<rparr>) else k2\<lparr>mP2p := p\<rparr>))
    \<lparr>mAddBuffer := False, mIsConnected := False, mRealStatus := NET_PLAY_NONE\<rparr> = k3" by (simp add: k3_def k2_def)
  have "(if cmd then DoStatus NET_STATUS_CLOSED 0 k3 else Ret k3) = Ret (if cmd then notify (OnStatus NET_STATUS_CLOSED 0) k3 else k3)" by (simp add: DoStatus_simple)
  then have "DoDisconnect R cmd k n = bnd (free_distortion k4) (\<lambda>k. Ret (k, n3))"
    unfolding DoDisconnect_def k1_def [symmetric] n2(1) bnd_simps case_prod_conv n3(1) Let_def k3' by (simp add: k4_def)
  then show ?thesis by (simp only:) (rule returns_bnd [OF free_distortion_ok [of k4, unfolded k4(12)]], use post in simp)
qed

lemma new_connector_held:
  assumes ok: "net_ok h n" and new: "new_connector UDX_P2P n = (p, n')"
  shows "net_ok (held p h) n'"
proof -
  note nc = new_connector_ok [OF ok new]
  obtain c where c: "conn_heap n' p = Some c" "c_version c = UDX_P2P" using nc(4) by blast
  have "count_ok (held p h p) c" using c(2) nc(2,3) by (simp add: count_ok_def held_same)
  from net_ok_set [where h' = "held p h", OF nc(1) c(1) this] have "net_ok (held p h) (set_conn p c n')" by (simp add: held_other)
  moreover have "set_conn p c n' = n'" using c(1) by (simp add: set_conn_def fun_upd_idem)
  ultimately show ?thesis by simp
qed

lemma connect_once_ok:
  assumes "net_ok (held (mP2p k) h) n" "0 < mP2p k" "length (mDeviceID k) < 20" "length (mIP k) < 80"
  obtains ret n' where "connect_once R k n = Ret (ret, n')" "net_ok (held (mP2p k) h) n'"
  by (rule frame_okE [OF assms(1,2), where f = "connect_once R k"])
     (use assms(3,4) in \<open>auto simp: connect_once_def intro: connect2_frame connect3_frame\<close>)

lemma connect_or_fall_back_ok:
  assumes ok: "net_ok (held (mP2p k) h) n" "0 < mP2p k" "length (mDeviceID k) < 20" "length (mIP k) < 80"
  obtains ret p hd n' where "connect_or_fall_back R k n = Ret (ret, k\<lparr>mP2p := p, mHandle := hd\<rparr>, n')" "0 < p" "net_ok (held p h) n'"
proof -
  obtain ret n1 where n1: "connect_once R k n = Ret (ret, n1)" "net_ok (held (mP2p k) h) n1" by (rule connect_once_ok [OF ok])
  obtain c where c: "conn_heap n1 (mP2p k) = Some c" using net_ok_alive [OF n1(2) ok(2)] by (rule aliveE)
  show thesis
  proof (cases "ret = KP2P_ERR_RESOLVE_FAILED \<and> c_version c = KCP_P2P \<or> ret < 0 \<and> mIP k \<noteq> []")
    case True
    obtain n2 where n2: "DestroyConnector R (mP2p k) n1 = Ret n2" "net_ok h n2" by (rule connectors.releaseE [OF n1(2)])
    obtain p n3 where new: "new_connector UDX_P2P n2 = (p, n3)" by force
    note nc = new_connector_ok [OF n2(2) new]
    note n3 = new_connector_held [OF n2(2) new]
    obtain hd n4 where n4: "createP2PHandle R 0 p n3 = Ret (hd, n4)" "net_ok (held p h) n4" by (rule frame_okE [OF n3 nc(3) createP2PHandle_frame])
    define k' where "k' = k\<lparr>mP2p := p, mHandle := hd\<rparr>"
    have "mP2p k' = p" "0 < mP2p k'" "length (mDeviceID k') < 20" "length (mIP k') < 80" using nc(3) ok by (simp_all add: k'_def)
    with n4(2) obtain ret' n5 where n5: "connect_once R k' n4 = Ret (ret', n5)" "net_ok (held p h) n5" by (metis connect_once_ok)
    have "connect_or_fall_back R k n = Ret (ret', k', n5)"
      using n1(1) c n2(1) new n4(1) n5(1) True ok(2) unfolding connect_or_fall_back_def k'_def by (simp add: new_JAP2PConnector_def)
    then show thesis using nc(3) n5(2) unfolding k'_def by (rule that)
  next
    case False
    then have "connect_or_fall_back R k n = Ret (ret, k\<lparr>mP2p := mP2p k, mHandle := mHandle k\<rparr>, n1)"
      using n1(1) c ok(2) unfolding connect_or_fall_back_def by auto
    then show thesis using ok(2) n1(2) by (rule that)
  qed
qed

text \<open>Updates of fields that the invariant and the queue do not depend on.\<close>

lemma good_fields [simp]:
  "good h (notify e k) n = good h k n" "good h (DecoderPause k) n = good h k n" "good h (DecoderResume k) n = good h k n"
  "good h (k\<lparr>mAddBuffer := b\<rparr>) n = good h k n" "good h (k\<lparr>mRecvIFrame := b\<rparr>) n = good h k n" "good h (k\<lparr>mRealStatus := i\<rparr>) n = good h k n"
  "good h (k\<lparr>mChannelNo := i\<rparr>) n = good h k n" "good h (k\<lparr>mStreamNo := i\<rparr>) n = good h k n" "good h (k\<lparr>connectNowStates := i\<rparr>) n = good h k n"
  "good h (k\<lparr>isRecyceConnect := b\<rparr>) n = good h k n" "good h (k\<lparr>out := es\<rparr>) n = good h k n"
  by (simp_all add: good_def conn_ok_def)

lemma freed_twice_fields [simp]:
  "freed_twice (notify e k) = freed_twice k" "freed_twice (DecoderPause k) = freed_twice k" "freed_twice (DecoderResume k) = freed_twice k"
  "freed_twice (k\<lparr>mAddBuffer := b\<rparr>) = freed_twice k" "freed_twice (k\<lparr>mRecvIFrame := b\<rparr>) = freed_twice k" "freed_twice (k\<lparr>mRealStatus := i\<rparr>) = freed_twice k"
  "freed_twice (k\<lparr>mChannelNo := i\<rparr>) = freed_twice k" "freed_twice (k\<lparr>mStreamNo := i\<rparr>) = freed_twice k" "freed_twice (k\<lparr>connectNowStates := i\<rparr>) = freed_twice k"
  "freed_twice (k\<lparr>isRecyceConnect := b\<rparr>) = freed_twice k" "freed_twice (k\<lparr>out := es\<rparr>) = freed_twice k" "freed_twice (k\<lparr>mBuffer := m\<rparr>) = freed_twice k"
  "freed_twice (k\<lparr>mPlaybackHandle := i\<rparr>) = freed_twice k" "freed_twice (k\<lparr>mDataHandle := i\<rparr>) = freed_twice k" "freed_twice (k\<lparr>mIsConnected := b\<rparr>) = freed_twice k"
  "freed_twice (k\<lparr>mAreadyConnected := b\<rparr>) = freed_twice k" "freed_twice (k\<lparr>mP2p := p\<rparr>) = freed_twice k" "freed_twice (k\<lparr>mHandle := i\<rparr>) = freed_twice k"
  "freed_twice (k\<lparr>mCommand := cs\<rparr>) = freed_twice k" "\<not> freed_twice (k\<lparr>mHasSetP720 := 0\<rparr>)"
  by (simp_all add: freed_twice_def notify_def DecoderPause_def DecoderResume_def)

lemma connect_result_ok:
  assumes ok: "good h k n" "0 < mP2p k"
  shows "returns (freed_twice k) (\<lambda>(k', n'). good h k' n' \<and> kept k k') (connect_result R ret k n)"
proof (cases "ret = 0")
  case True
  have n: "net_ok (held (mP2p k) h) n" using ok(1) by (simp add: good_def)
  obtain vh n1 where "vconCreate R ''RemoteSetup'' (mP2p k) n = Ret (vh, n1)" "net_ok (held (mP2p k) h) n1" by (rule frame_okE [OF n ok(2) simple_frame(2)])
  then show ?thesis using True ok by (simp add: connect_result_def DoStatus_simple good_def conn_ok_def kept_def)
next
  case False
  have g: "good h (notify e k) n" "good h ((notify e k)\<lparr>connectNowStates := s\<rparr>) n" "good h (notify e (k\<lparr>connectNowStates := s\<rparr>)) n" for e s
    using ok(1) by simp_all
  have dis: ?thesis if "connect_result R ret k n = DoDisconnect R False K n" "good h K n" "freed_twice K = freed_twice k" "mRunThread K = mRunThread k" "mCommand K = mCommand k" for K
    unfolding that(1) by (rule returns_mono [OF DoDisconnect_ok [OF that(2)]]) (use that(3-5) in \<open>auto simp: kept_def\<close>)
  consider "ret = 1 \<or> ret = KP2P_ERR_TIMEOUT" | "\<not> (ret = 1 \<or> ret = KP2P_ERR_TIMEOUT)" "ret = 2 \<or> ret = KP2P_ERR_AUTH_FAILED \<or> ret = KP2P_ERR_AUTH2_FAILED"
    | "\<not> (ret = 1 \<or> ret = KP2P_ERR_TIMEOUT)" "\<not> (ret = 2 \<or> ret = KP2P_ERR_AUTH_FAILED \<or> ret = KP2P_ERR_AUTH2_FAILED)" by blast
  then show ?thesis
  proof cases
    case 1
    show ?thesis by (rule dis [OF _ g(2)]) (use False 1 in \<open>auto simp: connect_result_def DoStatus_simple\<close>)
  next
    case 2
    show ?thesis by (rule dis [OF _ g(3)]) (use False 2 in \<open>auto simp: connect_result_def DoStatus_simple\<close>)
  next
    case 3
    show ?thesis by (rule dis [OF _ g(2)]) (use False 3 in \<open>auto simp: connect_result_def DoStatus_simple\<close>)
  qed
qed

lemma ReConnect_ok:
  assumes ok: "good h k n"
  shows "returns (freed_twice k) (\<lambda>(ret :: int, k', n'). good h k' n' \<and> kept k k') (ReConnect R me k n)"
proof -
  define k1 where "k1 = notify (SetIsP360Dev False) (notify (SetIsP360Dev True) (notify (OnStatus NET_STATUS_CONNECTING 0) k))"
  have n0: "net_ok h n" and len: "length (mDeviceID k1) < 20" "length (mIP k1) < 80" using ok net_ok_held by (auto simp: good_def conn_ok_def k1_def)
  obtain p n1 where n1: "(if 15 < length (mDeviceID k1) then Ret (new_JAP2PConnector n) else CreateConnector (mDeviceID k1) (mIP k1) (mPort k1) n) = Ret (p, n1)"
    "0 < p" "net_ok (held p h) n1"
  proof (cases "15 < length (mDeviceID k1)")
    case True
    obtain p n1 where new: "new_connector UDX_P2P n = (p, n1)" by force
    note nc = new_connector_ok [OF n0 new]
    have "net_ok (held p h) n1" by (rule new_connector_held [OF n0 new])
    then show thesis using that [of p n1] True new nc(3) by (simp add: new_JAP2PConnector_def)
  next
    case False
    then show thesis using that CreateConnector_ok [OF n0, of "mDeviceID k1" "mIP k1" "mPort k1"] by (auto simp: ok_to_def)
  qed
  obtain hd n2 where n2: "createP2PHandle R me p n1 = Ret (hd, n2)" "net_ok (held p h) n2" by (rule frame_okE [OF n1(3,2) createP2PHandle_frame])
  define k2 where "k2 = k1\<lparr>mP2p := p, mHandle := hd\<rparr>"
  have k2: "net_ok (held (mP2p k2) h) n2" "0 < mP2p k2" "length (mDeviceID k2) < 20" "length (mIP k2) < 80" using n2 n1(2) len by (simp_all add: k2_def)
  obtain ret q hd' n3 where n3: "connect_or_fall_back R k2 n2 = Ret (ret, k2\<lparr>mP2p := q, mHandle := hd'\<rparr>, n3)" "0 < q" "net_ok (held q h) n3"
    by (rule connect_or_fall_back_ok [OF k2])
  define k3 where "k3 = k2\<lparr>mP2p := q, mHandle := hd'\<rparr>"
  have n3': "net_ok (held (mP2p k3) h) n3" "0 < mP2p k3" using n3 by (simp_all add: k3_def)
  obtain ret' n4 where n4: "(if mVerify k3 = [] \<and> ret = 0 then loginP2P R (mUser k3) (mPwd k3) (mP2p k3) n3 else Ret (ret, n3)) = Ret (ret', n4)" "net_ok (held (mP2p k3) h) n4"
  proof (cases "mVerify k3 = [] \<and> ret = 0")
    case True
    obtain ret' n4 where "loginP2P R (mUser k3) (mPwd k3) (mP2p k3) n3 = Ret (ret', n4)" "net_ok (held (mP2p k3) h) n4"
      by (rule frame_okE [OF n3' loginP2P_frame])
    then show thesis using that True by simp
  qed (use n3' that in auto)
  have "good h k3 n4" using ok n4(2) n3(2) by (simp add: k3_def k2_def k1_def good_def conn_ok_def)
  note res = connect_result_ok [OF this n3'(2), of R ret']
  have 3: "freed_twice k3 = freed_twice k" "kept k3 k' \<Longrightarrow> kept k k'" for k' by (simp_all add: k3_def k2_def k1_def kept_def)
  have "ReConnect R me k n = bnd (connect_result R ret' k3 n4) (\<lambda>(k, n). Ret (ret', k, n))"
    unfolding ReConnect_def DoStatus_simple [OF status_codes(1)] bnd_simps Let_def k1_def [symmetric] n1(1) case_prod_conv n2(1) k2_def [symmetric] n3(1) k3_def [symmetric] n4(1) ..
  then show ?thesis by (simp only:) (rule returns_bnd [OF res [unfolded 3(1)]], use 3(2) in auto)
qed

lemma good_buffer: "good h k n \<Longrightarrow> unlocked b \<Longrightarrow> good h (k\<lparr>mBuffer := b\<rparr>) n"
  by (simp add: good_def conn_ok_def)

lemma good_net: "good h k n \<Longrightarrow> net_ok (held (mP2p k) h) n' \<Longrightarrow> good h k n'"
  by (simp add: good_def)

lemma goodD:
  assumes "good h k n"
  shows "net_ok (held (mP2p k) h) n" "mIsConnected k \<Longrightarrow> 0 < mP2p k" "mPlaybackHandle k \<noteq> 0 \<Longrightarrow> 0 < mP2p k" "unlocked (mBuffer k)"
  using assms by (auto simp: good_def conn_ok_def)

lemma reset_buffer_good:
  assumes "good h k n"
  obtains b where "reset_buffer k = Ret (k\<lparr>mBuffer := b\<rparr>)" "good h (k\<lparr>mBuffer := b\<rparr>) n"
  using reset_buffer_ok [OF goodD(4) [OF assms]] good_buffer [OF assms] that by blast

lemma DoConnect_ok:
  assumes ok: "good h k n" and cmd: "good_address (ConnectStr cmd)" "good_login (verifystr cmd)"
  shows "returns (freed_twice k) (\<lambda>(ret :: int, k', n'). good h k' n' \<and> kept k k') (DoConnect R me cmd k n)"
proof -
  have 1: "returns (freed_twice k) (\<lambda>(k', n'). good h k' n' \<and> kept k k') (if connectNowStates k = NET_STATUS_CONNECTED
      then bnd (DoDisconnect R False (k\<lparr>isRecyceConnect := True\<rparr>) n) (\<lambda>(k, n). Ret (k\<lparr>connectNowStates := 0\<rparr>, n))
      else Ret (k\<lparr>isRecyceConnect := True\<rparr>, n))"
  proof (cases "connectNowStates k = NET_STATUS_CONNECTED")
    case True
    have "good h (k\<lparr>isRecyceConnect := True\<rparr>) n" using ok by simp
    note DoDisconnect_ok [OF this, of R False]
    then show ?thesis using True by (auto intro: returns_bnd simp: kept_def)
  qed (use ok in \<open>simp add: kept_def\<close>)
  have 2: "returns (freed_twice k) (\<lambda>(ret :: int, k', n'). good h k' n' \<and> kept k k')
      (bnd (ParseConnectString (ConnectStr cmd) (verifystr cmd) k1) (\<lambda>k. bnd (reset_buffer k) (\<lambda>k. ReConnect R me k n1)))" if g1: "good h k1 n1" "kept k k1" for k1 n1
  proof -
    define k2 where "k2 = parsed (ConnectStr cmd) (verifystr cmd) k1"
    have same: "mP2p k2 = mP2p k1" "mDataHandle k2 = mDataHandle k1" "mPlaybackHandle k2 = mPlaybackHandle k1" "mIsConnected k2 = mIsConnected k1" "mBuffer k2 = mBuffer k1"
      "freed_twice k2 = freed_twice k1" "mCommand k2 = mCommand k1" "mRunThread k2 = mRunThread k1" "connectStr k2 = connectStr k1" "verifyStr k2 = verifyStr k1"
      by (simp_all add: k2_def parsed_def set_address_def set_login_def freed_twice_def Let_def)
    have "good h k2 n1" using g1(1) parsed_lengths [OF cmd(1), of "verifystr cmd" k1] by (simp add: good_def conn_ok_def same k2_def [symmetric])
    then obtain b where b: "reset_buffer k2 = Ret (k2\<lparr>mBuffer := b\<rparr>)" "good h (k2\<lparr>mBuffer := b\<rparr>) n1" by (rule reset_buffer_good)
    have "kept k (k2\<lparr>mBuffer := b\<rparr>)" using g1(2) same by (simp add: kept_def)
    then have "freed_twice (k2\<lparr>mBuffer := b\<rparr>) \<Longrightarrow> freed_twice k" "\<And>k'. kept (k2\<lparr>mBuffer := b\<rparr>) k' \<Longrightarrow> kept k k'" using kept_trans by (simp add: kept_def, blast)
    with ReConnect_ok [OF b(2), of R me] show ?thesis unfolding ParseConnectString_good [OF cmd] k2_def [symmetric] bnd_simps b(1) by (auto elim: returns_mono)
  qed
  show ?thesis unfolding DoConnect_def by (rule returns_bnd [OF 1]) (use 2 in auto)
qed

lemma DoOpenChannel_ok:
  assumes ok: "good h k n"
  obtains ret k' n' where "DoOpenChannel R me cmd bOpen k n = Ret (ret, k', n')" "good h k' n'" "kept k k'"
proof (cases "mP2p k = 0")
  case False
  obtain b where b: "reset_buffer k = Ret (k\<lparr>mBuffer := b\<rparr>)" "good h (k\<lparr>mBuffer := b\<rparr>) n" using ok by (rule reset_buffer_good)
  define k1 where "k1 = (if bOpen then k\<lparr>mBuffer := b, mRecvIFrame := False, mAddBuffer := True\<rparr> else (DecoderPause (k\<lparr>mBuffer := b\<rparr>))\<lparr>mAddBuffer := False\<rparr>)
    \<lparr>mChannelNo := channelNo cmd, mStreamNo := streamNo cmd, mHasSetP720 := 0\<rparr>"
  have k1: "good h k1 n" "mP2p k1 = mP2p k" using b(2) by (auto simp: k1_def good_def conn_ok_def)
  have p: "0 < mP2p k1" using False k1(2) by simp
  obtain ret n1 where n1: "openChannel R (channelNo cmd) (streamNo cmd) bOpen me (mP2p k1) n = Ret (ret, n1)" "net_ok (held (mP2p k1) h) n1"
    by (rule frame_okE [OF goodD(1) [OF k1(1)] p openChannel_frame])
  define k2 where "k2 = (if ret \<noteq> 0 then k1 else if bOpen then DecoderResume (k1\<lparr>mRealStatus := NET_PLAY_REAL\<rparr>) else k1\<lparr>mRealStatus := NET_PLAY_NONE\<rparr>)"
  define s where "s = (if bOpen then NET_STATUS_OPEN_VIDEO else NET_STATUS_CLOSE_VIDEO)"
  have "s \<noteq> NET_STATUS_DISCONNECTED" by (simp add: s_def)
  then have "DoOpenChannel R me cmd bOpen k n = Ret (ret, notify (OnStatus s 0) k2, n1)"
    using False unfolding DoOpenChannel_def Let_def b(1) bnd_simps k1_def [symmetric] n1(1) case_prod_conv k2_def [symmetric] s_def [symmetric]
    by (simp add: DoStatus_simple)
  moreover have "good h (notify (OnStatus s 0) k2) n1" using good_net [OF k1(1) n1(2)] by (simp add: k2_def)
  moreover have "kept k (notify (OnStatus s 0) k2)" by (simp add: kept_def k2_def k1_def)
  ultimately show thesis by (rule that)
qed (use ok that in \<open>simp add: DoOpenChannel_def\<close>)

lemma DoStartPlayback_ok:
  assumes ok: "good h k n" and t: "StartTime cmd + 28800 < 2 ^ 31"
  obtains ret k' n' where "DoStartPlayback R me cmd k n = Ret (ret, k', n')" "good h k' n'" "kept k k'"
proof (cases "mIsConnected k \<and> mP2p k \<noteq> 0")
  case True
  then have p: "0 < mP2p k" by simp
  obtain hd n1 where n1: "playBackStart R (channelNo cmd mod 256) (StartTime cmd) (StartTime cmd + 28800) 15 me (mP2p k) n = Ret (hd, n1)" "net_ok (held (mP2p k) h) n1"
    by (rule frame_okE [OF goodD(1) [OF ok] p simple_frame(7)])
  have "good h (k\<lparr>mPlaybackHandle := hd\<rparr>) n1" using ok n1(2) p by (simp add: good_def conn_ok_def)
  then have "good h (k\<lparr>mChannelNo := channelNo cmd, mPlaybackHandle := hd\<rparr>) n1" by (simp add: good_def conn_ok_def)
  then show thesis using True n1(1) t that by (cases "hd = 0") (simp_all add: DoStartPlayback_def Let_def kept_def)
qed (use ok that in \<open>auto simp: DoStartPlayback_def Let_def kept_def\<close>)

lemma DoStopPlayback_ok:
  assumes ok: "good h k n"
  obtains ret k' n' where "DoStopPlayback R k n = Ret (ret, k', n')" "good h k' n'" "kept k k'"
proof (cases "mPlaybackHandle k \<noteq> 0 \<and> mP2p k \<noteq> 0")
  case True
  then have p: "0 < mP2p k" by simp
  obtain a n1 where n1: "playBackStop R (mPlaybackHandle k) (mP2p k) n = Ret (a, n1)" "net_ok (held (mP2p k) h) n1"
    by (rule frame_okE [OF goodD(1) [OF ok] p simple_frame(10)])
  have "good h (DecoderPause (k\<lparr>mPlaybackHandle := 0\<rparr>)) n1" using ok n1(2) by (simp add: good_def conn_ok_def)
  then obtain b where b: "reset_buffer (DecoderPause (k\<lparr>mPlaybackHandle := 0\<rparr>)) = Ret ((DecoderPause (k\<lparr>mPlaybackHandle := 0\<rparr>))\<lparr>mBuffer := b\<rparr>)"
    "good h ((DecoderPause (k\<lparr>mPlaybackHandle := 0\<rparr>))\<lparr>mBuffer := b\<rparr>) n1" by (rule reset_buffer_good)
  then show thesis using that True n1(1) by (simp add: DoStopPlayback_def DoStatus_simple kept_def)
qed (use ok that in \<open>auto simp: DoStopPlayback_def DoStatus_simple kept_def\<close>)

text \<open>Commands that change nothing but the network.\<close>

lemma keep_ok:
  assumes ok: "good h k n" and f: "\<And>n. alive (mP2p k) n \<Longrightarrow> ok_to (\<lambda>(_, n'). same_conns n n') (f n)"
    and c: "c \<Longrightarrow> 0 < mP2p k" and g: "g = (if c then f n else Ret (v, n))"
  obtains ret n' where "keep k g = Ret (ret, k, n')" "good h k n'"
proof (cases c)
  case True
  obtain a n1 where "f n = Ret (a, n1)" "net_ok (held (mP2p k) h) n1" by (rule frame_okE [OF goodD(1) [OF ok] c [OF True] f])
  then show thesis using that [of a n1] True g ok by (simp add: keep_def good_def)
qed (use g ok that in \<open>simp add: keep_def\<close>)

text \<open>
  A search fails when the library returns \<open>NULL\<close> to a connector of the older kind, which does not test for it, or more records than the array of a connector holds.
\<close>

definition result_fails :: "bool \<Rightarrow> rec_file list option \<Rightarrow> bool" where
  "result_fails old f \<longleftrightarrow> (case f of None \<Rightarrow> old | Some rs \<Rightarrow> 200 < length rs)"

definition search_fails :: "(sdk_call list \<Rightarrow> rec_file list option list) \<Rightarrow> bool \<Rightarrow> bool" where
  "search_fails F old \<longleftrightarrow> (\<exists>cs. \<exists>f\<in>set (F cs). result_fails old f)"

definition older :: "nat \<Rightarrow> net \<Rightarrow> bool" where
  "older p n \<longleftrightarrow> (case conn_heap n p of None \<Rightarrow> False | Some c \<Rightarrow> c_version c = UDX_P2P)"

lemma older_same: "same_conns n n' \<Longrightarrow> older p n' = older p n"
  unfolding older_def same_conns_def conn_kind_def by (drule conjunct2, drule conjunct2, drule spec [of _ p]) (auto split: option.splits)

lemma findFileNext_ok:
  assumes "alive p n"
  shows "returns (result_fails (older p n) f) (\<lambda>(_, n'). same_conns n n') (findFileNext R sh f p n)"
  using assms by (elim aliveE) (auto simp: findFileNext_def older_def result_fails_def frame_simps split: option.splits)

lemma search_loop_ok:
  assumes "good h k n" "0 < mP2p k" "\<And>f. f \<in> set fs \<Longrightarrow> result_fails (older (mP2p k) n) f \<Longrightarrow> bad"
  shows "returns bad (\<lambda>(k', n'). good h k' n' \<and> mP2p k' = mP2p k \<and> kept k k') (search_loop R sh fs k n)"
  using assms
proof (induction fs arbitrary: k n)
  case (Cons f fs)
  note al = net_ok_alive [OF goodD(1) [OF Cons.prems(1)] Cons.prems(2)]
  show ?case
  proof (rule returnsE [OF findFileNext_ok [OF al, of f R sh]])
    fix y assume y: "findFileNext R sh f (mP2p k) n = Ret y" "case y of (_, n') \<Rightarrow> same_conns n n'"
    obtain rs n1 where rs: "y = (rs, n1)" by force
    have g: "good h k n1" using good_net [OF Cons.prems(1)] net_ok_same goodD(1) [OF Cons.prems(1)] y(2) rs by blast
    have rest: "returns bad (\<lambda>(k', n'). good h k' n' \<and> mP2p k' = mP2p k \<and> kept k k') (search_loop R sh fs (k\<lparr>out := es\<rparr>) n1)" for es
    proof (rule returns_mono [OF Cons.IH [of "k\<lparr>out := es\<rparr>" n1]])
      show "\<And>f. f \<in> set fs \<Longrightarrow> result_fails (older (mP2p (k\<lparr>out := es\<rparr>)) n1) f \<Longrightarrow> bad"
        using Cons.prems(3) older_same [of n n1] y(2) rs by auto
    qed (use g Cons.prems(2) in \<open>auto simp: kept_def\<close>)
    show ?thesis using y(1) rs rest g by (auto simp: kept_def split: option.splits list.splits)
  next
    fix u assume "findFileNext R sh f (mP2p k) n = UB u" "result_fails (older (mP2p k) n) f"
    then show ?thesis using Cons.prems(3) [of f] by simp
  qed
qed simp

lemma DoSearchRec_ok:
  assumes ok: "good h k n"
  shows "returns (search_fails F (older (mP2p k) n)) (\<lambda>(ret :: int, k', n'). good h k' n' \<and> kept k k') (DoSearchRec R F cmd k n)"
proof (cases "mIsConnected k")
  case True
  note p = goodD(2) [OF ok True]
  have al: "alive (mP2p k) n" using net_ok_alive [OF goodD(1) [OF ok]] p by simp
  obtain sh n1 where n1: "findFileTaskStart R (channelNo cmd mod 256) (StartTime cmd) (EndTime cmd) 15 (mP2p k) n = Ret (sh, n1)" "same_conns n n1"
    using simple_frame(5) [OF al, of R "channelNo cmd mod 256" "StartTime cmd" "EndTime cmd" 15] by (rule ok_pairE)
  have g1: "good h k n1" by (rule good_net [OF ok net_ok_same [OF n1(2) goodD(1) [OF ok]]])
  have "returns (search_fails F (older (mP2p k) n)) (\<lambda>(k', n'). good h k' n' \<and> mP2p k' = mP2p k \<and> kept k k') (search_loop R sh (F (sdk_calls n1)) k n1)"
    by (rule search_loop_ok [OF g1 p]) (auto simp: search_fails_def older_same [OF n1(2)])
  then have "returns (search_fails F (older (mP2p k) n)) (\<lambda>(ret :: int, k', n'). good h k' n' \<and> kept k k') (bnd (search_loop R sh (F (sdk_calls n1)) k n1) (\<lambda>(k, n).
          bnd (findFileTaskClose R sh (mP2p k) n) (\<lambda>(_, n). Ret (0, notify (OnSearchData None) k, n))))"
  proof (rule returns_bnd, clarify)
    fix k2 n2 assume g2: "good h k2 n2" "mP2p k2 = mP2p k" "kept k k2"
    have p2: "0 < mP2p k2" using p g2(2) by simp
    obtain a n3 where "findFileTaskClose R sh (mP2p k2) n2 = Ret (a, n3)" "net_ok (held (mP2p k2) h) n3"
      by (rule frame_okE [OF goodD(1) [OF g2(1)] p2 simple_frame(6)])
    then show "returns (search_fails F (older (mP2p k) n)) (\<lambda>(ret :: int, k', n'). good h k' n' \<and> kept k k')
      (bnd (findFileTaskClose R sh (mP2p k2) n2) (\<lambda>(_, n). Ret (0, notify (OnSearchData None) k2, n)))"
      using good_net [OF g2(1)] g2(3) by (simp add: kept_def)
  qed
  then show ?thesis using True n1(1) g1 by (simp add: DoSearchRec_def)
qed (use ok in \<open>simp add: DoSearchRec_def\<close>)

section \<open>The task thread\<close>

abbreviation keeps_good :: "(nat \<Rightarrow> nat) \<Rightarrow> bool \<Rightarrow> connection \<Rightarrow> (int \<times> connection \<times> net) outcome \<Rightarrow> bool" where
  "keeps_good h bad k \<equiv> returns bad (\<lambda>(ret :: int, k', n'). good h k' n' \<and> kept k k')"

lemma keeps_good_if: "(c \<Longrightarrow> keeps_good h bad k x) \<Longrightarrow> (\<not> c \<Longrightarrow> keeps_good h bad k y) \<Longrightarrow> keeps_good h bad k (if c then x else y)"
  by simp

lemma keeps_good_keep:
  assumes ok: "good h k n"
  shows "keeps_good h bad k (keep k (DoStartPtzAction R cmd k n))" "keeps_good h bad k (keep k (DoStopPtzAction R cmd k n))"
    "keeps_good h bad k (keep k (DoPlaybackPauseGetData R k n))" "keeps_good h bad k (keep k (DoPlaybackContinueGetdata R k n))"
    "keeps_good h bad k (keep k (DoSendData R cmd k n))" "keeps_good h bad k (keep k (DoCall R cmd k n))" "keeps_good h bad k (keep k (DoHangUp R k n))"
    "paudioPacket cmd \<noteq> None \<Longrightarrow> keeps_good h bad k (keep k (DoSendAudioPacket R cmd k n))" "keeps_good h bad k (keep k (DoPullAlarmmsg R cmd k n))"
proof -
  have *: "keeps_good h bad k (keep k g)" if "\<And>n. alive (mP2p k) n \<Longrightarrow> ok_to (\<lambda>(_, n'). same_conns n n') (f n)" "c \<Longrightarrow> 0 < mP2p k" "g = (if c then f n else Ret (-1, n))" for f g c
    using keep_ok [OF ok that] by (metis (mono_tags, lifting) case_prod_conv kept_refl returns_simps(1))
  note p = goodD(2,3) [OF ok]
  show "keeps_good h bad k (keep k (DoStartPtzAction R cmd k n))" by (rule * [OF simple_frame(1) p(1)]) (auto simp: DoStartPtzAction_def)
  show "keeps_good h bad k (keep k (DoStopPtzAction R cmd k n))" by (rule * [OF simple_frame(1) p(1)]) (auto simp: DoStopPtzAction_def)
  show "keeps_good h bad k (keep k (DoPlaybackPauseGetData R k n))" by (rule * [OF simple_frame(8) p(2)]) (auto simp: DoPlaybackPauseGetData_def)
  show "keeps_good h bad k (keep k (DoPlaybackContinueGetdata R k n))" by (rule * [OF simple_frame(9) p(2)]) (auto simp: DoPlaybackContinueGetdata_def)
  show "keeps_good h bad k (keep k (DoSendData R cmd k n))" by (rule * [OF simple_frame(3), where c = "mIsConnected k \<and> mP2p k \<noteq> 0"]) (auto simp: DoSendData_def)
  show "keeps_good h bad k (keep k (DoCall R cmd k n))" by (rule * [OF simple_frame(11) p(1)]) (auto simp: DoCall_def)
  show "keeps_good h bad k (keep k (DoHangUp R k n))" by (rule * [OF simple_frame(12) p(1)]) (auto simp: DoHangUp_def)
  show "keeps_good h bad k (keep k (DoSendAudioPacket R cmd k n))" if "paudioPacket cmd \<noteq> None"
    by (rule * [where f = "talkSend R (the (paudioPacket cmd)) (mP2p k)", OF simple_frame(13) p(1)]) (use that in \<open>auto simp: DoSendAudioPacket_def\<close>)
  show "keeps_good h bad k (keep k (DoPullAlarmmsg R cmd k n))" by (rule * [OF simple_frame(14) p(1)]) (auto simp: DoPullAlarmmsg_def)
qed

text \<open>When carrying out a command may fail.\<close>

definition may_fail :: "(sdk_call list \<Rightarrow> rec_file list option list) \<Rightarrow> command \<Rightarrow> connection \<Rightarrow> net \<Rightarrow> bool" where
  "may_fail F cmd k n \<longleftrightarrow> freed_twice k \<or> commandNo cmd = CMD_SEARCHREC \<and> search_fails F (older (mP2p k) n)"

lemma run_command_ok:
  assumes ok: "good h k n" and cmd: "good_command cmd"
  shows "keeps_good h (may_fail F cmd k n) k (run_command R F me cmd k n)"
proof -
  have weaker: "keeps_good h (may_fail F cmd k n) k x" if "keeps_good h (freed_twice k) k x" for x
    by (rule returns_mono [OF that]) (auto simp: may_fail_def)
  have open1: "keeps_good h (may_fail F cmd k n) k (DoOpenChannel R me cmd b k n)" for b by (rule DoOpenChannel_ok [OF ok, of R me cmd b]) simp
  have open2: "keeps_good h (may_fail F cmd k n) k (bnd (DoOpenChannel R me cmd True k n) (\<lambda>(ret, k, n). if ret \<noteq> 0 then ReConnect R me k n else Ret (ret, k, n)))"
  proof -
    obtain ret k1 n1 where 1: "DoOpenChannel R me cmd True k n = Ret (ret, k1, n1)" "good h k1 n1" "kept k k1" by (rule DoOpenChannel_ok [OF ok])
    have "keeps_good h (freed_twice k) k (ReConnect R me k1 n1)"
      by (rule returns_mono [OF ReConnect_ok [OF 1(2)]]) (use 1(3) kept_trans in \<open>auto simp: kept_def\<close>)
    then show ?thesis using 1 weaker by simp
  qed
  have con: "keeps_good h (may_fail F cmd k n) k (DoConnect R me cmd k n)" if "commandNo cmd = CMD_CONNECT"
    by (rule weaker, rule DoConnect_ok [OF ok]) (use cmd that in \<open>simp_all add: good_command_def\<close>)
  have start: "keeps_good h (may_fail F cmd k n) k (DoStartPlayback R me cmd k n)" if "commandNo cmd = CMD_STARTPLAYBACK"
    by (rule DoStartPlayback_ok [OF ok, of cmd R me]) (use cmd that in \<open>simp_all add: good_command_def\<close>)
  have stop: "keeps_good h (may_fail F cmd k n) k (DoStopPlayback R k n)" by (rule DoStopPlayback_ok [OF ok, of R]) simp
  have search: "keeps_good h (may_fail F cmd k n) k (DoSearchRec R F cmd k n)" if "commandNo cmd = CMD_SEARCHREC"
    by (rule returns_mono [OF DoSearchRec_ok [OF ok, of F]]) (use that in \<open>auto simp: may_fail_def\<close>)
  have dis: "keeps_good h (may_fail F cmd k n) k (bnd (DoDisconnect R True k n) (\<lambda>(k, n). Ret (0, k, n)))"
    by (rule weaker, rule returns_bnd [OF DoDisconnect_ok [OF ok]]) auto
  have audio: "paudioPacket cmd \<noteq> None" if "commandNo cmd = CMD_SEND_AUDIO" using cmd that by (simp add: good_command_def)
  have other: "keeps_good h (may_fail F cmd k n) k (Ret (-1, k, n))" using ok by simp
  show ?thesis unfolding run_command_def Let_def by (intro keeps_good_if open1 open2 con start stop search dis other keeps_good_keep ok audio)
qed

definition round_may_fail :: "(sdk_call list \<Rightarrow> rec_file list option list) \<Rightarrow> connection \<Rightarrow> net \<Rightarrow> bool" where
  "round_may_fail F k n \<longleftrightarrow> (\<exists>cmd rest. mCommand k = cmd # rest \<and> may_fail F cmd k n)"

lemma task_round_ok:
  assumes ok: "good h k n"
  shows "returns (round_may_fail F k n) (\<lambda>(fin, k', n'). fin = (\<not> mRunThread k \<and> length (mCommand k) \<le> 1) \<and> good h k' n' \<and>
      kept (k\<lparr>mCommand := tl (mCommand k)\<rparr>) k') (task_round R F me k n)"
proof (cases "mCommand k")
  case Nil
  then show ?thesis using ok by (simp add: task_round_def kept_def)
next
  case (Cons cmd rest)
  have g: "good h (k\<lparr>mCommand := rest\<rparr>) n" "good_command cmd" using ok Cons by (auto simp: good_def conn_ok_def)
  have "may_fail F cmd (k\<lparr>mCommand := rest\<rparr>) n = may_fail F cmd k n" by (simp add: may_fail_def)
  then have "keeps_good h (round_may_fail F k n) (k\<lparr>mCommand := rest\<rparr>) (run_command R F me cmd (k\<lparr>mCommand := rest\<rparr>) n)"
    using run_command_ok [OF g, of F R me] Cons by (auto simp: round_may_fail_def elim!: returns_mono)
  then show ?thesis unfolding task_round_def Cons by (auto intro!: returns_bnd simp: kept_def)
qed

text \<open>Commands that were carried out one after the other, each taken from the front of the queue.\<close>

inductive carried_out ::
    "sdk_results \<Rightarrow> (sdk_call list \<Rightarrow> rec_file list option list) \<Rightarrow> nat \<Rightarrow> command list \<Rightarrow> connection \<times> net \<Rightarrow> connection \<times> net \<Rightarrow> bool" for R F me where
  none: "carried_out R F me [] kn kn"
| first: "mCommand k = cmd # rest \<Longrightarrow> run_command R F me cmd (k\<lparr>mCommand := rest\<rparr>) n = Ret (ret, kn) \<Longrightarrow> carried_out R F me cs kn kn' \<Longrightarrow>
    carried_out R F me (cmd # cs) (k, n) kn'"

lemma task_round_first:
  assumes "task_round R F me k n = Ret (fin, k', n')" "mCommand k = cmd # rest" "carried_out R F me cs (k', n') kn"
  shows "carried_out R F me (cmd # cs) (k, n) kn"
  using assms(1) by (auto simp: task_round_def assms(2) bnd_Ret_iff intro: carried_out.first [OF assms(2) _ assms(3)])

definition thread_may_fail :: "(sdk_call list \<Rightarrow> rec_file list option list) \<Rightarrow> connection \<Rightarrow> bool" where
  "thread_may_fail F k \<longleftrightarrow> freed_twice k \<or> (\<exists>c\<in>set (mCommand k). commandNo c = CMD_SEARCHREC) \<and> search_fails F True"

lemma search_fails_older: "search_fails F old \<Longrightarrow> search_fails F True"
  unfolding search_fails_def result_fails_def by (metis (mono_tags, lifting) option.case_eq_if)

lemma round_thread_may_fail: "round_may_fail F k n \<Longrightarrow> thread_may_fail F k"
  using search_fails_older by (auto simp: round_may_fail_def may_fail_def thread_may_fail_def)

lemma thread_may_fail_kept: "kept (k\<lparr>mCommand := tl (mCommand k)\<rparr>) k' \<Longrightarrow> thread_may_fail F k' \<Longrightarrow> thread_may_fail F k"
  by (cases "mCommand k") (auto simp: thread_may_fail_def kept_def)

definition drained :: "sdk_results \<Rightarrow> (sdk_call list \<Rightarrow> rec_file list option list) \<Rightarrow> nat \<Rightarrow> connection \<Rightarrow> net \<Rightarrow> connection \<times> net \<Rightarrow> bool" where
  "drained R F me k n kn \<longleftrightarrow> mCommand (fst kn) = [] \<and>
     (\<exists>cs. carried_out R F me cs (k, n) kn \<and> subseq cs (mCommand k) \<and> filter connects cs = filter connects (mCommand k))"

lemma drained_first:
  assumes r: "task_round R F me k n = Ret (fin, k', n')" and q: "mCommand k = cmd # rest" "kept (k\<lparr>mCommand := rest\<rparr>) k'" and d: "drained R F me k' n' kn"
  shows "drained R F me k n kn"
proof -
  obtain cs where cs: "carried_out R F me cs (k', n') kn" "subseq cs (mCommand k')" "filter connects cs = filter connects (mCommand k')"
    using d by (auto simp: drained_def)
  have "subseq (mCommand k') rest" "filter connects (mCommand k') = filter connects rest" using q(2) by (auto simp: kept_def)
  then have "subseq (cmd # cs) (mCommand k)" "filter connects (cmd # cs) = filter connects (mCommand k)"
    using cs(2,3) q(1) by (auto intro: subseq_order.order_trans)
  then show ?thesis using d task_round_first [OF r q(1) cs(1)] unfolding drained_def by blast
qed

lemma HandleTaskThread_ends:
  assumes "good h k n" "\<not> mRunThread k" "length (mCommand k) < m"
  shows "\<exists>x. HandleTaskThread m R F me k n = Some x \<and> returns (thread_may_fail F k) (drained R F me k n) x"
  using assms
proof (induction m arbitrary: k n)
  case (Suc m)
  show ?case
  proof (rule returnsE [OF task_round_ok [OF Suc.prems(1), of F R me]])
    fix y assume y: "task_round R F me k n = Ret y" "case y of (fin, k', n') \<Rightarrow> fin = (\<not> mRunThread k \<and> length (mCommand k) \<le> 1) \<and> good h k' n' \<and>
      kept (k\<lparr>mCommand := tl (mCommand k)\<rparr>) k'"
    obtain fin k1 n1 where "y = (fin, k1, n1)" by (cases y)
    with y Suc.prems(2) have r: "task_round R F me k n = Ret (length (mCommand k) \<le> 1, k1, n1)" "good h k1 n1" "kept (k\<lparr>mCommand := tl (mCommand k)\<rparr>) k1" by auto
    have front: "drained R F me k n kn" if "drained R F me k1 n1 kn" "mCommand k \<noteq> []" for kn
      using that r(3) by (cases "mCommand k") (auto intro: drained_first [OF r(1) _ _ that(1)])
    show ?thesis
    proof (cases "length (mCommand k) \<le> 1")
      case True
      then have "mCommand k1 = []" using r(3) by (cases "mCommand k") (auto simp: kept_def)
      then have "drained R F me k1 n1 (k1, n1)" by (auto simp: drained_def intro: carried_out.none)
      moreover have "k1 = k \<and> n1 = n" if "mCommand k = []" using r(1) that by (simp add: task_round_def)
      ultimately show ?thesis using r(1) True front by (cases "mCommand k = []") auto
    next
      case False
      have "length (mCommand k1) \<le> length (mCommand k) - 1" using r(3) length_filter_le [of connects "tl (mCommand k)"] by (auto simp: kept_def simp del: length_filter_le)
      then have "length (mCommand k1) < m" using Suc.prems(3) False by linarith
      moreover have "\<not> mRunThread k1" using r(3) Suc.prems(2) by (simp add: kept_def)
      ultimately obtain x where "HandleTaskThread m R F me k1 n1 = Some x" "returns (thread_may_fail F k1) (drained R F me k1 n1) x" using Suc.IH [OF r(2)] by blast
      moreover have "mCommand k \<noteq> []" using False by auto
      ultimately show ?thesis using r(1) False front thread_may_fail_kept [OF r(3)] by (auto elim!: returns_mono)
    qed
  next
    fix u assume "task_round R F me k n = UB u" "round_may_fail F k n"
    then show ?thesis using round_thread_may_fail by simp
  qed
qed simp

end
