(* ===== verification/Connections.thy ===== *)
theory Connections
  imports ConnectionSafe
begin

text \<open>
  Several connections that share their connectors, and the properties of the connections.
\<close>

section \<open>All connections together\<close>

record system =
  connections :: "connection list"
  sysnet :: net

definition holders :: "connection list \<Rightarrow> nat \<Rightarrow> nat" where
  "holders ks p = (if p = 0 then 0 else count_list (map mP2p ks) p)"

definition new_connection :: "media_buffer option \<Rightarrow> connection" where
  "new_connection b = \<lparr>mDeviceID = [], mIP = [], mPort = 0, mUser = [], mPwd = [], mVerify = [], mChannelNo = 0, mStreamNo = 1, mCommand = [], mHandle = 0, mP2p = 0,
     mBuffer = b, mIsConnected = False, mAreadyConnected = False, mAddBuffer = False, mRecvIFrame = False, mRealStatus = NET_PLAY_NONE, mPlaybackHandle = 0,
     mDataHandle = 0, mDecodeStatus = False, connectNowStates = 0, isRecyceConnect = False, mHasSetP720 = 0, mDistTortion = NullPtr, mDistLen = 0,
     connectStr = [], verifyStr = [], mRunThread = True, out = []\<rparr>"

text \<open>
  What the application and the callbacks may call: addresses and logins that can be parsed, and times before the year 2038. Every call, every round of a task thread and every
  disconnection is one step.
\<close>

inductive api_call :: "connection \<Rightarrow> connection \<Rightarrow> bool" where
  "good_strings cs vs \<Longrightarrow> Connect cs vs ch k = Ret k' \<Longrightarrow> api_call k k'"
| "OpenChannel ch strm k = Ret k' \<Longrightarrow> api_call k k'"
| "CloseChannel ch strm k = Ret k' \<Longrightarrow> api_call k k'"
| "t + 28800 < 2 ^ 31 \<Longrightarrow> StartPlayback t ch k = Ret k' \<Longrightarrow> api_call k k'"
| "StopPlayback ch k = Ret k' \<Longrightarrow> api_call k k'"
| "PlaybackPauseGetData ch k = Ret k' \<Longrightarrow> api_call k k'"
| "PlaybackContinueGetData ch k = Ret k' \<Longrightarrow> api_call k k'"
| "SearchRec t1 t2 ch k = Ret k' \<Longrightarrow> api_call k k'"
| "CtrlPTZ c ch k = Ret k' \<Longrightarrow> api_call k k'"
| "StopPTZ ch k = Ret k' \<Longrightarrow> api_call k k'"
| "SendData bs k = Ret k' \<Longrightarrow> api_call k k'"
| "PullAlarmmsg ty ch tk k = Ret k' \<Longrightarrow> api_call k k'"
| "OpenDataChannel k = Ret k' \<Longrightarrow> api_call k k'"
| "CloseDataChannel k = Ret k' \<Longrightarrow> api_call k k'"
| "DestroyVcon k = Ret k' \<Longrightarrow> api_call k k'"
| "SearchDevice k = Ret k' \<Longrightarrow> api_call k k'"
| "Disconnect k = Ret k' \<Longrightarrow> api_call k k'"
| "OnDisconnect ret k = Ret k' \<Longrightarrow> api_call k k'"
| "setDistTortion bs k = Ret k' \<Longrightarrow> api_call k k'"
| "api_call k (SetHasSetP720 b k)"
| "api_call k (SetHasSetP360 b k)"
| "api_call k (k\<lparr>mRunThread := False\<rparr>)"

inductive sys_step :: "sdk_results \<Rightarrow> (sdk_call list \<Rightarrow> rec_file list option list) \<Rightarrow> system \<Rightarrow> system \<Rightarrow> bool" for R F where
  create: "unlocked b \<Longrightarrow> sys_step R F s (s\<lparr>connections := connections s @ [new_connection b]\<rparr>)"
| api: "i < length (connections s) \<Longrightarrow> api_call (connections s ! i) k \<Longrightarrow> sys_step R F s (s\<lparr>connections := (connections s)[i := k]\<rparr>)"
| task: "i < length (connections s) \<Longrightarrow> task_round R F (Suc i) (connections s ! i) (sysnet s) = Ret (fin, k, n) \<Longrightarrow>
    sys_step R F s \<lparr>connections = (connections s)[i := k], sysnet = n\<rparr>"
| disconnect: "i < length (connections s) \<Longrightarrow> DoDisconnectThread R (connections s ! i) (sysnet s) = Ret (k, n) \<Longrightarrow>
    sys_step R F s \<lparr>connections = (connections s)[i := k], sysnet = n\<rparr>"
| audio: "i < length (connections s) \<Longrightarrow> SendAudioPacket R a (connections s ! i) (sysnet s) = Ret (ret, n) \<Longrightarrow> sys_step R F s (s\<lparr>sysnet := n\<rparr>)"
| call: "i < length (connections s) \<Longrightarrow> Call R ch (connections s ! i) (sysnet s) = Ret (ret, n) \<Longrightarrow> sys_step R F s (s\<lparr>sysnet := n\<rparr>)"
| hangup: "i < length (connections s) \<Longrightarrow> HangUp R (connections s ! i) (sysnet s) = Ret (ret, n) \<Longrightarrow> sys_step R F s (s\<lparr>sysnet := n\<rparr>)"
| reset: "alive p (sysnet s) \<Longrightarrow> ResetConnection p (sysnet s) = Ret (xs, n) \<Longrightarrow> sys_step R F s (s\<lparr>sysnet := n\<rparr>)"

inductive sys_reach :: "sdk_results \<Rightarrow> (sdk_call list \<Rightarrow> rec_file list option list) \<Rightarrow> system \<Rightarrow> system \<Rightarrow> bool" for R F where
  sys_refl: "sys_reach R F s s"
| sys_trans: "sys_reach R F s t \<Longrightarrow> sys_step R F t u \<Longrightarrow> sys_reach R F s u"

text \<open>\<open>g\<close> counts users that no connection stands for.\<close>

definition sys_inv :: "(nat \<Rightarrow> nat) \<Rightarrow> system \<Rightarrow> bool" where
  "sys_inv g s \<longleftrightarrow> (\<forall>k\<in>set (connections s). conn_ok k) \<and> net_ok (\<lambda>p. holders (connections s) p + g p) (sysnet s)"

definition others :: "(nat \<Rightarrow> nat) \<Rightarrow> nat \<Rightarrow> connection list \<Rightarrow> nat \<Rightarrow> nat" where
  "others g i ks p = holders (take i ks @ drop (Suc i) ks) p + g p"

lemma holders_update:
  assumes "i < length ks"
  shows "(\<lambda>p. holders (ks[i := k]) p + g p) = held (mP2p k) (others g i ks)"
  using assms by (auto simp: holders_def others_def held_def fun_eq_iff upd_conv_take_nth_drop take_map [symmetric])

lemma sys_inv_good:
  assumes "sys_inv g s" "i < length (connections s)"
  shows "good (others g i (connections s)) (connections s ! i) (sysnet s)"
  using assms holders_update [OF assms(2), of "connections s ! i" g] by (simp add: sys_inv_def good_def)

lemma good_sys_inv:
  assumes "sys_inv g s" "i < length (connections s)" "good (others g i (connections s)) k n"
  shows "sys_inv g \<lparr>connections = (connections s)[i := k], sysnet = n\<rparr>"
  using assms by (auto simp: sys_inv_def good_def holders_update dest: set_update_subset_insert [THEN subsetD])

lemma AddCommand_ok:
  assumes "conn_ok k" "good_command cmd" "AddCommand cmd k = Ret k'"
  shows "conn_ok k' \<and> mP2p k' = mP2p k"
proof -
  from assms(3) have k': "k' = k\<lparr>mCommand := mCommand k @ [cmd]\<rparr>" by (auto simp: AddCommand_def bnd_Ret_iff strcpy_def split: if_splits)
  then show ?thesis using assms(1,2) by (simp add: conn_ok_def)
qed

lemma conn_ok_fields [simp]:
  "conn_ok (k\<lparr>mChannelNo := i\<rparr>) = conn_ok k" "conn_ok (k\<lparr>mStreamNo := i\<rparr>) = conn_ok k" "conn_ok (k\<lparr>mAddBuffer := b\<rparr>) = conn_ok k"
  "conn_ok (k\<lparr>mRunThread := b\<rparr>) = conn_ok k" "conn_ok (notify e k) = conn_ok k"
  by (simp_all add: conn_ok_def)

lemma good_no_command: "c \<notin> {CMD_CONNECT, CMD_STARTPLAYBACK, CMD_SEND_AUDIO} \<Longrightarrow> commandNo cmd = c \<Longrightarrow> good_command cmd"
  by (auto simp: good_command_def)

lemmas command_codes = CMD_CONNECT_def CMD_OPENCHANNEL_def CMD_CLOSECHANNEL_def CMD_PTZSTART_def CMD_PTZSTOP_def CMD_SEARCHREC_def CMD_STARTPLAYBACK_def CMD_STOPPLAYBACK_def
  CMD_DISCONNECT_def CMD_OPENDATACHANNEL_def CMD_CLOSEDATACHANNEL_def CMD_SENDDATA_def CMD_PLAYBACK_CONTINUE_def CMD_PLAYBACK_PAUSE_def CMD_DESTROY_VCON_def CMD_CALL_def
  CMD_HANG_UP_def CMD_SEND_AUDIO_def CMD_SEARCH_DEVICE_def CMD_PULL_ALARMMSG_def

text \<open>Calls that only put a command into the queue.\<close>

lemma add_simple:
  assumes "conn_ok k" "commandNo cmd \<noteq> CMD_CONNECT" "commandNo cmd \<noteq> CMD_STARTPLAYBACK" "commandNo cmd \<noteq> CMD_SEND_AUDIO" "AddCommand cmd k = Ret k'"
  shows "conn_ok k' \<and> mP2p k' = mP2p k"
  by (rule AddCommand_ok [OF assms(1) _ assms(5)]) (use assms in \<open>simp add: good_command_def\<close>)

lemma Connect_ok:
  assumes ok: "conn_ok k" and g: "good_strings cs vs" and r: "Connect cs vs ch k = Ret k'"
  shows "conn_ok k' \<and> mP2p k' = mP2p k"
proof -
  define k1 where "k1 = k\<lparr>mChannelNo := ch, connectStr := cs, verifyStr := vs\<rparr>"
  have "conn_ok k1" "mP2p k1 = mP2p k" using ok g by (simp_all add: k1_def conn_ok_def)
  moreover have "AddCommand (no_command\<lparr>commandNo := CMD_CONNECT, ConnectStr := cs, verifystr := vs\<rparr>) k1 = Ret k'"
    using r by (auto simp: Connect_def k1_def bnd_Ret_iff strcpy_def split: if_splits)
  moreover have "good_command (no_command\<lparr>commandNo := CMD_CONNECT, ConnectStr := cs, verifystr := vs\<rparr>)"
    using g by (simp add: good_command_def good_strings_def command_codes)
  ultimately show ?thesis using AddCommand_ok by metis
qed

lemma StopPlayback_ok: "conn_ok k \<Longrightarrow> StopPlayback ch k = Ret k' \<Longrightarrow> conn_ok k' \<and> mP2p k' = mP2p k"
  unfolding StopPlayback_def by (rule add_simple) (simp_all add: command_codes)

lemma CloseChannel_ok: "conn_ok k \<Longrightarrow> CloseChannel ch strm k = Ret k' \<Longrightarrow> conn_ok k' \<and> mP2p k' = mP2p k"
  unfolding CloseChannel_def by (drule add_simple [rotated -1]) (simp_all add: command_codes)

lemma OpenChannel_ok:
  assumes "conn_ok k" "OpenChannel ch strm k = Ret k'"
  shows "conn_ok k' \<and> mP2p k' = mP2p k"
proof -
  obtain k1 where k1: "(if mRealStatus k = NET_PLAY_RECORD then StopPlayback (mChannelNo k) k else Ret k) = Ret k1"
    "AddCommand (no_command\<lparr>commandNo := CMD_OPENCHANNEL, channelNo := ch, streamNo := strm\<rparr>) (k1\<lparr>mChannelNo := ch, mStreamNo := strm\<rparr>) = Ret k'"
    using assms(2) by (auto simp: OpenChannel_def bnd_Ret_iff)
  have "conn_ok k1 \<and> mP2p k1 = mP2p k" using k1(1) assms(1) StopPlayback_ok by (auto split: if_splits)
  then show ?thesis using add_simple [OF _ _ _ _ k1(2)] by (simp add: command_codes)
qed

lemma StartPlayback_ok:
  assumes "conn_ok k" "t + 28800 < 2 ^ 31" "StartPlayback t ch k = Ret k'"
  shows "conn_ok k' \<and> mP2p k' = mP2p k"
proof (cases "mIsConnected k")
  case True
  obtain k1 k2 where k12: "(if mRealStatus k = NET_PLAY_REAL then CloseChannel (mChannelNo k) 0 k else Ret k) = Ret k1"
    "(if mRealStatus k1 = NET_PLAY_RECORD then StopPlayback (mChannelNo k1) k1 else Ret k1) = Ret k2"
    "AddCommand (no_command\<lparr>commandNo := CMD_STARTPLAYBACK, StartTime := t, channelNo := ch\<rparr>) k2 = Ret k'"
    using assms(3) True by (auto simp: StartPlayback_def bnd_Ret_iff)
  have "conn_ok k1 \<and> mP2p k1 = mP2p k" using k12(1) assms(1) CloseChannel_ok by (auto split: if_splits)
  moreover from this have "conn_ok k2 \<and> mP2p k2 = mP2p k1" using k12(2) StopPlayback_ok by (auto split: if_splits)
  ultimately show ?thesis using AddCommand_ok [OF _ _ k12(3)] assms(2) by (simp add: command_codes good_command_def)
qed (use assms in \<open>simp add: StartPlayback_def\<close>)

lemma OnDisconnect_ok:
  assumes "conn_ok k" "OnDisconnect ret k = Ret k'"
  shows "conn_ok k' \<and> mP2p k' = mP2p k"
proof -
  have con: "conn_ok k2 \<and> mP2p k2 = mP2p k1" if "conn_ok k1" "Connect (connectStr k1) (verifyStr k1) (mChannelNo k1) k1 = Ret k2" for k1 k2
    by (rule Connect_ok [OF that(1) _ that(2)]) (use that(1) in \<open>simp add: conn_ok_def\<close>)
  define k1 where "k1 = (if ret = 4 \<or> ret = KP2P_ERR_CLOSE_BY_SELF \<or> ret = 3 then notify (OnStatus NET_STATUS_ACTIVECLOSED ret) k else k)"
  have k1: "conn_ok k1" "mP2p k1 = mP2p k" using assms(1) by (simp_all add: k1_def)
  have "(if ret = 4 \<or> ret = KP2P_ERR_CLOSE_BY_SELF \<or> ret = 3 then DoStatus NET_STATUS_ACTIVECLOSED ret k else Ret k) = Ret k1"
    by (simp add: k1_def DoStatus_simple)
  note eq = assms(2) [unfolded OnDisconnect_def this bnd_simps]
  consider "k' = k" | "k' = k1" | "Connect (connectStr k1) (verifyStr k1) (mChannelNo k1) k1 = Ret k'" using eq by (metis outcome.inject(1))
  then show ?thesis
  proof cases
    case 3
    then show ?thesis using con [OF k1(1)] k1(2) by simp
  qed (use assms(1) k1 in simp_all)
qed

lemma api_call_ok: "api_call k k' \<Longrightarrow> conn_ok k \<Longrightarrow> conn_ok k' \<and> mP2p k' = mP2p k"
proof (induction rule: api_call.induct)
  case (1 cs vs ch k k') then show ?case using Connect_ok by blast
next
  case (2 ch strm k k') then show ?case using OpenChannel_ok by blast
next
  case (3 ch strm k k') then show ?case using CloseChannel_ok by blast
next
  case (4 t ch k k') then show ?case using StartPlayback_ok by blast
next
  case (18 ret k k') then show ?case using OnDisconnect_ok by blast
next
  case (19 bs k k') then show ?case by (auto simp: setDistTortion_def conn_ok_def split: if_splits)
next
  case (20 k b) then show ?case by (simp add: SetHasSetP720_def conn_ok_def)
next
  case (21 k b) then show ?case by (simp add: SetHasSetP360_def conn_ok_def)
next
  case (22 k) then show ?case by simp
qed (simp only: StopPlayback_def PlaybackPauseGetData_def PlaybackContinueGetData_def SearchRec_def CtrlPTZ_def StopPTZ_def SendData_def PullAlarmmsg_def
    OpenDataChannel_def CloseDataChannel_def DestroyVcon_def SearchDevice_def Disconnect_def, drule add_simple [rotated -1], simp_all add: command_codes)+

lemma use_ok:
  assumes inv: "sys_inv g s" and i: "i < length (connections s)" "0 < mP2p (connections s ! i)" and f: "f (sysnet s) = Ret (ret :: int, n)"
    and frame: "\<And>n. alive (mP2p (connections s ! i)) n \<Longrightarrow> ok_to (\<lambda>(_, n'). same_conns n n') (f n)"
  shows "sys_inv g (s\<lparr>sysnet := n\<rparr>)"
proof -
  have "alive (mP2p (connections s ! i)) (sysnet s)" by (rule net_ok_alive [OF goodD(1) [OF sys_inv_good [OF inv i(1)]] i(2)])
  from frame [OF this] f have "same_conns (sysnet s) n" by (simp add: ok_to_def)
  then show ?thesis using inv net_ok_same by (auto simp: sys_inv_def)
qed

lemma sys_step_inv:
  assumes "sys_step R F s t" "sys_inv g s"
  shows "sys_inv g t"
  using assms
proof (induction rule: sys_step.induct)
  case (create b s)
  have "holders (connections s @ [new_connection b]) = holders (connections s)" by (auto simp: holders_def fun_eq_iff new_connection_def)
  moreover have "conn_ok (new_connection b)"
    using create(1) by (simp add: new_connection_def conn_ok_def good_strings_def good_address_def good_login_def)
  ultimately show ?case using create(2) by (auto simp: sys_inv_def)
next
  case (api i s k)
  have "connections s ! i \<in> set (connections s)" using api(1) by simp
  then have "conn_ok k \<and> mP2p k = mP2p (connections s ! i)" using api_call_ok [OF api(2)] api(3) by (simp add: sys_inv_def)
  then have "good (others g i (connections s)) k (sysnet s)" using sys_inv_good [OF api(3,1)] by (simp add: good_def)
  from good_sys_inv [OF api(3,1) this] show ?case by (simp add: sys_inv_def)
next
  case (task i s fin k n)
  then show ?case using task_round_ok [OF sys_inv_good [OF task(3,1)], of F R "Suc i"] good_sys_inv [OF task(3,1)] by simp
next
  case (disconnect i s k n)
  then show ?case using DoDisconnect_ok [OF sys_inv_good [OF disconnect(3,1)], of R True] good_sys_inv [OF disconnect(3,1)] by (simp add: DoDisconnectThread_def)
next
  case (audio i s a ret n)
  have "0 < mP2p (connections s ! i)" using audio(2) by (cases "mP2p (connections s ! i)") (auto simp: SendAudioPacket_def virtual_defs talkSend_def deref_def)
  then show ?case by (rule use_ok [OF audio(3,1) _ audio(2) [unfolded SendAudioPacket_def] simple_frame(13)])
next
  case (call i s ch ret n)
  show ?case
  proof (cases "mIsConnected (connections s ! i)")
    case True
    have "p2p_call R ch (mP2p (connections s ! i)) (sysnet s) = Ret (ret, n)" using call(2) True by (simp add: Call_def)
    from use_ok [OF call(3,1) goodD(2) [OF sys_inv_good [OF call(3,1)] True] this simple_frame(11)] show ?thesis .
  qed (use call(2,3) in \<open>auto simp: Call_def\<close>)
next
  case (hangup i s ret n)
  show ?case
  proof (cases "mIsConnected (connections s ! i)")
    case True
    have "p2p_hangup R (mP2p (connections s ! i)) (sysnet s) = Ret (ret, n)" using hangup(2) True by (simp add: HangUp_def)
    from use_ok [OF hangup(3,1) goodD(2) [OF sys_inv_good [OF hangup(3,1)] True] this simple_frame(12)] show ?thesis .
  qed (use hangup(2,3) in \<open>auto simp: HangUp_def\<close>)
next
  case (reset p s xs n)
  have "same_conns (sysnet s) n" using simple_frame(15) [OF reset(1)] reset(2) by (auto simp: ok_to_def)
  then show ?case using reset(3) net_ok_same by (auto simp: sys_inv_def)
qed

lemma sys_reach_inv: "sys_reach R F s t \<Longrightarrow> sys_inv g s \<Longrightarrow> sys_inv g t"
  by (induction rule: sys_reach.induct) (auto intro: sys_step_inv)

section \<open>What the application is told\<close>

lemma close_handles_fields: "close_handles R k n = Ret (k', n') \<Longrightarrow> \<exists>a b. k' = k\<lparr>mDataHandle := a, mPlaybackHandle := b\<rparr>"
proof -
  assume r: "close_handles R k n = Ret (k', n')"
  then obtain k1 n1 where 1: "(if mDataHandle k \<noteq> 0 then bnd (vconDestroy R (mDataHandle k) (mP2p k) n) (\<lambda>(_, n). Ret (k\<lparr>mDataHandle := 0\<rparr>, n)) else Ret (k, n)) = Ret (k1, n1)"
    "(if mPlaybackHandle k1 \<noteq> 0 then bnd (playBackStop R (mPlaybackHandle k1) (mP2p k1) n1) (\<lambda>(_, n). Ret (k1\<lparr>mPlaybackHandle := 0\<rparr>, n)) else Ret (k1, n1)) = Ret (k', n')"
    by (auto simp: close_handles_def bnd_Ret_iff)
  have "k1 = k\<lparr>mDataHandle := mDataHandle k1\<rparr>" using 1(1) by (auto simp: bnd_Ret_iff split: if_splits)
  moreover have "k' = k1\<lparr>mPlaybackHandle := mPlaybackHandle k'\<rparr>" using 1(2) by (auto simp: bnd_Ret_iff split: if_splits)
  ultimately show ?thesis by metis
qed

lemma release_p2p_fields: "release_p2p R k n = Ret (k', n') \<Longrightarrow> \<exists>p. k' = k\<lparr>mP2p := p\<rparr>"
  by (auto simp: release_p2p_def bnd_Ret_iff split: if_splits intro: exI [of _ "mP2p k"])

lemma free_distortion_fields: "free_distortion k = Ret k' \<Longrightarrow> \<exists>x d l. k' = k\<lparr>mHasSetP720 := x, mDistTortion := d, mDistLen := l\<rparr>"
proof -
  assume "free_distortion k = Ret k'"
  then have "k' = k\<lparr>mHasSetP720 := mHasSetP720 k', mDistTortion := mDistTortion k', mDistLen := mDistLen k'\<rparr>"
    by (auto simp: free_distortion_def split: if_splits dist_ptr.splits)
  then show ?thesis by blast
qed

lemma DoDisconnect_result:
  assumes "DoDisconnect R False k n = Ret (k', n')"
  shows "\<not> mIsConnected k'" "connectNowStates k' = connectNowStates k" "out k' = out k @ [DecoderResetData]" "mCommand k' = filter (\<lambda>c. commandNo c = CMD_CONNECT) (mCommand k)"
proof -
  define k0 where "k0 = k\<lparr>isRecyceConnect := False, mCommand := filter (\<lambda>c. commandNo c = CMD_CONNECT) (mCommand k)\<rparr>"
  obtain k1 n1 where 1: "close_handles R k0 n = Ret (k1, n1)"
    "bnd (release_p2p R k1 n1) (\<lambda>(k, n).
     let k = notify DecoderResetData (if mPlaybackHandle k \<noteq> 0 \<or> mHandle k \<noteq> 0 then DecoderPause k else k);
         k = k\<lparr>mAddBuffer := False, mIsConnected := False, mRealStatus := NET_PLAY_NONE\<rparr> in
     bnd (if False then DoStatus NET_STATUS_CLOSED 0 k else Ret k) (\<lambda>k.
     bnd (free_distortion (k\<lparr>mHandle := 0, mPlaybackHandle := 0\<rparr>)) (\<lambda>k. Ret (k, n)))) = Ret (k', n')"
    using assms unfolding DoDisconnect_def k0_def [symmetric] by (auto simp: bnd_Ret_iff)
  obtain k2 n2 where 2: "release_p2p R k1 n1 = Ret (k2, n2)" using 1(2) by (auto simp: bnd_Ret_iff)
  define k3 where "k3 = (notify DecoderResetData (if mPlaybackHandle k2 \<noteq> 0 \<or> mHandle k2 \<noteq> 0 then DecoderPause k2 else k2))
    \<lparr>mAddBuffer := False, mIsConnected := False, mRealStatus := NET_PLAY_NONE, mHandle := 0, mPlaybackHandle := 0\<rparr>"
  have "free_distortion k3 = Ret k'" using 1(2) unfolding 2 k3_def by (auto simp: Let_def bnd_Ret_iff)
  from free_distortion_fields [OF this] have 3: "mIsConnected k' = mIsConnected k3" "connectNowStates k' = connectNowStates k3" "out k' = out k3" "mCommand k' = mCommand k3" by auto
  from close_handles_fields [OF 1(1)] release_p2p_fields [OF 2]
  have "connectNowStates k2 = connectNowStates k" "out k2 = out k" "mCommand k2 = filter (\<lambda>c. commandNo c = CMD_CONNECT) (mCommand k)" by (auto simp: k0_def)
  then show "\<not> mIsConnected k'" "connectNowStates k' = connectNowStates k" "out k' = out k @ [DecoderResetData]" "mCommand k' = filter (\<lambda>c. commandNo c = CMD_CONNECT) (mCommand k)"
    unfolding 3 by (simp_all add: k3_def DecoderPause_def notify_def)
qed

lemma connect_or_fall_back_fields:
  "connect_or_fall_back R k n = Ret (ret, k', n') \<Longrightarrow> \<exists>p h. k' = k\<lparr>mP2p := p, mHandle := h\<rparr>"
proof -
  assume "connect_or_fall_back R k n = Ret (ret, k', n')"
  then have "k' = k\<lparr>mP2p := mP2p k', mHandle := mHandle k'\<rparr>" by (auto simp: connect_or_fall_back_def bnd_Ret_iff Let_def split_beta split: if_splits)
  then show ?thesis by blast
qed

definition status_of :: "int \<Rightarrow> int" where
  "status_of ret =
     (if ret = 0 then NET_STATUS_CONNECTED else if ret \<in> {1, KP2P_ERR_TIMEOUT} then NET_STATUS_TIMEOUT
      else if ret \<in> {2, KP2P_ERR_AUTH_FAILED, KP2P_ERR_AUTH2_FAILED} then NET_STATUS_AUTHOFAIL else NET_STATUS_CONNECTFAIL)"

lemma connect_result_told:
  assumes "connect_result R ret k n = Ret (k', n')"
  shows "mIsConnected k' = (ret = 0)" "connectNowStates k' = status_of ret"
    "out k' = out k @ (if ret = 0 then [OnStatus NET_STATUS_OPENING 0] else [OnStatus (status_of ret) 0, DecoderResetData])"
    "mCommand k' = (if ret = 0 then mCommand k else filter (\<lambda>c. commandNo c = CMD_CONNECT) (mCommand k))"
proof -
  have *: "mIsConnected k' = (ret = 0) \<and> connectNowStates k' = status_of ret \<and>
    out k' = out k @ (if ret = 0 then [OnStatus NET_STATUS_OPENING 0] else [OnStatus (status_of ret) 0, DecoderResetData]) \<and>
    mCommand k' = (if ret = 0 then mCommand k else filter (\<lambda>c. commandNo c = CMD_CONNECT) (mCommand k))"
  proof (cases "ret = 0")
    case True
    then show ?thesis using assms by (auto simp: connect_result_def bnd_Ret_iff DoStatus_simple status_of_def notify_def)
  next
    case False
    have *: "mIsConnected k' = (ret = 0) \<and> connectNowStates k' = status_of ret \<and>
      out k' = out k @ (if ret = 0 then [OnStatus NET_STATUS_OPENING 0] else [OnStatus (status_of ret) 0, DecoderResetData]) \<and>
      mCommand k' = (if ret = 0 then mCommand k else filter (\<lambda>c. commandNo c = CMD_CONNECT) (mCommand k))"
      if "DoDisconnect R False K n = Ret (k', n')" "connectNowStates K = status_of ret" "out K = out k @ [OnStatus (status_of ret) 0]" "mCommand K = mCommand k" for K
      using DoDisconnect_result [OF that(1)] that(2-4) False by simp
    consider (t) "ret = 1 \<or> ret = KP2P_ERR_TIMEOUT" | (a) "\<not> (ret = 1 \<or> ret = KP2P_ERR_TIMEOUT)" "ret = 2 \<or> ret = KP2P_ERR_AUTH_FAILED \<or> ret = KP2P_ERR_AUTH2_FAILED"
      | (f) "\<not> (ret = 1 \<or> ret = KP2P_ERR_TIMEOUT)" "\<not> (ret = 2 \<or> ret = KP2P_ERR_AUTH_FAILED \<or> ret = KP2P_ERR_AUTH2_FAILED)" by blast
    then show ?thesis
    proof cases
      case t
      show ?thesis by (rule * [of "(notify (OnStatus NET_STATUS_TIMEOUT 0) k)\<lparr>connectNowStates := NET_STATUS_TIMEOUT\<rparr>"])
          (use assms False t in \<open>auto simp: connect_result_def DoStatus_simple status_of_def notify_def\<close>)
    next
      case a
      show ?thesis by (rule * [of "notify (OnStatus NET_STATUS_AUTHOFAIL 0) (k\<lparr>connectNowStates := NET_STATUS_AUTHOFAIL\<rparr>)"])
          (use assms False a in \<open>auto simp: connect_result_def DoStatus_simple status_of_def notify_def\<close>)
    next
      case f
      show ?thesis by (rule * [of "(notify (OnStatus NET_STATUS_CONNECTFAIL 0) k)\<lparr>connectNowStates := NET_STATUS_CONNECTFAIL\<rparr>"])
          (use assms False f in \<open>auto simp: connect_result_def DoStatus_simple status_of_def notify_def\<close>)
    qed
  qed
  then show "mIsConnected k' = (ret = 0)" "connectNowStates k' = status_of ret"
    "out k' = out k @ (if ret = 0 then [OnStatus NET_STATUS_OPENING 0] else [OnStatus (status_of ret) 0, DecoderResetData])"
    "mCommand k' = (if ret = 0 then mCommand k else filter (\<lambda>c. commandNo c = CMD_CONNECT) (mCommand k))" by blast+
qed

section \<open>Properties\<close>

definition no_net :: net where
  "no_net = \<lparr>conn_heap = (\<lambda>_. None), g_ListManager = [], next_addr = 1, sdk_calls = []\<rparr>"

lemma sys_inv_start: "sys_inv (\<lambda>_. 0) \<lparr>connections = [], sysnet = no_net\<rparr>"
  by (simp add: sys_inv_def net_ok_def holders_def no_net_def)

lemma reach_good:
  assumes "sys_reach R F \<lparr>connections = [], sysnet = no_net\<rparr> s" "i < length (connections s)"
  shows "good (others (\<lambda>_. 0) i (connections s)) (connections s ! i) (sysnet s)"
  by (rule sys_inv_good [OF sys_reach_inv [OF assms(1) sys_inv_start] assms(2)])

lemma DoDisconnect_returns_iff:
  assumes "good h k n"
  shows "(\<exists>k' n'. DoDisconnect R cmd k n = Ret (k', n')) \<longleftrightarrow> \<not> freed_twice k"
proof -
  have "\<not> freed_twice k" if r: "DoDisconnect R cmd k n = Ret (k', n')" for k' n'
  proof -
    define k0 where "k0 = k\<lparr>isRecyceConnect := False, mCommand := filter (\<lambda>c. commandNo c = CMD_CONNECT) (mCommand k)\<rparr>"
    obtain k1 n1 k2 n2 k3 where 1: "close_handles R k0 n = Ret (k1, n1)" "release_p2p R k1 n1 = Ret (k2, n2)"
      and 3: "free_distortion k3 = Ret k'" "freed_twice k3 = freed_twice k2"
      using r unfolding DoDisconnect_def k0_def [symmetric] by (auto simp: bnd_Ret_iff Let_def DoStatus_simple split: if_splits)
    have "freed_twice k3 = freed_twice k" using close_handles_fields [OF 1(1)] release_p2p_fields [OF 1(2)] 3(2) by (auto simp: k0_def)
    then show ?thesis using 3(1) by (auto simp: free_distortion_def freed_twice_def split: if_splits)
  qed
  moreover have "\<exists>k' n'. DoDisconnect R cmd k n = Ret (k', n')" if "\<not> freed_twice k"
    by (rule returnsE [OF DoDisconnect_ok [OF assms, of R cmd]]) (use that in auto)
  ultimately show ?thesis by blast
qed

text \<open>
  C5: connections share connectors, and each gives its connector back when it disconnects. Take any state that calls of the application, rounds of the task threads, disconnect
  threads and messages of the libraries lead to from a start without connections, each being one step, for every behaviour of the libraries. The connector of a connection
  exists. The next round of its task thread returns, unless the distortion data of a camera are freed a second time, or its command is a search that the library refuses to a
  connector of the older kind or answers with more than 200 records. A disconnect thread returns exactly when the distortion data were not freed before, sound is sent exactly
  when there is a connector, and calling and hanging up always return.
\<close>

theorem connections_safe:
  assumes "sys_reach R F \<lparr>connections = [], sysnet = no_net\<rparr> s" "i < length (connections s)" "k = connections s ! i" "n = sysnet s"
  shows "(mP2p k = 0 \<or> conn_heap n (mP2p k) \<noteq> None) \<and>
    ((\<exists>fin k' n'. task_round R F (Suc i) k n = Ret (fin, k', n')) \<or>
     (\<exists>cmd rest. mCommand k = cmd # rest \<and> (freed_twice k \<or> commandNo cmd = CMD_SEARCHREC \<and> search_fails F (older (mP2p k) n)))) \<and>
    ((\<exists>k' n'. DoDisconnectThread R k n = Ret (k', n')) \<longleftrightarrow> \<not> freed_twice k) \<and>
    ((\<exists>ret n'. SendAudioPacket R a k n = Ret (ret, n')) \<longleftrightarrow> mP2p k \<noteq> 0) \<and>
    (\<exists>ret n'. Call R ch k n = Ret (ret, n')) \<and> (\<exists>ret n'. HangUp R k n = Ret (ret, n'))"
proof -
  have g: "good (others (\<lambda>_. 0) i (connections s)) k n" using reach_good [OF assms(1,2)] assms(3,4) by simp
  have al: "alive (mP2p k) n" if "0 < mP2p k" by (rule net_ok_alive [OF goodD(1) [OF g] that])
  have round: "(\<exists>fin k' n'. task_round R F (Suc i) k n = Ret (fin, k', n')) \<or> round_may_fail F k n"
    by (rule returnsE [OF task_round_ok [OF g, of F R "Suc i"]]) auto
  have audio: "(\<exists>ret n'. SendAudioPacket R a k n = Ret (ret, n')) \<longleftrightarrow> mP2p k \<noteq> 0"
    using simple_frame(13) [OF al, of R a] by (cases "mP2p k = 0") (auto simp: SendAudioPacket_def ok_to_def virtual_defs talkSend_def deref_def)
  have "\<exists>ret n'. Call R ch k n = Ret (ret, n')"
    using simple_frame(11) [OF al [OF goodD(2) [OF g]], of R ch] by (auto simp: Call_def ok_to_def)
  moreover have "\<exists>ret n'. HangUp R k n = Ret (ret, n')"
    using simple_frame(12) [OF al [OF goodD(2) [OF g]], of R] by (auto simp: HangUp_def ok_to_def)
  ultimately show ?thesis using al round audio DoDisconnect_returns_iff [OF g, of R True]
    by (auto simp: round_may_fail_def may_fail_def alive_def DoDisconnectThread_def)
qed

text \<open>
  C19: a task thread that was told to stop carries out the commands that are in its queue, from the front to the back, and ends with an empty queue after at most one round
  more than there are commands. Commands to connect are all carried out; others are, unless a disconnection drops them. It fails only where a round may fail.
\<close>

theorem task_thread_ends:
  assumes "sys_reach R F \<lparr>connections = [], sysnet = no_net\<rparr> s" "i < length (connections s)" "k = connections s ! i" "n = sysnet s" "\<not> mRunThread k"
  shows "(\<exists>k' n' cs. HandleTaskThread (Suc (length (mCommand k))) R F (Suc i) k n = Some (Ret (k', n')) \<and> mCommand k' = [] \<and>
      carried_out R F (Suc i) cs (k, n) (k', n') \<and> subseq cs (mCommand k) \<and> filter connects cs = filter connects (mCommand k)) \<or>
    (\<exists>u. HandleTaskThread (Suc (length (mCommand k))) R F (Suc i) k n = Some (UB u)) \<and>
      (freed_twice k \<or> (\<exists>c\<in>set (mCommand k). commandNo c = CMD_SEARCHREC) \<and> search_fails F True)"
proof -
  have g: "good (others (\<lambda>_. 0) i (connections s)) k n" using reach_good [OF assms(1,2)] assms(3,4) by simp
  obtain x where x: "HandleTaskThread (Suc (length (mCommand k))) R F (Suc i) k n = Some x" "returns (thread_may_fail F k) (drained R F (Suc i) k n) x"
    using HandleTaskThread_ends [OF g assms(5) lessI] by blast
  show ?thesis by (rule returnsE [OF x(2)]) (use x(1) in \<open>auto simp: drained_def thread_may_fail_def\<close>)
qed

text \<open>What setting up a connection tells the application.\<close>

lemma ReConnect_told:
  assumes "ReConnect R me k n = Ret (ret, k', n')"
  shows "mIsConnected k' = (ret = 0) \<and> connectNowStates k' = status_of ret \<and>
    out k' = out k @ [OnStatus NET_STATUS_CONNECTING 0, SetIsP360Dev True, SetIsP360Dev False] @
       (if ret = 0 then [OnStatus NET_STATUS_OPENING 0] else [OnStatus (status_of ret) 0, DecoderResetData]) \<and>
    mCommand k' = (if ret = 0 then mCommand k else filter (\<lambda>c. commandNo c = CMD_CONNECT) (mCommand k))"
proof -
  define k1 where "k1 = notify (SetIsP360Dev False) (notify (SetIsP360Dev True) (notify (OnStatus NET_STATUS_CONNECTING 0) k))"
  obtain p n1 h n2 r3 k3 n3 n4 where
    3: "connect_or_fall_back R (k1\<lparr>mP2p := p, mHandle := h\<rparr>) n2 = Ret (r3, k3, n3)" and 4: "connect_result R ret k3 n4 = Ret (k', n')"
    using assms unfolding ReConnect_def DoStatus_simple [OF status_codes(1)] bnd_simps Let_def k1_def [symmetric] by (auto simp: bnd_Ret_iff split: prod.splits)
  from connect_or_fall_back_fields [OF 3]
  have "out k3 = out k @ [OnStatus NET_STATUS_CONNECTING 0, SetIsP360Dev True, SetIsP360Dev False]" "mCommand k3 = mCommand k" by (auto simp: k1_def notify_def)
  then show ?thesis using connect_result_told [OF 4] by simp
qed

text \<open>
  C9: what setting up a connection tells the application and leaves behind, by the result of connecting and logging in: success, a timeout, a refused login or another
  failure. The connection counts as connected exactly after a success; after a failure the commands that wait in the queue are dropped, but for the next connection.
\<close>

theorem ReConnect_outcome:
  assumes "ReConnect R me k n = Ret (ret, k', n')"
  shows "mIsConnected k' = (ret = 0) \<and> connectNowStates k' = status_of ret \<and>
    out k' = out k @ [OnStatus NET_STATUS_CONNECTING 0, SetIsP360Dev True, SetIsP360Dev False] @
       (if ret = 0 then [OnStatus NET_STATUS_OPENING 0] else [OnStatus (status_of ret) 0, DecoderResetData]) \<and>
    mCommand k' = (if ret = 0 then mCommand k else filter (\<lambda>c. commandNo c = CMD_CONNECT) (mCommand k))"
  by (rule ReConnect_told [OF assms])

text \<open>Setting up a connection whose connector believes to be connected already.\<close>

lemma ReConnect_cached:
  assumes "find_connector (mDeviceID k) (mIP k) (mPort k) (g_ListManager n) n = Ret (Some p)" "length (mDeviceID k) \<le> 15"
    "0 < p" "conn_heap n p = Some c" "c_version c = KCP_P2P" "c_handle c \<noteq> 0" "\<not> c_doneDisconnect c" "c_connectResult c = 0" "c_loginResult c = 0"
  shows "\<exists>k'. ReConnect R me k n = Ret (0, k', set_conn p (UpdateUse True c) n) \<and> mP2p k' = p \<and> mCommand k' = mCommand k"
proof -
  define c' where "c' = UpdateUse True c"
  define k1 where "k1 = notify (SetIsP360Dev False) (notify (SetIsP360Dev True) (notify (OnStatus NET_STATUS_CONNECTING 0) k))"
  define n1 where "n1 = set_conn p c' n"
  have c': "conn_heap n1 p = Some c'" "c_version c' = KCP_P2P" "c_handle c' = c_handle c" "c_handle c' \<noteq> 0" "\<not> c_doneDisconnect c'" "c_connectResult c' = 0" "c_loginResult c' = 0"
    using assms(5-9) by (simp_all add: n1_def c'_def UpdateUse_def set_conn_def Let_def)
  have ver: "c_version c' \<noteq> UDX_P2P" using c'(2) by (simp add: KCP_P2P_def UDX_P2P_def)
  have no: "(0 :: int) \<noteq> NO_RESULT" by (simp add: NO_RESULT_def)
  define k2 where "k2 = k1\<lparr>mP2p := p, mHandle := c_handle c\<rparr>"
  have create: "CreateConnector (mDeviceID k1) (mIP k1) (mPort k1) n = Ret (p, n1)"
    using assms(1,3,4) by (simp add: CreateConnector_def k1_def n1_def c'_def notify_def)
  have handle: "createP2PHandle R me p n1 = Ret (c_handle c, n1)" using c' ver assms(3) by (simp add: virtual_defs createP2PHandle_def)
  have "connect_once R k2 n1 = Ret (0, n1)" using c' ver assms(3) no by (simp add: virtual_defs connect_once_def connect2_def connect3_def k2_def Let_def)
  then have con: "connect_or_fall_back R k2 n1 = Ret (0, k2, n1)"
    using c'(1) assms(3) by (simp add: connect_or_fall_back_def k2_def KP2P_ERR_RESOLVE_FAILED_def)
  have login: "loginP2P R (mUser k2) (mPwd k2) (mP2p k2) n1 = Ret (0, n1)"
    using c' ver assms(3) no by (simp add: virtual_defs loginP2P_def k2_def Let_def)
  have vcon: "vconCreate R ''RemoteSetup'' (mP2p k2) n1 = Ret (0, n1)" using c'(1) ver assms(3) by (simp add: virtual_defs vconCreate_def k2_def)
  define k3 where "k3 = notify (OnStatus NET_STATUS_OPENING 0)
    (k2\<lparr>mAddBuffer := True, mIsConnected := True, mAreadyConnected := True, mDataHandle := 0, connectNowStates := NET_STATUS_CONNECTED\<rparr>)"
  have "connect_result R 0 k2 n1 = Ret (k3, n1)" using vcon by (simp add: connect_result_def DoStatus_simple k3_def)
  then have re: "ReConnect R me k n = Ret (0, k3, n1)" using assms(2)
    unfolding ReConnect_def DoStatus_simple [OF status_codes(1)] bnd_simps Let_def k1_def [symmetric]
    by (simp add: k1_def [symmetric] create handle k2_def [symmetric] con login, simp add: k1_def notify_def)
  moreover have "mP2p k3 = p" "mCommand k3 = mCommand k" by (simp_all add: k3_def k2_def k1_def)
  ultimately show ?thesis unfolding n1_def c'_def by blast
qed

text \<open>Opening a channel changes nothing of a connector but the list of its contexts.\<close>

lemma find_connector_ctx:
  assumes "conn_heap n p = Some c"
  shows "find_connector d a port ps ((set_conn p (c\<lparr>c_ctx := x\<rparr>) n)\<lparr>sdk_calls := xs\<rparr>) = find_connector d a port ps n"
proof (induction ps)
  case (Cons q ps)
  show ?case
  proof (cases "q = p")
    case True
    then show ?thesis using Cons assms by (simp add: deref_def set_conn_def CompareConnectStr_def cong: if_cong)
  next
    case False
    then show ?thesis using Cons by (simp add: deref_def set_conn_def cong: if_cong)
  qed
qed simp

lemma openChannel_effect:
  assumes "conn_heap n p = Some c" "0 < p" "c_version c = KCP_P2P" "openChannel R ch strm True me p n = Ret (ret, n')"
  shows "\<exists>x xs. n' = (set_conn p (c\<lparr>c_ctx := x\<rparr>) n)\<lparr>sdk_calls := xs\<rparr>"
proof -
  have eff: "JAP2PConnector2_openChannel R ch strm True me p c n = Ret (ret, n')"
    using assms by (simp add: openChannel_def virtual_def KCP_P2P_def UDX_P2P_def)
  show ?thesis
  proof (cases "c_handle c = 0")
    case True
    then have "n' = (set_conn p (c\<lparr>c_ctx := c_ctx c\<rparr>) n)\<lparr>sdk_calls := sdk_calls n\<rparr>" using assms(1) eff
      by (simp add: JAP2PConnector2_openChannel_def set_conn_def fun_upd_idem)
    then show ?thesis by blast
  next
    case False
    obtain cs ys where ys: "(case other_channel me ch (c_ctx c) of None \<Rightarrow> (c_ctx c, n)
        | Some (i, cs) \<Rightarrow> (cs, snd (sdk R kp2p_close_stream [I (c_handle c), I i, I 0] (snd (sdk R kp2p_close_stream [I (c_handle c), I i, I 1] n)))))
      = (cs, n\<lparr>sdk_calls := ys\<rparr>)"
    proof (cases "other_channel me ch (c_ctx c)")
      case None
      then show thesis using that [of "c_ctx c" "sdk_calls n"] by simp
    next
      case (Some a)
      then show thesis using that by (cases a) (simp add: sdk_def Let_def)
    qed
    have "n' = (set_conn p (c\<lparr>c_ctx := AddCtx me ch CTX_TYPE_LIVE cs\<rparr>) n)\<lparr>sdk_calls := sdk_calls n'\<rparr>"
      using eff False by (auto simp: JAP2PConnector2_openChannel_def Let_def ys sdk_def set_conn_def)
    then show ?thesis by blast
  qed
qed

lemma DoOpenChannel_failed:
  assumes g: "good h k n" and c: "conn_heap n (mP2p k) = Some c" "0 < mP2p k" "c_version c = KCP_P2P"
    and o: "DoOpenChannel R me cmd True k n = Ret (ret, k1, n1)" "ret \<noteq> 0"
  shows "mP2p k1 = mP2p k" "mDeviceID k1 = mDeviceID k" "mIP k1 = mIP k" "mPort k1 = mPort k" "\<exists>x xs. n1 = (set_conn (mP2p k) (c\<lparr>c_ctx := x\<rparr>) n)\<lparr>sdk_calls := xs\<rparr>"
proof -
  obtain b where b: "reset_buffer k = Ret (k\<lparr>mBuffer := b\<rparr>)" using g by (rule reset_buffer_good)
  obtain r n2 where r: "openChannel R (channelNo cmd) (streamNo cmd) True me (mP2p k) n = Ret (r, n2)"
    by (rule frame_okE [OF goodD(1) [OF g] c(2) openChannel_frame])
  have "r = ret" using o c(2) unfolding DoOpenChannel_def Let_def b bnd_simps by (simp add: r DoStatus_simple split: if_splits)
  then have "k1 = notify (OnStatus NET_STATUS_OPEN_VIDEO 0) (k\<lparr>mBuffer := b, mRecvIFrame := False, mAddBuffer := True, mChannelNo := channelNo cmd, mStreamNo := streamNo cmd, mHasSetP720 := 0\<rparr>)"
    and n2: "n1 = n2" using o c(2) unfolding DoOpenChannel_def Let_def b bnd_simps by (simp_all add: r DoStatus_simple)
  then show "mP2p k1 = mP2p k" "mDeviceID k1 = mDeviceID k" "mIP k1 = mIP k" "mPort k1 = mPort k" by (simp_all add: notify_def)
  show "\<exists>x xs. n1 = (set_conn (mP2p k) (c\<lparr>c_ctx := x\<rparr>) n)\<lparr>sdk_calls := xs\<rparr>" unfolding n2 by (rule openChannel_effect [OF c r])
qed

text \<open>A connector with more users than holders is never deleted.\<close>

lemma extra_user_keeps:
  assumes inv: "sys_inv (\<lambda>_. 0) \<lparr>connections = ks, sysnet = n\<rparr>" and c: "conn_heap n p = Some c" "c_version c \<noteq> UDX_P2P"
    and r: "sys_reach R F \<lparr>connections = ks, sysnet = set_conn p (UpdateUse True c) n\<rparr> t"
  shows "conn_heap (sysnet t) p \<noteq> None"
proof -
  define g :: "nat \<Rightarrow> nat" where "g q = (if q = p then 1 else 0)" for q
  have ok: "net_ok (holders ks) n" using inv by (simp add: sys_inv_def)
  note pc = net_okD(2,4) [OF ok c(1)]
  have "count_ok (holders ks p + g p) (UpdateUse True c)" using pc(2) c(2) by (simp add: count_ok_def UpdateUse_def g_def Let_def)
  from net_ok_set [where h' = "\<lambda>q. holders ks q + g q", OF ok c(1) this]
  have "sys_inv g \<lparr>connections = ks, sysnet = set_conn p (UpdateUse True c) n\<rparr>" using inv by (simp add: sys_inv_def g_def)
  from sys_reach_inv [OF r this] have "net_ok (\<lambda>q. holders (connections t) q + g q) (sysnet t)" by (simp add: sys_inv_def)
  from net_okD(1) [OF this pc(1)] show ?thesis by (simp add: g_def alive_def)
qed

text \<open>
  C24: when a channel cannot be opened the task thread sets the connection up again without closing it before. If the connector that is found for the camera is that of the
  connection, of the newer kind, and still believes to be connected, no call reaches the library, the old result is reported as a new success, and the connector has one
  user more than connections that hold it. From then on it is never deleted, whatever the connections do, also after the last of them has disconnected.
\<close>

theorem failed_open_leaks:
  assumes "sys_reach R F \<lparr>connections = [], sysnet = no_net\<rparr> s" "i < length (connections s)" "k = connections s ! i" "n = sysnet s"
    and "mCommand k = cmd # rest" "commandNo cmd = CMD_OPENCHANNEL"
    and "DoOpenChannel R (Suc i) cmd True (k\<lparr>mCommand := rest\<rparr>) n = Ret (ret, k1, n1)" "ret \<noteq> 0"
    and "0 < mP2p k" "find_connector (mDeviceID k) (mIP k) (mPort k) (g_ListManager n) n = Ret (Some (mP2p k))" "length (mDeviceID k) \<le> 15"
    and "conn_heap n (mP2p k) = Some c" "c_version c = KCP_P2P" "c_handle c \<noteq> 0" "\<not> c_doneDisconnect c" "c_connectResult c = 0" "c_loginResult c = 0"
  shows "\<exists>fin k' n' c'. task_round R F (Suc i) k n = Ret (fin, k', n') \<and> mIsConnected k' \<and> last (out k') = OnStatus NET_STATUS_OPENING 0 \<and> mP2p k' = mP2p k \<and>
    sdk_calls n' = sdk_calls n1 \<and> conn_heap n' (mP2p k) = Some c' \<and> c_use c' = c_use c + 1 \<and>
    (\<forall>t. sys_reach R F \<lparr>connections = (connections s)[i := k'], sysnet = n'\<rparr> t \<longrightarrow> conn_heap (sysnet t) (mP2p k) \<noteq> None)"
proof -
  define k0 where "k0 = k\<lparr>mCommand := rest\<rparr>"
  note inv = sys_reach_inv [OF assms(1) sys_inv_start]
  let ?h = "others (\<lambda>_. 0) i (connections s)"
  have g: "good ?h k0 n" using sys_inv_good [OF inv assms(2)] assms(3-5) by (auto simp: good_def conn_ok_def k0_def)
  have o: "DoOpenChannel R (Suc i) cmd True k0 n = Ret (ret, k1, n1)" using assms(7) by (simp add: k0_def)
  have g1: "good ?h k1 n1" by (rule DoOpenChannel_ok [OF g, of R "Suc i" cmd True]) (use o in auto)
  have p0: "mP2p k0 = mP2p k" by (simp add: k0_def)
  note f = DoOpenChannel_failed [OF g, unfolded p0, OF assms(12,9,13) o assms(8)]
  obtain x xs where n1: "n1 = (set_conn (mP2p k) (c\<lparr>c_ctx := x\<rparr>) n)\<lparr>sdk_calls := xs\<rparr>" using f(5) by blast
  define c1 where "c1 = c\<lparr>c_ctx := x\<rparr>"
  have c1: "conn_heap n1 (mP2p k) = Some c1" "c_version c1 = KCP_P2P" "c_handle c1 \<noteq> 0" "\<not> c_doneDisconnect c1" "c_connectResult c1 = 0" "c_loginResult c1 = 0" "c_use c1 = c_use c"
    using assms(13-17) by (simp_all add: n1 c1_def set_conn_def)
  have find: "find_connector (mDeviceID k1) (mIP k1) (mPort k1) (g_ListManager n1) n1 = Ret (Some (mP2p k))"
    using assms(10) f(2-4) by (simp add: n1 find_connector_ctx [OF assms(12)] k0_def) (simp add: set_conn_def)
  have len: "length (mDeviceID k1) \<le> 15" using assms(11) f(2) by (simp add: k0_def)
  obtain k' where re: "ReConnect R (Suc i) k1 n1 = Ret (0, k', set_conn (mP2p k) (UpdateUse True c1) n1)" "mP2p k' = mP2p k" "mCommand k' = mCommand k1"
    using ReConnect_cached [OF find len assms(9) c1(1-6)] by blast
  have round: "task_round R F (Suc i) k n = Ret (\<not> mRunThread k' \<and> rest = [], k', set_conn (mP2p k) (UpdateUse True c1) n1)"
    using o re(1) assms(5,6,8) by (simp add: task_round_def k0_def run_command_def CMD_OPENCHANNEL_def CMD_CONNECT_def)
  have told: "mIsConnected k'" "last (out k') = OnStatus NET_STATUS_OPENING 0" using ReConnect_told [OF re(1)] by simp_all
  have "conn_ok k'" using ReConnect_ok [OF g1, of R "Suc i"] re(1) by (simp add: good_def)
  moreover have "net_ok (held (mP2p k') ?h) n1" using g1 f(1) re(2) by (simp add: good_def)
  ultimately have "sys_inv (\<lambda>_. 0) \<lparr>connections = (connections s)[i := k'], sysnet = n1\<rparr>" using good_sys_inv [OF inv assms(2)] by (simp add: good_def)
  note keeps = extra_user_keeps [OF this c1(1)]
  have "c_version c1 \<noteq> UDX_P2P" using c1(2) by (simp add: KCP_P2P_def UDX_P2P_def)
  moreover have "0 \<le> c_use c1" using net_okD(4) [OF goodD(1) [OF g1] c1(1) [folded f(1)]] calculation by (simp add: count_ok_def)
  ultimately show ?thesis using round re(2) told keeps c1(7)
    by (intro exI [of _ "\<not> mRunThread k' \<and> rest = []"] exI [of _ k'] exI [of _ "set_conn (mP2p k) (UpdateUse True c1) n1"] exI [of _ "UpdateUse True c1"])
       (auto simp: set_conn_def UpdateUse_def Let_def)
qed

text \<open>The distortion data of a camera are freed when the connection is closed, and the pointer stays: the data of the next camera free them again.\<close>

theorem distortion_freed_twice:
  assumes "mHasSetP720 k \<noteq> 0" "mDistTortion k = Owned bs" "8 \<le> length cs"
  shows "\<exists>k'. free_distortion k = Ret k' \<and> setDistTortion cs k' = UB UseAfterFree"
  using assms by (simp add: free_distortion_def setDistTortion_def)

text \<open>Sound that is sent without a connector.\<close>

theorem SendAudioPacket_null:
  assumes "mP2p k = 0"
  shows "SendAudioPacket R a k n = UB NullDeref"
  using assms by (simp add: SendAudioPacket_def virtual_defs talkSend_def deref_def)

section \<open>Examples\<close>

definition demo_waiting :: connection where
  "demo_waiting = (new_connection None)\<lparr>connectStr := ''1234567'', verifyStr := ''admin:x'',
     mCommand := [no_command\<lparr>commandNo := CMD_CONNECT, ConnectStr := ''1234567'', verifystr := ''admin:x''\<rparr>]\<rparr>"

lemma demo_strings: "good_strings ''1234567'' ''admin:x''"
  by (simp add: good_strings_def good_address_def good_login_def tokens_def)

text \<open>A library that connects and logs in, and refuses to open a channel.\<close>

definition demo_R :: sdk_results where
  "demo_R cs = (case cs of [] \<Rightarrow> 0 | (f, _) # _ \<Rightarrow> if f = kp2p_create then 7 else if f = kp2p_open_stream then 5 else 0)"

abbreviation demo_start :: system where
  "demo_start \<equiv> \<lparr>connections = [], sysnet = no_net\<rparr>"

lemma demo_reach: "sys_reach demo_R (\<lambda>_. []) demo_start \<lparr>connections = [demo_waiting], sysnet = no_net\<rparr>"
proof -
  let ?s1 = "\<lparr>connections = [new_connection None], sysnet = no_net\<rparr>"
  have 1: "sys_step demo_R (\<lambda>_. []) demo_start ?s1"
    using sys_step.create [of None demo_R "\<lambda>_. []" demo_start] by (simp add: unlocked_def)
  have "Connect ''1234567'' ''admin:x'' 0 (new_connection None) = Ret demo_waiting"
    by (simp add: Connect_def AddCommand_def strcpy_def demo_waiting_def no_command_def new_connection_def)
  then have "api_call (connections ?s1 ! 0) demo_waiting" by (auto intro: api_call.intros(1) [OF demo_strings])
  then have 2: "sys_step demo_R (\<lambda>_. []) ?s1 \<lparr>connections = [demo_waiting], sysnet = no_net\<rparr>"
    using sys_step.api [of 0 ?s1 demo_waiting demo_R "\<lambda>_. []"] by simp
  show ?thesis by (rule sys_reach.sys_trans [OF sys_reach.sys_trans [OF sys_reach.sys_refl 1] 2])
qed

lemma demo_not_freed: "\<not> freed_twice (demo_waiting\<lparr>mRunThread := b\<rparr>)" "\<not> freed_twice demo_waiting"
  by (simp_all add: freed_twice_def demo_waiting_def new_connection_def)

theorem connections_safe_witness:
  "(\<exists>fin k n. task_round demo_R (\<lambda>_. []) 1 demo_waiting no_net = Ret (fin, k, n)) \<and> (\<exists>k n. DoDisconnectThread demo_R demo_waiting no_net = Ret (k, n))"
proof -
  have c: "commandNo (no_command\<lparr>commandNo := CMD_CONNECT, ConnectStr := a, verifystr := b\<rparr>) \<noteq> CMD_SEARCHREC" for a b
    by (simp add: command_codes)
  show ?thesis using connections_safe [OF demo_reach, of 0 demo_waiting no_net] demo_not_freed(2) c by (auto simp: demo_waiting_def)
qed

theorem task_thread_ends_witness:
  "\<exists>k n. HandleTaskThread 2 demo_R (\<lambda>_. []) 1 (demo_waiting\<lparr>mRunThread := False\<rparr>) no_net = Some (Ret (k, n)) \<and> mCommand k = []"
proof -
  let ?k = "demo_waiting\<lparr>mRunThread := False\<rparr>"
  have "api_call demo_waiting ?k" by (rule api_call.intros)
  then have "sys_step demo_R (\<lambda>_. []) \<lparr>connections = [demo_waiting], sysnet = no_net\<rparr> \<lparr>connections = [?k], sysnet = no_net\<rparr>"
    using sys_step.api [of 0 "\<lparr>connections = [demo_waiting], sysnet = no_net\<rparr>" ?k demo_R "\<lambda>_. []"] by simp
  from sys_reach.sys_trans [OF demo_reach this]
  have r: "sys_reach demo_R (\<lambda>_. []) demo_start \<lparr>connections = [?k], sysnet = no_net\<rparr>" .
  have q: "mCommand ?k = [no_command\<lparr>commandNo := CMD_CONNECT, ConnectStr := ''1234567'', verifystr := ''admin:x''\<rparr>]" by (simp add: demo_waiting_def)
  have "\<not> (\<exists>c\<in>set (mCommand ?k). commandNo c = CMD_SEARCHREC)" by (simp add: q command_codes)
  moreover have "Suc (length (mCommand ?k)) = 2" by (simp add: q)
  moreover have "\<not> mRunThread ?k" by simp
  ultimately show ?thesis using task_thread_ends [OF r, of 0 ?k no_net] demo_not_freed(1) [of False] by (auto simp: numeral_2_eq_2 simp del: HandleTaskThread.simps)
qed

theorem ReConnect_outcome_witness:
  "\<exists>k' n'. ReConnect (\<lambda>_. 7) 1 (new_connection None) no_net = Ret (7, k', n') \<and> \<not> mIsConnected k' \<and> connectNowStates k' = NET_STATUS_CONNECTFAIL"
proof -
  have "\<exists>k' n'. ReConnect (\<lambda>_. 7) 1 (new_connection None) no_net = Ret (7, k', n')"
    by (simp add: virtual_defs JAP2PConnector_delete_def JAP2PConnector2_delete_def unlink_def ReConnect_def DoStatus_simple CreateConnector_def new_connection_def no_net_def notify_def new_JAP2PConnector2_def new_connector_def Let_def deref_def set_conn_def
      createP2PHandle_def UpdateProperty_def UpdateUse_def KCP_P2P_def UDX_P2P_def sdk_def connect_or_fall_back_def connect_once_def connect3_def remember_def NO_RESULT_def
      KP2P_ERR_RESOLVE_FAILED_def connect_result_def KP2P_ERR_TIMEOUT_def KP2P_ERR_AUTH_FAILED_def KP2P_ERR_AUTH2_FAILED_def DoDisconnect_def close_handles_def release_p2p_def
      DestroyConnector_def closeP2P_def delete_connector_def free_distortion_def DecoderPause_def loginP2P_def strncpy_def)
  then obtain k' n' where r: "ReConnect (\<lambda>_. 7) 1 (new_connection None) no_net = Ret (7, k', n')" by blast
  have "status_of 7 = NET_STATUS_CONNECTFAIL"
    by (simp add: status_of_def KP2P_ERR_TIMEOUT_def KP2P_ERR_AUTH_FAILED_def KP2P_ERR_AUTH2_FAILED_def)
  then show ?thesis using ReConnect_outcome [OF r] r by auto
qed


text \<open>
  The connection is set up by the first round; the channel that is asked for next cannot be opened.
\<close>

lemma demo_connect:
  "\<exists>k n c. task_round demo_R (\<lambda>_. []) 1 demo_waiting no_net = Ret (False, k, n) \<and> mP2p k = 1 \<and> mDeviceID k = ''1234567'' \<and> mIP k = [] \<and> mCommand k = [] \<and>
    mRealStatus k = NET_PLAY_NONE \<and> mBuffer k = None \<and> conn_heap n 1 = Some c \<and> g_ListManager n = [1] \<and> c_devid c = ''1234567'' \<and> c_version c = KCP_P2P \<and> c_handle c = 7 \<and>
    \<not> c_doneDisconnect c \<and> c_connectResult c = 0 \<and> c_loginResult c = 0"
proof -
  have parse: "ParseConnectString ''1234567'' ''admin:x'' k = Ret (parsed ''1234567'' ''admin:x'' k)" for k :: connection
    by (rule ParseConnectString_good) (use demo_strings in \<open>auto simp: good_strings_def\<close>)
  have "parsed ''1234567'' ''admin:x'' k = k\<lparr>mDeviceID := ''1234567'', mIP := [], mPort := 0, mVerify := [], mUser := ''admin'', mPwd := ''x''\<rparr>" for k :: connection
    by (simp add: parsed_def set_address_def set_login_def tokens_def Let_def)
  then show ?thesis
    by (simp add: task_round_def demo_waiting_def run_command_def command_codes no_command_def DoConnect_def new_connection_def NET_STATUS_CONNECTED_def parse reset_buffer_def
      ResetMediaBuffer_def ReConnect_def DoStatus_simple CreateConnector_def no_net_def notify_def new_JAP2PConnector2_def new_connector_def deref_def set_conn_def
      virtual_defs createP2PHandle_def UpdateProperty_def UpdateUse_def KCP_P2P_def UDX_P2P_def sdk_def demo_R_def connect_or_fall_back_def connect_once_def connect3_def
      remember_def NO_RESULT_def KP2P_ERR_RESOLVE_FAILED_def loginP2P_def vconCreate_def connect_result_def strcpy_def strncpy_def Let_def)
qed

theorem failed_open_leaks_witness:
  "\<exists>(s :: system) fin k' n'. task_round demo_R (\<lambda>_. []) 1 (connections s ! 0) (sysnet s) = Ret (fin, k', n') \<and> mIsConnected k' \<and>
    (\<forall>t. sys_reach demo_R (\<lambda>_. []) \<lparr>connections = (connections s)[0 := k'], sysnet = n'\<rparr> t \<longrightarrow> conn_heap (sysnet t) 1 \<noteq> None)"
proof -
  obtain k n c where r: "task_round demo_R (\<lambda>_. []) 1 demo_waiting no_net = Ret (False, k, n)" and k: "mP2p k = 1" "mDeviceID k = ''1234567''" "mIP k = []" "mCommand k = []"
    "mRealStatus k = NET_PLAY_NONE" "mBuffer k = None" and n: "conn_heap n 1 = Some c" "g_ListManager n = [1]" and c: "c_devid c = ''1234567''" "c_version c = KCP_P2P" "c_handle c = 7"
    "\<not> c_doneDisconnect c" "c_connectResult c = 0" "c_loginResult c = 0" using demo_connect by blast
  define cmd where "cmd = no_command\<lparr>commandNo := CMD_OPENCHANNEL, channelNo := 3, streamNo := 0\<rparr>"
  define k2 where "k2 = k\<lparr>mChannelNo := 3, mStreamNo := 0, mCommand := [cmd]\<rparr>"
  define s where "s = \<lparr>connections = [k2], sysnet = n\<rparr>"
  have "sys_step demo_R (\<lambda>_. []) \<lparr>connections = [demo_waiting], sysnet = no_net\<rparr> \<lparr>connections = [k], sysnet = n\<rparr>"
    using sys_step.task [of 0 "\<lparr>connections = [demo_waiting], sysnet = no_net\<rparr>" demo_R "\<lambda>_. []" False k n] r by simp
  note 1 = sys_reach.sys_trans [OF demo_reach this]
  have "OpenChannel 3 0 k = Ret k2"
    using k(4,5) by (simp add: OpenChannel_def AddCommand_def strcpy_def k2_def cmd_def no_command_def NET_PLAY_NONE_def NET_PLAY_RECORD_def)
  then have "api_call k k2" by (rule api_call.intros)
  then have "sys_step demo_R (\<lambda>_. []) \<lparr>connections = [k], sysnet = n\<rparr> s"
    using sys_step.api [of 0 "\<lparr>connections = [k], sysnet = n\<rparr>" k2 demo_R "\<lambda>_. []"] by (simp add: s_def)
  note 2 = sys_reach.sys_trans [OF 1 this]
  have ver: "c_version c \<noteq> UDX_P2P" using c(2) by (simp add: KCP_P2P_def UDX_P2P_def)
  have "\<exists>n1. openChannel demo_R 3 0 True 1 1 n = Ret (5, n1)"
    using n(1) c(3) ver by (auto simp: openChannel_def virtual_def JAP2PConnector2_openChannel_def sdk_def demo_R_def Let_def split: option.split prod.split)
  then obtain k1 n1 where o: "DoOpenChannel demo_R (Suc 0) cmd True (k2\<lparr>mCommand := []\<rparr>) n = Ret (5, k1, n1)"
    using k(1,6) by (auto simp: DoOpenChannel_def k2_def cmd_def no_command_def reset_buffer_def ResetMediaBuffer_def DoStatus_simple)
  have f: "find_connector (mDeviceID k2) (mIP k2) (mPort k2) (g_ListManager n) n = Ret (Some (mP2p k2))"
    using k(1-3) n c ver by (simp add: k2_def CompareConnectStr_def strcasecmp_eq_def)
  have hyps: "0 < length (connections s)" "k2 = connections s ! 0" "n = sysnet s" "mCommand k2 = cmd # []" "commandNo cmd = CMD_OPENCHANNEL" "(5 :: int) \<noteq> 0" "0 < mP2p k2"
    "length (mDeviceID k2) \<le> 15" "conn_heap n (mP2p k2) = Some c" "c_handle c \<noteq> 0" using k(1,2) n(1) c(3) by (simp_all add: s_def k2_def cmd_def)
  obtain fin k' n' where
    e: "task_round demo_R (\<lambda>_. []) (Suc 0) k2 n = Ret (fin, k', n')" "mIsConnected k'"
      "\<forall>t. sys_reach demo_R (\<lambda>_. []) \<lparr>connections = (connections s)[0 := k'], sysnet = n'\<rparr> t \<longrightarrow> conn_heap (sysnet t) (mP2p k2) \<noteq> None"
    using failed_open_leaks [OF 2 hyps(1-5) o hyps(6,7) f hyps(8,9) c(2) hyps(10) c(4-6)] by blast
  moreover have "mP2p k2 = 1" using k(1) by (simp add: k2_def)
  ultimately show ?thesis unfolding s_def by - (intro exI [of _ "\<lparr>connections = [k2], sysnet = n\<rparr>"] exI [of _ fin] exI [of _ k'] exI [of _ n'], simp)
qed

end
