(* ===== verification/GLESMath.thy ===== *)
theory GLESMath
  imports Prelude
begin

text \<open>
  \<^verbatim>\<open>gles/GLES/GLESMath.c\<close>: vectors and 4x4 matrices of the renderer. Floating point numbers are the reals that they stand for; every operation
  of the source rounds its exact result, and the rounding of \<open>float\<close> and \<open>double\<close> together with the functions of \<^verbatim>\<open>math.h\<close> are the
  parameter \<open>fl\<close>, so the definitions have an operation wherever the source has one. Infinities and NaN are not modelled: a division
  by zero is 0 in HOL, and the code guards its divisions. With \<open>exact\<close> nothing is rounded. A matrix \<open>m\<close> is a function of row and column below 4.
\<close>

record fl =
  f32 :: "real \<Rightarrow> real"
  f64 :: "real \<Rightarrow> real"
  sinf :: "real \<Rightarrow> real"
  cosf :: "real \<Rightarrow> real"
  tanf :: "real \<Rightarrow> real"
  sqrtf :: "real \<Rightarrow> real"
  sqrt64 :: "real \<Rightarrow> real"

definition exact :: fl where
  "exact = \<lparr>f32 = id, f64 = id, sinf = sin, cosf = cos, tanf = tan, sqrtf = sqrt, sqrt64 = sqrt\<rparr>"

record KSVec3 =
  vx :: real
  vy :: real
  vz :: real

type_synonym KSMatrix4 = "nat \<Rightarrow> nat \<Rightarrow> real"

definition set_m :: "nat \<Rightarrow> nat \<Rightarrow> real \<Rightarrow> KSMatrix4 \<Rightarrow> KSMatrix4" where
  "set_m i j v m = m(i := (m i)(j := v))"

text \<open>\<open>a + b + c + \<dots>\<close> from the left; a subtraction adds the negated term, which is exact.\<close>

fun fsum :: "(real \<Rightarrow> real) \<Rightarrow> real list \<Rightarrow> real" where
  "fsum r [] = 0"
| "fsum r (x # xs) = foldl (\<lambda>s t. r (s + t)) x xs"

section \<open>Integers\<close>

definition ksNextPot :: "u32 \<Rightarrow> u32" where
  "ksNextPot n =
     (let n = n - 1; n = n OR drop_bit 1 n; n = n OR drop_bit 2 n; n = n OR drop_bit 4 n; n = n OR drop_bit 8 n;
          n = n OR drop_bit 16 n in n + 1)"

section \<open>Vectors\<close>

definition ksVectorLength :: "fl \<Rightarrow> KSVec3 \<Rightarrow> real" where
  "ksVectorLength fl v = f32 fl (sqrt64 fl (fsum (f32 fl) [f32 fl (vx v * vx v), f32 fl (vy v * vy v), f32 fl (vz v * vz v)]))"

definition ksCrossProduct :: "fl \<Rightarrow> KSVec3 \<Rightarrow> KSVec3 \<Rightarrow> KSVec3" where
  "ksCrossProduct fl a b =
     (let p = (\<lambda>x y. f32 fl (x * y)); s = (\<lambda>x y. f32 fl (x - y)) in
      \<lparr>vx = s (p (vy a) (vz b)) (p (vz a) (vy b)),
       vy = s (p (vz a) (vx b)) (p (vx a) (vz b)),
       vz = s (p (vx a) (vy b)) (p (vy b) (vx a))\<rparr>)"

definition ksVectorSubtract :: "fl \<Rightarrow> KSVec3 \<Rightarrow> KSVec3 \<Rightarrow> KSVec3" where
  "ksVectorSubtract fl a b = \<lparr>vx = f32 fl (vx a - vx b), vy = f32 fl (vy a - vy b), vz = f32 fl (vz a - vz b)\<rparr>"

definition ksVectorNormalize :: "fl \<Rightarrow> KSVec3 \<Rightarrow> KSVec3" where
  "ksVectorNormalize fl v =
     (let len = ksVectorLength fl v in
      if len \<noteq> 0 then
        let len = f32 fl (f64 fl (1 / len)) in
        \<lparr>vx = f32 fl (vx v * len), vy = f32 fl (vy v * len), vz = f32 fl (vz v * len)\<rparr>
      else v)"

section \<open>Matrices\<close>

definition ksScale :: "fl \<Rightarrow> KSMatrix4 \<Rightarrow> real \<Rightarrow> real \<Rightarrow> real \<Rightarrow> KSMatrix4" where
  "ksScale fl m sx sy sz =
     (\<lambda>i j. if i = 0 then f32 fl (m 0 j * sx) else if i = 1 then f32 fl (m 1 j * sy) else if i = 2 then f32 fl (m 2 j * sz) else m i j)"

definition ksTranslate :: "fl \<Rightarrow> KSMatrix4 \<Rightarrow> real \<Rightarrow> real \<Rightarrow> real \<Rightarrow> KSMatrix4" where
  "ksTranslate fl m tx ty tz =
     (\<lambda>i j. if i = 3 then f32 fl (m 3 j + fsum (f32 fl) [f32 fl (m 0 j * tx), f32 fl (m 1 j * ty), f32 fl (m 2 j * tz)]) else m i j)"

definition ksMatrixMultiply :: "fl \<Rightarrow> KSMatrix4 \<Rightarrow> KSMatrix4 \<Rightarrow> KSMatrix4" where
  "ksMatrixMultiply fl a b =
     (\<lambda>i j. fsum (f32 fl) [f32 fl (a i 0 * b 0 j), f32 fl (a i 1 * b 1 j), f32 fl (a i 2 * b 2 j), f32 fl (a i 3 * b 3 j)])"

text \<open>The rotation matrix about the unit vector \<open>(x, y, z)\<close>.\<close>

definition rotMat :: "fl \<Rightarrow> real \<Rightarrow> real \<Rightarrow> real \<Rightarrow> real \<Rightarrow> real \<Rightarrow> KSMatrix4" where
  "rotMat fl s c x y z =
     (let p = (\<lambda>a b. f32 fl (a * b));
          xx = p x x; yy = p y y; zz = p z z; xy = p x y; yz = p y z; zx = p z x; xs = p x s; ys = p y s; zs = p z s;
          oneMinusCos = f32 fl (1 - c) in
      (\<lambda>i j.
        if i = 0 then
          if j = 0 then f32 fl (p oneMinusCos xx + c) else if j = 1 then f32 fl (p oneMinusCos xy - zs)
          else if j = 2 then f32 fl (p oneMinusCos zx + ys) else 0
        else if i = 1 then
          if j = 0 then f32 fl (p oneMinusCos xy + zs) else if j = 1 then f32 fl (p oneMinusCos yy + c)
          else if j = 2 then f32 fl (p oneMinusCos yz - xs) else 0
        else if i = 2 then
          if j = 0 then f32 fl (p oneMinusCos zx - ys) else if j = 1 then f32 fl (p oneMinusCos yz + xs)
          else if j = 2 then f32 fl (p oneMinusCos zz + c) else 0
        else if j = 3 then 1 else 0))"

definition ksRotate :: "fl \<Rightarrow> KSMatrix4 \<Rightarrow> real \<Rightarrow> real \<Rightarrow> real \<Rightarrow> real \<Rightarrow> KSMatrix4" where
  "ksRotate fl m angle x y z =
     (let mag = sqrtf fl (fsum (f32 fl) [f32 fl (x * x), f32 fl (y * y), f32 fl (z * z)]);
          a = f32 fl (f64 fl (f64 fl (angle * f64 fl pi) / 180));
          sinAngle = sinf fl a; cosAngle = cosf fl a in
      if 0 < mag then ksMatrixMultiply fl (rotMat fl sinAngle cosAngle (f32 fl (x / mag)) (f32 fl (y / mag)) (f32 fl (z / mag))) m
      else m)"

definition ksCopyMatrix4 :: "KSMatrix4 \<Rightarrow> KSMatrix4" where
  "ksCopyMatrix4 src = src"

definition ksTranspose :: "KSMatrix4 \<Rightarrow> KSMatrix4" where
  "ksTranspose src = (\<lambda>i j. src j i)"

definition ksMatrix4ToMatrix3 :: "KSMatrix4 \<Rightarrow> KSMatrix4 \<Rightarrow> KSMatrix4" where
  "ksMatrix4ToMatrix3 t src = (\<lambda>i j. if i < 3 \<and> j < 3 then src i j else t i j)"

definition ksMatrixLoadIdentity :: KSMatrix4 where
  "ksMatrixLoadIdentity = (\<lambda>i j. if i = j then 1 else 0)"

text \<open>The sixteen cofactors; \<open>m k\<close> is element \<open>k\<close> in the order of memory.\<close>

definition cofactors :: "fl \<Rightarrow> (nat \<Rightarrow> real) \<Rightarrow> real list" where
  "cofactors fl m =
     (let p = (\<lambda>a b c. f32 fl (f32 fl (a * b) * c)) in
     [fsum (f32 fl) [p (m 5) (m 10) (m 15), - p (m 5) (m 11) (m 14), - p (m 9) (m 6) (m 15), p (m 9) (m 7) (m 14), p (m 13) (m 6) (m 11), - p (m 13) (m 7) (m 10)],
      fsum (f32 fl) [p (- m 1) (m 10) (m 15), p (m 1) (m 11) (m 14), p (m 9) (m 2) (m 15), - p (m 9) (m 3) (m 14), - p (m 13) (m 2) (m 11), p (m 13) (m 3) (m 10)],
      fsum (f32 fl) [p (m 1) (m 6) (m 15), - p (m 1) (m 7) (m 14), - p (m 5) (m 2) (m 15), p (m 5) (m 3) (m 14), p (m 13) (m 2) (m 7), - p (m 13) (m 3) (m 6)],
      fsum (f32 fl) [p (- m 1) (m 6) (m 11), p (m 1) (m 7) (m 10), p (m 5) (m 2) (m 11), - p (m 5) (m 3) (m 10), - p (m 9) (m 2) (m 7), p (m 9) (m 3) (m 6)],
      fsum (f32 fl) [p (- m 4) (m 10) (m 15), p (m 4) (m 11) (m 14), p (m 8) (m 6) (m 15), - p (m 8) (m 7) (m 14), - p (m 12) (m 6) (m 11), p (m 12) (m 7) (m 10)],
      fsum (f32 fl) [p (m 0) (m 10) (m 15), - p (m 0) (m 11) (m 14), - p (m 8) (m 2) (m 15), p (m 8) (m 3) (m 14), p (m 12) (m 2) (m 11), - p (m 12) (m 3) (m 10)],
      fsum (f32 fl) [p (- m 0) (m 6) (m 15), p (m 0) (m 7) (m 14), p (m 4) (m 2) (m 15), - p (m 4) (m 3) (m 14), - p (m 12) (m 2) (m 7), p (m 12) (m 3) (m 6)],
      fsum (f32 fl) [p (m 0) (m 6) (m 11), - p (m 0) (m 7) (m 10), - p (m 4) (m 2) (m 11), p (m 4) (m 3) (m 10), p (m 8) (m 2) (m 7), - p (m 8) (m 3) (m 6)],
      fsum (f32 fl) [p (m 4) (m 9) (m 15), - p (m 4) (m 11) (m 13), - p (m 8) (m 5) (m 15), p (m 8) (m 7) (m 13), p (m 12) (m 5) (m 11), - p (m 12) (m 7) (m 9)],
      fsum (f32 fl) [p (- m 0) (m 9) (m 15), p (m 0) (m 11) (m 13), p (m 8) (m 1) (m 15), - p (m 8) (m 3) (m 13), - p (m 12) (m 1) (m 11), p (m 12) (m 3) (m 9)],
      fsum (f32 fl) [p (m 0) (m 5) (m 15), - p (m 0) (m 7) (m 13), - p (m 4) (m 1) (m 15), p (m 4) (m 3) (m 13), p (m 12) (m 1) (m 7), - p (m 12) (m 3) (m 5)],
      fsum (f32 fl) [p (- m 0) (m 5) (m 11), p (m 0) (m 7) (m 9), p (m 4) (m 1) (m 11), - p (m 4) (m 3) (m 9), - p (m 8) (m 1) (m 7), p (m 8) (m 3) (m 5)],
      fsum (f32 fl) [p (- m 4) (m 9) (m 14), p (m 4) (m 10) (m 13), p (m 8) (m 5) (m 14), - p (m 8) (m 6) (m 13), - p (m 12) (m 5) (m 10), p (m 12) (m 6) (m 9)],
      fsum (f32 fl) [p (m 0) (m 9) (m 14), - p (m 0) (m 10) (m 13), - p (m 8) (m 1) (m 14), p (m 8) (m 2) (m 13), p (m 12) (m 1) (m 10), - p (m 12) (m 2) (m 9)],
      fsum (f32 fl) [p (- m 0) (m 5) (m 14), p (m 0) (m 6) (m 13), p (m 4) (m 1) (m 14), - p (m 4) (m 2) (m 13), - p (m 12) (m 1) (m 6), p (m 12) (m 2) (m 5)],
      fsum (f32 fl) [p (m 0) (m 5) (m 10), - p (m 0) (m 6) (m 9), - p (m 4) (m 1) (m 10), p (m 4) (m 2) (m 9), p (m 8) (m 1) (m 6), - p (m 8) (m 2) (m 5)]])"

definition ksInvert :: "fl \<Rightarrow> KSMatrix4 \<Rightarrow> KSMatrix4 \<Rightarrow> int \<times> KSMatrix4" where
  "ksInvert fl out inp =
     (let m = (\<lambda>k. inp (k div 4) (k mod 4));
          inv = cofactors fl m;
          q = (\<lambda>a b. f64 fl (a * b));
          det = fsum (f64 fl) [q (m 0) (inv ! 0), q (m 1) (inv ! 4), q (m 2) (inv ! 8), q (m 3) (inv ! 12)] in
      if det = 0 then (0, out)
      else
        let det = f64 fl (1 / det) in
        (1, \<lambda>i j. if i < 4 \<and> j < 4 then f32 fl (q (inv ! (4 * i + j)) det) else out i j))"

definition ksFrustum :: "fl \<Rightarrow> KSMatrix4 \<Rightarrow> real \<Rightarrow> real \<Rightarrow> real \<Rightarrow> real \<Rightarrow> real \<Rightarrow> real \<Rightarrow> KSMatrix4" where
  "ksFrustum fl m left right bottom top1 nearZ farZ =
     (let r = f32 fl; deltaX = r (right - left); deltaY = r (top1 - bottom); deltaZ = r (farZ - nearZ) in
      if nearZ \<le> 0 \<or> farZ \<le> 0 \<or> deltaX \<le> 0 \<or> deltaY \<le> 0 \<or> deltaZ \<le> 0 then m
      else
        let frust = (\<lambda>i j.
          if i = 0 then if j = 0 then r (r (2 * nearZ) / deltaX) else 0
          else if i = 1 then if j = 1 then r (r (2 * nearZ) / deltaY) else 0
          else if i = 2 then
            if j = 0 then r (r (right + left) / deltaX) else if j = 1 then r (r (top1 + bottom) / deltaY)
            else if j = 2 then r (- r (nearZ + farZ) / deltaZ) else - 1
          else if j = 2 then r (r (r (- 2 * nearZ) * farZ) / deltaZ) else 0) in
        ksMatrixMultiply fl frust m)"

definition ksPerspective :: "fl \<Rightarrow> KSMatrix4 \<Rightarrow> real \<Rightarrow> real \<Rightarrow> real \<Rightarrow> real \<Rightarrow> KSMatrix4" where
  "ksPerspective fl m fovy aspect nearZ farZ =
     (let frustumH = f32 fl (tanf fl (f32 fl (f64 fl (f32 fl (fovy / 360) * f64 fl pi))) * nearZ); frustumW = f32 fl (frustumH * aspect) in
      ksFrustum fl m (- frustumW) frustumW (- frustumH) frustumH nearZ farZ)"

definition ksOrtho :: "fl \<Rightarrow> KSMatrix4 \<Rightarrow> real \<Rightarrow> real \<Rightarrow> real \<Rightarrow> real \<Rightarrow> real \<Rightarrow> real \<Rightarrow> KSMatrix4" where
  "ksOrtho fl m left right bottom top1 nearZ farZ =
     (let r = f32 fl; deltaX = r (right - left); deltaY = r (top1 - bottom); deltaZ = r (farZ - nearZ) in
      if deltaX = 0 \<or> deltaY = 0 \<or> deltaZ = 0 then m
      else
        let ortho = set_m 0 0 (r (2 / deltaX)) (set_m 3 0 (r (- r (right + left) / deltaX))
             (set_m 1 1 (r (2 / deltaY)) (set_m 3 1 (r (- r (top1 + bottom) / deltaY))
             (set_m 2 2 (r (- 2 / deltaZ)) (set_m 3 2 (r (- r (nearZ + farZ) / deltaZ)) ksMatrixLoadIdentity))))) in
        ksMatrixMultiply fl ortho m)"

definition ksLookAt :: "fl \<Rightarrow> KSVec3 \<Rightarrow> KSVec3 \<Rightarrow> KSVec3 \<Rightarrow> KSMatrix4" where
  "ksLookAt fl eye target up =
     (let forward = ksVectorNormalize fl (ksVectorSubtract fl target eye);
          side = ksVectorNormalize fl (ksCrossProduct fl up forward);
          up2 = ksVectorNormalize fl (ksCrossProduct fl side forward);
          rot = set_m 0 0 (vx side) (set_m 0 1 (vy side) (set_m 0 2 (vz side)
            (set_m 1 0 (vx up2) (set_m 1 1 (vy up2) (set_m 1 2 (vz up2)
            (set_m 2 0 (- vx forward) (set_m 2 1 (- vy forward) (set_m 2 2 (- vz forward) ksMatrixLoadIdentity))))))));
          transMat = ksTranslate fl ksMatrixLoadIdentity (- vx eye) (- vy eye) (- vz eye) in
      ksMatrixMultiply fl rot transMat)"



section \<open>Next power of two\<close>

text \<open>The shifts smear the bits of \<open>n\<close> downwards: after \<open>n |= n >> k\<close> a bit is set when one of twice as many bits was.\<close>

definition smeared :: "nat \<Rightarrow> u32 \<Rightarrow> u32 \<Rightarrow> bool" where
  "smeared k n s \<longleftrightarrow> (\<forall>i. bit s i \<longleftrightarrow> (\<exists>d<k. bit n (i + d)))"

lemma smeared_1: "smeared 1 n n"
  by (simp add: smeared_def)

lemma smeared_double:
  assumes "smeared k n s"
  shows "smeared (2 * k) n (s OR drop_bit k s)"
proof -
  have "(\<exists>d<k. P d) \<or> (\<exists>d<k. P (k + d)) \<longleftrightarrow> (\<exists>d<2 * k. P d)" for P :: "nat \<Rightarrow> bool"
    by (metis add_less_cancel_left le_add_diff_inverse less_or_eq_imp_le linorder_not_less mult_2 trans_less_add1)
  from this [of "\<lambda>d. bit n (_ + d)"] show ?thesis
    using assms by (simp add: smeared_def bit_or_iff bit_drop_bit_eq add.assoc add.left_commute)
qed

lemma bit_unat_div: "bit n j \<longleftrightarrow> odd (unat n div 2 ^ j)" for n :: u32
proof -
  have "bit (unat n) j \<longleftrightarrow> bit n j" by (simp add: bit_unsigned_iff)
  then show ?thesis by (simp add: bit_iff_odd)
qed

lemma smeared_mask:
  assumes "smeared 32 n s" "2 ^ h \<le> 2 * unat n" "unat n < 2 ^ h" "h \<le> 32"
  shows "s = mask h"
proof (rule bit_word_eqI)
  fix i assume i: "i < LENGTH(32)"
  have above: "\<not> bit n j" if "h \<le> j" for j
  proof -
    have "unat n < 2 ^ j" using assms(3) power_increasing [OF that, of "2 :: nat"] by (auto intro: less_le_trans)
    then show ?thesis by (simp add: bit_unat_div)
  qed
  have below: "bit n (h - 1)" if "0 < h"
  proof -
    have "(2 :: nat) ^ h = 2 * 2 ^ (h - 1)" using that by (cases h) auto
    then have "unat n div 2 ^ (h - 1) = 1" using assms(2,3) by (intro div_nat_eqI) auto
    then show ?thesis by (simp add: bit_unat_div)
  qed
  have "(\<exists>d<32. bit n (i + d)) \<longleftrightarrow> i < h"
  proof
    assume "i < h"
    then have "bit n (i + (h - 1 - i))" using below by simp
    moreover have "h - 1 - i < 32" using \<open>i < h\<close> assms(4) by simp
    ultimately show "\<exists>d<32. bit n (i + d)" by blast
  qed (use above in \<open>metis not_le trans_le_add1\<close>)
  then show "bit s i \<longleftrightarrow> bit (mask h :: u32) i"
    using assms(1) i by (simp add: smeared_def bit_mask_iff)
qed

lemma nat_between_powers: "\<exists>h. 2 ^ h \<le> 2 * n \<and> n < (2 :: nat) ^ h" if "0 < n"
proof -
  obtain k where "2 ^ k \<le> n" "n < 2 ^ (k + 1)"
    using ex_power_ivl1 [of 2 n] \<open>0 < n\<close> by (auto simp: Suc_le_eq)
  then show ?thesis by (intro exI [of _ "k + 1"]) auto
qed

text \<open>
  \<open>ksNextPot\<close> computes the least power of two that is at least \<open>n\<close>, for every \<open>n\<close> from 1 to \<open>2\<^sup>3\<^sup>1\<close>; this is how the texture sizes of
  the renderer are rounded up.
\<close>

theorem ksNextPot_least:
  assumes "0 < n" "n \<le> 2 ^ 31"
  shows "\<exists>h\<le>31. ksNextPot n = 2 ^ h \<and> n \<le> 2 ^ h \<and> (\<forall>k<h. 2 ^ k < n)"
proof -
  define N where "N = unat n"
  have N: "0 < N" "N \<le> 2 ^ 31"
    using assms by (auto simp: N_def word_less_nat_alt word_le_nat_alt)
  have N1: "unat (n - 1) = N - 1"
    unfolding N_def by (rule unat_minus_one) (use assms in \<open>simp add: word_gt_0\<close>)
  obtain h where h: "2 ^ h \<le> 2 * (N - 1) \<or> (h = 0 \<and> N = 1)" "N - 1 < 2 ^ h"
    using nat_between_powers [of "N - 1"] N(1) by (cases "N = 1") force+
  have "(2 :: nat) ^ h < 2 ^ 32" using h N(2) by auto
  then have "h < 32" by (rule power_less_imp_less_exp [rotated]) simp
  then have h31: "h \<le> 31" by simp
  define s where "s = ksNextPot n - 1"
  have sm: "smeared 32 (n - 1) s"
    using smeared_double [OF smeared_double [OF smeared_double [OF smeared_double [OF smeared_double [OF smeared_1 [of "n - 1"]]]]]]
    by (simp add: s_def ksNextPot_def Let_def)
  have "s = mask h"
  proof (cases "N = 1")
    case True
    then have "n - 1 = 0" using N1 by (simp add: unat_eq_0)
    then have "s = 0" using sm by (auto simp: smeared_def intro: bit_word_eqI)
    then show ?thesis using h True by auto
  next
    case False
    then show ?thesis using smeared_mask [OF sm] h h31 by (simp add: N1)
  qed
  then have pot: "ksNextPot n = 2 ^ h" by (simp add: s_def mask_eq_exp_minus_1)
  have up: "unat (2 ^ k :: u32) = 2 ^ k" if "k \<le> 31" for k
  proof -
    have "(2 :: nat) ^ k < 2 ^ 32" using that by (intro power_strict_increasing) auto
    then show ?thesis using unat_of_nat [where 'a = 32 and x = "2 ^ k"] by simp
  qed
  have "2 ^ k < N" if "k < h" for k
    using h power_increasing [of "k + 1" h "2 :: nat"] that by auto
  then show ?thesis
    using pot h h31 N(1) up by (intro exI [of _ h]) (auto simp: word_le_nat_alt word_less_nat_alt N_def)
qed

theorem ksNextPot_least_witness: "\<exists>h\<le>31. ksNextPot 1000 = 2 ^ h \<and> 1000 \<le> (2 ^ h :: u32) \<and> (\<forall>k<h. (2 ^ k :: u32) < 1000)"
  by (rule ksNextPot_least) simp_all

section \<open>Matrix algebra in exact arithmetic\<close>

lemma exact_sel [simp]:
  "f32 exact x = x" "f64 exact x = x" "sinf exact x = sin x" "cosf exact x = cos x" "tanf exact x = tan x" "sqrtf exact x = sqrt x"
  "sqrt64 exact x = sqrt x"
  by (simp_all add: exact_def)

text \<open>Two matrices are equal when their sixteen elements are.\<close>

definition mat_eq :: "KSMatrix4 \<Rightarrow> KSMatrix4 \<Rightarrow> bool" where
  "mat_eq a b \<longleftrightarrow> (\<forall>i<4. \<forall>j<4. a i j = b i j)"

lemma all_less_4: "(\<forall>i<4. P i) \<longleftrightarrow> P 0 \<and> P 1 \<and> P 2 \<and> P (3 :: nat)"
  by (auto simp: numeral_eq_Suc less_Suc_eq)

lemma ksMatrixMultiply_exact:
  "ksMatrixMultiply exact a b i j = a i 0 * b 0 j + a i 1 * b 1 j + a i 2 * b 2 j + a i 3 * b 3 j"
  by (simp add: ksMatrixMultiply_def)

text \<open>The determinant, by expansion along the first row.\<close>

definition det3 :: "(nat \<Rightarrow> nat \<Rightarrow> real) \<Rightarrow> real" where
  "det3 m = m 0 0 * (m 1 1 * m 2 2 - m 1 2 * m 2 1) - m 0 1 * (m 1 0 * m 2 2 - m 1 2 * m 2 0) + m 0 2 * (m 1 0 * m 2 1 - m 1 1 * m 2 0)"

definition det4 :: "KSMatrix4 \<Rightarrow> real" where
  "det4 m = (let del = (\<lambda>k i j. m (i + 1) (if j < k then j else j + 1)) in
     m 0 0 * det3 (del 0) - m 0 1 * det3 (del 1) + m 0 2 * det3 (del 2) - m 0 3 * det3 (del (3 :: nat)))"

definition adjugate :: "KSMatrix4 \<Rightarrow> KSMatrix4" where
  "adjugate a i j = cofactors exact (\<lambda>k. a (k div 4) (k mod 4)) ! (4 * i + j)"

lemma adjugate_eq:
  "adjugate a 0 0 = a 1 1 * a 2 2 * a 3 3 - a 1 1 * a 2 3 * a 3 2 - a 2 1 * a 1 2 * a 3 3 + a 2 1 * a 1 3 * a 3 2 + a 3 1 * a 1 2 * a 2 3 - a 3 1 * a 1 3 * a 2 2"
  "adjugate a 0 1 = - a 0 1 * a 2 2 * a 3 3 + a 0 1 * a 2 3 * a 3 2 + a 2 1 * a 0 2 * a 3 3 - a 2 1 * a 0 3 * a 3 2 - a 3 1 * a 0 2 * a 2 3 + a 3 1 * a 0 3 * a 2 2"
  "adjugate a 0 2 = a 0 1 * a 1 2 * a 3 3 - a 0 1 * a 1 3 * a 3 2 - a 1 1 * a 0 2 * a 3 3 + a 1 1 * a 0 3 * a 3 2 + a 3 1 * a 0 2 * a 1 3 - a 3 1 * a 0 3 * a 1 2"
  "adjugate a 0 3 = - a 0 1 * a 1 2 * a 2 3 + a 0 1 * a 1 3 * a 2 2 + a 1 1 * a 0 2 * a 2 3 - a 1 1 * a 0 3 * a 2 2 - a 2 1 * a 0 2 * a 1 3 + a 2 1 * a 0 3 * a 1 2"
  "adjugate a 1 0 = - a 1 0 * a 2 2 * a 3 3 + a 1 0 * a 2 3 * a 3 2 + a 2 0 * a 1 2 * a 3 3 - a 2 0 * a 1 3 * a 3 2 - a 3 0 * a 1 2 * a 2 3 + a 3 0 * a 1 3 * a 2 2"
  "adjugate a 1 1 = a 0 0 * a 2 2 * a 3 3 - a 0 0 * a 2 3 * a 3 2 - a 2 0 * a 0 2 * a 3 3 + a 2 0 * a 0 3 * a 3 2 + a 3 0 * a 0 2 * a 2 3 - a 3 0 * a 0 3 * a 2 2"
  "adjugate a 1 2 = - a 0 0 * a 1 2 * a 3 3 + a 0 0 * a 1 3 * a 3 2 + a 1 0 * a 0 2 * a 3 3 - a 1 0 * a 0 3 * a 3 2 - a 3 0 * a 0 2 * a 1 3 + a 3 0 * a 0 3 * a 1 2"
  "adjugate a 1 3 = a 0 0 * a 1 2 * a 2 3 - a 0 0 * a 1 3 * a 2 2 - a 1 0 * a 0 2 * a 2 3 + a 1 0 * a 0 3 * a 2 2 + a 2 0 * a 0 2 * a 1 3 - a 2 0 * a 0 3 * a 1 2"
  "adjugate a 2 0 = a 1 0 * a 2 1 * a 3 3 - a 1 0 * a 2 3 * a 3 1 - a 2 0 * a 1 1 * a 3 3 + a 2 0 * a 1 3 * a 3 1 + a 3 0 * a 1 1 * a 2 3 - a 3 0 * a 1 3 * a 2 1"
  "adjugate a 2 1 = - a 0 0 * a 2 1 * a 3 3 + a 0 0 * a 2 3 * a 3 1 + a 2 0 * a 0 1 * a 3 3 - a 2 0 * a 0 3 * a 3 1 - a 3 0 * a 0 1 * a 2 3 + a 3 0 * a 0 3 * a 2 1"
  "adjugate a 2 2 = a 0 0 * a 1 1 * a 3 3 - a 0 0 * a 1 3 * a 3 1 - a 1 0 * a 0 1 * a 3 3 + a 1 0 * a 0 3 * a 3 1 + a 3 0 * a 0 1 * a 1 3 - a 3 0 * a 0 3 * a 1 1"
  "adjugate a 2 3 = - a 0 0 * a 1 1 * a 2 3 + a 0 0 * a 1 3 * a 2 1 + a 1 0 * a 0 1 * a 2 3 - a 1 0 * a 0 3 * a 2 1 - a 2 0 * a 0 1 * a 1 3 + a 2 0 * a 0 3 * a 1 1"
  "adjugate a 3 0 = - a 1 0 * a 2 1 * a 3 2 + a 1 0 * a 2 2 * a 3 1 + a 2 0 * a 1 1 * a 3 2 - a 2 0 * a 1 2 * a 3 1 - a 3 0 * a 1 1 * a 2 2 + a 3 0 * a 1 2 * a 2 1"
  "adjugate a 3 1 = a 0 0 * a 2 1 * a 3 2 - a 0 0 * a 2 2 * a 3 1 - a 2 0 * a 0 1 * a 3 2 + a 2 0 * a 0 2 * a 3 1 + a 3 0 * a 0 1 * a 2 2 - a 3 0 * a 0 2 * a 2 1"
  "adjugate a 3 2 = - a 0 0 * a 1 1 * a 3 2 + a 0 0 * a 1 2 * a 3 1 + a 1 0 * a 0 1 * a 3 2 - a 1 0 * a 0 2 * a 3 1 - a 3 0 * a 0 1 * a 1 2 + a 3 0 * a 0 2 * a 1 1"
  "adjugate a 3 3 = a 0 0 * a 1 1 * a 2 2 - a 0 0 * a 1 2 * a 2 1 - a 1 0 * a 0 1 * a 2 2 + a 1 0 * a 0 2 * a 2 1 + a 2 0 * a 0 1 * a 1 2 - a 2 0 * a 0 2 * a 1 1"
  by (simp_all add: adjugate_def cofactors_def)

lemma det4_eq: "det4 a = a 0 0 * adjugate a 0 0 + a 0 1 * adjugate a 1 0 + a 0 2 * adjugate a 2 0 + a 0 3 * adjugate a 3 0"
  unfolding adjugate_eq by (simp add: det4_def det3_def numeral_2_eq_2 numeral_3_eq_3; algebra)

lemma ksInvert_exact:
  "ksInvert exact out a =
    (if det4 a = 0 then (0, out) else (1, \<lambda>i j. if i < 4 \<and> j < 4 then adjugate a i j / det4 a else out i j))"
  by (simp add: ksInvert_def det4_eq adjugate_def Let_def divide_inverse cong: if_cong)

lemma adjugate_right: "mat_eq (ksMatrixMultiply exact a (adjugate a)) (\<lambda>i j. if i = j then det4 a else 0)"
  unfolding mat_eq_def all_less_4 det4_eq adjugate_eq ksMatrixMultiply_exact
  by (intro conjI; simp; algebra)

lemma adjugate_left: "mat_eq (ksMatrixMultiply exact (adjugate a) a) (\<lambda>i j. if i = j then det4 a else 0)"
  unfolding mat_eq_def all_less_4 det4_eq adjugate_eq ksMatrixMultiply_exact
  by (intro conjI; simp; algebra)

text \<open>The Cauchy-Binet formula for one cofactor: enough to see that a matrix with determinant 0 has no inverse.\<close>

lemma adjugate_multiply:
  "adjugate (ksMatrixMultiply exact a b) 3 3 = adjugate b 3 0 * adjugate a 0 3 + adjugate b 3 1 * adjugate a 1 3
    + adjugate b 3 2 * adjugate a 2 3 + adjugate b 3 3 * adjugate a 3 3"
  unfolding adjugate_eq ksMatrixMultiply_exact by algebra

lemma det4_zero_no_inverse:
  assumes "det4 a = 0"
  shows "\<not> mat_eq (ksMatrixMultiply exact a b) ksMatrixLoadIdentity"
proof
  assume ab: "mat_eq (ksMatrixMultiply exact a b) ksMatrixLoadIdentity"
  define c where "c = ksMatrixMultiply exact a b"
  have c: "c i j = (if i = j then 1 else 0)" if "i < 4" "j < 4" for i j
    using ab that by (simp add: c_def mat_eq_def ksMatrixLoadIdentity_def)
  have "adjugate a k 3 = 0" if k: "k < 4" for k
  proof -
    let ?z = "ksMatrixMultiply exact (adjugate a) a"
    have z: "?z k l = 0" if "l < 4" for l
      using adjugate_left [of a] assms k that by (simp add: mat_eq_def)
    have "adjugate a k 3 = adjugate a k 0 * c 0 3 + adjugate a k 1 * c 1 3 + adjugate a k 2 * c 2 3 + adjugate a k 3 * c 3 3"
      by (simp add: c)
    also have "\<dots> = ?z k 0 * b 0 3 + ?z k 1 * b 1 3 + ?z k 2 * b 2 3 + ?z k 3 * b 3 3"
      unfolding c_def ksMatrixMultiply_exact by algebra
    finally show ?thesis by (simp add: z)
  qed
  then have "adjugate c 3 3 = 0" unfolding c_def adjugate_multiply by simp
  moreover have "adjugate c 3 3 = 1" unfolding adjugate_eq by (simp add: c)
  ultimately show False by simp
qed

text \<open>
  C40: in exact arithmetic \<open>ksInvert\<close> decides whether a matrix has an inverse and computes it: it returns 1 with a matrix that is the inverse
  from both sides, or it returns 0, leaves \<open>out\<close> as it was, and no matrix is an inverse.
\<close>

theorem ksInvert_correct:
  "(case ksInvert exact out a of (ret, out') \<Rightarrow>
     ret = 1 \<and> mat_eq (ksMatrixMultiply exact a out') ksMatrixLoadIdentity \<and> mat_eq (ksMatrixMultiply exact out' a) ksMatrixLoadIdentity
   \<or> ret = 0 \<and> out' = out \<and> \<not> (\<exists>b. mat_eq (ksMatrixMultiply exact a b) ksMatrixLoadIdentity))"
proof (cases "det4 a = 0")
  case False
  have "mat_eq (\<lambda>i j. ksMatrixMultiply exact a (adjugate a) i j / det4 a) ksMatrixLoadIdentity"
    "mat_eq (\<lambda>i j. ksMatrixMultiply exact (adjugate a) a i j / det4 a) ksMatrixLoadIdentity"
    using adjugate_right [of a] adjugate_left [of a] False by (auto simp: mat_eq_def ksMatrixLoadIdentity_def)
  with False show ?thesis
    by (simp add: ksInvert_exact mat_eq_def ksMatrixMultiply_exact add_divide_distrib)
qed (use det4_zero_no_inverse in \<open>simp add: ksInvert_exact\<close>)

section \<open>Projections\<close>

text \<open>A point is a row vector; \<open>transform p m\<close> is \<open>p\<close> times \<open>m\<close>, the order in which the shaders apply the matrix.\<close>

definition transform :: "(nat \<Rightarrow> real) \<Rightarrow> KSMatrix4 \<Rightarrow> nat \<Rightarrow> real" where
  "transform p m j = p 0 * m 0 j + p 1 * m 1 j + p 2 * m 2 j + p 3 * m 3 j"

definition point :: "real \<Rightarrow> real \<Rightarrow> real \<Rightarrow> real \<Rightarrow> nat \<Rightarrow> real" where
  "point x y z w = (\<lambda>i. if i = 0 then x else if i = 1 then y else if i = 2 then z else w)"

lemma transform_multiply: "transform p (ksMatrixMultiply exact a b) j = transform (transform p a) b j"
  by (simp add: transform_def ksMatrixMultiply_exact algebra_simps)

lemma transform_cong: "(\<And>i. i < 4 \<Longrightarrow> p i = q i) \<Longrightarrow> transform p m = transform q m"
  by (simp add: transform_def fun_eq_iff)

lemma ksFrustum_transform_delta:
  assumes "0 < n" "0 < dx" "0 < dy" "0 < dz"
  shows "transform (point ((l + s * dx) * d / n) ((b + u * dy) * d / n) (- d) 1) (ksFrustum exact m l (l + dx) b (b + dy) n (n + dz)) j =
    transform (point ((2 * s - 1) * d) ((2 * u - 1) * d) (((n + (n + dz)) * d - 2 * n * (n + dz)) / dz) d) m j"
  using assms unfolding ksFrustum_def Let_def
  apply (simp add: transform_multiply)
  apply (rule fun_cong [OF transform_cong])
  apply (auto simp: transform_def point_def less_Suc_eq numeral_eq_Suc; simp add: field_simps)
  done

lemma ksFrustum_transform:
  assumes "0 < n" "n < f" "l < r" "b < t"
  shows "transform (point ((l + s * (r - l)) * d / n) ((b + u * (t - b)) * d / n) (- d) 1) (ksFrustum exact m l r b t n f) j =
    transform (point ((2 * s - 1) * d) ((2 * u - 1) * d) (((n + f) * d - 2 * n * f) / (f - n)) d) m j"
  using ksFrustum_transform_delta [of n "r - l" "t - b" "f - n" l s d b u m j] assms by simp

text \<open>
  \<open>ksPerspective\<close> maps the viewing frustum to the clip cube: in exact arithmetic, with a field of view between 0 and 180 degrees and
  \<open>0 < near < far\<close>, the point of eye space at depth \<open>d\<close> and fractions \<open>s\<close>, \<open>u\<close> of the half width and half height of the frustum there gets the clip
  coordinates \<open>(s d, u d, z, d)\<close>, then transformed by the matrix that was there; \<open>z\<close> is \<open>-d\<close> on the near plane and \<open>d\<close> on the far plane.
\<close>

theorem ksPerspective_maps_frustum:
  assumes "0 < fovy" "fovy < 180" "0 < aspect" "0 < n" "n < f"
  shows "transform (point (s * tan (fovy / 360 * pi) * aspect * d) (u * tan (fovy / 360 * pi) * d) (- d) 1)
        (ksPerspective exact m fovy aspect n f) j
      = transform (point (s * d) (u * d) (((n + f) * d - 2 * n * f) / (f - n)) d) m j
    \<and> ((n + f) * n - 2 * n * f) / (f - n) = - n \<and> ((n + f) * f - 2 * n * f) / (f - n) = f"
proof -
  define h where "h = tan (fovy / 360 * pi)"
  have h: "0 < h" unfolding h_def using assms by (intro tan_gt_zero) (auto simp: field_simps)
  have "f - n \<noteq> 0" "n \<noteq> 0" using assms by simp_all
  then have z: "((n + f) * n - 2 * n * f) / (f - n) = - n" "((n + f) * f - 2 * n * f) / (f - n) = f"
    and e: "(- (h * n * a) + (x + 1) / 2 * (h * n * a - - (h * n * a))) * d / n = x * h * a * d"
      "(2 * x + 2) / 2 - 1 = x" for x a
    by (simp_all add: field_simps)
  have "0 < h * n * aspect" "0 < h * n" using h assms by simp_all
  then have "transform (point (s * h * aspect * d) (u * h * d) (- d) 1)
      (ksFrustum exact m (- (h * n * aspect)) (h * n * aspect) (- (h * n)) (h * n) n f) j =
    transform (point (s * d) (u * d) (((n + f) * d - 2 * n * f) / (f - n)) d) m j"
    using ksFrustum_transform [of n f "- (h * n * aspect)" "h * n * aspect" "- (h * n)" "h * n" "(s + 1) / 2" d "(u + 1) / 2" m j]
      assms e(1) [of aspect s] e(1) [of 1 u] e(2) by simp
  with z show ?thesis by (simp add: ksPerspective_def h_def Let_def)
qed

theorem ksPerspective_maps_frustum_witness:
  "transform (point (1 * tan (90 / 360 * pi) * 2 * 3) (1 * tan (90 / 360 * pi) * 3) (- 3) 1) (ksPerspective exact ksMatrixLoadIdentity 90 2 1 3) 0
    = transform (point (1 * 3) (1 * 3) (((1 + 3) * 3 - 2 * 1 * 3) / (3 - 1)) 3) ksMatrixLoadIdentity 0"
  using ksPerspective_maps_frustum [of 90 2 1 3 1 3 1 ksMatrixLoadIdentity 0] by simp

section \<open>Rotation\<close>

lemma rotMat_eq:
  "rotMat exact s c x y z 0 0 = (1 - c) * (x * x) + c" "rotMat exact s c x y z 0 1 = (1 - c) * (x * y) - z * s"
  "rotMat exact s c x y z 0 2 = (1 - c) * (z * x) + y * s" "rotMat exact s c x y z 1 0 = (1 - c) * (x * y) + z * s"
  "rotMat exact s c x y z 1 1 = (1 - c) * (y * y) + c" "rotMat exact s c x y z 1 2 = (1 - c) * (y * z) - x * s"
  "rotMat exact s c x y z 2 0 = (1 - c) * (z * x) - y * s" "rotMat exact s c x y z 2 1 = (1 - c) * (y * z) + x * s"
  "rotMat exact s c x y z 2 2 = (1 - c) * (z * z) + c" "rotMat exact s c x y z 3 0 = 0" "rotMat exact s c x y z 3 1 = 0"
  "rotMat exact s c x y z 3 2 = 0" "rotMat exact s c x y z 0 3 = 0" "rotMat exact s c x y z 1 3 = 0" "rotMat exact s c x y z 2 3 = 0"
  "rotMat exact s c x y z 3 3 = 1"
  by (simp_all add: rotMat_def Let_def)

lemma rotMat_orthogonal:
  assumes "x * x + y * y + z * z = 1" "s * s + c * c = (1 :: real)"
  shows "mat_eq (ksMatrixMultiply exact (rotMat exact s c x y z) (ksTranspose (rotMat exact s c x y z))) ksMatrixLoadIdentity"
  unfolding mat_eq_def all_less_4 ksMatrixMultiply_exact ksTranspose_def rotMat_eq ksMatrixLoadIdentity_def
  using assms by (intro conjI; simp; algebra)

lemma transform_point: "transform (point x y z w) m j = x * m 0 j + y * m 1 j + z * m 2 j + w * m 3 j"
  by (simp add: transform_def point_def)

lemma rotMat_axis:
  assumes "x * x + y * y + z * z = 1"
  shows "x * rotMat exact s c x y z 0 0 + y * rotMat exact s c x y z 1 0 + z * rotMat exact s c x y z 2 0 = x"
    "x * rotMat exact s c x y z 0 1 + y * rotMat exact s c x y z 1 1 + z * rotMat exact s c x y z 2 1 = y"
    "x * rotMat exact s c x y z 0 2 + y * rotMat exact s c x y z 1 2 + z * rotMat exact s c x y z 2 2 = z"
  unfolding rotMat_eq using assms by algebra+

text \<open>The axis is normalised first.\<close>

lemma ksRotate_factor:
  assumes "x \<noteq> 0 \<or> y \<noteq> 0 \<or> z \<noteq> 0"
  obtains g X Y Z where "0 < g" "x = g * X" "y = g * Y" "z = g * Z" "X * X + Y * Y + Z * Z = 1"
    "ksRotate exact m angle x y z = ksMatrixMultiply exact (rotMat exact (sin (angle * pi / 180)) (cos (angle * pi / 180)) X Y Z) m"
proof -
  define g where "g = sqrt (x * x + y * y + z * z)"
  have sq: "g * g = x * x + y * y + z * z" by (simp add: g_def)
  have "0 < x * x + y * y + z * z"
    using assms sum_squares_gt_zero_iff [of x y] add_nonneg_pos [OF sum_squares_ge_zero [of x y], of "z * z"]
    by (cases "z = 0") (auto simp: zero_less_mult_iff neq_iff)
  then have g: "0 < g" by (simp add: g_def)
  have "x / g * (x / g) + y / g * (y / g) + z / g * (z / g) = (x * x + y * y + z * z) / (g * g)"
    using g by (simp add: add_divide_distrib)
  then have "x / g * (x / g) + y / g * (y / g) + z / g * (z / g) = 1" using g by (simp add: sq [symmetric])
  moreover have "ksRotate exact m angle x y z =
      ksMatrixMultiply exact (rotMat exact (sin (angle * pi / 180)) (cos (angle * pi / 180)) (x / g) (y / g) (z / g)) m"
    using g by (simp add: ksRotate_def g_def [symmetric] Let_def)
  ultimately show thesis using that [of g "x / g" "y / g" "z / g"] g by simp
qed

text \<open>
  \<open>ksRotate\<close> multiplies the matrix by a rotation: for an axis that is not 0, in exact arithmetic, the factor is orthogonal, fixes the
  axis and has the trace \<open>2 + 2 cos angle\<close>, the angle in degrees; it need not be given a unit vector.
\<close>

theorem ksRotate_rotation:
  assumes "x \<noteq> 0 \<or> y \<noteq> 0 \<or> z \<noteq> 0"
  shows "\<exists>r. ksRotate exact m angle x y z = ksMatrixMultiply exact r m
    \<and> mat_eq (ksMatrixMultiply exact r (ksTranspose r)) ksMatrixLoadIdentity
    \<and> (\<forall>w. transform (point x y z w) r 0 = x \<and> transform (point x y z w) r 1 = y \<and> transform (point x y z w) r 2 = z
        \<and> transform (point x y z w) r 3 = w)
    \<and> r 0 0 + r 1 1 + r 2 2 + r 3 3 = 2 + 2 * cos (angle * pi / 180)"
proof -
  define s c where "s = sin (angle * pi / 180)" and "c = cos (angle * pi / 180)"
  obtain g X Y Z where xyz: "x = g * X" "y = g * Y" "z = g * Z" and unit: "X * X + Y * Y + Z * Z = 1"
    and rot: "ksRotate exact m angle x y z = ksMatrixMultiply exact (rotMat exact s c X Y Z) m"
    unfolding s_def c_def by (rule ksRotate_factor [OF assms])
  define r where "r = rotMat exact s c X Y Z"
  have sc: "s * s + c * c = 1" by (simp add: s_def c_def power2_eq_square [symmetric])
  have "ksRotate exact m angle x y z = ksMatrixMultiply exact r m" by (simp add: rot r_def)
  moreover have "mat_eq (ksMatrixMultiply exact r (ksTranspose r)) ksMatrixLoadIdentity"
    unfolding r_def by (rule rotMat_orthogonal [OF unit sc])
  moreover have "transform (point x y z w) r 0 = x" "transform (point x y z w) r 1 = y" "transform (point x y z w) r 2 = z"
    "transform (point x y z w) r 3 = w" for w
    using rotMat_axis [OF unit, of s c] unfolding transform_point r_def xyz rotMat_eq(10-16)
    by (simp_all add: mult.assoc flip: distrib_left)
  moreover have "r 0 0 + r 1 1 + r 2 2 + r 3 3 = 2 + 2 * cos (angle * pi / 180)"
    unfolding r_def rotMat_eq c_def [symmetric] using unit by algebra
  ultimately show ?thesis by blast
qed

theorem ksRotate_rotation_witness:
  "\<exists>r. ksRotate exact ksMatrixLoadIdentity 60 3 0 4 = ksMatrixMultiply exact r ksMatrixLoadIdentity
    \<and> mat_eq (ksMatrixMultiply exact r (ksTranspose r)) ksMatrixLoadIdentity
    \<and> (\<forall>w. transform (point 3 0 4 w) r 0 = 3 \<and> transform (point 3 0 4 w) r 1 = 0 \<and> transform (point 3 0 4 w) r 2 = 4
        \<and> transform (point 3 0 4 w) r 3 = w)
    \<and> r 0 0 + r 1 1 + r 2 2 + r 3 3 = 2 + 2 * cos (60 * pi / 180)"
  by (rule ksRotate_rotation) simp

section \<open>The cross product\<close>

lemma ksCrossProduct_vz: "f32 fl 0 = 0 \<Longrightarrow> vz (ksCrossProduct fl a b) = 0"
  by (simp add: ksCrossProduct_def mult.commute)

lemma ksVectorNormalize_zero_comp:
  assumes "f32 fl 0 = 0"
  shows "vx v = 0 \<Longrightarrow> vx (ksVectorNormalize fl v) = 0" "vy v = 0 \<Longrightarrow> vy (ksVectorNormalize fl v) = 0"
    "vz v = 0 \<Longrightarrow> vz (ksVectorNormalize fl v) = 0"
  using assms by (simp_all add: ksVectorNormalize_def Let_def)

text \<open>
  The third component of \<open>ksCrossProduct\<close> is \<open>a.x b.y - b.y a.x\<close>, always 0 (it should be \<open>a.x b.y - a.y b.x\<close>). A camera that looks
  horizontally, eye and target at the same \<open>z\<close>, therefore gets a view matrix whose second row is 0: it has no inverse and flattens the scene.
\<close>

theorem ksLookAt_singular:
  assumes "vz eye = vz target"
  shows "(\<forall>j<4. ksLookAt exact eye target up 1 j = 0) \<and> ksInvert exact out (ksLookAt exact eye target up) = (0, out)"
proof -
  define fw where "fw = ksVectorNormalize exact (ksVectorSubtract exact target eye)"
  define side where "side = ksVectorNormalize exact (ksCrossProduct exact up fw)"
  define up2 where "up2 = ksVectorNormalize exact (ksCrossProduct exact side fw)"
  have "vz fw = 0" "vz side = 0"
    using assms by (simp_all add: fw_def side_def ksVectorNormalize_zero_comp ksCrossProduct_vz ksVectorSubtract_def)
  then have "vx up2 = 0" "vy up2 = 0" "vz up2 = 0"
    by (simp_all add: up2_def ksVectorNormalize_zero_comp ksCrossProduct_def)
  then have row: "ksLookAt exact eye target up 1 j = 0" if "j < 4" for j
    using that unfolding ksLookAt_def fw_def [symmetric] side_def [symmetric] up2_def [symmetric] Let_def
    by (simp add: ksMatrixMultiply_exact set_m_def ksMatrixLoadIdentity_def)
  then have "det4 (ksLookAt exact eye target up) = 0" by (simp add: det4_def det3_def)
  with row show ?thesis by (simp add: ksInvert_exact)
qed

theorem ksLookAt_singular_witness:
  "ksLookAt exact \<lparr>vx = 0, vy = 0, vz = 0\<rparr> \<lparr>vx = 1, vy = 0, vz = 0\<rparr> \<lparr>vx = 0, vy = 0, vz = 1\<rparr> 1 2 = 0 \<and>
   ksInvert exact ksMatrixLoadIdentity (ksLookAt exact \<lparr>vx = 0, vy = 0, vz = 0\<rparr> \<lparr>vx = 1, vy = 0, vz = 0\<rparr> \<lparr>vx = 0, vy = 0, vz = 1\<rparr>)
     = (0, ksMatrixLoadIdentity)"
  using ksLookAt_singular [of "\<lparr>vx = 0, vy = 0, vz = 0\<rparr>" "\<lparr>vx = 1, vy = 0, vz = 0\<rparr>" "\<lparr>vx = 0, vy = 0, vz = 1\<rparr>" ksMatrixLoadIdentity]
  by simp

end
