(* ===== verification/Surface.thy ===== *)
theory Surface
  imports GLESMath "HOL-Library.Monad_Syntax"
begin

text \<open>
  \<^verbatim>\<open>gles/GLES/ParametricSurface.cpp\<close>: the base class of what the renderer draws. It keeps position, rotation and scale, the flag that says that
  it has to be drawn again, its textures and its triangles. Calls of OpenGL that create, fill, delete or use an object are recorded in \<open>gl\<close>; the names that
  OpenGL hands out are arguments. The virtual functions \<open>Evaluate\<close> and \<open>EvaluateCoord\<close> are arguments too. Shaders are not modelled. Rounding is the
  parameter \<open>fl\<close> of the matrix library.
\<close>

section \<open>State\<close>

datatype slot = projectionSlot | modelViewSlot

datatype gl_call =
    GenTextures "u32 list"
  | DeleteTextures "u32 list"
  | TexImage2D u32 int int
  | TexSubImage2D u32 int int
  | BindTexture u32
  | GenBuffers u32
  | DeleteBuffers u32
  | BufferData u32 int
  | UniformMatrix4fv slot KSMatrix4
  | DrawArrays int

definition vec3 :: "real \<Rightarrow> real \<Rightarrow> real \<Rightarrow> KSVec3" where
  "vec3 x y z = \<lparr>vx = x, vy = y, vz = z\<rparr>"

record surface =
  anglespan :: real
  m_startangle :: "real \<times> real"
  m_endangle :: "real \<times> real"
  modelViewMatrix :: KSMatrix4
  projectionMatrix :: KSMatrix4
  rotationMatrix :: KSMatrix4
  triangleIndexCount :: int
  vertexBuffer :: u32
  vertexSize :: int
  TextureCoordBuffer :: u32
  TextureCoordSize :: int
  mScreenCount :: int
  mScreenMode :: int
  mPosition :: KSVec3
  mScale :: KSVec3
  mRotate :: KSVec3
  mTexPosition :: KSVec3
  mTexScale :: KSVec3
  mTexRotate :: KSVec3
  mNeedDraw :: bool
  mIsYUV :: bool
  lvb :: u32
  Visible :: bool
  scnindex :: int
  m_aspect :: real
  Zoom :: real
  yuvtexid :: "u32 list"
  NoVideoTexID :: u32
  yuvNoVideoTexID :: "u32 list"
  texwidth :: int
  texheight :: int
  texid :: u32
  gl :: "gl_call list"

definition emit :: "gl_call list \<Rightarrow> surface \<Rightarrow> surface" where
  "emit cs s = s\<lparr>gl := gl s @ cs\<rparr>"

text \<open>The constructor; the members that it leaves alone keep what the memory held.\<close>

definition ParametricSurface_new :: "surface \<Rightarrow> surface" where
  "ParametricSurface_new s = s\<lparr>mScreenCount := 1, mPosition := vec3 0 0 0, mRotate := vec3 0 0 0, mScale := vec3 1 1 1,
     mTexPosition := vec3 0 0 0, mTexRotate := vec3 0 0 0, mTexScale := vec3 1 1 1, texid := 0, texwidth := 0, texheight := 0,
     NoVideoTexID := 0, mNeedDraw := False, lvb := 0, Visible := True, scnindex := - 1, vertexBuffer := 0, TextureCoordBuffer := 0,
     yuvtexid := [0, 0, 0], yuvNoVideoTexID := [0, 0, 0], mIsYUV := False\<rparr>"

definition ResetPosition :: "surface \<Rightarrow> surface" where
  "ResetPosition s = s\<lparr>mPosition := vec3 0 0 0, mRotate := vec3 0 0 0, mScale := vec3 1 1 1, mTexPosition := vec3 0 0 0,
     mTexRotate := vec3 0 0 0, mTexScale := vec3 1 1 1, mNeedDraw := True\<rparr>"

definition SetInterval :: "real \<Rightarrow> real \<times> real \<Rightarrow> real \<times> real \<Rightarrow> surface \<Rightarrow> surface" where
  "SetInterval spn start stop s = s\<lparr>anglespan := spn, m_startangle := start, m_endangle := stop\<rparr>"

text \<open>The destructor. The empty statement behind \<open>if (lvb != 0);\<close> makes the last deletion unconditional.\<close>

definition Cleanup :: "surface \<Rightarrow> surface" where
  "Cleanup s =
     (let s = (if texid s \<noteq> 0 then (emit [DeleteTextures [texid s]] s)\<lparr>texid := 0\<rparr> else s);
          s = (if vertexBuffer s \<noteq> 0 then (emit [DeleteBuffers (vertexBuffer s)] s)\<lparr>vertexBuffer := 0\<rparr> else s);
          s = (if TextureCoordBuffer s \<noteq> 0 then (emit [DeleteBuffers (TextureCoordBuffer s)] s)\<lparr>TextureCoordBuffer := 0\<rparr> else s) in
      emit [DeleteBuffers (lvb s)] s)"

section \<open>Position, rotation, scale\<close>

definition SetPosition :: "KSVec3 \<Rightarrow> bool \<Rightarrow> surface \<Rightarrow> surface" where
  "SetPosition pos texture s =
     (if texture then if mTexPosition s \<noteq> pos then s\<lparr>mTexPosition := pos, mNeedDraw := True\<rparr> else s
      else if mPosition s \<noteq> pos then s\<lparr>mPosition := pos, mNeedDraw := True\<rparr> else s)"

definition SetScale :: "KSVec3 \<Rightarrow> bool \<Rightarrow> surface \<Rightarrow> surface" where
  "SetScale scale texture s =
     (if texture then if mTexScale s \<noteq> scale then s\<lparr>mTexScale := scale, mNeedDraw := True\<rparr> else s
      else if mScale s \<noteq> scale then s\<lparr>mScale := scale, mNeedDraw := True\<rparr> else s)"

definition setRotate :: "KSVec3 \<Rightarrow> bool \<Rightarrow> surface \<Rightarrow> surface" where
  "setRotate rot3 texture s =
     (if texture then if mTexRotate s \<noteq> rot3 then s\<lparr>mTexRotate := rot3, mNeedDraw := True\<rparr> else s
      else if mRotate s \<noteq> rot3 then s\<lparr>mRotate := rot3, mNeedDraw := True\<rparr> else s)"

definition GetPosition :: "bool \<Rightarrow> surface \<Rightarrow> KSVec3" where
  "GetPosition texture s = (if texture then mTexPosition s else mPosition s)"

definition GetScale :: "bool \<Rightarrow> surface \<Rightarrow> KSVec3" where
  "GetScale texture s = (if texture then mTexScale s else mScale s)"

definition GetRotate :: "bool \<Rightarrow> surface \<Rightarrow> KSVec3" where
  "GetRotate texture s = (if texture then mTexRotate s else mRotate s)"

definition setZoom :: "real \<Rightarrow> surface \<Rightarrow> surface" where
  "setZoom multi s = s\<lparr>Zoom := multi\<rparr>"

definition NeedDraw :: "surface \<Rightarrow> bool" where
  "NeedDraw s \<longleftrightarrow> mNeedDraw s \<and> Visible s"

section \<open>Matrices\<close>

definition setupProjection :: "fl \<Rightarrow> surface \<Rightarrow> surface" where
  "setupProjection fl s =
     (let p = ksPerspective fl ksMatrixLoadIdentity 60 (m_aspect s) (f32 fl (1 / 10000)) 1200 in
      emit [UniformMatrix4fv projectionSlot p] (s\<lparr>Zoom := - 3, projectionMatrix := p, rotationMatrix := ksMatrixLoadIdentity\<rparr>))"

definition SCRN_CYLINDER :: int where "SCRN_CYLINDER = 2"
definition SCRN_ONENORMAL :: int where "SCRN_ONENORMAL = 258"

definition updateSurfaceTransform :: "fl \<Rightarrow> surface \<Rightarrow> surface" where
  "updateSurfaceTransform fl s =
     (let r = ksMatrixLoadIdentity;
          r = (if vx (mRotate s) \<noteq> 0 then ksRotate fl r (vx (mRotate s)) 1 0 0 else r);
          r = (if vy (mRotate s) \<noteq> 0 then ksRotate fl r (vy (mRotate s)) 0 1 0 else r);
          r = (if vz (mRotate s) \<noteq> 0 then ksRotate fl r (vz (mRotate s)) 0 0 1 else r);
          rot = ksMatrixMultiply fl ksMatrixLoadIdentity r;
          mv = ksTranslate fl ksMatrixLoadIdentity 0 0 (Zoom s);
          mv = ksTranslate fl mv (vx (mPosition s)) (vy (mPosition s)) (vz (mPosition s)) in
      if mScreenMode s \<noteq> SCRN_CYLINDER \<and> mScreenMode s \<noteq> SCRN_ONENORMAL then
        let p = ksPerspective fl ksMatrixLoadIdentity (f32 fl (f64 fl (60 / vx (mScale s)))) (m_aspect s) (f32 fl (1 / 10000)) 1200;
            mv = ksMatrixMultiply fl rot mv in
        emit [UniformMatrix4fv projectionSlot p, UniformMatrix4fv modelViewSlot mv]
          (s\<lparr>rotationMatrix := rot, projectionMatrix := p, modelViewMatrix := mv\<rparr>)
      else
        let rot = ksScale fl rot (vx (mScale s)) (vy (mScale s)) (vz (mScale s)); mv = ksMatrixMultiply fl rot mv in
        emit [UniformMatrix4fv modelViewSlot mv] (s\<lparr>rotationMatrix := rot, modelViewMatrix := mv\<rparr>))"

definition DrawSelf :: "fl \<Rightarrow> surface \<Rightarrow> surface" where
  "DrawSelf fl s =
     (let s = s\<lparr>mNeedDraw := False\<rparr> in
      if \<not> Visible s then s
      else
        let s = updateSurfaceTransform fl s;
            s = (if mIsYUV s then emit (map (\<lambda>i. BindTexture (if yuvtexid s ! 0 \<noteq> 0 then yuvtexid s ! i else yuvNoVideoTexID s ! i)) [0, 1]) s
                 else emit [BindTexture (if texid s \<noteq> 0 then texid s else NoVideoTexID s)] s) in
        emit [DrawArrays (triangleIndexCount s), BindTexture 0] s)"

section \<open>Triangles\<close>

text \<open>
  The conversion of a floating point number to \<open>int\<close> drops its fraction and is undefined when the rest is not an \<open>int\<close>; so is a product of two
  \<open>int\<close>s that is none.
\<close>

definition c_int :: "real \<Rightarrow> int" where
  "c_int x = (if 0 \<le> x then \<lfloor>x\<rfloor> else \<lceil>x\<rceil>)"

definition is_int :: "int \<Rightarrow> bool" where
  "is_int v \<longleftrightarrow> - (2 ^ 31) \<le> v \<and> v < 2 ^ 31"

definition to_int :: "real \<Rightarrow> int outcome" where
  "to_int x = (if is_int (c_int x) then Ret (c_int x) else UB BadConversion)"

definition int_times :: "int \<Rightarrow> int \<Rightarrow> int outcome" where
  "int_times a b = (if is_int (a * b) then Ret (a * b) else UB SignedOverflow)"

text \<open>A quotient by the step 0 is infinite or no number, which has no \<open>int\<close>.\<close>

definition GetVertexCount :: "fl \<Rightarrow> surface \<Rightarrow> int outcome" where
  "GetVertexCount fl s = (let r = f32 fl; a = m_startangle s; e = m_endangle s in
     if anglespan s = 0 then UB BadConversion
     else to_int (r (r (r (r (fst e - fst a) / anglespan s) * r (r (snd e - snd a) / anglespan s)) * 6)))"

definition GetCoordCount :: "fl \<Rightarrow> surface \<Rightarrow> int outcome" where
  "GetCoordCount fl s = (let r = f32 fl; a = m_startangle s; e = m_endangle s in
     if anglespan s = 0 then UB BadConversion
     else to_int (r (r (r (r (fst e - fst a) / anglespan s) * r (r (snd e - snd a) / anglespan s)) * 6)))"

definition GetVertexSize :: int where "GetVertexSize = 3"
definition GetCoordSize :: int where "GetCoordSize = 2"

text \<open>The corners of the two triangles of a cell.\<close>

definition cell :: "fl \<Rightarrow> surface \<Rightarrow> int \<Rightarrow> int \<Rightarrow> (real \<times> real) list" where
  "cell fl s i j = (let x = of_int i; y = of_int j; x' = f32 fl (x - anglespan s); y' = f32 fl (y - anglespan s) in
     [(x, y), (x', y), (x, y'), (x, y'), (x', y), (x', y')])"

definition cell_vertices :: "(int \<Rightarrow> int \<Rightarrow> real \<times> real \<Rightarrow> KSVec3) \<Rightarrow> fl \<Rightarrow> surface \<Rightarrow> int \<Rightarrow> int \<Rightarrow> KSVec3 list" where
  "cell_vertices Evaluate fl s i j =
     (let e = fst (m_endangle s); mxStart = (if of_int i = fst (m_startangle s) then 1 else 0);
          mxEnd = (if f32 fl (e - anglespan s) \<le> of_int i \<and> of_int i < e then 1 else 0) in
      map (Evaluate mxStart mxEnd) (cell fl s i j))"

text \<open>The triangles that a loop still writes behind those of its first cell or row.\<close>

definition prepend :: "KSVec3 list \<times> (real \<times> real) list \<Rightarrow> (KSVec3 list \<times> (real \<times> real) list) outcome \<Rightarrow> (KSVec3 list \<times> (real \<times> real) list) outcome" where
  "prepend t r = bnd r (\<lambda>r. Ret (fst t @ fst r, snd t @ snd r))"

partial_function (option) columns_loop ::
  "(int \<Rightarrow> int \<Rightarrow> real \<times> real \<Rightarrow> KSVec3) \<Rightarrow> (real \<times> real \<Rightarrow> real \<times> real) \<Rightarrow> fl \<Rightarrow> surface \<Rightarrow> int \<Rightarrow> int
    \<Rightarrow> (KSVec3 list \<times> (real \<times> real) list) outcome option"
  where
  "columns_loop Evaluate EvaluateCoord fl s j i =
     (if of_int i < fst (m_endangle s) then
        case to_int (f32 fl (of_int i + anglespan s)) of
          Ret i' \<Rightarrow> do {
            r \<leftarrow> columns_loop Evaluate EvaluateCoord fl s j i';
            Some (prepend (cell_vertices Evaluate fl s i j, map EvaluateCoord (cell fl s i j)) r) }
        | UB e \<Rightarrow> Some (UB e) | Blocked \<Rightarrow> Some Blocked
      else Some (Ret ([], [])))"

partial_function (option) rows_loop ::
  "(int \<Rightarrow> int \<Rightarrow> real \<times> real \<Rightarrow> KSVec3) \<Rightarrow> (real \<times> real \<Rightarrow> real \<times> real) \<Rightarrow> fl \<Rightarrow> surface \<Rightarrow> int
    \<Rightarrow> (KSVec3 list \<times> (real \<times> real) list) outcome option"
  where
  "rows_loop Evaluate EvaluateCoord fl s j =
     (if of_int j < snd (m_endangle s) then
        case to_int (fst (m_startangle s)) of
          Ret i \<Rightarrow> do {
            row \<leftarrow> columns_loop Evaluate EvaluateCoord fl s j i;
            case row of
              Ret t \<Rightarrow>
                (case to_int (f32 fl (of_int j + anglespan s)) of
                  Ret j' \<Rightarrow> do {
                    r \<leftarrow> rows_loop Evaluate EvaluateCoord fl s j';
                    Some (prepend t r) }
                | UB e \<Rightarrow> Some (UB e) | Blocked \<Rightarrow> Some Blocked)
            | UB e \<Rightarrow> Some (UB e) | Blocked \<Rightarrow> Some Blocked }
        | UB e \<Rightarrow> Some (UB e) | Blocked \<Rightarrow> Some Blocked
      else Some (Ret ([], [])))"

definition GenerateVertices ::
  "(int \<Rightarrow> int \<Rightarrow> real \<times> real \<Rightarrow> KSVec3) \<Rightarrow> (real \<times> real \<Rightarrow> real \<times> real) \<Rightarrow> fl \<Rightarrow> surface \<Rightarrow> (KSVec3 list \<times> (real \<times> real) list) outcome option" where
  "GenerateVertices Evaluate EvaluateCoord fl s =
     (case to_int (snd (m_startangle s)) of
        Ret j \<Rightarrow> rows_loop Evaluate EvaluateCoord fl s j
      | UB e \<Rightarrow> Some (UB e) | Blocked \<Rightarrow> Some Blocked)"

text \<open>
  The buffers are allocated from the counts and filled by \<open>GenerateVertices\<close>, which does not look at their size; an array of negative size
  is refused by an exception. \<open>None\<close>: the filling never ends. \<open>vb\<close> and \<open>cb\<close> are the new buffer names.
\<close>

definition buffer_sizes :: "fl \<Rightarrow> surface \<Rightarrow> (int \<times> int \<times> int) outcome" where
  "buffer_sizes fl s =
     bnd (GetVertexCount fl s) (\<lambda>vCount.
     bnd (int_times vCount GetVertexSize) (\<lambda>vBufSize.
     if vBufSize < 0 then UB UncaughtException
     else
     bnd (GetCoordCount fl s) (\<lambda>cCount.
     bnd (int_times cCount GetCoordSize) (\<lambda>vCoorBufSize.
     if vCoorBufSize < 0 then UB UncaughtException
     else Ret (vCount, vBufSize, vCoorBufSize)))))"

definition SetupBuffer ::
  "(int \<Rightarrow> int \<Rightarrow> real \<times> real \<Rightarrow> KSVec3) \<Rightarrow> (real \<times> real \<Rightarrow> real \<times> real) \<Rightarrow> fl \<Rightarrow> u32 \<Rightarrow> u32 \<Rightarrow> surface \<Rightarrow> surface outcome option" where
  "SetupBuffer Evaluate EvaluateCoord fl vb cb s =
     (case buffer_sizes fl s of
        UB e \<Rightarrow> Some (UB e) | Blocked \<Rightarrow> Some Blocked
      | Ret (vCount, vBufSize, vCoorBufSize) \<Rightarrow> do {
        r \<leftarrow> GenerateVertices Evaluate EvaluateCoord fl s;
        Some (bnd r (\<lambda>(vs, cs).
          if vBufSize < GetVertexSize * int (length vs) \<or> vCoorBufSize < GetCoordSize * int (length cs) then UB HeapOverflow
          else Ret (
            let s = emit [DeleteBuffers (vertexBuffer s), GenBuffers vb, BufferData vb vBufSize] s;
                s = (if TextureCoordBuffer s \<noteq> 0 then emit [DeleteBuffers (TextureCoordBuffer s)] s else s);
                s = emit [GenBuffers cb, BufferData cb vCoorBufSize] s in
            s\<lparr>lvb := vb, vertexBuffer := vb, vertexSize := GetVertexSize, triangleIndexCount := vCount, TextureCoordSize := GetCoordSize,
              TextureCoordBuffer := cb\<rparr>))) })"

section \<open>Textures\<close>

definition CleanTexture :: "surface \<Rightarrow> surface" where
  "CleanTexture s = (if texid s \<noteq> 0 then emit [DeleteTextures [texid s]] s else s)\<lparr>texid := 0\<rparr>"

text \<open>\<open>fresh\<close> is the name that \<open>glGenTextures\<close> would give.\<close>

definition LoadTexture :: "u32 \<Rightarrow> int \<Rightarrow> int \<Rightarrow> int \<Rightarrow> surface \<Rightarrow> bool \<times> surface" where
  "LoadTexture fresh w h scn s =
     (let s = s\<lparr>scnindex := scn\<rparr>;
          s = (if texwidth s \<noteq> w \<or> texheight s \<noteq> h then (if texid s \<noteq> 0 then emit [DeleteTextures [texid s]] s else s)\<lparr>texid := 0\<rparr> else s);
          s = (if texid s = 0 then (emit [GenTextures [fresh], TexImage2D fresh w h] s)\<lparr>texwidth := w, texheight := h, texid := fresh\<rparr>
               else emit [TexSubImage2D (texid s) (texwidth s) (texheight s)] s);
          s = s\<lparr>mNeedDraw := True\<rparr> in
      (texid s \<noteq> 0, s))"

definition LoadTexture_yuv :: "u32 \<Rightarrow> u32 \<Rightarrow> int \<Rightarrow> int \<Rightarrow> surface \<Rightarrow> bool \<times> surface" where
  "LoadTexture_yuv y c w h s =
     (let s = (if yuvtexid s ! 0 \<noteq> 0 then emit [DeleteTextures (take 2 (yuvtexid s))] s else s) in
      (True, (emit [GenTextures [y, c], TexImage2D y w h, TexImage2D c (c_div w 2) (c_div h 2)] s)
        \<lparr>yuvtexid := (yuvtexid s)[0 := y, 1 := c], mNeedDraw := True\<rparr>))"

definition SetTexture :: "u32 \<Rightarrow> surface \<Rightarrow> surface" where
  "SetTexture t s = s\<lparr>texid := t, mNeedDraw := True\<rparr>"

definition SetTexture_yuv :: "u32 \<Rightarrow> u32 \<Rightarrow> surface \<Rightarrow> surface" where
  "SetTexture_yuv y c s = s\<lparr>yuvtexid := (yuvtexid s)[0 := y, 1 := c]\<rparr>"

definition GetTexture_yuv :: "int \<Rightarrow> surface \<Rightarrow> u32" where
  "GetTexture_yuv yuv s = (if yuv < 0 \<or> yuv > 2 then 0 else yuvtexid s ! nat yuv)"

definition SetNoVideoTexture :: "u32 \<Rightarrow> surface \<Rightarrow> surface" where
  "SetNoVideoTexture t s = s\<lparr>NoVideoTexID := t\<rparr>"

definition SetNoVideoTexture_yuv :: "u32 \<Rightarrow> u32 \<Rightarrow> u32 \<Rightarrow> surface \<Rightarrow> surface" where
  "SetNoVideoTexture_yuv y u v s = s\<lparr>yuvNoVideoTexID := [y, u, v]\<rparr>"

section \<open>A derived screen\<close>

text \<open>The interval that \<open>OneScreen\<close> chooses for its requested width.\<close>

definition OneScreen_interval :: "fl \<Rightarrow> real \<Rightarrow> surface \<Rightarrow> surface" where
  "OneScreen_interval fl width s =
     (let mWidth = width; mWidth = (if width > 360 then 360 else mWidth); mWidth = (if width < 90 then 90 else mWidth) in
      SetInterval 4 (4, - 8) (f32 fl (mWidth + 4), 36) s)"

section \<open>The triangles fit\<close>

lemma c_int_of_int [simp]: "c_int (of_int n) = n"
  by (simp add: c_int_def)

lemma c_int_add: "c_int (of_int i + of_int n) = i + n"
  using c_int_of_int [of "i + n"] by simp

text \<open>The number of steps of \<open>n\<close> from \<open>i\<close> until \<open>e\<close> is reached.\<close>

definition steps :: "int \<Rightarrow> int \<Rightarrow> int \<Rightarrow> nat" where
  "steps n i e = nat \<lceil>of_int (e - i) / of_int n :: real\<rceil>"

lemma steps_done: "0 < n \<Longrightarrow> e \<le> i \<Longrightarrow> steps n i e = 0"
  by (simp add: steps_def divide_nonpos_pos)

lemma steps_step:
  assumes "0 < n" "i < e"
  shows "steps n i e = Suc (steps n (i + n) e)"
proof -
  have "of_int (e - i) / of_int n = (of_int (e - (i + n)) / of_int n + 1 :: real)" using assms(1) by (simp add: field_simps)
  moreover have "- 1 < (of_int (e - (i + n)) / of_int n :: real)" using assms by (simp add: field_simps)
  then have "0 \<le> \<lceil>of_int (e - (i + n)) / of_int n :: real\<rceil>" by linarith
  ultimately show ?thesis by (simp add: steps_def nat_add_distrib)
qed

lemma to_int_of_int: "is_int v \<Longrightarrow> to_int (of_int v) = Ret v"
  by (simp add: to_int_def)

lemma to_int_add: "is_int (i + n) \<Longrightarrow> to_int (of_int i + of_int n) = Ret (i + n)"
  by (simp add: to_int_def c_int_add)

lemma columns_loop_length:
  assumes "0 < n" "anglespan s = of_int n" "fst (m_endangle s) = of_int e" "e + n \<le> 2 ^ 31" "- (2 ^ 31) \<le> i"
  shows "\<exists>vs cs. columns_loop ev evc exact s j i = Some (Ret (vs, cs)) \<and> length vs = 6 * steps n i e \<and> length cs = 6 * steps n i e"
  using assms(5)
proof (induction "nat (e - i)" arbitrary: i rule: less_induct)
  case less
  show ?case
  proof (cases "i < e")
    case True
    obtain vs cs where "columns_loop ev evc exact s j (i + n) = Some (Ret (vs, cs))" "length vs = 6 * steps n (i + n) e" "length cs = 6 * steps n (i + n) e"
      using less(1) [of "i + n"] less(2) True assms(1) by auto
    moreover have "is_int (i + n)" using less(2) True assms(1,4) by (simp add: is_int_def)
    ultimately show ?thesis
      using True assms(1-3) steps_step [OF assms(1) True]
      by (subst columns_loop.simps) (simp add: to_int_add prepend_def cell_vertices_def cell_def Let_def)
  next
    case False
    then show ?thesis using assms steps_done [of n e i] by (subst columns_loop.simps) simp
  qed
qed

lemma rows_loop_length:
  assumes "0 < n" "anglespan s = of_int n" "m_startangle s = (of_int a, y0)" "m_endangle s = (of_int e, of_int f)"
    and "e + n \<le> 2 ^ 31" "f + n \<le> 2 ^ 31" "is_int a" "- (2 ^ 31) \<le> j"
  shows "\<exists>vs cs. rows_loop ev evc exact s j = Some (Ret (vs, cs)) \<and> length vs = 6 * steps n a e * steps n j f
    \<and> length cs = 6 * steps n a e * steps n j f"
  using assms(8)
proof (induction "nat (f - j)" arbitrary: j rule: less_induct)
  case less
  show ?case
  proof (cases "j < f")
    case True
    obtain vs cs where row: "columns_loop ev evc exact s j a = Some (Ret (vs, cs))" "length vs = 6 * steps n a e" "length cs = 6 * steps n a e"
      using columns_loop_length [of n s e a ev evc j] assms by (auto simp: is_int_def)
    obtain vs' cs' where "rows_loop ev evc exact s (j + n) = Some (Ret (vs', cs'))" "length vs' = 6 * steps n a e * steps n (j + n) f"
        "length cs' = 6 * steps n a e * steps n (j + n) f"
      using less(1) [of "j + n"] less(2) True assms(1) by auto
    moreover have "is_int (j + n)" using less(2) True assms(1,6) by (simp add: is_int_def)
    ultimately show ?thesis
      using True assms(1-4) row to_int_of_int [OF assms(7)] steps_step [OF assms(1) True] by (subst rows_loop.simps) (simp add: to_int_add prepend_def)
  next
    case False
    then show ?thesis using assms steps_done [of n f j] by (subst rows_loop.simps) simp
  qed
qed

lemma steps_int: "0 < n \<Longrightarrow> 0 < w \<Longrightarrow> int (steps n i (i + w)) = \<lceil>of_int w / of_int n :: real\<rceil>"
proof -
  assume "0 < n" "0 < w"
  then have "0 < (of_int w / of_int n :: real)" by simp
  then have "0 < \<lceil>of_int w / of_int n :: real\<rceil>" by linarith
  then show ?thesis unfolding steps_def by simp
qed

lemma dvd_ceiling:
  assumes "0 < n"
  shows "n dvd w \<longleftrightarrow> of_int \<lceil>of_int w / of_int n :: real\<rceil> = (of_int w / of_int n :: real)"
proof
  have "n dvd w" if "of_int c = (of_int w / of_int n :: real)" for c
  proof -
    have "(of_int w :: real) = of_int (n * c)" using that assms by simp
    then show ?thesis by (metis dvd_triv_left of_int_eq_iff)
  qed
  then show "of_int \<lceil>of_int w / of_int n :: real\<rceil> = (of_int w / of_int n :: real) \<Longrightarrow> n dvd w" .
qed (use assms in auto)

text \<open>With exact arithmetic the counts are \<open>6 w h / n\<^sup>2\<close>, rounded down; the loops fill \<open>6\<close> times the rounded up quotients.\<close>

lemma floor_product_less:
  fixes x y :: real
  assumes "0 < x" "0 < y"
  shows "\<lfloor>x * y * 6\<rfloor> < 6 * (\<lceil>x\<rceil> * \<lceil>y\<rceil>) \<longleftrightarrow> of_int \<lceil>x\<rceil> \<noteq> x \<or> of_int \<lceil>y\<rceil> \<noteq> y"
proof -
  have le: "x \<le> of_int \<lceil>x\<rceil>" "y \<le> of_int \<lceil>y\<rceil>" by simp_all
  have "x * y < of_int \<lceil>x\<rceil> * of_int \<lceil>y\<rceil> \<longleftrightarrow> of_int \<lceil>x\<rceil> \<noteq> x \<or> of_int \<lceil>y\<rceil> \<noteq> y"
  proof
    assume "of_int \<lceil>x\<rceil> \<noteq> x \<or> of_int \<lceil>y\<rceil> \<noteq> y"
    then have "x < of_int \<lceil>x\<rceil> \<or> y < of_int \<lceil>y\<rceil>" using le by linarith
    then show "x * y < of_int \<lceil>x\<rceil> * of_int \<lceil>y\<rceil>"
      using assms le by (metis less_le_trans mult_le_less_imp_less mult_less_le_imp_less order_less_imp_le)
  qed (use less_irrefl in fastforce)
  moreover have "\<lfloor>x * y * 6\<rfloor> < 6 * (\<lceil>x\<rceil> * \<lceil>y\<rceil>) \<longleftrightarrow> x * y < of_int \<lceil>x\<rceil> * of_int \<lceil>y\<rceil>"
    by (simp add: floor_less_iff)
  ultimately show ?thesis by simp
qed

lemma is_int_multiples: "v * 3 < 2 ^ 31 \<Longrightarrow> 0 \<le> v \<Longrightarrow> is_int (v * 3) \<and> is_int (v * 2) \<and> is_int v"
  by (simp add: is_int_def)

lemma buffer_sizes_exact:
  assumes "0 < n" "0 < w" "0 < h" "18 * w * h < 2 ^ 31 * n ^ 2"
  shows "buffer_sizes exact (SetInterval (of_int n) (of_int a, of_int b) (of_int (a + w), of_int (b + h)) s) =
    (let c = \<lfloor>of_int w / of_int n * (of_int h / of_int n) * 6 :: real\<rfloor> in Ret (c, c * 3, c * 2))" (is "buffer_sizes exact ?s = _")
proof -
  let ?q = "of_int w / of_int n * (of_int h / of_int n) * 6 :: real"
  have q: "0 \<le> ?q" using assms by (intro mult_nonneg_nonneg) auto
  have "(of_int (18 * w * h) :: real) < of_int (2 ^ 31 * n ^ 2)" using assms(4) by (simp only: of_int_less_iff)
  then have "?q * 3 < 2 ^ 31" using assms(1) by (simp add: field_simps power2_eq_square)
  moreover have "of_int (\<lfloor>q\<rfloor> * 3) \<le> q * 3" for q :: real by simp
  note this [of ?q]
  ultimately have "(of_int (\<lfloor>?q\<rfloor> * 3) :: real) < of_int (2 ^ 31)" unfolding of_int_power of_int_numeral by (rule le_less_trans [rotated])
  then have "\<lfloor>?q\<rfloor> * 3 < 2 ^ 31" by (simp only: of_int_less_iff)
  moreover have n0: "0 \<le> \<lfloor>?q\<rfloor>" using q by simp
  ultimately have "is_int (\<lfloor>?q\<rfloor> * 3)" "is_int (\<lfloor>?q\<rfloor> * 2)" "is_int \<lfloor>?q\<rfloor>" "0 \<le> \<lfloor>?q\<rfloor>" using is_int_multiples by blast+
  moreover have "c_int ?q = \<lfloor>?q\<rfloor>" using q by (simp only: c_int_def if_True)
  moreover from calculation have "GetVertexCount exact ?s = Ret \<lfloor>?q\<rfloor>" "GetCoordCount exact ?s = Ret \<lfloor>?q\<rfloor>"
    using assms(1) by (simp_all add: GetVertexCount_def GetCoordCount_def SetInterval_def to_int_def)
  ultimately show ?thesis
    by (simp add: buffer_sizes_def int_times_def GetVertexSize_def GetCoordSize_def Let_def del: times_divide_eq_right times_divide_eq_left)
qed

lemma triangles_exact:
  assumes "0 < n" "0 < w" "0 < h" "is_int a" "is_int b" "a + w + n \<le> 2 ^ 31" "b + h + n \<le> 2 ^ 31"
  shows "\<exists>vs cs. GenerateVertices ev evc exact (SetInterval (of_int n) (of_int a, of_int b) (of_int (a + w), of_int (b + h)) s) = Some (Ret (vs, cs))
    \<and> int (length vs) = 6 * (\<lceil>of_int w / of_int n :: real\<rceil> * \<lceil>of_int h / of_int n :: real\<rceil>) \<and> length cs = length vs"
proof -
  let ?s = "SetInterval (of_int n) (of_int a, of_int b) (of_int (a + w), of_int (b + h)) s"
  obtain vs cs where "rows_loop ev evc exact ?s b = Some (Ret (vs, cs))" "length vs = 6 * steps n a (a + w) * steps n b (b + h)" "length cs = length vs"
    using rows_loop_length [of n ?s a "of_int b" "a + w" "b + h" b ev evc] assms by (auto simp: SetInterval_def is_int_def)
  then show ?thesis
    using steps_int [of n w a] steps_int [of n h b] assms(1-3) to_int_of_int [OF assms(5)] by (simp add: GenerateVertices_def SetInterval_def)
qed

lemma SetupBuffer_exact:
  assumes "0 < n" "0 < w" "0 < h" "is_int a" "is_int b" "a + w + n \<le> 2 ^ 31" "b + h + n \<le> 2 ^ 31" "18 * w * h < 2 ^ 31 * n ^ 2"
  shows "\<exists>s'. triangleIndexCount s' = 6 * (w div n) * (h div n)
    \<and> SetupBuffer ev evc exact vb cb (SetInterval (of_int n) (of_int a, of_int b) (of_int (a + w), of_int (b + h)) s) =
      Some (if n dvd w \<and> n dvd h then Ret s' else UB HeapOverflow)"
proof -
  let ?s = "SetInterval (of_int n) (of_int a, of_int b) (of_int (a + w), of_int (b + h)) s"
  let ?x = "of_int w / of_int n :: real" and ?y = "of_int h / of_int n :: real"
  have pos: "0 < ?x" "0 < ?y" using assms by simp_all
  obtain vs cs where g: "GenerateVertices ev evc exact ?s = Some (Ret (vs, cs))" "int (length vs) = 6 * (\<lceil>?x\<rceil> * \<lceil>?y\<rceil>)" "length cs = length vs"
    using triangles_exact [OF assms(1-7)] by blast
  define c where "c = \<lfloor>?x * ?y * 6\<rfloor>"
  have sizes: "buffer_sizes exact ?s = Ret (c, c * 3, c * 2)"
    using buffer_sizes_exact [OF assms(1-3,8)] by (simp only: c_def Let_def)
  have "c < int (length vs) \<longleftrightarrow> \<not> (n dvd w \<and> n dvd h)"
    unfolding c_def g(2) using floor_product_less [OF pos] dvd_ceiling [OF assms(1)] by simp
  then have iff: "c * 3 < 3 * int (length vs) \<or> c * 2 < 2 * int (length cs) \<longleftrightarrow> \<not> (n dvd w \<and> n dvd h)" using g(3) by simp
  have exactly: "c = 6 * (w div n) * (h div n)" if "n dvd w" "n dvd h"
  proof -
    have "?x * ?y * 6 = of_int (6 * (w div n) * (h div n))" using that assms by (simp add: real_of_int_div)
    then show ?thesis unfolding c_def by (metis floor_of_int)
  qed
  show ?thesis
  proof (cases "n dvd w \<and> n dvd h")
    case True
    then show ?thesis using exactly iff g(1) sizes by (auto simp: SetupBuffer_def GetVertexSize_def GetCoordSize_def Let_def)
  next
    case False
    then show ?thesis using iff g(1) sizes
      by (intro exI [of _ "undefined\<lparr>triangleIndexCount := 6 * (w div n) * (h div n)\<rparr>"]) (auto simp: SetupBuffer_def GetVertexSize_def GetCoordSize_def)
  qed
qed

text \<open>
  C36: computed exactly, for an interval of the angles whose corners and sides are whole numbers, with a positive step that is one, and whose positions and numbers of
  coordinates are \<open>int\<close>s, the triangles fit their buffers exactly when the step divides both sides. The filling always ends; when the step does not divide a side it
  writes behind the buffer, which has been sized for the exact quotient.
\<close>

theorem SetupBuffer_fits_iff:
  assumes "0 < n" "0 < w" "0 < h" "is_int a" "is_int b" "a + w + n \<le> 2 ^ 31" "b + h + n \<le> 2 ^ 31" "18 * w * h < 2 ^ 31 * n ^ 2"
  shows "\<exists>r. SetupBuffer ev evc exact vb cb (SetInterval (of_int n) (of_int a, of_int b) (of_int (a + w), of_int (b + h)) s) = Some r
    \<and> ((\<exists>s'. r = Ret s' \<and> triangleIndexCount s' = 6 * (w div n) * (h div n)) \<longleftrightarrow> n dvd w \<and> n dvd h)
    \<and> (r = UB HeapOverflow \<longleftrightarrow> \<not> (n dvd w \<and> n dvd h))"
proof -
  obtain s' where "triangleIndexCount s' = 6 * (w div n) * (h div n)"
    "SetupBuffer ev evc exact vb cb (SetInterval (of_int n) (of_int a, of_int b) (of_int (a + w), of_int (b + h)) s) =
      Some (if n dvd w \<and> n dvd h then Ret s' else UB HeapOverflow)"
    using SetupBuffer_exact [OF assms] by blast
  then show ?thesis by (cases "n dvd w \<and> n dvd h") auto
qed

definition demo_surface :: surface where
  "demo_surface = ParametricSurface_new \<lparr>anglespan = 0, m_startangle = (0, 0), m_endangle = (0, 0), modelViewMatrix = ksMatrixLoadIdentity,
     projectionMatrix = ksMatrixLoadIdentity, rotationMatrix = ksMatrixLoadIdentity, triangleIndexCount = 0, vertexBuffer = 0, vertexSize = 0,
     TextureCoordBuffer = 0, TextureCoordSize = 0, mScreenCount = 0, mScreenMode = 0, mPosition = vec3 0 0 0, mScale = vec3 1 1 1,
     mRotate = vec3 0 0 0, mTexPosition = vec3 0 0 0, mTexScale = vec3 1 1 1, mTexRotate = vec3 0 0 0, mNeedDraw = False, mIsYUV = False,
     lvb = 0, Visible = True, scnindex = 0, m_aspect = 2, Zoom = 0, yuvtexid = [0, 0, 0], NoVideoTexID = 0, yuvNoVideoTexID = [0, 0, 0],
     texwidth = 0, texheight = 0, texid = 0, gl = []\<rparr>"

theorem SetupBuffer_fits_iff_witness:
  "\<exists>s'. SetupBuffer (\<lambda>a b p. vec3 (fst p) (snd p) 0) id exact 1 2
      (SetInterval (of_int 3) (of_int (- 87), of_int (- 9)) (of_int (- 87 + 360), of_int (- 9 + 36)) demo_surface) = Some (Ret s')
    \<and> triangleIndexCount s' = 6 * (360 div 3) * (36 div 3)"
proof -
  have "(3 :: int) dvd 360 \<and> (3 :: int) dvd 36" "(0 :: int) < 3" "(0 :: int) < 360" "(0 :: int) < 36"
      "is_int (- 87)" "is_int (- 9)" "- 87 + 360 + 3 \<le> (2 :: int) ^ 31" "- 9 + 36 + 3 \<le> (2 :: int) ^ 31" "18 * 360 * 36 < (2 :: int) ^ 31 * 3 ^ 2"
    by (simp_all add: is_int_def)
  then show ?thesis
    using SetupBuffer_fits_iff [of 3 360 36 "- 87" "- 9" "\<lambda>a b p. vec3 (fst p) (snd p) 0" id 1 2 demo_surface] by blast
qed

text \<open>
  \<open>OneScreen\<close> asks for steps of 4 degrees over \<open>mWidth\<close> degrees and makes every width below 90 a width of 90, which 4 does not divide: the
  constructor writes behind its vertex buffer for every such width.
\<close>

theorem OneScreen_narrow_overflow:
  assumes "width < 90"
  shows "SetupBuffer ev evc exact vb cb (OneScreen_interval exact width s) = Some (UB HeapOverflow)"
  using SetupBuffer_exact [of 4 90 44 4 "- 8" ev evc vb cb s] assms by (auto simp: OneScreen_interval_def is_int_def Let_def)

theorem OneScreen_narrow_overflow_witness:
  "SetupBuffer (\<lambda>a b p. vec3 (fst p) (snd p) 0) id exact 1 2 (OneScreen_interval exact 60 demo_surface) = Some (UB HeapOverflow)"
  by (rule OneScreen_narrow_overflow) simp

section \<open>The surface moves rigidly\<close>

definition orthogonal :: "KSMatrix4 \<Rightarrow> bool" where
  "orthogonal r \<longleftrightarrow> mat_eq (ksMatrixMultiply exact r (ksTranspose r)) ksMatrixLoadIdentity"

text \<open>A matrix that turns the first three coordinates and leaves the fourth alone.\<close>

definition turns :: "KSMatrix4 \<Rightarrow> bool" where
  "turns r \<longleftrightarrow> orthogonal r \<and> (\<forall>i<3. r i 3 = 0 \<and> r 3 i = 0) \<and> r 3 3 = 1"

lemma orthogonal_multiply:
  assumes "orthogonal a" "orthogonal b"
  shows "orthogonal (ksMatrixMultiply exact a b)"
  unfolding orthogonal_def mat_eq_def
proof (intro allI impI)
  fix i j :: nat assume ij: "i < 4" "j < 4"
  define c where "c l m = b l 0 * b m 0 + b l 1 * b m 1 + b l 2 * b m 2 + b l 3 * b m 3" for l m
  have c: "c l m = (if l = m then 1 else 0)" if "l < 4" "m < 4" for l m
    using assms(2) that by (simp add: c_def orthogonal_def mat_eq_def ksMatrixMultiply_exact ksTranspose_def ksMatrixLoadIdentity_def)
  have "ksMatrixMultiply exact (ksMatrixMultiply exact a b) (ksTranspose (ksMatrixMultiply exact a b)) i j =
      (\<Sum>l<4. \<Sum>m<4. a i l * a j m * c l m)"
    unfolding ksMatrixMultiply_exact ksTranspose_def c_def by (simp add: numeral_eq_Suc; algebra)
  also have "\<dots> = (\<Sum>l<4. a i l * a j l)"
  proof (rule sum.cong [OF refl])
    fix l :: nat assume "l \<in> {..<4}"
    then have "(\<Sum>m<4. a i l * a j m * c l m) = (\<Sum>m<4. if l = m then a i l * a j m else 0)" by (intro sum.cong) (auto simp: c)
    then show "(\<Sum>m<4. a i l * a j m * c l m) = a i l * a j l" using \<open>l \<in> {..<4}\<close> by simp
  qed
  also have "\<dots> = ksMatrixMultiply exact a (ksTranspose a) i j"
    by (simp add: ksMatrixMultiply_exact ksTranspose_def numeral_eq_Suc)
  finally show "ksMatrixMultiply exact (ksMatrixMultiply exact a b) (ksTranspose (ksMatrixMultiply exact a b)) i j = ksMatrixLoadIdentity i j"
    using assms(1) ij by (simp add: orthogonal_def mat_eq_def)
qed

lemma turns_multiply: "turns a \<Longrightarrow> turns b \<Longrightarrow> turns (ksMatrixMultiply exact a b)"
  unfolding turns_def by (auto simp: orthogonal_multiply ksMatrixMultiply_exact less_Suc_eq numeral_eq_Suc)

lemma turns_identity: "turns ksMatrixLoadIdentity"
  by (simp add: turns_def orthogonal_def mat_eq_def all_less_4 ksMatrixMultiply_exact ksTranspose_def ksMatrixLoadIdentity_def)

lemma turns_ksRotate:
  assumes "x \<noteq> 0 \<or> y \<noteq> 0 \<or> z \<noteq> 0" "turns m"
  shows "turns (ksRotate exact m angle x y z)"
proof -
  obtain X Y Z where unit: "X * X + Y * Y + Z * Z = 1"
    and rot: "ksRotate exact m angle x y z = ksMatrixMultiply exact (rotMat exact (sin (angle * pi / 180)) (cos (angle * pi / 180)) X Y Z) m"
    by (rule ksRotate_factor [OF assms(1)])
  have "sin (angle * pi / 180) * sin (angle * pi / 180) + cos (angle * pi / 180) * cos (angle * pi / 180) = 1"
    by (simp add: power2_eq_square [symmetric])
  then have "turns (rotMat exact (sin (angle * pi / 180)) (cos (angle * pi / 180)) X Y Z)"
    using rotMat_orthogonal [OF unit] by (simp add: turns_def orthogonal_def rotMat_def Let_def)
  then show ?thesis unfolding rot by (rule turns_multiply [OF _ assms(2)])
qed

lemma translation_eq:
  "ksTranslate exact (ksTranslate exact ksMatrixLoadIdentity 0 0 d) a b c i j =
    (if i = 3 then (if j = 3 then 1 else point a b (c + d) 0 j) else if i = j then 1 else 0)"
  by (auto simp: ksTranslate_def ksMatrixLoadIdentity_def point_def)

lemma transform_shift:
  assumes "turns r" "j < 4"
  shows "transform (transform (point x y z 1) r) (ksTranslate exact (ksTranslate exact ksMatrixLoadIdentity 0 0 d) a b c) j =
    transform (point x y z 1) r j + point a b (c + d) 0 j"
proof -
  have "r 0 3 = 0" "r 1 3 = 0" "r 2 3 = 0" "r 3 3 = 1" using assms(1) by (auto simp: turns_def)
  then have one: "transform (point x y z 1) r 3 = 1" by (simp add: transform_point)
  have "transform q (ksTranslate exact (ksTranslate exact ksMatrixLoadIdentity 0 0 d) a b c) j = q j + point a b (c + d) 0 j" if "q 3 = 1" for q
    using assms(2) that by (auto simp: transform_def translation_eq point_def less_Suc_eq numeral_eq_Suc)
  then show ?thesis using one by blast
qed

text \<open>
  Outside the cylinder and the plain view the model-view matrix moves the surface rigidly: it turns every point about the origin and then shifts it by
  the position of the surface and the zoom; the scale only narrows the field of view of the projection.
\<close>

theorem updateSurfaceTransform_rigid:
  assumes "mScreenMode s \<noteq> SCRN_CYLINDER" "mScreenMode s \<noteq> SCRN_ONENORMAL"
  shows "\<exists>r. turns r \<and> (\<forall>x y z. \<forall>j<4. transform (point x y z 1) (modelViewMatrix (updateSurfaceTransform exact s)) j =
      transform (point x y z 1) r j + point (vx (mPosition s)) (vy (mPosition s)) (vz (mPosition s) + Zoom s) 0 j)
    \<and> projectionMatrix (updateSurfaceTransform exact s) =
        ksPerspective exact ksMatrixLoadIdentity (60 / vx (mScale s)) (m_aspect s) (1 / 10000) 1200"
proof -
  define r where "r = (let r = ksMatrixLoadIdentity;
          r = (if vx (mRotate s) \<noteq> 0 then ksRotate exact r (vx (mRotate s)) 1 0 0 else r);
          r = (if vy (mRotate s) \<noteq> 0 then ksRotate exact r (vy (mRotate s)) 0 1 0 else r) in
          (if vz (mRotate s) \<noteq> 0 then ksRotate exact r (vz (mRotate s)) 0 0 1 else r))"
  have "turns (ksMatrixMultiply exact ksMatrixLoadIdentity r)"
    by (auto simp: r_def Let_def turns_multiply turns_identity turns_ksRotate)
  moreover have "modelViewMatrix (updateSurfaceTransform exact s) =
      ksMatrixMultiply exact (ksMatrixMultiply exact ksMatrixLoadIdentity r) (ksTranslate exact (ksTranslate exact ksMatrixLoadIdentity 0 0 (Zoom s))
        (vx (mPosition s)) (vy (mPosition s)) (vz (mPosition s)))"
    and "projectionMatrix (updateSurfaceTransform exact s) =
        ksPerspective exact ksMatrixLoadIdentity (60 / vx (mScale s)) (m_aspect s) (1 / 10000) 1200"
    using assms by (simp_all add: updateSurfaceTransform_def r_def emit_def Let_def)
  ultimately show ?thesis
    by (intro exI [of _ "ksMatrixMultiply exact ksMatrixLoadIdentity r"]) (simp add: transform_multiply transform_shift)
qed

theorem updateSurfaceTransform_rigid_witness:
  "\<exists>r. turns r \<and> transform (point 1 2 3 1) (modelViewMatrix (updateSurfaceTransform exact (setRotate (vec3 30 0 45) False demo_surface))) 0 =
      transform (point 1 2 3 1) r 0"
  using updateSurfaceTransform_rigid [of "setRotate (vec3 30 0 45) False demo_surface"]
  by (auto simp: demo_surface_def ParametricSurface_new_def setRotate_def SCRN_CYLINDER_def SCRN_ONENORMAL_def vec3_def point_def)

section \<open>Textures and the drawing flag\<close>

text \<open>The textures that exist after a sequence of calls.\<close>

fun live_after :: "u32 set \<Rightarrow> gl_call list \<Rightarrow> u32 set" where
  "live_after T [] = T"
| "live_after T (GenTextures ns # cs) = live_after (T \<union> set ns) cs"
| "live_after T (DeleteTextures ns # cs) = live_after (T - set ns) cs"
| "live_after T (_ # cs) = live_after T cs"

lemma live_after_append: "live_after T (cs @ ds) = live_after (live_after T cs) ds"
  by (induction T cs rule: live_after.induct) simp_all

abbreviation live :: "surface \<Rightarrow> u32 set" where
  "live s \<equiv> live_after {} (gl s)"

text \<open>
  The calls of the renderer. A name that OpenGL hands out is not 0 and not in use; a load first deletes the texture that it replaces, whose name may be handed out again
  at once.
\<close>

inductive surface_step :: "fl \<Rightarrow> surface \<Rightarrow> surface \<Rightarrow> bool" for fl where
  load: "fresh \<noteq> 0 \<Longrightarrow> fresh \<notin> live s - {texid s} \<Longrightarrow> surface_step fl s (snd (LoadTexture fresh w h scn s))"
| load_yuv: "y \<noteq> 0 \<Longrightarrow> c \<noteq> 0 \<Longrightarrow> y \<noteq> c \<Longrightarrow> y \<notin> live s - set (take 2 (yuvtexid s)) \<Longrightarrow> c \<notin> live s - set (take 2 (yuvtexid s))
    \<Longrightarrow> surface_step fl s (snd (LoadTexture_yuv y c w h s))"
| clean: "surface_step fl s (CleanTexture s)"
| position: "surface_step fl s (SetPosition pos texture s)"
| scale: "surface_step fl s (SetScale pos texture s)"
| turn: "surface_step fl s (setRotate pos texture s)"
| reset: "surface_step fl s (ResetPosition s)"
| draw: "surface_step fl s (DrawSelf fl s)"

definition own_textures :: "surface \<Rightarrow> bool" where
  "own_textures s \<longleftrightarrow> length (yuvtexid s) = 3 \<and> live s = {texid s, yuvtexid s ! 0, yuvtexid s ! 1} - {0}
     \<and> (texid s \<noteq> 0 \<longrightarrow> texid s \<noteq> yuvtexid s ! 0 \<and> texid s \<noteq> yuvtexid s ! 1) \<and> (yuvtexid s ! 0 = 0 \<longleftrightarrow> yuvtexid s ! 1 = 0)"

lemma own_texturesD:
  assumes "own_textures s"
  shows "live s = {texid s, yuvtexid s ! 0, yuvtexid s ! 1} - {0}" "texid s \<noteq> 0 \<longrightarrow> texid s \<noteq> yuvtexid s ! 0 \<and> texid s \<noteq> yuvtexid s ! 1"
    "yuvtexid s ! 0 = 0 \<longleftrightarrow> yuvtexid s ! 1 = 0"
  using assms unfolding own_textures_def by blast+

lemma own_textures_keep:
  assumes "own_textures s" "yuvtexid t = yuvtexid s" "texid t = texid s" "live t = live s"
  shows "own_textures t"
  using assms by (simp add: own_textures_def)

lemma live_draw: "live (DrawSelf fl s) = live s" "yuvtexid (DrawSelf fl s) = yuvtexid s" "texid (DrawSelf fl s) = texid s"
  by (simp_all add: DrawSelf_def updateSurfaceTransform_def emit_def Let_def live_after_append)

text \<open>What a call does to the textures: it keeps them, or it replaces its own by new ones.\<close>

lemma names_replace:
  fixes a f p q :: u32
  assumes "L = {a, p, q} - {0}" "a \<noteq> 0 \<longrightarrow> a \<noteq> p \<and> a \<noteq> q" "f \<noteq> 0" "f \<notin> L - {a}"
  shows "insert f (L - ({a} - {0})) = {f, p, q} - {0}" "f \<noteq> p" "f \<noteq> q"
  using assms by (cases "a = 0"; cases "p = 0"; cases "q = 0"; auto)+

lemma names_drop:
  fixes a p q :: u32
  assumes "L = {a, p, q} - {0}" "a \<noteq> 0 \<longrightarrow> a \<noteq> p \<and> a \<noteq> q"
  shows "L - ({a} - {0}) = {0, p, q} - {0}"
  using assms by (cases "a = 0"; cases "p = 0"; cases "q = 0"; auto)

lemma names_replace_pair:
  fixes a p q y c :: u32
  assumes "L = {a, p, q} - {0}" "a \<noteq> 0 \<longrightarrow> a \<noteq> p \<and> a \<noteq> q" "p = 0 \<longleftrightarrow> q = 0" "y \<noteq> 0" "c \<noteq> 0" "y \<notin> L - {p, q}" "c \<notin> L - {p, q}"
  shows "(if p \<noteq> 0 then L - {p, q} else L) \<union> {y, c} = {a, y, c} - {0}" "a \<noteq> 0 \<longrightarrow> a \<noteq> y \<and> a \<noteq> c"
  using assms by (cases "a = 0"; cases "p = 0"; auto)+

lemma own_textures_replace:
  assumes "own_textures s" "fresh \<noteq> 0" "fresh \<notin> live s - {texid s}" "yuvtexid t = yuvtexid s" "texid t = fresh" "live t = insert fresh (live s - ({texid s} - {0}))"
  shows "own_textures t"
proof -
  from names_replace [OF own_texturesD(1,2) [OF assms(1)] assms(2,3)] show ?thesis
    using assms(1) by (simp add: own_textures_def assms(4-6))
qed

lemma LoadTexture_effect:
  "let t = snd (LoadTexture fresh w h scn s) in yuvtexid t = yuvtexid s
    \<and> (texid t = texid s \<and> live t = live s \<or> texid t = fresh \<and> live t = insert fresh (live s - ({texid s} - {0})))"
proof (cases "texid s = 0")
  case True
  then show ?thesis by (cases "texwidth s \<noteq> w \<or> texheight s \<noteq> h") (simp_all add: LoadTexture_def emit_def Let_def live_after_append)
next
  case False
  then show ?thesis by (cases "texwidth s \<noteq> w \<or> texheight s \<noteq> h") (simp_all add: LoadTexture_def emit_def Let_def live_after_append)
qed

lemma own_textures_load:
  assumes "own_textures s" "fresh \<noteq> 0" "fresh \<notin> live s - {texid s}"
  shows "own_textures (snd (LoadTexture fresh w h scn s))"
  using LoadTexture_effect [of fresh w h scn s] own_textures_replace [OF assms] own_textures_keep [OF assms(1)] by (auto simp: Let_def)

lemma take_2: "2 \<le> length xs \<Longrightarrow> set (take 2 xs) = {xs ! 0, xs ! 1}"
  by (cases xs; cases "tl xs") (auto simp: numeral_eq_Suc)

lemma own_textures_load_yuv:
  assumes "own_textures s" "y \<noteq> 0" "c \<noteq> 0" "y \<noteq> c"
    and "y \<notin> live s - set (take 2 (yuvtexid s))" "c \<notin> live s - set (take 2 (yuvtexid s))"
  shows "own_textures (snd (LoadTexture_yuv y c w h s))"
proof -
  let ?t = "snd (LoadTexture_yuv y c w h s)"
  have len: "length (yuvtexid s) = 3" using assms(1) by (simp add: own_textures_def)
  then have new: "yuvtexid ?t ! 0 = y" "yuvtexid ?t ! 1 = c" "texid ?t = texid s" "length (yuvtexid ?t) = 3"
    by (simp_all add: LoadTexture_yuv_def emit_def Let_def)
  have "live ?t = (if yuvtexid s ! 0 \<noteq> 0 then live s - {yuvtexid s ! 0, yuvtexid s ! 1} else live s) \<union> {y, c}"
    using len by (simp add: LoadTexture_yuv_def emit_def Let_def live_after_append take_2)
  moreover have "set (take 2 (yuvtexid s)) = {yuvtexid s ! 0, yuvtexid s ! 1}" using len by (simp add: take_2)
  note names_replace_pair [OF own_texturesD [OF assms(1)] assms(2,3) assms(5,6) [unfolded this]]
  ultimately show ?thesis using new assms(2,3) by (simp only: own_textures_def)
qed

lemma own_textures_clean:
  assumes "own_textures s"
  shows "own_textures (CleanTexture s)"
proof -
  have "live (CleanTexture s) = live s - ({texid s} - {0})" "texid (CleanTexture s) = 0" "yuvtexid (CleanTexture s) = yuvtexid s"
    by (simp_all add: CleanTexture_def emit_def live_after_append)
  moreover note names_drop [OF own_texturesD(1,2) [OF assms]]
  ultimately show ?thesis using assms by (simp add: own_textures_def)
qed

lemma surface_step_own:
  assumes "surface_step fl s t" "own_textures s"
  shows "own_textures t"
  using assms
proof (induction rule: surface_step.induct)
  case (draw s)
  then show ?case by (rule own_textures_keep) (simp_all add: live_draw)
qed (auto simp: own_textures_load own_textures_load_yuv own_textures_clean SetPosition_def SetScale_def setRotate_def ResetPosition_def
      elim!: own_textures_keep)

inductive surface_reach :: "fl \<Rightarrow> surface \<Rightarrow> surface \<Rightarrow> bool" for fl where
  here: "surface_reach fl s s"
| step: "surface_reach fl s t \<Longrightarrow> surface_step fl t t' \<Longrightarrow> surface_reach fl s t'"

text \<open>
  C39: no texture is lost. Whatever pictures of whatever sizes are loaded, in either format, and however the surface is moved, cleaned and drawn in between, the
  textures that exist are exactly those that the surface refers to: at most one for RGB and two for YUV. The name that a load has deleted may come back at once.
  \<open>SetTexture\<close>, which hands in a name that another object created, is not among these calls: it drops the texture of the surface without deleting it.
\<close>

theorem surface_owns_textures:
  assumes "surface_reach fl (ParametricSurface_new (s\<lparr>gl := []\<rparr>)) t"
  shows "live t = {texid t, yuvtexid t ! 0, yuvtexid t ! 1} - {0}"
proof -
  have "own_textures (ParametricSurface_new (s\<lparr>gl := []\<rparr>))" by (simp add: own_textures_def ParametricSurface_new_def)
  with assms have "own_textures t" by (induction rule: surface_reach.induct) (auto intro: surface_step_own)
  then show ?thesis by (simp add: own_textures_def)
qed

text \<open>Two pictures of different size: the second load deletes name 7 and gets it again.\<close>

theorem surface_owns_textures_witness:
  "live (snd (LoadTexture 7 640 480 0 (snd (LoadTexture 7 320 240 0 (ParametricSurface_new (demo_surface\<lparr>gl := []\<rparr>)))))) = {7}"
proof -
  let ?s = "snd (LoadTexture 7 320 240 0 (ParametricSurface_new (demo_surface\<lparr>gl := []\<rparr>)))"
  have "texid ?s = 7" "live ?s = {7}"
    by (simp_all add: LoadTexture_def ParametricSurface_new_def emit_def Let_def)
  then have "surface_step exact ?s (snd (LoadTexture 7 640 480 0 ?s))" by (intro surface_step.load) (simp_all only: ParametricSurface_new_def, auto)
  moreover have "surface_step exact (ParametricSurface_new (demo_surface\<lparr>gl := []\<rparr>)) ?s"
    by (intro surface_step.load) (simp_all add: ParametricSurface_new_def)
  ultimately have "surface_reach exact (ParametricSurface_new (demo_surface\<lparr>gl := []\<rparr>)) (snd (LoadTexture 7 640 480 0 ?s))"
    by (blast intro: surface_reach.intros)
  from surface_owns_textures [OF this] show ?thesis
    by (simp add: LoadTexture_def ParametricSurface_new_def emit_def Let_def)
qed

text \<open>\<open>SetTexture\<close> loses the texture of the surface.\<close>

lemma SetTexture_loses:
  "texid s \<in> live s \<Longrightarrow> t \<noteq> texid s \<Longrightarrow> texid s \<in> live (SetTexture t s) \<and> texid (SetTexture t s) = t"
  by (simp add: SetTexture_def)

text \<open>
  A surface that is not marked for drawing shows what it showed: the setters mark every change. Two do not: \<open>setZoom\<close> and the \<open>SetTexture\<close> for YUV change what
  would be drawn and leave the mark alone.
\<close>

definition shown :: "surface \<Rightarrow> KSVec3 list \<times> real \<times> u32 list" where
  "shown s = ([mPosition s, mScale s, mRotate s, mTexPosition s, mTexScale s, mTexRotate s], Zoom s, texid s # yuvtexid s)"

theorem setters_mark_changes:
  "\<not> mNeedDraw (SetPosition p b s) \<Longrightarrow> shown (SetPosition p b s) = shown s"
  "\<not> mNeedDraw (SetScale p b s) \<Longrightarrow> shown (SetScale p b s) = shown s"
  "\<not> mNeedDraw (setRotate p b s) \<Longrightarrow> shown (setRotate p b s) = shown s"
  "mNeedDraw (snd (LoadTexture fresh w h scn s))" "mNeedDraw (ResetPosition s)"
  "\<not> mNeedDraw s \<Longrightarrow> z \<noteq> Zoom s \<Longrightarrow> \<not> mNeedDraw (setZoom z s) \<and> shown (setZoom z s) \<noteq> shown s"
  by (auto simp: SetPosition_def SetScale_def setRotate_def shown_def LoadTexture_def ResetPosition_def setZoom_def Let_def split: if_splits)

end
