(* ===== verification/NormalPlay.thy ===== *)
theory NormalPlay
  imports Surface
begin

text \<open>
  \<^verbatim>\<open>gles/GLES/NormalPlay.cpp\<close> and the parts of \<^verbatim>\<open>gles/GLES/BaseScreen.cpp\<close> that it uses: a rectangle that shows one video. The picture is zoomed and
  moved inside the rectangle by the texture position and scale; the two shaders compute from them which point of the picture a point of the rectangle
  shows. The rectangle may carry a second surface that shows a loading animation and a third one that shows text. Compiling the shaders, drawing and the animations
  themselves are not modelled.
\<close>

section \<open>State\<close>

record normal_play =
  surf :: surface
  m_radius :: real
  mLeft :: real
  mTop :: real
  mZoom :: real
  mLeftOffset :: real
  mTopOffset :: real
  mKeepAspect :: real
  mIsSelected :: bool
  mIsOwnAnimation :: bool
  mShowInfo :: bool
  mShowOSD :: bool
  InfoTexID :: u32
  loading :: "surface option"
  info :: "surface option"
  mSelectedTex :: u32
  mNormalTex :: u32
  mLineBuffer :: u32
  mLinebufferSize :: int
  isUseDirectTexture :: bool
  directTextureBuffer :: nat
  direct_width :: int
  direct_height :: int

definition SCRN_HEMISPHERE :: int where "SCRN_HEMISPHERE = 1"

lemmas screen_modes = SCRN_HEMISPHERE_def SCRN_CYLINDER_def SCRN_ONENORMAL_def

section \<open>Construction\<close>

definition BaseScreen_new :: "normal_play \<Rightarrow> normal_play" where
  "BaseScreen_new p = p\<lparr>surf := ParametricSurface_new (surf p), isUseDirectTexture := False, directTextureBuffer := 0, direct_width := 0, direct_height := 0,
     loading := None, InfoTexID := 0, info := None, mShowOSD := True, mSelectedTex := 0, mNormalTex := 0, mIsSelected := False, mShowInfo := False,
     mIsOwnAnimation := False, mLineBuffer := 0\<rparr>"

definition NormalPlay_Evaluate :: "fl \<Rightarrow> normal_play \<Rightarrow> int \<Rightarrow> int \<Rightarrow> real \<times> real \<Rightarrow> KSVec3" where
  "NormalPlay_Evaluate fl p mxStart mxEnd uv =
     (let r = f32 fl; R = m_radius p in
      vec3 (r (r (r (r (R * fst uv) - r (R / 2)) + mLeft p) * m_aspect (surf p))) (r (r (r (R * snd uv) - r (R / 2)) + mTop p)) 1)"

definition NormalPlay_EvaluateCoord :: "fl \<Rightarrow> real \<times> real \<Rightarrow> real \<times> real" where
  "NormalPlay_EvaluateCoord fl uv = (fst uv, f32 fl (1 - snd uv))"

text \<open>The frame around the rectangle: eight points of three coordinates. \<open>lb\<close> is the name of the new buffer.\<close>

definition setupLineBuffer :: "u32 \<Rightarrow> normal_play \<Rightarrow> normal_play" where
  "setupLineBuffer lb p =
     (let p = (if mLineBuffer p \<noteq> 0 then p\<lparr>surf := emit [DeleteBuffers (mLineBuffer p)] (surf p), mLineBuffer := 0\<rparr> else p) in
      p\<lparr>surf := emit [GenBuffers lb, BufferData lb 24] (surf p), mLineBuffer := lb, mLinebufferSize := 24\<rparr>)"

definition BaseScreen_SetupBuffer :: "fl \<Rightarrow> u32 \<Rightarrow> u32 \<Rightarrow> u32 \<Rightarrow> normal_play \<Rightarrow> normal_play outcome option" where
  "BaseScreen_SetupBuffer fl vb cb lb p =
     map_option (\<lambda>r. bnd r (\<lambda>s. Ret (setupLineBuffer lb (p\<lparr>surf := s\<rparr>))))
       (SetupBuffer (NormalPlay_Evaluate fl p) (NormalPlay_EvaluateCoord fl) fl vb cb (surf p))"

definition NormalPlay_new :: "fl \<Rightarrow> u32 \<Rightarrow> u32 \<Rightarrow> u32 \<Rightarrow> real \<Rightarrow> real \<Rightarrow> real \<Rightarrow> real \<Rightarrow> normal_play \<Rightarrow> normal_play outcome option" where
  "NormalPlay_new fl vb cb lb radius aspect lft tp p =
     (let p = (BaseScreen_new p)\<lparr>m_radius := radius, mLeft := lft, mTop := tp, mLeftOffset := 0, mTopOffset := 0, mKeepAspect := 1, mIsSelected := False\<rparr>;
          p = p\<lparr>surf := setupProjection fl (SetInterval 1 (1, 1) (2, 2) ((surf p)\<lparr>m_aspect := aspect\<rparr>))\<rparr> in
      map_option (\<lambda>r. bnd r (\<lambda>p. Ret (p\<lparr>mZoom := 1, surf := (surf p)\<lparr>Zoom := f32 fl (- 274 / 100), mScreenMode := SCRN_ONENORMAL\<rparr>\<rparr>)))
        (BaseScreen_SetupBuffer fl vb cb lb p))"

definition ReSetBuffer :: "fl \<Rightarrow> u32 \<Rightarrow> u32 \<Rightarrow> u32 \<Rightarrow> real \<Rightarrow> normal_play \<Rightarrow> normal_play outcome option" where
  "ReSetBuffer fl vb cb lb aspect p =
     map_option (\<lambda>r. bnd r (\<lambda>p. Ret (p\<lparr>surf := (surf p)\<lparr>Zoom := f32 fl (- 274 / 100)\<rparr>\<rparr>)))
       (BaseScreen_SetupBuffer fl vb cb lb (p\<lparr>surf := setupProjection fl ((surf p)\<lparr>m_aspect := aspect\<rparr>)\<rparr>))"

section \<open>Moving the rectangle and the picture in it\<close>

text \<open>Where the text goes: below the middle of a rectangle at height \<open>y\<close>.\<close>

definition info_height :: "fl \<Rightarrow> real \<Rightarrow> normal_play \<Rightarrow> real" where
  "info_height fl y p = f32 fl (f64 fl (f32 fl (y - f32 fl (vy (GetScale False (surf p)) / 2)) + f64 fl (1 / 10)))"

definition BaseScreen_SetPosition :: "fl \<Rightarrow> KSVec3 \<Rightarrow> bool \<Rightarrow> normal_play \<Rightarrow> normal_play" where
  "BaseScreen_SetPosition fl pos texture p =
     (let p = (if \<not> texture \<and> mScreenMode (surf p) \<noteq> SCRN_CYLINDER then
                 let q = (if 1 < m_aspect (surf p) then GetPosition False (surf p) else vec3 (vx pos) (vy pos) 0) in
                 p\<lparr>loading := map_option (SetPosition (vec3 (vx pos) (vy pos) 0) False) (loading p),
                   info := (if mScreenMode (surf p) \<noteq> SCRN_HEMISPHERE
                            then map_option (SetPosition (vec3 (vx q) (info_height fl (vy q) p) 0) False) (info p) else info p)\<rparr>
               else p) in
      p\<lparr>surf := SetPosition pos texture (surf p)\<rparr>)"

text \<open>How far the picture may be moved at scale \<open>sx\<close>: to the side, up and down.\<close>

definition pan_limits :: "fl \<Rightarrow> normal_play \<Rightarrow> real \<Rightarrow> real \<times> real" where
  "pan_limits fl p sx =
     (let r = f32 fl; d = f64 fl; full = r (r (1 - r (1 / sx)) / 2); a = m_aspect (surf p); k = mKeepAspect p in
      if k \<noteq> 1 then
        if a < k then (full, r (d (d (r (a / k) - d (1 / sx)) / 2)))
        else (r (d (d (r (k / a) - d (1 / sx)) / 2)), full)
      else (full, full))"

definition clamp :: "real \<Rightarrow> real \<Rightarrow> real" where
  "clamp l x = (let x = (if x < - l then - l else x); x = (if l < x then l else x) in if l < 0 then 0 else x)"

definition clamped :: "real \<times> real \<Rightarrow> KSVec3 \<Rightarrow> KSVec3" where
  "clamped l pos = vec3 (clamp (fst l) (vx pos)) (clamp (snd l) (vy pos)) (vz pos)"

definition NormalPlay_SetPosition :: "fl \<Rightarrow> KSVec3 \<Rightarrow> bool \<Rightarrow> normal_play \<Rightarrow> normal_play" where
  "NormalPlay_SetPosition fl pos texture p =
     (if \<not> texture then BaseScreen_SetPosition fl pos False p
      else BaseScreen_SetPosition fl (clamped (pan_limits fl p (vx (GetScale True (surf p)))) pos) True p)"

definition NormalPlay_SetScale :: "fl \<Rightarrow> KSVec3 \<Rightarrow> bool \<Rightarrow> normal_play \<Rightarrow> normal_play" where
  "NormalPlay_SetScale fl scale texture p =
     (if \<not> texture then p\<lparr>surf := SetScale scale False (surf p)\<rparr>
      else if vx scale < 1 then p
      else
        let p = BaseScreen_SetPosition fl (clamped (pan_limits fl p (vx scale)) (GetPosition True (surf p))) True p in
        p\<lparr>surf := SetScale scale True (surf p)\<rparr>)"

definition NormalPlay_setRotate :: "KSVec3 \<Rightarrow> bool \<Rightarrow> normal_play \<Rightarrow> normal_play" where
  "NormalPlay_setRotate rot3 texture p = p\<lparr>surf := setRotate rot3 texture (surf p)\<rparr>"

definition NormalPlay_ResetPosition :: "normal_play \<Rightarrow> normal_play" where
  "NormalPlay_ResetPosition p = p\<lparr>surf := ResetPosition (surf p), mIsOwnAnimation := False, mLeftOffset := 0, mTopOffset := 0, mZoom := 1\<rparr>"

definition SetKeepAspect :: "real \<Rightarrow> normal_play \<Rightarrow> normal_play" where
  "SetKeepAspect aspect p = p\<lparr>mKeepAspect := aspect\<rparr>"

text \<open>An older pair of offsets, which nothing draws.\<close>

definition turn_by :: "fl \<Rightarrow> real \<Rightarrow> real \<Rightarrow> real \<Rightarrow> real" where
  "turn_by fl z angle off =
     (let lw = f32 fl (f32 fl (1 - z) / 2) in
      if 1 \<le> z \<or> f32 fl (angle + off) < - lw \<or> lw < f32 fl (angle + off) then off else f32 fl (off + angle))"

definition TurnLeftRight :: "fl \<Rightarrow> real \<Rightarrow> normal_play \<Rightarrow> normal_play" where
  "TurnLeftRight fl angle p = p\<lparr>mLeftOffset := turn_by fl (mZoom p) angle (mLeftOffset p)\<rparr>"

definition TurnUpDown :: "fl \<Rightarrow> real \<Rightarrow> normal_play \<Rightarrow> normal_play" where
  "TurnUpDown fl angle p = p\<lparr>mTopOffset := turn_by fl (mZoom p) angle (mTopOffset p)\<rparr>"

definition NormalPlay_setZoom :: "fl \<Rightarrow> real \<Rightarrow> normal_play \<Rightarrow> normal_play" where
  "NormalPlay_setZoom fl multi p =
     (let z = f32 fl (1 / multi); lw = f32 fl (f32 fl (1 - z) / 2);
          cut = (\<lambda>x. let x = (if x < - lw then - lw else x) in if lw < x then lw else x) in
      p\<lparr>mZoom := z, mTopOffset := cut (mTopOffset p), mLeftOffset := cut (mLeftOffset p)\<rparr>)"

section \<open>Selection, text, loading, textures from another process\<close>

definition BaseScreen_SetSelected :: "bool \<Rightarrow> normal_play \<Rightarrow> normal_play" where
  "BaseScreen_SetSelected value p = p\<lparr>mIsSelected := value\<rparr>"

definition ShowInfo :: "bool \<Rightarrow> normal_play \<Rightarrow> normal_play" where
  "ShowInfo value p = p\<lparr>mShowInfo := value\<rparr>"

definition SetIsAnimation :: "bool \<Rightarrow> normal_play \<Rightarrow> normal_play" where
  "SetIsAnimation animation p = p\<lparr>mIsOwnAnimation := animation\<rparr>"

definition SetBorderColor :: "u32 \<Rightarrow> u32 \<Rightarrow> normal_play \<Rightarrow> normal_play" where
  "SetBorderColor selecttex normaltex p = p\<lparr>mSelectedTex := selecttex, mNormalTex := normaltex\<rparr>"

definition place_info :: "fl \<Rightarrow> real \<Rightarrow> normal_play \<Rightarrow> surface \<Rightarrow> surface" where
  "place_info fl aspect p =
     (if mScreenMode (surf p) \<noteq> SCRN_ONENORMAL
      then SetPosition (vec3 (f32 fl (f64 fl (f64 fl (- 7 / 10) / aspect))) (f32 fl (- 95 / 100)) 0) False
      else let l = GetPosition False (surf p) in SetPosition (vec3 (vx l) (info_height fl (vy l) p) (vz l)) False)"

definition PutInfo :: "fl \<Rightarrow> u32 \<Rightarrow> normal_play \<Rightarrow> normal_play" where
  "PutInfo fl t p =
     (case info p of None \<Rightarrow> p
      | Some i \<Rightarrow> p\<lparr>InfoTexID := t, info := Some (SetTexture t (place_info fl (m_aspect (surf p)) p i))\<rparr>)"

text \<open>The text surface comes from \<open>new\<close> and goes to \<open>free\<close>: its destructor does not run.\<close>

definition releaseInfo :: "normal_play \<Rightarrow> normal_play" where
  "releaseInfo p = p\<lparr>info := None\<rparr>"

definition ToursLoading_ReSizeSplite :: "fl \<Rightarrow> real \<Rightarrow> surface \<Rightarrow> surface" where
  "ToursLoading_ReSizeSplite fl aspect s = (setupProjection fl (s\<lparr>m_aspect := aspect\<rparr>))\<lparr>Zoom := f32 fl (- 273 / 100)\<rparr>"

text \<open>\<open>logo\<close> tells that the manager shows a logo instead of the turning ring while a video loads.\<close>

definition ResetSizeAnimation :: "fl \<Rightarrow> bool \<Rightarrow> real \<Rightarrow> normal_play \<Rightarrow> normal_play" where
  "ResetSizeAnimation fl logo aspect p =
     p\<lparr>loading := (if logo then loading p else map_option (ToursLoading_ReSizeSplite fl aspect) (loading p)),
       info := map_option (place_info fl aspect p) (info p)\<rparr>"

definition SetIsUseDirectTexture :: "bool \<Rightarrow> normal_play \<Rightarrow> normal_play" where
  "SetIsUseDirectTexture value p = p\<lparr>isUseDirectTexture := value, directTextureBuffer := 0\<rparr>"

definition DirectTextureFrameUpdata :: "int \<Rightarrow> int \<Rightarrow> nat \<Rightarrow> normal_play \<Rightarrow> normal_play" where
  "DirectTextureFrameUpdata w h directBuffer p =
     (let p = p\<lparr>isUseDirectTexture := True,
            directTextureBuffer := (if direct_width p \<noteq> w \<or> direct_height p \<noteq> h then 0 else directTextureBuffer p),
            direct_width := w, direct_height := h\<rparr> in
      p\<lparr>directTextureBuffer := (if directTextureBuffer p = 0 then directBuffer else directTextureBuffer p),
        surf := (surf p)\<lparr>mNeedDraw := True\<rparr>\<rparr>)"

definition BaseScreen_NeedDraw :: "normal_play \<Rightarrow> bool" where
  "BaseScreen_NeedDraw p = (case loading p of Some l \<Rightarrow> NeedDraw l \<or> NeedDraw (surf p) | None \<Rightarrow> NeedDraw (surf p))"

section \<open>The shaders\<close>

text \<open>
  What \<open>DrawSelf\<close> hands to the shaders, and the point of the picture that they show at the point \<open>(u, v)\<close> of the rectangle; \<open>None\<close> is black. The
  arithmetic of the shaders is exact.
\<close>

definition keep_uniform :: "fl \<Rightarrow> normal_play \<Rightarrow> real" where
  "keep_uniform fl p = (if mKeepAspect p \<noteq> 1 then f32 fl (mKeepAspect p / m_aspect (surf p)) else 1)"

definition vTextureCoord :: "fl \<Rightarrow> normal_play \<Rightarrow> real \<times> real \<Rightarrow> real \<times> real" where
  "vTextureCoord fl p c =
     (let z = f32 fl (1 / vx (mTexScale (surf p))); q = mTexPosition (surf p) in
      ((fst c - 1 / 2) * z + 1 / 2 + vx q, (snd c - 1 / 2) * z + 1 / 2 + vy q))"

definition shown_point :: "fl \<Rightarrow> normal_play \<Rightarrow> real \<times> real \<Rightarrow> (real \<times> real) option" where
  "shown_point fl p c =
     (let (x, y) = vTextureCoord fl p c; k = keep_uniform fl p in
      if 1 < k then let y = (y - 1 / 2) * k + 1 / 2 in if y < 0 \<or> 1 < y then None else Some (x, y)
      else let x = (x - 1 / 2) / k + 1 / 2 in if x < 0 \<or> 1 < x then None else Some (x, y))"

section \<open>The picture stays in view\<close>

definition pan_ok :: "fl \<Rightarrow> normal_play \<Rightarrow> bool" where
  "pan_ok fl p \<longleftrightarrow> 1 \<le> vx (mTexScale (surf p)) \<and>
     (let (lw, lh) = pan_limits fl p (vx (mTexScale (surf p))); q = mTexPosition (surf p) in \<bar>vx q\<bar> \<le> max 0 lw \<and> \<bar>vy q\<bar> \<le> max 0 lh)"

datatype play_op = PlayPosition KSVec3 bool | PlayScale KSVec3 bool | PlayRotate KSVec3 bool | PlayReset | PlayFrame int int nat

fun play_do :: "fl \<Rightarrow> play_op \<Rightarrow> normal_play \<Rightarrow> normal_play" where
  "play_do fl (PlayPosition pos texture) p = NormalPlay_SetPosition fl pos texture p"
| "play_do fl (PlayScale scale texture) p = NormalPlay_SetScale fl scale texture p"
| "play_do fl (PlayRotate rot3 texture) p = NormalPlay_setRotate rot3 texture p"
| "play_do fl PlayReset p = NormalPlay_ResetPosition p"
| "play_do fl (PlayFrame w h b) p = DirectTextureFrameUpdata w h b p"

lemma clamp_bound: "\<bar>clamp l x\<bar> \<le> max 0 l"
  by (auto simp: clamp_def Let_def max_def abs_le_iff)

lemma vec3_sel [simp]: "vx (vec3 x y z) = x" "vy (vec3 x y z) = y" "vz (vec3 x y z) = z"
  by (simp_all add: vec3_def)

lemma SetPosition_sel [simp]:
  "mTexPosition (SetPosition pos b s) = (if b then pos else mTexPosition s)" "mPosition (SetPosition pos b s) = (if b then mPosition s else pos)"
  "mTexScale (SetPosition pos b s) = mTexScale s" "mScale (SetPosition pos b s) = mScale s" "m_aspect (SetPosition pos b s) = m_aspect s"
  "mRotate (SetPosition pos b s) = mRotate s" "Visible (SetPosition pos b s) = Visible s" "mScreenMode (SetPosition pos b s) = mScreenMode s"
  "Zoom (SetPosition pos b s) = Zoom s"
  by (simp_all add: SetPosition_def)

lemma SetScale_sel [simp]:
  "mTexScale (SetScale sc b s) = (if b then sc else mTexScale s)" "mScale (SetScale sc b s) = (if b then mScale s else sc)"
  "mTexPosition (SetScale sc b s) = mTexPosition s" "mPosition (SetScale sc b s) = mPosition s" "m_aspect (SetScale sc b s) = m_aspect s"
  "mRotate (SetScale sc b s) = mRotate s" "Visible (SetScale sc b s) = Visible s" "mScreenMode (SetScale sc b s) = mScreenMode s"
  "Zoom (SetScale sc b s) = Zoom s"
  by (simp_all add: SetScale_def)

lemma BaseScreen_SetPosition_sel [simp]:
  "surf (BaseScreen_SetPosition fl pos b p) = SetPosition pos b (surf p)" "mKeepAspect (BaseScreen_SetPosition fl pos b p) = mKeepAspect p"
  "mIsSelected (BaseScreen_SetPosition fl pos b p) = mIsSelected p" "m_radius (BaseScreen_SetPosition fl pos b p) = m_radius p"
  "mLeft (BaseScreen_SetPosition fl pos b p) = mLeft p" "mTop (BaseScreen_SetPosition fl pos b p) = mTop p"
  by (simp_all add: BaseScreen_SetPosition_def Let_def)

lemma pan_limits_cong: "m_aspect (surf p) = m_aspect (surf q) \<Longrightarrow> mKeepAspect p = mKeepAspect q \<Longrightarrow> pan_limits fl p = pan_limits fl q"
  by (simp add: pan_limits_def fun_eq_iff)

definition same_frame :: "normal_play \<Rightarrow> normal_play \<Rightarrow> bool" where
  "same_frame p q \<longleftrightarrow> m_aspect (surf p) = m_aspect (surf q) \<and> mKeepAspect p = mKeepAspect q"

lemma pan_okI:
  assumes "same_frame q p" "1 \<le> vx (mTexScale (surf q))" "mTexPosition (surf q) = clamped (pan_limits fl p (vx (mTexScale (surf q)))) pos"
  shows "pan_ok fl q"
proof -
  have "pan_limits fl q = pan_limits fl p" using assms(1) by (intro pan_limits_cong) (simp_all add: same_frame_def)
  then show ?thesis unfolding pan_ok_def assms(3) clamped_def
    using assms(2) clamp_bound by (cases "pan_limits fl p (vx (mTexScale (surf q)))") (simp only: prod.case fst_conv snd_conv vec3_sel Let_def simp_thms)
qed

lemma pan_ok_cong:
  assumes "same_frame q p" "mTexScale (surf q) = mTexScale (surf p)" "mTexPosition (surf q) = mTexPosition (surf p)"
  shows "pan_ok fl q = pan_ok fl p"
proof -
  have "pan_limits fl q = pan_limits fl p" using assms(1) by (intro pan_limits_cong) (simp_all add: same_frame_def)
  then show ?thesis unfolding pan_ok_def assms(2,3) by (simp only:)
qed

lemma play_do_same: "same_frame (play_do fl c p) p"
  by (cases c) (simp_all add: same_frame_def NormalPlay_SetPosition_def NormalPlay_SetScale_def NormalPlay_setRotate_def setRotate_def
      NormalPlay_ResetPosition_def ResetPosition_def DirectTextureFrameUpdata_def Let_def)

lemma play_do_pan:
  assumes "pan_ok fl p"
  shows "pan_ok fl (play_do fl c p)"
proof (cases c)
  case (PlayPosition pos texture)
  show ?thesis
  proof (cases texture)
    case True
    have "1 \<le> vx (mTexScale (surf p))" using assms by (simp add: pan_ok_def)
    with True show ?thesis using play_do_same [of fl c p] PlayPosition
      by (intro pan_okI [of _ p]) (simp_all add: NormalPlay_SetPosition_def GetScale_def)
  next
    case False
    then show ?thesis using assms pan_ok_cong [OF play_do_same [of fl c p]] PlayPosition by (simp add: NormalPlay_SetPosition_def)
  qed
next
  case (PlayScale scale texture)
  show ?thesis
  proof (cases "texture \<and> \<not> vx scale < 1")
    case True
    then show ?thesis using play_do_same [of fl c p] PlayScale by (intro pan_okI [of _ p]) (simp_all add: NormalPlay_SetScale_def Let_def)
  next
    case False
    then show ?thesis using assms pan_ok_cong [OF play_do_same [of fl c p]] PlayScale by (auto simp: NormalPlay_SetScale_def)
  qed
next
  case (PlayRotate rot3 texture)
  then show ?thesis using assms pan_ok_cong [OF play_do_same [of fl c p]] by (simp add: NormalPlay_setRotate_def setRotate_def)
next
  case PlayReset
  then show ?thesis by (simp add: pan_ok_def NormalPlay_ResetPosition_def ResetPosition_def split: prod.splits)
next
  case (PlayFrame w h b)
  then show ?thesis using assms pan_ok_cong [OF play_do_same [of fl c p]] by (simp add: DirectTextureFrameUpdata_def Let_def)
qed

lemma plays_pan: "pan_ok fl p \<Longrightarrow> pan_ok fl (fold (play_do fl) cs p) \<and> same_frame (fold (play_do fl) cs p) p"
proof (induction cs arbitrary: p)
  case (Cons c cs)
  then show ?case using play_do_pan play_do_same by (fastforce simp: same_frame_def)
qed (simp add: same_frame_def)

text \<open>A point of a window of width \<open>z\<close> that is moved by \<open>l\<close> stays within \<open>c\<close>, or the window is wider than that and not moved.\<close>

lemma window_bound:
  fixes u z l c :: real
  assumes "0 \<le> u" "u \<le> 1" "0 < z" "\<bar>l\<bar> \<le> max 0 ((c - z) / 2)"
  shows "if z \<le> c then \<bar>(u - 1 / 2) * z + l\<bar> \<le> c / 2 else l = 0"
proof -
  have "\<bar>u - 1 / 2\<bar> \<le> 1 / 2" using assms(1,2) by linarith
  then have "\<bar>u - 1 / 2\<bar> * z \<le> 1 / 2 * z" using assms(3) by (intro mult_right_mono) simp_all
  then have "\<bar>(u - 1 / 2) * z\<bar> \<le> z / 2" using assms(3) by (simp add: abs_mult)
  moreover have "\<bar>l\<bar> \<le> (c - z) / 2" if "z \<le> c" using assms(4) that by (simp add: max_def split: if_splits)
  moreover have "l = 0" if "\<not> z \<le> c" using assms(4) that by (simp add: max_def split: if_splits)
  ultimately have "\<bar>(u - 1 / 2) * z + l\<bar> \<le> z / 2 + (c - z) / 2" if "z \<le> c"
    using that abs_triangle_ineq [of "(u - 1 / 2) * z" l] by linarith
  moreover have "z / 2 + (c - z) / 2 = c / 2" by (simp add: field_simps)
  ultimately show ?thesis using \<open>\<not> z \<le> c \<Longrightarrow> l = 0\<close> by simp
qed

text \<open>The picture is not as high, or not as wide, as the rectangle at this zoom.\<close>

definition picture_share :: "normal_play \<Rightarrow> real" where
  "picture_share p = (if mKeepAspect p = 1 then 1
     else if m_aspect (surf p) < mKeepAspect p then m_aspect (surf p) / mKeepAspect p else mKeepAspect p / m_aspect (surf p))"

lemma abs_half: "\<bar>t\<bar> \<le> 1 / 2 \<Longrightarrow> 0 \<le> t + 1 / 2 \<and> t + 1 / 2 \<le> (1 :: real)"
  by linarith

lemma shown_point_cases:
  assumes ok: "pan_ok exact p" and k: "1 \<le> mKeepAspect p" and a: "0 < m_aspect (surf p)"
    and uv: "0 \<le> u" "u \<le> 1" "0 \<le> v" "v \<le> 1"
  shows "case shown_point exact p (u, v) of
      Some (x, y) \<Rightarrow> 0 \<le> x \<and> x \<le> 1 \<and> 0 \<le> y \<and> y \<le> 1
    | None \<Rightarrow> picture_share p < 1 / vx (mTexScale (surf p)) \<and>
        (if m_aspect (surf p) < mKeepAspect p then vy (mTexPosition (surf p)) = 0 else vx (mTexPosition (surf p)) = 0)"
proof -
  define z where "z = 1 / vx (mTexScale (surf p))"
  define q where "q = mTexPosition (surf p)"
  have s: "1 \<le> vx (mTexScale (surf p))" using ok by (simp add: pan_ok_def)
  then have z: "0 < z" "z \<le> 1" by (simp_all add: z_def)
  have L: "\<bar>vx q\<bar> \<le> max 0 (fst (pan_limits exact p (vx (mTexScale (surf p)))))" "\<bar>vy q\<bar> \<le> max 0 (snd (pan_limits exact p (vx (mTexScale (surf p)))))"
    using ok by (auto simp: pan_ok_def q_def Let_def split: prod.splits)
    define X where "X = (u - 1 / 2) * z + vx q"
  define Y where "Y = (v - 1 / 2) * z + vy q"
  have coord: "vTextureCoord exact p (u, v) = (X + 1 / 2, Y + 1 / 2)"
    by (simp add: vTextureCoord_def exact_def z_def q_def X_def Y_def Let_def)
  note W = window_bound [OF uv(1,2) z(1), of "vx q", folded X_def] window_bound [OF uv(3,4) z(1), of "vy q", folded Y_def]
  note half = abs_half [of X] abs_half [of Y]
  consider "mKeepAspect p = 1" | "mKeepAspect p \<noteq> 1" "m_aspect (surf p) < mKeepAspect p" | "mKeepAspect p \<noteq> 1" "\<not> m_aspect (surf p) < mKeepAspect p" by blast
  then show ?thesis
  proof cases
    case 1
    have lims: "pan_limits exact p (vx (mTexScale (surf p))) = ((1 - z) / 2, (1 - z) / 2)"
      using 1 by (simp add: pan_limits_def exact_def z_def Let_def)
    have l: "\<bar>vx q\<bar> \<le> max 0 ((1 - z) / 2)" "\<bar>vy q\<bar> \<le> max 0 ((1 - z) / 2)"
      using L by (simp_all only: lims fst_conv snd_conv)
    have "\<bar>X\<bar> \<le> 1 / 2" "\<bar>Y\<bar> \<le> 1 / 2" using W(1) [OF l(1)] W(2) [OF l(2)] z by simp_all
    then show ?thesis using 1 half by (simp add: shown_point_def coord keep_uniform_def)
  next
    case 2
    define k where "k = mKeepAspect p / m_aspect (surf p)"
    have ku: "keep_uniform exact p = k" using 2 by (simp add: keep_uniform_def exact_def k_def)
    have k1: "1 < k" using 2 a by (simp add: k_def)
    have lims: "pan_limits exact p (vx (mTexScale (surf p))) = ((1 - z) / 2, (1 / k - z) / 2)"
      using 2 by (simp add: pan_limits_def exact_def z_def k_def Let_def)
    have l: "\<bar>vx q\<bar> \<le> max 0 ((1 - z) / 2)" "\<bar>vy q\<bar> \<le> max 0 ((1 / k - z) / 2)"
      using L by (simp_all only: lims fst_conv snd_conv)
    have x: "\<bar>X\<bar> \<le> 1 / 2" using W(1) [OF l(1)] z by simp
    have sh: "shown_point exact p (u, v) = (let y = Y * k + 1 / 2 in
        if y < 0 \<or> 1 < y then None else Some (X + 1 / 2, y))"
      using k1 ku by (simp add: shown_point_def coord Let_def)
    have share: "picture_share p = 1 / k" using 2 by (simp add: picture_share_def k_def)
    have y: "\<bar>Y * k\<bar> \<le> 1 / 2" if "z \<le> 1 / k"
    proof -
      have "\<bar>Y\<bar> * k \<le> 1 / k / 2 * k" using W(2) [OF l(2)] that k1 by (intro mult_right_mono) simp_all
      then show ?thesis using k1 by (simp add: abs_mult)
    qed
    show ?thesis
    proof (cases "z \<le> 1 / k")
      case True
      then show ?thesis using x y half abs_half by (force simp: sh Let_def)
    next
      case False
      then show ?thesis using x W(2) [OF l(2)] 2(2) share half by (auto simp: sh Let_def z_def q_def)
    qed
  next
    case 3
    define k where "k = mKeepAspect p / m_aspect (surf p)"
    have ku: "keep_uniform exact p = k" using 3 by (simp add: keep_uniform_def exact_def k_def)
    have k1: "0 < k" "k \<le> 1" using 3 a k by (simp_all add: k_def)
    have lims: "pan_limits exact p (vx (mTexScale (surf p))) = ((k - z) / 2, (1 - z) / 2)"
      using 3 by (simp add: pan_limits_def exact_def z_def k_def Let_def)
    have l: "\<bar>vx q\<bar> \<le> max 0 ((k - z) / 2)" "\<bar>vy q\<bar> \<le> max 0 ((1 - z) / 2)"
      using L by (simp_all only: lims fst_conv snd_conv)
    have y: "\<bar>Y\<bar> \<le> 1 / 2" using W(2) [OF l(2)] z by simp
    have sh: "shown_point exact p (u, v) = (let x = X / k + 1 / 2 in
        if x < 0 \<or> 1 < x then None else Some (x, Y + 1 / 2))"
      using k1 ku by (simp add: shown_point_def coord Let_def)
    have share: "picture_share p = k" using 3 by (simp add: picture_share_def k_def)
    have x: "\<bar>X / k\<bar> \<le> 1 / 2" if "z \<le> k"
      using W(1) [OF l(1)] that k1 by (simp add: abs_divide divide_le_eq)
    show ?thesis
    proof (cases "z \<le> k")
      case True
      have "0 \<le> X / k + 1 / 2 \<and> X / k + 1 / 2 \<le> 1" by (rule abs_half [OF x [OF True]])
      then show ?thesis using y half by (simp add: sh Let_def)
    next
      case False
      then show ?thesis using y W(1) [OF l(1)] 3(2) share half by (auto simp: sh Let_def z_def q_def)
    qed
  qed
qed

text \<open>
  C17: computed exactly, however the user moves and zooms the picture of a video, every point of the rectangle shows a point of the picture, or is black because the picture does not
  fill the rectangle at this zoom; then the picture is in the middle. This holds for every sequence of moves, zooms, turns, resets and frames, with or without
  a fixed aspect ratio.
\<close>

theorem pan_shows_picture:
  assumes "pan_ok exact p" "1 \<le> mKeepAspect p" "0 < m_aspect (surf p)" "0 \<le> u" "u \<le> 1" "0 \<le> v" "v \<le> 1"
  shows "let p' = fold (play_do exact) cs p in
    case shown_point exact p' (u, v) of
      Some (x, y) \<Rightarrow> 0 \<le> x \<and> x \<le> 1 \<and> 0 \<le> y \<and> y \<le> 1
    | None \<Rightarrow> picture_share p < 1 / vx (mTexScale (surf p')) \<and>
        (if m_aspect (surf p) < mKeepAspect p then vy (mTexPosition (surf p')) = 0 else vx (mTexPosition (surf p')) = 0)"
proof -
  define p' where "p' = fold (play_do exact) cs p"
  have "pan_ok exact p'" and "same_frame p' p" using plays_pan [OF assms(1)] by (simp_all add: p'_def)
  then have same: "mKeepAspect p' = mKeepAspect p" "m_aspect (surf p') = m_aspect (surf p)" by (simp_all add: same_frame_def)
  then have "picture_share p' = picture_share p" by (simp add: picture_share_def)
  then show ?thesis using shown_point_cases [OF \<open>pan_ok exact p'\<close>, of u v] assms(2-7) same
    by (simp only: p'_def [symmetric] Let_def)
qed

definition demo_play :: normal_play where
  "demo_play = BaseScreen_new \<lparr>surf = demo_surface\<lparr>mScreenMode := SCRN_ONENORMAL\<rparr>, m_radius = 1, mLeft = 0, mTop = 0, mZoom = 1, mLeftOffset = 0, mTopOffset = 0,
     mKeepAspect = 3, mIsSelected = False, mIsOwnAnimation = False, mShowInfo = False, mShowOSD = False, InfoTexID = 0, loading = None, info = None,
     mSelectedTex = 0, mNormalTex = 0, mLineBuffer = 0, mLinebufferSize = 0, isUseDirectTexture = False, directTextureBuffer = 0, direct_width = 0,
     direct_height = 0\<rparr>"

lemma demo_play_sel: "mKeepAspect demo_play = 3" "m_aspect (surf demo_play) = 2" "mTexScale (surf demo_play) = vec3 1 1 1" "mTexPosition (surf demo_play) = vec3 0 0 0"
  by (simp_all add: demo_play_def BaseScreen_new_def ParametricSurface_new_def demo_surface_def)

definition demo_moved :: normal_play where
  "demo_moved = fold (play_do exact) [PlayScale (vec3 4 4 1) True, PlayPosition (vec3 9 (- 9) 0) True] demo_play"

theorem pan_shows_picture_witness:
  "case shown_point exact demo_moved (1, 0) of
      Some (x, y) \<Rightarrow> 0 \<le> x \<and> x \<le> 1 \<and> 0 \<le> y \<and> y \<le> 1
    | None \<Rightarrow> picture_share demo_play < 1 / vx (mTexScale (surf demo_moved)) \<and> vy (mTexPosition (surf demo_moved)) = 0"
proof -
  have "pan_ok exact demo_play" by (simp add: pan_ok_def pan_limits_def demo_play_sel exact_def Let_def)
  from pan_shows_picture [OF this, of 1 0 "[PlayScale (vec3 4 4 1) True, PlayPosition (vec3 9 (- 9) 0) True]", folded demo_moved_def]
  show ?thesis by (auto simp: demo_play_sel Let_def split: option.splits)
qed

end
