(* ===== verification/SplitScreen.thy ===== *)
theory SplitScreen
  imports NormalPlay
begin

text \<open>
  \<^verbatim>\<open>gles/GLES/NormalScreen.cpp\<close>: the wall of thirty-six videos, shown a page at a time in one of seven layouts. The state has the videos, the layout, the page
  and the selected video. The two hooks for animations are function pointers that the application sets: they are fields of the state. The thirty-six rectangles for the
  recording sign, which are never drawn, and drawing are not modelled.
\<close>

section \<open>Layouts\<close>

text \<open>A layout divides a grid of twelve by twelve cells. The four numbers are column, row, width and height.\<close>

record split_position =
  sp_x :: int
  sp_y :: int
  sp_w :: int
  sp_h :: int

definition sp :: "int \<Rightarrow> int \<Rightarrow> int \<Rightarrow> int \<Rightarrow> split_position" where
  "sp x y w h = \<lparr>sp_x = x, sp_y = y, sp_w = w, sp_h = h\<rparr>"

definition SPLIT_1 :: "split_position list" where
  "SPLIT_1 = [sp 0 0 12 12]"

definition SPLIT_2 :: "split_position list" where
  "SPLIT_2 = [sp 0 0 6 6, sp 6 0 6 6, sp 0 6 6 6, sp 6 6 6 6]"

definition SPLIT_3 :: "split_position list" where
  "SPLIT_3 = [sp 0 0 8 8, sp 8 0 4 4, sp 8 4 4 4, sp 0 8 4 4, sp 4 8 4 4, sp 8 8 4 4]"

definition SPLIT_4 :: "split_position list" where
  "SPLIT_4 = [sp 0 0 9 9, sp 9 0 3 3, sp 9 3 3 3, sp 9 6 3 3, sp 0 9 3 3, sp 3 9 3 3, sp 6 9 3 3, sp 9 9 3 3]"

definition SPLIT_5 :: "split_position list" where
  "SPLIT_5 = [sp 0 0 4 4, sp 4 0 4 4, sp 8 0 4 4, sp 0 4 4 4, sp 4 4 4 4, sp 8 4 4 4, sp 0 8 4 4, sp 4 8 4 4, sp 8 8 4 4]"

definition SPLIT_6 :: "split_position list" where
  "SPLIT_6 = [sp 0 0 3 3, sp 3 0 3 3, sp 6 0 3 3, sp 9 0 3 3, sp 0 3 3 3, sp 3 3 6 6, sp 9 3 3 3, sp 0 6 3 3, sp 9 6 3 3, sp 0 9 3 3, sp 3 9 3 3,
     sp 6 9 3 3, sp 9 9 3 3]"

definition SPLIT_7 :: "split_position list" where
  "SPLIT_7 = [sp 0 0 3 3, sp 3 0 3 3, sp 6 0 3 3, sp 9 0 3 3, sp 0 3 3 3, sp 3 3 3 3, sp 6 3 3 3, sp 9 3 3 3, sp 0 6 3 3, sp 3 6 3 3, sp 6 6 3 3, sp 9 6 3 3,
     sp 0 9 3 3, sp 3 9 3 3, sp 6 9 3 3, sp 9 9 3 3]"

definition SplitMode :: "split_position list list" where
  "SplitMode = [SPLIT_1, SPLIT_2, SPLIT_3, SPLIT_4, SPLIT_5, SPLIT_6, SPLIT_7]"

lemmas split_tables = SplitMode_def SPLIT_1_def SPLIT_2_def SPLIT_3_def SPLIT_4_def SPLIT_5_def SPLIT_6_def SPLIT_7_def

definition split_mode :: "int \<Rightarrow> split_position list outcome" where
  "split_mode m = (if 0 \<le> m \<and> m < int (length SplitMode) then Ret (SplitMode ! nat m) else UB OobRead)"

section \<open>State\<close>

record normal_screen =
  mVideo :: "normal_play list"
  mCurrentMode :: int
  mCurrentPage :: int
  mSelectIndex :: int
  screen_aspect :: real
  allPage :: int
  isSpliting :: bool
  ObjectHidden :: "(normal_play \<Rightarrow> normal_play) option"
  ObjectWillVisible :: "(KSVec3 \<Rightarrow> KSVec3 \<Rightarrow> normal_play \<Rightarrow> normal_play) option"

definition STATIC_SCREEN_COUNT :: nat where "STATIC_SCREEN_COUNT = 36"

definition set_visible :: "bool \<Rightarrow> normal_play \<Rightarrow> normal_play" where
  "set_visible b v = v\<lparr>surf := (surf v)\<lparr>Visible := b\<rparr>\<rparr>"

definition video_upd :: "int \<Rightarrow> (normal_play \<Rightarrow> normal_play) \<Rightarrow> normal_screen \<Rightarrow> normal_screen outcome" where
  "video_upd k f s = (if 0 \<le> k \<and> k < int (length (mVideo s)) then Ret (s\<lparr>mVideo := (mVideo s)[nat k := f (mVideo s ! nat k)]\<rparr>) else UB OobRead)"

definition video_get :: "int \<Rightarrow> (normal_play \<Rightarrow> 'a) \<Rightarrow> normal_screen \<Rightarrow> 'a outcome" where
  "video_get k f s = (if 0 \<le> k \<and> k < int (length (mVideo s)) then Ret (f (mVideo s ! nat k)) else UB OobRead)"

text \<open>The loops over the videos below \<open>allPage\<close>.\<close>

definition all_videos :: "(normal_play \<Rightarrow> normal_play) \<Rightarrow> normal_screen \<Rightarrow> normal_screen outcome" where
  "all_videos f s =
     (if int (length (mVideo s)) < allPage s then UB OobRead
      else Ret (s\<lparr>mVideo := map f (take (nat (allPage s)) (mVideo s)) @ drop (nat (allPage s)) (mVideo s)\<rparr>))"

text \<open>The loops over the places of a page: \<open>k\<close> is the video of the next place. They stop behind the last video.\<close>

fun for_page :: "('t \<Rightarrow> normal_play \<Rightarrow> normal_play) \<Rightarrow> 't list \<Rightarrow> int \<Rightarrow> normal_screen \<Rightarrow> normal_screen outcome" where
  "for_page f [] k s = Ret s"
| "for_page f (t # ts) k s = (if 35 < k then Ret s else bnd (video_upd k (f t) s) (for_page f ts (k + 1)))"

section \<open>Pages\<close>

text \<open>The middle of a place and the scale of a video in it.\<close>

definition split_pos :: "fl \<Rightarrow> real \<Rightarrow> split_position \<Rightarrow> real \<times> real" where
  "split_pos fl aspect t =
     (let r = f32 fl; lposunit = r (1 / 6);
          lx = r (r (- lposunit * of_int (sp_w t)) / 2); ly = r (r (lposunit * of_int (sp_h t)) / 2);
          absx = r (- 1 + r (of_int (sp_x t) * lposunit)); absy = r (1 - r (of_int (sp_y t) * lposunit)) in
      (r (r (absx - lx) * aspect), r (absy - ly)))"

definition split_scale :: "fl \<Rightarrow> split_position \<Rightarrow> KSVec3" where
  "split_scale fl t = vec3 (f32 fl (of_int (sp_w t) / 6)) (f32 fl (of_int (sp_h t) / 6)) 1"

definition place_video ::
  "fl \<Rightarrow> real \<Rightarrow> bool \<Rightarrow> (KSVec3 \<Rightarrow> KSVec3 \<Rightarrow> normal_play \<Rightarrow> normal_play) option \<Rightarrow> split_position \<Rightarrow> normal_play \<Rightarrow> normal_play" where
  "place_video fl aspect ani hook t v =
     (let v = set_visible True v; (x, y) = split_pos fl aspect t; lpos = vec3 x y (vz (GetPosition False (surf v))); lscale = split_scale fl t in
      case (if ani then hook else None) of
        Some f \<Rightarrow> f lpos lscale v
      | None \<Rightarrow> NormalPlay_SetPosition fl lpos False (NormalPlay_SetScale fl lscale False v))"

definition SetSplitPosition :: "fl \<Rightarrow> bool \<Rightarrow> normal_screen \<Rightarrow> normal_screen outcome" where
  "SetSplitPosition fl ani s =
     bnd (split_mode (mCurrentMode s)) (\<lambda>ts.
     bnd (for_page (place_video fl (screen_aspect s) ani (ObjectWillVisible s)) ts (mCurrentPage s * int (length ts)) s) (\<lambda>s.
     Ret (s\<lparr>isSpliting := False\<rparr>)))"

definition hide_video :: "bool \<Rightarrow> (normal_play \<Rightarrow> normal_play) option \<Rightarrow> normal_play \<Rightarrow> normal_play" where
  "hide_video ani hook v = (case (if ani then hook else None) of Some f \<Rightarrow> f v | None \<Rightarrow> set_visible False v)"

definition hide_page :: "bool \<Rightarrow> normal_screen \<Rightarrow> normal_screen outcome" where
  "hide_page ani s =
     bnd (split_mode (mCurrentMode s)) (\<lambda>ts. for_page (\<lambda>t. hide_video ani (ObjectHidden s)) ts (mCurrentPage s * int (length ts)) s)"

definition GetAllPage :: "normal_screen \<Rightarrow> int outcome" where
  "GetAllPage s =
     bnd (split_mode (mCurrentMode s)) (\<lambda>ts. let c = int (length ts) in
     Ret (c_div (allPage s) c + (if c_mod (allPage s) c \<noteq> 0 then 1 else 0)))"

definition SetPage :: "fl \<Rightarrow> int \<Rightarrow> bool \<Rightarrow> normal_screen \<Rightarrow> normal_screen outcome" where
  "SetPage fl index ani s =
     bnd (GetAllPage s) (\<lambda>pc.
     if index < 0 \<or> pc \<le> index then Ret s
     else bnd (hide_page ani s) (\<lambda>s.
       let s = s\<lparr>mCurrentPage := index\<rparr> in
       if ani then Ret s else SetSplitPosition fl False s))"

definition SetSplit :: "fl \<Rightarrow> int \<Rightarrow> bool \<Rightarrow> normal_screen \<Rightarrow> normal_screen outcome" where
  "SetSplit fl index ani s =
     bnd (hide_page ani s) (\<lambda>s.
     let s = s\<lparr>mCurrentMode := index\<rparr> in
     if ani then Ret s
     else bnd (split_mode index) (\<lambda>ts.
       let page = c_div (mSelectIndex s) (int (length ts)) in SetPage fl page False (s\<lparr>mCurrentPage := page\<rparr>)))"

text \<open>The end of the animation that hides video \<open>k\<close>, the one in place \<open>index\<close>.\<close>

definition OnPageAniEnd :: "fl \<Rightarrow> int \<Rightarrow> nat \<Rightarrow> normal_screen \<Rightarrow> normal_screen outcome" where
  "OnPageAniEnd fl k index s =
     bnd (video_upd k (set_visible False) s) (\<lambda>s. if index = 0 then SetSplitPosition fl True s else Ret s)"

definition SetAllPage :: "int \<Rightarrow> normal_screen \<Rightarrow> normal_screen" where
  "SetAllPage n s = s\<lparr>allPage := n\<rparr>"

definition NormalScreen_ResetPosition :: "fl \<Rightarrow> normal_screen \<Rightarrow> normal_screen outcome" where
  "NormalScreen_ResetPosition fl s =
     bnd (all_videos NormalPlay_ResetPosition s) (\<lambda>s.
     bnd (SetSplit fl (mCurrentMode s) False s) (\<lambda>s.
     all_videos (NormalPlay_setRotate (vec3 0 0 0) False) s))"

section \<open>Selection\<close>

text \<open>The first place that has the cell, its right and lower border included.\<close>

definition in_place :: "int \<Rightarrow> int \<Rightarrow> split_position \<Rightarrow> bool" where
  "in_place px py t \<longleftrightarrow> sp_x t \<le> px \<and> px \<le> sp_x t + sp_w t \<and> sp_y t \<le> py \<and> py \<le> sp_y t + sp_h t"

fun find_place :: "int \<Rightarrow> int \<Rightarrow> split_position list \<Rightarrow> nat option" where
  "find_place px py [] = None"
| "find_place px py (t # ts) = (if in_place px py t then Some 0 else map_option Suc (find_place px py ts))"

definition SetSelected_at :: "int \<Rightarrow> int \<Rightarrow> int \<Rightarrow> int \<Rightarrow> normal_screen \<Rightarrow> normal_screen outcome" where
  "SetSelected_at x y w h s =
     (let wunit = c_div w 12; hunit = c_div h 12 in
      if wunit = 0 \<or> hunit = 0 then UB DivByZero
      else
        let px = c_div x wunit; py = c_div y hunit in
        bnd (all_videos (BaseScreen_SetSelected False) s) (\<lambda>s.
        bnd (split_mode (mCurrentMode s)) (\<lambda>ts.
        case find_place px py ts of
          None \<Rightarrow> Ret s
        | Some i \<Rightarrow>
            bnd (split_mode (mCurrentPage s)) (\<lambda>ps.
            let k = mCurrentPage s * int (length ps) + int i in
            bnd (video_upd k (BaseScreen_SetSelected True) s) (\<lambda>s. Ret (s\<lparr>mSelectIndex := k\<rparr>))))))"

definition SetSelected :: "bool \<Rightarrow> int \<Rightarrow> normal_screen \<Rightarrow> normal_screen outcome" where
  "SetSelected value index s =
     (let one = mCurrentMode s = 0 in
      bnd (all_videos (\<lambda>v. let v = BaseScreen_SetSelected False v in if one then set_visible False v else v) s) (\<lambda>s.
      bnd (video_upd index (\<lambda>v. let v = BaseScreen_SetSelected value v in if one then set_visible True v else v) s) (\<lambda>s.
      Ret (s\<lparr>mSelectIndex := index\<rparr>))))"

definition NormalScreen_GetSelected :: "int \<Rightarrow> normal_screen \<Rightarrow> bool outcome" where
  "NormalScreen_GetSelected scn s = (if scn < 0 \<or> 35 < scn then Ret False else video_get scn mIsSelected s)"

definition GetVisibility :: "int \<Rightarrow> normal_screen \<Rightarrow> bool outcome" where
  "GetVisibility index s = video_get index (\<lambda>v. Visible (surf v)) s"

section \<open>Calls passed on to one video\<close>

definition NormalScreen_SetPosition :: "fl \<Rightarrow> KSVec3 \<Rightarrow> bool \<Rightarrow> int \<Rightarrow> normal_screen \<Rightarrow> normal_screen outcome" where
  "NormalScreen_SetPosition fl pos texture scn s = (if scn < 0 \<or> 35 < scn then Ret s else video_upd scn (NormalPlay_SetPosition fl pos texture) s)"

definition NormalScreen_SetScale :: "fl \<Rightarrow> KSVec3 \<Rightarrow> bool \<Rightarrow> int \<Rightarrow> normal_screen \<Rightarrow> normal_screen outcome" where
  "NormalScreen_SetScale fl scale texture scn s = (if scn < 0 \<or> 35 < scn then Ret s else video_upd scn (NormalPlay_SetScale fl scale texture) s)"

definition NormalScreen_setRotate :: "KSVec3 \<Rightarrow> bool \<Rightarrow> int \<Rightarrow> normal_screen \<Rightarrow> normal_screen outcome" where
  "NormalScreen_setRotate rot3 texture scn s = (if scn < 0 \<or> 35 < scn then Ret s else video_upd scn (NormalPlay_setRotate rot3 texture) s)"

definition NormalScreen_GetPosition :: "bool \<Rightarrow> int \<Rightarrow> normal_screen \<Rightarrow> KSVec3 outcome" where
  "NormalScreen_GetPosition texture scn s = (if scn < 0 \<or> 35 < scn then Ret (vec3 0 0 0) else video_get scn (\<lambda>v. GetPosition texture (surf v)) s)"

definition NormalScreen_GetScale :: "bool \<Rightarrow> int \<Rightarrow> normal_screen \<Rightarrow> KSVec3 outcome" where
  "NormalScreen_GetScale texture scn s = (if scn < 0 \<or> 35 < scn then Ret (vec3 0 0 0) else video_get scn (\<lambda>v. GetScale texture (surf v)) s)"

definition NormalScreen_GetRotate :: "bool \<Rightarrow> int \<Rightarrow> normal_screen \<Rightarrow> KSVec3 outcome" where
  "NormalScreen_GetRotate texture scn s = (if scn < 0 \<or> 35 < scn then Ret (vec3 0 0 0) else video_get scn (\<lambda>v. GetRotate texture (surf v)) s)"

definition NormalScreen_CleanTexture :: "int \<Rightarrow> normal_screen \<Rightarrow> normal_screen outcome" where
  "NormalScreen_CleanTexture scn s =
     (if scn < 0 \<or> 35 < scn then Ret s else video_upd scn (\<lambda>v. v\<lparr>surf := CleanTexture (surf v)\<rparr>) s)"

text \<open>The range is tested after the video was looked at.\<close>

definition NormalScreen_LoadTexture :: "u32 \<Rightarrow> int \<Rightarrow> int \<Rightarrow> int \<Rightarrow> normal_screen \<Rightarrow> (bool \<times> normal_screen) outcome" where
  "NormalScreen_LoadTexture fresh w h scn s =
     bnd (video_get scn mIsOwnAnimation s) (\<lambda>own.
     if own \<or> scn < 0 \<or> 35 < scn then Ret (False, s)
     else
       bnd (video_get scn (\<lambda>v. fst (LoadTexture fresh w h scn (surf v))) s) (\<lambda>ret.
       bnd (video_upd scn (\<lambda>v. let v = SetIsUseDirectTexture False v in v\<lparr>surf := snd (LoadTexture fresh w h scn (surf v))\<rparr>) s) (\<lambda>s.
       Ret (ret, s))))"

definition NormalScreen_SetTexture :: "u32 \<Rightarrow> int \<Rightarrow> normal_screen \<Rightarrow> normal_screen outcome" where
  "NormalScreen_SetTexture t scn s =
     (if scn < 0 \<or> 35 < scn then Ret s else video_upd scn (\<lambda>v. SetIsUseDirectTexture False (v\<lparr>surf := SetTexture t (surf v)\<rparr>)) s)"

definition NormalScreen_SetKeepAspect :: "real \<Rightarrow> int \<Rightarrow> normal_screen \<Rightarrow> normal_screen outcome" where
  "NormalScreen_SetKeepAspect aspect scn s =
     (if scn < 0 \<or> 35 < scn \<or> aspect < 1 then Ret s else video_upd scn (SetKeepAspect aspect) s)"

definition NormalScreen_SetIsAnimation :: "int \<Rightarrow> bool \<Rightarrow> normal_screen \<Rightarrow> normal_screen outcome" where
  "NormalScreen_SetIsAnimation index animation s = (if index < 0 \<or> 35 < index then Ret s else video_upd index (SetIsAnimation animation) s)"

definition NormalScreen_PutInfo :: "fl \<Rightarrow> u32 \<Rightarrow> int \<Rightarrow> normal_screen \<Rightarrow> normal_screen outcome" where
  "NormalScreen_PutInfo fl t scn s = video_upd scn (PutInfo fl t) s"

definition NormalScreen_ShowInfo :: "bool \<Rightarrow> int \<Rightarrow> normal_screen \<Rightarrow> normal_screen outcome" where
  "NormalScreen_ShowInfo value index s = video_upd index (ShowInfo value) s"

definition NormalScreen_releaseInfo :: "int \<Rightarrow> normal_screen \<Rightarrow> normal_screen outcome" where
  "NormalScreen_releaseInfo index s = video_upd index releaseInfo s"

definition NormalScreen_DirectTextureFrameUpdata :: "int \<Rightarrow> int \<Rightarrow> nat \<Rightarrow> int \<Rightarrow> normal_screen \<Rightarrow> normal_screen outcome" where
  "NormalScreen_DirectTextureFrameUpdata w h b scn s = video_upd scn (DirectTextureFrameUpdata w h b) s"

definition NormalScreen_SetNoVideoTexture :: "u32 \<Rightarrow> normal_screen \<Rightarrow> normal_screen outcome" where
  "NormalScreen_SetNoVideoTexture t s = all_videos (\<lambda>v. v\<lparr>surf := SetNoVideoTexture t (surf v)\<rparr>) s"

definition NormalScreen_SetBorderColor :: "u32 \<Rightarrow> u32 \<Rightarrow> normal_screen \<Rightarrow> normal_screen outcome" where
  "NormalScreen_SetBorderColor a b s = all_videos (SetBorderColor a b) s"

definition NormalScreen_NeedDraw :: "normal_screen \<Rightarrow> bool outcome" where
  "NormalScreen_NeedDraw s =
     (if int (length (mVideo s)) < allPage s then UB OobRead else Ret (list_ex BaseScreen_NeedDraw (take (nat (allPage s)) (mVideo s))))"

text \<open>The constructor: \<open>vs\<close> are the thirty-six rectangles that \<open>NormalPlay_new\<close> makes with radius 1 in the middle of the screen.\<close>

definition NormalScreen_new :: "fl \<Rightarrow> real \<Rightarrow> normal_play list \<Rightarrow> normal_screen \<Rightarrow> normal_screen outcome" where
  "NormalScreen_new fl aspect vs s =
     bnd (split_mode 0) (\<lambda>ts.
     bnd (SetSplitPosition fl False (s\<lparr>allPage := int STATIC_SCREEN_COUNT, mCurrentMode := 0, mCurrentPage := 0,
       mVideo := map (\<lambda>(i, v). if int (length ts) - 1 < int i then set_visible False v else v) (enumerate 0 vs), screen_aspect := aspect\<rparr>)) (\<lambda>s.
     bnd (video_upd 0 (BaseScreen_SetSelected True) s) (\<lambda>s. Ret (s\<lparr>mSelectIndex := 0\<rparr>))))"

section \<open>Loops\<close>

lemma video_upd_ok: "0 \<le> k \<Longrightarrow> k < int (length (mVideo s)) \<Longrightarrow> video_upd k f s = Ret (s\<lparr>mVideo := (mVideo s)[nat k := f (mVideo s ! nat k)]\<rparr>)"
  by (simp add: video_upd_def)

text \<open>What a loop over a page does to each video.\<close>

definition page_map :: "('t \<Rightarrow> normal_play \<Rightarrow> normal_play) \<Rightarrow> 't list \<Rightarrow> int \<Rightarrow> normal_play list \<Rightarrow> normal_play list" where
  "page_map f ts k vs = map (\<lambda>i. if k \<le> int i \<and> int i < k + int (length ts) then f (ts ! nat (int i - k)) (vs ! i) else vs ! i) [0..<length vs]"

lemma page_map_nth: "i < length vs \<Longrightarrow>
    page_map f ts k vs ! i = (if k \<le> int i \<and> int i < k + int (length ts) then f (ts ! nat (int i - k)) (vs ! i) else vs ! i)"
  by (simp add: page_map_def)

lemma length_page_map [simp]: "length (page_map f ts k vs) = length vs"
  by (simp add: page_map_def)

lemma for_page_eq:
  assumes "0 \<le> k" "length (mVideo s) = 36"
  shows "for_page f ts k s = Ret (s\<lparr>mVideo := page_map f ts k (mVideo s)\<rparr>)"
  using assms
proof (induction ts arbitrary: k s)
  case Nil
  have "page_map f [] k (mVideo s) = mVideo s" by (rule nth_equalityI) (auto simp: page_map_nth)
  then show ?case by simp
next
  case (Cons t ts)
  show ?case
  proof (cases "35 < k")
    case True
    have "page_map f (t # ts) k (mVideo s) = mVideo s"
      by (rule nth_equalityI) (use Cons.prems(2) True in \<open>auto simp: page_map_nth\<close>)
    then show ?thesis using True by simp
  next
    case False
    define vs where "vs = (mVideo s)[nat k := f t (mVideo s ! nat k)]"
    have "page_map f ts (k + 1) vs = page_map f (t # ts) k (mVideo s)"
    proof (rule nth_equalityI)
      fix i assume "i < length (page_map f ts (k + 1) vs)"
      then have i: "i < length (mVideo s)" "i < length vs" by (simp_all add: vs_def)
      have "nat (int i - k) = Suc (nat (int i - (k + 1)))" if "k < int i" using that by linarith
      then show "page_map f ts (k + 1) vs ! i = page_map f (t # ts) k (mVideo s) ! i"
        using i Cons.prems(1) by (auto simp: page_map_nth vs_def nth_list_update)
    qed (simp add: vs_def)
    then show ?thesis using Cons.IH [of "k + 1" "s\<lparr>mVideo := vs\<rparr>"] Cons.prems False by (simp add: video_upd_ok vs_def)
  qed
qed

lemma all_videos_eq: "length (mVideo s) = 36 \<Longrightarrow> allPage s = 36 \<Longrightarrow> all_videos f s = Ret (s\<lparr>mVideo := map f (mVideo s)\<rparr>)"
  by (simp add: all_videos_def)

section \<open>One page is shown\<close>

definition places :: "int \<Rightarrow> nat" where
  "places m = length (SplitMode ! nat m)"

definition pages :: "int \<Rightarrow> int" where
  "pages m = c_div 36 (int (places m)) + (if c_mod 36 (int (places m)) \<noteq> 0 then 1 else 0)"

lemma mode_cases: "0 \<le> m \<Longrightarrow> m < 7 \<Longrightarrow> m \<in> {0, 1, 2, 3, 4, 5, 6}" for m :: int
  by auto

lemma places_simps [simp]: "places 0 = 1" "places 1 = 4" "places 2 = 6" "places 3 = 8" "places 4 = 9" "places 5 = 13" "places 6 = 16"
  by (simp_all add: places_def split_tables)

lemma pages_simps [simp]: "pages 0 = 36" "pages 1 = 9" "pages 2 = 6" "pages 3 = 5" "pages 4 = 4" "pages 5 = 3" "pages 6 = 3"
  by (simp_all add: pages_def c_div_def c_mod_def)

lemma length_SplitMode: "length SplitMode = 7"
  by (simp add: SplitMode_def)

lemma split_mode_ok: "0 \<le> m \<Longrightarrow> m < 7 \<Longrightarrow> split_mode m = Ret (SplitMode ! nat m)"
  by (simp add: split_mode_def length_SplitMode)

lemma places_pos: "0 \<le> m \<Longrightarrow> m < 7 \<Longrightarrow> 0 < places m"
  using mode_cases [of m] by auto

text \<open>A video lies on the page that its number divided by the number of places gives.\<close>

lemma page_of_video:
  assumes "0 \<le> m" "m < 7" "0 \<le> k" "k < 36"
  shows "0 \<le> c_div k (int (places m))" "c_div k (int (places m)) < pages m"
    "c_div k (int (places m)) * int (places m) \<le> k" "k < c_div k (int (places m)) * int (places m) + int (places m)"
proof -
  have c: "0 < int (places m)" using places_pos [OF assms(1,2)] by simp
  have d: "c_div k (int (places m)) = k div int (places m)" using assms(3) c by (rule c_div_nonneg)
  show "0 \<le> c_div k (int (places m))" using d assms(3) c by (simp add: pos_imp_zdiv_nonneg_iff)
  note dm = div_mult_mod_eq [of k "int (places m)"] pos_mod_bound [OF c, of k] pos_mod_sign [OF c, of k]
  show "c_div k (int (places m)) * int (places m) \<le> k" unfolding d using dm by linarith
  show "k < c_div k (int (places m)) * int (places m) + int (places m)" unfolding d using dm by linarith
  have "k \<le> 35" using assms(4) by simp
  then have "k div int (places m) \<le> 35 div int (places m)" using c by (rule zdiv_mono1)
  moreover have "35 div int (places m) < pages m" using mode_cases [OF assms(1,2)] by auto
  ultimately show "c_div k (int (places m)) < pages m" using d by linarith
qed

definition on_page :: "normal_screen \<Rightarrow> nat \<Rightarrow> bool" where
  "on_page s k \<longleftrightarrow> mCurrentPage s * int (places (mCurrentMode s)) \<le> int k \<and> int k < mCurrentPage s * int (places (mCurrentMode s)) + int (places (mCurrentMode s))"

definition screen_ok :: "normal_screen \<Rightarrow> bool" where
  "screen_ok s \<longleftrightarrow> length (mVideo s) = 36 \<and> allPage s = 36 \<and> 0 \<le> mCurrentMode s \<and> mCurrentMode s < 7 \<and> 0 \<le> mCurrentPage s \<and> mCurrentPage s < pages (mCurrentMode s)
     \<and> 0 \<le> mSelectIndex s \<and> mSelectIndex s < 36"

definition page_shown :: "normal_screen \<Rightarrow> bool" where
  "page_shown s \<longleftrightarrow> screen_ok s \<and> (\<forall>k<36. Visible (surf (mVideo s ! k)) = on_page s k)"

lemma set_visible_sel [simp]: "Visible (surf (set_visible b v)) = b"
  by (simp add: set_visible_def)

lemma place_video_visible [simp]: "Visible (surf (place_video fl a False hook t v)) = True"
  by (simp add: place_video_def NormalPlay_SetPosition_def NormalPlay_SetScale_def Let_def split: prod.splits)

lemma hide_video_visible [simp]: "Visible (surf (hide_video False hook v)) = False"
  by (simp add: hide_video_def)

lemma hide_page_eq:
  assumes "screen_ok s"
  shows "hide_page ani s = Ret (s\<lparr>mVideo := page_map (\<lambda>t. hide_video ani (ObjectHidden s)) (SplitMode ! nat (mCurrentMode s))
      (mCurrentPage s * int (places (mCurrentMode s))) (mVideo s)\<rparr>)"
  using assms by (simp add: hide_page_def screen_ok_def split_mode_ok for_page_eq places_def)

lemma SetSplitPosition_eq:
  assumes "screen_ok s"
  shows "SetSplitPosition fl ani s = Ret (s\<lparr>mVideo := page_map (place_video fl (screen_aspect s) ani (ObjectWillVisible s)) (SplitMode ! nat (mCurrentMode s))
      (mCurrentPage s * int (places (mCurrentMode s))) (mVideo s), isSpliting := False\<rparr>)"
  using assms by (simp add: SetSplitPosition_def screen_ok_def split_mode_ok for_page_eq places_def)

text \<open>Showing the current page makes its videos visible and leaves the others alone.\<close>

lemma SetSplitPosition_shows:
  assumes "screen_ok s"
  obtains s' where "SetSplitPosition fl False s = Ret s'" "screen_ok s'" "mCurrentMode s' = mCurrentMode s" "mCurrentPage s' = mCurrentPage s" "mSelectIndex s' = mSelectIndex s"
    "\<forall>k<36. Visible (surf (mVideo s' ! k)) = (on_page s k \<or> Visible (surf (mVideo s ! k)))"
proof (rule that [OF SetSplitPosition_eq [OF assms, of fl False]])
qed (use assms in \<open>auto simp: screen_ok_def page_map_nth on_page_def places_def\<close>)

lemma hide_page_hides:
  assumes "screen_ok s"
  obtains s' where "hide_page False s = Ret s'" "screen_ok s'" "mCurrentMode s' = mCurrentMode s" "mCurrentPage s' = mCurrentPage s" "mSelectIndex s' = mSelectIndex s"
    "\<forall>k<36. Visible (surf (mVideo s' ! k)) = (\<not> on_page s k \<and> Visible (surf (mVideo s ! k)))"
proof (rule that [OF hide_page_eq [OF assms, of False]])
qed (use assms in \<open>auto simp: screen_ok_def page_map_nth on_page_def places_def\<close>)

lemma GetAllPage_eq: "screen_ok s \<Longrightarrow> GetAllPage s = Ret (pages (mCurrentMode s))"
  by (simp add: GetAllPage_def screen_ok_def split_mode_ok pages_def places_def Let_def)

text \<open>Turning to a page: what is visible besides the old page stays visible.\<close>

lemma SetPage_shows:
  assumes ok: "screen_ok s" and i: "0 \<le> index" "index < pages (mCurrentMode s)"
  obtains s' where "SetPage fl index False s = Ret s'" "screen_ok s'" "mCurrentMode s' = mCurrentMode s" "mCurrentPage s' = index" "mSelectIndex s' = mSelectIndex s"
    "\<forall>k<36. Visible (surf (mVideo s' ! k)) = (on_page s' k \<or> \<not> on_page s k \<and> Visible (surf (mVideo s ! k)))"
proof -
  obtain a where a: "hide_page False s = Ret a" "screen_ok a" "mCurrentMode a = mCurrentMode s" "mCurrentPage a = mCurrentPage s" "mSelectIndex a = mSelectIndex s"
    "\<forall>k<36. Visible (surf (mVideo a ! k)) = (\<not> on_page s k \<and> Visible (surf (mVideo s ! k)))" by (rule hide_page_hides [OF ok])
  define b where "b = a\<lparr>mCurrentPage := index\<rparr>"
  have b: "screen_ok b" "mVideo b = mVideo a" using a(2,3) i by (simp_all add: b_def screen_ok_def)
  obtain c where c: "SetSplitPosition fl False b = Ret c" "screen_ok c" "mCurrentMode c = mCurrentMode b" "mCurrentPage c = mCurrentPage b" "mSelectIndex c = mSelectIndex b"
    "\<forall>k<36. Visible (surf (mVideo c ! k)) = (on_page b k \<or> Visible (surf (mVideo b ! k)))" by (rule SetSplitPosition_shows [OF b(1)])
  show thesis
  proof (rule that [of c])
    show "SetPage fl index False s = Ret c" using i a(1) c(1) by (simp add: SetPage_def GetAllPage_eq [OF ok] b_def)
    show "\<forall>k<36. Visible (surf (mVideo c ! k)) = (on_page c k \<or> \<not> on_page s k \<and> Visible (surf (mVideo s ! k)))"
      using c(3,4,6) a(6) b(2) by (simp add: on_page_def)
  qed (use c a in \<open>simp_all add: b_def\<close>)
qed

text \<open>Choosing a layout: the page with the selected video is shown, and what was visible besides the old page stays visible.\<close>

lemma SetSplit_shows:
  assumes ok: "screen_ok s" and m: "0 \<le> m" "m < 7"
  obtains s' where "SetSplit fl m False s = Ret s'" "screen_ok s'" "mCurrentMode s' = m" "mCurrentPage s' = c_div (mSelectIndex s) (int (places m))"
    "mSelectIndex s' = mSelectIndex s" "on_page s' (nat (mSelectIndex s'))"
    "\<forall>k<36. Visible (surf (mVideo s' ! k)) = (on_page s' k \<or> \<not> on_page s k \<and> Visible (surf (mVideo s ! k)))"
proof -
  obtain a where a: "hide_page False s = Ret a" "screen_ok a" "mCurrentMode a = mCurrentMode s" "mCurrentPage a = mCurrentPage s" "mSelectIndex a = mSelectIndex s"
    "\<forall>k<36. Visible (surf (mVideo a ! k)) = (\<not> on_page s k \<and> Visible (surf (mVideo s ! k)))" by (rule hide_page_hides [OF ok])
  define q where "q = c_div (mSelectIndex s) (int (places m))"
  have sel: "0 \<le> mSelectIndex s" "mSelectIndex s < 36" using ok by (simp_all add: screen_ok_def)
  note pg = page_of_video [OF m sel, folded q_def]
  define b where "b = a\<lparr>mCurrentMode := m, mCurrentPage := q\<rparr>"
  have b: "screen_ok b" "mVideo b = mVideo a" "mCurrentMode b = m" "mCurrentPage b = q" "mSelectIndex b = mSelectIndex s"
    using a(2,5) m pg by (simp_all add: b_def screen_ok_def)
  obtain c where c: "SetPage fl q False b = Ret c" "screen_ok c" "mCurrentMode c = mCurrentMode b" "mCurrentPage c = q" "mSelectIndex c = mSelectIndex b"
    "\<forall>k<36. Visible (surf (mVideo c ! k)) = (on_page c k \<or> \<not> on_page b k \<and> Visible (surf (mVideo b ! k)))"
    by (rule SetPage_shows [OF b(1) pg(1)]) (use pg(2) b(3) in auto)
  have same: "on_page c k = on_page b k" for k using c(3,4) b(4) by (simp add: on_page_def)
  show thesis
  proof (rule that [of c])
    show "SetSplit fl m False s = Ret c"
      using a(1,5) c(1) by (simp add: SetSplit_def split_mode_ok [OF m] places_def q_def b_def Let_def)
    show "on_page c (nat (mSelectIndex c))" using pg c(3-5) b sel by (simp add: on_page_def)
    show "\<forall>k<36. Visible (surf (mVideo c ! k)) = (on_page c k \<or> \<not> on_page s k \<and> Visible (surf (mVideo s ! k)))"
      using c(6) a(6) b(2) same by auto
  qed (use c b in \<open>simp_all add: q_def\<close>)
qed

lemma page_shown_SetSplit:
  assumes "page_shown s" "0 \<le> m" "m < 7"
  obtains s' where "SetSplit fl m False s = Ret s'" "page_shown s'" "mCurrentMode s' = m" "mSelectIndex s' = mSelectIndex s"
    "Visible (surf (mVideo s' ! nat (mSelectIndex s')))"
proof -
  have ok: "screen_ok s" using assms(1) by (simp add: page_shown_def)
  obtain s' where s': "SetSplit fl m False s = Ret s'" "screen_ok s'" "mCurrentMode s' = m" "mCurrentPage s' = c_div (mSelectIndex s) (int (places m))"
    "mSelectIndex s' = mSelectIndex s" "on_page s' (nat (mSelectIndex s'))"
    "\<forall>k<36. Visible (surf (mVideo s' ! k)) = (on_page s' k \<or> \<not> on_page s k \<and> Visible (surf (mVideo s ! k)))"
    by (rule SetSplit_shows [OF ok assms(2,3)])
  have "page_shown s'" using s'(2,7) assms(1) by (auto simp: page_shown_def)
  moreover have "nat (mSelectIndex s') < 36" using s'(2) by (auto simp: screen_ok_def)
  ultimately show thesis using that s' by blast
qed

lemma page_shown_SetPage:
  assumes "page_shown s"
  obtains s' where "SetPage fl index False s = Ret s'" "page_shown s'" "mCurrentMode s' = mCurrentMode s" "mSelectIndex s' = mSelectIndex s"
proof -
  have ok: "screen_ok s" using assms by (simp add: page_shown_def)
  show thesis
  proof (cases "0 \<le> index \<and> index < pages (mCurrentMode s)")
    case True
    obtain s' where s': "SetPage fl index False s = Ret s'" "screen_ok s'" "mCurrentMode s' = mCurrentMode s" "mCurrentPage s' = index" "mSelectIndex s' = mSelectIndex s"
      "\<forall>k<36. Visible (surf (mVideo s' ! k)) = (on_page s' k \<or> \<not> on_page s k \<and> Visible (surf (mVideo s ! k)))"
      using True by (elim conjE) (rule SetPage_shows [OF ok])
    have "page_shown s'" using s'(2,6) assms by (auto simp: page_shown_def)
    then show thesis using that s' by blast
  next
    case False
    then have "SetPage fl index False s = Ret s" by (auto simp: SetPage_def GetAllPage_eq [OF ok])
    then show thesis using that assms by blast
  qed
qed

text \<open>Calls that leave the flag \<open>Visible\<close> of every video alone.\<close>

lemma page_shown_videos:
  assumes "page_shown s" "length vs = 36" "\<forall>k<36. Visible (surf (vs ! k)) = Visible (surf (mVideo s ! k))"
  shows "page_shown (s\<lparr>mVideo := vs\<rparr>)"
  using assms by (simp add: page_shown_def screen_ok_def on_page_def)

lemma page_shown_upd:
  assumes "page_shown s" "\<And>v. Visible (surf (f v)) = Visible (surf v)"
  shows "if 0 \<le> k \<and> k < 36 then \<exists>s'. video_upd k f s = Ret s' \<and> page_shown s' \<and> mCurrentMode s' = mCurrentMode s \<and> mCurrentPage s' = mCurrentPage s
      \<and> mVideo s' = (mVideo s)[nat k := f (mVideo s ! nat k)] else video_upd k f s = UB OobRead"
proof -
  have len: "length (mVideo s) = 36" using assms(1) by (simp add: page_shown_def screen_ok_def)
  have "page_shown (s\<lparr>mVideo := (mVideo s)[nat k := f (mVideo s ! nat k)]\<rparr>)" if "0 \<le> k" "k < 36"
    by (rule page_shown_videos [OF assms(1)]) (use len that assms(2) in \<open>auto simp: nth_list_update\<close>)
  then show ?thesis using len by (auto simp: video_upd_def)
qed

lemma page_shown_all:
  assumes "page_shown s" "\<And>v. Visible (surf (f v)) = Visible (surf v)"
  shows "all_videos f s = Ret (s\<lparr>mVideo := map f (mVideo s)\<rparr>) \<and> page_shown (s\<lparr>mVideo := map f (mVideo s)\<rparr>)"
proof -
  have len: "length (mVideo s) = 36" "allPage s = 36" using assms(1) by (simp_all add: page_shown_def screen_ok_def)
  have "page_shown (s\<lparr>mVideo := map f (mVideo s)\<rparr>)"
    by (rule page_shown_videos [OF assms(1)]) (use len assms(2) in auto)
  then show ?thesis using all_videos_eq [OF len] by simp
qed

lemma page_shown_select: "page_shown s \<Longrightarrow> 0 \<le> k \<Longrightarrow> k < 36 \<Longrightarrow> page_shown (s\<lparr>mSelectIndex := k\<rparr>)"
  by (simp add: page_shown_def screen_ok_def on_page_def)

lemma Visible_calls [simp]:
  "Visible (surf (NormalPlay_SetPosition fl pos b v)) = Visible (surf v)" "Visible (surf (NormalPlay_SetScale fl sc b v)) = Visible (surf v)"
  "Visible (surf (NormalPlay_setRotate rot3 b v)) = Visible (surf v)" "Visible (surf (NormalPlay_ResetPosition v)) = Visible (surf v)"
  "Visible (surf (BaseScreen_SetSelected value v)) = Visible (surf v)" "Visible (CleanTexture t) = Visible t"
  "Visible (snd (LoadTexture fresh w h scn t)) = Visible t" "surf (SetIsUseDirectTexture value v) = surf v" "Visible (SetTexture n t) = Visible t"
  by (simp_all add: NormalPlay_SetPosition_def NormalPlay_SetScale_def NormalPlay_setRotate_def setRotate_def NormalPlay_ResetPosition_def ResetPosition_def
      BaseScreen_SetSelected_def CleanTexture_def LoadTexture_def emit_def SetIsUseDirectTexture_def SetTexture_def Let_def)

section \<open>What the user sees\<close>

datatype wall_op =
    WallSplit int
  | WallPage int
  | WallReset
  | WallTap int int int int
  | WallPosition KSVec3 bool int
  | WallScale KSVec3 bool int
  | WallRotate KSVec3 bool int
  | WallLoad u32 int int int
  | WallTexture u32 int
  | WallClean int

fun wall_do :: "fl \<Rightarrow> wall_op \<Rightarrow> normal_screen \<Rightarrow> normal_screen outcome" where
  "wall_do fl (WallSplit m) s = SetSplit fl m False s"
| "wall_do fl (WallPage i) s = SetPage fl i False s"
| "wall_do fl WallReset s = NormalScreen_ResetPosition fl s"
| "wall_do fl (WallTap x y w h) s = SetSelected_at x y w h s"
| "wall_do fl (WallPosition pos b scn) s = NormalScreen_SetPosition fl pos b scn s"
| "wall_do fl (WallScale sc b scn) s = NormalScreen_SetScale fl sc b scn s"
| "wall_do fl (WallRotate rot3 b scn) s = NormalScreen_setRotate rot3 b scn s"
| "wall_do fl (WallLoad fresh w h scn) s = bnd (NormalScreen_LoadTexture fresh w h scn s) (\<lambda>(ret, s). Ret s)"
| "wall_do fl (WallTexture t scn) s = NormalScreen_SetTexture t scn s"
| "wall_do fl (WallClean scn) s = NormalScreen_CleanTexture scn s"

fun wall_run :: "fl \<Rightarrow> wall_op list \<Rightarrow> normal_screen \<Rightarrow> normal_screen outcome" where
  "wall_run fl [] s = Ret s"
| "wall_run fl (c # cs) s = bnd (wall_do fl c s) (wall_run fl cs)"

text \<open>The calls that can end in undefined behaviour: a layout that does not exist, a picture for a video that does not exist (this call looks at the video first), and a touch.\<close>

fun wall_legal :: "wall_op \<Rightarrow> bool" where
  "wall_legal (WallSplit m) \<longleftrightarrow> 0 \<le> m \<and> m < 7"
| "wall_legal (WallLoad fresh w h scn) \<longleftrightarrow> 0 \<le> scn \<and> scn < 36"
| "wall_legal _ \<longleftrightarrow> True"

fun is_tap :: "wall_op \<Rightarrow> bool" where
  "is_tap (WallTap x y w h) \<longleftrightarrow> True"
| "is_tap _ \<longleftrightarrow> False"

lemma tap_step:
  assumes "page_shown s"
  shows "(\<exists>s'. SetSelected_at x y w h s = Ret s' \<and> page_shown s') \<or> (\<exists>e. SetSelected_at x y w h s = UB e)"
proof -
  define a where "a = s\<lparr>mVideo := map (BaseScreen_SetSelected False) (mVideo s)\<rparr>"
  have a: "all_videos (BaseScreen_SetSelected False) s = Ret a" "page_shown a" using page_shown_all [OF assms, of "BaseScreen_SetSelected False"] by (simp_all add: a_def)
  have m: "split_mode (mCurrentMode a) = Ret (SplitMode ! nat (mCurrentMode a))" using a(2) by (simp add: page_shown_def screen_ok_def split_mode_ok)
  have pick: "(\<exists>s'. bnd (video_upd k (BaseScreen_SetSelected True) a) (\<lambda>s. Ret (s\<lparr>mSelectIndex := k\<rparr>)) = Ret s' \<and> page_shown s') \<or>
      (\<exists>e. bnd (video_upd k (BaseScreen_SetSelected True) a) (\<lambda>s. Ret (s\<lparr>mSelectIndex := k\<rparr>)) = UB e)" for k
    using page_shown_upd [OF a(2), of "BaseScreen_SetSelected True" k] page_shown_select by (auto split: if_splits)
  show ?thesis
  proof (cases "c_div w 12 = 0 \<or> c_div h 12 = 0")
    case False
    then show ?thesis using a m pick
      by (cases "find_place (c_div x (c_div w 12)) (c_div y (c_div h 12)) (SplitMode ! nat (mCurrentMode a))")
        (auto simp: SetSelected_at_def split_mode_def Let_def)
  qed (auto simp: SetSelected_at_def)
qed

lemma wall_step:
  assumes "page_shown s" "wall_legal c"
  shows "(\<exists>s'. wall_do fl c s = Ret s' \<and> page_shown s') \<or> (is_tap c \<and> (\<exists>e. wall_do fl c s = UB e))"
proof -
  have one: "\<exists>s'. video_upd scn f s = Ret s' \<and> page_shown s'" if "0 \<le> scn" "scn \<le> 35" "\<And>v. Visible (surf (f v)) = Visible (surf v)" for scn f
    using page_shown_upd [OF assms(1) that(3), of scn] that(1,2) by auto
  show ?thesis
  proof (cases c)
    case (WallSplit m)
    then show ?thesis using assms(2) by (auto intro: page_shown_SetSplit [OF assms(1), of m fl])
  next
    case (WallPage i)
    then show ?thesis by (auto intro: page_shown_SetPage [OF assms(1), of fl i])
  next
    case WallReset
    define a where "a = s\<lparr>mVideo := map NormalPlay_ResetPosition (mVideo s)\<rparr>"
    have a: "all_videos NormalPlay_ResetPosition s = Ret a" "page_shown a" using page_shown_all [OF assms(1), of NormalPlay_ResetPosition] by (simp_all add: a_def)
    then have m: "0 \<le> mCurrentMode a" "mCurrentMode a < 7" by (simp_all add: page_shown_def screen_ok_def)
    obtain b where b: "SetSplit fl (mCurrentMode a) False a = Ret b" "page_shown b" by (rule page_shown_SetSplit [OF a(2) m])
    show ?thesis using a b page_shown_all [OF b(2), of "NormalPlay_setRotate (vec3 0 0 0) False"] WallReset by (simp add: NormalScreen_ResetPosition_def)
  next
    case (WallTap x y w h)
    then show ?thesis using tap_step [OF assms(1), of x y w h] by auto
  next
    case (WallLoad fresh w h scn)
    have len: "length (mVideo s) = 36" using assms(1) by (simp add: page_shown_def screen_ok_def)
    obtain s' where s': "video_upd scn (\<lambda>v. (SetIsUseDirectTexture False v)\<lparr>surf := snd (LoadTexture fresh w h scn (surf v))\<rparr>) s = Ret s'" "page_shown s'"
      using one [of scn "\<lambda>v. (SetIsUseDirectTexture False v)\<lparr>surf := snd (LoadTexture fresh w h scn (surf v))\<rparr>"] WallLoad assms(2) by auto
    show ?thesis using s' len WallLoad assms by (auto simp: NormalScreen_LoadTexture_def video_get_def Let_def)
  qed (use assms(1) one in \<open>auto simp: NormalScreen_SetPosition_def NormalScreen_SetScale_def NormalScreen_setRotate_def NormalScreen_SetTexture_def
      NormalScreen_CleanTexture_def not_less\<close>)
qed

lemma wall_illegal: "page_shown s \<Longrightarrow> \<not> wall_legal c \<Longrightarrow> wall_do fl c s = UB OobRead"
  by (cases c) (auto simp: SetSplit_def hide_page_eq page_shown_def split_mode_def length_SplitMode NormalScreen_LoadTexture_def video_get_def screen_ok_def)

text \<open>
  C12: on a wall of thirty-six videos, whatever layouts, pages (without animations), moves, zooms, turns, pictures and resets are asked for, the videos that can be seen are those of one page of the
  current layout. Undefined behaviour happens only in a run that asks for a layout that does not exist, loads a picture for a video that does not exist, or selects a video by a touch.
\<close>

theorem wall_shows_a_page:
  assumes "page_shown s"
  shows "case wall_run fl cs s of Ret s' \<Rightarrow> page_shown s' | UB e \<Rightarrow> list_ex (\<lambda>c. is_tap c \<or> \<not> wall_legal c) cs | Blocked \<Rightarrow> False"
  using assms
proof (induction cs arbitrary: s)
  case (Cons c cs)
  show ?case
  proof (cases "wall_legal c")
    case True
    from wall_step [OF Cons.prems True, of fl] consider s' where "wall_do fl c s = Ret s'" "page_shown s'" | e where "is_tap c" "wall_do fl c s = UB e" by auto
    then show ?thesis
    proof cases
      case 1
      then show ?thesis using Cons.IH [OF 1(2)] by (cases "wall_run fl cs s'") simp_all
    qed simp
  qed (simp add: wall_illegal [OF Cons.prems])
qed simp

section \<open>Touches\<close>

text \<open>The cell that a touch lies in, and the place that has the cell.\<close>

definition covers :: "int \<Rightarrow> int \<Rightarrow> split_position \<Rightarrow> bool" where
  "covers a b t \<longleftrightarrow> sp_x t \<le> a \<and> a < sp_x t + sp_w t \<and> sp_y t \<le> b \<and> b < sp_y t + sp_h t"

definition next_to :: "int \<Rightarrow> int \<Rightarrow> split_position \<Rightarrow> bool" where
  "next_to a b t \<longleftrightarrow> (a = sp_x t + sp_w t \<and> sp_y t \<le> b \<and> b \<le> sp_y t + sp_h t) \<or> (b = sp_y t + sp_h t \<and> sp_x t \<le> a \<and> a \<le> sp_x t + sp_w t)"

lemma in_place_cases: "in_place a b t \<Longrightarrow> covers a b t \<or> next_to a b t"
  by (auto simp: in_place_def covers_def next_to_def)

lemma find_place_first:
  assumes "j < length ts" "in_place a b (ts ! j)"
  shows "\<exists>i\<le>j. find_place a b ts = Some i \<and> in_place a b (ts ! i) \<and> (\<forall>l<i. \<not> in_place a b (ts ! l))"
  using assms
proof (induction ts arbitrary: j)
  case (Cons t ts)
  show ?case
  proof (cases "in_place a b t")
    case False
    then obtain l where j: "j = Suc l" "l < length ts" "in_place a b (ts ! l)" using Cons.prems by (cases j) auto
    from Cons.IH [OF j(2,3)] obtain i where i: "i \<le> l" "find_place a b ts = Some i" "in_place a b (ts ! i)" "\<forall>l<i. \<not> in_place a b (ts ! l)" by blast
    then show ?thesis using False j(1) by (intro exI [of _ "Suc i"]) (auto simp: less_Suc_eq_0_disj)
  qed auto
qed simp

text \<open>
  In the layout of one video, selecting a video by its number shows it but does not turn to its page: the next change of page leaves it on the screen together with
  the new one.
\<close>

theorem single_view_leftover:
  assumes "page_shown s" "mCurrentMode s = 0" "0 \<le> k" "k < 36" "0 \<le> q" "q < 36" "k \<noteq> mCurrentPage s"
  shows "\<exists>s'. bnd (SetSelected True k s) (SetPage fl q False) = Ret s' \<and> {i. i < 36 \<and> Visible (surf (mVideo s' ! i))} = {nat k, nat q}"
proof -
  have ok: "screen_ok s" and len: "length (mVideo s) = 36" "allPage s = 36" using assms(1) by (simp_all add: page_shown_def screen_ok_def)
  define a where "a = s\<lparr>mVideo := (map (\<lambda>v. set_visible False (BaseScreen_SetSelected False v)) (mVideo s))
      [nat k := set_visible True (BaseScreen_SetSelected True (set_visible False (BaseScreen_SetSelected False (mVideo s ! nat k))))], mSelectIndex := k\<rparr>"
  have sel: "SetSelected True k s = Ret a"
    using len assms(2-4) by (simp add: SetSelected_def all_videos_eq video_upd_def a_def Let_def)
  have a: "screen_ok a" "mCurrentMode a = 0" "mCurrentPage a = mCurrentPage s" using ok assms(2-4) by (simp_all add: a_def screen_ok_def)
  have vis: "Visible (surf (mVideo a ! i)) = (i = nat k)" if "i < 36" for i
    using that len assms(3,4) by (auto simp: a_def nth_list_update)
  have "q < pages (mCurrentMode a)" using a(2) assms(6) by simp
  then obtain s' where s': "SetPage fl q False a = Ret s'" "screen_ok s'" "mCurrentMode s' = mCurrentMode a" "mCurrentPage s' = q" "mSelectIndex s' = mSelectIndex a"
    "\<forall>j<36. Visible (surf (mVideo s' ! j)) = (on_page s' j \<or> \<not> on_page a j \<and> Visible (surf (mVideo a ! j)))"
    by (rule SetPage_shows [OF a(1) assms(5)])
  have "{i. i < 36 \<and> Visible (surf (mVideo s' ! i))} = {nat k, nat q}"
    using s'(3,4,6) vis a(2,3) assms(3-7) by (auto simp: on_page_def)
  then show ?thesis using sel s'(1) by simp
qed

section \<open>Where the videos are\<close>

lemma tables_tile: "list_all (\<lambda>ts. list_all (\<lambda>a. list_all (\<lambda>b. length (filter (covers a b) ts) = 1) [0..11]) [0..11]) SplitMode"
  by code_simp

lemma tile_unique:
  assumes "0 \<le> m" "m < 7" "0 \<le> a" "a < 12" "0 \<le> b" "b < 12"
  shows "\<exists>!j. j < places m \<and> covers a b (SplitMode ! nat m ! j)"
proof -
  have m: "SplitMode ! nat m \<in> set SplitMode" using assms(1,2) by (intro nth_mem) (simp add: length_SplitMode)
  have "list_all (\<lambda>a. list_all (\<lambda>b. length (filter (covers a b) (SplitMode ! nat m)) = 1) [0..11]) [0..11]"
    by (rule bspec [OF tables_tile [unfolded list_all_iff [of _ SplitMode]] m])
  then have "length (filter (covers a b) (SplitMode ! nat m)) = 1" using assms by (simp add: list_all_iff)
  then have "card {j. j < places m \<and> covers a b (SplitMode ! nat m ! j)} = 1" by (simp add: length_filter_conv_card places_def)
  then obtain i where eq: "{j. j < places m \<and> covers a b (SplitMode ! nat m ! j)} = {i}" by (rule card_1_singletonE)
  show ?thesis
  proof (rule ex1I)
    have "i \<in> {j. j < places m \<and> covers a b (SplitMode ! nat m ! j)}" unfolding eq by simp
    then show "i < places m \<and> covers a b (SplitMode ! nat m ! i)" by blast
  next
    fix j assume "j < places m \<and> covers a b (SplitMode ! nat m ! j)"
    then have "j \<in> {j. j < places m \<and> covers a b (SplitMode ! nat m ! j)}" by blast
    then show "j = i" unfolding eq by simp
  qed
qed

lemma sizes_nonneg: "list_all (\<lambda>ts. list_all (\<lambda>t. 0 \<le> sp_w t \<and> 0 \<le> sp_h t) ts) SplitMode"
  by code_simp

lemma found_place:
  assumes "0 \<le> m" "m < 7" "0 \<le> a" "a < 12" "0 \<le> b" "b < 12" "j < places m" "covers a b (SplitMode ! nat m ! j)"
  shows "\<exists>i\<le>j. find_place a b (SplitMode ! nat m) = Some i \<and> (i = j \<longleftrightarrow> (\<forall>l<j. \<not> next_to a b (SplitMode ! nat m ! l)))"
proof -
  define ts where "ts = SplitMode ! nat m"
  have j: "j < length ts" "in_place a b (ts ! j)" using assms(7,8) by (simp_all add: ts_def places_def in_place_def covers_def)
  obtain i where i: "i \<le> j" "find_place a b ts = Some i" "in_place a b (ts ! i)" "\<forall>l<i. \<not> in_place a b (ts ! l)"
    using find_place_first [OF j] by blast
  have "ts \<in> set SplitMode" using assms(1,2) by (simp add: ts_def length_SplitMode)
  then have nonneg: "0 \<le> sp_w (ts ! l)" "0 \<le> sp_h (ts ! l)" if "l < length ts" for l
    using that sizes_nonneg by (auto simp: list_all_iff)
  have "i = j \<longleftrightarrow> (\<forall>l<j. \<not> next_to a b (ts ! l))"
  proof
    assume "\<forall>l<j. \<not> next_to a b (ts ! l)"
    then show "i = j" using in_place_cases [OF i(3)] i(1) tile_unique [OF assms(1-6)] assms(7,8)
      by (metis le_neq_implies_less less_trans ts_def)
  next
    assume "i = j"
    moreover have "next_to a b (ts ! l) \<Longrightarrow> in_place a b (ts ! l)" if "l < length ts" for l
      using nonneg [OF that] by (auto simp: next_to_def in_place_def)
    ultimately show "\<forall>l<j. \<not> next_to a b (ts ! l)" using i(4) j(1) by (meson less_trans)
  qed
  then show ?thesis using i(1,2) by (auto simp: ts_def)
qed

text \<open>The video that a touch selects: the lookup by the page instead of the layout is only right on two pages, and a wrong place is never made good by a wrong page.\<close>

lemma tap_number:
  assumes "0 \<le> m" "m < 7" "0 \<le> p" "p < 7" "p < pages m" "i \<le> j" "j < places m" "p * int (places m) + int j < 36"
    "p * int (places p) + int i = p * int (places m) + int j"
  shows "i = j \<and> (p = 0 \<or> p = m)"
  using mode_cases [OF assms(1,2)] mode_cases [OF assms(3,4)] assms(5-9) by auto

text \<open>
  C21: which touches select the video under the finger. The finger lies in a cell of the grid, the cell belongs to one place, and a video of the current page is in that place. The touch selects this video and
  no other exactly when the page is the first one or has the number of the layout (the number of places is looked up by the page and not by the layout), and no earlier place of the layout ends
  just before the cell (the test takes the cell behind the border for a part of the place). In all other cases another video is selected or a table is read behind its end.
\<close>

theorem tap_selects:
  assumes "page_shown s" "12 \<le> w" "12 \<le> h" "a = c_div x (c_div w 12)" "b = c_div y (c_div h 12)" "0 \<le> a" "a < 12" "0 \<le> b" "b < 12"
    and "j < places (mCurrentMode s)" "covers a b (SplitMode ! nat (mCurrentMode s) ! j)"
    and "k = mCurrentPage s * int (places (mCurrentMode s)) + int j" "k < 36"
  shows "(\<exists>s'. SetSelected_at x y w h s = Ret s' \<and> mSelectIndex s' = k \<and> (\<forall>l<36. mIsSelected (mVideo s' ! l) = (l = nat k)))
    \<longleftrightarrow> (mCurrentPage s = 0 \<or> mCurrentPage s = mCurrentMode s) \<and> (\<forall>i<j. \<not> next_to a b (SplitMode ! nat (mCurrentMode s) ! i))"
proof -
  define p where "p = mCurrentPage s"
  define ts where "ts = SplitMode ! nat (mCurrentMode s)"
  define v where "v = s\<lparr>mVideo := map (BaseScreen_SetSelected False) (mVideo s)\<rparr>"
  have v: "all_videos (BaseScreen_SetSelected False) s = Ret v" "mCurrentMode v = mCurrentMode s" "mCurrentPage v = p"
    using page_shown_all [OF assms(1), of "BaseScreen_SetSelected False"] by (simp_all add: v_def p_def)
  have m: "0 \<le> mCurrentMode s" "mCurrentMode s < 7" "0 \<le> p" "p < pages (mCurrentMode s)" and len: "length (mVideo s) = 36"
    using assms(1) by (simp_all add: page_shown_def screen_ok_def p_def)
  obtain i where i: "i \<le> j" "find_place a b ts = Some i" "i = j \<longleftrightarrow> (\<forall>l<j. \<not> next_to a b (ts ! l))"
    using found_place [OF m(1,2) assms(6-11)] by (auto simp: ts_def)
  have unit: "c_div w 12 \<noteq> 0" "c_div h 12 \<noteq> 0" using assms(2,3) by (simp_all add: c_div_nonneg)
  have tap: "SetSelected_at x y w h s = bnd (split_mode p) (\<lambda>ps. let k = p * int (length ps) + int i in
      bnd (video_upd k (BaseScreen_SetSelected True) v) (\<lambda>s. Ret (s\<lparr>mSelectIndex := k\<rparr>)))"
    using unit assms(4,5) v i(2) m by (simp add: SetSelected_at_def split_mode_ok ts_def Let_def)
  have "(\<exists>s'. SetSelected_at x y w h s = Ret s' \<and> mSelectIndex s' = k \<and> (\<forall>l<36. mIsSelected (mVideo s' ! l) = (l = nat k))) \<longleftrightarrow> (p = 0 \<or> p = mCurrentMode s) \<and> i = j"
  proof
    assume same: "(p = 0 \<or> p = mCurrentMode s) \<and> i = j"
    then have small: "p < 7" and eq: "p * int (length (SplitMode ! nat p)) + int i = k" using m assms(12) by (auto simp: places_def p_def)
    have "0 \<le> k" using m(3) assms(12) by (simp add: p_def)
    then show "\<exists>s'. SetSelected_at x y w h s = Ret s' \<and> mSelectIndex s' = k \<and> (\<forall>l<36. mIsSelected (mVideo s' ! l) = (l = nat k))"
      using assms(13) len unfolding tap split_mode_ok [OF m(3) small] bnd_simps eq Let_def
      by (auto simp: video_upd_def v_def BaseScreen_SetSelected_def nth_list_update)
  next
    assume "\<exists>s'. SetSelected_at x y w h s = Ret s' \<and> mSelectIndex s' = k \<and> (\<forall>l<36. mIsSelected (mVideo s' ! l) = (l = nat k))"
    then obtain s' where s': "SetSelected_at x y w h s = Ret s'" "mSelectIndex s' = k" by blast
    have small: "p < 7" using s'(1) m(3) unfolding tap by (cases "p < 7") (auto simp: split_mode_def length_SplitMode)
    then have "p * int (places p) + int i = k"
      using s' unfolding tap split_mode_ok [OF m(3) small] by (auto simp: video_upd_def places_def Let_def split: if_splits)
    then show "(p = 0 \<or> p = mCurrentMode s) \<and> i = j"
      using tap_number [OF m(1-3) small m(4) i(1) assms(10)] assms(12,13) by (auto simp: p_def)
  qed
  then show ?thesis using i(3) by (simp add: p_def ts_def)
qed

text \<open>The point of the screen at which the corner \<open>(u, w)\<close> of a video is drawn, or a point between the corners, before the projection.\<close>

definition screen_point :: "normal_play \<Rightarrow> real \<Rightarrow> real \<Rightarrow> nat \<Rightarrow> real" where
  "screen_point v u w = (let e = NormalPlay_Evaluate exact v 0 0 (u, w) in
     transform (point (vx e) (vy e) (vz e) 1) (modelViewMatrix (updateSurfaceTransform exact (surf v))))"

definition plain_video :: "real \<Rightarrow> normal_play \<Rightarrow> bool" where
  "plain_video aspect v \<longleftrightarrow> m_radius v = 1 \<and> mLeft v = 0 \<and> mTop v = 0 \<and> mRotate (surf v) = vec3 0 0 0 \<and> m_aspect (surf v) = aspect \<and>
     mScreenMode (surf v) = SCRN_ONENORMAL"

lemma transform_scaled:
  "i < 4 \<Longrightarrow> transform (point x y z 1) (ksScale exact (ksMatrixMultiply exact ksMatrixLoadIdentity ksMatrixLoadIdentity) a b c) i = point (x * a) (y * b) (z * c) 1 i"
  by (auto simp: transform_def ksScale_def ksMatrixMultiply_exact ksMatrixLoadIdentity_def point_def less_Suc_eq numeral_eq_Suc)

lemma transform_moved:
  "j < 4 \<Longrightarrow> transform (point x y z 1) (ksTranslate exact (ksTranslate exact ksMatrixLoadIdentity 0 0 d) a b c) j = point (x + a) (y + b) (z + c + d) 1 j"
  by (auto simp: transform_def translation_eq point_def less_Suc_eq numeral_eq_Suc)

lemma modelView_plain:
  assumes "mRotate s = vec3 0 0 0" "mScreenMode s = SCRN_ONENORMAL" "j < 4"
  shows "transform (point x y z 1) (modelViewMatrix (updateSurfaceTransform exact s)) j =
    point (x * vx (mScale s) + vx (mPosition s)) (y * vy (mScale s) + vy (mPosition s)) (z * vz (mScale s) + vz (mPosition s) + Zoom s) 1 j"
proof -
  have "modelViewMatrix (updateSurfaceTransform exact s) =
      ksMatrixMultiply exact (ksScale exact (ksMatrixMultiply exact ksMatrixLoadIdentity ksMatrixLoadIdentity) (vx (mScale s)) (vy (mScale s)) (vz (mScale s)))
       (ksTranslate exact (ksTranslate exact ksMatrixLoadIdentity 0 0 (Zoom s)) (vx (mPosition s)) (vy (mPosition s)) (vz (mPosition s)))"
    using assms(1,2) by (simp add: updateSurfaceTransform_def emit_def Let_def)
  then show ?thesis
    by (simp only: transform_multiply transform_cong [OF transform_scaled] transform_moved [OF assms(3)])
qed

lemma place_video_sel [simp]:
  "mScale (surf (place_video fl a False hook t v)) = split_scale fl t"
  "mPosition (surf (place_video fl a False hook t v)) = vec3 (fst (split_pos fl a t)) (snd (split_pos fl a t)) (vz (mPosition (surf v)))"
  "mRotate (surf (place_video fl a False hook t v)) = mRotate (surf v)" "mScreenMode (surf (place_video fl a False hook t v)) = mScreenMode (surf v)"
  "m_aspect (surf (place_video fl a False hook t v)) = m_aspect (surf v)" "m_radius (place_video fl a False hook t v) = m_radius v"
  "mLeft (place_video fl a False hook t v) = mLeft v" "mTop (place_video fl a False hook t v) = mTop v"
  by (simp_all add: place_video_def NormalPlay_SetPosition_def NormalPlay_SetScale_def set_visible_def GetPosition_def Let_def split: prod.splits)

lemma placed_point:
  assumes "plain_video aspect v"
  shows "screen_point (place_video exact aspect False hook t v) u w 0 = aspect * (- 1 + (of_int (sp_x t) + of_int (sp_w t) * u) / 6)"
    and "screen_point (place_video exact aspect False hook t v) u w 1 = 1 - (of_int (sp_y t) + of_int (sp_h t) * (1 - w)) / 6"
  using assms
  by (simp_all add: screen_point_def plain_video_def modelView_plain Let_def, simp_all add: NormalPlay_Evaluate_def split_pos_def split_scale_def point_def Let_def)
    (simp_all add: field_simps)

text \<open>
  C11: in exact arithmetic: in every layout each cell of the grid of twelve by twelve belongs to exactly one place, and laying out a page without animation puts each of its videos, as the constructor made
  it and not turned, exactly on its place: a
  fraction \<open>u\<close> of the width and \<open>w\<close> of the height of a video is drawn at that fraction of the place, on a screen that reaches from \<open>-aspect\<close> to \<open>aspect\<close> and
  from \<open>-1\<close> to 1.
\<close>

theorem split_tiles_screen:
  assumes "screen_ok s" "list_all (plain_video (screen_aspect s)) (mVideo s)"
  shows "(\<forall>a b. 0 \<le> a \<and> a < 12 \<and> 0 \<le> b \<and> b < 12 \<longrightarrow> (\<exists>!j. j < places (mCurrentMode s) \<and> covers a b (SplitMode ! nat (mCurrentMode s) ! j)))
    \<and> (\<exists>s'. SetSplitPosition exact False s = Ret s' \<and>
        (\<forall>j k. j < places (mCurrentMode s) \<and> k < 36 \<and> int k = mCurrentPage s * int (places (mCurrentMode s)) + int j \<longrightarrow>
          (let t = SplitMode ! nat (mCurrentMode s) ! j; v = mVideo s' ! k in
           Visible (surf v) \<and> (\<forall>u w. screen_point v u w 0 = screen_aspect s * (- 1 + (of_int (sp_x t) + of_int (sp_w t) * u) / 6)
             \<and> screen_point v u w 1 = 1 - (of_int (sp_y t) + of_int (sp_h t) * (1 - w)) / 6))))"
proof -
  have m: "0 \<le> mCurrentMode s" "mCurrentMode s < 7" and len: "length (mVideo s) = 36" using assms(1) by (simp_all add: screen_ok_def)
  have plain: "plain_video (screen_aspect s) (mVideo s ! k)" if "k < 36" for k using assms(2) len that by (simp add: list_all_length)
  show ?thesis
    using tile_unique [OF m] SetSplitPosition_eq [OF assms(1), of exact False] len plain
    by (auto simp: page_map_nth placed_point [unfolded One_nat_def] places_def Let_def)
qed

section \<open>A wall\<close>

definition demo_wall :: "int \<Rightarrow> int \<Rightarrow> normal_screen" where
  "demo_wall m p = \<lparr>mVideo = map (\<lambda>k. set_visible (p * int (places m) \<le> int k \<and> int k < p * int (places m) + int (places m)) demo_play) [0..<36],
     mCurrentMode = m, mCurrentPage = p, mSelectIndex = 0, screen_aspect = 2, allPage = 36, isSpliting = False, ObjectHidden = None, ObjectWillVisible = None\<rparr>"

lemma demo_wall_sel: "mCurrentMode (demo_wall m p) = m" "mCurrentPage (demo_wall m p) = p" "screen_aspect (demo_wall m p) = 2"
  by (simp_all add: demo_wall_def)

lemma demo_wall_shown: "0 \<le> m \<Longrightarrow> m < 7 \<Longrightarrow> 0 \<le> p \<Longrightarrow> p < pages m \<Longrightarrow> page_shown (demo_wall m p)"
  by (simp add: demo_wall_def page_shown_def screen_ok_def on_page_def)

theorem wall_shows_a_page_witness:
  "case wall_run exact [WallSplit 2, WallPage 3, WallReset, WallSplit 5] (demo_wall 0 0) of Ret s' \<Rightarrow> page_shown s' | UB e \<Rightarrow> False | Blocked \<Rightarrow> False"
  using wall_shows_a_page [OF demo_wall_shown [of 0 0], where fl = exact and cs = "[WallSplit 2, WallPage 3, WallReset, WallSplit 5]"]
  by (simp split: outcome.splits)

theorem tap_selects_witness:
  "\<not> (\<exists>s'. SetSelected_at 700 100 1200 1200 (demo_wall 1 2) = Ret s' \<and> mSelectIndex s' = 9 \<and> (\<forall>l<36. mIsSelected (mVideo s' ! l) = (l = nat 9)))"
proof -
  have "(\<exists>s'. SetSelected_at 700 100 1200 1200 (demo_wall 1 2) = Ret s' \<and> mSelectIndex s' = 9 \<and> (\<forall>l<36. mIsSelected (mVideo s' ! l) = (l = nat 9)))
      \<longleftrightarrow> (mCurrentPage (demo_wall 1 2) = 0 \<or> mCurrentPage (demo_wall 1 2) = mCurrentMode (demo_wall 1 2)) \<and>
        (\<forall>i<1. \<not> next_to 7 1 (SplitMode ! nat (mCurrentMode (demo_wall 1 2)) ! i))"
    by (rule tap_selects [OF demo_wall_shown [of 1 2]]) (simp_all add: demo_wall_sel split_tables covers_def sp_def c_div_def)
  then show ?thesis by (simp add: demo_wall_sel)
qed

theorem single_view_leftover_witness:
  "\<exists>s'. bnd (SetSelected True 5 (demo_wall 0 0)) (SetPage exact 7 False) = Ret s' \<and> {i. i < 36 \<and> Visible (surf (mVideo s' ! i))} = {nat 5, nat 7}"
  by (rule single_view_leftover [OF demo_wall_shown [of 0 0]]) (simp_all add: demo_wall_sel)

theorem split_tiles_screen_witness:
  "\<exists>s'. SetSplitPosition exact False (demo_wall 2 1) = Ret s' \<and> screen_point (mVideo s' ! 7) (1 / 2) 0 0 = 2 * (- 1 + (8 + 4 * (1 / 2)) / 6)"
proof -
  have "screen_ok (demo_wall 2 1)" using demo_wall_shown [of 2 1] by (simp add: page_shown_def)
  moreover have "list_all (plain_video (screen_aspect (demo_wall 2 1))) (mVideo (demo_wall 2 1))"
    by (auto simp: list_all_iff demo_wall_def plain_video_def set_visible_def demo_play_def BaseScreen_new_def ParametricSurface_new_def demo_surface_def)
  ultimately obtain s' where s': "SetSplitPosition exact False (demo_wall 2 1) = Ret s'"
    "\<forall>j k. j < places (mCurrentMode (demo_wall 2 1)) \<and> k < 36 \<and> int k = mCurrentPage (demo_wall 2 1) * int (places (mCurrentMode (demo_wall 2 1))) + int j \<longrightarrow>
      (let t = SplitMode ! nat (mCurrentMode (demo_wall 2 1)) ! j; v = mVideo s' ! k in
       Visible (surf v) \<and> (\<forall>u w. screen_point v u w 0 = screen_aspect (demo_wall 2 1) * (- 1 + (of_int (sp_x t) + of_int (sp_w t) * u) / 6)
         \<and> screen_point v u w 1 = 1 - (of_int (sp_y t) + of_int (sp_h t) * (1 - w)) / 6))"
    using split_tiles_screen [of "demo_wall 2 1"] by blast
  from s'(2) [THEN spec, of 1, THEN spec, of 7] s'(1) show ?thesis by (simp add: demo_wall_sel split_tables sp_def Let_def)
qed

end
