(* ===== verification/Animation.thy ===== *)
theory Animation
  imports PtrList SplitScreen
begin

text \<open>
  The animations of \<^verbatim>\<open>gles/GLES/ParametricManager.cpp\<close>: a thread calls \<open>AnimationOperator\<close> again and again, which moves every animation of the list \<open>_Ani\<close> on by
  one step. The list is the template of \<^verbatim>\<open>gles/Utils/list.h\<close>, used here by what the theory of that template proves of it. What is animated is an \<open>ISurface\<close>: an
  interface with a setter and a getter for position, scale and rotation and a flag, a record here. A handle is the address of an animation. \<open>call\<close> stands for the
  functions that an animation calls at its end. Critical sections are steps.
\<close>

section \<open>State\<close>

definition JA_ANI_TYPE_POSITION :: int where "JA_ANI_TYPE_POSITION = 0"
definition JA_ANI_TYPE_SCALE :: int where "JA_ANI_TYPE_SCALE = 1"
definition JA_ANI_TYPE_ROTATE :: int where "JA_ANI_TYPE_ROTATE = 2"

lemmas ani_types = JA_ANI_TYPE_POSITION_def JA_ANI_TYPE_SCALE_def JA_ANI_TYPE_ROTATE_def

record JA_Animation =
  a_obj :: nat
  a_start :: KSVec3
  a_value :: KSVec3
  a_unit :: KSVec3
  a_step :: int
  a_stepcount :: int
  a_end :: KSVec3
  a_isLoop :: bool
  a_istexture :: bool
  a_type :: int
  a_duration :: int
  a_index :: int
  a_Inertia :: bool
  a_OnEnd :: "nat option"
  a_Ctx :: nat

text \<open>The part of \<open>ISurface\<close> that animations use. The first argument of the setter and the getter is the type of the animation.\<close>

record 's isurface =
  attr_set :: "int \<Rightarrow> KSVec3 \<Rightarrow> bool \<Rightarrow> int \<Rightarrow> 's \<Rightarrow> 's outcome"
  attr_get :: "int \<Rightarrow> bool \<Rightarrow> int \<Rightarrow> 's \<Rightarrow> KSVec3 outcome"
  flag_set :: "int \<Rightarrow> bool \<Rightarrow> 's \<Rightarrow> 's outcome"

record 's manager =
  objs :: "nat \<Rightarrow> 's"
  Ani :: "nat list"
  mem :: "nat \<Rightarrow> JA_Animation option"

text \<open>\<open>at\<close>, \<open>remove\<close> and \<open>search\<close> of the list; the value of \<open>at\<close> behind the end is not initialised.\<close>

definition ptr_at :: "nat \<Rightarrow> nat list \<Rightarrow> nat outcome" where
  "ptr_at i xs = (if i < length xs then Ret (xs ! i) else UB NullDeref)"

definition ptr_remove :: "nat \<Rightarrow> nat list \<Rightarrow> nat list outcome" where
  "ptr_remove i xs = (if i < length xs then Ret (take i xs @ drop (Suc i) xs) else if i = length xs then UB NullDeref else Ret xs)"

fun ptr_search :: "nat \<Rightarrow> nat list \<Rightarrow> nat option" where
  "ptr_search h [] = None"
| "ptr_search h (x # xs) = (if x = h then Some 0 else map_option Suc (ptr_search h xs))"

section \<open>Operations\<close>

definition put :: "'s isurface \<Rightarrow> JA_Animation \<Rightarrow> KSVec3 \<Rightarrow> 's manager \<Rightarrow> 's manager outcome" where
  "put I a v m =
     (if a_type a \<in> {JA_ANI_TYPE_POSITION, JA_ANI_TYPE_SCALE, JA_ANI_TYPE_ROTATE} then
        bnd (attr_set I (a_type a) v (a_istexture a) (a_index a) (objs m (a_obj a))) (\<lambda>s. Ret (m\<lparr>objs := (objs m)(a_obj a := s)\<rparr>))
      else Ret m)"

definition unflag :: "'s isurface \<Rightarrow> JA_Animation \<Rightarrow> 's manager \<Rightarrow> 's manager outcome" where
  "unflag I a m = bnd (flag_set I (a_index a) False (objs m (a_obj a))) (\<lambda>s. Ret (m\<lparr>objs := (objs m)(a_obj a := s)\<rparr>))"

text \<open>\<open>remove(i)\<close> and \<open>free\<close>.\<close>

definition drop_ani :: "nat \<Rightarrow> nat \<Rightarrow> 's manager \<Rightarrow> 's manager outcome" where
  "drop_ani i h m = bnd (ptr_remove i (Ani m)) (\<lambda>xs. Ret (m\<lparr>Ani := xs, mem := (mem m)(h := None)\<rparr>))"

text \<open>The next value: a step of the same size, or the sine curve from 0 to 90 degrees.\<close>

definition next_value :: "fl \<Rightarrow> JA_Animation \<Rightarrow> KSVec3" where
  "next_value fl a =
     (let r = f32 fl; v = a_value a; u = a_unit a; s = a_start a; e = a_end a in
      if \<not> a_Inertia a then vec3 (r (vx v + vx u)) (r (vy v + vy u)) (r (vz v + vz u))
      else
        let w = sinf fl (r (r (r (r (f64 fl pi) / 180) * of_int (a_stepcount a)) * r (90 / of_int (a_step a))));
            b = (\<lambda>x y. r (w * r (y - x))) in
        vec3 (r (vx s + b (vx s) (vx e))) (r (vy s + b (vy s) (vy e))) (r (vz s + b (vz s) (vz e))))"

text \<open>
  One animation is moved on. The time per step is computed and not used; the integer division is there all the same. The list may have changed when the end was
  reported: the animation is then looked for at its old place and its memory may be gone.
\<close>

definition ani_tick :: "(nat \<Rightarrow> nat \<Rightarrow> 's manager \<Rightarrow> 's manager outcome) \<Rightarrow> fl \<Rightarrow> 's isurface \<Rightarrow> nat \<Rightarrow> 's manager \<Rightarrow> 's manager outcome" where
  "ani_tick call fl I i m =
     bnd (ptr_at i (Ani m)) (\<lambda>h.
     case mem m h of
       None \<Rightarrow> UB UseAfterFree
     | Some a \<Rightarrow>
         if \<not> a_isLoop a \<and> a_step a = 0 then UB DivByZero
         else if \<not> a_isLoop a \<and> a_step a = - 1 \<and> a_duration a = - 2147483648 then UB SignedOverflow
         else
           let a = a\<lparr>a_value := next_value fl a\<rparr> in
           bnd (put I a (a_value a) m) (\<lambda>m.
           bnd (s32 (a_stepcount a + 1)) (\<lambda>n.
           let a = a\<lparr>a_stepcount := n\<rparr>; m = m\<lparr>mem := (mem m)(h \<mapsto> a)\<rparr> in
           if a_step a \<le> a_stepcount a \<and> \<not> a_isLoop a then
             bnd (put I a (a_end a) m) (\<lambda>m.
             bnd (case a_OnEnd a of None \<Rightarrow> Ret m | Some cb \<Rightarrow> call cb h m) (\<lambda>m.
             case mem m h of
               None \<Rightarrow> UB UseAfterFree
             | Some a \<Rightarrow> bnd (unflag I a m) (drop_ani i h)))
           else Ret m)))"

fun ani_loop :: "(nat \<Rightarrow> nat \<Rightarrow> 's manager \<Rightarrow> 's manager outcome) \<Rightarrow> fl \<Rightarrow> 's isurface \<Rightarrow> nat \<Rightarrow> 's manager \<Rightarrow> 's manager outcome" where
  "ani_loop call fl I 0 m = Ret m"
| "ani_loop call fl I (Suc i) m = bnd (ani_tick call fl I i m) (ani_loop call fl I i)"

definition AnimationOperator :: "(nat \<Rightarrow> nat \<Rightarrow> 's manager \<Rightarrow> 's manager outcome) \<Rightarrow> fl \<Rightarrow> 's isurface \<Rightarrow> 's manager \<Rightarrow> 's manager outcome" where
  "AnimationOperator call fl I m = ani_loop call fl I (length (Ani m)) m"

text \<open>The thread: \<open>n\<close> rounds of it. The call that asks for a redraw and the pause are left out: they do not touch the animations.\<close>

fun DoAnimationThread :: "(nat \<Rightarrow> nat \<Rightarrow> 's manager \<Rightarrow> 's manager outcome) \<Rightarrow> fl \<Rightarrow> 's isurface \<Rightarrow> nat \<Rightarrow> 's manager \<Rightarrow> 's manager outcome" where
  "DoAnimationThread call fl I 0 m = Ret m"
| "DoAnimationThread call fl I (Suc n) m = bnd (AnimationOperator call fl I m) (DoAnimationThread call fl I n)"

text \<open>The fields of a new animation.\<close>

definition new_animation ::
  "fl \<Rightarrow> nat \<Rightarrow> KSVec3 \<Rightarrow> KSVec3 \<Rightarrow> int \<Rightarrow> int \<Rightarrow> bool \<Rightarrow> int \<Rightarrow> bool \<Rightarrow> int \<Rightarrow> bool \<Rightarrow> nat option \<Rightarrow> nat \<Rightarrow> JA_Animation" where
  "new_animation fl obj start pend step duration isloop anitype texture scrIndex Inertia ponend ctx =
     (let r = f32 fl;
          unit = (if isloop then pend else
            vec3 (r (r (vx pend - vx start) / of_int step)) (r (r (vy pend - vy start) / of_int step)) (r (r (vz pend - vz start) / of_int step))) in
      \<lparr>a_obj = obj, a_start = start, a_value = start, a_unit = unit, a_step = step, a_stepcount = 0, a_end = pend, a_isLoop = isloop,
       a_istexture = texture, a_type = anitype, a_duration = duration, a_index = scrIndex, a_Inertia = Inertia, a_OnEnd = ponend, a_Ctx = ctx\<rparr>)"

text \<open>
  A new animation. \<open>h\<close> is the address that \<open>malloc\<close> gives; \<open>busy\<close> tells that the scene is just changing its projection, when nothing is started.
\<close>

definition StartAnimation ::
  "fl \<Rightarrow> 's isurface \<Rightarrow> nat \<Rightarrow> bool \<Rightarrow> nat \<Rightarrow> KSVec3 \<Rightarrow> int \<Rightarrow> int \<Rightarrow> bool \<Rightarrow> int \<Rightarrow> bool \<Rightarrow> int \<Rightarrow> bool \<Rightarrow> nat option \<Rightarrow> nat \<Rightarrow> 's manager
    \<Rightarrow> (nat \<times> 's manager) outcome" where
  "StartAnimation fl I h busy obj pend step duration isloop anitype texture scrIndex Inertia ponend ctx m =
     (if busy then Ret (0, m)
      else
        bnd (flag_set I scrIndex True (objs m obj)) (\<lambda>s.
        let m = m\<lparr>objs := (objs m)(obj := s)\<rparr> in
        if h = 0 then UB NullDeref
        else
          bnd (if anitype \<in> {JA_ANI_TYPE_POSITION, JA_ANI_TYPE_SCALE, JA_ANI_TYPE_ROTATE} then attr_get I anitype texture scrIndex s
               else Ret (vec3 0 0 0)) (\<lambda>start.
          Ret (h, m\<lparr>Ani := Ani m @ [h],
            mem := (mem m)(h \<mapsto> new_animation fl obj start pend step duration isloop anitype texture scrIndex Inertia ponend ctx)\<rparr>))))"

definition StopAnimation :: "'s isurface \<Rightarrow> nat \<Rightarrow> 's manager \<Rightarrow> 's manager outcome" where
  "StopAnimation I h m =
     (if h = 0 then Ret m
      else (case ptr_search h (Ani m) of
        None \<Rightarrow> Ret m
      | Some i \<Rightarrow> (case mem m h of None \<Rightarrow> UB UseAfterFree | Some a \<Rightarrow> bnd (unflag I a m) (drop_ani i h))))"

text \<open>The loops that take out the animations that satisfy a condition, from the last one on.\<close>

fun clear_loop :: "'s isurface \<Rightarrow> (JA_Animation \<Rightarrow> bool) \<Rightarrow> nat \<Rightarrow> 's manager \<Rightarrow> 's manager outcome" where
  "clear_loop I P 0 m = Ret m"
| "clear_loop I P (Suc i) m =
     bnd (ptr_at i (Ani m)) (\<lambda>h.
     case mem m h of
       None \<Rightarrow> UB UseAfterFree
     | Some a \<Rightarrow> bnd (if P a then bnd (unflag I a m) (drop_ani i h) else Ret m) (clear_loop I P i))"

text \<open>\<open>loadings\<close> are the objects that show that a video is loading: they go on.\<close>

definition ClearAnimation :: "'s isurface \<Rightarrow> nat set \<Rightarrow> 's manager \<Rightarrow> 's manager outcome" where
  "ClearAnimation I loadings m = clear_loop I (\<lambda>a. a_obj a \<notin> loadings) (length (Ani m)) m"

definition ClearAnimation_index :: "'s isurface \<Rightarrow> int \<Rightarrow> 's manager \<Rightarrow> 's manager outcome" where
  "ClearAnimation_index I index m = clear_loop I (\<lambda>a. a_index a = index) (length (Ani m)) m"

text \<open>What a step makes of an animation, and whether it is the last one.\<close>

definition advanced :: "fl \<Rightarrow> JA_Animation \<Rightarrow> JA_Animation" where
  "advanced fl a = a\<lparr>a_value := next_value fl a, a_stepcount := a_stepcount a + 1\<rparr>"

definition finished :: "JA_Animation \<Rightarrow> bool" where
  "finished a \<longleftrightarrow> a_step a \<le> a_stepcount a \<and> \<not> a_isLoop a"

text \<open>What is left of an animation after a step, and what is then shown.\<close>

definition left_of :: "fl \<Rightarrow> JA_Animation \<Rightarrow> JA_Animation option" where
  "left_of fl a = (if finished (advanced fl a) then None else Some (advanced fl a))"

definition tick_shows :: "fl \<Rightarrow> JA_Animation \<Rightarrow> KSVec3" where
  "tick_shows fl a = (if finished (advanced fl a) then a_end a else next_value fl a)"

text \<open>Animations that can run for another \<open>n\<close> steps and report their end to nobody.\<close>

definition ani_ok :: "nat \<Rightarrow> JA_Animation \<Rightarrow> bool" where
  "ani_ok n a \<longleftrightarrow> a_OnEnd a = None \<and> 0 \<le> a_stepcount a \<and> a_stepcount a + int n < 2 ^ 31 \<and> (a_isLoop a \<or> 0 < a_step a \<and> a_stepcount a < a_step a)"

text \<open>The list and the memory hold the same animations.\<close>

definition owned :: "'s manager \<Rightarrow> bool" where
  "owned m \<longleftrightarrow> distinct (Ani m) \<and> set (Ani m) = dom (mem m)"

lemma find_append: "find P (xs @ ys) = (case find P xs of None \<Rightarrow> find P ys | Some x \<Rightarrow> Some x)"
  by (induction xs) simp_all

lemma owned_nth: "owned m \<Longrightarrow> i < length (Ani m) \<Longrightarrow> \<exists>a. mem m (Ani m ! i) = Some a"
  using nth_mem [of i "Ani m"] by (auto simp: owned_def)

lemma take_drop_set: "distinct xs \<Longrightarrow> i < length xs \<Longrightarrow> set (take i xs @ drop (Suc i) xs) = set xs - {xs ! i}"
proof -
  assume d: "distinct xs" "i < length xs"
  have "xs = take i xs @ xs ! i # drop (Suc i) xs" using d(2) by (rule id_take_nth_drop)
  moreover from this d(1) have "xs ! i \<notin> set (take i xs @ drop (Suc i) xs)" by (metis distinct_append distinct.simps(2) not_distinct_conv_prefix Un_iff disjoint_insert(1) list.set(2) set_append)
  ultimately show ?thesis by (metis Diff_insert_absorb insert_is_Un list.simps(15) set_append sup_left_commute)
qed

lemma drop_ani_ok:
  assumes "owned m" "i < length (Ani m)" "h = Ani m ! i"
  shows "drop_ani i h m = Ret (m\<lparr>Ani := take i (Ani m) @ drop (Suc i) (Ani m), mem := (mem m)(h := None)\<rparr>)"
    and "owned (m\<lparr>Ani := take i (Ani m) @ drop (Suc i) (Ani m), mem := (mem m)(h := None)\<rparr>)"
proof -
  have "distinct (take i (Ani m) @ drop (Suc i) (Ani m))"
    using assms(1) set_take_disj_set_drop_if_distinct [of "Ani m" i "Suc i"] by (simp add: owned_def)
  then show "owned (m\<lparr>Ani := take i (Ani m) @ drop (Suc i) (Ani m), mem := (mem m)(h := None)\<rparr>)"
    using assms take_drop_set [of "Ani m" i] by (auto simp: owned_def)
qed (simp add: drop_ani_def ptr_remove_def assms(2))

lemma left_of_fields:
  "left_of fl a = Some a' \<Longrightarrow> a_obj a' = a_obj a \<and> a_type a' = a_type a \<and> a_istexture a' = a_istexture a \<and> a_index a' = a_index a \<and>
    a_end a' = a_end a \<and> a_isLoop a' = a_isLoop a \<and> a_step a' = a_step a \<and> a_stepcount a' = a_stepcount a + 1"
  by (auto simp: left_of_def advanced_def split: if_splits)

lemma left_of_ok: "ani_ok (Suc n) a \<Longrightarrow> left_of fl a = Some a' \<Longrightarrow> ani_ok n a'"
  by (auto simp: left_of_def advanced_def ani_ok_def finished_def split: if_splits)

lemma ani_ok_mono: "ani_ok n a \<Longrightarrow> k \<le> n \<Longrightarrow> ani_ok k a"
  by (auto simp: ani_ok_def)

lemma ptr_search_None: "ptr_search h xs = None \<longleftrightarrow> h \<notin> set xs"
  by (induction xs) auto

lemma ptr_search_Some: "h \<in> set xs \<Longrightarrow> \<exists>i. ptr_search h xs = Some i \<and> i < length xs \<and> h = xs ! i"
  by (induction xs) force+

section \<open>The interface\<close>

text \<open>
  What animations rely on: setting an attribute is what the getter of this attribute sees from then on, and of no other. \<open>key\<close> names the attribute that a type, a flag
  and an index stand for; attributes without name may be changed by the setter in other ways.
\<close>

locale animated_surface =
  fixes I :: "'s isurface" and good :: "'s \<Rightarrow> bool" and key :: "int \<Rightarrow> bool \<Rightarrow> int \<Rightarrow> 'k option"
  assumes set_attr: "good s \<Longrightarrow> \<exists>s'. attr_set I t v b i s = Ret s' \<and> good s' \<and>
      (\<forall>t' b' i'. key t' b' i' \<noteq> None \<longrightarrow> attr_get I t' b' i' s' = (if key t b i = key t' b' i' then Ret v else attr_get I t' b' i' s))"
    and set_flag: "good s \<Longrightarrow> \<exists>s'. flag_set I i f s = Ret s' \<and> good s' \<and> (\<forall>t' b' i'. key t' b' i' \<noteq> None \<longrightarrow> attr_get I t' b' i' s' = attr_get I t' b' i' s)"
    and get_attr: "good s \<Longrightarrow> \<exists>v. attr_get I t b i s = Ret v"
    and key_type: "key t b i \<noteq> None \<Longrightarrow> t \<in> {JA_ANI_TYPE_POSITION, JA_ANI_TYPE_SCALE, JA_ANI_TYPE_ROTATE}"
begin

definition akey :: "JA_Animation \<Rightarrow> 'k option" where
  "akey a = key (a_type a) (a_istexture a) (a_index a)"

definition attr :: "'s manager \<Rightarrow> JA_Animation \<Rightarrow> KSVec3 outcome" where
  "attr m a = attr_get I (a_type a) (a_istexture a) (a_index a) (objs m (a_obj a))"

definition same_target :: "JA_Animation \<Rightarrow> JA_Animation \<Rightarrow> bool" where
  "same_target a b \<longleftrightarrow> a_obj a = a_obj b \<and> akey a = akey b"

definition all_good :: "'s manager \<Rightarrow> bool" where
  "all_good m \<longleftrightarrow> (\<forall>x. good (objs m x))"

lemma put_ok:
  assumes "all_good m"
  obtains o' where "put I a v m = Ret (m\<lparr>objs := o'\<rparr>)" "all_good (m\<lparr>objs := o'\<rparr>)"
    "\<And>b. akey b \<noteq> None \<Longrightarrow> attr (m\<lparr>objs := o'\<rparr>) b = (if same_target a b then Ret v else attr m b)"
proof (cases "a_type a \<in> {JA_ANI_TYPE_POSITION, JA_ANI_TYPE_SCALE, JA_ANI_TYPE_ROTATE}")
  case True
  from assms have "good (objs m (a_obj a))" by (simp add: all_good_def)
  from set_attr [OF this, of "a_type a" v "a_istexture a" "a_index a"] obtain s where s: "attr_set I (a_type a) v (a_istexture a) (a_index a) (objs m (a_obj a)) = Ret s" "good s"
    "\<forall>t' b' i'. key t' b' i' \<noteq> None \<longrightarrow>
      attr_get I t' b' i' s = (if key (a_type a) (a_istexture a) (a_index a) = key t' b' i' then Ret v else attr_get I t' b' i' (objs m (a_obj a)))" by blast
  show thesis
    by (rule that [of "(objs m)(a_obj a := s)"]) (use True s assms in \<open>auto simp: put_def all_good_def attr_def same_target_def akey_def\<close>)
next
  case False
  have "key (a_type a) (a_istexture a) (a_index a) = None" using False key_type by blast
  then have "\<not> same_target a b" if "akey b \<noteq> None" for b using that by (auto simp: same_target_def akey_def)
  then show thesis using False assms that [of "objs m"] by (simp add: put_def)
qed

lemma unflag_ok:
  assumes "all_good m"
  obtains o' where "unflag I a m = Ret (m\<lparr>objs := o'\<rparr>)" "all_good (m\<lparr>objs := o'\<rparr>)" "\<And>b. akey b \<noteq> None \<Longrightarrow> attr (m\<lparr>objs := o'\<rparr>) b = attr m b"
proof -
  from assms have "good (objs m (a_obj a))" by (simp add: all_good_def)
  from set_flag [OF this, of "a_index a" False] obtain s where s: "flag_set I (a_index a) False (objs m (a_obj a)) = Ret s" "good s"
    "\<forall>t' b' i'. key t' b' i' \<noteq> None \<longrightarrow> attr_get I t' b' i' s = attr_get I t' b' i' (objs m (a_obj a))" by blast
  show thesis
    by (rule that [of "(objs m)(a_obj a := s)"]) (use s assms in \<open>auto simp: unflag_def all_good_def attr_def akey_def\<close>)
qed

text \<open>One animation is moved on: what changes in the list, in the memory and in the objects.\<close>

lemma ani_tick_ok:
  assumes own: "owned m" and g: "all_good m" and i: "i < length (Ani m)" and a: "mem m (Ani m ! i) = Some a" "ani_ok (Suc n) a"
  obtains m' where "ani_tick call fl I i m = Ret m'" "owned m'" "all_good m'" "take i (Ani m') = take i (Ani m)"
    "mem m' = (mem m)(Ani m ! i := left_of fl a)"
    "\<And>b. akey b \<noteq> None \<Longrightarrow> attr m' b = (if same_target a b then Ret (tick_shows fl a) else attr m b)"
proof -
  define h where "h = Ani m ! i"
  define a' where "a' = advanced fl a"
  have st: "a_step a' = a_step a" "a_isLoop a' = a_isLoop a" "a_end a' = a_end a" "a_OnEnd a' = None" "a_stepcount a' = a_stepcount a + 1"
    "same_target (a\<lparr>a_value := v\<rparr>) b = same_target a b" "same_target a' b = same_target a b" for v b
    using a(2) by (simp_all add: a'_def advanced_def ani_ok_def same_target_def akey_def)
  have cnt: "s32 (a_stepcount a + 1) = Ret (a_stepcount a + 1)" using a(2) by (simp add: s32_def in32_def ani_ok_def)
  obtain o1 where o1: "put I (a\<lparr>a_value := next_value fl a\<rparr>) (next_value fl a) m = Ret (m\<lparr>objs := o1\<rparr>)" "all_good (m\<lparr>objs := o1\<rparr>)"
    "\<And>b. akey b \<noteq> None \<Longrightarrow> attr (m\<lparr>objs := o1\<rparr>) b = (if same_target a b then Ret (next_value fl a) else attr m b)"
    by (rule put_ok [OF g, of "a\<lparr>a_value := next_value fl a\<rparr>" "next_value fl a", unfolded st(6)]) blast
  define m1 where "m1 = m\<lparr>objs := o1, mem := (mem m)(h \<mapsto> a')\<rparr>"
  have "h \<in> set (Ani m)" using i by (simp add: h_def)
  then have m1: "owned m1" "all_good m1" "\<And>b. attr m1 b = attr (m\<lparr>objs := o1\<rparr>) b" "Ani m1 = Ani m" "mem m1 h = Some a'"
    using own o1(2) by (auto simp: m1_def owned_def all_good_def attr_def)
  have tick: "ani_tick call fl I i m = (if finished a' then bnd (put I a' (a_end a) m1) (\<lambda>m. case mem m h of None \<Rightarrow> UB UseAfterFree | Some a \<Rightarrow> bnd (unflag I a m) (drop_ani i h))
      else Ret m1)"
  proof -
    have nz: "\<not> (\<not> a_isLoop a \<and> a_step a = 0)" "\<not> (\<not> a_isLoop a \<and> a_step a = - 1 \<and> a_duration a = - 2147483648)"
      using a(2) by (auto simp: ani_ok_def)
    have fin: "finished a' \<longleftrightarrow> a_step a \<le> a_stepcount a + 1 \<and> \<not> a_isLoop a" by (simp add: finished_def st)
    have a': "a\<lparr>a_value := next_value fl a, a_stepcount := a_stepcount a + 1\<rparr> = a'" by (simp add: a'_def advanced_def)
    have "ani_tick call fl I i m =
        (if a_step a' \<le> a_stepcount a' \<and> \<not> a_isLoop a' then
           bnd (put I a' (a_end a') m1) (\<lambda>m. bnd (case a_OnEnd a' of None \<Rightarrow> Ret m | Some cb \<Rightarrow> call cb h m) (\<lambda>m.
             case mem m h of None \<Rightarrow> UB UseAfterFree | Some a \<Rightarrow> bnd (unflag I a m) (drop_ani i h)))
         else Ret m1)"
      unfolding ani_tick_def ptr_at_def Let_def
      using i a(1) o1(1) cnt nz a' by (simp only: if_True if_False bnd_simps option.case h_def [symmetric] m1_def) (simp add: h_def m1_def a' st)
    then show ?thesis by (simp add: fin st)
  qed
  show thesis
  proof (cases "finished a'")
    case False
    then show thesis using that [of m1] tick m1 o1(3) by (simp add: a'_def m1_def h_def left_of_def tick_shows_def)
  next
    case True
    obtain o2 where o2: "put I a' (a_end a) m1 = Ret (m1\<lparr>objs := o2\<rparr>)" "all_good (m1\<lparr>objs := o2\<rparr>)"
      "\<And>b. akey b \<noteq> None \<Longrightarrow> attr (m1\<lparr>objs := o2\<rparr>) b = (if same_target a b then Ret (a_end a) else attr m1 b)"
      by (rule put_ok [OF m1(2), of a' "a_end a", unfolded st(7)]) blast
    obtain o3 where o3: "unflag I a' (m1\<lparr>objs := o2\<rparr>) = Ret (m1\<lparr>objs := o2, objs := o3\<rparr>)" "all_good (m1\<lparr>objs := o2, objs := o3\<rparr>)"
      "\<And>b. akey b \<noteq> None \<Longrightarrow> attr (m1\<lparr>objs := o2, objs := o3\<rparr>) b = attr (m1\<lparr>objs := o2\<rparr>) b" by (rule unflag_ok [OF o2(2)]) blast
    define m2 where "m2 = m1\<lparr>objs := o3\<rparr>"
    have m2: "owned m2" "Ani m2 = Ani m" "mem m2 = mem m1" using m1 by (simp_all add: m2_def owned_def)
    note dr = drop_ani_ok [OF m2(1), of i h, unfolded m2(2), OF i h_def]
    define m' where "m' = m2\<lparr>Ani := take i (Ani m) @ drop (Suc i) (Ani m), mem := (mem m2)(h := None)\<rparr>"
    have r: "left_of fl a = None" "tick_shows fl a = a_end a" using True by (simp_all add: left_of_def tick_shows_def a'_def)
    have "ani_tick call fl I i m = Ret m'" using True tick o2(1) o3(1) dr(1) m1(5) by (simp add: m'_def m2_def)
    moreover have "attr m' b = (if same_target a b then Ret (a_end a) else attr m b)" if "akey b \<noteq> None" for b
      using o3(3) [OF that] o2(3) [OF that] m1(3) o1(3) [OF that] by (simp add: m'_def m2_def attr_def)
    moreover have "all_good m'" using o3(2) by (simp add: m'_def m2_def all_good_def)
    moreover have "owned m'" using dr(2) by (simp add: m'_def)
    moreover have "mem m' = (mem m)(h := None)" by (simp add: m'_def m2(3) m1_def)
    moreover have "take i (Ani m') = take i (Ani m)" using i by (simp add: m'_def)
    ultimately show thesis unfolding h_def by (intro that [of m', unfolded r]) blast+
  qed
qed

text \<open>
  A whole round: every animation has moved on, those at their end are gone, and what an attribute shows comes from the first animation in the list that has it as
  its target.
\<close>

lemma ani_loop_ok:
  assumes "owned m" "all_good m" "i \<le> length (Ani m)" "\<forall>h\<in>set (take i (Ani m)). ani_ok (Suc n) (the (mem m h))"
  shows "\<exists>m'. ani_loop call fl I i m = Ret m' \<and> owned m' \<and> all_good m' \<and>
      mem m' = (\<lambda>h. if h \<in> set (take i (Ani m)) then Option.bind (mem m h) (left_of fl) else mem m h) \<and>
      (\<forall>b. akey b \<noteq> None \<longrightarrow> attr m' b =
        (case find (\<lambda>h. same_target (the (mem m h)) b) (take i (Ani m)) of None \<Rightarrow> attr m b | Some h \<Rightarrow> Ret (tick_shows fl (the (mem m h)))))"
  using assms
proof (induction i arbitrary: m)
  case (Suc i)
  define h where "h = Ani m ! i"
  have i: "i < length (Ani m)" using Suc.prems(3) by simp
  then obtain a where a: "mem m h = Some a" using owned_nth [OF Suc.prems(1)] h_def by blast
  have tk: "take (Suc i) (Ani m) = take i (Ani m) @ [h]" using i by (simp add: h_def take_Suc_conv_app_nth)
  have ok: "ani_ok (Suc n) a" using Suc.prems(4) a by (simp add: tk)
  obtain m1 where m1: "ani_tick call fl I i m = Ret m1" "owned m1" "all_good m1" "take i (Ani m1) = take i (Ani m)" "mem m1 = (mem m)(h := left_of fl a)"
      "\<And>b. akey b \<noteq> None \<Longrightarrow> attr m1 b = (if same_target a b then Ret (tick_shows fl a) else attr m b)"
    by (rule ani_tick_ok [OF Suc.prems(1,2) i a [unfolded h_def] ok, folded h_def]) blast
  have "distinct (take (Suc i) (Ani m))" using Suc.prems(1) by (simp add: owned_def)
  then have nh: "h \<notin> set (take i (Ani m))" using tk by simp
  have i1: "i \<le> length (Ani m1)" using arg_cong [OF m1(4), of length] i by simp
  have "\<forall>k\<in>set (take i (Ani m1)). ani_ok (Suc n) (the (mem m1 k))" using Suc.prems(4) nh by (auto simp: m1(4,5) tk)
  from Suc.IH [OF m1(2,3) i1 this] obtain m' where m': "ani_loop call fl I i m1 = Ret m'" "owned m'" "all_good m'"
      "mem m' = (\<lambda>h. if h \<in> set (take i (Ani m)) then Option.bind (mem m1 h) (left_of fl) else mem m1 h)"
      "\<forall>b. akey b \<noteq> None \<longrightarrow> attr m' b =
        (case find (\<lambda>h. same_target (the (mem m1 h)) b) (take i (Ani m)) of None \<Rightarrow> attr m1 b | Some h \<Rightarrow> Ret (tick_shows fl (the (mem m1 h))))"
    unfolding m1(4) by blast
  have fnd: "find (\<lambda>k. same_target (the (mem m1 k)) b) (take i (Ani m)) = find (\<lambda>k. same_target (the (mem m k)) b) (take i (Ani m))" for b
    by (rule find_cong) (use nh in \<open>auto simp: m1(5)\<close>)
  have at: "attr m' b = (case find (\<lambda>h. same_target (the (mem m h)) b) (take (Suc i) (Ani m)) of None \<Rightarrow> attr m b | Some h \<Rightarrow> Ret (tick_shows fl (the (mem m h))))"
    if "akey b \<noteq> None" for b
  proof (cases "find (\<lambda>k. same_target (the (mem m k)) b) (take i (Ani m))")
    case None
    then show ?thesis using m'(5) [rule_format, OF that] m1(6) [OF that] a by (simp add: fnd tk find_append)
  next
    case (Some k)
    then have "k \<noteq> h" using nh by (auto simp: find_Some_iff in_set_conv_nth)
    then have "mem m1 k = mem m k" by (simp add: m1(5))
    with Some show ?thesis using m'(5) [rule_format, OF that] by (simp add: fnd tk find_append)
  qed
  have "mem m' = (\<lambda>k. if k \<in> set (take (Suc i) (Ani m)) then Option.bind (mem m k) (left_of fl) else mem m k)"
    using nh a by (auto simp: m'(4) m1(5) tk)
  then show ?case using m1(1) m'(1-3) at by (intro exI [of _ m']) simp
qed simp

lemma AnimationOperator_ok:
  assumes "owned m" "all_good m" "\<forall>a\<in>ran (mem m). ani_ok (Suc n) a"
  obtains m' where "AnimationOperator call fl I m = Ret m'" "owned m'" "all_good m'" "\<And>h. mem m' h = Option.bind (mem m h) (left_of fl)"
    "\<And>b. akey b \<noteq> None \<Longrightarrow> attr m' b =
      (case find (\<lambda>h. same_target (the (mem m h)) b) (Ani m) of None \<Rightarrow> attr m b | Some h \<Rightarrow> Ret (tick_shows fl (the (mem m h))))"
proof -
  have "\<forall>h\<in>set (take (length (Ani m)) (Ani m)). ani_ok (Suc n) (the (mem m h))" using assms(1,3) by (auto simp: owned_def ran_def)
  from ani_loop_ok [OF assms(1,2) order_refl this, of call fl] obtain m' where m': "AnimationOperator call fl I m = Ret m'" "owned m'" "all_good m'"
      "mem m' = (\<lambda>h. if h \<in> set (Ani m) then Option.bind (mem m h) (left_of fl) else mem m h)"
      "\<forall>b. akey b \<noteq> None \<longrightarrow> attr m' b =
        (case find (\<lambda>h. same_target (the (mem m h)) b) (Ani m) of None \<Rightarrow> attr m b | Some h \<Rightarrow> Ret (tick_shows fl (the (mem m h))))"
    unfolding AnimationOperator_def by auto
  have "mem m' h = Option.bind (mem m h) (left_of fl)" for h
    using assms(1) by (cases "mem m h") (auto simp: m'(4) owned_def)
  then show thesis using that m' by blast
qed

text \<open>Targets of animations.\<close>

definition aims :: "'s manager \<Rightarrow> JA_Animation \<Rightarrow> nat set" where
  "aims m b = {h. \<exists>a. mem m h = Some a \<and> same_target a b}"

lemma left_of_target: "left_of fl a = Some a' \<Longrightarrow> same_target a' b = same_target a b" "left_of fl a = Some a' \<Longrightarrow> same_target b a' = same_target b a"
    "left_of fl a = Some a' \<Longrightarrow> akey a' = akey a" "left_of fl a = Some a' \<Longrightarrow> attr m a' = attr m a"
  by (auto dest!: left_of_fields simp: same_target_def akey_def attr_def)

lemma aims_tick: "(\<And>h. mem m' h = Option.bind (mem m h) (left_of fl)) \<Longrightarrow> aims m' b \<subseteq> aims m b"
  by (auto simp: aims_def bind_eq_Some_conv left_of_target)

lemma find_aims:
  assumes "owned m"
  shows "aims m b = {} \<Longrightarrow> find (\<lambda>h. same_target (the (mem m h)) b) (Ani m) = None"
    and "aims m b = {h} \<Longrightarrow> find (\<lambda>h. same_target (the (mem m h)) b) (Ani m) = Some h"
proof -
  have e: "same_target (the (mem m h)) b \<longleftrightarrow> h \<in> aims m b" if "h \<in> set (Ani m)" for h
    using assms that by (auto simp: owned_def aims_def)
  show "aims m b = {} \<Longrightarrow> find (\<lambda>h. same_target (the (mem m h)) b) (Ani m) = None" using e by (auto simp: find_None_iff)
  show "find (\<lambda>h. same_target (the (mem m h)) b) (Ani m) = Some h" if s: "aims m b = {h}"
  proof (cases "find (\<lambda>h. same_target (the (mem m h)) b) (Ani m)")
    case None
    have "h \<in> set (Ani m)" using s assms by (auto simp: aims_def owned_def)
    then show ?thesis using None e [of h] s by (auto simp: find_None_iff)
  next
    case (Some k)
    then have "k \<in> set (Ani m)" "same_target (the (mem m k)) b" by (auto simp: find_Some_iff)
    then show ?thesis using Some e [of k] s by auto
  qed
qed

lemma tick_ani_ok: "(\<And>h. mem m' h = Option.bind (mem m h) (left_of fl)) \<Longrightarrow> \<forall>a\<in>ran (mem m). ani_ok (Suc n) a \<Longrightarrow> \<forall>a\<in>ran (mem m'). ani_ok n a"
  by (auto simp: ran_def bind_eq_Some_conv intro: left_of_ok)

text \<open>The thread runs on; what no animation aims at stays as it is.\<close>

lemma thread_ok:
  assumes "owned m" "all_good m" "\<forall>a\<in>ran (mem m). ani_ok n a"
  shows "\<exists>m'. DoAnimationThread call fl I n m = Ret m' \<and> owned m' \<and> all_good m' \<and> dom (mem m') \<subseteq> dom (mem m) \<and>
      (\<forall>b. akey b \<noteq> None \<longrightarrow> aims m b = {} \<longrightarrow> attr m' b = attr m b)"
  using assms
proof (induction n arbitrary: m)
  case (Suc n)
  obtain m1 where m1: "AnimationOperator call fl I m = Ret m1" "owned m1" "all_good m1" "\<And>h. mem m1 h = Option.bind (mem m h) (left_of fl)"
    "\<And>b. akey b \<noteq> None \<Longrightarrow> attr m1 b =
      (case find (\<lambda>h. same_target (the (mem m h)) b) (Ani m) of None \<Rightarrow> attr m b | Some h \<Rightarrow> Ret (tick_shows fl (the (mem m h))))"
    by (rule AnimationOperator_ok [OF Suc.prems]) blast
  from Suc.IH [OF m1(2,3) tick_ani_ok [OF m1(4) Suc.prems(3)]] obtain m' where m': "DoAnimationThread call fl I n m1 = Ret m'" "owned m'" "all_good m'"
      "dom (mem m') \<subseteq> dom (mem m1)" "\<forall>b. akey b \<noteq> None \<longrightarrow> aims m1 b = {} \<longrightarrow> attr m' b = attr m1 b" by blast
  have "dom (mem m1) \<subseteq> dom (mem m)" by (auto simp: m1(4) bind_eq_Some_conv)
  moreover have "attr m' b = attr m b" if "akey b \<noteq> None" "aims m b = {}" for b
    using m'(5) aims_tick [OF m1(4), of b] m1(5) [OF that(1)] find_aims(1) [OF Suc.prems(1) that(2)] that by simp
  ultimately show ?case using m1(1) m'(1-4) by auto
qed simp

text \<open>An animation that nobody else interferes with ends, and its attribute has then the value it was to get.\<close>

lemma animation_ends:
  assumes "owned m" "all_good m" "\<forall>a\<in>ran (mem m). ani_ok n a" "mem m h = Some a" "aims m a = {h}" "akey a \<noteq> None" "\<not> a_isLoop a"
    "a_step a - a_stepcount a \<le> int n"
  shows "\<exists>m'. DoAnimationThread call fl I n m = Ret m' \<and> owned m' \<and> all_good m' \<and> mem m' h = None \<and> attr m' a = Ret (a_end a)"
  using assms
proof (induction n arbitrary: m a)
  case 0
  then have "ani_ok 0 a" by (blast intro: ranI)
  with 0 show ?case by (simp add: ani_ok_def)
next
  case (Suc n)
  obtain m1 where m1: "AnimationOperator call fl I m = Ret m1" "owned m1" "all_good m1" "\<And>h. mem m1 h = Option.bind (mem m h) (left_of fl)"
    "\<And>b. akey b \<noteq> None \<Longrightarrow> attr m1 b =
      (case find (\<lambda>h. same_target (the (mem m h)) b) (Ani m) of None \<Rightarrow> attr m b | Some h \<Rightarrow> Ret (tick_shows fl (the (mem m h))))"
    by (rule AnimationOperator_ok [OF Suc.prems(1-3)]) blast
  note ok = tick_ani_ok [OF m1(4) Suc.prems(3)]
  note sub = aims_tick [OF m1(4), of a, unfolded Suc.prems(5)]
  show ?case
  proof (cases "left_of fl a")
    case None
    then have "aims m1 a = {}" using sub Suc.prems(4) m1(4) [of h] by (auto simp: aims_def)
    moreover have "attr m1 a = Ret (a_end a)"
      using m1(5) [OF Suc.prems(6)] find_aims(2) [OF Suc.prems(1,5)] Suc.prems(4) None by (simp add: tick_shows_def left_of_def split: if_splits)
    moreover have "mem m1 h = None" using None Suc.prems(4) by (simp add: m1(4))
    ultimately show ?thesis using thread_ok [OF m1(2,3) ok, of call fl] Suc.prems(6) m1(1) by (auto simp: dom_def)
  next
    case (Some a')
    then have h: "mem m1 h = Some a'" using Suc.prems(4) by (simp add: m1(4))
    moreover have "aims m1 a' = {h}" using sub h Some by (auto simp: aims_def left_of_target) (auto simp: same_target_def)
    moreover have "a_step a' - a_stepcount a' \<le> int n" "\<not> a_isLoop a'" "a_end a' = a_end a" using left_of_fields [OF Some] Suc.prems(7,8) by auto
    ultimately show ?thesis using Suc.IH [OF m1(2,3) ok, of a'] Suc.prems(6) m1(1) left_of_target(3,4) [OF Some] by simp
  qed
qed

text \<open>Starting, stopping and clearing: the list and the memory stay the same set, and no attribute changes.\<close>

lemma StartAnimation_ok:
  assumes "owned m" "all_good m" "h \<noteq> 0" "mem m h = None"
  shows "\<exists>m' start. StartAnimation fl I h False obj pend step duration isloop t texture idx inertia cb ctx m = Ret (h, m') \<and> owned m' \<and> all_good m' \<and>
      mem m' = (mem m)(h \<mapsto> new_animation fl obj start pend step duration isloop t texture idx inertia cb ctx) \<and> (\<forall>b. akey b \<noteq> None \<longrightarrow> attr m' b = attr m b)"
proof -
  from assms(2) have g: "good (objs m obj)" by (simp add: all_good_def)
  from set_flag [OF this, of idx True] obtain s where s: "flag_set I idx True (objs m obj) = Ret s" "good s"
    "\<forall>t' b' i'. key t' b' i' \<noteq> None \<longrightarrow> attr_get I t' b' i' s = attr_get I t' b' i' (objs m obj)" by blast
  from get_attr [OF s(2), of t texture idx] obtain start where
    st: "(if t \<in> {JA_ANI_TYPE_POSITION, JA_ANI_TYPE_SCALE, JA_ANI_TYPE_ROTATE} then attr_get I t texture idx s else Ret (vec3 0 0 0)) = Ret start" by (metis (full_types))
  define m' where "m' = m\<lparr>objs := (objs m)(obj := s), Ani := Ani m @ [h],
    mem := (mem m)(h \<mapsto> new_animation fl obj start pend step duration isloop t texture idx inertia cb ctx)\<rparr>"
  have "StartAnimation fl I h False obj pend step duration isloop t texture idx inertia cb ctx m = Ret (h, m')"
    unfolding StartAnimation_def by (simp only: s(1) st bnd_simps if_False Let_def) (simp add: assms(3) m'_def)
  moreover have "h \<notin> set (Ani m)" using assms(1,4) by (auto simp: owned_def)
  then have "owned m'" using assms(1) by (auto simp: owned_def m'_def)
  moreover have "all_good m'" using assms(2) s(2) by (simp add: all_good_def m'_def)
  moreover have "attr m' b = attr m b" if "akey b \<noteq> None" for b using s(3) that by (simp add: attr_def akey_def m'_def)
  ultimately show ?thesis by (intro exI [of _ m'] exI [of _ start]) (simp add: m'_def)
qed

lemma take_out_ok:
  assumes "owned m" "all_good m" "i < length (Ani m)" "h = Ani m ! i"
  obtains m' where "bnd (unflag I a m) (drop_ani i h) = Ret m'" "owned m'" "all_good m'" "take i (Ani m') = take i (Ani m)" "mem m' = (mem m)(h := None)"
    "\<And>b. akey b \<noteq> None \<Longrightarrow> attr m' b = attr m b"
proof -
  obtain o1 where o1: "unflag I a m = Ret (m\<lparr>objs := o1\<rparr>)" "all_good (m\<lparr>objs := o1\<rparr>)"
    "\<And>b. akey b \<noteq> None \<Longrightarrow> attr (m\<lparr>objs := o1\<rparr>) b = attr m b" by (rule unflag_ok [OF assms(2)]) blast
  define m1 where "m1 = m\<lparr>objs := o1\<rparr>"
  have m1: "owned m1" "Ani m1 = Ani m" "mem m1 = mem m" using assms(1) by (simp_all add: m1_def owned_def)
  note dr = drop_ani_ok [OF m1(1), of i h, unfolded m1(2), OF assms(3,4)]
  define m' where "m' = m1\<lparr>Ani := take i (Ani m) @ drop (Suc i) (Ani m), mem := (mem m1)(h := None)\<rparr>"
  have "bnd (unflag I a m) (drop_ani i h) = Ret m'" using o1(1) dr(1) by (simp add: m'_def m1_def)
  moreover have "all_good m'" using o1(2) by (simp add: m'_def m1_def all_good_def)
  moreover have "attr m' b = attr m b" if "akey b \<noteq> None" for b using o1(3) [OF that] by (simp add: m'_def m1_def attr_def)
  moreover have "owned m'" using dr(2) by (simp add: m'_def)
  moreover have "mem m' = (mem m)(h := None)" by (simp add: m'_def m1(3))
  moreover have "take i (Ani m') = take i (Ani m)" using assms(3) by (simp add: m'_def)
  ultimately show thesis by (intro that [of m']) blast+
qed

lemma StopAnimation_ok:
  assumes "owned m" "all_good m"
  shows "\<exists>m'. StopAnimation I h m = Ret m' \<and> owned m' \<and> all_good m' \<and> mem m' = (if h = 0 then mem m else (mem m)(h := None)) \<and>
      (\<forall>b. akey b \<noteq> None \<longrightarrow> attr m' b = attr m b)"
proof (cases "h = 0 \<or> h \<notin> set (Ani m)")
  case True
  then have "StopAnimation I h m = Ret m" using ptr_search_None [of h "Ani m"] by (auto simp: StopAnimation_def)
  moreover have "(mem m)(h := None) = mem m" if "h \<noteq> 0" using assms(1) True that by (auto simp: owned_def)
  ultimately show ?thesis using assms by (intro exI [of _ m]) simp
next
  case False
  then obtain i where i: "ptr_search h (Ani m) = Some i" "i < length (Ani m)" "h = Ani m ! i" using ptr_search_Some by blast
  from owned_nth [OF assms(1) i(2)] obtain a where a: "mem m h = Some a" using i(3) by blast
  obtain m' where "bnd (unflag I a m) (drop_ani i h) = Ret m'" "owned m'" "all_good m'" "mem m' = (mem m)(h := None)"
      "\<And>b. akey b \<noteq> None \<Longrightarrow> attr m' b = attr m b" by (rule take_out_ok [OF assms i(2,3), of a]) blast
  then show ?thesis using False i(1) a by (auto simp: StopAnimation_def)
qed

lemma clear_loop_ok:
  assumes "owned m" "all_good m" "i \<le> length (Ani m)"
  shows "\<exists>m'. clear_loop I P i m = Ret m' \<and> owned m' \<and> all_good m' \<and>
      mem m' = (\<lambda>h. if h \<in> set (take i (Ani m)) \<and> P (the (mem m h)) then None else mem m h) \<and> (\<forall>b. akey b \<noteq> None \<longrightarrow> attr m' b = attr m b)"
  using assms
proof (induction i arbitrary: m)
  case (Suc i)
  define h where "h = Ani m ! i"
  have i: "i < length (Ani m)" using Suc.prems(3) by simp
  then obtain a where a: "mem m h = Some a" using owned_nth [OF Suc.prems(1)] h_def by blast
  have tk: "take (Suc i) (Ani m) = take i (Ani m) @ [h]" using i by (simp add: h_def take_Suc_conv_app_nth)
  have "distinct (take (Suc i) (Ani m))" using Suc.prems(1) by (simp add: owned_def)
  then have nh: "h \<notin> set (take i (Ani m))" using tk by simp
  obtain m1 where m1: "(if P a then bnd (unflag I a m) (drop_ani i h) else Ret m) = Ret m1" "owned m1" "all_good m1" "take i (Ani m1) = take i (Ani m)"
      "mem m1 = (if P a then (mem m)(h := None) else mem m)" "\<And>b. akey b \<noteq> None \<Longrightarrow> attr m1 b = attr m b"
  proof (cases "P a")
    case True
    then show thesis using take_out_ok [OF Suc.prems(1,2) i h_def, of a thesis] that by simp
  qed (use Suc.prems that [of m] in simp)
  have i1: "i \<le> length (Ani m1)" using arg_cong [OF m1(4), of length] i by simp
  from Suc.IH [OF m1(2,3) i1] obtain m' where m': "clear_loop I P i m1 = Ret m'" "owned m'" "all_good m'"
      "mem m' = (\<lambda>h. if h \<in> set (take i (Ani m)) \<and> P (the (mem m1 h)) then None else mem m1 h)" "\<forall>b. akey b \<noteq> None \<longrightarrow> attr m' b = attr m1 b"
    unfolding m1(4) by blast
  have "mem m' = (\<lambda>k. if k \<in> set (take (Suc i) (Ani m)) \<and> P (the (mem m k)) then None else mem m k)"
    using nh a by (auto simp: m'(4) m1(5) tk)
  moreover have "clear_loop I P (Suc i) m = bnd (if P a then bnd (unflag I a m) (drop_ani i h) else Ret m) (clear_loop I P i)"
    using i a by (simp add: ptr_at_def h_def [symmetric])
  then have "clear_loop I P (Suc i) m = Ret m'" by (simp only: m1(1) m'(1) bnd_simps)
  ultimately show ?case using m'(2,3,5) m1(6) by (intro exI [of _ m']) simp
qed simp

lemma clear_ok:
  assumes "owned m" "all_good m"
  shows "\<exists>m'. clear_loop I P (length (Ani m)) m = Ret m' \<and> owned m' \<and> all_good m' \<and> (\<forall>h. mem m' h = (case mem m h of Some a \<Rightarrow> if P a then None else Some a | None \<Rightarrow> None)) \<and>
      (\<forall>b. akey b \<noteq> None \<longrightarrow> attr m' b = attr m b)"
proof -
  have "(if h \<in> set (Ani m) \<and> P (the (mem m h)) then None else mem m h) = (case mem m h of Some a \<Rightarrow> if P a then None else Some a | None \<Rightarrow> None)" for h
    using assms(1) by (cases "mem m h") (auto simp: owned_def)
  moreover obtain m' where "clear_loop I P (length (Ani m)) m = Ret m'" "owned m'" "all_good m'" "\<forall>b. akey b \<noteq> None \<longrightarrow> attr m' b = attr m b"
      "mem m' = (\<lambda>h. if h \<in> set (Ani m) \<and> P (the (mem m h)) then None else mem m h)"
    using clear_loop_ok [OF assms order_refl, of P] by auto
  ultimately show ?thesis by (intro exI [of _ m']) simp
qed

end

section \<open>Sequences of calls\<close>

text \<open>The calls, with the address that \<open>malloc\<close> gives to a new animation.\<close>

datatype ani_call =
    Start nat nat KSVec3 int int bool int bool int bool
  | Stop nat
  | Clear "nat set"
  | ClearIndex int
  | Round

definition ani_call_step :: "fl \<Rightarrow> 's isurface \<Rightarrow> ani_call \<Rightarrow> 's manager \<Rightarrow> 's manager outcome" where
  "ani_call_step fl I c m =
     (case c of
        Start h obj pend step duration isloop t texture idx inertia \<Rightarrow>
          bnd (StartAnimation fl I h False obj pend step duration isloop t texture idx inertia None 0 m) (\<lambda>(_, m). Ret m)
      | Stop h \<Rightarrow> StopAnimation I h m
      | Clear loadings \<Rightarrow> ClearAnimation I loadings m
      | ClearIndex i \<Rightarrow> ClearAnimation_index I i m
      | Round \<Rightarrow> AnimationOperator (\<lambda>_ _. Ret) fl I m)"

text \<open>Addresses of new animations are not in use, and an animation that is to end has a number of steps.\<close>

fun ani_calls :: "fl \<Rightarrow> 's isurface \<Rightarrow> ani_call list \<Rightarrow> 's manager \<Rightarrow> 's manager outcome" where
  "ani_calls fl I [] m = Ret m"
| "ani_calls fl I (c # cs) m = bnd (ani_call_step fl I c m) (ani_calls fl I cs)"

definition call_ok :: "'s manager \<Rightarrow> ani_call \<Rightarrow> bool" where
  "call_ok m c = (case c of Start h obj pend step duration isloop t texture idx inertia \<Rightarrow> h \<noteq> 0 \<and> mem m h = None \<and> (isloop \<or> 0 < step) | _ \<Rightarrow> True)"

fun calls_ok :: "fl \<Rightarrow> 's isurface \<Rightarrow> ani_call list \<Rightarrow> 's manager \<Rightarrow> bool" where
  "calls_ok fl I [] m = True"
| "calls_ok fl I (c # cs) m = (call_ok m c \<and> (case ani_call_step fl I c m of Ret m \<Rightarrow> calls_ok fl I cs m | _ \<Rightarrow> True))"

definition rounds :: "ani_call list \<Rightarrow> nat" where
  "rounds cs = length (filter (\<lambda>c. c = Round) cs)"

lemma rounds_Cons: "rounds (c # cs) = (if c = Round then Suc (rounds cs) else rounds cs)"
  by (simp add: rounds_def)

context animated_surface
begin

lemma call_step_ok:
  assumes "owned m" "all_good m" "\<forall>a\<in>ran (mem m). ani_ok n a" "call_ok m c" "c = Round \<longrightarrow> n = Suc k" "c \<noteq> Round \<longrightarrow> n = k" "k < 2 ^ 31"
  shows "\<exists>m'. ani_call_step fl I c m = Ret m' \<and> owned m' \<and> all_good m' \<and> (\<forall>a\<in>ran (mem m'). ani_ok k a)"
proof (cases c)
  case (Start h obj pend step duration isloop t texture idx inertia)
  then have c: "h \<noteq> 0" "mem m h = None" "isloop \<or> 0 < step" using assms(4) by (simp_all add: call_ok_def)
  have new: "ani_ok k (new_animation fl obj start pend step duration isloop t texture idx inertia None 0)" for start
    using c(3) assms(7) by (auto simp: ani_ok_def new_animation_def Let_def)
  from StartAnimation_ok [OF assms(1,2) c(1,2), of fl obj pend step duration isloop t texture idx inertia None 0]
  show ?thesis using new assms(3,6) c(2) by (fastforce simp: ani_call_step_def Start ran_def split: if_splits)
next
  case (Stop h)
  from StopAnimation_ok [OF assms(1,2), of h] show ?thesis using assms(3,6) by (fastforce simp: ani_call_step_def Stop ran_def split: if_splits)
next
  case (Clear L)
  from clear_ok [OF assms(1,2), of "\<lambda>a. a_obj a \<notin> L"] show ?thesis
    using assms(3,6) by (fastforce simp: ani_call_step_def ClearAnimation_def Clear ran_def split: if_splits option.splits)
next
  case (ClearIndex i)
  from clear_ok [OF assms(1,2), of "\<lambda>a. a_index a = i"] show ?thesis
    using assms(3,6) by (fastforce simp: ani_call_step_def ClearAnimation_index_def ClearIndex ran_def split: if_splits option.splits)
next
  case Round
  then have ok: "\<forall>a\<in>ran (mem m). ani_ok (Suc k) a" using assms(3,5) by simp
  obtain m' where "AnimationOperator (\<lambda>_ _. Ret) fl I m = Ret m'" "owned m'" "all_good m'" "\<And>h. mem m' h = Option.bind (mem m h) (left_of fl)"
    by (rule AnimationOperator_ok [OF assms(1,2) ok]) blast
  then show ?thesis using tick_ani_ok [OF _ ok, of m' fl] by (simp add: ani_call_step_def Round)
qed

lemma calls_run:
  assumes "owned m" "all_good m" "\<forall>a\<in>ran (mem m). ani_ok (rounds cs) a" "calls_ok fl I cs m" "rounds cs < 2 ^ 31"
  shows "\<exists>m'. ani_calls fl I cs m = Ret m' \<and> owned m' \<and> all_good m'"
  using assms
proof (induction cs arbitrary: m)
  case (Cons c cs)
  have r: "c = Round \<longrightarrow> rounds (c # cs) = Suc (rounds cs)" "c \<noteq> Round \<longrightarrow> rounds (c # cs) = rounds cs" "rounds cs < 2 ^ 31"
    using Cons.prems(5) by (auto simp: rounds_Cons split: if_splits)
  from Cons.prems(4) have "call_ok m c" by simp
  from call_step_ok [OF Cons.prems(1-3) this r, of fl] obtain m1 where m1: "ani_call_step fl I c m = Ret m1" "owned m1" "all_good m1"
    "\<forall>a\<in>ran (mem m1). ani_ok (rounds cs) a" by blast
  with Cons.IH [OF m1(2-4) _ r(3)] Cons.prems(4) show ?case by simp
qed simp

end

section \<open>Animations of the video wall and of single surfaces\<close>

definition wall_set :: "fl \<Rightarrow> int \<Rightarrow> KSVec3 \<Rightarrow> bool \<Rightarrow> int \<Rightarrow> normal_screen \<Rightarrow> normal_screen outcome" where
  "wall_set fl t v texture index s =
     (if t = JA_ANI_TYPE_POSITION then NormalScreen_SetPosition fl v texture index s
      else if t = JA_ANI_TYPE_ROTATE then NormalScreen_setRotate v texture index s
      else if t = JA_ANI_TYPE_SCALE then NormalScreen_SetScale fl v texture index s
      else Ret s)"

definition wall_get :: "int \<Rightarrow> bool \<Rightarrow> int \<Rightarrow> normal_screen \<Rightarrow> KSVec3 outcome" where
  "wall_get t texture index s =
     (if t = JA_ANI_TYPE_POSITION then NormalScreen_GetPosition texture index s
      else if t = JA_ANI_TYPE_SCALE then NormalScreen_GetScale texture index s
      else if t = JA_ANI_TYPE_ROTATE then NormalScreen_GetRotate texture index s
      else Ret (vec3 0 0 0))"

definition wall :: "fl \<Rightarrow> normal_screen isurface" where
  "wall fl = \<lparr>attr_set = wall_set fl, attr_get = wall_get, flag_set = NormalScreen_SetIsAnimation\<rparr>"

text \<open>
  The attributes of the rectangles of the thirty-six videos. Those of the pictures in the rectangles are not among them: their setters keep to limits, and the one for
  the scale moves the picture too.
\<close>

definition wall_key :: "int \<Rightarrow> bool \<Rightarrow> int \<Rightarrow> (int \<times> int) option" where
  "wall_key t texture index =
     (if \<not> texture \<and> 0 \<le> index \<and> index \<le> 35 \<and> t \<in> {JA_ANI_TYPE_POSITION, JA_ANI_TYPE_SCALE, JA_ANI_TYPE_ROTATE} then Some (t, index) else None)"

definition wall_good :: "normal_screen \<Rightarrow> bool" where
  "wall_good s \<longleftrightarrow> length (mVideo s) = 36"

definition video_attr :: "int \<Rightarrow> normal_play \<Rightarrow> KSVec3" where
  "video_attr t v =
     (if t = JA_ANI_TYPE_POSITION then GetPosition False (surf v) else if t = JA_ANI_TYPE_SCALE then GetScale False (surf v) else GetRotate False (surf v))"

definition video_put :: "fl \<Rightarrow> int \<Rightarrow> KSVec3 \<Rightarrow> bool \<Rightarrow> normal_play \<Rightarrow> normal_play" where
  "video_put fl t v texture =
     (if t = JA_ANI_TYPE_POSITION then NormalPlay_SetPosition fl v texture
      else if t = JA_ANI_TYPE_ROTATE then NormalPlay_setRotate v texture
      else if t = JA_ANI_TYPE_SCALE then NormalPlay_SetScale fl v texture else id)"

lemma get_set:
  "GetPosition b' (SetPosition v b s) = (if b = b' then v else GetPosition b' s)"
  "GetScale b' (SetScale v b s) = (if b = b' then v else GetScale b' s)"
  "GetRotate b' (setRotate v b s) = (if b = b' then v else GetRotate b' s)"
  "GetPosition b' (SetScale v b s) = GetPosition b' s" "GetPosition b' (setRotate v b s) = GetPosition b' s"
  "GetScale b' (SetPosition v b s) = GetScale b' s" "GetScale b' (setRotate v b s) = GetScale b' s"
  "GetRotate b' (SetPosition v b s) = GetRotate b' s" "GetRotate b' (SetScale v b s) = GetRotate b' s"
  by (simp_all add: GetPosition_def GetScale_def GetRotate_def SetPosition_def SetScale_def setRotate_def)

lemma surf_BaseScreen_SetPosition: "surf (BaseScreen_SetPosition fl pos b p) = SetPosition pos b (surf p)"
  by (simp add: BaseScreen_SetPosition_def Let_def)

lemma surf_setters:
  "surf (NormalPlay_SetPosition fl v b p) = SetPosition (if b then clamped (pan_limits fl p (vx (GetScale True (surf p)))) v else v) b (surf p)"
  "surf (NormalPlay_setRotate v b p) = setRotate v b (surf p)"
  "surf (NormalPlay_SetScale fl v b p) =
     (if \<not> b then SetScale v b (surf p) else if vx v < 1 then surf p
      else SetScale v b (SetPosition (clamped (pan_limits fl p (vx v)) (GetPosition True (surf p))) True (surf p)))"
  by (simp_all add: NormalPlay_SetPosition_def NormalPlay_setRotate_def NormalPlay_SetScale_def Let_def surf_BaseScreen_SetPosition)

lemma video_attr_put:
  assumes "t' \<in> {JA_ANI_TYPE_POSITION, JA_ANI_TYPE_SCALE, JA_ANI_TYPE_ROTATE}"
  shows "video_attr t' (video_put fl t v texture p) = (if t = t' \<and> \<not> texture then v else video_attr t' p)"
proof -
  have "t' = 0 \<or> t' = 1 \<or> t' = 2" using assms by (simp add: ani_types)
  then show ?thesis by (elim disjE) (simp_all add: video_attr_def video_put_def ani_types surf_setters get_set)
qed

lemma wall_set_eq: "wall_good s \<Longrightarrow> wall_set fl t v texture index s =
    (if 0 \<le> index \<and> index \<le> 35 then Ret (s\<lparr>mVideo := (mVideo s)[nat index := video_put fl t v texture (mVideo s ! nat index)]\<rparr>) else Ret s)"
  by (auto simp: wall_set_def video_put_def wall_good_def NormalScreen_SetPosition_def NormalScreen_SetScale_def NormalScreen_setRotate_def video_upd_def)

lemma wall_get_eq: "wall_good s \<Longrightarrow> wall_key t texture index \<noteq> None \<Longrightarrow> wall_get t texture index s = Ret (video_attr t (mVideo s ! nat index))"
  by (auto simp: wall_get_def video_attr_def wall_good_def wall_key_def NormalScreen_GetPosition_def NormalScreen_GetScale_def NormalScreen_GetRotate_def
    video_get_def ani_types split: if_splits)

lemma wall_get_ret: "wall_good s \<Longrightarrow> \<exists>v. wall_get t texture index s = Ret v"
  by (auto simp: wall_get_def wall_good_def NormalScreen_GetPosition_def NormalScreen_GetScale_def NormalScreen_GetRotate_def video_get_def)

lemma wall_flag_eq: "wall_good s \<Longrightarrow> NormalScreen_SetIsAnimation index f s =
    (if 0 \<le> index \<and> index \<le> 35 then Ret (s\<lparr>mVideo := (mVideo s)[nat index := SetIsAnimation f (mVideo s ! nat index)]\<rparr>) else Ret s)"
  by (auto simp: wall_good_def NormalScreen_SetIsAnimation_def video_upd_def)

lemma wall_good_upd [simp]: "wall_good (s\<lparr>mVideo := (mVideo s)[i := v]\<rparr>) = wall_good s"
  by (simp add: wall_good_def)

lemma wall_get_upd:
  assumes "wall_good s" "wall_key t' b' i' \<noteq> None" "0 \<le> i" "i \<le> 35"
  shows "wall_get t' b' i' (s\<lparr>mVideo := (mVideo s)[nat i := p]\<rparr>) = (if i' = i then Ret (video_attr t' p) else wall_get t' b' i' s)"
proof -
  have "nat i' \<noteq> nat i" if "i' \<noteq> i" using assms that by (auto simp: wall_key_def split: if_splits)
  moreover have "nat i < length (mVideo s)" using assms by (simp add: wall_good_def)
  ultimately show ?thesis using assms by (auto simp: wall_get_eq nth_list_update)
qed

interpretation wall: animated_surface "wall fl" wall_good wall_key for fl
proof unfold_locales
  fix s t v b i assume g: "wall_good s"
  show "\<exists>s'. attr_set (wall fl) t v b i s = Ret s' \<and> wall_good s' \<and>
      (\<forall>t' b' i'. wall_key t' b' i' \<noteq> None \<longrightarrow> attr_get (wall fl) t' b' i' s' = (if wall_key t b i = wall_key t' b' i' then Ret v else attr_get (wall fl) t' b' i' s))"
  proof (cases "0 \<le> i \<and> i \<le> 35")
    case True
    have "wall_get t' b' i' (s\<lparr>mVideo := (mVideo s)[nat i := video_put fl t v b (mVideo s ! nat i)]\<rparr>) =
        (if wall_key t b i = wall_key t' b' i' then Ret v else wall_get t' b' i' s)" if k: "wall_key t' b' i' \<noteq> None" for t' b' i'
    proof -
      from k have k': "\<not> b'" "t' \<in> {JA_ANI_TYPE_POSITION, JA_ANI_TYPE_SCALE, JA_ANI_TYPE_ROTATE}" "wall_key t' b' i' = Some (t', i')"
        by (auto simp: wall_key_def split: if_splits)
      then have "wall_key t b i = wall_key t' b' i' \<longleftrightarrow> t = t' \<and> \<not> b \<and> i = i'" using True by (auto simp: wall_key_def split: if_splits)
      then show ?thesis using wall_get_upd [OF g k] True wall_get_eq [OF g k] video_attr_put [OF k'(2)] by simp
    qed
    with g True show ?thesis by (simp add: wall_def wall_set_eq)
  next
    case False
    then have "wall_key t b i = None" by (auto simp: wall_key_def)
    with g False show ?thesis by (auto simp: wall_def wall_set_eq)
  qed
next
  fix s i f assume g: "wall_good s"
  have "wall_get t' b' i' (s\<lparr>mVideo := (mVideo s)[nat i := SetIsAnimation f (mVideo s ! nat i)]\<rparr>) = wall_get t' b' i' s"
    if "wall_key t' b' i' \<noteq> None" "0 \<le> i" "i \<le> 35" for t' b' i'
    using wall_get_upd [OF g that] wall_get_eq [OF g that(1)] by (simp add: video_attr_def SetIsAnimation_def)
  then show "\<exists>s'. flag_set (wall fl) i f s = Ret s' \<and> wall_good s' \<and>
      (\<forall>t' b' i'. wall_key t' b' i' \<noteq> None \<longrightarrow> attr_get (wall fl) t' b' i' s' = attr_get (wall fl) t' b' i' s)"
    using g by (cases "0 \<le> i \<and> i \<le> 35") (auto simp: wall_def wall_flag_eq)
qed (auto simp: wall_def wall_get_ret wall_key_def split: if_splits)

text \<open>A surface that is no video, as the sign that a video is loading.\<close>

definition surface_set :: "int \<Rightarrow> KSVec3 \<Rightarrow> bool \<Rightarrow> int \<Rightarrow> surface \<Rightarrow> surface outcome" where
  "surface_set t v texture index s =
     Ret (if t = JA_ANI_TYPE_POSITION then SetPosition v texture s
          else if t = JA_ANI_TYPE_ROTATE then setRotate v texture s
          else if t = JA_ANI_TYPE_SCALE then SetScale v texture s
          else s)"

definition surface_get :: "int \<Rightarrow> bool \<Rightarrow> int \<Rightarrow> surface \<Rightarrow> KSVec3 outcome" where
  "surface_get t texture index s =
     Ret (if t = JA_ANI_TYPE_POSITION then GetPosition texture s
          else if t = JA_ANI_TYPE_SCALE then GetScale texture s
          else if t = JA_ANI_TYPE_ROTATE then GetRotate texture s
          else vec3 0 0 0)"

definition single :: "surface isurface" where
  "single = \<lparr>attr_set = surface_set, attr_get = surface_get, flag_set = (\<lambda>index animation. Ret)\<rparr>"

definition single_key :: "int \<Rightarrow> bool \<Rightarrow> int \<Rightarrow> (int \<times> bool) option" where
  "single_key t texture index = (if t \<in> {JA_ANI_TYPE_POSITION, JA_ANI_TYPE_SCALE, JA_ANI_TYPE_ROTATE} then Some (t, texture) else None)"

lemma surface_get_set: "t' \<in> {JA_ANI_TYPE_POSITION, JA_ANI_TYPE_SCALE, JA_ANI_TYPE_ROTATE} \<Longrightarrow>
    bnd (surface_set t v b i s) (surface_get t' b' i') = (if t = t' \<and> b = b' then Ret v else surface_get t' b' i' s)"
  by (elim insertE) (simp_all add: surface_set_def surface_get_def get_set ani_types)

interpretation single: animated_surface single "\<lambda>_. True" single_key
proof unfold_locales
  fix s t v b i
  obtain s' where s': "surface_set t v b i s = Ret s'" by (simp add: surface_set_def)
  have "surface_get t' b' i' s' = (if single_key t b i = single_key t' b' i' then Ret v else surface_get t' b' i' s)" if k: "single_key t' b' i' \<noteq> None" for t' b' i'
  proof -
    from k have t': "t' \<in> {JA_ANI_TYPE_POSITION, JA_ANI_TYPE_SCALE, JA_ANI_TYPE_ROTATE}" by (auto simp: single_key_def split: if_splits)
    then have "single_key t b i = single_key t' b' i' \<longleftrightarrow> t = t' \<and> b = b'" by (auto simp: single_key_def)
    then show ?thesis using surface_get_set [OF t', of t v b i s b' i'] s' by simp
  qed
  with s' show "\<exists>s'. attr_set single t v b i s = Ret s' \<and> True \<and> (\<forall>t' b' i'. single_key t' b' i' \<noteq> None \<longrightarrow>
      attr_get single t' b' i' s' = (if single_key t b i = single_key t' b' i' then Ret v else attr_get single t' b' i' s))" by (simp add: single_def)
qed (auto simp: single_def surface_get_def single_key_def split: if_splits)

section \<open>Properties\<close>

text \<open>
  C13: an animation of a video on the wall that is started with a positive number of steps, and that no other animation interferes with, is over after that number of
  rounds of the thread: it is out of the list, its memory is free, and the rectangle has exactly the position, scale or rotation that was asked for, with
  rounding at each step or not. None of the calls fails.
\<close>

theorem wall_animation_ends:
  assumes "\<forall>x. wall_good (objs m x)" "owned m" "h \<noteq> 0" "mem m h = None" "\<forall>a\<in>ran (mem m). ani_ok (nat step) a"
    and "\<forall>a\<in>ran (mem m). \<not> (a_obj a = obj \<and> a_type a = t \<and> \<not> a_istexture a \<and> a_index a = index)"
    and "0 < step" "step < 2 ^ 31" "0 \<le> index" "index \<le> 35" "t \<in> {JA_ANI_TYPE_POSITION, JA_ANI_TYPE_SCALE, JA_ANI_TYPE_ROTATE}"
  shows "\<exists>m1 m2. StartAnimation fl (wall fl) h False obj pend step duration False t False index inertia None ctx m = Ret (h, m1) \<and>
      DoAnimationThread call fl (wall fl) (nat step) m1 = Ret m2 \<and>
      owned m2 \<and> mem m2 h = None \<and> h \<notin> set (Ani m2) \<and> wall_get t False index (objs m2 obj) = Ret pend"
proof -
  have g: "wall.all_good m" using assms(1) by (simp add: wall.all_good_def)
  from wall.StartAnimation_ok [OF assms(2) g assms(3,4), of fl fl obj pend step duration False t False index inertia None ctx] obtain m1 start where
    m1: "StartAnimation fl (wall fl) h False obj pend step duration False t False index inertia None ctx m = Ret (h, m1)" "owned m1" "wall.all_good m1"
      "mem m1 = (mem m)(h \<mapsto> new_animation fl obj start pend step duration False t False index inertia None ctx)" by blast
  define a where "a = new_animation fl obj start pend step duration False t False index inertia None ctx"
  have a: "a_obj a = obj" "a_type a = t" "\<not> a_istexture a" "a_index a = index" "a_end a = pend" "\<not> a_isLoop a" "a_step a = step" "a_stepcount a = 0" "a_OnEnd a = None"
    by (simp_all add: a_def new_animation_def Let_def)
  have k: "wall.akey a = Some (t, index)" using a assms(9-11) by (simp add: wall.akey_def wall_key_def)
  have "ani_ok (nat step) a" using a assms(7,8) by (simp add: ani_ok_def)
  with assms(5) have ok: "\<forall>a\<in>ran (mem m1). ani_ok (nat step) a" using assms(4) by (simp add: m1(4) a_def)
  have "\<not> wall.same_target b a" if "b \<in> ran (mem m)" for b
    using assms(6) that k a(1) by (auto simp: wall.same_target_def wall.akey_def wall_key_def split: if_splits)
  then have "wall.aims m1 a = {h}" using assms(4) by (auto simp: wall.aims_def m1(4) a_def [symmetric] wall.same_target_def ran_def)
  from wall.animation_ends [OF m1(2,3) ok _ this, of call fl fl] obtain m2 where m2: "DoAnimationThread call fl (wall fl) (nat step) m1 = Ret m2" "owned m2"
      "mem m2 h = None" "wall.attr fl m2 a = Ret pend"
    using k a assms(7) by (auto simp: m1(4) a_def [symmetric])
  moreover have "h \<notin> set (Ani m2)" using m2(2,3) by (auto simp: owned_def)
  moreover have "wall_get t False index (objs m2 obj) = Ret pend" using m2(4) [unfolded wall.attr_def] a(1-4) by (simp add: wall_def)
  ultimately show ?thesis using m1(1) by blast
qed

text \<open>
  C14: from an empty list, every sequence of starts, stops, clears and rounds of the thread runs without undefined behaviour: no animation is used after it was
  freed, no place behind the end of the list is read, and at the end the list holds exactly the animations that are allocated, each once. The animations
  have a positive number of steps or run for ever, report their end to nobody, and there are less than \<open>2 ^ 31\<close> rounds.
\<close>

theorem wall_animations_safe:
  assumes "\<forall>x. wall_good (objs m x)" "Ani m = []" "mem m = Map.empty" "calls_ok fl (wall fl) cs m" "rounds cs < 2 ^ 31"
  shows "\<exists>m'. ani_calls fl (wall fl) cs m = Ret m' \<and> distinct (Ani m') \<and> set (Ani m') = dom (mem m') \<and> (\<forall>x. wall_good (objs m' x))"
proof -
  have "owned m" "wall.all_good m" "\<forall>a\<in>ran (mem m). ani_ok (rounds cs) a" using assms(1-3) by (simp_all add: owned_def wall.all_good_def)
  from wall.calls_run [OF this assms(4,5)] show ?thesis by (auto simp: owned_def wall.all_good_def)
qed

definition demo_manager :: "normal_screen manager" where
  "demo_manager = \<lparr>objs = (\<lambda>_. demo_wall 1 0), Ani = [], mem = Map.empty\<rparr>"

theorem wall_animation_ends_witness:
  "\<exists>m1 m2. StartAnimation exact (wall exact) 8 False 0 (vec3 1 2 0) 20 200 False JA_ANI_TYPE_SCALE False 3 True None 0 demo_manager = Ret (8, m1) \<and>
      DoAnimationThread (\<lambda>_ _. Ret) exact (wall exact) (nat 20) m1 = Ret m2 \<and>
      owned m2 \<and> mem m2 8 = None \<and> 8 \<notin> set (Ani m2) \<and> wall_get JA_ANI_TYPE_SCALE False 3 (objs m2 0) = Ret (vec3 1 2 0)"
  by (rule wall_animation_ends) (simp_all add: demo_manager_def demo_wall_def wall_good_def owned_def)

theorem wall_animations_safe_witness:
  "\<exists>m'. ani_calls exact (wall exact) [Round, Start 8 0 (vec3 1 2 0) 20 200 False JA_ANI_TYPE_SCALE False 3 True] demo_manager = Ret m' \<and>
      distinct (Ani m') \<and> set (Ani m') = dom (mem m') \<and> (\<forall>x. wall_good (objs m' x))"
  by (rule wall_animations_safe)
    (simp_all add: demo_manager_def demo_wall_def wall_good_def call_ok_def ani_call_step_def AnimationOperator_def rounds_def split: outcome.split)

end
