(* ===== verification/FishEyeCrop.thy ===== *)
theory FishEyeCrop
  imports CFloat
begin

text \<open>
  \<^verbatim>\<open>gles/Media/JAPlayer.cpp\<close>: how the player finds the picture of a fish-eye camera in a video frame and chooses the part that it shows. Decoding and
  scaling are done by ffmpeg and are not modelled: a frame is its luminance plane, \<open>buf\<close> with \<open>linesize\<close> bytes per line.
\<close>

section \<open>State\<close>

record player =
  mCropFishEye :: bool
  mCropCut :: bool
  mWallMode :: int
  mCropLeft :: int
  mCropTop :: int
  mCropRight :: int
  mCropBottom :: int
  mCropWidth :: int
  mCropHeight :: int
  mVideoWidth :: int
  mVideoHeight :: int

definition VideoWidth :: "player \<Rightarrow> int" where
  "VideoWidth p = (if mCropFishEye p then mCropWidth p else mVideoWidth p)"

definition VideoHeight :: "player \<Rightarrow> int" where
  "VideoHeight p = (if mCropFishEye p then (if \<not> mCropCut p then mCropHeight p else mCropWidth p) else mVideoHeight p)"

section \<open>The circle\<close>

text \<open>The thresholded picture; a byte of it is \<open>dbuf\<close> at \<open>y * mVideoWidth + x\<close>.\<close>

definition threshold :: "nat \<Rightarrow> nat \<Rightarrow> byte list \<Rightarrow> nat \<Rightarrow> byte \<Rightarrow> bool list" where
  "threshold w h buf linesize opt = concat (map (\<lambda>y. map (\<lambda>x. opt < buf ! (y * linesize + x)) [0..<w]) [0..<h])"

text \<open>A scan of a line or a column stops at the first bright point, which moves the border \<open>b\<close> when it lies beyond it.\<close>

fun scan_line :: "(nat \<Rightarrow> bool) \<Rightarrow> (int \<Rightarrow> int \<Rightarrow> bool) \<Rightarrow> nat list \<Rightarrow> int \<Rightarrow> int" where
  "scan_line bright beyond [] b = b"
| "scan_line bright beyond (x # xs) b = (if bright x then (if beyond (int x) b then int x else b) else scan_line bright beyond xs b)"

fun scan_lines :: "(nat \<Rightarrow> nat \<Rightarrow> bool) \<Rightarrow> (int \<Rightarrow> int \<Rightarrow> bool) \<Rightarrow> nat list \<Rightarrow> nat list \<Rightarrow> int \<Rightarrow> int" where
  "scan_lines bright beyond [] xs b = b"
| "scan_lines bright beyond (y # ys) xs b = scan_lines bright beyond ys xs (scan_line (bright y) beyond xs b)"

text \<open>The four borders: left, right, top, bottom.\<close>

definition TestCircRound :: "bool \<Rightarrow> nat \<Rightarrow> nat \<Rightarrow> byte list \<Rightarrow> nat \<Rightarrow> byte \<Rightarrow> (int \<times> int \<times> int \<times> int) outcome" where
  "TestCircRound malloc_ok w h buf linesize opt =
     (if \<not> in32 (int w * int h) \<or> \<not> in32 (int h * 2) \<or> 0 < w \<and> 0 < h \<and> \<not> in32 (int (h - 1) * int linesize + int (w - 1)) then UB SignedOverflow
      else if \<not> malloc_ok then UB NullDeref
      else if 0 < w \<and> 0 < h \<and> length buf \<le> (h - 1) * linesize + (w - 1) then UB OobRead
      else
        let dbuf = threshold w h buf linesize opt; on = (\<lambda>y x. dbuf ! (y * w + x));
            minx = scan_lines on (<) [h div 3..<h * 2 div 3] [10..<w] (int w - 1);
            maxx = scan_lines on (>) [h div 3..<h * 2 div 3] (rev [0..<w]) 0;
            miny = scan_lines (\<lambda>x y. on y x) (<) [w div 3..<w div 2] [0..<h] (int h);
            maxy = scan_lines (\<lambda>x y. on y x) (>) [w div 3..<w div 2] (rev [1..<h]) 0 in
        Ret (minx, maxx, miny, maxy))"

section \<open>The crop\<close>

text \<open>\<open>a1 > 1.28\<close>: a quotient of type \<open>float\<close> against a constant of type \<open>double\<close>.\<close>

definition wide :: "int \<Rightarrow> int \<Rightarrow> bool" where
  "wide w h \<longleftrightarrow> f_lt (f_of_rat b64 (128 / 100)) (f_conv b64 (f_div b32 (f_of_int b32 w) (f_of_int b32 h)))"

text \<open>The part of \<open>DoScale\<close> that chooses what is shown.\<close>

definition DoScale_crop :: "bool \<Rightarrow> byte list \<Rightarrow> nat \<Rightarrow> player \<Rightarrow> player outcome" where
  "DoScale_crop malloc_ok buf linesize p =
     (if mCropFishEye p then
        if mCropWidth p = 0 \<and> mCropHeight p = 0 then
          bnd (TestCircRound malloc_ok (nat (mVideoWidth p)) (nat (mVideoHeight p)) buf linesize 80) (\<lambda>(l, r, t, b).
            let w = r - l; h = b - t; w = (if c_mod w 2 \<noteq> 0 then w + 1 else w); h = (if c_mod h 2 \<noteq> 0 then h + 1 else h) in
            Ret (p\<lparr>mCropLeft := l, mCropRight := r, mCropTop := t, mCropBottom := b, mCropWidth := w, mCropHeight := h,
              mWallMode := if wide w h then 1 else 0, mCropCut := False\<rparr>))
        else Ret p
      else if mCropWidth p \<noteq> 0 then
        Ret (p\<lparr>mCropWidth := 0, mCropHeight := 0, mCropLeft := 0, mCropTop := 0, mCropRight := 0, mCropBottom := 0\<rparr>)
      else Ret p)"

section \<open>Scanning for a border\<close>

text \<open>\<open>beyond\<close> is the order in which a scan runs; the border is the first bright point in that order.\<close>

locale scan_order =
  fixes beyond :: "int \<Rightarrow> int \<Rightarrow> bool"
  assumes beyond_trans: "beyond a b \<Longrightarrow> beyond b c \<Longrightarrow> beyond a c"
    and beyond_irrefl: "\<not> beyond a a"
    and beyond_total: "a \<noteq> b \<Longrightarrow> beyond a b \<or> beyond b a"
begin

definition border_of :: "int \<Rightarrow> int set \<Rightarrow> int \<Rightarrow> bool" where
  "border_of b S m \<longleftrightarrow> (m = b \<or> m \<in> S) \<and> \<not> beyond b m \<and> (\<forall>x \<in> S. \<not> beyond x m)"

lemma not_beyond_trans: "\<not> beyond a b \<Longrightarrow> \<not> beyond b c \<Longrightarrow> \<not> beyond a c"
  by (metis beyond_trans beyond_irrefl beyond_total)

lemma border_of_empty: "border_of b {} b"
  by (simp add: border_of_def beyond_irrefl)

lemma border_of_union: "border_of b S m \<Longrightarrow> border_of m T n \<Longrightarrow> border_of b (S \<union> T) n"
  unfolding border_of_def by (metis Un_iff not_beyond_trans)

lemma scan_line_border:
  assumes "sorted_wrt (\<lambda>x y. beyond (int x) (int y)) xs"
  shows "border_of b {int x |x. x \<in> set xs \<and> bright x} (scan_line bright beyond xs b)"
  using assms
proof (induction xs)
  case (Cons x xs)
  show ?case
  proof (cases "bright x")
    case True
    have first: "\<not> beyond (int z) (int x)" if "z \<in> set (x # xs)" for z
    proof (cases "z = x")
      case False
      then have "beyond (int x) (int z)" using that Cons.prems by auto
      then show ?thesis using beyond_trans beyond_irrefl by blast
    qed (simp add: beyond_irrefl)
    show ?thesis
    proof (cases "beyond (int x) b")
      case out: True
      then have "\<not> beyond b (int x)" using beyond_trans beyond_irrefl by blast
      then show ?thesis using True out first by (auto simp: border_of_def)
    next
      case False
      then have "\<not> beyond (int z) b" if "z \<in> set (x # xs)" for z using first [OF that] not_beyond_trans by blast
      then show ?thesis using True False beyond_irrefl by (auto simp: border_of_def)
    qed
  next
    case False
    then have "{int z |z. z \<in> set (x # xs) \<and> bright z} = {int z |z. z \<in> set xs \<and> bright z}" by auto
    then show ?thesis using False Cons by simp
  qed
qed (simp add: border_of_empty)

lemma scan_lines_border:
  assumes "sorted_wrt (\<lambda>x y. beyond (int x) (int y)) xs"
  shows "border_of b {int x |x y. y \<in> set ys \<and> x \<in> set xs \<and> bright y x} (scan_lines bright beyond ys xs b)"
proof (induction ys arbitrary: b)
  case (Cons y ys)
  have "{int x |x z. z \<in> set (y # ys) \<and> x \<in> set xs \<and> bright z x} =
      {int x |x. x \<in> set xs \<and> bright y x} \<union> {int x |x z. z \<in> set ys \<and> x \<in> set xs \<and> bright z x}" by auto
  then show ?case using border_of_union [OF scan_line_border [OF assms] Cons.IH] by simp
qed (simp add: border_of_empty)

end

interpretation upward: scan_order "(<)"
  by unfold_locales auto

interpretation downward: scan_order "(>)"
  by unfold_locales auto

lemma least_border:
  "(m :: int) = scan_lines bright (<) [c..<e] [a..<b] d \<Longrightarrow>
   m \<le> d \<and> (\<forall>y x. c \<le> y \<and> y < e \<and> a \<le> x \<and> x < b \<and> bright y x \<longrightarrow> m \<le> int x)
   \<and> (m = d \<or> (\<exists>y x. c \<le> y \<and> y < e \<and> a \<le> x \<and> x < b \<and> bright y x \<and> m = int x))"
  using upward.scan_lines_border [of "[a..<b]" d "[c..<e]" bright] by (fastforce simp: upward.border_of_def not_less sorted_wrt_upt)

lemma greatest_border:
  "(m :: int) = scan_lines bright (>) [c..<e] (rev [a..<b]) d \<Longrightarrow>
   d \<le> m \<and> (\<forall>y x. c \<le> y \<and> y < e \<and> a \<le> x \<and> x < b \<and> bright y x \<longrightarrow> int x \<le> m)
   \<and> (m = d \<or> (\<exists>y x. c \<le> y \<and> y < e \<and> a \<le> x \<and> x < b \<and> bright y x \<and> m = int x))"
  using downward.scan_lines_border [of "rev [a..<b]" d "[c..<e]" bright]
  by (fastforce simp: downward.border_of_def not_less sorted_wrt_rev sorted_wrt_upt)

lemma concat_rows_nth:
  assumes "\<And>y. length (f y) = w" "y < h" "x < w"
  shows "concat (map f [0..<h]) ! (y * w + x) = f y ! x"
  using assms(2)
proof (induction h)
  case (Suc h)
  have len: "length (concat (map f [0..<h])) = h * w" by (simp add: length_concat o_def assms(1) sum_list_triv)
  show ?case
  proof (cases "y < h")
    case True
    then have "y * w + x < h * w" using assms(3) by (metis add_less_cancel_left less_le_trans mult_Suc mult_le_mono1 Suc_leI add.commute)
    then show ?thesis using Suc.IH True len by (simp add: nth_append)
  next
    case False
    then show ?thesis using Suc.prems len by (simp add: nth_append less_Suc_eq)
  qed
qed simp

lemma threshold_nth: "y < h \<Longrightarrow> x < w \<Longrightarrow> threshold w h buf linesize opt ! (y * w + x) \<longleftrightarrow> opt < buf ! (y * linesize + x)"
  unfolding threshold_def by (subst concat_rows_nth) simp_all

text \<open>The preconditions: the plane is there and its size fits the arithmetic of the code.\<close>

definition frame_ok :: "nat \<Rightarrow> nat \<Rightarrow> byte list \<Rightarrow> nat \<Rightarrow> bool" where
  "frame_ok w h buf linesize \<longleftrightarrow> 0 < w \<and> 0 < h \<and> w \<le> linesize \<and> h * linesize < 2 ^ 30 \<and> h * linesize \<le> length buf"

lemma frame_ok_guards:
  assumes "frame_ok w h buf linesize"
  shows "in32 (int w * int h)" "in32 (int h * 2)" "in32 (int (h - 1) * int linesize + int (w - 1))" "(h - 1) * linesize + (w - 1) < length buf"
proof -
  have hl: "h * linesize = (h - 1) * linesize + linesize" using assms by (cases h) (auto simp: frame_ok_def)
  have wl: "w - 1 < linesize" using assms by (auto simp: frame_ok_def)
  then show "(h - 1) * linesize + (w - 1) < length buf" using hl assms unfolding frame_ok_def by linarith
  have lt: "h * linesize < 1073741824" using assms by (simp add: frame_ok_def)
  have "w * h \<le> h * linesize" using assms by (simp add: frame_ok_def mult.commute)
  moreover have "h \<le> h * linesize" using wl by (cases linesize) auto
  ultimately have "w * h < 1073741824" "h < 1073741824" using lt by linarith+
  then have "int (w * h) < 1073741824" "int h < 1073741824" "0 \<le> int (w * h)" by linarith+
  then show "in32 (int w * int h)" "in32 (int h * 2)" unfolding of_nat_mult in32_def by linarith+
  have "(h - 1) * linesize + (w - 1) < 1073741824" using hl lt wl by linarith
  then have "int ((h - 1) * linesize + (w - 1)) < 1073741824" "0 \<le> int ((h - 1) * linesize + (w - 1))" by linarith+
  then show "in32 (int (h - 1) * int linesize + int (w - 1))" unfolding of_nat_mult of_nat_add in32_def by linarith
qed

definition bright_at :: "byte list \<Rightarrow> nat \<Rightarrow> byte \<Rightarrow> nat \<Rightarrow> nat \<Rightarrow> bool" where
  "bright_at buf linesize opt y x \<longleftrightarrow> opt < buf ! (y * linesize + x)"

lemma scan_lines_cong:
  "(\<And>y x. y \<in> set ys \<Longrightarrow> x \<in> set xs \<Longrightarrow> f y x = g y x) \<Longrightarrow> scan_lines f beyond ys xs b = scan_lines g beyond ys xs b"
proof (induction ys arbitrary: b)
  case (Cons y ys)
  have "scan_line (f y) beyond zs c = scan_line (g y) beyond zs c" if "set zs \<subseteq> set xs" for zs c
    using that Cons.prems by (induction zs) auto
  then show ?case using Cons by auto
qed simp

lemma TestCircRound_scans:
  assumes "frame_ok w h buf linesize"
  shows "TestCircRound True w h buf linesize opt = (let on = bright_at buf linesize opt in
    Ret (scan_lines on (<) [h div 3..<h * 2 div 3] [10..<w] (int w - 1), scan_lines on (>) [h div 3..<h * 2 div 3] (rev [0..<w]) 0,
      scan_lines (\<lambda>x y. on y x) (<) [w div 3..<w div 2] [0..<h] (int h), scan_lines (\<lambda>x y. on y x) (>) [w div 3..<w div 2] (rev [1..<h]) 0))"
proof -
  note g = frame_ok_guards [OF assms]
  have on: "threshold w h buf linesize opt ! (y * w + x) \<longleftrightarrow> bright_at buf linesize opt y x" if "y < h" "x < w" for y x
    using that by (simp add: threshold_nth bright_at_def)
  show ?thesis
    unfolding TestCircRound_def using g
    by (simp add: Let_def not_le) (intro conjI scan_lines_cong on; auto)
qed

text \<open>
  The borders of the fish-eye picture. In the middle third of the lines, the left border is the least bright column from 10 on (or the last column when there is none) and the
  right border the greatest; top and bottom are the same for the columns from a third to a half of the width. Nothing outside the plane is read.
\<close>

theorem TestCircRound_borders:
  assumes "frame_ok w h buf linesize"
  shows "\<exists>l r t b. TestCircRound True w h buf linesize opt = Ret (l, r, t, b)
    \<and> (l = int w - 1 \<or> (\<exists>y x. h div 3 \<le> y \<and> y < h * 2 div 3 \<and> 10 \<le> x \<and> x < w \<and> bright_at buf linesize opt y x \<and> l = int x))
    \<and> (\<forall>y x. h div 3 \<le> y \<and> y < h * 2 div 3 \<and> 10 \<le> x \<and> x < w \<and> bright_at buf linesize opt y x \<longrightarrow> l \<le> int x \<and> int x \<le> r)
    \<and> (r = 0 \<or> (\<exists>y x. h div 3 \<le> y \<and> y < h * 2 div 3 \<and> x < w \<and> bright_at buf linesize opt y x \<and> r = int x))
    \<and> (t = int h \<or> (\<exists>y x. w div 3 \<le> x \<and> x < w div 2 \<and> y < h \<and> bright_at buf linesize opt y x \<and> t = int y))
    \<and> (\<forall>y x. w div 3 \<le> x \<and> x < w div 2 \<and> 1 \<le> y \<and> y < h \<and> bright_at buf linesize opt y x \<longrightarrow> t \<le> int y \<and> int y \<le> b)
    \<and> (b = 0 \<or> (\<exists>y x. w div 3 \<le> x \<and> x < w div 2 \<and> y < h \<and> bright_at buf linesize opt y x \<and> b = int y))"
proof -
  let ?on = "bright_at buf linesize opt"
  define l r t b where
    "l = scan_lines ?on (<) [h div 3..<h * 2 div 3] [10..<w] (int w - 1)" and
    "r = scan_lines ?on (>) [h div 3..<h * 2 div 3] (rev [0..<w]) 0" and
    "t = scan_lines (\<lambda>x y. ?on y x) (<) [w div 3..<w div 2] [0..<h] (int h)" and
    "b = scan_lines (\<lambda>x y. ?on y x) (>) [w div 3..<w div 2] (rev [1..<h]) 0"
  note l = least_border [OF l_def] and r = greatest_border [OF r_def] and t = least_border [OF t_def] and b = greatest_border [OF b_def]
  have "TestCircRound True w h buf linesize opt = Ret (l, r, t, b)"
    by (simp add: TestCircRound_scans [OF assms] l_def r_def t_def b_def Let_def)
  moreover have "l = int w - 1 \<or> (\<exists>y x. h div 3 \<le> y \<and> y < h * 2 div 3 \<and> 10 \<le> x \<and> x < w \<and> ?on y x \<and> l = int x)" using l by blast
  moreover have "\<forall>y x. h div 3 \<le> y \<and> y < h * 2 div 3 \<and> 10 \<le> x \<and> x < w \<and> ?on y x \<longrightarrow> l \<le> int x \<and> int x \<le> r"
    using l [THEN conjunct2, THEN conjunct1] r [THEN conjunct2, THEN conjunct1] by auto
  moreover have "r = 0 \<or> (\<exists>y x. h div 3 \<le> y \<and> y < h * 2 div 3 \<and> x < w \<and> ?on y x \<and> r = int x)" using r by blast
  moreover have "t = int h \<or> (\<exists>y x. w div 3 \<le> x \<and> x < w div 2 \<and> y < h \<and> ?on y x \<and> t = int y)" using t by blast
  moreover have "\<forall>y x. w div 3 \<le> x \<and> x < w div 2 \<and> 1 \<le> y \<and> y < h \<and> ?on y x \<longrightarrow> t \<le> int y \<and> int y \<le> b"
    using t [THEN conjunct2, THEN conjunct1] b [THEN conjunct2, THEN conjunct1] by auto
  moreover have "b = 0 \<or> (\<exists>y x. w div 3 \<le> x \<and> x < w div 2 \<and> y < h \<and> ?on y x \<and> b = int y)" using b by blast
  ultimately show ?thesis by blast
qed

theorem TestCircRound_borders_witness:
  "\<exists>l r t b. TestCircRound True 2 1 [90, 0] 2 80 = Ret (l, r, t, b) \<and> (l = int 2 - 1 \<or> (\<exists>y x. 1 div 3 \<le> y \<and> y < 1 * 2 div 3 \<and> 10 \<le> x \<and> x < 2
    \<and> bright_at [90, 0] 2 80 y x \<and> l = int x))"
  using TestCircRound_borders [of 2 1 "[90, 0]" 2 80] by (auto simp: frame_ok_def)

section \<open>The crop lies in the frame\<close>

lemma make_even: "0 \<le> n \<Longrightarrow> (let m = (if c_mod n 2 \<noteq> 0 then n + 1 else n) in n \<le> m \<and> m \<le> n + 1 \<and> even m)"
  by (simp add: c_mod_nonneg Let_def) presburger

text \<open>
  When the middle third of the lines has a bright point from column 10 on, and the columns from a third to a half of the width have one below the first line, the part
  of the frame that is chosen lies inside the frame and has even sides, as the colour format requires.
\<close>

theorem DoScale_crop_inside:
  assumes "frame_ok w h buf linesize" "mCropFishEye p" "mCropWidth p = 0" "mCropHeight p = 0" "mVideoWidth p = int w" "mVideoHeight p = int h"
    and "h div 3 \<le> y" "y < h * 2 div 3" "10 \<le> x" "x < w" "bright_at buf linesize 80 y x"
    and "w div 3 \<le> x'" "x' < w div 2" "1 \<le> y'" "y' < h" "bright_at buf linesize 80 y' x'"
  shows "\<exists>p'. DoScale_crop True buf linesize p = Ret p' \<and> 0 \<le> mCropLeft p' \<and> 0 \<le> mCropWidth p' \<and> mCropLeft p' + mCropWidth p' \<le> int w
    \<and> 0 \<le> mCropTop p' \<and> 0 \<le> mCropHeight p' \<and> mCropTop p' + mCropHeight p' \<le> int h \<and> even (mCropWidth p') \<and> even (mCropHeight p')"
proof -
  obtain l r t b where res: "TestCircRound True w h buf linesize 80 = Ret (l, r, t, b)"
      and l: "l = int w - 1 \<or> (\<exists>x. l = int x)" "l \<le> int x" "int x \<le> r" and r: "r = 0 \<or> (\<exists>x<w. r = int x)"
      and t: "t = int h \<or> (\<exists>y. t = int y)" "t \<le> int y'" "int y' \<le> b" and b: "b = 0 \<or> (\<exists>y<h. b = int y)"
    using TestCircRound_borders [OF assms(1), of 80] assms(7-16) by blast
  let ?w = "if c_mod (r - l) 2 \<noteq> 0 then r - l + 1 else r - l" and ?h = "if c_mod (b - t) 2 \<noteq> 0 then b - t + 1 else b - t"
  have w0: "0 < w" "0 < h" using assms(1) by (simp_all add: frame_ok_def)
  have "0 \<le> l" "0 \<le> t" using l(1) t(1) w0 by auto
  moreover have "r < int w" "b < int h" using r b w0 by auto
  moreover have "r - l \<le> ?w \<and> ?w \<le> r - l + 1 \<and> even ?w" "b - t \<le> ?h \<and> ?h \<le> b - t + 1 \<and> even ?h"
    using make_even [of "r - l"] make_even [of "b - t"] l(2,3) t(2,3) by (simp_all only: Let_def)
  moreover have "l \<le> r" "t \<le> b" using l(2,3) t(2,3) by auto
  ultimately show ?thesis
    using assms(2-6) res by (simp add: DoScale_crop_def Let_def)
qed

text \<open>
  A dark first frame gives a crop of negative size: nothing is bright, the borders keep their start values, right of each other and the wrong way round. The
  size is kept for all frames that follow, as it is not 0.
\<close>

theorem DoScale_crop_dark:
  assumes "frame_ok w h buf linesize" "mCropFishEye p" "mCropWidth p = 0" "mCropHeight p = 0" "mVideoWidth p = int w" "mVideoHeight p = int h"
    and "2 < w" "1 < h" "list_all (\<lambda>c. c \<le> 80) buf"
  shows "\<exists>p'. DoScale_crop True buf linesize p = Ret p' \<and> mCropWidth p' < 0 \<and> mCropHeight p' < 0"
proof -
  have dark: "\<not> bright_at buf linesize 80 y x" if "y < h" "x < w" for y x
  proof -
    have "y * linesize \<le> (h - 1) * linesize" using that by (intro mult_le_mono1) simp
    then have "y * linesize + x < length buf" using that frame_ok_guards(4) [OF assms(1)] by linarith
    then show ?thesis using assms(9) by (auto simp: bright_at_def list_all_length not_less)
  qed
  obtain l r t b where res: "TestCircRound True w h buf linesize 80 = Ret (l, r, t, b)" "l = int w - 1" "r = 0" "t = int h" "b = 0"
  proof -
    have "y < h" if "y < h * 2 div 3" for y using that by linarith
    moreover have "x < w" if "x < w div 2" for x using that by linarith
    ultimately show thesis using TestCircRound_borders [OF assms(1), of 80] dark that by blast
  qed
  have "c_mod n 2 \<noteq> 0 \<longrightarrow> n + 1 \<noteq> 0 \<or> n = - 1" for n :: int by presburger
  moreover have "c_mod (- 2) 2 = 0" by (simp add: c_mod_def c_div_def)
  ultimately show ?thesis using assms(2-8) res by (auto simp: DoScale_crop_def Let_def)
qed

definition demo_player :: player where
  "demo_player = \<lparr>mCropFishEye = True, mCropCut = False, mWallMode = 0, mCropLeft = 0, mCropTop = 0, mCropRight = 0, mCropBottom = 0,
     mCropWidth = 0, mCropHeight = 0, mVideoWidth = 12, mVideoHeight = 3\<rparr>"

theorem DoScale_crop_inside_witness:
  "\<exists>p'. DoScale_crop True ((replicate 36 0)[22 := 90, 16 := 90]) 12 demo_player = Ret p' \<and> 0 \<le> mCropLeft p' \<and> 0 \<le> mCropWidth p'
    \<and> mCropLeft p' + mCropWidth p' \<le> int 12 \<and> 0 \<le> mCropTop p' \<and> 0 \<le> mCropHeight p' \<and> mCropTop p' + mCropHeight p' \<le> int 3
    \<and> even (mCropWidth p') \<and> even (mCropHeight p')"
  by (rule DoScale_crop_inside [of _ _ _ _ _ 1 10 4 1]) (simp_all add: frame_ok_def demo_player_def bright_at_def)

theorem DoScale_crop_dark_witness:
  "\<exists>p'. DoScale_crop True (replicate 36 16) 12 demo_player = Ret p' \<and> mCropWidth p' < 0 \<and> mCropHeight p' < 0"
  by (rule DoScale_crop_dark [of 12 3]) (simp_all add: frame_ok_def demo_player_def list_all_iff)

end
