(* ===== verification/MotionTracking.thy ===== *)
theory MotionTracking
  imports Prelude
begin

text \<open>
  \<^verbatim>\<open>gles/GLES/GPUMotionTracking.cpp\<close>: moving objects in a picture. The graphics processor draws a picture of 50 by 50 points in which the points that changed are white;
  \<open>DetectTracking\<close> reads it, puts frames around the white points and follows the frames from picture to picture. The function that the application registers is told about every frame that is
  followed. A \<open>TrackingFrame\<close> is referred to by one list only, so the two lists of pointers are lists of frames here; \<open>tf_live\<close> counts the frames that were allocated and not
  deleted. The state of the application is of any type: it is passed through the registered function. Points outside of the array are \<open>UB OobRead\<close>. The counters of a frame go up at most a few times per picture and are not bounded here.
\<close>

section \<open>Frames\<close>

record tracking_frame =
  tf_l :: int
  tf_t :: int
  tf_r :: int
  tf_b :: int
  tf_area :: int
  tf_update :: bool
  tf_updatecount :: int
  tf_skipupdatecount :: int
  tf_index :: int

definition TrackingFrame_new :: tracking_frame where
  "TrackingFrame_new = \<lparr>tf_l = 0, tf_t = 0, tf_r = 0, tf_b = 0, tf_area = 0, tf_update = True, tf_updatecount = 0, tf_skipupdatecount = 0, tf_index = - 1\<rparr>"

definition contain :: "int \<Rightarrow> int \<Rightarrow> tracking_frame \<Rightarrow> bool" where
  "contain x y f \<longleftrightarrow> x \<ge> tf_l f \<and> x \<le> tf_r f \<and> y \<ge> tf_t f \<and> y \<le> tf_b f"

text \<open>The receiver of a call is the last argument.\<close>

definition intersect :: "tracking_frame \<Rightarrow> tracking_frame \<Rightarrow> bool" where
  "intersect tf f \<longleftrightarrow> contain (tf_l tf) (tf_t tf) f \<or> contain (tf_l tf) (tf_b tf) f \<or> contain (tf_r tf) (tf_t tf) f \<or> contain (tf_r tf) (tf_b tf) f"

definition combine :: "tracking_frame \<Rightarrow> tracking_frame \<Rightarrow> tracking_frame" where
  "combine tf f = f\<lparr>tf_l := (if tf_l tf < tf_l f then tf_l tf else tf_l f), tf_r := (if tf_r tf > tf_r f then tf_r tf else tf_r f),
     tf_t := (if tf_t tf < tf_t f then tf_t tf else tf_t f), tf_b := (if tf_b tf > tf_b f then tf_b tf else tf_b f),
     tf_update := True, tf_updatecount := (if tf_updatecount tf > tf_updatecount f then tf_updatecount tf else tf_updatecount f) + 1,
     tf_skipupdatecount := 0\<rparr>"

definition updatefrom :: "tracking_frame \<Rightarrow> tracking_frame \<Rightarrow> tracking_frame" where
  "updatefrom tf f = f\<lparr>tf_l := tf_l tf, tf_t := tf_t tf, tf_r := tf_r tf, tf_b := tf_b tf, tf_update := True,
     tf_updatecount := tf_updatecount f + 1, tf_skipupdatecount := 0, tf_area := tf_area tf\<rparr>"

definition resizeFrame :: "tracking_frame \<Rightarrow> tracking_frame" where
  "resizeFrame f = (let cx = c_div (tf_l f + tf_r f) 2; cy = c_div (tf_t f + tf_b f) 2 in
     f\<lparr>tf_l := (if cx - 5 > 0 then cx - 5 else 0), tf_r := (if cx + 5 > 49 then 49 else cx + 5),
       tf_t := (if cy - 5 > 0 then cy - 5 else 0), tf_b := (if cy + 5 > 49 then 49 else cy + 5)\<rparr>)"

section \<open>Looking for white points\<close>

definition white :: "u32 list \<Rightarrow> int \<Rightarrow> bool outcome" where
  "white px k = (if 0 \<le> k \<and> k < int (length px) then Ret (px ! nat k = 0xffffffff) else UB OobRead)"

text \<open>The inner loop over places of the array, left at the first white point; the outer loop over lines, left at the first line that has one; \<open>d\<close> is what the variable held before.\<close>

fun any_white :: "u32 list \<Rightarrow> int list \<Rightarrow> bool outcome" where
  "any_white px [] = Ret False"
| "any_white px (k # ks) = bnd (white px k) (\<lambda>w. if w then Ret True else any_white px ks)"

fun find_line :: "u32 list \<Rightarrow> (int \<Rightarrow> int list) \<Rightarrow> int list \<Rightarrow> int \<Rightarrow> int outcome" where
  "find_line px line [] d = Ret d"
| "find_line px line (i # is) d = bnd (any_white px (line i)) (\<lambda>found. if found then Ret i else find_line px line is d)"

fun count_white :: "u32 list \<Rightarrow> int list \<Rightarrow> int \<Rightarrow> int outcome" where
  "count_white px [] n = Ret n"
| "count_white px (k # ks) n = bnd (white px k) (\<lambda>w. count_white px ks (if w then n + 1 else n))"

definition GetFrameArea :: "u32 list \<Rightarrow> tracking_frame \<Rightarrow> int outcome" where
  "GetFrameArea px f = count_white px (concat (map (\<lambda>x. map (\<lambda>y. y * 50 + x) [tf_t f..tf_b f]) [tf_l f..tf_r f])) 0"

definition GetFrame :: "u32 list \<Rightarrow> int \<Rightarrow> int \<Rightarrow> tracking_frame outcome" where
  "GetFrame px x y =
     (let rows = [y..(if y + 10 > 50 then 50 else y + 10) - 1]; cols = [x - 5..x + 5 - 1];
          column = (\<lambda>i. map (\<lambda>j. j * 50 + i) rows); row = (\<lambda>i. map (\<lambda>j. i * 50 + j) cols) in
      bnd (find_line px column [x - 5..x + 5 - 1] (x - 5)) (\<lambda>l.
      bnd (find_line px column (rev [x - 5..x + 4]) (x + 4)) (\<lambda>r.
      bnd (find_line px row rows y) (\<lambda>t.
      bnd (find_line px row (rev [y..if y + 9 > 49 then 49 else y + 9]) (if y + 10 > 49 then 49 else y + 10)) (\<lambda>b.
      let f = TrackingFrame_new\<lparr>tf_l := l, tf_t := t, tf_r := r, tf_b := b\<rparr> in
      bnd (GetFrameArea px f) (\<lambda>a. Ret (f\<lparr>tf_area := a, tf_update := True\<rparr>)))))))"

fun InFrame :: "int \<Rightarrow> int \<Rightarrow> tracking_frame list \<Rightarrow> bool" where
  "InFrame x y [] = False"
| "InFrame x y (f # lst) = (if contain x y f then True else InFrame x y lst)"

fun intersect_from :: "int \<Rightarrow> tracking_frame \<Rightarrow> tracking_frame list \<Rightarrow> int" where
  "intersect_from i tf [] = - 1"
| "intersect_from i tf (f # lst) = (if intersect tf f then i else intersect_from (i + 1) tf lst)"

definition intersectFrame :: "tracking_frame \<Rightarrow> tracking_frame list \<Rightarrow> int" where
  "intersectFrame tf lst = intersect_from 0 tf lst"

section \<open>One picture\<close>

text \<open>
  The three loops of \<open>DetectTracking\<close>. The first visits the points, line by line; \<open>combine\<close> allocates a frame that nothing refers to. The second takes the frames of the picture
  from the end of their list, the third goes through the followed frames from the last to the first: the lists they get are in that order.
\<close>

definition points :: "(int \<times> int) list" where
  "points = concat (map (\<lambda>y. map (\<lambda>x. (x, y)) [5..45 - 1]) [0..50 - 1])"

fun scan_points :: "u32 list \<Rightarrow> (int \<times> int) list \<Rightarrow> tracking_frame list \<Rightarrow> int \<Rightarrow> (tracking_frame list \<times> int) outcome" where
  "scan_points px [] fs n = Ret (fs, n)"
| "scan_points px ((x, y) # ps) fs n =
     bnd (white px (x + y * 50)) (\<lambda>w.
     if \<not> w then scan_points px ps fs n
     else if InFrame x y fs then scan_points px ps fs n
     else
       bnd (GetFrame px x y) (\<lambda>tf.
       let n = n + 1; i = intersectFrame tf fs in
       if i \<ge> 0 then
         let f = combine tf (fs ! nat i); n = n + 1 in
         bnd (GetFrameArea px f) (\<lambda>a. scan_points px ps (fs[nat i := f\<lparr>tf_area := a\<rparr>]) (n - 1))
       else scan_points px ps (fs @ [tf]) n))"

fun match_frames :: "u32 list \<Rightarrow> int \<Rightarrow> tracking_frame list \<Rightarrow> tracking_frame list \<Rightarrow> int \<Rightarrow> (tracking_frame list \<times> int) outcome" where
  "match_frames px objsize [] ts n = Ret (ts, n)"
| "match_frames px objsize (f # fs) ts n =
     (let f = resizeFrame f in
      if tf_area f \<ge> objsize then
        let i = intersectFrame f ts in
        if i \<ge> 0 then
          let t = updatefrom f (ts ! nat i) in
          bnd (GetFrameArea px t) (\<lambda>a. match_frames px objsize fs (ts[nat i := t\<lparr>tf_area := a\<rparr>]) (n - 1))
        else
          let t = updatefrom f TrackingFrame_new; n = n + 1 in
          bnd (GetFrameArea px t) (\<lambda>a. match_frames px objsize fs (ts @ [t\<lparr>tf_area := a\<rparr>]) (n - 1))
      else match_frames px objsize fs ts (n - 1))"

text \<open>The registered function gets the sides of the frame, its index, the number of the screen and whether the frame is dropped; it returns the index to keep.\<close>

type_synonym 'c listener = "int \<times> int \<times> int \<times> int \<Rightarrow> int \<Rightarrow> int \<Rightarrow> bool \<Rightarrow> 'c \<Rightarrow> (int \<times> 'c) outcome"

definition sides :: "tracking_frame \<Rightarrow> int \<times> int \<times> int \<times> int" where
  "sides f = (tf_l f, tf_t f, tf_r f, tf_b f)"

fun report_frames :: "'c listener option \<Rightarrow> int \<Rightarrow> int \<Rightarrow> tracking_frame list \<Rightarrow> tracking_frame list \<Rightarrow> int \<Rightarrow> 'c \<Rightarrow> (tracking_frame list \<times> int \<times> 'c) outcome" where
  "report_frames cb dropsecond scrn [] ks n c = Ret (ks, n, c)"
| "report_frames cb dropsecond scrn (t # ts) ks n c =
     (if \<not> tf_update t then
        let t = t\<lparr>tf_skipupdatecount := tf_skipupdatecount t + 1\<rparr> in
        if tf_skipupdatecount t > dropsecond then
          case cb of None \<Rightarrow> UB NullDeref
          | Some OnMotionTracking \<Rightarrow>
              bnd (OnMotionTracking (sides t) (tf_index t) scrn True c) (\<lambda>(i, c). report_frames cb dropsecond scrn ts ks (n - 1) c)
        else report_frames cb dropsecond scrn ts (t # ks) n c
      else
        case cb of None \<Rightarrow> report_frames cb dropsecond scrn ts (t # ks) n c
        | Some OnMotionTracking \<Rightarrow>
            bnd (OnMotionTracking (sides t) (tf_index t) scrn False c) (\<lambda>(i, c).
            let t = t\<lparr>tf_index := i\<rparr> in
            if tf_index t < 0 then report_frames cb dropsecond scrn ts ks (n - 1) c
            else report_frames cb dropsecond scrn ts (t # ks) n c))"

record 'c tracking =
  mTrackingFrame :: "tracking_frame list"
  mObjectSize :: int
  mDropSecond :: int
  tf_live :: int
  client :: 'c

definition DetectTracking :: "'c listener option \<Rightarrow> u32 list \<Rightarrow> int \<Rightarrow> 'c tracking \<Rightarrow> 'c tracking outcome" where
  "DetectTracking cb px scrn T =
     (let ts = map (\<lambda>t. t\<lparr>tf_update := False\<rparr>) (mTrackingFrame T) in
      bnd (scan_points px points [] (tf_live T)) (\<lambda>(fs, n).
      bnd (match_frames px (mObjectSize T) (rev fs) ts n) (\<lambda>(ts, n).
      bnd (report_frames cb (mDropSecond T) scrn (rev ts) [] n (client T)) (\<lambda>(ts, n, c).
      Ret (T\<lparr>mTrackingFrame := ts, tf_live := n, client := c\<rparr>)))))"


section \<open>The frame around a point\<close>

definition lit :: "u32 list \<Rightarrow> int \<Rightarrow> int \<Rightarrow> bool" where
  "lit px x y \<longleftrightarrow> px ! nat (y * 50 + x) = 0xffffffff"

definition picture :: "u32 list \<Rightarrow> bool" where
  "picture px \<longleftrightarrow> length px = 2500"

definition in_grid :: "tracking_frame \<Rightarrow> bool" where
  "in_grid f \<longleftrightarrow> 0 \<le> tf_l f \<and> tf_l f \<le> tf_r f \<and> tf_r f \<le> 49 \<and> 0 \<le> tf_t f \<and> tf_t f \<le> tf_b f \<and> tf_b f \<le> 49"

definition area_in :: "u32 list \<Rightarrow> tracking_frame \<Rightarrow> int" where
  "area_in px f = int (card {(x, y). contain x y f \<and> lit px x y})"

lemma any_white_Ret: "(\<forall>k\<in>set ks. 0 \<le> k \<and> k < int (length px)) \<Longrightarrow> any_white px ks = Ret (\<exists>k\<in>set ks. px ! nat k = 0xffffffff)"
  by (induction ks) (simp_all add: white_def)

lemma count_white_Ret:
  "(\<forall>k\<in>set ks. 0 \<le> k \<and> k < int (length px)) \<Longrightarrow> count_white px ks n = Ret (n + int (length (filter (\<lambda>k. px ! nat k = 0xffffffff) ks)))"
  by (induction ks arbitrary: n) (simp_all add: white_def)

lemma find_line_first:
  assumes "\<forall>i\<in>set is. \<forall>j\<in>set js. 0 \<le> g i j \<and> g i j < int (length px)" "sorted_wrt R is" "u \<in> set is" "v \<in> set js" "px ! nat (g u v) = 0xffffffff"
  shows "\<exists>i\<in>set is. find_line px (\<lambda>i. map (g i) js) is d = Ret i \<and> (\<exists>j\<in>set js. px ! nat (g i j) = 0xffffffff) \<and>
    (\<forall>u\<in>set is. \<forall>j\<in>set js. px ! nat (g u j) = 0xffffffff \<longrightarrow> u = i \<or> R i u)"
  using assms(1-3)
proof (induction "is")
  case (Cons i "is")
  show ?case
  proof (cases "\<exists>j\<in>set js. px ! nat (g i j) = 0xffffffff")
    case True
    then show ?thesis using Cons.prems by (intro bexI [of _ i]) (auto simp: any_white_Ret)
  next
    case False
    then have "u \<noteq> i" using assms(4,5) by auto
    with Cons.prems obtain i' where i': "i' \<in> set is" "find_line px (\<lambda>i. map (g i) js) is d = Ret i'" "\<exists>j\<in>set js. px ! nat (g i' j) = 0xffffffff"
      "\<forall>u\<in>set is. \<forall>j\<in>set js. px ! nat (g u j) = 0xffffffff \<longrightarrow> u = i' \<or> R i' u"
      using Cons.IH by auto
    have "find_line px (\<lambda>i. map (g i) js) (i # is) d = Ret i'" using False Cons.prems(1) i'(2) by (simp add: any_white_Ret)
    then show ?thesis using i' False by (intro bexI [of _ i']) auto
  qed
qed simp

lemma white_at: "picture px \<Longrightarrow> 0 \<le> x \<Longrightarrow> x \<le> 49 \<Longrightarrow> 0 \<le> y \<Longrightarrow> y \<le> 49 \<Longrightarrow> white px (x + y * 50) = Ret (lit px x y)"
  by (simp add: white_def picture_def lit_def add.commute)

lemma GetFrameArea_grid:
  assumes "picture px" "in_grid f"
  shows "GetFrameArea px f = Ret (area_in px f)"
proof -
  let ?ps = "List.product [tf_l f..tf_r f] [tf_t f..tf_b f]"
  let ?h = "\<lambda>(x, y). y * 50 + x :: int"
  have ks: "concat (map (\<lambda>x. map (\<lambda>y. y * 50 + x) [tf_t f..tf_b f]) [tf_l f..tf_r f]) = map ?h ?ps"
    by (simp add: product_concat_map map_concat comp_def)
  have "card {(x, y). contain x y f \<and> lit px x y} = card (set (filter (\<lambda>p. px ! nat (?h p) = 0xffffffff) ?ps))"
    by (rule arg_cong [of _ _ card]) (auto simp: contain_def lit_def)
  also have "\<dots> = length (filter (\<lambda>p. px ! nat (?h p) = 0xffffffff) ?ps)"
    by (rule distinct_card) (simp add: distinct_product)
  finally show ?thesis
    unfolding GetFrameArea_def ks
    using assms by (subst count_white_Ret) (auto simp: in_grid_def picture_def area_in_def filter_map comp_def)
qed

lemma sorted_wrt_upto: "sorted_wrt (<) [a..b :: int]"
  by (induction a b rule: upto.induct) (subst upto.simps, auto)

lemma finite_lit [simp]: "finite {(x, y). contain x y f \<and> lit px x y}"
  by (rule finite_subset [of _ "{tf_l f..tf_r f} \<times> {tf_t f..tf_b f}"]) (auto simp: contain_def)

lemma area_in_pos: "contain x y f \<Longrightarrow> lit px x y \<Longrightarrow> 0 < area_in px f"
  by (auto simp: area_in_def card_gt_0_iff)

text \<open>The frame around a white point has all white points of the ten columns around it and the ten rows from it on, and its sides touch such points.\<close>

definition window :: "int \<Rightarrow> int \<Rightarrow> int \<Rightarrow> int \<Rightarrow> bool" where
  "window x y u v \<longleftrightarrow> x - 5 \<le> u \<and> u \<le> x + 4 \<and> y \<le> v \<and> v \<le> y + 9 \<and> v \<le> 49"

definition tight_frame :: "u32 list \<Rightarrow> (int \<Rightarrow> int \<Rightarrow> bool) \<Rightarrow> tracking_frame \<Rightarrow> bool" where
  "tight_frame px W f \<longleftrightarrow> (\<forall>u v. W u v \<longrightarrow> lit px u v \<longrightarrow> contain u v f) \<and>
     (\<exists>v. W (tf_l f) v \<and> lit px (tf_l f) v) \<and> (\<exists>v. W (tf_r f) v \<and> lit px (tf_r f) v) \<and>
     (\<exists>u. W u (tf_t f) \<and> lit px u (tf_t f)) \<and> (\<exists>u. W u (tf_b f) \<and> lit px u (tf_b f))"

lemma GetFrame_tight:
  assumes "picture px" "5 \<le> x" "x \<le> 44" "0 \<le> y" "y \<le> 49" "lit px x y"
  shows "\<exists>f. GetFrame px x y = Ret f \<and> tight_frame px (window x y) f \<and> in_grid f \<and> contain x y f \<and> tf_area f = area_in px f"
proof -
  define rows where "rows = [y..(if y + 10 > 50 then 50 else y + 10) - 1]"
  define cols where "cols = [x - 5..x + 5 - 1]"
  have R: "set rows = {v. y \<le> v \<and> v \<le> y + 9 \<and> v \<le> 49}" and Rb: "[y..if y + 9 > 49 then 49 else y + 9] = rows"
    by (auto simp: rows_def add.commute [of _ y])
  have C: "set cols = {u. x - 5 \<le> u \<and> u \<le> x + 4}" and Cb: "[x - 5..x + 4] = cols" by (auto simp: cols_def add.commute [of _ x])
  have W: "window x y u v \<longleftrightarrow> u \<in> set cols \<and> v \<in> set rows" for u v by (auto simp: window_def C R)
  have ok: "0 \<le> v * 50 + u \<and> v * 50 + u < int (length px)" if "u \<in> set cols" "v \<in> set rows" for u v
    using that assms(1-5) by (auto simp: C R picture_def)
  have xy: "x \<in> set cols" "y \<in> set rows" "px ! nat (y * 50 + x) = 0xffffffff" using assms(4-6) by (auto simp: C R lit_def)
  have up: "sorted_wrt (<) cols" "sorted_wrt (<) rows" by (simp_all add: cols_def rows_def sorted_wrt_upto)
  then have dn: "sorted_wrt (>) (rev cols)" "sorted_wrt (>) (rev rows)" by (simp_all add: sorted_wrt_rev)
  obtain l where l: "l \<in> set cols" "find_line px (\<lambda>i. map (\<lambda>j. j * 50 + i) rows) cols (x - 5) = Ret l" "\<exists>v\<in>set rows. lit px l v"
    "\<forall>u\<in>set cols. \<forall>v\<in>set rows. lit px u v \<longrightarrow> u = l \<or> l < u"
    using find_line_first [of cols rows "\<lambda>i j. j * 50 + i", OF _ up(1) xy, of "x - 5"] ok unfolding lit_def by blast
  obtain r where r: "r \<in> set cols" "find_line px (\<lambda>i. map (\<lambda>j. j * 50 + i) rows) (rev cols) (x + 4) = Ret r" "\<exists>v\<in>set rows. lit px r v"
    "\<forall>u\<in>set cols. \<forall>v\<in>set rows. lit px u v \<longrightarrow> u = r \<or> u < r"
    using find_line_first [of "rev cols" rows "\<lambda>i j. j * 50 + i", OF _ dn(1) _ xy(2,3), of "x + 4"] ok xy(1) unfolding lit_def set_rev by blast
  obtain t where t: "t \<in> set rows" "find_line px (\<lambda>i. map (\<lambda>j. i * 50 + j) cols) rows y = Ret t" "\<exists>u\<in>set cols. lit px u t"
    "\<forall>v\<in>set rows. \<forall>u\<in>set cols. lit px u v \<longrightarrow> v = t \<or> t < v"
    using find_line_first [of rows cols "\<lambda>i j. i * 50 + j", OF _ up(2) xy(2,1,3), of y] ok unfolding lit_def by blast
  obtain b where b: "b \<in> set rows" "find_line px (\<lambda>i. map (\<lambda>j. i * 50 + j) cols) (rev rows) (if y + 10 > 49 then 49 else y + 10) = Ret b" "\<exists>u\<in>set cols. lit px u b"
    "\<forall>v\<in>set rows. \<forall>u\<in>set cols. lit px u v \<longrightarrow> v = b \<or> v < b"
    using find_line_first [of "rev rows" cols "\<lambda>i j. i * 50 + j", OF _ dn(2) _ xy(1,3), of "if y + 10 > 49 then 49 else y + 10"] ok xy(2)
    unfolding lit_def set_rev by blast
  define f where "f = TrackingFrame_new\<lparr>tf_l := l, tf_t := t, tf_r := r, tf_b := b\<rparr>"
  have "contain u v f" if "u \<in> set cols" "v \<in> set rows" "lit px u v" for u v
    using that l(4) r(4) t(4) b(4) by (force simp: contain_def f_def)
  then have tight: "tight_frame px (window x y) f" and cont: "contain x y f"
    using l(1,3) r(1,3) t(1,3) b(1,3) xy assms(6) by (auto simp: tight_frame_def W f_def)
  then have grid: "in_grid f" using l(1) r(1) t(1) b(1) assms(2-5) by (auto simp: in_grid_def contain_def f_def C R)
  have "GetFrame px x y = Ret (f\<lparr>tf_area := area_in px f, tf_update := True\<rparr>)"
    using GetFrameArea_grid [OF assms(1) grid] l(2) r(2) t(2) b(2)
    unfolding GetFrame_def rows_def [symmetric] cols_def [symmetric] Let_def Cb Rb f_def by simp
  moreover have "area_in px (f\<lparr>tf_area := a, tf_update := True\<rparr>) = area_in px f" for a by (simp add: area_in_def contain_def)
  ultimately show ?thesis using tight grid cont by (auto simp: tight_frame_def in_grid_def contain_def)
qed

section \<open>The frames of a picture\<close>

definition found :: "u32 list \<Rightarrow> tracking_frame \<Rightarrow> bool" where
  "found px f \<longleftrightarrow> in_grid f \<and> tf_area f = area_in px f \<and> 0 < tf_area f"

lemma sides_simps [simp]:
  "contain x y (f\<lparr>tf_area := a\<rparr>) = contain x y f" "in_grid (f\<lparr>tf_area := a\<rparr>) = in_grid f" "area_in px (f\<lparr>tf_area := a\<rparr>) = area_in px f"
  "in_grid (f\<lparr>tf_update := b\<rparr>) = in_grid f" "in_grid (f\<lparr>tf_index := i\<rparr>) = in_grid f" "in_grid (f\<lparr>tf_skipupdatecount := i\<rparr>) = in_grid f"
  by (simp_all add: contain_def in_grid_def area_in_def)

lemma contain_combine: "contain x y f \<or> contain x y tf \<Longrightarrow> contain x y (combine tf f)"
  by (auto simp: contain_def combine_def)

lemma in_grid_combine: "in_grid f \<Longrightarrow> in_grid tf \<Longrightarrow> in_grid (combine tf f)"
  by (auto simp: in_grid_def combine_def)

lemma InFrame_iff: "InFrame x y fs \<longleftrightarrow> (\<exists>f\<in>set fs. contain x y f)"
  by (induction fs) auto

lemma intersect_from_cases:
  "intersect_from k tf fs = - 1 \<and> (\<forall>f\<in>set fs. \<not> intersect tf f) \<or> (\<exists>i<length fs. intersect_from k tf fs = k + int i \<and> intersect tf (fs ! i))"
proof (induction fs arbitrary: k)
  case (Cons f fs)
  show ?case
  proof (cases "intersect tf f")
    case False
    from Cons.IH [of "k + 1"] show ?thesis
    proof (elim disjE exE conjE)
      fix i assume "i < length fs" "intersect_from (k + 1) tf fs = k + 1 + int i" "intersect tf (fs ! i)"
      then show ?thesis using False by (intro disjI2 exI [of _ "Suc i"]) simp
    qed (use False in simp)
  qed auto
qed simp

lemma intersectFrame_cases:
  obtains "intersectFrame tf fs = - 1" "\<forall>f\<in>set fs. \<not> intersect tf f"
  | i where "i < length fs" "intersectFrame tf fs = int i" "intersect tf (fs ! i)"
  using intersect_from_cases [of 0 tf fs] by (auto simp: intersectFrame_def)

lemma set_update_cover: "i < length fs \<Longrightarrow> f \<in> set fs \<Longrightarrow> f \<in> set (fs[i := g]) \<or> f = fs ! i"
  by (metis in_set_conv_nth length_list_update nth_list_update_neq)

text \<open>Every white point that is visited is in a frame at the end; \<open>m\<close> frames were combined with another, and as many are allocated for ever.\<close>

definition scanned :: "u32 list \<Rightarrow> (int \<times> int) list \<Rightarrow> tracking_frame list \<Rightarrow> int \<Rightarrow> (tracking_frame list \<times> int) outcome \<Rightarrow> bool" where
  "scanned px ps fs n res \<longleftrightarrow> (\<exists>gs m. res = Ret (gs, n + int (length gs) - int (length fs) + int m) \<and> (\<forall>g\<in>set gs. found px g) \<and>
     (\<forall>x y. InFrame x y fs \<or> (x, y) \<in> set ps \<and> lit px x y \<longrightarrow> InFrame x y gs))"

lemma scanned_Cons:
  assumes "scanned px ps fs' n' res" "n' - int (length fs') = n - int (length fs) + int k" "\<And>u v. InFrame u v fs \<or> (u, v) = p \<and> lit px u v \<Longrightarrow> InFrame u v fs'"
  shows "scanned px (p # ps) fs n res"
proof -
  obtain gs m where g: "res = Ret (gs, n' + int (length gs) - int (length fs') + int m)" "\<forall>g\<in>set gs. found px g"
    "\<And>x y. InFrame x y fs' \<or> (x, y) \<in> set ps \<and> lit px x y \<Longrightarrow> InFrame x y gs"
    using assms(1) unfolding scanned_def by blast
  have "n' + int (length gs) - int (length fs') + int m = n + int (length gs) - int (length fs) + int (m + k)" using assms(2) by simp
  then show ?thesis unfolding scanned_def using g assms(3) by (intro exI [of _ gs] exI [of _ "m + k"]) auto
qed

lemma InFrame_update: "i < length fs \<Longrightarrow> (\<And>x y. contain x y (fs ! i) \<Longrightarrow> contain x y c) \<Longrightarrow> InFrame x y fs \<or> contain x y c \<Longrightarrow> InFrame x y (fs[i := c])"
  unfolding InFrame_iff using set_update_cover [of i fs _ c] set_update_memI [of i fs c] by blast

lemma scan_points_found:
  assumes "picture px" "\<forall>(x, y)\<in>set ps. 5 \<le> x \<and> x \<le> 44 \<and> 0 \<le> y \<and> y \<le> 49" "\<forall>f\<in>set fs. found px f"
  shows "scanned px ps fs n (scan_points px ps fs n)"
  using assms(2,3)
proof (induction ps arbitrary: fs n)
  case Nil
  then show ?case by (auto simp: scanned_def intro: exI [of _ 0])
next
  case (Cons p ps)
  obtain x y where p: "p = (x, y)" by (cases p)
  then have xy: "5 \<le> x" "x \<le> 44" "0 \<le> y" "y \<le> 49" and ps: "\<forall>(x, y)\<in>set ps. 5 \<le> x \<and> x \<le> 44 \<and> 0 \<le> y \<and> y \<le> 49"
    using Cons.prems(1) by auto
  have w: "white px (x + y * 50) = Ret (lit px x y)" using xy by (intro white_at [OF assms(1)]) auto
  show ?case
  proof (cases "lit px x y \<and> \<not> InFrame x y fs")
    case False
    then have "scan_points px (p # ps) fs n = scan_points px ps fs n" by (auto simp: p w)
    then show ?thesis using scanned_Cons [OF Cons.IH [OF ps Cons.prems(2), of n], of n fs 0 p] False by (auto simp: p)
  next
    case True
    then obtain f where f: "GetFrame px x y = Ret f" "in_grid f" "contain x y f" "tf_area f = area_in px f"
      using GetFrame_tight [OF assms(1) xy] by auto
    show ?thesis
    proof (rule intersectFrame_cases [of f fs])
      assume i: "intersectFrame f fs = - 1"
      have "found px f" using f(2-4) area_in_pos [OF f(3)] True by (simp add: found_def)
      then have "\<forall>g\<in>set (fs @ [f]). found px g" using Cons.prems(2) by simp
      from scanned_Cons [OF Cons.IH [OF ps this, of "n + 1"], of n fs 0 p] show ?thesis
        using True f(1,3) i by (auto simp: p w InFrame_iff)
    next
      fix i assume i: "i < length fs" "intersectFrame f fs = int i"
      define c where "c = (combine f (fs ! i))\<lparr>tf_area := area_in px (combine f (fs ! i))\<rparr>"
      have g: "in_grid (combine f (fs ! i))" using i(1) Cons.prems(2) f(2) by (auto simp: found_def intro: in_grid_combine)
      have c: "contain x y c" "\<And>u v. contain u v (fs ! i) \<Longrightarrow> contain u v c" using f(3) by (simp_all add: c_def contain_combine)
      then have "found px c" using g True area_in_pos [OF c(1), of px] by (simp add: c_def found_def)
      then have "\<forall>g\<in>set (fs[i := c]). found px g" using Cons.prems(2) by (auto dest!: set_update_subset_insert [THEN subsetD])
      from scanned_Cons [OF Cons.IH [OF ps this, of "n + 1"], of n fs 1 p]
      have "scanned px (p # ps) fs n (scan_points px ps (fs[i := c]) (n + 1))" using InFrame_update [OF i(1) c(2)] c(1) by (auto simp: p)
      moreover have "scan_points px (p # ps) fs n = scan_points px ps (fs[i := c]) (n + 1)"
        using True f(1) i(2) unfolding p scan_points.simps by (simp add: w GetFrameArea_grid [OF assms(1) g] c_def Let_def add.commute [of 1 n])
      ultimately show ?thesis by simp
    qed
  qed
qed

lemma points_range: "(x, y) \<in> set points \<longleftrightarrow> 5 \<le> x \<and> x \<le> 44 \<and> 0 \<le> y \<and> y \<le> 49"
  by (auto simp: points_def image_iff simp del: upto_rec_numeral)

lemma scan_found:
  assumes "picture px"
  obtains fs m where "scan_points px points [] n = Ret (fs, n + int (length fs) + int m)" "\<forall>f\<in>set fs. found px f"
    "\<And>x y. 5 \<le> x \<Longrightarrow> x \<le> 44 \<Longrightarrow> 0 \<le> y \<Longrightarrow> y \<le> 49 \<Longrightarrow> lit px x y \<Longrightarrow> InFrame x y fs"
proof -
  have "\<forall>(x, y)\<in>set points. 5 \<le> x \<and> x \<le> 44 \<and> 0 \<le> y \<and> y \<le> 49" by (auto simp: points_range)
  from scan_points_found [OF assms this, of "[]" n] show ?thesis using that by (auto simp: scanned_def points_range)
qed

section \<open>Following frames\<close>

definition updated :: "u32 list \<Rightarrow> tracking_frame \<Rightarrow> bool" where
  "updated px t \<longleftrightarrow> in_grid t \<and> tf_update t \<and> tf_skipupdatecount t = 0 \<and> tf_area t = area_in px t"

lemma resizeFrame_grid: "in_grid f \<Longrightarrow> in_grid (resizeFrame f)"
  by (auto simp: in_grid_def resizeFrame_def Let_def c_div_nonneg)

lemma updatefrom_simps [simp]:
  "in_grid (updatefrom f t) = in_grid f" "tf_index (updatefrom f t) = tf_index t" "tf_update (updatefrom f t)" "tf_skipupdatecount (updatefrom f t) = 0"
  "sides (updatefrom f t) = sides f" "sides (t\<lparr>tf_area := a\<rparr>) = sides t" "tf_index TrackingFrame_new = - 1"
  by (simp_all add: updatefrom_def in_grid_def sides_def TrackingFrame_new_def)

text \<open>Followed frames keep their place and their index, and new ones come behind them with the index -1; all that were seen are inside the grid and have their area counted.\<close>

definition follows :: "u32 list \<Rightarrow> tracking_frame \<Rightarrow> tracking_frame \<Rightarrow> bool" where
  "follows px t u \<longleftrightarrow> u = t \<or> updated px u \<and> tf_index u = tf_index t"

lemma follows_trans: "follows px t u \<Longrightarrow> follows px u v \<Longrightarrow> follows px t v"
  by (auto simp: follows_def)

lemma follows_update: "i < length ts \<Longrightarrow> follows px (ts ! i) u \<Longrightarrow> list_all2 (follows px) (ts[i := u]) us \<Longrightarrow> list_all2 (follows px) ts us"
  by (auto simp: list_all2_conv_all_nth nth_list_update split: if_splits intro: follows_trans)

lemma match_frames_Ret:
  assumes "picture px" "\<forall>f\<in>set fs. in_grid f"
  shows "\<exists>us vs. match_frames px objsize fs ts n = Ret (us @ vs, n + int (length vs) - int (length fs)) \<and>
    list_all2 (follows px) ts us \<and> (\<forall>v\<in>set vs. updated px v \<and> tf_index v = - 1)"
  using assms(2)
proof (induction fs arbitrary: ts n)
  case Nil
  then show ?case by (intro exI [of _ ts] exI [of _ "[]"]) (simp add: list_all2_same follows_def)
next
  case (Cons f fs)
  define g where "g = resizeFrame f"
  have grid: "in_grid g" and fs: "\<forall>f\<in>set fs. in_grid f" using Cons.prems by (simp_all add: g_def resizeFrame_grid)
  define new where "new t = (updatefrom g t)\<lparr>tf_area := area_in px (updatefrom g t)\<rparr>" for t
  have new: "updated px (new t)" "tf_index (new t) = tf_index t" "GetFrameArea px (updatefrom g t) = Ret (area_in px (updatefrom g t))" for t
    using grid by (simp_all add: new_def updated_def GetFrameArea_grid [OF assms(1)])
  note step = g_def [symmetric] Let_def new(3) new_def [symmetric]
  show ?case
  proof (cases "tf_area g \<ge> objsize")
    case False
    obtain us vs where "match_frames px objsize fs ts (n - 1) = Ret (us @ vs, n - 1 + int (length vs) - int (length fs))"
      "list_all2 (follows px) ts us" "\<forall>v\<in>set vs. updated px v \<and> tf_index v = - 1"
      using Cons.IH [OF fs] by blast
    then show ?thesis using False by (intro exI [of _ us] exI [of _ vs]) (simp add: step)
  next
    case True
    show ?thesis
    proof (rule intersectFrame_cases [of g ts])
      assume i: "intersectFrame g ts = - 1"
      obtain us vs where IH: "match_frames px objsize fs (ts @ [new TrackingFrame_new]) n = Ret (us @ vs, n + int (length vs) - int (length fs))"
        "list_all2 (follows px) (ts @ [new TrackingFrame_new]) us" "\<forall>v\<in>set vs. updated px v \<and> tf_index v = - 1"
        using Cons.IH [OF fs] by blast
      then obtain us' u where us: "us = us' @ [u]" "list_all2 (follows px) ts us'" "follows px (new TrackingFrame_new) u"
        by (auto simp: list_all2_append1 list_all2_Cons1)
      then have "updated px u \<and> tf_index u = - 1" using new(1,2) [of TrackingFrame_new] by (auto simp: follows_def)
      then show ?thesis using True i IH us by (intro exI [of _ us'] exI [of _ "u # vs"]) (simp add: step)
    next
      fix i assume i: "i < length ts" "intersectFrame g ts = int i"
      obtain us vs where IH: "match_frames px objsize fs (ts[i := new (ts ! i)]) (n - 1) = Ret (us @ vs, n - 1 + int (length vs) - int (length fs))"
        "list_all2 (follows px) (ts[i := new (ts ! i)]) us" "\<forall>v\<in>set vs. updated px v \<and> tf_index v = - 1"
        using Cons.IH [OF fs] by blast
      have "list_all2 (follows px) ts us" by (rule follows_update [OF i(1) _ IH(2)]) (simp add: follows_def new)
      then show ?thesis using True i IH by (intro exI [of _ us] exI [of _ vs]) (simp add: step)
    qed
  qed
qed

text \<open>An object whose frame touches no other frame of the picture has a followed frame exactly on it afterwards.\<close>

definition followed_at :: "tracking_frame list \<Rightarrow> tracking_frame \<Rightarrow> bool" where
  "followed_at ts f \<longleftrightarrow> (\<exists>t\<in>set ts. tf_update t \<and> sides t = sides f)"

lemma intersect_sides: "sides t = sides f \<Longrightarrow> intersect g t = intersect g f"
  by (simp add: intersect_def contain_def sides_def)

lemma followed_at_update: "followed_at ts f \<Longrightarrow> i < length ts \<Longrightarrow> \<not> intersect g f \<Longrightarrow> intersect g (ts ! i) \<Longrightarrow> followed_at (ts[i := u]) f"
  unfolding followed_at_def using set_update_cover [of i ts _ u] intersect_sides by metis

lemma resizeFrame_area [simp]: "tf_area (resizeFrame f) = tf_area f"
  by (simp add: resizeFrame_def Let_def)

lemma match_frames_followed:
  assumes "picture px" "\<forall>f\<in>set fs. in_grid f" "sorted_wrt (\<lambda>f g. \<not> intersect (resizeFrame g) (resizeFrame f)) fs"
    "\<forall>p\<in>P. followed_at ts p \<and> (\<forall>f\<in>set fs. \<not> intersect (resizeFrame f) p)" "match_frames px objsize fs ts n = Ret (ts', n')"
  shows "(\<forall>p\<in>P. followed_at ts' p) \<and> (\<forall>f\<in>set fs. objsize \<le> tf_area f \<longrightarrow> followed_at ts' (resizeFrame f))"
  using assms(2-5)
proof (induction fs arbitrary: ts n P)
  case (Cons f fs)
  define g where "g = resizeFrame f"
  have grid: "in_grid g" and fs: "\<forall>f\<in>set fs. in_grid f" using Cons.prems by (simp_all add: g_def resizeFrame_grid)
  have ga: "tf_area g = tf_area f" by (simp add: g_def)
  have area: "GetFrameArea px (updatefrom g t) = Ret (area_in px (updatefrom g t))" for t
    using grid by (simp add: GetFrameArea_grid [OF assms(1)])
  have apart: "\<forall>h\<in>set fs. \<not> intersect (resizeFrame h) g" "sorted_wrt (\<lambda>f g. \<not> intersect (resizeFrame g) (resizeFrame f)) fs"
    using Cons.prems(2) by (simp_all add: g_def)
  show ?case
  proof (cases "objsize \<le> tf_area f")
    case False
    then show ?thesis using Cons.IH [OF fs apart(2), of P ts "n - 1"] Cons.prems(3,4) by (auto simp: Let_def)
  next
    case True
    show ?thesis
    proof (rule intersectFrame_cases [of g ts])
      assume i: "intersectFrame g ts = - 1"
      define u where "u = (updatefrom g TrackingFrame_new)\<lparr>tf_area := area_in px (updatefrom g TrackingFrame_new)\<rparr>"
      have "\<forall>p\<in>insert g P. followed_at (ts @ [u]) p \<and> (\<forall>f\<in>set fs. \<not> intersect (resizeFrame f) p)"
        using Cons.prems(3) apart(1) by (auto simp: followed_at_def u_def)
      moreover have "match_frames px objsize fs (ts @ [u]) n = Ret (ts', n')"
        using Cons.prems(4) True i by (simp add: g_def [symmetric] Let_def ga area u_def)
      ultimately have "(\<forall>p\<in>insert g P. followed_at ts' p) \<and> (\<forall>f\<in>set fs. objsize \<le> tf_area f \<longrightarrow> followed_at ts' (resizeFrame f))"
        by (rule Cons.IH [OF fs apart(2)])
      then show ?thesis by (simp add: g_def)
    next
      fix i assume i: "i < length ts" "intersectFrame g ts = int i" "intersect g (ts ! i)"
      define u where "u = (updatefrom g (ts ! i))\<lparr>tf_area := area_in px (updatefrom g (ts ! i))\<rparr>"
      have "followed_at (ts[i := u]) g" using set_update_memI [OF i(1), of u] unfolding followed_at_def by (rule bexI [rotated]) (simp add: u_def)
      then have "\<forall>p\<in>insert g P. followed_at (ts[i := u]) p \<and> (\<forall>f\<in>set fs. \<not> intersect (resizeFrame f) p)"
        using Cons.prems(3) apart(1) followed_at_update [OF _ i(1) _ i(3)] by (auto simp: g_def)
      moreover have "match_frames px objsize fs (ts[i := u]) (n - 1) = Ret (ts', n')"
        using Cons.prems(4) True i(1,2) by (simp add: g_def [symmetric] Let_def ga area u_def)
      ultimately have "(\<forall>p\<in>insert g P. followed_at ts' p) \<and> (\<forall>f\<in>set fs. objsize \<le> tf_area f \<longrightarrow> followed_at ts' (resizeFrame f))"
        by (rule Cons.IH [OF fs apart(2)])
      then show ?thesis by (simp add: g_def)
    qed
  qed
qed simp

section \<open>Telling the application\<close>

text \<open>
  What the registered function promises: \<open>held c I\<close> says that in the state \<open>c\<close> of the application the indices \<open>I\<close> are given to frames. A frame keeps its index or is refused,
  a new frame gets an index that no other frame has or is refused, and a frame that is dropped gives its index back.
\<close>

locale tracking_listener =
  fixes OnMotionTracking :: "'c listener" and held :: "'c \<Rightarrow> int set \<Rightarrow> bool"
  assumes held_nonneg: "held c I \<Longrightarrow> i \<in> I \<Longrightarrow> 0 \<le> i"
    and held_keep: "held c I \<Longrightarrow> i \<in> I \<Longrightarrow> \<exists>r c'. OnMotionTracking s i scrn False c = Ret (r, c') \<and> (r = i \<and> held c' I \<or> r < 0 \<and> held c' (I - {i}))"
    and held_new: "held c I \<Longrightarrow> \<exists>r c'. OnMotionTracking s (- 1) scrn False c = Ret (r, c') \<and> (r \<notin> I \<and> held c' (insert r I) \<or> r < 0 \<and> held c' I)"
    and held_drop: "held c I \<Longrightarrow> i \<in> I \<Longrightarrow> \<exists>r c'. OnMotionTracking s i scrn True c = Ret (r, c') \<and> held c' (I - {i})"
begin

definition given :: "tracking_frame list \<Rightarrow> int list" where
  "given ts = filter (\<lambda>i. i \<noteq> - 1) (map tf_index ts)"

definition reported :: "int \<Rightarrow> (tracking_frame list \<times> int \<times> 'c) outcome \<Rightarrow> bool" where
  "reported k res \<longleftrightarrow> (\<exists>ks c. res = Ret (ks, k + int (length ks), c) \<and> distinct (map tf_index ks) \<and> held c (set (map tf_index ks)) \<and> (\<forall>t\<in>set ks. in_grid t))"

text \<open>Frames yet to be reported are \<open>ts\<close>; those that were kept are \<open>ks\<close>.\<close>

lemma report_frames_held:
  assumes "\<forall>t\<in>set ts. tf_index t = - 1 \<longrightarrow> tf_update t" "distinct (given ts @ map tf_index ks)" "held c (set (given ts @ map tf_index ks))" "\<forall>t\<in>set (ts @ ks). in_grid t"
  shows "reported (n - int (length ks) - int (length ts)) (report_frames (Some OnMotionTracking) dropsecond scrn ts ks n c)"
  using assms
proof (induction ts arbitrary: ks n c)
  case Nil
  then show ?case by (auto simp: given_def reported_def)
next
  case (Cons t ts)
  let ?H = "set (given ts @ map tf_index ks)" and ?go = "report_frames (Some OnMotionTracking) dropsecond scrn ts"
  let ?R = "reported (n - int (length ks) - int (length (t # ts)))"
  have ts: "\<forall>t\<in>set ts. tf_index t = - 1 \<longrightarrow> tf_update t" "distinct (given ts @ map tf_index ks)" "\<forall>t\<in>set (ts @ ks). in_grid t" "in_grid t"
    using Cons.prems by (auto simp: given_def split: if_splits)
  have skip: "?R (?go ks (n - 1) c')" if "held c' ?H" for c'
    using Cons.IH [OF ts(1,2) that ts(3), of "n - 1"] by (simp add: algebra_simps)
  have keep: "?R (?go (u # ks) n c')" if "tf_index u \<notin> ?H" "held c' (insert (tf_index u) ?H)" "in_grid u" for u c'
  proof -
    have "distinct (given ts @ map tf_index (u # ks))" "held c' (set (given ts @ map tf_index (u # ks)))" "\<forall>t\<in>set (ts @ u # ks). in_grid t"
      using that ts by auto
    from Cons.IH [OF ts(1) this, of n] show ?thesis by (simp add: algebra_simps)
  qed
  show ?case
  proof (cases "tf_index t = - 1")
    case True
    then have up: "tf_update t" and h: "held c ?H" using Cons.prems(1,3) by (auto simp: given_def)
    obtain r c' where r: "OnMotionTracking (sides t) (- 1) scrn False c = Ret (r, c')" "r \<notin> ?H \<and> held c' (insert r ?H) \<or> r < 0 \<and> held c' ?H"
      using held_new [OF h] by blast
    show ?thesis
    proof (cases "r < 0")
      case neg: True
      then have "held c' ?H" using r(2) held_nonneg [of c' "insert r ?H" r] by auto
      then show ?thesis using skip neg up True r(1) by simp
    next
      case False
      then show ?thesis using keep [of "t\<lparr>tf_index := r\<rparr>" c'] ts(4) up True r by simp
    qed
  next
    case False
    let ?i = "tf_index t"
    have h: "held c (insert ?i ?H)" and i: "?i \<notin> ?H" using False Cons.prems(2,3) by (auto simp: given_def)
    have less: "held c' (insert ?i ?H - {?i}) \<Longrightarrow> held c' ?H" for c' using i by simp
    obtain r c' where r: "OnMotionTracking (sides t) ?i scrn False c = Ret (r, c')" "r = ?i \<and> held c' (insert ?i ?H) \<or> r < 0 \<and> held c' ?H"
      using held_keep [OF h, of ?i] less by blast
    obtain d c'' where d: "OnMotionTracking (sides t) ?i scrn True c = Ret (d, c'')" "held c'' ?H"
      using held_drop [OF h, of ?i] less by blast
    have pos: "0 \<le> ?i" using held_nonneg [OF h] by simp
    show ?thesis
    proof (cases "tf_update t")
      case True
      then show ?thesis using r pos skip keep [of t c'] i ts(4) by (cases "r < 0") auto
    next
      case not_seen: False
      let ?t = "t\<lparr>tf_skipupdatecount := tf_skipupdatecount t + 1\<rparr>"
      have "sides ?t = sides t" by (simp add: sides_def)
      then show ?thesis using not_seen d skip keep [of ?t c] i h ts(4) by (simp add: Let_def)
    qed
  qed
qed

text \<open>The state of the tracker: frames are inside the grid, and each has an index of its own. Every picture can be worked off.\<close>

definition tracking_ok :: "'c tracking \<Rightarrow> bool" where
  "tracking_ok T \<longleftrightarrow> (\<forall>t\<in>set (mTrackingFrame T). in_grid t) \<and> distinct (map tf_index (mTrackingFrame T)) \<and> held (client T) (set (map tf_index (mTrackingFrame T)))"

lemma DetectTracking_held:
  assumes "picture px" "tracking_ok T"
  shows "\<exists>T' m. DetectTracking (Some OnMotionTracking) px scrn T = Ret T' \<and> tracking_ok T' \<and> mObjectSize T' = mObjectSize T \<and> mDropSecond T' = mDropSecond T \<and>
    tf_live T' - int (length (mTrackingFrame T')) = tf_live T - int (length (mTrackingFrame T)) + int m"
proof -
  let ?old = "mTrackingFrame T" and ?n = "tf_live T"
  let ?ts = "map (\<lambda>t. t\<lparr>tf_update := False\<rparr>) ?old"
  obtain fs m where fs: "scan_points px points [] ?n = Ret (fs, ?n + int (length fs) + int m)" "\<forall>f\<in>set fs. found px f"
    using scan_found [OF assms(1)] by metis
  then have "\<forall>f\<in>set (rev fs). in_grid f" by (simp add: found_def)
  from match_frames_Ret [OF assms(1) this, of "mObjectSize T" ?ts "?n + int (length fs) + int m"] obtain us vs where
    uv: "match_frames px (mObjectSize T) (rev fs) ?ts (?n + int (length fs) + int m) = Ret (us @ vs, ?n + int m + int (length vs))"
      "list_all2 (follows px) ?ts us" "\<forall>v\<in>set vs. updated px v \<and> tf_index v = - 1"
    by (auto simp: algebra_simps)
  have len: "length us = length ?old" using uv(2) by (auto dest: list_all2_lengthD)
  have idx: "map tf_index us = map tf_index ?old"
    using uv(2) by (intro nth_equalityI) (auto simp: list_all2_conv_all_nth follows_def)
  have ok: "\<forall>t\<in>set ?old. in_grid t" "distinct (map tf_index ?old)" "held (client T) (set (map tf_index ?old))"
    using assms(2) by (simp_all add: tracking_ok_def)
  have grid: "\<forall>u\<in>set us. in_grid u"
    using uv(2) ok(1) by (fastforce simp: list_all2_conv_all_nth in_set_conv_nth follows_def updated_def)
  have "\<forall>i\<in>set (map tf_index ?old). i \<noteq> - 1" using held_nonneg [OF ok(3)] by force
  then have nn: "\<forall>i\<in>set (map tf_index us). i \<noteq> - 1" by (simp only: idx)
  have g: "given (rev (us @ vs)) = rev (map tf_index ?old)"
    using uv(3) nn unfolding given_def idx [symmetric] by (simp add: rev_map [symmetric] filter_empty_conv filter_id_conv)
  let ?N = "?n + int m + int (length vs)" and ?rs = "rev (us @ vs)"
  have "reported (?N - int (length ([] :: tracking_frame list)) - int (length ?rs)) (report_frames (Some OnMotionTracking) (mDropSecond T) scrn ?rs [] ?N (client T))"
    by (rule report_frames_held) (use g ok uv(3) nn grid in \<open>auto simp: updated_def\<close>)
  then show ?thesis using fs(1) uv(1) len
    by (auto simp: reported_def DetectTracking_def tracking_ok_def intro!: exI [of _ m])
qed

end

section \<open>Properties of a picture\<close>

lemma report_frames_followed:
  assumes "report_frames (Some g) dropsecond scrn ts ks n c = Ret (ks', n', c')" "followed_at (ts @ ks) f"
  shows "followed_at ks' f \<or> (\<exists>i c r c'. g (sides f) i scrn False c = Ret (r, c') \<and> r < 0)"
  using assms
proof (induction ts arbitrary: ks n c)
  case (Cons t ts)
  let ?t = "t\<lparr>tf_skipupdatecount := tf_skipupdatecount t + 1\<rparr>"
  show ?case
  proof (cases "tf_update t")
    case False
    then have "followed_at (ts @ ks) f" "followed_at (ts @ ?t # ks) f" using Cons.prems(2) by (auto simp: followed_at_def)
    then show ?thesis using Cons.prems(1) Cons.IH False by (auto simp: Let_def bnd_Ret_iff split: if_splits)
  next
    case True
    from Cons.prems(1) True obtain r d where r: "g (sides t) (tf_index t) scrn False c = Ret (r, d)"
      "(if r < 0 then report_frames (Some g) dropsecond scrn ts ks (n - 1) d else report_frames (Some g) dropsecond scrn ts (t\<lparr>tf_index := r\<rparr> # ks) n d) = Ret (ks', n', c')"
      by (auto simp: bnd_Ret_iff Let_def)
    have kept: "followed_at (ts @ t\<lparr>tf_index := r\<rparr> # ks) f" using Cons.prems(2) by (auto simp: followed_at_def sides_def)
    show ?thesis
    proof (cases "r < 0 \<and> sides t = sides f")
      case False
      then have "r < 0 \<Longrightarrow> followed_at (ts @ ks) f" using Cons.prems(2) by (auto simp: followed_at_def)
      then show ?thesis using r(2) kept Cons.IH by (auto split: if_splits)
    qed (use r(1) in metis)
  qed
qed simp

text \<open>
  Looking through a picture of 50 by 50 points never reads outside of it, and afterwards every white point of the columns from 5 to 44 is in a frame. Each frame lies in the picture, its area is the
  number of white points in it, and there is at least one. (White points in the five columns at either border start no frame.)
\<close>

theorem scan_covers:
  assumes "picture px"
  shows "case scan_points px points [] n of
      Ret (fs, n') \<Rightarrow> (\<forall>x y. 5 \<le> x \<and> x \<le> 44 \<and> 0 \<le> y \<and> y \<le> 49 \<and> lit px x y \<longrightarrow> InFrame x y fs) \<and> (\<forall>f\<in>set fs. found px f) \<and> n + int (length fs) \<le> n'
    | _ \<Rightarrow> False"
proof -
  obtain fs m where fs: "scan_points px points [] n = Ret (fs, n + int (length fs) + int m)" "\<forall>f\<in>set fs. found px f"
    "\<And>x y. 5 \<le> x \<Longrightarrow> x \<le> 44 \<Longrightarrow> 0 \<le> y \<Longrightarrow> y \<le> 49 \<Longrightarrow> lit px x y \<Longrightarrow> InFrame x y fs"
    using scan_found [OF assms, where n = n] by blast
  then show ?thesis by simp
qed

definition one_point :: "u32 list" where
  "one_point = (replicate 2500 0)[1010 := 0xffffffff]"

lemma one_point_lit: "picture one_point" "0 \<le> y * 50 + x \<Longrightarrow> y * 50 + x < 2500 \<Longrightarrow> lit one_point x y \<longleftrightarrow> y * 50 + x = 1010"
  by (auto simp: one_point_def picture_def lit_def nth_list_update)

theorem scan_covers_witness: "case scan_points one_point points [] 0 of Ret (fs, n) \<Rightarrow> InFrame 10 20 fs \<and> int (length fs) \<le> n | _ \<Rightarrow> False"
  using scan_covers [OF one_point_lit(1), of 0] one_point_lit(2) [of 20 10]
  by (auto split: outcome.splits)

text \<open>
  Objects are followed. When no frame of a picture has a corner in one that was found later, every frame with enough white points is followed after the picture: a followed frame lies exactly on the
  square around it, unless the application refused that square.
\<close>

theorem object_followed:
  assumes "picture px" "scan_points px points [] (tf_live T) = Ret (fs, n)" "sorted_wrt (\<lambda>f g. \<not> intersect (resizeFrame f) (resizeFrame g)) fs"
    "DetectTracking (Some g) px scrn T = Ret T'" "f \<in> set fs" "mObjectSize T \<le> tf_area f"
  shows "followed_at (mTrackingFrame T') (resizeFrame f) \<or> (\<exists>i c r c'. g (sides (resizeFrame f)) i scrn False c = Ret (r, c') \<and> r < 0)"
proof -
  let ?ts = "map (\<lambda>t. t\<lparr>tf_update := False\<rparr>) (mTrackingFrame T)"
  obtain us k where us: "match_frames px (mObjectSize T) (rev fs) ?ts n = Ret (us, k)"
    and "\<exists>k' c'. report_frames (Some g) (mDropSecond T) scrn (rev us) [] k (client T) = Ret (mTrackingFrame T', k', c')"
    using assms(2,4) by (auto simp: DetectTracking_def bnd_Ret_iff)
  then obtain k' c' where rep: "report_frames (Some g) (mDropSecond T) scrn (rev us) [] k (client T) = Ret (mTrackingFrame T', k', c')" by blast
  have "\<forall>f\<in>set (rev fs). in_grid f" using scan_found [OF assms(1), of "tf_live T"] assms(2) by (metis Pair_inject found_def outcome.inject(1) set_rev)
  then have "followed_at us (resizeFrame f)"
    using match_frames_followed [OF assms(1) _ _ _ us, of "{}"] assms(3,5,6) by (auto simp: sorted_wrt_rev)
  then have "followed_at (rev us @ []) (resizeFrame f)" by (simp add: followed_at_def)
  from report_frames_followed [OF rep this] show ?thesis .
qed

lemma scan_covered:
  "picture px \<Longrightarrow> (\<forall>(x, y)\<in>set ps. 5 \<le> x \<and> x \<le> 44 \<and> 0 \<le> y \<and> y \<le> 49 \<and> (lit px x y \<longrightarrow> InFrame x y fs)) \<Longrightarrow> scan_points px (ps @ qs) fs n = scan_points px qs fs n"
  by (induction ps) (auto simp: white_at)

lemma one_point_scan: "\<exists>f. scan_points one_point points [] n = Ret ([f], n + 1) \<and> in_grid f \<and> tf_area f = area_in one_point f \<and> 0 < tf_area f"
proof -
  have "(10, 20) \<in> set points" by (simp add: points_range)
  then obtain ps qs where pq: "points = ps @ (10, 20) # qs" "(10, 20) \<notin> set ps" by (meson split_list_first)
  have only: "5 \<le> x \<and> x \<le> 44 \<and> 0 \<le> y \<and> y \<le> 49 \<and> (lit one_point x y \<longrightarrow> x = 10 \<and> y = 20)" if "(x, y) \<in> set points" for x y
    using that one_point_lit(2) [of y x] by (simp add: points_range) presburger
  obtain f where f: "GetFrame one_point 10 20 = Ret f" "in_grid f" "contain 10 20 f" "tf_area f = area_in one_point f"
    using GetFrame_tight [OF one_point_lit(1), of 10 20] one_point_lit(2) [of 20 10] by auto
  have ps: "\<forall>(x, y)\<in>set ps. 5 \<le> x \<and> x \<le> 44 \<and> 0 \<le> y \<and> y \<le> 49 \<and> (lit one_point x y \<longrightarrow> InFrame x y [])"
    and qs: "\<forall>(x, y)\<in>set qs. 5 \<le> x \<and> x \<le> 44 \<and> 0 \<le> y \<and> y \<le> 49 \<and> (lit one_point x y \<longrightarrow> InFrame x y [f])"
  proof -
    have sub: "set ps \<subseteq> set points" "set qs \<subseteq> set points" unfolding pq(1) by auto
    have "5 \<le> x \<and> x \<le> 44 \<and> 0 \<le> y \<and> y \<le> 49 \<and> (lit one_point x y \<longrightarrow> InFrame x y [])" if "(x, y) \<in> set ps" for x y
      using only [of x y] that sub(1) pq(2) by blast
    then show "\<forall>(x, y)\<in>set ps. 5 \<le> x \<and> x \<le> 44 \<and> 0 \<le> y \<and> y \<le> 49 \<and> (lit one_point x y \<longrightarrow> InFrame x y [])" by blast
    have "5 \<le> x \<and> x \<le> 44 \<and> 0 \<le> y \<and> y \<le> 49 \<and> (lit one_point x y \<longrightarrow> InFrame x y [f])" if "(x, y) \<in> set qs" for x y
      using only [of x y] that sub(2) f(3) by auto
    then show "\<forall>(x, y)\<in>set qs. 5 \<le> x \<and> x \<le> 44 \<and> 0 \<le> y \<and> y \<le> 49 \<and> (lit one_point x y \<longrightarrow> InFrame x y [f])" by blast
  qed
  have "scan_points one_point points [] n = scan_points one_point (qs @ []) [f] (n + 1)"
    using scan_covered [OF one_point_lit(1) ps, of "(10, 20) # qs" n] f(1) one_point_lit(2) [of 20 10]
    by (simp add: pq(1) white_at [OF one_point_lit(1), of 10 20, simplified] intersectFrame_def Let_def)
  also have "\<dots> = Ret ([f], n + 1)" using scan_covered [OF one_point_lit(1) qs, of "[]"] by simp
  finally show ?thesis using f area_in_pos [OF f(3), of one_point] one_point_lit(2) [of 20 10] by simp
qed

theorem object_followed_witness:
  "\<exists>f T'. DetectTracking (Some (\<lambda>s i scrn del c. Ret (0, c))) one_point 0 \<lparr>mTrackingFrame = [], mObjectSize = 1, mDropSecond = 85, tf_live = 0, client = ()\<rparr> = Ret T' \<and>
     tf_area f = area_in one_point f \<and> 0 < tf_area f \<and> followed_at (mTrackingFrame T') (resizeFrame f)"
proof -
  let ?g = "\<lambda>s i scrn del c. Ret (0 :: int, c :: unit)" and ?T = "\<lparr>mTrackingFrame = [], mObjectSize = 1, mDropSecond = 85, tf_live = 0, client = ()\<rparr> :: unit tracking"
  obtain f where f: "scan_points one_point points [] 0 = Ret ([f], 0 + 1)" "in_grid f" "tf_area f = area_in one_point f" "0 < tf_area f"
    using one_point_scan by blast
  have "\<exists>T'. DetectTracking (Some ?g) one_point 0 ?T = Ret T'"
    using f by (simp add: DetectTracking_def intersectFrame_def Let_def GetFrameArea_grid [OF one_point_lit(1)] resizeFrame_grid)
  then obtain T' where T': "DetectTracking (Some ?g) one_point 0 ?T = Ret T'" by blast
  from object_followed [OF one_point_lit(1) _ _ T', of "[f]" 1 f] show ?thesis using f T' by auto
qed

end
