(* ===== verification/MotionDisplay.thy ===== *)
theory MotionDisplay
  imports NormalPlay MotionTracking
begin

text \<open>
  The application's side of motion tracking (\<^verbatim>\<open>gles/platform/Android/GLVideoDisplay.cpp\<close>): the function that is registered with the tracker, which gives every followed frame one of five
  indices, and the picture that goes through \<^verbatim>\<open>gles/GLES/GPUMotionDetection.cpp\<close> and \<^verbatim>\<open>gles/GLES/GPUMotionTracking.cpp\<close>. The tracker is used as the application makes it, with a
  frame buffer and without a thread of its own. What \<open>glReadPixels\<close> gives for a screen is an argument. The screen that is shown is part of the state; calls of it and of Java are recorded.
\<close>

section \<open>The registered function\<close>

definition SCRN_NORMAL :: int where "SCRN_NORMAL = 0"
definition SCRN_FOUR :: int where "SCRN_FOUR = 5"
definition SCRN_THREE :: int where "SCRN_THREE = 8"
definition SCRN_SIX :: int where "SCRN_SIX = 9"
definition SCRN_FOUREX :: int where "SCRN_FOUREX = 15"

datatype screen_call =
    SetPosition_call KSVec3
  | SetScale_call KSVec3 int
  | ClearAnimation_call
  | DoUpdateFrame_call real int real int int

record jamanager =
  CurrentParametric :: "int option"
  screen_pos :: KSVec3
  mTracingIndex :: "bool list"
  window_width :: int
  window_height :: int
  screen_calls :: "screen_call list"

text \<open>\<open>CurrentParametric\<close> is the mode of the current screen, \<open>None\<close> when there is no manager or no screen.\<close>

fun first_unused :: "int \<Rightarrow> bool list \<Rightarrow> int" where
  "first_unused i [] = - 1"
| "first_unused i (u # us) = (if \<not> u then i else first_unused (i + 1) us)"

definition GetTrackingCanUse :: "jamanager \<Rightarrow> int \<times> jamanager" where
  "GetTrackingCanUse m = (let i = first_unused 0 (mTracingIndex m) in
     (i, if i < 0 then m else m\<lparr>mTracingIndex := (mTracingIndex m)[nat i := True]\<rparr>))"

definition canupdate :: "int \<Rightarrow> int \<Rightarrow> int \<Rightarrow> bool" where
  "canupdate mode scrnindex lindex \<longleftrightarrow> scrnindex = 0 \<and>
     (mode = SCRN_HEMISPHERE \<and> lindex = 0 \<or> mode = SCRN_FOUR \<and> lindex \<ge> 0 \<and> lindex < 4 \<or> mode = SCRN_THREE \<and> lindex \<ge> 0 \<and> lindex < 2 \<or>
      mode = SCRN_SIX \<and> lindex \<ge> 0 \<and> lindex < 5 \<or> mode = SCRN_FOUREX \<and> lindex \<ge> 0 \<and> lindex \<le> 1)"

definition calls :: "screen_call list \<Rightarrow> jamanager \<Rightarrow> jamanager" where
  "calls cs m = m\<lparr>screen_calls := screen_calls m @ cs\<rparr>"

definition OnMotionTracking :: "fl \<Rightarrow> jamanager listener" where
  "OnMotionTracking fl s index scrnindex del m = (case s of (l, t, r, b) \<Rightarrow>
     case CurrentParametric m of None \<Rightarrow> Ret (- 1, m)
     | Some mode \<Rightarrow>
         if del then
           if 0 \<le> index \<and> index < int (length (mTracingIndex m)) then Ret (- 1, m\<lparr>mTracingIndex := (mTracingIndex m)[nat index := False]\<rparr>) else UB HeapOverflow
         else
           let (lindex, m) = (if index = - 1 then GetTrackingCanUse m else (index, m)) in
           if index = - 1 \<and> lindex < 0 then Ret (- 1, m)
           else
             let m = (if scrnindex = 0 \<and> mode = SCRN_HEMISPHERE \<and> lindex = 0 \<and> vz (screen_pos m) < 3
                      then calls [SetPosition_call (vec3 0 0 3)] (m\<lparr>screen_pos := vec3 0 0 3\<rparr>) else m) in
             if canupdate mode scrnindex lindex then
               let m = calls [SetScale_call (vec3 1 1 1) lindex, ClearAnimation_call] m;
                   mLeft = f32 fl (f32 fl (of_int r / 2 / 50) * of_int (window_width m));
                   mTop = f32 fl (f32 fl ((50 - of_int b) / 50) * of_int (window_height m)) in
               Ret (lindex, calls [DoUpdateFrame_call mLeft (window_width m) mTop (window_height m) lindex] m)
             else Ret (- 1, m))"

section \<open>The pictures that are compared\<close>

record motion_detection =
  md_surface :: surface
  mLastTexID :: u32
  mCurrentTexID :: u32

text \<open>\<open>fresh\<close> is the name that \<open>glGenTextures\<close> gives.\<close>

definition md_LoadTexture :: "u32 \<Rightarrow> int \<Rightarrow> int \<Rightarrow> motion_detection \<Rightarrow> motion_detection" where
  "md_LoadTexture fresh w h d =
     (let s = md_surface d;
          s = (if mLastTexID d \<noteq> 0 then emit [DeleteTextures [mLastTexID d]] s else s);
          d = (if mCurrentTexID d \<noteq> 0 then d\<lparr>mLastTexID := mCurrentTexID d\<rparr> else d);
          s = emit [GenTextures [fresh], BindTexture fresh, TexImage2D fresh w h, BindTexture 0] (s\<lparr>texwidth := w, texheight := h\<rparr>) in
      d\<lparr>md_surface := s\<lparr>mNeedDraw := True\<rparr>, mCurrentTexID := fresh\<rparr>)"

definition md_DrawSelf :: "fl \<Rightarrow> motion_detection \<Rightarrow> motion_detection" where
  "md_DrawSelf fl d =
     (let s = (md_surface d)\<lparr>mNeedDraw := False\<rparr> in
      if \<not> Visible s then d\<lparr>md_surface := s\<rparr>
      else
        let s = updateSurfaceTransform fl s in
        if mIsYUV s then
          let s = emit (map (\<lambda>i. BindTexture (if yuvtexid s ! 0 \<noteq> 0 then yuvtexid s ! i else yuvNoVideoTexID s ! i)) [0, 1]) s in
          d\<lparr>md_surface := emit [DrawArrays (triangleIndexCount s), BindTexture 0] s\<rparr>
        else if mCurrentTexID d \<noteq> 0 \<and> mLastTexID d \<noteq> 0 then
          d\<lparr>md_surface := emit [BindTexture (mCurrentTexID d), BindTexture (mLastTexID d), DrawArrays (triangleIndexCount s), BindTexture 0] s\<rparr>
        else d\<lparr>md_surface := s\<rparr>)"

section \<open>A picture arrives\<close>

text \<open>\<open>mMotion\<close> has the three detectors that \<open>InitFBO\<close> makes; the fourth pointer of the array is never set.\<close>

record display =
  tracker :: "jamanager tracking"
  mMotion :: "motion_detection list"
  mTexWidth :: "int list"
  mTexHeight :: "int list"
  mHaveTexture :: "int list"
  mMotionTracking :: "int list"
  mFramecount :: "int list"

definition tracking_LoadTexture :: "u32 \<Rightarrow> int \<Rightarrow> int \<Rightarrow> int \<Rightarrow> display \<Rightarrow> display outcome" where
  "tracking_LoadTexture fresh w h scn D =
     (if scn < 0 \<or> scn > 3 then Ret D
      else
        let i = nat scn; D = D\<lparr>mTexWidth := (mTexWidth D)[i := w], mTexHeight := (mTexHeight D)[i := h]\<rparr> in
        if length (mMotion D) \<le> i then UB UseAfterFree
        else Ret (D\<lparr>mMotion := (mMotion D)[i := md_LoadTexture fresh w h (mMotion D ! i)], mHaveTexture := (mHaveTexture D)[i := mHaveTexture D ! i + 1]\<rparr>))"

fun render_screens :: "fl \<Rightarrow> (nat \<Rightarrow> u32 list) \<Rightarrow> nat list \<Rightarrow> display \<Rightarrow> display outcome" where
  "render_screens fl shot [] D = Ret D"
| "render_screens fl shot (i # is) D =
     (if mHaveTexture D ! i \<noteq> 0 then
        let D = D\<lparr>mMotion := (mMotion D)[i := md_DrawSelf fl (mMotion D ! i)]\<rparr> in
        bnd (DetectTracking (Some (OnMotionTracking fl)) (shot i) (int i) (tracker D)) (\<lambda>T.
        render_screens fl shot is (D\<lparr>tracker := T, mHaveTexture := (mHaveTexture D)[i := mHaveTexture D ! i - 1]\<rparr>))
      else render_screens fl shot is D)"

definition RenderFBO :: "fl \<Rightarrow> (nat \<Rightarrow> u32 list) \<Rightarrow> display \<Rightarrow> display outcome" where
  "RenderFBO fl shot D = render_screens fl shot [0, 1, 2] D"

text \<open>The part of \<open>TextureAvaible\<close> that hands a picture to the tracker.\<close>

definition TextureAvaible :: "fl \<Rightarrow> u32 \<Rightarrow> (nat \<Rightarrow> u32 list) \<Rightarrow> int \<Rightarrow> int \<Rightarrow> int \<Rightarrow> display \<Rightarrow> display outcome" where
  "TextureAvaible fl fresh shot w h index D = (case CurrentParametric (client (tracker D)) of None \<Rightarrow> Ret D
     | Some mode \<Rightarrow>
         if index > 0 \<and> mode \<noteq> SCRN_NORMAL then Ret D
         else if mode \<noteq> SCRN_NORMAL then
           if index < 0 then UB OobRead
           else
             bnd (if mMotionTracking D ! nat index \<noteq> 0 \<and> c_mod (mFramecount D ! 0) 3 = 0
                  then bnd (tracking_LoadTexture fresh w h index D) (RenderFBO fl shot) else Ret D) (\<lambda>D.
             if mFramecount D ! 0 = 2147483647 then UB SignedOverflow
             else Ret (D\<lparr>mFramecount := (mFramecount D)[0 := mFramecount D ! 0 + 1]\<rparr>))
         else Ret D)"

definition SetupMotionTrackingOptions :: "int \<Rightarrow> int \<Rightarrow> display \<Rightarrow> display" where
  "SetupMotionTrackingOptions objsize dropsecond D = D\<lparr>tracker := (tracker D)\<lparr>mDropSecond := dropsecond, mObjectSize := objsize\<rparr>\<rparr>"

definition StartMotionTracking :: "int \<Rightarrow> display \<Rightarrow> display outcome" where
  "StartMotionTracking index D = (if 0 \<le> index \<and> index < 4 then Ret (D\<lparr>mMotionTracking := (mMotionTracking D)[nat index := 1]\<rparr>) else UB HeapOverflow)"

definition StopMotionTracking :: "int \<Rightarrow> display \<Rightarrow> display outcome" where
  "StopMotionTracking index D = (if 0 \<le> index \<and> index < 4 then Ret (D\<lparr>mMotionTracking := (mMotionTracking D)[nat index := 0]\<rparr>) else UB HeapOverflow)"

text \<open>What \<open>InitManager\<close> and the constructor of the tracker set up. \<open>mFramecount\<close>, the sizes and the detectors are what they happen to be; there are three detectors.\<close>

definition GPUMotionTracking_new :: "'c \<Rightarrow> 'c tracking" where
  "GPUMotionTracking_new c = \<lparr>mTrackingFrame = [], mObjectSize = 10, mDropSecond = 85, tf_live = 0, client = c\<rparr>"

definition InitManager :: "jamanager \<Rightarrow> motion_detection list \<Rightarrow> int list \<Rightarrow> int list \<Rightarrow> int list \<Rightarrow> display" where
  "InitManager m ds ws hs fc = \<lparr>tracker = GPUMotionTracking_new (m\<lparr>mTracingIndex := replicate 5 False\<rparr>), mMotion = ds, mTexWidth = ws, mTexHeight = hs,
     mHaveTexture = replicate 4 0, mMotionTracking = replicate 4 0, mFramecount = fc\<rparr>"

section \<open>The registered function keeps its promise\<close>

text \<open>The indices of \<open>I\<close> belong to frames; those of \<open>J\<close> are marked as used and belong to no frame.\<close>

definition slots :: "int set \<Rightarrow> jamanager \<Rightarrow> int set \<Rightarrow> bool" where
  "slots J m I \<longleftrightarrow> length (mTracingIndex m) = 5 \<and> I \<union> J \<subseteq> {0..<5} \<and> I \<inter> J = {} \<and> (\<forall>i\<in>I \<union> J. mTracingIndex m ! nat i)"

lemma first_unused_cases: "first_unused k us = - 1 \<and> (\<forall>u\<in>set us. u) \<or> (\<exists>i<length us. first_unused k us = k + int i \<and> \<not> us ! i)"
proof (induction us arbitrary: k)
  case (Cons u us)
  show ?case
  proof (cases u)
    case True
    from Cons.IH [of "k + 1"] show ?thesis
    proof (elim disjE exE conjE)
      fix i assume "i < length us" "first_unused (k + 1) us = k + 1 + int i" "\<not> us ! i"
      then show ?thesis using True by (intro disjI2 exI [of _ "Suc i"]) simp
    qed (use True in auto)
  qed auto
qed simp

lemma slots_mark:
  assumes "slots J m I" "i < 5" "\<not> mTracingIndex m ! i"
  shows "int i \<notin> I" "slots J (m\<lparr>mTracingIndex := (mTracingIndex m)[i := True]\<rparr>) (insert (int i) I)" "slots J (m\<lparr>mTracingIndex := (mTracingIndex m)[i := True]\<rparr>) I"
    "slots (insert (int i) J) (m\<lparr>mTracingIndex := (mTracingIndex m)[i := True]\<rparr>) I"
proof -
  have "int i \<notin> I \<union> J" using assms(1,3) by (auto simp: slots_def dest!: bspec [of _ _ "int i"])
  then show "int i \<notin> I" "slots J (m\<lparr>mTracingIndex := (mTracingIndex m)[i := True]\<rparr>) (insert (int i) I)" "slots J (m\<lparr>mTracingIndex := (mTracingIndex m)[i := True]\<rparr>) I"
    "slots (insert (int i) J) (m\<lparr>mTracingIndex := (mTracingIndex m)[i := True]\<rparr>) I"
    using assms by (auto simp: slots_def nth_list_update)
qed

lemma slots_calls [simp]: "slots J (calls cs m) I = slots J m I" "slots J (m\<lparr>screen_pos := p\<rparr>) I = slots J m I"
  by (simp_all add: slots_def calls_def)

lemma slots_less: "slots J m I \<Longrightarrow> slots J m (I - {i})"
  by (auto simp: slots_def)

lemma slots_drop: "slots J m I \<Longrightarrow> i \<in> I \<Longrightarrow> slots J (m\<lparr>mTracingIndex := (mTracingIndex m)[nat i := False]\<rparr>) (I - {i})"
proof -
  assume h: "slots J m I" "i \<in> I"
  have "(mTracingIndex m)[nat i := False] ! nat k = mTracingIndex m ! nat k" if "k \<in> (I - {i}) \<union> J" for k
  proof -
    have "0 \<le> i" "0 \<le> k" "k \<noteq> i" using h that by (auto simp: slots_def)
    then have "nat k \<noteq> nat i" by simp
    then show ?thesis by simp
  qed
  then show ?thesis using h by (auto simp: slots_def)
qed

text \<open>What happens to a frame that is not dropped, once its index is chosen.\<close>

definition shown_as :: "fl \<Rightarrow> int \<times> int \<times> int \<times> int \<Rightarrow> int \<Rightarrow> int \<Rightarrow> int \<Rightarrow> jamanager \<Rightarrow> (int \<times> jamanager) outcome" where
  "shown_as fl s lindex scrnindex mode m = (case s of (l, t, r, b) \<Rightarrow>
     let m = (if scrnindex = 0 \<and> mode = SCRN_HEMISPHERE \<and> lindex = 0 \<and> vz (screen_pos m) < 3
              then calls [SetPosition_call (vec3 0 0 3)] (m\<lparr>screen_pos := vec3 0 0 3\<rparr>) else m) in
     if canupdate mode scrnindex lindex then
       let m = calls [SetScale_call (vec3 1 1 1) lindex, ClearAnimation_call] m;
           mLeft = f32 fl (f32 fl (of_int r / 2 / 50) * of_int (window_width m));
           mTop = f32 fl (f32 fl ((50 - of_int b) / 50) * of_int (window_height m)) in
       Ret (lindex, calls [DoUpdateFrame_call mLeft (window_width m) mTop (window_height m) lindex] m)
     else Ret (- 1, m))"

lemma shown_as_slots:
  "\<exists>m'. shown_as fl s lindex scrnindex mode m = Ret (if canupdate mode scrnindex lindex then lindex else - 1, m') \<and> (\<forall>J I. slots J m' I = slots J m I)"
  by (cases s) (auto simp: shown_as_def Let_def)

lemma OnMotionTracking_simps:
  "CurrentParametric m = None \<Longrightarrow> OnMotionTracking fl s index scrnindex del m = Ret (- 1, m)"
  "CurrentParametric m = Some mode \<Longrightarrow> 0 \<le> index \<Longrightarrow> OnMotionTracking fl s index scrnindex False m = shown_as fl s index scrnindex mode m"
  "CurrentParametric m = Some mode \<Longrightarrow> first_unused 0 (mTracingIndex m) = - 1 \<Longrightarrow> OnMotionTracking fl s (- 1) scrnindex False m = Ret (- 1, m)"
  "CurrentParametric m = Some mode \<Longrightarrow> first_unused 0 (mTracingIndex m) = int i \<Longrightarrow>
     OnMotionTracking fl s (- 1) scrnindex False m = shown_as fl s (int i) scrnindex mode (m\<lparr>mTracingIndex := (mTracingIndex m)[i := True]\<rparr>)"
  by (cases s; simp add: OnMotionTracking_def shown_as_def GetTrackingCanUse_def Let_def)+

text \<open>The next free index is taken by a new frame, also when the frame is refused.\<close>

lemma OnMotionTracking_new:
  assumes "slots J m I" "CurrentParametric m = Some mode"
  obtains "OnMotionTracking fl s (- 1) scrn False m = Ret (- 1, m)" "first_unused 0 (mTracingIndex m) = - 1"
  | i m' where "OnMotionTracking fl s (- 1) scrn False m = Ret (if canupdate mode scrn (int i) then int i else - 1, m')" "int i \<notin> I" "slots J m' (insert (int i) I)"
      "slots J m' I" "slots (insert (int i) J) m' I" "first_unused 0 (mTracingIndex m) = int i"
proof -
  have len: "length (mTracingIndex m) = 5" using assms(1) by (simp add: slots_def)
  from first_unused_cases [of 0 "mTracingIndex m"] consider "first_unused 0 (mTracingIndex m) = - 1"
    | i where "i < 5" "first_unused 0 (mTracingIndex m) = int i" "\<not> mTracingIndex m ! i" by (auto simp: len)
  then show thesis
  proof cases
    case 1
    then show thesis using that(1) OnMotionTracking_simps(3) [OF assms(2)] by simp
  next
    case 2
    obtain m' where "OnMotionTracking fl s (- 1) scrn False m = Ret (if canupdate mode scrn (int i) then int i else - 1, m')"
      "\<forall>J I. slots J m' I = slots J (m\<lparr>mTracingIndex := (mTracingIndex m)[i := True]\<rparr>) I"
      using shown_as_slots [of fl s "int i" scrn mode] OnMotionTracking_simps(4) [OF assms(2) 2(2)] by metis
    then show thesis using that(2) slots_mark [OF assms(1) 2(1,3)] 2(2) by blast
  qed
qed

interpretation display: tracking_listener "OnMotionTracking fl" "slots J" for fl J
proof
  show "0 \<le> i" if "slots J c I" "i \<in> I" for c I i using that by (auto simp: slots_def)
  show "\<exists>r c'. OnMotionTracking fl s i scrn False c = Ret (r, c') \<and> (r = i \<and> slots J c' I \<or> r < 0 \<and> slots J c' (I - {i}))"
    if h: "slots J c I" "i \<in> I" for c I i s scrn
  proof (cases "CurrentParametric c")
    case None
    then show ?thesis using slots_less [OF h(1)] by (simp add: OnMotionTracking_simps)
  next
    case (Some mode)
    have "0 \<le> i" using h by (auto simp: slots_def)
    moreover obtain c' where "shown_as fl s i scrn mode c = Ret (if canupdate mode scrn i then i else - 1, c')" "\<forall>J I. slots J c' I = slots J c I"
      using shown_as_slots by blast
    ultimately show ?thesis using Some slots_less [OF h(1)] h(1) by (auto simp: OnMotionTracking_simps)
  qed
  show "\<exists>r c'. OnMotionTracking fl s (- 1) scrn False c = Ret (r, c') \<and> (r \<notin> I \<and> slots J c' (insert r I) \<or> r < 0 \<and> slots J c' I)"
    if h: "slots J c I" for c I s scrn
  proof (cases "CurrentParametric c")
    case None
    then show ?thesis using h by (simp add: OnMotionTracking_simps)
  next
    case (Some mode)
    show ?thesis by (rule OnMotionTracking_new [OF h Some, of fl s scrn]) (use h in auto)
  qed
  show "\<exists>r c'. OnMotionTracking fl s i scrn True c = Ret (r, c') \<and> slots J c' (I - {i})" if h: "slots J c I" "i \<in> I" for c I i s scrn
  proof (cases "CurrentParametric c")
    case None
    then show ?thesis using slots_less [OF h(1)] by (simp add: OnMotionTracking_simps)
  next
    case (Some mode)
    have "0 \<le> i" "i < int (length (mTracingIndex c))" using h by (auto simp: slots_def)
    then show ?thesis using Some slots_drop [OF h] by (cases s) (simp add: OnMotionTracking_def)
  qed
qed

section \<open>Pictures one after the other\<close>

definition display_ok :: "int set \<Rightarrow> display \<Rightarrow> bool" where
  "display_ok J D \<longleftrightarrow> display.tracking_ok J (tracker D) \<and> length (mMotion D) = 3 \<and> length (mFramecount D) = 4"

lemma DetectTracking_display:
  assumes "display_ok J D" "picture px"
  obtains T where "DetectTracking (Some (OnMotionTracking fl)) px scrn (tracker D) = Ret T" "display_ok J (D\<lparr>tracker := T\<rparr>)"
  using display.DetectTracking_held [OF assms(2), of J "tracker D" fl scrn] assms(1) that by (auto simp: display_ok_def)

lemma render_screens_ok:
  assumes "display_ok J D" "\<forall>i. picture (shot i)"
  shows "\<exists>D'. render_screens fl shot is D = Ret D' \<and> display_ok J D' \<and> mFramecount D' = mFramecount D"
  using assms(1)
proof (induction "is" arbitrary: D)
  case (Cons i "is")
  show ?case
  proof (cases "mHaveTexture D ! i = 0")
    case False
    let ?D = "D\<lparr>mMotion := (mMotion D)[i := md_DrawSelf fl (mMotion D ! i)]\<rparr>"
    have "display_ok J ?D" using Cons.prems by (simp add: display_ok_def)
    moreover have "picture (shot i)" using assms(2) by blast
    ultimately obtain T where T: "DetectTracking (Some (OnMotionTracking fl)) (shot i) (int i) (tracker ?D) = Ret T" "display_ok J (?D\<lparr>tracker := T\<rparr>)"
      by (rule DetectTracking_display)
    have "display_ok J (?D\<lparr>tracker := T, mHaveTexture := (mHaveTexture D)[i := mHaveTexture D ! i - 1]\<rparr>)" using T(2) by (simp add: display_ok_def)
    from Cons.IH [OF this] show ?thesis using False T(1) by simp
  qed (use Cons in simp)
qed simp

text \<open>What can happen: a picture comes for the screen \<open>index\<close>, options and switches are set, and the user changes the screen or turns it.\<close>

inductive display_step :: "fl \<Rightarrow> display \<Rightarrow> display \<Rightarrow> bool" for fl where
  picture: "\<forall>i. picture (shot i) \<Longrightarrow> TextureAvaible fl fresh shot w h index D = Ret D' \<Longrightarrow> display_step fl D D'"
| options: "display_step fl D (SetupMotionTrackingOptions objsize dropsecond D)"
| start: "StartMotionTracking index D = Ret D' \<Longrightarrow> display_step fl D D'"
| stop: "StopMotionTracking index D = Ret D' \<Longrightarrow> display_step fl D D'"
| screen: "display_step fl D (D\<lparr>tracker := (tracker D)\<lparr>client := (client (tracker D))\<lparr>CurrentParametric := md, screen_pos := pos, window_width := w, window_height := h\<rparr>\<rparr>\<rparr>)"

inductive display_reach :: "fl \<Rightarrow> display \<Rightarrow> display \<Rightarrow> bool" for fl where
  here: "display_reach fl D D"
| step: "display_reach fl D D' \<Longrightarrow> display_step fl D' D'' \<Longrightarrow> display_reach fl D D''"

inductive_cases display_stepE: "display_step fl D D'"

lemma tracking_LoadTexture_ok:
  assumes "display_ok J D" "0 \<le> index" "index \<noteq> 3"
  shows "\<exists>D'. tracking_LoadTexture fresh w h index D = Ret D' \<and> display_ok J D' \<and> mFramecount D' = mFramecount D"
  using assms by (auto simp: tracking_LoadTexture_def display_ok_def Let_def)

lemma TextureAvaible_ok:
  assumes ok: "display_ok J D" and shot: "\<forall>i. picture (shot i)" and index: "0 \<le> index"
  shows "if CurrentParametric (client (tracker D)) \<in> {None, Some SCRN_NORMAL} \<or> 0 < index \<or> mFramecount D ! 0 \<noteq> 2147483647
    then \<exists>D'. TextureAvaible fl fresh shot w h index D = Ret D' \<and> display_ok J D' else TextureAvaible fl fresh shot w h index D = UB SignedOverflow"
proof -
  let ?load = "if mMotionTracking D ! nat index \<noteq> 0 \<and> c_mod (mFramecount D ! 0) 3 = 0 then bnd (tracking_LoadTexture fresh w h index D) (RenderFBO fl shot) else Ret D"
  have load: "\<exists>D'. ?load = Ret D' \<and> display_ok J D' \<and> mFramecount D' = mFramecount D" if zero: "index = 0"
  proof -
    obtain D1 where D1: "tracking_LoadTexture fresh w h index D = Ret D1" "display_ok J D1" "mFramecount D1 = mFramecount D"
      using tracking_LoadTexture_ok [OF ok index, of fresh w h] zero by force
    from render_screens_ok [OF D1(2) shot, of fl "[0, 1, 2]"] show ?thesis using ok D1 by (auto simp: RenderFBO_def)
  qed
  show ?thesis
  proof (cases "CurrentParametric (client (tracker D))")
    case (Some mode)
    show ?thesis
    proof (cases "mode = SCRN_NORMAL \<or> 0 < index")
      case False
      then have i: "index = 0" using index by simp
      obtain D1 where D1: "?load = Ret D1" "display_ok J D1" "mFramecount D1 = mFramecount D" using load [OF i] by blast
      have "TextureAvaible fl fresh shot w h index D = (if mFramecount D ! 0 = 2147483647 then UB SignedOverflow
          else Ret (D1\<lparr>mFramecount := (mFramecount D1)[0 := mFramecount D1 ! 0 + 1]\<rparr>))"
        unfolding TextureAvaible_def Some option.case D1(1) bnd_simps using False i D1(3) by simp
      moreover have "display_ok J (D1\<lparr>mFramecount := (mFramecount D1)[0 := mFramecount D1 ! 0 + 1]\<rparr>)" using D1(2) by (simp add: display_ok_def)
      ultimately show ?thesis using False Some i by auto
    qed (use ok Some in \<open>auto simp: TextureAvaible_def\<close>)
  qed (use ok in \<open>simp add: TextureAvaible_def\<close>)
qed

lemma TextureAvaible_keeps:
  assumes "display_ok J D" "\<forall>i. picture (shot i)" "TextureAvaible fl fresh shot w h index D = Ret D'"
  shows "display_ok J D'"
proof (cases "0 \<le> index")
  case True
  show ?thesis using TextureAvaible_ok [OF assms(1,2) True, of fl fresh w h] assms(3) by (auto split: if_splits)
qed (use assms in \<open>auto simp: TextureAvaible_def split: option.splits if_splits\<close>)

lemma display_step_ok: "display_step fl D D' \<Longrightarrow> display_ok J D \<Longrightarrow> display_ok J D'"
proof (induction rule: display_step.induct)
  case (picture shot fresh w h index D D')
  then show ?case by (rule TextureAvaible_keeps [rotated 1])
next
  case screen
  have "slots J (c\<lparr>CurrentParametric := md, screen_pos := pos, window_width := w, window_height := h\<rparr>) I = slots J c I" for c I md pos w h by (simp add: slots_def)
  then show ?case using screen by (simp add: display_ok_def display.tracking_ok_def)
qed (auto simp: display_ok_def display.tracking_ok_def SetupMotionTrackingOptions_def StartMotionTracking_def StopMotionTracking_def split: if_splits)

lemma display_reach_ok: "display_reach fl D D' \<Longrightarrow> display_ok J D \<Longrightarrow> display_ok J D'"
  by (induction rule: display_reach.induct) (auto intro: display_step_ok)

lemma InitManager_ok: "length ds = 3 \<Longrightarrow> length fc = 4 \<Longrightarrow> display_ok {} (InitManager m ds ws hs fc)"
  by (simp add: display_ok_def InitManager_def GPUMotionTracking_new_def display.tracking_ok_def slots_def)

section \<open>Properties\<close>


text \<open>A new frame that the screen has no use for is refused, and the index that \<open>GetTrackingCanUse\<close> marked for it stays marked.\<close>

lemma refused_marks:
  assumes "slots J m I" "CurrentParametric m = Some mode" "first_unused 0 (mTracingIndex m) = j" "0 \<le> j" "\<not> canupdate mode scrn j"
  shows "\<exists>m'. OnMotionTracking fl s (- 1) scrn False m = Ret (- 1, m') \<and> slots (insert j J) m' I"
  by (rule OnMotionTracking_new [OF assms(1,2), of fl s scrn]) (use assms(3-5) in auto)

text \<open>
  An index that is marked and that no frame has is lost: whatever pictures, options, starts, stops and changes of the screen follow, it stays marked and no frame gets it. The example shows how an
  index is lost: a new frame on a screen that has no use for its index is refused without giving the index back.
\<close>

theorem lost_index_stays:
  assumes "display_reach fl (InitManager m ds ws hs fc) D" "length ds = 3" "length fc = 4"
    and "0 \<le> j" "j < 5" "mTracingIndex (client (tracker D)) ! nat j" "\<forall>t\<in>set (mTrackingFrame (tracker D)). tf_index t \<noteq> j"
    and "display_reach fl D D'"
  shows "mTracingIndex (client (tracker D')) ! nat j \<and> (\<forall>t\<in>set (mTrackingFrame (tracker D')). tf_index t \<noteq> j)"
proof -
  have "display_ok {} D" by (rule display_reach_ok [OF assms(1) InitManager_ok [OF assms(2,3)]])
  then have "display_ok {j} D" using assms(4-7) by (auto simp: display_ok_def display.tracking_ok_def slots_def)
  from display_reach_ok [OF assms(8) this] show ?thesis by (auto simp: display_ok_def display.tracking_ok_def slots_def)
qed

section \<open>Examples\<close>

definition demo_display :: "int \<Rightarrow> display" where
  "demo_display mode = InitManager \<lparr>CurrentParametric = Some mode, screen_pos = vec3 0 0 0, mTracingIndex = [], window_width = 800, window_height = 600, screen_calls = []\<rparr>
     (replicate 3 \<lparr>md_surface = demo_surface, mLastTexID = 0, mCurrentTexID = 0\<rparr>) [0, 0, 0, 0] [0, 0, 0, 0] [0, 0, 0, 0]"


text \<open>The cylinder follows nothing: one object is seen, and the index 0 is lost.\<close>

lemma lost_example:
  "\<exists>D. display_reach exact (demo_display SCRN_CYLINDER) D \<and> mTracingIndex (client (tracker D)) ! 0 \<and> mTrackingFrame (tracker D) = []"
proof -
  let ?D0 = "demo_display SCRN_CYLINDER"
  define D1 where "D1 = SetupMotionTrackingOptions 1 85 ?D0"
  define D2 where "D2 = D1\<lparr>mMotionTracking := (mMotionTracking D1)[0 := 1]\<rparr>"
  have r2: "display_reach exact ?D0 D2"
  proof -
    have "display_step exact ?D0 D1" unfolding D1_def by (rule display_step.options)
    moreover have "display_step exact D1 D2" by (rule display_step.start [of 0]) (simp add: StartMotionTracking_def D2_def)
    ultimately show ?thesis by (blast intro: display_reach.intros)
  qed
  obtain f where f: "scan_points one_point points [] 0 = Ret ([f], 0 + 1)" "in_grid f" "tf_area f = area_in one_point f" "0 < tf_area f"
    using one_point_scan by blast
  obtain m where m: "client (tracker D2) = m" "mTracingIndex m = replicate 5 False" "CurrentParametric m = Some SCRN_CYLINDER"
    by (simp add: D2_def D1_def SetupMotionTrackingOptions_def demo_display_def InitManager_def GPUMotionTracking_new_def)
  have on: "OnMotionTracking exact s (- 1) 0 False m = Ret (- 1, m\<lparr>mTracingIndex := [True, False, False, False, False]\<rparr>)" for s
    using m(2,3) by (cases s) (simp add: OnMotionTracking_def GetTrackingCanUse_def canupdate_def SCRN_CYLINDER_def SCRN_HEMISPHERE_def SCRN_FOUR_def SCRN_THREE_def
      SCRN_SIX_def SCRN_FOUREX_def numeral_eq_Suc Let_def)
  have T: "mTrackingFrame (tracker D2) = []" "mObjectSize (tracker D2) = 1" "tf_live (tracker D2) = 0"
    by (simp_all add: D2_def D1_def SetupMotionTrackingOptions_def demo_display_def InitManager_def GPUMotionTracking_new_def)
  define T' where "T' = (tracker D2)\<lparr>mTrackingFrame := [], tf_live := 0, client := m\<lparr>mTracingIndex := [True, False, False, False, False]\<rparr>\<rparr>"
  have detect: "DetectTracking (Some (OnMotionTracking exact)) one_point 0 (tracker D2) = Ret T'"
    using f T m(1) on by (simp add: DetectTracking_def intersectFrame_def Let_def GetFrameArea_grid [OF one_point_lit(1)] resizeFrame_grid T'_def)
  have "\<exists>D. TextureAvaible exact 7 (\<lambda>_. one_point) 640 480 0 D2 = Ret D \<and> tracker D = T'"
    using m(1,3) detect by (simp add: TextureAvaible_def tracking_LoadTexture_def RenderFBO_def D2_def D1_def SetupMotionTrackingOptions_def demo_display_def InitManager_def
      SCRN_NORMAL_def SCRN_CYLINDER_def c_mod_def c_div_def Let_def numeral_eq_Suc)
  then obtain D where D: "TextureAvaible exact 7 (\<lambda>_. one_point) 640 480 0 D2 = Ret D" "tracker D = T'" by blast
  have "display_step exact D2 D" by (rule display_step.picture [OF _ D(1)]) (simp add: one_point_lit(1))
  then have "display_reach exact ?D0 D" by (rule display_reach.step [OF r2])
  then show ?thesis using D(2) by (auto simp: T'_def)
qed

theorem lost_index_stays_witness:
  "\<exists>D. display_reach exact (demo_display SCRN_CYLINDER) D \<and>
    (\<forall>D'. display_reach exact D D' \<longrightarrow> mTracingIndex (client (tracker D')) ! nat 0 \<and> (\<forall>t\<in>set (mTrackingFrame (tracker D')). tf_index t \<noteq> 0))"
proof -
  obtain D where D: "display_reach exact (demo_display SCRN_CYLINDER) D" "mTracingIndex (client (tracker D)) ! nat 0" "mTrackingFrame (tracker D) = []"
    using lost_example by auto
  then show ?thesis using lost_index_stays [OF D(1) [unfolded demo_display_def], of 0] by auto
qed

end
