(* ===== verification/Spec2Isabelle.thy ===== *)
theory Spec2Isabelle
  imports AudioOutput MediaBufferClaims SmartLink AL_Ring AL_Thunk AL_MixerSteps G711 H264Sps H265Sps PtrList Md5 LibcSupport MinidumpFileWriter FileDownload RangeMap Connections Animation FishEyeCrop MotionDisplay
begin

text \<open>
  The native video library of the repository, the C and C++ code below
  \<^verbatim>\<open>src/jagles/src/main/jni\<close>. All paths in the development are relative to that directory.

  \<^bold>\<open>The program.\<close> An Android application shows the videos of network cameras. A connection
  (\<^verbatim>\<open>gles/Network\<close>) talks to a camera through one of two peer-to-peer libraries, takes commands of the application
  from a queue and receives frames, recordings and files. Frames go through the media buffer (\<^verbatim>\<open>gles/Utils\<close>)
  to decoders and recorders (\<^verbatim>\<open>gles/Media\<close>), sound through the G.711 decoder to OpenAL
  (\<^verbatim>\<open>3rdparty/OpenAL-soft-android\<close>), pictures to the surfaces of the renderer (\<^verbatim>\<open>gles/GLES\<close>), which are laid out as a
  wall of videos and moved by animations. New cameras learn the wireless network by smart link (\<^verbatim>\<open>smartLink\<close>). A crash
  is written to a minidump file (\<^verbatim>\<open>breakpad\<close>).

  \<^bold>\<open>Conventions\<close> (\<open>Prelude\<close>, \<open>CFloat\<close>). The ABI is armeabi-v7a: pointers and \<open>size_t\<close> have 32 bits, \<open>char\<close>
  is unsigned, memory is little endian. An unsigned integer is a word of its width; a signed one is an \<open>int\<close> whose overflow is
  \<open>UB\<close> or is wrapped in the places where the code can reach it. A function returns \<open>Ret\<close>, runs into undefined behaviour \<open>UB\<close>
  with its reason, or is \<open>Blocked\<close> on a mutex. Memory is a list of bytes where the code reads back what it wrote
  in another shape, and a heap of objects with addresses where it frees and aliases them. A section under a lock is one step.
  \<open>CFloat\<close> has IEEE-754 binary32 and binary64 with rounding to nearest, exact for the operations that the code uses; the
  renderer works with reals and a rounding function \<open>fl\<close> that is a parameter.

  \<^bold>\<open>Components.\<close>

  \<^item> Media buffer, \<^verbatim>\<open>gles/Utils/mediabuffer.c\<close>: \<open>MediaBuffer\<close> has the handle and every operation over the raw block,
    \<open>MediaBufferProps\<close> the layout of frames in it, \<open>MediaBufferClaims\<close> the properties. As long as the frames fit it is the locale
    \<open>frame_channel\<close> of the prelude, a queue that every reader follows; readers that were overtaken resume at the last key frame;
    a write overruns the block exactly when the frame is larger than it; after a wrap the walk back can go round for ever.
  \<^item> Pointer list, \<^verbatim>\<open>gles/Utils/list.h\<close>: \<open>PtrList\<close>, over a heap, against lists. The loops are partial functions and
    are shown to end on every list.
  \<^item> Connections, \<^verbatim>\<open>gles/Network\<close>. \<open>ConnectString\<close>: the address and login strings (\<open>ParseConnectString\<close>, with
    \<open>strtok\<close> and \<open>atoi\<close>). \<open>Connector\<close>: \<open>JAP2PManager\<close> with its subclasses \<open>JAP2PConnector\<close> and \<open>JAP2PConnector2\<close>, their virtual
    functions, and the list of connectors that connections share. \<open>Sharing\<close>: the users of a connector are counted; the locale
    \<open>shared_pool\<close> says what a client may rely on and is interpreted on \<open>CreateConnector\<close> and \<open>DestroyConnector\<close>; how frames are
    routed to several connections. \<open>Connection\<close>: the command queue of \<open>JAConnect\<close>, the commands, the task thread.
    \<open>ConnectionSafe\<close>: the invariant of a connection and that every command keeps it. \<open>Connections\<close>: a step relation for
    several connections, of calls of the application, rounds of the task threads, threads that disconnect and messages of the libraries,
    each call, round, disconnection or message being one step; in all reachable states the next round of every thread returns, unless it
    frees distortion data a second time or a search fails (it gives \<open>NULL\<close> to the older connector, or more than 200 records). What a call of a peer-to-peer library returns is a parameter that depends
    on the calls made before; the calls are recorded. A search for recordings gives finitely many.
  \<^item> File download, \<^verbatim>\<open>ConnectManager.cpp\<close> and \<^verbatim>\<open>JAConnect.cpp\<close>: \<open>FileDownload\<close>. However the messages are cut and
    interleaved with the thread, the file has the payloads in order and the thread ends; the pool overruns exactly when
    what has arrived, less what the thread took off, exceeds it.
  \<^item> Picture sizes, \<^verbatim>\<open>gles/Media/h264wh.cpp\<close> and \<^verbatim>\<open>h265wh.cpp\<close>: \<open>BitReader\<close> (Exp-Golomb codes), \<open>H264Sps\<close>,
    \<open>H265Sps\<close>. The size written into a parameter set is read back (H.264: sets without scaling lists; H.265: with 4:2:0 chroma), whatever the other elements are; the fast search for start codes is the plain one.
  \<^item> Sound. \<open>G711\<close> (\<^verbatim>\<open>gles/Media/ag711.cpp\<close>): both laws, their round trip and error. \<open>AudioOutput\<close>
    (\<^verbatim>\<open>gles/Media/OpenALManager.cpp\<close>): the queue of packets on a source, on top of the theories of OpenAL:
    \<open>AL_UIntMap\<close> (the maps from names to objects, locale \<open>handle_map\<close>), \<open>AL_Thunk\<close> (locale \<open>name_supply\<close>), \<open>AL_Ring\<close> (the
    capture ring, locale \<open>bounded_queue\<close>), \<open>AL_Context\<close> (objects; the locale \<open>object_gen\<close> for creating several at once), \<open>AL_Filter\<close>, \<open>AL_Buffer\<close>,
    \<open>AL_Source\<close> and \<open>AL_Playback\<close> (\<^verbatim>\<open>alSource.c\<close>), \<open>AL_Mixer\<close> (\<^verbatim>\<open>Alc/mixer.c\<close>, \<^verbatim>\<open>Alc/ALu.c\<close>).
    \<open>AL_SourceInv\<close> and \<open>AL_SourceSafe\<close> show that reference counts of buffers are exact, so that no source follows a pointer to a deleted
    buffer; \<open>AL_MixerProps\<close> and \<open>AL_MixerSteps\<close> that the loops of the mixer end and which bytes of a queue they take.
  \<^item> Renderer, \<^verbatim>\<open>gles/GLES\<close>. \<open>GLESMath\<close>: the matrix library; \<open>Surface\<close>: \<^verbatim>\<open>ParametricSurface.cpp\<close>, its
    textures and triangles; \<open>NormalPlay\<close>: the rectangle of one video, its zoom and pan and what its shaders show; \<open>SplitScreen\<close>:
    \<^verbatim>\<open>NormalScreen.cpp\<close>, the wall of 36 videos with its layouts, pages and selection; \<open>Animation\<close>: the animations of
    \<^verbatim>\<open>ParametricManager.cpp\<close>, for every surface with the laws of the locale \<open>animated_surface\<close>, interpreted on the wall and
    on a plain surface; \<open>FishEyeCrop\<close>: the search for the picture of a fish-eye camera (\<^verbatim>\<open>gles/Media/JAPlayer.cpp\<close>).
  \<^item> Motion tracking, \<^verbatim>\<open>gles/GLES/GPUMotionTracking.cpp\<close>, the parts of \<^verbatim>\<open>GPUMotionDetection.cpp\<close> that it calls, and the functions of
    \<^verbatim>\<open>gles/platform/Android/GLVideoDisplay.cpp\<close> that start, feed and answer it. \<open>MotionTracking\<close>: frames around white points and how they are followed, for every
    listener with the laws of the locale \<open>tracking_listener\<close>; \<open>MotionDisplay\<close>: the listener of the application, on which it is interpreted. At most five frames
    are followed, with different indices; indices that were refused are lost.
  \<^item> Smart link, \<^verbatim>\<open>smartLink\<close>: \<open>SmartLink\<close>. The lengths of the datagrams decode to the message.
  \<^item> Crash reports, \<^verbatim>\<open>breakpad\<close>. \<open>ConvertUTF\<close>, \<open>ConvertUTFClaims\<close> and \<open>StringConversion\<close>: Unicode against the encoding forms
    of the standard; \<open>Md5\<close>; \<open>LibcSupport\<close>; \<open>MinidumpFileWriter\<close>: allocations of the dump file are disjoint and hold what was written; \<open>RangeMap\<close>:
    the maps from address ranges that the processor uses, against sets of ranges.

  \<^bold>\<open>Loops and fuel.\<close> A loop that may run for ever is a \<open>partial_function (option)\<close>, \<open>None\<close> being that it does. Proved to end: the loops of the
  pointer list on every list, \<open>StoreRangeInternal\<close> on every map and range, the loops of the mixer for every source of the invariant, the filling of the triangle
  buffers for a positive integer step. Proved not to end in cases that are given exactly: the walk back in the media buffer and a download that
  receives a negative length. The task thread has fuel; one round more than there are commands is enough. The steps of an animation are counted by its own number of steps.

  \<^bold>\<open>Parameters.\<close> Code that is not in the repository: the peer-to-peer libraries, the operating system below the dump writer and the sockets, the results of
  allocations, the names that OpenGL hands out, \<open>sin\<close>, \<open>cos\<close> and \<open>tan\<close>, and the functions that the application registers as callbacks. What uninitialised memory holds is an argument.

  \<^bold>\<open>Not modelled.\<close>

  \<^item> The decoding and recording threads (\<^verbatim>\<open>JAMedia.cpp\<close>, \<^verbatim>\<open>JAPlayer.cpp\<close>, \<open>HandleDecodeThread\<close> of \<^verbatim>\<open>JAConnect.cpp\<close>): they pass packets between
    functions of ffmpeg, which the repository has as headers and binaries only.
  \<^item> Gestures and the switching of screens in \<^verbatim>\<open>ParametricManager.cpp\<close>, and the other screens (spheres, cylinder, stitched pictures, VR): sequences of OpenGL calls and constants
    found by trial, with no contract to state but what they draw. Shaders, apart from what the two of \<open>NormalPlay\<close> compute.
  \<^item> The shaders of the motion detection and the thread of trackers without a frame buffer, text and image loading through Android.
  \<^item> The rest of the JNI layer (\<^verbatim>\<open>gles/platform/Android\<close>), which converts arguments, and the Java code.
  \<^item> Of OpenAL: effects, the arithmetic on samples, device back ends, listeners and the parameters of sources that the application never sets.
  \<^item> Of breakpad: the processor other than the range maps, the readers of debug information and the handlers for signals, which are other programs or run only after a crash.
\<close>

end
